(* ===== verification/Pvr_Prelude.thy ===== *)
theory Pvr_Prelude
  imports Main "HOL-Library.Word" "HOL-Library.Multiset"
begin

text \<open>
  Shared material of the development: the machine types of \<^verbatim>\<open>src/pvr/img_types.h\<close>, the error
  codes of \<^verbatim>\<open>src/pvr/servicesext.h\<close>, the kernel allocator behind \<^verbatim>\<open>OSAllocMem\<close>
  as a list of answers, the interface locale for operation-closed invariants, and the generic
  lemmas on words and lists that the component theories use.
\<close>

unbundle bit_operations_syntax

named_theorems pvr_defs \<open>definitions of small helper operations, unfolded in component proofs\<close>

subsection \<open>Machine types\<close>

type_synonym u32 = "32 word"

text \<open>Pointers are 32-bit addresses on the target; \<open>NULL\<close> is the address 0.\<close>

type_synonym ptr = "32 word"

abbreviation (input) NULL :: ptr where
  "NULL \<equiv> 0"

subsection \<open>Error codes (\<^verbatim>\<open>enum PVRSRV_ERROR\<close>)\<close>

datatype PVRSRV_ERROR =
    PVRSRV_OK
  | PVRSRV_ERROR_GENERIC
  | PVRSRV_ERROR_OUT_OF_MEMORY
  | PVRSRV_ERROR_TOO_FEW_BUFFERS
  | PVRSRV_ERROR_SYMBOL_NOT_FOUND
  | PVRSRV_ERROR_OUT_OF_HSPACE
  | PVRSRV_ERROR_INVALID_PARAMS
  | PVRSRV_ERROR_TILE_MAP_FAILED
  | PVRSRV_ERROR_INIT_FAILURE
  | PVRSRV_ERROR_CANT_REGISTER_CALLBACK
  | PVRSRV_ERROR_INVALID_DEVICE
  | PVRSRV_ERROR_NOT_OWNER
  | PVRSRV_ERROR_BAD_MAPPING
  | PVRSRV_ERROR_TIMEOUT
  | PVRSRV_ERROR_NO_PRIMARY
  | PVRSRV_ERROR_FLIP_CHAIN_EXISTS
  | PVRSRV_ERROR_CANNOT_ACQUIRE_SYSDATA
  | PVRSRV_ERROR_SCENE_INVALID
  | PVRSRV_ERROR_STREAM_ERROR
  | PVRSRV_ERROR_INVALID_INTERRUPT
  | PVRSRV_ERROR_FAILED_DEPENDENCIES
  | PVRSRV_ERROR_CMD_NOT_PROCESSED
  | PVRSRV_ERROR_CMD_TOO_BIG
  | PVRSRV_ERROR_DEVICE_REGISTER_FAILED
  | PVRSRV_ERROR_FIFO_SPACE
  | PVRSRV_ERROR_TA_RECOVERY
  | PVRSRV_ERROR_INDOSORLOWPOWER
  | PVRSRV_ERROR_TOOMANYBUFFERS
  | PVRSRV_ERROR_NOT_SUPPORTED
  | PVRSRV_ERROR_PROCESSING_BLOCKED
  | PVRSRV_ERROR_CANNOT_FLUSH_QUEUE
  | PVRSRV_ERROR_CANNOT_GET_QUEUE_SPACE
  | PVRSRV_ERROR_CANNOT_GET_RENDERDETAILS
  | PVRSRV_ERROR_RETRY
  | PVRSRV_ERROR_DDK_VERSION_MISMATCH
  | PVRSRV_ERROR_BUILD_MISMATCH

subsection \<open>The kernel allocator\<close>

text \<open>
  \<^verbatim>\<open>OSAllocMem\<close> ends in the kernel's \<open>kmalloc\<close> or \<open>vmalloc\<close>, which are not part of
  the repository. Their behaviour is a parameter of every operation that allocates: the list
  \<open>km\<close> of the addresses they answer to the allocation requests to come, in order. The answer
  \<open>NULL\<close> is a failed allocation, and an exhausted list fails every further request, so every
  finite behaviour of the allocator is some list.
\<close>

type_synonym kmem = "ptr list"

fun OSAllocMem :: "kmem \<Rightarrow> PVRSRV_ERROR \<times> ptr \<times> kmem" where
  "OSAllocMem [] = (PVRSRV_ERROR_OUT_OF_MEMORY, NULL, [])"
| "OSAllocMem (p # km) =
     (if p = NULL then (PVRSRV_ERROR_OUT_OF_MEMORY, NULL, km) else (PVRSRV_OK, p, km))"

lemma OSAllocMem_cases:
  obtains (fail) km' where "OSAllocMem km = (PVRSRV_ERROR_OUT_OF_MEMORY, NULL, km')"
      "set km' \<subseteq> set km" "length km' \<le> length km" "distinct km \<Longrightarrow> distinct km'"
  | (ok) p km' where "OSAllocMem km = (PVRSRV_OK, p, km')" "km = p # km'" "p \<noteq> NULL"
proof (cases km)
  case Nil
  then show ?thesis using fail [of "[]"] by simp
next
  case (Cons q qs)
  then show ?thesis using fail [of qs] ok [of q qs] by (cases "q = NULL") auto
qed

subsection \<open>Interface: a state with operations that keep an invariant\<close>

text \<open>
  Every stateful component below is used through its operations only. The locale fixes the
  set of states the component may start in, the steps its operations make and the invariant;
  its law is that the invariant holds at the start and across one step, and its conclusion is
  that the invariant holds after any sequence of steps.
\<close>

inductive reachable_from :: "('s \<Rightarrow> bool) \<Rightarrow> ('s \<Rightarrow> 's \<Rightarrow> bool) \<Rightarrow> 's \<Rightarrow> bool"
  for init :: "'s \<Rightarrow> bool" and step :: "'s \<Rightarrow> 's \<Rightarrow> bool" where
  start: "init s \<Longrightarrow> reachable_from init step s"
| next_step: "reachable_from init step s \<Longrightarrow> step s t \<Longrightarrow> reachable_from init step t"

locale invariant_system =
  fixes init :: "'s \<Rightarrow> bool"
    and step :: "'s \<Rightarrow> 's \<Rightarrow> bool"
    and inv :: "'s \<Rightarrow> bool"
  assumes inv_init: "init s \<Longrightarrow> inv s"
    and inv_step: "inv s \<Longrightarrow> step s t \<Longrightarrow> inv t"
begin

lemma reachable_inv: "reachable_from init step s \<Longrightarrow> inv s"
  by (induction rule: reachable_from.induct) (auto intro: inv_init inv_step)

lemma run_inv: "step\<^sup>*\<^sup>* s t \<Longrightarrow> inv s \<Longrightarrow> inv t"
  by (induction rule: rtranclp_induct) (auto intro: inv_step)

end

subsection \<open>Words\<close>

lemma unat_mod_less [simp]: "(n :: u32) \<noteq> 0 \<Longrightarrow> unat (x mod n) < unat n"
  by (metis unat_eq_zero unat_mod mod_less_divisor not_gr_zero)

lemma unat_double:
  assumes "unat (x :: u32) < 2 ^ 31"
  shows "unat (push_bit 1 x) = 2 * unat x"
proof -
  have "unat (push_bit 1 x) = (2 * unat x) mod 2 ^ 32"
    by (simp add: push_bit_eq_mult unat_word_ariths mult.commute)
  with assms show ?thesis by simp
qed

subsection \<open>Lists\<close>

lemma mset_concat_update:
  "i < length xss \<Longrightarrow>
   mset (concat (xss[i := ys])) + mset (xss ! i) = mset (concat xss) + mset ys"
proof (induction xss arbitrary: i)
  case Nil
  then show ?case by simp
next
  case (Cons xs xss)
  then show ?case by (cases i) (simp_all add: ac_simps)
qed

end
