(* ===== verification/Pvr_Hash.thy ===== *)
theory Pvr_Hash
  imports Pvr_Prelude
begin

text \<open>
  The chained hash table of \<^verbatim>\<open>src/pvr/hash.c\<close>. A chain of \<^verbatim>\<open>struct BUCKET\<close> is a list,
  head first; a key is the list of its 32-bit words; the table keeps its hash and comparison
  functions as fields, as the C structure does. The operations return the new table next to
  their C result. The theory ends with the interface \<open>bucket_table\<close> that the clients of the
  table use (what a retrieve returns after an insert or a remove), interpreted on the code.
\<close>

subsection \<open>Data\<close>

record BUCKET =
  bk_v :: u32
  bk_k :: "u32 list"

record HASH_TABLE =
  ppBucketTable :: "BUCKET list list"
  uSize :: u32
  uCount :: u32
  uMinimumSize :: u32
  uKeySize :: u32
  pfnHashFunc :: "u32 \<Rightarrow> u32 list \<Rightarrow> u32 \<Rightarrow> u32"
  pfnKeyComp :: "u32 \<Rightarrow> u32 list \<Rightarrow> u32 list \<Rightarrow> bool"

definition PRIVATE_MAX :: "u32 \<Rightarrow> u32 \<Rightarrow> u32" where
  "PRIVATE_MAX a b = (if a > b then a else b)"

definition KEY_TO_INDEX :: "HASH_TABLE \<Rightarrow> u32 list \<Rightarrow> u32 \<Rightarrow> u32" where
  "KEY_TO_INDEX pHash key tabSize = pfnHashFunc pHash (uKeySize pHash) key tabSize mod tabSize"

definition KEY_COMPARE :: "HASH_TABLE \<Rightarrow> u32 list \<Rightarrow> u32 list \<Rightarrow> bool" where
  "KEY_COMPARE pHash pKey1 pKey2 = pfnKeyComp pHash (uKeySize pHash) pKey1 pKey2"

subsection \<open>The default hash and comparison functions\<close>

definition hash_part :: "u32 \<Rightarrow> u32" where
  "hash_part p0 =
     (let p1 = p0 + push_bit 12 p0;
          p2 = p1 XOR drop_bit 22 p1;
          p3 = p2 + push_bit 4 p2;
          p4 = p3 XOR drop_bit 9 p3;
          p5 = p4 + push_bit 10 p4;
          p6 = p5 XOR drop_bit 2 p5;
          p7 = p6 + push_bit 7 p6
      in p7 XOR drop_bit 12 p7)"

fun hash_words :: "u32 list \<Rightarrow> u32 \<Rightarrow> u32" where
  "hash_words [] uHashKey = uHashKey"
| "hash_words (p # ps) uHashKey = hash_words ps (uHashKey + hash_part p)"

definition HASH_Func_Default :: "u32 \<Rightarrow> u32 list \<Rightarrow> u32 \<Rightarrow> u32" where
  "HASH_Func_Default keySize pKey uHashTabLen =
     hash_words (take (unat (keySize div 4)) pKey) 0"

fun comp_words :: "nat \<Rightarrow> u32 list \<Rightarrow> u32 list \<Rightarrow> bool" where
  "comp_words (Suc n) (p1 # ps1) (p2 # ps2) =
     (if p1 \<noteq> p2 then False else comp_words n ps1 ps2)"
| "comp_words _ _ _ = True"

definition HASH_Key_Comp_Default :: "u32 \<Rightarrow> u32 list \<Rightarrow> u32 list \<Rightarrow> bool" where
  "HASH_Key_Comp_Default keySize pKey1 pKey2 = comp_words (unat (keySize div 4)) pKey1 pKey2"

subsection \<open>Chains, rehashing and resizing\<close>

text \<open>
  The number of bytes of a bucket array, \<^verbatim>\<open>sizeof(struct BUCKET *) * uNewSize\<close>, is computed in
  32 bits: from 2^30 buckets on the product wraps and the array that is allocated is shorter than
  its recorded size. A write behind its end is undefined in C, and is \<open>undefined\<close> here.
\<close>

definition bucket_array :: "u32 \<Rightarrow> BUCKET list list" where
  "bucket_array len = replicate (unat (4 * len) div 4) []"

definition ChainInsert ::
  "HASH_TABLE \<Rightarrow> BUCKET \<Rightarrow> BUCKET list list \<Rightarrow> u32 \<Rightarrow> PVRSRV_ERROR \<times> BUCKET list list" where
  "ChainInsert pHash pBucket tab tabSize =
     (if tabSize = 0 then (PVRSRV_ERROR_INVALID_PARAMS, tab)
      else let uIndex = unat (KEY_TO_INDEX pHash (bk_k pBucket) tabSize)
           in if uIndex < length tab then (PVRSRV_OK, tab[uIndex := pBucket # tab ! uIndex])
              else undefined)"

fun RehashChain ::
  "HASH_TABLE \<Rightarrow> BUCKET list \<Rightarrow> BUCKET list list \<Rightarrow> u32 \<Rightarrow> PVRSRV_ERROR \<times> BUCKET list list" where
  "RehashChain pHash [] new uNewSize = (PVRSRV_OK, new)"
| "RehashChain pHash (b # bs) new uNewSize =
     (case ChainInsert pHash b new uNewSize of
        (e, new') \<Rightarrow> if e \<noteq> PVRSRV_OK then (PVRSRV_ERROR_GENERIC, new')
                     else RehashChain pHash bs new' uNewSize)"

fun Rehash ::
  "HASH_TABLE \<Rightarrow> BUCKET list list \<Rightarrow> BUCKET list list \<Rightarrow> u32 \<Rightarrow> PVRSRV_ERROR \<times> BUCKET list list" where
  "Rehash pHash [] new uNewSize = (PVRSRV_OK, new)"
| "Rehash pHash (chain # old) new uNewSize =
     (case RehashChain pHash chain new uNewSize of
        (e, new') \<Rightarrow> if e \<noteq> PVRSRV_OK then (PVRSRV_ERROR_GENERIC, new')
                     else Rehash pHash old new' uNewSize)"

definition Resize :: "HASH_TABLE \<Rightarrow> u32 \<Rightarrow> kmem \<Rightarrow> bool \<times> HASH_TABLE \<times> kmem" where
  "Resize pHash uNewSize km =
     (if uNewSize \<noteq> uSize pHash then
        (case OSAllocMem km of (e, _, km') \<Rightarrow>
           if e \<noteq> PVRSRV_OK then (False, pHash, km')
           else (case Rehash pHash (ppBucketTable pHash) (bucket_array uNewSize) uNewSize of
                   (e', ppNewTable) \<Rightarrow>
                     if e' \<noteq> PVRSRV_OK then (False, pHash, km')
                     else (True, pHash\<lparr>ppBucketTable := ppNewTable, uSize := uNewSize\<rparr>, km')))
      else (True, pHash, km))"

subsection \<open>The exported operations\<close>

text \<open>The loop that clears the new buckets runs to the requested length.\<close>

definition HASH_Create_Extended ::
  "u32 \<Rightarrow> u32 \<Rightarrow> (u32 \<Rightarrow> u32 list \<Rightarrow> u32 \<Rightarrow> u32) \<Rightarrow> (u32 \<Rightarrow> u32 list \<Rightarrow> u32 list \<Rightarrow> bool) \<Rightarrow> kmem
   \<Rightarrow> HASH_TABLE option \<times> kmem" where
  "HASH_Create_Extended uInitialLen keySize hashFunc keyComp km =
     (case OSAllocMem km of (e1, _, km1) \<Rightarrow>
        if e1 \<noteq> PVRSRV_OK then (None, km1)
        else (case OSAllocMem km1 of (e2, _, km2) \<Rightarrow>
                if e2 \<noteq> PVRSRV_OK then (None, km2)
                else (Some \<lparr>ppBucketTable = (if unat uInitialLen \<le> length (bucket_array uInitialLen)
                                              then bucket_array uInitialLen else undefined),
                            uSize = uInitialLen,
                            uCount = 0, uMinimumSize = uInitialLen, uKeySize = keySize,
                            pfnHashFunc = hashFunc, pfnKeyComp = keyComp\<rparr>, km2)))"

definition HASH_Create :: "u32 \<Rightarrow> kmem \<Rightarrow> HASH_TABLE option \<times> kmem" where
  "HASH_Create uInitialLen km =
     HASH_Create_Extended uInitialLen 4 HASH_Func_Default HASH_Key_Comp_Default km"

definition HASH_Insert_Extended ::
  "HASH_TABLE \<Rightarrow> u32 list \<Rightarrow> u32 \<Rightarrow> kmem \<Rightarrow> bool \<times> HASH_TABLE \<times> kmem" where
  "HASH_Insert_Extended pHash pKey v km =
     (case OSAllocMem km of (e1, _, km1) \<Rightarrow>
        if e1 \<noteq> PVRSRV_OK then (False, pHash, km1)
        else (case ChainInsert pHash
                     \<lparr>bk_v = v, bk_k = take (unat (uKeySize pHash div 4)) pKey\<rparr>
                     (ppBucketTable pHash) (uSize pHash) of (e2, tab) \<Rightarrow>
                if e2 \<noteq> PVRSRV_OK then (False, pHash, km1)
                else let h1 = pHash\<lparr>ppBucketTable := tab, uCount := uCount pHash + 1\<rparr>
                     in if push_bit 1 (uCount h1) > uSize h1
                        then (case Resize h1 (push_bit 1 (uSize h1)) km1 of
                                (_, h2, km2) \<Rightarrow> (True, h2, km2))
                        else (True, h1, km1)))"

definition HASH_Insert :: "HASH_TABLE \<Rightarrow> u32 \<Rightarrow> u32 \<Rightarrow> kmem \<Rightarrow> bool \<times> HASH_TABLE \<times> kmem" where
  "HASH_Insert pHash k v km = HASH_Insert_Extended pHash [k] v km"

text \<open>The search loops walk one chain; the removal loop returns the chain without the bucket.\<close>

fun remove_chain :: "HASH_TABLE \<Rightarrow> u32 list \<Rightarrow> BUCKET list \<Rightarrow> (u32 \<times> BUCKET list) option" where
  "remove_chain pHash pKey [] = None"
| "remove_chain pHash pKey (b # bs) =
     (if KEY_COMPARE pHash (bk_k b) pKey then Some (bk_v b, bs)
      else map_option (\<lambda>(v, bs'). (v, b # bs')) (remove_chain pHash pKey bs))"

fun retrieve_chain :: "HASH_TABLE \<Rightarrow> u32 list \<Rightarrow> BUCKET list \<Rightarrow> u32" where
  "retrieve_chain pHash pKey [] = 0"
| "retrieve_chain pHash pKey (b # bs) =
     (if KEY_COMPARE pHash (bk_k b) pKey then bk_v b else retrieve_chain pHash pKey bs)"

definition HASH_Remove_Extended ::
  "HASH_TABLE \<Rightarrow> u32 list \<Rightarrow> kmem \<Rightarrow> u32 \<times> HASH_TABLE \<times> kmem" where
  "HASH_Remove_Extended pHash pKey km =
     (let uIndex = unat (KEY_TO_INDEX pHash pKey (uSize pHash))
      in case remove_chain pHash pKey (ppBucketTable pHash ! uIndex) of
           None \<Rightarrow> (0, pHash, km)
         | Some (v, chain) \<Rightarrow>
             let h1 = pHash\<lparr>ppBucketTable := (ppBucketTable pHash)[uIndex := chain],
                            uCount := uCount pHash - 1\<rparr>
             in if uSize h1 > push_bit 2 (uCount h1) \<and> uSize h1 > uMinimumSize h1
                then (case Resize h1 (PRIVATE_MAX (drop_bit 1 (uSize h1)) (uMinimumSize h1)) km of
                        (_, h2, km') \<Rightarrow> (v, h2, km'))
                else (v, h1, km))"

definition HASH_Remove :: "HASH_TABLE \<Rightarrow> u32 \<Rightarrow> kmem \<Rightarrow> u32 \<times> HASH_TABLE \<times> kmem" where
  "HASH_Remove pHash k km = HASH_Remove_Extended pHash [k] km"

definition HASH_Retrieve_Extended :: "HASH_TABLE \<Rightarrow> u32 list \<Rightarrow> u32" where
  "HASH_Retrieve_Extended pHash pKey =
     retrieve_chain pHash pKey
       (ppBucketTable pHash ! unat (KEY_TO_INDEX pHash pKey (uSize pHash)))"

definition HASH_Retrieve :: "HASH_TABLE \<Rightarrow> u32 \<Rightarrow> u32" where
  "HASH_Retrieve pHash k = HASH_Retrieve_Extended pHash [k]"

subsection \<open>Invariant and abstraction\<close>

text \<open>
  The invariant of a table: the bucket array has the recorded size, which is below the 2^30 at which
  its byte size wraps (as is the minimum size, to which a removal shrinks it), the count is the number of
  buckets, every bucket is in the chain its key hashes to, and every stored key has the full
  key length. Its contents are the multiset of (key, value) pairs of all buckets.
\<close>

definition key_words :: "HASH_TABLE \<Rightarrow> nat" where
  "key_words h = unat (uKeySize h div 4)"

definition well_placed :: "HASH_TABLE \<Rightarrow> u32 \<Rightarrow> BUCKET list list \<Rightarrow> bool" where
  "well_placed h n tab \<longleftrightarrow>
     (\<forall>i < length tab. \<forall>b \<in> set (tab ! i).
        unat (KEY_TO_INDEX h (bk_k b) n) = i \<and> length (bk_k b) = key_words h)"

definition hash_inv :: "HASH_TABLE \<Rightarrow> bool" where
  "hash_inv h \<longleftrightarrow>
     uSize h \<noteq> 0 \<and> uMinimumSize h \<noteq> 0 \<and> unat (uSize h) < 2 ^ 30 \<and> unat (uMinimumSize h) < 2 ^ 30 \<and>
     length (ppBucketTable h) = unat (uSize h) \<and>
     uCount h = of_nat (length (concat (ppBucketTable h))) \<and>
     well_placed h (uSize h) (ppBucketTable h) \<and>
     pfnKeyComp h = HASH_Key_Comp_Default"

definition bucket_entry :: "BUCKET \<Rightarrow> u32 list \<times> u32" where
  "bucket_entry b = (bk_k b, bk_v b)"

definition entries_of :: "BUCKET list list \<Rightarrow> (u32 list \<times> u32) multiset" where
  "entries_of tab = image_mset bucket_entry (mset (concat tab))"

definition entries :: "HASH_TABLE \<Rightarrow> (u32 list \<times> u32) multiset" where
  "entries h = entries_of (ppBucketTable h)"

text \<open>The parts of a table that no operation changes.\<close>

definition same_config :: "HASH_TABLE \<Rightarrow> HASH_TABLE \<Rightarrow> bool" where
  "same_config h h' \<longleftrightarrow>
     uKeySize h' = uKeySize h \<and> uMinimumSize h' = uMinimumSize h \<and>
     pfnHashFunc h' = pfnHashFunc h \<and> pfnKeyComp h' = pfnKeyComp h"

subsection \<open>Key comparison\<close>

lemma comp_words_iff:
  "length k1 = n \<Longrightarrow> length k2 = n \<Longrightarrow> comp_words n k1 k2 \<longleftrightarrow> k1 = k2"
  by (induction n k1 k2 rule: comp_words.induct) auto

lemma key_compare_iff:
  "pfnKeyComp h = HASH_Key_Comp_Default \<Longrightarrow> length k1 = key_words h \<Longrightarrow> length k2 = key_words h
   \<Longrightarrow> KEY_COMPARE h k1 k2 \<longleftrightarrow> k1 = k2"
  by (simp add: KEY_COMPARE_def HASH_Key_Comp_Default_def key_words_def comp_words_iff)

lemma KEY_TO_INDEX_less: "n \<noteq> 0 \<Longrightarrow> unat (KEY_TO_INDEX h k n) < unat n"
  by (simp add: KEY_TO_INDEX_def)

lemma same_config_index: "same_config h h' \<Longrightarrow> KEY_TO_INDEX h' k n = KEY_TO_INDEX h k n"
  by (simp add: same_config_def KEY_TO_INDEX_def)

lemma same_config_placed: "same_config h h' \<Longrightarrow> well_placed h' n tab = well_placed h n tab"
  by (simp add: well_placed_def same_config_index key_words_def same_config_def KEY_TO_INDEX_def)

subsection \<open>Chain insertion and rehashing\<close>

lemma entries_of_update:
  "i < length tab \<Longrightarrow>
   entries_of (tab[i := c]) + image_mset bucket_entry (mset (tab ! i)) =
   entries_of tab + image_mset bucket_entry (mset c)"
  unfolding entries_of_def image_mset_union [symmetric] by (simp only: mset_concat_update)

lemma well_placed_update:
  assumes "well_placed h n tab" and "\<And>b. b \<in> set c \<Longrightarrow> unat (KEY_TO_INDEX h (bk_k b) n) = i"
    and "\<And>b. b \<in> set c \<Longrightarrow> length (bk_k b) = key_words h"
  shows "well_placed h n (tab[i := c])"
  using assms
  by (cases "i < length tab")
    (auto simp: well_placed_def nth_list_update list_update_beyond split: if_splits)

lemma ChainInsert_spec:
  assumes "n \<noteq> 0" and "length tab = unat n" and "well_placed h n tab"
    and "length (bk_k b) = key_words h"
  obtains tab' where "ChainInsert h b tab n = (PVRSRV_OK, tab')" "length tab' = unat n"
    "well_placed h n tab'" "entries_of tab' = add_mset (bucket_entry b) (entries_of tab)"
    "length (concat tab') = Suc (length (concat tab))"
proof -
  let ?i = "unat (KEY_TO_INDEX h (bk_k b) n)" and ?tab' = "tab[unat (KEY_TO_INDEX h (bk_k b) n) := b # tab ! unat (KEY_TO_INDEX h (bk_k b) n)]"
  have i: "?i < length tab" using assms(1,2) by (simp add: KEY_TO_INDEX_less)
  have "entries_of ?tab' = add_mset (bucket_entry b) (entries_of tab)"
    using entries_of_update [OF i, of "b # tab ! ?i"] by simp
  moreover from this have "size (entries_of ?tab') = Suc (size (entries_of tab))" by simp
  then have "length (concat ?tab') = Suc (length (concat tab))"
    by (simp add: entries_of_def del: mset_concat)
  moreover have "well_placed h n ?tab'"
    using assms(3,4) i by (intro well_placed_update) (auto simp: well_placed_def)
  ultimately show thesis using that [of ?tab'] assms(1,2) i by (simp add: ChainInsert_def Let_def)
qed

lemma RehashChain_spec:
  assumes "n \<noteq> 0" and "length tab = unat n" and "well_placed h n tab"
    and "\<forall>b \<in> set c. length (bk_k b) = key_words h"
  shows "\<exists>tab'. RehashChain h c tab n = (PVRSRV_OK, tab') \<and> length tab' = unat n \<and>
           well_placed h n tab' \<and>
           entries_of tab' = entries_of tab + image_mset bucket_entry (mset c)"
  using assms(2-)
proof (induction c arbitrary: tab)
  case Nil
  then show ?case by simp
next
  case (Cons b c)
  from Cons.prems have b: "length (bk_k b) = key_words h" by simp
  obtain tab' where "ChainInsert h b tab n = (PVRSRV_OK, tab')" and "length tab' = unat n"
    and "well_placed h n tab'" and "entries_of tab' = add_mset (bucket_entry b) (entries_of tab)"
    by (rule ChainInsert_spec [OF assms(1) Cons.prems(1,2) b])
  with Cons.IH [of tab'] Cons.prems(3) show ?case by auto
qed

lemma Rehash_spec:
  assumes "n \<noteq> 0" and "length tab = unat n" and "well_placed h n tab"
    and "\<forall>c \<in> set old. \<forall>b \<in> set c. length (bk_k b) = key_words h"
  shows "\<exists>tab'. Rehash h old tab n = (PVRSRV_OK, tab') \<and> length tab' = unat n \<and>
           well_placed h n tab' \<and> entries_of tab' = entries_of tab + entries_of old"
  using assms(2-)
proof (induction old arbitrary: tab)
  case Nil
  then show ?case by (simp add: entries_of_def)
next
  case (Cons c old)
  from RehashChain_spec [OF assms(1) Cons.prems(1,2), of c] Cons.prems(3)
  obtain tab' where "RehashChain h c tab n = (PVRSRV_OK, tab')" and "length tab' = unat n"
    and "well_placed h n tab'"
    and "entries_of tab' = entries_of tab + image_mset bucket_entry (mset c)"
    by auto
  with Cons.IH [of tab'] Cons.prems(3) show ?case
    by (auto simp: entries_of_def ac_simps)
qed

lemma well_placed_replicate: "well_placed h n (replicate m [])"
  by (simp add: well_placed_def)

lemma entries_of_replicate: "entries_of (replicate m []) = {#}"
  by (simp add: entries_of_def concat_replicate_trivial)

lemma well_placed_keys:
  "well_placed h n tab \<Longrightarrow> c \<in> set tab \<Longrightarrow> b \<in> set c \<Longrightarrow> length (bk_k b) = key_words h"
  by (metis in_set_conv_nth well_placed_def)

lemma entries_length: "size (entries_of tab) = length (concat tab)"
  by (simp add: entries_of_def del: mset_concat)

lemma bucket_array_short:
  assumes "unat n < 2 ^ 30"
  shows "bucket_array n = replicate (unat n) []"
proof -
  have "unat (4 * n) = 4 * unat n" using assms by (simp add: unat_word_ariths)
  then show ?thesis by (simp add: bucket_array_def)
qed

lemma Resize_spec:
  assumes "hash_inv h" and "n \<noteq> 0" and small: "unat n < 2 ^ 30" and "Resize h n km = (r, h', km')"
  shows "hash_inv h'" and "entries h' = entries h" and "same_config h h'"
    and "uCount h' = uCount h" and "uSize h' = uSize h \<or> uSize h' = n"
proof -
  have keys: "\<forall>c \<in> set (ppBucketTable h). \<forall>b \<in> set c. length (bk_k b) = key_words h"
    using assms(1) by (auto simp: hash_inv_def intro: well_placed_keys)
  from Rehash_spec [OF assms(2) _ well_placed_replicate keys, of "unat n"]
  obtain tab' where reh: "Rehash h (ppBucketTable h) (replicate (unat n) []) n = (PVRSRV_OK, tab')"
    "length tab' = unat n" "well_placed h n tab'" "entries_of tab' = entries h"
    by (auto simp: entries_of_replicate entries_def)
  have "length (concat tab') = length (concat (ppBucketTable h))"
    using arg_cong [OF reh(4), of size] by (simp add: entries_def entries_length del: length_concat)
  then have inv: "hash_inv (h\<lparr>ppBucketTable := tab', uSize := n\<rparr>)"
    using assms(1-3) reh(2,3)
    by (simp add: hash_inv_def well_placed_def KEY_TO_INDEX_def key_words_def del: length_concat)
  show "hash_inv h'" "entries h' = entries h" "same_config h h'"
    "uCount h' = uCount h" "uSize h' = uSize h \<or> uSize h' = n"
    using assms(1,2,4) reh inv bucket_array_short [OF small]
    by (auto simp: Resize_def same_config_def entries_def
        split: if_splits prod.splits)
qed

subsection \<open>The interface of a keyed table\<close>

text \<open>
  What the clients of the table rely on. The contents are a multiset because the code accepts
  a second bucket for a key already stored; \<open>one_value\<close> is the discipline under which a
  key determines its value. \<open>roomy\<close> says that doubling the bucket array does not exceed the
  32-bit byte size the code computes for it.
\<close>

definition stores_key :: "('k \<times> 'v) multiset \<Rightarrow> 'k \<Rightarrow> bool" where
  "stores_key M k \<longleftrightarrow> (\<exists>v. (k, v) \<in># M)"

definition one_value :: "('k \<times> 'v) multiset \<Rightarrow> 'k \<Rightarrow> bool" where
  "one_value M k \<longleftrightarrow> size (filter_mset (\<lambda>e. fst e = k) M) \<le> 1"

lemma one_value_unique:
  assumes "one_value M k" and "(k, v) \<in># M" and "(k, w) \<in># M"
  shows "v = w"
proof -
  from assms(2) obtain N where N: "M = add_mset (k, v) N" by (auto dest!: multi_member_split)
  with assms(1) have "filter_mset (\<lambda>e. fst e = k) N = {#}" by (simp add: one_value_def)
  with N assms(3) show ?thesis by auto
qed

lemma one_value_fresh: "\<not> stores_key M k \<Longrightarrow> one_value (add_mset (k, v) M) k"
  by (auto simp: one_value_def stores_key_def)

lemma one_value_insert:
  "\<not> stores_key M k \<Longrightarrow> (\<And>j. one_value M j) \<Longrightarrow> one_value (add_mset (k, v) M) j"
  by (cases "j = k") (simp add: one_value_fresh, simp add: one_value_def)

lemma one_value_remove: "one_value M j \<Longrightarrow> one_value (M - {#e#}) j"
  unfolding one_value_def
  by (meson diff_subset_eq_self multiset_filter_mono order_trans size_mset_mono)

lemma one_value_gone: "one_value M k \<Longrightarrow> (k, v) \<in># M \<Longrightarrow> \<not> stores_key (M - {#(k, v)#}) k"
  by (fastforce simp: one_value_def stores_key_def dest!: multi_member_split)

locale bucket_table =
  fixes inv :: "'t \<Rightarrow> bool"
    and roomy :: "'t \<Rightarrow> bool"
    and key_ok :: "'t \<Rightarrow> 'k \<Rightarrow> bool"
    and contents :: "'t \<Rightarrow> ('k \<times> u32) multiset"
    and insert :: "'t \<Rightarrow> 'k \<Rightarrow> u32 \<Rightarrow> kmem \<Rightarrow> bool \<times> 't \<times> kmem"
    and remove :: "'t \<Rightarrow> 'k \<Rightarrow> kmem \<Rightarrow> u32 \<times> 't \<times> kmem"
    and retrieve :: "'t \<Rightarrow> 'k \<Rightarrow> u32"
  assumes insert_inv: "inv t \<Longrightarrow> roomy t \<Longrightarrow> key_ok t k \<Longrightarrow> insert t k v km = (r, t', km') \<Longrightarrow> inv t'"
    and insert_contents: "inv t \<Longrightarrow> roomy t \<Longrightarrow> key_ok t k \<Longrightarrow> insert t k v km = (r, t', km') \<Longrightarrow>
          contents t' = (if r then add_mset (k, v) (contents t) else contents t)"
    and insert_key_ok: "inv t \<Longrightarrow> roomy t \<Longrightarrow> key_ok t k \<Longrightarrow> insert t k v km = (r, t', km') \<Longrightarrow>
          key_ok t' = key_ok t"
    and remove_inv: "inv t \<Longrightarrow> key_ok t k \<Longrightarrow> remove t k km = (v, t', km') \<Longrightarrow> inv t'"
    and remove_hit: "inv t \<Longrightarrow> key_ok t k \<Longrightarrow> stores_key (contents t) k \<Longrightarrow>
          remove t k km = (v, t', km') \<Longrightarrow>
          (k, v) \<in># contents t \<and> contents t' = contents t - {#(k, v)#}"
    and remove_miss: "inv t \<Longrightarrow> key_ok t k \<Longrightarrow> \<not> stores_key (contents t) k \<Longrightarrow>
          remove t k km = (0, t, km)"
    and retrieve_hit: "inv t \<Longrightarrow> key_ok t k \<Longrightarrow> stores_key (contents t) k \<Longrightarrow>
          (k, retrieve t k) \<in># contents t"
    and retrieve_miss: "inv t \<Longrightarrow> key_ok t k \<Longrightarrow> \<not> stores_key (contents t) k \<Longrightarrow> retrieve t k = 0"
begin

lemma retrieve_stored:
  "inv t \<Longrightarrow> key_ok t k \<Longrightarrow> one_value (contents t) k \<Longrightarrow> (k, v) \<in># contents t \<Longrightarrow> retrieve t k = v"
  using retrieve_hit [of t k] one_value_unique [of "contents t" k v "retrieve t k"]
  by (force simp: stores_key_def)

lemma retrieve_after_insert:
  assumes "inv t" "roomy t" "key_ok t k" "\<not> stores_key (contents t) k"
    and ins: "insert t k v km = (True, t', km')"
  shows "retrieve t' k = v"
proof (rule retrieve_stored)
  show "inv t'" using assms insert_inv by blast
  show "key_ok t' k" using assms insert_key_ok by force
  have c: "contents t' = add_mset (k, v) (contents t)" using insert_contents assms by force
  show "(k, v) \<in># contents t'" by (simp add: c)
  show "one_value (contents t') k"
    using assms(4) by (simp add: c one_value_fresh)
qed

lemma retrieve_insert_other:
  assumes "inv t" "roomy t" "key_ok t k" "key_ok t j" "j \<noteq> k" "one_value (contents t) j"
    and ins: "insert t k v km = (r, t', km')"
  shows "retrieve t' j = retrieve t j"
proof -
  note t' = insert_inv [OF assms(1-3) ins] insert_key_ok [OF assms(1-3) ins]
  have c: "contents t' = (if r then add_mset (k, v) (contents t) else contents t)"
    by (rule insert_contents [OF assms(1-3) ins])
  have st: "stores_key (contents t') j \<longleftrightarrow> stores_key (contents t) j"
    using assms(5) by (auto simp: c stores_key_def)
  show ?thesis
  proof (cases "stores_key (contents t) j")
    case True
    have "(j, retrieve t j) \<in># contents t'"
      using retrieve_hit [OF assms(1,4) True] by (simp add: c)
    moreover have "one_value (contents t') j"
      using assms(5,6) by (auto simp: c one_value_def)
    ultimately show ?thesis using retrieve_stored t' assms(4) by simp
  next
    case False
    then show ?thesis using retrieve_miss st t' assms(1,4) by simp
  qed
qed

lemma remove_stored:
  assumes "inv t" "key_ok t k" "one_value (contents t) k" "(k, v) \<in># contents t"
    and rem: "remove t k km = (w, t', km')"
  shows "w = v" and "contents t' = contents t - {#(k, v)#}" and "\<not> stores_key (contents t') k"
proof -
  have st: "stores_key (contents t) k" using assms(4) by (force simp: stores_key_def)
  show "w = v" using remove_hit [OF assms(1,2) st rem] one_value_unique assms(3,4) by metis
  then show "contents t' = contents t - {#(k, v)#}"
    using remove_hit [OF assms(1,2) st rem] by simp
  then show "\<not> stores_key (contents t') k" using one_value_gone assms(3,4) by metis
qed

lemma remove_undoes_insert:
  assumes "inv t" "roomy t" "key_ok t k" "\<not> stores_key (contents t) k"
    and ins: "insert t k v km = (True, t1, km1)" and rem: "remove t1 k km1 = (w, t2, km2)"
  shows "w = v" and "contents t2 = contents t"
proof -
  have c: "contents t1 = add_mset (k, v) (contents t)"
    using insert_contents [OF assms(1-3) ins] by simp
  have one: "one_value (contents t1) k"
    using assms(4) by (simp add: c one_value_fresh)
  have k: "key_ok t1 k" using insert_key_ok [OF assms(1-3) ins] assms(3) by simp
  have mem: "(k, v) \<in># contents t1" by (simp add: c)
  note rs = remove_stored [OF insert_inv [OF assms(1-3) ins] k one mem rem]
  show "w = v" by (rule rs(1))
  show "contents t2 = contents t" using rs(2) by (simp add: c)
qed

end

subsection \<open>The operations meet the interface\<close>

definition table_roomy :: "HASH_TABLE \<Rightarrow> bool" where
  "table_roomy h \<longleftrightarrow> unat (uSize h) < 2 ^ 29"

definition table_key :: "HASH_TABLE \<Rightarrow> u32 list \<Rightarrow> bool" where
  "table_key h k \<longleftrightarrow> length k = key_words h"

lemma push_bit_nonzero: "table_roomy h \<Longrightarrow> uSize h \<noteq> 0 \<Longrightarrow> push_bit (Suc 0) (uSize h) \<noteq> 0"
  using unat_double [of "uSize h"]
  by (auto simp: table_roomy_def unat_eq_zero [symmetric] simp del: unat_eq_zero)

lemma push_bit_small: "table_roomy h \<Longrightarrow> unat (push_bit (Suc 0) (uSize h)) < 2 ^ 30"
  using unat_double [of "uSize h"] by (simp add: table_roomy_def)

lemma PRIVATE_MAX_small:
  assumes "unat a < 2 ^ 30" and "unat b < 2 ^ 30"
  shows "unat (PRIVATE_MAX (drop_bit 1 a) b) < 2 ^ 30"
proof -
  have "unat (drop_bit 1 a) < 2 ^ 30" using assms(1) by (simp add: drop_bit_eq_div unat_div)
  with assms(2) show ?thesis by (simp add: PRIVATE_MAX_def)
qed

lemma PRIVATE_MAX_nonzero: "b \<noteq> 0 \<Longrightarrow> PRIVATE_MAX a b \<noteq> 0"
  by (auto simp: PRIVATE_MAX_def)

lemma HASH_Insert_Extended_spec:
  assumes "hash_inv h" and "table_roomy h" and "table_key h k"
    and ins: "HASH_Insert_Extended h k v km = (r, h', km')"
  shows "hash_inv h'" and "entries h' = (if r then add_mset (k, v) (entries h) else entries h)"
    and "same_config h h'" and "\<not> r \<Longrightarrow> h' = h"
proof -
  let ?b = "\<lparr>bk_v = v, bk_k = take (unat (uKeySize h div 4)) k\<rparr>"
  have bk: "bk_k ?b = k" using assms(3) by (simp add: table_key_def key_words_def)
  obtain tab' where ci: "ChainInsert h ?b (ppBucketTable h) (uSize h) = (PVRSRV_OK, tab')"
    and tab': "length tab' = unat (uSize h)" "well_placed h (uSize h) tab'"
      "entries_of tab' = add_mset (k, v) (entries_of (ppBucketTable h))"
      "length (concat tab') = Suc (length (concat (ppBucketTable h)))"
  proof (rule ChainInsert_spec [of "uSize h" "ppBucketTable h" h ?b])
  qed (use assms(1,3) bk in \<open>auto simp: hash_inv_def table_key_def bucket_entry_def\<close>)
  let ?h1 = "h\<lparr>ppBucketTable := tab', uCount := uCount h + 1\<rparr>"
  have inv1: "hash_inv ?h1"
    using assms(1) tab'
    by (simp add: hash_inv_def well_placed_def KEY_TO_INDEX_def key_words_def del: length_concat)
  have cfg: "same_config h ?h1" by (simp add: same_config_def)
  have nz: "push_bit 1 (uSize ?h1) \<noteq> 0"
    using assms(1,2) push_bit_nonzero [of h] by (simp add: hash_inv_def)
  have sm: "unat (push_bit 1 (uSize ?h1)) < 2 ^ 30" using push_bit_small [OF assms(2)] by simp
  have ent1: "entries ?h1 = add_mset (k, v) (entries h)" using tab'(3) by (simp add: entries_def)
  consider (fail) "\<not> r" "h' = h" | (plain) "r" "h' = ?h1"
    | (resized) rr km1 where "r" "Resize ?h1 (push_bit 1 (uSize ?h1)) km1 = (rr, h', km')"
    using ins ci by (auto simp: HASH_Insert_Extended_def Let_def split: prod.splits if_splits)
  then have "hash_inv h' \<and> entries h' = (if r then add_mset (k, v) (entries h) else entries h) \<and>
    same_config h h' \<and> (\<not> r \<longrightarrow> h' = h)"
  proof cases
    case fail
    with assms(1) show ?thesis by (simp add: same_config_def)
  next
    case plain
    with inv1 ent1 cfg show ?thesis by simp
  next
    case resized
    note rs = Resize_spec [OF inv1 nz sm resized(2)]
    from rs(3) cfg have "same_config h h'" by (simp add: same_config_def)
    with rs resized(1) ent1 show ?thesis by simp
  qed
  then show "hash_inv h'" "entries h' = (if r then add_mset (k, v) (entries h) else entries h)"
    "same_config h h'" "\<not> r \<Longrightarrow> h' = h"
    by blast+
qed

lemma HASH_Insert_Extended_success:
  assumes "hash_inv h" and "table_key h k" and "OSAllocMem km = (PVRSRV_OK, q, km1)"
  shows "fst (HASH_Insert_Extended h k v km)"
proof -
  let ?b = "\<lparr>bk_v = v, bk_k = take (unat (uKeySize h div 4)) k\<rparr>"
  have "length (bk_k ?b) = key_words h" using assms(2) by (simp add: table_key_def key_words_def)
  then obtain tab where "ChainInsert h ?b (ppBucketTable h) (uSize h) = (PVRSRV_OK, tab)"
    using ChainInsert_spec [of "uSize h" "ppBucketTable h" h ?b] assms(1) by (auto simp: hash_inv_def)
  then show ?thesis using assms(3)
    by (auto simp: HASH_Insert_Extended_def Let_def split: prod.splits)
qed

lemma remove_chain_None:
  assumes "pfnKeyComp h = HASH_Key_Comp_Default" and "length k = key_words h"
    and "\<forall>b \<in> set c. length (bk_k b) = key_words h"
  shows "remove_chain h k c = None \<longleftrightarrow> (\<forall>b \<in> set c. bk_k b \<noteq> k)"
  using assms(3) by (induction c) (auto simp: key_compare_iff assms)

lemma remove_chain_Some:
  assumes "pfnKeyComp h = HASH_Key_Comp_Default" and "length k = key_words h"
    and "\<forall>b \<in> set c. length (bk_k b) = key_words h" and "remove_chain h k c = Some (v, c')"
  shows "set c' \<subseteq> set c" and
    "image_mset bucket_entry (mset c) = add_mset (k, v) (image_mset bucket_entry (mset c'))"
proof -
  have "set c' \<subseteq> set c \<and>
    image_mset bucket_entry (mset c) = add_mset (k, v) (image_mset bucket_entry (mset c'))"
    using assms(3,4)
    by (induction c arbitrary: v c')
      (auto simp: key_compare_iff assms(1,2) bucket_entry_def split: if_splits)
  then show "set c' \<subseteq> set c"
    "image_mset bucket_entry (mset c) = add_mset (k, v) (image_mset bucket_entry (mset c'))"
    by blast+
qed

lemma retrieve_chain_spec:
  assumes "pfnKeyComp h = HASH_Key_Comp_Default" and "length k = key_words h"
    and "\<forall>b \<in> set c. length (bk_k b) = key_words h"
  shows "(if \<exists>b \<in> set c. bk_k b = k then (k, retrieve_chain h k c) \<in> bucket_entry ` set c
          else retrieve_chain h k c = 0)"
  using assms(3)
  by (induction c) (auto simp: key_compare_iff assms(1,2) bucket_entry_def split: if_splits)

text \<open>A stored key is found in the chain it hashes to, and only there.\<close>

lemma stores_key_chain:
  assumes "hash_inv h"
  shows "stores_key (entries h) k \<longleftrightarrow>
    (\<exists>b \<in> set (ppBucketTable h ! unat (KEY_TO_INDEX h k (uSize h))). bk_k b = k)" (is "_ \<longleftrightarrow> ?R")
proof
  assume "stores_key (entries h) k"
  then obtain c b where "c \<in> set (ppBucketTable h)" "b \<in> set c" "bk_k b = k"
    by (auto simp: stores_key_def entries_def entries_of_def bucket_entry_def)
  then obtain i where "i < length (ppBucketTable h)" "b \<in> set (ppBucketTable h ! i)" "bk_k b = k"
    by (auto simp: in_set_conv_nth)
  moreover from this assms have "i = unat (KEY_TO_INDEX h k (uSize h))"
    by (auto simp: hash_inv_def well_placed_def)
  ultimately show ?R by blast
next
  assume ?R
  then obtain b where b: "b \<in> set (ppBucketTable h ! unat (KEY_TO_INDEX h k (uSize h)))"
    "bk_k b = k" by blast
  moreover have "ppBucketTable h ! unat (KEY_TO_INDEX h k (uSize h)) \<in> set (ppBucketTable h)"
    using assms by (intro nth_mem) (simp add: hash_inv_def KEY_TO_INDEX_less)
  ultimately show "stores_key (entries h) k"
    by (force simp: stores_key_def entries_def entries_of_def bucket_entry_def)
qed

lemma chain_entries:
  assumes "hash_inv h" and "b \<in> set (ppBucketTable h ! unat (KEY_TO_INDEX h k (uSize h)))"
  shows "bucket_entry b \<in># entries h" and "length (bk_k b) = key_words h"
proof -
  have i: "unat (KEY_TO_INDEX h k (uSize h)) < length (ppBucketTable h)"
    using assms(1) by (simp add: hash_inv_def KEY_TO_INDEX_less)
  then have "b \<in> set (concat (ppBucketTable h))" using assms(2) nth_mem by fastforce
  then show "bucket_entry b \<in># entries h"
    unfolding entries_def entries_of_def set_image_mset set_mset_mset by (rule imageI)
  show "length (bk_k b) = key_words h"
    using assms i by (auto simp: hash_inv_def well_placed_def)
qed

lemma HASH_Remove_Extended_spec:
  assumes "hash_inv h" and "table_key h k" and rem: "HASH_Remove_Extended h k km = (v, h', km')"
  shows "hash_inv h'" and "same_config h h'"
    and "stores_key (entries h) k \<Longrightarrow> entries h = add_mset (k, v) (entries h')"
    and "\<not> stores_key (entries h) k \<Longrightarrow> v = 0 \<and> h' = h \<and> km' = km"
proof -
  let ?i = "unat (KEY_TO_INDEX h k (uSize h))"
  let ?c = "ppBucketTable h ! ?i"
  have kc: "pfnKeyComp h = HASH_Key_Comp_Default" and k: "length k = key_words h"
    and cl: "\<forall>b \<in> set ?c. length (bk_k b) = key_words h"
    using assms chain_entries(2) [OF assms(1)] by (auto simp: hash_inv_def table_key_def)
  have i: "?i < length (ppBucketTable h)" using assms(1) by (simp add: hash_inv_def KEY_TO_INDEX_less)
  have miss: "remove_chain h k ?c = None \<longleftrightarrow> \<not> stores_key (entries h) k"
    using remove_chain_None [OF kc k cl] stores_key_chain [OF assms(1)] by auto
  have "hash_inv h' \<and> same_config h h' \<and>
    (stores_key (entries h) k \<longrightarrow> entries h = add_mset (k, v) (entries h')) \<and>
    (\<not> stores_key (entries h) k \<longrightarrow> v = 0 \<and> h' = h \<and> km' = km)"
  proof (cases "remove_chain h k ?c")
    case None
    with rem miss assms(1) show ?thesis
      by (simp add: HASH_Remove_Extended_def same_config_def)
  next
    case (Some vc)
    then obtain w c' where rc: "remove_chain h k ?c = Some (w, c')" by (cases vc) auto
    note rs = remove_chain_Some [OF kc k cl rc]
    let ?h1 = "h\<lparr>ppBucketTable := (ppBucketTable h)[?i := c'], uCount := uCount h - 1\<rparr>"
    have ent1: "entries h = add_mset (k, w) (entries ?h1)"
      using entries_of_update [OF i, of c'] rs(2) by (simp add: entries_def)
    then have "size (entries h) = Suc (size (entries ?h1))" by (simp only: size_add_mset)
    then have "length (concat (ppBucketTable h)) = Suc (length (concat (ppBucketTable ?h1)))"
      by (simp only: entries_def entries_length)
    moreover have "well_placed h (uSize h) (ppBucketTable ?h1)"
      using assms(1) rs(1) i
      by (auto simp: hash_inv_def well_placed_def nth_list_update)
    ultimately have inv1: "hash_inv ?h1"
      using assms(1)
      by (simp add: hash_inv_def well_placed_def KEY_TO_INDEX_def key_words_def del: length_concat)
    have nz: "PRIVATE_MAX (drop_bit 1 (uSize ?h1)) (uMinimumSize ?h1) \<noteq> 0"
      using assms(1) by (simp add: hash_inv_def PRIVATE_MAX_nonzero)
    have sm: "unat (PRIVATE_MAX (drop_bit 1 (uSize ?h1)) (uMinimumSize ?h1)) < 2 ^ 30"
      using assms(1) by (intro PRIVATE_MAX_small) (simp_all add: hash_inv_def)
    consider (plain) "v = w" "h' = ?h1"
      | (resized) rr where "v = w"
          "Resize ?h1 (PRIVATE_MAX (drop_bit 1 (uSize ?h1)) (uMinimumSize ?h1)) km = (rr, h', km')"
      using rem rc
      by (auto simp: HASH_Remove_Extended_def Let_def split: prod.splits if_splits)
    then show ?thesis
    proof cases
      case plain
      with inv1 ent1 Some miss show ?thesis by (simp add: same_config_def)
    next
      case resized
      note rz = Resize_spec [OF inv1 nz sm resized(2)]
      from rz(3) have "same_config h h'" by (simp add: same_config_def)
      with rz resized(1) ent1 Some miss show ?thesis by simp
    qed
  qed
  then show "hash_inv h'" "same_config h h'"
    "stores_key (entries h) k \<Longrightarrow> entries h = add_mset (k, v) (entries h')"
    "\<not> stores_key (entries h) k \<Longrightarrow> v = 0 \<and> h' = h \<and> km' = km"
    by blast+
qed

lemma HASH_Retrieve_Extended_spec:
  assumes "hash_inv h" and "table_key h k"
  shows "stores_key (entries h) k \<Longrightarrow> (k, HASH_Retrieve_Extended h k) \<in># entries h"
    and "\<not> stores_key (entries h) k \<Longrightarrow> HASH_Retrieve_Extended h k = 0"
proof -
  let ?c = "ppBucketTable h ! unat (KEY_TO_INDEX h k (uSize h))"
  have kc: "pfnKeyComp h = HASH_Key_Comp_Default" and k: "length k = key_words h"
    and cl: "\<forall>b \<in> set ?c. length (bk_k b) = key_words h"
    using assms chain_entries(2) [OF assms(1)] by (auto simp: hash_inv_def table_key_def)
  note rs = retrieve_chain_spec [OF kc k cl] stores_key_chain [OF assms(1), of k]
  show "stores_key (entries h) k \<Longrightarrow> (k, HASH_Retrieve_Extended h k) \<in># entries h"
    using rs chain_entries(1) [OF assms(1)] by (auto simp: HASH_Retrieve_Extended_def)
  show "\<not> stores_key (entries h) k \<Longrightarrow> HASH_Retrieve_Extended h k = 0"
    using rs by (simp add: HASH_Retrieve_Extended_def)
qed

interpretation ht: bucket_table hash_inv table_roomy table_key entries
  HASH_Insert_Extended HASH_Remove_Extended HASH_Retrieve_Extended
proof (unfold_locales, goal_cases)
  case 1
  then show ?case using HASH_Insert_Extended_spec(1) by blast
next
  case 2
  then show ?case using HASH_Insert_Extended_spec(2) by blast
next
  case 3
  then show ?case using HASH_Insert_Extended_spec(3) [OF 3]
    by (auto simp: table_key_def key_words_def same_config_def fun_eq_iff)
next
  case 4
  then show ?case using HASH_Remove_Extended_spec(1) by blast
next
  case 5
  then show ?case using HASH_Remove_Extended_spec(3) by fastforce
next
  case (6 t k km)
  obtain v h' km' where r: "HASH_Remove_Extended t k km = (v, h', km')" by (metis prod_cases3)
  then show ?case using HASH_Remove_Extended_spec(4) [OF 6(1,2) r] 6(3) by simp
next
  case 7
  then show ?case using HASH_Retrieve_Extended_spec(1) by blast
next
  case 8
  then show ?case using HASH_Retrieve_Extended_spec(2) by blast
qed

lemma HASH_Create_Extended_inv:
  assumes "HASH_Create_Extended n ks hf HASH_Key_Comp_Default km = (Some h, km')" and "n \<noteq> 0"
    and "unat n < 2 ^ 30"
  shows "hash_inv h" and "entries h = {#}" and "key_words h = unat (ks div 4)" and "uSize h = n"
  using assms(1,2) bucket_array_short [OF assms(3)] assms(3)
  by (auto simp: HASH_Create_Extended_def hash_inv_def entries_def key_words_def
      well_placed_replicate entries_of_replicate concat_replicate_trivial
      split: prod.splits if_splits)

end
