(* ===== verification/Pvr_Hash_Props.thy ===== *)
theory Pvr_Hash_Props
  imports Pvr_Hash
begin

text \<open>The properties of the hash table, from the interface \<open>bucket_table\<close> on the code's operations.\<close>

definition hash_demo :: HASH_TABLE where
  "hash_demo = the (fst (HASH_Create 2 [0x1000, 0x2000]))"

lemma hash_demo_inv: "hash_inv hash_demo" "entries hash_demo = {#}" "key_words hash_demo = 1" "uSize hash_demo = 2"
proof -
  have "HASH_Create_Extended 2 4 HASH_Func_Default HASH_Key_Comp_Default [0x1000, 0x2000] = (Some hash_demo, [])"
    by (simp add: hash_demo_def HASH_Create_def HASH_Create_Extended_def)
  note c = HASH_Create_Extended_inv [OF this]
  show "hash_inv hash_demo" "entries hash_demo = {#}" "uSize hash_demo = 2" using c by simp_all
  have "unat (4 div 4 :: u32) = 1" by (simp add: unat_div)
  then show "key_words hash_demo = 1" using c(3) by simp
qed

text \<open>C22. Inserting a value for a key that the table does not hold makes a retrieval return it and
  keeps the retrievals of all other keys with one value; removing the key then returns the value and
  restores the contents. This holds across the resizes that either operation makes, whether or not
  their allocations succeed.\<close>

theorem HASH_Insert_Remove_roundtrip:
  assumes "hash_inv h" and "table_roomy h" and "table_key h k" and "\<not> stores_key (entries h) k"
    and "HASH_Insert_Extended h k v km = (True, h1, km1)"
    and "HASH_Remove_Extended h1 k km1 = (w, h2, km2)"
  shows "HASH_Retrieve_Extended h1 k = v \<and>
         (\<forall>j. j \<noteq> k \<and> table_key h j \<and> one_value (entries h) j \<longrightarrow>
              HASH_Retrieve_Extended h1 j = HASH_Retrieve_Extended h j) \<and>
         w = v \<and> entries h2 = entries h"
  using ht.retrieve_after_insert [OF assms(1-5)] ht.retrieve_insert_other [OF assms(1-3) _ _ _ assms(5)]
    ht.remove_undoes_insert [OF assms(1-6)] by blast

theorem HASH_Insert_Remove_roundtrip_witness:
  "\<exists>h1 km1 w h2 km2. HASH_Insert_Extended hash_demo [7] 42 [0x3000] = (True, h1, km1) \<and>
     HASH_Remove_Extended h1 [7] km1 = (w, h2, km2) \<and> HASH_Retrieve_Extended h1 [7] = 42 \<and> w = 42 \<and> entries h2 = {#}"
proof -
  obtain r h1 km1 where 1: "HASH_Insert_Extended hash_demo [7] 42 [0x3000] = (r, h1, km1)" by (metis prod_cases3)
  have r: "r = True"
    using HASH_Insert_Extended_success [OF hash_demo_inv(1), of "[7]" "[0x3000]" "0x3000" "[]" 42] 1 hash_demo_inv(3)
    by (simp add: table_key_def)
  obtain w h2 km2 where 2: "HASH_Remove_Extended h1 [7] km1 = (w, h2, km2)" by (metis prod_cases3)
  have "table_roomy hash_demo" "table_key hash_demo [7]" "\<not> stores_key (entries hash_demo) [7]"
    using hash_demo_inv by (simp_all add: table_roomy_def table_key_def stores_key_def)
  from HASH_Insert_Remove_roundtrip [OF hash_demo_inv(1) this 1 [unfolded r] 2] 1 2 r hash_demo_inv(2)
  show ?thesis by auto
qed

text \<open>C23. Resizing the bucket array to any number of buckets below 2^30, at which the size of the array
  in bytes would wrap, and whether or not memory is available, keeps the invariant and the stored
  pairs, so that every key with one value is found as before.\<close>

theorem Resize_keeps_entries:
  assumes "hash_inv h" and "n \<noteq> 0" and "unat n < 2 ^ 30" and "Resize h n km = (r, h', km')"
  shows "hash_inv h' \<and> entries h' = entries h \<and> uCount h' = uCount h \<and>
         (\<forall>k. table_key h k \<and> one_value (entries h) k \<longrightarrow>
              HASH_Retrieve_Extended h' k = HASH_Retrieve_Extended h k)"
proof -
  note rz = Resize_spec [OF assms]
  have "HASH_Retrieve_Extended h' k = HASH_Retrieve_Extended h k" if "table_key h k" "one_value (entries h) k" for k
  proof -
    have k': "table_key h' k" using that(1) rz(3) by (simp add: table_key_def key_words_def same_config_def)
    show ?thesis
    proof (cases "stores_key (entries h) k")
      case True
      then show ?thesis
        using ht.retrieve_hit [OF assms(1) that(1)] ht.retrieve_stored [OF rz(1) k'] rz(2) that(2) by simp
    next
      case False
      then show ?thesis
        using ht.retrieve_miss [OF assms(1) that(1)] ht.retrieve_miss [OF rz(1) k'] rz(2) by simp
    qed
  qed
  with rz show ?thesis by blast
qed

theorem Resize_keeps_entries_witness:
  "\<exists>r h' km'. Resize hash_demo 8 [0x3000] = (r, h', km') \<and> hash_inv h' \<and> entries h' = {#}"
proof -
  obtain r h' km' where 1: "Resize hash_demo 8 [0x3000] = (r, h', km')" by (metis prod_cases3)
  have "(8 :: u32) \<noteq> 0" "unat (8 :: u32) < 2 ^ 30" by simp_all
  from Resize_keeps_entries [OF hash_demo_inv(1) this 1] 1 hash_demo_inv(2) show ?thesis by auto
qed

end
