(* ===== verification/Pvr_Ra.thy ===== *)
theory Pvr_Ra
  imports Pvr_Hash "HOL-Library.Monad_Syntax"
begin

text \<open>
  The resource arena allocator of \<^verbatim>\<open>src/pvr/ra.c\<close>, on an explicit store. The boundary tags
  (\<^verbatim>\<open>struct BT\<close>) live in the store \<open>bts\<close> of the arena, a map from addresses to tags; the
  segment chain and the 32 free lists are linked through the tags' pointer fields, exactly as
  the C code links them. Every access goes through the store in the option monad: the result
  \<open>None\<close> is an access to an address that holds no tag (NULL or freed memory) or, for the
  pointer loops, a loop that does not end. Proving that an operation returns \<open>Some\<close> is
  therefore proving its memory safety and its termination.
\<close>

subsection \<open>Data\<close>

datatype bt_type = btt_span | btt_free | btt_live

record BT =
  bt_typ :: bt_type
  bt_base :: u32
  bt_uSize :: u32
  pNextSegment :: ptr
  pPrevSegment :: ptr
  pNextFree :: ptr
  pPrevFree :: ptr
  psMapping :: ptr

record RA_STATISTICS =
  uSpanCount :: u32
  uLiveSegmentCount :: u32
  uFreeSegmentCount :: u32
  uTotalResourceCount :: u32
  uFreeResourceCount :: u32
  uCumulativeAllocs :: u32
  uCumulativeFrees :: u32
  uImportCount :: u32
  uExportCount :: u32

text \<open>
  The import callbacks belong to the arena's owner. Which function an arena calls is part of
  its state; what an import call answers (the actual size, the mapping and the base address,
  or a refusal) is an argument of \<open>RA_Alloc\<close>; the calls back to the owner that free
  something are recorded in order in \<open>ra_calls\<close>.
\<close>

datatype import_fn = RequestAllocFail | ImportFn ptr

datatype ra_call = ImportFree ptr u32 ptr | BackingStoreFree ptr u32 u32

type_synonym import_env = "ptr \<Rightarrow> ptr \<Rightarrow> u32 \<Rightarrow> u32 \<Rightarrow> (u32 \<times> ptr \<times> u32) option"

record RA_ARENA =
  uQuantum :: u32
  pImportAlloc :: import_fn
  pBackingStoreFree :: ptr
  pImportHandle :: ptr
  aHeadFree :: "ptr list"
  pHeadSegment :: ptr
  pTailSegment :: ptr
  pSegmentHash :: HASH_TABLE
  sStatistics :: RA_STATISTICS
  bts :: "ptr \<rightharpoonup> BT"
  raw_bt :: "ptr \<Rightarrow> BT"
  mapping_flags :: "ptr \<rightharpoonup> u32"
  ra_calls :: "ra_call list"

text \<open>
  \<open>raw_bt\<close> is what the memory at an address holds when the allocator hands it out (it is not
  cleared), \<open>mapping_flags\<close> the field \<^verbatim>\<open>ui32Flags\<close> of the \<^verbatim>\<open>struct BM_MAPPING\<close> objects.
\<close>

definition MINIMUM_HASH_SIZE :: u32 where "MINIMUM_HASH_SIZE = 64"

definition FREE_TABLE_LIMIT :: nat where "FREE_TABLE_LIMIT = 32"

subsection \<open>Accesses to the store\<close>

definition upd_bt :: "ptr \<Rightarrow> (BT \<Rightarrow> BT) \<Rightarrow> RA_ARENA \<Rightarrow> RA_ARENA option" where
  "upd_bt p f a = (case bts a p of None \<Rightarrow> None | Some b \<Rightarrow> Some (a\<lparr>bts := (bts a)(p \<mapsto> f b)\<rparr>))"

definition new_bt :: "ptr \<Rightarrow> RA_ARENA \<Rightarrow> RA_ARENA" where
  "new_bt p a = a\<lparr>bts := (bts a)(p \<mapsto> raw_bt a p)\<rparr>"

definition free_bt :: "ptr \<Rightarrow> RA_ARENA \<Rightarrow> RA_ARENA option" where
  "free_bt p a = (case bts a p of None \<Rightarrow> None | Some _ \<Rightarrow> Some (a\<lparr>bts := (bts a)(p := None)\<rparr>))"

definition stat :: "(RA_STATISTICS \<Rightarrow> RA_STATISTICS) \<Rightarrow> RA_ARENA \<Rightarrow> RA_ARENA" where
  "stat f a = a\<lparr>sStatistics := f (sStatistics a)\<rparr>"

subsection \<open>Size classes\<close>

function pvr_log2_loop :: "u32 \<Rightarrow> u32 \<Rightarrow> u32" where
  "pvr_log2_loop n l = (if n > 0 then pvr_log2_loop (drop_bit 1 n) (l + 1) else l)"
  by pat_completeness auto
termination
proof (relation "measure (\<lambda>(n, l). unat n)")
  fix n l :: u32
  assume "n > 0"
  then have "unat n div 2 < unat n" by (simp add: unat_gt_0)
  then show "((drop_bit 1 n, l + 1), n, l) \<in> measure (\<lambda>(n, l). unat n)"
    by (simp add: drop_bit_eq_div unat_div)
qed simp

definition pvr_log2 :: "u32 \<Rightarrow> u32" where
  "pvr_log2 n = pvr_log2_loop (drop_bit 1 n) 0"

subsection \<open>The segment chain\<close>

definition SegmentListInsertAfter ::
  "RA_ARENA \<Rightarrow> ptr \<Rightarrow> ptr \<Rightarrow> (PVRSRV_ERROR \<times> RA_ARENA) option" where
  "SegmentListInsertAfter pArena pInsertionPoint pBT =
     (if pInsertionPoint = NULL then Some (PVRSRV_ERROR_INVALID_PARAMS, pArena)
      else do {
        ins \<leftarrow> bts pArena pInsertionPoint;
        a1 \<leftarrow> upd_bt pBT (\<lambda>b. b\<lparr>pNextSegment := pNextSegment ins\<rparr>) pArena;
        a2 \<leftarrow> upd_bt pBT (\<lambda>b. b\<lparr>pPrevSegment := pInsertionPoint\<rparr>) a1;
        ins2 \<leftarrow> bts a2 pInsertionPoint;
        a3 \<leftarrow> (if pNextSegment ins2 = NULL then Some (a2\<lparr>pTailSegment := pBT\<rparr>)
               else upd_bt (pNextSegment ins2) (\<lambda>b. b\<lparr>pPrevSegment := pBT\<rparr>) a2);
        a4 \<leftarrow> upd_bt pInsertionPoint (\<lambda>b. b\<lparr>pNextSegment := pBT\<rparr>) a3;
        Some (PVRSRV_OK, a4)
      })"

partial_function (option) segment_scan :: "RA_ARENA \<Rightarrow> u32 \<Rightarrow> ptr \<Rightarrow> ptr option" where
  "segment_scan pArena base pBTScan =
     do {
       scan \<leftarrow> bts pArena pBTScan;
       (if pNextSegment scan \<noteq> NULL
        then do {
          nxt \<leftarrow> bts pArena (pNextSegment scan);
          (if base \<ge> bt_base nxt then segment_scan pArena base (pNextSegment scan)
           else Some pBTScan)
        }
        else Some pBTScan)
     }"

definition SegmentListInsert :: "RA_ARENA \<Rightarrow> ptr \<Rightarrow> (PVRSRV_ERROR \<times> RA_ARENA) option" where
  "SegmentListInsert pArena pBT =
     (if pHeadSegment pArena = NULL then do {
        a \<leftarrow> upd_bt pBT (\<lambda>b. b\<lparr>pPrevSegment := NULL, pNextSegment := NULL\<rparr>)
               (pArena\<lparr>pHeadSegment := pBT, pTailSegment := pBT\<rparr>);
        Some (PVRSRV_OK, a)
      }
      else do {
        bt \<leftarrow> bts pArena pBT;
        hd_bt \<leftarrow> bts pArena (pHeadSegment pArena);
        (if bt_base bt < bt_base hd_bt then do {
           a1 \<leftarrow> upd_bt pBT (\<lambda>b. b\<lparr>pNextSegment := pHeadSegment pArena\<rparr>) pArena;
           a2 \<leftarrow> upd_bt (pHeadSegment a1) (\<lambda>b. b\<lparr>pPrevSegment := pBT\<rparr>) a1;
           a3 \<leftarrow> upd_bt pBT (\<lambda>b. b\<lparr>pPrevSegment := NULL\<rparr>) (a2\<lparr>pHeadSegment := pBT\<rparr>);
           Some (PVRSRV_OK, a3)
         }
         else do {
           pBTScan \<leftarrow> segment_scan pArena (bt_base bt) (pHeadSegment pArena);
           SegmentListInsertAfter pArena pBTScan pBT
         })
      })"

definition SegmentListRemove :: "RA_ARENA \<Rightarrow> ptr \<Rightarrow> RA_ARENA option" where
  "SegmentListRemove pArena pBT = do {
     bt \<leftarrow> bts pArena pBT;
     a1 \<leftarrow> (if pPrevSegment bt = NULL then Some (pArena\<lparr>pHeadSegment := pNextSegment bt\<rparr>)
            else upd_bt (pPrevSegment bt) (\<lambda>b. b\<lparr>pNextSegment := pNextSegment bt\<rparr>) pArena);
     bt2 \<leftarrow> bts a1 pBT;
     (if pNextSegment bt2 = NULL then Some (a1\<lparr>pTailSegment := pPrevSegment bt2\<rparr>)
      else upd_bt (pNextSegment bt2) (\<lambda>b. b\<lparr>pPrevSegment := pPrevSegment bt2\<rparr>) a1)
   }"

text \<open>\<open>SegmentSplit\<close> returns NULL in the first component when the allocation fails.\<close>

definition SegmentSplit ::
  "RA_ARENA \<Rightarrow> ptr \<Rightarrow> u32 \<Rightarrow> kmem \<Rightarrow> (ptr \<times> RA_ARENA \<times> kmem) option" where
  "SegmentSplit pArena pBT size' km =
     (case OSAllocMem km of (e, pNeighbour, km') \<Rightarrow>
        if e \<noteq> PVRSRV_OK then Some (NULL, pArena, km')
        else do {
          a1 \<leftarrow> upd_bt pNeighbour (\<lambda>b. b\<lparr>pPrevSegment := pBT\<rparr>) (new_bt pNeighbour pArena);
          bt \<leftarrow> bts a1 pBT;
          a2 \<leftarrow> upd_bt pNeighbour (\<lambda>b. b\<lparr>pNextSegment := pNextSegment bt\<rparr>) a1;
          a3 \<leftarrow> (if pNextSegment bt = NULL then Some (a2\<lparr>pTailSegment := pNeighbour\<rparr>)
                 else upd_bt (pNextSegment bt) (\<lambda>b. b\<lparr>pPrevSegment := pNeighbour\<rparr>) a2);
          a4 \<leftarrow> upd_bt pBT (\<lambda>b. b\<lparr>pNextSegment := pNeighbour\<rparr>) a3;
          bt4 \<leftarrow> bts a4 pBT;
          a5 \<leftarrow> upd_bt pNeighbour
                 (\<lambda>b. b\<lparr>bt_typ := btt_free, bt_uSize := bt_uSize bt4 - size',
                        bt_base := bt_base bt4 + size', psMapping := psMapping bt4\<rparr>) a4;
          a6 \<leftarrow> upd_bt pBT (\<lambda>b. b\<lparr>bt_uSize := size'\<rparr>) a5;
          Some (pNeighbour, a6, km')
        })"

subsection \<open>The free lists\<close>

definition FreeListInsert :: "RA_ARENA \<Rightarrow> ptr \<Rightarrow> RA_ARENA option" where
  "FreeListInsert pArena pBT = do {
     bt \<leftarrow> bts pArena pBT;
     let uIndex = unat (pvr_log2 (bt_uSize bt));
     let hd_free = aHeadFree pArena ! uIndex;
     a1 \<leftarrow> upd_bt pBT (\<lambda>b. b\<lparr>bt_typ := btt_free, pNextFree := hd_free, pPrevFree := NULL\<rparr>) pArena;
     a2 \<leftarrow> (if hd_free \<noteq> NULL then upd_bt hd_free (\<lambda>b. b\<lparr>pPrevFree := pBT\<rparr>) a1 else Some a1);
     Some (a2\<lparr>aHeadFree := (aHeadFree a2)[uIndex := pBT]\<rparr>)
   }"

definition FreeListRemove :: "RA_ARENA \<Rightarrow> ptr \<Rightarrow> RA_ARENA option" where
  "FreeListRemove pArena pBT = do {
     bt \<leftarrow> bts pArena pBT;
     let uIndex = unat (pvr_log2 (bt_uSize bt));
     a1 \<leftarrow> (if pNextFree bt \<noteq> NULL
            then upd_bt (pNextFree bt) (\<lambda>b. b\<lparr>pPrevFree := pPrevFree bt\<rparr>) pArena
            else Some pArena);
     bt1 \<leftarrow> bts a1 pBT;
     (if pPrevFree bt1 = NULL
      then Some (a1\<lparr>aHeadFree := (aHeadFree a1)[uIndex := pNextFree bt1]\<rparr>)
      else upd_bt (pPrevFree bt1) (\<lambda>b. b\<lparr>pNextFree := pNextFree bt1\<rparr>) a1)
   }"

subsection \<open>Adding resources\<close>

definition BuildSpanMarker :: "RA_ARENA \<Rightarrow> u32 \<Rightarrow> u32 \<Rightarrow> kmem \<Rightarrow> ptr \<times> RA_ARENA \<times> kmem" where
  "BuildSpanMarker pArena base size' km =
     (case OSAllocMem km of (e, pBT, km') \<Rightarrow>
        if e \<noteq> PVRSRV_OK then (NULL, pArena, km')
        else (pBT, pArena\<lparr>bts := (bts pArena)(pBT \<mapsto> (raw_bt pArena pBT)
                 \<lparr>bt_typ := btt_span, bt_base := base, bt_uSize := size', psMapping := NULL\<rparr>)\<rparr>, km'))"

definition BuildBT :: "RA_ARENA \<Rightarrow> u32 \<Rightarrow> u32 \<Rightarrow> kmem \<Rightarrow> ptr \<times> RA_ARENA \<times> kmem" where
  "BuildBT pArena base size' km =
     (case OSAllocMem km of (e, pBT, km') \<Rightarrow>
        if e \<noteq> PVRSRV_OK then (NULL, pArena, km')
        else (pBT, pArena\<lparr>bts := (bts pArena)(pBT \<mapsto> (raw_bt pArena pBT)
                 \<lparr>bt_typ := btt_free, bt_base := base, bt_uSize := size'\<rparr>)\<rparr>, km'))"

definition InsertResource ::
  "RA_ARENA \<Rightarrow> u32 \<Rightarrow> u32 \<Rightarrow> kmem \<Rightarrow> (ptr \<times> RA_ARENA \<times> kmem) option" where
  "InsertResource pArena base size' km =
     (case BuildBT pArena base size' km of (pBT, a1, km') \<Rightarrow>
        if pBT = NULL then Some (NULL, a1, km')
        else do {
          (e, a2) \<leftarrow> SegmentListInsert a1 pBT;
          (if e \<noteq> PVRSRV_OK then Some (NULL, a2, km')
           else do {
             a3 \<leftarrow> FreeListInsert a2 pBT;
             Some (pBT,
                   stat (\<lambda>s. s\<lparr>uTotalResourceCount := uTotalResourceCount s + size',
                               uFreeResourceCount := uFreeResourceCount s + size',
                               uSpanCount := uSpanCount s + 1\<rparr>) a3, km')
           })
        })"

definition InsertResourceSpan ::
  "RA_ARENA \<Rightarrow> u32 \<Rightarrow> u32 \<Rightarrow> kmem \<Rightarrow> (ptr \<times> RA_ARENA \<times> kmem) option" where
  "InsertResourceSpan pArena base size' km =
     (case BuildSpanMarker pArena base size' km of (pSpanStart, a1, km1) \<Rightarrow>
      if pSpanStart = NULL then Some (NULL, a1, km1)
      else case BuildSpanMarker a1 (base + size') 0 km1 of (pSpanEnd, a2, km2) \<Rightarrow>
      if pSpanEnd = NULL then do {
        a2' \<leftarrow> free_bt pSpanStart a2;
        Some (NULL, a2', km2)
      }
      else case BuildBT a2 base size' km2 of (pBT, a3, km3) \<Rightarrow>
      if pBT = NULL then do {
        a3' \<leftarrow> free_bt pSpanEnd a3;
        a3'' \<leftarrow> free_bt pSpanStart a3';
        Some (NULL, a3'', km3)
      }
      else do {
        (e4, a4) \<leftarrow> SegmentListInsert a3 pSpanStart;
        (if e4 \<noteq> PVRSRV_OK then do {
           f1 \<leftarrow> free_bt pBT a4; f2 \<leftarrow> free_bt pSpanEnd f1; f3 \<leftarrow> free_bt pSpanStart f2;
           Some (NULL, f3, km3)
         }
         else do {
           (e5, a5) \<leftarrow> SegmentListInsertAfter a4 pSpanStart pBT;
           (if e5 \<noteq> PVRSRV_OK then do {
              f1 \<leftarrow> free_bt pBT a5; f2 \<leftarrow> free_bt pSpanEnd f1; f3 \<leftarrow> free_bt pSpanStart f2;
              Some (NULL, f3, km3)
            }
            else do {
              a6 \<leftarrow> FreeListInsert a5 pBT;
              (e7, a7) \<leftarrow> SegmentListInsertAfter a6 pBT pSpanEnd;
              (if e7 \<noteq> PVRSRV_OK then do {
                 f1 \<leftarrow> free_bt pBT a7; f2 \<leftarrow> free_bt pSpanEnd f1; f3 \<leftarrow> free_bt pSpanStart f2;
                 Some (NULL, f3, km3)
               }
               else Some (pBT,
                      stat (\<lambda>s. s\<lparr>uTotalResourceCount := uTotalResourceCount s + size'\<rparr>) a7, km3))
            })
         })
      })"

subsection \<open>Freeing a segment\<close>

definition merge_prev :: "RA_ARENA \<Rightarrow> ptr \<Rightarrow> RA_ARENA option" where
  "merge_prev pArena pBT = do {
     bt \<leftarrow> bts pArena pBT;
     let pNeighbour = pPrevSegment bt;
     (if pNeighbour = NULL then Some pArena
      else do {
        nb \<leftarrow> bts pArena pNeighbour;
        (if bt_typ nb = btt_free \<and> bt_base nb + bt_uSize nb = bt_base bt then do {
           a1 \<leftarrow> FreeListRemove pArena pNeighbour;
           a2 \<leftarrow> SegmentListRemove a1 pNeighbour;
           nb2 \<leftarrow> bts a2 pNeighbour;
           a3 \<leftarrow> upd_bt pBT (\<lambda>b. b\<lparr>bt_base := bt_base nb2\<rparr>) a2;
           a4 \<leftarrow> upd_bt pBT (\<lambda>b. b\<lparr>bt_uSize := bt_uSize b + bt_uSize nb2\<rparr>) a3;
           a5 \<leftarrow> free_bt pNeighbour a4;
           Some (stat (\<lambda>s. s\<lparr>uFreeSegmentCount := uFreeSegmentCount s - 1\<rparr>) a5)
         }
         else Some pArena)
      })
   }"

definition merge_next :: "RA_ARENA \<Rightarrow> ptr \<Rightarrow> RA_ARENA option" where
  "merge_next pArena pBT = do {
     bt \<leftarrow> bts pArena pBT;
     let pNeighbour = pNextSegment bt;
     (if pNeighbour = NULL then Some pArena
      else do {
        nb \<leftarrow> bts pArena pNeighbour;
        (if bt_typ nb = btt_free \<and> bt_base bt + bt_uSize bt = bt_base nb then do {
           a1 \<leftarrow> FreeListRemove pArena pNeighbour;
           a2 \<leftarrow> SegmentListRemove a1 pNeighbour;
           nb2 \<leftarrow> bts a2 pNeighbour;
           a3 \<leftarrow> upd_bt pBT (\<lambda>b. b\<lparr>bt_uSize := bt_uSize b + bt_uSize nb2\<rparr>) a2;
           a4 \<leftarrow> free_bt pNeighbour a3;
           Some (stat (\<lambda>s. s\<lparr>uFreeSegmentCount := uFreeSegmentCount s - 1\<rparr>) a4)
         }
         else Some pArena)
      })
   }"

definition free_backing :: "RA_ARENA \<Rightarrow> ptr \<Rightarrow> u32 \<Rightarrow> u32 \<Rightarrow> bool \<Rightarrow> RA_ARENA option" where
  "free_backing pArena pBT uOrigBase uOrigSize bFreeBackingStore =
     (if pBackingStoreFree pArena \<noteq> NULL \<and> bFreeBackingStore then do {
        bt \<leftarrow> bts pArena pBT;
        let q = uQuantum pArena;
        (if q = 0 then None
         else
           let rs = (uOrigBase div q) * q;
               uRoundedStart = (if rs < bt_base bt then rs + q else rs);
               re = ((uOrigBase + uOrigSize + q - 1) div q) * q;
               uRoundedEnd = (if re > bt_base bt + bt_uSize bt then re - q else re)
           in Some (if uRoundedStart < uRoundedEnd
                    then pArena\<lparr>ra_calls := ra_calls pArena @
                           [BackingStoreFree (pImportHandle pArena) uRoundedStart uRoundedEnd]\<rparr>
                    else pArena))
      }
      else Some pArena)"

definition settle_bt :: "RA_ARENA \<Rightarrow> ptr \<Rightarrow> RA_ARENA option" where
  "settle_bt pArena pBT = do {
     bt \<leftarrow> bts pArena pBT;
     span_next \<leftarrow> (if pNextSegment bt = NULL then Some False
                   else map_option (\<lambda>n. bt_typ n = btt_span) (bts pArena (pNextSegment bt)));
     span_prev \<leftarrow> (if \<not> span_next \<or> pPrevSegment bt = NULL then Some False
                   else map_option (\<lambda>n. bt_typ n = btt_span) (bts pArena (pPrevSegment bt)));
     (if span_next \<and> span_prev then do {
        let nxt = pNextSegment bt;
        let prv = pPrevSegment bt;
        a1 \<leftarrow> SegmentListRemove pArena nxt;
        a2 \<leftarrow> SegmentListRemove a1 prv;
        a3 \<leftarrow> SegmentListRemove a2 pBT;
        bt3 \<leftarrow> bts a3 pBT;
        let a4 = a3\<lparr>ra_calls := ra_calls a3 @
                      [ImportFree (pImportHandle a3) (bt_base bt3) (psMapping bt3)]\<rparr>;
        let a5 = stat (\<lambda>s. s\<lparr>uSpanCount := uSpanCount s - 1,
                              uExportCount := uExportCount s + 1,
                              uFreeSegmentCount := uFreeSegmentCount s - 1,
                              uFreeResourceCount := uFreeResourceCount s - bt_uSize bt3,
                              uTotalResourceCount := uTotalResourceCount s - bt_uSize bt3\<rparr>) a4;
        a6 \<leftarrow> free_bt nxt a5;
        a7 \<leftarrow> free_bt prv a6;
        free_bt pBT a7
      }
      else FreeListInsert pArena pBT)
   }"

definition FreeBT :: "RA_ARENA \<Rightarrow> ptr \<Rightarrow> bool \<Rightarrow> RA_ARENA option" where
  "FreeBT pArena pBT bFreeBackingStore =
     (if pBT = NULL then Some pArena
      else do {
        bt \<leftarrow> bts pArena pBT;
        let a0 = stat (\<lambda>s. s\<lparr>uLiveSegmentCount := uLiveSegmentCount s - 1,
                              uFreeSegmentCount := uFreeSegmentCount s + 1,
                              uFreeResourceCount := uFreeResourceCount s + bt_uSize bt\<rparr>) pArena;
        a1 \<leftarrow> merge_prev a0 pBT;
        a2 \<leftarrow> merge_next a1 pBT;
        a3 \<leftarrow> free_backing a2 pBT (bt_base bt) (bt_uSize bt) bFreeBackingStore;
        settle_bt a3 pBT
      })"

subsection \<open>Allocating\<close>

text \<open>
  The two splits of \<^verbatim>\<open>alloc_from_bt\<close>: the part of the tag below the start address and the part
  above the end go back to the free lists. The result NULL is the early return -1.
\<close>

definition split_front :: "RA_ARENA \<Rightarrow> ptr \<Rightarrow> u32 \<Rightarrow> kmem \<Rightarrow> (ptr \<times> RA_ARENA \<times> kmem) option" where
  "split_front arena bt start km = do {
     b \<leftarrow> bts arena bt;
     (if start > bt_base b then do {
        (next_bt, a1, km') \<leftarrow> SegmentSplit arena bt (start - bt_base b) km;
        (if next_bt = NULL then do {
           a2 \<leftarrow> FreeListInsert a1 bt;
           Some (NULL, a2, km')
         }
         else do {
           a2 \<leftarrow> FreeListInsert a1 bt;
           b2 \<leftarrow> bts a2 bt;
           Some (next_bt,
             stat (\<lambda>s. s\<lparr>uFreeSegmentCount := uFreeSegmentCount s + 1,
                         uFreeResourceCount := uFreeResourceCount s + bt_uSize b2\<rparr>) a2, km')
         })
      }
      else Some (bt, arena, km))
   }"

definition split_back :: "RA_ARENA \<Rightarrow> ptr \<Rightarrow> u32 \<Rightarrow> kmem \<Rightarrow> (ptr \<times> RA_ARENA \<times> kmem) option" where
  "split_back arena bt size' km = do {
     b \<leftarrow> bts arena bt;
     (if bt_uSize b > size' then do {
        (next_bt, a1, km') \<leftarrow> SegmentSplit arena bt size' km;
        (if next_bt = NULL then do {
           a2 \<leftarrow> FreeListInsert a1 bt;
           Some (NULL, a2, km')
         }
         else do {
           a2 \<leftarrow> FreeListInsert a1 next_bt;
           b2 \<leftarrow> bts a2 next_bt;
           Some (bt,
             stat (\<lambda>s. s\<lparr>uFreeSegmentCount := uFreeSegmentCount s + 1,
                         uFreeResourceCount := uFreeResourceCount s + bt_uSize b2\<rparr>) a2, km')
         })
      }
      else Some (bt, arena, km))
   }"

text \<open>The result is \<open>None\<close> inside for the C result -1, else the mapping and the base address.\<close>

definition mark_live ::
  "RA_ARENA \<Rightarrow> ptr \<Rightarrow> kmem \<Rightarrow> ((ptr \<times> u32) option \<times> RA_ARENA \<times> kmem) option" where
  "mark_live arena bt km = do {
     a1 \<leftarrow> upd_bt bt (\<lambda>b. b\<lparr>bt_typ := btt_live\<rparr>) arena;
     b1 \<leftarrow> bts a1 bt;
     (case HASH_Insert (pSegmentHash a1) (bt_base b1) bt km of (r, h, km') \<Rightarrow>
        if \<not> r then do {
          a2 \<leftarrow> FreeBT (a1\<lparr>pSegmentHash := h\<rparr>) bt False;
          Some (None, a2, km')
        }
        else Some (Some (psMapping b1, bt_base b1), a1\<lparr>pSegmentHash := h\<rparr>, km'))
   }"

definition alloc_from_bt ::
  "RA_ARENA \<Rightarrow> ptr \<Rightarrow> u32 \<Rightarrow> u32 \<Rightarrow> kmem \<Rightarrow> ((ptr \<times> u32) option \<times> RA_ARENA \<times> kmem) option" where
  "alloc_from_bt arena bt start size' km = do {
     a1 \<leftarrow> FreeListRemove arena bt;
     b1 \<leftarrow> bts a1 bt;
     let a2 = stat (\<lambda>s. s\<lparr>uLiveSegmentCount := uLiveSegmentCount s + 1,
                           uFreeSegmentCount := uFreeSegmentCount s - 1,
                           uFreeResourceCount := uFreeResourceCount s - bt_uSize b1\<rparr>) a1;
     (front, a3, km3) \<leftarrow> split_front a2 bt start km;
     (if front = NULL then Some (None, a3, km3)
      else do {
        (p, a4, km4) \<leftarrow> split_back a3 front size' km3;
        (if p = NULL then Some (None, a4, km4) else mark_live a4 p km4)
      })
   }"

definition align_up :: "u32 \<Rightarrow> u32 \<Rightarrow> u32" where
  "align_up base uAlignment =
     (if uAlignment > 1 then (base + uAlignment - 1) div uAlignment * uAlignment else base)"

partial_function (option) free_scan ::
  "RA_ARENA \<Rightarrow> u32 \<Rightarrow> u32 \<Rightarrow> u32 \<Rightarrow> ptr \<Rightarrow> (ptr \<times> u32) option option" where
  "free_scan pArena size' uFlags uAlignment pBT =
     (if pBT = NULL then Some None
      else do {
        bt \<leftarrow> bts pArena pBT;
        let aligned_base = align_up (bt_base bt) uAlignment;
        (if bt_base bt + bt_uSize bt < aligned_base + size'
         then free_scan pArena size' uFlags uAlignment (pNextFree bt)
         else do {
           mismatch \<leftarrow> (if psMapping bt \<noteq> NULL
                        then map_option (\<lambda>f. f \<noteq> uFlags) (mapping_flags pArena (psMapping bt))
                        else Some False);
           (if mismatch then free_scan pArena size' uFlags uAlignment (pNextFree bt)
            else Some (Some (pBT, aligned_base)))
         })
      })"

function skip_empty :: "RA_ARENA \<Rightarrow> nat \<Rightarrow> nat" where
  "skip_empty pArena uIndex =
     (if uIndex < FREE_TABLE_LIMIT \<and> aHeadFree pArena ! uIndex = NULL
      then skip_empty pArena (Suc uIndex) else uIndex)"
  by pat_completeness auto
termination
  by (relation "measure (\<lambda>(a, i). FREE_TABLE_LIMIT - i)") auto

function scan_classes ::
  "RA_ARENA \<Rightarrow> u32 \<Rightarrow> u32 \<Rightarrow> u32 \<Rightarrow> nat \<Rightarrow> (ptr \<times> u32) option option" where
  "scan_classes pArena size' uFlags uAlignment uIndex =
     (if uIndex < FREE_TABLE_LIMIT
      then (if aHeadFree pArena ! uIndex = NULL
            then scan_classes pArena size' uFlags uAlignment (Suc uIndex)
            else case free_scan pArena size' uFlags uAlignment (aHeadFree pArena ! uIndex) of
                   None \<Rightarrow> None
                 | Some None \<Rightarrow> scan_classes pArena size' uFlags uAlignment (Suc uIndex)
                 | Some (Some c) \<Rightarrow> Some (Some c))
      else Some None)"
  by pat_completeness auto
termination
  by (relation "measure (\<lambda>(a, s, f, al, i). FREE_TABLE_LIMIT - i)") auto

declare skip_empty.simps [simp del] scan_classes.simps [simp del] pvr_log2_loop.simps [simp del]

definition AttemptAllocAligned ::
  "RA_ARENA \<Rightarrow> u32 \<Rightarrow> u32 \<Rightarrow> u32 \<Rightarrow> kmem \<Rightarrow> ((ptr \<times> u32) option \<times> RA_ARENA \<times> kmem) option" where
  "AttemptAllocAligned pArena size' uFlags uAlignment km = do {
     c \<leftarrow> scan_classes pArena size' uFlags uAlignment
            (skip_empty pArena (unat (pvr_log2 size')));
     (case c of
        None \<Rightarrow> Some (None, pArena, km)
      | Some (pBT, aligned_base) \<Rightarrow> alloc_from_bt pArena pBT aligned_base size' km)
   }"

subsection \<open>The exported operations\<close>

definition zero_statistics :: RA_STATISTICS where
  "zero_statistics = \<lparr>uSpanCount = 0, uLiveSegmentCount = 0, uFreeSegmentCount = 0,
     uTotalResourceCount = 0, uFreeResourceCount = 0, uCumulativeAllocs = 0,
     uCumulativeFrees = 0, uImportCount = 0, uExportCount = 0\<rparr>"

definition RA_Create ::
  "u32 \<Rightarrow> u32 \<Rightarrow> ptr \<Rightarrow> u32 \<Rightarrow> ptr \<Rightarrow> ptr \<Rightarrow> ptr \<Rightarrow> (ptr \<Rightarrow> BT) \<Rightarrow> (ptr \<rightharpoonup> u32) \<Rightarrow> kmem
   \<Rightarrow> (RA_ARENA option \<times> kmem) option" where
  "RA_Create base size' mapping quantum imp_alloc backingstore_free import_handle raw flags km =
     (case OSAllocMem km of (e, _, km1) \<Rightarrow>
      if e \<noteq> PVRSRV_OK then Some (None, km1)
      else case HASH_Create MINIMUM_HASH_SIZE km1 of
        (None, km2) \<Rightarrow> Some (None, km2)
      | (Some h, km2) \<Rightarrow>
          let a0 = \<lparr>uQuantum = quantum,
                    pImportAlloc = (if imp_alloc \<noteq> NULL then ImportFn imp_alloc else RequestAllocFail),
                    pBackingStoreFree = backingstore_free, pImportHandle = import_handle,
                    aHeadFree = replicate FREE_TABLE_LIMIT NULL,
                    pHeadSegment = NULL, pTailSegment = NULL, pSegmentHash = h,
                    sStatistics = zero_statistics, bts = Map.empty, raw_bt = raw,
                    mapping_flags = flags, ra_calls = []\<rparr>
          in if size' > 0
             then (if quantum = 0 then None
                   else do {
                     (pBT, a1, km3) \<leftarrow>
                       InsertResource a0 base ((size' + quantum - 1) div quantum * quantum) km2;
                     (if pBT = NULL then Some (None, km3)
                      else do {
                        a2 \<leftarrow> upd_bt pBT (\<lambda>b. b\<lparr>psMapping := mapping\<rparr>) a1;
                        Some (Some a2, km3)
                      })
                   })
             else Some (Some a0, km2))"

partial_function (option) RA_Delete :: "RA_ARENA \<Rightarrow> RA_ARENA option" where
  "RA_Delete pArena =
     (if pHeadSegment pArena = NULL
      then Some (pArena\<lparr>aHeadFree := replicate FREE_TABLE_LIMIT NULL\<rparr>)
      else do {
        let pBT = pHeadSegment pArena;
        a1 \<leftarrow> SegmentListRemove (pArena\<lparr>aHeadFree := replicate FREE_TABLE_LIMIT NULL\<rparr>) pBT;
        a2 \<leftarrow> free_bt pBT a1;
        RA_Delete (stat (\<lambda>s. s\<lparr>uSpanCount := uSpanCount s - 1\<rparr>) a2)
      })"

partial_function (option) RA_TestDelete :: "RA_ARENA \<Rightarrow> bool option" where
  "RA_TestDelete pArena =
     (if pHeadSegment pArena \<noteq> NULL
      then do {
        bt \<leftarrow> bts pArena (pHeadSegment pArena);
        (if bt_typ bt \<noteq> btt_free then Some False else RA_TestDelete pArena)
      }
      else Some True)"

definition RA_Add :: "RA_ARENA \<Rightarrow> u32 \<Rightarrow> u32 \<Rightarrow> kmem \<Rightarrow> (bool \<times> RA_ARENA \<times> kmem) option" where
  "RA_Add pArena base size' km =
     (if uQuantum pArena = 0 then None
      else do {
        (pBT, a, km') \<leftarrow> InsertResource pArena base
                           ((size' + uQuantum pArena - 1) div uQuantum pArena * uQuantum pArena) km;
        Some (pBT \<noteq> NULL, a, km')
      })"

definition call_import :: "import_env \<Rightarrow> RA_ARENA \<Rightarrow> u32 \<Rightarrow> u32 \<Rightarrow> (u32 \<times> ptr \<times> u32) option" where
  "call_import imp pArena size' uFlags =
     (case pImportAlloc pArena of
        RequestAllocFail \<Rightarrow> None
      | ImportFn f \<Rightarrow> imp f (pImportHandle pArena) size' uFlags)"

definition RA_Alloc ::
  "import_env \<Rightarrow> RA_ARENA \<Rightarrow> u32 \<Rightarrow> u32 \<Rightarrow> u32 \<Rightarrow> kmem
   \<Rightarrow> ((ptr \<times> u32) option \<times> RA_ARENA \<times> kmem) option" where
  "RA_Alloc imp pArena uRequestSize uFlags uAlignment km = do {
     (r1, a1, km1) \<leftarrow> AttemptAllocAligned pArena uRequestSize uFlags uAlignment km;
     (r, a, km') \<leftarrow>
       (if r1 \<noteq> None then Some (r1, a1, km1)
        else if uQuantum a1 = 0 then None
        else
          let q = uQuantum a1;
              s1 = (if uAlignment > q then uRequestSize + (uAlignment - 1) else uRequestSize);
              s2 = (s1 + q - 1) div q * q
          in case call_import imp a1 s2 uFlags of
               None \<Rightarrow> Some (None, a1, km1)
             | Some (uImportSize, psImportMapping, import_base) \<Rightarrow> do {
                 (pBT, a2, km2) \<leftarrow> InsertResourceSpan a1 import_base uImportSize km1;
                 (if pBT = NULL
                  then Some (None, a2\<lparr>ra_calls := ra_calls a2 @
                               [ImportFree (pImportHandle a2) import_base psImportMapping]\<rparr>, km2)
                  else do {
                    a3 \<leftarrow> upd_bt pBT (\<lambda>b. b\<lparr>psMapping := psImportMapping\<rparr>) a2;
                    let a4 = stat (\<lambda>s. s\<lparr>uFreeSegmentCount := uFreeSegmentCount s + 1,
                                          uFreeResourceCount := uFreeResourceCount s + uImportSize,
                                          uImportCount := uImportCount s + 1,
                                          uSpanCount := uSpanCount s + 1\<rparr>) a3;
                    AttemptAllocAligned a4 uRequestSize uFlags uAlignment km2
                  })
               });
     Some (r, if r \<noteq> None
              then stat (\<lambda>s. s\<lparr>uCumulativeAllocs := uCumulativeAllocs s + 1\<rparr>) a else a, km')
   }"

definition RA_Free :: "RA_ARENA \<Rightarrow> u32 \<Rightarrow> bool \<Rightarrow> kmem \<Rightarrow> (RA_ARENA \<times> kmem) option" where
  "RA_Free pArena base bFreeBackingStore km =
     (case HASH_Remove (pSegmentHash pArena) base km of (pBT, h, km') \<Rightarrow>
        let a1 = pArena\<lparr>pSegmentHash := h\<rparr>
        in if pBT \<noteq> NULL
           then do {
             a2 \<leftarrow> FreeBT (stat (\<lambda>s. s\<lparr>uCumulativeFrees := uCumulativeFrees s + 1\<rparr>) a1)
                          pBT bFreeBackingStore;
             Some (a2, km')
           }
           else Some (a1, km'))"

record RA_SEGMENT_DETAILS =
  sd_uiSize :: u32
  sd_sCpuPhyAddr :: u32
  sd_hSegment :: ptr

partial_function (option) next_live ::
  "RA_ARENA \<Rightarrow> ptr \<Rightarrow> (bool \<times> RA_SEGMENT_DETAILS) option" where
  "next_live pArena pBT =
     (if pBT = NULL
      then Some (False, \<lparr>sd_uiSize = 0, sd_sCpuPhyAddr = 0, sd_hSegment = - 1\<rparr>)
      else do {
        bt \<leftarrow> bts pArena pBT;
        (if bt_typ bt = btt_live
         then Some (True, \<lparr>sd_uiSize = bt_uSize bt, sd_sCpuPhyAddr = bt_base bt,
                           sd_hSegment = pNextSegment bt\<rparr>)
         else next_live pArena (pNextSegment bt))
      })"

definition RA_GetNextLiveSegment ::
  "RA_ARENA \<Rightarrow> RA_SEGMENT_DETAILS \<Rightarrow> (bool \<times> RA_SEGMENT_DETAILS) option" where
  "RA_GetNextLiveSegment pArena psSegDetails =
     next_live pArena
       (if sd_hSegment psSegDetails \<noteq> NULL then sd_hSegment psSegDetails else pHeadSegment pArena)"

declare segment_scan.simps [code] free_scan.simps [code] RA_Delete.simps [code]
  RA_TestDelete.simps [code] next_live.simps [code]

end
