(* ===== verification/Pvr_Dll.thy ===== *)
theory Pvr_Dll
  imports Pvr_Prelude
begin

text \<open>
  Doubly linked lists in a store, as the boundary tags of \<^verbatim>\<open>src/pvr/ra.c\<close> form them twice over
  (the segment chain and the free lists). A link map gives, for every address that holds a
  node, its next and its previous pointer; \<open>dll\<close> relates a link map to the list of addresses
  it chains. The lemmas say what the two pointer surgeries of the code, unlinking a node and
  splicing one in, do to that list.
\<close>

type_synonym links = "ptr \<rightharpoonup> ptr \<times> ptr"

primrec hdd :: "ptr \<Rightarrow> ptr list \<Rightarrow> ptr" where
  "hdd d [] = d"
| "hdd d (p # ps) = p"

primrec lastd :: "ptr \<Rightarrow> ptr list \<Rightarrow> ptr" where
  "lastd d [] = d"
| "lastd d (p # ps) = lastd p ps"

primrec dll :: "links \<Rightarrow> ptr \<Rightarrow> ptr list \<Rightarrow> ptr \<Rightarrow> bool" where
  "dll L before [] after \<longleftrightarrow> True"
| "dll L before (p # ps) after \<longleftrightarrow> L p = Some (hdd after ps, before) \<and> dll L p ps after"

definition link_next :: "links \<Rightarrow> ptr \<Rightarrow> ptr \<Rightarrow> links" where
  "link_next L p n = (if p = NULL then L else L(p := map_option (\<lambda>(_, v). (n, v)) (L p)))"

definition link_prev :: "links \<Rightarrow> ptr \<Rightarrow> ptr \<Rightarrow> links" where
  "link_prev L p v = (if p = NULL then L else L(p := map_option (\<lambda>(n, _). (n, v)) (L p)))"

lemma hdd_append [simp]: "hdd d (xs @ ys) = hdd (hdd d ys) xs"
  by (cases xs) auto

lemma lastd_append [simp]: "lastd d (xs @ ys) = lastd (lastd d xs) ys"
  by (induction xs arbitrary: d) auto

lemma hdd_in: "xs \<noteq> [] \<Longrightarrow> hdd d xs \<in> set xs"
  by (cases xs) auto

lemma lastd_in: "xs \<noteq> [] \<Longrightarrow> lastd d xs \<in> set xs"
proof (induction xs arbitrary: d)
  case (Cons x xs)
  then show ?case by (cases xs) auto
qed simp

lemma hdd_cases: "hdd d xs = d \<and> xs = [] \<or> hdd d xs \<in> set xs"
  by (cases xs) auto

lemma lastd_cases: "lastd d xs = d \<and> xs = [] \<or> lastd d xs \<in> set xs"
  using lastd_in by (cases "xs = []") auto

lemma hdd_NULL: "NULL \<notin> set xs \<Longrightarrow> hdd NULL xs = NULL \<longleftrightarrow> xs = []"
  using hdd_cases [of NULL xs] by auto

lemma lastd_NULL: "NULL \<notin> set xs \<Longrightarrow> lastd NULL xs = NULL \<longleftrightarrow> xs = []"
  using lastd_cases [of NULL xs] by auto

lemma lastd_nonempty: "xs \<noteq> [] \<Longrightarrow> lastd d xs = last xs"
  by (induction xs arbitrary: d) auto

lemma hdd_nonempty: "xs \<noteq> [] \<Longrightarrow> hdd d xs = hd xs"
  by (cases xs) auto

lemma dll_append:
  "dll L before (xs @ ys) after \<longleftrightarrow> dll L before xs (hdd after ys) \<and> dll L (lastd before xs) ys after"
  by (induction xs arbitrary: before) auto

lemma dll_frame:
  "(\<And>p. p \<in> set xs \<Longrightarrow> L' p = L p) \<Longrightarrow> dll L' before xs after = dll L before xs after"
  by (induction xs arbitrary: before) auto

lemma dll_upd_other [simp]: "p \<notin> set xs \<Longrightarrow> dll (L(p := v)) before xs after = dll L before xs after"
  by (rule dll_frame) auto

lemma dll_alloc: "dll L before xs after \<Longrightarrow> p \<in> set xs \<Longrightarrow> \<exists>n v. L p = Some (n, v)"
  by (induction xs arbitrary: before) auto

lemma dll_mid:
  "dll L NULL (xs @ p # ys) NULL \<Longrightarrow> L p = Some (hdd NULL ys, lastd NULL xs)"
  by (simp add: dll_append)

lemma link_next_other [simp]: "q \<noteq> p \<Longrightarrow> link_next L p n q = L q"
  by (simp add: link_next_def)

lemma link_prev_other [simp]: "q \<noteq> p \<Longrightarrow> link_prev L p n q = L q"
  by (simp add: link_prev_def)

text \<open>Redirecting the two ends of a chain.\<close>

lemma dll_link_next:
  "dll L before xs after \<Longrightarrow> distinct xs \<Longrightarrow> NULL \<notin> set xs \<Longrightarrow> xs \<noteq> [] \<Longrightarrow>
   dll (link_next L (lastd d xs) after') before xs after'"
proof (induction xs arbitrary: before d)
  case (Cons x xs)
  show ?case
  proof (cases "xs = []")
    case True
    with Cons.prems show ?thesis by (simp add: link_next_def)
  next
    case False
    then have "lastd x xs \<noteq> x" using Cons.prems lastd_in [of xs x] by auto
    moreover from False have "hdd after xs = hdd after' xs" by (cases xs) auto
    ultimately show ?thesis using Cons False by auto
  qed
qed simp

lemma dll_link_prev:
  "dll L before xs after \<Longrightarrow> distinct xs \<Longrightarrow> NULL \<notin> set xs \<Longrightarrow> xs \<noteq> [] \<Longrightarrow>
   dll (link_prev L (hdd d xs) before') before' xs after"
proof (cases xs)
  case (Cons x ys)
  moreover assume "dll L before xs after" "distinct xs" "NULL \<notin> set xs"
  ultimately show ?thesis
    by (auto simp: link_prev_def)
qed simp

lemma dll_relink_left:
  assumes "dll L NULL xs after" "distinct xs" "NULL \<notin> set xs"
  shows "dll (link_next L (lastd NULL xs) after') NULL xs after'"
  using dll_link_next [OF assms] by (cases "xs = []") auto

lemma dll_relink_right:
  assumes "dll L before ys NULL" "distinct ys" "NULL \<notin> set ys"
  shows "dll (link_prev L (hdd NULL ys) before') before' ys NULL"
  using dll_link_prev [OF assms] by (cases "ys = []") auto

lemma dll_link_next_frame:
  "lastd NULL xs \<notin> set ys \<or> lastd NULL xs = NULL \<Longrightarrow>
   dll (link_next L (lastd NULL xs) n) before ys after = dll L before ys after"
  by (rule dll_frame) (auto simp: link_next_def)

text \<open>Unlinking the node \<open>p\<close>, and splicing it in, in the middle of a chain.\<close>

lemma dll_unlink:
  assumes "dll L NULL (xs @ p # ys) NULL" "distinct (xs @ p # ys)" "NULL \<notin> set (xs @ p # ys)"
  shows "dll (link_prev (link_next L (lastd NULL xs) (hdd NULL ys)) (hdd NULL ys) (lastd NULL xs))
           NULL (xs @ ys) NULL" (is "dll ?L NULL (xs @ ys) NULL")
proof -
  have l: "dll L NULL xs p" and r: "dll L p ys NULL" using assms(1) by (auto simp: dll_append)
  have d: "distinct xs" "distinct ys" "set xs \<inter> set ys = {}" "NULL \<notin> set xs" "NULL \<notin> set ys"
    using assms(2,3) by auto
  have "dll (link_next L (lastd NULL xs) (hdd NULL ys)) NULL xs (hdd NULL ys)"
    by (rule dll_relink_left [OF l d(1,4)])
  moreover have "hdd NULL ys \<notin> set xs" using hdd_cases [of NULL ys] d by auto
  ultimately have 1: "dll ?L NULL xs (hdd NULL ys)"
    by (subst dll_frame [where L = "link_next L (lastd NULL xs) (hdd NULL ys)"])
      (auto simp: link_prev_def)
  have "lastd NULL xs \<notin> set ys" using lastd_cases [of NULL xs] d by auto
  then have "dll (link_next L (lastd NULL xs) (hdd NULL ys)) p ys NULL"
    using r by (subst dll_frame [where L = L]) (auto simp: link_next_def)
  then have 2: "dll ?L (lastd NULL xs) ys NULL" by (rule dll_relink_right [OF _ d(2,5)])
  from 1 2 show ?thesis by (simp add: dll_append)
qed

lemma dll_splice:
  assumes "dll L NULL (xs @ ys) NULL" "distinct (xs @ p # ys)" "NULL \<notin> set (xs @ p # ys)"
    and p: "L' p = Some (hdd NULL ys, lastd NULL xs)"
    and xs: "\<And>q. q \<in> set xs \<Longrightarrow> L' q = link_next L (lastd NULL xs) p q"
    and ys: "\<And>q. q \<in> set ys \<Longrightarrow> L' q = link_prev L (hdd NULL ys) p q"
  shows "dll L' NULL (xs @ p # ys) NULL"
proof -
  have l: "dll L NULL xs (hdd NULL ys)" and r: "dll L (lastd NULL xs) ys NULL"
    using assms(1) by (auto simp: dll_append)
  have "dll (link_next L (lastd NULL xs) p) NULL xs p"
    by (rule dll_relink_left [OF l]) (use assms(2,3) in auto)
  then have 1: "dll L' NULL xs p" using xs by (subst dll_frame) auto
  have "dll (link_prev L (hdd NULL ys) p) p ys NULL"
    by (rule dll_relink_right [OF r]) (use assms(2,3) in auto)
  then have 2: "dll L' p ys NULL" using ys by (subst dll_frame) auto
  from 1 2 p show ?thesis by (simp add: dll_append)
qed

end
