(* ===== verification/Pvr_Ra_Rep.thy ===== *)
theory Pvr_Ra_Rep
  imports Pvr_Ra Pvr_Dll
begin

text \<open>
  How the store of an arena represents lists. The tags carry three independent groups of
  fields: the segment links, the free-list links and the data (type, base, size, mapping).
  Each pointer operation of \<^verbatim>\<open>src/pvr/ra.c\<close> is shown to succeed on a well-formed store, with
  its effect on the list of segments or on the free lists, and to leave the other groups alone.
\<close>

type_synonym item = "bt_type \<times> u32 \<times> u32 \<times> ptr"

definition bt_item :: "BT \<Rightarrow> item" where
  "bt_item b = (bt_typ b, bt_base b, bt_uSize b, psMapping b)"

definition segh :: "RA_ARENA \<Rightarrow> links" where
  "segh a = (\<lambda>p. map_option (\<lambda>b. (pNextSegment b, pPrevSegment b)) (bts a p))"

definition freeh :: "RA_ARENA \<Rightarrow> links" where
  "freeh a = (\<lambda>p. map_option (\<lambda>b. (pNextFree b, pPrevFree b)) (bts a p))"

definition data :: "RA_ARENA \<Rightarrow> ptr \<rightharpoonup> item" where
  "data a = (\<lambda>p. map_option bt_item (bts a p))"

definition cfg :: "RA_ARENA \<Rightarrow> u32 \<times> import_fn \<times> ptr \<times> ptr \<times> (ptr \<Rightarrow> BT) \<times> (ptr \<rightharpoonup> u32)" where
  "cfg a = (uQuantum a, pImportAlloc a, pBackingStoreFree a, pImportHandle a, raw_bt a,
            mapping_flags a)"

lemmas views = segh_def freeh_def data_def bt_item_def

definition seg_chain :: "RA_ARENA \<Rightarrow> ptr list \<Rightarrow> bool" where
  "seg_chain a segs \<longleftrightarrow>
     dll (segh a) NULL segs NULL \<and> distinct segs \<and> NULL \<notin> set segs \<and>
     pHeadSegment a = hdd NULL segs \<and> pTailSegment a = lastd NULL segs"

definition free_chains :: "RA_ARENA \<Rightarrow> ptr list list \<Rightarrow> bool" where
  "free_chains a fl \<longleftrightarrow>
     length fl = FREE_TABLE_LIMIT \<and> length (aHeadFree a) = FREE_TABLE_LIMIT \<and>
     distinct (concat fl) \<and> NULL \<notin> set (concat fl) \<and>
     (\<forall>i < FREE_TABLE_LIMIT. dll (freeh a) NULL (fl ! i) NULL \<and> aHeadFree a ! i = hdd NULL (fl ! i))"

text \<open>What an operation on one group of fields leaves alone.\<close>

definition same_rest :: "RA_ARENA \<Rightarrow> RA_ARENA \<Rightarrow> bool" where
  "same_rest a a' \<longleftrightarrow> pSegmentHash a' = pSegmentHash a \<and> sStatistics a' = sStatistics a \<and>
     ra_calls a' = ra_calls a \<and> cfg a' = cfg a"

definition seg_frame :: "RA_ARENA \<Rightarrow> RA_ARENA \<Rightarrow> bool" where
  "seg_frame a a' \<longleftrightarrow> freeh a' = freeh a \<and> aHeadFree a' = aHeadFree a \<and> same_rest a a'"

definition free_frame :: "RA_ARENA \<Rightarrow> RA_ARENA \<Rightarrow> bool" where
  "free_frame a a' \<longleftrightarrow> segh a' = segh a \<and> pHeadSegment a' = pHeadSegment a \<and>
     pTailSegment a' = pTailSegment a \<and> same_rest a a'"

lemmas frames = seg_frame_def free_frame_def same_rest_def cfg_def

lemma dom_data [simp]: "dom (data a) = dom (bts a)"
  by (auto simp: data_def dom_def)

lemma seg_chain_alloc: "seg_chain a segs \<Longrightarrow> p \<in> set segs \<Longrightarrow> \<exists>b. bts a p = Some b"
  using dll_alloc [of "segh a" NULL segs NULL p] by (auto simp: seg_chain_def segh_def)

lemma seg_chain_mid:
  assumes "seg_chain a (xs @ p # ys)"
  obtains b where "bts a p = Some b" "pNextSegment b = hdd NULL ys" "pPrevSegment b = lastd NULL xs"
  using dll_mid [of "segh a" xs p ys] assms by (auto simp: seg_chain_def segh_def)

lemma free_chains_alloc: "free_chains a fl \<Longrightarrow> p \<in> set (concat fl) \<Longrightarrow> \<exists>b. bts a p = Some b"
  using dll_alloc [of "freeh a" NULL _ NULL p]
  by (fastforce simp: free_chains_def freeh_def in_set_conv_nth)

lemma upd_bt_simp [simp]: "bts a p = Some b \<Longrightarrow> upd_bt p f a = Some (a\<lparr>bts := (bts a)(p \<mapsto> f b)\<rparr>)"
  by (simp add: upd_bt_def)

lemma free_bt_simp [simp]: "bts a p = Some b \<Longrightarrow> free_bt p a = Some (a\<lparr>bts := (bts a)(p := None)\<rparr>)"
  by (simp add: free_bt_def)

lemma SegmentListRemove_spec:
  assumes ch: "seg_chain a (xs @ p # ys)"
  shows "\<exists>a'. SegmentListRemove a p = Some a' \<and> seg_chain a' (xs @ ys) \<and> data a' = data a \<and>
           seg_frame a a'"
proof -
  obtain b where b: "bts a p = Some b" "pNextSegment b = hdd NULL ys" "pPrevSegment b = lastd NULL xs"
    by (rule seg_chain_mid [OF ch])
  have d: "dll (segh a) NULL (xs @ p # ys) NULL" "distinct (xs @ p # ys)" "NULL \<notin> set (xs @ p # ys)"
    "pHeadSegment a = hdd NULL (xs @ p # ys)" "pTailSegment a = lastd NULL (xs @ p # ys)"
    using ch by (auto simp: seg_chain_def)
  let ?l = "lastd NULL xs" and ?n = "hdd NULL ys"
  have l: "?l = NULL \<longleftrightarrow> xs = []" "?l \<noteq> NULL \<Longrightarrow> ?l \<noteq> p \<and> ?l \<notin> set ys \<and> (\<exists>bl. bts a ?l = Some bl)"
    using d lastd_cases [of NULL xs] seg_chain_alloc [OF ch] by (auto simp: lastd_NULL)
  have n: "?n = NULL \<longleftrightarrow> ys = []" "?n \<noteq> NULL \<Longrightarrow> ?n \<noteq> p \<and> ?n \<noteq> ?l \<and> (\<exists>bn. bts a ?n = Some bn)"
    using d hdd_cases [of NULL ys] lastd_cases [of NULL xs] seg_chain_alloc [OF ch]
    by (auto simp: hdd_NULL)
  obtain a' where a': "SegmentListRemove a p = Some a'"
    "segh a' = link_prev (link_next (segh a) ?l ?n) ?n ?l" "data a' = data a" "seg_frame a a'"
    "pHeadSegment a' = (if xs = [] then ?n else pHeadSegment a)"
    "pTailSegment a' = (if ys = [] then ?l else pTailSegment a)"
    using b l n
    by (cases "xs = []"; cases "ys = []")
      (auto simp: SegmentListRemove_def views frames link_next_def link_prev_def fun_eq_iff)
  have "dll (segh a') NULL (xs @ ys) NULL" unfolding a'(2) by (rule dll_unlink [OF d(1-3)])
  then have "seg_chain a' (xs @ ys)"
    using d(2-5) a'(5,6) by (cases xs; cases ys) (auto simp: seg_chain_def)
  with a' show ?thesis by blast
qed

definition it_typ :: "item \<Rightarrow> bt_type" where "it_typ x = fst x"
definition it_base :: "item \<Rightarrow> u32" where "it_base x = fst (snd x)"
definition it_size :: "item \<Rightarrow> u32" where "it_size x = fst (snd (snd x))"
definition it_map :: "item \<Rightarrow> ptr" where "it_map x = snd (snd (snd x))"

lemmas it_defs = it_typ_def it_base_def it_size_def it_map_def

definition item_at :: "RA_ARENA \<Rightarrow> ptr \<Rightarrow> item" where
  "item_at a p = the (data a p)"

lemma item_at_bts: "bts a p = Some b \<Longrightarrow> item_at a p = bt_item b"
  by (simp add: item_at_def data_def)

lemma SegmentListInsertAfter_spec:
  assumes ch: "seg_chain a (xs @ ys)" and xs: "xs \<noteq> []" and ins: "ins = lastd NULL xs"
    and p: "p \<notin> set (xs @ ys)" "p \<noteq> NULL" "bts a p = Some b"
  shows "\<exists>a'. SegmentListInsertAfter a ins p = Some (PVRSRV_OK, a') \<and>
           seg_chain a' (xs @ p # ys) \<and> data a' = data a \<and> seg_frame a a'"
proof -
  have d: "dll (segh a) NULL (xs @ ys) NULL" "distinct (xs @ ys)" "NULL \<notin> set (xs @ ys)"
    "pHeadSegment a = hdd NULL (xs @ ys)" "pTailSegment a = lastd NULL (xs @ ys)"
    using ch by (auto simp: seg_chain_def)
  let ?n = "hdd NULL ys"
  have l: "ins \<in> set xs" "ins \<noteq> NULL" "ins \<noteq> p" "ins \<notin> set ys"
    using lastd_in [OF xs, of NULL] d(2,3) p(1) ins by auto
  obtain bi where bi: "bts a ins = Some bi" using seg_chain_alloc [OF ch] l(1) by auto
  obtain zs where zs: "xs = zs @ [ins]" using xs ins by (metis append_butlast_last_id lastd_nonempty)
  have ni: "pNextSegment bi = ?n" using seg_chain_mid [of a zs ins ys] ch bi by (simp add: zs) (metis option.inject)
  have n: "?n = NULL \<longleftrightarrow> ys = []"
    "?n \<noteq> NULL \<Longrightarrow> ?n \<in> set ys \<and> ?n \<noteq> p \<and> ?n \<noteq> ins \<and> (\<exists>bn. bts a ?n = Some bn)"
    using d p hdd_cases [of NULL ys] seg_chain_alloc [OF ch] l by (auto simp: hdd_NULL)
  obtain a' where a': "SegmentListInsertAfter a ins p = Some (PVRSRV_OK, a')"
    "segh a' = link_next (link_prev ((segh a)(p \<mapsto> (?n, ins))) ?n p) ins p" "data a' = data a"
    "seg_frame a a'" "pHeadSegment a' = pHeadSegment a"
    "pTailSegment a' = (if ys = [] then p else pTailSegment a)"
    using p bi l n ni
    by (cases "ys = []")
      (auto simp: SegmentListInsertAfter_def views frames link_next_def link_prev_def fun_eq_iff)
  have "dll (segh a') NULL (xs @ p # ys) NULL"
    by (rule dll_splice [OF d(1)])
      (use d(2,3) p l n ins a'(2) in \<open>auto simp: link_next_def link_prev_def\<close>)
  then have "seg_chain a' (xs @ p # ys)"
    using d(2-5) p xs a'(5,6) by (cases xs; cases ys) (auto simp: seg_chain_def)
  with a' show ?thesis by blast
qed

lemma segment_scan_spec:
  assumes "seg_chain a (A @ q # B)"
  shows "\<exists>C q' D. q # B = C @ q' # D \<and> segment_scan a base q = Some q' \<and>
           (\<forall>x \<in> set (tl (C @ [q'])). it_base (item_at a x) \<le> base) \<and>
           (D = [] \<or> base < it_base (item_at a (hd D)))"
  using assms
proof (induction B arbitrary: A q)
  case Nil
  obtain b where "bts a q = Some b" "pNextSegment b = NULL"
    using seg_chain_mid [OF Nil.prems] by auto
  then have "segment_scan a base q = Some q" by (subst segment_scan.simps) simp
  then show ?case by (intro exI [of _ "[]"] exI [of _ q]) simp
next
  case (Cons r B)
  obtain b where b: "bts a q = Some b" "pNextSegment b = r"
    using seg_chain_mid [OF Cons.prems] by auto
  have ch: "seg_chain a ((A @ [q]) @ r # B)" using Cons.prems by simp
  obtain br where br: "bts a r = Some br" using seg_chain_mid [OF ch] by auto
  have "r \<noteq> NULL" using ch by (auto simp: seg_chain_def)
  with b br have step: "segment_scan a base q =
      (if bt_base br \<le> base then segment_scan a base r else Some q)"
    by (subst segment_scan.simps) simp
  have rb: "it_base (item_at a r) = bt_base br" by (simp add: item_at_bts [OF br] bt_item_def it_defs)
  show ?case
  proof (cases "bt_base br \<le> base")
    case True
    from Cons.IH [OF ch] obtain C q' D where IH: "r # B = C @ q' # D"
      "segment_scan a base r = Some q'"
      "\<forall>x \<in> set (tl (C @ [q'])). it_base (item_at a x) \<le> base"
      "D = [] \<or> base < it_base (item_at a (hd D))" by blast
    have "\<forall>x \<in> set (C @ [q']). it_base (item_at a x) \<le> base"
      using IH(1,3) True rb by (cases C) auto
    then show ?thesis using IH True step by (intro exI [of _ "q # C"] exI [of _ q'] exI [of _ D]) simp
  next
    case False
    then show ?thesis using step rb by (intro exI [of _ "[]"] exI [of _ q] exI [of _ "r # B"]) auto
  qed
qed

lemma SegmentListInsert_spec:
  assumes ch: "seg_chain a segs" and p: "p \<notin> set segs" "p \<noteq> NULL" "bts a p = Some b"
  shows "\<exists>a' A B. SegmentListInsert a p = Some (PVRSRV_OK, a') \<and> segs = A @ B \<and>
           seg_chain a' (A @ p # B) \<and> data a' = data a \<and> seg_frame a a' \<and>
           (\<forall>x \<in> set A. it_base (item_at a x) \<le> bt_base b) \<and>
           (B = [] \<or> bt_base b < it_base (item_at a (hd B)))"
proof (cases segs)
  case Nil
  have "\<exists>a'. SegmentListInsert a p = Some (PVRSRV_OK, a') \<and> seg_chain a' [p] \<and> data a' = data a \<and>
          seg_frame a a'"
    using ch p Nil
    by (auto simp: SegmentListInsert_def seg_chain_def views frames fun_eq_iff)
  with Nil show ?thesis by fastforce
next
  case (Cons h B)
  have h: "pHeadSegment a = h" "h \<noteq> NULL" "h \<noteq> p" using ch p Cons by (auto simp: seg_chain_def)
  obtain bh where bh: "bts a h = Some bh" using seg_chain_alloc [OF ch] Cons by auto
  have hb: "it_base (item_at a h) = bt_base bh" by (simp add: item_at_bts [OF bh] bt_item_def it_defs)
  show ?thesis
  proof (cases "bt_base b < bt_base bh")
    case True
    let ?L = "link_prev ((segh a)(p \<mapsto> (h, NULL))) h p"
    obtain a' where a': "SegmentListInsert a p = Some (PVRSRV_OK, a')" "segh a' = ?L"
      "data a' = data a" "seg_frame a a'" "pHeadSegment a' = p" "pTailSegment a' = pTailSegment a"
      using p bh h True
      by (auto simp: SegmentListInsert_def views frames link_prev_def fun_eq_iff)
    have "dll (segh a') NULL ([] @ p # segs) NULL"
    proof (rule dll_splice [of "segh a"])
      show "dll (segh a) NULL ([] @ segs) NULL" using ch by (simp add: seg_chain_def)
    qed (use ch p h a'(2) Cons in \<open>auto simp: seg_chain_def link_prev_def\<close>)
    then have "seg_chain a' ([] @ p # segs)"
      using ch p a'(5,6) Cons by (auto simp: seg_chain_def)
    with a' True hb Cons show ?thesis
      by (intro exI [of _ a'] exI [of _ "[]"] exI [of _ segs]) simp
  next
    case False
    from segment_scan_spec [of a "[]" h B "bt_base b"] ch Cons
    obtain C q' D where sc: "h # B = C @ q' # D" "segment_scan a (bt_base b) h = Some q'"
      "\<forall>x \<in> set (tl (C @ [q'])). it_base (item_at a x) \<le> bt_base b"
      "D = [] \<or> bt_base b < it_base (item_at a (hd D))" by auto
    have all: "\<forall>x \<in> set (C @ [q']). it_base (item_at a x) \<le> bt_base b"
      using sc(1,3) False hb by (cases C) auto
    have segs: "segs = (C @ [q']) @ D" using sc(1) Cons by simp
    from SegmentListInsertAfter_spec [of a "C @ [q']" D q' p b] ch p segs
    obtain a' where "SegmentListInsertAfter a q' p = Some (PVRSRV_OK, a')"
      "seg_chain a' ((C @ [q']) @ p # D)" "data a' = data a" "seg_frame a a'" by auto
    with sc(2,4) all segs p bh h False show ?thesis
      by (intro exI [of _ a'] exI [of _ "C @ [q']"] exI [of _ D]) (auto simp: SegmentListInsert_def)
  qed
qed

lemma SegmentSplit_fail:
  "OSAllocMem km = (PVRSRV_ERROR_OUT_OF_MEMORY, NULL, km') \<Longrightarrow> SegmentSplit a p n km = Some (NULL, a, km')"
  by (simp add: SegmentSplit_def)

lemma SegmentSplit_spec:
  assumes ch: "seg_chain a (xs @ p # ys)" and b: "bts a p = Some b"
    and q: "q \<noteq> NULL" "bts a q = None"
  shows "\<exists>a'. SegmentSplit a p n (q # km) = Some (q, a', km) \<and> seg_chain a' (xs @ p # q # ys) \<and>
           data a' = (data a)(p \<mapsto> (bt_typ b, bt_base b, n, psMapping b),
             q \<mapsto> (btt_free, bt_base b + n, bt_uSize b - n, psMapping b)) \<and>
           (\<forall>r. r \<noteq> q \<longrightarrow> freeh a' r = freeh a r) \<and> aHeadFree a' = aHeadFree a \<and> same_rest a a'"
proof -
  have b': "pNextSegment b = hdd NULL ys" using seg_chain_mid [OF ch] b by auto
  have d: "dll (segh a) NULL ((xs @ [p]) @ ys) NULL" "distinct (xs @ p # ys)" "NULL \<notin> set (xs @ p # ys)"
    "pHeadSegment a = hdd NULL (xs @ p # ys)" "pTailSegment a = lastd NULL (xs @ p # ys)"
    using ch by (auto simp: seg_chain_def)
  have qn: "q \<notin> set (xs @ p # ys)" using seg_chain_alloc [OF ch] q by fastforce
  let ?n = "hdd NULL ys"
  have n: "?n = NULL \<longleftrightarrow> ys = []"
    "?n \<noteq> NULL \<Longrightarrow> ?n \<in> set ys \<and> ?n \<noteq> p \<and> ?n \<noteq> q \<and> (\<exists>bn. bts a ?n = Some bn)"
    using d qn hdd_cases [of NULL ys] seg_chain_alloc [OF ch] by (auto simp: hdd_NULL)
  obtain a' where a': "SegmentSplit a p n (q # km) = Some (q, a', km)"
    "segh a' = link_next (link_prev ((segh a)(q \<mapsto> (?n, p))) ?n q) p q"
    "data a' = (data a)(p \<mapsto> (bt_typ b, bt_base b, n, psMapping b),
             q \<mapsto> (btt_free, bt_base b + n, bt_uSize b - n, psMapping b))"
    "\<forall>r. r \<noteq> q \<longrightarrow> freeh a' r = freeh a r" "aHeadFree a' = aHeadFree a" "same_rest a a'"
    "pHeadSegment a' = pHeadSegment a" "pTailSegment a' = (if ys = [] then q else pTailSegment a)"
    using b b' q qn n d(3)
    by (cases "ys = []")
      (auto simp: SegmentSplit_def new_bt_def views frames link_next_def link_prev_def fun_eq_iff)
  have "dll (segh a') NULL ((xs @ [p]) @ q # ys) NULL"
    by (rule dll_splice [OF d(1)])
      (use d(2,3) q qn n a'(2) in \<open>auto simp: link_next_def link_prev_def\<close>)
  then have "seg_chain a' (xs @ p # q # ys)"
    using d(2-5) q qn a'(7,8) by (cases xs; cases ys) (auto simp: seg_chain_def)
  with a' show ?thesis by blast
qed

subsection \<open>Size classes\<close>

lemma pvr_log2_loop_spec:
  "unat n < 2 ^ m \<Longrightarrow>
   \<exists>k \<le> m. pvr_log2_loop n l = l + of_nat k \<and> unat n < 2 ^ k \<and> (k > 0 \<longrightarrow> 2 ^ (k - 1) \<le> unat n)"
proof (induction m arbitrary: n l)
  case 0
  then have "n = 0" by (simp add: unat_eq_zero)
  then show ?case by (simp add: pvr_log2_loop.simps)
next
  case (Suc m)
  show ?case
  proof (cases "n = 0")
    case True
    then show ?thesis by (simp add: pvr_log2_loop.simps)
  next
    case False
    have half: "unat (drop_bit 1 n) = unat n div 2" by (simp add: drop_bit_eq_div unat_div)
    then have "unat (drop_bit 1 n) < 2 ^ m" using Suc.prems by simp
    from Suc.IH [OF this, of "l + 1"] obtain k where k: "k \<le> m"
      "pvr_log2_loop (drop_bit 1 n) (l + 1) = l + 1 + of_nat k" "unat n div 2 < 2 ^ k"
      "k > 0 \<longrightarrow> 2 ^ (k - 1) \<le> unat n div 2" unfolding half by blast
    have "pvr_log2_loop n l = l + of_nat (Suc k)"
      using False k(2) by (subst pvr_log2_loop.simps) (simp add: word_neq_0_conv)
    moreover have "unat n < 2 ^ Suc k" using k(3) by simp
    moreover have "2 ^ k \<le> unat n"
    proof (cases k)
      case 0
      then show ?thesis using False by (simp add: Suc_le_eq unat_gt_0 word_neq_0_conv)
    next
      case (Suc j)
      then show ?thesis using k(4) by simp
    qed
    ultimately show ?thesis using k(1) by (intro exI [of _ "Suc k"]) simp
  qed
qed

definition size_class :: "u32 \<Rightarrow> nat" where
  "size_class n = unat (pvr_log2 n)"

lemma size_class_bounds:
  shows "size_class n < FREE_TABLE_LIMIT"
    and "n \<noteq> 0 \<Longrightarrow> 2 ^ size_class n \<le> unat n" and "unat n < 2 ^ Suc (size_class n)"
proof -
  have half: "unat (drop_bit 1 n) = unat n div 2" by (simp add: drop_bit_eq_div unat_div)
  have "unat n < 2 ^ 32" using unsigned_less [of n] by simp
  then have "unat (drop_bit 1 n) < 2 ^ 31" unfolding half by simp
  from pvr_log2_loop_spec [OF this, of 0] obtain k where k: "k \<le> 31"
    "pvr_log2_loop (drop_bit 1 n) 0 = of_nat k" "unat n div 2 < 2 ^ k"
    "k > 0 \<longrightarrow> 2 ^ (k - 1) \<le> unat n div 2" unfolding half by auto
  have sc: "size_class n = k"
    using k(1,2) by (simp add: size_class_def pvr_log2_def unat_of_nat)
  show "size_class n < FREE_TABLE_LIMIT" using k(1) by (simp add: sc FREE_TABLE_LIMIT_def)
  show "unat n < 2 ^ Suc (size_class n)" using k(3) by (simp add: sc)
  show "2 ^ size_class n \<le> unat n" if "n \<noteq> 0"
  proof (cases k)
    case 0
    then show ?thesis using that by (simp add: sc Suc_le_eq unat_gt_0 word_neq_0_conv)
  next
    case (Suc j)
    then show ?thesis using k(4) by (simp add: sc)
  qed
qed

lemma size_class_mono:
  assumes "n \<noteq> 0" and "n \<le> m"
  shows "size_class n \<le> size_class m"
proof -
  have "2 ^ size_class n \<le> unat n" by (rule size_class_bounds(2) [OF assms(1)])
  also have "unat n \<le> unat m" using assms(2) by (simp add: word_le_nat_alt)
  also have "unat m < 2 ^ Suc (size_class m)" by (rule size_class_bounds(3))
  finally have "size_class n < Suc (size_class m)" by (simp only: power_strict_increasing_iff)
  then show ?thesis by simp
qed

subsection \<open>The free lists\<close>

lemma nth_subset_concat: "i < length xss \<Longrightarrow> set (xss ! i) \<subseteq> set (concat xss)"
  by (metis UN_upper nth_mem set_concat)

lemma distinct_concat_disjoint:
  "distinct (concat xss) \<Longrightarrow> i < length xss \<Longrightarrow> j < length xss \<Longrightarrow> i \<noteq> j \<Longrightarrow>
   set (xss ! i) \<inter> set (xss ! j) = {}"
proof (induction xss arbitrary: i j)
  case (Cons xs xss)
  have d: "distinct (concat xss)" "set xs \<inter> set (concat xss) = {}" using Cons.prems(1) by auto
  show ?case
  proof (cases i; cases j)
    fix m n assume "i = Suc m" "j = Suc n"
    then show ?thesis using Cons.IH [OF d(1), of m n] Cons.prems by simp
  next
    fix n assume "i = 0" "j = Suc n"
    then show ?thesis using Cons.prems nth_subset_concat [of n xss] d(2) by fastforce
  next
    fix n assume "i = Suc n" "j = 0"
    then show ?thesis using Cons.prems nth_subset_concat [of n xss] d(2) by fastforce
  qed (use Cons.prems in auto)
qed simp

lemma distinct_concat_nth: "distinct (concat xss) \<Longrightarrow> i < length xss \<Longrightarrow> distinct (xss ! i)"
  by (induction xss arbitrary: i) (auto simp: nth_Cons split: nat.splits)

lemma FreeListInsert_spec:
  assumes fc: "free_chains a fl" and p: "p \<notin> set (concat fl)" "p \<noteq> NULL" "bts a p = Some b"
  shows "\<exists>a'. FreeListInsert a p = Some a' \<and>
           free_chains a' (fl[size_class (bt_uSize b) := p # fl ! size_class (bt_uSize b)]) \<and>
           data a' = (data a)(p \<mapsto> (btt_free, bt_base b, bt_uSize b, psMapping b)) \<and> free_frame a a'"
proof -
  let ?i = "size_class (bt_uSize b)"
  have i: "?i < FREE_TABLE_LIMIT" by (rule size_class_bounds(1))
  have d: "length fl = FREE_TABLE_LIMIT" "length (aHeadFree a) = FREE_TABLE_LIMIT"
    "distinct (concat fl)" "NULL \<notin> set (concat fl)"
    "\<And>j. j < FREE_TABLE_LIMIT \<Longrightarrow> dll (freeh a) NULL (fl ! j) NULL \<and> aHeadFree a ! j = hdd NULL (fl ! j)"
    using fc by (auto simp: free_chains_def)
  have sub: "\<And>j. j < FREE_TABLE_LIMIT \<Longrightarrow> set (fl ! j) \<subseteq> set (concat fl)"
    using d(1) nth_subset_concat by metis
  let ?h = "hdd NULL (fl ! ?i)"
  have h: "?h \<noteq> NULL \<Longrightarrow> ?h \<in> set (fl ! ?i) \<and> ?h \<noteq> p \<and> (\<exists>bh. bts a ?h = Some bh)"
    using hdd_cases [of NULL "fl ! ?i"] sub [OF i] p(1) free_chains_alloc [OF fc] by blast
  obtain a' where a': "FreeListInsert a p = Some a'"
    "freeh a' = link_prev ((freeh a)(p \<mapsto> (?h, NULL))) ?h p"
    "data a' = (data a)(p \<mapsto> (btt_free, bt_base b, bt_uSize b, psMapping b))"
    "free_frame a a'" "aHeadFree a' = (aHeadFree a)[?i := p]"
    using p h d(5) [OF i]
    by (cases "?h = NULL") (auto simp: Let_def FreeListInsert_def views frames link_prev_def fun_eq_iff size_class_def)
  have "dll (freeh a') NULL ([] @ p # fl ! ?i) NULL"
  proof (rule dll_splice [of "freeh a"])
    show "dll (freeh a) NULL ([] @ fl ! ?i) NULL" using d(5) [OF i] by simp
  qed (use d i p h sub [OF i] distinct_concat_nth [OF d(3), of ?i] a'(2) in
      \<open>auto simp: link_prev_def\<close>)
  moreover have "dll (freeh a') NULL (fl ! j) NULL" if "j < FREE_TABLE_LIMIT" "j \<noteq> ?i" for j
  proof (subst dll_frame [where L = "freeh a"])
    fix q assume "q \<in> set (fl ! j)"
    then have "q \<noteq> p" "?h = NULL \<or> q \<noteq> ?h"
      using p(1) sub [OF that(1)] h distinct_concat_disjoint [OF d(3), of j ?i] that i d(1) by auto
    then show "freeh a' q = freeh a q" by (auto simp: a'(2) link_prev_def)
  qed (use d(5) that in auto)
  moreover have "distinct (concat (fl[?i := p # fl ! ?i])) \<and> NULL \<notin> set (concat (fl[?i := p # fl ! ?i]))"
  proof -
    have "mset (concat (fl[?i := p # fl ! ?i])) = add_mset p (mset (concat fl))"
      using mset_concat_update [of ?i fl "p # fl ! ?i"] i d(1) by simp
    then have "mset (concat (fl[?i := p # fl ! ?i])) = mset (p # concat fl)" by simp
    then show ?thesis using d(3,4) p(1,2) by (metis distinct.simps(2) mset_eq_imp_distinct_iff set_ConsD mset_eq_setD)
  qed
  ultimately have "free_chains a' (fl[?i := p # fl ! ?i])"
    using d i a'(5) by (auto simp: free_chains_def nth_list_update)
  with a' show ?thesis by blast
qed

lemma FreeListRemove_spec:
  assumes fc: "free_chains a fl" and p: "bts a p = Some b" "p \<in> set (fl ! size_class (bt_uSize b))"
  shows "\<exists>a' xs ys. FreeListRemove a p = Some a' \<and> fl ! size_class (bt_uSize b) = xs @ p # ys \<and>
           free_chains a' (fl[size_class (bt_uSize b) := xs @ ys]) \<and>
           data a' = data a \<and> free_frame a a'"
proof -
  let ?i = "size_class (bt_uSize b)"
  have i: "?i < FREE_TABLE_LIMIT" by (rule size_class_bounds(1))
  have d: "length fl = FREE_TABLE_LIMIT" "length (aHeadFree a) = FREE_TABLE_LIMIT"
    "distinct (concat fl)" "NULL \<notin> set (concat fl)"
    "\<And>j. j < FREE_TABLE_LIMIT \<Longrightarrow> dll (freeh a) NULL (fl ! j) NULL \<and> aHeadFree a ! j = hdd NULL (fl ! j)"
    using fc by (auto simp: free_chains_def)
  have sub: "\<And>j. j < FREE_TABLE_LIMIT \<Longrightarrow> set (fl ! j) \<subseteq> set (concat fl)"
    using d(1) nth_subset_concat by metis
  obtain xs ys where fi: "fl ! ?i = xs @ p # ys" using p(2) by (meson split_list)
  have dl: "dll (freeh a) NULL (xs @ p # ys) NULL" "distinct (xs @ p # ys)" "NULL \<notin> set (xs @ p # ys)"
    using d(5) [OF i] distinct_concat_nth [OF d(3), of ?i] i d(1,4) sub [OF i] fi by auto
  let ?l = "lastd NULL xs" and ?n = "hdd NULL ys"
  have al: "\<exists>bq. bts a q = Some bq" if "q \<in> set (xs @ p # ys)" for q
  proof (rule free_chains_alloc [OF fc])
    show "q \<in> set (concat fl)" using that sub [OF i] fi by (simp only: subset_iff)
  qed
  have b: "pNextFree b = ?n" "pPrevFree b = ?l" using dll_mid [OF dl(1)] p(1) by (auto simp: freeh_def)
  have l: "?l = NULL \<longleftrightarrow> xs = []" "?l \<noteq> NULL \<Longrightarrow> ?l \<in> set xs \<and> ?l \<noteq> p \<and> (\<exists>bl. bts a ?l = Some bl)"
    using dl lastd_cases [of NULL xs] al by (auto simp: lastd_NULL)
  have n: "?n = NULL \<longleftrightarrow> ys = []"
    "?n \<noteq> NULL \<Longrightarrow> ?n \<in> set ys \<and> ?n \<noteq> p \<and> ?n \<noteq> ?l \<and> (\<exists>bn. bts a ?n = Some bn)"
    using dl hdd_cases [of NULL ys] lastd_cases [of NULL xs] al by (auto simp: hdd_NULL)
  obtain a' where a': "FreeListRemove a p = Some a'"
    "freeh a' = link_prev (link_next (freeh a) ?l ?n) ?n ?l" "data a' = data a" "free_frame a a'"
    "aHeadFree a' = (if xs = [] then (aHeadFree a)[?i := ?n] else aHeadFree a)"
    using p(1) b l n
    by (cases "xs = []"; cases "ys = []")
      (auto simp: Let_def FreeListRemove_def views frames link_next_def link_prev_def fun_eq_iff size_class_def)
  have "dll (freeh a') NULL (xs @ ys) NULL" unfolding a'(2) by (rule dll_unlink [OF dl])
  moreover have "dll (freeh a') NULL (fl ! j) NULL" if "j < FREE_TABLE_LIMIT" "j \<noteq> ?i" for j
  proof (subst dll_frame [where L = "freeh a"])
    fix q assume "q \<in> set (fl ! j)"
    then have "?l = NULL \<or> q \<noteq> ?l" "?n = NULL \<or> q \<noteq> ?n"
      using l n distinct_concat_disjoint [OF d(3), of j ?i] that i d(1) fi by auto
    then show "freeh a' q = freeh a q" by (auto simp: a'(2) link_prev_def link_next_def)
  qed (use d(5) that in auto)
  moreover have "distinct (concat (fl[?i := xs @ ys])) \<and> NULL \<notin> set (concat (fl[?i := xs @ ys]))"
  proof -
    have "add_mset p (mset (concat (fl[?i := xs @ ys]))) = mset (concat fl)"
      using mset_concat_update [of ?i fl "xs @ ys"] i d(1) fi by simp
    then have "mset (p # concat (fl[?i := xs @ ys])) = mset (concat fl)" by simp
    then show ?thesis using d(3,4)
      by (metis distinct.simps(2) mset_eq_imp_distinct_iff list.set_intros(2) mset_eq_setD)
  qed
  moreover have "aHeadFree a ! ?i = hdd NULL (xs @ p # ys)" using d(5) [OF i] fi by simp
  ultimately have "free_chains a' (fl[?i := xs @ ys])"
    using d i a'(5) by (cases xs) (auto simp: free_chains_def nth_list_update)
  with a' fi show ?thesis by blast
qed

end
