(* ===== verification/Pvr_Ra_Layout.thy ===== *)
theory Pvr_Ra_Layout
  imports Pvr_Ra_Rep
begin

text \<open>
  The geometry of an arena, on the list of tag contents in segment-chain order. A span of
  imported resource is enclosed by two markers of type \<^verbatim>\<open>btt_span\<close>: a start marker with the
  span's size and an end marker of size 0. \<open>layout\<close> says that the segments lie in address order
  without overlap, that none is empty or reaches the end of the address space, and that the
  markers touch the segments they enclose. It is kept by every list operation of the allocator.
\<close>

definition is_span :: "item \<Rightarrow> bool" where "is_span x \<longleftrightarrow> it_typ x = btt_span"
definition is_start :: "item \<Rightarrow> bool" where "is_start x \<longleftrightarrow> is_span x \<and> it_size x \<noteq> 0"
definition is_end :: "item \<Rightarrow> bool" where "is_end x \<longleftrightarrow> is_span x \<and> it_size x = 0"

definition lo :: "item \<Rightarrow> nat" where "lo x = unat (it_base x)"
definition hi :: "item \<Rightarrow> nat" where
  "hi x = (if is_span x then lo x else lo x + unat (it_size x))"

definition ok_item :: "item \<Rightarrow> bool" where
  "ok_item x \<longleftrightarrow> is_span x \<or> it_size x \<noteq> 0 \<and> unat (it_base x) + unat (it_size x) < 2 ^ 32"

definition ok_pair :: "item \<Rightarrow> item \<Rightarrow> bool" where
  "ok_pair x y \<longleftrightarrow> hi x \<le> lo y \<and> (is_start x \<longrightarrow> \<not> is_span y \<and> lo y = lo x) \<and>
     (is_end y \<longrightarrow> \<not> is_span x \<and> hi x = lo y)"

definition layout :: "item list \<Rightarrow> bool" where
  "layout xs \<longleftrightarrow> (\<forall>x \<in> set xs. ok_item x) \<and> successively ok_pair xs \<and>
     (xs \<noteq> [] \<longrightarrow> \<not> is_end (hd xs) \<and> \<not> is_start (last xs))"

text \<open>A layout around one of its items.\<close>

definition left_ok :: "item list \<Rightarrow> item \<Rightarrow> bool" where
  "left_ok A x \<longleftrightarrow> (if A = [] then \<not> is_end x else ok_pair (last A) x)"

definition right_ok :: "item \<Rightarrow> item list \<Rightarrow> bool" where
  "right_ok x B \<longleftrightarrow> (if B = [] then \<not> is_start x else ok_pair x (hd B))"

definition pre_ok :: "item list \<Rightarrow> bool" where
  "pre_ok A \<longleftrightarrow> (\<forall>x \<in> set A. ok_item x) \<and> successively ok_pair A \<and> (A \<noteq> [] \<longrightarrow> \<not> is_end (hd A))"

definition post_ok :: "item list \<Rightarrow> bool" where
  "post_ok B \<longleftrightarrow> (\<forall>x \<in> set B. ok_item x) \<and> successively ok_pair B \<and> (B \<noteq> [] \<longrightarrow> \<not> is_start (last B))"

lemma layout_mid:
  "layout (A @ x # B) \<longleftrightarrow> pre_ok A \<and> left_ok A x \<and> ok_item x \<and> right_ok x B \<and> post_ok B"
  by (cases "A = []"; cases "B = []")
    (auto simp: layout_def pre_ok_def post_ok_def left_ok_def right_ok_def successively_append_iff
      successively_Cons)

lemma layout_join:
  "layout (A @ B) \<longleftrightarrow> pre_ok A \<and> post_ok B \<and>
     (if A = [] then B \<noteq> [] \<longrightarrow> \<not> is_end (hd B)
      else if B = [] then \<not> is_start (last A) else ok_pair (last A) (hd B))"
  by (auto simp: layout_def pre_ok_def post_ok_def successively_append_iff)

lemma lo_le_hi: "lo x \<le> hi x"
  by (simp add: hi_def)

lemma ok_item_lt: "ok_item x \<Longrightarrow> \<not> is_span x \<Longrightarrow> lo x < hi x"
  by (auto simp: ok_item_def hi_def unat_gt_0 word_neq_0_conv)

lemma left_ok_cong:
  "\<not> is_span x \<Longrightarrow> \<not> is_span x' \<Longrightarrow> lo x' = lo x \<Longrightarrow> left_ok A x' = left_ok A x"
  by (auto simp: left_ok_def ok_pair_def is_end_def)

lemma right_ok_cong:
  "\<not> is_span x \<Longrightarrow> \<not> is_span x' \<Longrightarrow> hi x' = hi x \<Longrightarrow> right_ok x' B = right_ok x B"
  by (auto simp: right_ok_def ok_pair_def is_start_def)

lemma ok_pair_plain: "\<not> is_span x \<Longrightarrow> \<not> is_span y \<Longrightarrow> ok_pair x y \<longleftrightarrow> hi x \<le> lo y"
  by (auto simp: ok_pair_def is_start_def is_end_def)

lemma layout_replace:
  assumes "layout (A @ x # B)" "\<not> is_span x" "\<not> is_span x'" "ok_item x'" "lo x' = lo x" "hi x' = hi x"
  shows "layout (A @ x' # B)"
  using assms left_ok_cong [of x x' A] right_ok_cong [of x x' B] by (simp add: layout_mid)

lemma layout_split:
  assumes "layout (A @ x # B)" "\<not> is_span x" "\<not> is_span y" "\<not> is_span z" "ok_item y" "ok_item z"
    and "lo y = lo x" "hi y \<le> lo z" "hi z = hi x"
  shows "layout (A @ y # z # B)"
proof -
  have "pre_ok A" "left_ok A x" "right_ok x B" "post_ok B" using assms(1) by (auto simp: layout_mid)
  moreover from this have "post_ok (z # B)"
    using right_ok_cong [of x z B] assms
    by (cases B) (auto simp: post_ok_def right_ok_def is_start_def)
  moreover have "right_ok y (z # B)" using assms by (simp add: right_ok_def ok_pair_plain)
  ultimately show ?thesis using left_ok_cong [of x y A] assms by (simp add: layout_mid)
qed

lemma layout_merge:
  assumes "layout (A @ y # z # B)" "\<not> is_span y" "\<not> is_span z" "\<not> is_span x" "ok_item x"
    and "lo x = lo y" "hi x = hi z"
  shows "layout (A @ x # B)"
proof -
  have "pre_ok A" "left_ok A y" "post_ok (z # B)" using assms(1) by (auto simp: layout_mid)
  moreover from this have "right_ok z B" "post_ok B"
    by (cases B; auto simp: post_ok_def right_ok_def)+
  ultimately show ?thesis
    using left_ok_cong [of y x A] right_ok_cong [of z x B] assms by (simp add: layout_mid)
qed

lemma layout_remove_span:
  assumes "layout (A @ u # x # v # B)" "is_span u" "\<not> is_span x" "is_span v"
  shows "layout (A @ B)"
proof -
  have A: "pre_ok A" "left_ok A u" and ux: "right_ok u (x # v # B)" and p: "post_ok (x # v # B)"
    using assms(1) by (auto simp: layout_mid)
  have B: "post_ok B" "right_ok v B" using p by (cases B; auto simp: post_ok_def right_ok_def)+
  have le: "lo u \<le> lo x" "hi x \<le> lo v" using ux p assms(2)
    by (auto simp: right_ok_def post_ok_def ok_pair_def hi_def)
  then have uv: "lo u \<le> lo v" using lo_le_hi [of x] by simp
  show ?thesis
  proof (cases "A = [] \<or> B = []")
    case True
    then show ?thesis using A B assms(2,4)
      by (auto simp: layout_join left_ok_def right_ok_def ok_pair_def is_start_def is_end_def)
  next
    case False
    then show ?thesis using A B assms(2,4) uv
      by (auto simp: layout_join left_ok_def right_ok_def ok_pair_def is_start_def is_end_def hi_def)
  qed
qed

text \<open>In a layout every item ends before the next ones begin.\<close>

lemma transp_before: "transp (\<lambda>x y. hi x \<le> lo y)"
  by (rule transpI) (meson lo_le_hi le_trans)

lemma layout_sorted:
  assumes "layout xs"
  shows "sorted_wrt (\<lambda>x y. hi x \<le> lo y) xs"
proof -
  have "successively (\<lambda>x y. hi x \<le> lo y) xs"
    by (rule successively_mono [of ok_pair]) (use assms in \<open>auto simp: layout_def ok_pair_def\<close>)
  then show ?thesis by (simp add: successively_conv_sorted_wrt [OF transp_before])
qed

lemma layout_before:
  "layout xs \<Longrightarrow> i < j \<Longrightarrow> j < length xs \<Longrightarrow> hi (xs ! i) \<le> lo (xs ! j)"
  using layout_sorted by (simp add: sorted_wrt_iff_nth_less)

lemma layout_ok: "layout xs \<Longrightarrow> x \<in> set xs \<Longrightarrow> ok_item x"
  by (simp add: layout_def)

text \<open>Where a new resource goes: after all items with a base not above its own.\<close>

definition apart :: "nat \<Rightarrow> nat \<Rightarrow> item \<Rightarrow> bool" where
  "apart b e y \<longleftrightarrow> is_span y \<or> hi y \<le> b \<or> e \<le> lo y"

lemma insert_position:
  assumes lay: "layout (A @ B)" and ap: "\<forall>y \<in> set (A @ B). apart b e y" and be: "b < e"
    and A: "\<forall>y \<in> set A. lo y \<le> b" and B: "B = [] \<or> b < lo (hd B)"
  shows "A \<noteq> [] \<Longrightarrow> hi (last A) \<le> b \<and> \<not> is_start (last A)"
    and "B \<noteq> [] \<Longrightarrow> e \<le> lo (hd B) \<and> \<not> is_end (hd B)"
proof -
  have ok: "\<forall>y \<in> set (A @ B). ok_item y" using lay by (simp add: layout_def)
  show "hi (last A) \<le> b \<and> \<not> is_start (last A)" if "A \<noteq> []"
  proof -
    have la: "last A \<in> set A" "lo (last A) \<le> b" using that A by auto
    have "\<not> is_start (last A)"
      using lay B la(2) that by (auto simp: layout_join ok_pair_def split: if_splits)
    moreover have "hi (last A) \<le> b"
      using ap A la ok ok_item_lt [of "last A"] be by (fastforce simp: apart_def hi_def)
    ultimately show ?thesis by simp
  qed
  show "e \<le> lo (hd B) \<and> \<not> is_end (hd B)" if Bne: "B \<noteq> []"
  proof (cases "is_span (hd B)")
    case False
    then show ?thesis
      using ap B that ok_item_lt [of "hd B"] ok by (fastforce simp: apart_def is_end_def)
  next
    case True
    have ne: "\<not> is_end (hd B)"
    proof
      assume en: "is_end (hd B)"
      then have "A \<noteq> []" "\<not> is_span (last A)" "hi (last A) = lo (hd B)"
        using lay that by (auto simp: layout_join ok_pair_def split: if_splits)
      moreover from this have "apart b e (last A)" "lo (last A) \<le> b" using ap A by auto
      ultimately show False using B be that by (auto simp: apart_def)
    qed
    then have st: "is_start (hd B)" using True by (simp add: is_start_def is_end_def)
    obtain y C where BC: "B = hd B # y # C"
      using lay Bne st by (cases B rule: remdups_adj.cases) (auto simp: layout_join post_ok_def split: if_splits)
    have po: "post_ok B" using lay by (simp add: layout_join)
    then have "ok_pair (hd B) y" by (subst (asm) BC) (simp add: post_ok_def)
    then have y: "\<not> is_span y" "lo y = lo (hd B)" using st by (auto simp: ok_pair_def)
    have "y \<in> set B" by (subst BC) simp
    then show ?thesis using ap B that y ok ok_item_lt [of y] ne by (fastforce simp: apart_def)
  qed
qed

lemma layout_insert:
  assumes lay: "layout (A @ B)" and ap: "\<forall>y \<in> set (A @ B). apart (lo x) (hi x) y"
    and x: "\<not> is_span x" "ok_item x"
    and A: "\<forall>y \<in> set A. lo y \<le> lo x" and B: "B = [] \<or> lo x < lo (hd B)"
  shows "layout (A @ x # B)"
proof -
  note pos = insert_position [OF lay ap ok_item_lt [OF x(2,1)] A B]
  have "left_ok A x" using pos(1) x(1) by (auto simp: left_ok_def ok_pair_def is_end_def)
  moreover have "right_ok x B" using pos(2) x(1) by (auto simp: right_ok_def ok_pair_def is_start_def)
  moreover have "pre_ok A" "post_ok B" using lay by (auto simp: layout_join)
  ultimately show ?thesis using x(2) by (simp add: layout_mid)
qed

lemma layout_insert_span:
  assumes lay: "layout (A @ B)" and ap: "\<forall>y \<in> set (A @ B). apart (lo x) (hi x) y"
    and x: "\<not> is_span x" "ok_item x" and s: "is_start s" "lo s = lo x" and e: "is_end e" "lo e = hi x"
    and A: "\<forall>y \<in> set A. lo y \<le> lo x" and B: "B = [] \<or> lo x < lo (hd B)"
  shows "layout (A @ s # x # e # B)"
proof -
  note pos = insert_position [OF lay ap ok_item_lt [OF x(2,1)] A B]
  have "ok_item s" "ok_item e" using s e by (auto simp: ok_item_def is_start_def is_end_def)
  then have "post_ok (x # e # B)"
    using pos(2) lay x e
    by (cases B) (auto simp: layout_join post_ok_def ok_pair_def is_start_def is_end_def hi_def
        split: if_splits)
  moreover have "left_ok A s" using pos(1) s e
    by (auto simp: left_ok_def ok_pair_def is_start_def is_end_def)
  moreover have "right_ok s (x # e # B)" using s x
    by (auto simp: right_ok_def ok_pair_def is_start_def is_end_def hi_def)
  moreover have "pre_ok A" using lay by (simp add: layout_join)
  ultimately show ?thesis using \<open>ok_item s\<close> by (simp add: layout_mid)
qed

end
