(* ===== verification/Pvr_Ra_Inv.thy ===== *)
theory Pvr_Ra_Inv
  imports Pvr_Ra_Layout
begin

text \<open>
  The representation invariant of an arena and what each internal operation of
  \<^verbatim>\<open>src/pvr/ra.c\<close> does to it. The abstract view of an arena has two parts: \<open>live a\<close>, the
  allocated tags with their contents, and \<open>total a\<close>, the addresses the arena manages. Every
  operation is shown to return (no stray access, no endless loop), to keep the invariant, and
  to have its effect on the abstract view.
\<close>

definition ra_rep :: "RA_ARENA \<Rightarrow> ptr list \<Rightarrow> ptr list list \<Rightarrow> ptr set \<Rightarrow> bool" where
  "ra_rep a segs fl X \<longleftrightarrow>
     seg_chain a segs \<and> free_chains a fl \<and> dom (bts a) = set segs \<and>
     set (concat fl) = {p \<in> set segs. it_typ (item_at a p) = btt_free} - X \<and>
     (\<forall>i < FREE_TABLE_LIMIT. \<forall>p \<in> set (fl ! i). size_class (it_size (item_at a p)) = i) \<and>
     layout (map (item_at a) segs)"

definition bytes :: "item \<Rightarrow> nat set" where
  "bytes x = {lo x..<hi x}"

definition total :: "RA_ARENA \<Rightarrow> nat set" where
  "total a = \<Union> (bytes ` ran (data a))"

definition live :: "RA_ARENA \<Rightarrow> ptr \<rightharpoonup> item" where
  "live a = (\<lambda>p. case data a p of None \<Rightarrow> None
                 | Some x \<Rightarrow> if it_typ x = btt_live then Some x else None)"

definition maps :: "RA_ARENA \<Rightarrow> ptr set" where
  "maps a = it_map ` ran (data a)"

definition set_typ :: "bt_type \<Rightarrow> item \<Rightarrow> item" where
  "set_typ t x = (t, it_base x, it_size x, it_map x)"

lemma set_typ_sel [simp]:
  "it_typ (set_typ t x) = t" "it_base (set_typ t x) = it_base x" "it_size (set_typ t x) = it_size x"
  "it_map (set_typ t x) = it_map x"
  by (simp_all add: set_typ_def it_defs)

lemma item_eq: "x = (it_typ x, it_base x, it_size x, it_map x)"
  by (simp add: it_defs)

lemma item_at_cong: "data a' = data a \<Longrightarrow> item_at a' = item_at a"
  by (simp add: item_at_def fun_eq_iff)

lemma item_at_upd: "data a' = (data a)(p \<mapsto> x) \<Longrightarrow> item_at a' = (item_at a)(p := x)"
  by (simp add: item_at_def fun_eq_iff)

lemma data_item: "bts a p = Some b \<Longrightarrow> data a p = Some (item_at a p)"
  by (simp add: item_at_def data_def)

lemma map_item_upd: "p \<notin> set xs \<Longrightarrow> map ((item_at a)(p := x)) xs = map (item_at a) xs"
  by (rule map_cong) auto

lemma dom_bts_data: "data a' = data a \<Longrightarrow> dom (bts a') = dom (bts a)"
  by (metis dom_data)

lemma dom_bts_upd: "data a' = (data a)(p \<mapsto> x) \<Longrightarrow> dom (bts a') = insert p (dom (bts a))"
  by (metis dom_data dom_fun_upd option.distinct(1))

lemma free_frame_seg: "free_frame a a' \<Longrightarrow> seg_chain a' segs = seg_chain a segs"
  by (simp add: free_frame_def seg_chain_def)

lemma seg_frame_free: "seg_frame a a' \<Longrightarrow> free_chains a' fl = free_chains a fl"
  by (simp add: seg_frame_def free_chains_def)

lemma ra_repD:
  assumes "ra_rep a segs fl X"
  shows "seg_chain a segs" "free_chains a fl" "dom (bts a) = set segs"
    "set (concat fl) = {p \<in> set segs. it_typ (item_at a p) = btt_free} - X"
    "\<And>i p. i < FREE_TABLE_LIMIT \<Longrightarrow> p \<in> set (fl ! i) \<Longrightarrow> size_class (it_size (item_at a p)) = i"
    "layout (map (item_at a) segs)" "distinct segs" "NULL \<notin> set segs"
  using assms by (auto simp: ra_rep_def seg_chain_def)

lemma ra_rep_alloc: "ra_rep a segs fl X \<Longrightarrow> p \<in> set segs \<Longrightarrow> \<exists>b. bts a p = Some b"
  by (auto simp: ra_rep_def)

lemma ra_rep_ok: "ra_rep a segs fl X \<Longrightarrow> p \<in> set segs \<Longrightarrow> ok_item (item_at a p)"
  by (auto simp: ra_rep_def layout_def)

lemma bt_item_sel:
  "it_typ (bt_item b) = bt_typ b" "it_base (bt_item b) = bt_base b"
  "it_size (bt_item b) = bt_uSize b" "it_map (bt_item b) = psMapping b"
  by (simp_all add: bt_item_def it_defs)

lemma item_at_sel:
  assumes "bts a p = Some b"
  shows "it_typ (item_at a p) = bt_typ b" "it_base (item_at a p) = bt_base b"
    "it_size (item_at a p) = bt_uSize b" "it_map (item_at a p) = psMapping b"
  by (simp_all add: item_at_bts [OF assms] bt_item_sel)

lemma ra_FreeListRemove:
  assumes rep: "ra_rep a segs fl X" and p: "p \<in> set (concat fl)"
  shows "\<exists>a' fl'. FreeListRemove a p = Some a' \<and> ra_rep a' segs fl' (insert p X) \<and>
           data a' = data a \<and> free_frame a a'"
proof -
  note r = ra_repD [OF rep]
  have ps: "p \<in> set segs" using p r(4) by blast
  obtain b where b: "bts a p = Some b" using ra_rep_alloc [OF rep ps] by auto
  obtain c where "c \<in> set fl" "p \<in> set c" using p by auto
  then obtain i where i: "i < FREE_TABLE_LIMIT" "p \<in> set (fl ! i)"
    using r(2) by (auto simp: free_chains_def in_set_conv_nth [of c])
  have ic: "i = size_class (bt_uSize b)" using r(5) [OF i] by (simp add: item_at_sel [OF b])
  obtain a' xs ys where a': "FreeListRemove a p = Some a'" "fl ! i = xs @ p # ys"
    "free_chains a' (fl[i := xs @ ys])" "data a' = data a" "free_frame a a'"
    using FreeListRemove_spec [OF r(2) b] i(2) ic by auto
  let ?fl = "fl[i := xs @ ys]"
  have il: "i < length fl" using i(1) r(2) by (simp add: free_chains_def)
  have m: "mset (concat fl) = add_mset p (mset (concat ?fl))"
    using mset_concat_update [OF il, of "xs @ ys"] a'(2) by simp
  then have "set (concat fl) = insert p (set (concat ?fl))"
    by (metis set_mset_add_mset_insert set_mset_mset)
  moreover have "p \<notin> set (concat ?fl)"
  proof -
    have "mset (p # concat ?fl) = mset (concat fl)" using m by simp
    then show ?thesis using r(2) by (metis free_chains_def mset_eq_imp_distinct_iff distinct.simps(2))
  qed
  ultimately have "set (concat ?fl) = {q \<in> set segs. it_typ (item_at a' q) = btt_free} - insert p X"
    using r(4) by (auto simp: item_at_cong [OF a'(4)])
  moreover have "\<forall>j < FREE_TABLE_LIMIT. \<forall>q \<in> set (?fl ! j). size_class (it_size (item_at a' q)) = j"
    using r(5) a'(2) il by (auto simp: item_at_cong [OF a'(4)] nth_list_update)
  ultimately have "ra_rep a' segs ?fl (insert p X)"
    using r(1,3,6) a'(3) unfolding ra_rep_def
    by (simp add: free_frame_seg [OF a'(5)] item_at_cong [OF a'(4)] dom_bts_data [OF a'(4)] del: set_concat)
  with a' show ?thesis by blast
qed

lemma ra_FreeListInsert:
  assumes rep: "ra_rep a segs fl X" and p: "p \<in> set segs" "p \<notin> set (concat fl)"
    and np: "\<not> is_span (item_at a p)"
  shows "\<exists>a' fl'. FreeListInsert a p = Some a' \<and> ra_rep a' segs fl' (X - {p}) \<and>
           data a' = (data a)(p \<mapsto> set_typ btt_free (item_at a p)) \<and> free_frame a a'"
proof -
  note r = ra_repD [OF rep]
  obtain b where b: "bts a p = Some b" using ra_rep_alloc [OF rep p(1)] by auto
  have p0: "p \<noteq> NULL" using p(1) r(8) by auto
  let ?i = "size_class (bt_uSize b)" and ?x = "set_typ btt_free (item_at a p)"
  let ?fl = "fl[?i := p # fl ! ?i]"
  obtain a' where a': "FreeListInsert a p = Some a'" "free_chains a' ?fl"
    "data a' = (data a)(p \<mapsto> ?x)" "free_frame a a'"
    using FreeListInsert_spec [OF r(2) p(2) p0 b] by (auto simp: set_typ_def item_at_sel [OF b])
  note ia = item_at_upd [OF a'(3)]
  have il: "?i < length fl" using size_class_bounds(1) r(2) by (simp add: free_chains_def)
  have "mset (concat ?fl) = add_mset p (mset (concat fl))"
    using mset_concat_update [OF il, of "p # fl ! ?i"] by simp
  then have "set (concat ?fl) = insert p (set (concat fl))"
    by (metis set_mset_add_mset_insert set_mset_mset)
  then have "set (concat ?fl) = {q \<in> set segs. it_typ (item_at a' q) = btt_free} - (X - {p})"
    using r(4) p by (auto simp: ia)
  moreover have "\<forall>j < FREE_TABLE_LIMIT. \<forall>q \<in> set (?fl ! j). size_class (it_size (item_at a' q)) = j"
  proof (intro allI impI ballI)
    fix j q assume j: "j < FREE_TABLE_LIMIT" and q: "q \<in> set (?fl ! j)"
    show "size_class (it_size (item_at a' q)) = j"
    proof (cases "q = p")
      case True
      have "j = ?i"
      proof (rule ccontr)
        assume "j \<noteq> ?i"
        then have "p \<in> set (fl ! j)" using q True by simp
        moreover have "j < length fl" using j r(2) by (simp add: free_chains_def)
        ultimately show False using p(2) nth_subset_concat by blast
      qed
      then show ?thesis using True by (simp add: ia item_at_sel [OF b])
    next
      case False
      then have "q \<in> set (fl ! j)" using q il by (auto simp: nth_list_update split: if_splits)
      then show ?thesis using r(5) [OF j] False by (simp add: ia)
    qed
  qed
  moreover have "layout (map (item_at a') segs)"
  proof -
    obtain xs ys where s: "segs = xs @ p # ys" "p \<notin> set xs" "p \<notin> set ys"
      using split_list [OF p(1)] r(7) by (metis distinct_append distinct.simps(2) not_distinct_conv_prefix split_list_first)
    have "layout (map (item_at a) xs @ ?x # map (item_at a) ys)"
    proof (rule layout_replace [of _ "item_at a p"])
      show "layout (map (item_at a) xs @ item_at a p # map (item_at a) ys)" using r(6) s(1) by simp
    qed (use np ra_rep_ok [OF rep p(1)] in \<open>auto simp: is_span_def lo_def hi_def ok_item_def\<close>)
    then show ?thesis using s by (simp add: ia map_item_upd)
  qed
  ultimately have "ra_rep a' segs ?fl (X - {p})"
    using r(1,3) a' p(1)
    by (auto simp: ra_rep_def free_frame_seg [OF a'(4)] dom_bts_upd [OF a'(3)] insert_absorb simp del: set_concat)
  with a' show ?thesis by blast
qed

subsection \<open>Changes of the abstract view\<close>

lemma total_iff: "x \<in> total a \<longleftrightarrow> (\<exists>p i. data a p = Some i \<and> x \<in> bytes i)"
  unfolding total_def ran_def by blast

definition part :: "RA_ARENA \<Rightarrow> ptr \<Rightarrow> nat set" where
  "part a p = (case data a p of None \<Rightarrow> {} | Some i \<Rightarrow> bytes i)"

lemma total_part: "total a = (\<Union>p. part a p)"
proof (rule set_eqI)
  fix x
  have "x \<in> part a p \<longleftrightarrow> (\<exists>i. data a p = Some i \<and> x \<in> bytes i)" for p
    by (cases "data a p") (simp_all add: part_def)
  then show "x \<in> total a \<longleftrightarrow> x \<in> (\<Union>p. part a p)" by (simp add: total_iff)
qed

lemma part_upd:
  "data a' = (data a)(p \<mapsto> y) \<Longrightarrow> part a' = (part a)(p := bytes y)"
  "data a' = (data a)(p \<mapsto> y, q \<mapsto> z) \<Longrightarrow> part a' = (part a)(p := bytes y, q := bytes z)"
  "data a' = (data a)(p \<mapsto> y, q := None) \<Longrightarrow> part a' = (part a)(p := bytes y, q := {})"
  by (simp_all add: part_def fun_eq_iff)

lemma part_at: "data a p = Some y \<Longrightarrow> part a p = bytes y" "data a p = None \<Longrightarrow> part a p = {}"
  by (simp_all add: part_def)

lemma total_replace:
  assumes "data a p = Some x" "data a' = (data a)(p \<mapsto> y)" "bytes y = bytes x"
  shows "total a' = total a"
  using part_at(1) [OF assms(1)] assms(3) by (auto simp: total_part part_upd(1) [OF assms(2)])

lemma UN_two: "(\<Union>r. f r) = f p \<union> f q \<union> (\<Union>r \<in> {x. x \<noteq> q} \<inter> {x. x \<noteq> p}. f r)"
  by auto

lemma total_split:
  assumes "data a p = Some y" "data a q = None" "data a' = (data a)(p \<mapsto> u, q \<mapsto> v)"
    "bytes y = bytes u \<union> bytes v"
  shows "total a' = total a"
proof -
  have "p \<noteq> q" using assms by auto
  then show ?thesis using part_at(1) [OF assms(1)] part_at(2) [OF assms(2)] assms(4)
    by (simp add: total_part UN_two [of _ p q] part_upd(2) [OF assms(3)] Un_assoc)
qed

lemma total_merge:
  assumes "data a p = Some u" "data a n = Some v" "p \<noteq> n" "data a' = (data a)(p \<mapsto> y, n := None)"
    "bytes y = bytes u \<union> bytes v"
  shows "total a' = total a"
  using part_at(1) [OF assms(1)] part_at(1) [OF assms(2)] assms(3,5)
  by (simp add: total_part UN_two [of _ p n] part_upd(3) [OF assms(4)])

lemma live_iff: "live a p = Some x \<longleftrightarrow> data a p = Some x \<and> it_typ x = btt_live"
  by (auto simp: live_def split: option.splits)

lemma live_data: "data a' = data a \<Longrightarrow> live a' = live a"
  by (simp add: live_def)

lemma total_data: "data a' = data a \<Longrightarrow> total a' = total a"
  by (simp add: total_def)

lemma maps_at: "data a p = Some x \<Longrightarrow> it_map x \<in> maps a"
  unfolding maps_def by (rule imageI) (rule ranI)

lemma maps_subset: "(\<And>q z. data a' q = Some z \<Longrightarrow> it_map z \<in> maps a) \<Longrightarrow> maps a' \<subseteq> maps a"
  unfolding maps_def [of a'] ran_def by blast

lemma maps_upd: "data a' = (data a)(p \<mapsto> y, n := None) \<Longrightarrow> it_map y \<in> maps a \<Longrightarrow> maps a' \<subseteq> maps a"
  by (rule maps_subset) (auto split: if_splits intro: maps_at)

lemma maps_data: "data a' = data a \<Longrightarrow> maps a' = maps a"
  by (simp add: maps_def)

lemma ra_rep_live:
  assumes "ra_rep a segs fl X" "live a p = Some x"
  shows "p \<in> set segs" "p \<notin> set (concat fl)" "item_at a p = x" "\<not> is_span x" "p \<noteq> NULL"
proof -
  have d: "data a p = Some x" "it_typ x = btt_live" using assms(2) by (auto simp: live_iff)
  then have "p \<in> dom (bts a)" by (metis dom_data domI)
  then show ps: "p \<in> set segs" using ra_repD(3) [OF assms(1)] by simp
  show x: "item_at a p = x" using d by (simp add: item_at_def)
  show "p \<notin> set (concat fl)" using ra_repD(4) [OF assms(1)] x d by auto
  show "\<not> is_span x" using d by (simp add: is_span_def)
  show "p \<noteq> NULL" using ps ra_repD(8) [OF assms(1)] by auto
qed

lemma item_end: "ok_item x \<Longrightarrow> \<not> is_span x \<Longrightarrow> unat (it_base x + it_size x) = hi x"
  by (simp add: ok_item_def hi_def lo_def unat_word_ariths)

text \<open>The views depend on the store and the list heads only.\<close>

lemma views_cong:
  assumes "bts a' = bts a"
  shows "segh a' = segh a" "freeh a' = freeh a" "data a' = data a" "item_at a' = item_at a"
    "live a' = live a" "total a' = total a" "maps a' = maps a"
proof -
  show d: "segh a' = segh a" "freeh a' = freeh a" "data a' = data a" using assms by (simp_all add: views)
  show "item_at a' = item_at a" "live a' = live a" "total a' = total a" "maps a' = maps a"
    using item_at_cong [OF d(3)] live_data [OF d(3)] total_data [OF d(3)] maps_data [OF d(3)] by blast+
qed

lemma ra_rep_cong:
  assumes "bts a' = bts a" "aHeadFree a' = aHeadFree a" "pHeadSegment a' = pHeadSegment a"
    "pTailSegment a' = pTailSegment a"
  shows "ra_rep a' segs fl X = ra_rep a segs fl X"
  by (simp only: ra_rep_def seg_chain_def free_chains_def assms views_cong [OF assms(1)])

lemma stat_sel [simp]:
  "bts (stat f a) = bts a" "pHeadSegment (stat f a) = pHeadSegment a"
  "pTailSegment (stat f a) = pTailSegment a" "aHeadFree (stat f a) = aHeadFree a"
  "pSegmentHash (stat f a) = pSegmentHash a" "cfg (stat f a) = cfg a" "ra_calls (stat f a) = ra_calls a"
  "uQuantum (stat f a) = uQuantum a" "pImportHandle (stat f a) = pImportHandle a"
  "pBackingStoreFree (stat f a) = pBackingStoreFree a"
  by (simp_all add: stat_def cfg_def)

lemma stat_views [simp]:
  "segh (stat f a) = segh a" "freeh (stat f a) = freeh a" "data (stat f a) = data a"
  "item_at (stat f a) = item_at a" "live (stat f a) = live a" "total (stat f a) = total a"
  "maps (stat f a) = maps a"
  "ra_rep (stat f a) segs fl X = ra_rep a segs fl X"
  by (simp_all add: views_cong [of "stat f a" a] ra_rep_cong [of "stat f a" a])

lemma ra_SegmentSplit:
  assumes rep: "ra_rep a (xs @ p # ys) fl X" and p: "p \<notin> set (concat fl)"
    and x: "item_at a p = x" "\<not> is_span x" and n: "0 < n" "n < it_size x"
    and q: "q \<noteq> NULL" "bts a q = None"
  shows "\<exists>a'. SegmentSplit a p n (q # km) = Some (q, a', km) \<and>
           ra_rep a' (xs @ p # q # ys) fl (insert q X) \<and> total a' = total a \<and>
           data a' = (data a)(p \<mapsto> (it_typ x, it_base x, n, it_map x),
             q \<mapsto> (btt_free, it_base x + n, it_size x - n, it_map x)) \<and> same_rest a a'"
proof -
  note r = ra_repD [OF rep]
  obtain b where b: "bts a p = Some b" using ra_rep_alloc [OF rep, of p] by auto
  note bx = item_at_sel [OF b, unfolded x(1)]
  let ?u = "(it_typ x, it_base x, n, it_map x)"
  let ?v = "(btt_free, it_base x + n, it_size x - n, it_map x)"
  obtain a' where a': "SegmentSplit a p n (q # km) = Some (q, a', km)"
    "seg_chain a' (xs @ p # q # ys)" "data a' = (data a)(p \<mapsto> ?u, q \<mapsto> ?v)"
    "\<forall>s. s \<noteq> q \<longrightarrow> freeh a' s = freeh a s" "aHeadFree a' = aHeadFree a" "same_rest a a'"
    using SegmentSplit_spec [OF r(1) b q, of n km] by (auto simp: bx)
  have qn: "q \<notin> set (xs @ p # ys)" using r(3) q(2) by auto
  have pn: "p \<notin> set xs" "p \<notin> set ys" using r(7) by auto
  have ia: "item_at a' = (item_at a)(p := ?u, q := ?v)"
    using a'(3) qn by (auto simp: item_at_def fun_eq_iff)
  have ok: "ok_item x" using ra_rep_ok [OF rep, of p] x by simp
  have sz: "unat (it_size x - n) = unat (it_size x) - unat n" "unat n < unat (it_size x)" "0 < unat n"
    using n by (auto simp: unat_sub word_less_nat_alt unat_gt_0 less_imp_le)
  have end_le: "unat (it_base x) + unat n < 2 ^ 32" using ok x(2) sz by (auto simp: ok_item_def)
  have geo: "lo ?u = lo x" "hi ?u = lo ?v" "hi ?v = hi x" "\<not> is_span ?u" "\<not> is_span ?v"
    "ok_item ?u" "ok_item ?v"
    using x(2) ok sz end_le
    by (auto simp: lo_def hi_def is_span_def ok_item_def it_defs unat_word_ariths unat_gt_0 word_neq_0_conv)
  have lay: "layout (map (item_at a) xs @ ?u # ?v # map (item_at a) ys)"
    by (rule layout_split [OF _ x(2)]) (use r(6) geo x(1) in auto)
  have fc: "free_chains a' fl"
  proof -
    have "q \<notin> set (concat fl)" using free_chains_alloc [OF r(2)] q(2) by fastforce
    then have fr: "\<forall>s \<in> set (concat fl). freeh a' s = freeh a s" using a'(4) by auto
    have len: "length fl = FREE_TABLE_LIMIT" using r(2) by (simp add: free_chains_def)
    have "dll (freeh a') NULL (fl ! i) NULL = dll (freeh a) NULL (fl ! i) NULL" if "i < FREE_TABLE_LIMIT" for i
    proof (rule dll_frame)
      fix s assume "s \<in> set (fl ! i)"
      then have "s \<in> set (concat fl)" using nth_subset_concat [of i fl] that len by (simp only: subset_iff)
      then show "freeh a' s = freeh a s" using fr by blast
    qed
    then show ?thesis using r(2) a'(5) by (simp add: free_chains_def)
  qed
  have "map (item_at a') (xs @ p # q # ys) = map (item_at a) xs @ ?u # ?v # map (item_at a) ys"
    using qn pn by (auto simp: ia)
  then have "layout (map (item_at a') (xs @ p # q # ys))" using lay by (simp only:)
  moreover have "dom (bts a') = set (xs @ p # q # ys)"
    using arg_cong [OF a'(3), of dom] r(3) by auto
  moreover have "set (concat fl) = {s \<in> set (xs @ p # q # ys). it_typ (item_at a' s) = btt_free} - insert q X"
    using r(4) qn x(1) by (auto simp: ia it_defs)
  moreover have "\<forall>i < FREE_TABLE_LIMIT. \<forall>s \<in> set (fl ! i). size_class (it_size (item_at a' s)) = i"
  proof (intro allI impI ballI)
    fix i s assume i: "i < FREE_TABLE_LIMIT" "s \<in> set (fl ! i)"
    then have "s \<in> set (concat fl)" using nth_subset_concat [of i fl] r(2) by (auto simp: free_chains_def)
    then have "s \<noteq> p" "s \<noteq> q" using p qn r(4) by auto
    then show "size_class (it_size (item_at a' s)) = i" using r(5) [OF i] by (simp add: ia)
  qed
  ultimately have "ra_rep a' (xs @ p # q # ys) fl (insert q X)"
    using a'(2) fc unfolding ra_rep_def by blast
  moreover have "total a' = total a"
  proof (rule total_split [OF _ _ a'(3)])
    show "data a p = Some x" using data_item [OF b] x(1) by simp
    show "data a q = None" using q(2) by (simp add: data_def)
    have "lo x \<le> lo ?v" "lo ?v \<le> hi x" using geo lo_le_hi [of ?u] lo_le_hi [of ?v] by auto
    then show "bytes x = bytes ?u \<union> bytes ?v" using geo by (auto simp: bytes_def)
  qed
  ultimately show ?thesis using a' by blast
qed

subsection \<open>Merging with free neighbours\<close>

text \<open>
  What \<open>merge_prev\<close> and \<open>merge_next\<close> may do to the arena while the tag \<open>p\<close> is being freed: it
  may grow over free neighbours; nothing else that is live changes and no address is lost.
\<close>

definition grown :: "ptr \<Rightarrow> RA_ARENA \<Rightarrow> RA_ARENA \<Rightarrow> bool" where
  "grown p a a' \<longleftrightarrow> (\<forall>r. r \<noteq> p \<longrightarrow> live a' r = live a r) \<and>
     (\<exists>x x'. live a p = Some x \<and> live a' p = Some x' \<and> it_map x' = it_map x \<and> bytes x \<subseteq> bytes x') \<and>
     total a' = total a \<and> dom (bts a') \<subseteq> dom (bts a) \<and> maps a' \<subseteq> maps a \<and>
     pSegmentHash a' = pSegmentHash a \<and> ra_calls a' = ra_calls a \<and> cfg a' = cfg a"

lemma grown_refl: "live a p = Some x \<Longrightarrow> grown p a a"
  by (simp add: grown_def)

lemma grown_trans: "grown p a b \<Longrightarrow> grown p b c \<Longrightarrow> grown p a c"
proof -
  assume g: "grown p a b" "grown p b c"
  obtain x y z where x: "live a p = Some x" "live b p = Some y" "live c p = Some z"
    "it_map y = it_map x" "it_map z = it_map y" "bytes x \<subseteq> bytes y" "bytes y \<subseteq> bytes z"
    using g by (auto simp: grown_def)
  then have "it_map z = it_map x" "bytes x \<subseteq> bytes z" by auto
  moreover have "dom (bts c) \<subseteq> dom (bts a)" "maps c \<subseteq> maps a"
    using g unfolding grown_def by (meson subset_trans)+
  ultimately show ?thesis using x g by (simp add: grown_def)
qed

lemma ra_rep_absorb:
  assumes rep: "ra_rep a (xs @ u # v # ys) fl {n}" and uv: "u = n \<and> v = p \<or> u = p \<and> v = n"
    and p: "live a p = Some x" and n: "it_typ (item_at a n) = btt_free"
    and touch: "hi (item_at a u) = lo (item_at a v)"
    and ch: "seg_chain a' (xs @ p # ys)" and fc: "free_chains a' fl"
    and d: "data a' = (data a)(p \<mapsto> y, n := None)"
    and y: "y = (btt_live, it_base (item_at a u), it_size (item_at a u) + it_size (item_at a v), it_map x)"
  shows "ra_rep a' (xs @ p # ys) fl {}" and "total a' = total a" and "bytes x \<subseteq> bytes y"
    and "live a' = (live a)(p \<mapsto> y)" and "dom (bts a') \<subseteq> dom (bts a)" and "maps a' \<subseteq> maps a"
proof -
  note r = ra_repD [OF rep] and px = ra_rep_live [OF rep p]
  let ?i = "item_at a"
  have np: "n \<noteq> p" using r(7) uv by auto
  have nx: "n \<notin> set xs" "n \<notin> set ys" "p \<notin> set xs" "p \<notin> set ys" using r(7) uv by auto
  have ns: "\<not> is_span (?i u)" "\<not> is_span (?i v)" using uv n px(3,4) by (auto simp: is_span_def)
  have ok: "ok_item (?i u)" "ok_item (?i v)" using ra_rep_ok [OF rep] by auto
  have e: "unat (it_base (?i u)) + unat (it_size (?i u)) = unat (it_base (?i v))"
    using touch ns by (simp add: hi_def lo_def)
  have sum: "unat (it_size (?i u) + it_size (?i v)) = unat (it_size (?i u)) + unat (it_size (?i v))"
    using ok(2) ns(2) e by (simp add: ok_item_def unat_word_ariths)
  have geo: "\<not> is_span y" "lo y = lo (?i u)" "hi y = hi (?i v)" "ok_item y"
  proof -
    show sp: "\<not> is_span y" by (simp add: y is_span_def it_defs)
    have sel: "it_base y = it_base (?i u)" "it_size y = it_size (?i u) + it_size (?i v)"
      by (simp_all add: y it_defs)
    show "lo y = lo (?i u)" by (simp add: lo_def sel)
    show "hi y = hi (?i v)" using sp ns sum e by (simp add: hi_def lo_def sel)
    have "unat (it_size y) \<noteq> 0" using sum ok(1) ns(1) by (simp add: sel ok_item_def unat_eq_zero)
    then have "it_size y \<noteq> 0" by (simp add: unat_eq_zero)
    then show "ok_item y" using ok(2) ns(2) sum e by (simp add: ok_item_def sel)
  qed
  have by': "bytes y = bytes (?i u) \<union> bytes (?i v)"
    using geo touch lo_le_hi [of "?i u"] lo_le_hi [of "?i v"] by (auto simp: bytes_def)
  have dp: "data a p = Some x" "data a n = Some (?i n)"
    using p data_item [of a n] ra_rep_alloc [OF rep, of n] uv by (auto simp: live_iff)
  show "bytes x \<subseteq> bytes y" using by' uv px(3) by auto
  show "maps a' \<subseteq> maps a"
    by (rule maps_upd [OF d]) (use y maps_at [OF dp(1)] in \<open>simp add: it_defs\<close>)
  show "total a' = total a" by (rule total_merge [OF dp np [symmetric] d]) (use by' uv px(3) in auto)
  show "live a' = (live a)(p \<mapsto> y)"
    using d n np dp by (auto simp: live_def fun_eq_iff y it_defs)
  have dom: "dom (bts a') = dom (bts a) - {n}"
    using arg_cong [OF d, of dom] np domI [of "data a" p] dp(1) by auto
  then show "dom (bts a') \<subseteq> dom (bts a)" by blast
  have ia: "item_at a' q = (if q = p then y else ?i q)" if "q \<noteq> n" for q
    using d that by (simp add: item_at_def)
  have ix: "\<forall>q \<in> set xs. item_at a' q = ?i q" "\<forall>q \<in> set ys. item_at a' q = ?i q"
    using nx by (metis ia)+
  have lay: "layout (map ?i xs @ y # map ?i ys)"
    by (rule layout_merge [OF _ ns geo(1,4,2,3)]) (use r(6) in simp)
  have "map (item_at a') (xs @ p # ys) = map ?i xs @ y # map ?i ys"
    using ix np by (simp add: ia)
  then have "layout (map (item_at a') (xs @ p # ys))" using lay by (simp only:)
  moreover have "dom (bts a') = set (xs @ p # ys)" using dom r(3) uv nx np by auto
  moreover have "set (concat fl) = {q \<in> set (xs @ p # ys). it_typ (item_at a' q) = btt_free} - {}"
  proof -
    have "it_typ (item_at a' p) \<noteq> btt_free" "it_typ (?i p) \<noteq> btt_free"
      using np px(3) p by (simp_all add: ia y it_defs live_iff)
    then show ?thesis unfolding r(4) using uv nx ix np by auto
  qed
  moreover have "\<forall>i < FREE_TABLE_LIMIT. \<forall>q \<in> set (fl ! i). size_class (it_size (item_at a' q)) = i"
  proof (intro allI impI ballI)
    fix i q assume i: "i < FREE_TABLE_LIMIT" "q \<in> set (fl ! i)"
    then have "q \<in> set (concat fl)" using nth_subset_concat [of i fl] r(2) by (auto simp: free_chains_def)
    then have "q \<noteq> p" "q \<noteq> n" using px(2) r(4) by auto
    then show "size_class (it_size (item_at a' q)) = i" using r(5) [OF i] by (simp add: ia)
  qed
  ultimately show "ra_rep a' (xs @ p # ys) fl {}" using ch fc unfolding ra_rep_def by blast
qed

lemma seg_chain_drop:
  assumes "seg_chain a segs" "\<forall>q. q \<noteq> n \<longrightarrow> segh a' q = segh a q" "n \<notin> set segs"
    "pHeadSegment a' = pHeadSegment a" "pTailSegment a' = pTailSegment a"
  shows "seg_chain a' segs"
proof -
  have "dll (segh a') NULL segs NULL = dll (segh a) NULL segs NULL"
    by (rule dll_frame) (use assms(2,3) in auto)
  then show ?thesis using assms by (simp add: seg_chain_def)
qed

lemma free_chains_drop:
  assumes fc: "free_chains a fl" and eq: "\<forall>q. q \<noteq> n \<longrightarrow> freeh a' q = freeh a q"
    and n: "n \<notin> set (concat fl)" and hf: "aHeadFree a' = aHeadFree a"
  shows "free_chains a' fl"
proof -
  have "dll (freeh a') NULL (fl ! i) NULL = dll (freeh a) NULL (fl ! i) NULL" if i: "i < FREE_TABLE_LIMIT" for i
  proof (rule dll_frame)
    fix s assume s: "s \<in> set (fl ! i)"
    have "i < length fl" using fc i by (simp add: free_chains_def)
    then have "s \<in> set (concat fl)" using s nth_subset_concat [of i fl] by (simp only: subset_iff)
    then show "freeh a' s = freeh a s" using eq n by auto
  qed
  then show ?thesis using fc hf by (simp add: free_chains_def)
qed

text \<open>Both merges take the neighbour off its free list and out of the chain.\<close>

lemma unlink_neighbour:
  assumes rep: "ra_rep a (xs @ u # v # ys) fl {}" and uv: "u = n \<and> v = p \<or> u = p \<and> v = n"
    and n: "it_typ (item_at a n) = btt_free" and p: "it_typ (item_at a p) \<noteq> btt_free"
  shows "\<exists>a1 a2 fl'. FreeListRemove a n = Some a1 \<and> SegmentListRemove a1 n = Some a2 \<and>
           ra_rep a1 (xs @ u # v # ys) fl' {n} \<and> seg_chain a2 (xs @ p # ys) \<and>
           free_chains a2 fl' \<and> data a1 = data a \<and> data a2 = data a \<and> same_rest a a2 \<and>
           n \<notin> set (concat fl')"
proof -
  have "n \<in> set (concat fl)" using ra_repD(4) [OF rep] uv n by auto
  from ra_FreeListRemove [OF rep this] obtain a1 fl' where a1: "FreeListRemove a n = Some a1"
    "ra_rep a1 (xs @ u # v # ys) fl' {n}" "data a1 = data a" "free_frame a a1" by auto
  note r1 = ra_repD [OF a1(2)]
  obtain a2 where a2: "SegmentListRemove a1 n = Some a2" "seg_chain a2 (xs @ p # ys)"
    "data a2 = data a1" "seg_frame a1 a2"
    using SegmentListRemove_spec [of a1 xs n "p # ys"] SegmentListRemove_spec [of a1 "xs @ [p]" n ys]
      r1(1) uv by auto
  moreover have "free_chains a2 fl'" using r1(2) seg_frame_free [OF a2(4)] by simp
  moreover have "same_rest a a2" using a1(4) a2(4) by (simp add: free_frame_def seg_frame_def same_rest_def)
  moreover have "n \<notin> set (concat fl')" using r1(4) by blast
  ultimately show ?thesis using a1 by auto
qed

lemma absorb_tail:
  assumes rep: "ra_rep a (xs @ u # v # ys) fl {}" and uv: "u = n \<and> v = p \<or> u = p \<and> v = n"
    and p: "live a p = Some x" and n: "it_typ (item_at a n) = btt_free"
    and touch: "it_base (item_at a u) + it_size (item_at a u) = it_base (item_at a v)"
  shows "\<exists>a1 a2 b2 nb2. FreeListRemove a n = Some a1 \<and> SegmentListRemove a1 n = Some a2 \<and>
     bts a2 p = Some b2 \<and> bt_item b2 = x \<and> bts a2 n = Some nb2 \<and> bt_item nb2 = item_at a n \<and>
     (\<forall>f a'. a' = stat f (a2\<lparr>bts := (bts a2)(p \<mapsto> b2\<lparr>bt_base := it_base (item_at a u),
              bt_uSize := it_size (item_at a u) + it_size (item_at a v)\<rparr>, n := None)\<rparr>) \<longrightarrow>
          (\<exists>segs' fl'. ra_rep a' segs' fl' {}) \<and> grown p a a')"
proof -
  note px = ra_rep_live [OF rep p]
  have pt: "it_typ x = btt_live" using p by (simp add: live_iff)
  have np: "p \<noteq> n" using n px(3) pt by auto
  have "it_typ (item_at a p) \<noteq> btt_free" using px(3) pt by simp
  from unlink_neighbour [OF rep uv n this]
  obtain a1 a2 fl' where w: "FreeListRemove a n = Some a1" "SegmentListRemove a1 n = Some a2"
    "ra_rep a1 (xs @ u # v # ys) fl' {n}" "seg_chain a2 (xs @ p # ys)" "free_chains a2 fl'"
    "data a1 = data a" "data a2 = data a" "same_rest a a2" "n \<notin> set (concat fl')" by blast
  obtain bn where "bts a n = Some bn" using ra_rep_alloc [OF rep, of n] uv by auto
  then have d2: "data a2 p = Some x" "data a2 n = Some (item_at a n)"
    using w(7) p data_item [of a n] by (auto simp: live_iff)
  obtain b2 nb2 where b2: "bts a2 p = Some b2" "bt_item b2 = x" "bts a2 n = Some nb2"
    "bt_item nb2 = item_at a n" using d2 by (auto simp: data_def)
  let ?y = "(btt_live, it_base (item_at a u), it_size (item_at a u) + it_size (item_at a v), it_map x)"
  note ia = item_at_cong [OF w(6)] and la = live_data [OF w(6)] and ta = total_data [OF w(6)]
  have n': "n \<notin> set (xs @ p # ys)" using ra_repD(7) [OF rep] uv np by auto
  have nsp: "\<not> is_span (item_at a u)" using uv n px(3,4) by (auto simp: is_span_def)
  have t: "hi (item_at a1 u) = lo (item_at a1 v)"
    using item_end [OF ra_rep_ok [OF rep, of u] nsp] touch by (simp add: ia lo_def)
  have "(\<exists>segs' fl'. ra_rep a' segs' fl' {}) \<and> grown p a a'"
    if a': "a' = stat f (a2\<lparr>bts := (bts a2)(p \<mapsto> b2\<lparr>bt_base := it_base (item_at a u),
              bt_uSize := it_size (item_at a u) + it_size (item_at a v)\<rparr>, n := None)\<rparr>)" for a' f
  proof -
    have b2x: "bt_typ b2 = btt_live" "psMapping b2 = it_map x"
      using b2(2) pt by (auto simp: bt_item_def it_defs)
    have v: "data a' = (data a1)(p \<mapsto> ?y, n := None)"
      using w(6,7) b2 b2x by (simp add: a' fun_eq_iff data_def [of "a2\<lparr>bts := _\<rparr>"]) (simp add: bt_item_def data_def fun_eq_iff)
    have c: "seg_chain a' (xs @ p # ys)"
      by (rule seg_chain_drop [OF w(4) _ n']) (use b2(1) in \<open>auto simp: a' segh_def stat_def\<close>)
    have fc: "free_chains a' fl'"
      by (rule free_chains_drop [OF w(5) _ w(9)]) (use b2(1) in \<open>auto simp: a' freeh_def stat_def\<close>)
    note ab = ra_rep_absorb [OF w(3) uv _ _ t c fc v, of x]
    have y: "?y = (btt_live, it_base (item_at a1 u), it_size (item_at a1 u) + it_size (item_at a1 v), it_map x)"
      by (simp add: ia)
    have p1: "live a1 p = Some x" "it_typ (item_at a1 n) = btt_free" using p n by (simp_all add: la ia)
    note ab' = ab [OF p1 y]
    have "dom (bts a1) = dom (bts a)" by (rule dom_bts_data [OF w(6)])
    moreover have "pSegmentHash a' = pSegmentHash a" "ra_calls a' = ra_calls a" "cfg a' = cfg a"
      using w(8) by (auto simp: a' same_rest_def stat_def cfg_def)
    ultimately have "grown p a a'" using ab'(2-6) p by (simp add: grown_def la ta it_defs maps_data [OF w(6)])
    then show ?thesis using ab'(1) by blast
  qed
  then show ?thesis using w(1,2) b2 by blast
qed

lemma merge_prev_spec:
  assumes rep: "ra_rep a segs fl {}" and p: "live a p = Some x"
  shows "\<exists>a' segs' fl'. merge_prev a p = Some a' \<and> ra_rep a' segs' fl' {} \<and> grown p a a'"
proof -
  note r = ra_repD [OF rep] and px = ra_rep_live [OF rep p]
  obtain xs ys where segs: "segs = xs @ p # ys" using split_list [OF px(1)] by auto
  obtain b where b: "bts a p = Some b" "pPrevSegment b = lastd NULL xs"
    using seg_chain_mid [of a xs p ys] r(1) segs by auto
  note bx = item_at_sel [OF b(1), unfolded px(3)]
  have same: ?thesis if "merge_prev a p = Some a" using that rep grown_refl [OF p] by blast
  show ?thesis
  proof (cases "xs = []")
    case True
    then show ?thesis using b by (intro same) (simp add: merge_prev_def)
  next
    case False
    then obtain zs n where xs: "xs = zs @ [n]" by (metis rev_exhaust)
    have n0: "n \<noteq> NULL" "n \<noteq> p" using r(7,8) segs xs by auto
    have ns: "n \<in> set segs" using segs xs by simp
    obtain nb where nb: "bts a n = Some nb" using ra_rep_alloc [OF rep ns] by auto
    note nx = item_at_sel [OF nb]
    show ?thesis
    proof (cases "bt_typ nb = btt_free \<and> bt_base nb + bt_uSize nb = bt_base b")
      case False
      then show ?thesis using b nb n0 xs by (intro same) (auto simp: merge_prev_def Let_def)
    next
      case True
      have rep': "ra_rep a (zs @ n # p # ys) fl {}" using rep segs xs by simp
      have "it_typ (item_at a n) = btt_free" "it_base (item_at a n) + it_size (item_at a n) = it_base (item_at a p)"
        using True by (simp_all add: nx bx px(3))
      from absorb_tail [OF rep' _ p this, unfolded px(3)]
      obtain a1 a2 b2 nb2 where w: "FreeListRemove a n = Some a1" "SegmentListRemove a1 n = Some a2"
        "bts a2 p = Some b2" "bt_item b2 = x" "bts a2 n = Some nb2" "bt_item nb2 = item_at a n"
        "\<And>f a'. a' = stat f (a2\<lparr>bts := (bts a2)(p \<mapsto> b2\<lparr>bt_base := it_base (item_at a n),
              bt_uSize := it_size (item_at a n) + it_size x\<rparr>, n := None)\<rparr>) \<Longrightarrow>
          (\<exists>segs' fl'. ra_rep a' segs' fl' {}) \<and> grown p a a'"
        by blast
      have "bt_base nb2 = it_base (item_at a n)" "bt_uSize nb2 = it_size (item_at a n)"
        "bt_uSize b2 = it_size x"
        unfolding w(4) [symmetric] w(6) [symmetric] by (simp_all add: bt_item_sel)
      then have "\<exists>f. merge_prev a p = Some (stat f (a2\<lparr>bts := (bts a2)(p \<mapsto> b2\<lparr>bt_base := it_base (item_at a n),
              bt_uSize := it_size (item_at a n) + it_size x\<rparr>, n := None)\<rparr>))"
        using b nb xs n0 True w(1-6) by (auto simp: merge_prev_def Let_def add.commute)
      then show ?thesis using w(7) by blast
    qed
  qed
qed

lemma merge_next_spec:
  assumes rep: "ra_rep a segs fl {}" and p: "live a p = Some x"
  shows "\<exists>a' segs' fl'. merge_next a p = Some a' \<and> ra_rep a' segs' fl' {} \<and> grown p a a'"
proof -
  note r = ra_repD [OF rep] and px = ra_rep_live [OF rep p]
  obtain xs ys where segs: "segs = xs @ p # ys" using split_list [OF px(1)] by auto
  obtain b where b: "bts a p = Some b" "pNextSegment b = hdd NULL ys"
    using seg_chain_mid [of a xs p ys] r(1) segs by auto
  note bx = item_at_sel [OF b(1), unfolded px(3)]
  have same: ?thesis if "merge_next a p = Some a" using that rep grown_refl [OF p] by blast
  show ?thesis
  proof (cases ys)
    case Nil
    then show ?thesis using b by (intro same) (simp add: merge_next_def)
  next
    case (Cons n zs)
    have n0: "n \<noteq> NULL" "n \<noteq> p" using r(7,8) segs Cons by auto
    have ns: "n \<in> set segs" using segs Cons by simp
    obtain nb where nb: "bts a n = Some nb" using ra_rep_alloc [OF rep ns] by auto
    note nx = item_at_sel [OF nb]
    show ?thesis
    proof (cases "bt_typ nb = btt_free \<and> bt_base b + bt_uSize b = bt_base nb")
      case False
      then show ?thesis using b nb n0 Cons by (intro same) (auto simp: merge_next_def Let_def)
    next
      case True
      have rep': "ra_rep a (xs @ p # n # zs) fl {}" using rep segs Cons by simp
      have "it_typ (item_at a n) = btt_free" "it_base (item_at a p) + it_size (item_at a p) = it_base (item_at a n)"
        using True by (simp_all add: nx bx px(3))
      from absorb_tail [OF rep' _ p this, unfolded px(3)]
      obtain a1 a2 b2 nb2 where w: "FreeListRemove a n = Some a1" "SegmentListRemove a1 n = Some a2"
        "bts a2 p = Some b2" "bt_item b2 = x" "bts a2 n = Some nb2" "bt_item nb2 = item_at a n"
        "\<And>f a'. a' = stat f (a2\<lparr>bts := (bts a2)(p \<mapsto> b2\<lparr>bt_base := it_base x,
              bt_uSize := it_size x + it_size (item_at a n)\<rparr>, n := None)\<rparr>) \<Longrightarrow>
          (\<exists>segs' fl'. ra_rep a' segs' fl' {}) \<and> grown p a a'"
        by blast
      have "bt_uSize nb2 = it_size (item_at a n)" and b2: "bt_uSize b2 = it_size x" "bt_base b2 = it_base x"
        unfolding w(4) [symmetric] w(6) [symmetric] by (simp_all add: bt_item_sel)
      moreover have eq: "b2\<lparr>bt_base := it_base x, bt_uSize := s\<rparr> = b2\<lparr>bt_uSize := s\<rparr>" for s
        by (simp add: b2(2) [symmetric])
      ultimately have "\<exists>f. merge_next a p = Some (stat f (a2\<lparr>bts := (bts a2)(p \<mapsto> b2\<lparr>
              bt_uSize := it_size x + it_size (item_at a n)\<rparr>, n := None)\<rparr>))"
        using b nb Cons n0 True w(1-6) by (auto simp: merge_next_def Let_def)
      then show ?thesis using w(7) [unfolded eq] by blast
    qed
  qed
qed

lemma free_backing_spec:
  assumes p: "bts a p = Some b" and q: "pBackingStoreFree a = NULL \<or> \<not> bf \<or> uQuantum a \<noteq> 0"
  shows "\<exists>back. free_backing a p base s bf = Some (a\<lparr>ra_calls := ra_calls a @ back\<rparr>) \<and>
           (\<forall>c \<in> set back. \<exists>u v. c = BackingStoreFree (pImportHandle a) u v)"
proof (cases "pBackingStoreFree a \<noteq> NULL \<and> bf")
  case False
  then have "free_backing a p base s bf = Some (a\<lparr>ra_calls := ra_calls a @ []\<rparr>)"
    by (auto simp: free_backing_def)
  then show ?thesis by (metis empty_iff empty_set)
next
  case True
  then have "free_backing a p base s bf = Some (a\<lparr>ra_calls := ra_calls a @ []\<rparr>) \<or>
      (\<exists>u v. free_backing a p base s bf =
         Some (a\<lparr>ra_calls := ra_calls a @ [BackingStoreFree (pImportHandle a) u v]\<rparr>))"
    using p q by (auto simp: free_backing_def Let_def)
  then show ?thesis by (metis empty_iff empty_set set_ConsD)
qed

subsection \<open>Freeing a segment\<close>

lemma parts_disjoint:
  assumes rep: "ra_rep a segs fl X" and ne: "p \<noteq> q"
  shows "part a p \<inter> part a q = {}"
proof (cases "p \<in> set segs \<and> q \<in> set segs")
  case False
  then have "bts a p = None \<or> bts a q = None" using ra_repD(3) [OF rep] by auto
  then show ?thesis by (auto simp: part_def data_def)
next
  case True
  then obtain i j where ij: "i < length segs" "segs ! i = p" "j < length segs" "segs ! j = q"
    by (meson in_set_conv_nth)
  have part: "part a r = bytes (item_at a r)" if "r \<in> set segs" for r
    using ra_rep_alloc [OF rep that] data_item [of a r] by (auto simp: part_def)
  have "i \<noteq> j" using ij ne by auto
  then have "hi (item_at a p) \<le> lo (item_at a q) \<or> hi (item_at a q) \<le> lo (item_at a p)"
    using layout_before [OF ra_repD(6) [OF rep], of i j] layout_before [OF ra_repD(6) [OF rep], of j i] ij
    by (cases "i < j") auto
  then show ?thesis using part True by (auto simp: bytes_def)
qed

lemma ra_rep_drop_span:
  assumes rep: "ra_rep a (A @ u # p # v # B) fl {}" and p: "live a p = Some x"
    and u: "it_typ (item_at a u) = btt_span" and v: "it_typ (item_at a v) = btt_span"
    and ch: "seg_chain a' (A @ B)" and fc: "free_chains a' fl"
    and d: "data a' = (data a)(v := None, u := None, p := None)"
  shows "ra_rep a' (A @ B) fl {}" and "total a' = total a - bytes x" and "bytes x \<subseteq> total a"
    and "live a' = (live a)(p := None)" and "dom (bts a') \<subseteq> dom (bts a)" and "maps a' \<subseteq> maps a"
proof -
  note r = ra_repD [OF rep] and px = ra_rep_live [OF rep p]
  let ?i = "item_at a"
  have out: "u \<notin> set (A @ B)" "p \<notin> set (A @ B)" "v \<notin> set (A @ B)" "u \<noteq> p" "p \<noteq> v" "u \<noteq> v"
    using r(7) by auto
  have du: "data a u = Some (?i u)" "data a v = Some (?i v)" "data a p = Some x"
    using ra_rep_alloc [OF rep] data_item [of a] p by (fastforce simp: live_iff)+
  have pu: "part a u = {}" "part a v = {}" "part a p = bytes x"
    using u v du by (auto simp: part_def bytes_def hi_def is_span_def)
  have part': "part a' = (part a)(v := {}, u := {}, p := {})" by (simp add: part_def d fun_eq_iff)
  have "part a' q = part a q - part a p" for q
    using parts_disjoint [OF rep, of q p] pu by (auto simp: part')
  then show "total a' = total a - bytes x" by (auto simp: total_part pu(3))
  show "bytes x \<subseteq> total a" using pu(3) by (auto simp: total_part)
  show "live a' = (live a)(p := None)" using d u v du by (auto simp: live_def fun_eq_iff)
  show "maps a' \<subseteq> maps a" by (rule maps_subset) (use d in \<open>auto split: if_splits intro: maps_at\<close>)
  have dom: "dom (bts a') = dom (bts a) - {u, p, v}" using arg_cong [OF d, of dom] by auto
  then show "dom (bts a') \<subseteq> dom (bts a)" by blast
  have ia: "\<forall>q \<in> set (A @ B). item_at a' q = ?i q" using d out by (auto simp: item_at_def)
  have lay: "layout (map ?i A @ map ?i B)"
    by (rule layout_remove_span [of _ "?i u" "?i p" "?i v"])
      (use r(6) u v px(3,4) in \<open>auto simp: is_span_def\<close>)
  have "map (item_at a') (A @ B) = map ?i A @ map ?i B" using ia by simp
  then have "layout (map (item_at a') (A @ B))" using lay by (simp only:)
  moreover have "dom (bts a') = set (A @ B)" using dom r(3) out by auto
  moreover have "set (concat fl) = {q \<in> set (A @ B). it_typ (item_at a' q) = btt_free} - {}"
    unfolding r(4) using u v px(3) p ia by (auto simp: live_iff)
  moreover have "\<forall>i < FREE_TABLE_LIMIT. \<forall>q \<in> set (fl ! i). size_class (it_size (item_at a' q)) = i"
  proof (intro allI impI ballI)
    fix i q assume i: "i < FREE_TABLE_LIMIT" "q \<in> set (fl ! i)"
    have "i < length fl" using r(2) i(1) by (simp add: free_chains_def)
    then have "q \<in> set (concat fl)" using nth_subset_concat [of i fl] i(2) by (simp only: subset_iff)
    then have "q \<in> set (A @ B)" unfolding r(4) using u v px(3) p by (auto simp: live_iff)
    then show "size_class (it_size (item_at a' q)) = i" using r(5) [OF i] ia by simp
  qed
  ultimately show "ra_rep a' (A @ B) fl {}" using ch fc unfolding ra_rep_def by blast
qed

text \<open>
  The effect of freeing the live tag \<open>p\<close>: it is no longer live and nothing else changes, and
  either its addresses stay in the arena as free space, or the whole imported span it was the
  last live part of goes back to its owner, with one call of the import's free function.
\<close>

definition released :: "ptr \<Rightarrow> RA_ARENA \<Rightarrow> RA_ARENA \<Rightarrow> bool" where
  "released p a a' \<longleftrightarrow> live a' = (live a)(p := None) \<and> dom (bts a') \<subseteq> dom (bts a) \<and>
     maps a' \<subseteq> maps a \<and>
     pSegmentHash a' = pSegmentHash a \<and> cfg a' = cfg a \<and>
     (\<exists>back. (\<forall>c \<in> set back. \<exists>u v. c = BackingStoreFree (pImportHandle a) u v) \<and>
        (ra_calls a' = ra_calls a @ back \<and> total a' = total a \<or>
         (\<exists>x y. live a p = Some x \<and> bytes x \<subseteq> bytes y \<and> bytes y \<subseteq> total a \<and>
            ra_calls a' = ra_calls a @ back @ [ImportFree (pImportHandle a) (it_base y) (it_map x)] \<and>
            total a' = total a - bytes y)))"

lemma remove_three:
  assumes ch: "seg_chain a (A @ u # p # v # B)"
  shows "\<exists>a1 a2 a3. SegmentListRemove a v = Some a1 \<and> SegmentListRemove a1 u = Some a2 \<and>
           SegmentListRemove a2 p = Some a3 \<and> seg_chain a3 (A @ B) \<and> data a3 = data a \<and> seg_frame a a3"
proof -
  obtain a1 where a1: "SegmentListRemove a v = Some a1" "seg_chain a1 ((A @ [u, p]) @ B)"
    "data a1 = data a" "seg_frame a a1" using SegmentListRemove_spec [of a "A @ [u, p]" v B] ch by auto
  obtain a2 where a2: "SegmentListRemove a1 u = Some a2" "seg_chain a2 (A @ p # B)"
    "data a2 = data a1" "seg_frame a1 a2" using SegmentListRemove_spec [of a1 A u "p # B"] a1(2) by auto
  obtain a3 where a3: "SegmentListRemove a2 p = Some a3" "seg_chain a3 (A @ B)"
    "data a3 = data a2" "seg_frame a2 a3" using SegmentListRemove_spec [OF a2(2)] by auto
  have "seg_frame a a3" using a1(4) a2(4) a3(4) by (simp add: seg_frame_def same_rest_def)
  then show ?thesis using a1 a2 a3 by auto
qed

lemma settle_span:
  assumes rep: "ra_rep a (A @ u # p # v # B) fl {}" and p: "live a p = Some y"
    and u: "it_typ (item_at a u) = btt_span" and v: "it_typ (item_at a v) = btt_span"
  shows "\<exists>a'. settle_bt a p = Some a' \<and> ra_rep a' (A @ B) fl {} \<and> live a' = (live a)(p := None) \<and>
     dom (bts a') \<subseteq> dom (bts a) \<and> maps a' \<subseteq> maps a \<and>
     pSegmentHash a' = pSegmentHash a \<and> cfg a' = cfg a \<and>
     ra_calls a' = ra_calls a @ [ImportFree (pImportHandle a) (it_base y) (it_map y)] \<and>
     bytes y \<subseteq> total a \<and> total a' = total a - bytes y"
proof -
  note r = ra_repD [OF rep] and px = ra_rep_live [OF rep p]
  have ch: "seg_chain a ((A @ [u]) @ p # v # B)" using r(1) by simp
  obtain b where b: "bts a p = Some b" "pNextSegment b = v" "pPrevSegment b = u"
    using seg_chain_mid [OF ch] by auto
  obtain bu bv where uv: "bts a u = Some bu" "bts a v = Some bv" using ra_rep_alloc [OF rep] by fastforce
  have t: "bt_typ bu = btt_span" "bt_typ bv = btt_span" using u v item_at_sel(1) uv by metis+
  have ne: "u \<noteq> NULL" "v \<noteq> NULL" "u \<noteq> p" "v \<noteq> p" "u \<noteq> v" using r(7,8) by auto
  obtain a1 a2 a3 where a3: "SegmentListRemove a v = Some a1" "SegmentListRemove a1 u = Some a2"
    "SegmentListRemove a2 p = Some a3" "seg_chain a3 (A @ B)" "data a3 = data a" "seg_frame a a3"
    using remove_three [OF r(1)] by blast
  have "data a3 p = Some y" using a3(5) p by (simp add: live_iff)
  then obtain b3 where b3: "bts a3 p = Some b3" "bt_item b3 = y" by (auto simp: data_def)
  have by3: "bt_base b3 = it_base y" "psMapping b3 = it_map y"
    unfolding b3(2) [symmetric] by (simp_all add: bt_item_sel)
  obtain c3 d3 where cd: "bts a3 u = Some c3" "bts a3 v = Some d3"
    using dom_bts_data [OF a3(5)] uv by (metis domD domI)
  have same: "same_rest a a3" using a3(6) by (simp add: seg_frame_def)
  then have ih: "pImportHandle a3 = pImportHandle a" by (simp add: same_rest_def cfg_def)
  define f :: "RA_STATISTICS \<Rightarrow> RA_STATISTICS" where "f = (\<lambda>s. s\<lparr>uSpanCount := uSpanCount s - 1, uExportCount := uExportCount s + 1,
      uFreeSegmentCount := uFreeSegmentCount s - 1,
      uFreeResourceCount := uFreeResourceCount s - bt_uSize b3,
      uTotalResourceCount := uTotalResourceCount s - bt_uSize b3\<rparr>)"
  have set: "settle_bt a p = Some (stat f (a3\<lparr>bts := (bts a3)(v := None, u := None, p := None),
      ra_calls := ra_calls a3 @ [ImportFree (pImportHandle a) (it_base y) (it_map y)]\<rparr>))"
    using b uv t ne a3(1-3) b3(1) cd by (auto simp: settle_bt_def by3 ih stat_def f_def Let_def)
  define a' where "a' = stat f (a3\<lparr>bts := (bts a3)(v := None, u := None, p := None),
      ra_calls := ra_calls a3 @ [ImportFree (pImportHandle a) (it_base y) (it_map y)]\<rparr>)"
  have d: "data a' = (data a)(v := None, u := None, p := None)"
    unfolding a3(5) [symmetric] by (simp add: a'_def data_def [of "a3\<lparr>bts := _, ra_calls := _\<rparr>"] fun_eq_iff)
      (simp add: data_def)
  have ch': "seg_chain a' (A @ B)"
  proof -
    have "dll (segh a') NULL (A @ B) NULL = dll (segh a3) NULL (A @ B) NULL"
      by (rule dll_frame) (use r(7) in \<open>auto simp: a'_def segh_def\<close>)
    then show ?thesis using a3(4) by (simp add: seg_chain_def a'_def)
  qed
  have fc3: "free_chains a3 fl" using r(2) seg_frame_free [OF a3(6)] by simp
  have fc': "free_chains a' fl"
  proof -
    have out: "u \<notin> set (concat fl)" "v \<notin> set (concat fl)" "p \<notin> set (concat fl)"
      using r(4) u v px(2) by auto
    have "dll (freeh a') NULL (fl ! i) NULL = dll (freeh a3) NULL (fl ! i) NULL"
      if i: "i < FREE_TABLE_LIMIT" for i
    proof (rule dll_frame)
      fix q assume q: "q \<in> set (fl ! i)"
      have "i < length fl" using i fc3 by (simp add: free_chains_def)
      then have "q \<in> set (concat fl)" using q nth_subset_concat [of i fl] by (simp only: subset_iff)
      then show "freeh a' q = freeh a3 q" using out by (auto simp: a'_def freeh_def)
    qed
    then show ?thesis using fc3 by (simp add: free_chains_def a'_def)
  qed
  note res = ra_rep_drop_span [OF rep p u v ch' fc' d]
  have "pSegmentHash a' = pSegmentHash a" "cfg a' = cfg a"
    "ra_calls a' = ra_calls a @ [ImportFree (pImportHandle a) (it_base y) (it_map y)]"
    using same by (auto simp: a'_def same_rest_def cfg_def stat_def)
  then show ?thesis using set [folded a'_def] res by blast
qed

lemma settle_plain:
  assumes rep: "ra_rep a segs fl {}" and p: "live a p = Some y"
  shows "\<exists>a' fl'. FreeListInsert a p = Some a' \<and> ra_rep a' segs fl' {} \<and>
     live a' = (live a)(p := None) \<and> dom (bts a') \<subseteq> dom (bts a) \<and> maps a' \<subseteq> maps a \<and>
     same_rest a a' \<and> total a' = total a"
proof -
  note px = ra_rep_live [OF rep p]
  have "\<not> is_span (item_at a p)" using px(3,4) by simp
  from ra_FreeListInsert [OF rep px(1,2) this] obtain a' fl' where a': "FreeListInsert a p = Some a'"
    "ra_rep a' segs fl' {}" "data a' = (data a)(p \<mapsto> set_typ btt_free y)" "free_frame a a'"
    by (auto simp: px(3))
  have dp: "data a p = Some y" using p by (simp add: live_iff)
  have "bytes (set_typ btt_free y) = bytes y"
    using px(4) by (simp add: bytes_def lo_def hi_def is_span_def)
  then have "total a' = total a" by (rule total_replace [OF dp a'(3)])
  moreover have "live a' = (live a)(p := None)" using a'(3) by (auto simp: live_def fun_eq_iff)
  moreover have "dom (bts a') = dom (bts a)"
    using dom_bts_upd [OF a'(3)] dom_data [of a] domI [of "data a" p] dp by auto
  moreover have "maps a' \<subseteq> maps a"
  proof (rule maps_subset)
    fix q z assume "data a' q = Some z"
    then show "it_map z \<in> maps a"
      using a'(3) maps_at [OF dp] maps_at [of a q z] by (cases "q = p") (simp_all, metis set_typ_sel(4))
  qed
  ultimately show ?thesis using a' by (auto simp: free_frame_def)
qed

lemma settle_spec:
  assumes rep: "ra_rep a segs fl {}" and p: "live a p = Some y"
  shows "\<exists>a' segs' fl'. settle_bt a p = Some a' \<and> ra_rep a' segs' fl' {} \<and>
     live a' = (live a)(p := None) \<and> dom (bts a') \<subseteq> dom (bts a) \<and> maps a' \<subseteq> maps a \<and>
     pSegmentHash a' = pSegmentHash a \<and> cfg a' = cfg a \<and>
     (ra_calls a' = ra_calls a \<and> total a' = total a \<or>
      ra_calls a' = ra_calls a @ [ImportFree (pImportHandle a) (it_base y) (it_map y)] \<and>
      bytes y \<subseteq> total a \<and> total a' = total a - bytes y)"
proof -
  note r = ra_repD [OF rep] and px = ra_rep_live [OF rep p]
  obtain xs ys where segs: "segs = xs @ p # ys" using split_list [OF px(1)] by auto
  obtain b where b: "bts a p = Some b" "pNextSegment b = hdd NULL ys" "pPrevSegment b = lastd NULL xs"
    using seg_chain_mid [of a xs p ys] r(1) segs by auto
  have plain: ?thesis if "settle_bt a p = FreeListInsert a p"
    using settle_plain [OF rep p] that by (fastforce simp: same_rest_def)
  have dec: "\<exists>c. bts a q = Some c \<and> bt_typ c = it_typ (item_at a q)" if "q \<in> set segs" for q
    using ra_rep_alloc [OF rep that] item_at_sel(1) by fastforce
  show ?thesis
  proof (cases "xs \<noteq> [] \<and> ys \<noteq> [] \<and> it_typ (item_at a (last xs)) = btt_span \<and>
      it_typ (item_at a (hd ys)) = btt_span")
    case True
    then obtain A u v B where uv: "xs = A @ [u]" "ys = v # B" by (metis list.exhaust rev_exhaust)
    then show ?thesis using settle_span [of a A u p v B fl y] rep p True segs by fastforce
  next
    case False
    show ?thesis
    proof (rule plain, cases "ys = [] \<or> xs = []")
      case True
      then show "settle_bt a p = FreeListInsert a p" using b dec [of "hdd NULL ys"] segs r(8)
        by (cases ys) (auto simp: settle_bt_def)
    next
      case ne: False
      then obtain A u v B where uv: "xs = A @ [u]" "ys = v # B" by (metis list.exhaust rev_exhaust)
      then show "settle_bt a p = FreeListInsert a p"
        using b dec [of u] dec [of v] segs r(8) False by (auto simp: settle_bt_def)
    qed
  qed
qed

lemma FreeBT_spec:
  assumes rep: "ra_rep a segs fl {}" and p: "live a p = Some x"
    and q: "pBackingStoreFree a = NULL \<or> \<not> bf \<or> uQuantum a \<noteq> 0"
  shows "\<exists>a' segs' fl'. FreeBT a p bf = Some a' \<and> ra_rep a' segs' fl' {} \<and> released p a a'"
proof -
  have p0: "p \<noteq> NULL" by (rule ra_rep_live(5) [OF rep p])
  obtain b where b: "bts a p = Some b" using ra_rep_alloc [OF rep] ra_rep_live(1) [OF rep p] by blast
  define a0 where "a0 = stat (\<lambda>s. s\<lparr>uLiveSegmentCount := uLiveSegmentCount s - 1,
      uFreeSegmentCount := uFreeSegmentCount s + 1,
      uFreeResourceCount := uFreeResourceCount s + bt_uSize b\<rparr>) a"
  have rep0: "ra_rep a0 segs fl {}" "live a0 p = Some x" using rep p by (simp_all add: a0_def)
  obtain a1 s1 f1 where a1: "merge_prev a0 p = Some a1" "ra_rep a1 s1 f1 {}" "grown p a0 a1"
    using merge_prev_spec [OF rep0] by blast
  obtain x1 where x1: "live a1 p = Some x1" using a1(3) by (auto simp: grown_def)
  obtain a2 s2 f2 where a2: "merge_next a1 p = Some a2" "ra_rep a2 s2 f2 {}" "grown p a1 a2"
    using merge_next_spec [OF a1(2) x1] by blast
  have "grown p a0 a2" by (rule grown_trans [OF a1(3) a2(3)])
  then have g: "grown p a a2" by (simp add: grown_def a0_def)
  have cf: "pImportHandle a2 = pImportHandle a" "uQuantum a2 = uQuantum a"
    "pBackingStoreFree a2 = pBackingStoreFree a" using g by (auto simp: grown_def cfg_def)
  obtain y where y: "live a2 p = Some y" "it_map y = it_map x" "bytes x \<subseteq> bytes y"
    using g p by (auto simp: grown_def)
  obtain b2 where b2: "bts a2 p = Some b2" using ra_rep_alloc [OF a2(2)] ra_rep_live(1) [OF a2(2) y(1)] by blast
  obtain cs where cs: "free_backing a2 p (bt_base b) (bt_uSize b) bf =
      Some (a2\<lparr>ra_calls := ra_calls a2 @ cs\<rparr>)"
    "\<forall>c \<in> set cs. \<exists>u v. c = BackingStoreFree (pImportHandle a) u v"
    using free_backing_spec [OF b2, of bf "bt_base b" "bt_uSize b"] q cf by auto
  define a3 where "a3 = a2\<lparr>ra_calls := ra_calls a2 @ cs\<rparr>"
  have v3: "bts a3 = bts a2" "live a3 = live a2" "maps a3 = maps a2" "total a3 = total a2" "ra_calls a3 = ra_calls a @ cs"
    "pImportHandle a3 = pImportHandle a" "cfg a3 = cfg a" "pSegmentHash a3 = pSegmentHash a"
    using views_cong [of a3 a2] g by (auto simp: a3_def grown_def cfg_def)
  have rep3: "ra_rep a3 s2 f2 {}" using a2(2) ra_rep_cong [of a3 a2] by (simp add: a3_def)
  have y3: "live a3 p = Some y" using y(1) v3 by simp
  obtain a4 s4 f4 where a4: "settle_bt a3 p = Some a4" "ra_rep a4 s4 f4 {}"
    "live a4 = (live a3)(p := None)" "dom (bts a4) \<subseteq> dom (bts a3)" "maps a4 \<subseteq> maps a3"
    "pSegmentHash a4 = pSegmentHash a3" "cfg a4 = cfg a3"
    "ra_calls a4 = ra_calls a3 \<and> total a4 = total a3 \<or>
     ra_calls a4 = ra_calls a3 @ [ImportFree (pImportHandle a3) (it_base y) (it_map y)] \<and>
     bytes y \<subseteq> total a3 \<and> total a4 = total a3 - bytes y"
    using settle_spec [OF rep3 y3] by blast
  have "FreeBT a p bf = Some a4"
    using p0 b a1(1) a2(1) cs(1) a4(1) by (simp add: FreeBT_def a0_def a3_def)
  moreover have "released p a a4"
  proof -
    have "live a4 = (live a)(p := None)" "total a3 = total a"
      using a4(3) v3 g by (auto simp: grown_def fun_eq_iff)
    moreover have "dom (bts a4) \<subseteq> dom (bts a)" "maps a4 \<subseteq> maps a"
      using a4(4,5) v3(1,3) g unfolding grown_def by (metis subset_trans)+
    ultimately show ?thesis using a4(6-8) v3 y cs(2) p unfolding released_def by (metis append_assoc)
  qed
  ultimately show ?thesis using a4(2) by blast
qed

end
