(* ===== verification/Pvr_Ra_Alloc.thy ===== *)
theory Pvr_Ra_Alloc
  imports Pvr_Ra_Inv
begin

text \<open>
  Searching and allocating. The nested loops of \<^verbatim>\<open>_AttemptAllocAligned\<close> are shown to be a
  first-fit search over the concatenation of the free lists from the size class of the request
  on, and \<^verbatim>\<open>alloc_from_bt\<close> to carve exactly the requested block out of the tag found.
\<close>

subsection \<open>The search\<close>

definition fits :: "RA_ARENA \<Rightarrow> u32 \<Rightarrow> u32 \<Rightarrow> u32 \<Rightarrow> ptr \<Rightarrow> bool" where
  "fits a s f al p \<longleftrightarrow>
     \<not> it_base (item_at a p) + it_size (item_at a p) < align_up (it_base (item_at a p)) al + s \<and>
     (it_map (item_at a p) = NULL \<or> mapping_flags a (it_map (item_at a p)) = Some f)"

definition candidate :: "RA_ARENA \<Rightarrow> u32 \<Rightarrow> u32 \<Rightarrow> u32 \<Rightarrow> ptr list \<Rightarrow> (ptr \<times> u32) option" where
  "candidate a s f al ps =
     map_option (\<lambda>p. (p, align_up (it_base (item_at a p)) al)) (find (fits a s f al) ps)"

definition maps_ok :: "RA_ARENA \<Rightarrow> bool" where
  "maps_ok a \<longleftrightarrow> maps a \<subseteq> insert NULL (dom (mapping_flags a))"

lemma candidate_append:
  "candidate a s f al (ps @ qs) =
     (case candidate a s f al ps of None \<Rightarrow> candidate a s f al qs | Some c \<Rightarrow> Some c)"
  by (induction ps) (auto simp: candidate_def)

lemma candidate_Nil [simp]: "candidate a s f al [] = None"
  by (simp add: candidate_def)

lemma free_scan_spec:
  assumes "dll (freeh a) before ps NULL" "NULL \<notin> set ps" "maps_ok a"
  shows "free_scan a s f al (hdd NULL ps) = Some (candidate a s f al ps)"
  using assms(1,2)
proof (induction ps arbitrary: before)
  case Nil
  then show ?case by (simp add: free_scan.simps candidate_def)
next
  case (Cons p ps)
  then have p0: "p \<noteq> NULL" by auto
  obtain b where b: "bts a p = Some b" "pNextFree b = hdd NULL ps"
    using Cons.prems(1) by (auto simp: freeh_def)
  have IH: "free_scan a s f al (hdd NULL ps) = Some (candidate a s f al ps)"
    using Cons.IH [of p] Cons.prems by simp
  note sel = item_at_sel [OF b(1)]
  have "psMapping b \<in> insert NULL (dom (mapping_flags a))"
    using maps_at [OF data_item [OF b(1)]] assms(3) by (auto simp: maps_ok_def sel)
  then show ?case using p0 b IH
    by (subst free_scan.simps) (auto simp: candidate_def fits_def sel Let_def)
qed

lemma scan_classes_spec:
  assumes rep: "ra_rep a segs fl X" and ok: "maps_ok a"
  shows "scan_classes a s f al i = Some (candidate a s f al (concat (drop i fl)))"
proof (induction "FREE_TABLE_LIMIT - i" arbitrary: i)
  case 0
  then have "\<not> i < FREE_TABLE_LIMIT" "length fl \<le> i" using ra_repD(2) [OF rep] by (auto simp: free_chains_def)
  then show ?case by (simp add: scan_classes.simps candidate_def)
next
  case (Suc n)
  have i: "i < FREE_TABLE_LIMIT" "i < length fl" using Suc.hyps(2) ra_repD(2) [OF rep] by (auto simp: free_chains_def)
  have fc: "dll (freeh a) NULL (fl ! i) NULL" "aHeadFree a ! i = hdd NULL (fl ! i)" "NULL \<notin> set (concat fl)"
    using ra_repD(2) [OF rep] i(1) by (auto simp: free_chains_def)
  have n0: "NULL \<notin> set (fl ! i)" using fc(3) nth_subset_concat [OF i(2)] by blast
  have IH: "scan_classes a s f al (Suc i) = Some (candidate a s f al (concat (drop (Suc i) fl)))"
    using Suc.hyps by simp
  have "concat (drop i fl) = fl ! i @ concat (drop (Suc i) fl)" using i(2) by (simp add: Cons_nth_drop_Suc [symmetric])
  then show ?case
    using i(1) IH fc(2) free_scan_spec [OF fc(1) n0 ok, of s f al] hdd_NULL [OF n0]
    by (subst scan_classes.simps) (auto simp: candidate_append split: option.splits)
qed

lemma scan_skip_empty: "scan_classes a s f al (skip_empty a i) = scan_classes a s f al i"
proof (induction "FREE_TABLE_LIMIT - i" arbitrary: i)
  case 0
  then show ?case by (simp add: skip_empty.simps [of a i])
next
  case (Suc n)
  then have "scan_classes a s f al (skip_empty a (Suc i)) = scan_classes a s f al (Suc i)" by simp
  then show ?case
    by (cases "i < FREE_TABLE_LIMIT \<and> aHeadFree a ! i = NULL")
      (simp_all add: skip_empty.simps [of a i] scan_classes.simps [of a s f al i])
qed

subsection \<open>Alignment\<close>

lemma align_up_spec:
  assumes "unat base + unat al \<le> 2 ^ 32"
  shows "unat base \<le> unat (align_up base al)" and "unat (align_up base al) < unat base + max 1 (unat al)"
    and "unat al dvd unat (align_up base al) \<or> al = 0"
proof -
  have "unat base \<le> unat (align_up base al) \<and> unat (align_up base al) < unat base + max 1 (unat al) \<and>
      (unat al dvd unat (align_up base al) \<or> al = 0)"
  proof (cases "al > 1")
    case False
    then have "unat al = 0 \<or> unat al = 1" by (auto simp: word_less_nat_alt)
    then have "al = 0 \<or> al = 1" by (auto simp: word_unat_eq_iff)
    then show ?thesis by (auto simp: align_up_def)
  next
    case True
    then have a1: "1 < unat al" by (simp add: word_less_nat_alt)
    let ?m = "unat base + unat al - 1"
    have "unat (base + al - 1) = ?m"
    proof -
      have "base + al - 1 = base + (al - 1)" by (rule add_diff_eq [symmetric])
      moreover have "unat (al - 1) = unat al - 1" using True unat_sub [of 1 al] by (simp add: less_imp_le)
      moreover have "unat (base + (al - 1)) = (unat base + unat (al - 1)) mod 2 ^ 32"
        by (simp only: unat_word_ariths) simp
      ultimately show ?thesis using assms a1 by (simp only:) simp
    qed
    then have dv: "unat ((base + al - 1) div al) = ?m div unat al" by (simp add: unat_div)
    have le: "?m div unat al * unat al \<le> ?m" by simp
    then have eq: "unat (align_up base al) = ?m div unat al * unat al"
    proof -
      have "unat (align_up base al) = (?m div unat al * unat al) mod 2 ^ 32"
        using True by (simp only: align_up_def if_True unat_word_ariths(2) dv) simp
      moreover have "?m < 2 ^ 32" using assms a1 by simp
      ultimately show ?thesis using le_less_trans [OF le] by simp
    qed
    have "?m < ?m div unat al * unat al + unat al"
      using mod_less_divisor [of "unat al" ?m] div_mult_mod_eq [of ?m "unat al"] a1 by linarith
    then have "unat base \<le> unat (align_up base al)" unfolding eq using a1 by linarith
    moreover have "unat (align_up base al) < unat base + max 1 (unat al)" unfolding eq using le a1 by linarith
    moreover have "unat al dvd unat (align_up base al)" unfolding eq by simp
    ultimately show ?thesis by blast
  qed
  then show "unat base \<le> unat (align_up base al)" "unat (align_up base al) < unat base + max 1 (unat al)"
    "unat al dvd unat (align_up base al) \<or> al = 0" by auto
qed

subsection \<open>Fresh memory and unobservable steps\<close>

definition fresh :: "RA_ARENA \<Rightarrow> kmem \<Rightarrow> bool" where
  "fresh a km \<longleftrightarrow> distinct (filter (\<lambda>q. q \<noteq> NULL) km) \<and>
     (\<forall>q \<in> set km. q \<noteq> NULL \<longrightarrow> bts a q = None)"

definition quiet :: "RA_ARENA \<Rightarrow> RA_ARENA \<Rightarrow> bool" where
  "quiet a a' \<longleftrightarrow> live a' = live a \<and> total a' = total a \<and> maps a' \<subseteq> maps a \<and>
     pSegmentHash a' = pSegmentHash a \<and> ra_calls a' = ra_calls a \<and> cfg a' = cfg a"

lemma quiet_refl: "quiet a a" by (simp add: quiet_def)

lemma quiet_trans: "quiet a b \<Longrightarrow> quiet b c \<Longrightarrow> quiet a c"
  unfolding quiet_def by auto

lemma quiet_stat [simp]: "quiet a (stat f b) = quiet a b" "quiet (stat f a) b = quiet a b"
  by (simp_all add: quiet_def)

lemma fresh_stat [simp]: "fresh (stat f a) = fresh a"
  by (simp add: fresh_def fun_eq_iff)

lemma fresh_cases:
  assumes "fresh a km"
  obtains (fail) km' where "OSAllocMem km = (PVRSRV_ERROR_OUT_OF_MEMORY, NULL, km')" "fresh a km'"
  | (ok) q km' where "OSAllocMem km = (PVRSRV_OK, q, km')" "km = q # km'" "q \<noteq> NULL" "bts a q = None"
      "\<And>a'. dom (bts a') \<subseteq> insert q (dom (bts a)) \<Longrightarrow> fresh a' km'"
proof (cases km)
  case Nil
  then show ?thesis using assms fail [of "[]"] by simp
next
  case (Cons q km')
  show ?thesis
  proof (cases "q = NULL")
    case True
    then show ?thesis using Cons assms fail [of km'] by (simp add: fresh_def)
  next
    case False
    have "fresh a' km'" if "dom (bts a') \<subseteq> insert q (dom (bts a))" for a'
      using that assms Cons False by (auto simp: fresh_def dom_def)
    then show ?thesis using ok [of q km'] Cons assms False by (simp add: fresh_def)
  qed
qed

text \<open>The next \<open>n\<close> allocation requests will be granted.\<close>

definition mem_supply :: "nat \<Rightarrow> kmem \<Rightarrow> bool" where
  "mem_supply n km \<longleftrightarrow> n \<le> length km \<and> NULL \<notin> set (take n km)"

lemma supply_Suc: "mem_supply (Suc n) km \<Longrightarrow> mem_supply n km"
  by (auto simp: mem_supply_def dest: set_take_subset_set_take [of n "Suc n", THEN subsetD, rotated])

lemma supply_ok:
  assumes "mem_supply (Suc n) km" "OSAllocMem km = (e, p, km')"
  shows "e = PVRSRV_OK" "mem_supply n km'"
  using assms by (cases km; auto simp: mem_supply_def split: if_splits)+

lemma fresh_dom: "fresh a km \<Longrightarrow> dom (bts a') \<subseteq> dom (bts a) \<Longrightarrow> fresh a' km"
  by (auto simp: fresh_def dom_def)

lemma quiet_FreeListInsert:
  assumes rep: "ra_rep a segs fl {p}" and p: "p \<in> set segs" "item_at a p = x" "it_typ x = btt_free"
  shows "\<exists>a' fl'. FreeListInsert a p = Some a' \<and> ra_rep a' segs fl' {} \<and> quiet a a' \<and>
           dom (bts a') = dom (bts a) \<and> data a' = data a"
proof -
  have "p \<notin> set (concat fl)" using ra_repD(4) [OF rep] by blast
  moreover have "\<not> is_span (item_at a p)" using p by (simp add: is_span_def)
  ultimately obtain a' fl' where a': "FreeListInsert a p = Some a'" "ra_rep a' segs fl' {}"
    "data a' = (data a)(p \<mapsto> set_typ btt_free x)" "free_frame a a'"
    using ra_FreeListInsert [OF rep p(1)] p(2) by auto
  have "set_typ btt_free x = x" using p(3) by (simp add: set_typ_def item_eq [of x, symmetric]) (metis item_eq)
  then have d: "data a' = data a"
    using a'(3) ra_rep_alloc [OF rep p(1)] data_item [of a p] p(2) by (auto simp: fun_upd_idem)
  then show ?thesis using a' live_data [OF d] total_data [OF d] maps_data [OF d] dom_bts_data [OF d]
    by (auto simp: quiet_def free_frame_def same_rest_def)
qed

lemma quiet_SegmentSplit:
  assumes rep: "ra_rep a (xs @ p # ys) fl {p}" and x: "item_at a p = x" "it_typ x = btt_free"
    and n: "0 < n" "n < it_size x" and q: "q \<noteq> NULL" "bts a q = None"
  shows "\<exists>a'. SegmentSplit a p n (q # km) = Some (q, a', km) \<and>
           ra_rep a' (xs @ p # q # ys) fl {p, q} \<and> quiet a a' \<and> dom (bts a') = insert q (dom (bts a)) \<and>
           item_at a' p = (btt_free, it_base x, n, it_map x) \<and>
           item_at a' q = (btt_free, it_base x + n, it_size x - n, it_map x)"
proof -
  have pf: "p \<notin> set (concat fl)" using ra_repD(4) [OF rep] by blast
  have sp: "\<not> is_span x" using x(2) by (simp add: is_span_def)
  let ?u = "(btt_free, it_base x, n, it_map x)"
  let ?v = "(btt_free, it_base x + n, it_size x - n, it_map x)"
  obtain a' where a': "SegmentSplit a p n (q # km) = Some (q, a', km)"
    "ra_rep a' (xs @ p # q # ys) fl (insert q {p})" "total a' = total a"
    "data a' = (data a)(p \<mapsto> ?u, q \<mapsto> ?v)" "same_rest a a'"
    using ra_SegmentSplit [OF rep pf x(1) sp n q, of km] x(2) by auto
  have pq: "p \<noteq> q" using ra_rep_alloc [OF rep, of p] q(2) by auto
  obtain b where "bts a p = Some b" using ra_rep_alloc [OF rep, of p] by auto
  then have dp: "data a p = Some x" "data a q = None" using data_item [of a p] x(1) q(2) by (auto simp: data_def)
  have "live a' = live a"
    using a'(4) dp x(2) by (auto simp: live_def fun_eq_iff it_defs)
  moreover have "maps a' \<subseteq> maps a"
  proof (rule maps_subset)
    fix r z assume "data a' r = Some z"
    then have "z = ?u \<or> z = ?v \<or> data a r = Some z"
      unfolding a'(4) by (cases "r = q"; cases "r = p") simp_all
    moreover have "it_map ?u = it_map x" "it_map ?v = it_map x" by (simp_all add: it_map_def)
    ultimately show "it_map z \<in> maps a" using maps_at [OF dp(1)] maps_at [of a r z] by metis
  qed
  moreover have "dom (bts a') = insert q (dom (bts a))"
    using arg_cong [OF a'(4), of dom] domI [of "data a" p, OF dp(1)] by auto
  moreover have "item_at a' p = ?u" "item_at a' q = ?v" using a'(4) pq by (auto simp: item_at_def)
  moreover have "ra_rep a' (xs @ p # q # ys) fl {p, q}" using a'(2) by (simp only: insert_commute)
  ultimately show ?thesis using a'(1,3,5) unfolding quiet_def same_rest_def by blast
qed

text \<open>A step that leaves the tag \<open>p\<close> off the free lists, as the free block \<open>y\<close>.\<close>

definition held :: "RA_ARENA \<Rightarrow> ptr \<Rightarrow> item \<Rightarrow> bool" where
  "held a p y \<longleftrightarrow> (\<exists>segs fl. ra_rep a segs fl {p} \<and> p \<in> set segs \<and> item_at a p = y \<and> it_typ y = btt_free)"

definition ra_ok :: "RA_ARENA \<Rightarrow> bool" where
  "ra_ok a \<longleftrightarrow> (\<exists>segs fl. ra_rep a segs fl {})"

lemma held_bts:
  assumes "held a p y"
  obtains b where "bts a p = Some b" "bt_typ b = btt_free" "bt_base b = it_base y" "bt_uSize b = it_size y"
    "psMapping b = it_map y" "p \<noteq> NULL" "ok_item y" "\<not> is_span y"
proof -
  obtain segs fl where h: "ra_rep a segs fl {p}" "p \<in> set segs" "item_at a p = y" "it_typ y = btt_free"
    using assms by (auto simp: held_def)
  obtain b where b: "bts a p = Some b" using ra_rep_alloc [OF h(1,2)] by blast
  show ?thesis
    by (rule that [OF b])
      (use item_at_sel [OF b] h ra_repD(8) [OF h(1)] ra_rep_ok [OF h(1,2)] in \<open>auto simp: is_span_def\<close>)
qed

lemma held_insert:
  assumes "held a p y"
  shows "\<exists>a'. FreeListInsert a p = Some a' \<and> ra_ok a' \<and> quiet a a' \<and> dom (bts a') = dom (bts a)"
  using assms quiet_FreeListInsert [of a _ _ p] unfolding held_def ra_ok_def by blast

text \<open>Splitting a held tag and returning one of the halves to the free lists.\<close>

lemma held_split:
  assumes h: "held a p y" and n: "0 < n" "n < it_size y" and q: "q \<noteq> NULL" "bts a q = None"
  shows "\<exists>a1. SegmentSplit a p n (q # km) = Some (q, a1, km) \<and>
     (\<exists>a2. FreeListInsert a1 p = Some a2 \<and> quiet a a2 \<and> dom (bts a2) = insert q (dom (bts a)) \<and>
        held a2 q (btt_free, it_base y + n, it_size y - n, it_map y) \<and> bts a2 p \<noteq> None) \<and>
     (\<exists>a2. FreeListInsert a1 q = Some a2 \<and> quiet a a2 \<and> dom (bts a2) = insert q (dom (bts a)) \<and>
        held a2 p (btt_free, it_base y, n, it_map y) \<and> bts a2 q \<noteq> None)"
proof -
  obtain segs fl where s: "ra_rep a segs fl {p}" "p \<in> set segs" "item_at a p = y" "it_typ y = btt_free"
    using h by (auto simp: held_def)
  obtain xs ys where segs: "segs = xs @ p # ys" using split_list [OF s(2)] by auto
  let ?u = "(btt_free, it_base y, n, it_map y)" and ?v = "(btt_free, it_base y + n, it_size y - n, it_map y)"
  let ?segs = "xs @ p # q # ys"
  have rp: "ra_rep a (xs @ p # ys) fl {p}" using s(1) segs by simp
  obtain a1 where a1: "SegmentSplit a p n (q # km) = Some (q, a1, km)" "ra_rep a1 ?segs fl {p, q}"
    "quiet a a1" "dom (bts a1) = insert q (dom (bts a))" "item_at a1 p = ?u" "item_at a1 q = ?v"
    using quiet_SegmentSplit [OF rp s(3,4) n q, of km] by blast
  have pq: "p \<noteq> q" using ra_rep_alloc [OF s(1,2)] q(2) by auto
  have half: "\<exists>a2. FreeListInsert a1 r = Some a2 \<and> quiet a a2 \<and> dom (bts a2) = insert q (dom (bts a)) \<and>
      held a2 t z \<and> bts a2 r \<noteq> None"
    if rt: "{r, t} = {p, q}" "r \<noteq> t" and z: "item_at a1 t = z" "it_typ z = btt_free"
      and w: "item_at a1 r = w" "it_typ w = btt_free" for r t z w
  proof -
    have rn: "r \<in> set ?segs" "t \<in> set ?segs" using rt by (auto simp: doubleton_eq_iff)
    have out: "r \<notin> set (concat fl)" using ra_repD(4) [OF a1(2)] rt by auto
    have sp: "\<not> is_span (item_at a1 r)" using w by (simp add: is_span_def)
    obtain a2 fl' where a2: "FreeListInsert a1 r = Some a2" "ra_rep a2 ?segs fl' ({p, q} - {r})"
      "data a2 = (data a1)(r \<mapsto> set_typ btt_free w)" "free_frame a1 a2"
      using ra_FreeListInsert [OF a1(2) rn(1) out sp] w(1) by auto
    have "set_typ btt_free w = w" using w(2) unfolding set_typ_def by (metis item_eq)
    then have d: "data a2 = data a1"
      using a2(3) ra_rep_alloc [OF a1(2) rn(1)] data_item [of a1 r] w(1) by (auto simp: fun_upd_idem)
    have "{p, q} - {r} = {t}" using rt by blast
    then have "held a2 t z" using a2(2) rn(2) z item_at_cong [OF d] unfolding held_def by metis
    moreover have "quiet a1 a2"
      using a2(4) live_data [OF d] total_data [OF d] maps_data [OF d]
      by (auto simp: quiet_def free_frame_def same_rest_def)
    moreover have "dom (bts a2) = dom (bts a1)" by (rule dom_bts_data [OF d])
    moreover have "bts a2 r \<noteq> None" using ra_rep_alloc [OF a2(2) rn(1)] by auto
    ultimately show ?thesis using a2(1) quiet_trans [OF a1(3)] a1(4) by auto
  qed
  have t: "it_typ ?u = btt_free" "it_typ ?v = btt_free" by (simp_all add: it_typ_def)
  show ?thesis
    using a1(1) half [OF _ pq a1(6) t(2) a1(5) t(1)] half [OF _ pq [symmetric] a1(5) t(1) a1(6) t(2)]
    by (auto simp: insert_commute)
qed

lemma split_front_spec:
  assumes h: "held a p y" and fr: "fresh a km" and st: "lo y \<le> unat start" "unat start < hi y"
  shows "\<exists>r a' km'. split_front a p start km = Some (r, a', km') \<and> quiet a a' \<and> fresh a' km' \<and>
     (mem_supply (Suc n) km \<longrightarrow> r \<noteq> NULL \<and> mem_supply n km') \<and>
     (r = NULL \<and> ra_ok a' \<or>
      r \<noteq> NULL \<and> held a' r (btt_free, start, it_size y - (start - it_base y), it_map y))"
proof -
  obtain b where b: "bts a p = Some b" "bt_typ b = btt_free" "bt_base b = it_base y"
    "bt_uSize b = it_size y" "psMapping b = it_map y" "p \<noteq> NULL" "ok_item y" "\<not> is_span y"
    by (rule held_bts [OF h])
  have yt: "it_typ y = btt_free" using h by (auto simp: held_def)
  have le: "it_base y \<le> start" using st(1) by (simp add: lo_def word_le_nat_alt)
  show ?thesis
  proof (cases "start > it_base y")
    case False
    then have "start = it_base y" using le by simp
    then have "held a p (btt_free, start, it_size y - (start - it_base y), it_map y)"
      using h yt by (simp add: item_eq [of y, symmetric]) (metis item_eq)
    then show ?thesis using False b fr by (auto simp: split_front_def quiet_refl intro: supply_Suc)
  next
    case True
    let ?n = "start - it_base y"
    have n0: "0 < ?n" "?n < it_size y"
      using True le st(2) b(8) by (auto simp: word_less_nat_alt unat_sub hi_def lo_def word_le_nat_alt)
    from fr show ?thesis
    proof (cases rule: fresh_cases)
      case (fail km')
      obtain a2 where a2: "FreeListInsert a p = Some a2" "ra_ok a2" "quiet a a2" "dom (bts a2) = dom (bts a)"
        using held_insert [OF h] by blast
      then have "split_front a p start km = Some (NULL, a2, km')"
        using True b SegmentSplit_fail [OF fail(1)] by (simp add: split_front_def)
      then show ?thesis using a2 fresh_dom [OF fail(2), of a2] supply_ok [OF _ fail(1)] by auto
    next
      case (ok q km')
      obtain a1 a2 where a2: "SegmentSplit a p ?n (q # km') = Some (q, a1, km')"
        "FreeListInsert a1 p = Some a2" "quiet a a2" "dom (bts a2) = insert q (dom (bts a))"
        "held a2 q (btt_free, it_base y + ?n, it_size y - ?n, it_map y)" "bts a2 p \<noteq> None"
        using held_split [OF h n0 ok(3,4), of km'] by blast
      then obtain f where "split_front a p start km = Some (q, stat f a2, km')"
        using True b ok(2,3) by (auto simp: split_front_def)
      moreover have "held (stat f a2) q (btt_free, start, it_size y - ?n, it_map y)"
        using a2(5) by (simp add: held_def)
      ultimately show ?thesis using a2(3,4) ok(3,5) supply_ok(2) [OF _ ok(1)] by auto
    qed
  qed
qed

lemma split_back_spec:
  assumes h: "held a p y" and fr: "fresh a km" and s: "s \<noteq> 0" "s \<le> it_size y"
  shows "\<exists>r a' km'. split_back a p s km = Some (r, a', km') \<and> quiet a a' \<and> fresh a' km' \<and>
     (mem_supply (Suc n) km \<longrightarrow> r \<noteq> NULL \<and> mem_supply n km') \<and>
     (r = NULL \<and> ra_ok a' \<or> r = p \<and> held a' p (btt_free, it_base y, s, it_map y))"
proof -
  obtain b where b: "bts a p = Some b" "bt_typ b = btt_free" "bt_base b = it_base y"
    "bt_uSize b = it_size y" "psMapping b = it_map y" "p \<noteq> NULL" "ok_item y" "\<not> is_span y"
    by (rule held_bts [OF h])
  have yt: "it_typ y = btt_free" using h by (auto simp: held_def)
  show ?thesis
  proof (cases "it_size y > s")
    case False
    then have "s = it_size y" using s(2) by simp
    then have "held a p (btt_free, it_base y, s, it_map y)"
      using h yt by (metis item_eq)
    then show ?thesis using False b fr by (auto simp: split_back_def quiet_refl intro: supply_Suc)
  next
    case True
    have s0: "0 < s" using s(1) by (simp add: word_neq_0_conv)
    from fr show ?thesis
    proof (cases rule: fresh_cases)
      case (fail km')
      obtain a2 where a2: "FreeListInsert a p = Some a2" "ra_ok a2" "quiet a a2" "dom (bts a2) = dom (bts a)"
        using held_insert [OF h] by blast
      then have "split_back a p s km = Some (NULL, a2, km')"
        using True b SegmentSplit_fail [OF fail(1)] by (simp add: split_back_def)
      then show ?thesis using a2 fresh_dom [OF fail(2), of a2] supply_ok [OF _ fail(1)] by auto
    next
      case (ok q km')
      obtain a1 a2 where a2: "SegmentSplit a p s (q # km') = Some (q, a1, km')"
        "FreeListInsert a1 q = Some a2" "quiet a a2" "dom (bts a2) = insert q (dom (bts a))"
        "held a2 p (btt_free, it_base y, s, it_map y)" "bts a2 q \<noteq> None"
        using held_split [OF h s0 True ok(3,4), of km'] by blast
      then obtain f where "split_back a p s km = Some (p, stat f a2, km')"
        using True b ok(2,3) by (auto simp: split_back_def)
      moreover have "held (stat f a2) p (btt_free, it_base y, s, it_map y)"
        using a2(5) by (simp add: held_def)
      ultimately show ?thesis using a2(3,4) ok(3,5) b(6) supply_ok(2) [OF _ ok(1)] by auto
    qed
  qed
qed

subsection \<open>The segment hash\<close>

text \<open>The hash holds one entry per live tag: its base address as the key, the tag as the value.\<close>

definition live_entries :: "RA_ARENA \<Rightarrow> (u32 list \<times> u32) multiset" where
  "live_entries a = image_mset (\<lambda>p. ([it_base (the (live a p))], p)) (mset_set (dom (live a)))"

definition hash_ok :: "RA_ARENA \<Rightarrow> bool" where
  "hash_ok a \<longleftrightarrow> hash_inv (pSegmentHash a) \<and> key_words (pSegmentHash a) = 1 \<and>
     entries (pSegmentHash a) = live_entries a"

lemma live_entries_insert:
  assumes "live a' = (live a)(p \<mapsto> x)" "live a p = None" "finite (dom (live a))"
  shows "live_entries a' = add_mset ([it_base x], p) (live_entries a)"
proof -
  have "p \<notin> dom (live a)" using assms(2) by auto
  then have "image_mset (\<lambda>q. ([it_base (the (live a' q))], q)) (mset_set (dom (live a))) = live_entries a"
    unfolding live_entries_def using assms(1,3) by (intro image_mset_cong) auto
  then show ?thesis using assms \<open>p \<notin> dom (live a)\<close> by (simp add: live_entries_def)
qed

lemma live_entries_remove:
  assumes "live a' = (live a)(p := None)" "live a p = Some x" "finite (dom (live a))"
  shows "live_entries a = add_mset ([it_base x], p) (live_entries a')"
proof (rule live_entries_insert)
  show "live a = (live a')(p \<mapsto> x)" using assms by (simp add: fun_upd_idem)
  show "live a' p = None" "finite (dom (live a'))" using assms by auto
qed

lemma live_entries_mem: "finite (dom (live a)) \<Longrightarrow>
  (k, p) \<in># live_entries a \<longleftrightarrow> (\<exists>x. live a p = Some x \<and> k = [it_base x])"
  by (auto simp: live_entries_def image_iff)

lemma ra_ok_live:
  assumes "ra_ok a"
  shows "finite (dom (live a))" and "live a p = Some x \<Longrightarrow> p \<noteq> NULL"
    and "live a p = Some x \<Longrightarrow> live a q = Some y \<Longrightarrow> p \<noteq> q \<Longrightarrow> bytes x \<inter> bytes y = {}"
    and "live a p = Some x \<Longrightarrow> lo x \<in> bytes x" and "live a p = Some x \<Longrightarrow> bytes x \<subseteq> total a"
proof -
  obtain segs fl where rep: "ra_rep a segs fl {}" using assms by (auto simp: ra_ok_def)
  have "dom (live a) \<subseteq> set segs" using ra_rep_live(1) [OF rep] by auto
  then show "finite (dom (live a))" by (rule finite_subset) simp
  show "p \<noteq> NULL" if "live a p = Some x" using ra_rep_live(5) [OF rep that] .
  have part: "part a p = bytes x" if "live a p = Some x" for p x
    using that by (simp add: live_iff part_at(1))
  show "bytes x \<inter> bytes y = {}" if "live a p = Some x" "live a q = Some y" "p \<noteq> q"
    using parts_disjoint [OF rep that(3)] part that by simp
  show "lo x \<in> bytes x" if p: "live a p = Some x"
    using ok_item_lt [of x] ra_rep_ok [OF rep ra_rep_live(1) [OF rep p]] ra_rep_live(3,4) [OF rep p]
    by (simp add: bytes_def)
  show "bytes x \<subseteq> total a" if "live a p = Some x" using part [OF that] by (auto simp: total_part)
qed

lemma live_keys_differ:
  assumes "ra_ok a" "live a p = Some x" "live a q = Some y" "it_base x = it_base y"
  shows "p = q"
proof (rule ccontr)
  assume "p \<noteq> q"
  then have "bytes x \<inter> bytes y = {}" using ra_ok_live(3) [OF assms(1-3)] by simp
  moreover have "lo x \<in> bytes x" "lo y \<in> bytes y" using ra_ok_live(4) [OF assms(1)] assms(2,3) by auto
  ultimately show False using assms(4) by (auto simp: lo_def)
qed

lemma live_one_value:
  assumes "ra_ok a" shows "one_value (live_entries a) k"
proof -
  let ?f = "\<lambda>p. ([it_base (the (live a p))], p)"
  let ?S = "{p \<in> dom (live a). [it_base (the (live a p))] = k}"
  have "filter_mset (\<lambda>e. fst e = k) (live_entries a) = image_mset ?f (mset_set ?S)"
    using ra_ok_live(1) [OF assms] by (simp add: live_entries_def filter_mset_image_mset)
  moreover have "card ?S \<le> 1"
    using live_keys_differ [OF assms] by (intro card_le_Suc0_iff_eq [THEN iffD2, simplified One_nat_def [symmetric]])
      (auto simp: ra_ok_live(1) [OF assms])
  ultimately show ?thesis by (simp add: one_value_def)
qed

subsection \<open>Allocating from a tag\<close>

lemma OSAllocMem_drop: "OSAllocMem km = (e, p, km') \<Longrightarrow> km' = drop 1 km"
  by (cases km) (auto split: if_splits)

lemma Resize_drop: "Resize h n km = (r, h', km') \<Longrightarrow> \<exists>m. km' = drop m km"
  by (auto simp: Resize_def dest!: OSAllocMem_drop split: if_splits prod.splits intro: exI [of _ "0::nat"])

lemma HASH_Insert_drop:
  assumes "HASH_Insert h k v km = (r, h', km')" shows "\<exists>m. km' = drop m km"
proof -
  obtain e1 q km1 where o: "OSAllocMem km = (e1, q, km1)" by (cases "OSAllocMem km")
  have "\<exists>m. km' = drop m km1"
    using assms o
    by (auto simp: HASH_Insert_def HASH_Insert_Extended_def Let_def dest: Resize_drop
        split: if_splits prod.splits intro: exI [of _ "0::nat"])
  then show ?thesis using OSAllocMem_drop [OF o] by (metis drop_drop)
qed

lemma fresh_drop: "fresh a km \<Longrightarrow> fresh a (drop n km)"
proof (induction n arbitrary: km)
  case (Suc n)
  then show ?case by (cases km) (auto simp: fresh_def split: if_splits)
qed simp

definition shrinks :: "RA_ARENA \<Rightarrow> RA_ARENA \<Rightarrow> bool" where
  "shrinks a a' \<longleftrightarrow> (\<exists>cs. ra_calls a' = ra_calls a @ cs \<and>
     (total a' = total a \<and> (\<forall>h b m. ImportFree h b m \<notin> set cs) \<or>
      (\<exists>y m. ImportFree (pImportHandle a) (it_base y) m \<in> set cs \<and> bytes y \<subseteq> total a \<and>
         total a' = total a - bytes y)))"

definition refused :: "RA_ARENA \<Rightarrow> RA_ARENA \<Rightarrow> bool" where
  "refused a a' \<longleftrightarrow> live a' = live a \<and> pSegmentHash a' = pSegmentHash a \<and> shrinks a a'"

definition granted :: "RA_ARENA \<Rightarrow> RA_ARENA \<Rightarrow> ptr \<Rightarrow> item \<Rightarrow> bool" where
  "granted a a' q x \<longleftrightarrow> live a q = None \<and> live a' = (live a)(q \<mapsto> x) \<and> total a' = total a \<and>
     ra_calls a' = ra_calls a"

definition good :: "RA_ARENA \<Rightarrow> RA_ARENA \<Rightarrow> bool" where
  "good a a' \<longleftrightarrow> ra_ok a' \<and> hash_ok a' \<and> maps a' \<subseteq> maps a \<and> cfg a' = cfg a"

lemma quiet_refused: "quiet a a' \<Longrightarrow> refused a a'"
  by (auto simp: quiet_def refused_def shrinks_def)

lemma quiet_hash_ok: "quiet a a' \<Longrightarrow> hash_ok a' = hash_ok a"
  by (simp add: quiet_def hash_ok_def live_entries_def)

lemma quiet_handle: "quiet a a' \<Longrightarrow> pImportHandle a' = pImportHandle a"
  by (simp add: quiet_def cfg_def)

lemma quiet_then:
  assumes "quiet a b"
  shows "refused b c \<Longrightarrow> refused a c" and "granted b c q x \<Longrightarrow> granted a c q x" and "good b c \<Longrightarrow> good a c"
  using assms quiet_handle [OF assms]
  by (auto simp: quiet_def refused_def granted_def good_def shrinks_def)

lemma held_live:
  assumes "held a p y"
  shows "live a p = None" "finite (dom (live a))" "data a p = Some y"
proof -
  obtain segs fl where h: "ra_rep a segs fl {p}" "p \<in> set segs" "item_at a p = y" "it_typ y = btt_free"
    using assms by (auto simp: held_def)
  obtain b where "bts a p = Some b" using ra_rep_alloc [OF h(1,2)] by blast
  then show d: "data a p = Some y" using data_item h(3) by auto
  then show "live a p = None" using h(4) by (simp add: live_def)
  have "dom (live a) \<subseteq> set segs" using ra_rep_live(1) [OF h(1)] by auto
  then show "finite (dom (live a))" by (rule finite_subset) simp
qed

lemma held_mark:
  assumes h: "held a p y" and d: "data a' = (data a)(p \<mapsto> set_typ btt_live y)"
    and l: "segh a' = segh a" "freeh a' = freeh a" "aHeadFree a' = aHeadFree a"
      "pHeadSegment a' = pHeadSegment a" "pTailSegment a' = pTailSegment a"
  shows "ra_ok a'" "live a' = (live a)(p \<mapsto> set_typ btt_live y)" "total a' = total a" "maps a' \<subseteq> maps a"
    "dom (bts a') = dom (bts a)"
proof -
  obtain segs fl where s: "ra_rep a segs fl {p}" "p \<in> set segs" "item_at a p = y" "it_typ y = btt_free"
    using h by (auto simp: held_def)
  note r = ra_repD [OF s(1)]
  have dp: "data a p = Some y" by (rule held_live(3) [OF h])
  have ia: "item_at a' = (item_at a)(p := set_typ btt_live y)" by (rule item_at_upd [OF d])
  have sp: "\<not> is_span y" using s(4) by (simp add: is_span_def)
  obtain xs ys where segs: "segs = xs @ p # ys" using split_list [OF s(2)] by auto
  have np: "p \<notin> set xs" "p \<notin> set ys" using r(7) segs by auto
  have "layout (map (item_at a) xs @ set_typ btt_live y # map (item_at a) ys)"
  proof (rule layout_replace [of _ y])
    show "layout (map (item_at a) xs @ y # map (item_at a) ys)" using r(6) s(3) segs by simp
  qed (use sp ra_rep_ok [OF s(1,2)] s(3) in \<open>auto simp: is_span_def lo_def hi_def ok_item_def\<close>)
  then have lay: "layout (map (item_at a') segs)" using np by (simp add: ia segs map_item_upd)
  show dom: "dom (bts a') = dom (bts a)"
    using dom_bts_upd [OF d] domI [of "data a" p, OF dp] by auto
  have "set (concat fl) = {q \<in> set segs. it_typ (item_at a' q) = btt_free} - {}"
    unfolding r(4) using s(3,4) by (auto simp: ia)
  moreover have "\<forall>i < FREE_TABLE_LIMIT. \<forall>q \<in> set (fl ! i). size_class (it_size (item_at a' q)) = i"
    using r(5) s(3) by (auto simp: ia)
  moreover have "seg_chain a' segs" "free_chains a' fl" using r(1,2) l by (simp_all add: seg_chain_def free_chains_def)
  ultimately have "ra_rep a' segs fl {}" using lay dom r(3) by (simp only: ra_rep_def)
  then show "ra_ok a'" by (auto simp: ra_ok_def)
  show "live a' = (live a)(p \<mapsto> set_typ btt_live y)" using d by (auto simp: live_def fun_eq_iff)
  show "total a' = total a"
    by (rule total_replace [OF dp d]) (use sp in \<open>simp add: bytes_def lo_def hi_def is_span_def\<close>)
  show "maps a' \<subseteq> maps a"
  proof (rule maps_subset)
    fix q z assume "data a' q = Some z"
    then show "it_map z \<in> maps a"
      using d maps_at [OF dp] maps_at [of a q z] by (cases "q = p") (simp_all, metis set_typ_sel(4))
  qed
qed

lemma HASH_Insert_success:
  assumes "hash_inv h" "key_words h = 1" "mem_supply 1 km"
  shows "fst (HASH_Insert h k v km)"
proof -
  obtain q km1 where o: "OSAllocMem km = (PVRSRV_OK, q, km1)"
    using supply_ok(1) [of 0 km] assms(3) by (cases "OSAllocMem km") auto
  then show ?thesis
    using HASH_Insert_Extended_success [OF assms(1), of "[k]"] assms(2) by (simp add: HASH_Insert_def table_key_def)
qed

lemma released_shrinks:
  assumes "released p a a'" "live a p = Some x"
  shows "shrinks a a'"
proof -
  obtain cs where cs: "\<forall>c \<in> set cs. \<exists>u v. c = BackingStoreFree (pImportHandle a) u v"
    "ra_calls a' = ra_calls a @ cs \<and> total a' = total a \<or>
     (\<exists>x y. live a p = Some x \<and> bytes x \<subseteq> bytes y \<and> bytes y \<subseteq> total a \<and>
        ra_calls a' = ra_calls a @ cs @ [ImportFree (pImportHandle a) (it_base y) (it_map x)] \<and>
        total a' = total a - bytes y)"
    using assms(1) unfolding released_def by blast
  from cs(2) show ?thesis
  proof
    assume "ra_calls a' = ra_calls a @ cs \<and> total a' = total a"
    moreover have "\<forall>h b m. ImportFree h b m \<notin> set cs" using cs(1) by blast
    ultimately show ?thesis unfolding shrinks_def by blast
  next
    assume "\<exists>x y. live a p = Some x \<and> bytes x \<subseteq> bytes y \<and> bytes y \<subseteq> total a \<and>
        ra_calls a' = ra_calls a @ cs @ [ImportFree (pImportHandle a) (it_base y) (it_map x)] \<and>
        total a' = total a - bytes y"
    then obtain x y where "bytes y \<subseteq> total a" "total a' = total a - bytes y"
      "ra_calls a' = ra_calls a @ (cs @ [ImportFree (pImportHandle a) (it_base y) (it_map x)])" by blast
    moreover have "ImportFree (pImportHandle a) (it_base y) (it_map x)
        \<in> set (cs @ [ImportFree (pImportHandle a) (it_base y) (it_map x)])" by simp
    ultimately show ?thesis unfolding shrinks_def by blast
  qed
qed

lemma mark_live_spec:
  assumes h: "held a p y" and ho: "hash_ok a" and room: "table_roomy (pSegmentHash a)" and fr: "fresh a km"
  shows "\<exists>r a' km'. mark_live a p km = Some (r, a', km') \<and> good a a' \<and> fresh a' km' \<and>
     (mem_supply 1 km \<longrightarrow> r \<noteq> None) \<and>
     (r = None \<and> refused a a' \<or>
      r = Some (it_map y, it_base y) \<and> granted a a' p (set_typ btt_live y))"
proof -
  obtain b where b: "bts a p = Some b" "bt_typ b = btt_free" "bt_base b = it_base y"
    "bt_uSize b = it_size y" "psMapping b = it_map y" by (rule held_bts [OF h])
  define a1 where "a1 = a\<lparr>bts := (bts a)(p \<mapsto> b\<lparr>bt_typ := btt_live\<rparr>)\<rparr>"
  have b1: "bts a1 p = Some (b\<lparr>bt_typ := btt_live\<rparr>)" by (simp add: a1_def)
  obtain r h' km' where ins: "HASH_Insert (pSegmentHash a) (it_base y) p km = (r, h', km')"
    by (cases "HASH_Insert (pSegmentHash a) (it_base y) p km")
  define a2 where "a2 = a1\<lparr>pSegmentHash := h'\<rparr>"
  have st: "segh a2 = segh a" "freeh a2 = freeh a" "aHeadFree a2 = aHeadFree a"
    "pHeadSegment a2 = pHeadSegment a" "pTailSegment a2 = pTailSegment a" "ra_calls a2 = ra_calls a" "cfg a2 = cfg a"
    using b(1) by (auto simp: a2_def a1_def views cfg_def fun_eq_iff)
  have d: "data a2 = (data a)(p \<mapsto> set_typ btt_live y)"
    using b by (auto simp: a2_def a1_def views fun_eq_iff set_typ_def)
  note m = held_mark [OF h d st(1-5)]
  have key: "table_key (pSegmentHash a) [it_base y]" "hash_inv (pSegmentHash a)"
    using ho by (auto simp: table_key_def hash_ok_def)
  note hs = HASH_Insert_Extended_spec [OF key(2) room key(1) ins [unfolded HASH_Insert_def]]
  have fr': "fresh a2 km'" using HASH_Insert_drop [OF ins] fresh_drop [OF fr] m(5) fresh_dom [of a _ a2] by auto
  have run: "mark_live a p km = (if \<not> r then do { a3 \<leftarrow> FreeBT a2 p False; Some (None, a3, km') }
      else Some (Some (it_map y, it_base y), a2, km'))"
    using b ins b1 by (simp add: mark_live_def a1_def a2_def)
  show ?thesis
  proof (cases r)
    case True
    have "entries h' = live_entries a2"
      using hs(2) True ho live_entries_insert [OF m(2) held_live(1,2) [OF h]] by (simp add: hash_ok_def)
    then have "hash_ok a2"
      using hs(1,3) ho by (simp add: hash_ok_def a2_def same_config_def key_words_def)
    then show ?thesis using run True m st fr' held_live(1) [OF h]
      by (simp add: good_def granted_def)
  next
    case False
    have h': "h' = pSegmentHash a" using hs(4) False by simp
    have sup: "\<not> mem_supply 1 km"
      using HASH_Insert_success [of "pSegmentHash a" km "it_base y" p] ho ins False by (auto simp: hash_ok_def)
    obtain segs fl where rep: "ra_rep a2 segs fl {}" using m(1) by (auto simp: ra_ok_def)
    have lp: "live a2 p = Some (set_typ btt_live y)" using m(2) by simp
    obtain a3 s3 f3 where a3: "FreeBT a2 p False = Some a3" "ra_rep a3 s3 f3 {}" "released p a2 a3"
      using FreeBT_spec [OF rep lp, of False] by auto
    have l3: "live a3 = live a" "pSegmentHash a3 = pSegmentHash a" "maps a3 \<subseteq> maps a" "cfg a3 = cfg a"
      "dom (bts a3) \<subseteq> dom (bts a2)"
      using a3(3) m(2,4) held_live(1) [OF h] h' st(7) by (auto simp: released_def a2_def fun_eq_iff)
    have ih: "pImportHandle a2 = pImportHandle a" using st(7) by (simp add: cfg_def)
    have "shrinks a2 a3" by (rule released_shrinks [OF a3(3) lp])
    then have "refused a a3" using l3 m(3) st(6) ih by (simp add: refused_def shrinks_def)
    moreover have "good a a3" using a3(2) l3 ho by (auto simp: good_def ra_ok_def hash_ok_def live_entries_def)
    ultimately show ?thesis using run False a3(1) fresh_dom [OF fr' l3(5)] sup by simp
  qed
qed

lemma alloc_from_bt_spec:
  assumes rep: "ra_rep a segs fl {}" and p: "p \<in> set (concat fl)" and y: "item_at a p = y"
    and st: "lo y \<le> unat start" "unat start + unat s \<le> hi y" and s: "s \<noteq> 0"
    and ho: "hash_ok a" and room: "table_roomy (pSegmentHash a)" and fr: "fresh a km"
  shows "\<exists>r a' km'. alloc_from_bt a p start s km = Some (r, a', km') \<and> good a a' \<and> fresh a' km' \<and>
     (mem_supply 3 km \<longrightarrow> r \<noteq> None) \<and>
     (r = None \<and> refused a a' \<or>
      (\<exists>q. r = Some (it_map y, start) \<and> granted a a' q (btt_live, start, s, it_map y)))"
proof -
  have ps: "p \<in> set segs" "it_typ y = btt_free" using p y unfolding ra_repD(4) [OF rep] by auto
  obtain a1 fl1 where a1: "FreeListRemove a p = Some a1" "ra_rep a1 segs fl1 {p}" "data a1 = data a"
    "free_frame a a1" using ra_FreeListRemove [OF rep p] by auto
  have h1: "held a1 p y" using a1(2) ps y item_at_cong [OF a1(3)] by (auto simp: held_def)
  have q1: "quiet a a1" using a1(4) live_data [OF a1(3)] total_data [OF a1(3)] maps_data [OF a1(3)]
    by (auto simp: quiet_def free_frame_def same_rest_def)
  have dom1: "dom (bts a1) = dom (bts a)" by (rule dom_bts_data [OF a1(3)])
  obtain b1 where b1: "bts a1 p = Some b1" by (rule held_bts [OF h1])
  define a2 where "a2 = stat (\<lambda>s. s\<lparr>uLiveSegmentCount := uLiveSegmentCount s + 1,
      uFreeSegmentCount := uFreeSegmentCount s - 1,
      uFreeResourceCount := uFreeResourceCount s - bt_uSize b1\<rparr>) a1"
  have h2: "held a2 p y" "quiet a a2" "fresh a2 km"
    using h1 q1 fresh_dom [OF fr, of a1] dom1 by (auto simp: a2_def held_def)
  have us: "0 < unat s" using s by (simp add: unat_gt_0 word_neq_0_conv)
  then have st': "unat start < hi y" using st(2) by simp
  obtain b where sp: "\<not> is_span y" by (rule held_bts [OF h2(1)])
  obtain r3 a3 km3 where f: "split_front a2 p start km = Some (r3, a3, km3)" "quiet a2 a3" "fresh a3 km3"
    "mem_supply (Suc 2) km \<longrightarrow> r3 \<noteq> NULL \<and> mem_supply 2 km3"
    "r3 = NULL \<and> ra_ok a3 \<or>
     r3 \<noteq> NULL \<and> held a3 r3 (btt_free, start, it_size y - (start - it_base y), it_map y)"
    using split_front_spec [OF h2(1,3) st(1) st', of 2] by blast
  have q3: "quiet a a3" by (rule quiet_trans [OF h2(2) f(2)])
  have run: "alloc_from_bt a p start s km =
     (if r3 = NULL then Some (None, a3, km3)
      else do {
        (p, a4, km4) \<leftarrow> split_back a3 r3 s km3;
        (if p = NULL then Some (None, a4, km4) else mark_live a4 p km4)
      })"
    using a1(1) b1 f(1) by (simp add: alloc_from_bt_def a2_def)
  have none: ?thesis if "alloc_from_bt a p start s km = Some (None, b, km')" "ra_ok b" "quiet a b" "fresh b km'"
    "\<not> mem_supply 3 km" for b km'
    using that ho quiet_refused [OF that(3)] quiet_hash_ok [OF that(3)] by (auto simp: good_def quiet_def)
  show ?thesis
  proof (cases "r3 = NULL")
    case True
    then show ?thesis using run f q3 by (intro none) (auto simp: numeral_3_eq_3 numeral_2_eq_2)
  next
    case False
    let ?y = "(btt_free, start, it_size y - (start - it_base y), it_map y)"
    have h3: "held a3 r3 ?y" using f(5) False by simp
    have "it_base y \<le> start" using st(1) by (simp add: lo_def word_le_nat_alt)
    then have "s \<le> it_size ?y"
      using st(2) sp by (auto simp: it_size_def [of ?y] word_le_nat_alt unat_sub hi_def lo_def)
    from split_back_spec [OF h3 f(3) s this, of 1]
    obtain r4 a4 km4 where g: "split_back a3 r3 s km3 = Some (r4, a4, km4)" "quiet a3 a4" "fresh a4 km4"
      "mem_supply (Suc 1) km3 \<longrightarrow> r4 \<noteq> NULL \<and> mem_supply 1 km4"
      "r4 = NULL \<and> ra_ok a4 \<or> r4 = r3 \<and> held a4 r3 (btt_free, start, s, it_map y)"
      by (auto simp: it_defs)
    have q4: "quiet a a4" by (rule quiet_trans [OF q3 g(2)])
    show ?thesis
    proof (cases "r4 = NULL")
      case True
      then show ?thesis using run False g q4 f(4) by (intro none) (auto simp: numeral_3_eq_3 numeral_2_eq_2)
    next
      case ne: False
      then have h4: "held a4 r3 (btt_free, start, s, it_map y)" "r4 = r3" using g(5) by auto
      have "hash_ok a4" "table_roomy (pSegmentHash a4)"
        using q4 ho room quiet_hash_ok [OF q4] by (auto simp: quiet_def)
      from mark_live_spec [OF h4(1) this g(3)]
      obtain r a' km' where k: "mark_live a4 r3 km4 = Some (r, a', km')" "good a4 a'" "fresh a' km'"
        "mem_supply 1 km4 \<longrightarrow> r \<noteq> None"
        "r = None \<and> refused a4 a' \<or> r = Some (it_map y, start) \<and> granted a4 a' r3 (btt_live, start, s, it_map y)"
        by (auto simp: it_defs set_typ_def)
      have "alloc_from_bt a p start s km = Some (r, a', km')" using run False ne g(1) h4(2) k(1) by simp
      moreover have "mem_supply 3 km \<longrightarrow> r \<noteq> None"
        using f(4) g(4) k(4) by (simp add: numeral_3_eq_3 numeral_2_eq_2)
      ultimately show ?thesis using k quiet_then [OF q4] by blast
    qed
  qed
qed

subsection \<open>The first-fit search finds a block exactly when one exists\<close>

definition aligned :: "u32 \<Rightarrow> nat \<Rightarrow> bool" where
  "aligned al n \<longleftrightarrow> al = 0 \<or> unat al dvd n"

definition flags_match :: "RA_ARENA \<Rightarrow> u32 \<Rightarrow> item \<Rightarrow> bool" where
  "flags_match a f x \<longleftrightarrow> it_map x = NULL \<or> mapping_flags a (it_map x) = Some f"

definition room_in :: "item \<Rightarrow> u32 \<Rightarrow> u32 \<Rightarrow> bool" where
  "room_in x s al \<longleftrightarrow> (\<exists>n. lo x \<le> n \<and> n + unat s \<le> hi x \<and> aligned al n)"

definition room :: "RA_ARENA \<Rightarrow> u32 \<Rightarrow> u32 \<Rightarrow> u32 \<Rightarrow> bool" where
  "room a s f al \<longleftrightarrow> (\<exists>p x. data a p = Some x \<and> it_typ x = btt_free \<and> flags_match a f x \<and> room_in x s al)"

text \<open>
  A request whose aligned end does not wrap around the 32-bit address space, from any address
  the arena manages.
\<close>

definition request_ok :: "RA_ARENA \<Rightarrow> u32 \<Rightarrow> u32 \<Rightarrow> bool" where
  "request_ok a s al \<longleftrightarrow> s \<noteq> 0 \<and> (\<forall>n \<in> total a. n + unat al + unat s < 2 ^ 32)"

lemma align_up_least:
  assumes "unat base + unat al < 2 ^ 32" "unat base \<le> n" "aligned al n"
  shows "unat (align_up base al) \<le> n"
proof (cases "al = 0")
  case True
  then show ?thesis using assms by (simp add: align_up_def)
next
  case False
  note au = align_up_spec [OF less_imp_le [OF assms(1)]]
  have a0: "0 < unat al" using False by (simp add: unat_gt_0 word_neq_0_conv)
  obtain i j where i: "unat (align_up base al) = unat al * i" and j: "n = unat al * j"
    using au(3) False assms(3) by (auto simp: aligned_def elim!: dvdE)
  have "unat al * i < unat al * Suc j" using au(2) a0 assms(2) i j by simp
  then have "i \<le> j" using a0 by (metis less_Suc_eq_le mult_less_cancel1)
  then show ?thesis using i j by simp
qed

lemma fits_iff:
  assumes rep: "ra_rep a segs fl {}" and p: "p \<in> set segs" "it_typ (item_at a p) = btt_free"
    and rq: "request_ok a s al"
  shows "fits a s f al p \<longleftrightarrow> flags_match a f (item_at a p) \<and> room_in (item_at a p) s al"
    and "fits a s f al p \<Longrightarrow> lo (item_at a p) \<le> unat (align_up (it_base (item_at a p)) al) \<and>
      unat (align_up (it_base (item_at a p)) al) + unat s \<le> hi (item_at a p) \<and>
      aligned al (unat (align_up (it_base (item_at a p)) al))"
proof -
  let ?x = "item_at a p" let ?ab = "align_up (it_base ?x) al"
  have ok: "ok_item ?x" "\<not> is_span ?x" using ra_rep_ok [OF rep p(1)] p(2) by (auto simp: is_span_def)
  have e: "unat (it_base ?x + it_size ?x) = hi ?x" by (rule item_end [OF ok])
  obtain b where "bts a p = Some b" using ra_rep_alloc [OF rep p(1)] by blast
  then have "part a p = bytes ?x" using part_at(1) data_item by metis
  then have "lo ?x \<in> total a" using ok_item_lt [OF ok] by (auto simp: total_part bytes_def)
  then have nw: "lo ?x + unat al + unat s < 2 ^ 32" using rq by (simp add: request_ok_def)
  have nw': "unat (it_base ?x) + unat al < 2 ^ 32" using nw by (simp add: lo_def)
  note au = align_up_spec [OF less_imp_le [OF nw']]
  have "unat ?ab + unat s < 2 ^ 32"
  proof (cases "al = 0")
    case True
    then show ?thesis using nw by (simp add: align_up_def lo_def)
  next
    case False
    then have "0 < unat al" by (simp add: unat_gt_0 word_neq_0_conv)
    then show ?thesis using au(2) nw by (simp add: lo_def)
  qed
  then have "unat (?ab + s) = unat ?ab + unat s" by (simp add: unat_word_ariths)
  then have f: "fits a s f al p \<longleftrightarrow> unat ?ab + unat s \<le> hi ?x \<and> flags_match a f ?x"
    using e by (auto simp: fits_def flags_match_def word_less_nat_alt)
  have al: "lo ?x \<le> unat ?ab" "aligned al (unat ?ab)" using au by (auto simp: aligned_def lo_def)
  show "lo ?x \<le> unat ?ab \<and> unat ?ab + unat s \<le> hi ?x \<and> aligned al (unat ?ab)" if "fits a s f al p"
    using f that al by simp
  have "room_in ?x s al \<longleftrightarrow> unat ?ab + unat s \<le> hi ?x"
  proof
    assume "room_in ?x s al"
    then obtain n where n: "lo ?x \<le> n" "n + unat s \<le> hi ?x" "aligned al n" by (auto simp: room_in_def)
    have "unat ?ab \<le> n" by (rule align_up_least [OF nw']) (use n in \<open>auto simp: lo_def\<close>)
    then show "unat ?ab + unat s \<le> hi ?x" using n(2) by simp
  next
    assume "unat ?ab + unat s \<le> hi ?x"
    then show "room_in ?x s al" using al by (auto simp: room_in_def)
  qed
  then show "fits a s f al p \<longleftrightarrow> flags_match a f ?x \<and> room_in ?x s al" using f by blast
qed

lemma fits_class:
  assumes rep: "ra_rep a segs fl {}" and i: "i < FREE_TABLE_LIMIT" "p \<in> set (fl ! i)"
    and rq: "request_ok a s al" and fit: "fits a s f al p"
  shows "size_class s \<le> i"
proof -
  have il: "i < length fl" using ra_repD(2) [OF rep] i(1) by (simp add: free_chains_def)
  then have "p \<in> set (concat fl)" using nth_subset_concat [of i fl] i(2) by blast
  then have p: "p \<in> set segs" "it_typ (item_at a p) = btt_free" unfolding ra_repD(4) [OF rep] by auto
  have "\<not> is_span (item_at a p)" using p(2) by (simp add: is_span_def)
  then have "unat s \<le> unat (it_size (item_at a p))"
    using fits_iff(2) [OF rep p rq fit] by (simp add: hi_def)
  then have "s \<le> it_size (item_at a p)" by (simp add: word_le_nat_alt)
  then show ?thesis using size_class_mono [of s] rq ra_repD(5) [OF rep i] by (auto simp: request_ok_def)
qed

lemma search_complete:
  assumes rep: "ra_rep a segs fl {}" and rq: "request_ok a s al"
  shows "room a s f al \<longleftrightarrow> (\<exists>p \<in> set (concat (drop (size_class s) fl)). fits a s f al p)"
proof
  assume "room a s f al"
  then obtain p x where p: "data a p = Some x" "it_typ x = btt_free" "flags_match a f x" "room_in x s al"
    by (auto simp: room_def)
  have "p \<in> dom (data a)" using p(1) by blast
  then have ps: "p \<in> set segs" "item_at a p = x" using p(1) ra_repD(3) [OF rep] by (auto simp: item_at_def)
  then have fit: "fits a s f al p" using fits_iff(1) [OF rep ps(1) _ rq] p by simp
  have "p \<in> set (concat fl)" unfolding ra_repD(4) [OF rep] using ps p(2) by simp
  then obtain i where i: "i < length fl" "p \<in> set (fl ! i)" by (auto simp: in_set_conv_nth [of _ fl])
  then have "i < FREE_TABLE_LIMIT" using ra_repD(2) [OF rep] by (simp add: free_chains_def)
  then have "size_class s \<le> i" using fits_class [OF rep _ i(2) rq fit] by simp
  then have "fl ! i \<in> set (drop (size_class s) fl)" using i(1)
    nth_mem [of "i - size_class s" "drop (size_class s) fl"] by simp
  then show "\<exists>p \<in> set (concat (drop (size_class s) fl)). fits a s f al p" using i(2) fit by auto
next
  assume "\<exists>p \<in> set (concat (drop (size_class s) fl)). fits a s f al p"
  then obtain p where p: "p \<in> set (concat (drop (size_class s) fl))" "fits a s f al p" by blast
  then have "p \<in> set (concat fl)" using in_set_dropD by fastforce
  then have ps: "p \<in> set segs" "it_typ (item_at a p) = btt_free" unfolding ra_repD(4) [OF rep] by auto
  obtain b where "bts a p = Some b" using ra_rep_alloc [OF rep ps(1)] by blast
  then have "data a p = Some (item_at a p)" by (rule data_item)
  then show "room a s f al" using fits_iff(1) [OF rep ps rq] p(2) ps(2) unfolding room_def by blast
qed

lemma AttemptAllocAligned_spec:
  assumes ok: "ra_ok a" "maps_ok a" "hash_ok a" "table_roomy (pSegmentHash a)" "fresh a km"
    and rq: "request_ok a s al"
  shows "\<exists>r a' km'. AttemptAllocAligned a s f al km = Some (r, a', km') \<and> good a a' \<and> fresh a' km' \<and>
     (room a s f al \<and> mem_supply 3 km \<longrightarrow> r \<noteq> None) \<and>
     (if room a s f al
      then r = None \<and> refused a a' \<or>
           (\<exists>q m start p x. r = Some (m, start) \<and> granted a a' q (btt_live, start, s, m) \<and>
              aligned al (unat start) \<and> data a p = Some x \<and> it_typ x = btt_free \<and>
              bytes (btt_live, start, s, m) \<subseteq> bytes x \<and> it_map x = m \<and> flags_match a f x)
      else r = None \<and> a' = a \<and> km' = km)"
proof -
  obtain segs fl where rep: "ra_rep a segs fl {}" using ok(1) by (auto simp: ra_ok_def)
  let ?ps = "concat (drop (size_class s) fl)"
  have run: "AttemptAllocAligned a s f al km = (case candidate a s f al ?ps of
      None \<Rightarrow> Some (None, a, km) | Some (p, ab) \<Rightarrow> alloc_from_bt a p ab s km)"
    by (simp add: AttemptAllocAligned_def scan_skip_empty scan_classes_spec [OF rep ok(2)] size_class_def)
  show ?thesis
  proof (cases "find (fits a s f al) ?ps")
    case None
    then have "\<not> room a s f al" using search_complete [OF rep rq] by (auto simp: find_None_iff)
    then show ?thesis using run None ok by (simp add: candidate_def good_def)
  next
    case (Some p)
    then have fit: "fits a s f al p" "p \<in> set ?ps" by (metis find_Some_iff nth_mem)+
    then have rm: "room a s f al" using search_complete [OF rep rq] by blast
    have pf: "p \<in> set (concat fl)" using fit(2) in_set_dropD by fastforce
    then have ps: "p \<in> set segs" "it_typ (item_at a p) = btt_free" unfolding ra_repD(4) [OF rep] by auto
    let ?x = "item_at a p" let ?ab = "align_up (it_base ?x) al"
    obtain b where "bts a p = Some b" using ra_rep_alloc [OF rep ps(1)] by blast
    then have dx: "data a p = Some ?x" by (rule data_item)
    note fi = fits_iff(2) [OF rep ps rq fit(1)]
    have fm: "flags_match a f ?x" using fits_iff(1) [OF rep ps rq] fit(1) by simp
    have s0: "s \<noteq> 0" using rq by (simp add: request_ok_def)
    have sub: "bytes (btt_live, ?ab, s, it_map ?x) \<subseteq> bytes ?x"
      using fi by (auto simp: bytes_def lo_def hi_def is_span_def it_defs)
    have run': "AttemptAllocAligned a s f al km = alloc_from_bt a p ?ab s km"
      using run Some by (simp add: candidate_def)
    have "lo ?x \<le> unat ?ab" "unat ?ab + unat s \<le> hi ?x" using fi by blast+
    from alloc_from_bt_spec [OF rep pf refl this s0 ok(3,4,5)]
    obtain r a' km' where r: "alloc_from_bt a p ?ab s km = Some (r, a', km')" "good a a'" "fresh a' km'"
      "mem_supply 3 km \<longrightarrow> r \<noteq> None"
      "r = None \<and> refused a a' \<or>
       (\<exists>q. r = Some (it_map ?x, ?ab) \<and> granted a a' q (btt_live, ?ab, s, it_map ?x))" by blast
    then show ?thesis unfolding run' if_P [OF rm] using fi dx ps(2) sub fm by blast
  qed
qed

end
