(* ===== verification/Pvr_Ra_Insert.thy ===== *)
theory Pvr_Ra_Insert
  imports Pvr_Ra_Alloc
begin

text \<open>
  Adding resources: a plain block (\<^verbatim>\<open>_InsertResource\<close>) or an imported span with its two
  markers (\<^verbatim>\<open>_InsertResourceSpan\<close>). Either the block joins the arena as free space, or the
  kernel has no memory for the tags and the arena is as before.
\<close>

definition block :: "u32 \<Rightarrow> u32 \<Rightarrow> nat set" where
  "block base s = {unat base..<unat base + unat s}"

text \<open>A block that can be added: not empty, below the end of the address space, and new.\<close>

definition block_ok :: "RA_ARENA \<Rightarrow> u32 \<Rightarrow> u32 \<Rightarrow> bool" where
  "block_ok a base s \<longleftrightarrow> s \<noteq> 0 \<and> unat base + unat s < 2 ^ 32 \<and> block base s \<inter> total a = {}"

lemma ra_rep_extend:
  assumes rep: "ra_rep a segs fl {}" and same: "\<forall>q \<in> set segs. data a' q = data a q"
    and dom: "dom (bts a') = set segs'" "set segs' = insert p (set segs \<union> S)"
    and S: "\<forall>q \<in> S. it_typ (item_at a' q) = btt_span"
    and x: "item_at a' p = x" "it_typ x = btt_free"
    and p: "p \<notin> set segs" "S \<inter> set segs = {}" "p \<notin> S"
    and ch: "seg_chain a' segs'" and fc: "free_chains a' (fl[size_class (it_size x) := p # fl ! size_class (it_size x)])"
    and lay: "layout (map (item_at a') segs')"
  shows "ra_ok a'" and "total a' = total a \<union> bytes x" and "live a' = live a"
proof -
  note r = ra_repD [OF rep]
  let ?i = "size_class (it_size x)" let ?fl = "fl[?i := p # fl ! ?i]"
  have il: "?i < length fl" using size_class_bounds(1) r(2) by (simp add: free_chains_def)
  have ia: "\<forall>q \<in> set segs. item_at a' q = item_at a q" using same by (simp add: item_at_def)
  have out: "data a q = None" if "q \<notin> set segs" for q using that r(3) dom_data [of a] by blast
  have out': "data a' q = None" if "q \<notin> set segs'" for q using that dom(1) dom_data [of a'] by blast
  have d': "data a' q = Some (item_at a' q)" if "q \<in> set segs'" for q
    using that dom(1) dom_data [of a'] by (metis domIff item_at_def option.collapse)
  have "mset (concat ?fl) = add_mset p (mset (concat fl))"
    using mset_concat_update [OF il, of "p # fl ! ?i"] by simp
  then have "set (concat ?fl) = insert p (set (concat fl))" by (metis set_mset_add_mset_insert set_mset_mset)
  then have "set (concat ?fl) = {q \<in> set segs'. it_typ (item_at a' q) = btt_free} - {}"
    unfolding r(4) dom(2) using ia S x by auto
  moreover have "\<forall>j < FREE_TABLE_LIMIT. \<forall>q \<in> set (?fl ! j). size_class (it_size (item_at a' q)) = j"
  proof (intro allI impI ballI)
    fix j q assume j: "j < FREE_TABLE_LIMIT" and q: "q \<in> set (?fl ! j)"
    have jl: "j < length fl" using j r(2) by (simp add: free_chains_def)
    have sub: "set (fl ! j) \<subseteq> set segs" using nth_subset_concat [OF jl] r(4) by auto
    show "size_class (it_size (item_at a' q)) = j"
    proof (cases "q \<in> set (fl ! j)")
      case True
      then show ?thesis using r(5) [OF j True] ia sub by auto
    next
      case False
      then have "q = p" "j = ?i" using q il by (auto simp: nth_list_update split: if_splits)
      then show ?thesis using x(1) by simp
    qed
  qed
  ultimately have "ra_rep a' segs' ?fl {}" using ch fc dom(1) lay unfolding ra_rep_def by blast
  then show "ra_ok a'" by (auto simp: ra_ok_def)
  have pt: "part a' q = (if q = p then bytes x else part a q)" for q
  proof (cases "q \<in> set segs'")
    case False
    then show ?thesis using out' out [of q] dom(2) by (auto simp: part_def)
  next
    case True
    then consider "q = p" | "q \<in> S" | "q \<in> set segs" using dom(2) by blast
    then show ?thesis
    proof cases
      case 2
      then have "bytes (item_at a' q) = {}" "q \<noteq> p" using S p by (auto simp: bytes_def hi_def is_span_def)
      moreover have "data a q = None" using out [of q] 2 p(2) by blast
      ultimately show ?thesis using d' [OF True] by (simp add: part_def)
    qed (use d' [OF True] x p same in \<open>auto simp: part_def\<close>)
  qed
  have "part a p = {}" using out [OF p(1)] by (simp add: part_def)
  then show "total a' = total a \<union> bytes x" by (auto simp: total_part pt split: if_splits)
  show "live a' = live a"
  proof
    fix q
    consider "q = p" | "q \<in> S" "q \<noteq> p" | "q \<in> set segs" | "q \<notin> set segs'" using dom(2) by blast
    then show "live a' q = live a q"
    proof cases
      case 1
      then show ?thesis using d' [of p] x dom(2) out [OF p(1)] by (simp add: live_def)
    next
      case 2
      moreover have "data a q = None" using out [of q] 2 p(2) by blast
      ultimately show ?thesis using d' [of q] S dom(2) by (simp add: live_def)
    next
      case 3
      then show ?thesis using same by (simp add: live_def)
    next
      case 4
      then show ?thesis using out' out [of q] dom(2) by (simp add: live_def)
    qed
  qed
qed

lemma block_apart:
  assumes rep: "ra_rep a segs fl X" and blk: "block_ok a base s"
  shows "\<forall>y \<in> set (map (item_at a) segs). apart (unat base) (unat base + unat s) y"
proof
  fix y assume "y \<in> set (map (item_at a) segs)"
  then obtain q where q: "q \<in> set segs" "y = item_at a q" by auto
  obtain b where "bts a q = Some b" using ra_rep_alloc [OF rep q(1)] by blast
  then have "bytes y \<subseteq> total a" using data_item [of a q] part_at(1) [of a q y] q(2) by (auto simp: total_part)
  then have dis: "block base s \<inter> bytes y = {}" using blk by (auto simp: block_ok_def)
  show "apart (unat base) (unat base + unat s) y"
  proof (cases "is_span y")
    case False
    then have lt: "lo y < hi y" using ok_item_lt ra_rep_ok [OF rep q(1)] q(2) by simp
    have "0 < unat s" using blk by (simp add: block_ok_def unat_gt_0 word_neq_0_conv)
    have "hi y \<le> unat base \<or> unat base + unat s \<le> lo y"
    proof (rule ccontr)
      assume "\<not> ?thesis"
      then have "max (lo y) (unat base) \<in> block base s \<inter> bytes y"
        using lt \<open>0 < unat s\<close> by (auto simp: block_def bytes_def)
      then show False using dis by blast
    qed
    then show ?thesis by (simp add: apart_def)
  qed (simp add: apart_def)
qed

lemma add_tag:
  assumes ch: "seg_chain a segs" and fc: "free_chains a fl" and p: "bts a p = None"
    and a': "a' = a\<lparr>bts := (bts a)(p \<mapsto> b)\<rparr>"
  shows "seg_chain a' segs" "free_chains a' fl" "data a' = (data a)(p \<mapsto> bt_item b)" "same_rest a a'"
    "p \<notin> set segs" "p \<notin> set (concat fl)"
proof -
  show ps: "p \<notin> set segs" using seg_chain_alloc [OF ch] p by fastforce
  show pf: "p \<notin> set (concat fl)" using free_chains_alloc [OF fc] p by fastforce
  show "seg_chain a' segs" by (rule seg_chain_drop [OF ch _ ps]) (auto simp: a' segh_def)
  show "free_chains a' fl" by (rule free_chains_drop [OF fc _ pf]) (auto simp: a' freeh_def)
  show "data a' = (data a)(p \<mapsto> bt_item b)" by (auto simp: a' data_def)
  show "same_rest a a'" by (simp add: a' same_rest_def cfg_def)
qed

text \<open>The common result of adding a block.\<close>

definition added :: "RA_ARENA \<Rightarrow> RA_ARENA \<Rightarrow> ptr \<Rightarrow> item \<Rightarrow> bool" where
  "added a a' p x \<longleftrightarrow> ra_ok a' \<and> live a' = live a \<and> total a' = total a \<union> bytes x \<and>
     data a' p = Some x \<and> it_typ x = btt_free \<and>
     (\<forall>q y. data a' q = Some y \<longrightarrow> q = p \<or> data a q = Some y \<or> it_map y = NULL) \<and>
     pSegmentHash a' = pSegmentHash a \<and> ra_calls a' = ra_calls a \<and> cfg a' = cfg a"

lemma InsertResource_spec:
  assumes ok: "ra_ok a" and fr: "fresh a km" and blk: "block_ok a base s"
  shows "\<exists>p a' km'. InsertResource a base s km = Some (p, a', km') \<and> fresh a' km' \<and>
     (p = NULL \<and> a' = a \<or>
      p \<noteq> NULL \<and> added a a' p (btt_free, base, s, psMapping (raw_bt a p)))"
  using fr
proof (cases rule: fresh_cases)
  case (fail km')
  then show ?thesis by (auto simp: InsertResource_def BuildBT_def)
next
  case (ok p km')
  obtain segs fl where rep: "ra_rep a segs fl {}" using \<open>ra_ok a\<close> by (auto simp: ra_ok_def)
  note r = ra_repD [OF rep]
  let ?b = "(raw_bt a p)\<lparr>bt_typ := btt_free, bt_base := base, bt_uSize := s\<rparr>"
  let ?x = "(btt_free, base, s, psMapping (raw_bt a p))"
  define a1 where "a1 = a\<lparr>bts := (bts a)(p \<mapsto> ?b)\<rparr>"
  note t = add_tag [OF r(1,2) ok(4) a1_def]
  have b1: "bts a1 p = Some ?b" "bt_item ?b = ?x" by (simp_all add: a1_def bt_item_def)
  obtain a2 A B where a2: "SegmentListInsert a1 p = Some (PVRSRV_OK, a2)" "segs = A @ B"
    "seg_chain a2 (A @ p # B)" "data a2 = data a1" "seg_frame a1 a2"
    "\<forall>x \<in> set A. it_base (item_at a1 x) \<le> base" "B = [] \<or> base < it_base (item_at a1 (hd B))"
    using SegmentListInsert_spec [OF t(1,5) ok(3) b1(1)] by auto
  have fc2: "free_chains a2 fl" using t(2) seg_frame_free [OF a2(5)] by simp
  have "data a2 p = Some ?x" using a2(4) t(3) b1(2) by simp
  then obtain b2 where b2: "bts a2 p = Some b2" "bt_item b2 = ?x" by (auto simp: data_def)
  then have b2s: "bt_base b2 = base" "bt_uSize b2 = s" "psMapping b2 = psMapping (raw_bt a p)"
    by (auto simp: bt_item_def)
  let ?fl = "fl[size_class s := p # fl ! size_class s]"
  obtain a3 where a3: "FreeListInsert a2 p = Some a3" "free_chains a3 ?fl"
    "data a3 = (data a2)(p \<mapsto> ?x)" "free_frame a2 a3"
    using FreeListInsert_spec [OF fc2 t(6) ok(3) b2(1)] by (auto simp: b2s)
  have d3: "data a3 = (data a)(p \<mapsto> ?x)" using a3(3) a2(4) t(3) b1(2) by simp
  have i3: "item_at a3 = (item_at a)(p := ?x)" by (rule item_at_upd [OF d3])
  have i1: "\<forall>q \<in> set segs. item_at a1 q = item_at a q" using t(3,5) by (auto simp: item_at_def)
  have ch3: "seg_chain a3 (A @ p # B)" using a2(3) free_frame_seg [OF a3(4)] by simp
  have lay: "layout (map (item_at a3) (A @ p # B))"
  proof -
    have x: "lo ?x = unat base" "hi ?x = unat base + unat s" "\<not> is_span ?x" "ok_item ?x"
      using blk by (auto simp: lo_def hi_def is_span_def it_defs ok_item_def block_ok_def)
    have "layout (map (item_at a) A @ ?x # map (item_at a) B)"
    proof (rule layout_insert)
      show "layout (map (item_at a) A @ map (item_at a) B)" using r(6) a2(2) by simp
      show "\<forall>y \<in> set (map (item_at a) A @ map (item_at a) B). apart (lo ?x) (hi ?x) y"
        using block_apart [OF rep blk] a2(2) x(1,2) by simp
      show "\<forall>y \<in> set (map (item_at a) A). lo y \<le> lo ?x"
        using a2(2,6) i1 by (auto simp: lo_def it_defs word_le_nat_alt)
      show "map (item_at a) B = [] \<or> lo ?x < lo (hd (map (item_at a) B))"
        using a2(2,7) i1 by (cases B) (auto simp: lo_def it_defs word_less_nat_alt)
    qed (rule x(3) x(4))+
    moreover have "map (item_at a3) (A @ p # B) = map (item_at a) A @ ?x # map (item_at a) B"
      using t(5) a2(2) by (auto simp: i3)
    ultimately show ?thesis by (simp only:)
  qed
  have dom: "dom (bts a3) = set (A @ p # B)" using dom_bts_upd [OF d3] r(3) a2(2) by auto
  have ext: "ra_ok a3" "total a3 = total a \<union> bytes ?x" "live a3 = live a"
    by (rule ra_rep_extend [OF rep _ dom, where S = "{}" and p = p and x = ?x];
        use d3 t(5) a2(2) i3 ch3 a3(2) lay in \<open>simp add: it_defs\<close>; blast)+
  have rest: "same_rest a a3" using t(4) a2(5) a3(4) by (simp add: seg_frame_def free_frame_def same_rest_def)
  obtain f where "InsertResource a base s km = Some (p, stat f a3, km')"
    using ok(1,3) a2(1) a3(1) by (simp add: InsertResource_def BuildBT_def a1_def)
  moreover have "added a (stat f a3) p ?x"
    using ext rest d3 by (simp add: added_def same_rest_def it_typ_def ra_ok_def)
  moreover have "fresh (stat f a3) km'" using ok(5) [of a3] dom r(3) a2(2) by auto
  ultimately show ?thesis using ok(3) by blast
qed

subsection \<open>Importing a span\<close>

text \<open>Linking the three tags of a span into the chain, the middle one also into a free list.\<close>

lemma span_linked:
  assumes rep: "ra_rep a segs fl {}" and blk: "block_ok a base s"
    and t: "t = [u, p, v]" "distinct t" "NULL \<notin> set t" "\<forall>q \<in> set t. bts a q = None"
    and a1: "a1 = a\<lparr>bts := (bts a)(u \<mapsto> bu, v \<mapsto> bv, p \<mapsto> bp)\<rparr>"
    and bu: "bt_typ bu = btt_span" "bt_base bu = base" "bt_uSize bu = s" "psMapping bu = NULL"
    and bv: "bt_typ bv = btt_span" "bt_base bv = base + s" "bt_uSize bv = 0" "psMapping bv = NULL"
    and bp: "bt_item bp = x" "x = (btt_free, base, s, m)"
  shows "\<exists>a4 a5 a6 a7. SegmentListInsert a1 u = Some (PVRSRV_OK, a4) \<and>
     SegmentListInsertAfter a4 u p = Some (PVRSRV_OK, a5) \<and> FreeListInsert a5 p = Some a6 \<and>
     SegmentListInsertAfter a6 p v = Some (PVRSRV_OK, a7) \<and> added a a7 p x \<and>
     dom (bts a7) = dom (bts a) \<union> {u, p, v}"
proof -
  note r = ra_repD [OF rep]
  have ne: "u \<noteq> p" "u \<noteq> v" "p \<noteq> v" "u \<noteq> NULL" "p \<noteq> NULL" "v \<noteq> NULL" using t by auto
  have new: "u \<notin> set segs" "p \<notin> set segs" "v \<notin> set segs" using t r(3) by auto
  have nf: "u \<notin> set (concat fl)" "p \<notin> set (concat fl)" "v \<notin> set (concat fl)"
    using new r(4) by auto
  let ?D = "(data a)(u \<mapsto> bt_item bu, v \<mapsto> bt_item bv, p \<mapsto> x)"
  have d1: "data a1 = ?D" using bp(1) by (auto simp: a1 data_def fun_eq_iff)
  have c1: "seg_chain a1 segs"
  proof -
    have "dll (segh a1) NULL segs NULL = dll (segh a) NULL segs NULL"
      by (rule dll_frame) (use new in \<open>auto simp: a1 segh_def\<close>)
    then show ?thesis using r(1) by (simp add: seg_chain_def a1)
  qed
  have f1: "free_chains a1 fl"
  proof -
    have "dll (freeh a1) NULL (fl ! i) NULL = dll (freeh a) NULL (fl ! i) NULL" if i: "i < FREE_TABLE_LIMIT" for i
    proof (rule dll_frame)
      fix q assume "q \<in> set (fl ! i)"
      then have "q \<in> set (concat fl)"
        using nth_subset_concat [of i fl] i r(2) by (auto simp: free_chains_def)
      then show "freeh a1 q = freeh a q" using nf by (auto simp: a1 freeh_def)
    qed
    then show ?thesis using r(2) by (simp add: free_chains_def a1)
  qed
  have bts1: "bts a1 u = Some bu" using ne by (simp add: a1)
  obtain a4 A B where a4: "SegmentListInsert a1 u = Some (PVRSRV_OK, a4)" "segs = A @ B"
    "seg_chain a4 (A @ u # B)" "data a4 = data a1" "seg_frame a1 a4"
    "\<forall>x \<in> set A. it_base (item_at a1 x) \<le> base" "B = [] \<or> base < it_base (item_at a1 (hd B))"
    using SegmentListInsert_spec [OF c1 new(1) ne(4) bts1] bu(2) by auto
  have al: "\<exists>b. bts z q = Some b \<and> bt_item b = y" if "data z = ?D" "?D q = Some y" for z q y
    using that by (metis (no_types, lifting) data_def map_option_eq_Some)
  obtain b4 where b4: "bts a4 p = Some b4" using al [of a4 p x] a4(4) d1 by auto
  obtain a5 where a5: "SegmentListInsertAfter a4 u p = Some (PVRSRV_OK, a5)"
    "seg_chain a5 ((A @ [u]) @ p # B)" "data a5 = data a4" "seg_frame a4 a5"
    using SegmentListInsertAfter_spec [of a4 "A @ [u]" B u p b4] a4(2,3) b4 new ne by auto
  have f5: "free_chains a5 fl" using f1 seg_frame_free [OF a4(5)] seg_frame_free [OF a5(4)] by simp
  obtain b5 where b5: "bts a5 p = Some b5" "bt_item b5 = x" using al [of a5 p x] a5(3) a4(4) d1 by auto
  then have b5s: "bt_base b5 = base" "bt_uSize b5 = s" "psMapping b5 = m" using bp(2) by (auto simp: bt_item_def)
  let ?fl = "fl[size_class s := p # fl ! size_class s]"
  obtain a6 where a6: "FreeListInsert a5 p = Some a6" "free_chains a6 ?fl"
    "data a6 = (data a5)(p \<mapsto> x)" "free_frame a5 a6"
    using FreeListInsert_spec [OF f5 nf(2) ne(5) b5(1)] by (auto simp: b5s bp(2))
  have d6: "data a6 = ?D" using a6(3) a5(3) a4(4) d1 by auto
  obtain b6 where b6: "bts a6 v = Some b6" using al [OF d6, of v "bt_item bv"] ne by auto
  have c6: "seg_chain a6 ((A @ [u, p]) @ B)" using a5(2) free_frame_seg [OF a6(4)] by simp
  obtain a7 where a7: "SegmentListInsertAfter a6 p v = Some (PVRSRV_OK, a7)"
    "seg_chain a7 ((A @ [u, p]) @ v # B)" "data a7 = data a6" "seg_frame a6 a7"
    using SegmentListInsertAfter_spec [OF c6, of p v b6] b6 a4(2) new ne by auto
  let ?segs = "A @ u # p # v # B"
  have d7: "data a7 = ?D" using a7(3) d6 by simp
  have f7: "free_chains a7 ?fl" using a6(2) seg_frame_free [OF a7(4)] by simp
  have i7: "\<forall>q \<in> set segs. item_at a7 q = item_at a q" "\<forall>q \<in> set segs. item_at a1 q = item_at a q"
    "item_at a7 u = bt_item bu" "item_at a7 p = x" "item_at a7 v = bt_item bv"
    using d7 d1 new ne by (auto simp: item_at_def)
  have lay: "layout (map (item_at a7) ?segs)"
  proof -
    have s0: "s \<noteq> 0" "unat base + unat s < 2 ^ 32" using blk by (auto simp: block_ok_def)
    have x: "lo x = unat base" "hi x = unat base + unat s" "\<not> is_span x" "ok_item x"
      using s0 by (auto simp: lo_def hi_def is_span_def it_defs ok_item_def bp(2))
    have "layout (map (item_at a) A @ bt_item bu # x # bt_item bv # map (item_at a) B)"
    proof (rule layout_insert_span [OF _ _ x(3,4)])
      show "layout (map (item_at a) A @ map (item_at a) B)" using r(6) a4(2) by simp
      show "\<forall>y \<in> set (map (item_at a) A @ map (item_at a) B). apart (lo x) (hi x) y"
        using block_apart [OF rep blk] a4(2) x(1,2) by simp
      show "is_start (bt_item bu)" "lo (bt_item bu) = lo x" "is_end (bt_item bv)" "lo (bt_item bv) = hi x"
        using bu bv x s0 by (auto simp: is_start_def is_end_def is_span_def lo_def bt_item_sel unat_word_ariths)
      show "\<forall>y \<in> set (map (item_at a) A). lo y \<le> lo x"
        using a4(2,6) i7(2) by (auto simp: lo_def it_defs bp(2) word_le_nat_alt)
      show "map (item_at a) B = [] \<or> lo x < lo (hd (map (item_at a) B))"
        using a4(2,7) i7(2) by (cases B) (auto simp: lo_def it_defs bp(2) word_less_nat_alt)
    qed
    moreover have "map (item_at a7) ?segs = map (item_at a) A @ bt_item bu # x # bt_item bv # map (item_at a) B"
      using i7 a4(2) by simp
    ultimately show ?thesis by (simp only:)
  qed
  have dom: "dom (bts a7) = set ?segs" using arg_cong [OF d7, of dom] r(3) a4(2) by auto
  have sz: "it_size x = s" "it_typ x = btt_free" by (simp_all add: bp(2) it_defs)
  have ext: "ra_ok a7" "total a7 = total a \<union> bytes x" "live a7 = live a"
    by (rule ra_rep_extend [OF rep _ dom, where S = "{u, v}" and p = p and x = x];
        use d7 new ne a4(2) i7 a7(2) f7 lay sz bu(1) bv(1) in \<open>simp add: bt_item_sel\<close>; blast)+
  have rest: "same_rest a a1" by (simp add: a1 same_rest_def cfg_def)
  have "same_rest a a7" using rest a4(5) a5(4) a6(4) a7(4)
    by (simp add: seg_frame_def free_frame_def same_rest_def)
  moreover have "\<forall>q y. data a7 q = Some y \<longrightarrow> q = p \<or> data a q = Some y \<or> it_map y = NULL"
    using d7 bu(4) bv(4) by (auto simp: bt_item_def it_defs split: if_splits)
  ultimately have "added a a7 p x"
    using ext d7 sz(2) by (simp add: added_def same_rest_def)
  moreover have "dom (bts a7) = dom (bts a) \<union> {u, p, v}" using dom r(3) a4(2) by auto
  ultimately show ?thesis using a4(1) a5(1) a6(1) a7(1) by blast
qed

lemma InsertResourceSpan_spec:
  assumes ok: "ra_ok a" and fr: "fresh a km" and blk: "block_ok a base s"
  shows "\<exists>p a' km'. InsertResourceSpan a base s km = Some (p, a', km') \<and> fresh a' km' \<and>
     (mem_supply (Suc (Suc (Suc n))) km \<longrightarrow> p \<noteq> NULL \<and> mem_supply n km') \<and>
     (p = NULL \<and> a' = a \<or>
      p \<noteq> NULL \<and> added a a' p (btt_free, base, s, psMapping (raw_bt a p)))"
  using fr
proof (cases rule: fresh_cases)
  case (fail km')
  then show ?thesis using supply_ok(1) [OF _ fail(1)] by (auto simp: InsertResourceSpan_def BuildSpanMarker_def)
next
  case u: (ok u km1)
  let ?bu = "(raw_bt a u)\<lparr>bt_typ := btt_span, bt_base := base, bt_uSize := s, psMapping := NULL\<rparr>"
  let ?a1 = "a\<lparr>bts := (bts a)(u \<mapsto> ?bu)\<rparr>"
  have f1: "fresh ?a1 km1" by (rule u(5)) auto
  have m1: "BuildSpanMarker a base s km = (u, ?a1, km1)" using u(1) by (simp add: BuildSpanMarker_def)
  have back_u: "(bts a)(u := None) = bts a" using u(4) by auto
  from f1 show ?thesis
  proof (cases rule: fresh_cases)
    case (fail km')
    have "InsertResourceSpan a base s km = Some (NULL, a, km')"
      using m1 fail(1) u(3) back_u by (simp add: InsertResourceSpan_def BuildSpanMarker_def [of ?a1])
    moreover have "fresh a km'" by (rule fresh_dom [OF fail(2)]) auto
    ultimately show ?thesis using supply_ok [OF _ u(1)] supply_ok(1) [OF _ fail(1)] by auto
  next
    case v: (ok v km2)
    let ?bv = "(raw_bt a v)\<lparr>bt_typ := btt_span, bt_base := base + s, bt_uSize := 0, psMapping := NULL\<rparr>"
    let ?a2 = "a\<lparr>bts := (bts a)(u \<mapsto> ?bu, v \<mapsto> ?bv)\<rparr>"
    have uv: "v \<noteq> u" "bts a v = None" using v(4) by (auto split: if_splits)
    have f2: "fresh ?a2 km2" by (rule v(5)) auto
    have m2: "BuildSpanMarker ?a1 (base + s) 0 km1 = (v, ?a2, km2)" using v(1) by (simp add: BuildSpanMarker_def)
    from f2 show ?thesis
    proof (cases rule: fresh_cases)
      case (fail km')
      have undo: "(bts a)(v := None, u := None) = bts a" using u(4) uv by auto
      have "InsertResourceSpan a base s km = Some (NULL, a, km')"
        using m1 m2 fail(1) u(3) v(3) uv undo
        by (simp add: InsertResourceSpan_def BuildBT_def)
      moreover have "fresh a km'" by (rule fresh_dom [OF fail(2)]) auto
      ultimately show ?thesis
        using supply_ok [OF _ u(1)] supply_ok [OF _ v(1)] supply_ok(1) [OF _ fail(1)] by auto
    next
      case p: (ok p km3)
      let ?bp = "(raw_bt a p)\<lparr>bt_typ := btt_free, bt_base := base, bt_uSize := s\<rparr>"
      let ?x = "(btt_free, base, s, psMapping (raw_bt a p))"
      let ?a3 = "a\<lparr>bts := (bts a)(u \<mapsto> ?bu, v \<mapsto> ?bv, p \<mapsto> ?bp)\<rparr>"
      have pn: "p \<noteq> u" "p \<noteq> v" "bts a p = None" using p(4) by (auto split: if_splits)
      have m3: "BuildBT ?a2 base s km2 = (p, ?a3, km3)" using p(1) by (simp add: BuildBT_def)
      obtain segs fl where rep: "ra_rep a segs fl {}" using ok by (auto simp: ra_ok_def)
      have t: "distinct [u, p, v]" "NULL \<notin> set [u, p, v]" "\<forall>q \<in> set [u, p, v]. bts a q = None"
        using u(3,4) v(3) uv p(3) pn by auto
      have bi: "bt_item ?bp = ?x" by (simp add: bt_item_def)
      obtain a4 a5 a6 a7 where l: "SegmentListInsert ?a3 u = Some (PVRSRV_OK, a4)"
        "SegmentListInsertAfter a4 u p = Some (PVRSRV_OK, a5)" "FreeListInsert a5 p = Some a6"
        "SegmentListInsertAfter a6 p v = Some (PVRSRV_OK, a7)" "added a a7 p ?x"
        "dom (bts a7) = dom (bts a) \<union> {u, p, v}"
        using span_linked [OF rep blk refl t refl _ _ _ _ _ _ _ _ bi refl, of ?bu ?bv] by auto
      obtain f where run: "InsertResourceSpan a base s km = Some (p, stat f a7, km3)"
        using m1 m2 m3 u(3) v(3) p(3) l(1-4) by (simp add: InsertResourceSpan_def)
      have "added a (stat f a7) p ?x" using l(5) by (simp add: added_def ra_ok_def)
      moreover have "fresh (stat f a7) km3" using p(5) [of a7] l(6) by auto
      ultimately show ?thesis
        using run p(3) supply_ok(2) [OF _ u(1)] supply_ok(2) [OF _ v(1)] supply_ok(2) [OF _ p(1)] by auto
    qed
  qed
qed

end
