(* ===== verification/Pvr_Ra_Thms.thy ===== *)
theory Pvr_Ra_Thms
  imports Pvr_Ra_Insert
begin

text \<open>
  The exported operations of \<^verbatim>\<open>src/pvr/ra.c\<close>: every call on a well-formed arena returns (no
  stray access, no endless loop) and keeps the arena well-formed; an allocation hands out an
  aligned block that overlaps no live block, a free takes back exactly the block it names.
\<close>

definition arena_inv :: "RA_ARENA \<Rightarrow> bool" where
  "arena_inv a \<longleftrightarrow> ra_ok a \<and> hash_ok a \<and> maps_ok a"

text \<open>The blocks handed out, as (base, size, mapping).\<close>

definition blocks :: "RA_ARENA \<Rightarrow> (u32 \<times> u32 \<times> ptr) set" where
  "blocks a = {(it_base x, it_size x, it_map x) | p x. live a p = Some x}"

lemma stat_cfg [simp]:
  "pImportAlloc (stat f a) = pImportAlloc a" "raw_bt (stat f a) = raw_bt a"
  "mapping_flags (stat f a) = mapping_flags a"
  by (simp_all add: stat_def)

lemma arena_inv_stat [simp]: "arena_inv (stat f a) = arena_inv a"
  by (simp add: arena_inv_def ra_ok_def hash_ok_def maps_ok_def live_entries_def)

subsection \<open>Freeing\<close>

lemma hash_free:
  assumes inv: "arena_inv a" and q: "live a q = Some x"
    and rem: "HASH_Remove (pSegmentHash a) (it_base x) km = (p, h, km')"
  shows "p = q" "hash_inv h" "key_words h = 1" "entries h = live_entries a - {#([it_base x], q)#}"
proof -
  have ho: "hash_inv (pSegmentHash a)" "key_words (pSegmentHash a) = 1" "entries (pSegmentHash a) = live_entries a"
    and ok: "ra_ok a" using inv by (auto simp: arena_inv_def hash_ok_def)
  have k: "table_key (pSegmentHash a) [it_base x]" using ho(2) by (simp add: table_key_def)
  have mem: "([it_base x], q) \<in># entries (pSegmentHash a)"
    unfolding ho(3) live_entries_mem [OF ra_ok_live(1) [OF ok]] using q by blast
  have one: "one_value (entries (pSegmentHash a)) [it_base x]" using live_one_value [OF ok] ho(3) by simp
  note rem' = rem [unfolded HASH_Remove_def]
  show "p = q" using ht.remove_stored(1) [OF ho(1) k one mem rem'] .
  show "hash_inv h" using HASH_Remove_Extended_spec(1) [OF ho(1) k rem'] .
  show "key_words h = 1"
    using HASH_Remove_Extended_spec(2) [OF ho(1) k rem'] ho(2) by (simp add: same_config_def key_words_def)
  show "entries h = live_entries a - {#([it_base x], q)#}"
    using ht.remove_stored(2) [OF ho(1) k one mem rem'] ho(3) by simp
qed

lemma RA_Free_spec:
  assumes inv: "arena_inv a" and q: "live a q = Some x"
    and bf: "pBackingStoreFree a = NULL \<or> \<not> bf \<or> uQuantum a \<noteq> 0"
  shows "\<exists>a' km'. RA_Free a (it_base x) bf km = Some (a', km') \<and> arena_inv a' \<and>
     live a' = (live a)(q := None) \<and> shrinks a a' \<and> cfg a' = cfg a \<and> dom (bts a') \<subseteq> dom (bts a)"
proof -
  obtain p h km' where rem: "HASH_Remove (pSegmentHash a) (it_base x) km = (p, h, km')"
    by (cases "HASH_Remove (pSegmentHash a) (it_base x) km")
  note hf = hash_free [OF inv q rem]
  obtain segs fl where rep: "ra_rep a segs fl {}" using inv by (auto simp: arena_inv_def ra_ok_def)
  define a1 where "a1 = stat (\<lambda>s. s\<lparr>uCumulativeFrees := uCumulativeFrees s + 1\<rparr>) (a\<lparr>pSegmentHash := h\<rparr>)"
  have v: "bts (a\<lparr>pSegmentHash := h\<rparr>) = bts a" by simp
  have a1: "live a1 = live a" "total a1 = total a" "maps a1 = maps a" "ra_rep a1 segs fl {}" "cfg a1 = cfg a"
    "ra_calls a1 = ra_calls a" "bts a1 = bts a" "pSegmentHash a1 = h"
    using views_cong [OF v] ra_rep_cong [of "a\<lparr>pSegmentHash := h\<rparr>" a] rep
    by (simp_all add: a1_def cfg_def)
  have ih: "pImportHandle a1 = pImportHandle a" "pBackingStoreFree a1 = pBackingStoreFree a" "uQuantum a1 = uQuantum a"
    using a1(5) by (simp_all add: cfg_def)
  have q1: "live a1 q = Some x" using q a1 by simp
  obtain a2 s2 f2 where a2: "FreeBT a1 q bf = Some a2" "ra_rep a2 s2 f2 {}" "released q a1 a2"
    using FreeBT_spec [OF a1(4) q1, of bf] bf ih by auto
  have q0: "q \<noteq> NULL" using ra_rep_live(5) [OF rep q] .
  have run: "RA_Free a (it_base x) bf km = Some (a2, km')"
    using rem hf(1) q0 a2(1) by (simp add: RA_Free_def Let_def a1_def)
  have l2: "live a2 = (live a)(q := None)" "pSegmentHash a2 = h" "maps a2 \<subseteq> maps a" "cfg a2 = cfg a"
    "dom (bts a2) \<subseteq> dom (bts a)" using a2(3) a1 by (auto simp: released_def)
  have "live_entries a = add_mset ([it_base x], q) (live_entries a2)"
    by (rule live_entries_remove [OF l2(1) q]) (use ra_ok_live(1) inv in \<open>simp add: arena_inv_def\<close>)
  then have "hash_ok a2" using hf l2(2) by (simp add: hash_ok_def)
  moreover have "maps_ok a2" using inv l2(3,4) by (auto simp: arena_inv_def maps_ok_def cfg_def)
  moreover have "shrinks a a2" using released_shrinks [OF a2(3) q1] a1 ih by (simp add: shrinks_def)
  ultimately show ?thesis using run l2 a2(2) by (auto simp: arena_inv_def ra_ok_def)
qed

lemma RA_Free_unknown:
  assumes inv: "arena_inv a" and no: "\<forall>q x. live a q = Some x \<longrightarrow> it_base x \<noteq> base"
  shows "RA_Free a base bf km = Some (a, km)"
proof -
  have ho: "hash_inv (pSegmentHash a)" "key_words (pSegmentHash a) = 1" "entries (pSegmentHash a) = live_entries a"
    and ok: "ra_ok a" using inv by (auto simp: arena_inv_def hash_ok_def)
  have k: "table_key (pSegmentHash a) [base]" using ho(2) by (simp add: table_key_def)
  have "\<not> stores_key (entries (pSegmentHash a)) [base]"
    unfolding ho(3) stores_key_def live_entries_mem [OF ra_ok_live(1) [OF ok]] using no by blast
  then have "HASH_Remove (pSegmentHash a) base km = (0, pSegmentHash a, km)"
    using ht.remove_miss [OF ho(1) k] by (simp add: HASH_Remove_def)
  then show ?thesis by (simp add: RA_Free_def)
qed

subsection \<open>Adding resources\<close>

lemma remap_spec:
  assumes ok: "ra_ok a" and p: "data a p = Some x" "it_typ x = btt_free"
  shows "\<exists>a'. upd_bt p (\<lambda>b. b\<lparr>psMapping := m\<rparr>) a = Some a' \<and> ra_ok a' \<and> live a' = live a \<and>
     total a' = total a \<and> data a' = (data a)(p \<mapsto> (btt_free, it_base x, it_size x, m)) \<and>
     dom (bts a') = dom (bts a) \<and> same_rest a a'"
proof -
  obtain segs fl where rep: "ra_rep a segs fl {}" using ok by (auto simp: ra_ok_def)
  note r = ra_repD [OF rep]
  obtain b where b: "bts a p = Some b" "bt_item b = x" using p(1) by (auto simp: data_def)
  define a' where "a' = a\<lparr>bts := (bts a)(p \<mapsto> b\<lparr>psMapping := m\<rparr>)\<rparr>"
  let ?y = "(btt_free, it_base x, it_size x, m)"
  have v: "segh a' = segh a" "freeh a' = freeh a" using b by (auto simp: a'_def views fun_eq_iff)
  have bx: "bt_typ b = btt_free" "bt_base b = it_base x" "bt_uSize b = it_size x"
    using p(2) unfolding b(2) [symmetric] by (simp_all add: bt_item_sel)
  have d: "data a' = (data a)(p \<mapsto> ?y)" using bx by (auto simp: a'_def data_def bt_item_def fun_eq_iff)
  have ia: "item_at a' = (item_at a)(p := ?y)" by (rule item_at_upd [OF d])
  have ix: "item_at a p = x" using p(1) by (simp add: item_at_def)
  have "p \<in> dom (data a)" using p(1) by blast
  then have ps: "p \<in> set segs" using r(3) by simp
  obtain xs ys where segs: "segs = xs @ p # ys" using split_list [OF ps] by auto
  have np: "p \<notin> set xs" "p \<notin> set ys" using r(7) segs by auto
  have sp: "\<not> is_span x" using p(2) by (simp add: is_span_def)
  have sel: "it_typ ?y = btt_free" "it_size ?y = it_size x" "it_base ?y = it_base x" by (simp_all add: it_defs)
  have "layout (map (item_at a) xs @ ?y # map (item_at a) ys)"
  proof (rule layout_replace [of _ x])
    show "layout (map (item_at a) xs @ x # map (item_at a) ys)" using r(6) ix segs by simp
  qed (use sp sel ra_rep_ok [OF rep ps] ix in \<open>simp_all add: is_span_def lo_def hi_def ok_item_def\<close>)
  then have lay: "layout (map (item_at a') segs)" using np by (simp add: ia segs map_item_upd)
  have dom: "dom (bts a') = dom (bts a)" using b(1) by (auto simp: a'_def)
  have "set (concat fl) = {q \<in> set segs. it_typ (item_at a' q) = btt_free} - {}"
    unfolding r(4) using ix p(2) sel by (auto simp: ia)
  moreover have "\<forall>i < FREE_TABLE_LIMIT. \<forall>q \<in> set (fl ! i). size_class (it_size (item_at a' q)) = i"
    using r(5) ix sel by (auto simp: ia)
  moreover have "seg_chain a' segs" "free_chains a' fl"
    using r(1,2) v by (simp_all add: seg_chain_def free_chains_def a'_def)
  ultimately have "ra_rep a' segs fl {}" using lay dom r(3) by (simp only: ra_rep_def)
  moreover have "live a' = live a" using d p sel by (auto simp: live_def fun_eq_iff)
  moreover have "total a' = total a"
    by (rule total_replace [OF p(1) d]) (use sp sel in \<open>simp add: bytes_def lo_def hi_def is_span_def\<close>)
  moreover have "same_rest a a'" by (simp add: a'_def same_rest_def cfg_def)
  ultimately show ?thesis using b(1) d dom by (auto simp: a'_def [symmetric] ra_ok_def)
qed

lemma added_remap:
  assumes ad: "added a a1 p (btt_free, base, s, m0)" and inv: "arena_inv a"
    and m: "m = NULL \<or> m \<in> dom (mapping_flags a)"
  shows "\<exists>a2. upd_bt p (\<lambda>b. b\<lparr>psMapping := m\<rparr>) a1 = Some a2 \<and> arena_inv a2 \<and> live a2 = live a \<and>
     total a2 = total a \<union> block base s \<and> data a2 p = Some (btt_free, base, s, m) \<and>
     pSegmentHash a2 = pSegmentHash a \<and> ra_calls a2 = ra_calls a \<and> cfg a2 = cfg a \<and>
     dom (bts a2) = dom (bts a1)"
proof -
  let ?x = "(btt_free, base, s, m0)"
  have a1: "ra_ok a1" "live a1 = live a" "total a1 = total a \<union> bytes ?x" "data a1 p = Some ?x"
    "\<forall>q y. data a1 q = Some y \<longrightarrow> q = p \<or> data a q = Some y \<or> it_map y = NULL"
    "pSegmentHash a1 = pSegmentHash a" "ra_calls a1 = ra_calls a" "cfg a1 = cfg a"
    using ad unfolding added_def by blast+
  obtain a2 where a2: "upd_bt p (\<lambda>b. b\<lparr>psMapping := m\<rparr>) a1 = Some a2" "ra_ok a2" "live a2 = live a1"
    "total a2 = total a1" "data a2 = (data a1)(p \<mapsto> (btt_free, base, s, m))" "dom (bts a2) = dom (bts a1)" "same_rest a1 a2"
    using remap_spec [OF a1(1,4), of m] by (auto simp: it_defs)
  have cf: "cfg a2 = cfg a" "pSegmentHash a2 = pSegmentHash a" using a2(7) a1 by (auto simp: same_rest_def)
  have "maps_ok a2"
  proof -
    have "it_map y \<in> insert NULL (dom (mapping_flags a))" if q: "data a2 q = Some y" for q y
    proof (cases "q = p")
      case True
      then have "y = (btt_free, base, s, m)" using q a2(5) by simp
      then show ?thesis using m by (auto simp: it_map_def)
    next
      case False
      then have "data a1 q = Some y" using q a2(5) by simp
      then have "data a q = Some y \<or> it_map y = NULL" using a1(5) False by blast
      then show ?thesis using maps_at [of a q y] inv by (auto simp: arena_inv_def maps_ok_def)
    qed
    then have "maps a2 \<subseteq> insert NULL (dom (mapping_flags a))" unfolding maps_def ran_def by blast
    moreover have "mapping_flags a2 = mapping_flags a" using cf(1) by (simp add: cfg_def)
    ultimately show ?thesis unfolding maps_ok_def by (simp only:)
  qed
  moreover have "hash_ok a2" using inv a2(3) a1(2) cf(2) by (simp add: arena_inv_def hash_ok_def live_entries_def)
  moreover have "bytes ?x = block base s" by (simp add: bytes_def lo_def hi_def is_span_def it_defs block_def)
  ultimately show ?thesis using a2 a1 cf by (simp add: arena_inv_def same_rest_def)
qed

lemma RA_Create_spec:
  fixes size' quantum :: u32
  defines "s \<equiv> (size' + quantum - 1) div quantum * quantum"
  assumes q: "size' > 0 \<Longrightarrow> quantum \<noteq> 0 \<and> s \<noteq> 0 \<and> unat base + unat s < 2 ^ 32"
    and km: "distinct (filter (\<lambda>q. q \<noteq> NULL) km)" and m: "m = NULL \<or> m \<in> dom flags"
  shows "\<exists>r km'. RA_Create base size' m quantum imp bsf hdl raw flags km = Some (r, km') \<and>
     (\<forall>a. r = Some a \<longrightarrow> arena_inv a \<and> live a = Map.empty \<and>
        total a = (if size' > 0 then block base s else {}) \<and> uQuantum a = quantum)"
proof -
  obtain e p km1 where o: "OSAllocMem km = (e, p, km1)" by (cases "OSAllocMem km")
  obtain r2 km2 where h: "HASH_Create MINIMUM_HASH_SIZE km1 = (r2, km2)" by (cases "HASH_Create MINIMUM_HASH_SIZE km1")
  show ?thesis
  proof (cases "e \<noteq> PVRSRV_OK \<or> r2 = None")
    case True
    then show ?thesis using o h by (auto simp: RA_Create_def)
  next
    case False
    then obtain t where t: "e = PVRSRV_OK" "r2 = Some t" by auto
    define a0 where "a0 = \<lparr>uQuantum = quantum,
      pImportAlloc = (if imp \<noteq> NULL then ImportFn imp else RequestAllocFail),
      pBackingStoreFree = bsf, pImportHandle = hdl, aHeadFree = replicate FREE_TABLE_LIMIT NULL,
      pHeadSegment = NULL, pTailSegment = NULL, pSegmentHash = t,
      sStatistics = zero_statistics, bts = Map.empty, raw_bt = raw, mapping_flags = flags, ra_calls = []\<rparr>"
    have d0: "data a0 = Map.empty" "live a0 = Map.empty" "total a0 = {}" "maps a0 = {}"
      by (auto simp: a0_def data_def live_def total_def maps_def)
    have "hash_inv t" "entries t = {#}" "key_words t = 1"
      using HASH_Create_Extended_inv [OF h [unfolded t(2) HASH_Create_def]] by (auto simp: MINIMUM_HASH_SIZE_def)
    moreover have "ra_rep a0 [] (replicate FREE_TABLE_LIMIT []) {}"
      by (auto simp: ra_rep_def seg_chain_def free_chains_def a0_def layout_def concat_replicate_trivial)
    ultimately have inv0: "arena_inv a0"
      by (auto simp: arena_inv_def ra_ok_def hash_ok_def maps_ok_def live_entries_def d0) (auto simp: a0_def)
    have "\<exists>n. km2 = drop n km"
      using OSAllocMem_drop [OF o] h
      by (auto simp: HASH_Create_def HASH_Create_Extended_def dest!: OSAllocMem_drop split: prod.splits if_splits)
    moreover have "fresh a0 km" using km by (simp add: fresh_def a0_def)
    ultimately have fr: "fresh a0 km2" using fresh_drop by auto
    show ?thesis
    proof (cases "size' > 0")
      case F: False
      then have "RA_Create base size' m quantum imp bsf hdl raw flags km = Some (Some a0, km2)"
        using o h t by (simp add: RA_Create_def a0_def)
      then show ?thesis using inv0 d0 F by (auto simp: a0_def)
    next
      case T: True
      have blk: "block_ok a0 base s" using q [OF T] d0 by (simp add: block_ok_def)
      obtain p a1 km3 where i: "InsertResource a0 base s km2 = Some (p, a1, km3)"
        "p = NULL \<and> a1 = a0 \<or> p \<noteq> NULL \<and> added a0 a1 p (btt_free, base, s, psMapping (raw_bt a0 p))"
        using InsertResource_spec [OF _ fr blk] inv0 by (auto simp: arena_inv_def)
      have run: "RA_Create base size' m quantum imp bsf hdl raw flags km =
          (if p = NULL then Some (None, km3)
           else do { a2 \<leftarrow> upd_bt p (\<lambda>b. b\<lparr>psMapping := m\<rparr>) a1; Some (Some a2, km3) })"
        using o h t T q [OF T] i(1) by (simp add: RA_Create_def a0_def s_def)
      show ?thesis
      proof (cases "p = NULL")
        case True
        then show ?thesis using run by simp
      next
        case False
        have "m = NULL \<or> m \<in> dom (mapping_flags a0)" using m by (simp add: a0_def)
        then obtain a2 where a2: "upd_bt p (\<lambda>b. b\<lparr>psMapping := m\<rparr>) a1 = Some a2" "arena_inv a2"
          "live a2 = live a0" "total a2 = total a0 \<union> block base s" "cfg a2 = cfg a0"
          using added_remap [OF _ inv0, of a1 p base s] i(2) False by blast
        then show ?thesis using run False d0 T by (simp add: cfg_def a0_def)
      qed
    qed
  qed
qed

subsection \<open>Allocating\<close>

lemma good_inv: "arena_inv a \<Longrightarrow> good a a' \<Longrightarrow> arena_inv a'"
  by (auto simp: arena_inv_def good_def maps_ok_def cfg_def)

lemma arena_inv_calls: "arena_inv a \<Longrightarrow> arena_inv (a\<lparr>ra_calls := cs\<rparr>)" "live (a\<lparr>ra_calls := cs\<rparr>) = live a"
proof -
  let ?b = "a\<lparr>ra_calls := cs\<rparr>"
  have v: "bts ?b = bts a" by simp
  show "live ?b = live a" by (rule views_cong(5) [OF v])
  show "arena_inv ?b" if "arena_inv a"
    using that views_cong [OF v] ra_rep_cong [of ?b a]
    by (simp add: arena_inv_def ra_ok_def hash_ok_def maps_ok_def live_entries_def)
qed

text \<open>
  What the arena relies on about its owner's import function: a block it answers is new to the
  arena, ends inside the address space with room for the alignment, and its mapping exists.
\<close>

definition import_ok :: "import_env \<Rightarrow> RA_ARENA \<Rightarrow> u32 \<Rightarrow> u32 \<Rightarrow> u32 \<Rightarrow> bool" where
  "import_ok imp a s f al \<longleftrightarrow> (\<forall>n sz m b. call_import imp a n f = Some (sz, m, b) \<longrightarrow>
     block_ok a b sz \<and> (\<forall>k \<in> block b sz. k + unat al + unat s < 2 ^ 32) \<and>
     (m = NULL \<or> m \<in> dom (mapping_flags a)))"

definition alloc_result :: "RA_ARENA \<Rightarrow> u32 \<Rightarrow> u32 \<Rightarrow> u32 \<Rightarrow> (ptr \<times> u32) option \<Rightarrow> RA_ARENA \<Rightarrow> bool" where
  "alloc_result a s f al r a' \<longleftrightarrow> (case r of
     None \<Rightarrow> live a' = live a
   | Some (m, start) \<Rightarrow> aligned al (unat start) \<and> (m = NULL \<or> mapping_flags a m = Some f) \<and>
       (\<exists>q. live a q = None \<and> live a' = (live a)(q \<mapsto> (btt_live, start, s, m))))"

lemma attempt_result:
  assumes inv: "arena_inv a" and room': "table_roomy (pSegmentHash a)" and fr: "fresh a km"
    and rq: "request_ok a s al"
  shows "\<exists>r a' km'. AttemptAllocAligned a s f al km = Some (r, a', km') \<and> arena_inv a' \<and> fresh a' km' \<and>
     alloc_result a s f al r a' \<and> cfg a' = cfg a \<and> total a' \<subseteq> total a \<and>
     (r = None \<longrightarrow> pSegmentHash a' = pSegmentHash a) \<and>
     (if room a s f al then mem_supply 3 km \<longrightarrow> r \<noteq> None else r = None \<and> a' = a \<and> km' = km)"
proof -
  have ok: "ra_ok a" "maps_ok a" "hash_ok a" using inv by (auto simp: arena_inv_def)
  obtain r a' km' where t: "AttemptAllocAligned a s f al km = Some (r, a', km')" "good a a'" "fresh a' km'"
    "room a s f al \<and> mem_supply 3 km \<longrightarrow> r \<noteq> None"
    "if room a s f al
      then r = None \<and> refused a a' \<or>
           (\<exists>q m start p x. r = Some (m, start) \<and> granted a a' q (btt_live, start, s, m) \<and>
              aligned al (unat start) \<and> data a p = Some x \<and> it_typ x = btt_free \<and>
              bytes (btt_live, start, s, m) \<subseteq> bytes x \<and> it_map x = m \<and> flags_match a f x)
      else r = None \<and> a' = a \<and> km' = km"
    using AttemptAllocAligned_spec [OF ok room' fr rq, of f] by blast
  have inv': "arena_inv a'" "cfg a' = cfg a" using good_inv [OF inv t(2)] t(2) by (auto simp: good_def)
  consider (no) "\<not> room a s f al" "r = None" "a' = a" "km' = km" | (ref) "room a s f al" "r = None" "refused a a'"
    | (yes) q m start x where "room a s f al" "r = Some (m, start)" "granted a a' q (btt_live, start, s, m)"
      "aligned al (unat start)" "it_map x = m" "flags_match a f x"
    using t(5) by (auto split: if_splits)
  then show ?thesis
  proof cases
    case no
    then show ?thesis using t inv' by (auto simp: alloc_result_def)
  next
    case ref
    then have "total a' \<subseteq> total a" by (auto simp: refused_def shrinks_def)
    then show ?thesis using ref t inv' by (auto simp: alloc_result_def refused_def)
  next
    case yes
    then show ?thesis using t inv' by (auto simp: alloc_result_def granted_def flags_match_def)
  qed
qed

text \<open>The part of \<open>RA_Alloc\<close> that imports a new span, after the first attempt has failed.\<close>

definition import_size :: "RA_ARENA \<Rightarrow> u32 \<Rightarrow> u32 \<Rightarrow> u32" where
  "import_size a s al = ((if al > uQuantum a then s + (al - 1) else s) + uQuantum a - 1)
     div uQuantum a * uQuantum a"

text \<open>The addresses that the owner answers when the arena asks it for more.\<close>

definition imported :: "import_env \<Rightarrow> RA_ARENA \<Rightarrow> u32 \<Rightarrow> u32 \<Rightarrow> u32 \<Rightarrow> nat set" where
  "imported imp a s f al =
     (case call_import imp a (import_size a s al) f of None \<Rightarrow> {} | Some (n, m, b) \<Rightarrow> block b n)"

lemma import_result:
  assumes inv: "arena_inv a" and room': "table_roomy (pSegmentHash a)" and fr: "fresh a km"
    and rq: "request_ok a s al" and blk: "block_ok a b sz" "\<forall>k \<in> block b sz. k + unat al + unat s < 2 ^ 32"
    and m: "m = NULL \<or> m \<in> dom (mapping_flags a)"
  shows "\<exists>p a2 km2. InsertResourceSpan a b sz km = Some (p, a2, km2) \<and>
     (p = NULL \<and> a2 = a \<and> \<not> mem_supply 6 km \<or> p \<noteq> NULL \<and> (\<exists>a3. upd_bt p (\<lambda>b. b\<lparr>psMapping := m\<rparr>) a2 = Some a3 \<and>
        (\<forall>g. \<exists>r a' km'. AttemptAllocAligned (stat g a3) s f al km2 = Some (r, a', km') \<and> arena_inv a' \<and>
           fresh a' km' \<and> alloc_result a s f al r a' \<and> cfg a' = cfg a \<and> total a' \<subseteq> total a \<union> block b sz \<and>
           (room_in (btt_free, b, sz, m) s al \<and> (m = NULL \<or> mapping_flags a m = Some f) \<and> mem_supply 6 km
            \<longrightarrow> r \<noteq> None))))"
proof -
  have ok: "ra_ok a" using inv by (simp add: arena_inv_def)
  obtain p a2 km2 where i: "InsertResourceSpan a b sz km = Some (p, a2, km2)" "fresh a2 km2"
    "mem_supply (Suc (Suc (Suc 3))) km \<longrightarrow> p \<noteq> NULL \<and> mem_supply 3 km2"
    "p = NULL \<and> a2 = a \<or> p \<noteq> NULL \<and> added a a2 p (btt_free, b, sz, psMapping (raw_bt a p))"
    using InsertResourceSpan_spec [OF ok fr blk(1), of 3] by blast
  have six: "Suc (Suc (Suc 3)) = 6" by simp
  show ?thesis
  proof (cases "p = NULL")
    case True
    then show ?thesis using i six by auto
  next
    case False
    then have ad: "added a a2 p (btt_free, b, sz, psMapping (raw_bt a p))" using i(4) by blast
    obtain a3 where a3: "upd_bt p (\<lambda>b. b\<lparr>psMapping := m\<rparr>) a2 = Some a3" "arena_inv a3" "live a3 = live a"
      "total a3 = total a \<union> block b sz" "data a3 p = Some (btt_free, b, sz, m)"
      "pSegmentHash a3 = pSegmentHash a" "cfg a3 = cfg a" "dom (bts a3) = dom (bts a2)"
      using added_remap [OF ad inv m] by blast
    have fl: "mapping_flags a3 = mapping_flags a" using a3(7) by (simp add: cfg_def)
    have "\<exists>r a' km'. AttemptAllocAligned (stat g a3) s f al km2 = Some (r, a', km') \<and> arena_inv a' \<and>
           fresh a' km' \<and> alloc_result a s f al r a' \<and> cfg a' = cfg a \<and> total a' \<subseteq> total a \<union> block b sz \<and>
           (room_in (btt_free, b, sz, m) s al \<and> (m = NULL \<or> mapping_flags a m = Some f) \<and> mem_supply 6 km
            \<longrightarrow> r \<noteq> None)" for g
    proof -
      have pre: "arena_inv (stat g a3)" "table_roomy (pSegmentHash (stat g a3))" "fresh (stat g a3) km2"
        "request_ok (stat g a3) s al"
        using a3 room' fresh_dom [OF i(2), of a3] rq blk(2) by (auto simp: request_ok_def)
      obtain r a' km' where t: "AttemptAllocAligned (stat g a3) s f al km2 = Some (r, a', km')" "arena_inv a'"
        "fresh a' km'" "alloc_result (stat g a3) s f al r a'" "cfg a' = cfg (stat g a3)" "total a' \<subseteq> total (stat g a3)"
        "if room (stat g a3) s f al then mem_supply 3 km2 \<longrightarrow> r \<noteq> None else r = None \<and> a' = stat g a3 \<and> km' = km2"
        using attempt_result [OF pre, of f] by blast
      have "room (stat g a3) s f al" if "room_in (btt_free, b, sz, m) s al" "m = NULL \<or> mapping_flags a m = Some f"
      proof -
        have "flags_match (stat g a3) f (btt_free, b, sz, m)"
          using that(2) fl by (auto simp: flags_match_def it_map_def)
        then show ?thesis using a3(5) that(1) unfolding room_def stat_views by (auto simp: it_typ_def)
      qed
      then have "room_in (btt_free, b, sz, m) s al \<and> (m = NULL \<or> mapping_flags a m = Some f) \<and> mem_supply 6 km
          \<longrightarrow> r \<noteq> None"
        using t(7) i(3) six by (auto split: if_splits)
      moreover have "alloc_result a s f al r a'"
        using t(4) a3(3) fl by (simp add: alloc_result_def split: option.splits prod.splits)
      ultimately show ?thesis using t a3(4,7) by auto
    qed
    then show ?thesis using i(1) False a3(1) by blast
  qed
qed

lemma RA_Alloc_spec:
  assumes inv: "arena_inv a" and room': "table_roomy (pSegmentHash a)" and fr: "fresh a km"
    and rq: "request_ok a s al" and q: "uQuantum a \<noteq> 0" and imp: "import_ok imp a s f al"
  shows "\<exists>r a' km'. RA_Alloc imp a s f al km = Some (r, a', km') \<and> arena_inv a' \<and>
     alloc_result a s f al r a' \<and> cfg a' = cfg a \<and> total a' \<subseteq> total a \<union> imported imp a s f al \<and>
     (room a s f al \<and> mem_supply 3 km \<longrightarrow> r \<noteq> None) \<and>
     (\<not> room a s f al \<and> mem_supply 6 km \<and> (\<exists>sz m b. call_import imp a (import_size a s al) f = Some (sz, m, b) \<and>
        room_in (btt_free, b, sz, m) s al \<and> (m = NULL \<or> mapping_flags a m = Some f)) \<longrightarrow> r \<noteq> None)"
proof -
  obtain r1 a1 km1 where t: "AttemptAllocAligned a s f al km = Some (r1, a1, km1)" "arena_inv a1"
    "fresh a1 km1" "alloc_result a s f al r1 a1" "cfg a1 = cfg a" "total a1 \<subseteq> total a"
    "r1 = None \<longrightarrow> pSegmentHash a1 = pSegmentHash a"
    "if room a s f al then mem_supply 3 km \<longrightarrow> r1 \<noteq> None else r1 = None \<and> a1 = a \<and> km1 = km"
    using attempt_result [OF inv room' fr rq, of f] by blast
  show ?thesis
  proof (cases "r1 = None")
    case False
    then show ?thesis using t by (auto simp: RA_Alloc_def alloc_result_def split: option.splits if_splits)
  next
    case True
    have c1: "uQuantum a1 = uQuantum a" "mapping_flags a1 = mapping_flags a" "pImportAlloc a1 = pImportAlloc a"
      "pImportHandle a1 = pImportHandle a" using t(5) by (auto simp: cfg_def)
    have l1: "live a1 = live a" using t(4) True by (simp add: alloc_result_def)
    have ci: "call_import imp a1 n f = call_import imp a n f" for n
      using c1 by (cases "pImportAlloc a") (simp_all add: call_import_def)
    have sz: "import_size a1 s al = import_size a s al" using c1 by (simp add: import_size_def)
    show ?thesis
    proof (cases "call_import imp a (import_size a s al) f")
      case None
      then have "RA_Alloc imp a s f al km = Some (None, a1, km1)"
        using t(1) True c1(1) q ci sz by (simp add: RA_Alloc_def Let_def import_size_def)
      then show ?thesis using t True None by (auto split: if_splits)
    next
      case (Some res)
      obtain n m b where res: "res = (n, m, b)" by (cases res)
      note io = imp [unfolded import_ok_def, rule_format, OF Some [unfolded res]]
      have blk: "block_ok a1 b n" "\<forall>k \<in> block b n. k + unat al + unat s < 2 ^ 32"
        "m = NULL \<or> m \<in> dom (mapping_flags a1)" using io t(6) c1(2) by (auto simp: block_ok_def)
      have rq1: "request_ok a1 s al" using rq t(6) by (auto simp: request_ok_def)
      have rm1: "table_roomy (pSegmentHash a1)" using t(7) True room' by simp
      from import_result [OF t(2) rm1 t(3) rq1 blk, of f]
      obtain p a2 km2 where i: "InsertResourceSpan a1 b n km1 = Some (p, a2, km2)"
        "p = NULL \<and> a2 = a1 \<and> \<not> mem_supply 6 km1 \<or> p \<noteq> NULL \<and> (\<exists>a3. upd_bt p (\<lambda>b. b\<lparr>psMapping := m\<rparr>) a2 = Some a3 \<and>
        (\<forall>g. \<exists>r a' km'. AttemptAllocAligned (stat g a3) s f al km2 = Some (r, a', km') \<and> arena_inv a' \<and>
           fresh a' km' \<and> alloc_result a1 s f al r a' \<and> cfg a' = cfg a1 \<and> total a' \<subseteq> total a1 \<union> block b n \<and>
           (room_in (btt_free, b, n, m) s al \<and> (m = NULL \<or> mapping_flags a1 m = Some f) \<and> mem_supply 6 km1
            \<longrightarrow> r \<noteq> None)))"
        by blast
      have sup: "room a s f al \<Longrightarrow> \<not> mem_supply 3 km" "\<not> room a s f al \<Longrightarrow> km1 = km"
        using t(8) True by (auto split: if_splits)
      show ?thesis
      proof (cases "p = NULL")
        case p0: True
        have tt: "total (a1\<lparr>ra_calls := x\<rparr>) = total a1" for x by (rule views_cong(6)) simp
        have "RA_Alloc imp a s f al km = Some (None, a1\<lparr>ra_calls := ra_calls a1 @
            [ImportFree (pImportHandle a1) b m]\<rparr>, km2)"
          using t(1) True c1(1) q ci sz Some res i p0 by (simp add: RA_Alloc_def Let_def import_size_def)
        then show ?thesis using arena_inv_calls(1) [OF t(2)] arena_inv_calls(2) t(5,6) l1 sup i(2) p0 tt
          by (auto simp: alloc_result_def cfg_def)
      next
        case pn: False
        obtain a3 where a3: "upd_bt p (\<lambda>b. b\<lparr>psMapping := m\<rparr>) a2 = Some a3"
          "\<And>g. \<exists>r a' km'. AttemptAllocAligned (stat g a3) s f al km2 = Some (r, a', km') \<and> arena_inv a' \<and>
           fresh a' km' \<and> alloc_result a1 s f al r a' \<and> cfg a' = cfg a1 \<and> total a' \<subseteq> total a1 \<union> block b n \<and>
           (room_in (btt_free, b, n, m) s al \<and> (m = NULL \<or> mapping_flags a1 m = Some f) \<and> mem_supply 6 km1
            \<longrightarrow> r \<noteq> None)"
          using i(2) pn by blast
        let ?g = "\<lambda>s. s\<lparr>uFreeSegmentCount := uFreeSegmentCount s + 1,
            uFreeResourceCount := uFreeResourceCount s + n, uImportCount := uImportCount s + 1,
            uSpanCount := uSpanCount s + 1\<rparr>"
        obtain r a' km' where r: "AttemptAllocAligned (stat ?g a3) s f al km2 = Some (r, a', km')" "arena_inv a'"
          "alloc_result a1 s f al r a'" "cfg a' = cfg a1"
          "room_in (btt_free, b, n, m) s al \<and> (m = NULL \<or> mapping_flags a1 m = Some f) \<and> mem_supply 6 km1
            \<longrightarrow> r \<noteq> None"
          "total a' \<subseteq> total a1 \<union> block b n"
          using a3(2) [of ?g] by blast
        have tot: "total a' \<subseteq> total a \<union> imported imp a s f al"
          using r(6) t(6) Some res by (auto simp: imported_def)
        have "\<exists>a''. RA_Alloc imp a s f al km = Some (r, a'', km') \<and> (\<exists>f. a'' = stat f a' \<or> a'' = a')"
          using t(1) True c1(1) q ci sz Some res i(1) pn a3(1) r(1)
          by (auto simp: RA_Alloc_def Let_def import_size_def)
        then obtain a'' where a'': "RA_Alloc imp a s f al km = Some (r, a'', km')"
          "arena_inv a''" "live a'' = live a'" "cfg a'' = cfg a'" "total a'' = total a'" using r(2) by auto
        have "alloc_result a s f al r a''"
          using r(3) l1 c1(2) a''(3) by (simp add: alloc_result_def split: option.splits prod.splits)
        then show ?thesis using a'' r(4,5) t(5) sup Some res c1(2) tot by auto
      qed
    qed
  qed
qed

subsection \<open>Deleting and walking an arena\<close>

lemma RA_Delete_chain:
  assumes "seg_chain a segs" "dom (bts a) = set segs"
  shows "\<exists>a'. RA_Delete a = Some a' \<and> bts a' = Map.empty"
  using assms
proof (induction segs arbitrary: a)
  case Nil
  then show ?case by (subst RA_Delete.simps) (simp add: seg_chain_def)
next
  case (Cons p segs)
  let ?a0 = "a\<lparr>aHeadFree := replicate FREE_TABLE_LIMIT NULL\<rparr>"
  have h: "pHeadSegment a = p" "p \<noteq> NULL" "p \<notin> set segs" using Cons.prems(1) by (auto simp: seg_chain_def)
  have "seg_chain ?a0 ([] @ p # segs)" using Cons.prems(1) by (simp add: seg_chain_def segh_def)
  from SegmentListRemove_spec [OF this] obtain a1 where a1: "SegmentListRemove ?a0 p = Some a1"
    "seg_chain a1 segs" "data a1 = data ?a0" by auto
  have dom1: "dom (bts a1) = set (p # segs)" using dom_bts_data [OF a1(3)] Cons.prems(2) by simp
  then obtain b where b: "bts a1 p = Some b" by auto
  let ?a2 = "a1\<lparr>bts := (bts a1)(p := None)\<rparr>"
  have "seg_chain ?a2 segs" by (rule seg_chain_drop [OF a1(2) _ h(3)]) (auto simp: segh_def)
  then have c: "seg_chain (stat f ?a2) segs" for f by (simp add: seg_chain_def)
  have "dom (bts (stat f ?a2)) = set segs" for f using dom1 h(3) by auto
  then obtain a' where a': "RA_Delete (stat (\<lambda>s. s\<lparr>uSpanCount := uSpanCount s - 1\<rparr>) ?a2) = Some a'"
    "bts a' = Map.empty" using Cons.IH [OF c] by blast
  have "RA_Delete a = Some a'" using h a1(1) b a'(1) by (subst RA_Delete.simps) simp
  then show ?case using a'(2) by blast
qed

definition live_at :: "RA_ARENA \<Rightarrow> ptr \<Rightarrow> bool" where
  "live_at a p \<longleftrightarrow> it_typ (item_at a p) = btt_live"

lemma next_live_spec:
  assumes "seg_chain a (xs @ ys)"
  shows "next_live a (hdd NULL ys) = Some (case dropWhile (\<lambda>p. \<not> live_at a p) ys of
      [] \<Rightarrow> (False, \<lparr>sd_uiSize = 0, sd_sCpuPhyAddr = 0, sd_hSegment = - 1\<rparr>)
    | p # zs \<Rightarrow> (True, \<lparr>sd_uiSize = it_size (item_at a p), sd_sCpuPhyAddr = it_base (item_at a p),
                      sd_hSegment = hdd NULL zs\<rparr>))"
  using assms
proof (induction ys arbitrary: xs)
  case Nil
  then show ?case by (subst next_live.simps) simp
next
  case (Cons p ys)
  obtain b where b: "bts a p = Some b" "pNextSegment b = hdd NULL ys" using seg_chain_mid [OF Cons.prems] by auto
  have "p \<noteq> NULL" using Cons.prems by (auto simp: seg_chain_def)
  then show ?case using b Cons.IH [of "xs @ [p]"] Cons.prems
    by (subst next_live.simps) (simp add: live_at_def item_at_sel [OF b(1)])
qed

end
