(* ===== verification/Pvr_Ra_Props.thy ===== *)
theory Pvr_Ra_Props
  imports Pvr_Ra_Thms
begin

text \<open>
  What the users of the resource arenas rely on, in terms of the blocks they hold: the
  properties of the exported operations, over arenas reached by any sequence of calls.
\<close>

lemma blocks_insert:
  assumes "live a' = (live a)(q \<mapsto> x)" "live a q = None"
  shows "blocks a' = insert (it_base x, it_size x, it_map x) (blocks a)"
proof (rule set_eqI, rule iffI)
  fix t assume "t \<in> blocks a'"
  then obtain p y where y: "live a' p = Some y" "t = (it_base y, it_size y, it_map y)"
    unfolding blocks_def by blast
  then have "y = x \<or> live a p = Some y" using assms(1) by (cases "p = q") simp_all
  then show "t \<in> insert (it_base x, it_size x, it_map x) (blocks a)" using y(2) unfolding blocks_def by blast
next
  fix t assume "t \<in> insert (it_base x, it_size x, it_map x) (blocks a)"
  then consider "t = (it_base x, it_size x, it_map x)"
    | p y where "live a p = Some y" "t = (it_base y, it_size y, it_map y)" unfolding blocks_def by blast
  then show "t \<in> blocks a'"
  proof cases
    case 1
    moreover have "live a' q = Some x" using assms(1) by simp
    ultimately show ?thesis unfolding blocks_def by blast
  next
    case 2
    then have "live a' p = Some y" using assms by auto
    then show ?thesis using 2(2) unfolding blocks_def by blast
  qed
qed

lemma blocks_member:
  assumes "(b, n, m) \<in> blocks a"
  obtains q x where "live a q = Some x" "it_base x = b" "it_size x = n" "it_map x = m" "bytes x = block b n"
proof -
  obtain q x where x: "live a q = Some x" "it_base x = b" "it_size x = n" "it_map x = m"
    using assms unfolding blocks_def by blast
  then have "bytes x = block b n" by (simp add: live_iff bytes_def lo_def hi_def is_span_def block_def)
  with x show ?thesis using that by blast
qed

lemma live_in_blocks: "live a q = Some x \<Longrightarrow> (it_base x, it_size x, it_map x) \<in> blocks a"
  unfolding blocks_def by blast

lemma blocks_remove:
  assumes ok: "ra_ok a" and q: "live a q = Some x" and l: "live a' = (live a)(q := None)"
  shows "blocks a' = blocks a - {(it_base x, it_size x, it_map x)}"
proof -
  have "live a = (live a')(q \<mapsto> x)" "live a' q = None" using q l by (auto simp: fun_upd_idem)
  then have i: "blocks a = insert (it_base x, it_size x, it_map x) (blocks a')" by (rule blocks_insert)
  have "(it_base x, it_size x, it_map x) \<notin> blocks a'"
  proof
    assume "(it_base x, it_size x, it_map x) \<in> blocks a'"
    then obtain p y where y: "live a' p = Some y" "it_base y = it_base x" by (rule blocks_member) blast
    then have "p \<noteq> q" "live a p = Some y" using l by (auto split: if_splits)
    then show False using live_keys_differ [OF ok _ q, of p y] y(2) by blast
  qed
  with i show ?thesis by blast
qed

lemma blocks_disjoint:
  assumes ok: "ra_ok a" and b: "(b, n, m) \<in> blocks a" "(b', n', m') \<in> blocks a" "(b, n, m) \<noteq> (b', n', m')"
  shows "block b n \<inter> block b' n' = {}"
proof -
  obtain p x where x: "live a p = Some x" "it_base x = b" "it_size x = n" "it_map x = m" "bytes x = block b n"
    using b(1) by (rule blocks_member)
  obtain q y where y: "live a q = Some y" "it_base y = b'" "it_size y = n'" "it_map y = m'" "bytes y = block b' n'"
    using b(2) by (rule blocks_member)
  have "p \<noteq> q" using x y b(3) by auto
  then show ?thesis using ra_ok_live(3) [OF ok x(1) y(1)] x(5) y(5) by simp
qed

subsection \<open>Runs of an arena\<close>

definition request_hyps :: "import_env \<Rightarrow> RA_ARENA \<Rightarrow> u32 \<Rightarrow> u32 \<Rightarrow> u32 \<Rightarrow> kmem \<Rightarrow> bool" where
  "request_hyps imp a s f al km \<longleftrightarrow> table_roomy (pSegmentHash a) \<and> fresh a km \<and> request_ok a s al \<and>
     uQuantum a \<noteq> 0 \<and> import_ok imp a s f al"

definition free_hyps :: "RA_ARENA \<Rightarrow> bool \<Rightarrow> bool" where
  "free_hyps a bf \<longleftrightarrow> pBackingStoreFree a = NULL \<or> \<not> bf \<or> uQuantum a \<noteq> 0"

definition create_hyps :: "u32 \<Rightarrow> u32 \<Rightarrow> ptr \<Rightarrow> u32 \<Rightarrow> (ptr \<rightharpoonup> u32) \<Rightarrow> kmem \<Rightarrow> bool" where
  "create_hyps base size' m quantum flags km \<longleftrightarrow>
     (size' > 0 \<longrightarrow> quantum \<noteq> 0 \<and> (size' + quantum - 1) div quantum * quantum \<noteq> 0 \<and>
        unat base + unat ((size' + quantum - 1) div quantum * quantum) < 2 ^ 32) \<and>
     distinct (filter (\<lambda>q. q \<noteq> NULL) km) \<and> (m = NULL \<or> m \<in> dom flags)"

inductive ra_init :: "RA_ARENA \<Rightarrow> bool" where
  create: "create_hyps base size' m quantum flags km \<Longrightarrow>
     RA_Create base size' m quantum imp bsf hdl raw flags km = Some (Some a, km') \<Longrightarrow> ra_init a"

inductive ra_step :: "RA_ARENA \<Rightarrow> RA_ARENA \<Rightarrow> bool" where
  alloc: "request_hyps imp a s f al km \<Longrightarrow> RA_Alloc imp a s f al km = Some (r, a', km') \<Longrightarrow> ra_step a a'"
| free: "free_hyps a bf \<Longrightarrow> RA_Free a base bf km = Some (a', km') \<Longrightarrow> ra_step a a'"

inductive_cases ra_initE: "ra_init a"
inductive_cases ra_stepE: "ra_step a a'"

lemma RA_Free_cases:
  assumes "arena_inv a" "free_hyps a bf"
  obtains (known) q x a' km' where "live a q = Some x" "it_base x = base"
      "RA_Free a base bf km = Some (a', km')" "arena_inv a'" "live a' = (live a)(q := None)" "shrinks a a'"
  | (unknown) "\<forall>q x. live a q = Some x \<longrightarrow> it_base x \<noteq> base" "RA_Free a base bf km = Some (a, km)"
proof (cases "\<exists>q x. live a q = Some x \<and> it_base x = base")
  case True
  then obtain q x where q: "live a q = Some x" "it_base x = base" by blast
  from RA_Free_spec [OF assms(1) q(1), of bf km] assms(2) q(2) show ?thesis
    using known [OF q] unfolding free_hyps_def by blast
next
  case False
  then have "\<forall>q x. live a q = Some x \<longrightarrow> it_base x \<noteq> base" by blast
  then show ?thesis using unknown RA_Free_unknown [OF assms(1)] by blast
qed

interpretation ra: invariant_system ra_init ra_step arena_inv
proof unfold_locales
  fix a assume "ra_init a"
  then show "arena_inv a"
  proof (cases rule: ra_init.cases)
    case (create base size' m quantum flags km imp bsf hdl raw km')
    then show ?thesis using RA_Create_spec [of size' quantum base km m flags imp bsf hdl raw]
      by (auto simp: create_hyps_def)
  qed
next
  fix a a' assume inv: "arena_inv a" and "ra_step a a'"
  from this(2) show "arena_inv a'"
  proof (cases rule: ra_step.cases)
    case (alloc imp s f al km r km')
    then show ?thesis using RA_Alloc_spec [OF inv, of km s al imp f] by (auto simp: request_hyps_def)
  next
    case (free bf base km km')
    then show ?thesis using RA_Free_cases [OF inv free(1), of base km] inv by fastforce
  qed
qed

subsection \<open>A concrete arena\<close>

text \<open>
  An arena of four pages from address 0x1000, as \<open>RA_Create\<close> builds it, for the examples below;
  \<open>demo_alloc\<close> is the first allocation from it.
\<close>

definition zero_bt :: BT where
  "zero_bt = \<lparr>bt_typ = btt_span, bt_base = 0, bt_uSize = 0, pNextSegment = 0, pPrevSegment = 0,
     pNextFree = 0, pPrevFree = 0, psMapping = 0\<rparr>"

definition demo_create :: "(RA_ARENA option \<times> kmem) option" where
  "demo_create = RA_Create 0x1000 0x4000 0 0x1000 0 0 0 (\<lambda>_. zero_bt) (\<lambda>_. None) [16, 17, 18, 19]"

definition ra_demo :: RA_ARENA where
  "ra_demo = the (fst (the demo_create))"

definition no_import :: import_env where
  "no_import = (\<lambda>_ _ _ _. None)"

definition demo_alloc :: "((ptr \<times> u32) option \<times> RA_ARENA \<times> kmem) option" where
  "demo_alloc = RA_Alloc no_import ra_demo 0x100 0 0x100 [32, 33, 34, 35]"

definition ra_demo1 :: RA_ARENA where
  "ra_demo1 = fst (snd (the demo_alloc))"

lemma demo_create_eq: "demo_create = Some (Some ra_demo, [])"
proof -
  have "case demo_create of Some (Some a, km) \<Rightarrow> km = [] | _ \<Rightarrow> False" by code_simp
  then obtain a where a: "demo_create = Some (Some a, [])" by (auto split: option.splits)
  show ?thesis unfolding ra_demo_def a by simp
qed

lemma demo_create_hyps: "create_hyps 0x1000 0x4000 0 0x1000 (\<lambda>_. None) [16, 17, 18, 19]"
  by (simp add: create_hyps_def)

lemma demo_init: "ra_init ra_demo"
  by (rule ra_init.create [OF demo_create_hyps demo_create_eq [unfolded demo_create_def]])

lemma demo_spec: "arena_inv ra_demo" "live ra_demo = Map.empty" "total ra_demo = {0x1000..<0x5000}"
proof -
  have r: "((0x4000 :: u32) + 0x1000 - 1) div 0x1000 * 0x1000 = 0x4000" by code_simp
  have "\<exists>r km'. demo_create = Some (r, km') \<and> (\<forall>a. r = Some a \<longrightarrow> arena_inv a \<and> live a = Map.empty \<and>
        total a = (if (0x4000 :: u32) > 0 then block 0x1000 (((0x4000 :: u32) + 0x1000 - 1) div 0x1000 * 0x1000) else {}) \<and>
        uQuantum a = 0x1000)"
    unfolding demo_create_def by (rule RA_Create_spec) (use demo_create_hyps in \<open>auto simp: create_hyps_def\<close>)
  then show "arena_inv ra_demo" "live ra_demo = Map.empty" "total ra_demo = {0x1000..<0x5000}"
    unfolding r demo_create_eq by (auto simp: block_def)
qed

lemma demo_fields: "uQuantum ra_demo = 0x1000" "unat (uSize (pSegmentHash ra_demo)) = 64"
  "pBackingStoreFree ra_demo = 0" "bts ra_demo 32 = None" "bts ra_demo 33 = None" "bts ra_demo 34 = None"
  "bts ra_demo 35 = None"
  by code_simp+

lemma demo_request: "request_hyps no_import ra_demo 0x100 0 0x100 [32, 33, 34, 35]"
  by (auto simp: request_hyps_def table_roomy_def demo_fields fresh_def request_ok_def demo_spec
      import_ok_def call_import_def no_import_def split: import_fn.splits)

subsection \<open>Properties\<close>

text \<open>
  C1. On a well-formed arena, for a request that stays inside 32-bit addresses at every address the
  arena manages (\<open>request_hyps\<close>), \<open>RA_Alloc\<close> always returns, with a well-formed
  arena. A refused request leaves the blocks handed out as they were. A granted one adds exactly the
  block of the requested size at the returned address, aligned as requested, with a mapping whose
  flags match the request; the block overlaps none of the blocks handed out before and lies inside
  the addresses that the arena manages. These are addresses it managed before or those of the one
  span that its owner has answered for this request.
\<close>

theorem RA_Alloc_correct:
  assumes "arena_inv a" and "request_hyps imp a s f al km"
  shows "\<exists>r a' km'. RA_Alloc imp a s f al km = Some (r, a', km') \<and> arena_inv a' \<and>
     total a' \<subseteq> total a \<union> imported imp a s f al \<and>
     (case r of
        None \<Rightarrow> blocks a' = blocks a
      | Some (m, start) \<Rightarrow> aligned al (unat start) \<and> (m = NULL \<or> mapping_flags a m = Some f) \<and>
          blocks a' = insert (start, s, m) (blocks a) \<and> block start s \<subseteq> total a' \<and>
          (\<forall>b n m'. (b, n, m') \<in> blocks a \<longrightarrow> block start s \<inter> block b n = {}))"
proof -
  obtain r a' km' where t: "RA_Alloc imp a s f al km = Some (r, a', km')" "arena_inv a'" "alloc_result a s f al r a'"
    "total a' \<subseteq> total a \<union> imported imp a s f al"
    using RA_Alloc_spec [OF assms(1), of km s al imp f] assms(2) unfolding request_hyps_def by blast
  show ?thesis
  proof (cases r)
    case None
    then have "blocks a' = blocks a" using t(3) by (simp add: alloc_result_def blocks_def)
    then show ?thesis using t None by auto
  next
    case (Some c)
    obtain m start where c: "c = (m, start)" by (cases c)
    let ?x = "(btt_live, start, s, m)"
    obtain q where q: "live a q = None" "live a' = (live a)(q \<mapsto> ?x)" "aligned al (unat start)"
      "m = NULL \<or> mapping_flags a m = Some f" using t(3) Some c by (auto simp: alloc_result_def)
    have b: "blocks a' = insert (start, s, m) (blocks a)" using blocks_insert [OF q(2,1)] by (simp add: it_defs)
    have "block start s \<inter> block b n = {}" if mem: "(b, n, m') \<in> blocks a" for b n m'
    proof -
      obtain p y where y: "live a p = Some y" "bytes y = block b n" using mem by (rule blocks_member) blast
      have "p \<noteq> q" "live a' p = Some y" "live a' q = Some ?x" using y(1) q(1,2) by auto
      then have "bytes ?x \<inter> bytes y = {}" using ra_ok_live(3) t(2) unfolding arena_inv_def by blast
      moreover have "bytes ?x = block start s" by (simp add: bytes_def lo_def hi_def is_span_def it_defs block_def)
      ultimately show ?thesis using y(2) by simp
    qed
    moreover have "block start s \<subseteq> total a'"
    proof -
      have "live a' q = Some ?x" using q(2) by simp
      then have "data a' q = Some ?x" by (simp add: live_def split: option.splits if_splits)
      then have "bytes ?x \<subseteq> total a'" by (auto simp: total_def ran_def)
      then show ?thesis by (simp add: bytes_def lo_def hi_def is_span_def it_defs block_def)
    qed
    ultimately show ?thesis using t q b Some c by auto
  qed
qed

theorem RA_Alloc_correct_witness:
  "\<exists>r a' km'. RA_Alloc no_import ra_demo 0x100 0 0x100 [32, 33, 34, 35] = Some (r, a', km') \<and> arena_inv a' \<and>
     total a' \<subseteq> total ra_demo \<union> imported no_import ra_demo 0x100 0 0x100 \<and>
     (case r of
        None \<Rightarrow> blocks a' = blocks ra_demo
      | Some (m, start) \<Rightarrow> aligned 0x100 (unat start) \<and> (m = NULL \<or> mapping_flags ra_demo m = Some 0) \<and>
          blocks a' = insert (start, 0x100, m) (blocks ra_demo) \<and> block start 0x100 \<subseteq> total a' \<and>
          (\<forall>b n m'. (b, n, m') \<in> blocks ra_demo \<longrightarrow> block start 0x100 \<inter> block b n = {}))"
  by (rule RA_Alloc_correct [OF demo_spec(1) demo_request])

lemma demo_alloc_eq:
  "RA_Alloc no_import ra_demo 0x100 0 0x100 [32, 33, 34, 35] = Some (Some (0, 0x1000), ra_demo1, [34, 35])"
proof -
  have "case demo_alloc of Some (r, a, km) \<Rightarrow> r = Some (0, 0x1000) \<and> km = [34, 35] | _ \<Rightarrow> False" by code_simp
  then obtain a where a: "demo_alloc = Some (Some (0, 0x1000), a, [34, 35])" by (auto split: option.splits)
  show ?thesis unfolding demo_alloc_def [symmetric] ra_demo1_def a by simp
qed

lemma demo1_spec: "arena_inv ra_demo1" "blocks ra_demo1 = {(0x1000, 0x100, 0)}"
  using RA_Alloc_spec [OF demo_spec(1), of "[32, 33, 34, 35]" "0x100" "0x100" no_import 0] demo_request
    blocks_insert [of ra_demo1 ra_demo]
  unfolding request_hyps_def demo_alloc_eq by (auto simp: alloc_result_def demo_spec(2) it_defs blocks_def [of ra_demo])

text \<open>
  C19. The request is met whenever it can be: if some free block has room for it at the requested
  alignment, with matching flags, then \<open>RA_Alloc\<close> fails only when the kernel runs out of memory
  for tags and hash buckets; if none has, and the owner's import function answers a block with
  room, the same holds.
\<close>

theorem RA_Alloc_succeeds:
  assumes "arena_inv a" and "request_hyps imp a s f al km" and "mem_supply 6 km"
    and "room a s f al \<or> (\<exists>sz m b. call_import imp a (import_size a s al) f = Some (sz, m, b) \<and>
        room_in (btt_free, b, sz, m) s al \<and> (m = NULL \<or> mapping_flags a m = Some f))"
  shows "\<exists>m start a' km'. RA_Alloc imp a s f al km = Some (Some (m, start), a', km')"
proof -
  have "mem_supply 3 km" using assms(3) by (simp add: numeral_eq_Suc supply_Suc)
  then obtain r a' km' where "RA_Alloc imp a s f al km = Some (r, a', km')" "r \<noteq> None"
    using RA_Alloc_spec [OF assms(1), of km s al imp f] assms(2-4) unfolding request_hyps_def by blast
  then show ?thesis by (cases r) auto
qed

theorem RA_Alloc_succeeds_witness:
  "\<exists>m start a' km'. RA_Alloc no_import ra_demo 0x100 0 0x100 [32, 33, 34, 35, 36, 37] = Some (Some (m, start), a', km')"
proof (rule RA_Alloc_succeeds [OF demo_spec(1)])
  have "bts ra_demo 36 = None" "bts ra_demo 37 = None" by code_simp+
  then show "request_hyps no_import ra_demo 0x100 0 0x100 [32, 33, 34, 35, 36, 37]"
    using demo_request by (auto simp: request_hyps_def fresh_def)
  show "mem_supply 6 [32, 33, 34, 35, 36, 37]" by (simp add: mem_supply_def)
  have "data ra_demo 19 = Some (btt_free, 0x1000, 0x4000, 0)" by code_simp
  moreover have "room_in (btt_free, 0x1000, 0x4000, 0) 0x100 0x100"
    by (auto simp: room_in_def lo_def hi_def is_span_def it_defs aligned_def intro!: exI [of _ "0x1000 :: nat"])
  ultimately have "room ra_demo 0x100 0 0x100" unfolding room_def by (force simp: flags_match_def it_defs)
  then show "room ra_demo 0x100 0 0x100 \<or> (\<exists>sz m b. call_import no_import ra_demo (import_size ra_demo 0x100 0x100) 0 =
      Some (sz, m, b) \<and> room_in (btt_free, b, sz, m) 0x100 0x100 \<and> (m = NULL \<or> mapping_flags ra_demo m = Some 0))" ..
qed

text \<open>
  C2. \<open>RA_Free\<close> of the base address of a block that is handed out returns, keeps the arena
  well-formed and takes back exactly that block. The addresses the arena manages stay the same,
  or shrink by one imported span that is given back to its owner in a single call.
\<close>

theorem RA_Free_correct:
  assumes "arena_inv a" and "free_hyps a bf" and "(b, n, m) \<in> blocks a"
  shows "\<exists>a' km'. RA_Free a b bf km = Some (a', km') \<and> arena_inv a' \<and>
     blocks a' = blocks a - {(b, n, m)} \<and> shrinks a a'"
proof -
  obtain q x where q: "live a q = Some x" "it_base x = b" "it_size x = n" "it_map x = m"
    using assms(3) by (rule blocks_member) blast
  obtain a' km' where "RA_Free a b bf km = Some (a', km')" "arena_inv a'" "live a' = (live a)(q := None)" "shrinks a a'"
    using RA_Free_spec [OF assms(1) q(1), of bf km] assms(2) q(2) unfolding free_hyps_def by blast
  then show ?thesis using blocks_remove [OF _ q(1), of a'] assms(1) q unfolding arena_inv_def by auto
qed

theorem RA_Free_correct_witness:
  "\<exists>a' km'. RA_Free ra_demo1 0x1000 False [] = Some (a', km') \<and> arena_inv a' \<and>
     blocks a' = blocks ra_demo1 - {(0x1000, 0x100, 0)} \<and> shrinks ra_demo1 a'"
  by (rule RA_Free_correct [OF demo1_spec(1)]) (simp_all add: free_hyps_def demo1_spec)

text \<open>\<open>RA_Free\<close> of an address that is not the base of a block handed out changes nothing.\<close>

theorem RA_Free_unknown_base:
  assumes "arena_inv a" and "\<forall>n m. (b, n, m) \<notin> blocks a"
  shows "RA_Free a b bf km = Some (a, km)"
proof (rule RA_Free_unknown [OF assms(1)])
  show "\<forall>q x. live a q = Some x \<longrightarrow> it_base x \<noteq> b" using assms(2) live_in_blocks by blast
qed

theorem RA_Free_unknown_base_witness: "RA_Free ra_demo1 0x1010 True [7] = Some (ra_demo1, [7])"
  by (rule RA_Free_unknown_base [OF demo1_spec(1)]) (simp add: demo1_spec(2))

text \<open>
  C18. An allocation undone by the free of the address it returned leaves the arena with the
  blocks it had before.
\<close>

theorem RA_Alloc_Free_roundtrip:
  assumes "arena_inv a" and "request_hyps imp a s f al km" and "free_hyps a bf"
    and "RA_Alloc imp a s f al km = Some (Some (m, start), a', km')"
  shows "\<exists>a'' km''. RA_Free a' start bf km' = Some (a'', km'') \<and> arena_inv a'' \<and> blocks a'' = blocks a"
proof -
  have t: "arena_inv a'" "alloc_result a s f al (Some (m, start)) a'" "cfg a' = cfg a"
    using RA_Alloc_spec [OF assms(1), of km s al imp f] assms(2,4) unfolding request_hyps_def by auto
  let ?x = "(btt_live, start, s, m)"
  obtain q where q: "live a q = None" "live a' = (live a)(q \<mapsto> ?x)" using t(2) by (auto simp: alloc_result_def)
  have lq: "live a' q = Some ?x" "it_base ?x = start" using q by (simp_all add: it_base_def)
  have "free_hyps a' bf" using assms(3) t(3) by (simp add: free_hyps_def cfg_def)
  then obtain a'' km'' where f: "RA_Free a' start bf km' = Some (a'', km'')" "arena_inv a''"
    "live a'' = (live a')(q := None)"
    using RA_Free_spec [OF t(1) lq(1), of bf km'] lq(2) unfolding free_hyps_def by auto
  have "live a'' = live a" using f(3) q by (simp add: fun_upd_idem)
  then show ?thesis using f(1,2) by (simp add: blocks_def)
qed

theorem RA_Alloc_Free_roundtrip_witness:
  "\<exists>a'' km''. RA_Free ra_demo1 0x1000 False [34, 35] = Some (a'', km'') \<and> arena_inv a'' \<and> blocks a'' = blocks ra_demo"
  by (rule RA_Alloc_Free_roundtrip [OF demo_spec(1) demo_request _ demo_alloc_eq]) (simp add: free_hyps_def)



text \<open>
  C32. The two nested loops of \<^verbatim>\<open>_AttemptAllocAligned\<close> over the size classes and the free lists
  end, and find the first tag, in free-list order from the size class of the request on, whose
  aligned block fits and whose mapping has the requested flags; nothing below that size class
  could have been taken.
\<close>

theorem free_list_search:
  assumes "ra_rep a segs fl {}" and "maps_ok a" and "request_ok a s al"
  shows "scan_classes a s f al (skip_empty a (unat (pvr_log2 s))) =
       Some (candidate a s f al (concat (drop (unat (pvr_log2 s)) fl)))
     \<and> (\<forall>i < unat (pvr_log2 s). \<forall>p \<in> set (fl ! i). \<not> fits a s f al p)"
proof -
  have "\<not> fits a s f al p" if "i < unat (pvr_log2 s)" "p \<in> set (fl ! i)" for i p
  proof
    assume "fits a s f al p"
    have "i < FREE_TABLE_LIMIT" using that(1) size_class_bounds(1) [of s] by (simp add: size_class_def)
    then show False using fits_class [OF assms(1) _ that(2) assms(3) \<open>fits a s f al p\<close>] that(1)
      by (simp add: size_class_def)
  qed
  then show ?thesis by (auto simp: scan_skip_empty scan_classes_spec [OF assms(1,2)])
qed

theorem free_list_search_witness:
  "\<exists>segs fl. ra_rep ra_demo segs fl {} \<and>
     scan_classes ra_demo 0x100 0 0x100 (skip_empty ra_demo (unat (pvr_log2 0x100))) =
       Some (candidate ra_demo 0x100 0 0x100 (concat (drop (unat (pvr_log2 0x100)) fl)))
     \<and> (\<forall>i < unat (pvr_log2 0x100). \<forall>p \<in> set (fl ! i). \<not> fits ra_demo 0x100 0 0x100 p)"
proof -
  obtain segs fl where rep: "ra_rep ra_demo segs fl {}" using demo_spec(1) by (auto simp: arena_inv_def ra_ok_def)
  have "maps_ok ra_demo" "request_ok ra_demo 0x100 0x100"
    using demo_spec(1) demo_request by (auto simp: arena_inv_def request_hyps_def)
  from free_list_search [OF rep this, of 0] rep show ?thesis by blast
qed

text \<open>
  \<open>pvr_log2\<close> is the floor of the binary logarithm: the size class of a non-empty block is
  the position of its highest set bit, so it indexes one of the 32 free lists.
\<close>

theorem pvr_log2_floor:
  assumes "n \<noteq> 0"
  shows "unat (pvr_log2 n) < FREE_TABLE_LIMIT \<and> 2 ^ unat (pvr_log2 n) \<le> unat n \<and>
     unat n < 2 ^ Suc (unat (pvr_log2 n))"
  using size_class_bounds(1) [of n] size_class_bounds(2) [OF assms] size_class_bounds(3) [of n]
  unfolding size_class_def by blast

theorem pvr_log2_floor_witness:
  "unat (pvr_log2 100) < FREE_TABLE_LIMIT \<and> 2 ^ unat (pvr_log2 100) \<le> unat (100 :: u32) \<and>
     unat (100 :: u32) < 2 ^ Suc (unat (pvr_log2 100))"
  by (rule pvr_log2_floor) simp

text \<open>
  \<open>RA_Create\<close> either fails for lack of memory or builds a well-formed arena with no block
  handed out, that manages exactly the initial resource rounded up to the arena's quantum.
\<close>

theorem RA_Create_correct:
  assumes "create_hyps base size' m quantum flags km"
  shows "\<exists>r km'. RA_Create base size' m quantum imp bsf hdl raw flags km = Some (r, km') \<and>
     (\<forall>a. r = Some a \<longrightarrow> arena_inv a \<and> blocks a = {} \<and>
        total a = (if size' > 0 then block base ((size' + quantum - 1) div quantum * quantum) else {}))"
proof -
  obtain r km' where "RA_Create base size' m quantum imp bsf hdl raw flags km = Some (r, km')"
    "\<forall>a. r = Some a \<longrightarrow> arena_inv a \<and> live a = Map.empty \<and>
        total a = (if size' > 0 then block base ((size' + quantum - 1) div quantum * quantum) else {}) \<and> uQuantum a = quantum"
    using RA_Create_spec [of size' quantum base km m flags imp bsf hdl raw] assms unfolding create_hyps_def by blast
  then show ?thesis by (auto simp: blocks_def)
qed

theorem RA_Create_correct_witness:
  "\<exists>r km'. RA_Create 0x1000 0x4000 0 0x1000 0 0 0 (\<lambda>_. zero_bt) (\<lambda>_. None) [16, 17, 18, 19] = Some (r, km') \<and>
     (\<forall>a. r = Some a \<longrightarrow> arena_inv a \<and> blocks a = {} \<and>
        total a = (if (0x4000 :: u32) > 0 then block 0x1000 ((0x4000 + 0x1000 - 1) div 0x1000 * 0x1000) else {}))"
  by (rule RA_Create_correct [OF demo_create_hyps])

text \<open>
  C33. \<open>RA_Delete\<close> ends on every well-formed arena and frees every boundary tag exactly once.
\<close>

theorem RA_Delete_frees_all:
  assumes "arena_inv a"
  shows "\<exists>a'. RA_Delete a = Some a' \<and> bts a' = Map.empty"
proof -
  obtain segs fl where "ra_rep a segs fl {}" using assms by (auto simp: arena_inv_def ra_ok_def)
  then show ?thesis using RA_Delete_chain ra_repD(1,3) by blast
qed

theorem RA_Delete_frees_all_witness: "\<exists>a'. RA_Delete ra_demo1 = Some a' \<and> bts a' = Map.empty"
  by (rule RA_Delete_frees_all [OF demo1_spec(1)])

lemma RA_TestDelete_result: "RA_TestDelete a = Some r \<Longrightarrow>
  pHeadSegment a = NULL \<or> (\<exists>b. bts a (pHeadSegment a) = Some b \<and> bt_typ b \<noteq> btt_free)"
  by (erule RA_TestDelete.raw_induct [rotated])
    (fastforce split: if_splits bind_splits)

text \<open>
  C40. \<open>RA_TestDelete\<close> does not return on an arena whose first segment is free: its loop tests the
  head of the segment chain over and over without moving on.
\<close>

theorem RA_TestDelete_diverges:
  assumes "pHeadSegment a \<noteq> NULL" and "bts a (pHeadSegment a) = Some b" and "bt_typ b = btt_free"
  shows "RA_TestDelete a = None"
  using RA_TestDelete_result [of a] assms by (cases "RA_TestDelete a") auto

theorem RA_TestDelete_diverges_witness: "RA_TestDelete ra_demo = None"
proof (rule RA_TestDelete_diverges)
  show "pHeadSegment ra_demo \<noteq> NULL" by code_simp
  show "bts ra_demo (pHeadSegment ra_demo) = Some (the (bts ra_demo (pHeadSegment ra_demo)))" by code_simp
  show "bt_typ (the (bts ra_demo (pHeadSegment ra_demo))) = btt_free" by code_simp
qed

text \<open>
  \<open>RA_GetNextLiveSegment\<close> started at a segment returns the next live segment of the chain.
  The cursor it leaves is the segment after that one, so when the last segment of the chain is
  live the cursor is NULL, which the next call takes as the start of the chain: a caller that
  calls it until it returns false never stops.
\<close>

theorem RA_GetNextLiveSegment_restarts:
  assumes "seg_chain a (segs @ [p])" and "live_at a p"
  shows "next_live a p = Some (True, \<lparr>sd_uiSize = it_size (item_at a p),
             sd_sCpuPhyAddr = it_base (item_at a p), sd_hSegment = NULL\<rparr>)
     \<and> (\<forall>d. sd_hSegment d = NULL \<longrightarrow> (\<exists>d'. RA_GetNextLiveSegment a d = Some (True, d')))"
proof -
  have 1: "next_live a p = Some (True, \<lparr>sd_uiSize = it_size (item_at a p),
             sd_sCpuPhyAddr = it_base (item_at a p), sd_hSegment = NULL\<rparr>)"
    using next_live_spec [OF assms(1)] assms(2) by simp
  have hd: "pHeadSegment a = hdd NULL (segs @ [p])" using assms(1) by (simp add: seg_chain_def)
  have ex: "dropWhile (\<lambda>p. \<not> live_at a p) (segs @ [p]) \<noteq> []" using assms(2) by simp
  have "seg_chain a ([] @ (segs @ [p]))" using assms(1) by simp
  from next_live_spec [OF this] ex
  have "\<exists>d'. next_live a (pHeadSegment a) = Some (True, d')"
    unfolding hd by (auto split: list.splits)
  with 1 show ?thesis by (auto simp: RA_GetNextLiveSegment_def)
qed

definition ra_full :: RA_ARENA where
  "ra_full = fst (snd (the (RA_Alloc no_import ra_demo 0x4000 0 0 [32, 33])))"

theorem RA_GetNextLiveSegment_restarts_witness:
  "next_live ra_full 19 = Some (True, \<lparr>sd_uiSize = it_size (item_at ra_full 19),
             sd_sCpuPhyAddr = it_base (item_at ra_full 19), sd_hSegment = NULL\<rparr>)
     \<and> (\<exists>d'. RA_GetNextLiveSegment ra_full \<lparr>sd_uiSize = 0, sd_sCpuPhyAddr = 0, sd_hSegment = NULL\<rparr> = Some (True, d'))"
proof -
  have "segh ra_full 19 = Some (0, 0)" "pHeadSegment ra_full = 19" "pTailSegment ra_full = 19" by code_simp+
  then have c: "seg_chain ra_full ([] @ [19])" by (simp add: seg_chain_def)
  have l: "live_at ra_full 19" by code_simp
  show ?thesis using RA_GetNextLiveSegment_restarts [OF c l] by simp
qed

end
