(* ===== verification/Pvr_Handle.thy ===== *)
theory Pvr_Handle
  imports Pvr_Hash "HOL-Library.Monad_Syntax"
begin

text \<open>
  The handle bases of \<^verbatim>\<open>src/pvr/handle.c\<close>: an array of handle structures that grows in blocks,
  a free list threaded through the array by indices, a hash table from (data, type, parent) to
  handle, and the parent/child relation kept in circular lists of indices whose head is the
  parent itself. As in the arena model, \<open>None\<close> is an access outside the array or a loop that
  does not end.
\<close>

subsection \<open>Data\<close>

datatype PVRSRV_HANDLE_TYPE =
    PVRSRV_HANDLE_TYPE_NONE
  | PVRSRV_HANDLE_TYPE_PERPROC_DATA
  | PVRSRV_HANDLE_TYPE_DEV_NODE
  | PVRSRV_HANDLE_TYPE_DEV_MEM_CONTEXT
  | PVRSRV_HANDLE_TYPE_DEV_MEM_HEAP
  | PVRSRV_HANDLE_TYPE_MEM_INFO
  | PVRSRV_HANDLE_TYPE_SYNC_INFO
  | PVRSRV_HANDLE_TYPE_DISP_INFO
  | PVRSRV_HANDLE_TYPE_DISP_SWAP_CHAIN
  | PVRSRV_HANDLE_TYPE_BUF_INFO
  | PVRSRV_HANDLE_TYPE_DISP_BUFFER
  | PVRSRV_HANDLE_TYPE_BUF_BUFFER
  | PVRSRV_HANDLE_TYPE_SGX_HW_RENDER_CONTEXT
  | PVRSRV_HANDLE_TYPE_SGX_HW_TRANSFER_CONTEXT
  | PVRSRV_HANDLE_TYPE_SGX_HW_2D_CONTEXT
  | PVRSRV_HANDLE_TYPE_SHARED_PB_DESC
  | PVRSRV_HANDLE_TYPE_MEM_INFO_REF
  | PVRSRV_HANDLE_TYPE_SHARED_SYS_MEM_INFO
  | PVRSRV_HANDLE_TYPE_SHARED_EVENT_OBJECT
  | PVRSRV_HANDLE_TYPE_EVENT_OBJECT_CONNECT
  | PVRSRV_HANDLE_TYPE_MMAP_INFO
  | PVRSRV_HANDLE_TYPE_SOC_TIMER

text \<open>The numeric value of an enumerator, as the cast to \<^verbatim>\<open>u32\<close> in \<^verbatim>\<open>InitKey\<close> gives it.\<close>

primrec handle_type_u32 :: "PVRSRV_HANDLE_TYPE \<Rightarrow> u32" where
  "handle_type_u32 PVRSRV_HANDLE_TYPE_NONE = 0"
| "handle_type_u32 PVRSRV_HANDLE_TYPE_PERPROC_DATA = 1"
| "handle_type_u32 PVRSRV_HANDLE_TYPE_DEV_NODE = 2"
| "handle_type_u32 PVRSRV_HANDLE_TYPE_DEV_MEM_CONTEXT = 3"
| "handle_type_u32 PVRSRV_HANDLE_TYPE_DEV_MEM_HEAP = 4"
| "handle_type_u32 PVRSRV_HANDLE_TYPE_MEM_INFO = 5"
| "handle_type_u32 PVRSRV_HANDLE_TYPE_SYNC_INFO = 6"
| "handle_type_u32 PVRSRV_HANDLE_TYPE_DISP_INFO = 7"
| "handle_type_u32 PVRSRV_HANDLE_TYPE_DISP_SWAP_CHAIN = 8"
| "handle_type_u32 PVRSRV_HANDLE_TYPE_BUF_INFO = 9"
| "handle_type_u32 PVRSRV_HANDLE_TYPE_DISP_BUFFER = 10"
| "handle_type_u32 PVRSRV_HANDLE_TYPE_BUF_BUFFER = 11"
| "handle_type_u32 PVRSRV_HANDLE_TYPE_SGX_HW_RENDER_CONTEXT = 12"
| "handle_type_u32 PVRSRV_HANDLE_TYPE_SGX_HW_TRANSFER_CONTEXT = 13"
| "handle_type_u32 PVRSRV_HANDLE_TYPE_SGX_HW_2D_CONTEXT = 14"
| "handle_type_u32 PVRSRV_HANDLE_TYPE_SHARED_PB_DESC = 15"
| "handle_type_u32 PVRSRV_HANDLE_TYPE_MEM_INFO_REF = 16"
| "handle_type_u32 PVRSRV_HANDLE_TYPE_SHARED_SYS_MEM_INFO = 17"
| "handle_type_u32 PVRSRV_HANDLE_TYPE_SHARED_EVENT_OBJECT = 18"
| "handle_type_u32 PVRSRV_HANDLE_TYPE_EVENT_OBJECT_CONNECT = 19"
| "handle_type_u32 PVRSRV_HANDLE_TYPE_MMAP_INFO = 20"
| "handle_type_u32 PVRSRV_HANDLE_TYPE_SOC_TIMER = 21"

record sHandleList =
  ui32Prev :: u32
  ui32Next :: u32
  hParent :: ptr

record sHandle =
  eType :: PVRSRV_HANDLE_TYPE
  pvData :: ptr
  ui32NextIndexPlusOne :: u32
  eInternalFlag :: u32
  eFlag :: u32
  ui32Index :: u32
  sChildren :: sHandleList
  sSiblings :: sHandleList

text \<open>
  The array is the list \<open>psHandleArray\<close> (\<^verbatim>\<open>NULL\<close> is the empty list); \<open>raw_hand\<close> is what freshly
  allocated, uncleared array memory holds.
\<close>

record PVRSRV_HANDLE_BASE =
  psHandleArray :: "sHandle list"
  psHashTab :: HASH_TABLE
  ui32FreeHandCount :: u32
  ui32FirstFreeIndex :: u32
  ui32MaxIndexPlusOne :: u32
  ui32TotalHandCount :: u32
  ui32LastFreeIndexPlusOne :: u32
  ui32HandBatchSize :: u32
  ui32TotalHandCountPreBatch :: u32
  ui32FirstBatchIndexPlusOne :: u32
  ui32BatchHandAllocFailures :: u32
  bPurgingEnabled :: bool
  raw_hand :: "nat \<Rightarrow> sHandle"

type_synonym hbase = PVRSRV_HANDLE_BASE

definition HANDLE_BLOCK_SIZE :: u32 where "HANDLE_BLOCK_SIZE = 256"
definition HANDLE_HASH_TAB_INIT_SIZE :: u32 where "HANDLE_HASH_TAB_INIT_SIZE = 32"
definition DEFAULT_MAX_INDEX_PLUS_ONE :: u32 where "DEFAULT_MAX_INDEX_PLUS_ONE = 0xffffffff"
definition HAND_KEY_LEN :: u32 where "HAND_KEY_LEN = 3"

text \<open>\<^verbatim>\<open>sizeof(struct sHandle)\<close> on the 32-bit target: six words and two lists of three words.\<close>

definition sizeof_sHandle :: u32 where "sizeof_sHandle = 48"

definition INTERNAL_HANDLE_FLAG_NONE :: u32 where "INTERNAL_HANDLE_FLAG_NONE = 0"
definition INTERNAL_HANDLE_FLAG_BATCHED :: u32 where "INTERNAL_HANDLE_FLAG_BATCHED = 1"
definition INTERNAL_HANDLE_FLAG_BATCHED_PARTIALLY_FREE :: u32 where
  "INTERNAL_HANDLE_FLAG_BATCHED_PARTIALLY_FREE = 2"

definition PVRSRV_HANDLE_ALLOC_FLAG_SHARED :: u32 where "PVRSRV_HANDLE_ALLOC_FLAG_SHARED = 1"
definition PVRSRV_HANDLE_ALLOC_FLAG_MULTI :: u32 where "PVRSRV_HANDLE_ALLOC_FLAG_MULTI = 2"
definition PVRSRV_HANDLE_ALLOC_FLAG_PRIVATE :: u32 where "PVRSRV_HANDLE_ALLOC_FLAG_PRIVATE = 4"

definition INDEX_IS_VALID :: "hbase \<Rightarrow> u32 \<Rightarrow> bool" where
  "INDEX_IS_VALID psBase i \<longleftrightarrow> i < ui32TotalHandCount psBase"

definition INDEX_TO_HANDLE :: "u32 \<Rightarrow> ptr" where "INDEX_TO_HANDLE idx = idx + 1"
definition HANDLE_TO_INDEX :: "ptr \<Rightarrow> u32" where "HANDLE_TO_INDEX hand = hand - 1"

definition ROUND_UP_TO_MULTIPLE :: "u32 \<Rightarrow> u32 \<Rightarrow> u32" where
  "ROUND_UP_TO_MULTIPLE a b = ((a + b - 1) div b) * b"

definition HANDLES_BATCHED :: "hbase \<Rightarrow> bool" where
  "HANDLES_BATCHED psBase \<longleftrightarrow> ui32HandBatchSize psBase \<noteq> 0"

definition TEST_FLAG :: "u32 \<Rightarrow> u32 \<Rightarrow> bool" where "TEST_FLAG v f \<longleftrightarrow> v AND f \<noteq> 0"

definition TEST_ALLOC_FLAG :: "sHandle \<Rightarrow> u32 \<Rightarrow> bool" where
  "TEST_ALLOC_FLAG psHandle f = TEST_FLAG (eFlag psHandle) f"

definition BATCHED_HANDLE :: "sHandle \<Rightarrow> bool" where
  "BATCHED_HANDLE psHandle = TEST_FLAG (eInternalFlag psHandle) INTERNAL_HANDLE_FLAG_BATCHED"

definition SET_BATCHED_HANDLE :: "sHandle \<Rightarrow> sHandle" where
  "SET_BATCHED_HANDLE psHandle =
     psHandle\<lparr>eInternalFlag := eInternalFlag psHandle OR INTERNAL_HANDLE_FLAG_BATCHED\<rparr>"

definition SET_UNBATCHED_HANDLE :: "sHandle \<Rightarrow> sHandle" where
  "SET_UNBATCHED_HANDLE psHandle =
     psHandle\<lparr>eInternalFlag := eInternalFlag psHandle AND NOT INTERNAL_HANDLE_FLAG_BATCHED\<rparr>"

definition BATCHED_HANDLE_PARTIALLY_FREE :: "sHandle \<Rightarrow> bool" where
  "BATCHED_HANDLE_PARTIALLY_FREE psHandle =
     TEST_FLAG (eInternalFlag psHandle) INTERNAL_HANDLE_FLAG_BATCHED_PARTIALLY_FREE"

definition SET_BATCHED_HANDLE_PARTIALLY_FREE :: "sHandle \<Rightarrow> sHandle" where
  "SET_BATCHED_HANDLE_PARTIALLY_FREE psHandle =
     psHandle\<lparr>eInternalFlag := eInternalFlag psHandle OR INTERNAL_HANDLE_FLAG_BATCHED_PARTIALLY_FREE\<rparr>"

definition HANDLE_STRUCT_IS_FREE :: "sHandle \<Rightarrow> bool" where
  "HANDLE_STRUCT_IS_FREE psHandle \<longleftrightarrow>
     eType psHandle = PVRSRV_HANDLE_TYPE_NONE \<and> eInternalFlag psHandle = INTERNAL_HANDLE_FLAG_NONE"

subsection \<open>Accesses to the array\<close>

definition get_h :: "hbase \<Rightarrow> u32 \<Rightarrow> sHandle option" where
  "get_h psBase i =
     (if unat i < length (psHandleArray psBase) then Some (psHandleArray psBase ! unat i) else None)"

definition upd_h :: "u32 \<Rightarrow> (sHandle \<Rightarrow> sHandle) \<Rightarrow> hbase \<Rightarrow> hbase option" where
  "upd_h i f psBase =
     (if unat i < length (psHandleArray psBase)
      then Some (psBase\<lparr>psHandleArray := (psHandleArray psBase)[unat i := f (psHandleArray psBase ! unat i)]\<rparr>)
      else None)"

text \<open>
  \<^verbatim>\<open>LIST_PTR_FROM_INDEX_AND_OFFSET\<close>: in the list of the children of \<open>p\<close>, the links of \<open>p\<close> itself
  are its \<open>sChildren\<close>, those of any other handle its \<open>sSiblings\<close>.
\<close>

definition get_list :: "hbase \<Rightarrow> u32 \<Rightarrow> u32 \<Rightarrow> sHandleList option" where
  "get_list psBase i p = map_option (\<lambda>h. if i = p then sChildren h else sSiblings h) (get_h psBase i)"

definition upd_list :: "u32 \<Rightarrow> u32 \<Rightarrow> (sHandleList \<Rightarrow> sHandleList) \<Rightarrow> hbase \<Rightarrow> hbase option" where
  "upd_list i p f psBase =
     upd_h i (\<lambda>h. if i = p then h\<lparr>sChildren := f (sChildren h)\<rparr> else h\<lparr>sSiblings := f (sSiblings h)\<rparr>) psBase"

subsection \<open>Parent and child lists\<close>

definition HandleListInit :: "u32 \<Rightarrow> ptr \<Rightarrow> sHandleList" where
  "HandleListInit idx parent = \<lparr>ui32Prev = idx, ui32Next = idx, hParent = parent\<rparr>"

definition InitParentList :: "u32 \<Rightarrow> sHandle \<Rightarrow> sHandle" where
  "InitParentList idx h = h\<lparr>sChildren := HandleListInit idx (INDEX_TO_HANDLE idx)\<rparr>"

definition InitChildEntry :: "u32 \<Rightarrow> sHandle \<Rightarrow> sHandle" where
  "InitChildEntry idx h = h\<lparr>sSiblings := HandleListInit idx NULL\<rparr>"

definition HandleListIsEmpty :: "u32 \<Rightarrow> sHandleList \<Rightarrow> bool" where
  "HandleListIsEmpty idx psList \<longleftrightarrow> ui32Next psList = idx"

definition ParentHandle :: "sHandle \<Rightarrow> ptr" where "ParentHandle psHandle = hParent (sSiblings psHandle)"

text \<open>
  \<open>ins\<close> is the list of the index \<open>InsIndex\<close>, always the head (the parent); the entry is a sibling
  list. The pointer to the previous element is computed before the links change.
\<close>

definition HandleListInsertBefore :: "hbase \<Rightarrow> u32 \<Rightarrow> u32 \<Rightarrow> u32 \<Rightarrow> hbase option" where
  "HandleListInsertBefore psBase InsIndex EntryIndex ParentIndex = do {
     ins \<leftarrow> get_list psBase InsIndex ParentIndex;
     let prevIns = ui32Prev ins;
     b1 \<leftarrow> upd_h EntryIndex (\<lambda>h. h\<lparr>sSiblings := (sSiblings h)\<lparr>ui32Prev := ui32Prev ins\<rparr>\<rparr>) psBase;
     b2 \<leftarrow> upd_list InsIndex ParentIndex (\<lambda>l. l\<lparr>ui32Prev := EntryIndex\<rparr>) b1;
     b3 \<leftarrow> upd_h EntryIndex (\<lambda>h. h\<lparr>sSiblings := (sSiblings h)\<lparr>ui32Next := InsIndex\<rparr>\<rparr>) b2;
     b4 \<leftarrow> upd_list prevIns ParentIndex (\<lambda>l. l\<lparr>ui32Next := EntryIndex\<rparr>) b3;
     upd_h EntryIndex (\<lambda>h. h\<lparr>sSiblings := (sSiblings h)\<lparr>hParent := INDEX_TO_HANDLE ParentIndex\<rparr>\<rparr>) b4
   }"

definition AdoptChild :: "hbase \<Rightarrow> u32 \<Rightarrow> u32 \<Rightarrow> hbase option" where
  "AdoptChild psBase psParent psChild = do {
     p \<leftarrow> get_h psBase psParent;
     let Parent = HANDLE_TO_INDEX (hParent (sChildren p));
     HandleListInsertBefore psBase Parent psChild Parent
   }"

definition HandleListRemove :: "hbase \<Rightarrow> u32 \<Rightarrow> hbase option" where
  "HandleListRemove psBase EntryIndex = do {
     h \<leftarrow> get_h psBase EntryIndex;
     let e = sSiblings h;
     (if \<not> HandleListIsEmpty EntryIndex e then do {
        let par = HANDLE_TO_INDEX (hParent e);
        b1 \<leftarrow> upd_list (ui32Prev e) par (\<lambda>l. l\<lparr>ui32Next := ui32Next e\<rparr>) psBase;
        h1 \<leftarrow> get_h b1 EntryIndex;
        b2 \<leftarrow> upd_list (ui32Next e) par (\<lambda>l. l\<lparr>ui32Prev := ui32Prev (sSiblings h1)\<rparr>) b1;
        upd_h EntryIndex (\<lambda>h. h\<lparr>sSiblings := HandleListInit EntryIndex NULL\<rparr>) b2
      }
      else Some psBase)
   }"

definition UnlinkFromParent :: "hbase \<Rightarrow> u32 \<Rightarrow> hbase option" where
  "UnlinkFromParent psBase psHandle = HandleListRemove psBase psHandle"

definition GetHandleStructure ::
  "hbase \<Rightarrow> ptr \<Rightarrow> PVRSRV_HANDLE_TYPE \<Rightarrow> (PVRSRV_ERROR \<times> u32) option" where
  "GetHandleStructure psBase hHandle ty =
     (let idx = HANDLE_TO_INDEX hHandle
      in if \<not> INDEX_IS_VALID psBase idx then Some (PVRSRV_ERROR_GENERIC, 0)
         else do {
           h \<leftarrow> get_h psBase idx;
           (if eType h = PVRSRV_HANDLE_TYPE_NONE then Some (PVRSRV_ERROR_GENERIC, 0)
            else if ty \<noteq> PVRSRV_HANDLE_TYPE_NONE \<and> ty \<noteq> eType h then Some (PVRSRV_ERROR_GENERIC, 0)
            else Some (PVRSRV_OK, idx))
         })"

definition ParentIfPrivate :: "sHandle \<Rightarrow> ptr" where
  "ParentIfPrivate psHandle =
     (if TEST_ALLOC_FLAG psHandle PVRSRV_HANDLE_ALLOC_FLAG_PRIVATE then ParentHandle psHandle else NULL)"

definition InitKey :: "ptr \<Rightarrow> PVRSRV_HANDLE_TYPE \<Rightarrow> ptr \<Rightarrow> u32 list" where
  "InitKey data ty parent = [data, handle_type_u32 ty, parent]"

subsection \<open>Freeing handles\<close>

text \<open>
  \<open>FreeHandle\<close> and the iteration over the children call each other; the depth of calls is bounded
  by the fuel \<open>n\<close>, and \<open>None\<close> also stands for running out of it. \<open>free_fuel\<close> is enough for every
  well-formed base.
\<close>

fun FreeHandle :: "nat \<Rightarrow> hbase \<Rightarrow> u32 \<Rightarrow> kmem \<Rightarrow> (PVRSRV_ERROR \<times> hbase \<times> kmem) option"
  and HandleListIterate ::
    "nat \<Rightarrow> hbase \<Rightarrow> u32 \<Rightarrow> u32 \<Rightarrow> kmem \<Rightarrow> (PVRSRV_ERROR \<times> hbase \<times> kmem) option" where
  "FreeHandle 0 psBase psHandle km = None"
| "FreeHandle (Suc n) psBase psHandle km = do {
     h \<leftarrow> get_h psBase psHandle;
     let aKey = InitKey (pvData h) (eType h) (ParentIfPrivate h);
     let (b1, km1) =
       (if \<not> TEST_ALLOC_FLAG h PVRSRV_HANDLE_ALLOC_FLAG_MULTI \<and> \<not> BATCHED_HANDLE_PARTIALLY_FREE h
        then (case HASH_Remove_Extended (psHashTab psBase) aKey km of
                (_, t, km') \<Rightarrow> (psBase\<lparr>psHashTab := t\<rparr>, km'))
        else (psBase, km));
     b2 \<leftarrow> UnlinkFromParent b1 psHandle;
     h2 \<leftarrow> get_h b2 psHandle;
     (e, b3, km3) \<leftarrow> HandleListIterate n b2 (HANDLE_TO_INDEX (hParent (sChildren h2)))
                       (ui32Next (sChildren h2)) km1;
     (if e \<noteq> PVRSRV_OK then Some (e, b3, km3)
      else do {
        b4 \<leftarrow> upd_h psHandle (\<lambda>h. h\<lparr>eType := PVRSRV_HANDLE_TYPE_NONE\<rparr>) b3;
        h4 \<leftarrow> get_h b4 psHandle;
        (if BATCHED_HANDLE h4 \<and> \<not> BATCHED_HANDLE_PARTIALLY_FREE h4 then do {
           b5 \<leftarrow> upd_h psHandle SET_BATCHED_HANDLE_PARTIALLY_FREE b4;
           Some (PVRSRV_OK, b5, km3)
         }
         else do {
           b6 \<leftarrow> (if \<not> bPurgingEnabled b4 then do {
                    b5 \<leftarrow> (if ui32FreeHandCount b4 = 0 then Some (b4\<lparr>ui32FirstFreeIndex := psHandle\<rparr>)
                           else upd_h (ui32LastFreeIndexPlusOne b4 - 1)
                                  (\<lambda>h. h\<lparr>ui32NextIndexPlusOne := psHandle + 1\<rparr>) b4);
                    Some (b5\<lparr>ui32LastFreeIndexPlusOne := psHandle + 1\<rparr>)
                  }
                  else Some b4);
           Some (PVRSRV_OK, b6\<lparr>ui32FreeHandCount := ui32FreeHandCount b6 + 1\<rparr>, km3)
         })
      })
   }"
| "HandleListIterate 0 psBase Parent idx km = None"
| "HandleListIterate (Suc n) psBase Parent idx km =
     (if idx = Parent then Some (PVRSRV_OK, psBase, km)
      else do {
        entry \<leftarrow> get_list psBase idx Parent;
        (e, b1, km1) \<leftarrow> FreeHandle n psBase idx km;
        (if e \<noteq> PVRSRV_OK then Some (e, b1, km1)
         else HandleListIterate n b1 Parent (ui32Next entry) km1)
      })"

definition free_fuel :: "hbase \<Rightarrow> nat" where
  "free_fuel psBase = 2 * length (psHandleArray psBase) + 2"

text \<open>The handle count does not change while the loop runs, so the bound is fixed at its start.\<close>

function FreeAllHandles_loop :: "hbase \<Rightarrow> nat \<Rightarrow> nat \<Rightarrow> kmem \<Rightarrow> (PVRSRV_ERROR \<times> hbase \<times> kmem) option" where
  "FreeAllHandles_loop psBase i n km =
     (if i < n then do {
        h \<leftarrow> get_h psBase (of_nat i);
        (if eType h \<noteq> PVRSRV_HANDLE_TYPE_NONE then do {
           (e, b1, km1) \<leftarrow> FreeHandle (free_fuel psBase) psBase (of_nat i) km;
           (if e \<noteq> PVRSRV_OK then Some (e, b1, km1)
            else if ui32FreeHandCount b1 = ui32TotalHandCount b1 then Some (PVRSRV_OK, b1, km1)
            else FreeAllHandles_loop b1 (Suc i) n km1)
         }
         else FreeAllHandles_loop psBase (Suc i) n km)
      }
      else Some (PVRSRV_OK, psBase, km))"
  by pat_completeness auto
termination
  by (relation "measure (\<lambda>(b, i, n, km). n - i)") auto

declare FreeAllHandles_loop.simps [simp del]

definition FreeAllHandles :: "hbase \<Rightarrow> kmem \<Rightarrow> (PVRSRV_ERROR \<times> hbase \<times> kmem) option" where
  "FreeAllHandles psBase km =
     (if ui32FreeHandCount psBase = ui32TotalHandCount psBase then Some (PVRSRV_OK, psBase, km)
      else FreeAllHandles_loop psBase 0 (unat (ui32TotalHandCount psBase)) km)"

subsection \<open>Growing and shrinking the array\<close>

definition FindHandle :: "hbase \<Rightarrow> ptr \<Rightarrow> PVRSRV_HANDLE_TYPE \<Rightarrow> ptr \<Rightarrow> ptr" where
  "FindHandle psBase data ty parent = HASH_Retrieve_Extended (psHashTab psBase) (InitKey data ty parent)"

text \<open>
  \<^verbatim>\<open>ReallocMem\<close> on the array: the sizes are in bytes, in 32-bit arithmetic; the new memory keeps
  the common prefix and is not initialised beyond it.
\<close>

definition ReallocHandleArray :: "hbase \<Rightarrow> u32 \<Rightarrow> u32 \<Rightarrow> kmem \<Rightarrow> PVRSRV_ERROR \<times> hbase \<times> kmem" where
  "ReallocHandleArray psBase NewCount OldCount km =
     (let NewSize = NewCount * sizeof_sHandle; OldSize = OldCount * sizeof_sHandle
      in if NewSize = OldSize then (PVRSRV_OK, psBase, km)
         else if NewSize \<noteq> 0 then
           (case OSAllocMem km of (e, _, km') \<Rightarrow>
              if e \<noteq> PVRSRV_OK then (e, psBase, km')
              else let m = unat (NewSize div sizeof_sHandle);
                       kept = (if OldSize \<noteq> 0 then take m (psHandleArray psBase) else [])
                   in (PVRSRV_OK,
                       psBase\<lparr>psHandleArray := kept @ map (raw_hand psBase) [length kept..<m]\<rparr>, km'))
         else (PVRSRV_OK, psBase\<lparr>psHandleArray := []\<rparr>, km))"

fun init_handles :: "hbase \<Rightarrow> nat \<Rightarrow> nat \<Rightarrow> hbase option" where
  "init_handles psBase i 0 = Some psBase"
| "init_handles psBase i (Suc n) = do {
     b \<leftarrow> upd_h (of_nat i) (\<lambda>h. h\<lparr>eType := PVRSRV_HANDLE_TYPE_NONE,
            eInternalFlag := INTERNAL_HANDLE_FLAG_NONE, ui32NextIndexPlusOne := 0\<rparr>) psBase;
     init_handles b (Suc i) n
   }"

definition IncreaseHandleArraySize :: "hbase \<Rightarrow> u32 \<Rightarrow> kmem \<Rightarrow> (PVRSRV_ERROR \<times> hbase \<times> kmem) option" where
  "IncreaseHandleArraySize psBase Delta km =
     (let DeltaAdjusted0 = ROUND_UP_TO_MULTIPLE Delta HANDLE_BLOCK_SIZE;
          Total = ui32TotalHandCount psBase;
          NewTotal0 = Total + DeltaAdjusted0;
          capped = NewTotal0 > ui32MaxIndexPlusOne psBase \<or> NewTotal0 \<le> Total;
          NewTotal = (if capped then ui32MaxIndexPlusOne psBase else NewTotal0);
          DeltaAdjusted = (if capped then NewTotal - Total else DeltaAdjusted0)
      in if capped \<and> DeltaAdjusted < Delta then Some (PVRSRV_ERROR_OUT_OF_MEMORY, psBase, km)
         else case ReallocHandleArray psBase NewTotal Total km of (e, b1, km1) \<Rightarrow>
           if e \<noteq> PVRSRV_OK then Some (e, b1, km1)
           else do {
             b2 \<leftarrow> init_handles b1 (unat Total) (unat NewTotal - unat Total);
             let b3 = b2\<lparr>ui32FreeHandCount := ui32FreeHandCount b2 + DeltaAdjusted\<rparr>;
             b4 \<leftarrow> (if ui32FirstFreeIndex b3 = 0 then Some (b3\<lparr>ui32FirstFreeIndex := Total\<rparr>)
                    else if \<not> bPurgingEnabled b3
                    then upd_h (ui32LastFreeIndexPlusOne b3 - 1)
                           (\<lambda>h. h\<lparr>ui32NextIndexPlusOne := Total + 1\<rparr>) b3
                    else Some b3);
             let b5 = (if \<not> bPurgingEnabled b4 then b4\<lparr>ui32LastFreeIndexPlusOne := NewTotal\<rparr> else b4);
             Some (PVRSRV_OK, b5\<lparr>ui32TotalHandCount := NewTotal\<rparr>, km1)
           })"

definition EnsureFreeHandles :: "hbase \<Rightarrow> u32 \<Rightarrow> kmem \<Rightarrow> (PVRSRV_ERROR \<times> hbase \<times> kmem) option" where
  "EnsureFreeHandles psBase Free km =
     (if Free > ui32FreeHandCount psBase
      then IncreaseHandleArraySize psBase (Free - ui32FreeHandCount psBase) km
      else Some (PVRSRV_OK, psBase, km))"

subsection \<open>Allocating handles\<close>

text \<open>
  With purging enabled the free structure is searched from \<^verbatim>\<open>ui32FirstFreeIndex\<close>; the result is the
  final index and the last structure looked at (\<^verbatim>\<open>psNewHandle\<close>), which differ when no structure
  is free.
\<close>

function purge_scan :: "hbase \<Rightarrow> u32 \<Rightarrow> u32 option \<Rightarrow> (u32 \<times> u32 option) option" where
  "purge_scan psBase idx psNewHandle =
     (if idx < ui32TotalHandCount psBase then do {
        h \<leftarrow> get_h psBase idx;
        (if HANDLE_STRUCT_IS_FREE h then Some (idx, Some idx)
         else purge_scan psBase (idx + 1) (Some idx))
      }
      else Some (idx, psNewHandle))"
  by pat_completeness auto
termination
proof (relation "measure (\<lambda>(b, i, p). unat (ui32TotalHandCount b) - unat i)")
  fix b :: hbase and i :: u32 and p h
  assume "i < ui32TotalHandCount b"
  then have l: "unat i < unat (ui32TotalHandCount b)" by (simp add: word_less_nat_alt)
  have "unat (ui32TotalHandCount b) < 2 ^ 32" using unsigned_less [of "ui32TotalHandCount b"] by simp
  with l have "unat (i + 1) = unat i + 1" by (simp add: unat_word_ariths)
  with l show "((b, i + 1, Some i), b, i, p) \<in> measure (\<lambda>(b, i, p). unat (ui32TotalHandCount b) - unat i)"
    by simp
qed simp

declare purge_scan.simps [simp del]

definition AllocHandle ::
  "hbase \<Rightarrow> ptr \<Rightarrow> PVRSRV_HANDLE_TYPE \<Rightarrow> u32 \<Rightarrow> ptr \<Rightarrow> kmem \<Rightarrow> (PVRSRV_ERROR \<times> ptr \<times> hbase \<times> kmem) option" where
  "AllocHandle psBase data ty flag parent km = do {
     (e, b1, km1) \<leftarrow> EnsureFreeHandles psBase 1 km;
     (if e \<noteq> PVRSRV_OK then Some (e, NULL, b1, km1)
      else do {
        (NewIndex, NewHandle, b2) \<leftarrow>
          (if \<not> bPurgingEnabled b1 then Some (ui32FirstFreeIndex b1, Some (ui32FirstFreeIndex b1), b1)
           else do {
             (i, p) \<leftarrow> purge_scan b1 (ui32FirstFreeIndex b1) None;
             Some (i, p, b1\<lparr>ui32FirstFreeIndex := 0\<rparr>)
           });
        let hHandle = INDEX_TO_HANDLE NewIndex;
        let (ok, t, km2) =
          (if \<not> TEST_FLAG flag PVRSRV_HANDLE_ALLOC_FLAG_MULTI
           then HASH_Insert_Extended (psHashTab b2) (InitKey data ty parent) hHandle km1
           else (True, psHashTab b2, km1));
        let b3 = b2\<lparr>psHashTab := t\<rparr>;
        (if \<not> ok then Some (PVRSRV_ERROR_GENERIC, NULL, b3, km2)
         else do {
           pNew \<leftarrow> NewHandle;
           hNew \<leftarrow> get_h b3 pNew;
           let b4 = b3\<lparr>ui32FreeHandCount := ui32FreeHandCount b3 - 1\<rparr>;
           let b5 = (if \<not> bPurgingEnabled b4
                     then (if ui32FreeHandCount b4 = 0
                           then b4\<lparr>ui32LastFreeIndexPlusOne := 0, ui32FirstFreeIndex := 0\<rparr>
                           else b4\<lparr>ui32FirstFreeIndex :=
                                     (if ui32NextIndexPlusOne hNew = 0 then NewIndex + 1
                                      else ui32NextIndexPlusOne hNew - 1)\<rparr>)
                     else b4);
           b6 \<leftarrow> upd_h pNew (\<lambda>h. h\<lparr>eType := ty, pvData := data,
                     eInternalFlag := INTERNAL_HANDLE_FLAG_NONE, eFlag := flag, ui32Index := NewIndex\<rparr>) b5;
           b7 \<leftarrow> upd_h pNew (InitParentList pNew) b6;
           b8 \<leftarrow> upd_h pNew (InitChildEntry pNew) b7;
           b9 \<leftarrow> (if HANDLES_BATCHED b8 then do {
                    b \<leftarrow> upd_h pNew (\<lambda>h. h\<lparr>ui32NextIndexPlusOne := ui32FirstBatchIndexPlusOne b8\<rparr>) b8;
                    upd_h pNew SET_BATCHED_HANDLE (b\<lparr>ui32FirstBatchIndexPlusOne := NewIndex + 1\<rparr>)
                  }
                  else upd_h pNew (\<lambda>h. h\<lparr>ui32NextIndexPlusOne := 0\<rparr>) b8);
           Some (PVRSRV_OK, hHandle, b9, km2)
         })
      })
   }"

definition PVRSRVAllocHandle ::
  "hbase \<Rightarrow> ptr \<Rightarrow> PVRSRV_HANDLE_TYPE \<Rightarrow> u32 \<Rightarrow> kmem \<Rightarrow> (PVRSRV_ERROR \<times> ptr \<times> hbase \<times> kmem) option" where
  "PVRSRVAllocHandle psBase data ty flag km =
     (let b0 = (if HANDLES_BATCHED psBase
                then psBase\<lparr>ui32BatchHandAllocFailures := ui32BatchHandAllocFailures psBase + 1\<rparr>
                else psBase);
          exit_ok = (\<lambda>e h b km'. if HANDLES_BATCHED b \<and> e = PVRSRV_OK
                then Some (e, h, b\<lparr>ui32BatchHandAllocFailures := ui32BatchHandAllocFailures b - 1\<rparr>, km')
                else Some (e, h, b, km'));
          found = (if \<not> TEST_FLAG flag PVRSRV_HANDLE_ALLOC_FLAG_MULTI then FindHandle b0 data ty NULL else NULL)
      in if found \<noteq> NULL then do {
           (e, i) \<leftarrow> GetHandleStructure b0 found ty;
           (if e \<noteq> PVRSRV_OK then Some (e, NULL, b0, km)
            else do {
              h \<leftarrow> get_h b0 i;
              (if TEST_FLAG (eFlag h AND flag) PVRSRV_HANDLE_ALLOC_FLAG_SHARED
               then exit_ok PVRSRV_OK found b0 km
               else Some (PVRSRV_ERROR_GENERIC, NULL, b0, km))
            })
         }
         else do {
           (e, h, b1, km1) \<leftarrow> AllocHandle b0 data ty flag NULL km;
           exit_ok e h b1 km1
         })"

definition PVRSRVAllocSubHandle ::
  "hbase \<Rightarrow> ptr \<Rightarrow> PVRSRV_HANDLE_TYPE \<Rightarrow> u32 \<Rightarrow> ptr \<Rightarrow> kmem \<Rightarrow> (PVRSRV_ERROR \<times> ptr \<times> hbase \<times> kmem) option" where
  "PVRSRVAllocSubHandle psBase data ty flag parent km =
     (let b0 = (if HANDLES_BATCHED psBase
                then psBase\<lparr>ui32BatchHandAllocFailures := ui32BatchHandAllocFailures psBase + 1\<rparr>
                else psBase);
          exit_ok = (\<lambda>h b km'. if HANDLES_BATCHED b
                then Some (PVRSRV_OK, h, b\<lparr>ui32BatchHandAllocFailures := ui32BatchHandAllocFailures b - 1\<rparr>, km')
                else Some (PVRSRV_OK, h, b, km'));
          hParentKey = (if TEST_FLAG flag PVRSRV_HANDLE_ALLOC_FLAG_PRIVATE then parent else NULL)
      in do {
        (e0, p0) \<leftarrow> GetHandleStructure b0 parent PVRSRV_HANDLE_TYPE_NONE;
        (if e0 \<noteq> PVRSRV_OK then Some (PVRSRV_ERROR_GENERIC, NULL, b0, km)
         else
           let found = (if \<not> TEST_FLAG flag PVRSRV_HANDLE_ALLOC_FLAG_MULTI
                        then FindHandle b0 data ty hParentKey else NULL)
           in if found \<noteq> NULL then do {
                (e, i) \<leftarrow> GetHandleStructure b0 found ty;
                (if e \<noteq> PVRSRV_OK then Some (e, NULL, b0, km)
                 else do {
                   h \<leftarrow> get_h b0 i;
                   (if TEST_FLAG (eFlag h AND flag) PVRSRV_HANDLE_ALLOC_FLAG_SHARED
                    then do {
                      c \<leftarrow> get_h b0 (HANDLE_TO_INDEX found);
                      (if ParentHandle c = parent then exit_ok found b0 km
                       else Some (PVRSRV_ERROR_GENERIC, NULL, b0, km))
                    }
                    else Some (PVRSRV_ERROR_GENERIC, NULL, b0, km))
                 })
              }
              else do {
                (e, h, b1, km1) \<leftarrow> AllocHandle b0 data ty flag hParentKey km;
                (if e \<noteq> PVRSRV_OK then Some (e, NULL, b1, km1)
                 else do {
                   b2 \<leftarrow> AdoptChild b1 (HANDLE_TO_INDEX parent) (HANDLE_TO_INDEX h);
                   exit_ok h b2 km1
                 })
              })
      })"

subsection \<open>Looking handles up\<close>

definition PVRSRVFindHandle :: "hbase \<Rightarrow> ptr \<Rightarrow> PVRSRV_HANDLE_TYPE \<Rightarrow> PVRSRV_ERROR \<times> ptr" where
  "PVRSRVFindHandle psBase data ty =
     (let hHandle = FindHandle psBase data ty NULL
      in if hHandle = NULL then (PVRSRV_ERROR_GENERIC, NULL) else (PVRSRV_OK, hHandle))"

definition PVRSRVLookupHandleAnyType ::
  "hbase \<Rightarrow> ptr \<Rightarrow> (PVRSRV_ERROR \<times> ptr \<times> PVRSRV_HANDLE_TYPE) option" where
  "PVRSRVLookupHandleAnyType psBase hHandle = do {
     (e, i) \<leftarrow> GetHandleStructure psBase hHandle PVRSRV_HANDLE_TYPE_NONE;
     (if e \<noteq> PVRSRV_OK then Some (e, NULL, PVRSRV_HANDLE_TYPE_NONE)
      else do {
        h \<leftarrow> get_h psBase i;
        Some (PVRSRV_OK, pvData h, eType h)
      })
   }"

definition PVRSRVLookupHandle ::
  "hbase \<Rightarrow> ptr \<Rightarrow> PVRSRV_HANDLE_TYPE \<Rightarrow> (PVRSRV_ERROR \<times> ptr) option" where
  "PVRSRVLookupHandle psBase hHandle ty = do {
     (e, i) \<leftarrow> GetHandleStructure psBase hHandle ty;
     (if e \<noteq> PVRSRV_OK then Some (e, NULL)
      else do {
        h \<leftarrow> get_h psBase i;
        Some (PVRSRV_OK, pvData h)
      })
   }"

partial_function (option) ancestor_loop :: "hbase \<Rightarrow> u32 \<Rightarrow> ptr \<Rightarrow> PVRSRV_ERROR option" where
  "ancestor_loop psBase psPHand hAncestor = do {
     h \<leftarrow> get_h psBase psPHand;
     (if ParentHandle h = hAncestor then Some PVRSRV_OK
      else do {
        (e, p) \<leftarrow> GetHandleStructure psBase (ParentHandle h) PVRSRV_HANDLE_TYPE_NONE;
        (if e \<noteq> PVRSRV_OK then Some PVRSRV_ERROR_GENERIC else ancestor_loop psBase p hAncestor)
      })
   }"

definition PVRSRVLookupSubHandle ::
  "hbase \<Rightarrow> ptr \<Rightarrow> PVRSRV_HANDLE_TYPE \<Rightarrow> ptr \<Rightarrow> (PVRSRV_ERROR \<times> ptr) option" where
  "PVRSRVLookupSubHandle psBase hHandle ty hAncestor = do {
     (e, c) \<leftarrow> GetHandleStructure psBase hHandle ty;
     (if e \<noteq> PVRSRV_OK then Some (e, NULL)
      else do {
        e' \<leftarrow> ancestor_loop psBase c hAncestor;
        (if e' \<noteq> PVRSRV_OK then Some (e', NULL)
         else do {
           h \<leftarrow> get_h psBase c;
           Some (PVRSRV_OK, pvData h)
         })
      })
   }"

definition PVRSRVGetParentHandle ::
  "hbase \<Rightarrow> ptr \<Rightarrow> PVRSRV_HANDLE_TYPE \<Rightarrow> (PVRSRV_ERROR \<times> ptr) option" where
  "PVRSRVGetParentHandle psBase hHandle ty = do {
     (e, i) \<leftarrow> GetHandleStructure psBase hHandle ty;
     (if e \<noteq> PVRSRV_OK then Some (e, NULL)
      else do {
        h \<leftarrow> get_h psBase i;
        Some (PVRSRV_OK, ParentHandle h)
      })
   }"

definition PVRSRVLookupAndReleaseHandle ::
  "hbase \<Rightarrow> ptr \<Rightarrow> PVRSRV_HANDLE_TYPE \<Rightarrow> kmem \<Rightarrow> (PVRSRV_ERROR \<times> ptr \<times> hbase \<times> kmem) option" where
  "PVRSRVLookupAndReleaseHandle psBase hHandle ty km = do {
     (e, i) \<leftarrow> GetHandleStructure psBase hHandle ty;
     (if e \<noteq> PVRSRV_OK then Some (e, NULL, psBase, km)
      else do {
        h \<leftarrow> get_h psBase i;
        (e', b, km') \<leftarrow> FreeHandle (free_fuel psBase) psBase i km;
        Some (e', pvData h, b, km')
      })
   }"

definition PVRSRVReleaseHandle ::
  "hbase \<Rightarrow> ptr \<Rightarrow> PVRSRV_HANDLE_TYPE \<Rightarrow> kmem \<Rightarrow> (PVRSRV_ERROR \<times> hbase \<times> kmem) option" where
  "PVRSRVReleaseHandle psBase hHandle ty km = do {
     (e, i) \<leftarrow> GetHandleStructure psBase hHandle ty;
     (if e \<noteq> PVRSRV_OK then Some (e, psBase, km)
      else FreeHandle (free_fuel psBase) psBase i km)
   }"

subsection \<open>Batches\<close>

definition PVRSRVNewHandleBatch :: "hbase \<Rightarrow> u32 \<Rightarrow> kmem \<Rightarrow> (PVRSRV_ERROR \<times> hbase \<times> kmem) option" where
  "PVRSRVNewHandleBatch psBase BatchSize km =
     (if HANDLES_BATCHED psBase then Some (PVRSRV_ERROR_GENERIC, psBase, km)
      else if BatchSize = 0 then Some (PVRSRV_ERROR_INVALID_PARAMS, psBase, km)
      else do {
        (e, b1, km1) \<leftarrow> EnsureFreeHandles psBase BatchSize km;
        (if e \<noteq> PVRSRV_OK then Some (e, b1, km1)
         else Some (PVRSRV_OK, b1\<lparr>ui32HandBatchSize := BatchSize,
                                  ui32TotalHandCountPreBatch := ui32TotalHandCount b1\<rparr>, km1))
      })"

partial_function (option) batch_loop :: "hbase \<Rightarrow> bool \<Rightarrow> u32 \<Rightarrow> kmem \<Rightarrow> (hbase \<times> kmem) option" where
  "batch_loop psBase bCommitBatch IndexPlusOne km =
     (if IndexPlusOne \<noteq> 0 then do {
        let i = IndexPlusOne - 1;
        h \<leftarrow> get_h psBase i;
        let NextIndexPlusOne = ui32NextIndexPlusOne h;
        b1 \<leftarrow> upd_h i (\<lambda>h. h\<lparr>ui32NextIndexPlusOne := 0\<rparr>) psBase;
        (b3, km3) \<leftarrow>
          (if \<not> bCommitBatch \<or> BATCHED_HANDLE_PARTIALLY_FREE h then do {
             b2 \<leftarrow> (if \<not> BATCHED_HANDLE_PARTIALLY_FREE h then upd_h i SET_UNBATCHED_HANDLE b1 else Some b1);
             (e, b, km') \<leftarrow> FreeHandle (free_fuel b2) b2 i km;
             Some (b, km')
           }
           else do {
             b2 \<leftarrow> upd_h i SET_UNBATCHED_HANDLE b1;
             Some (b2, km)
           });
        batch_loop b3 bCommitBatch NextIndexPlusOne km3
      }
      else Some (psBase, km))"

text \<open>The final error test comes after the failure count has been cleared, as in the source.\<close>

definition PVRSRVHandleBatchCommitOrRelease ::
  "hbase \<Rightarrow> bool \<Rightarrow> kmem \<Rightarrow> (PVRSRV_ERROR \<times> hbase \<times> kmem) option" where
  "PVRSRVHandleBatchCommitOrRelease psBase bCommit km =
     (if \<not> HANDLES_BATCHED psBase then Some (PVRSRV_ERROR_INVALID_PARAMS, psBase, km)
      else do {
        let bCommitBatch = (if ui32BatchHandAllocFailures psBase \<noteq> 0 then False else bCommit);
        (b1, km1) \<leftarrow> batch_loop psBase bCommitBatch (ui32FirstBatchIndexPlusOne psBase) km;
        let b2 = b1\<lparr>ui32HandBatchSize := 0, ui32FirstBatchIndexPlusOne := 0,
                    ui32TotalHandCountPreBatch := 0, ui32BatchHandAllocFailures := 0\<rparr>;
        (if ui32BatchHandAllocFailures b2 \<noteq> 0 \<and> bCommit then Some (PVRSRV_ERROR_GENERIC, b2, km1)
         else Some (PVRSRV_OK, b2, km1))
      })"

definition PVRSRVCommitHandleBatch :: "hbase \<Rightarrow> kmem \<Rightarrow> (PVRSRV_ERROR \<times> hbase \<times> kmem) option" where
  "PVRSRVCommitHandleBatch psBase km = PVRSRVHandleBatchCommitOrRelease psBase True km"

definition PVRSRVReleaseHandleBatch :: "hbase \<Rightarrow> kmem \<Rightarrow> (hbase \<times> kmem) option" where
  "PVRSRVReleaseHandleBatch psBase km =
     map_option (\<lambda>(e, b, km'). (b, km')) (PVRSRVHandleBatchCommitOrRelease psBase False km)"

subsection \<open>Limits and purging\<close>

definition PVRSRVSetMaxHandle :: "hbase \<Rightarrow> u32 \<Rightarrow> PVRSRV_ERROR \<times> hbase" where
  "PVRSRVSetMaxHandle psBase MaxHandle =
     (if HANDLES_BATCHED psBase then (PVRSRV_ERROR_INVALID_PARAMS, psBase)
      else if MaxHandle = 0 \<or> MaxHandle > DEFAULT_MAX_INDEX_PLUS_ONE then (PVRSRV_ERROR_INVALID_PARAMS, psBase)
      else if ui32TotalHandCount psBase \<noteq> 0 then (PVRSRV_ERROR_INVALID_PARAMS, psBase)
      else (PVRSRV_OK, psBase\<lparr>ui32MaxIndexPlusOne := MaxHandle\<rparr>))"

definition PVRSRVGetMaxHandle :: "hbase \<Rightarrow> u32" where
  "PVRSRVGetMaxHandle psBase = ui32MaxIndexPlusOne psBase"

definition PVRSRVEnableHandlePurging :: "hbase \<Rightarrow> PVRSRV_ERROR \<times> hbase" where
  "PVRSRVEnableHandlePurging psBase =
     (if bPurgingEnabled psBase then (PVRSRV_OK, psBase)
      else if ui32TotalHandCount psBase \<noteq> 0 then (PVRSRV_ERROR_INVALID_PARAMS, psBase)
      else (PVRSRV_OK, psBase\<lparr>bPurgingEnabled := True\<rparr>))"

function last_used :: "hbase \<Rightarrow> u32 \<Rightarrow> u32 option" where
  "last_used psBase hand =
     (if hand \<noteq> 0 then do {
        h \<leftarrow> get_h psBase (HANDLE_TO_INDEX hand);
        (if \<not> HANDLE_STRUCT_IS_FREE h then Some hand else last_used psBase (hand - 1))
      }
      else Some hand)"
  by pat_completeness auto
termination
proof (relation "measure (\<lambda>(b, i). unat i)")
  fix b :: hbase and i :: u32 and h
  assume "i \<noteq> 0"
  then have "unat (i - 1) < unat i" by (metis unat_sub unat_1 unat_gt_0 diff_less word_neq_0_conv
        zero_less_one word_le_nat_alt Suc_leI One_nat_def)
  then show "((b, i - 1), b, i) \<in> measure (\<lambda>(b, i). unat i)" by simp
qed simp

declare last_used.simps [simp del]

definition PVRSRVPurgeHandles :: "hbase \<Rightarrow> kmem \<Rightarrow> (PVRSRV_ERROR \<times> hbase \<times> kmem) option" where
  "PVRSRVPurgeHandles psBase km =
     (if \<not> bPurgingEnabled psBase then Some (PVRSRV_ERROR_NOT_SUPPORTED, psBase, km)
      else if HANDLES_BATCHED psBase then Some (PVRSRV_ERROR_INVALID_PARAMS, psBase, km)
      else do {
        hand \<leftarrow> last_used psBase (ui32TotalHandCount psBase);
        let NewHandCount = ROUND_UP_TO_MULTIPLE hand HANDLE_BLOCK_SIZE;
        (if NewHandCount \<ge> hand \<and> NewHandCount \<le> ui32TotalHandCount psBase div 2
         then let Delta = ui32TotalHandCount psBase - NewHandCount
              in case ReallocHandleArray psBase NewHandCount (ui32TotalHandCount psBase) km of
                   (e, b1, km1) \<Rightarrow>
                     if e \<noteq> PVRSRV_OK then Some (e, b1, km1)
                     else Some (PVRSRV_OK, b1\<lparr>ui32TotalHandCount := NewHandCount,
                            ui32FreeHandCount := ui32FreeHandCount b1 - Delta, ui32FirstFreeIndex := 0\<rparr>, km1)
         else Some (PVRSRV_OK, psBase, km))
      })"

subsection \<open>Handle bases\<close>

text \<open>
  The result is the base without its memory: what remains after \<^verbatim>\<open>FreeHandleBase\<close> is nothing, so
  only the error code is returned on success.
\<close>

definition FreeHandleBase :: "hbase \<Rightarrow> kmem \<Rightarrow> (PVRSRV_ERROR \<times> hbase \<times> kmem) option" where
  "FreeHandleBase psBase km = do {
     (b1, km1) \<leftarrow> (if HANDLES_BATCHED psBase then PVRSRVReleaseHandleBatch psBase km else Some (psBase, km));
     (e, b2, km2) \<leftarrow> FreeAllHandles b1 km1;
     (if e \<noteq> PVRSRV_OK then Some (e, b2, km2)
      else Some (PVRSRV_OK, b2\<lparr>psHandleArray := []\<rparr>, km2))
   }"

definition PVRSRVAllocHandleBase :: "(nat \<Rightarrow> sHandle) \<Rightarrow> kmem \<Rightarrow> PVRSRV_ERROR \<times> hbase option \<times> kmem" where
  "PVRSRVAllocHandleBase raw km =
     (case OSAllocMem km of (e, _, km1) \<Rightarrow>
        if e \<noteq> PVRSRV_OK then (e, None, km1)
        else case HASH_Create_Extended HANDLE_HASH_TAB_INIT_SIZE (HAND_KEY_LEN * 4)
                    HASH_Func_Default HASH_Key_Comp_Default km1 of
            (None, km2) \<Rightarrow> (PVRSRV_ERROR_GENERIC, None, km2)
          | (Some t, km2) \<Rightarrow>
              (PVRSRV_OK, Some \<lparr>psHandleArray = [], psHashTab = t, ui32FreeHandCount = 0,
                 ui32FirstFreeIndex = 0, ui32MaxIndexPlusOne = DEFAULT_MAX_INDEX_PLUS_ONE,
                 ui32TotalHandCount = 0, ui32LastFreeIndexPlusOne = 0, ui32HandBatchSize = 0,
                 ui32TotalHandCountPreBatch = 0, ui32FirstBatchIndexPlusOne = 0,
                 ui32BatchHandAllocFailures = 0, bPurgingEnabled = False, raw_hand = raw\<rparr>, km2))"

definition PVRSRVFreeHandleBase :: "hbase \<Rightarrow> kmem \<Rightarrow> (PVRSRV_ERROR \<times> hbase \<times> kmem) option" where
  "PVRSRVFreeHandleBase psBase km = FreeHandleBase psBase km"

text \<open>The kernel's own base is the global \<^verbatim>\<open>gpsKernelHandleBase\<close>.\<close>

definition PVRSRVHandleDeInit :: "hbase option \<Rightarrow> kmem \<Rightarrow> (PVRSRV_ERROR \<times> hbase option \<times> kmem) option" where
  "PVRSRVHandleDeInit gpsKernelHandleBase km =
     (case gpsKernelHandleBase of
        None \<Rightarrow> Some (PVRSRV_OK, None, km)
      | Some b \<Rightarrow> do {
          (e, b', km') \<leftarrow> FreeHandleBase b km;
          Some (e, if e = PVRSRV_OK then None else Some b', km')
        })"

definition PVRSRVHandleInit :: "(nat \<Rightarrow> sHandle) \<Rightarrow> kmem \<Rightarrow> (PVRSRV_ERROR \<times> hbase option \<times> kmem) option" where
  "PVRSRVHandleInit raw km =
     (case PVRSRVAllocHandleBase raw km of (e, g, km1) \<Rightarrow>
        if e \<noteq> PVRSRV_OK then do {
          (_, g', km2) \<leftarrow> PVRSRVHandleDeInit g km1;
          Some (e, g', km2)
        }
        else case g of None \<Rightarrow> None | Some b \<Rightarrow>
          (case PVRSRVEnableHandlePurging b of (e', b') \<Rightarrow>
             if e' \<noteq> PVRSRV_OK then do {
               (_, g', km2) \<leftarrow> PVRSRVHandleDeInit (Some b') km1;
               Some (e', g', km2)
             }
             else Some (PVRSRV_OK, Some b', km1)))"

declare ancestor_loop.simps [code] batch_loop.simps [code]

end
