(* ===== verification/Pvr_Handle_Rep.thy ===== *)
theory Pvr_Handle_Rep
  imports Pvr_Handle Pvr_Dll
begin

text \<open>
  How a handle base represents a forest of handles and a free list. The circular lists of
  children are linked lists in the sense of \<open>dll\<close> whose two ends are the parent; the free list is
  a list of indices threaded through \<^verbatim>\<open>ui32NextIndexPlusOne\<close>, where 0 stands for the next index.
\<close>

subsection \<open>The array as a store\<close>

definition put_h :: "u32 \<Rightarrow> sHandle \<Rightarrow> hbase \<Rightarrow> hbase" where
  "put_h i h b = b\<lparr>psHandleArray := (psHandleArray b)[unat i := h]\<rparr>"

lemma upd_h_simp: "get_h b i = Some h \<Longrightarrow> upd_h i f b = Some (put_h i (f h) b)"
  by (auto simp: get_h_def upd_h_def put_h_def split: if_splits)

lemma get_put: "get_h b i = Some h0 \<Longrightarrow> get_h (put_h i h b) = (get_h b)(i \<mapsto> h)"
  by (auto simp: get_h_def put_h_def fun_eq_iff nth_list_update word_unat_eq_iff split: if_splits)

lemma put_h_sel [simp]:
  "psHashTab (put_h i h b) = psHashTab b" "ui32FreeHandCount (put_h i h b) = ui32FreeHandCount b"
  "ui32FirstFreeIndex (put_h i h b) = ui32FirstFreeIndex b"
  "ui32MaxIndexPlusOne (put_h i h b) = ui32MaxIndexPlusOne b"
  "ui32TotalHandCount (put_h i h b) = ui32TotalHandCount b"
  "ui32LastFreeIndexPlusOne (put_h i h b) = ui32LastFreeIndexPlusOne b"
  "ui32HandBatchSize (put_h i h b) = ui32HandBatchSize b"
  "ui32TotalHandCountPreBatch (put_h i h b) = ui32TotalHandCountPreBatch b"
  "ui32FirstBatchIndexPlusOne (put_h i h b) = ui32FirstBatchIndexPlusOne b"
  "ui32BatchHandAllocFailures (put_h i h b) = ui32BatchHandAllocFailures b"
  "bPurgingEnabled (put_h i h b) = bPurgingEnabled b" "raw_hand (put_h i h b) = raw_hand b"
  "length (psHandleArray (put_h i h b)) = length (psHandleArray b)"
  by (simp_all add: put_h_def)

lemma get_h_cong: "psHandleArray b' = psHandleArray b \<Longrightarrow> get_h b' = get_h b"
  by (simp add: get_h_def fun_eq_iff)

text \<open>The scalar fields of a base that list surgery and hash updates leave alone.\<close>

definition scalars :: "hbase \<Rightarrow> nat \<times> u32 \<times> u32 \<times> u32 \<times> u32 \<times> u32 \<times> u32 \<times> u32 \<times> u32 \<times> u32 \<times> bool" where
  "scalars b = (length (psHandleArray b), ui32FreeHandCount b, ui32FirstFreeIndex b, ui32MaxIndexPlusOne b,
     ui32TotalHandCount b, ui32LastFreeIndexPlusOne b, ui32HandBatchSize b, ui32TotalHandCountPreBatch b,
     ui32FirstBatchIndexPlusOne b, ui32BatchHandAllocFailures b, bPurgingEnabled b)"

lemma scalars_put [simp]: "scalars (put_h i h b) = scalars b"
  by (simp add: scalars_def)

lemma scalars_hash [simp]: "scalars (b\<lparr>psHashTab := t\<rparr>) = scalars b"
  by (simp add: scalars_def)

lemma get_h_hash [simp]: "get_h (b\<lparr>psHashTab := t\<rparr>) = get_h b"
  by (rule get_h_cong) simp

subsection \<open>Circular child lists\<close>

definition sibs :: "hbase \<Rightarrow> links" where
  "sibs b = (\<lambda>i. map_option (\<lambda>h. (ui32Next (sSiblings h), ui32Prev (sSiblings h))) (get_h b i))"

definition circ :: "hbase \<Rightarrow> u32 \<Rightarrow> u32 list \<Rightarrow> bool" where
  "circ b p cs \<longleftrightarrow> dll (sibs b) p cs p \<and> distinct (p # cs) \<and>
     (\<exists>h. get_h b p = Some h \<and> sChildren h = \<lparr>ui32Prev = lastd p cs, ui32Next = hdd p cs, hParent = p + 1\<rparr>) \<and>
     (\<forall>c \<in> set cs. \<exists>h. get_h b c = Some h \<and> hParent (sSiblings h) = p + 1)"

text \<open>What a list operation may change: the child lists of \<open>P\<close> and the sibling lists of \<open>S\<close>.\<close>

definition list_frame :: "u32 set \<Rightarrow> u32 set \<Rightarrow> hbase \<Rightarrow> hbase \<Rightarrow> bool" where
  "list_frame P S b b' \<longleftrightarrow> (\<forall>i h. get_h b i = Some h \<longrightarrow>
     (\<exists>c s. get_h b' i = Some (h\<lparr>sChildren := c, sSiblings := s\<rparr>) \<and>
        (i \<notin> P \<longrightarrow> c = sChildren h) \<and> (i \<notin> S \<longrightarrow> s = sSiblings h))) \<and>
     scalars b' = scalars b \<and> psHashTab b' = psHashTab b"

lemma list_frame_refl: "list_frame P S b b"
  unfolding list_frame_def
proof (intro conjI allI impI)
  fix i h assume "get_h b i = Some h"
  then show "\<exists>c s. get_h b i = Some (h\<lparr>sChildren := c, sSiblings := s\<rparr>) \<and>
      (i \<notin> P \<longrightarrow> c = sChildren h) \<and> (i \<notin> S \<longrightarrow> s = sSiblings h)"
    by (intro exI [of _ "sChildren h"] exI [of _ "sSiblings h"]) simp
qed simp_all

text \<open>Redirecting the last and the first node of a chain.\<close>

lemma dll_set_last:
  assumes "dll L b xs a" "distinct xs"
    and "\<And>q. q \<in> set xs \<Longrightarrow> L' q = (if q = last xs then map_option (\<lambda>(n, v). (a', v)) (L q) else L q)"
  shows "dll L' b xs a'"
  using assms
proof (induction xs arbitrary: b)
  case (Cons x xs)
  show ?case
  proof (cases "xs = []")
    case True
    then show ?thesis using Cons.prems by simp
  next
    case False
    then have "last xs \<noteq> x" using Cons.prems(2) last_in_set by fastforce
    moreover have "dll L' x xs a'" using Cons.IH [of x] Cons.prems False by simp
    moreover have "hdd a' xs = hdd a xs" using False by (cases xs) auto
    ultimately show ?thesis using Cons.prems False by auto
  qed
qed simp

lemma dll_set_first:
  assumes "dll L b xs a" "distinct xs"
    and "\<And>q. q \<in> set xs \<Longrightarrow> L' q = (if q = hd xs then map_option (\<lambda>(n, v). (n, b')) (L q) else L q)"
  shows "dll L' b' xs a"
proof (cases xs)
  case (Cons x ys)
  then have "dll L' x ys a = dll L x ys a" using assms(2,3) by (intro dll_frame) auto
  then show ?thesis using assms Cons by auto
qed simp

lemma dll_unlink_mid:
  assumes "dll L b (xs @ c # ys) a" "distinct (xs @ c # ys)"
    and "\<And>q. q \<in> set xs \<Longrightarrow> L' q = (if q = last xs then map_option (\<lambda>(n, v). (hdd a ys, v)) (L q) else L q)"
    and "\<And>q. q \<in> set ys \<Longrightarrow> L' q = (if q = hd ys then map_option (\<lambda>(n, v). (n, lastd b xs)) (L q) else L q)"
  shows "dll L' b (xs @ ys) a"
proof -
  have "dll L b xs c" "dll L c ys a" using assms(1) by (auto simp: dll_append)
  then have "dll L' b xs (hdd a ys)" "dll L' (lastd b xs) ys a"
    using assms(2-4) by (auto intro!: dll_set_last [of L b xs c] dll_set_first [of L c ys a])
  then show ?thesis by (simp add: dll_append)
qed

lemma dll_append_one:
  assumes "dll L b xs a" "distinct (xs @ [c])" "L' c = Some (a, lastd b xs)"
    and "\<And>q. q \<in> set xs \<Longrightarrow> L' q = (if q = last xs then map_option (\<lambda>(n, v). (c, v)) (L q) else L q)"
  shows "dll L' b (xs @ [c]) a"
proof -
  have "dll L' b xs c" using assms by (auto intro!: dll_set_last [of L b xs a])
  then show ?thesis using assms(3) by (simp add: dll_append)
qed

lemma circ_mid:
  assumes "circ b p (xs @ c # ys)"
  obtains h where "get_h b c = Some h"
    "sSiblings h = \<lparr>ui32Prev = lastd p xs, ui32Next = hdd p ys, hParent = p + 1\<rparr>" "c \<noteq> p" "hdd p ys \<noteq> c" "lastd p xs \<noteq> c"
proof -
  have "dll (sibs b) p (xs @ c # ys) p" using assms by (simp add: circ_def)
  then have l: "sibs b c = Some (hdd p ys, lastd p xs)" by (simp add: dll_append)
  obtain h where h: "get_h b c = Some h" "hParent (sSiblings h) = p + 1" using assms by (auto simp: circ_def)
  have "ui32Next (sSiblings h) = hdd p ys" "ui32Prev (sSiblings h) = lastd p xs" using l h(1) by (auto simp: sibs_def)
  moreover have "c \<noteq> p" "hdd p ys \<noteq> c" "lastd p xs \<noteq> c"
    using assms hdd_cases [of p ys] lastd_cases [of p xs] by (auto simp: circ_def)
  ultimately show ?thesis using that [OF h(1)] h(2) by (cases "sSiblings h") simp
qed

lemma HandleListRemove_spec:
  assumes ch: "circ b p (xs @ c # ys)"
  shows "\<exists>b'. HandleListRemove b c = Some b' \<and> circ b' p (xs @ ys) \<and>
     list_frame {p} (set (xs @ c # ys)) b b' \<and>
     (\<exists>h. get_h b' c = Some h \<and> sSiblings h = HandleListInit c NULL)"
proof -
  obtain h where h: "get_h b c = Some h"
    "sSiblings h = \<lparr>ui32Prev = lastd p xs, ui32Next = hdd p ys, hParent = p + 1\<rparr>" "c \<noteq> p" "hdd p ys \<noteq> c" "lastd p xs \<noteq> c"
    by (rule circ_mid [OF ch])
  let ?pr = "lastd p xs" and ?nx = "hdd p ys"
  have D: "distinct (p # xs @ c # ys)" using ch by (simp add: circ_def)
  obtain hp where hp: "get_h b p = Some hp" using ch by (auto simp: circ_def)
  have al: "\<exists>h. get_h b q = Some h" if "q \<in> set (xs @ c # ys)" for q using that ch by (auto simp: circ_def)
  obtain h1 where h1: "get_h b ?pr = Some h1" using lastd_cases [of p xs] hp al by auto
  obtain h2 where h2: "get_h b ?nx = Some h2" using hdd_cases [of p ys] hp al by auto
  define g1 where "g1 = (if ?pr = p then h1\<lparr>sChildren := (sChildren h1)\<lparr>ui32Next := ?nx\<rparr>\<rparr>
      else h1\<lparr>sSiblings := (sSiblings h1)\<lparr>ui32Next := ?nx\<rparr>\<rparr>)"
  define b1 where "b1 = put_h ?pr g1 b"
  have G1: "get_h b1 = (get_h b)(?pr \<mapsto> g1)" unfolding b1_def by (rule get_put [OF h1])
  obtain k2 where k2: "get_h b1 ?nx = Some k2" using G1 h2 by (cases "?nx = ?pr") auto
  define g2 where "g2 = (if ?nx = p then k2\<lparr>sChildren := (sChildren k2)\<lparr>ui32Prev := ?pr\<rparr>\<rparr>
      else k2\<lparr>sSiblings := (sSiblings k2)\<lparr>ui32Prev := ?pr\<rparr>\<rparr>)"
  define b2 where "b2 = put_h ?nx g2 b1"
  have G2: "get_h b2 = (get_h b1)(?nx \<mapsto> g2)" unfolding b2_def by (rule get_put [OF k2])
  have c2: "get_h b2 c = Some h" using G2 G1 h by simp
  define b3 where "b3 = put_h c (h\<lparr>sSiblings := HandleListInit c NULL\<rparr>) b2"
  have G3: "get_h b3 = (get_h b2)(c \<mapsto> h\<lparr>sSiblings := HandleListInit c NULL\<rparr>)"
    unfolding b3_def by (rule get_put [OF c2])
  have run: "HandleListRemove b c = Some b3"
  proof -
    have i1: "\<not> HandleListIsEmpty c (sSiblings h)" "HANDLE_TO_INDEX (hParent (sSiblings h)) = p"
      using h by (auto simp: HandleListIsEmpty_def HANDLE_TO_INDEX_def)
    have c1: "get_h b1 c = Some h" using G1 h by simp
    have "upd_list ?pr p (\<lambda>l. l\<lparr>ui32Next := ?nx\<rparr>) b = Some b1"
      unfolding upd_list_def b1_def g1_def by (subst upd_h_simp [OF h1]) simp
    moreover have "upd_list ?nx p (\<lambda>l. l\<lparr>ui32Prev := ?pr\<rparr>) b1 = Some b2"
      unfolding upd_list_def b2_def g2_def by (subst upd_h_simp [OF k2]) simp
    moreover have "upd_h c (\<lambda>h. h\<lparr>sSiblings := HandleListInit c NULL\<rparr>) b2 = Some b3"
      unfolding b3_def by (rule upd_h_simp [OF c2])
    ultimately show ?thesis using h(1,2) i1 c1 by (simp add: HandleListRemove_def Let_def)
  qed
  have pr: "?pr = p \<longleftrightarrow> xs = []" "xs \<noteq> [] \<Longrightarrow> ?pr = last xs \<and> ?pr \<in> set xs"
    and nx: "?nx = p \<longleftrightarrow> ys = []" "ys \<noteq> [] \<Longrightarrow> ?nx = hd ys \<and> ?nx \<in> set ys"
    using lastd_cases [of p xs] hdd_cases [of p ys] D lastd_nonempty [of xs p] hdd_nonempty [of ys p] by auto
  have ne: "ys \<noteq> [] \<Longrightarrow> ?nx \<noteq> ?pr" using nx pr D lastd_cases [of p xs] by auto
  have gx: "get_h b3 q = (if q = last xs then map_option (\<lambda>h. h\<lparr>sSiblings := (sSiblings h)\<lparr>ui32Next := ?nx\<rparr>\<rparr>) (get_h b q)
      else get_h b q)" if "q \<in> set xs" for q
  proof -
    have q: "q \<noteq> c" "q \<noteq> p" "q \<noteq> ?nx" "xs \<noteq> []" using that D nx by auto
    then have e: "get_h b3 q = get_h b1 q" "?pr = last xs" "?pr \<noteq> p" using pr by (simp_all add: G3 G2)
    show ?thesis
    proof (cases "q = last xs")
      case True
      then have "get_h b q = Some h1" using e(2) h1 by simp
      then show ?thesis using True e by (simp add: G1 g1_def)
    next
      case False
      then show ?thesis using e by (simp add: G1)
    qed
  qed
  have gy: "get_h b3 q = (if q = hd ys then map_option (\<lambda>h. h\<lparr>sSiblings := (sSiblings h)\<lparr>ui32Prev := ?pr\<rparr>\<rparr>) (get_h b q)
      else get_h b q)" if "q \<in> set ys" for q
  proof -
    have q: "q \<noteq> c" "q \<noteq> p" "ys \<noteq> []" using that D by auto
    have qp: "q \<noteq> ?pr" using that D lastd_cases [of p xs] q by auto
    have e: "?nx = hd ys" "?nx \<noteq> p" using nx q by simp_all
    show ?thesis
    proof (cases "q = hd ys")
      case True
      then have "get_h b q = Some k2" using k2 qp e(1) by (simp add: G1)
      then show ?thesis using True q e by (simp add: G3 G2 g2_def)
    next
      case False
      then show ?thesis using q qp e by (simp add: G3 G2 G1)
    qed
  qed
  have hpc: "sChildren hp = \<lparr>ui32Prev = lastd p (xs @ c # ys), ui32Next = hdd p (xs @ c # ys), hParent = p + 1\<rparr>"
    using ch hp by (auto simp: circ_def)
  have gp: "get_h b3 p = Some (hp\<lparr>sChildren := \<lparr>ui32Prev = lastd p (xs @ ys), ui32Next = hdd p (xs @ ys), hParent = p + 1\<rparr>\<rparr>)"
  proof (cases "xs = []"; cases "ys = []")
    assume e: "xs = []" "ys = []"
    then have "h1 = hp" "k2 = g1" using h1 hp k2 G1 by auto
    then show ?thesis using e h(3) hpc by (simp add: G3 G2 G1 g1_def g2_def)
  next
    assume e: "xs = []" "ys \<noteq> []"
    then have "h1 = hp" "?nx \<noteq> p" "lastd c ys = lastd p ys"
      using h1 hp nx by (auto simp: lastd_nonempty)
    then show ?thesis using e h(3) hpc by (simp add: G3 G2 G1 g1_def g2_def)
  next
    assume e: "xs \<noteq> []" "ys = []"
    then have "k2 = hp" "?pr \<noteq> p" "hdd c xs = hdd p xs"
      using k2 hp G1 pr by (auto simp: hdd_nonempty)
    then show ?thesis using e h(3) hpc by (simp add: G3 G2 G1 g1_def g2_def)
  next
    assume e: "xs \<noteq> []" "ys \<noteq> []"
    then have "p \<noteq> ?nx" "p \<noteq> ?pr" "hdd c xs = hdd (hdd p ys) xs" "lastd c ys = lastd (lastd p xs) ys"
      using pr nx by (auto simp: hdd_nonempty lastd_nonempty)
    then show ?thesis using e h(3) hpc hp by (simp add: G3 G2 G1)
  qed
  have gc: "get_h b3 c = Some (h\<lparr>sSiblings := HandleListInit c NULL\<rparr>)" by (simp add: G3)
  have go: "get_h b3 q = get_h b q" if "q \<notin> set (p # xs @ c # ys)" for q
    using that lastd_cases [of p xs] hdd_cases [of p ys] by (auto simp: G3 G2 G1)
  have "dll (sibs b3) p (xs @ ys) p"
  proof (rule dll_unlink_mid [of "sibs b" p xs c ys p])
    show "dll (sibs b) p (xs @ c # ys) p" using ch by (simp add: circ_def)
    show "distinct (xs @ c # ys)" using D by simp
    show "sibs b3 q = (if q = last xs then map_option (\<lambda>(n, v). (?nx, v)) (sibs b q) else sibs b q)"
      if "q \<in> set xs" for q using gx [OF that] by (auto simp: sibs_def option.map_comp comp_def)
    show "sibs b3 q = (if q = hd ys then map_option (\<lambda>(n, v). (n, ?pr)) (sibs b q) else sibs b q)"
      if "q \<in> set ys" for q using gy [OF that] by (auto simp: sibs_def option.map_comp comp_def)
  qed
  moreover have "\<exists>h. get_h b3 q = Some h \<and> hParent (sSiblings h) = p + 1" if q: "q \<in> set (xs @ ys)" for q
  proof -
    have "\<exists>h. get_h b q = Some h \<and> hParent (sSiblings h) = p + 1" using ch q by (auto simp: circ_def)
    then show ?thesis using gx [of q] gy [of q] q by auto
  qed
  ultimately have "circ b3 p (xs @ ys)" using D gp by (auto simp: circ_def)
  moreover have "list_frame {p} (set (xs @ c # ys)) b b3"
    unfolding list_frame_def
  proof (intro conjI allI impI)
    fix i hi assume i: "get_h b i = Some hi"
    consider (par) "i = p" | (lst) "i \<in> set (xs @ c # ys)" "i \<noteq> p" | (oth) "i \<notin> set (p # xs @ c # ys)" by auto
    then show "\<exists>k s. get_h b3 i = Some (hi\<lparr>sChildren := k, sSiblings := s\<rparr>) \<and>
        (i \<notin> {p} \<longrightarrow> k = sChildren hi) \<and> (i \<notin> set (xs @ c # ys) \<longrightarrow> s = sSiblings hi)"
    proof cases
      case par
      then show ?thesis using gp hp i
        by (intro exI [of _ "\<lparr>ui32Prev = lastd p (xs @ ys), ui32Next = hdd p (xs @ ys), hParent = p + 1\<rparr>"]
            exI [of _ "sSiblings hi"]) auto
    next
      case lst
      have "get_h b3 i = Some (hi\<lparr>sSiblings := (if i = last xs then (sSiblings hi)\<lparr>ui32Next := ?nx\<rparr> else sSiblings hi)\<rparr>)"
        if "i \<in> set xs" using gx [OF that] i by (cases "i = last xs") auto
      moreover have "get_h b3 i = Some (hi\<lparr>sSiblings := (if i = hd ys then (sSiblings hi)\<lparr>ui32Prev := ?pr\<rparr> else sSiblings hi)\<rparr>)"
        if "i \<in> set ys" using gy [OF that] i by (cases "i = hd ys") auto
      moreover have "get_h b3 i = Some (hi\<lparr>sSiblings := HandleListInit c NULL\<rparr>)" if "i = c" using gc h(1) i that by simp
      ultimately have "\<exists>s. get_h b3 i = Some (hi\<lparr>sSiblings := s\<rparr>)" using lst by auto
      then show ?thesis using lst by auto
    next
      case oth
      then show ?thesis using go [OF oth] i by (intro exI [of _ "sChildren hi"] exI [of _ "sSiblings hi"]) simp
    qed
  qed (simp_all add: b3_def b2_def b1_def)
  ultimately show ?thesis using run gc by auto
qed

text \<open>An unlinked handle has itself as its only sibling; removing it again changes nothing.\<close>

lemma HandleListRemove_empty:
  "get_h b c = Some h \<Longrightarrow> ui32Next (sSiblings h) = c \<Longrightarrow> HandleListRemove b c = Some b"
  by (simp add: HandleListRemove_def HandleListIsEmpty_def Let_def)

lemma AdoptChild_spec:
  assumes ch: "circ b p cs" and c: "c \<notin> set (p # cs)" "get_h b c = Some hc"
  shows "\<exists>b'. AdoptChild b p c = Some b' \<and> circ b' p (cs @ [c]) \<and> list_frame {p} (set (cs @ [c])) b b'"
proof -
  let ?pr = "lastd p cs"
  have D: "distinct (p # cs)" using ch by (simp add: circ_def)
  obtain hp where hp: "get_h b p = Some hp" "sChildren hp = \<lparr>ui32Prev = ?pr, ui32Next = hdd p cs, hParent = p + 1\<rparr>"
    using ch by (auto simp: circ_def)
  have pc: "p \<noteq> c" "?pr \<noteq> c" using c lastd_cases [of p cs] by auto
  define h1 where "h1 = hc\<lparr>sSiblings := (sSiblings hc)\<lparr>ui32Prev := ?pr\<rparr>\<rparr>"
  define b1 where "b1 = put_h c h1 b"
  have G1: "get_h b1 = (get_h b)(c \<mapsto> h1)" unfolding b1_def by (rule get_put [OF c(2)])
  have p1: "get_h b1 p = Some hp" using G1 hp pc by simp
  define h2 where "h2 = hp\<lparr>sChildren := (sChildren hp)\<lparr>ui32Prev := c\<rparr>\<rparr>"
  define b2 where "b2 = put_h p h2 b1"
  have G2: "get_h b2 = (get_h b1)(p \<mapsto> h2)" unfolding b2_def by (rule get_put [OF p1])
  have c2: "get_h b2 c = Some h1" using G2 G1 pc by simp
  define h3 where "h3 = h1\<lparr>sSiblings := (sSiblings h1)\<lparr>ui32Next := p\<rparr>\<rparr>"
  define b3 where "b3 = put_h c h3 b2"
  have G3: "get_h b3 = (get_h b2)(c \<mapsto> h3)" unfolding b3_def by (rule get_put [OF c2])
  obtain h0 where h0: "get_h b ?pr = Some h0" using hp ch lastd_cases [of p cs] by (auto simp: circ_def)
  obtain k where k: "get_h b3 ?pr = Some k" using G3 G2 G1 h0 pc by (cases "?pr = p") auto
  define h4 where "h4 = (if ?pr = p then k\<lparr>sChildren := (sChildren k)\<lparr>ui32Next := c\<rparr>\<rparr>
      else k\<lparr>sSiblings := (sSiblings k)\<lparr>ui32Next := c\<rparr>\<rparr>)"
  define b4 where "b4 = put_h ?pr h4 b3"
  have G4: "get_h b4 = (get_h b3)(?pr \<mapsto> h4)" unfolding b4_def by (rule get_put [OF k])
  have c4: "get_h b4 c = Some h3" using G4 G3 pc by simp
  define h5 where "h5 = h3\<lparr>sSiblings := (sSiblings h3)\<lparr>hParent := p + 1\<rparr>\<rparr>"
  define b5 where "b5 = put_h c h5 b4"
  have G5: "get_h b5 = (get_h b4)(c \<mapsto> h5)" unfolding b5_def by (rule get_put [OF c4])
  have run: "AdoptChild b p c = Some b5"
  proof -
    have "upd_list p p (\<lambda>l. l\<lparr>ui32Prev := c\<rparr>) b1 = Some b2"
      unfolding upd_list_def b2_def h2_def by (subst upd_h_simp [OF p1]) simp
    moreover have "upd_list ?pr p (\<lambda>l. l\<lparr>ui32Next := c\<rparr>) b3 = Some b4"
      unfolding upd_list_def b4_def h4_def by (subst upd_h_simp [OF k]) simp
    ultimately show ?thesis
      using hp upd_h_simp [OF c(2)] upd_h_simp [OF c2] upd_h_simp [OF c4]
      by (simp add: AdoptChild_def HandleListInsertBefore_def Let_def HANDLE_TO_INDEX_def INDEX_TO_HANDLE_def
          get_list_def b1_def [symmetric] h1_def [symmetric] b3_def [symmetric] h3_def [symmetric]
          b5_def [symmetric] h5_def [symmetric])
  qed
  have pr: "?pr = p \<longleftrightarrow> cs = []" "cs \<noteq> [] \<Longrightarrow> ?pr = last cs"
    using lastd_cases [of p cs] D lastd_nonempty [of cs p] by auto
  have gc: "get_h b5 c = Some (hc\<lparr>sSiblings := \<lparr>ui32Prev = ?pr, ui32Next = p, hParent = p + 1\<rparr>\<rparr>)"
    by (simp add: G5 h5_def h3_def h1_def)
  have gp: "get_h b5 p = Some (hp\<lparr>sChildren := \<lparr>ui32Prev = c, ui32Next = hdd p (cs @ [c]), hParent = p + 1\<rparr>\<rparr>)"
  proof (cases "cs = []")
    case True
    then have "k = h2" using k G3 G2 pc pr by simp
    then show ?thesis using True pc pr hp by (simp add: G5 G4 h4_def h2_def)
  next
    case False
    then have "hdd p cs = hdd c cs" by (simp add: hdd_nonempty)
    then show ?thesis using False pc pr hp by (simp add: G5 G4 G3 G2 h2_def)
  qed
  have gx: "get_h b5 q = (if q = last cs then map_option (\<lambda>h. h\<lparr>sSiblings := (sSiblings h)\<lparr>ui32Next := c\<rparr>\<rparr>) (get_h b q)
      else get_h b q)" if "q \<in> set cs" for q
  proof -
    have q: "q \<noteq> c" "q \<noteq> p" "cs \<noteq> []" using that c D by auto
    show ?thesis
    proof (cases "q = last cs")
      case True
      then have "get_h b q = Some k" using k pr q G3 G2 G1 by simp
      then show ?thesis using True q pr by (simp add: G5 G4 h4_def)
    next
      case False
      then show ?thesis using q pr by (simp add: G5 G4 G3 G2 G1)
    qed
  qed
  have go: "get_h b5 q = get_h b q" if "q \<notin> set (p # cs @ [c])" for q
    using that lastd_cases [of p cs] by (auto simp: G5 G4 G3 G2 G1)
  have "dll (sibs b5) p (cs @ [c]) p"
  proof (rule dll_append_one [of "sibs b"])
    show "dll (sibs b) p cs p" using ch by (simp add: circ_def)
    show "distinct (cs @ [c])" using D c by simp
    show "sibs b5 c = Some (p, ?pr)" by (simp add: sibs_def gc)
    show "sibs b5 q = (if q = last cs then map_option (\<lambda>(n, v). (c, v)) (sibs b q) else sibs b q)"
      if "q \<in> set cs" for q using gx [OF that] by (auto simp: sibs_def option.map_comp comp_def)
  qed
  moreover have "\<exists>h. get_h b5 q = Some h \<and> hParent (sSiblings h) = p + 1" if q: "q \<in> set cs" for q
  proof -
    have "\<exists>h. get_h b q = Some h \<and> hParent (sSiblings h) = p + 1" using ch q by (auto simp: circ_def)
    then show ?thesis using gx [OF q] by auto
  qed
  ultimately have "circ b5 p (cs @ [c])" using D c gp gc by (auto simp: circ_def)
  moreover have "list_frame {p} (set (cs @ [c])) b b5"
    unfolding list_frame_def
  proof (intro conjI allI impI)
    fix i hi assume i: "get_h b i = Some hi"
    consider (par) "i = p" | (lst) "i \<in> set (cs @ [c])" "i \<noteq> p" | (oth) "i \<notin> set (p # cs @ [c])" by auto
    then show "\<exists>k s. get_h b5 i = Some (hi\<lparr>sChildren := k, sSiblings := s\<rparr>) \<and>
        (i \<notin> {p} \<longrightarrow> k = sChildren hi) \<and> (i \<notin> set (cs @ [c]) \<longrightarrow> s = sSiblings hi)"
    proof cases
      case par
      then show ?thesis using gp hp i
        by (intro exI [of _ "\<lparr>ui32Prev = c, ui32Next = hdd p (cs @ [c]), hParent = p + 1\<rparr>"]
            exI [of _ "sSiblings hi"]) auto
    next
      case lst
      have "get_h b5 i = Some (hi\<lparr>sSiblings := (if i = last cs then (sSiblings hi)\<lparr>ui32Next := c\<rparr> else sSiblings hi)\<rparr>)"
        if "i \<in> set cs" using gx [OF that] i by (cases "i = last cs") auto
      moreover have "get_h b5 i = Some (hi\<lparr>sSiblings := \<lparr>ui32Prev = ?pr, ui32Next = p, hParent = p + 1\<rparr>\<rparr>)"
        if "i = c" using gc c(2) i that by simp
      ultimately have "\<exists>s. get_h b5 i = Some (hi\<lparr>sSiblings := s\<rparr>)" using lst by auto
      then show ?thesis using lst by auto
    next
      case oth
      then show ?thesis using go [OF oth] i by (intro exI [of _ "sChildren hi"] exI [of _ "sSiblings hi"]) simp
    qed
  qed (simp_all add: b5_def b4_def b3_def b2_def b1_def)
  ultimately show ?thesis using run by blast
qed

end
