(* ===== verification/Pvr_Handle_Tree.thy ===== *)
theory Pvr_Handle_Tree
  imports Pvr_Handle_Rep
begin

text \<open>
  The forest of handles of a base and its free list, and the proof that \<^verbatim>\<open>FreeHandle\<close> takes
  exactly one subtree out of the forest and appends its handles, children first, to the free list.
\<close>

lemma get_h_upd [simp]:
  "get_h (b\<lparr>ui32FreeHandCount := x\<rparr>) = get_h b" "get_h (b\<lparr>ui32FirstFreeIndex := x\<rparr>) = get_h b"
  "get_h (b\<lparr>ui32LastFreeIndexPlusOne := x\<rparr>) = get_h b" "get_h (b\<lparr>ui32TotalHandCount := x\<rparr>) = get_h b"
  "get_h (b\<lparr>ui32MaxIndexPlusOne := x\<rparr>) = get_h b" "get_h (b\<lparr>ui32FirstBatchIndexPlusOne := x\<rparr>) = get_h b"
  "get_h (b\<lparr>ui32HandBatchSize := x\<rparr>) = get_h b" "get_h (b\<lparr>ui32BatchHandAllocFailures := x\<rparr>) = get_h b"
  by (simp_all add: get_h_def fun_eq_iff)

subsection \<open>Handle trees\<close>

datatype htree = HNode (root: u32) (kids: "htree list")

primrec nodes :: "htree \<Rightarrow> u32 list" where
  "nodes (HNode i ts) = i # concat (map nodes ts)"

primrec post :: "htree \<Rightarrow> u32 list" where
  "post (HNode i ts) = concat (map post ts) @ [i]"

abbreviation fnodes :: "htree list \<Rightarrow> u32 list" where
  "fnodes ts \<equiv> concat (map nodes ts)"

abbreviation fpost :: "htree list \<Rightarrow> u32 list" where
  "fpost ts \<equiv> concat (map post ts)"

lemma root_in_nodes [simp]: "root t \<in> set (nodes t)"
  by (cases t) simp

lemma roots_in_fnodes: "set (map root ts) \<subseteq> set (fnodes ts)"
  by (induction ts) auto

lemma mset_post: "mset (post t) = mset (nodes t)"
proof (induction t)
  case (HNode i ts)
  then have "mset (fpost ts) = mset (fnodes ts)"
    by (induction ts) auto
  then show ?case by simp
qed

lemma post_simps [simp]:
  "set (post t) = set (nodes t)" "length (post t) = length (nodes t)" "distinct (post t) = distinct (nodes t)"
  using mset_post [of t] by (auto dest: mset_eq_setD mset_eq_length mset_eq_imp_distinct_iff)

lemma mset_fpost: "mset (fpost ts) = mset (fnodes ts)"
  by (induction ts) (auto simp: mset_post)

lemma fpost_simps [simp]:
  "set (fpost ts) = set (fnodes ts)" "length (fpost ts) = length (fnodes ts)" "distinct (fpost ts) = distinct (fnodes ts)"
  using mset_fpost [of ts] by (auto dest: mset_eq_setD mset_eq_length mset_eq_imp_distinct_iff)

primrec tree_rep :: "hbase \<Rightarrow> htree \<Rightarrow> bool" where
  "tree_rep b (HNode i ts) \<longleftrightarrow>
     circ b i (map root ts) \<and> list_all (tree_rep b) ts \<and>
     (\<exists>h. get_h b i = Some h \<and> eType h \<noteq> PVRSRV_HANDLE_TYPE_NONE \<and> eInternalFlag h = INTERNAL_HANDLE_FLAG_NONE \<and>
        ui32NextIndexPlusOne h = 0)"

lemma tree_rep_node:
  "tree_rep b t \<Longrightarrow> i \<in> set (nodes t) \<Longrightarrow>
   \<exists>h. get_h b i = Some h \<and> eType h \<noteq> PVRSRV_HANDLE_TYPE_NONE \<and> eInternalFlag h = INTERNAL_HANDLE_FLAG_NONE \<and>
        ui32NextIndexPlusOne h = 0"
proof (induction t)
  case (HNode j ts)
  then show ?case by (auto simp: list_all_iff)
qed

subsection \<open>What an operation leaves alone\<close>

text \<open>
  Outside the handles \<open>N\<close>, only the child lists of \<open>P\<close>, the sibling lists of \<open>S\<close> and the free
  links of \<open>F\<close> change.
\<close>

definition hrel :: "u32 set \<Rightarrow> u32 set \<Rightarrow> u32 set \<Rightarrow> u32 \<Rightarrow> sHandle \<Rightarrow> sHandle \<Rightarrow> bool" where
  "hrel P S F i h h' \<longleftrightarrow> eType h' = eType h \<and> pvData h' = pvData h \<and> eFlag h' = eFlag h \<and>
     eInternalFlag h' = eInternalFlag h \<and> ui32Index h' = ui32Index h \<and>
     (i \<notin> P \<longrightarrow> sChildren h' = sChildren h) \<and> (i \<notin> S \<longrightarrow> sSiblings h' = sSiblings h) \<and>
     (i \<notin> F \<longrightarrow> ui32NextIndexPlusOne h' = ui32NextIndexPlusOne h)"

definition hframe :: "u32 set \<Rightarrow> u32 set \<Rightarrow> u32 set \<Rightarrow> u32 set \<Rightarrow> hbase \<Rightarrow> hbase \<Rightarrow> bool" where
  "hframe N P S F b b' \<longleftrightarrow>
     (\<forall>i h. get_h b i = Some h \<longrightarrow> i \<notin> N \<longrightarrow> (\<exists>h'. get_h b' i = Some h' \<and> hrel P S F i h h'))"

lemma hrel_refl [simp]: "hrel P S F i h h"
  by (simp add: hrel_def)

lemma hrel_same: "hrel P S F i h h' \<Longrightarrow> i \<notin> P \<Longrightarrow> i \<notin> S \<Longrightarrow> i \<notin> F \<Longrightarrow> h' = h"
  by (simp add: hrel_def)

lemma hframe_get:
  assumes "hframe N P S F b b'" "get_h b i = Some h" "i \<notin> N"
  obtains h' where "get_h b' i = Some h'" "hrel P S F i h h'"
  using assms unfolding hframe_def by blast

lemma hframe_same:
  assumes "hframe N P S F b b'" "get_h b i = Some h" "i \<notin> N \<union> P \<union> S \<union> F"
  shows "get_h b' i = Some h"
proof -
  obtain h' where "get_h b' i = Some h'" "hrel P S F i h h'"
    by (rule hframe_get [OF assms(1,2)]) (use assms(3) in auto)
  then show ?thesis using hrel_same [of P S F i h h'] assms(3) by auto
qed

lemma hframe_list:
  assumes "list_frame P S b b'"
  shows "hframe {} P S {} b b'"
  unfolding hframe_def
proof (intro allI impI)
  fix i h assume "get_h b i = Some h"
  then obtain c s where "get_h b' i = Some (h\<lparr>sChildren := c, sSiblings := s\<rparr>)"
    "i \<notin> P \<longrightarrow> c = sChildren h" "i \<notin> S \<longrightarrow> s = sSiblings h" using assms unfolding list_frame_def by blast
  then show "\<exists>h'. get_h b' i = Some h' \<and> hrel P S {} i h h'"
    by (intro exI [of _ "h\<lparr>sChildren := c, sSiblings := s\<rparr>"]) (simp add: hrel_def)
qed

lemma hframe_trans:
  assumes "hframe N P S F b b1" "hframe N' P' S' F' b1 b2"
    and "N \<union> N' \<subseteq> N''" "P \<union> P' \<subseteq> P'' \<union> N''" "S \<union> S' \<subseteq> S'' \<union> N''" "F \<union> F' \<subseteq> F'' \<union> N''"
  shows "hframe N'' P'' S'' F'' b b2"
  unfolding hframe_def
proof (intro allI impI)
  fix i h assume i: "get_h b i = Some h" "i \<notin> N''"
  then have n: "i \<notin> N" "i \<notin> N'" using assms(3) by auto
  obtain h1 where 1: "get_h b1 i = Some h1" "hrel P S F i h h1" by (rule hframe_get [OF assms(1) i(1) n(1)])
  obtain h2 where 2: "get_h b2 i = Some h2" "hrel P' S' F' i h1 h2" by (rule hframe_get [OF assms(2) 1(1) n(2)])
  have "i \<notin> P'' \<longrightarrow> i \<notin> P \<and> i \<notin> P'" "i \<notin> S'' \<longrightarrow> i \<notin> S \<and> i \<notin> S'" "i \<notin> F'' \<longrightarrow> i \<notin> F \<and> i \<notin> F'"
    using i(2) assms(4-6) by auto
  then have "hrel P'' S'' F'' i h h2" using 1(2) 2(2) by (simp add: hrel_def)
  with 2(1) show "\<exists>h'. get_h b2 i = Some h' \<and> hrel P'' S'' F'' i h h'" by blast
qed

lemma hframe_refl: "hframe N P S F b b"
  by (auto simp: hframe_def)

lemma hframe_cong: "get_h b1 = get_h b \<Longrightarrow> get_h b2 = get_h b' \<Longrightarrow> hframe N P S F b1 b2 = hframe N P S F b b'"
  by (simp add: hframe_def)

lemma hframe_put: "i \<in> N \<Longrightarrow> get_h b i = Some h0 \<Longrightarrow> hframe N P S F b (put_h i h b)"
  by (auto simp: hframe_def get_put)

lemma hframe_put_next:
  "i \<in> F \<Longrightarrow> get_h b i = Some h \<Longrightarrow> hframe N P S F b (put_h i (h\<lparr>ui32NextIndexPlusOne := x\<rparr>) b)"
  by (auto simp: hframe_def get_put hrel_def)

lemma circ_hframe:
  assumes "circ b p cs" "hframe N P S F b b'" "set (p # cs) \<inter> N = {}" "p \<notin> P" "set cs \<inter> S = {}"
  shows "circ b' p cs"
proof -
  have s: "\<exists>h'. get_h b' c = Some h' \<and> sSiblings h' = sSiblings h" if "c \<in> set cs" "get_h b c = Some h" for c h
    by (rule hframe_get [OF assms(2) that(2)]) (use that assms in \<open>auto simp: hrel_def\<close>)
  have "dll (sibs b') p cs p = dll (sibs b) p cs p"
  proof (rule dll_frame)
    fix c assume c: "c \<in> set cs"
    then obtain h where "get_h b c = Some h" using assms(1) by (auto simp: circ_def)
    with s [OF c] show "sibs b' c = sibs b c" by (auto simp: sibs_def)
  qed
  moreover obtain h where h: "get_h b p = Some h"
    "sChildren h = \<lparr>ui32Prev = lastd p cs, ui32Next = hdd p cs, hParent = p + 1\<rparr>"
    using assms(1) by (auto simp: circ_def)
  moreover obtain h' where "get_h b' p = Some h'" "sChildren h' = sChildren h"
    by (rule hframe_get [OF assms(2) h(1)]) (use assms(3,4) in \<open>auto simp: hrel_def\<close>)
  moreover have "\<exists>h. get_h b' c = Some h \<and> hParent (sSiblings h) = p + 1" if "c \<in> set cs" for c
  proof -
    obtain hc where "get_h b c = Some hc" "hParent (sSiblings hc) = p + 1" using assms(1) \<open>c \<in> set cs\<close> by (auto simp: circ_def)
    with s [OF \<open>c \<in> set cs\<close>] show ?thesis by fastforce
  qed
  ultimately show ?thesis using assms(1) by (auto simp: circ_def)
qed

lemma tree_rep_hframe:
  "tree_rep b t \<Longrightarrow> hframe N P S F b b' \<Longrightarrow> distinct (nodes t) \<Longrightarrow> set (nodes t) \<inter> (N \<union> P \<union> F) = {} \<Longrightarrow>
   (set (nodes t) - {root t}) \<inter> S = {} \<Longrightarrow> tree_rep b' t"
proof (induction t)
  case (HNode i ts)
  have ni: "i \<notin> set (fnodes ts)" and dt: "distinct (fnodes ts)" using HNode.prems(3) by auto
  have "circ b' i (map root ts)"
  proof (rule circ_hframe [OF _ HNode.prems(2)])
    show "circ b i (map root ts)" using HNode.prems(1) by simp
    show "set (i # map root ts) \<inter> N = {}" "set (map root ts) \<inter> S = {}"
      using HNode.prems(4,5) roots_in_fnodes [of ts] ni by (auto 4 4)
    show "i \<notin> P" using HNode.prems(4) by auto
  qed
  moreover have "tree_rep b' t" if t: "t \<in> set ts" for t
  proof (rule HNode.IH [OF t])
    show "tree_rep b t" using HNode.prems(1) t by (auto simp: list_all_iff)
    show "distinct (nodes t)" using dt t by (auto simp: distinct_concat_iff)
    show "set (nodes t) \<inter> (N \<union> P \<union> F) = {}" using HNode.prems(4) t by auto
    show "(set (nodes t) - {root t}) \<inter> S = {}" using HNode.prems(5) t ni by auto
  qed (rule HNode.prems(2))
  moreover obtain h where h: "get_h b i = Some h" "eType h \<noteq> PVRSRV_HANDLE_TYPE_NONE"
    "eInternalFlag h = INTERNAL_HANDLE_FLAG_NONE" "ui32NextIndexPlusOne h = 0" using HNode.prems(1) by auto
  moreover have "\<exists>h'. get_h b' i = Some h' \<and> eType h' = eType h \<and> eInternalFlag h' = eInternalFlag h \<and>
      ui32NextIndexPlusOne h' = ui32NextIndexPlusOne h"
    by (rule hframe_get [OF HNode.prems(2) h(1)]) (use HNode.prems(4) in \<open>auto simp: hrel_def\<close>)
  ultimately show ?case by (auto simp: list_all_iff)
qed

subsection \<open>The free list\<close>

fun fchain :: "hbase \<Rightarrow> u32 list \<Rightarrow> bool" where
  "fchain b [] \<longleftrightarrow> True"
| "fchain b [x] \<longleftrightarrow> (\<exists>h. get_h b x = Some h \<and> eType h = PVRSRV_HANDLE_TYPE_NONE \<and> ui32NextIndexPlusOne h = 0)"
| "fchain b (x # y # zs) \<longleftrightarrow> (\<exists>h. get_h b x = Some h \<and> eType h = PVRSRV_HANDLE_TYPE_NONE \<and>
     (if ui32NextIndexPlusOne h = 0 then x + 1 else ui32NextIndexPlusOne h - 1) = y) \<and> fchain b (y # zs)"

definition fl_ok :: "hbase \<Rightarrow> u32 list \<Rightarrow> bool" where
  "fl_ok b fs \<longleftrightarrow> fchain b fs \<and> length fs < 2 ^ 32 \<and> ui32FreeHandCount b = of_nat (length fs) \<and>
     (if fs = [] then ui32FirstFreeIndex b = 0 \<and> ui32LastFreeIndexPlusOne b = 0
      else ui32FirstFreeIndex b = hd fs \<and> ui32LastFreeIndexPlusOne b = last fs + 1)"

definition fscal :: "hbase \<Rightarrow> u32 \<times> u32 \<times> u32" where
  "fscal b = (ui32FreeHandCount b, ui32FirstFreeIndex b, ui32LastFreeIndexPlusOne b)"

lemma fchain_free: "fchain b fs \<Longrightarrow> x \<in> set fs \<Longrightarrow> \<exists>h. get_h b x = Some h \<and> eType h = PVRSRV_HANDLE_TYPE_NONE"
  by (induction b fs rule: fchain.induct) auto

lemma fchain_hframe:
  "fchain b fs \<Longrightarrow> hframe N P S F b b' \<Longrightarrow> set fs \<inter> (N \<union> F) = {} \<Longrightarrow> fchain b' fs"
proof (induction b fs rule: fchain.induct)
  case (2 b x)
  then obtain h where h: "get_h b x = Some h" "eType h = PVRSRV_HANDLE_TYPE_NONE" "ui32NextIndexPlusOne h = 0" by auto
  then show ?case using hframe_get [OF 2(2) h(1)] 2(3) by (auto simp: hrel_def)
next
  case (3 b x y zs)
  then obtain h where h: "get_h b x = Some h" "eType h = PVRSRV_HANDLE_TYPE_NONE"
    "(if ui32NextIndexPlusOne h = 0 then x + 1 else ui32NextIndexPlusOne h - 1) = y" by auto
  have "x \<notin> N" "x \<notin> F" using 3(4) by auto
  then obtain h' where "get_h b' x = Some h'" "hrel P S F x h h'" using hframe_get [OF 3(3) h(1)] by blast
  with h \<open>x \<notin> F\<close> 3 show ?case by (auto simp: hrel_def)
qed simp

lemma fl_ok_hframe:
  assumes "fl_ok b fs" "hframe N P S F b b'" "set fs \<inter> (N \<union> F) = {}" "fscal b' = fscal b"
  shows "fl_ok b' fs"
  using assms fchain_hframe [OF _ assms(2,3)] by (auto simp: fl_ok_def fscal_def)

lemma fchain_append:
  assumes "fchain b fs" "distinct fs" "i \<notin> set fs" "fs \<noteq> []" "i + 1 \<noteq> 0"
    and "get_h b i = Some h" "eType h = PVRSRV_HANDLE_TYPE_NONE" "ui32NextIndexPlusOne h = 0"
    and "get_h b (last fs) = Some hl"
  shows "fchain (put_h (last fs) (hl\<lparr>ui32NextIndexPlusOne := i + 1\<rparr>) b) (fs @ [i])"
  using assms
proof (induction b fs rule: fchain.induct)
  case (2 b x)
  then show ?case by (auto simp: get_put)
next
  case (3 b x y zs)
  have "x \<noteq> last (y # zs)" using 3(3) by auto
  then show ?case using 3 by (simp add: get_put)
qed simp

text \<open>The end of \<^verbatim>\<open>FreeHandle\<close>: the structure \<open>i\<close> becomes the last of the free list.\<close>

definition enqueue :: "hbase \<Rightarrow> u32 \<Rightarrow> hbase option" where
  "enqueue b i = do {
     b1 \<leftarrow> (if ui32FreeHandCount b = 0 then Some (b\<lparr>ui32FirstFreeIndex := i\<rparr>)
            else upd_h (ui32LastFreeIndexPlusOne b - 1) (\<lambda>h. h\<lparr>ui32NextIndexPlusOne := i + 1\<rparr>) b);
     Some (b1\<lparr>ui32LastFreeIndexPlusOne := i + 1, ui32FreeHandCount := ui32FreeHandCount b1 + 1\<rparr>)
   }"

definition fixedp :: "hbase \<Rightarrow> nat \<times> u32 \<times> u32 \<times> u32 \<times> u32 \<times> u32 \<times> u32 \<times> bool" where
  "fixedp b = (length (psHandleArray b), ui32MaxIndexPlusOne b, ui32TotalHandCount b, ui32HandBatchSize b,
     ui32TotalHandCountPreBatch b, ui32FirstBatchIndexPlusOne b, ui32BatchHandAllocFailures b, bPurgingEnabled b)"

lemma enqueue_spec:
  assumes fl: "fl_ok b fs" and "distinct fs" "i \<notin> set fs" "i + 1 \<noteq> 0" "length fs + 1 < 2 ^ 32"
    and i: "get_h b i = Some h" "eType h = PVRSRV_HANDLE_TYPE_NONE" "ui32NextIndexPlusOne h = 0"
  shows "\<exists>b'. enqueue b i = Some b' \<and> fl_ok b' (fs @ [i]) \<and> hframe {} {} {} (set fs) b b' \<and>
     fixedp b' = fixedp b \<and> psHashTab b' = psHashTab b"
proof (cases "fs = []")
  case True
  let ?b = "b\<lparr>ui32FirstFreeIndex := i, ui32LastFreeIndexPlusOne := i + 1, ui32FreeHandCount := ui32FreeHandCount b + 1\<rparr>"
  have g: "get_h ?b = get_h b" by (rule get_h_cong) simp
  have "enqueue b i = Some ?b" using fl True by (simp add: enqueue_def fl_ok_def)
  moreover have "fl_ok ?b [i]" using i fl True by (auto simp: fl_ok_def g)
  moreover have "hframe {} {} {} (set fs) b ?b" using hframe_refl hframe_cong [OF refl g] by blast
  ultimately show ?thesis using True by (auto simp: fixedp_def)
next
  case False
  then obtain hl where hl: "get_h b (last fs) = Some hl" using fl fchain_free [of b fs "last fs"] by (auto simp: fl_ok_def)
  let ?c = "put_h (last fs) (hl\<lparr>ui32NextIndexPlusOne := i + 1\<rparr>) b"
  let ?b = "?c\<lparr>ui32LastFreeIndexPlusOne := i + 1, ui32FreeHandCount := ui32FreeHandCount b + 1\<rparr>"
  have g: "get_h ?b = get_h ?c" by (rule get_h_cong) simp
  have "(of_nat (length fs) :: u32) \<noteq> 0" using False assms(5) by (simp add: of_nat_eq_0_iff word_unat_eq_iff unat_of_nat)
  then have "enqueue b i = Some ?b"
    using fl False upd_h_simp [OF hl] by (simp add: enqueue_def fl_ok_def)
  moreover have ch: "fchain ?c (fs @ [i])"
    using fchain_append [OF _ assms(2,3) False assms(4) i hl] fl by (simp add: fl_ok_def)
  have "fchain ?b (fs @ [i])" using ch fchain_hframe [of ?c "fs @ [i]" "{}" "{}" "{}" "{}" ?b]
    hframe_refl hframe_cong [OF refl g] by blast
  then have "fl_ok ?b (fs @ [i])" using fl False assms(5) by (simp add: fl_ok_def)
  moreover have "hframe {} {} {} (set fs) b ?b"
    using hframe_put_next [OF _ hl, of "set fs"] False hframe_cong [OF refl g, of "{}" "{}" "{}" "set fs"] by simp
  ultimately show ?thesis by (auto simp: fixedp_def)
qed

subsection \<open>The entries of the hash table\<close>

definition hkey :: "sHandle \<Rightarrow> u32 list" where
  "hkey h = InitKey (pvData h) (eType h) (ParentIfPrivate h)"

definition nkey :: "hbase \<Rightarrow> u32 \<Rightarrow> (u32 list \<times> u32) multiset" where
  "nkey b i = (case get_h b i of None \<Rightarrow> {#}
     | Some h \<Rightarrow> if TEST_ALLOC_FLAG h PVRSRV_HANDLE_ALLOC_FLAG_MULTI then {#} else {#(hkey h, i + 1)#})"

primrec ekeys :: "hbase \<Rightarrow> u32 list \<Rightarrow> (u32 list \<times> u32) multiset" where
  "ekeys b [] = {#}"
| "ekeys b (i # is) = nkey b i + ekeys b is"

definition hash_has :: "hbase \<Rightarrow> (u32 list \<times> u32) multiset \<Rightarrow> bool" where
  "hash_has b E \<longleftrightarrow> hash_inv (psHashTab b) \<and> key_words (psHashTab b) = 3 \<and> entries (psHashTab b) = E \<and>
     (\<forall>k. one_value E k)"

lemma ekeys_append [simp]: "ekeys b (xs @ ys) = ekeys b xs + ekeys b ys"
  by (induction xs) (simp_all add: ac_simps)

lemma ekeys_cong: "(\<And>i. i \<in> set xs \<Longrightarrow> nkey b' i = nkey b i) \<Longrightarrow> ekeys b' xs = ekeys b xs"
  by (induction xs) auto

lemma nkey_hrel:
  assumes "get_h b i = Some h" "get_h b' i = Some h'" "hrel P S F i h h'"
    and "hParent (sSiblings h') = hParent (sSiblings h)"
  shows "nkey b' i = nkey b i"
  using assms
  by (simp add: nkey_def hrel_def hkey_def TEST_ALLOC_FLAG_def ParentIfPrivate_def ParentHandle_def)

lemma nkey_hframe:
  assumes "hframe N P S F b b'" "get_h b i = Some h" "i \<notin> N" "i \<notin> S"
  shows "nkey b' i = nkey b i"
proof -
  obtain h' where h: "get_h b' i = Some h'" "hrel P S F i h h'" by (rule hframe_get [OF assms(1-3)])
  show ?thesis by (rule nkey_hrel [OF assms(2) h]) (use h(2) assms(4) in \<open>simp add: hrel_def\<close>)
qed

lemma one_value_sub: "one_value (A + B) k \<Longrightarrow> one_value B k"
  by (simp add: one_value_def)

lemma HASH_Remove_key:
  assumes "hash_has b (add_mset (k, v) E)" "length k = 3"
    and "HASH_Remove_Extended (psHashTab b) k km = (w, t, km')"
  shows "hash_has (b\<lparr>psHashTab := t\<rparr>) E"
proof -
  let ?h = "psHashTab b"
  have a: "hash_inv ?h" "table_key ?h k" "one_value (entries ?h) k" "(k, v) \<in># entries ?h"
    using assms(1,2) by (auto simp: hash_has_def table_key_def)
  have "entries t = E"
    using ht.remove_stored(2) [OF a assms(3)] assms(1) by (simp add: hash_has_def)
  moreover have "\<forall>k. one_value E k" using assms(1) one_value_sub [of "{#(k, v)#}" E] by (simp add: hash_has_def)
  ultimately show ?thesis
    using HASH_Remove_Extended_spec(1,2) [OF a(1,2) assms(3)] assms(1)
    by (simp add: hash_has_def key_words_def same_config_def)
qed

subsection \<open>Freeing a tree\<close>

text \<open>Where a handle hangs: a root, or a child of \<open>p\<close> between the siblings \<open>xs\<close> and \<open>ys\<close>.\<close>

type_synonym place = "(u32 \<times> u32 list \<times> u32 list) option"

definition linked :: "hbase \<Rightarrow> u32 \<Rightarrow> place \<Rightarrow> bool" where
  "linked b i lo \<longleftrightarrow> (case lo of
       None \<Rightarrow> \<exists>h. get_h b i = Some h \<and> sSiblings h = HandleListInit i NULL
     | Some (p, xs, ys) \<Rightarrow> circ b p (xs @ i # ys))"

definition unlinked :: "hbase \<Rightarrow> place \<Rightarrow> bool" where
  "unlinked b lo \<longleftrightarrow> (case lo of None \<Rightarrow> True | Some (p, xs, ys) \<Rightarrow> circ b p (xs @ ys))"

definition ups :: "place \<Rightarrow> u32 set" where
  "ups lo = (case lo of None \<Rightarrow> {} | Some (p, xs, ys) \<Rightarrow> {p})"

definition sides :: "place \<Rightarrow> u32 set" where
  "sides lo = (case lo of None \<Rightarrow> {} | Some (p, xs, ys) \<Rightarrow> set (xs @ ys))"

lemma Unlink_spec:
  assumes "linked b i lo"
  shows "\<exists>b'. UnlinkFromParent b i = Some b' \<and> unlinked b' lo \<and> list_frame (ups lo) (insert i (sides lo)) b b'"
proof (cases lo)
  case None
  then obtain h where h: "get_h b i = Some h" "sSiblings h = HandleListInit i NULL" using assms by (auto simp: linked_def)
  then have "HandleListRemove b i = Some b"
    by (simp add: HandleListRemove_def HandleListIsEmpty_def HandleListInit_def)
  then show ?thesis using None list_frame_refl by (simp add: UnlinkFromParent_def unlinked_def)
next
  case (Some l)
  then obtain p xs ys where l: "lo = Some (p, xs, ys)" by (cases l) auto
  then have "circ b p (xs @ i # ys)" using assms by (simp add: linked_def)
  moreover have "insert i (set (xs @ ys)) = set (xs @ i # ys)" by auto
  ultimately show ?thesis using HandleListRemove_spec [of b p xs i ys] l
    by (auto simp: UnlinkFromParent_def unlinked_def ups_def sides_def)
qed

lemma unlinked_hframe:
  assumes "unlinked b lo" "hframe N P S F b b'" "(ups lo \<union> sides lo) \<inter> N = {}" "ups lo \<inter> P = {}" "sides lo \<inter> S = {}"
  shows "unlinked b' lo"
proof (cases lo)
  case None
  then show ?thesis by (simp add: unlinked_def)
next
  case (Some l)
  then obtain p xs ys where l: "lo = Some (p, xs, ys)" by (cases l) auto
  have "circ b' p (xs @ ys)"
    by (rule circ_hframe [OF _ assms(2)]) (use assms l in \<open>auto simp: unlinked_def ups_def sides_def\<close>)
  then show ?thesis using l by (simp add: unlinked_def)
qed

lemma FreeHandle_steps:
  assumes "get_h b i = Some h" "eInternalFlag h = INTERNAL_HANDLE_FLAG_NONE"
    and "(if TEST_ALLOC_FLAG h PVRSRV_HANDLE_ALLOC_FLAG_MULTI then b1 = b \<and> km1 = km
          else \<exists>v t. HASH_Remove_Extended (psHashTab b) (hkey h) km = (v, t, km1) \<and> b1 = b\<lparr>psHashTab := t\<rparr>)"
    and "UnlinkFromParent b1 i = Some b2" "get_h b2 i = Some h2"
    and "HandleListIterate n b2 (HANDLE_TO_INDEX (hParent (sChildren h2))) (ui32Next (sChildren h2)) km1 = Some (PVRSRV_OK, b3, km3)"
    and "get_h b3 i = Some h3" "eInternalFlag h3 = INTERNAL_HANDLE_FLAG_NONE" "\<not> bPurgingEnabled b3"
    and "enqueue (put_h i (h3\<lparr>eType := PVRSRV_HANDLE_TYPE_NONE\<rparr>) b3) i = Some b4"
  shows "FreeHandle (Suc n) b i km = Some (PVRSRV_OK, b4, km3)"
proof -
  have pf: "\<not> BATCHED_HANDLE_PARTIALLY_FREE h"
    using assms(2) by (simp add: BATCHED_HANDLE_PARTIALLY_FREE_def TEST_FLAG_def INTERNAL_HANDLE_FLAG_NONE_def)
  let ?b = "put_h i (h3\<lparr>eType := PVRSRV_HANDLE_TYPE_NONE\<rparr>) b3"
  have g: "get_h ?b i = Some (h3\<lparr>eType := PVRSRV_HANDLE_TYPE_NONE\<rparr>)" using get_put [OF assms(7)] by simp
  have nb: "\<not> BATCHED_HANDLE (h3\<lparr>eType := PVRSRV_HANDLE_TYPE_NONE\<rparr>)"
    using assms(8) by (simp add: BATCHED_HANDLE_def TEST_FLAG_def INTERNAL_HANDLE_FLAG_NONE_def)
  have u: "upd_h i (\<lambda>h. h\<lparr>eType := PVRSRV_HANDLE_TYPE_NONE\<rparr>) b3 = Some ?b" by (rule upd_h_simp [OF assms(7)])
  have s: "(if \<not> TEST_ALLOC_FLAG h PVRSRV_HANDLE_ALLOC_FLAG_MULTI \<and> \<not> BATCHED_HANDLE_PARTIALLY_FREE h
        then (case HASH_Remove_Extended (psHashTab b) (hkey h) km of (_, t, km') \<Rightarrow> (b\<lparr>psHashTab := t\<rparr>, km'))
        else (b, km)) = (b1, km1)" using assms(3) pf by (auto split: if_splits)
  have r: "FreeHandle (Suc n) b i km = do {
      b6 \<leftarrow> (do {
           b5 \<leftarrow> (if ui32FreeHandCount ?b = 0 then Some (?b\<lparr>ui32FirstFreeIndex := i\<rparr>)
                  else upd_h (ui32LastFreeIndexPlusOne ?b - 1) (\<lambda>h. h\<lparr>ui32NextIndexPlusOne := i + 1\<rparr>) ?b);
           Some (b5\<lparr>ui32LastFreeIndexPlusOne := i + 1\<rparr>)
         });
      Some (PVRSRV_OK, b6\<lparr>ui32FreeHandCount := ui32FreeHandCount b6 + 1\<rparr>, km3) }"
    by (simp add: assms(1) hkey_def [symmetric] s assms(4-6) u g nb assms(9))
  show ?thesis
    unfolding r using assms(10) unfolding enqueue_def by (auto simp: bind_eq_Some_conv simp del: put_h_sel)
qed

lemma circ_parent: "circ b p cs \<Longrightarrow> c \<in> set cs \<Longrightarrow> get_h b c = Some h \<Longrightarrow> hParent (sSiblings h) = p + 1"
  unfolding circ_def by fastforce

lemma circ_cong: "get_h b' = get_h b \<Longrightarrow> circ b' = circ b"
  by (simp add: circ_def sibs_def fun_eq_iff)

lemma linked_cong: "get_h b' = get_h b \<Longrightarrow> linked b' = linked b"
  by (rule ext)+ (simp only: linked_def circ_cong [of b' b])

lemma list_frame_scalars:
  "list_frame P S b b' \<Longrightarrow> fscal b' = fscal b \<and> fixedp b' = fixedp b \<and> psHashTab b' = psHashTab b"
  by (simp add: list_frame_def scalars_def fscal_def fixedp_def)

lemma hash_has_cong: "psHashTab b' = psHashTab b \<Longrightarrow> hash_has b' = hash_has b"
  by (simp add: hash_has_def fun_eq_iff)

lemma distinct_indices:
  assumes "distinct xs" "\<And>x. x \<in> set xs \<Longrightarrow> \<exists>h. get_h b x = Some h"
  shows "length xs \<le> length (psHandleArray b)"
proof -
  have "unat ` set xs \<subseteq> {..<length (psHandleArray b)}"
  proof
    fix n assume "n \<in> unat ` set xs"
    then obtain x h where "n = unat x" "get_h b x = Some h" using assms(2) by blast
    then show "n \<in> {..<length (psHandleArray b)}" by (simp add: get_h_def split: if_splits)
  qed
  then have "card (unat ` set xs) \<le> length (psHandleArray b)"
    by (metis card_lessThan card_mono finite_lessThan)
  then show ?thesis using assms(1) by (simp add: card_image distinct_card inj_on_def word_unat_eq_iff)
qed

lemma index_plus_one:
  assumes "get_h b i = Some h" "length (psHandleArray b) < 2 ^ 32"
  shows "i + 1 \<noteq> 0"
proof
  assume "i + 1 = 0"
  then have "(unat i + 1) mod 2 ^ 32 = 0" using unat_word_ariths(1) [of i 1] by simp
  moreover have "unat i + 1 < 2 ^ 32" using assms by (simp add: get_h_def split: if_splits)
  ultimately show False by simp
qed

lemma root_other:
  assumes "distinct (fnodes ts)" "t \<in> set ts" "u \<in> set ts" "root u \<in> set (nodes t)"
  shows "root u = root t"
proof (cases "nodes u = nodes t")
  case True
  then show ?thesis by (cases t; cases u) simp
next
  case False
  then have "set (nodes u) \<inter> set (nodes t) = {}" using assms(1-3) by (auto simp: distinct_concat_iff)
  then show ?thesis using assms(4) root_in_nodes [of u] by blast
qed

definition freed :: "hbase \<Rightarrow> u32 list \<Rightarrow> u32 list \<Rightarrow> u32 set \<Rightarrow> u32 set \<Rightarrow> u32 list \<Rightarrow> (u32 list \<times> u32) multiset \<Rightarrow> hbase \<Rightarrow> bool" where
  "freed b fs N P S fs' R b' \<longleftrightarrow> hframe (set N) P S (set fs) b b' \<and> fl_ok b' fs' \<and> hash_has b' R \<and> fixedp b' = fixedp b"

definition frees :: "htree \<Rightarrow> bool" where
  "frees t \<longleftrightarrow> (\<forall>b fs lo R n km. tree_rep b t \<longrightarrow> distinct (nodes t @ fs) \<longrightarrow> linked b (root t) lo \<longrightarrow>
     (ups lo \<union> sides lo) \<inter> set (nodes t) = {} \<longrightarrow> fl_ok b fs \<longrightarrow> \<not> bPurgingEnabled b \<longrightarrow>
     hash_has b (ekeys b (nodes t) + R) \<longrightarrow> 2 * length (nodes t) \<le> n \<longrightarrow> length (psHandleArray b) < 2 ^ 32 \<longrightarrow>
     (\<exists>b' km'. FreeHandle n b (root t) km = Some (PVRSRV_OK, b', km') \<and> unlinked b' lo \<and>
        freed b fs (nodes t) (ups lo) (sides lo) (fs @ post t) R b'))"

lemma ekeys_hframe:
  assumes "hframe N P S F b b'" "\<And>i. i \<in> set xs \<Longrightarrow> \<exists>h. get_h b i = Some h" "set xs \<inter> (N \<union> S) = {}"
  shows "ekeys b' xs = ekeys b xs"
proof (rule ekeys_cong)
  fix i assume i: "i \<in> set xs"
  then obtain h where "get_h b i = Some h" using assms(2) by blast
  then show "nkey b' i = nkey b i" by (rule nkey_hframe [OF assms(1)]) (use assms(3) i in auto)
qed

lemma tree_reps_node:
  "list_all (tree_rep b) ts \<Longrightarrow> i \<in> set (fnodes ts) \<Longrightarrow> \<exists>h. get_h b i = Some h"
  by (auto simp: list_all_iff dest!: tree_rep_node)

lemma fnodes_keys_after:
  assumes "list_all (tree_rep b) ts" "distinct (fnodes ts)" "circ b i (xs @ map root ts)" "circ b' i (map root ts)"
    and fr: "hframe N P (set (map root ts)) F b b'" and "set (fnodes ts) \<inter> N = {}"
  shows "ekeys b' (fnodes ts) = ekeys b (fnodes ts)"
proof (rule ekeys_cong)
  fix j assume j: "j \<in> set (fnodes ts)"
  then obtain h where h: "get_h b j = Some h" using tree_reps_node [OF assms(1)] by blast
  obtain h' where h': "get_h b' j = Some h'" "hrel P (set (map root ts)) F j h h'"
    by (rule hframe_get [OF fr h]) (use assms(6) j in auto)
  show "nkey b' j = nkey b j"
  proof (rule nkey_hrel [OF h h'])
    show "hParent (sSiblings h') = hParent (sSiblings h)"
    proof (cases "j \<in> set (map root ts)")
      case True
      then have "hParent (sSiblings h) = i + 1" "hParent (sSiblings h') = i + 1"
        using circ_parent [OF assms(3) _ h] circ_parent [OF assms(4) _ h'(1)] by simp_all
      then show ?thesis by simp
    next
      case False
      then show ?thesis using h'(2) by (simp add: hrel_def)
    qed
  qed
qed

lemma iterate_frees:
  "(\<And>t. t \<in> set ts \<Longrightarrow> frees t) \<Longrightarrow> circ b i (map root ts) \<Longrightarrow> list_all (tree_rep b) ts \<Longrightarrow>
   distinct (i # fnodes ts @ fs) \<Longrightarrow> fl_ok b fs \<Longrightarrow> \<not> bPurgingEnabled b \<Longrightarrow>
   hash_has b (ekeys b (fnodes ts) + R) \<Longrightarrow> 2 * length (fnodes ts) + 1 \<le> n \<Longrightarrow> length (psHandleArray b) < 2 ^ 32 \<Longrightarrow>
   \<exists>b' km'. HandleListIterate n b i (hdd i (map root ts)) km = Some (PVRSRV_OK, b', km') \<and>
     freed b fs (fnodes ts) {i} {} (fs @ fpost ts) R b'"
proof (induction ts arbitrary: b fs n km)
  case Nil
  then obtain m where "n = Suc m" by (cases n) auto
  then show ?case using Nil by (auto simp: freed_def hframe_refl)
next
  case (Cons t ts)
  obtain m where m: "n = Suc m" using Cons.prems(8) by (cases n) auto
  have ch: "circ b i ([] @ root t # map root ts)" using Cons.prems(2) by simp
  obtain h where h: "get_h b (root t) = Some h"
    "sSiblings h = \<lparr>ui32Prev = lastd i [], ui32Next = hdd i (map root ts), hParent = i + 1\<rparr>" "root t \<noteq> i"
    by (rule circ_mid [OF ch]) blast
  let ?lo = "Some (i, [], map root ts)"
  have D: "distinct (nodes t @ fs)" "distinct (fnodes ts)" "set (nodes t) \<inter> set (fnodes ts) = {}"
    "i \<notin> set (nodes t)" "i \<notin> set (fnodes ts)" "set (fnodes ts) \<inter> set fs = {}" "i \<notin> set fs"
    using Cons.prems(4) by auto
  have rd: "set (map root ts) \<inter> set (nodes t) = {}" using D(3) roots_in_fnodes [of ts] by blast
  have ud: "(ups ?lo \<union> sides ?lo) \<inter> set (nodes t) = {}"
    using D(4) rd by (simp add: ups_def sides_def)
  have F: "frees t" "tree_rep b t" "linked b (root t) ?lo"
    "hash_has b (ekeys b (nodes t) + (ekeys b (fnodes ts) + R))" "2 * length (nodes t) \<le> m"
    using Cons.prems ch m by (auto simp: linked_def ac_simps)
  then obtain b1 km1 where r1: "FreeHandle m b (root t) km = Some (PVRSRV_OK, b1, km1)" "unlinked b1 ?lo"
    "freed b fs (nodes t) (ups ?lo) (sides ?lo) (fs @ post t) (ekeys b (fnodes ts) + R) b1"
    using D(1) ud Cons.prems(5,6,9) unfolding frees_def by blast
  have fr: "hframe (set (nodes t)) {i} (set (map root ts)) (set fs) b b1" and fl: "fl_ok b1 (fs @ post t)"
    and hh: "hash_has b1 (ekeys b (fnodes ts) + R)" and fx: "fixedp b1 = fixedp b"
    using r1(3) by (auto simp: freed_def ups_def sides_def)
  have c1: "circ b1 i (map root ts)" using r1(2) by (simp add: unlinked_def)
  have tr: "list_all (tree_rep b) ts" using Cons.prems(3) by simp
  have t1: "list_all (tree_rep b1) ts"
    unfolding list_all_iff
  proof
    fix u assume u: "u \<in> set ts"
    show "tree_rep b1 u"
    proof (rule tree_rep_hframe [OF _ fr])
      show "tree_rep b u" using tr u by (simp add: list_all_iff)
      show "distinct (nodes u)" using D(2) u by (auto simp: distinct_concat_iff)
      show "set (nodes u) \<inter> (set (nodes t) \<union> {i} \<union> set fs) = {}" using D u by auto
      show "(set (nodes u) - {root u}) \<inter> set (map root ts) = {}" using root_other [OF D(2) u] by auto
    qed
  qed
  have ek: "ekeys b1 (fnodes ts) = ekeys b (fnodes ts)"
    by (rule fnodes_keys_after [OF tr D(2) _ c1 fr, of "[root t]"]) (use Cons.prems(2) D in auto)
  have "\<exists>b' km'. HandleListIterate m b1 i (hdd i (map root ts)) km1 = Some (PVRSRV_OK, b', km') \<and>
     freed b1 (fs @ post t) (fnodes ts) {i} {} ((fs @ post t) @ fpost ts) R b'"
  proof (rule Cons.IH [OF Cons.prems(1) c1 t1 _ fl])
    show "distinct (i # fnodes ts @ fs @ post t)" using Cons.prems(4) by auto
    show "\<not> bPurgingEnabled b1" "length (psHandleArray b1) < 2 ^ 32"
      using fx Cons.prems(6,9) by (simp_all add: fixedp_def)
    show "hash_has b1 (ekeys b1 (fnodes ts) + R)" using hh ek by simp
    show "2 * length (fnodes ts) + 1 \<le> m" using Cons.prems(8) m by (cases t) simp
  qed simp
  then obtain b2 km2 where r2: "HandleListIterate m b1 i (hdd i (map root ts)) km1 = Some (PVRSRV_OK, b2, km2)"
    "freed b1 (fs @ post t) (fnodes ts) {i} {} (fs @ fpost (t # ts)) R b2" by auto
  have "HandleListIterate n b i (hdd i (map root (t # ts))) km = Some (PVRSRV_OK, b2, km2)"
    using h r1(1) r2(1) by (simp add: m get_list_def)
  moreover have "hframe (set (fnodes (t # ts))) {i} {} (set fs) b b2"
    by (rule hframe_trans [OF fr, of "set (fnodes ts)" "{i}" "{}" "set (fs @ post t)"])
      (use r2(2) roots_in_fnodes [of ts] in \<open>auto simp: freed_def\<close>)
  ultimately show ?case using r2(2) fx by (auto simp: freed_def)
qed

lemma FreeHandle_frees: "frees t"
proof (induction t)
  case (HNode i ts)
  show ?case
    unfolding frees_def
  proof (intro allI impI)
    fix b fs lo R n km
    assume tr: "tree_rep b (HNode i ts)" and D: "distinct (nodes (HNode i ts) @ fs)"
      and lk0: "linked b (root (HNode i ts)) lo" and ud: "(ups lo \<union> sides lo) \<inter> set (nodes (HNode i ts)) = {}"
      and fl: "fl_ok b fs" and np: "\<not> bPurgingEnabled b"
      and hh: "hash_has b (ekeys b (nodes (HNode i ts)) + R)" and n: "2 * length (nodes (HNode i ts)) \<le> n"
      and sm: "length (psHandleArray b) < 2 ^ 32"
    obtain m where m: "n = Suc m" using n by (cases n) auto
    obtain h where h: "get_h b i = Some h" "eInternalFlag h = INTERNAL_HANDLE_FLAG_NONE" "ui32NextIndexPlusOne h = 0"
      using tr by auto
    have D': "i \<notin> set (fnodes ts)" "i \<notin> set fs" "distinct (fnodes ts)" "distinct fs" "set (fnodes ts) \<inter> set fs = {}"
      "i \<notin> ups lo \<union> sides lo" "(ups lo \<union> sides lo) \<inter> set (fnodes ts) = {}"
      using D ud by auto
    have rf: "set (map root ts) \<subseteq> set (fnodes ts)" by (rule roots_in_fnodes)
    have "\<exists>b1 km1. (if TEST_ALLOC_FLAG h PVRSRV_HANDLE_ALLOC_FLAG_MULTI then b1 = b \<and> km1 = km
          else \<exists>v t. HASH_Remove_Extended (psHashTab b) (hkey h) km = (v, t, km1) \<and> b1 = b\<lparr>psHashTab := t\<rparr>)
        \<and> hash_has b1 (ekeys b (fnodes ts) + R) \<and> get_h b1 = get_h b \<and> fixedp b1 = fixedp b \<and> fscal b1 = fscal b"
    proof (cases "TEST_ALLOC_FLAG h PVRSRV_HANDLE_ALLOC_FLAG_MULTI")
      case True
      then show ?thesis using hh h by (auto simp: nkey_def)
    next
      case False
      obtain v t km1 where e: "HASH_Remove_Extended (psHashTab b) (hkey h) km = (v, t, km1)" by (metis prod_cases3)
      have "hash_has (b\<lparr>psHashTab := t\<rparr>) (ekeys b (fnodes ts) + R)"
        by (rule HASH_Remove_key [OF _ _ e]) (use hh h(1) False in \<open>auto simp: nkey_def hkey_def InitKey_def\<close>)
      then show ?thesis using False e by (auto simp: fixedp_def fscal_def)
    qed
    then obtain b1 km1 where s1: "if TEST_ALLOC_FLAG h PVRSRV_HANDLE_ALLOC_FLAG_MULTI then b1 = b \<and> km1 = km
          else \<exists>v t. HASH_Remove_Extended (psHashTab b) (hkey h) km = (v, t, km1) \<and> b1 = b\<lparr>psHashTab := t\<rparr>"
      "hash_has b1 (ekeys b (fnodes ts) + R)" "get_h b1 = get_h b" "fixedp b1 = fixedp b" "fscal b1 = fscal b" by blast
    have "linked b1 i lo" using lk0 linked_cong [OF s1(3)] by simp
    then obtain b2 where s2: "UnlinkFromParent b1 i = Some b2" "unlinked b2 lo"
      "list_frame (ups lo) (insert i (sides lo)) b1 b2" using Unlink_spec by blast
    note sc2 = list_frame_scalars [OF s2(3)]
    have fr2: "hframe {} (ups lo) (insert i (sides lo)) {} b b2"
      using hframe_list [OF s2(3)] hframe_cong [OF s1(3) refl] by blast
    have c2: "circ b2 i (map root ts)"
    proof (rule circ_hframe [OF _ fr2])
      show "circ b i (map root ts)" using tr by simp
      show "set (map root ts) \<inter> insert i (sides lo) = {}" using rf D'(1,7) by blast
    qed (use D'(6) in auto)
    have t2: "list_all (tree_rep b2) ts"
      unfolding list_all_iff
    proof
      fix u assume u: "u \<in> set ts"
      show "tree_rep b2 u"
        by (rule tree_rep_hframe [OF _ fr2]) (use tr u D' in \<open>auto simp: list_all_iff distinct_concat_iff\<close>)
    qed
    have ek: "ekeys b2 (fnodes ts) = ekeys b (fnodes ts)"
      by (rule ekeys_hframe [OF fr2 tree_reps_node]) (use tr D' in auto)
    have fl2: "fl_ok b2 fs" by (rule fl_ok_hframe [OF fl fr2]) (use sc2 s1(5) in auto)
    have fx2: "fixedp b2 = fixedp b" using sc2 s1(4) by simp
    have "\<exists>b3 km3. HandleListIterate m b2 i (hdd i (map root ts)) km1 = Some (PVRSRV_OK, b3, km3) \<and>
        freed b2 fs (fnodes ts) {i} {} (fs @ fpost ts) R b3"
      by (rule iterate_frees [OF HNode.IH c2 t2 _ fl2])
        (use D n m fx2 np sm s1(2) ek sc2 in \<open>auto simp: fixedp_def hash_has_def\<close>)
    then obtain b3 km3 where s3: "HandleListIterate m b2 i (hdd i (map root ts)) km1 = Some (PVRSRV_OK, b3, km3)"
      "hframe (set (fnodes ts)) {i} {} (set fs) b2 b3" "fl_ok b3 (fs @ fpost ts)" "hash_has b3 R" "fixedp b3 = fixedp b2"
      by (auto simp: freed_def)
    obtain h2 where h2: "get_h b2 i = Some h2" "hrel (ups lo) (insert i (sides lo)) {} i h h2"
      by (rule hframe_get [OF fr2 h(1)]) simp_all
    have ch2: "sChildren h2 = \<lparr>ui32Prev = lastd i (map root ts), ui32Next = hdd i (map root ts), hParent = i + 1\<rparr>"
      using c2 h2(1) by (auto simp: circ_def)
    obtain h3 where h3: "get_h b3 i = Some h3" "hrel {i} {} (set fs) i h2 h3"
      by (rule hframe_get [OF s3(2) h2(1) D'(1)])
    let ?b = "put_h i (h3\<lparr>eType := PVRSRV_HANDLE_TYPE_NONE\<rparr>) b3"
    have fr4: "hframe {i} {} {} {} b3 ?b" by (rule hframe_put [OF _ h3(1)]) simp
    have fl4: "fl_ok ?b (fs @ fpost ts)" by (rule fl_ok_hframe [OF s3(3) fr4]) (use D' in \<open>auto simp: fscal_def\<close>)
    have ln: "length (nodes (HNode i ts) @ fs) \<le> length (psHandleArray b)"
      by (rule distinct_indices [OF D]) (use tree_rep_node [OF tr] fl fchain_free [of b fs] in \<open>auto simp: fl_ok_def\<close>)
    have "\<exists>b4. enqueue ?b i = Some b4 \<and> fl_ok b4 ((fs @ fpost ts) @ [i]) \<and>
        hframe {} {} {} (set (fs @ fpost ts)) ?b b4 \<and> fixedp b4 = fixedp ?b \<and> psHashTab b4 = psHashTab ?b"
    proof (rule enqueue_spec [OF fl4])
      show "distinct (fs @ fpost ts)" "i \<notin> set (fs @ fpost ts)" using D' by auto
      show "i + 1 \<noteq> 0" by (rule index_plus_one [OF h(1) sm])
      show "length (fs @ fpost ts) + 1 < 2 ^ 32" using ln sm by simp
      show "get_h ?b i = Some (h3\<lparr>eType := PVRSRV_HANDLE_TYPE_NONE\<rparr>)" using get_put [OF h3(1)] by simp
      show "ui32NextIndexPlusOne (h3\<lparr>eType := PVRSRV_HANDLE_TYPE_NONE\<rparr>) = 0"
        using h3(2) h2(2) h(3) D'(2) by (simp add: hrel_def)
    qed simp
    then obtain b4 where s4: "enqueue ?b i = Some b4" "fl_ok b4 (fs @ post (HNode i ts))"
      "hframe {} {} {} (set (fs @ fpost ts)) ?b b4" "fixedp b4 = fixedp ?b" "psHashTab b4 = psHashTab b3" by auto
    have fx4: "fixedp ?b = fixedp b3" by (simp add: fixedp_def)
    have run: "FreeHandle n b i km = Some (PVRSRV_OK, b4, km3)"
      unfolding m
    proof (rule FreeHandle_steps [OF h(1,2) s1(1) s2(1) h2(1) _ h3(1) _ _ s4(1)])
      show "HandleListIterate m b2 (HANDLE_TO_INDEX (hParent (sChildren h2))) (ui32Next (sChildren h2)) km1 =
          Some (PVRSRV_OK, b3, km3)" using s3(1) by (simp add: ch2 HANDLE_TO_INDEX_def)
      show "eInternalFlag h3 = INTERNAL_HANDLE_FLAG_NONE" using h3(2) h2(2) h(2) by (simp add: hrel_def)
      show "\<not> bPurgingEnabled b3" using np s3(5) fx2 by (simp add: fixedp_def)
    qed
    have fr5: "hframe (insert i (set (fnodes ts))) {i} {} (set fs) b2 ?b"
      by (rule hframe_trans [OF s3(2) fr4]) auto
    have fr6: "hframe (set (nodes (HNode i ts))) {} {} (set fs) b2 b4"
      by (rule hframe_trans [OF fr5 s4(3)]) auto
    have "unlinked b4 lo" by (rule unlinked_hframe [OF s2(2) fr6]) (use ud in auto)
    moreover have "hframe (set (nodes (HNode i ts))) (ups lo) (sides lo) (set fs) b b4"
      by (rule hframe_trans [OF fr2 fr6]) auto
    moreover have "hash_has b4 R" using s3(4) hash_has_cong [OF s4(5)] by simp
    ultimately show "\<exists>b' km'. FreeHandle n b (root (HNode i ts)) km = Some (PVRSRV_OK, b', km') \<and> unlinked b' lo \<and>
        freed b fs (nodes (HNode i ts)) (ups lo) (sides lo) (fs @ post (HNode i ts)) R b'"
      using run s4(2,4) fx4 s3(5) fx2 by (simp add: freed_def)
  qed
qed

end
