(* ===== verification/Pvr_Handle_Inv.thy ===== *)
theory Pvr_Handle_Inv
  imports Pvr_Handle_Tree
begin

text \<open>
  The invariant of a handle base outside batches and without purging: the structures of the array
  are partitioned into a forest of handles in use and the free list, the child lists are those of
  the forest, and the hash table has one entry for every handle in use that was not allocated with
  the multi flag. Freeing a handle prunes its subtree from the forest, allocating one takes the
  head of the free list.
\<close>

subsection \<open>Subtrees and pruning\<close>

primrec subtrees :: "htree \<Rightarrow> htree list" where
  "subtrees (HNode i ts) = HNode i ts # concat (map subtrees ts)"

primrec prune :: "u32 \<Rightarrow> htree \<Rightarrow> htree" where
  "prune r (HNode i ts) = HNode i (filter (\<lambda>t. root t \<noteq> r) (map (prune r) ts))"

definition prune_all :: "u32 \<Rightarrow> htree list \<Rightarrow> htree list" where
  "prune_all r ts = filter (\<lambda>t. root t \<noteq> r) (map (prune r) ts)"

abbreviation fsubtrees :: "htree list \<Rightarrow> htree list" where
  "fsubtrees ts \<equiv> concat (map subtrees ts)"

lemma filter_absent [simp]: "a \<notin> set xs \<Longrightarrow> filter (\<lambda>c. c \<noteq> a) xs = xs"
  by (induction xs) auto

lemma root_prune [simp]: "root (prune r t) = root t"
  by (cases t) simp

lemma self_subtree [simp]: "t \<in> set (subtrees t)"
  by (cases t) simp

lemma node_subtree: "i \<in> set (nodes t) \<longleftrightarrow> (\<exists>s \<in> set (subtrees t). root s = i)"
  by (induction t) auto

lemma node_fsubtree: "i \<in> set (fnodes ts) \<longleftrightarrow> (\<exists>s \<in> set (fsubtrees ts). root s = i)"
  using node_subtree by auto

lemma subtree_nodes: "s \<in> set (subtrees t) \<Longrightarrow> set (nodes s) \<subseteq> set (nodes t)"
  by (induction t) auto

lemma subtree_distinct: "s \<in> set (subtrees t) \<Longrightarrow> distinct (nodes t) \<Longrightarrow> distinct (nodes s)"
  by (induction t) (auto simp: distinct_concat_iff)

lemma subtree_rep: "s \<in> set (subtrees t) \<Longrightarrow> tree_rep b t \<Longrightarrow> tree_rep b s"
  by (induction t) (auto simp: list_all_iff)

lemma prune_other: "r \<notin> set (nodes t) \<Longrightarrow> prune r t = t"
proof (induction t)
  case (HNode i ts)
  then have "map (prune r) ts = ts" by (intro map_idI) auto
  moreover have "\<forall>t \<in> set ts. root t \<noteq> r" using HNode.prems root_in_nodes by fastforce
  ultimately show ?case by (simp add: filter_id_conv)
qed

lemma prune_all_other: "r \<notin> set (fnodes ts) \<Longrightarrow> prune_all r ts = ts"
proof -
  assume r: "r \<notin> set (fnodes ts)"
  have "map (prune r) ts = ts" using r by (intro map_idI prune_other) auto
  moreover have "\<forall>t \<in> set ts. root t \<noteq> r" using r roots_in_fnodes [of ts] by auto
  ultimately show ?thesis by (simp add: prune_all_def filter_id_conv)
qed

lemma prune_all_append: "prune_all r (xs @ ys) = prune_all r xs @ prune_all r ys"
  by (simp add: prune_all_def)

lemma mset_prune_list:
  assumes IH: "\<And>u s. u \<in> set ts \<Longrightarrow> s \<in> set (subtrees u) \<Longrightarrow> s \<noteq> u \<Longrightarrow> distinct (nodes u) \<Longrightarrow>
      mset (nodes u) = mset (nodes (prune (root s) u)) + mset (nodes s)"
    and s: "s \<in> set (fsubtrees ts)" and d: "distinct (fnodes ts)"
  shows "mset (fnodes ts) = mset (fnodes (prune_all (root s) ts)) + mset (nodes s)"
proof -
  obtain u where u: "u \<in> set ts" "s \<in> set (subtrees u)" using s by auto
  then obtain us1 us2 where us: "ts = us1 @ u # us2" by (meson split_list)
  have du: "distinct (nodes u)" using d u(1) by (auto simp: distinct_concat_iff)
  have r: "root s \<in> set (nodes u)" using subtree_nodes [OF u(2)] root_in_nodes by auto
  then have o: "prune_all (root s) us1 = us1" "prune_all (root s) us2 = us2"
    using d us by (auto intro!: prune_all_other)
  have "mset (nodes u) = mset (fnodes (prune_all (root s) [u])) + mset (nodes s)"
  proof (cases "s = u")
    case True
    then show ?thesis by (simp add: prune_all_def)
  next
    case False
    obtain j vs where v: "u = HNode j vs" by (cases u) auto
    then have "root s \<in> set (fnodes vs)" using False u(2) node_fsubtree by auto
    then have "root s \<noteq> root u" using du v by auto
    then show ?thesis using IH [OF u False du] by (simp add: prune_all_def)
  qed
  then show ?thesis
    using o us prune_all_append [of "root s" us1 "u # us2"] prune_all_append [of "root s" "[u]" us2]
    by simp
qed

lemma mset_prune:
  "s \<in> set (subtrees t) \<Longrightarrow> s \<noteq> t \<Longrightarrow> distinct (nodes t) \<Longrightarrow>
   mset (nodes t) = mset (nodes (prune (root s) t)) + mset (nodes s)"
proof (induction t arbitrary: s)
  case (HNode i ts)
  have "mset (fnodes ts) = mset (fnodes (prune_all (root s) ts)) + mset (nodes s)"
    by (rule mset_prune_list [OF HNode.IH]) (use HNode.prems in auto)
  then show ?case by (simp add: prune_all_def)
qed

lemma mset_prune_all:
  "s \<in> set (fsubtrees ts) \<Longrightarrow> distinct (fnodes ts) \<Longrightarrow>
   mset (fnodes ts) = mset (fnodes (prune_all (root s) ts)) + mset (nodes s)"
  by (rule mset_prune_list) (auto intro: mset_prune)

subsection \<open>The invariant\<close>

definition base_shape :: "hbase \<Rightarrow> u32 list \<Rightarrow> htree list \<Rightarrow> bool" where
  "base_shape b fs ts \<longleftrightarrow> \<not> bPurgingEnabled b \<and> \<not> HANDLES_BATCHED b \<and>
     length (psHandleArray b) = unat (ui32TotalHandCount b) \<and> ui32TotalHandCount b \<le> ui32MaxIndexPlusOne b \<and>
     distinct (fnodes ts @ fs) \<and> (\<forall>i. unat i < length (psHandleArray b) \<longrightarrow> i \<in> set (fnodes ts @ fs)) \<and>
     list_all (tree_rep b) ts \<and> (\<forall>t \<in> set ts. linked b (root t) None) \<and> fl_ok b fs"

definition base_ok :: "hbase \<Rightarrow> u32 list \<Rightarrow> htree list \<Rightarrow> bool" where
  "base_ok b fs ts \<longleftrightarrow> base_shape b fs ts \<and> hash_has b (ekeys b (fnodes ts))"

lemma dll_unique:
  "dll L q xs a \<Longrightarrow> dll L q ys a \<Longrightarrow> hdd a xs = hdd a ys \<Longrightarrow> a \<notin> set xs \<Longrightarrow> a \<notin> set ys \<Longrightarrow> xs = ys"
proof (induction xs arbitrary: q ys)
  case Nil
  then show ?case by (cases ys) auto
next
  case (Cons x xs)
  then show ?case by (cases ys) auto
qed

lemma circ_unique: "circ b p cs \<Longrightarrow> circ b p ds \<Longrightarrow> cs = ds"
  unfolding circ_def by (rule dll_unique [of "sibs b" p cs p ds]) auto

lemma child_parent:
  "tree_rep b s \<Longrightarrow> c \<in> set (nodes s) \<Longrightarrow> c \<noteq> root s \<Longrightarrow> get_h b c = Some h \<Longrightarrow>
   \<exists>q \<in> set (nodes s). hParent (sSiblings h) = q + 1"
proof (induction s)
  case (HNode i ts)
  then obtain t where t: "t \<in> set ts" "c \<in> set (nodes t)" by auto
  show ?case
  proof (cases "c = root t")
    case True
    then have "hParent (sSiblings h) = i + 1"
      using circ_parent [of b i "map root ts" c h] HNode.prems t(1) by auto
    then show ?thesis by simp
  next
    case False
    then have "\<exists>q \<in> set (nodes t). hParent (sSiblings h) = q + 1"
      using HNode.IH [OF t(1) _ t(2)] HNode.prems t(1) by (auto simp: list_all_iff)
    then show ?thesis using t(1) by auto
  qed
qed

lemma subtree_place:
  "s \<in> set (subtrees t) \<Longrightarrow> s \<noteq> t \<Longrightarrow> \<exists>p us1 us2. HNode p (us1 @ s # us2) \<in> set (subtrees t)"
proof (induction t)
  case (HNode i ts)
  then obtain u where u: "u \<in> set ts" "s \<in> set (subtrees u)" by auto
  show ?case
  proof (cases "s = u")
    case True
    then obtain us1 us2 where "ts = us1 @ s # us2" using u(1) by (meson split_list)
    then show ?thesis by auto
  next
    case False
    then show ?thesis using HNode.IH [OF u(1) u(2)] u(1) by auto
  qed
qed

text \<open>Every handle of the forest hangs where the invariant says, outside its own subtree.\<close>

lemma forest_place:
  assumes ok: "base_shape b fs ts" and s: "s \<in> set (fsubtrees ts)"
  obtains lo where "linked b (root s) lo" "(ups lo \<union> sides lo) \<inter> set (nodes s) = {}"
    "ups lo \<union> sides lo \<subseteq> set (fnodes ts)"
proof -
  obtain t where t: "t \<in> set ts" "s \<in> set (subtrees t)" using s by auto
  show ?thesis
  proof (cases "s = t")
    case True
    then show ?thesis using that [of None] ok t(1) by (auto simp: base_shape_def ups_def sides_def)
  next
    case False
    then obtain p us1 us2 where u: "HNode p (us1 @ s # us2) \<in> set (subtrees t)" using subtree_place [OF t(2)] by blast
    let ?lo = "Some (p, map root us1, map root us2)"
    have "tree_rep b t" "distinct (nodes t)" using ok t(1)
      by (auto simp: base_shape_def list_all_iff distinct_concat_iff)
    then have "tree_rep b (HNode p (us1 @ s # us2))" and d: "distinct (nodes (HNode p (us1 @ s # us2)))"
      using subtree_rep [OF u] subtree_distinct [OF u] by blast+
    then have "linked b (root s) ?lo" by (simp add: linked_def)
    moreover have "(ups ?lo \<union> sides ?lo) \<inter> set (nodes s) = {}"
    proof -
      have "p \<notin> set (nodes s)" "set (fnodes us1) \<inter> set (nodes s) = {}" "set (fnodes us2) \<inter> set (nodes s) = {}"
        using d by auto
      moreover from this have "set (map root us1) \<inter> set (nodes s) = {}" "set (map root us2) \<inter> set (nodes s) = {}"
        using roots_in_fnodes [of us1] roots_in_fnodes [of us2] by blast+
      ultimately show ?thesis by (simp add: ups_def sides_def Int_Un_distrib2)
    qed
    moreover have "ups ?lo \<union> sides ?lo \<subseteq> set (nodes (HNode p (us1 @ s # us2)))"
    proof -
      have "set (map root us1) \<subseteq> set (fnodes us1)" "set (map root us2) \<subseteq> set (fnodes us2)"
        by (rule roots_in_fnodes)+
      then show ?thesis by (simp add: ups_def sides_def le_supI1 le_supI2 subset_insertI2)
    qed
    then have "ups ?lo \<union> sides ?lo \<subseteq> set (fnodes ts)" using subtree_nodes [OF u] t(1) by fastforce
    ultimately show ?thesis by (rule that)
  qed
qed

subsection \<open>Freeing keeps the invariant\<close>

text \<open>The parents recorded in the sibling lists separate the pruned subtree from the rest.\<close>

lemma linked_parent:
  "linked b i lo \<Longrightarrow> get_h b i = Some h \<Longrightarrow>
   hParent (sSiblings h) = (case lo of None \<Rightarrow> 0 | Some (p, xs, ys) \<Rightarrow> p + 1)"
  by (auto simp: linked_def HandleListInit_def split: option.splits dest: circ_parent)

lemma sides_parent:
  "linked b i lo \<Longrightarrow> c \<in> sides lo \<Longrightarrow> get_h b c = Some h \<Longrightarrow> \<exists>p. ups lo = {p} \<and> hParent (sSiblings h) = p + 1"
  by (auto simp: linked_def sides_def ups_def split: option.splits dest: circ_parent)

lemma circ_get: "circ b p cs \<Longrightarrow> c \<in> set (p # cs) \<Longrightarrow> \<exists>h. get_h b c = Some h"
  by (auto simp: circ_def)

lemma tree_rep_prune:
  assumes sr: "tree_rep b s" and lk: "linked b (root s) lo" and ul: "unlinked b' lo"
    and fr: "hframe (set (nodes s)) (ups lo) (sides lo) F b b'" and sm: "length (psHandleArray b) < 2 ^ 32"
  shows "tree_rep b t \<Longrightarrow> root t \<notin> set (nodes s) \<Longrightarrow> set (nodes t) \<inter> F = {} \<Longrightarrow> tree_rep b' (prune (root s) t)"
proof (induction t)
  case (HNode j us)
  let ?cs = "map root us"
  have ch: "circ b j ?cs" and jn: "j \<notin> set (nodes s)" using HNode.prems by auto
  obtain h where h: "get_h b j = Some h" "eType h \<noteq> PVRSRV_HANDLE_TYPE_NONE"
    "eInternalFlag h = INTERNAL_HANDLE_FLAG_NONE" "ui32NextIndexPlusOne h = 0" using HNode.prems(1) by auto
  have nz: "j + 1 \<noteq> 0" by (rule index_plus_one [OF h(1) sm])
  have cn: "c \<notin> set (nodes s)" if c: "c \<in> set ?cs" "c \<noteq> root s" for c
  proof
    assume cs: "c \<in> set (nodes s)"
    obtain hc where hc: "get_h b c = Some hc" using circ_get [OF ch] c(1) by auto
    show False using child_parent [OF sr cs c(2) hc] circ_parent [OF ch c(1) hc] jn by auto
  qed
  have "circ b' j (filter (\<lambda>c. c \<noteq> root s) ?cs)"
  proof (cases "ups lo = {j}")
    case True
    then obtain xs ys where l: "lo = Some (j, xs, ys)" by (auto simp: ups_def split: option.splits)
    then have "circ b j (xs @ root s # ys)" using lk by (simp add: linked_def)
    then have e: "?cs = xs @ root s # ys" using circ_unique [OF ch] by simp
    have "distinct (xs @ root s # ys)" using ch e by (simp add: circ_def)
    then have "filter (\<lambda>c. c \<noteq> root s) ?cs = xs @ ys" unfolding e by simp
    then show ?thesis using ul l by (simp add: unlinked_def)
  next
    case False
    have r: "root s \<notin> set ?cs"
    proof
      assume c: "root s \<in> set ?cs"
      then obtain hc where hc: "get_h b (root s) = Some hc" using circ_get [OF ch] by auto
      show False using linked_parent [OF lk hc] circ_parent [OF ch c hc] nz False
        by (auto simp: ups_def split: option.splits)
    qed
    have "set ?cs \<inter> sides lo = {}"
    proof (rule ccontr)
      assume "set ?cs \<inter> sides lo \<noteq> {}"
      then obtain c where c: "c \<in> set ?cs" "c \<in> sides lo" by blast
      then obtain hc where hc: "get_h b c = Some hc" using circ_get [OF ch, of c] by auto
      show False using sides_parent [OF lk c(2) hc] circ_parent [OF ch c(1) hc] False by auto
    qed
    moreover have "j \<notin> ups lo" using False by (auto simp: ups_def split: option.splits)
    moreover have "set (j # ?cs) \<inter> set (nodes s) = {}"
    proof -
      have "c \<notin> set (nodes s)" if "c \<in> set ?cs" for c using cn [OF that] r that by metis
      then show ?thesis using jn by auto
    qed
    ultimately have "circ b' j ?cs" by (intro circ_hframe [OF ch fr])
    then show ?thesis using r by simp
  qed
  moreover have "map root (filter (\<lambda>t. root t \<noteq> root s) (map (prune (root s)) us)) = filter (\<lambda>c. c \<noteq> root s) ?cs"
    by (simp add: filter_map comp_def)
  moreover have "tree_rep b' (prune (root s) u)" if u: "u \<in> set us" "root u \<noteq> root s" for u
    using HNode.IH [OF u(1)] HNode.prems cn [of "root u"] u by (auto simp: list_all_iff)
  moreover obtain h' where "get_h b' j = Some h'" "hrel (ups lo) (sides lo) F j h h'" by (rule hframe_get [OF fr h(1) jn])
  moreover have "j \<notin> F" using HNode.prems(3) by auto
  ultimately show ?case using h by (auto simp: list_all_iff hrel_def)
qed

lemma ekeys_sum: "ekeys b xs = (\<Sum>i \<in># mset xs. nkey b i)"
  by (induction xs) simp_all

lemma ekeys_mset: "mset xs = mset ys \<Longrightarrow> ekeys b xs = ekeys b ys"
  by (simp add: ekeys_sum)

lemma forest_get: "base_shape b fs ts \<Longrightarrow> i \<in> set (fnodes ts @ fs) \<Longrightarrow> \<exists>h. get_h b i = Some h"
  using tree_reps_node fchain_free by (fastforce simp: base_shape_def fl_ok_def)

lemma base_small: "base_shape b fs ts \<Longrightarrow> length (psHandleArray b) < 2 ^ 32"
  using unsigned_less [of "ui32TotalHandCount b"] by (simp add: base_shape_def)

lemma fixedp_shape:
  "fixedp b' = fixedp b \<Longrightarrow> bPurgingEnabled b' = bPurgingEnabled b \<and> HANDLES_BATCHED b' = HANDLES_BATCHED b \<and>
   length (psHandleArray b') = length (psHandleArray b) \<and> ui32TotalHandCount b' = ui32TotalHandCount b \<and>
   ui32MaxIndexPlusOne b' = ui32MaxIndexPlusOne b"
  by (simp add: fixedp_def HANDLES_BATCHED_def)

lemma FreeHandle_forest:
  assumes ok: "base_ok b fs ts" and s: "s \<in> set (fsubtrees ts)" and n: "2 * length (nodes s) \<le> n"
  shows "\<exists>b' km' P S. FreeHandle n b (root s) km = Some (PVRSRV_OK, b', km') \<and>
     base_ok b' (fs @ post s) (prune_all (root s) ts) \<and> fixedp b' = fixedp b \<and>
     hframe (set (nodes s)) P S (set fs) b b'"
proof -
  let ?r = "root s" and ?ts = "prune_all (root s) ts"
  have sh: "base_shape b fs ts" using ok by (simp add: base_ok_def)
  note sm = base_small [OF sh]
  have D: "distinct (fnodes ts @ fs)" and tr: "list_all (tree_rep b) ts" and fl: "fl_ok b fs"
    using sh by (auto simp: base_shape_def)
  obtain t where t: "t \<in> set ts" "s \<in> set (subtrees t)" using s by auto
  have sr: "tree_rep b s" using subtree_rep [OF t(2)] tr t(1) by (simp add: list_all_iff)
  have sn: "set (nodes s) \<subseteq> set (fnodes ts)" using subtree_nodes [OF t(2)] t(1) by auto
  have M: "mset (fnodes ts) = mset (fnodes ?ts) + mset (nodes s)" using mset_prune_all [OF s] D by simp
  then have M': "mset (fnodes ts) = mset (nodes s @ fnodes ?ts)" by (simp only: mset_append add.commute)
  have dn: "distinct (nodes s @ fnodes ?ts)" using D mset_eq_imp_distinct_iff [OF M'] by simp
  have sn': "set (fnodes ts) = set (nodes s) \<union> set (fnodes ?ts)" using mset_eq_setD [OF M'] by simp
  obtain lo where lo: "linked b ?r lo" "(ups lo \<union> sides lo) \<inter> set (nodes s) = {}" "ups lo \<union> sides lo \<subseteq> set (fnodes ts)"
    by (rule forest_place [OF sh s])
  let ?R = "ekeys b (fnodes ?ts)"
  have hh: "hash_has b (ekeys b (nodes s) + ?R)"
    using ok ekeys_mset [OF M'] by (simp add: base_ok_def)
  have "distinct (nodes s @ fs)" using D dn sn by auto
  then obtain b' km' where r: "FreeHandle n b ?r km = Some (PVRSRV_OK, b', km')" "unlinked b' lo"
    "freed b fs (nodes s) (ups lo) (sides lo) (fs @ post s) ?R b'"
    using FreeHandle_frees [of s] sr lo(1,2) fl hh n sm sh unfolding frees_def base_shape_def by blast
  have fr: "hframe (set (nodes s)) (ups lo) (sides lo) (set fs) b b'" and fl': "fl_ok b' (fs @ post s)"
    and hh': "hash_has b' ?R" and fx: "fixedp b' = fixedp b" using r(3) by (auto simp: freed_def)
  have rt: "hParent (sSiblings h) = 0" if "u \<in> set ts" "get_h b (root u) = Some h" for u h
    using sh that linked_parent [of b "root u" None h] by (auto simp: base_shape_def)
  have pz: "q + 1 \<noteq> 0" if "q \<in> set (fnodes ts)" for q
    using forest_get [OF sh, of q] that index_plus_one [OF _ sm, of q] by auto
  have rn: "root u \<notin> set (nodes s)" if u: "u \<in> set ts" "root u \<noteq> ?r" for u
  proof
    assume un: "root u \<in> set (nodes s)"
    obtain h where h: "get_h b (root u) = Some h" using tree_rep_node [OF sr un] by blast
    obtain q where q: "q \<in> set (nodes s)" "hParent (sSiblings h) = q + 1" using child_parent [OF sr un u(2) h] by blast
    show False using q(2) rt [OF u(1) h] pz [OF subsetD [OF sn q(1)]] by simp
  qed
  have "list_all (tree_rep b') ?ts"
  proof -
    have "tree_rep b' (prune ?r u)" if u: "u \<in> set ts" "root u \<noteq> ?r" for u
      by (rule tree_rep_prune [OF sr lo(1) r(2) fr sm _ rn [OF u]]) (use tr u(1) D in \<open>auto simp: list_all_iff\<close>)
    then show ?thesis by (auto simp: prune_all_def list_all_iff)
  qed
  moreover have "\<forall>u \<in> set ?ts. linked b' (root u) None"
  proof
    fix u' assume "u' \<in> set ?ts"
    then obtain u where u: "u \<in> set ts" "root u \<noteq> ?r" "root u' = root u" by (auto simp: prune_all_def)
    obtain h where h: "get_h b (root u) = Some h" "sSiblings h = HandleListInit (root u) NULL"
      using sh u(1) by (auto simp: base_shape_def linked_def)
    have "root u \<notin> sides lo"
    proof
      assume "root u \<in> sides lo"
      then obtain p where p: "ups lo = {p}" "hParent (sSiblings h) = p + 1" using sides_parent [OF lo(1) _ h(1)] by blast
      have "p \<in> set (fnodes ts)" using lo(3) p(1) by blast
      then show False using p(2) rt [OF u(1) h(1)] pz by simp
    qed
    moreover obtain h' where "get_h b' (root u) = Some h'" "hrel (ups lo) (sides lo) (set fs) (root u) h h'"
      by (rule hframe_get [OF fr h(1) rn [OF u(1,2)]])
    ultimately show "linked b' (root u') None" using h(2) u(3) by (simp add: linked_def hrel_def)
  qed
  moreover have "ekeys b' (fnodes ?ts) = ?R"
  proof (rule ekeys_cong)
    fix i assume i: "i \<in> set (fnodes ?ts)"
    then obtain h where h: "get_h b i = Some h" using forest_get [OF sh, of i] sn' by auto
    have "i \<notin> set (nodes s)" using dn i by auto
    then obtain h' where h': "get_h b' i = Some h'" "hrel (ups lo) (sides lo) (set fs) i h h'" by (rule hframe_get [OF fr h])
    show "nkey b' i = nkey b i"
    proof (rule nkey_hrel [OF h h'])
      show "hParent (sSiblings h') = hParent (sSiblings h)"
      proof (cases "i \<in> sides lo")
        case True
        then obtain p xs ys where l: "lo = Some (p, xs, ys)" "i \<in> set (xs @ ys)" by (auto simp: sides_def split: option.splits)
        then have "circ b p (xs @ ?r # ys)" "circ b' p (xs @ ys)" using lo(1) r(2) by (auto simp: linked_def unlinked_def)
        then show ?thesis using circ_parent [of b p _ i h] circ_parent [of b' p _ i h'] h h'(1) l(2) by auto
      qed (use h'(2) in \<open>simp add: hrel_def\<close>)
    qed
  qed
  moreover have cov: "set (fnodes ts @ fs) = set (fnodes ?ts @ fs @ post s)"
    unfolding set_append sn' post_simps by auto
  moreover have "distinct (fnodes ?ts @ fs @ post s)" using dn D sn' by auto
  ultimately have "base_ok b' (fs @ post s) ?ts"
    using sh fl' hh' fixedp_shape [OF fx] unfolding base_ok_def base_shape_def cov by simp
  then show ?thesis using r(1) fx fr by blast
qed

end
