(* ===== verification/Pvr_Handle_Alloc.thy ===== *)
theory Pvr_Handle_Alloc
  imports Pvr_Handle_Inv
begin

text \<open>
  Growing the array and taking a handle from the free list, as a root or as a new last child of
  its parent.
\<close>

subsection \<open>Growing the array\<close>

definition blank :: "sHandle \<Rightarrow> sHandle" where
  "blank h = h\<lparr>eType := PVRSRV_HANDLE_TYPE_NONE, eInternalFlag := INTERNAL_HANDLE_FLAG_NONE, ui32NextIndexPlusOne := 0\<rparr>"

lemma init_handles_spec:
  "i + n \<le> length (psHandleArray b) \<Longrightarrow> length (psHandleArray b) < 2 ^ 32 \<Longrightarrow>
   \<exists>b'. init_handles b i n = Some b' \<and>
     (\<forall>j. get_h b' j = (if i \<le> unat j \<and> unat j < i + n then map_option blank (get_h b j) else get_h b j)) \<and>
     fixedp b' = fixedp b \<and> fscal b' = fscal b \<and> psHashTab b' = psHashTab b"
proof (induction n arbitrary: b i)
  case (Suc n)
  have u: "unat (of_nat i :: u32) = i" using Suc.prems by (simp add: unat_of_nat)
  obtain h where h: "get_h b (of_nat i) = Some h" using Suc.prems by (simp add: get_h_def u)
  let ?b = "put_h (of_nat i) (blank h) b"
  have g: "get_h ?b = (get_h b)(of_nat i \<mapsto> blank h)" by (rule get_put [OF h])
  have "\<exists>b'. init_handles ?b (Suc i) n = Some b' \<and>
     (\<forall>j. get_h b' j = (if Suc i \<le> unat j \<and> unat j < Suc i + n then map_option blank (get_h ?b j) else get_h ?b j)) \<and>
     fixedp b' = fixedp ?b \<and> fscal b' = fscal ?b \<and> psHashTab b' = psHashTab ?b"
    by (rule Suc.IH) (use Suc.prems in simp_all)
  then obtain b' where b': "init_handles ?b (Suc i) n = Some b'"
    "\<forall>j. get_h b' j = (if Suc i \<le> unat j \<and> unat j < Suc i + n then map_option blank (get_h ?b j) else get_h ?b j)"
    "fixedp b' = fixedp ?b" "fscal b' = fscal ?b" "psHashTab b' = psHashTab ?b" by blast
  have "init_handles b i (Suc n) = Some b'"
    using upd_h_simp [OF h] b'(1) by (simp add: blank_def)
  moreover have "get_h b' j = (if i \<le> unat j \<and> unat j < i + Suc n then map_option blank (get_h b j) else get_h b j)" for j
  proof (cases "j = of_nat i")
    case True
    then show ?thesis using b'(2) u h by (simp add: g)
  next
    case False
    then have "unat j \<noteq> i" using u by (metis word_unat_eq_iff)
    then show ?thesis using b'(2) False by (auto simp: g)
  qed
  ultimately show ?case using b'(3-5) by (simp add: fixedp_def fscal_def)
qed auto

lemma ekeys_get: "\<forall>i \<in> set xs. get_h b' i = get_h b i \<Longrightarrow> ekeys b' xs = ekeys b xs"
  by (rule ekeys_cong) (simp add: nkey_def)

text \<open>So few handles that the byte size of the array, and of the array one block larger, fits 32 bits.\<close>

definition handles_small :: "hbase \<Rightarrow> bool" where
  "handles_small b \<longleftrightarrow> unat (ui32TotalHandCount b) \<le> 89478000"

lemma fchain_upto:
  assumes "\<And>j. m \<le> unat j \<Longrightarrow> unat j < n \<Longrightarrow>
      \<exists>h. get_h b j = Some h \<and> eType h = PVRSRV_HANDLE_TYPE_NONE \<and> ui32NextIndexPlusOne h = 0" "n < 2 ^ 32"
  shows "fchain b (map of_nat [m..<n])"
  using assms
proof (induction "n - m" arbitrary: m)
  case (Suc k)
  then have mn: "m < n" by simp
  have u: "unat (of_nat m :: u32) = m" using mn Suc.prems(2) by (simp add: unat_of_nat)
  have ih: "fchain b (map of_nat [Suc m..<n])" by (rule Suc.hyps(1)) (use Suc in auto)
  obtain h where h: "get_h b (of_nat m) = Some h" "eType h = PVRSRV_HANDLE_TYPE_NONE" "ui32NextIndexPlusOne h = 0"
    using Suc.prems(1) [of "of_nat m"] u mn by auto
  show ?case
  proof (cases "Suc m < n")
    case True
    then have "[m..<n] = m # Suc m # [Suc (Suc m)..<n]" "[Suc m..<n] = Suc m # [Suc (Suc m)..<n]"
      using mn by (simp_all add: upt_conv_Cons)
    then show ?thesis using ih h by (simp add: add.commute)
  next
    case False
    then have "[m..<n] = [m]" using mn by (simp add: upt_conv_Cons)
    then show ?thesis using h by simp
  qed
qed simp

lemma Realloc_grow:
  assumes "length (psHandleArray b) = unat T" "unat T < unat N" "unat N * 48 < 2 ^ 32"
    and "ReallocHandleArray b N T km = (e, b1, km1)"
  shows "e = PVRSRV_OK \<and> b1 = b\<lparr>psHandleArray := psHandleArray b @ map (raw_hand b) [unat T..<unat N]\<rparr> \<or>
     e = PVRSRV_ERROR_OUT_OF_MEMORY \<and> b1 = b"
proof -
  have n: "unat (N * sizeof_sHandle) = unat N * 48" "unat (T * sizeof_sHandle) = unat T * 48"
    using assms(2,3) by (simp_all add: sizeof_sHandle_def unat_word_ariths)
  have d: "N * sizeof_sHandle \<noteq> T * sizeof_sHandle" "N * sizeof_sHandle \<noteq> 0"
    using n assms(2) by (auto simp: word_unat_eq_iff)
  have z: "T * sizeof_sHandle = 0 \<longleftrightarrow> unat T = 0" using n(2) by (simp add: word_unat_eq_iff)
  have q: "unat (N * sizeof_sHandle div sizeof_sHandle) = unat N"
    by (simp add: unat_div n(1)) (simp add: sizeof_sHandle_def)
  have k: "(if T * sizeof_sHandle \<noteq> 0 then take (unat N) (psHandleArray b) else []) = psHandleArray b"
    using z assms(1,2) by auto
  have "ReallocHandleArray b N T km = (case OSAllocMem km of (e, _, km') \<Rightarrow>
      if e \<noteq> PVRSRV_OK then (e, b, km')
      else (PVRSRV_OK, b\<lparr>psHandleArray := psHandleArray b @ map (raw_hand b) [unat T..<unat N]\<rparr>, km'))"
    by (simp only: ReallocHandleArray_def Let_def d q k assms(1) if_False not_False_eq_True if_True)
  then show ?thesis
    by (cases km rule: OSAllocMem_cases) (use assms(4) in auto)
qed

lemma Increase_spec:
  assumes ok: "base_ok b [] ts" and sm: "handles_small b"
  shows "\<exists>e b' km'. IncreaseHandleArraySize b 1 km = Some (e, b', km') \<and>
     (e = PVRSRV_ERROR_OUT_OF_MEMORY \<and> b' = b \<or>
      e = PVRSRV_OK \<and> (\<exists>f fs. base_ok b' (f # fs) ts) \<and> psHashTab b' = psHashTab b \<and>
        (\<forall>i \<in> set (fnodes ts). get_h b' i = get_h b i))"
proof -
  let ?T = "ui32TotalHandCount b" and ?M = "ui32MaxIndexPlusOne b"
  have sh: "base_shape b [] ts" using ok by (simp add: base_ok_def)
  have len: "length (psHandleArray b) = unat ?T" and TM: "unat ?T \<le> unat ?M" and T: "unat ?T \<le> 89478000"
    and np: "\<not> bPurgingEnabled b" and fl: "fl_ok b []"
    using sh sm by (auto simp: base_shape_def word_le_nat_alt handles_small_def)
  have r: "ROUND_UP_TO_MULTIPLE 1 HANDLE_BLOCK_SIZE = 256"
    by (simp add: ROUND_UP_TO_MULTIPLE_def HANDLE_BLOCK_SIZE_def)
  have N0: "unat (?T + 256) = unat ?T + 256" using T by (simp add: unat_word_ariths)
  define capped where "capped = (?M < ?T + 256 \<or> ?T + 256 \<le> ?T)"
  have cap: "capped \<longleftrightarrow> unat ?M < unat ?T + 256"
    by (simp add: capped_def word_less_nat_alt word_le_nat_alt N0)
  define N where "N = (if capped then ?M else ?T + 256)"
  define D where "D = (if capped then N - ?T else 256)"
  have Nu: "unat N = (if capped then unat ?M else unat ?T + 256)" by (simp add: N_def N0)
  have TN: "unat ?T \<le> unat N" "unat N \<le> unat ?M" "unat N \<le> unat ?T + 256" using Nu TM cap by auto
  have Du: "unat D = unat N - unat ?T"
  proof (cases capped)
    case True
    then show ?thesis using unat_sub [of ?T N] TN(1) by (simp add: D_def word_le_nat_alt)
  next
    case False
    then show ?thesis by (simp add: D_def Nu)
  qed
  have ND: "?T + D = N" by (simp add: D_def N_def)
  have inc: "IncreaseHandleArraySize b 1 km = (if capped \<and> D < 1 then Some (PVRSRV_ERROR_OUT_OF_MEMORY, b, km)
      else case ReallocHandleArray b N ?T km of (e, b1, km1) \<Rightarrow>
        if e \<noteq> PVRSRV_OK then Some (e, b1, km1)
        else do {
             b2 \<leftarrow> init_handles b1 (unat ?T) (unat N - unat ?T);
             let b3 = b2\<lparr>ui32FreeHandCount := ui32FreeHandCount b2 + D\<rparr>;
             b4 \<leftarrow> (if ui32FirstFreeIndex b3 = 0 then Some (b3\<lparr>ui32FirstFreeIndex := ?T\<rparr>)
                    else if \<not> bPurgingEnabled b3
                    then upd_h (ui32LastFreeIndexPlusOne b3 - 1)
                           (\<lambda>h. h\<lparr>ui32NextIndexPlusOne := ?T + 1\<rparr>) b3
                    else Some b3);
             let b5 = (if \<not> bPurgingEnabled b4 then b4\<lparr>ui32LastFreeIndexPlusOne := N\<rparr> else b4);
             Some (PVRSRV_OK, b5\<lparr>ui32TotalHandCount := N\<rparr>, km1)
           })"
    unfolding IncreaseHandleArraySize_def Let_def r
    by (simp only: capped_def [symmetric] N_def [symmetric] D_def [symmetric])
  show ?thesis
  proof (cases "unat N = unat ?T")
    case True
    then have "capped" using Nu by (cases capped) simp_all
    moreover have "D < 1" using True Du by (simp add: word_less_nat_alt)
    ultimately show ?thesis by (simp add: inc)
  next
    case False
    then have lt: "unat ?T < unat N" using TN by simp
    then have nd: "D \<noteq> 0" using Du by auto
    obtain e b1 km1 where ra: "ReallocHandleArray b N ?T km = (e, b1, km1)" by (metis prod_cases3)
    show ?thesis
    proof (cases "e = PVRSRV_OK")
      case False
      then show ?thesis using Realloc_grow [OF len lt _ ra] TN T by (auto simp: inc nd ra)
    next
      case True
      then have b1: "b1 = b\<lparr>psHandleArray := psHandleArray b @ map (raw_hand b) [unat ?T..<unat N]\<rparr>"
        using Realloc_grow [OF len lt _ ra] TN T by auto
      have l1: "length (psHandleArray b1) = unat N" using len lt by (simp add: b1)
      have g1: "get_h b1 i = get_h b i" if "unat i < unat ?T" for i
        using that lt by (simp add: get_h_def b1 len nth_append)
      have "\<exists>b2. init_handles b1 (unat ?T) (unat N - unat ?T) = Some b2 \<and>
          (\<forall>j. get_h b2 j = (if unat ?T \<le> unat j \<and> unat j < unat ?T + (unat N - unat ?T) then map_option blank (get_h b1 j) else get_h b1 j)) \<and>
          fixedp b2 = fixedp b1 \<and> fscal b2 = fscal b1 \<and> psHashTab b2 = psHashTab b1"
        by (rule init_handles_spec) (use l1 lt unsigned_less [of N] in auto)
      then obtain b2 where b2: "init_handles b1 (unat ?T) (unat N - unat ?T) = Some b2"
        "\<And>j. get_h b2 j = (if unat ?T \<le> unat j \<and> unat j < unat N then map_option blank (get_h b1 j) else get_h b1 j)"
        "fixedp b2 = fixedp b1" "fscal b2 = fscal b1" "psHashTab b2 = psHashTab b1" using lt by auto
      let ?b = "b2\<lparr>ui32FreeHandCount := D, ui32FirstFreeIndex := ?T, ui32LastFreeIndexPlusOne := N, ui32TotalHandCount := N\<rparr>"
      have f2: "ui32FreeHandCount b2 = 0" "ui32FirstFreeIndex b2 = 0" "\<not> bPurgingEnabled b2"
        using b2(3,4) fl np by (auto simp: fscal_def fixedp_def b1 fl_ok_def)
      have run: "IncreaseHandleArraySize b 1 km = Some (PVRSRV_OK, ?b, km1)"
        by (simp add: inc nd ra True b2(1) f2 Let_def)
      have old: "get_h ?b i = get_h b i" if "unat i < unat ?T" for i using that g1 b2(2) by simp
      have fr: "hframe {} {} {} {} b ?b"
        unfolding hframe_def
      proof (intro allI impI)
        fix i h assume h: "get_h b i = Some h"
        then have "unat i < unat ?T" using len by (simp add: get_h_def split: if_splits)
        then have "get_h ?b i = Some h" using old h by metis
        then show "\<exists>h'. get_h ?b i = Some h' \<and> hrel {} {} {} i h h'" by simp
      qed
      let ?fs = "map of_nat [unat ?T..<unat N] :: u32 list"
      have nm: "unat N < 2 ^ 32" using unsigned_less [of N] by simp
      have sfs: "set ?fs = {i. unat ?T \<le> unat i \<and> unat i < unat N}"
      proof (intro set_eqI iffI)
        fix i :: u32 assume "i \<in> {i. unat ?T \<le> unat i \<and> unat i < unat N}"
        then have "i = of_nat (unat i)" "unat i \<in> set [unat ?T..<unat N]" by simp_all
        then show "i \<in> set ?fs" by (metis image_eqI list.set_map)
      qed (use nm in \<open>auto simp: unat_of_nat\<close>)
      have chain: "fchain ?b ?fs"
      proof (rule fchain_upto [OF _ nm])
        fix j :: u32 assume j: "unat ?T \<le> unat j" "unat j < unat N"
        then obtain h where "get_h b1 j = Some h" using l1 by (simp add: get_h_def)
        then show "\<exists>h. get_h ?b j = Some h \<and> eType h = PVRSRV_HANDLE_TYPE_NONE \<and> ui32NextIndexPlusOne h = 0"
          using j b2(2) [of j] by (simp add: blank_def)
      qed
      have "?fs \<noteq> []" using lt by simp
      moreover have "hd ?fs = ?T" "last ?fs + 1 = N"
        using lt by (simp_all add: hd_map last_map of_nat_diff Suc_leI)
      moreover have "D = of_nat (length ?fs)" using arg_cong [OF Du, of "of_nat :: nat \<Rightarrow> u32"] by simp
      ultimately have flb: "fl_ok ?b ?fs" using chain nm by (simp add: fl_ok_def)
      have inb: "unat i < unat ?T" if "i \<in> set (fnodes ts)" for i
        using forest_get [OF sh, of i] that len by (auto simp: get_h_def split: if_splits)
      have tb: "list_all (tree_rep ?b) ts" 
        unfolding list_all_iff
      proof
        fix t assume t: "t \<in> set ts"
        show "tree_rep ?b t" by (rule tree_rep_hframe [OF _ fr]) (use sh t in \<open>auto simp: base_shape_def list_all_iff distinct_concat_iff\<close>)
      qed
      have lb: "linked ?b (root t) None" if t: "t \<in> set ts" for t
      proof -
        have "root t \<in> set (fnodes ts)" using t roots_in_fnodes [of ts] by auto
        then have "get_h ?b (root t) = get_h b (root t)" using old inb by blast
        then show ?thesis using sh t by (simp add: base_shape_def linked_def)
      qed
      have ek: "ekeys ?b (fnodes ts) = ekeys b (fnodes ts)"
        by (rule ekeys_cong) (use old inb in \<open>simp add: nkey_def\<close>)
      have fx: "bPurgingEnabled ?b = bPurgingEnabled b" "HANDLES_BATCHED ?b = HANDLES_BATCHED b"
        "ui32MaxIndexPlusOne ?b = ?M" "length (psHandleArray ?b) = unat N" "psHashTab ?b = psHashTab b"
        using b2(3,5) l1 by (auto simp: fixedp_def b1 HANDLES_BATCHED_def)
      have "base_shape ?b ?fs ts"
        unfolding base_shape_def
      proof (intro conjI allI impI ballI)
        have "set (fnodes ts) \<inter> set ?fs = {}" 
        proof (rule equals0I)
          fix i assume i: "i \<in> set (fnodes ts) \<inter> set ?fs"
          then have "unat i < unat ?T" by (intro inb) blast
          moreover have "unat ?T \<le> unat i" using i unfolding sfs by blast
          ultimately show False by simp
        qed
        moreover have "distinct ?fs" using nm by (auto simp: distinct_map inj_on_def unat_of_nat word_unat_eq_iff)
        ultimately show "distinct (fnodes ts @ ?fs)" using sh by (simp add: base_shape_def)
        show "i \<in> set (fnodes ts @ ?fs)" if "unat i < length (psHandleArray ?b)" for i
        proof (cases "unat i < unat ?T")
          case True
          then show ?thesis using sh by (auto simp: base_shape_def)
        next
          case False
          then have "i \<in> set ?fs" unfolding sfs using that fx(4) by simp
          then show ?thesis by simp
        qed
        show "ui32TotalHandCount ?b \<le> ui32MaxIndexPlusOne ?b" using TN(2) fx(3) by (simp add: word_le_nat_alt)
      qed (use sh fx tb lb flb in \<open>auto simp: base_shape_def\<close>)
      then have "base_ok ?b ?fs ts"
        using ok ek hash_has_cong [OF fx(5)] by (simp add: base_ok_def)
      moreover have "?fs = hd ?fs # tl ?fs" using \<open>?fs \<noteq> []\<close> by simp
      ultimately have "\<exists>f fs. base_ok ?b (f # fs) ts" by metis
      then show ?thesis using run old inb fx(5) by blast
    qed
  qed
qed

lemma Ensure_spec:
  assumes ok: "base_ok b fs ts" and sm: "handles_small b"
  shows "\<exists>e b' km'. EnsureFreeHandles b 1 km = Some (e, b', km') \<and>
     (e = PVRSRV_ERROR_OUT_OF_MEMORY \<and> b' = b \<or>
      e = PVRSRV_OK \<and> (\<exists>f fs'. base_ok b' (f # fs') ts) \<and> psHashTab b' = psHashTab b \<and>
        (\<forall>i \<in> set (fnodes ts). get_h b' i = get_h b i))"
proof (cases fs)
  case Nil
  then have "ui32FreeHandCount b = 0" using ok by (simp add: base_ok_def base_shape_def fl_ok_def)
  then have "EnsureFreeHandles b 1 km = IncreaseHandleArraySize b 1 km" by (simp add: EnsureFreeHandles_def)
  then show ?thesis using Increase_spec [of b ts km] ok sm Nil by simp
next
  case (Cons f fs')
  then have c: "ui32FreeHandCount b = of_nat (length fs)" "length fs < 2 ^ 32" "0 < length fs"
    using ok by (auto simp: base_ok_def base_shape_def fl_ok_def)
  then have "unat (ui32FreeHandCount b) = length fs" by (simp add: unat_of_nat)
  then have "\<not> 1 > ui32FreeHandCount b" using c(3) by (auto simp: word_less_nat_alt)
  then have "EnsureFreeHandles b 1 km = Some (PVRSRV_OK, b, km)" unfolding EnsureFreeHandles_def by (simp only: if_False)
  then show ?thesis using ok Cons by blast
qed

subsection \<open>Taking the head of the free list\<close>

lemma put_put [simp]: "put_h i h' (put_h i h b) = put_h i h' b"
  by (simp add: put_h_def)

lemma upd_put: "get_h b i = Some h0 \<Longrightarrow> upd_h i f (put_h i h b) = Some (put_h i (f h) b)"
  using upd_h_simp [of "put_h i h b" i h f] by (simp add: get_put)

definition new_handle :: "PVRSRV_HANDLE_TYPE \<Rightarrow> ptr \<Rightarrow> u32 \<Rightarrow> u32 \<Rightarrow> sHandle" where
  "new_handle ty data flag i = \<lparr>eType = ty, pvData = data, ui32NextIndexPlusOne = 0, eInternalFlag = 0,
     eFlag = flag, ui32Index = i, sChildren = HandleListInit i (i + 1), sSiblings = HandleListInit i NULL\<rparr>"

lemma fchain_Cons: "fchain b (x # fs) \<Longrightarrow> fchain b fs"
  by (cases fs) auto

lemma fchain_succ:
  "fchain b (x # y # fs) \<Longrightarrow> get_h b x = Some h \<Longrightarrow>
   (if ui32NextIndexPlusOne h = 0 then x + 1 else ui32NextIndexPlusOne h - 1) = y"
  by auto

text \<open>The handle count and the ends of the free list after its head has been taken.\<close>

definition dequeue :: "hbase \<Rightarrow> sHandle \<Rightarrow> hbase" where
  "dequeue b h = (let c = ui32FreeHandCount b - 1; i = ui32FirstFreeIndex b
     in if c = 0 then b\<lparr>ui32FreeHandCount := c, ui32LastFreeIndexPlusOne := 0, ui32FirstFreeIndex := 0\<rparr>
        else b\<lparr>ui32FreeHandCount := c, ui32FirstFreeIndex :=
               (if ui32NextIndexPlusOne h = 0 then i + 1 else ui32NextIndexPlusOne h - 1)\<rparr>)"

lemma dequeue_sel [simp]:
  "get_h (dequeue b h) = get_h b" "psHandleArray (dequeue b h) = psHandleArray b"
  "psHashTab (dequeue b h) = psHashTab b" "fixedp (dequeue b h) = fixedp b"
  by (auto simp: dequeue_def Let_def fixedp_def)

lemma dequeue_fl:
  assumes "fl_ok b (i # fs)" "get_h b i = Some h"
  shows "fl_ok (dequeue b h) fs"
proof -
  have c: "ui32FreeHandCount b - 1 = of_nat (length fs)" using assms(1) by (simp add: fl_ok_def)
  have z: "(of_nat (length fs) :: u32) = 0 \<longleftrightarrow> fs = []"
    using assms(1) by (auto simp: fl_ok_def word_unat_eq_iff unat_of_nat)
  have fc: "fchain b (i # fs)" using assms(1) by (simp add: fl_ok_def)
  have "fchain (dequeue b h) fs"
    using fchain_hframe [OF fchain_Cons [OF fc], of "{}" "{}" "{}" "{}" "dequeue b h"] by (simp add: hframe_def)
  moreover have "(if ui32NextIndexPlusOne h = 0 then i + 1 else ui32NextIndexPlusOne h - 1) = hd fs" if "fs \<noteq> []"
    using fchain_succ [of b i "hd fs" "tl fs" h] fc that assms(2) by simp
  ultimately show ?thesis using assms(1) c z by (auto simp: fl_ok_def dequeue_def Let_def)
qed

lemma fill_handle:
  assumes "unat i < length (psHandleArray b5)" "ui32HandBatchSize b5 = 0"
  shows "upd_h i (\<lambda>h. h\<lparr>eType := ty, pvData := data, eInternalFlag := INTERNAL_HANDLE_FLAG_NONE,
              eFlag := flag, ui32Index := i\<rparr>) b5 \<bind>
     (\<lambda>b6. upd_h i (InitParentList i) b6 \<bind> (\<lambda>b7. upd_h i (InitChildEntry i) b7 \<bind>
     (\<lambda>b8. (if ui32HandBatchSize b8 \<noteq> 0 then X b8 else upd_h i (\<lambda>h. h\<lparr>ui32NextIndexPlusOne := 0\<rparr>) b8) \<bind> k))) =
     k (put_h i (new_handle ty data flag i) b5)"
proof -
  obtain h where g: "get_h b5 i = Some h" using assms(1) by (simp add: get_h_def)
  show ?thesis
    using assms(2)
    by (cases h) (simp add: upd_h_simp [OF g] upd_put [OF g] new_handle_def InitParentList_def InitChildEntry_def
        INTERNAL_HANDLE_FLAG_NONE_def INDEX_TO_HANDLE_def)
qed

lemma AllocHandle_run:
  assumes "EnsureFreeHandles b 1 km = Some (PVRSRV_OK, b1, km1)" "\<not> bPurgingEnabled b1" "\<not> HANDLES_BATCHED b1"
    and h: "get_h b1 i = Some h" and i: "ui32FirstFreeIndex b1 = i"
    and "(ok, t, km2) = (if \<not> TEST_FLAG flag PVRSRV_HANDLE_ALLOC_FLAG_MULTI
           then HASH_Insert_Extended (psHashTab b1) (InitKey data ty parent) (i + 1) km1
           else (True, psHashTab b1, km1))"
  shows "AllocHandle b data ty flag parent km =
     (if ok then Some (PVRSRV_OK, i + 1, put_h i (new_handle ty data flag i) (dequeue (b1\<lparr>psHashTab := t\<rparr>) h), km2)
      else Some (PVRSRV_ERROR_GENERIC, NULL, b1\<lparr>psHashTab := t\<rparr>, km2))"
proof (cases ok)
  case True
  have l: "unat i < length (psHandleArray b1)" using h by (simp add: get_h_def split: if_splits)
  show ?thesis
    using True assms(2,3) l i
    by (simp add: AllocHandle_def assms(1) INDEX_TO_HANDLE_def assms(6) [symmetric] h Let_def
        fill_handle HANDLES_BATCHED_def dequeue_def)
next
  case False
  then show ?thesis by (simp add: AllocHandle_def assms(1,2) i INDEX_TO_HANDLE_def assms(6) [symmetric])
qed

lemma take_head:
  fixes b :: hbase and h :: sHandle and data flag :: u32 and t :: HASH_TABLE
  assumes sh: "base_shape b (i # fs) ts" and h: "get_h b i = Some h" and ty: "ty \<noteq> PVRSRV_HANDLE_TYPE_NONE"
  defines "b' \<equiv> put_h i (new_handle ty data flag i) (dequeue (b\<lparr>psHashTab := t\<rparr>) h)"
  shows "base_shape b' fs (ts @ [HNode i []])" and "get_h b' = (get_h b)(i \<mapsto> new_handle ty data flag i)"
    and "psHashTab b' = t"
proof -
  let ?q = "dequeue (b\<lparr>psHashTab := t\<rparr>) h"
  show g: "get_h b' = (get_h b)(i \<mapsto> new_handle ty data flag i)"
    unfolding b'_def by (subst get_put [of _ _ h]) (simp_all add: h)
  show "psHashTab b' = t" by (simp add: b'_def)
  have fr: "hframe {i} {} {} {} b b'" unfolding hframe_def g by simp
  have D: "distinct (fnodes ts @ i # fs)" using sh by (simp add: base_shape_def)
  have "fl_ok (b\<lparr>psHashTab := t\<rparr>) (i # fs)"
    using fl_ok_hframe [of b "i # fs" "{}" "{}" "{}" "{}" "b\<lparr>psHashTab := t\<rparr>"] sh
    by (simp add: base_shape_def hframe_def fscal_def)
  then have "fl_ok ?q fs" by (rule dequeue_fl) (simp add: h)
  then have fl: "fl_ok b' fs"
    by (rule fl_ok_hframe [of _ _ "{i}" "{}" "{}" "{}"])
      (use D hframe_put [of i "{i}" ?q h] h in \<open>simp_all add: b'_def fscal_def\<close>)
  have fx: "fixedp b' = fixedp b"
  proof -
    have "fixedp b' = fixedp ?q" by (simp add: b'_def fixedp_def)
    also have "\<dots> = fixedp b" by simp (simp add: fixedp_def)
    finally show ?thesis .
  qed
  have new: "tree_rep b' (HNode i [])" "linked b' i None"
    using ty by (simp_all add: g circ_def linked_def new_handle_def HandleListInit_def INTERNAL_HANDLE_FLAG_NONE_def)
  have old: "tree_rep b' u" if u: "u \<in> set ts" for u
    by (rule tree_rep_hframe [OF _ fr]) (use sh u D in \<open>auto simp: base_shape_def list_all_iff distinct_concat_iff\<close>)
  have lk: "linked b' (root u) None" if u: "u \<in> set ts" for u
  proof -
    have "root u \<in> set (fnodes ts)" using u roots_in_fnodes [of ts] by auto
    then have "root u \<noteq> i" using D by auto
    then show ?thesis using sh u by (auto simp: base_shape_def linked_def g)
  qed
  have cov: "set (fnodes (ts @ [HNode i []]) @ fs) = set (fnodes ts @ i # fs)" by auto
  show "base_shape b' fs (ts @ [HNode i []])"
    unfolding base_shape_def cov
  proof (intro conjI)
    show "distinct (fnodes (ts @ [HNode i []]) @ fs)" using D by auto
    show "list_all (tree_rep b') (ts @ [HNode i []])" using old new(1) by (simp add: list_all_iff)
    show "\<forall>t \<in> set (ts @ [HNode i []]). linked b' (root t) None" using lk new(2) by auto
  qed (use sh fixedp_shape [OF fx] fl in \<open>simp_all add: base_shape_def\<close>)
qed

text \<open>The entry a new handle gets in the hash table.\<close>

definition new_entry :: "u32 \<Rightarrow> ptr \<Rightarrow> PVRSRV_HANDLE_TYPE \<Rightarrow> ptr \<Rightarrow> u32 \<Rightarrow> (u32 list \<times> u32) multiset" where
  "new_entry flag data ty parent i =
     (if TEST_FLAG flag PVRSRV_HANDLE_ALLOC_FLAG_MULTI then {#} else {#(InitKey data ty parent, i + 1)#})"

definition key_free :: "hbase \<Rightarrow> u32 \<Rightarrow> ptr \<Rightarrow> PVRSRV_HANDLE_TYPE \<Rightarrow> ptr \<Rightarrow> bool" where
  "key_free b flag data ty parent \<longleftrightarrow> TEST_FLAG flag PVRSRV_HANDLE_ALLOC_FLAG_MULTI \<or>
     \<not> stores_key (entries (psHashTab b)) (InitKey data ty parent)"

lemma insert_entry:
  assumes hh: "hash_has b E" and "table_roomy (psHashTab b)" and kf: "key_free b flag data ty parent"
    and ins: "(ok, t, km2) = (if \<not> TEST_FLAG flag PVRSRV_HANDLE_ALLOC_FLAG_MULTI
           then HASH_Insert_Extended (psHashTab b) (InitKey data ty parent) (i + 1) km1
           else (True, psHashTab b, km1))"
  shows "hash_has (b\<lparr>psHashTab := t\<rparr>) (if ok then new_entry flag data ty parent i + E else E)"
proof (cases "TEST_FLAG flag PVRSRV_HANDLE_ALLOC_FLAG_MULTI")
  case True
  then show ?thesis using hh ins by (simp add: new_entry_def hash_has_def)
next
  case False
  let ?k = "InitKey data ty parent"
  have a: "hash_inv (psHashTab b)" "table_key (psHashTab b) ?k"
    using hh by (auto simp: hash_has_def table_key_def InitKey_def)
  have e: "HASH_Insert_Extended (psHashTab b) ?k (i + 1) km1 = (ok, t, km2)" using ins False by simp
  note sp = HASH_Insert_Extended_spec [OF a(1) assms(2) a(2) e]
  have "\<not> stores_key E ?k" using kf False hh by (simp add: key_free_def hash_has_def)
  then have "one_value (add_mset (?k, i + 1) E) k" for k
    by (rule one_value_insert) (use hh in \<open>simp add: hash_has_def\<close>)
  then show ?thesis
    using sp hh False by (auto simp: hash_has_def new_entry_def key_words_def same_config_def)
qed

lemma AllocHandle_spec:
  assumes ok: "base_ok b fs ts" and sm: "handles_small b" and rm: "table_roomy (psHashTab b)"
    and ty: "ty \<noteq> PVRSRV_HANDLE_TYPE_NONE" and kf: "key_free b flag data ty parent"
  shows "\<exists>e hh b' km'. AllocHandle b data ty flag parent km = Some (e, hh, b', km') \<and>
     (\<forall>j \<in> set (fnodes ts). get_h b' j = get_h b j) \<and>
     (e \<noteq> PVRSRV_OK \<and> hh = NULL \<and> (\<exists>fs'. base_ok b' fs' ts) \<or>
      e = PVRSRV_OK \<and> (\<exists>i fs'. hh = i + 1 \<and> i \<notin> set (fnodes ts) \<and> base_shape b' fs' (ts @ [HNode i []]) \<and>
         get_h b' i = Some (new_handle ty data flag i) \<and>
         hash_has b' (new_entry flag data ty parent i + ekeys b (fnodes ts))))"
proof -
  obtain e b1 km1 where en: "EnsureFreeHandles b 1 km = Some (e, b1, km1)"
    and r: "e = PVRSRV_ERROR_OUT_OF_MEMORY \<and> b1 = b \<or>
      e = PVRSRV_OK \<and> (\<exists>f fs'. base_ok b1 (f # fs') ts) \<and> psHashTab b1 = psHashTab b \<and>
        (\<forall>i \<in> set (fnodes ts). get_h b1 i = get_h b i)" using Ensure_spec [OF ok sm] by blast
  show ?thesis
  proof (cases "e = PVRSRV_OK")
    case False
    then have "AllocHandle b data ty flag parent km = Some (e, NULL, b1, km1)" by (simp add: AllocHandle_def en)
    then show ?thesis using r False ok by blast
  next
    case True
    then obtain i fs' where ok1: "base_ok b1 (i # fs') ts" and ht1: "psHashTab b1 = psHashTab b"
      and g1: "\<forall>i \<in> set (fnodes ts). get_h b1 i = get_h b i" using r by auto
    have sh1: "base_shape b1 (i # fs') ts" using ok1 by (simp add: base_ok_def)
    obtain h where h: "get_h b1 i = Some h" using forest_get [OF sh1, of i] by auto
    have i: "ui32FirstFreeIndex b1 = i" "\<not> bPurgingEnabled b1" "\<not> HANDLES_BATCHED b1" "i \<notin> set (fnodes ts)"
      using sh1 by (auto simp: base_shape_def fl_ok_def)
    obtain okk t km2 where ins: "(okk, t, km2) = (if \<not> TEST_FLAG flag PVRSRV_HANDLE_ALLOC_FLAG_MULTI
           then HASH_Insert_Extended (psHashTab b1) (InitKey data ty parent) (i + 1) km1
           else (True, psHashTab b1, km1))" by (metis prod_cases3)
    have "hash_has (b1\<lparr>psHashTab := t\<rparr>) (if okk then new_entry flag data ty parent i + ekeys b1 (fnodes ts) else ekeys b1 (fnodes ts))"
      by (rule insert_entry [OF _ _ _ ins]) (use ok1 rm kf ht1 in \<open>simp_all add: base_ok_def key_free_def\<close>)
    moreover have ek: "ekeys b1 (fnodes ts) = ekeys b (fnodes ts)"
      by (rule ekeys_get [OF g1])
    ultimately have hh: "hash_has (b1\<lparr>psHashTab := t\<rparr>) (if okk then new_entry flag data ty parent i + ekeys b (fnodes ts) else ekeys b (fnodes ts))"
      by (simp only: ek)
    note run = AllocHandle_run [OF en [unfolded True] i(2,3) h i(1) ins]
    show ?thesis
    proof (cases okk)
      case False
      let ?b = "b1\<lparr>psHashTab := t\<rparr>"
      have "hframe {} {} {} {} b1 ?b" by (simp add: hframe_def)
      then have "base_shape ?b (i # fs') ts"
        using sh1 fl_ok_hframe [of b1 "i # fs'" "{}" "{}" "{}" "{}" ?b] tree_rep_hframe [of b1 _ "{}" "{}" "{}" "{}" ?b]
        by (auto simp: base_shape_def HANDLES_BATCHED_def list_all_iff linked_def fscal_def distinct_concat_iff)
      moreover have "ekeys ?b (fnodes ts) = ekeys b (fnodes ts)"
        using ek by (simp add: nkey_def ekeys_sum)
      ultimately have "base_ok ?b (i # fs') ts" using hh False by (simp add: base_ok_def)
      then show ?thesis using run False g1 by auto
    next
      case True
      let ?b = "put_h i (new_handle ty data flag i) (dequeue (b1\<lparr>psHashTab := t\<rparr>) h)"
      note th = take_head [OF sh1 h ty, where data = data and flag = flag and t = t]
      have "hash_has ?b (new_entry flag data ty parent i + ekeys b (fnodes ts))"
        using hh True th(3) by (simp add: hash_has_def)
      moreover have "\<forall>j \<in> set (fnodes ts). get_h ?b j = get_h b j" using th(2) g1 i(4) by auto
      ultimately show ?thesis using run True th(1,2) i(4) by auto
    qed
  qed
qed

end
