(* ===== verification/Pvr_Handle_Thms.thy ===== *)
theory Pvr_Handle_Thms
  imports Pvr_Handle_Alloc
begin

text \<open>
  The public operations of a handle base on the forest it represents: lookups read the forest,
  allocation adds a leaf, release prunes a subtree.
\<close>

subsection \<open>Adopting a new child\<close>

primrec graft :: "u32 \<Rightarrow> htree \<Rightarrow> htree \<Rightarrow> htree" where
  "graft p s (HNode j ts) = HNode j (map (graft p s) ts @ (if j = p then [s] else []))"

lemma root_graft [simp]: "root (graft p s t) = root t"
  by (cases t) simp

lemma root_graft_comp [simp]: "root \<circ> graft p s = root"
  by (rule ext) simp

lemma graft_other: "p \<notin> set (nodes t) \<Longrightarrow> graft p s t = t"
  by (induction t) (auto intro: map_idI)

lemma graft_all_other: "p \<notin> set (fnodes ts) \<Longrightarrow> map (graft p s) ts = ts"
  by (intro map_idI graft_other) auto

lemma mset_graft_list:
  assumes IH: "\<And>u. u \<in> set ts \<Longrightarrow> p \<in> set (nodes u) \<Longrightarrow> distinct (nodes u) \<Longrightarrow>
      mset (nodes (graft p s u)) = mset (nodes u) + mset (nodes s)"
    and p: "p \<in> set (fnodes ts)" and d: "distinct (fnodes ts)"
  shows "mset (fnodes (map (graft p s) ts)) = mset (fnodes ts) + mset (nodes s)"
proof -
  obtain u where u: "u \<in> set ts" "p \<in> set (nodes u)" using p by auto
  then obtain us1 us2 where us: "ts = us1 @ u # us2" by (meson split_list)
  have "distinct (nodes u)" using d u(1) by (auto simp: distinct_concat_iff)
  moreover have "map (graft p s) us1 = us1" "map (graft p s) us2 = us2"
    using d us u(2) by (auto intro!: graft_all_other)
  ultimately show ?thesis using IH [OF u] us by simp
qed

lemma mset_graft:
  "p \<in> set (nodes t) \<Longrightarrow> distinct (nodes t) \<Longrightarrow> mset (nodes (graft p s t)) = mset (nodes t) + mset (nodes s)"
proof (induction t)
  case (HNode j ts)
  show ?case
  proof (cases "j = p")
    case True
    then have "map (graft p s) ts = ts" using HNode.prems by (intro graft_all_other) auto
    then show ?thesis using True by simp
  next
    case False
    then have "mset (fnodes (map (graft p s) ts)) = mset (fnodes ts) + mset (nodes s)"
      using HNode by (intro mset_graft_list) auto
    then show ?thesis using False by simp
  qed
qed

lemma mset_graft_all:
  "p \<in> set (fnodes ts) \<Longrightarrow> distinct (fnodes ts) \<Longrightarrow>
   mset (fnodes (map (graft p s) ts)) = mset (fnodes ts) + mset (nodes s)"
  by (rule mset_graft_list) (auto intro: mset_graft)

lemma tree_rep_graft:
  assumes cp: "circ b p cs" and cp': "circ b' p (cs @ [i])" and fr: "hframe {} {p} (set (cs @ [i])) {} b b'"
    and new: "tree_rep b (HNode i [])" "i \<noteq> p"
  shows "tree_rep b t \<Longrightarrow> i \<notin> set (nodes t) \<Longrightarrow> tree_rep b' (graft p (HNode i []) t)"
proof (induction t)
  case (HNode j us)
  let ?cs = "map root us"
  have ch: "circ b j ?cs" using HNode.prems(1) by simp
  obtain h where h: "get_h b j = Some h" "eType h \<noteq> PVRSRV_HANDLE_TYPE_NONE"
    "eInternalFlag h = INTERNAL_HANDLE_FLAG_NONE" "ui32NextIndexPlusOne h = 0" using HNode.prems(1) by auto
  have i': "tree_rep b' (HNode i [])"
    by (rule tree_rep_hframe [OF new(1) fr]) (use new(2) in auto)
  have "circ b' j (?cs @ (if j = p then [i] else []))"
  proof (cases "j = p")
    case True
    then show ?thesis using cp' circ_unique [OF cp] ch by simp
  next
    case False
    have "c \<notin> set (cs @ [i])" if c: "c \<in> set ?cs" for c
    proof
      assume a: "c \<in> set (cs @ [i])"
      have "c \<in> set (nodes (HNode j us))" using c roots_in_fnodes [of us] by auto
      then have "c \<noteq> i" using HNode.prems(2) by auto
      then have "c \<in> set cs" using a by auto
      moreover obtain hc where hc: "get_h b c = Some hc" using circ_get [OF ch] c by auto
      ultimately show False using circ_parent [OF cp _ hc] circ_parent [OF ch c hc] False by auto
    qed
    then have "circ b' j ?cs" by (intro circ_hframe [OF ch fr]) (use False in auto)
    then show ?thesis using False by simp
  qed
  moreover have "map root (map (graft p (HNode i [])) us @ (if j = p then [HNode i []] else [])) =
      ?cs @ (if j = p then [i] else [])" by simp
  moreover have "tree_rep b' (graft p (HNode i []) u)" if "u \<in> set us" for u
    using HNode that by (auto simp: list_all_iff)
  moreover obtain h' where "get_h b' j = Some h'" "hrel {p} (set (cs @ [i])) {} j h h'"
    by (rule hframe_get [OF fr h(1)]) simp_all
  ultimately show ?case using h i' by (auto simp: list_all_iff hrel_def)
qed

lemma forest_circ:
  assumes sh: "base_shape b fs ts" and p: "p \<in> set (fnodes ts)"
  obtains cs where "circ b p cs" "set cs \<subseteq> set (fnodes ts)"
proof -
  obtain t s where t: "t \<in> set ts" "s \<in> set (subtrees t)" "root s = p" using p node_subtree by auto
  obtain us where s: "s = HNode p us" using t(3) by (cases s) auto
  have "tree_rep b s" using subtree_rep [OF t(2)] sh t(1) by (auto simp: base_shape_def list_all_iff)
  then have "circ b p (map root us)" using s by simp
  moreover have "set (map root us) \<subseteq> set (nodes s)" using roots_in_fnodes [of us] s by auto
  then have "set (map root us) \<subseteq> set (fnodes ts)" using subtree_nodes [OF t(2)] t(1) by fastforce
  ultimately show ?thesis by (rule that)
qed

text \<open>The handles \<open>A\<close> keep what a client can see of them.\<close>

definition kept :: "hbase \<Rightarrow> hbase \<Rightarrow> u32 set \<Rightarrow> bool" where
  "kept b b' A \<longleftrightarrow> (\<forall>j \<in> A. \<exists>h h'. get_h b j = Some h \<and> get_h b' j = Some h' \<and> eType h' = eType h \<and>
     pvData h' = pvData h \<and> eFlag h' = eFlag h \<and> ParentHandle h' = ParentHandle h)"

lemma kept_trans: "kept b b1 A \<Longrightarrow> kept b1 b2 A \<Longrightarrow> kept b b2 A"
  by (fastforce simp: kept_def)

lemma kept_get: "\<forall>j \<in> A. get_h b' j = get_h b j \<Longrightarrow> \<forall>j \<in> A. \<exists>h. get_h b j = Some h \<Longrightarrow> kept b b' A"
  by (fastforce simp: kept_def)

lemma kept_keys:
  assumes "kept b b' (set xs)"
  shows "ekeys b' xs = ekeys b xs"
proof (rule ekeys_cong)
  fix j assume "j \<in> set xs"
  then obtain h h' where "get_h b j = Some h" "get_h b' j = Some h'" "eType h' = eType h"
     "pvData h' = pvData h" "eFlag h' = eFlag h" "ParentHandle h' = ParentHandle h" using assms by (auto simp: kept_def)
  then show "nkey b' j = nkey b j" by (simp add: nkey_def hkey_def TEST_ALLOC_FLAG_def ParentIfPrivate_def)
qed

lemma adopt_spec:
  assumes sh: "base_shape b fs (ts @ [HNode i []])" and p: "p \<in> set (fnodes ts)"
    and hi: "get_h b i = Some h"
  shows "\<exists>b'. AdoptChild b p i = Some b' \<and> base_shape b' fs (map (graft p (HNode i [])) ts) \<and>
     kept b b' (set (fnodes ts)) \<and> psHashTab b' = psHashTab b \<and>
     (\<exists>h'. get_h b' i = Some h' \<and> hrel {p} {i} {} i h h' \<and> ParentHandle h' = p + 1)"
proof -
  let ?ts = "map (graft p (HNode i [])) ts"
  have D: "distinct (fnodes ts @ [i] @ fs)" using sh by (simp add: base_shape_def)
  have sh': "list_all (tree_rep b) ts" "tree_rep b (HNode i [])" using sh by (simp_all add: base_shape_def)
  have p': "p \<in> set (fnodes (ts @ [HNode i []]))" using p by simp
  obtain cs0 where cs: "circ b p cs0" "set cs0 \<subseteq> set (fnodes (ts @ [HNode i []]))"
    by (rule forest_circ [OF sh p'])
  have lki: "linked b i None" using sh by (simp add: base_shape_def)
  have pz: "p + 1 \<noteq> 0"
    using forest_get [OF sh, of p] p' index_plus_one [OF _ base_small [OF sh], of p] by auto
  have ni: "i \<notin> set (p # cs0)"
    using linked_parent [OF lki hi] circ_parent [OF cs(1) _ hi] p D pz by auto
  obtain b' where a: "AdoptChild b p i = Some b'" "circ b' p (cs0 @ [i])" "list_frame {p} (set (cs0 @ [i])) b b'"
    using AdoptChild_spec [OF cs(1) ni hi] by blast
  have fr: "hframe {} {p} (set (cs0 @ [i])) {} b b'" by (rule hframe_list [OF a(3)])
  note sc = list_frame_scalars [OF a(3)]
  have M: "mset (fnodes ?ts) = mset (fnodes ts @ [i])"
    using mset_graft_all [OF p, of "HNode i []"] D by simp
  have cov: "set (fnodes ?ts @ fs) = set (fnodes (ts @ [HNode i []]) @ fs)"
    using mset_eq_setD [OF M] by simp
  have "base_shape b' fs ?ts"
    unfolding base_shape_def cov
  proof (intro conjI ballI)
    show "distinct (fnodes ?ts @ fs)" using D mset_eq_imp_distinct_iff [OF M] mset_eq_setD [OF M] by auto
    show "list_all (tree_rep b') ?ts"
      using tree_rep_graft [OF cs(1) a(2) fr sh'(2)] ni sh'(1) D by (auto simp: list_all_iff)
    show "fl_ok b' fs" using fl_ok_hframe [OF _ fr] sh sc by (simp add: base_shape_def)
    fix t assume "t \<in> set ?ts"
    then obtain u where u: "u \<in> set ts" "root t = root u" by auto
    obtain hu where hu: "get_h b (root u) = Some hu" "sSiblings hu = HandleListInit (root u) NULL"
      using sh u(1) by (auto simp: base_shape_def linked_def)
    have "root u \<in> set (fnodes ts)" using u(1) roots_in_fnodes [of ts] by auto
    then have "root u \<noteq> i" using D by auto
    moreover have "root u \<notin> set cs0" using circ_parent [OF cs(1) _ hu(1)] hu(2) pz by (auto simp: HandleListInit_def)
    moreover obtain h' where "get_h b' (root u) = Some h'" "hrel {p} (set (cs0 @ [i])) {} (root u) hu h'"
      by (rule hframe_get [OF fr hu(1)]) simp_all
    ultimately show "linked b' (root t) None" using hu(2) u(2) by (simp add: linked_def hrel_def)
  qed (use sh sc fixedp_shape [of b' b] in \<open>simp_all add: base_shape_def\<close>)
  moreover have "kept b b' (set (fnodes ts))"
    unfolding kept_def
  proof
    fix j assume j: "j \<in> set (fnodes ts)"
    have ji: "j \<noteq> i" using j D by auto
    obtain hj where hj: "get_h b j = Some hj" using forest_get [OF sh, of j] j by auto
    obtain h' where h': "get_h b' j = Some h'" "hrel {p} (set (cs0 @ [i])) {} j hj h'"
      by (rule hframe_get [OF fr hj]) simp_all
    have "hParent (sSiblings h') = hParent (sSiblings hj)"
      using circ_parent [OF cs(1) _ hj] circ_parent [OF a(2) _ h'(1)] h'(2) ji
      by (cases "j \<in> set cs0") (auto simp: hrel_def)
    then show "\<exists>h h'. get_h b j = Some h \<and> get_h b' j = Some h' \<and> eType h' = eType h \<and>
        pvData h' = pvData h \<and> eFlag h' = eFlag h \<and> ParentHandle h' = ParentHandle h"
      using hj h' by (simp add: hrel_def ParentHandle_def)
  qed
  moreover obtain h' where h': "get_h b' i = Some h'" "hrel {p} (set (cs0 @ [i])) {} i h h'"
    by (rule hframe_get [OF fr hi]) simp_all
  moreover have "hrel {p} {i} {} i h h'" using h'(2) by (simp add: hrel_def)
  moreover have "ParentHandle h' = p + 1" using circ_parent [OF a(2) _ h'(1)] by (simp add: ParentHandle_def)
  ultimately show ?thesis using a(1) sc by blast
qed

subsection \<open>Lookups\<close>

lemma handle_type_inj: "handle_type_u32 s = handle_type_u32 t \<longleftrightarrow> s = t"
  by (cases s; cases t) simp_all

definition has_type :: "hbase \<Rightarrow> htree list \<Rightarrow> u32 \<Rightarrow> PVRSRV_HANDLE_TYPE \<Rightarrow> sHandle \<Rightarrow> bool" where
  "has_type b ts i ty h \<longleftrightarrow> i \<in> set (fnodes ts) \<and> get_h b i = Some h \<and> (ty = PVRSRV_HANDLE_TYPE_NONE \<or> eType h = ty)"

lemma in_use_iff:
  assumes sh: "base_shape b fs ts" and h: "get_h b i = Some h"
  shows "eType h \<noteq> PVRSRV_HANDLE_TYPE_NONE \<longleftrightarrow> i \<in> set (fnodes ts)"
proof
  assume "i \<in> set (fnodes ts)"
  then obtain t where "t \<in> set ts" "i \<in> set (nodes t)" by auto
  then show "eType h \<noteq> PVRSRV_HANDLE_TYPE_NONE" using tree_rep_node [of b t i] sh h
    by (auto simp: base_shape_def list_all_iff)
next
  assume t: "eType h \<noteq> PVRSRV_HANDLE_TYPE_NONE"
  have "i \<in> set (fnodes ts @ fs)" using sh h by (simp add: base_shape_def get_h_def split: if_splits)
  moreover have "i \<notin> set fs" using sh h t fchain_free [of b fs i] by (auto simp: base_shape_def fl_ok_def)
  ultimately show "i \<in> set (fnodes ts)" by simp
qed

lemma GetHandleStructure_spec:
  assumes sh: "base_shape b fs ts"
  shows "(\<exists>h. has_type b ts (hh - 1) ty h) \<Longrightarrow> GetHandleStructure b hh ty = Some (PVRSRV_OK, hh - 1)"
    and "\<nexists>h. has_type b ts (hh - 1) ty h \<Longrightarrow> GetHandleStructure b hh ty = Some (PVRSRV_ERROR_GENERIC, 0)"
proof -
  have v: "INDEX_IS_VALID b (hh - 1) \<longleftrightarrow> (\<exists>h. get_h b (hh - 1) = Some h)"
    using sh by (simp add: base_shape_def INDEX_IS_VALID_def word_less_nat_alt get_h_def)
  show "(\<exists>h. has_type b ts (hh - 1) ty h) \<Longrightarrow> GetHandleStructure b hh ty = Some (PVRSRV_OK, hh - 1)"
    using v in_use_iff [OF sh, of "hh - 1"]
    by (auto simp: GetHandleStructure_def HANDLE_TO_INDEX_def has_type_def)
  assume n: "\<nexists>h. has_type b ts (hh - 1) ty h"
  show "GetHandleStructure b hh ty = Some (PVRSRV_ERROR_GENERIC, 0)"
  proof (cases "get_h b (hh - 1)")
    case None
    then show ?thesis using v by (simp add: GetHandleStructure_def HANDLE_TO_INDEX_def)
  next
    case (Some h)
    then show ?thesis using v n in_use_iff [OF sh Some]
      by (auto simp: GetHandleStructure_def HANDLE_TO_INDEX_def has_type_def)
  qed
qed

lemma ekeys_mem:
  "(k, v) \<in># ekeys b xs \<longleftrightarrow> (\<exists>j \<in> set xs. \<exists>h. get_h b j = Some h \<and>
     \<not> TEST_ALLOC_FLAG h PVRSRV_HANDLE_ALLOC_FLAG_MULTI \<and> k = hkey h \<and> v = j + 1)"
  by (induction xs) (auto simp: nkey_def split: option.splits if_splits)

lemma FindHandle_spec:
  assumes ok: "base_ok b fs ts"
  shows "FindHandle b data ty parent = NULL \<and> \<not> stores_key (ekeys b (fnodes ts)) (InitKey data ty parent) \<or>
    (\<exists>j h. FindHandle b data ty parent = j + 1 \<and> j + 1 \<noteq> 0 \<and> has_type b ts j ty h \<and> eType h = ty \<and> pvData h = data \<and>
       ParentIfPrivate h = parent \<and> \<not> TEST_ALLOC_FLAG h PVRSRV_HANDLE_ALLOC_FLAG_MULTI)"
proof -
  let ?k = "InitKey data ty parent"
  have sh: "base_shape b fs ts" and hh: "hash_has b (ekeys b (fnodes ts))" using ok by (auto simp: base_ok_def)
  have a: "hash_inv (psHashTab b)" "table_key (psHashTab b) ?k" "entries (psHashTab b) = ekeys b (fnodes ts)"
    using hh by (auto simp: hash_has_def table_key_def InitKey_def)
  show ?thesis
  proof (cases "stores_key (ekeys b (fnodes ts)) ?k")
    case False
    then show ?thesis using ht.retrieve_miss [OF a(1,2)] a(3) by (simp add: FindHandle_def)
  next
    case True
    then have "(?k, FindHandle b data ty parent) \<in># ekeys b (fnodes ts)"
      using ht.retrieve_hit [OF a(1,2)] a(3) by (simp add: FindHandle_def)
    then obtain j h where j: "j \<in> set (fnodes ts)" "get_h b j = Some h" "\<not> TEST_ALLOC_FLAG h PVRSRV_HANDLE_ALLOC_FLAG_MULTI"
      "?k = hkey h" "FindHandle b data ty parent = j + 1" by (auto simp: ekeys_mem)
    have "j + 1 \<noteq> 0" by (rule index_plus_one [OF j(2) base_small [OF sh]])
    then show ?thesis using j by (auto simp: has_type_def hkey_def InitKey_def handle_type_inj)
  qed
qed

subsection \<open>Allocation\<close>

lemma new_handle_entry:
  "get_h b i = Some (new_handle ty data flag i) \<Longrightarrow> nkey b i = new_entry flag data ty NULL i"
  by (simp add: nkey_def new_handle_def new_entry_def hkey_def TEST_ALLOC_FLAG_def ParentIfPrivate_def
      ParentHandle_def HandleListInit_def)

lemma PVRSRVAllocHandle_spec:
  assumes ok: "base_ok b fs ts" and sm: "handles_small b" and rm: "table_roomy (psHashTab b)"
    and ty: "ty \<noteq> PVRSRV_HANDLE_TYPE_NONE"
  shows "\<exists>e hh b' km'. PVRSRVAllocHandle b data ty flag km = Some (e, hh, b', km') \<and>
     (\<forall>j \<in> set (fnodes ts). get_h b' j = get_h b j) \<and>
     (e \<noteq> PVRSRV_OK \<and> hh = NULL \<and> (\<exists>fs'. base_ok b' fs' ts) \<or>
      e = PVRSRV_OK \<and> b' = b \<and> (\<exists>h. has_type b ts (hh - 1) ty h \<and> pvData h = data \<and>
         TEST_FLAG (eFlag h AND flag) PVRSRV_HANDLE_ALLOC_FLAG_SHARED) \<or>
      e = PVRSRV_OK \<and> (\<exists>i fs'. hh = i + 1 \<and> i \<notin> set (fnodes ts) \<and> base_ok b' fs' (ts @ [HNode i []]) \<and>
         get_h b' i = Some (new_handle ty data flag i)))"
proof -
  have sh: "base_shape b fs ts" using ok by (simp add: base_ok_def)
  have nb: "\<not> HANDLES_BATCHED b" using sh by (simp add: base_shape_def)
  define found where "found = (if \<not> TEST_FLAG flag PVRSRV_HANDLE_ALLOC_FLAG_MULTI then FindHandle b data ty NULL else NULL)"
  note fs = FindHandle_spec [OF ok, of data ty NULL]
  show ?thesis
  proof (cases "found = NULL")
    case False
    then obtain j h where j: "found = j + 1" "has_type b ts j ty h" "eType h = ty" "pvData h = data"
      using fs by (auto simp: found_def split: if_splits)
    have g: "GetHandleStructure b found ty = Some (PVRSRV_OK, j)"
      using GetHandleStructure_spec(1) [OF sh, of found ty] j(1,2) by auto
    have "get_h b j = Some h" using j(2) by (simp add: has_type_def)
    then have "PVRSRVAllocHandle b data ty flag km = Some (if TEST_FLAG (eFlag h AND flag) PVRSRV_HANDLE_ALLOC_FLAG_SHARED
        then (PVRSRV_OK, found, b, km) else (PVRSRV_ERROR_GENERIC, NULL, b, km))"
      using False g nb by (simp add: PVRSRVAllocHandle_def found_def [symmetric])
    then show ?thesis using j ok by auto
  next
    case True
    have kf: "key_free b flag data ty NULL"
      using fs True ok by (auto simp: key_free_def found_def base_ok_def hash_has_def split: if_splits)
    obtain e hh b' km' where r: "AllocHandle b data ty flag NULL km = Some (e, hh, b', km')"
      "\<forall>j \<in> set (fnodes ts). get_h b' j = get_h b j"
      "e \<noteq> PVRSRV_OK \<and> hh = NULL \<and> (\<exists>fs'. base_ok b' fs' ts) \<or>
       e = PVRSRV_OK \<and> (\<exists>i fs'. hh = i + 1 \<and> i \<notin> set (fnodes ts) \<and> base_shape b' fs' (ts @ [HNode i []]) \<and>
         get_h b' i = Some (new_handle ty data flag i) \<and>
         hash_has b' (new_entry flag data ty NULL i + ekeys b (fnodes ts)))"
      using AllocHandle_spec [OF ok sm rm ty kf, of km] by blast
    have nb': "\<not> (HANDLES_BATCHED b' \<and> e = PVRSRV_OK)" using r(3) by (auto simp: base_shape_def)
    then have run: "PVRSRVAllocHandle b data ty flag km = Some (e, hh, b', km')"
      using True r(1) nb by (auto simp: PVRSRVAllocHandle_def found_def [symmetric])
    have "base_ok b' fs' (ts @ [HNode i []])" if "base_shape b' fs' (ts @ [HNode i []])"
      "get_h b' i = Some (new_handle ty data flag i)"
      "hash_has b' (new_entry flag data ty NULL i + ekeys b (fnodes ts))" for i fs'
      using that ekeys_get [OF r(2)] new_handle_entry [OF that(2)] by (simp add: base_ok_def ac_simps)
    then show ?thesis using run r(2,3) by blast
  qed
qed

lemma PVRSRVAllocSubHandle_spec:
  assumes ok: "base_ok b fs ts" and sm: "handles_small b" and rm: "table_roomy (psHashTab b)"
    and ty: "ty \<noteq> PVRSRV_HANDLE_TYPE_NONE"
  shows "\<exists>e hh b' km'. PVRSRVAllocSubHandle b data ty flag parent km = Some (e, hh, b', km') \<and>
     kept b b' (set (fnodes ts)) \<and>
     (e \<noteq> PVRSRV_OK \<and> hh = NULL \<and> (\<exists>fs'. base_ok b' fs' ts) \<or>
      e = PVRSRV_OK \<and> b' = b \<and> (\<exists>h. has_type b ts (hh - 1) ty h \<and> pvData h = data \<and> ParentHandle h = parent \<and>
         TEST_FLAG (eFlag h AND flag) PVRSRV_HANDLE_ALLOC_FLAG_SHARED) \<or>
      e = PVRSRV_OK \<and> parent - 1 \<in> set (fnodes ts) \<and> (\<exists>i fs' h. hh = i + 1 \<and> i \<notin> set (fnodes ts) \<and>
         base_ok b' fs' (map (graft (parent - 1) (HNode i [])) ts) \<and>
         get_h b' i = Some h \<and> eType h = ty \<and> pvData h = data \<and> eFlag h = flag \<and> ParentHandle h = parent))"
proof -
  have sh: "base_shape b fs ts" using ok by (simp add: base_ok_def)
  have nb: "\<not> HANDLES_BATCHED b" using sh by (simp add: base_shape_def)
  have k0: "kept b b (set (fnodes ts))" by (rule kept_get) (use forest_get [OF sh] in auto)
  define par where "par = (if TEST_FLAG flag PVRSRV_HANDLE_ALLOC_FLAG_PRIVATE then parent else NULL)"
  show ?thesis
  proof (cases "\<exists>h. has_type b ts (parent - 1) PVRSRV_HANDLE_TYPE_NONE h")
    case False
    then have "GetHandleStructure b parent PVRSRV_HANDLE_TYPE_NONE = Some (PVRSRV_ERROR_GENERIC, 0)"
      by (rule GetHandleStructure_spec(2) [OF sh])
    then have "PVRSRVAllocSubHandle b data ty flag parent km = Some (PVRSRV_ERROR_GENERIC, NULL, b, km)"
      using nb by (simp add: PVRSRVAllocSubHandle_def)
    then show ?thesis using ok k0 by auto
  next
    case True
    then have g0: "GetHandleStructure b parent PVRSRV_HANDLE_TYPE_NONE = Some (PVRSRV_OK, parent - 1)"
      by (rule GetHandleStructure_spec(1) [OF sh])
    have p: "parent - 1 \<in> set (fnodes ts)" using True by (auto simp: has_type_def)
    define found where "found = (if \<not> TEST_FLAG flag PVRSRV_HANDLE_ALLOC_FLAG_MULTI then FindHandle b data ty par else NULL)"
    note fs = FindHandle_spec [OF ok, of data ty par]
    show ?thesis
    proof (cases "found = NULL")
      case False
      then obtain j h where j: "found = j + 1" "has_type b ts j ty h" "eType h = ty" "pvData h = data"
        using fs by (auto simp: found_def split: if_splits)
      have g: "GetHandleStructure b found ty = Some (PVRSRV_OK, j)"
        using GetHandleStructure_spec(1) [OF sh, of found ty] j(1,2) by auto
      have "get_h b j = Some h" using j(2) by (simp add: has_type_def)
      then have "PVRSRVAllocSubHandle b data ty flag parent km =
          Some (if TEST_FLAG (eFlag h AND flag) PVRSRV_HANDLE_ALLOC_FLAG_SHARED \<and> ParentHandle h = parent
                then (PVRSRV_OK, found, b, km) else (PVRSRV_ERROR_GENERIC, NULL, b, km))"
        using False g g0 nb j(1)
        by (simp add: PVRSRVAllocSubHandle_def par_def [symmetric] found_def [symmetric] HANDLE_TO_INDEX_def Let_def)
      then show ?thesis using j ok k0 by auto
    next
      case True
      have kf: "key_free b flag data ty par"
        using fs True ok by (auto simp: key_free_def found_def base_ok_def hash_has_def split: if_splits)
      obtain e hh b1 km1 where r: "AllocHandle b data ty flag par km = Some (e, hh, b1, km1)"
        "\<forall>j \<in> set (fnodes ts). get_h b1 j = get_h b j"
        "e \<noteq> PVRSRV_OK \<and> hh = NULL \<and> (\<exists>fs'. base_ok b1 fs' ts) \<or>
         e = PVRSRV_OK \<and> (\<exists>i fs'. hh = i + 1 \<and> i \<notin> set (fnodes ts) \<and> base_shape b1 fs' (ts @ [HNode i []]) \<and>
           get_h b1 i = Some (new_handle ty data flag i) \<and>
           hash_has b1 (new_entry flag data ty par i + ekeys b (fnodes ts)))"
        using AllocHandle_spec [OF ok sm rm ty kf, of km] by blast
      have k1: "kept b b1 (set (fnodes ts))" by (rule kept_get [OF r(2)]) (use forest_get [OF sh] in auto)
      show ?thesis
      proof (cases "e = PVRSRV_OK")
        case False
        then have "PVRSRVAllocSubHandle b data ty flag parent km = Some (e, NULL, b1, km1)"
          using True r(1) g0 nb by (simp add: PVRSRVAllocSubHandle_def par_def [symmetric] found_def [symmetric])
        then show ?thesis using r(3) False k1 by auto
      next
        case eok: True
        then obtain i fs' where i: "hh = i + 1" "i \<notin> set (fnodes ts)" "base_shape b1 fs' (ts @ [HNode i []])"
           "get_h b1 i = Some (new_handle ty data flag i)"
           "hash_has b1 (new_entry flag data ty par i + ekeys b (fnodes ts))" using r(3) by auto
        obtain b2 h2 where a: "AdoptChild b1 (parent - 1) i = Some b2"
          "base_shape b2 fs' (map (graft (parent - 1) (HNode i [])) ts)" "kept b1 b2 (set (fnodes ts))"
          "psHashTab b2 = psHashTab b1" "get_h b2 i = Some h2" "hrel {parent - 1} {i} {} i (new_handle ty data flag i) h2"
          "ParentHandle h2 = parent" using adopt_spec [OF i(3) p i(4)] by auto
        have nb2: "\<not> HANDLES_BATCHED b2" using a(2) by (simp add: base_shape_def)
        have run: "PVRSRVAllocSubHandle b data ty flag parent km = Some (PVRSRV_OK, i + 1, b2, km1)"
          using True r(1) g0 nb eok i(1) a(1) nb2
          by (simp add: PVRSRVAllocSubHandle_def par_def [symmetric] found_def [symmetric] HANDLE_TO_INDEX_def)
        have h2: "eType h2 = ty" "pvData h2 = data" "eFlag h2 = flag" using a(6) by (auto simp: hrel_def new_handle_def)
        have k2: "kept b b2 (set (fnodes ts))" by (rule kept_trans [OF k1 a(3)])
        have "nkey b2 i = new_entry flag data ty par i"
          using a(5,7) h2 by (simp add: nkey_def new_entry_def hkey_def TEST_ALLOC_FLAG_def ParentIfPrivate_def par_def)
        moreover have "mset (fnodes (map (graft (parent - 1) (HNode i [])) ts)) = mset (fnodes ts @ [i])"
          using mset_graft_all [OF p, of "HNode i []"] sh by (simp add: base_shape_def)
        ultimately have "ekeys b2 (fnodes (map (graft (parent - 1) (HNode i [])) ts)) = new_entry flag data ty par i + ekeys b (fnodes ts)"
          using ekeys_mset [of _ "fnodes ts @ [i]" b2] kept_keys [OF k2] by (simp add: ac_simps)
        then have "base_ok b2 fs' (map (graft (parent - 1) (HNode i [])) ts)"
          using a(2,4) i(5) by (simp add: base_ok_def hash_has_def)
        then show ?thesis using run i(2) a(5,7) h2 p k2 by blast
      qed
    qed
  qed
qed

subsection \<open>Release\<close>

lemma subtree_size: "base_ok b fs ts \<Longrightarrow> s \<in> set (fsubtrees ts) \<Longrightarrow> 2 * length (nodes s) \<le> free_fuel b"
proof -
  assume ok: "base_ok b fs ts" and s: "s \<in> set (fsubtrees ts)"
  then have sh: "base_shape b fs ts" by (simp add: base_ok_def)
  obtain t where t: "t \<in> set ts" "s \<in> set (subtrees t)" using s by auto
  have "distinct (nodes s)" using subtree_distinct [OF t(2)] sh t(1) by (auto simp: base_shape_def distinct_concat_iff)
  then have "length (nodes s) \<le> length (psHandleArray b)"
    by (rule distinct_indices) (use subtree_nodes [OF t(2)] t(1) forest_get [OF sh] in auto)
  then show ?thesis by (simp add: free_fuel_def)
qed

lemma FreeHandle_spec:
  assumes ok: "base_ok b fs ts" and s: "s \<in> set (fsubtrees ts)"
  shows "\<exists>b' km'. FreeHandle (free_fuel b) b (root s) km = Some (PVRSRV_OK, b', km') \<and>
     base_ok b' (fs @ post s) (prune_all (root s) ts) \<and> fixedp b' = fixedp b"
  using FreeHandle_forest [OF ok s subtree_size [OF ok s]] by blast

end
