(* ===== verification/Pvr_Handle_Props.thy ===== *)
theory Pvr_Handle_Props
  imports Pvr_Handle_Thms
begin

text \<open>
  What the clients of a handle base rely on, in terms of its exported operations: lookups after
  allocation and release, the parent relation, tearing a base down, and the behaviour of a batch
  in which an allocation failed.
\<close>

subsection \<open>Ancestors\<close>

text \<open>The handle \<open>a\<close> is a proper ancestor of the index \<open>i\<close>.\<close>

primrec anc :: "ptr \<Rightarrow> u32 \<Rightarrow> htree \<Rightarrow> bool" where
  "anc a i (HNode r ts) \<longleftrightarrow> (r + 1 = a \<and> i \<in> set (fnodes ts)) \<or> list_ex id (map (anc a i) ts)"

lemma anc_node [simp]:
  "anc a i (HNode r ts) \<longleftrightarrow> (r + 1 = a \<and> i \<in> set (fnodes ts)) \<or> list_ex (anc a i) ts"
  by (simp add: list_ex_iff)

declare anc.simps [simp del]

lemma anc_nodes: "anc a i t \<Longrightarrow> i \<in> set (nodes t) \<and> (\<exists>r \<in> set (nodes t). r + 1 = a)"
  by (induction t) (auto simp: list_ex_iff)

lemma anc_split:
  assumes "distinct (fnodes us)" "u \<in> set us" "i \<in> set (nodes u)"
  shows "list_ex (anc a i) us \<longleftrightarrow> anc a i u"
proof -
  obtain us1 us2 where us: "us = us1 @ u # us2" using assms(2) by (meson split_list)
  have "\<not> anc a i v" if "v \<in> set (us1 @ us2)" for v
    using anc_nodes [of a i v] that assms(1,3) us by auto
  then show ?thesis using us by (auto simp: list_ex_iff)
qed

lemma ancestor_tree:
  "tree_rep b t \<Longrightarrow> distinct (nodes t) \<Longrightarrow>
   (\<And>j. j \<in> set (nodes t) \<Longrightarrow> GetHandleStructure b (j + 1) PVRSRV_HANDLE_TYPE_NONE = Some (PVRSRV_OK, j)) \<Longrightarrow>
   i \<in> set (nodes t) \<Longrightarrow>
   ancestor_loop b i a = (if anc a i t then Some PVRSRV_OK else ancestor_loop b (root t) a)"
proof (induction t)
  case (HNode r us)
  show ?case
  proof (cases "i \<in> set (fnodes us)")
    case True
    then obtain u where u: "u \<in> set us" "i \<in> set (nodes u)" by auto
    have tu: "tree_rep b u" using HNode.prems(1) u(1) by (auto simp: list_all_iff)
    have IH: "ancestor_loop b i a = (if anc a i u then Some PVRSRV_OK else ancestor_loop b (root u) a)"
      by (rule HNode.IH [OF u(1) tu _ _ u(2)]) (use HNode.prems(2,3) u(1) in \<open>auto simp: distinct_concat_iff\<close>)
    obtain h where h: "get_h b (root u) = Some h" using tree_rep_node [OF tu root_in_nodes] by blast
    have ph: "ParentHandle h = r + 1"
      using circ_parent [of b r "map root us" "root u" h] HNode.prems(1) u(1) h by (auto simp: ParentHandle_def)
    have st: "ancestor_loop b (root u) a = (if r + 1 = a then Some PVRSRV_OK else ancestor_loop b r a)"
      using HNode.prems(3) [of r] by (subst ancestor_loop.simps) (simp add: h ph)
    have "anc a i (HNode r us) \<longleftrightarrow> r + 1 = a \<or> anc a i u"
      using True anc_split [OF _ u] HNode.prems(2) by simp
    then show ?thesis using IH st by simp
  next
    case False
    then have "i = r" using HNode.prems(4) by auto
    moreover have "\<not> anc a i (HNode r us)"
      using False anc_nodes [of a i] by (auto simp: list_ex_iff)
    ultimately show ?thesis by (simp del: anc_node)
  qed
qed

lemma ancestor_loop_spec:
  assumes sh: "base_shape b fs ts" and i: "i \<in> set (fnodes ts)"
  shows "ancestor_loop b i a = Some (if a = NULL \<or> list_ex (anc a i) ts then PVRSRV_OK else PVRSRV_ERROR_GENERIC)"
proof -
  have g: "GetHandleStructure b (j + 1) PVRSRV_HANDLE_TYPE_NONE = Some (PVRSRV_OK, j)" if "j \<in> set (fnodes ts)" for j
    using GetHandleStructure_spec(1) [OF sh, of "j + 1" PVRSRV_HANDLE_TYPE_NONE] forest_get [OF sh, of j] that
    by (auto simp: has_type_def)
  obtain t where t: "t \<in> set ts" "i \<in> set (nodes t)" using i by auto
  have D: "distinct (fnodes ts)" using sh by (simp add: base_shape_def)
  have it: "ancestor_loop b i a = (if anc a i t then Some PVRSRV_OK else ancestor_loop b (root t) a)"
    by (rule ancestor_tree [OF _ _ g t(2)])
      (use sh t(1) in \<open>auto simp: base_shape_def list_all_iff distinct_concat_iff\<close>)
  obtain h where h: "get_h b (root t) = Some h" "sSiblings h = HandleListInit (root t) NULL"
    using sh t(1) by (auto simp: base_shape_def linked_def)
  have "\<nexists>h. has_type b ts (0 - 1) PVRSRV_HANDLE_TYPE_NONE h"
    using index_plus_one [OF _ base_small [OF sh], of "- 1"] by (auto simp: has_type_def)
  then have "GetHandleStructure b 0 PVRSRV_HANDLE_TYPE_NONE = Some (PVRSRV_ERROR_GENERIC, 0)"
    by (rule GetHandleStructure_spec(2) [OF sh])
  then have "ancestor_loop b (root t) a = Some (if a = NULL then PVRSRV_OK else PVRSRV_ERROR_GENERIC)"
    by (subst ancestor_loop.simps) (auto simp: h ParentHandle_def HandleListInit_def)
  then show ?thesis using it anc_split [OF D t, of a] by simp
qed

lemma anc_list_subtree:
  assumes IH: "\<And>u. u \<in> set us \<Longrightarrow> s \<in> set (subtrees u) \<Longrightarrow> distinct (nodes u) \<Longrightarrow>
      anc (root s + 1) i u \<longleftrightarrow> i \<in> set (fnodes (kids s))"
    and s: "s \<in> set (fsubtrees us)" and d: "distinct (fnodes us)"
  shows "list_ex (anc (root s + 1) i) us \<longleftrightarrow> i \<in> set (fnodes (kids s))"
proof -
  obtain u where u: "u \<in> set us" "s \<in> set (subtrees u)" using s by auto
  obtain us1 us2 where us: "us = us1 @ u # us2" using u(1) by (meson split_list)
  have r: "root s \<in> set (nodes u)" using subtree_nodes [OF u(2)] root_in_nodes by auto
  have "\<not> anc (root s + 1) i v" if "v \<in> set (us1 @ us2)" for v
    using anc_nodes [of "root s + 1" i v] that d r us by auto
  moreover have "anc (root s + 1) i u \<longleftrightarrow> i \<in> set (fnodes (kids s))"
    by (rule IH [OF u]) (use d u(1) in \<open>auto simp: distinct_concat_iff\<close>)
  ultimately show ?thesis using us by (auto simp: list_ex_iff)
qed

lemma anc_subtree:
  "s \<in> set (subtrees t) \<Longrightarrow> distinct (nodes t) \<Longrightarrow> anc (root s + 1) i t \<longleftrightarrow> i \<in> set (fnodes (kids s))"
proof (induction t)
  case (HNode r us)
  show ?case
  proof (cases "s = HNode r us")
    case True
    then show ?thesis using anc_nodes [of "r + 1" i] by (auto simp: list_ex_iff)
  next
    case False
    then have s: "s \<in> set (fsubtrees us)" using HNode.prems(1) by auto
    have "root s \<noteq> r" using s node_fsubtree [of r us] HNode.prems(2) by auto
    then show ?thesis using anc_list_subtree [OF HNode.IH s] HNode.prems(2) by simp
  qed
qed

lemma anc_forest:
  "s \<in> set (fsubtrees ts) \<Longrightarrow> distinct (fnodes ts) \<Longrightarrow>
   list_ex (anc (root s + 1) i) ts \<longleftrightarrow> i \<in> set (fnodes (kids s))"
  by (rule anc_list_subtree [OF anc_subtree])

subsection \<open>Lookups on the forest\<close>

lemma LookupHandleAnyType_spec:
  assumes "base_shape b fs ts"
  shows "PVRSRVLookupHandleAnyType b hh =
     (case get_h b (hh - 1) of
        Some h \<Rightarrow> if hh - 1 \<in> set (fnodes ts) then Some (PVRSRV_OK, pvData h, eType h)
                  else Some (PVRSRV_ERROR_GENERIC, NULL, PVRSRV_HANDLE_TYPE_NONE)
      | None \<Rightarrow> Some (PVRSRV_ERROR_GENERIC, NULL, PVRSRV_HANDLE_TYPE_NONE))"
  using GetHandleStructure_spec [OF assms, of hh PVRSRV_HANDLE_TYPE_NONE]
  by (auto simp: PVRSRVLookupHandleAnyType_def has_type_def split: option.splits)

lemma LookupHandleAnyType_iff:
  assumes "base_shape b fs ts"
  shows "PVRSRVLookupHandleAnyType b hh = Some (PVRSRV_OK, d, ty) \<longleftrightarrow>
     hh - 1 \<in> set (fnodes ts) \<and> (\<exists>h. get_h b (hh - 1) = Some h \<and> pvData h = d \<and> eType h = ty)"
    and "hh - 1 \<notin> set (fnodes ts) \<Longrightarrow>
     PVRSRVLookupHandleAnyType b hh = Some (PVRSRV_ERROR_GENERIC, NULL, PVRSRV_HANDLE_TYPE_NONE)"
  by (auto simp: LookupHandleAnyType_spec [OF assms] split: option.splits if_splits)

lemma LookupHandle_ok:
  assumes "base_shape b fs ts" "has_type b ts (hh - 1) ty h"
  shows "PVRSRVLookupHandle b hh ty = Some (PVRSRV_OK, pvData h)"
  using GetHandleStructure_spec(1) [OF assms(1), of hh ty] assms(2)
  by (auto simp: PVRSRVLookupHandle_def has_type_def)

lemma LookupSubHandle_spec:
  assumes sh: "base_shape b fs ts" and h: "has_type b ts (hh - 1) ty h"
  shows "PVRSRVLookupSubHandle b hh ty a =
     Some (if a = NULL \<or> list_ex (anc a (hh - 1)) ts then (PVRSRV_OK, pvData h) else (PVRSRV_ERROR_GENERIC, NULL))"
proof -
  have g: "GetHandleStructure b hh ty = Some (PVRSRV_OK, hh - 1)"
    using GetHandleStructure_spec(1) [OF sh, of hh ty] h by blast
  have i: "hh - 1 \<in> set (fnodes ts)" "get_h b (hh - 1) = Some h" using h by (auto simp: has_type_def)
  show ?thesis using ancestor_loop_spec [OF sh i(1), of a] g i(2) by (simp add: PVRSRVLookupSubHandle_def)
qed

subsection \<open>Runs of a handle base\<close>

definition hb_inv :: "hbase \<Rightarrow> bool" where
  "hb_inv b \<longleftrightarrow> (\<exists>fs ts. base_ok b fs ts)"

definition alloc_hyps :: "hbase \<Rightarrow> PVRSRV_HANDLE_TYPE \<Rightarrow> bool" where
  "alloc_hyps b ty \<longleftrightarrow> handles_small b \<and> table_roomy (psHashTab b) \<and> ty \<noteq> PVRSRV_HANDLE_TYPE_NONE"

inductive hb_init :: "hbase \<Rightarrow> bool" where
  create: "PVRSRVAllocHandleBase raw km = (PVRSRV_OK, Some b, km') \<Longrightarrow> hb_init b"

inductive hb_step :: "hbase \<Rightarrow> hbase \<Rightarrow> bool" where
  alloc: "alloc_hyps b ty \<Longrightarrow> PVRSRVAllocHandle b data ty flag km = Some (e, hh, b', km') \<Longrightarrow> hb_step b b'"
| alloc_sub: "alloc_hyps b ty \<Longrightarrow> PVRSRVAllocSubHandle b data ty flag parent km = Some (e, hh, b', km') \<Longrightarrow> hb_step b b'"
| release: "PVRSRVReleaseHandle b hh ty km = Some (e, b', km') \<Longrightarrow> hb_step b b'"
| lookup_release: "PVRSRVLookupAndReleaseHandle b hh ty km = Some (e, d, b', km') \<Longrightarrow> hb_step b b'"
| set_max: "PVRSRVSetMaxHandle b m = (e, b') \<Longrightarrow> hb_step b b'"

lemma base_created:
  assumes "PVRSRVAllocHandleBase raw km = (PVRSRV_OK, Some b, km')"
  shows "base_ok b [] []"
proof -
  have z: "HANDLE_HASH_TAB_INIT_SIZE \<noteq> 0" "unat HANDLE_HASH_TAB_INIT_SIZE < 2 ^ 30" by (simp_all add: HANDLE_HASH_TAB_INIT_SIZE_def)
  obtain km1 km2 t where t: "HASH_Create_Extended HANDLE_HASH_TAB_INIT_SIZE (HAND_KEY_LEN * 4)
      HASH_Func_Default HASH_Key_Comp_Default km1 = (Some t, km2)"
    and b: "b = \<lparr>psHandleArray = [], psHashTab = t, ui32FreeHandCount = 0,
                 ui32FirstFreeIndex = 0, ui32MaxIndexPlusOne = DEFAULT_MAX_INDEX_PLUS_ONE,
                 ui32TotalHandCount = 0, ui32LastFreeIndexPlusOne = 0, ui32HandBatchSize = 0,
                 ui32TotalHandCountPreBatch = 0, ui32FirstBatchIndexPlusOne = 0,
                 ui32BatchHandAllocFailures = 0, bPurgingEnabled = False, raw_hand = raw\<rparr>"
    using assms unfolding PVRSRVAllocHandleBase_def by (auto split: prod.splits if_splits option.splits)
  note hc = HASH_Create_Extended_inv [OF t z]
  show ?thesis
    using hc b by (simp add: base_ok_def base_shape_def hash_has_def fl_ok_def HANDLES_BATCHED_def HAND_KEY_LEN_def one_value_def)
qed

lemma release_spec:
  assumes ok: "base_ok b fs ts" and h: "has_type b ts (hh - 1) ty h"
  shows "\<exists>s b' km'. s \<in> set (fsubtrees ts) \<and> root s = hh - 1 \<and>
     FreeHandle (free_fuel b) b (hh - 1) km = Some (PVRSRV_OK, b', km') \<and>
     PVRSRVReleaseHandle b hh ty km = Some (PVRSRV_OK, b', km') \<and>
     PVRSRVLookupAndReleaseHandle b hh ty km = Some (PVRSRV_OK, pvData h, b', km') \<and>
     base_ok b' (fs @ post s) (prune_all (root s) ts) \<and> fixedp b' = fixedp b \<and>
     (\<exists>P S. hframe (set (nodes s)) P S (set fs) b b')"
proof -
  have sh: "base_shape b fs ts" using ok by (simp add: base_ok_def)
  have g: "GetHandleStructure b hh ty = Some (PVRSRV_OK, hh - 1)"
    using GetHandleStructure_spec(1) [OF sh, of hh ty] h by blast
  have i: "hh - 1 \<in> set (fnodes ts)" "get_h b (hh - 1) = Some h" using h by (auto simp: has_type_def)
  then obtain s where s: "s \<in> set (fsubtrees ts)" "root s = hh - 1" using node_fsubtree by auto
  then show ?thesis
    using FreeHandle_forest [OF ok s(1) subtree_size [OF ok s(1)], of km] g i(2)
    by (fastforce simp: PVRSRVReleaseHandle_def PVRSRVLookupAndReleaseHandle_def)
qed

lemma release_miss:
  assumes "base_shape b fs ts" "\<nexists>h. has_type b ts (hh - 1) ty h"
  shows "PVRSRVReleaseHandle b hh ty km = Some (PVRSRV_ERROR_GENERIC, b, km)"
    and "PVRSRVLookupAndReleaseHandle b hh ty km = Some (PVRSRV_ERROR_GENERIC, NULL, b, km)"
  using GetHandleStructure_spec(2) [OF assms] by (simp_all add: PVRSRVReleaseHandle_def PVRSRVLookupAndReleaseHandle_def)

lemma base_ok_empty_max: "base_ok b fs ts \<Longrightarrow> ui32TotalHandCount b = 0 \<Longrightarrow> base_ok (b\<lparr>ui32MaxIndexPlusOne := m\<rparr>) fs ts"
proof -
  assume ok: "base_ok b fs ts" and z: "ui32TotalHandCount b = 0"
  let ?b = "b\<lparr>ui32MaxIndexPlusOne := m\<rparr>"
  have sh: "base_shape b fs ts" and l: "length (psHandleArray b) = 0" using ok z by (auto simp: base_ok_def base_shape_def)
  have "get_h b i = None" for i using l by (simp add: get_h_def)
  then have "i \<notin> set (fnodes ts @ fs)" for i using forest_get [OF sh, of i] by fastforce
  then have "set (fnodes ts @ fs) = {}" by (metis all_not_in_conv)
  then have e: "fs = []" "ts = []" using roots_in_fnodes [of ts] by auto
  then show ?thesis using ok z by (auto simp: base_ok_def base_shape_def fl_ok_def hash_has_def HANDLES_BATCHED_def)
qed

interpretation hb: invariant_system hb_init hb_step hb_inv
proof unfold_locales
  fix b assume "hb_init b"
  then show "hb_inv b" by cases (auto simp: hb_inv_def dest: base_created)
next
  fix b b' assume "hb_inv b" and st: "hb_step b b'"
  then obtain fs ts where ok: "base_ok b fs ts" by (auto simp: hb_inv_def)
  then have sh: "base_shape b fs ts" by (simp add: base_ok_def)
  from st show "hb_inv b'"
  proof cases
    case (alloc ty data flag km e hh km')
    then show ?thesis
      using PVRSRVAllocHandle_spec [OF ok, of ty data flag km] ok by (auto simp: alloc_hyps_def hb_inv_def)
  next
    case (alloc_sub ty data flag parent km e hh km')
    then show ?thesis
      using PVRSRVAllocSubHandle_spec [OF ok, of ty data flag parent km] ok by (auto simp: alloc_hyps_def hb_inv_def)
  next
    case (release hh ty km e km')
    then show ?thesis
      using release_spec [OF ok, of hh ty _ km] release_miss(1) [OF sh, of hh ty km] ok by (force simp: hb_inv_def)
  next
    case (lookup_release hh ty km e d km')
    then show ?thesis
      using release_spec [OF ok, of hh ty _ km] release_miss(2) [OF sh, of hh ty km] ok by (force simp: hb_inv_def)
  next
    case (set_max m e)
    then show ?thesis using base_ok_empty_max [OF ok, of m] ok
      by (auto simp: PVRSRVSetMaxHandle_def hb_inv_def split: if_splits)
  qed
qed

lemma lookups_kept:
  assumes "base_shape b fs ts" "base_shape b' fs' ts'" "set (fnodes ts) \<subseteq> set (fnodes ts')" "kept b b' (set (fnodes ts))"
    and "PVRSRVLookupHandleAnyType b k = Some (PVRSRV_OK, d, ty)"
  shows "PVRSRVLookupHandleAnyType b' k = Some (PVRSRV_OK, d, ty)"
  using assms(3-5) unfolding LookupHandleAnyType_iff(1) [OF assms(1)] LookupHandleAnyType_iff(1) [OF assms(2)] kept_def
  by fastforce

lemma lookups_same:
  assumes "base_shape b fs ts" "base_shape b' fs' ts" "kept b b' (set (fnodes ts))"
  shows "PVRSRVLookupHandleAnyType b' k = PVRSRVLookupHandleAnyType b k"
proof (cases "k - 1 \<in> set (fnodes ts)")
  case True
  then obtain h where "get_h b (k - 1) = Some h" using forest_get [OF assms(1), of "k - 1"] by auto
  then have "PVRSRVLookupHandleAnyType b k = Some (PVRSRV_OK, pvData h, eType h)"
    using True LookupHandleAnyType_iff(1) [OF assms(1)] by blast
  then show ?thesis using lookups_kept [OF assms(1,2) _ assms(3)] by simp
next
  case False
  then show ?thesis using LookupHandleAnyType_iff(2) assms(1,2) by metis
qed

lemma graft_nodes: "set (fnodes ts) \<subseteq> set (fnodes (map (graft p s) ts))"
proof -
  have "set (nodes t) \<subseteq> set (nodes (graft p s t))" for t
    by (induction t) auto
  then show ?thesis by fastforce
qed

lemma kept_forest:
  assumes "base_shape b fs ts" "\<forall>j \<in> set (fnodes ts). get_h b' j = get_h b j"
  shows "kept b b' (set (fnodes ts))"
  by (rule kept_get [OF assms(2)]) (use forest_get [OF assms(1)] in auto)

subsection \<open>Freeing everything\<close>

lemma forest_count:
  assumes sh: "base_shape b fs ts"
  shows "length (fnodes ts) + length fs = unat (ui32TotalHandCount b)"
proof -
  let ?xs = "fnodes ts @ fs" and ?n = "length (psHandleArray b)"
  have small: "?n < 2 ^ 32" by (rule base_small [OF sh])
  have "unat ` set ?xs = {..<?n}"
  proof (intro set_eqI iffI)
    fix n assume "n \<in> unat ` set ?xs"
    then obtain x h where "n = unat x" "get_h b x = Some h" using forest_get [OF sh] by blast
    then show "n \<in> {..<?n}" by (simp add: get_h_def split: if_splits)
  next
    fix n assume n: "n \<in> {..<?n}"
    then have "unat (of_nat n :: u32) = n" using small by (simp add: unat_of_nat)
    moreover from this have "(of_nat n :: u32) \<in> set ?xs" using sh n unfolding base_shape_def by (metis lessThan_iff)
    ultimately show "n \<in> unat ` set ?xs" by (metis image_eqI)
  qed
  then have "card (set ?xs) = ?n"
    by (metis card_image card_lessThan inj_onI word_unat_eq_iff)
  moreover have "distinct ?xs" "?n = unat (ui32TotalHandCount b)" using sh by (auto simp: base_shape_def)
  ultimately show ?thesis using distinct_card [of ?xs] by simp
qed

lemma fnodes_empty: "fnodes ts = [] \<longleftrightarrow> ts = []"
proof
  assume "fnodes ts = []"
  then show "ts = []" using roots_in_fnodes [of ts] by (metis map_is_Nil_conv set_empty subset_empty)
qed simp

lemma all_free:
  assumes sh: "base_shape b fs ts" and "ui32FreeHandCount b = ui32TotalHandCount b"
  shows "ts = []"
proof -
  have "unat (ui32FreeHandCount b) = length fs" using sh by (simp add: base_shape_def fl_ok_def unat_of_nat)
  then have "length (fnodes ts) = 0" using forest_count [OF sh] assms(2) by simp
  then show ?thesis using fnodes_empty by simp
qed

lemma FreeAllHandles_loop_spec:
  "base_ok b fs ts \<Longrightarrow> (\<And>j. j \<in> set (fnodes ts) \<Longrightarrow> i \<le> unat j) \<Longrightarrow> n = unat (ui32TotalHandCount b) \<Longrightarrow> i \<le> n \<Longrightarrow>
   \<exists>b' km' fs'. FreeAllHandles_loop b i n km = Some (PVRSRV_OK, b', km') \<and> base_ok b' fs' [] \<and> fixedp b' = fixedp b"
proof (induction "n - i" arbitrary: b fs ts i km)
  case 0
  have sh: "base_shape b fs ts" using 0 by (simp add: base_ok_def)
  have "j \<notin> set (fnodes ts)" for j
  proof
    assume j: "j \<in> set (fnodes ts)"
    then obtain h where "get_h b j = Some h" using forest_get [OF sh, of j] by auto
    then have "unat j < n" using sh 0 by (simp add: base_shape_def get_h_def split: if_splits)
    then show False using 0 j by force
  qed
  then have "set (fnodes ts) = {}" by (metis all_not_in_conv)
  then have "ts = []" using fnodes_empty by (simp del: set_concat)
  then show ?case using 0 by (subst FreeAllHandles_loop.simps) auto
next
  case (Suc k)
  have sh: "base_shape b fs ts" using Suc by (simp add: base_ok_def)
  have i: "i < n" using Suc by simp
  have u: "unat (of_nat i :: u32) = i" using i Suc.prems(3) base_small [OF sh] sh by (simp add: unat_of_nat base_shape_def)
  obtain h where h: "get_h b (of_nat i) = Some h" using i Suc.prems(3) sh u by (auto simp: get_h_def base_shape_def)
  show ?case
  proof (cases "eType h = PVRSRV_HANDLE_TYPE_NONE")
    case True
    then have "of_nat i \<notin> set (fnodes ts)" using in_use_iff [OF sh h] by simp
    then have "Suc i \<le> unat j" if "j \<in> set (fnodes ts)" for j
      using Suc.prems(2) [OF that] u that by (metis Suc_leI le_neq_implies_less word_unat_eq_iff)
    then obtain b' km' fs' where "FreeAllHandles_loop b (Suc i) n km = Some (PVRSRV_OK, b', km') \<and> base_ok b' fs' [] \<and> fixedp b' = fixedp b"
      using Suc.hyps(1) [of "Suc i" b fs ts km] Suc.hyps(2) Suc.prems i by fastforce
    then show ?thesis using i h True by (subst FreeAllHandles_loop.simps) auto
  next
    case False
    then have "of_nat i \<in> set (fnodes ts)" using in_use_iff [OF sh h] by simp
    then obtain s where s: "s \<in> set (fsubtrees ts)" "root s = of_nat i" using node_fsubtree by auto
    obtain b1 km1 where f: "FreeHandle (free_fuel b) b (of_nat i) km = Some (PVRSRV_OK, b1, km1)"
      "base_ok b1 (fs @ post s) (prune_all (of_nat i) ts)" "fixedp b1 = fixedp b"
      using FreeHandle_spec [OF Suc.prems(1) s(1), of km] s(2) by auto
    have sh1: "base_shape b1 (fs @ post s) (prune_all (of_nat i) ts)" using f(2) by (simp add: base_ok_def)
    have M: "mset (fnodes ts) = mset (nodes s @ fnodes (prune_all (of_nat i) ts))"
      using mset_prune_all [OF s(1)] sh s(2) by (simp add: base_shape_def ac_simps)
    have ge: "Suc i \<le> unat j" if j: "j \<in> set (fnodes (prune_all (of_nat i) ts))" for j
    proof -
      have "distinct (nodes s @ fnodes (prune_all (of_nat i) ts))"
        using mset_eq_imp_distinct_iff [OF M] sh by (simp add: base_shape_def)
      then have "j \<noteq> of_nat i" using j s(2) root_in_nodes [of s] by auto
      moreover have "j \<in> set (fnodes ts)" using j mset_eq_setD [OF M] by (simp del: set_concat)
      then have "i \<le> unat j" by (rule Suc.prems(2))
      ultimately show ?thesis using u by (metis Suc_leI le_neq_implies_less word_unat_eq_iff)
    qed
    have n1: "n = unat (ui32TotalHandCount b1)" using Suc.prems(3) f(3) by (simp add: fixedp_def)
    obtain b2 km2 fs2 where r: "FreeAllHandles_loop b1 (Suc i) n km1 = Some (PVRSRV_OK, b2, km2)"
        "base_ok b2 fs2 []" "fixedp b2 = fixedp b1"
      using Suc.hyps(1) [OF _ f(2) ge n1] Suc.hyps(2) i by (metis Suc_diff_Suc Suc_leI diff_Suc_1)
    show ?thesis
    proof (cases "ui32FreeHandCount b1 = ui32TotalHandCount b1")
      case True
      then have "base_ok b1 (fs @ post s) []" using all_free [OF sh1] f(2) by simp
      then show ?thesis using i h False f(1,3) True by (subst FreeAllHandles_loop.simps) auto
    next
      case neq: False
      then show ?thesis using i h False f(1,3) r by (subst FreeAllHandles_loop.simps) auto
    qed
  qed
qed

lemma FreeAllHandles_spec:
  assumes ok: "base_ok b fs ts"
  shows "\<exists>b' km' fs'. FreeAllHandles b km = Some (PVRSRV_OK, b', km') \<and> base_ok b' fs' [] \<and> fixedp b' = fixedp b"
proof (cases "ui32FreeHandCount b = ui32TotalHandCount b")
  case True
  then show ?thesis using all_free [of b fs ts] ok by (auto simp: FreeAllHandles_def base_ok_def)
next
  case False
  then show ?thesis using FreeAllHandles_loop_spec [OF ok, of 0] by (simp add: FreeAllHandles_def)
qed

subsection \<open>Properties\<close>

text \<open>
  C4. Allocating a handle always returns. When it succeeds, looking the new handle up with the
  type it was allocated with gives the data it was allocated for, and every lookup that succeeded
  before still gives the same data and type. When it fails it gives no handle and no lookup changes.
\<close>

theorem PVRSRVAllocHandle_lookup:
  assumes inv: "hb_inv b" and hyp: "alloc_hyps b ty"
  shows "\<exists>e hh b' km'. PVRSRVAllocHandle b data ty flag km = Some (e, hh, b', km') \<and> hb_inv b' \<and>
     (if e = PVRSRV_OK
      then PVRSRVLookupHandle b' hh ty = Some (PVRSRV_OK, data) \<and>
        (\<forall>k d t. PVRSRVLookupHandleAnyType b k = Some (PVRSRV_OK, d, t) \<longrightarrow>
           PVRSRVLookupHandleAnyType b' k = Some (PVRSRV_OK, d, t))
      else hh = NULL \<and> (\<forall>k. PVRSRVLookupHandleAnyType b' k = PVRSRVLookupHandleAnyType b k))"
proof -
  obtain fs ts where ok: "base_ok b fs ts" using inv by (auto simp: hb_inv_def)
  have sh: "base_shape b fs ts" using ok by (simp add: base_ok_def)
  have hy: "handles_small b" "table_roomy (psHashTab b)" "ty \<noteq> PVRSRV_HANDLE_TYPE_NONE" using hyp by (auto simp: alloc_hyps_def)
  obtain e hh b' km' where run: "PVRSRVAllocHandle b data ty flag km = Some (e, hh, b', km')"
    and g: "\<forall>j \<in> set (fnodes ts). get_h b' j = get_h b j"
    and r: "e \<noteq> PVRSRV_OK \<and> hh = NULL \<and> (\<exists>fs'. base_ok b' fs' ts) \<or>
      e = PVRSRV_OK \<and> b' = b \<and> (\<exists>h. has_type b ts (hh - 1) ty h \<and> pvData h = data \<and>
         TEST_FLAG (eFlag h AND flag) PVRSRV_HANDLE_ALLOC_FLAG_SHARED) \<or>
      e = PVRSRV_OK \<and> (\<exists>i fs'. hh = i + 1 \<and> i \<notin> set (fnodes ts) \<and> base_ok b' fs' (ts @ [HNode i []]) \<and>
         get_h b' i = Some (new_handle ty data flag i))"
    using PVRSRVAllocHandle_spec [OF ok hy, of data flag km] by blast
  note kp = kept_forest [OF sh g]
  from r consider (fail) fs' where "e \<noteq> PVRSRV_OK" "hh = NULL" "base_ok b' fs' ts"
    | (shared) h where "e = PVRSRV_OK" "b' = b" "has_type b ts (hh - 1) ty h" "pvData h = data"
    | (new) i fs' where "e = PVRSRV_OK" "hh = i + 1" "base_ok b' fs' (ts @ [HNode i []])"
        "get_h b' i = Some (new_handle ty data flag i)" by blast
  then show ?thesis
  proof cases
    case fail
    then show ?thesis using run lookups_same [OF sh _ kp] by (auto simp: hb_inv_def base_ok_def)
  next
    case shared
    then show ?thesis using run inv LookupHandle_ok [OF sh shared(3)] by auto
  next
    case new
    then have sh': "base_shape b' fs' (ts @ [HNode i []])" by (simp add: base_ok_def)
    have "PVRSRVLookupHandle b' hh ty = Some (PVRSRV_OK, data)"
      using LookupHandle_ok [OF sh', of hh ty "new_handle ty data flag i"] new by (simp add: has_type_def new_handle_def)
    moreover have "PVRSRVLookupHandleAnyType b' k = Some (PVRSRV_OK, d, t)"
      if "PVRSRVLookupHandleAnyType b k = Some (PVRSRV_OK, d, t)" for k d t
      by (rule lookups_kept [OF sh sh' _ kp that]) auto
    moreover have "hb_inv b'" using new(3) by (auto simp: hb_inv_def)
    ultimately show ?thesis using run new(1) by simp
  qed
qed

text \<open>
  C17. Allocating a handle under a parent always returns. When it succeeds, the new handle looks up
  to its data, its parent is the handle named in the call, looking it up as a descendant of that
  handle succeeds, and every lookup that succeeded before is unchanged. When it fails it gives no
  handle and no lookup changes.
\<close>

theorem PVRSRVAllocSubHandle_parent:
  assumes inv: "hb_inv b" and hyp: "alloc_hyps b ty"
  shows "\<exists>e hh b' km'. PVRSRVAllocSubHandle b data ty flag parent km = Some (e, hh, b', km') \<and> hb_inv b' \<and>
     (if e = PVRSRV_OK
      then PVRSRVLookupHandle b' hh ty = Some (PVRSRV_OK, data) \<and>
        PVRSRVGetParentHandle b' hh ty = Some (PVRSRV_OK, parent) \<and>
        PVRSRVLookupSubHandle b' hh ty parent = Some (PVRSRV_OK, data) \<and>
        (\<forall>k d t. PVRSRVLookupHandleAnyType b k = Some (PVRSRV_OK, d, t) \<longrightarrow>
           PVRSRVLookupHandleAnyType b' k = Some (PVRSRV_OK, d, t))
      else hh = NULL \<and> (\<forall>k. PVRSRVLookupHandleAnyType b' k = PVRSRVLookupHandleAnyType b k))"
proof -
  obtain fs ts where ok: "base_ok b fs ts" using inv by (auto simp: hb_inv_def)
  have sh: "base_shape b fs ts" using ok by (simp add: base_ok_def)
  have hy: "handles_small b" "table_roomy (psHashTab b)" "ty \<noteq> PVRSRV_HANDLE_TYPE_NONE" using hyp by (auto simp: alloc_hyps_def)
  have obs: "PVRSRVLookupHandle c k ty = Some (PVRSRV_OK, data) \<and> PVRSRVGetParentHandle c k ty = Some (PVRSRV_OK, parent) \<and>
      PVRSRVLookupSubHandle c k ty parent = Some (PVRSRV_OK, data)"
    if c: "base_shape c cfs cts" and h: "has_type c cts (k - 1) ty h" "pvData h = data" "ParentHandle h = parent" for c cfs cts k h
  proof -
    have g: "GetHandleStructure c k ty = Some (PVRSRV_OK, k - 1)" "get_h c (k - 1) = Some h"
      using GetHandleStructure_spec(1) [OF c, of k ty] h(1) by (auto simp: has_type_def)
    then have "ancestor_loop c (k - 1) parent = Some PVRSRV_OK" by (subst ancestor_loop.simps) (simp add: h(3))
    then show ?thesis using g h
      by (simp add: PVRSRVLookupHandle_def PVRSRVGetParentHandle_def PVRSRVLookupSubHandle_def)
  qed
  obtain e hh b' km' where run: "PVRSRVAllocSubHandle b data ty flag parent km = Some (e, hh, b', km')"
    and kp: "kept b b' (set (fnodes ts))"
    and r: "e \<noteq> PVRSRV_OK \<and> hh = NULL \<and> (\<exists>fs'. base_ok b' fs' ts) \<or>
      e = PVRSRV_OK \<and> b' = b \<and> (\<exists>h. has_type b ts (hh - 1) ty h \<and> pvData h = data \<and> ParentHandle h = parent \<and>
         TEST_FLAG (eFlag h AND flag) PVRSRV_HANDLE_ALLOC_FLAG_SHARED) \<or>
      e = PVRSRV_OK \<and> parent - 1 \<in> set (fnodes ts) \<and> (\<exists>i fs' h. hh = i + 1 \<and> i \<notin> set (fnodes ts) \<and>
         base_ok b' fs' (map (graft (parent - 1) (HNode i [])) ts) \<and>
         get_h b' i = Some h \<and> eType h = ty \<and> pvData h = data \<and> eFlag h = flag \<and> ParentHandle h = parent)"
    using PVRSRVAllocSubHandle_spec [OF ok hy, of data flag parent km] by blast
  from r consider (fail) fs' where "e \<noteq> PVRSRV_OK" "hh = NULL" "base_ok b' fs' ts"
    | (shared) h where "e = PVRSRV_OK" "b' = b" "has_type b ts (hh - 1) ty h" "pvData h = data" "ParentHandle h = parent"
    | (new) i fs' h where "e = PVRSRV_OK" "hh = i + 1" "base_ok b' fs' (map (graft (parent - 1) (HNode i [])) ts)"
        "get_h b' i = Some h" "eType h = ty" "pvData h = data" "ParentHandle h = parent" by blast
  then show ?thesis
  proof cases
    case fail
    then show ?thesis using run lookups_same [OF sh _ kp] by (auto simp: hb_inv_def base_ok_def)
  next
    case shared
    then show ?thesis using run inv obs [OF sh shared(3-5)] by auto
  next
    case new
    let ?ts = "map (graft (parent - 1) (HNode i [])) ts"
    have sh': "base_shape b' fs' ?ts" using new(3) by (simp add: base_ok_def)
    have "i \<in> set (fnodes ?ts)" using in_use_iff [OF sh' new(4)] new(5) hy(3) by simp
    then have "has_type b' ?ts (hh - 1) ty h" using new by (simp add: has_type_def)
    then have "PVRSRVLookupHandle b' hh ty = Some (PVRSRV_OK, data) \<and> PVRSRVGetParentHandle b' hh ty = Some (PVRSRV_OK, parent) \<and>
      PVRSRVLookupSubHandle b' hh ty parent = Some (PVRSRV_OK, data)" using obs [OF sh' _ new(6,7)] by blast
    moreover have "PVRSRVLookupHandleAnyType b' k = Some (PVRSRV_OK, d, t)"
      if "PVRSRVLookupHandleAnyType b k = Some (PVRSRV_OK, d, t)" for k d t
      by (rule lookups_kept [OF sh sh' graft_nodes kp that])
    moreover have "hb_inv b'" using new(3) by (auto simp: hb_inv_def)
    ultimately show ?thesis using run new(1) by simp
  qed
qed

text \<open>
  C3. Releasing a handle that looks up with the type given in the call succeeds and releases exactly
  the handle and its descendants: afterwards the lookup of a handle fails if it is the released one
  or could be looked up as a descendant of it, and is unchanged otherwise.
\<close>

theorem PVRSRVReleaseHandle_prunes:
  assumes inv: "hb_inv b" and look: "PVRSRVLookupHandleAnyType b hh = Some (PVRSRV_OK, d, t)"
    and ty: "ty = PVRSRV_HANDLE_TYPE_NONE \<or> ty = t"
  shows "\<exists>b' km'. PVRSRVReleaseHandle b hh ty km = Some (PVRSRV_OK, b', km') \<and> hb_inv b' \<and>
     (\<forall>k. PVRSRVLookupHandleAnyType b' k =
        (if k = hh \<or> (\<exists>x. PVRSRVLookupSubHandle b k PVRSRV_HANDLE_TYPE_NONE hh = Some (PVRSRV_OK, x))
         then Some (PVRSRV_ERROR_GENERIC, NULL, PVRSRV_HANDLE_TYPE_NONE)
         else PVRSRVLookupHandleAnyType b k))"
proof -
  obtain fs ts where ok: "base_ok b fs ts" using inv by (auto simp: hb_inv_def)
  have sh: "base_shape b fs ts" using ok by (simp add: base_ok_def)
  obtain h where h: "has_type b ts (hh - 1) ty h"
    using look ty LookupHandleAnyType_iff(1) [OF sh] by (auto simp: has_type_def)
  obtain s b' km' P S where s: "s \<in> set (fsubtrees ts)" "root s = hh - 1"
    and run: "PVRSRVReleaseHandle b hh ty km = Some (PVRSRV_OK, b', km')"
    and ok': "base_ok b' (fs @ post s) (prune_all (root s) ts)"
    and fr: "hframe (set (nodes s)) P S (set fs) b b'" using release_spec [OF ok h, of km] by blast
  have sh': "base_shape b' (fs @ post s) (prune_all (root s) ts)" using ok' by (simp add: base_ok_def)
  have D: "distinct (fnodes ts)" using sh by (simp add: base_shape_def)
  have M: "mset (fnodes ts) = mset (nodes s @ fnodes (prune_all (root s) ts))"
    using mset_prune_all [OF s(1) D] by (simp add: ac_simps)
  have ns: "set (fnodes ts) = set (nodes s) \<union> set (fnodes (prune_all (root s) ts))"
    using mset_eq_setD [OF M] by simp
  have nd: "set (nodes s) \<inter> set (fnodes (prune_all (root s) ts)) = {}"
    using mset_eq_imp_distinct_iff [OF M] D by simp
  have r: "root s + 1 = hh" using s(2) by simp
  have nz: "hh \<noteq> NULL"
    using r index_plus_one [OF _ base_small [OF sh], of "root s"] h s(2) by (auto simp: has_type_def)
  have sub: "(\<exists>x. PVRSRVLookupSubHandle b k PVRSRV_HANDLE_TYPE_NONE hh = Some (PVRSRV_OK, x)) \<longleftrightarrow>
      k - 1 \<in> set (fnodes (kids s))" for k
  proof (cases "\<exists>hk. has_type b ts (k - 1) PVRSRV_HANDLE_TYPE_NONE hk")
    case True
    then obtain hk where "has_type b ts (k - 1) PVRSRV_HANDLE_TYPE_NONE hk" ..
    then show ?thesis using LookupSubHandle_spec [OF sh, of k _ hk hh] nz anc_forest [OF s(1) D, of "k - 1"] r by simp
  next
    case False
    then have "PVRSRVLookupSubHandle b k PVRSRV_HANDLE_TYPE_NONE hh = Some (PVRSRV_ERROR_GENERIC, NULL)"
      using GetHandleStructure_spec(2) [OF sh, of k] by (simp add: PVRSRVLookupSubHandle_def)
    moreover have "k - 1 \<notin> set (fnodes ts)"
    proof
      assume a: "k - 1 \<in> set (fnodes ts)"
      then obtain hk where "get_h b (k - 1) = Some hk" using forest_get [OF sh, of "k - 1"] by auto
      then show False using False a by (auto simp: has_type_def)
    qed
    then have "k - 1 \<notin> set (fnodes (kids s))" using ns by (cases s) auto
    ultimately show ?thesis by simp
  qed
  have in_s: "k - 1 \<in> set (nodes s) \<longleftrightarrow> k = hh \<or> k - 1 \<in> set (fnodes (kids s))" for k
    using s(2) by (cases s) auto
  have "PVRSRVLookupHandleAnyType b' k = (if k - 1 \<in> set (nodes s)
      then Some (PVRSRV_ERROR_GENERIC, NULL, PVRSRV_HANDLE_TYPE_NONE) else PVRSRVLookupHandleAnyType b k)" for k
  proof (cases "k - 1 \<in> set (fnodes (prune_all (root s) ts))")
    case True
    then have k: "k - 1 \<in> set (fnodes ts)" "k - 1 \<notin> set (nodes s)" using ns nd by auto
    then obtain hk where hk: "get_h b (k - 1) = Some hk" using forest_get [OF sh, of "k - 1"] by auto
    obtain hk' where hk': "get_h b' (k - 1) = Some hk'" "hrel P S (set fs) (k - 1) hk hk'"
      by (rule hframe_get [OF fr hk k(2)])
    show ?thesis
      unfolding LookupHandleAnyType_spec [OF sh] LookupHandleAnyType_spec [OF sh']
      using True k hk hk' by (simp add: hrel_def del: set_concat)
  next
    case False
    then have "PVRSRVLookupHandleAnyType b' k = Some (PVRSRV_ERROR_GENERIC, NULL, PVRSRV_HANDLE_TYPE_NONE)"
      by (rule LookupHandleAnyType_iff(2) [OF sh'])
    moreover have "PVRSRVLookupHandleAnyType b k = Some (PVRSRV_ERROR_GENERIC, NULL, PVRSRV_HANDLE_TYPE_NONE)"
      if "k - 1 \<notin> set (nodes s)" by (rule LookupHandleAnyType_iff(2) [OF sh]) (use False that ns in blast)
    ultimately show ?thesis by simp
  qed
  then show ?thesis using run ok' unfolding sub in_s by (auto simp: hb_inv_def)
qed

text \<open>
  C20. Tearing a base down between batches frees every handle it still holds, whatever was allocated
  before: it returns without an error, no handle looks up any more, every structure is counted free
  and the hash table is empty. The base is one of a process, with purging off and no batch open.
\<close>

theorem FreeAllHandles_frees_all:
  assumes "hb_inv b"
  shows "\<exists>b' km'. FreeAllHandles b km = Some (PVRSRV_OK, b', km') \<and>
     ui32FreeHandCount b' = ui32TotalHandCount b' \<and> ui32TotalHandCount b' = ui32TotalHandCount b \<and>
     entries (psHashTab b') = {#} \<and>
     (\<forall>k. PVRSRVLookupHandleAnyType b' k = Some (PVRSRV_ERROR_GENERIC, NULL, PVRSRV_HANDLE_TYPE_NONE))"
proof -
  obtain fs ts where ok: "base_ok b fs ts" using assms by (auto simp: hb_inv_def)
  obtain b' km' fs' where r: "FreeAllHandles b km = Some (PVRSRV_OK, b', km')" "base_ok b' fs' []" "fixedp b' = fixedp b"
    using FreeAllHandles_spec [OF ok] by blast
  have sh: "base_shape b' fs' []" using r(2) by (simp add: base_ok_def)
  have "ui32FreeHandCount b' = of_nat (unat (ui32TotalHandCount b'))"
    using forest_count [OF sh] sh by (simp add: base_shape_def fl_ok_def)
  moreover have "entries (psHashTab b') = {#}" using r(2) by (simp add: base_ok_def hash_has_def)
  moreover have "PVRSRVLookupHandleAnyType b' k = Some (PVRSRV_ERROR_GENERIC, NULL, PVRSRV_HANDLE_TYPE_NONE)" for k
    by (rule LookupHandleAnyType_iff(2) [OF sh]) simp
  ultimately show ?thesis using r(1,3) by (simp add: fixedp_def)
qed

text \<open>
  C21. In every base reached from a fresh one by allocating, releasing and setting the limit, outside
  batches and with purging off, the handles in use and the free ones add up to the size of the array.
\<close>

theorem reachable_handle_counts:
  assumes "reachable_from hb_init hb_step b"
  shows "length (filter (\<lambda>h. eType h \<noteq> PVRSRV_HANDLE_TYPE_NONE) (psHandleArray b)) + unat (ui32FreeHandCount b) =
     unat (ui32TotalHandCount b) \<and> length (psHandleArray b) = unat (ui32TotalHandCount b)"
proof -
  obtain fs ts where "base_ok b fs ts" using hb.reachable_inv [OF assms] by (auto simp: hb_inv_def)
  then have sh: "base_shape b fs ts" by (simp add: base_ok_def)
  let ?u = "\<lambda>h. eType h \<noteq> PVRSRV_HANDLE_TYPE_NONE" and ?a = "psHandleArray b"
  have small: "length ?a < 2 ^ 32" by (rule base_small [OF sh])
  have len: "length ?a = unat (ui32TotalHandCount b)" using sh by (simp add: base_shape_def)
  have "{i. i < length ?a \<and> ?u (?a ! i)} = unat ` set (fnodes ts)"
  proof (intro set_eqI iffI)
    fix i assume i: "i \<in> {i. i < length ?a \<and> ?u (?a ! i)}"
    then have u: "unat (of_nat i :: u32) = i" using small by (simp add: unat_of_nat)
    then have "get_h b (of_nat i) = Some (?a ! i)" using i by (simp add: get_h_def)
    then have "of_nat i \<in> set (fnodes ts)" using in_use_iff [OF sh] i by blast
    then show "i \<in> unat ` set (fnodes ts)" using u by (metis image_eqI)
  next
    fix i assume "i \<in> unat ` set (fnodes ts)"
    then obtain j h where j: "i = unat j" "j \<in> set (fnodes ts)" "get_h b j = Some h" using forest_get [OF sh] by force
    then show "i \<in> {i. i < length ?a \<and> ?u (?a ! i)}"
      using in_use_iff [OF sh j(3)] by (simp add: get_h_def split: if_splits)
  qed
  then have "length (filter ?u ?a) = card (set (fnodes ts))"
    unfolding length_filter_conv_card by (metis (no_types, lifting) card_image inj_onI word_unat_eq_iff)
  moreover have "card (set (fnodes ts)) = length (fnodes ts)" using sh by (intro distinct_card) (simp add: base_shape_def)
  moreover have "unat (ui32FreeHandCount b) = length fs" using sh by (simp add: base_shape_def fl_ok_def unat_of_nat)
  ultimately show ?thesis using forest_count [OF sh] len by simp
qed

text \<open>
  Looking a handle up as a descendant succeeds exactly when the named handle is reached by
  following parents, or is \<^verbatim>\<open>NULL\<close>: the walk up always ends, and its result for a handle is
  success when the named handle is the parent, failure at a root, and otherwise the result of the
  walk from the parent.
\<close>

theorem PVRSRVLookupSubHandle_ancestors:
  assumes inv: "hb_inv b" and look: "PVRSRVLookupHandleAnyType b hh = Some (PVRSRV_OK, d, t)"
  shows "\<exists>p. PVRSRVGetParentHandle b hh PVRSRV_HANDLE_TYPE_NONE = Some (PVRSRV_OK, p) \<and>
     PVRSRVLookupSubHandle b hh t a =
       (if a = p then Some (PVRSRV_OK, d)
        else if p = NULL then Some (PVRSRV_ERROR_GENERIC, NULL)
        else map_option (\<lambda>(e, x). (e, if e = PVRSRV_OK then d else NULL))
               (PVRSRVLookupSubHandle b p PVRSRV_HANDLE_TYPE_NONE a))"
proof -
  obtain fs ts where ok: "base_ok b fs ts" using inv by (auto simp: hb_inv_def)
  have sh: "base_shape b fs ts" using ok by (simp add: base_ok_def)
  obtain h where h: "hh - 1 \<in> set (fnodes ts)" "get_h b (hh - 1) = Some h" "pvData h = d" "eType h = t"
    using look LookupHandleAnyType_iff(1) [OF sh] by auto
  have g: "GetHandleStructure b hh ty = Some (PVRSRV_OK, hh - 1)" if "ty = PVRSRV_HANDLE_TYPE_NONE \<or> ty = t" for ty
    using GetHandleStructure_spec(1) [OF sh, of hh ty] h that by (auto simp: has_type_def)
  let ?p = "ParentHandle h"
  have par: "PVRSRVGetParentHandle b hh PVRSRV_HANDLE_TYPE_NONE = Some (PVRSRV_OK, ?p)"
    using g [of PVRSRV_HANDLE_TYPE_NONE] h(2) by (simp add: PVRSRVGetParentHandle_def)
  note al = ancestor_loop_spec [OF sh h(1), of a]
  have sub: "PVRSRVLookupSubHandle b hh t a = map_option (\<lambda>e. (e, if e = PVRSRV_OK then d else NULL)) (ancestor_loop b (hh - 1) a)"
    using g [of t] h(2,3) al by (simp add: PVRSRVLookupSubHandle_def)
  show ?thesis
  proof (intro exI conjI)
    show "PVRSRVGetParentHandle b hh PVRSRV_HANDLE_TYPE_NONE = Some (PVRSRV_OK, ?p)" by (rule par)
    show "PVRSRVLookupSubHandle b hh t a = (if a = ?p then Some (PVRSRV_OK, d)
        else if ?p = NULL then Some (PVRSRV_ERROR_GENERIC, NULL)
        else map_option (\<lambda>(e, x). (e, if e = PVRSRV_OK then d else NULL))
               (PVRSRVLookupSubHandle b ?p PVRSRV_HANDLE_TYPE_NONE a))"
    proof (cases "GetHandleStructure b ?p PVRSRV_HANDLE_TYPE_NONE = Some (PVRSRV_OK, ?p - 1)")
      case True
      then have hp: "\<exists>hp. has_type b ts (?p - 1) PVRSRV_HANDLE_TYPE_NONE hp"
        using GetHandleStructure_spec(2) [OF sh, of ?p PVRSRV_HANDLE_TYPE_NONE] by fastforce
      then obtain hp where hp: "get_h b (?p - 1) = Some hp" "?p - 1 \<in> set (fnodes ts)" by (auto simp: has_type_def)
      have "?p \<noteq> 0" using index_plus_one [OF hp(1) base_small [OF sh]] by simp
      moreover have "ancestor_loop b (hh - 1) a = (if ?p = a then Some PVRSRV_OK else ancestor_loop b (?p - 1) a)"
        using True h(2) by (subst ancestor_loop.simps) simp
      ultimately show ?thesis
        using sub True hp(1) ancestor_loop_spec [OF sh hp(2), of a] by (auto simp: PVRSRVLookupSubHandle_def)
    next
      case False
      then have n: "\<nexists>hp. has_type b ts (?p - 1) PVRSRV_HANDLE_TYPE_NONE hp"
        using GetHandleStructure_spec(1) [OF sh, of ?p PVRSRV_HANDLE_TYPE_NONE] by blast
      note g' = GetHandleStructure_spec(2) [OF sh n]
      have "ancestor_loop b (hh - 1) a = (if ?p = a then Some PVRSRV_OK else Some PVRSRV_ERROR_GENERIC)"
        using g' h(2) by (subst ancestor_loop.simps) simp
      then show ?thesis using sub g' by (auto simp: PVRSRVLookupSubHandle_def)
    qed
  qed
qed

subsection \<open>A concrete base\<close>

definition hb_demo0 :: hbase where
  "hb_demo0 = (case PVRSRVAllocHandleBase (\<lambda>_. new_handle PVRSRV_HANDLE_TYPE_NONE 0 0 0) [4096, 4128, 4160, 4192] of
     (_, Some b, _) \<Rightarrow> snd (PVRSRVSetMaxHandle b 3))"

definition hb_demo1 :: hbase where
  "hb_demo1 = (case PVRSRVAllocHandle hb_demo0 0x5000 PVRSRV_HANDLE_TYPE_MEM_INFO 0 [8192, 8224, 8256] of
     Some (_, _, b, _) \<Rightarrow> b)"

definition hb_demo2 :: hbase where
  "hb_demo2 = (case PVRSRVAllocSubHandle hb_demo1 0x6000 PVRSRV_HANDLE_TYPE_SYNC_INFO 0 1 [9216, 9248, 9280] of
     Some (_, _, b, _) \<Rightarrow> b)"

lemma hb_demo0_reach: "reachable_from hb_init hb_step hb_demo0"
proof -
  obtain b km' where b: "PVRSRVAllocHandleBase (\<lambda>_. new_handle PVRSRV_HANDLE_TYPE_NONE 0 0 0) [4096, 4128, 4160, 4192] = (PVRSRV_OK, Some b, km')"
    by (simp add: PVRSRVAllocHandleBase_def HASH_Create_Extended_def)
  then have "hb_step b hb_demo0"
    by (intro set_max [of b 3 "fst (PVRSRVSetMaxHandle b 3)"]) (simp add: hb_demo0_def)
  then show ?thesis using reachable_from.start [of hb_init b hb_step] hb_init.create [OF b] reachable_from.next_step by metis
qed

lemma hb_demo_sizes:
  "uSize (psHashTab hb_demo0) = 32" "ui32TotalHandCount hb_demo0 = 0"
  "uSize (psHashTab hb_demo1) = 32" "ui32TotalHandCount hb_demo1 = 3"
  by code_simp+

lemma hb_demo_hyps: "alloc_hyps hb_demo0 PVRSRV_HANDLE_TYPE_MEM_INFO" "alloc_hyps hb_demo1 PVRSRV_HANDLE_TYPE_SYNC_INFO"
  by (simp_all add: alloc_hyps_def handles_small_def table_roomy_def hb_demo_sizes)

lemma hb_demo0_inv: "hb_inv hb_demo0"
  by (rule hb.reachable_inv [OF hb_demo0_reach])

lemma alloc_inv:
  assumes "hb_inv b" "alloc_hyps b ty"
  shows "\<exists>e hh b' km'. PVRSRVAllocHandle b data ty flag km = Some (e, hh, b', km') \<and> hb_inv b'"
proof -
  obtain fs ts where "base_ok b fs ts" using assms(1) by (auto simp: hb_inv_def)
  then obtain e hh b' km' where r: "PVRSRVAllocHandle b data ty flag km = Some (e, hh, b', km')"
    using PVRSRVAllocHandle_spec [of b fs ts ty data flag km] assms(2) unfolding alloc_hyps_def by blast
  then show ?thesis using hb.inv_step [OF assms(1) hb_step.alloc [OF assms(2) r]] by blast
qed

lemma alloc_sub_inv:
  assumes "hb_inv b" "alloc_hyps b ty"
  shows "\<exists>e hh b' km'. PVRSRVAllocSubHandle b data ty flag parent km = Some (e, hh, b', km') \<and> hb_inv b'"
proof -
  obtain fs ts where "base_ok b fs ts" using assms(1) by (auto simp: hb_inv_def)
  then obtain e hh b' km' where r: "PVRSRVAllocSubHandle b data ty flag parent km = Some (e, hh, b', km')"
    using PVRSRVAllocSubHandle_spec [of b fs ts ty data flag parent km] assms(2) unfolding alloc_hyps_def by blast
  then show ?thesis using hb.inv_step [OF assms(1) hb_step.alloc_sub [OF assms(2) r]] by blast
qed

lemma hb_demo1_inv: "hb_inv hb_demo1"
  using alloc_inv [OF hb_demo0_inv hb_demo_hyps(1), where data = "0x5000" and flag = 0 and km = "[8192, 8224, 8256]"] by (auto simp: hb_demo1_def)

lemma hb_demo2_inv: "hb_inv hb_demo2"
  using alloc_sub_inv [OF hb_demo1_inv hb_demo_hyps(2), where data = "0x6000" and flag = 0 and parent = 1 and km = "[9216, 9248, 9280]"] by (auto simp: hb_demo2_def)

theorem PVRSRVAllocHandle_lookup_witness:
  "\<exists>e hh b' km'. PVRSRVAllocHandle hb_demo0 0x5000 PVRSRV_HANDLE_TYPE_MEM_INFO 0 [8192, 8224, 8256] = Some (e, hh, b', km') \<and>
     hb_inv b' \<and> e = PVRSRV_OK \<and> PVRSRVLookupHandle b' hh PVRSRV_HANDLE_TYPE_MEM_INFO = Some (PVRSRV_OK, 0x5000)"
proof -
  have "map_option fst (PVRSRVAllocHandle hb_demo0 0x5000 PVRSRV_HANDLE_TYPE_MEM_INFO 0 [8192, 8224, 8256]) = Some PVRSRV_OK"
    by code_simp
  then show ?thesis
    using PVRSRVAllocHandle_lookup [OF hb_demo0_inv hb_demo_hyps(1), where data = "0x5000" and flag = 0 and km = "[8192, 8224, 8256]"] by auto
qed

theorem PVRSRVAllocSubHandle_parent_witness:
  "\<exists>e hh b' km'. PVRSRVAllocSubHandle hb_demo1 0x6000 PVRSRV_HANDLE_TYPE_SYNC_INFO 0 1 [9216, 9248, 9280] = Some (e, hh, b', km') \<and>
     e = PVRSRV_OK \<and> PVRSRVGetParentHandle b' hh PVRSRV_HANDLE_TYPE_SYNC_INFO = Some (PVRSRV_OK, 1)"
proof -
  have "map_option fst (PVRSRVAllocSubHandle hb_demo1 0x6000 PVRSRV_HANDLE_TYPE_SYNC_INFO 0 1 [9216, 9248, 9280]) = Some PVRSRV_OK"
    by code_simp
  then show ?thesis
    using PVRSRVAllocSubHandle_parent [OF hb_demo1_inv hb_demo_hyps(2), where data = "0x6000" and flag = 0 and parent = 1 and km = "[9216, 9248, 9280]"] by auto
qed

theorem PVRSRVReleaseHandle_prunes_witness:
  "\<exists>b' km'. PVRSRVReleaseHandle hb_demo2 1 PVRSRV_HANDLE_TYPE_NONE [] = Some (PVRSRV_OK, b', km') \<and>
     PVRSRVLookupHandleAnyType b' 1 = Some (PVRSRV_ERROR_GENERIC, NULL, PVRSRV_HANDLE_TYPE_NONE) \<and>
     PVRSRVLookupHandleAnyType b' 2 = Some (PVRSRV_ERROR_GENERIC, NULL, PVRSRV_HANDLE_TYPE_NONE)"
proof -
  have l: "PVRSRVLookupHandleAnyType hb_demo2 1 = Some (PVRSRV_OK, 0x5000, PVRSRV_HANDLE_TYPE_MEM_INFO)" by code_simp
  have s: "PVRSRVLookupSubHandle hb_demo2 2 PVRSRV_HANDLE_TYPE_NONE 1 = Some (PVRSRV_OK, 0x6000)" by code_simp
  show ?thesis using PVRSRVReleaseHandle_prunes [OF hb_demo2_inv l, of PVRSRV_HANDLE_TYPE_NONE "[]"] s by auto
qed

theorem FreeAllHandles_frees_all_witness:
  "\<exists>b' km'. FreeAllHandles hb_demo2 [] = Some (PVRSRV_OK, b', km') \<and> ui32FreeHandCount b' = ui32TotalHandCount b'"
  using FreeAllHandles_frees_all [OF hb_demo2_inv, of "[]"] by blast

theorem reachable_handle_counts_witness:
  "length (filter (\<lambda>h. eType h \<noteq> PVRSRV_HANDLE_TYPE_NONE) (psHandleArray hb_demo0)) + unat (ui32FreeHandCount hb_demo0) =
     unat (ui32TotalHandCount hb_demo0)"
  using reachable_handle_counts [OF hb_demo0_reach] by blast

theorem PVRSRVLookupSubHandle_ancestors_witness:
  "\<exists>p. PVRSRVGetParentHandle hb_demo2 2 PVRSRV_HANDLE_TYPE_NONE = Some (PVRSRV_OK, p) \<and>
     PVRSRVLookupSubHandle hb_demo2 2 PVRSRV_HANDLE_TYPE_SYNC_INFO p = Some (PVRSRV_OK, 0x6000)"
proof -
  have l: "PVRSRVLookupHandleAnyType hb_demo2 2 = Some (PVRSRV_OK, 0x6000, PVRSRV_HANDLE_TYPE_SYNC_INFO)" by code_simp
  have p: "PVRSRVGetParentHandle hb_demo2 2 PVRSRV_HANDLE_TYPE_NONE = Some (PVRSRV_OK, 1)" by code_simp
  show ?thesis using PVRSRVLookupSubHandle_ancestors [OF hb_demo2_inv l, of 1] p by auto
qed

end
