(* ===== verification/Pvr_Pprev.thy ===== *)
theory Pvr_Pprev
  imports Pvr_Prelude "HOL-Library.Monad_Syntax"
begin

text \<open>
  The intrusive lists that the resource manager keeps its contexts and items in: every node holds
  \<open>psNext\<close> and, in \<open>ppsThis\<close>, the address of the pointer that points to it, either the
  list head in the owner or the \<open>psNext\<close> field of the node before. Nodes live in a map from
  addresses; an access through an address that holds no node is \<open>None\<close>. The predicate
  \<open>seg\<close> says which abstract list a piece of the heap stands for, and its lemmas are the
  effects of the three pointer writes the code makes.
\<close>

subsection \<open>Nodes and slots\<close>

datatype slot =
    Head ptr      \<comment> \<open>the list head kept in the owner at this address\<close>
  | NextOf ptr    \<comment> \<open>the field \<open>psNext\<close> of the node at this address\<close>

record 'a lnk =
  ppsThis :: slot
  psNext :: ptr
  body :: 'a

type_synonym 'a lnk_heap = "ptr \<Rightarrow> 'a lnk option"

definition set_this :: "'a lnk_heap \<Rightarrow> ptr \<Rightarrow> slot \<Rightarrow> 'a lnk_heap option" where
  "set_this m q sl = do { n \<leftarrow> m q; Some (m(q \<mapsto> n\<lparr>ppsThis := sl\<rparr>)) }"

definition set_next :: "'a lnk_heap \<Rightarrow> ptr \<Rightarrow> ptr \<Rightarrow> 'a lnk_heap option" where
  "set_next m q v = do { n \<leftarrow> m q; Some (m(q \<mapsto> n\<lparr>psNext := v\<rparr>)) }"

subsection \<open>List segments\<close>

definition nxt :: "(ptr \<times> 'a) list \<Rightarrow> ptr \<Rightarrow> ptr" where
  "nxt xs e = (case xs of [] \<Rightarrow> e | x # _ \<Rightarrow> fst x)"

definition last_slot :: "slot \<Rightarrow> (ptr \<times> 'a) list \<Rightarrow> slot" where
  "last_slot sl xs = (if xs = [] then sl else NextOf (fst (last xs)))"

fun seg :: "'a lnk_heap \<Rightarrow> slot \<Rightarrow> (ptr \<times> 'a) list \<Rightarrow> ptr \<Rightarrow> bool" where
  "seg m sl [] e = True"
| "seg m sl ((a, b) # xs) e =
     (a \<noteq> NULL \<and> m a = Some \<lparr>ppsThis = sl, psNext = nxt xs e, body = b\<rparr> \<and>
      seg m (NextOf a) xs e)"

abbreviation addrs :: "(ptr \<times> 'a) list \<Rightarrow> ptr set" where
  "addrs xs \<equiv> fst ` set xs"

lemma nxt_simps [simp]: "nxt [] e = e" "nxt (x # xs) e = fst x"
  by (simp_all add: nxt_def)

lemma last_slot_simps [simp]:
  "last_slot sl [] = sl" "last_slot sl (x # xs) = last_slot (NextOf (fst x)) xs"
  "last_slot sl (xs @ [x]) = NextOf (fst x)"
  by (simp_all add: last_slot_def)

lemma nxt_append: "nxt (xs @ ys) e = nxt xs (nxt ys e)"
  by (cases xs) auto

lemma seg_append:
  "seg m sl (xs @ ys) e \<longleftrightarrow> seg m sl xs (nxt ys e) \<and> seg m (last_slot sl xs) ys e"
  by (induction m sl xs e rule: seg.induct) (auto simp: nxt_append)

lemma seg_frame: "(\<And>a. a \<in> addrs xs \<Longrightarrow> m' a = m a) \<Longrightarrow> seg m' sl xs e = seg m sl xs e"
  by (induction m sl xs e rule: seg.induct) auto

lemma seg_upd [simp]: "a \<notin> addrs xs \<Longrightarrow> seg (m(a := n)) sl xs e = seg m sl xs e"
  by (rule seg_frame) auto

lemma seg_node:
  assumes "seg m sl xs e" and "(a, b) \<in> set xs"
  shows "a \<noteq> NULL" and "\<exists>n. m a = Some n \<and> body n = b"
  using assms by (induction m sl xs e rule: seg.induct) auto

lemma seg_dom: "seg m sl xs e \<Longrightarrow> addrs xs \<subseteq> dom m"
  using seg_node by fastforce

lemma seg_nonnull: "seg m sl xs e \<Longrightarrow> NULL \<notin> addrs xs"
  using seg_node(1) by fastforce

lemma seg_nxt_null: "seg m sl xs NULL \<Longrightarrow> nxt xs NULL = NULL \<longleftrightarrow> xs = []"
  by (cases xs) (auto split: prod.splits)

lemma seg_last_slot:
  assumes "seg m sl xs e" and "last_slot sl xs = NextOf q" and "xs \<noteq> []"
  shows "q \<in> addrs xs"
  using assms by (auto simp: last_slot_def)

subsection \<open>The pointer writes\<close>

lemma seg_set_this:
  assumes "seg m sl xs e" and "xs \<noteq> []" and "distinct (map fst xs)"
  shows "\<exists>n. set_this m (nxt xs e) sl' = Some (m(nxt xs e \<mapsto> n)) \<and>
             seg (m(nxt xs e \<mapsto> n)) sl' xs e"
  using assms by (cases xs) (auto simp: set_this_def image_iff)

lemma seg_set_next:
  assumes "seg m sl xs e" and "xs \<noteq> []" and "distinct (map fst xs)"
  shows "\<exists>n. set_next m (fst (last xs)) v = Some (m(fst (last xs) \<mapsto> n)) \<and>
             seg (m(fst (last xs) \<mapsto> n)) sl xs v"
proof -
  from \<open>xs \<noteq> []\<close> obtain ys a b where xs: "xs = ys @ [(a, b)]"
    by (metis append_butlast_last_id surj_pair)
  with assms show ?thesis
    by (auto simp: set_next_def seg_append image_iff)
qed

end
