(* ===== verification/Pvr_Resman.thy ===== *)
theory Pvr_Resman
  imports Pvr_Pprev
begin

text \<open>
  The resource manager of \<^verbatim>\<open>src/pvr/resman.c\<close>: one context per process, each with the list of
  the resources registered for it and the function that frees each of them. Contexts and items are
  nodes of intrusive lists (\<open>Pvr_Pprev\<close>) in two maps from addresses. Every operation is a
  function to \<open>option\<close>: \<open>None\<close> is an access through an address that holds no object, a
  free of memory that is not allocated, a \<open>down\<close> that would block, a \<open>BUG()\<close>, or a loop
  that does not end. The free functions registered with the items belong to other parts of the
  driver: they are the parameter \<open>fns\<close>, which maps the function's address and its two
  arguments to a transformer of the whole state, called with the lock released as in the code.
\<close>

subsection \<open>Data\<close>

record RESMAN_ITEM =
  ui32Flags :: u32
  ui32ResType :: u32
  pvParam :: ptr
  ui32Param :: u32
  pfnFreeResource :: ptr

record RESMAN_CONTEXT =
  psPerProc :: ptr
  psResItemList :: ptr

record RESMAN_LIST =
  psContextList :: ptr

text \<open>
  \<open>res_lock\<close> is the count of the semaphore \<open>lock\<close> (1 when free), \<open>irq\<close> the answer of
  \<open>in_interrupt()\<close>, and \<open>world\<close> the state of the rest of the driver, which only the free
  functions touch.
\<close>

record 'w resman =
  gpsResList :: ptr
  res_list :: "ptr \<Rightarrow> RESMAN_LIST option"
  res_ctxs :: "RESMAN_CONTEXT lnk_heap"
  res_items :: "RESMAN_ITEM lnk_heap"
  res_lock :: nat
  irq :: bool
  world :: 'w

type_synonym 'w free_fns = "ptr \<Rightarrow> ptr \<Rightarrow> u32 \<Rightarrow> 'w resman \<Rightarrow> (PVRSRV_ERROR \<times> 'w resman) option"

definition RESMAN_TYPE_SHARED_PB_DESC :: u32 where "RESMAN_TYPE_SHARED_PB_DESC = 1"
definition RESMAN_TYPE_SHARED_PB_DESC_CREATE_LOCK :: u32 where "RESMAN_TYPE_SHARED_PB_DESC_CREATE_LOCK = 2"
definition RESMAN_TYPE_HW_RENDER_CONTEXT :: u32 where "RESMAN_TYPE_HW_RENDER_CONTEXT = 3"
definition RESMAN_TYPE_HW_TRANSFER_CONTEXT :: u32 where "RESMAN_TYPE_HW_TRANSFER_CONTEXT = 4"
definition RESMAN_TYPE_HW_2D_CONTEXT :: u32 where "RESMAN_TYPE_HW_2D_CONTEXT = 5"
definition RESMAN_TYPE_TRANSFER_CONTEXT :: u32 where "RESMAN_TYPE_TRANSFER_CONTEXT = 6"
definition RESMAN_TYPE_DISPLAYCLASS_SWAPCHAIN :: u32 where "RESMAN_TYPE_DISPLAYCLASS_SWAPCHAIN = 7"
definition RESMAN_TYPE_DISPLAYCLASS_DEVICE :: u32 where "RESMAN_TYPE_DISPLAYCLASS_DEVICE = 8"
definition RESMAN_TYPE_BUFFERCLASS_DEVICE :: u32 where "RESMAN_TYPE_BUFFERCLASS_DEVICE = 9"
definition RESMAN_TYPE_OS_USERMODE_MAPPING :: u32 where "RESMAN_TYPE_OS_USERMODE_MAPPING = 10"
definition RESMAN_TYPE_DEVICEMEM_CONTEXT :: u32 where "RESMAN_TYPE_DEVICEMEM_CONTEXT = 11"
definition RESMAN_TYPE_DEVICECLASSMEM_MAPPING :: u32 where "RESMAN_TYPE_DEVICECLASSMEM_MAPPING = 12"
definition RESMAN_TYPE_DEVICEMEM_MAPPING :: u32 where "RESMAN_TYPE_DEVICEMEM_MAPPING = 13"
definition RESMAN_TYPE_DEVICEMEM_WRAP :: u32 where "RESMAN_TYPE_DEVICEMEM_WRAP = 14"
definition RESMAN_TYPE_DEVICEMEM_ALLOCATION :: u32 where "RESMAN_TYPE_DEVICEMEM_ALLOCATION = 15"
definition RESMAN_TYPE_EVENT_OBJECT :: u32 where "RESMAN_TYPE_EVENT_OBJECT = 16"
definition RESMAN_TYPE_SHARED_MEM_INFO :: u32 where "RESMAN_TYPE_SHARED_MEM_INFO = 17"
definition RESMAN_TYPE_KERNEL_DEVICEMEM_ALLOCATION :: u32 where "RESMAN_TYPE_KERNEL_DEVICEMEM_ALLOCATION = 18"

lemmas RESMAN_TYPE_defs =
  RESMAN_TYPE_SHARED_PB_DESC_def RESMAN_TYPE_SHARED_PB_DESC_CREATE_LOCK_def
  RESMAN_TYPE_HW_RENDER_CONTEXT_def RESMAN_TYPE_HW_TRANSFER_CONTEXT_def
  RESMAN_TYPE_HW_2D_CONTEXT_def RESMAN_TYPE_TRANSFER_CONTEXT_def
  RESMAN_TYPE_DISPLAYCLASS_SWAPCHAIN_def RESMAN_TYPE_DISPLAYCLASS_DEVICE_def
  RESMAN_TYPE_BUFFERCLASS_DEVICE_def RESMAN_TYPE_OS_USERMODE_MAPPING_def
  RESMAN_TYPE_DEVICEMEM_CONTEXT_def RESMAN_TYPE_DEVICECLASSMEM_MAPPING_def
  RESMAN_TYPE_DEVICEMEM_MAPPING_def RESMAN_TYPE_DEVICEMEM_WRAP_def
  RESMAN_TYPE_DEVICEMEM_ALLOCATION_def RESMAN_TYPE_EVENT_OBJECT_def
  RESMAN_TYPE_SHARED_MEM_INFO_def RESMAN_TYPE_KERNEL_DEVICEMEM_ALLOCATION_def

definition RESMAN_CRITERIA_RESTYPE :: u32 where "RESMAN_CRITERIA_RESTYPE = 1"
definition RESMAN_CRITERIA_PVOID_PARAM :: u32 where "RESMAN_CRITERIA_PVOID_PARAM = 2"
definition RESMAN_CRITERIA_UI32_PARAM :: u32 where "RESMAN_CRITERIA_UI32_PARAM = 4"

lemmas RESMAN_CRITERIA_defs =
  RESMAN_CRITERIA_RESTYPE_def RESMAN_CRITERIA_PVOID_PARAM_def RESMAN_CRITERIA_UI32_PARAM_def

subsection \<open>The lock\<close>

definition ACQUIRE_SYNC_OBJ :: "'w resman \<Rightarrow> 'w resman option" where
  "ACQUIRE_SYNC_OBJ s =
     (if irq s \<or> res_lock s = 0 then None else Some (s\<lparr>res_lock := res_lock s - 1\<rparr>))"

definition RELEASE_SYNC_OBJ :: "'w resman \<Rightarrow> 'w resman" where
  "RELEASE_SYNC_OBJ s = s\<lparr>res_lock := res_lock s + 1\<rparr>"

subsection \<open>Pointer accesses\<close>

definition the_list :: "'w resman \<Rightarrow> RESMAN_LIST option" where
  "the_list s = res_list s (gpsResList s)"

definition put_list_head :: "ptr \<Rightarrow> ptr \<Rightarrow> 'w resman \<Rightarrow> 'w resman option" where
  "put_list_head l v s = do { x \<leftarrow> res_list s l;
     Some (s\<lparr>res_list := (res_list s)(l \<mapsto> x\<lparr>psContextList := v\<rparr>)\<rparr>) }"

definition put_item_head :: "ptr \<Rightarrow> ptr \<Rightarrow> 'w resman \<Rightarrow> 'w resman option" where
  "put_item_head c v s = do { x \<leftarrow> res_ctxs s c;
     Some (s\<lparr>res_ctxs := (res_ctxs s)(c \<mapsto> x\<lparr>body := (body x)\<lparr>psResItemList := v\<rparr>\<rparr>)\<rparr>) }"

definition item_set_this :: "ptr \<Rightarrow> slot \<Rightarrow> 'w resman \<Rightarrow> 'w resman option" where
  "item_set_this q sl s = do { m \<leftarrow> set_this (res_items s) q sl; Some (s\<lparr>res_items := m\<rparr>) }"

definition item_set_next :: "ptr \<Rightarrow> ptr \<Rightarrow> 'w resman \<Rightarrow> 'w resman option" where
  "item_set_next q v s = do { m \<leftarrow> set_next (res_items s) q v; Some (s\<lparr>res_items := m\<rparr>) }"

definition ctx_set_this :: "ptr \<Rightarrow> slot \<Rightarrow> 'w resman \<Rightarrow> 'w resman option" where
  "ctx_set_this q sl s = do { m \<leftarrow> set_this (res_ctxs s) q sl; Some (s\<lparr>res_ctxs := m\<rparr>) }"

definition ctx_set_next :: "ptr \<Rightarrow> ptr \<Rightarrow> 'w resman \<Rightarrow> 'w resman option" where
  "ctx_set_next q v s = do { m \<leftarrow> set_next (res_ctxs s) q v; Some (s\<lparr>res_ctxs := m\<rparr>) }"

text \<open>The write \<^verbatim>\<open>*ppsThis = v\<close>, for an item and for a context.\<close>

definition item_put_slot :: "slot \<Rightarrow> ptr \<Rightarrow> 'w resman \<Rightarrow> 'w resman option" where
  "item_put_slot sl v s =
     (case sl of Head c \<Rightarrow> put_item_head c v s | NextOf q \<Rightarrow> item_set_next q v s)"

definition ctx_put_slot :: "slot \<Rightarrow> ptr \<Rightarrow> 'w resman \<Rightarrow> 'w resman option" where
  "ctx_put_slot sl v s =
     (case sl of Head l \<Rightarrow> put_list_head l v s | NextOf q \<Rightarrow> ctx_set_next q v s)"

definition item_free :: "ptr \<Rightarrow> 'w resman \<Rightarrow> 'w resman option" where
  "item_free a s = do { _ \<leftarrow> res_items s a; Some (s\<lparr>res_items := (res_items s)(a := None)\<rparr>) }"

definition ctx_free :: "ptr \<Rightarrow> 'w resman \<Rightarrow> 'w resman option" where
  "ctx_free c s = do { _ \<leftarrow> res_ctxs s c; Some (s\<lparr>res_ctxs := (res_ctxs s)(c := None)\<rparr>) }"

subsection \<open>Start and stop\<close>

definition ResManInit :: "kmem \<Rightarrow> 'w resman \<Rightarrow> PVRSRV_ERROR \<times> 'w resman \<times> kmem" where
  "ResManInit km s =
     (if gpsResList s = NULL then
        (case OSAllocMem km of (e, p, km') \<Rightarrow>
           if e \<noteq> PVRSRV_OK then (PVRSRV_ERROR_OUT_OF_MEMORY, s, km')
           else (PVRSRV_OK,
                 s\<lparr>gpsResList := p, res_list := (res_list s)(p \<mapsto> \<lparr>psContextList = NULL\<rparr>)\<rparr>, km'))
      else (PVRSRV_OK, s, km))"

definition ResManDeInit :: "'w resman \<Rightarrow> 'w resman option" where
  "ResManDeInit s =
     (if gpsResList s \<noteq> NULL then
        do { _ \<leftarrow> the_list s; Some (s\<lparr>res_list := (res_list s)(gpsResList s := None)\<rparr>) }
      else Some s)"

definition PVRSRVResManConnect ::
  "ptr \<Rightarrow> kmem \<Rightarrow> 'w resman \<Rightarrow> (PVRSRV_ERROR \<times> ptr option \<times> 'w resman \<times> kmem) option" where
  "PVRSRVResManConnect hPerProc km s = do {
     s \<leftarrow> ACQUIRE_SYNC_OBJ s;
     (case OSAllocMem km of (e, p, km) \<Rightarrow>
        if e \<noteq> PVRSRV_OK then Some (e, None, RELEASE_SYNC_OBJ s, km)
        else do {
          l \<leftarrow> the_list s;
          let s = s\<lparr>res_ctxs := (res_ctxs s)(p \<mapsto>
                  \<lparr>ppsThis = Head (gpsResList s), psNext = psContextList l,
                   body = \<lparr>psPerProc = hPerProc, psResItemList = NULL\<rparr>\<rparr>)\<rparr>;
          s \<leftarrow> put_list_head (gpsResList s) p s;
          s \<leftarrow> (if psContextList l \<noteq> NULL then ctx_set_this (psContextList l) (NextOf p) s
                else Some s);
          Some (PVRSRV_OK, Some p, RELEASE_SYNC_OBJ s, km) }) }"

subsection \<open>Registering and finding resources\<close>

definition ResManRegisterRes ::
  "ptr \<Rightarrow> u32 \<Rightarrow> ptr \<Rightarrow> u32 \<Rightarrow> ptr \<Rightarrow> kmem \<Rightarrow> 'w resman \<Rightarrow> (ptr \<times> 'w resman \<times> kmem) option" where
  "ResManRegisterRes psResManContext resType pv up pfn km s =
     (if psResManContext = NULL then Some (NULL, s, km)
      else do {
        s \<leftarrow> ACQUIRE_SYNC_OBJ s;
        (case OSAllocMem km of (e, p, km) \<Rightarrow>
           if e \<noteq> PVRSRV_OK then Some (NULL, RELEASE_SYNC_OBJ s, km)
           else do {
             c \<leftarrow> res_ctxs s psResManContext;
             let s = s\<lparr>res_items := (res_items s)(p \<mapsto>
                     \<lparr>ppsThis = Head psResManContext, psNext = psResItemList (body c),
                      body = \<lparr>ui32Flags = 0, ui32ResType = resType, pvParam = pv,
                              ui32Param = up, pfnFreeResource = pfn\<rparr>\<rparr>)\<rparr>;
             s \<leftarrow> put_item_head psResManContext p s;
             s \<leftarrow> (if psResItemList (body c) \<noteq> NULL
                   then item_set_this (psResItemList (body c)) (NextOf p) s else Some s);
             Some (p, RELEASE_SYNC_OBJ s, km) }) })"

partial_function (option) find_item :: "'w resman \<Rightarrow> ptr \<Rightarrow> ptr \<Rightarrow> PVRSRV_ERROR option" where
  [code]: "find_item s psCurItem psItem =
     (if psCurItem = NULL then Some PVRSRV_ERROR_NOT_OWNER
      else if psCurItem \<noteq> psItem then do { n \<leftarrow> res_items s psCurItem; find_item s (psNext n) psItem }
      else Some PVRSRV_OK)"

definition ResManFindResourceByPtr ::
  "ptr \<Rightarrow> ptr \<Rightarrow> 'w resman \<Rightarrow> (PVRSRV_ERROR \<times> 'w resman) option" where
  "ResManFindResourceByPtr psResManContext psItem s =
     (if psItem = NULL \<or> psResManContext = NULL then Some (PVRSRV_ERROR_INVALID_PARAMS, s)
      else do {
        s \<leftarrow> ACQUIRE_SYNC_OBJ s;
        c \<leftarrow> res_ctxs s psResManContext;
        e \<leftarrow> find_item s (psResItemList (body c)) psItem;
        Some (e, RELEASE_SYNC_OBJ s) })"

definition crit_match :: "u32 \<Rightarrow> u32 \<Rightarrow> ptr \<Rightarrow> u32 \<Rightarrow> RESMAN_ITEM \<Rightarrow> bool" where
  "crit_match crit res_type ppar upar item =
     (if crit AND RESMAN_CRITERIA_RESTYPE \<noteq> 0 \<and> ui32ResType item \<noteq> res_type then False
      else if crit AND RESMAN_CRITERIA_PVOID_PARAM \<noteq> 0 \<and> pvParam item \<noteq> ppar then False
      else if crit AND RESMAN_CRITERIA_UI32_PARAM \<noteq> 0 \<and> ui32Param item \<noteq> upar then False
      else True)"

partial_function (option) crit_loop ::
  "'w resman \<Rightarrow> ptr \<Rightarrow> (RESMAN_ITEM \<Rightarrow> bool) \<Rightarrow> ptr option" where
  [code]: "crit_loop s item ok =
     (if item = NULL then Some NULL
      else do { n \<leftarrow> res_items s item;
                if ok (body n) then Some item else crit_loop s (psNext n) ok })"

definition find_res_by_crit :: "ptr \<Rightarrow> u32 \<Rightarrow> u32 \<Rightarrow> ptr \<Rightarrow> u32 \<Rightarrow> 'w resman \<Rightarrow> ptr option" where
  "find_res_by_crit res_ctx crit res_type ppar upar s =
     do { c \<leftarrow> res_ctxs s res_ctx;
          crit_loop s (psResItemList (body c)) (crit_match crit res_type ppar upar) }"

partial_function (option) ctx_loop :: "'w resman \<Rightarrow> ptr \<Rightarrow> ptr \<Rightarrow> ptr option" where
  [code]: "ctx_loop s ctx resource =
     (if ctx = NULL then Some NULL
      else do { item \<leftarrow> find_res_by_crit ctx RESMAN_CRITERIA_PVOID_PARAM 0 resource 0 s;
                if item \<noteq> NULL then Some ctx
                else do { n \<leftarrow> res_ctxs s ctx; ctx_loop s (psNext n) resource } })"

definition pvr_get_resman_ctx :: "ptr \<Rightarrow> 'w resman \<Rightarrow> ptr option" where
  "pvr_get_resman_ctx resource s =
     do { l \<leftarrow> the_list s; ctx_loop s (psContextList l) resource }"

definition pvr_get_proc_by_ctx :: "ptr \<Rightarrow> 'w resman \<Rightarrow> ptr option" where
  "pvr_get_proc_by_ctx ctx s = do { c \<leftarrow> res_ctxs s ctx; Some (psPerProc (body c)) }"

subsection \<open>Freeing resources\<close>

definition item_unlink :: "ptr \<Rightarrow> 'w resman \<Rightarrow> 'w resman option" where
  "item_unlink psItem s = do {
     n \<leftarrow> res_items s psItem;
     s \<leftarrow> (if psNext n \<noteq> NULL then item_set_this (psNext n) (ppsThis n) s else Some s);
     n \<leftarrow> res_items s psItem;
     item_put_slot (ppsThis n) (psNext n) s }"

definition FreeResourceByPtr :: "'w free_fns \<Rightarrow> ptr \<Rightarrow> bool \<Rightarrow> 'w resman \<Rightarrow> 'w resman option" where
  "FreeResourceByPtr fns psItem bExecuteCallback s = do {
     s \<leftarrow> item_unlink psItem s;
     let s = RELEASE_SYNC_OBJ s;
     s \<leftarrow> (if bExecuteCallback then do {
             n \<leftarrow> res_items s psItem;
             (e, s) \<leftarrow> fns (pfnFreeResource (body n)) (pvParam (body n)) (ui32Param (body n)) s;
             Some s }
           else Some s);
     s \<leftarrow> ACQUIRE_SYNC_OBJ s;
     item_free psItem s }"

definition ResManFreeResByPtr :: "'w free_fns \<Rightarrow> ptr \<Rightarrow> 'w resman \<Rightarrow> 'w resman option" where
  "ResManFreeResByPtr fns psResItem s =
     (if psResItem = NULL then None
      else do {
        s \<leftarrow> ACQUIRE_SYNC_OBJ s;
        s \<leftarrow> FreeResourceByPtr fns psResItem True s;
        Some (RELEASE_SYNC_OBJ s) })"

partial_function (option) free_crit_loop ::
  "'w free_fns \<Rightarrow> ptr \<Rightarrow> u32 \<Rightarrow> u32 \<Rightarrow> ptr \<Rightarrow> u32 \<Rightarrow> bool \<Rightarrow> nat \<Rightarrow> 'w resman \<Rightarrow>
   (nat \<times> 'w resman) option" where
  [code]: "free_crit_loop fns ctx crit resType pv up cb freed s = do {
     item \<leftarrow> find_res_by_crit ctx crit resType pv up s;
     if item \<noteq> NULL then do {
       s' \<leftarrow> FreeResourceByPtr fns item cb s;
       free_crit_loop fns ctx crit resType pv up cb (freed + 1) s' }
     else Some (freed, s) }"

definition FreeResourceByCriteria ::
  "'w free_fns \<Rightarrow> ptr \<Rightarrow> u32 \<Rightarrow> u32 \<Rightarrow> ptr \<Rightarrow> u32 \<Rightarrow> bool \<Rightarrow> 'w resman \<Rightarrow>
   (nat \<times> 'w resman) option" where
  "FreeResourceByCriteria fns ctx crit resType pv up cb s =
     free_crit_loop fns ctx crit resType pv up cb 0 s"

definition ResManFreeResByCriteria ::
  "'w free_fns \<Rightarrow> ptr \<Rightarrow> u32 \<Rightarrow> u32 \<Rightarrow> ptr \<Rightarrow> u32 \<Rightarrow> 'w resman \<Rightarrow> 'w resman option" where
  "ResManFreeResByCriteria fns psResManContext crit resType pv up s = do {
     s \<leftarrow> ACQUIRE_SYNC_OBJ s;
     (n, s) \<leftarrow> FreeResourceByCriteria fns psResManContext crit resType pv up True s;
     Some (RELEASE_SYNC_OBJ s) }"

definition ResManDissociateRes ::
  "'w free_fns \<Rightarrow> ptr \<Rightarrow> ptr \<Rightarrow> 'w resman \<Rightarrow> (PVRSRV_ERROR \<times> 'w resman) option" where
  "ResManDissociateRes fns psResItem psNewResManContext s =
     (if psResItem = NULL then Some (PVRSRV_ERROR_INVALID_PARAMS, s)
      else if psNewResManContext \<noteq> NULL then do {
        s \<leftarrow> item_unlink psResItem s;
        s \<leftarrow> item_set_this psResItem (Head psNewResManContext) s;
        c \<leftarrow> res_ctxs s psNewResManContext;
        s \<leftarrow> item_set_next psResItem (psResItemList (body c)) s;
        s \<leftarrow> put_item_head psNewResManContext psResItem s;
        n \<leftarrow> res_items s psResItem;
        s \<leftarrow> (if psNext n \<noteq> NULL then item_set_this (psNext n) (NextOf psResItem) s else Some s);
        Some (PVRSRV_OK, s) }
      else do {
        s \<leftarrow> FreeResourceByPtr fns psResItem False s;
        Some (PVRSRV_OK, s) })"

subsection \<open>Disconnecting a process\<close>

definition free_one_res :: "'w free_fns \<Rightarrow> ptr \<Rightarrow> u32 \<Rightarrow> 'w resman \<Rightarrow> (nat \<times> 'w resman) option" where
  "free_one_res fns ctx restype s =
     FreeResourceByCriteria fns ctx RESMAN_CRITERIA_RESTYPE restype NULL 0 True s"

definition disconnect_order :: "u32 list" where
  "disconnect_order =
     [RESMAN_TYPE_OS_USERMODE_MAPPING, RESMAN_TYPE_EVENT_OBJECT,
      RESMAN_TYPE_HW_RENDER_CONTEXT, RESMAN_TYPE_HW_TRANSFER_CONTEXT,
      RESMAN_TYPE_HW_2D_CONTEXT, RESMAN_TYPE_TRANSFER_CONTEXT,
      RESMAN_TYPE_SHARED_PB_DESC_CREATE_LOCK, RESMAN_TYPE_SHARED_PB_DESC,
      RESMAN_TYPE_DISPLAYCLASS_SWAPCHAIN, RESMAN_TYPE_DISPLAYCLASS_DEVICE,
      RESMAN_TYPE_BUFFERCLASS_DEVICE, RESMAN_TYPE_DEVICECLASSMEM_MAPPING,
      RESMAN_TYPE_DEVICEMEM_WRAP, RESMAN_TYPE_DEVICEMEM_MAPPING,
      RESMAN_TYPE_KERNEL_DEVICEMEM_ALLOCATION, RESMAN_TYPE_DEVICEMEM_ALLOCATION,
      RESMAN_TYPE_DEVICEMEM_CONTEXT]"

fun free_types :: "'w free_fns \<Rightarrow> ptr \<Rightarrow> u32 list \<Rightarrow> nat \<Rightarrow> 'w resman \<Rightarrow> (nat \<times> 'w resman) option" where
  "free_types fns ctx [] i s = Some (i, s)"
| "free_types fns ctx (t # ts) i s =
     do { (n, s) \<leftarrow> free_one_res fns ctx t s; free_types fns ctx ts (i + n) s }"

definition PVRSRVResManDisconnect :: "'w free_fns \<Rightarrow> ptr \<Rightarrow> bool \<Rightarrow> 'w resman \<Rightarrow> 'w resman option" where
  "PVRSRVResManDisconnect fns ctx bKernelContext s = do {
     s \<leftarrow> ACQUIRE_SYNC_OBJ s;
     s \<leftarrow> (if \<not> bKernelContext
           then do { (i, s) \<leftarrow> free_types fns ctx disconnect_order 0 s; Some s } else Some s);
     n \<leftarrow> res_ctxs s ctx;
     s \<leftarrow> ctx_put_slot (ppsThis n) (psNext n) s;
     n \<leftarrow> res_ctxs s ctx;
     s \<leftarrow> (if psNext n \<noteq> NULL then ctx_set_this (psNext n) (ppsThis n) s else Some s);
     s \<leftarrow> ctx_free ctx s;
     Some (RELEASE_SYNC_OBJ s) }"

subsection \<open>The list check of debug builds\<close>

partial_function (option) validate_items :: "'w resman \<Rightarrow> ptr \<Rightarrow> slot \<Rightarrow> bool option" where
  [code]: "validate_items s psCurItem ppsThisItem =
     (if psCurItem = NULL then Some True
      else do { n \<leftarrow> res_items s psCurItem;
                if ppsThis n \<noteq> ppsThisItem then Some False
                else validate_items s (psNext n) (NextOf psCurItem) })"

partial_function (option) validate_ctxs :: "'w resman \<Rightarrow> ptr \<Rightarrow> slot \<Rightarrow> bool option" where
  [code]: "validate_ctxs s psCurContext ppsThisContext =
     (if psCurContext = NULL then Some True
      else do { n \<leftarrow> res_ctxs s psCurContext;
                if ppsThis n \<noteq> ppsThisContext then Some False
                else do { ok \<leftarrow> validate_items s (psResItemList (body n)) (Head psCurContext);
                          if \<not> ok then Some False
                          else validate_ctxs s (psNext n) (NextOf psCurContext) } })"

text \<open>The result is whether every assertion on the back pointers holds.\<close>

definition ValidateResList :: "'w resman \<Rightarrow> bool option" where
  "ValidateResList s =
     (if gpsResList s = NULL then Some True
      else do { l \<leftarrow> the_list s; validate_ctxs s (psContextList l) (Head (gpsResList s)) })"

end
