(* ===== verification/Pvr_Resman_Rep.thy ===== *)
theory Pvr_Resman_Rep
  imports Pvr_Resman
begin

text \<open>
  The abstract resource manager, a list of contexts newest first, each with its process and its
  items newest first, and the relation \<open>rm_abs\<close> between the heap of \<open>Pvr_Resman\<close> and that
  list. The lemmas give the effect of the pointer operations as operations on the list: pushing an
  item or a context, unlinking one, and the walks over the lists.
\<close>

subsection \<open>Abstract state\<close>

type_synonym ritem = "ptr \<times> RESMAN_ITEM"
type_synonym rctx = "ptr \<times> ptr \<times> ritem list"

definition ctx_nodes :: "rctx list \<Rightarrow> (ptr \<times> RESMAN_CONTEXT) list" where
  "ctx_nodes = map (\<lambda>(c, pp, its). (c, \<lparr>psPerProc = pp, psResItemList = nxt its NULL\<rparr>))"

definition all_items :: "rctx list \<Rightarrow> ritem list" where
  "all_items A = concat (map (\<lambda>(c, pp, its). its) A)"

definition rm_abs :: "'w resman \<Rightarrow> rctx list \<Rightarrow> bool" where
  "rm_abs s A \<longleftrightarrow>
     gpsResList s \<noteq> NULL \<and>
     the_list s = Some \<lparr>psContextList = nxt (ctx_nodes A) NULL\<rparr> \<and>
     seg (res_ctxs s) (Head (gpsResList s)) (ctx_nodes A) NULL \<and>
     distinct (map fst A) \<and>
     (\<forall>(c, pp, its) \<in> set A. seg (res_items s) (Head c) its NULL) \<and>
     distinct (map fst (all_items A))"

text \<open>Two states that differ in the items and contexts only.\<close>

definition rest :: "'w resman \<Rightarrow> 'w resman \<Rightarrow> bool" where
  "rest s s' \<longleftrightarrow> s' = s\<lparr>res_ctxs := res_ctxs s', res_items := res_items s'\<rparr> \<and>
     dom (res_ctxs s') = dom (res_ctxs s) \<and> dom (res_items s') = dom (res_items s)"

lemma restD:
  assumes "rest s s'"
  shows "gpsResList s' = gpsResList s" "res_list s' = res_list s" "res_lock s' = res_lock s"
    "irq s' = irq s" "world s' = world s"
    "dom (res_ctxs s') = dom (res_ctxs s)" "dom (res_items s') = dom (res_items s)"
  using assms by (cases s; cases s'; simp add: rest_def)+

lemma rest_refl [simp]: "rest s s"
  by (simp add: rest_def)

lemma ctx_nodes_simps [simp]:
  "ctx_nodes [] = []"
  "ctx_nodes ((c, pp, its) # A) = (c, \<lparr>psPerProc = pp, psResItemList = nxt its NULL\<rparr>) # ctx_nodes A"
  "ctx_nodes (A @ B) = ctx_nodes A @ ctx_nodes B"
  by (simp_all add: ctx_nodes_def)

lemma ctx_nodes_fst [simp]: "map fst (ctx_nodes A) = map fst A" "addrs (ctx_nodes A) = addrs A"
proof -
  show "map fst (ctx_nodes A) = map fst A" by (simp add: ctx_nodes_def case_prod_beta)
  from arg_cong [OF this, of set] show "addrs (ctx_nodes A) = addrs A" by simp
qed

lemma ctx_nodes_Nil [simp]: "ctx_nodes A = [] \<longleftrightarrow> A = []"
  by (simp add: ctx_nodes_def)

lemma all_items_simps [simp]:
  "all_items [] = []"
  "all_items ((c, pp, its) # A) = its @ all_items A"
  "all_items (A @ B) = all_items A @ all_items B"
  by (simp_all add: all_items_def)

lemma all_items_mem: "(c, pp, its) \<in> set A \<Longrightarrow> set its \<subseteq> set (all_items A)"
  by (auto simp: all_items_def)

lemma rm_absD:
  assumes "rm_abs s A"
  shows "gpsResList s \<noteq> NULL" "the_list s = Some \<lparr>psContextList = nxt (ctx_nodes A) NULL\<rparr>"
    "seg (res_ctxs s) (Head (gpsResList s)) (ctx_nodes A) NULL" "distinct (map fst A)"
    "\<And>c pp its. (c, pp, its) \<in> set A \<Longrightarrow> seg (res_items s) (Head c) its NULL"
    "distinct (map fst (all_items A))"
  using assms by (auto simp: rm_abs_def)

lemma rm_abs_cong:
  "gpsResList s' = gpsResList s \<Longrightarrow> res_list s' = res_list s \<Longrightarrow> res_ctxs s' = res_ctxs s \<Longrightarrow>
   res_items s' = res_items s \<Longrightarrow> rm_abs s' A = rm_abs s A"
  by (simp add: rm_abs_def the_list_def)

lemma rm_abs_lock [simp]: "rm_abs (s\<lparr>res_lock := n\<rparr>) A = rm_abs s A"
  "rm_abs (s\<lparr>world := w\<rparr>) A = rm_abs s A"
  by (rule rm_abs_cong; simp)+

lemma rm_abs_ctx:
  assumes "rm_abs s A" and "(c, pp, its) \<in> set A"
  shows "c \<noteq> NULL"
    and "\<exists>n. res_ctxs s c = Some n \<and> body n = \<lparr>psPerProc = pp, psResItemList = nxt its NULL\<rparr>"
proof -
  from assms(2) have "(c, \<lparr>psPerProc = pp, psResItemList = nxt its NULL\<rparr>) \<in> set (ctx_nodes A)"
    by (force simp: ctx_nodes_def)
  from seg_node [OF rm_absD(3) [OF assms(1)] this] show "c \<noteq> NULL"
    "\<exists>n. res_ctxs s c = Some n \<and> body n = \<lparr>psPerProc = pp, psResItemList = nxt its NULL\<rparr>"
    by auto
qed

lemma rm_abs_items:
  assumes "rm_abs s A" and "(c, pp, its) \<in> set A"
  shows "seg (res_items s) (Head c) its NULL" and "distinct (map fst its)"
proof -
  show "seg (res_items s) (Head c) its NULL" using rm_absD(5) assms by blast
  from assms(2) obtain As Bs where "A = As @ (c, pp, its) # Bs" by (metis split_list)
  with rm_absD(6) [OF assms(1)] show "distinct (map fst its)" by auto
qed

lemma rm_abs_all_items_dom: "rm_abs s A \<Longrightarrow> addrs (all_items A) \<subseteq> dom (res_items s)"
  by (fastforce simp: all_items_def dest: rm_absD(5) seg_dom)

subsection \<open>Replacing the items of one context\<close>

definition set_head :: "ptr \<Rightarrow> ptr \<Rightarrow> 'w resman \<Rightarrow> RESMAN_CONTEXT lnk_heap" where
  "set_head c v s = (res_ctxs s)(c := map_option (\<lambda>x. x\<lparr>body := (body x)\<lparr>psResItemList := v\<rparr>\<rparr>)
                                        (res_ctxs s c))"

lemma seg_set_body:
  assumes "seg m sl (xs @ (c, b) # ys) e" and "distinct (map fst (xs @ (c, b) # ys))"
    and "\<And>x. body x = b \<Longrightarrow> f x = x\<lparr>body := b'\<rparr>"
  shows "seg (m(c := map_option f (m c))) sl (xs @ (c, b') # ys) e"
  using assms by (auto simp: seg_append)

lemma put_item_head_eq:
  "c \<in> dom (res_ctxs s) \<Longrightarrow> put_item_head c v s = Some (s\<lparr>res_ctxs := set_head c v s\<rparr>)"
  by (auto simp: put_item_head_def set_head_def)

lemma set_head_same:
  assumes "res_ctxs s c = Some n" and "psResItemList (body n) = v"
  shows "set_head c v s = res_ctxs s"
  using assms by (auto simp: set_head_def fun_eq_iff)

lemma dom_set_head [simp]: "dom (set_head c v s) = dom (res_ctxs s)"
  by (auto simp: set_head_def split: if_splits)

lemma rm_abs_replace:
  assumes abs: "rm_abs s (As @ (c, pp, its) # Bs)"
    and seg: "seg m (Head c) its' NULL" and dist: "distinct (map fst its')"
    and disj: "addrs its' \<inter> addrs (all_items (As @ Bs)) = {}"
    and same: "\<And>a. a \<in> addrs (all_items (As @ Bs)) \<Longrightarrow> m a = res_items s a"
  shows "rm_abs (s\<lparr>res_ctxs := set_head c (nxt its' NULL) s, res_items := m\<rparr>)
           (As @ (c, pp, its') # Bs)"
proof -
  note a = rm_absD [OF abs]
  have fr: "seg m (Head c') it NULL" if "(c', pp', it) \<in> set (As @ Bs)" for c' pp' it
  proof -
    have "seg (res_items s) (Head c') it NULL" using a(5) that by auto
    moreover have "addrs it \<subseteq> addrs (all_items (As @ Bs))"
      using all_items_mem [OF that] by auto
    then have "\<And>a. a \<in> addrs it \<Longrightarrow> m a = res_items s a" using same by blast
    ultimately show ?thesis using seg_frame by metis
  qed
  have "seg (set_head c (nxt its' NULL) s) (Head (gpsResList s))
          (ctx_nodes (As @ (c, pp, its') # Bs)) NULL"
    using a(3,4) unfolding set_head_def ctx_nodes_simps by (intro seg_set_body) auto
  moreover have "nxt (ctx_nodes (As @ (c, pp, its') # Bs)) NULL =
      nxt (ctx_nodes (As @ (c, pp, its) # Bs)) NULL"
    by (cases As) (auto split: prod.splits)
  moreover have "distinct (map fst (all_items (As @ (c, pp, its') # Bs)))"
    using a(6) dist disj by (auto simp del: set_concat)
  ultimately show ?thesis
    using a(1,2,4) fr seg by (auto simp: rm_abs_def the_list_def)
qed

subsection \<open>Unlinking an item\<close>

lemma item_put_slot_spec:
  assumes abs: "rm_abs s (As @ (c, pp, its) # Bs)"
    and s': "s' = s\<lparr>res_items := m\<rparr>"
    and xs: "seg m (Head c) xs e" "distinct (map fst xs)" "addrs xs \<subseteq> dom m"
  shows "\<exists>m'. item_put_slot (last_slot (Head c) xs) v s' =
            Some (s\<lparr>res_ctxs := (if xs = [] then set_head c v s else res_ctxs s), res_items := m'\<rparr>) \<and>
          seg m' (Head c) xs v \<and> dom m' = dom m \<and> (\<forall>a. a \<notin> addrs xs \<longrightarrow> m' a = m a)"
proof (cases "xs = []")
  case True
  have "c \<in> dom (res_ctxs s)" using rm_abs_ctx(2) [OF abs, of c pp its] by auto
  with True s' show ?thesis
    using put_item_head_eq [of c s' v]
    by (intro exI [of _ m]) (cases s; auto simp: item_put_slot_def set_head_def)
next
  case False
  then obtain n where n: "set_next m (fst (last xs)) v = Some (m(fst (last xs) \<mapsto> n))"
    "seg (m(fst (last xs) \<mapsto> n)) (Head c) xs v"
    using seg_set_next [OF xs(1) _ xs(2)] by blast
  have "fst (last xs) \<in> dom m" "fst (last xs) \<in> addrs xs" using False xs(3) by (blast intro: last_in_set imageI)+
  with False n s' xs(3) show ?thesis
    by (intro exI [of _ "m(fst (last xs) \<mapsto> n)"])
       (auto simp: item_put_slot_def item_set_next_def last_slot_def)
qed

lemma item_unlink_spec:
  assumes abs: "rm_abs s (As @ (c, pp, xs @ (a, b) # ys) # Bs)"
  shows "\<exists>s' n. item_unlink a s = Some s' \<and> rm_abs s' (As @ (c, pp, xs @ ys) # Bs) \<and>
           rest s s' \<and> res_items s' a = Some n \<and> body n = b"
proof -
  let ?its = "xs @ (a, b) # ys"
  have sg: "seg (res_items s) (Head c) ?its NULL" and di: "distinct (map fst ?its)"
    using rm_abs_items [OF abs, of c pp ?its] by simp_all
  let ?n = "\<lparr>ppsThis = last_slot (Head c) xs, psNext = nxt ys NULL, body = b\<rparr>"
  have a: "res_items s a = Some ?n" and sx: "seg (res_items s) (Head c) xs a"
    and sy: "seg (res_items s) (NextOf a) ys NULL"
    using sg by (auto simp: seg_append)
  have dx: "addrs xs \<subseteq> dom (res_items s)" and dy: "addrs ys \<subseteq> dom (res_items s)"
    using sx sy seg_dom by blast+
  obtain m where m: "(if psNext ?n \<noteq> NULL then item_set_this (psNext ?n) (ppsThis ?n) s else Some s)
      = Some (s\<lparr>res_items := m\<rparr>)"
    "seg m (last_slot (Head c) xs) ys NULL" "dom m = dom (res_items s)"
    "\<And>q. q \<notin> addrs ys \<Longrightarrow> m q = res_items s q"
  proof (cases "ys = []")
    case True
    with that [of "res_items s"] show ?thesis by simp
  next
    case False
    then obtain n where n: "set_this (res_items s) (nxt ys NULL) (last_slot (Head c) xs) =
        Some ((res_items s)(nxt ys NULL \<mapsto> n))"
      "seg ((res_items s)(nxt ys NULL \<mapsto> n)) (last_slot (Head c) xs) ys NULL"
      using seg_set_this [OF sy False, of "last_slot (Head c) xs"] di by auto
    have "nxt ys NULL \<in> addrs ys" using False by (cases ys) auto
    with n False seg_nxt_null [OF sy] dy
    show ?thesis by (intro that [of "(res_items s)(nxt ys NULL \<mapsto> n)"]) (auto simp: item_set_this_def)
  qed
  have sxm: "seg m (Head c) xs a"
    using sx by (subst seg_frame [where m = "res_items s"]) (use m(4) di in \<open>auto 0 3 intro!: m(4)\<close>)
  have am: "m a = Some ?n" using a m(4) di by auto
  obtain m' where m': "item_put_slot (last_slot (Head c) xs) (nxt ys NULL) (s\<lparr>res_items := m\<rparr>) =
      Some (s\<lparr>res_ctxs := (if xs = [] then set_head c (nxt ys NULL) s else res_ctxs s), res_items := m'\<rparr>)"
    "seg m' (Head c) xs (nxt ys NULL)" "dom m' = dom m" "\<forall>q. q \<notin> addrs xs \<longrightarrow> m' q = m q"
    using item_put_slot_spec [OF abs refl sxm, of "nxt ys NULL"] di dx m(3) by auto
  let ?s = "s\<lparr>res_ctxs := set_head c (nxt (xs @ ys) NULL) s, res_items := m'\<rparr>"
  have hd: "(if xs = [] then set_head c (nxt ys NULL) s else res_ctxs s) =
      set_head c (nxt (xs @ ys) NULL) s"
  proof (cases xs)
    case (Cons x xs')
    obtain n where "res_ctxs s c = Some n"
      "body n = \<lparr>psPerProc = pp, psResItemList = nxt ?its NULL\<rparr>"
      using rm_abs_ctx(2) [OF abs] by force
    then have "set_head c (fst x) s = res_ctxs s"
      by (intro set_head_same) (auto simp: Cons)
    then show ?thesis by (simp add: Cons)
  qed simp
  have "\<And>q. q \<in> addrs ys \<Longrightarrow> m' q = m q"
  proof -
    fix q assume "q \<in> addrs ys"
    moreover have "addrs xs \<inter> addrs ys = {}" using di by auto
    ultimately show "m' q = m q" using m'(4) by blast
  qed
  then have "seg m' (last_slot (Head c) xs) ys NULL"
    using m(2) seg_frame by metis
  with m'(2) have sg': "seg m' (Head c) (xs @ ys) NULL" by (simp add: seg_append)
  have dj: "addrs ?its \<inter> addrs (all_items (As @ Bs)) = {}"
    using rm_absD(6) [OF abs] by auto
  have "rm_abs ?s (As @ (c, pp, xs @ ys) # Bs)"
  proof (rule rm_abs_replace [OF abs sg'])
    fix q assume "q \<in> addrs (all_items (As @ Bs))"
    with dj have "q \<notin> addrs ?its" by blast
    then have "q \<notin> addrs xs" "q \<notin> addrs ys" by auto
    then show "m' q = res_items s q" using m(4) m'(4) by auto
  qed (use di dj in auto)
  moreover have "item_unlink a s = Some ?s"
    using m(1) m'(1) hd am a by (simp add: item_unlink_def split: if_splits)
  moreover have "rest s ?s" using m(3) m'(3) by (simp add: rest_def)
  moreover have "m' a = Some ?n" using am m'(4) di by auto
  ultimately show ?thesis by auto
qed

subsection \<open>Pushing an item\<close>

text \<open>The writes \<open>ResManRegisterRes\<close> and \<open>ResManDissociateRes\<close> make to put a node at the front.\<close>

lemma item_push_spec:
  assumes abs: "rm_abs s (As @ (c, pp, its) # Bs)"
    and a: "a \<noteq> NULL" "a \<notin> addrs (all_items (As @ (c, pp, its) # Bs))"
    and m: "m = (res_items s)(a \<mapsto> \<lparr>ppsThis = Head c, psNext = nxt its NULL, body = b\<rparr>)"
  shows "\<exists>m'. (if nxt its NULL \<noteq> NULL
                then item_set_this (nxt its NULL) (NextOf a) (s\<lparr>res_items := m, res_ctxs := set_head c a s\<rparr>)
                else Some (s\<lparr>res_items := m, res_ctxs := set_head c a s\<rparr>)) =
             Some (s\<lparr>res_ctxs := set_head c a s, res_items := m'\<rparr>) \<and>
           rm_abs (s\<lparr>res_ctxs := set_head c a s, res_items := m'\<rparr>) (As @ (c, pp, (a, b) # its) # Bs) \<and>
           dom m' = insert a (dom (res_items s))"
proof -
  have sg: "seg (res_items s) (Head c) its NULL" and di: "distinct (map fst its)"
    using rm_abs_items [OF abs, of c pp its] by simp_all
  have sm: "seg m (Head c) its NULL" using sg a m by (subst m, subst seg_upd) auto
  have dj: "addrs its \<inter> addrs (all_items (As @ Bs)) = {}"
    using rm_absD(6) [OF abs] by auto
  obtain m' where m': "(if nxt its NULL \<noteq> NULL
        then item_set_this (nxt its NULL) (NextOf a) (s\<lparr>res_items := m, res_ctxs := set_head c a s\<rparr>)
        else Some (s\<lparr>res_items := m, res_ctxs := set_head c a s\<rparr>)) =
      Some (s\<lparr>res_ctxs := set_head c a s, res_items := m'\<rparr>)"
    "seg m' (NextOf a) its NULL" "dom m' = dom m" "\<And>q. q \<notin> addrs its \<Longrightarrow> m' q = m q"
  proof (cases "its = []")
    case True
    with that [of m] show ?thesis by simp
  next
    case False
    then obtain n where n: "set_this m (nxt its NULL) (NextOf a) = Some (m(nxt its NULL \<mapsto> n))"
      "seg (m(nxt its NULL \<mapsto> n)) (NextOf a) its NULL"
      using seg_set_this [OF sm False, of "NextOf a"] di by auto
    have "nxt its NULL \<in> addrs its" using False by (cases its) auto
    moreover then have "nxt its NULL \<in> dom m" using seg_dom [OF sm] by blast
    ultimately show ?thesis
      using n False seg_nxt_null [OF sm]
      by (intro that [of "m(nxt its NULL \<mapsto> n)"]) (auto simp: item_set_this_def)
  qed
  have "seg m' (Head c) ((a, b) # its) NULL"
    using m'(2) m'(4) [of a] a m by auto
  then have "rm_abs (s\<lparr>res_ctxs := set_head c (nxt ((a, b) # its) NULL) s, res_items := m'\<rparr>)
      (As @ (c, pp, (a, b) # its) # Bs)"
  proof (rule rm_abs_replace [OF abs])
    fix q assume q: "q \<in> addrs (all_items (As @ Bs))"
    with dj have "q \<notin> addrs its" by blast
    moreover from q a(2) have "q \<noteq> a" by auto
    ultimately show "m' q = res_items s q" using m'(4) m by simp
  qed (use di dj a in auto)
  with m'(1,3) m show ?thesis by (intro exI [of _ m']) simp
qed

subsection \<open>The walks\<close>

lemma find_item_seg:
  "seg (res_items s) sl its NULL \<Longrightarrow>
   find_item s (nxt its NULL) a =
     Some (if a \<in> addrs its then PVRSRV_OK else PVRSRV_ERROR_NOT_OWNER)"
proof (induction its arbitrary: sl)
  case Nil
  then show ?case by (simp add: find_item.simps)
next
  case (Cons x its)
  obtain p b where x: "x = (p, b)" by (cases x)
  with Cons.prems Cons.IH [of "NextOf p"]
  have "find_item s (nxt its NULL) a =
      Some (if a \<in> addrs its then PVRSRV_OK else PVRSRV_ERROR_NOT_OWNER)"
    "p \<noteq> NULL" "res_items s p = Some \<lparr>ppsThis = sl, psNext = nxt its NULL, body = b\<rparr>"
    by simp_all
  then show ?case
    unfolding x by (subst find_item.simps) simp
qed

lemma crit_loop_seg:
  "seg (res_items s) sl its NULL \<Longrightarrow>
   crit_loop s (nxt its NULL) ok = Some (nxt (filter (ok \<circ> snd) its) NULL)"
proof (induction its arbitrary: sl)
  case Nil
  then show ?case by (simp add: crit_loop.simps)
next
  case (Cons x its)
  then show ?case by (cases x) (subst crit_loop.simps, auto simp: comp_def)
qed

lemma find_res_by_crit_spec:
  assumes "rm_abs s A" and "(c, pp, its) \<in> set A"
  shows "find_res_by_crit c crit ty pv up s =
           Some (nxt (filter (crit_match crit ty pv up \<circ> snd) its) NULL)"
  using rm_abs_ctx(2) [OF assms] crit_loop_seg [OF rm_abs_items(1) [OF assms]]
  by (auto simp: find_res_by_crit_def)

lemma ctx_loop_seg:
  assumes "rm_abs s A"
  shows "set B \<subseteq> set A \<Longrightarrow> seg (res_ctxs s) sl (ctx_nodes B) NULL \<Longrightarrow>
    ctx_loop s (nxt (ctx_nodes B) NULL) r =
      Some (nxt (filter (\<lambda>(c, pp, its). \<exists>(a, b) \<in> set its. pvParam b = r) B) NULL)"
proof (induction B arbitrary: sl)
  case Nil
  then show ?case by (simp add: ctx_loop.simps)
next
  case (Cons x B)
  obtain c pp its where x: "x = (c, pp, its)" by (cases x)
  let ?f = "filter (crit_match RESMAN_CRITERIA_PVOID_PARAM 0 r 0 \<circ> snd) its"
  have mem: "(c, pp, its) \<in> set A" using Cons.prems(1) x by simp
  have nn: "NULL \<notin> addrs its" using seg_nonnull [OF rm_abs_items(1) [OF assms mem]] .
  have fl: "?f \<noteq> [] \<longleftrightarrow> (\<exists>(a, b) \<in> set its. pvParam b = r)"
    by (force simp: filter_empty_conv crit_match_def RESMAN_CRITERIA_defs)
  have hd: "nxt ?f NULL \<noteq> NULL \<longleftrightarrow> ?f \<noteq> []"
  proof (cases ?f)
    case (Cons y ys)
    then have "y \<in> set its" by (metis filter_is_subset list.set_intros(1) subsetD)
    with Cons nn show ?thesis by auto
  qed simp
  have ih: "ctx_loop s (nxt (ctx_nodes B) NULL) r =
      Some (nxt (filter (\<lambda>(c, pp, its). \<exists>(a, b) \<in> set its. pvParam b = r) B) NULL)"
    using Cons.IH Cons.prems x by auto
  show ?case
    unfolding x using Cons.prems(2) x find_res_by_crit_spec [OF assms mem] hd fl ih
    by (subst ctx_loop.simps) auto
qed

lemma validate_items_seg:
  "seg (res_items s) sl its NULL \<Longrightarrow> validate_items s (nxt its NULL) sl = Some True"
proof (induction its arbitrary: sl)
  case Nil
  then show ?case by (simp add: validate_items.simps)
next
  case (Cons x its)
  then show ?case by (cases x) (subst validate_items.simps, auto)
qed

lemma validate_ctxs_seg:
  assumes "rm_abs s A"
  shows "set B \<subseteq> set A \<Longrightarrow> seg (res_ctxs s) sl (ctx_nodes B) NULL \<Longrightarrow>
    validate_ctxs s (nxt (ctx_nodes B) NULL) sl = Some True"
proof (induction B arbitrary: sl)
  case Nil
  then show ?case by (simp add: validate_ctxs.simps)
next
  case (Cons x B)
  obtain c pp its where x: "x = (c, pp, its)" by (cases x)
  with Cons.prems(1) have "seg (res_items s) (Head c) its NULL"
    using rm_abs_items(1) [OF assms] by auto
  with Cons x show ?case
    by (subst validate_ctxs.simps) (auto simp: validate_items_seg)
qed

lemma ValidateResList_abs: "rm_abs s A \<Longrightarrow> ValidateResList s = Some True"
  using rm_absD(2,3) [of s A] validate_ctxs_seg [of s A A] by (simp add: ValidateResList_def)

end
