(* ===== verification/Pvr_Resman_Thms.thy ===== *)
theory Pvr_Resman_Thms
  imports Pvr_Resman_Rep
begin

text \<open>
  What the operations of the resource manager do to the abstract list of contexts, and to the rest
  of the driver through the free functions. The free functions are called with the contract
  \<open>quiet_fns fns g\<close>: they change the driver's other state as \<open>g\<close> says and leave the resource
  manager alone.
\<close>

subsection \<open>Abstract operations\<close>

definition upd_items :: "ptr \<Rightarrow> (ritem list \<Rightarrow> ritem list) \<Rightarrow> rctx list \<Rightarrow> rctx list" where
  "upd_items c f = map (\<lambda>(c', pp, its). (c', pp, if c' = c then f its else its))"

definition drop_item :: "ptr \<Rightarrow> rctx list \<Rightarrow> rctx list" where
  "drop_item a = map (\<lambda>(c, pp, its). (c, pp, filter (\<lambda>x. fst x \<noteq> a) its))"

definition drop_ctx :: "ptr \<Rightarrow> rctx list \<Rightarrow> rctx list" where
  "drop_ctx c = filter (\<lambda>x. fst x \<noteq> c)"

definition quiet_fns :: "'w free_fns \<Rightarrow> (ptr \<Rightarrow> ptr \<Rightarrow> u32 \<Rightarrow> 'w \<Rightarrow> 'w) \<Rightarrow> bool" where
  "quiet_fns fns g \<longleftrightarrow> (\<forall>f pv up s. \<exists>e. fns f pv up s = Some (e, s\<lparr>world := g f pv up (world s)\<rparr>))"

definition run_frees :: "(ptr \<Rightarrow> ptr \<Rightarrow> u32 \<Rightarrow> 'w \<Rightarrow> 'w) \<Rightarrow> ritem list \<Rightarrow> 'w \<Rightarrow> 'w" where
  "run_frees g its w = fold (\<lambda>(a, b). g (pfnFreeResource b) (pvParam b) (ui32Param b)) its w"

text \<open>Two states with the same lock, interrupt flag and list head object.\<close>

definition kept_env :: "'w resman \<Rightarrow> 'w resman \<Rightarrow> bool" where
  "kept_env s s' \<longleftrightarrow> gpsResList s' = gpsResList s \<and> res_list s' = res_list s \<and>
     res_lock s' = res_lock s \<and> irq s' = irq s \<and> dom (res_ctxs s') = dom (res_ctxs s)"

lemma kept_env_refl [simp]: "kept_env s s"
  by (simp add: kept_env_def)

lemma kept_env_trans: "kept_env s t \<Longrightarrow> kept_env t u \<Longrightarrow> kept_env s u"
  by (simp add: kept_env_def)

lemma run_frees_simps [simp]:
  "run_frees g [] w = w"
  "run_frees g ((a, b) # its) w =
     run_frees g its (g (pfnFreeResource b) (pvParam b) (ui32Param b) w)"
  "run_frees g (xs @ ys) w = run_frees g ys (run_frees g xs w)"
  by (simp_all add: run_frees_def)

lemma upd_items_fst [simp]: "map fst (upd_items c f A) = map fst A"
  by (induction A) (auto simp: upd_items_def)

lemma drop_item_fst [simp]: "map fst (drop_item a A) = map fst A"
  by (induction A) (auto simp: drop_item_def)

lemma upd_items_other: "c \<notin> addrs A \<Longrightarrow> upd_items c f A = A"
  by (induction A) (auto simp: upd_items_def)

lemma upd_items_split:
  assumes "distinct (map fst (As @ (c, pp, its) # Bs))"
  shows "upd_items c f (As @ (c, pp, its) # Bs) = As @ (c, pp, f its) # Bs"
proof -
  have "upd_items c f As = As" "upd_items c f Bs = Bs"
    using assms by (auto intro!: upd_items_other)
  then show ?thesis by (simp add: upd_items_def)
qed

lemma drop_item_other: "a \<notin> addrs (all_items A) \<Longrightarrow> drop_item a A = A"
proof (induction A)
  case (Cons x A)
  obtain c pp its where x: "x = (c, pp, its)" by (cases x)
  have "a \<notin> addrs its" "a \<notin> addrs (all_items A)" using Cons.prems x by auto
  then have "filter (\<lambda>x. fst x \<noteq> a) its = its" "drop_item a A = A"
    using Cons.IH by (auto simp: filter_id_conv)
  then show ?case by (simp add: x drop_item_def)
qed (simp add: drop_item_def)

lemma drop_item_split:
  assumes "distinct (map fst (all_items (As @ (c, pp, xs @ (a, b) # ys) # Bs)))"
  shows "drop_item a (As @ (c, pp, xs @ (a, b) # ys) # Bs) = As @ (c, pp, xs @ ys) # Bs"
proof -
  have n: "a \<notin> addrs (all_items As)" "a \<notin> addrs (all_items Bs)" "a \<notin> addrs xs" "a \<notin> addrs ys"
    using assms by auto
  then have "filter (\<lambda>x. fst x \<noteq> a) xs = xs" "filter (\<lambda>x. fst x \<noteq> a) ys = ys"
    by (auto simp: filter_id_conv)
  with drop_item_other [OF n(1)] drop_item_other [OF n(2)] show ?thesis
    by (simp add: drop_item_def)
qed

lemma drop_ctx_split:
  assumes "distinct (map fst (As @ (c, x) # Bs))"
  shows "drop_ctx c (As @ (c, x) # Bs) = As @ Bs"
proof -
  have "\<forall>x\<in>set As. fst x \<noteq> c" "\<forall>x\<in>set Bs. fst x \<noteq> c" using assms by force+
  then show ?thesis by (simp add: drop_ctx_def)
qed

lemma all_items_split:
  assumes "(a, b) \<in> set (all_items A)"
  obtains As c pp xs ys Bs where "A = As @ (c, pp, xs @ (a, b) # ys) # Bs"
proof -
  from assms obtain c pp its where "(c, pp, its) \<in> set A" "(a, b) \<in> set its"
    by (auto simp: all_items_def)
  with that show thesis by (metis split_list)
qed

subsection \<open>Freeing one item\<close>

lemma item_unlink_abs:
  assumes "rm_abs s A" and "(a, b) \<in> set (all_items A)"
  shows "\<exists>s' n. item_unlink a s = Some s' \<and> rm_abs s' (drop_item a A) \<and>
           rest s s' \<and> res_items s' a = Some n \<and> body n = b"
proof -
  from assms(2) obtain As c pp xs ys Bs where A: "A = As @ (c, pp, xs @ (a, b) # ys) # Bs"
    by (rule all_items_split)
  show ?thesis
    using item_unlink_spec [of s As c pp xs a b ys Bs] assms(1) drop_item_split rm_absD(6) [OF assms(1)]
    by (metis A)
qed

lemma drop_item_notin: "a \<notin> addrs (all_items (drop_item a A))"
  by (auto simp: all_items_def drop_item_def)

lemma item_free_abs:
  assumes "rm_abs s A" and "a \<notin> addrs (all_items A)" and "res_items s a = Some n"
  shows "item_free a s = Some (s\<lparr>res_items := (res_items s)(a := None)\<rparr>)"
    and "rm_abs (s\<lparr>res_items := (res_items s)(a := None)\<rparr>) A"
proof -
  show "item_free a s = Some (s\<lparr>res_items := (res_items s)(a := None)\<rparr>)"
    using assms(3) by (simp add: item_free_def)
  have "a \<notin> addrs its" if "(c, pp, its) \<in> set A" for c pp its
    using assms(2) all_items_mem [OF that] by auto
  then show "rm_abs (s\<lparr>res_items := (res_items s)(a := None)\<rparr>) A"
    using assms(1) by (fastforce simp: rm_abs_def the_list_def)
qed

lemma FreeResourceByPtr_spec:
  assumes abs: "rm_abs s A" and a: "(a, b) \<in> set (all_items A)"
    and q: "quiet_fns fns g" and irq: "\<not> irq s"
  shows "\<exists>s'. FreeResourceByPtr fns a cb s = Some s' \<and> rm_abs s' (drop_item a A) \<and>
           kept_env s s' \<and> dom (res_items s') = dom (res_items s) - {a} \<and>
           world s' = (if cb then g (pfnFreeResource b) (pvParam b) (ui32Param b) (world s) else world s)"
proof -
  obtain s1 n where s1: "item_unlink a s = Some s1" "rm_abs s1 (drop_item a A)" "rest s s1"
    "res_items s1 a = Some n" "body n = b"
    using item_unlink_abs [OF abs a] by blast
  let ?w = "if cb then g (pfnFreeResource b) (pvParam b) (ui32Param b) (world s) else world s"
  let ?s2 = "s1\<lparr>world := ?w\<rparr>"
  obtain e where "fns (pfnFreeResource b) (pvParam b) (ui32Param b) (RELEASE_SYNC_OBJ s1) =
      Some (e, (RELEASE_SYNC_OBJ s1)\<lparr>world := g (pfnFreeResource b) (pvParam b) (ui32Param b) (world (RELEASE_SYNC_OBJ s1))\<rparr>)"
    using q unfolding quiet_fns_def by blast
  then have "FreeResourceByPtr fns a cb s = item_free a ?s2"
    using s1 irq restD [OF s1(3)]
    by (cases s1) (auto simp: FreeResourceByPtr_def RELEASE_SYNC_OBJ_def ACQUIRE_SYNC_OBJ_def)
  moreover have "rm_abs ?s2 (drop_item a A)" "res_items ?s2 a = Some n" using s1 by simp_all
  note item_free_abs [OF this(1) drop_item_notin this(2)]
  ultimately show ?thesis
    using restD [OF s1(3)] by (auto simp: kept_env_def)
qed

subsection \<open>Freeing by criteria\<close>

lemma filter_first:
  assumes "filter P xs = y # ys"
  obtains us vs where "xs = us @ y # vs" "\<forall>u\<in>set us. \<not> P u" "P y" "ys = filter P vs"
  using assms by (metis filter_eq_ConsD)

abbreviation matches :: "u32 \<Rightarrow> u32 \<Rightarrow> ptr \<Rightarrow> u32 \<Rightarrow> ritem \<Rightarrow> bool" where
  "matches crit ty pv up \<equiv> \<lambda>x. crit_match crit ty pv up (snd x)"

lemma free_crit_loop_spec:
  assumes q: "quiet_fns fns g" and irq: "\<not> irq s" and abs: "rm_abs s (As @ (c, pp, its) # Bs)"
  shows "\<exists>s'. free_crit_loop fns c crit ty pv up cb n s =
            Some (n + length (filter (matches crit ty pv up) its), s') \<and>
          rm_abs s' (As @ (c, pp, filter (\<lambda>x. \<not> matches crit ty pv up x) its) # Bs) \<and>
          kept_env s s' \<and>
          dom (res_items s') = dom (res_items s) - addrs (filter (matches crit ty pv up) its) \<and>
          world s' = (if cb then run_frees g (filter (matches crit ty pv up) its) (world s)
                      else world s)"
  using irq abs
proof (induction "length its" arbitrary: its n s rule: less_induct)
  case less
  let ?P = "matches crit ty pv up"
  have mem: "(c, pp, its) \<in> set (As @ (c, pp, its) # Bs)" by simp
  note find = find_res_by_crit_spec [OF less.prems(2) mem, of crit ty pv up, unfolded comp_def]
  show ?case
  proof (cases "filter ?P its")
    case Nil
    then have "filter (\<lambda>x. \<not> ?P x) its = its" by (auto simp: filter_id_conv filter_empty_conv)
    with Nil find less.prems show ?thesis
      by (subst free_crit_loop.simps) auto
  next
    case (Cons y ys)
    then obtain us vs where its: "its = us @ y # vs" "\<forall>u\<in>set us. \<not> ?P u" "?P y" "ys = filter ?P vs"
      by (rule filter_first)
    obtain a b where y: "y = (a, b)" by (cases y)
    have ab: "(a, b) \<in> set (all_items (As @ (c, pp, its) # Bs))" using its y by simp
    have a0: "a \<noteq> NULL"
      using seg_node(1) [OF rm_abs_items(1) [OF less.prems(2) mem]] its y by auto
    obtain s1 where s1: "FreeResourceByPtr fns a cb s = Some s1"
      "rm_abs s1 (drop_item a (As @ (c, pp, its) # Bs))" "kept_env s s1"
      "dom (res_items s1) = dom (res_items s) - {a}"
      "world s1 = (if cb then g (pfnFreeResource b) (pvParam b) (ui32Param b) (world s) else world s)"
      using FreeResourceByPtr_spec [OF less.prems(2) ab q less.prems(1)] by blast
    have dr: "drop_item a (As @ (c, pp, its) # Bs) = As @ (c, pp, us @ vs) # Bs"
      using drop_item_split rm_absD(6) [OF less.prems(2)] its(1) y by blast
    have fu: "filter ?P (us @ vs) = ys" "filter (\<lambda>x. \<not> ?P x) (us @ vs) = filter (\<lambda>x. \<not> ?P x) its"
      using its by (auto simp: filter_empty_conv)
    have "length (us @ vs) < length its" "\<not> irq s1"
      using its(1) less.prems(1) s1(3) by (auto simp: kept_env_def)
    from less.hyps [OF this(1) this(2) s1(2) [unfolded dr], of "n + 1"] obtain s' where s':
      "free_crit_loop fns c crit ty pv up cb (n + 1) s1 = Some (n + 1 + length ys, s')"
      "rm_abs s' (As @ (c, pp, filter (\<lambda>x. \<not> ?P x) its) # Bs)" "kept_env s1 s'"
      "dom (res_items s') = dom (res_items s1) - addrs ys"
      "world s' = (if cb then run_frees g ys (world s1) else world s1)"
      unfolding fu by auto
    have "free_crit_loop fns c crit ty pv up cb n s = Some (n + 1 + length ys, s')"
      using find Cons y a0 s1(1) s'(1) by (subst free_crit_loop.simps) simp
    with s' s1 Cons y kept_env_trans [OF s1(3) s'(3)] show ?thesis
      by auto
  qed
qed

subsection \<open>The types freed on disconnect\<close>

lemma matches_type [simp]:
  "matches RESMAN_CRITERIA_RESTYPE t NULL 0 x \<longleftrightarrow> ui32ResType (snd x) = t"
  by (simp add: crit_match_def RESMAN_CRITERIA_defs)

abbreviation of_type :: "u32 \<Rightarrow> ritem \<Rightarrow> bool" where
  "of_type t \<equiv> \<lambda>x. ui32ResType (snd x) = t"

definition typed :: "u32 list \<Rightarrow> ritem list \<Rightarrow> ritem list" where
  "typed ts its = concat (map (\<lambda>t. filter (of_type t) its) ts)"

lemma typed_simps [simp]:
  "typed [] its = []" "typed (t # ts) its = filter (of_type t) its @ typed ts its"
  by (simp_all add: typed_def)

lemma typed_filter:
  "t \<notin> set ts \<Longrightarrow> typed ts (filter (\<lambda>x. \<not> of_type t x) its) = typed ts its"
proof (induction ts)
  case (Cons u ts)
  then have "filter (of_type u) (filter (\<lambda>x. \<not> of_type t x) its) = filter (of_type u) its"
    by (simp, intro filter_cong) auto
  with Cons show ?case by simp
qed simp

lemma typed_set: "set (typed ts its) = {x \<in> set its. ui32ResType (snd x) \<in> set ts}"
  by (auto simp: typed_def)

lemma free_types_spec:
  assumes q: "quiet_fns fns g" and irq: "\<not> irq s" and abs: "rm_abs s (As @ (c, pp, its) # Bs)"
    and d: "distinct ts"
  shows "\<exists>s'. free_types fns c ts i s = Some (i + length (typed ts its), s') \<and>
          rm_abs s' (As @ (c, pp, filter (\<lambda>x. ui32ResType (snd x) \<notin> set ts) its) # Bs) \<and>
          kept_env s s' \<and> dom (res_items s') = dom (res_items s) - addrs (typed ts its) \<and>
          world s' = run_frees g (typed ts its) (world s)"
  using irq abs d
proof (induction ts arbitrary: i s its)
  case Nil
  then show ?case by simp
next
  case (Cons t ts)
  let ?its = "filter (\<lambda>x. \<not> of_type t x) its"
  obtain s1 where s1: "free_one_res fns c t s = Some (length (filter (of_type t) its), s1)"
    "rm_abs s1 (As @ (c, pp, ?its) # Bs)" "kept_env s s1"
    "dom (res_items s1) = dom (res_items s) - addrs (filter (of_type t) its)"
    "world s1 = run_frees g (filter (of_type t) its) (world s)"
    using free_crit_loop_spec [OF q Cons.prems(1,2),
        where crit = RESMAN_CRITERIA_RESTYPE and ty = t and pv = NULL and up = 0 and cb = True and n = 0]
    unfolding matches_type by (auto simp: free_one_res_def FreeResourceByCriteria_def)
  have "\<not> irq s1" using s1(3) Cons.prems(1) by (simp add: kept_env_def)
  moreover have "distinct ts" "t \<notin> set ts" using Cons.prems(3) by auto
  ultimately obtain s' where s': "free_types fns c ts (i + length (filter (of_type t) its)) s1 =
      Some (i + length (filter (of_type t) its) + length (typed ts its), s')"
    "rm_abs s' (As @ (c, pp, filter (\<lambda>x. ui32ResType (snd x) \<notin> set ts) ?its) # Bs)"
    "kept_env s1 s'" "dom (res_items s') = dom (res_items s1) - addrs (typed ts its)"
    "world s' = run_frees g (typed ts its) (world s1)"
    using Cons.IH [OF _ s1(2)] typed_filter [of t ts its] by metis
  have "filter (\<lambda>x. ui32ResType (snd x) \<notin> set ts) ?its =
      filter (\<lambda>x. ui32ResType (snd x) \<notin> set (t # ts)) its"
    by (induction its) auto
  with s' s1 kept_env_trans [OF s1(3) s'(3)] show ?case
    by (auto simp: add.assoc image_Un)
qed

subsection \<open>Removing and adding a context\<close>

lemma rm_abs_ctxs:
  assumes "rm_abs s A" and "seg m (Head (gpsResList s)) (ctx_nodes B) NULL"
    and "distinct (map fst B)" and "distinct (map fst (all_items B))"
    and "\<And>c pp its. (c, pp, its) \<in> set B \<Longrightarrow> seg (res_items s) (Head c) its NULL"
    and "res_list s' = (res_list s)(gpsResList s \<mapsto> \<lparr>psContextList = nxt (ctx_nodes B) NULL\<rparr>)"
    and "gpsResList s' = gpsResList s" "res_ctxs s' = m" "res_items s' = res_items s"
  shows "rm_abs s' B"
  using assms by (auto simp: rm_abs_def the_list_def)

lemma ctx_put_slot_spec:
  assumes abs: "rm_abs s A" and xs: "seg (res_ctxs s) (Head (gpsResList s)) xs e"
    "distinct (map fst xs)"
  shows "\<exists>m. ctx_put_slot (last_slot (Head (gpsResList s)) xs) v s =
           Some (s\<lparr>res_list := (res_list s)(gpsResList s \<mapsto>
                   \<lparr>psContextList = (if xs = [] then v else nxt (ctx_nodes A) NULL)\<rparr>), res_ctxs := m\<rparr>) \<and>
         seg m (Head (gpsResList s)) xs v \<and> dom m = dom (res_ctxs s) \<and>
         (\<forall>a. a \<notin> addrs xs \<longrightarrow> m a = res_ctxs s a)"
proof (cases "xs = []")
  case True
  with rm_absD(2) [OF abs] show ?thesis
    by (intro exI [of _ "res_ctxs s"]) (cases s; simp add: ctx_put_slot_def put_list_head_def the_list_def)
next
  case False
  then obtain n where n: "set_next (res_ctxs s) (fst (last xs)) v = Some ((res_ctxs s)(fst (last xs) \<mapsto> n))"
    "seg ((res_ctxs s)(fst (last xs) \<mapsto> n)) (Head (gpsResList s)) xs v"
    using seg_set_next [OF xs(1) _ xs(2)] by blast
  have l: "fst (last xs) \<in> addrs xs" using False by simp
  then have "fst (last xs) \<in> dom (res_ctxs s)" using seg_dom [OF xs(1)] by blast
  moreover have "(res_list s)(gpsResList s \<mapsto> \<lparr>psContextList = nxt (ctx_nodes A) NULL\<rparr>) = res_list s"
    using rm_absD(2) [OF abs] by (auto simp: the_list_def fun_eq_iff)
  ultimately show ?thesis
    using False n l by (intro exI [of _ "(res_ctxs s)(fst (last xs) \<mapsto> n)"])
      (cases s; auto simp: ctx_put_slot_def ctx_set_next_def last_slot_def)
qed

text \<open>The writes \<open>PVRSRVResManDisconnect\<close> makes once the items are gone.\<close>

definition ctx_unlink_free :: "ptr \<Rightarrow> 'w resman \<Rightarrow> 'w resman option" where
  "ctx_unlink_free ctx s = do {
     n \<leftarrow> res_ctxs s ctx;
     s \<leftarrow> ctx_put_slot (ppsThis n) (psNext n) s;
     n \<leftarrow> res_ctxs s ctx;
     s \<leftarrow> (if psNext n \<noteq> NULL then ctx_set_this (psNext n) (ppsThis n) s else Some s);
     ctx_free ctx s }"

lemma ctx_unlink_free_spec:
  assumes abs: "rm_abs s (As @ (c, pp, its) # Bs)"
  shows "\<exists>s'. ctx_unlink_free c s = Some s' \<and> rm_abs s' (As @ Bs) \<and>
           gpsResList s' = gpsResList s \<and> res_lock s' = res_lock s \<and> irq s' = irq s \<and>
           world s' = world s \<and> res_items s' = res_items s \<and>
           dom (res_ctxs s') = dom (res_ctxs s) - {c}"
proof -
  let ?xs = "ctx_nodes As" and ?ys = "ctx_nodes Bs"
  let ?b = "\<lparr>psPerProc = pp, psResItemList = nxt its NULL\<rparr>"
  let ?sl = "last_slot (Head (gpsResList s)) ?xs"
  let ?n = "\<lparr>ppsThis = ?sl, psNext = nxt ?ys NULL, body = ?b\<rparr>"
  note a = rm_absD [OF abs]
  have di: "distinct (map fst ?xs)" "distinct (map fst ?ys)" "c \<notin> addrs ?xs" "c \<notin> addrs ?ys"
    "addrs ?xs \<inter> addrs ?ys = {}"
    using a(4) by auto
  have c: "res_ctxs s c = Some ?n" and sx: "seg (res_ctxs s) (Head (gpsResList s)) ?xs c"
    and sy: "seg (res_ctxs s) (NextOf c) ?ys NULL"
    using a(3) by (auto simp: seg_append)
  obtain m where m: "ctx_put_slot ?sl (nxt ?ys NULL) s =
      Some (s\<lparr>res_list := (res_list s)(gpsResList s \<mapsto>
        \<lparr>psContextList = (if ?xs = [] then nxt ?ys NULL else nxt (ctx_nodes (As @ (c, pp, its) # Bs)) NULL)\<rparr>),
        res_ctxs := m\<rparr>)"
    "seg m (Head (gpsResList s)) ?xs (nxt ?ys NULL)" "dom m = dom (res_ctxs s)"
    "\<forall>a. a \<notin> addrs ?xs \<longrightarrow> m a = res_ctxs s a"
    using ctx_put_slot_spec [OF abs sx di(1)] by blast
  have hd: "(if ?xs = [] then nxt ?ys NULL else nxt (ctx_nodes (As @ (c, pp, its) # Bs)) NULL) =
      nxt (ctx_nodes (As @ Bs)) NULL"
    by (cases As) (auto split: prod.splits)
  let ?s1 = "s\<lparr>res_list := (res_list s)(gpsResList s \<mapsto> \<lparr>psContextList = nxt (ctx_nodes (As @ Bs)) NULL\<rparr>),
    res_ctxs := m\<rparr>"
  have cm: "m c = Some ?n" using m(4) [rule_format, OF di(3)] c by (rule trans)
  have sym: "seg m (NextOf c) ?ys NULL"
    using sy m(4) di(5) seg_frame [of ?ys m "res_ctxs s"] by blast
  obtain m' where m': "(if nxt ?ys NULL \<noteq> NULL then ctx_set_this (nxt ?ys NULL) ?sl ?s1 else Some ?s1) =
      Some (?s1\<lparr>res_ctxs := m'\<rparr>)"
    "seg m' ?sl ?ys NULL" "dom m' = dom m" "\<forall>q. q \<notin> addrs ?ys \<longrightarrow> m' q = m q"
  proof (cases "Bs = []")
    case True
    with that [of m] show ?thesis by simp
  next
    case False
    then have ne: "?ys \<noteq> []" by simp
    obtain n where n: "set_this m (nxt ?ys NULL) ?sl = Some (m(nxt ?ys NULL \<mapsto> n))"
      "seg (m(nxt ?ys NULL \<mapsto> n)) ?sl ?ys NULL"
      using seg_set_this [OF sym ne di(2), of ?sl] by blast
    have hy: "nxt ?ys NULL \<in> addrs ?ys" using ne by (cases ?ys) simp_all
    then have "nxt ?ys NULL \<in> dom m" using seg_dom [OF sym] by blast
    moreover have "nxt ?ys NULL \<noteq> NULL" using seg_nxt_null [OF sym] ne by blast
    ultimately show ?thesis
      using hy n by (intro that [of "m(nxt ?ys NULL \<mapsto> n)"])
        (simp_all add: ctx_set_this_def insert_absorb del: nxt_simps fun_upd_apply, auto)
  qed
  have "seg m' (Head (gpsResList s)) ?xs (nxt ?ys NULL)"
    using m(2) by (subst seg_frame [of ?xs m' m]) (use m'(4) di(5) in blast)+
  with m'(2) have sg: "seg (m'(c := None)) (Head (gpsResList s)) (ctx_nodes (As @ Bs)) NULL"
    using di(3,4) by (simp add: seg_append)
  let ?s' = "?s1\<lparr>res_ctxs := m'(c := None)\<rparr>"
  have "m' c = Some ?n" using m'(4) [rule_format, OF di(4)] cm by (rule trans)
  then have "ctx_free c (?s1\<lparr>res_ctxs := m'\<rparr>) = Some ?s'" by (simp add: ctx_free_def)
  moreover have "res_ctxs ?s1 c = Some ?n" using cm by simp
  ultimately have "ctx_unlink_free c s = Some ?s'"
    using m(1) m'(1) c unfolding hd
    by (simp only: ctx_unlink_free_def Option.bind.bind_lunit lnk.select_convs)
  moreover have "rm_abs ?s' (As @ Bs)"
    by (rule rm_abs_ctxs [OF abs sg]) (use a(4,5,6) in auto)
  ultimately show ?thesis using m(3) m'(3) by auto
qed

lemma PVRSRVResManConnect_spec:
  assumes abs: "rm_abs s A" and env: "res_lock s > 0" "\<not> irq s"
    and km: "OSAllocMem km = (PVRSRV_OK, p, km')" and p: "p \<noteq> NULL" "p \<notin> addrs A"
  shows "\<exists>s'. PVRSRVResManConnect pp km s = Some (PVRSRV_OK, Some p, s', km') \<and>
           rm_abs s' ((p, pp, []) # A) \<and> res_items s' = res_items s \<and> world s' = world s \<and>
           res_lock s' = res_lock s \<and> irq s' = irq s \<and> gpsResList s' = gpsResList s \<and>
           dom (res_ctxs s') = insert p (dom (res_ctxs s))"
proof -
  let ?h = "nxt (ctx_nodes A) NULL"
  let ?b = "\<lparr>psPerProc = pp, psResItemList = NULL\<rparr>"
  let ?m = "(res_ctxs s)(p \<mapsto> \<lparr>ppsThis = Head (gpsResList s), psNext = ?h, body = ?b\<rparr>)"
  note a = rm_absD [OF abs]
  have sm: "seg ?m (Head (gpsResList s)) (ctx_nodes A) NULL" using a(3) p(2) by simp
  have l: "res_list s (gpsResList s) = Some \<lparr>psContextList = ?h\<rparr>"
    using a(2) by (simp add: the_list_def)
  let ?s1 = "s\<lparr>res_lock := res_lock s - 1, res_ctxs := ?m,
      res_list := (res_list s)(gpsResList s \<mapsto> \<lparr>psContextList = p\<rparr>)\<rparr>"
  obtain m' where m': "(if ?h \<noteq> NULL then ctx_set_this ?h (NextOf p) ?s1 else Some ?s1) =
      Some (?s1\<lparr>res_ctxs := m'\<rparr>)"
    "seg m' (NextOf p) (ctx_nodes A) NULL" "dom m' = dom ?m" "\<forall>q. q \<notin> addrs A \<longrightarrow> m' q = ?m q"
  proof (cases "A = []")
    case True
    with that [of ?m] show ?thesis by simp
  next
    case False
    then have ne: "ctx_nodes A \<noteq> []" by simp
    obtain n where n: "set_this ?m ?h (NextOf p) = Some (?m(?h \<mapsto> n))"
      "seg (?m(?h \<mapsto> n)) (NextOf p) (ctx_nodes A) NULL"
      using seg_set_this [OF sm ne, of "NextOf p"] a(4) by auto
    have hy: "?h \<in> addrs A" using False by (cases A) auto
    then have "?h \<in> dom ?m" using subsetD [OF seg_dom [OF sm]] unfolding ctx_nodes_fst by blast
    moreover have "?h \<noteq> NULL" using seg_nxt_null [OF sm] ne by blast
    ultimately show ?thesis
      using hy n by (intro that [of "?m(?h \<mapsto> n)"])
        (simp_all add: ctx_set_this_def insert_absorb del: nxt_simps fun_upd_apply, auto)
  qed
  have "m' p = ?m p" using m'(4) [rule_format, OF p(2)] .
  with m'(2) p have "seg m' (Head (gpsResList s)) (ctx_nodes ((p, pp, []) # A)) NULL"
    by simp
  then have "rm_abs (?s1\<lparr>res_ctxs := m', res_lock := res_lock s\<rparr>) ((p, pp, []) # A)"
    by (rule rm_abs_ctxs [OF abs]) (use a(4,5,6) p(2) in auto)
  moreover have "PVRSRVResManConnect pp km s =
      Some (PVRSRV_OK, Some p, ?s1\<lparr>res_ctxs := m', res_lock := res_lock s\<rparr>, km')"
    using km env l m'(1)
    by (cases s) (simp add: PVRSRVResManConnect_def ACQUIRE_SYNC_OBJ_def RELEASE_SYNC_OBJ_def
        the_list_def put_list_head_def Let_def split: if_splits)
  ultimately show ?thesis using m'(3) by auto
qed

subsection \<open>The operations of the interface\<close>

lemma lock_simps:
  "0 < res_lock s \<Longrightarrow> \<not> irq s \<Longrightarrow> ACQUIRE_SYNC_OBJ s = Some (s\<lparr>res_lock := res_lock s - 1\<rparr>)"
  "RELEASE_SYNC_OBJ s = s\<lparr>res_lock := res_lock s + 1\<rparr>"
  by (simp_all add: ACQUIRE_SYNC_OBJ_def RELEASE_SYNC_OBJ_def)

lemma lock_update_back: "0 < res_lock s \<Longrightarrow> s\<lparr>res_lock := Suc (res_lock s - Suc 0)\<rparr> = s"
  by (cases s) simp

lemma rm_abs_splitE:
  assumes "rm_abs s A" and "(c, pp, its) \<in> set A"
  obtains As Bs where "A = As @ (c, pp, its) # Bs" "\<And>f. upd_items c f A = As @ (c, pp, f its) # Bs"
    "drop_ctx c A = As @ Bs"
proof -
  from assms(2) obtain As Bs where A: "A = As @ (c, pp, its) # Bs" by (metis split_list)
  have d: "distinct (map fst (As @ (c, pp, its) # Bs))" using rm_absD(4) [OF assms(1)] A by simp
  show thesis using that [OF A] upd_items_split [OF d] drop_ctx_split [OF d] A by blast
qed

lemma ResManRegisterRes_ok:
  assumes abs: "rm_abs s A" and c: "(c, pp, its) \<in> set A" and env: "res_lock s > 0" "\<not> irq s"
    and km: "OSAllocMem km = (PVRSRV_OK, p, km')" and p: "p \<noteq> NULL" "p \<notin> addrs (all_items A)"
  shows "\<exists>s'. ResManRegisterRes c ty pv up pfn km s = Some (p, s', km') \<and>
           rm_abs s' (upd_items c (Cons (p, \<lparr>ui32Flags = 0, ui32ResType = ty, pvParam = pv,
                                            ui32Param = up, pfnFreeResource = pfn\<rparr>)) A) \<and>
           kept_env s s' \<and> world s' = world s \<and>
           dom (res_items s') = insert p (dom (res_items s))"
proof -
  let ?b = "\<lparr>ui32Flags = 0, ui32ResType = ty, pvParam = pv, ui32Param = up, pfnFreeResource = pfn\<rparr>"
  let ?s0 = "s\<lparr>res_lock := res_lock s - 1\<rparr>"
  obtain As Bs where A: "A = As @ (c, pp, its) # Bs" "\<And>f. upd_items c f A = As @ (c, pp, f its) # Bs"
    using rm_abs_splitE [OF abs c] by blast
  have abs0: "rm_abs ?s0 (As @ (c, pp, its) # Bs)" using abs A(1) by simp
  let ?m = "(res_items ?s0)(p \<mapsto> \<lparr>ppsThis = Head c, psNext = nxt its NULL, body = ?b\<rparr>)"
  let ?s1 = "?s0\<lparr>res_items := ?m, res_ctxs := set_head c p ?s0\<rparr>"
  obtain m' where m': "(if nxt its NULL \<noteq> NULL then item_set_this (nxt its NULL) (NextOf p) ?s1
        else Some ?s1) = Some (?s0\<lparr>res_ctxs := set_head c p ?s0, res_items := m'\<rparr>)"
    "rm_abs (?s0\<lparr>res_ctxs := set_head c p ?s0, res_items := m'\<rparr>) (As @ (c, pp, (p, ?b) # its) # Bs)"
    "dom m' = insert p (dom (res_items ?s0))"
    using item_push_spec [OF abs0 p(1) _ refl, of ?b] p(2) A(1) by auto
  obtain n where n: "res_ctxs s c = Some n" "psResItemList (body n) = nxt its NULL" "c \<noteq> NULL"
    using rm_abs_ctx [OF abs c] by auto
  have "put_item_head c p (?s0\<lparr>res_items := ?m\<rparr>) = Some ?s1"
    using put_item_head_eq [of c "?s0\<lparr>res_items := ?m\<rparr>" p] n(1) by (auto simp: set_head_def)
  then have "ResManRegisterRes c ty pv up pfn km s =
      Some (p, RELEASE_SYNC_OBJ (?s0\<lparr>res_ctxs := set_head c p ?s0, res_items := m'\<rparr>), km')"
    using n km m'(1) lock_simps(1) [OF env] by (simp add: ResManRegisterRes_def Let_def split: if_splits)
  moreover have "rm_abs (RELEASE_SYNC_OBJ (?s0\<lparr>res_ctxs := set_head c p ?s0, res_items := m'\<rparr>))
      (upd_items c (Cons (p, ?b)) A)"
    unfolding lock_simps(2) rm_abs_lock(1) A(2) by (rule m'(2))
  ultimately show ?thesis
    using m'(3) env(1) by (auto simp: kept_env_def lock_simps(2))
qed

lemma ResManRegisterRes_fail:
  assumes "res_lock s > 0" "\<not> irq s" and "OSAllocMem km = (e, p, km')" "e \<noteq> PVRSRV_OK"
  shows "ResManRegisterRes c ty pv up pfn km s = Some (NULL, s, if c = NULL then km else km')"
  using assms by (simp add: ResManRegisterRes_def lock_simps lock_update_back)

lemma ResManFindResourceByPtr_spec:
  assumes abs: "rm_abs s A" and c: "(c, pp, its) \<in> set A" and env: "res_lock s > 0" "\<not> irq s"
    and a: "a \<noteq> NULL"
  shows "ResManFindResourceByPtr c a s =
           Some (if a \<in> addrs its then PVRSRV_OK else PVRSRV_ERROR_NOT_OWNER, s)"
proof -
  let ?s0 = "s\<lparr>res_lock := res_lock s - 1\<rparr>"
  have abs0: "rm_abs ?s0 A" using abs by simp
  obtain n where n: "res_ctxs s c = Some n" "psResItemList (body n) = nxt its NULL" "c \<noteq> NULL"
    using rm_abs_ctx [OF abs c] by auto
  with find_item_seg [OF rm_abs_items(1) [OF abs0 c], of a] a show ?thesis
    unfolding ResManFindResourceByPtr_def lock_simps(1) [OF env]
    by (simp add: lock_simps(2) lock_update_back [OF env(1)])
qed

lemma ResManFreeResByPtr_spec:
  assumes abs: "rm_abs s A" and a: "(a, b) \<in> set (all_items A)"
    and q: "quiet_fns fns g" and env: "res_lock s > 0" "\<not> irq s"
  shows "\<exists>s'. ResManFreeResByPtr fns a s = Some s' \<and> rm_abs s' (drop_item a A) \<and>
           kept_env s s' \<and> dom (res_items s') = dom (res_items s) - {a} \<and>
           world s' = g (pfnFreeResource b) (pvParam b) (ui32Param b) (world s)"
proof -
  let ?s0 = "s\<lparr>res_lock := res_lock s - 1\<rparr>"
  have abs0: "rm_abs ?s0 A" "\<not> irq ?s0" using abs env by simp_all
  obtain c pp its where "(c, pp, its) \<in> set A" "(a, b) \<in> set its"
    using a by (auto simp: all_items_def)
  then have "a \<noteq> NULL" using seg_node(1) [OF rm_abs_items(1) [OF abs]] by blast
  with FreeResourceByPtr_spec [OF abs0(1) a q abs0(2), of True] env show ?thesis
    by (force simp: ResManFreeResByPtr_def lock_simps kept_env_def)
qed

lemma ResManFreeResByCriteria_spec:
  assumes abs: "rm_abs s A" and c: "(c, pp, its) \<in> set A"
    and q: "quiet_fns fns g" and env: "res_lock s > 0" "\<not> irq s"
  shows "\<exists>s'. ResManFreeResByCriteria fns c crit ty pv up s = Some s' \<and>
           rm_abs s' (upd_items c (filter (\<lambda>x. \<not> matches crit ty pv up x)) A) \<and> kept_env s s' \<and>
           dom (res_items s') = dom (res_items s) - addrs (filter (matches crit ty pv up) its) \<and>
           world s' = run_frees g (filter (matches crit ty pv up) its) (world s)"
proof -
  let ?s0 = "s\<lparr>res_lock := res_lock s - 1\<rparr>"
  obtain As Bs where A: "A = As @ (c, pp, its) # Bs" "\<And>f. upd_items c f A = As @ (c, pp, f its) # Bs"
    using rm_abs_splitE [OF abs c] by blast
  have abs0: "\<not> irq ?s0" "rm_abs ?s0 (As @ (c, pp, its) # Bs)" using abs env A(1) by simp_all
  obtain s' where s': "FreeResourceByCriteria fns c crit ty pv up True ?s0 =
      Some (length (filter (matches crit ty pv up) its), s')"
    "rm_abs s' (As @ (c, pp, filter (\<lambda>x. \<not> matches crit ty pv up x) its) # Bs)" "kept_env ?s0 s'"
    "dom (res_items s') = dom (res_items s) - addrs (filter (matches crit ty pv up) its)"
    "world s' = run_frees g (filter (matches crit ty pv up) its) (world s)"
    using free_crit_loop_spec [OF q abs0, of crit ty pv up True 0]
    by (auto simp: FreeResourceByCriteria_def)
  then show ?thesis
    using env by (intro exI [of _ "RELEASE_SYNC_OBJ s'"])
      (simp add: ResManFreeResByCriteria_def lock_simps kept_env_def A(2))
qed

lemma PVRSRVResManDisconnect_spec:
  assumes abs: "rm_abs s A" and c: "(c, pp, its) \<in> set A"
    and q: "quiet_fns fns g" and env: "res_lock s > 0" "\<not> irq s"
  shows "\<exists>s'. PVRSRVResManDisconnect fns c False s = Some s' \<and> rm_abs s' (drop_ctx c A) \<and>
           seg (res_items s') (Head c) (filter (\<lambda>x. ui32ResType (snd x) \<notin> set disconnect_order) its) NULL \<and>
           gpsResList s' = gpsResList s \<and> res_lock s' = res_lock s \<and> irq s' = irq s \<and>
           dom (res_ctxs s') = dom (res_ctxs s) - {c} \<and>
           dom (res_items s') = dom (res_items s) - addrs (typed disconnect_order its) \<and>
           world s' = run_frees g (typed disconnect_order its) (world s)"
proof -
  let ?s0 = "s\<lparr>res_lock := res_lock s - 1\<rparr>"
  obtain As Bs where A: "A = As @ (c, pp, its) # Bs" "drop_ctx c A = As @ Bs"
    using rm_abs_splitE [OF abs c] by blast
  let ?r = "filter (\<lambda>x. ui32ResType (snd x) \<notin> set disconnect_order) its"
  have abs0: "\<not> irq ?s0" "rm_abs ?s0 (As @ (c, pp, its) # Bs)" using abs env A(1) by simp_all
  have "distinct disconnect_order" by (simp add: disconnect_order_def RESMAN_TYPE_defs)
  with free_types_spec [OF q abs0, of disconnect_order 0] obtain s1 where s1:
    "free_types fns c disconnect_order 0 ?s0 = Some (length (typed disconnect_order its), s1)"
    "rm_abs s1 (As @ (c, pp, ?r) # Bs)" "kept_env ?s0 s1"
    "dom (res_items s1) = dom (res_items s) - addrs (typed disconnect_order its)"
    "world s1 = run_frees g (typed disconnect_order its) (world s)"
    by auto
  obtain s2 where s2: "ctx_unlink_free c s1 = Some s2" "rm_abs s2 (As @ Bs)"
    "gpsResList s2 = gpsResList s1" "res_lock s2 = res_lock s1" "irq s2 = irq s1"
    "world s2 = world s1" "res_items s2 = res_items s1" "dom (res_ctxs s2) = dom (res_ctxs s1) - {c}"
    using ctx_unlink_free_spec [OF s1(2)] by blast
  have "seg (res_items s1) (Head c) ?r NULL"
    using rm_abs_items(1) [OF s1(2), of c pp ?r] by simp
  moreover have "PVRSRVResManDisconnect fns c False s =
      (ctx_unlink_free c s1 \<bind> (\<lambda>s. Some (RELEASE_SYNC_OBJ s)))"
    using lock_simps(1) [OF env] s1(1)
    by (simp add: PVRSRVResManDisconnect_def ctx_unlink_free_def)
  ultimately show ?thesis
    using s1(3-) s2 env by (intro exI [of _ "RELEASE_SYNC_OBJ s2"])
      (simp add: kept_env_def lock_simps(2) A(2))
qed

lemma drop_item_ctx:
  "(c, pp, its) \<in> set A \<Longrightarrow> (c, pp, filter (\<lambda>x. fst x \<noteq> a) its) \<in> set (drop_item a A)"
  by (force simp: drop_item_def)

lemma ResManDissociateRes_move:
  assumes abs: "rm_abs s A" and a: "(a, b) \<in> set (all_items A)" and c: "(c, pp, its) \<in> set A"
  shows "\<exists>s'. ResManDissociateRes fns a c s = Some (PVRSRV_OK, s') \<and>
           rm_abs s' (upd_items c (Cons (a, b)) (drop_item a A)) \<and> rest s s'"
proof -
  let ?its = "filter (\<lambda>x. fst x \<noteq> a) its"
  obtain s1 n where s1: "item_unlink a s = Some s1" "rm_abs s1 (drop_item a A)" "rest s s1"
    "res_items s1 a = Some n" "body n = b"
    using item_unlink_abs [OF abs a] by blast
  have c': "(c, pp, ?its) \<in> set (drop_item a A)" using drop_item_ctx [OF c] .
  obtain As Bs where A: "drop_item a A = As @ (c, pp, ?its) # Bs"
    "\<And>f. upd_items c f (drop_item a A) = As @ (c, pp, f ?its) # Bs"
    using rm_abs_splitE [OF s1(2) c'] by blast
  obtain x where x: "res_ctxs s1 c = Some x" "psResItemList (body x) = nxt ?its NULL" "c \<noteq> NULL"
    using rm_abs_ctx [OF s1(2) c'] by auto
  have a0: "a \<noteq> NULL"
    using a seg_node(1) [OF rm_abs_items(1) [OF abs]] by (fastforce simp: all_items_def)
  let ?m = "(res_items s1)(a \<mapsto> \<lparr>ppsThis = Head c, psNext = nxt ?its NULL, body = b\<rparr>)"
  let ?s2 = "s1\<lparr>res_items := ?m, res_ctxs := set_head c a s1\<rparr>"
  obtain m' where m': "(if nxt ?its NULL \<noteq> NULL then item_set_this (nxt ?its NULL) (NextOf a) ?s2
        else Some ?s2) = Some (s1\<lparr>res_ctxs := set_head c a s1, res_items := m'\<rparr>)"
    "rm_abs (s1\<lparr>res_ctxs := set_head c a s1, res_items := m'\<rparr>) (As @ (c, pp, (a, b) # ?its) # Bs)"
    "dom m' = insert a (dom (res_items s1))"
    using item_push_spec [OF s1(2) [unfolded A(1)] a0 _ refl, of b] drop_item_notin [of a A] A(1)
    by auto
  have ph: "put_item_head c a (s1\<lparr>res_items := ?m\<rparr>) = Some ?s2"
    using put_item_head_eq [of c "s1\<lparr>res_items := ?m\<rparr>" a] x(1) by (auto simp: set_head_def)
  have "item_set_this a (Head c) s1 = Some (s1\<lparr>res_items := (res_items s1)(a \<mapsto> n\<lparr>ppsThis := Head c\<rparr>)\<rparr>)"
    using s1(4) by (simp add: item_set_this_def set_this_def)
  moreover have "item_set_next a (nxt ?its NULL) (s1\<lparr>res_items := (res_items s1)(a \<mapsto> n\<lparr>ppsThis := Head c\<rparr>)\<rparr>) =
      Some (s1\<lparr>res_items := ?m\<rparr>)"
    using s1(5) by (cases n) (simp add: item_set_next_def set_next_def)
  ultimately have "ResManDissociateRes fns a c s =
      Some (PVRSRV_OK, s1\<lparr>res_ctxs := set_head c a s1, res_items := m'\<rparr>)"
    using s1(1) a0 x ph m'(1) by (simp add: ResManDissociateRes_def split: if_splits)
  moreover have "rest s (s1\<lparr>res_ctxs := set_head c a s1, res_items := m'\<rparr>)"
    using s1(3,4) m'(3) by (cases s; cases s1) (auto simp: rest_def)
  ultimately show ?thesis using m'(2) A(2) by auto
qed

lemma ResManDissociateRes_free:
  assumes abs: "rm_abs s A" and a: "(a, b) \<in> set (all_items A)"
    and q: "quiet_fns fns g" and irq: "\<not> irq s"
  shows "\<exists>s'. ResManDissociateRes fns a NULL s = Some (PVRSRV_OK, s') \<and> rm_abs s' (drop_item a A) \<and>
           kept_env s s' \<and> dom (res_items s') = dom (res_items s) - {a} \<and> world s' = world s"
proof -
  have a0: "a \<noteq> NULL"
    using a seg_node(1) [OF rm_abs_items(1) [OF abs]] by (fastforce simp: all_items_def)
  with FreeResourceByPtr_spec [OF abs a q irq, of False] show ?thesis
    by (auto simp: ResManDissociateRes_def)
qed

lemma pvr_get_resman_ctx_spec:
  assumes "rm_abs s A"
  shows "pvr_get_resman_ctx r s =
    Some (nxt (filter (\<lambda>(c, pp, its). \<exists>(a, b) \<in> set its. pvParam b = r) A) NULL)"
  using rm_absD(2,3) [OF assms] ctx_loop_seg [OF assms subset_refl] by (simp add: pvr_get_resman_ctx_def)

end
