(* ===== verification/Pvr_Resman_Props.thy ===== *)
theory Pvr_Resman_Props
  imports Pvr_Resman_Thms
begin

text \<open>
  The properties of the resource manager: the step relation of its operations with the invariant
  \<open>rm_inv\<close> (an instance of \<open>invariant_system\<close>), and the theorems on registering,
  finding, moving and freeing resources, each with an application to a concrete state.
\<close>

subsection \<open>The operations as a transition system\<close>

definition rm_inv :: "'w resman \<Rightarrow> bool" where
  "rm_inv s \<longleftrightarrow> (\<exists>A. rm_abs s A \<and> dom (res_ctxs s) = addrs A) \<and> res_lock s = 1 \<and> \<not> irq s"

definition rm_empty :: "'w \<Rightarrow> 'w resman" where
  "rm_empty w = \<lparr>gpsResList = NULL, res_list = Map.empty, res_ctxs = Map.empty,
     res_items = Map.empty, res_lock = 1, irq = False, world = w\<rparr>"

definition rm_init :: "'w resman \<Rightarrow> bool" where
  "rm_init s \<longleftrightarrow> (\<exists>km km' w. ResManInit km (rm_empty w) = (PVRSRV_OK, s, km'))"

text \<open>
  Callers pass a context they connected and items they registered; the allocator never hands out
  memory that is still allocated.
\<close>

definition owned :: "ptr \<Rightarrow> 'w resman \<Rightarrow> bool" where
  "owned a s \<longleftrightarrow> a \<noteq> NULL \<and> (\<exists>c \<in> dom (res_ctxs s). ResManFindResourceByPtr c a s = Some (PVRSRV_OK, s))"

inductive rm_step :: "'w resman \<Rightarrow> 'w resman \<Rightarrow> bool" where
  connect: "set km \<inter> dom (res_ctxs s) = {} \<Longrightarrow>
     PVRSRVResManConnect pp km s = Some (e, r, s', km') \<Longrightarrow> rm_step s s'"
| register: "c \<in> dom (res_ctxs s) \<Longrightarrow> set km \<inter> dom (res_items s) = {} \<Longrightarrow>
     ResManRegisterRes c ty pv up pfn km s = Some (p, s', km') \<Longrightarrow> rm_step s s'"
| free_ptr: "quiet_fns fns g \<Longrightarrow> owned a s \<Longrightarrow> ResManFreeResByPtr fns a s = Some s' \<Longrightarrow> rm_step s s'"
| free_crit: "quiet_fns fns g \<Longrightarrow> c \<in> dom (res_ctxs s) \<Longrightarrow>
     ResManFreeResByCriteria fns c crit ty pv up s = Some s' \<Longrightarrow> rm_step s s'"
| dissociate: "quiet_fns fns g \<Longrightarrow> owned a s \<Longrightarrow> c = NULL \<or> c \<in> dom (res_ctxs s) \<Longrightarrow>
     ResManDissociateRes fns a c s = Some (e, s') \<Longrightarrow> rm_step s s'"
| disconnect: "quiet_fns fns g \<Longrightarrow> c \<in> dom (res_ctxs s) \<Longrightarrow>
     PVRSRVResManDisconnect fns c False s = Some s' \<Longrightarrow> rm_step s s'"

lemma rm_inv_init: "rm_init s \<Longrightarrow> rm_inv s"
proof -
  assume "rm_init s"
  then obtain km km' w where "ResManInit km (rm_empty w) = (PVRSRV_OK, s, km')"
    by (auto simp: rm_init_def)
  then have "rm_abs s []" "res_lock s = 1" "\<not> irq s" "dom (res_ctxs s) = {}"
    by (cases rule: OSAllocMem_cases [of km];
        auto simp: ResManInit_def rm_empty_def rm_abs_def the_list_def)+
  then show ?thesis by (auto simp: rm_inv_def intro!: exI [of _ "[]"])
qed

lemma rm_invE:
  assumes "rm_inv s"
  obtains A where "rm_abs s A" "dom (res_ctxs s) = addrs A" "0 < res_lock s" "res_lock s = 1" "\<not> irq s"
  using assms by (auto simp: rm_inv_def)

lemma dom_ctxE:
  assumes "dom (res_ctxs s) = addrs A" and "c \<in> dom (res_ctxs s)"
  obtains pp its where "(c, pp, its) \<in> set (A :: rctx list)"
  using assms by force

lemma ownedE:
  assumes "owned a s" and "rm_inv s" and "rm_abs s A" and "dom (res_ctxs s) = addrs A"
  obtains b where "(a, b) \<in> set (all_items A)"
proof -
  from assms(2) have env: "0 < res_lock s" "\<not> irq s" by (auto simp: rm_inv_def)
  from assms(1) obtain c where c: "c \<in> dom (res_ctxs s)" "a \<noteq> NULL"
    "ResManFindResourceByPtr c a s = Some (PVRSRV_OK, s)"
    by (auto simp: owned_def)
  from assms(4) c(1) obtain pp its where m: "(c, pp, its) \<in> set A" by (rule dom_ctxE)
  with c ResManFindResourceByPtr_spec [OF assms(3) m env c(2)] have "a \<in> addrs its"
    by (auto split: if_splits)
  with all_items_mem [OF m] that show thesis by fastforce
qed

lemma addrs_cong: "map fst A = map fst B \<Longrightarrow> addrs A = addrs B"
  by (metis list.set_map)

lemma rm_inv_kept:
  assumes "rm_inv s" and "rm_abs s' B" and "kept_env s s'" and "dom (res_ctxs s) = addrs A"
    and "map fst B = map fst A"
  shows "rm_inv s'"
proof -
  have "rm_abs s' B \<and> dom (res_ctxs s') = addrs B"
    using assms(2,3,4) addrs_cong [OF assms(5)] by (simp add: kept_env_def)
  then show ?thesis using assms(1,3) unfolding rm_inv_def kept_env_def by auto
qed

lemma rest_kept_env: "rest s s' \<Longrightarrow> kept_env s s'"
  using restD [of s s'] by (simp add: kept_env_def)

lemma connect_inv:
  assumes inv: "rm_inv s" and fresh: "set km \<inter> dom (res_ctxs s) = {}"
    and st: "PVRSRVResManConnect pp km s = Some (e, r, s', km')"
  shows "rm_inv s'"
proof -
  obtain A where A: "rm_abs s A" "dom (res_ctxs s) = addrs A" "0 < res_lock s" "res_lock s = 1" "\<not> irq s"
    using inv by (rule rm_invE)
  show ?thesis
  proof (cases rule: OSAllocMem_cases [of km])
    case (fail km'')
    with st A inv show ?thesis
      by (simp add: PVRSRVResManConnect_def lock_simps(1)) (auto simp: RELEASE_SYNC_OBJ_def rm_inv_def)
  next
    case (ok p km'')
    then have "p \<notin> addrs A" using fresh A(2) by auto
    from PVRSRVResManConnect_spec [OF A(1,3,5) ok(1,3) this, of pp] st A show ?thesis
      by (auto simp: rm_inv_def intro!: exI [of _ "(p, pp, []) # A"])
  qed
qed

lemma register_inv:
  assumes inv: "rm_inv s" and c: "c \<in> dom (res_ctxs s)" and fresh: "set km \<inter> dom (res_items s) = {}"
    and st: "ResManRegisterRes c ty pv up pfn km s = Some (p, s', km')"
  shows "rm_inv s'"
proof -
  obtain A where A: "rm_abs s A" "dom (res_ctxs s) = addrs A" "0 < res_lock s" "res_lock s = 1" "\<not> irq s"
    using inv by (rule rm_invE)
  obtain pp its where m: "(c, pp, its) \<in> set A" using A(2) c by (rule dom_ctxE)
  show ?thesis
  proof (cases rule: OSAllocMem_cases [of km])
    case (fail km'')
    from ResManRegisterRes_fail [OF A(3,5) fail(1)] st inv show ?thesis by simp
  next
    case (ok q km'')
    then have "q \<notin> addrs (all_items A)" using fresh rm_abs_all_items_dom [OF A(1)] by auto
    from ResManRegisterRes_ok [OF A(1) m A(3,5) ok(1,3) this, of ty pv up pfn] st
    obtain B where "rm_abs s' (upd_items c B A)" "kept_env s s'" by auto
    then show ?thesis using rm_inv_kept [OF inv _ _ A(2)] by auto
  qed
qed

lemma dissociate_inv:
  assumes inv: "rm_inv s" and q: "quiet_fns fns g" and own: "owned a s"
    and c: "c = NULL \<or> c \<in> dom (res_ctxs s)"
    and st: "ResManDissociateRes fns a c s = Some (e, s')"
  shows "rm_inv s'"
proof -
  obtain A where A: "rm_abs s A" "dom (res_ctxs s) = addrs A" "0 < res_lock s" "res_lock s = 1" "\<not> irq s"
    using inv by (rule rm_invE)
  obtain b where b: "(a, b) \<in> set (all_items A)" using own inv A(1,2) by (rule ownedE)
  from c show ?thesis
  proof
    assume "c = NULL"
    with ResManDissociateRes_free [OF A(1) b q A(5)] st
    have "rm_abs s' (drop_item a A)" "kept_env s s'" by auto
    then show ?thesis using rm_inv_kept [OF inv _ _ A(2)] by auto
  next
    assume "c \<in> dom (res_ctxs s)"
    with A(2) obtain pp its where m: "(c, pp, its) \<in> set A" by (rule dom_ctxE)
    from ResManDissociateRes_move [OF A(1) b m, of fns] st
    have "rm_abs s' (upd_items c (Cons (a, b)) (drop_item a A))" "rest s s'" by auto
    then show ?thesis using rm_inv_kept [OF inv _ rest_kept_env A(2)] by auto
  qed
qed

lemma disconnect_inv:
  assumes inv: "rm_inv s" and q: "quiet_fns fns g" and c: "c \<in> dom (res_ctxs s)"
    and st: "PVRSRVResManDisconnect fns c False s = Some s'"
  shows "rm_inv s'"
proof -
  obtain A where A: "rm_abs s A" "dom (res_ctxs s) = addrs A" "0 < res_lock s" "res_lock s = 1" "\<not> irq s"
    using inv by (rule rm_invE)
  obtain pp its where m: "(c, pp, its) \<in> set A" using A(2) c by (rule dom_ctxE)
  from PVRSRVResManDisconnect_spec [OF A(1) m q A(3,5)] st
  have "rm_abs s' (drop_ctx c A)" "res_lock s' = 1" "\<not> irq s'" "dom (res_ctxs s') = addrs A - {c}"
    using A by auto
  moreover have "addrs A - {c} = addrs (drop_ctx c A)" by (auto simp: drop_ctx_def)
  ultimately show ?thesis by (auto simp: rm_inv_def)
qed

lemma rm_inv_step: "rm_step s t \<Longrightarrow> rm_inv s \<Longrightarrow> rm_inv t"
proof (induction rule: rm_step.induct)
  case (connect km s pp e r s' km')
  then show ?case by (blast intro: connect_inv)
next
  case (register c s km ty pv up pfn p s' km')
  then show ?case by (blast intro: register_inv)
next
  case (free_ptr fns g a s s')
  obtain A where A: "rm_abs s A" "dom (res_ctxs s) = addrs A" "0 < res_lock s" "\<not> irq s"
    using free_ptr(4) by (rule rm_invE)
  obtain b where "(a, b) \<in> set (all_items A)" using free_ptr(2,4) A(1,2) by (rule ownedE)
  from ResManFreeResByPtr_spec [OF A(1) this free_ptr(1) A(3,4)] free_ptr(3)
  have "rm_abs s' (drop_item a A)" "kept_env s s'" by auto
  then show ?case using rm_inv_kept [OF free_ptr(4) _ _ A(2)] by auto
next
  case (free_crit fns g c s crit ty pv up s')
  obtain A where A: "rm_abs s A" "dom (res_ctxs s) = addrs A" "0 < res_lock s" "\<not> irq s"
    using free_crit(4) by (rule rm_invE)
  obtain pp its where "(c, pp, its) \<in> set A" using A(2) free_crit(2) by (rule dom_ctxE)
  from ResManFreeResByCriteria_spec [OF A(1) this free_crit(1) A(3,4), of crit ty pv up] free_crit(3)
  have "rm_abs s' (upd_items c (filter (\<lambda>x. \<not> matches crit ty pv up x)) A)" "kept_env s s'" by auto
  then show ?case using rm_inv_kept [OF free_crit(4) _ _ A(2)] by auto
next
  case (dissociate fns g a s c e s')
  then show ?case by (blast intro: dissociate_inv)
next
  case (disconnect fns g c s s')
  then show ?case by (blast intro: disconnect_inv)
qed

interpretation rm: invariant_system rm_init rm_step rm_inv
  by unfold_locales (auto intro: rm_inv_init rm_inv_step)

subsection \<open>A concrete state\<close>

text \<open>
  The free functions of the examples record their calls; the state has two contexts, the newer one
  with three items.
\<close>

type_synonym call_log = "(ptr \<times> ptr \<times> u32) list"

definition log_fns :: "call_log free_fns" where
  "log_fns f pv up s = Some (PVRSRV_OK, s\<lparr>world := world s @ [(f, pv, up)]\<rparr>)"

definition log_call :: "ptr \<Rightarrow> ptr \<Rightarrow> u32 \<Rightarrow> call_log \<Rightarrow> call_log" where
  "log_call f pv up w = w @ [(f, pv, up)]"

lemma quiet_log [simp]: "quiet_fns log_fns log_call"
  by (simp add: quiet_fns_def log_fns_def log_call_def)

definition demo_item :: "u32 \<Rightarrow> ptr \<Rightarrow> RESMAN_ITEM" where
  "demo_item ty pv = \<lparr>ui32Flags = 0, ui32ResType = ty, pvParam = pv, ui32Param = 7, pfnFreeResource = 0x9000\<rparr>"

definition rm_demo_abs :: "rctx list" where
  "rm_demo_abs =
     [(0x2100, 0x5100,
        [(0x3200, demo_item RESMAN_TYPE_DEVICEMEM_CONTEXT 0x72), (0x3100, demo_item RESMAN_TYPE_SHARED_MEM_INFO 0x71),
         (0x3000, demo_item RESMAN_TYPE_EVENT_OBJECT 0x70)]),
      (0x2000, 0x5000, [])]"

definition rm_demo :: "call_log resman" where
  "rm_demo = \<lparr>gpsResList = 0x1000, res_list = [0x1000 \<mapsto> \<lparr>psContextList = 0x2100\<rparr>],
     res_ctxs = [0x2100 \<mapsto> \<lparr>ppsThis = Head 0x1000, psNext = 0x2000,
                             body = \<lparr>psPerProc = 0x5100, psResItemList = 0x3200\<rparr>\<rparr>,
                 0x2000 \<mapsto> \<lparr>ppsThis = NextOf 0x2100, psNext = NULL,
                             body = \<lparr>psPerProc = 0x5000, psResItemList = NULL\<rparr>\<rparr>],
     res_items = [0x3200 \<mapsto> \<lparr>ppsThis = Head 0x2100, psNext = 0x3100,
                              body = demo_item RESMAN_TYPE_DEVICEMEM_CONTEXT 0x72\<rparr>,
                  0x3100 \<mapsto> \<lparr>ppsThis = NextOf 0x3200, psNext = 0x3000,
                              body = demo_item RESMAN_TYPE_SHARED_MEM_INFO 0x71\<rparr>,
                  0x3000 \<mapsto> \<lparr>ppsThis = NextOf 0x3100, psNext = NULL,
                              body = demo_item RESMAN_TYPE_EVENT_OBJECT 0x70\<rparr>],
     res_lock = 1, irq = False, world = []\<rparr>"

lemma rm_demo_simps [simp]: "rm_abs rm_demo rm_demo_abs" "res_lock rm_demo = 1" "\<not> irq rm_demo"
  "world rm_demo = []"
  by (simp_all add: rm_abs_def rm_demo_def rm_demo_abs_def the_list_def)

definition rm_demo_start :: "call_log resman" where
  "rm_demo_start = fst (snd (ResManInit [0x1000] (rm_empty [])))"

definition rm_demo_connected :: "call_log resman" where
  "rm_demo_connected = rm_demo_start\<lparr>res_list := [0x1000 \<mapsto> \<lparr>psContextList = 0x2000\<rparr>],
     res_ctxs := [0x2000 \<mapsto> \<lparr>ppsThis = Head 0x1000, psNext = NULL,
                             body = \<lparr>psPerProc = 0x5000, psResItemList = NULL\<rparr>\<rparr>]\<rparr>"

lemma rm_demo_reachable: "reachable_from rm_init rm_step rm_demo_connected"
proof -
  have "rm_init rm_demo_start"
    unfolding rm_init_def rm_demo_start_def
    by (intro exI [of _ "[0x1000]"] exI [of _ "[]"]) (simp add: ResManInit_def rm_empty_def)
  moreover have "rm_step rm_demo_start rm_demo_connected"
    by (rule rm_step.connect [where km = "[0x2000]" and pp = "0x5000" and e = PVRSRV_OK
          and r = "Some 0x2000" and km' = "[]"])
       (simp_all add: rm_demo_start_def rm_demo_connected_def ResManInit_def rm_empty_def
         PVRSRVResManConnect_def ACQUIRE_SYNC_OBJ_def RELEASE_SYNC_OBJ_def the_list_def
         put_list_head_def Let_def)
  ultimately show ?thesis by (blast intro: reachable_from.intros)
qed

subsection \<open>Properties\<close>

text \<open>Registering a resource with a connected context, when the allocator answers with free
  memory, returns the new item, puts it at the front of that context's list with its type,
  parameters and free function, leaves every other context and the lock as they were, and a search
  for the item in that context then succeeds.\<close>

theorem ResManRegisterRes_correct:
  assumes "rm_abs s A" and "(c, pp, its) \<in> set A" and "0 < res_lock s" and "\<not> irq s"
    and "OSAllocMem km = (PVRSRV_OK, p, km')" and "p \<noteq> NULL" and "p \<notin> dom (res_items s)"
  shows "\<exists>s'. ResManRegisterRes c ty pv up pfn km s = Some (p, s', km') \<and>
           rm_abs s' (upd_items c (Cons (p, \<lparr>ui32Flags = 0, ui32ResType = ty, pvParam = pv,
                                            ui32Param = up, pfnFreeResource = pfn\<rparr>)) A) \<and>
           kept_env s s' \<and> world s' = world s \<and>
           ResManFindResourceByPtr c p s' = Some (PVRSRV_OK, s')"
proof -
  let ?b = "\<lparr>ui32Flags = 0, ui32ResType = ty, pvParam = pv, ui32Param = up, pfnFreeResource = pfn\<rparr>"
  have "p \<notin> addrs (all_items A)" using assms(7) rm_abs_all_items_dom [OF assms(1)] by blast
  from ResManRegisterRes_ok [OF assms(1-6) this, of ty pv up pfn] obtain s' where s':
    "ResManRegisterRes c ty pv up pfn km s = Some (p, s', km')"
    "rm_abs s' (upd_items c (Cons (p, ?b)) A)" "kept_env s s'" "world s' = world s"
    by blast
  have "(c, pp, (p, ?b) # its) \<in> set (upd_items c (Cons (p, ?b)) A)"
    using assms(2) by (force simp: upd_items_def)
  with s' assms(3,4,6) ResManFindResourceByPtr_spec [OF s'(2) this, of p] show ?thesis
    by (simp add: kept_env_def)
qed

theorem ResManRegisterRes_correct_witness:
  "\<exists>s'. ResManRegisterRes 0x2000 RESMAN_TYPE_EVENT_OBJECT 0x88 1 0x9000 [0x3300] rm_demo = Some (0x3300, s', []) \<and>
        ResManFindResourceByPtr 0x2000 0x3300 s' = Some (PVRSRV_OK, s')"
proof -
  have "(0x2000, 0x5000, []) \<in> set rm_demo_abs" "OSAllocMem [0x3300] = (PVRSRV_OK, 0x3300, [])"
    "(0x3300 :: ptr) \<notin> dom (res_items rm_demo)"
    by (simp_all add: rm_demo_abs_def rm_demo_def)
  from ResManRegisterRes_correct [OF rm_demo_simps(1) this(1) _ _ this(2) _ this(3),
      where ty = RESMAN_TYPE_EVENT_OBJECT and pv = "0x88" and up = 1 and pfn = "0x9000"]
  show ?thesis by auto
qed

text \<open>C13. Freeing by criteria ends, frees exactly the items of the context that match the criteria,
  calls their free functions once each in the order of the list, keeps the remaining items in order,
  and leaves no matching item behind; the lock is as before.\<close>

theorem ResManFreeResByCriteria_correct:
  assumes "rm_abs s A" and "(c, pp, its) \<in> set A"
    and "quiet_fns fns g" and "0 < res_lock s" and "\<not> irq s"
  shows "\<exists>s'. ResManFreeResByCriteria fns c crit ty pv up s = Some s' \<and>
           rm_abs s' (upd_items c (filter (\<lambda>x. \<not> crit_match crit ty pv up (snd x))) A) \<and>
           kept_env s s' \<and>
           dom (res_items s') = dom (res_items s) - addrs (filter (\<lambda>x. crit_match crit ty pv up (snd x)) its) \<and>
           world s' = run_frees g (filter (\<lambda>x. crit_match crit ty pv up (snd x)) its) (world s) \<and>
           find_res_by_crit c crit ty pv up s' = Some NULL"
proof -
  let ?f = "filter (\<lambda>x. \<not> crit_match crit ty pv up (snd x))"
  obtain s' where s': "ResManFreeResByCriteria fns c crit ty pv up s = Some s'"
    "rm_abs s' (upd_items c ?f A)" "kept_env s s'"
    "dom (res_items s') = dom (res_items s) - addrs (filter (\<lambda>x. crit_match crit ty pv up (snd x)) its)"
    "world s' = run_frees g (filter (\<lambda>x. crit_match crit ty pv up (snd x)) its) (world s)"
    using ResManFreeResByCriteria_spec [OF assms, of crit ty pv up] by blast
  have "(c, pp, ?f its) \<in> set (upd_items c ?f A)" using assms(2) by (force simp: upd_items_def)
  from find_res_by_crit_spec [OF s'(2) this, of crit ty pv up]
  have "find_res_by_crit c crit ty pv up s' = Some NULL" by (simp add: comp_def)
  with s' show ?thesis by blast
qed

theorem ResManFreeResByCriteria_correct_witness:
  "\<exists>s'. ResManFreeResByCriteria log_fns 0x2100 RESMAN_CRITERIA_RESTYPE RESMAN_TYPE_EVENT_OBJECT NULL 0 rm_demo = Some s' \<and>
        world s' = [(0x9000, 0x70, 7)] \<and> res_items s' 0x3000 = None \<and> res_items s' 0x3100 \<noteq> None"
proof -
  have m: "(0x2100, 0x5100, snd (snd (hd rm_demo_abs))) \<in> set rm_demo_abs"
    by (simp add: rm_demo_abs_def)
  have f: "filter (\<lambda>x. crit_match RESMAN_CRITERIA_RESTYPE RESMAN_TYPE_EVENT_OBJECT NULL 0 (snd x))
      (snd (snd (hd rm_demo_abs))) = [(0x3000, demo_item RESMAN_TYPE_EVENT_OBJECT 0x70)]"
    by (simp add: rm_demo_abs_def demo_item_def RESMAN_TYPE_defs)
  obtain s' where s': "ResManFreeResByCriteria log_fns 0x2100 RESMAN_CRITERIA_RESTYPE RESMAN_TYPE_EVENT_OBJECT NULL 0 rm_demo = Some s'"
    "dom (res_items s') = dom (res_items rm_demo) - {0x3000}"
    "world s' = run_frees log_call [(0x3000, demo_item RESMAN_TYPE_EVENT_OBJECT 0x70)] []"
    using ResManFreeResByCriteria_correct [OF rm_demo_simps(1) m quiet_log, of RESMAN_CRITERIA_RESTYPE RESMAN_TYPE_EVENT_OBJECT NULL 0]
    unfolding f by auto
  have "0x3000 \<notin> dom (res_items s')" "0x3100 \<in> dom (res_items s')"
    unfolding s'(2) by (simp_all add: rm_demo_def)
  then have "res_items s' 0x3000 = None" "res_items s' 0x3100 \<noteq> None"
    unfolding domIff by blast+
  with s' show ?thesis
    by (intro exI [of _ s']) (simp add: log_call_def demo_item_def)
qed

text \<open>C9. Disconnecting a process ends, removes its context from the list, and calls the free
  functions of its items type by type in the fixed order of the code, and within a type in the order
  of the list; exactly the items whose type is in that order are freed.\<close>

theorem PVRSRVResManDisconnect_order:
  assumes "rm_abs s A" and "(c, pp, its) \<in> set A"
    and "quiet_fns fns g" and "0 < res_lock s" and "\<not> irq s"
  shows "\<exists>s'. PVRSRVResManDisconnect fns c False s = Some s' \<and> rm_abs s' (drop_ctx c A) \<and>
           res_lock s' = res_lock s \<and> res_ctxs s' c = None \<and>
           world s' = run_frees g
             (concat (map (\<lambda>t. filter (\<lambda>x. ui32ResType (snd x) = t) its) disconnect_order)) (world s) \<and>
           dom (res_items s') =
             dom (res_items s) - addrs (filter (\<lambda>x. ui32ResType (snd x) \<in> set disconnect_order) its)"
proof -
  have "addrs (typed disconnect_order its) = addrs (filter (\<lambda>x. ui32ResType (snd x) \<in> set disconnect_order) its)"
    by (simp add: typed_set)
  with PVRSRVResManDisconnect_spec [OF assms] show ?thesis
    unfolding typed_def by (metis (no_types, lifting) DiffE domIff insertI1)
qed

theorem PVRSRVResManDisconnect_order_witness:
  "\<exists>s'. PVRSRVResManDisconnect log_fns 0x2100 False rm_demo = Some s' \<and>
        world s' = [(0x9000, 0x70, 7), (0x9000, 0x72, 7)] \<and> res_ctxs s' 0x2100 = None"
proof -
  have m: "(0x2100, 0x5100, snd (snd (hd rm_demo_abs))) \<in> set rm_demo_abs"
    by (simp add: rm_demo_abs_def)
  have f: "concat (map (\<lambda>t. filter (\<lambda>x. ui32ResType (snd x) = t) (snd (snd (hd rm_demo_abs)))) disconnect_order) =
      [(0x3000, demo_item RESMAN_TYPE_EVENT_OBJECT 0x70), (0x3200, demo_item RESMAN_TYPE_DEVICEMEM_CONTEXT 0x72)]"
    by (simp add: rm_demo_abs_def demo_item_def disconnect_order_def RESMAN_TYPE_defs)
  show ?thesis
    using PVRSRVResManDisconnect_order [OF rm_demo_simps(1) m quiet_log] unfolding f
    by (auto simp: log_call_def demo_item_def)
qed

text \<open>C15. After any sequence of connects, registrations, frees, dissociations and disconnects
  the lists pass the driver's own debug check: every back pointer is the address of the pointer that
  reaches its node, for contexts and items alike; and the lock is free again.\<close>

theorem reachable_resman_lists_valid:
  assumes "reachable_from rm_init rm_step s"
  shows "ValidateResList s = Some True \<and> res_lock s = 1"
  using rm.reachable_inv [OF assms] by (auto simp: rm_inv_def ValidateResList_abs)

theorem reachable_resman_lists_valid_witness:
  "ValidateResList rm_demo_connected = Some True \<and> res_lock rm_demo_connected = 1"
  using reachable_resman_lists_valid [OF rm_demo_reachable] .

text \<open>C30. Dissociating an item from its context in favour of another one calls no free function,
  moves the item to the front of the new context's list and nowhere else, and changes the outcome of
  the ownership check accordingly: the new context owns it, every other one does not.\<close>

theorem ResManDissociateRes_moves:
  assumes "rm_abs s A" and "(a, b) \<in> set (all_items A)" and "(c, pp, its) \<in> set A"
    and "0 < res_lock s" and "\<not> irq s"
  shows "\<exists>s'. ResManDissociateRes fns a c s = Some (PVRSRV_OK, s') \<and>
           rm_abs s' (upd_items c (Cons (a, b)) (drop_item a A)) \<and> world s' = world s \<and>
           res_lock s' = res_lock s \<and>
           (\<forall>c' \<in> addrs A. ResManFindResourceByPtr c' a s' =
              Some (if c' = c then PVRSRV_OK else PVRSRV_ERROR_NOT_OWNER, s'))"
proof -
  obtain s' where s': "ResManDissociateRes fns a c s = Some (PVRSRV_OK, s')"
    "rm_abs s' (upd_items c (Cons (a, b)) (drop_item a A))" "rest s s'"
    using ResManDissociateRes_move [OF assms(1-3)] by blast
  have a0: "a \<noteq> NULL"
    using assms(2) seg_node(1) [OF rm_abs_items(1) [OF assms(1)]] by (fastforce simp: all_items_def)
  have "ResManFindResourceByPtr c' a s' = Some (if c' = c then PVRSRV_OK else PVRSRV_ERROR_NOT_OWNER, s')"
    if c': "c' \<in> addrs A" for c'
  proof -
    from c' obtain pp' its' where "(c', pp', its') \<in> set A" by force
    from drop_item_ctx [OF this, of a]
    have m: "(c', pp', (if c' = c then Cons (a, b) else id) (filter (\<lambda>x. fst x \<noteq> a) its'))
        \<in> set (upd_items c (Cons (a, b)) (drop_item a A))"
      by (force simp: upd_items_def)
    have "a \<in> addrs ((if c' = c then Cons (a, b) else id) (filter (\<lambda>x. fst x \<noteq> a) its')) \<longleftrightarrow> c' = c"
      by auto
    with ResManFindResourceByPtr_spec [OF s'(2) m _ _ a0] assms(4,5) restD [OF s'(3)] show ?thesis
      by simp
  qed
  with s' restD [OF s'(3)] show ?thesis by blast
qed

theorem ResManDissociateRes_moves_witness:
  "\<exists>s'. ResManDissociateRes log_fns 0x3100 0x2000 rm_demo = Some (PVRSRV_OK, s') \<and> world s' = [] \<and>
        ResManFindResourceByPtr 0x2000 0x3100 s' = Some (PVRSRV_OK, s') \<and>
        ResManFindResourceByPtr 0x2100 0x3100 s' = Some (PVRSRV_ERROR_NOT_OWNER, s')"
proof -
  have m: "(0x3100, demo_item RESMAN_TYPE_SHARED_MEM_INFO 0x71) \<in> set (all_items rm_demo_abs)"
    "(0x2000, 0x5000, []) \<in> set rm_demo_abs" "addrs rm_demo_abs = {0x2100, 0x2000}"
    by (simp_all add: rm_demo_abs_def)
  show ?thesis
    using ResManDissociateRes_moves [OF rm_demo_simps(1) m(1,2), of log_fns] unfolding m(3) by auto
qed

text \<open>C31. Registering a resource and freeing it again by its pointer calls the registered free
  function exactly once, with the registered parameters, and restores the lists of every context.\<close>

theorem ResManRegisterRes_Free_roundtrip:
  assumes "rm_abs s A" and "(c, pp, its) \<in> set A" and "0 < res_lock s" and "\<not> irq s"
    and "OSAllocMem km = (PVRSRV_OK, p, km')" and "p \<noteq> NULL" and "p \<notin> dom (res_items s)"
    and "quiet_fns fns g"
  shows "\<exists>s1 s2. ResManRegisterRes c ty pv up pfn km s = Some (p, s1, km') \<and>
           ResManFreeResByPtr fns p s1 = Some s2 \<and> rm_abs s2 A \<and> kept_env s s2 \<and>
           dom (res_items s2) = dom (res_items s) \<and> world s2 = g pfn pv up (world s)"
proof -
  let ?b = "\<lparr>ui32Flags = 0, ui32ResType = ty, pvParam = pv, ui32Param = up, pfnFreeResource = pfn\<rparr>"
  have fr: "p \<notin> addrs (all_items A)" using assms(7) rm_abs_all_items_dom [OF assms(1)] by blast
  obtain As Bs where A: "A = As @ (c, pp, its) # Bs" "\<And>f. upd_items c f A = As @ (c, pp, f its) # Bs"
    using rm_abs_splitE [OF assms(1,2)] by blast
  from ResManRegisterRes_ok [OF assms(1-6) fr, of ty pv up pfn] A(2) obtain s1 where s1:
    "ResManRegisterRes c ty pv up pfn km s = Some (p, s1, km')"
    "rm_abs s1 (As @ (c, pp, [] @ (p, ?b) # its) # Bs)" "kept_env s s1" "world s1 = world s"
    "dom (res_items s1) = insert p (dom (res_items s))"
    by auto
  have "(p, ?b) \<in> set (all_items (As @ (c, pp, [] @ (p, ?b) # its) # Bs))" by simp
  from ResManFreeResByPtr_spec [OF s1(2) this assms(8)] s1(3) assms(3,4) obtain s2 where s2:
    "ResManFreeResByPtr fns p s1 = Some s2" "kept_env s1 s2"
    "rm_abs s2 (drop_item p (As @ (c, pp, [] @ (p, ?b) # its) # Bs))"
    "dom (res_items s2) = dom (res_items s1) - {p}" "world s2 = g pfn pv up (world s1)"
    by (auto simp: kept_env_def)
  have "rm_abs s2 A" using s2(3) drop_item_split [OF rm_absD(6) [OF s1(2)]] A(1) by simp
  moreover have "dom (res_items s2) = dom (res_items s)" using s1(5) s2(4) assms(7) by auto
  ultimately show ?thesis
    using s1 s2 kept_env_trans [OF s1(3) s2(2)] by metis
qed

theorem ResManRegisterRes_Free_roundtrip_witness:
  "\<exists>s1 s2. ResManRegisterRes 0x2000 RESMAN_TYPE_EVENT_OBJECT 0x88 1 0x9000 [0x3300] rm_demo = Some (0x3300, s1, []) \<and>
        ResManFreeResByPtr log_fns 0x3300 s1 = Some s2 \<and> rm_abs s2 rm_demo_abs \<and>
        world s2 = [(0x9000, 0x88, 1)]"
proof -
  have "(0x2000, 0x5000, []) \<in> set rm_demo_abs" "OSAllocMem [0x3300] = (PVRSRV_OK, 0x3300, [])"
    "(0x3300 :: ptr) \<notin> dom (res_items rm_demo)"
    by (simp_all add: rm_demo_abs_def rm_demo_def)
  from ResManRegisterRes_Free_roundtrip [OF rm_demo_simps(1) this(1) _ _ this(2) _ this(3) quiet_log,
      where ty = RESMAN_TYPE_EVENT_OBJECT and pv = "0x88" and up = 1 and pfn = "0x9000"]
  show ?thesis by (auto simp: log_call_def)
qed

text \<open>Unlinking an item whose back pointer leads into a context that is gone.\<close>

lemma item_unlink_freed:
  assumes "res_items s p = Some m" and "ppsThis m = Head c" and "res_ctxs s c = None"
  shows "item_unlink p s = None"
proof (cases "psNext m = NULL")
  case True
  with assms show ?thesis by (simp add: item_unlink_def item_put_slot_def put_item_head_def)
next
  case False
  then show ?thesis using assms
    by (cases "res_items s (psNext m)"; cases "psNext m = p")
       (simp_all add: item_unlink_def item_set_this_def set_this_def item_put_slot_def put_item_head_def)
qed

text \<open>C36. A shared memory record that its process still holds when it disconnects survives the
  disconnect, whatever else the process holds: its type is missing from the order in which the
  disconnect frees the items, so its free function is not called and the item stays allocated, but no
  context lists it any more. The first of the items left over this way keeps its back pointer into the
  context, which is freed, so that freeing that item afterwards goes through freed memory.\<close>

theorem PVRSRVResManDisconnect_leaks_shared_mem_info:
  assumes "rm_abs s A" and "(c, pp, its) \<in> set A" and "(a, b) \<in> set its"
    and "ui32ResType b = RESMAN_TYPE_SHARED_MEM_INFO"
    and "quiet_fns fns g" and "0 < res_lock s" and "\<not> irq s"
  shows "\<exists>s' A' n p m. PVRSRVResManDisconnect fns c False s = Some s' \<and> rm_abs s' A' \<and> c \<notin> dom (res_ctxs s') \<and>
     world s' = run_frees g (typed disconnect_order its) (world s) \<and> (a, b) \<notin> set (typed disconnect_order its) \<and>
     res_items s' a = Some n \<and> body n = b \<and> a \<notin> addrs (all_items A') \<and>
     p = fst (hd (filter (\<lambda>x. ui32ResType (snd x) \<notin> set disconnect_order) its)) \<and>
     res_items s' p = Some m \<and> ppsThis m = Head c \<and> ResManFreeResByPtr fns p s' = None"
proof -
  let ?left = "filter (\<lambda>x. ui32ResType (snd x) \<notin> set disconnect_order) its"
  have nt: "ui32ResType b \<notin> set disconnect_order"
    unfolding assms(4) by (simp add: disconnect_order_def RESMAN_TYPE_defs)
  then have l: "(a, b) \<in> set ?left" "(a, b) \<notin> set (typed disconnect_order its)"
    using assms(3) by (auto simp: typed_set)
  obtain s' where s': "PVRSRVResManDisconnect fns c False s = Some s'" "rm_abs s' (drop_ctx c A)"
    "seg (res_items s') (Head c) ?left NULL" "dom (res_ctxs s') = dom (res_ctxs s) - {c}"
    "world s' = run_frees g (typed disconnect_order its) (world s)"
    using PVRSRVResManDisconnect_spec [OF assms(1,2,5-7)] by blast
  have c: "res_ctxs s' c = None" using s'(4) by (metis DiffE domIff insertI1)
  obtain n where n: "res_items s' a = Some n" "body n = b" using seg_node [OF s'(3) l(1)] by blast
  obtain As Bs where A: "A = As @ (c, pp, its) # Bs" "drop_ctx c A = As @ Bs"
    using rm_abs_splitE [OF assms(1,2)] by blast
  have "all_items (As @ (c, pp, its) # Bs) = all_items As @ its @ all_items Bs"
    "all_items (As @ Bs) = all_items As @ all_items Bs" by (simp_all add: all_items_def)
  moreover have "distinct (map fst (all_items (As @ (c, pp, its) # Bs)))"
    using assms(1) A(1) unfolding rm_abs_def by blast
  moreover have "a \<in> addrs its" using assms(3) by force
  ultimately have un: "a \<notin> addrs (all_items (drop_ctx c A))" unfolding A(2) by auto
  obtain p d xs where left: "?left = (p, d) # xs" using l(1) by (cases ?left) auto
  obtain m where m: "res_items s' p = Some m" "ppsThis m = Head c"
    using s'(3) unfolding left by auto
  have u: "item_unlink p (s'\<lparr>res_lock := x\<rparr>) = None" for x
    by (rule item_unlink_freed [OF _ m(2)]) (simp_all add: m(1) c)
  have "ResManFreeResByPtr fns p s' = None"
    by (simp add: ResManFreeResByPtr_def FreeResourceByPtr_def ACQUIRE_SYNC_OBJ_def u)
  with s' c n un m left l(2) show ?thesis
    by (intro exI [of _ s'] exI [of _ "drop_ctx c A"] exI [of _ n] exI [of _ p] exI [of _ m]) auto
qed

text \<open>Of three items the shared memory record is left over, and it is the first one left.\<close>

theorem PVRSRVResManDisconnect_leaks_shared_mem_info_witness:
  "\<exists>s' m. PVRSRVResManDisconnect log_fns 0x2100 False rm_demo = Some s' \<and> 0x2100 \<notin> dom (res_ctxs s') \<and>
     res_items s' 0x3100 = Some m \<and> ppsThis m = Head 0x2100 \<and> ResManFreeResByPtr log_fns 0x3100 s' = None"
proof -
  let ?its = "[(0x3200, demo_item RESMAN_TYPE_DEVICEMEM_CONTEXT 0x72), (0x3100, demo_item RESMAN_TYPE_SHARED_MEM_INFO 0x71),
         (0x3000, demo_item RESMAN_TYPE_EVENT_OBJECT 0x70)]"
  have "(0x2100, 0x5100, ?its) \<in> set rm_demo_abs" "0 < res_lock rm_demo" "\<not> irq rm_demo"
    by (simp_all add: rm_demo_abs_def rm_demo_def)
  note th = PVRSRVResManDisconnect_leaks_shared_mem_info [OF rm_demo_simps(1) this(1) _ _ quiet_log this(2,3),
      where a = "0x3100" and b = "demo_item RESMAN_TYPE_SHARED_MEM_INFO 0x71"]
  have "fst (hd (filter (\<lambda>x. ui32ResType (snd x) \<notin> set disconnect_order) ?its)) = 0x3100"
    by (simp add: demo_item_def disconnect_order_def RESMAN_TYPE_defs)
  with th show ?thesis by (auto simp: demo_item_def)
qed

end
