(* ===== verification/Pvr_Queue.thy ===== *)
theory Pvr_Queue
  imports Pvr_Prelude "HOL-Library.Monad_Syntax"
begin

text \<open>
  The command queues of \<^verbatim>\<open>src/pvr/queue.c\<close>: ring buffers of variable-size commands, the
  dispatch of commands whose sync objects are up to date, and the registration of the functions that
  execute them. A queue's buffer is a map from byte offsets to the commands written there, and a
  write destroys every command whose bytes it overlaps. \<open>None\<close> is an access outside an object, a
  free of memory that is not allocated, or a loop that does not end. The functions of display
  drivers and devices are the parameter \<open>drv\<close>, acting on the state \<open>q_world\<close> of the rest of
  the system and, by the completions they call, on the queues; the values of the volatile read
  offset that a waiting loop sees, one per turn until the time is up, are the parameter \<open>polls\<close>.
\<close>

subsection \<open>Data\<close>

record PVRSRV_SYNC_DATA =
  ui32WriteOpsPending :: u32
  ui32WriteOpsComplete :: u32
  ui32ReadOpsPending :: u32
  ui32ReadOpsComplete :: u32

record PVRSRV_SYNC_OBJECT =
  psKernelSyncInfoKM :: ptr
  so_WriteOpsPending :: u32
  so_ReadOpsPending :: u32

text \<open>A command with the sync object arrays that follow it in the buffer.\<close>

record PVRSRV_COMMAND =
  ui32CmdSize :: u32
  ui32DevIndex :: u32
  CommandType :: u32
  ui32DstSyncCount :: u32
  ui32SrcSyncCount :: u32
  psDstSync :: ptr
  psSrcSync :: ptr
  ui32DataSize :: u32
  ui32ProcessID :: u32
  pvData :: ptr
  dst_array :: "PVRSRV_SYNC_OBJECT list"
  src_array :: "PVRSRV_SYNC_OBJECT list"

record PVRSRV_QUEUE_INFO =
  pvLinQueueKM :: ptr
  pvLinQueueUM :: ptr
  ui32ReadOffset :: u32
  ui32WriteOffset :: u32
  ui32QueueSize :: u32
  q_ProcessID :: u32
  lin :: "u32 \<Rightarrow> PVRSRV_COMMAND option"

record COMMAND_COMPLETE_DATA =
  bInUse :: bool
  cc_DstSyncCount :: u32
  cc_SrcSyncCount :: u32
  cc_dst :: "PVRSRV_SYNC_OBJECT list"
  cc_src :: "PVRSRV_SYNC_OBJECT list"
  cc_max_dst :: u32
  cc_max_src :: u32
  ui32AllocSize :: u32

record PVRSRV_DEVICE_NODE =
  dn_addr :: ptr
  bReProcessDeviceCommandComplete :: bool
  pfnDeviceCommandComplete :: ptr
  is_display :: bool
  pfnSetDCState :: ptr
  hExtDevice :: ptr

text \<open>
  The part of \<^verbatim>\<open>struct SYS_DATA\<close> the queues use: the list of queues with their addresses, the
  sync data behind the kernel sync infos, and per device the arrays of command functions and of
  completion records, by address.
\<close>

record 'w SYS_DATA =
  sys_up :: bool
  psQueueList :: "(ptr \<times> PVRSRV_QUEUE_INFO) list"
  syncs :: "ptr \<Rightarrow> PVRSRV_SYNC_DATA option"
  psDeviceNodeList :: "PVRSRV_DEVICE_NODE list"
  ppfnCmdProcList :: "u32 \<Rightarrow> ptr"
  ppsCmdCompleteData :: "u32 \<Rightarrow> ptr"
  proc_arrays :: "ptr \<Rightarrow> ptr list option"
  cc_arrays :: "ptr \<Rightarrow> ptr list option"
  cc_data :: "ptr \<Rightarrow> COMMAND_COMPLETE_DATA option"
  misr_count :: nat
  q_world :: 'w

text \<open>
  A command function of a display driver runs on the state \<open>q_world\<close>, and while it runs it may
  complete commands through the pointer \<^verbatim>\<open>pfnPVRSRVCmdComplete\<close> that the services hand out, its own
  command included. It is therefore a tree: it returns its result, or calls the completion of a
  cookie and goes on with the state that the completion leaves, or accesses memory that is not there.
\<close>

datatype 'w cmd_act =
    Return bool 'w
  | CmdComplete ptr bool 'w "'w \<Rightarrow> 'w cmd_act"
  | Fault

record 'w drv =
  cmd_fn :: "ptr \<Rightarrow> ptr \<Rightarrow> u32 \<Rightarrow> ptr \<Rightarrow> 'w \<Rightarrow> 'w cmd_act"
  complete_fn :: "ptr \<Rightarrow> ptr \<Rightarrow> 'w \<Rightarrow> 'w"
  dcstate_fn :: "ptr \<Rightarrow> ptr \<Rightarrow> u32 \<Rightarrow> 'w \<Rightarrow> 'w"

definition PVRSRV_MAX_CMD_SIZE :: u32 where "PVRSRV_MAX_CMD_SIZE = 1024"
definition SYS_DEVICE_COUNT :: u32 where "SYS_DEVICE_COUNT = 15"
definition DC_STATE_NO_FLUSH_COMMANDS :: u32 where "DC_STATE_NO_FLUSH_COMMANDS = 0"
definition DC_STATE_FLUSH_COMMANDS :: u32 where "DC_STATE_FLUSH_COMMANDS = 1"

text \<open>Sizes of the structures on the 32-bit target.\<close>

definition sizeof_COMMAND :: u32 where "sizeof_COMMAND = 40"
definition sizeof_SYNC_OBJECT :: u32 where "sizeof_SYNC_OBJECT = 12"
definition sizeof_COMPLETE_DATA :: u32 where "sizeof_COMPLETE_DATA = 24"

subsection \<open>Ring arithmetic\<close>

definition GET_SPACE_IN_CMDQ :: "PVRSRV_QUEUE_INFO \<Rightarrow> u32" where
  "GET_SPACE_IN_CMDQ q =
     ((ui32ReadOffset q - ui32WriteOffset q) + (ui32QueueSize q - 1)) AND (ui32QueueSize q - 1)"

definition UPDATE_QUEUE_WOFF :: "PVRSRV_QUEUE_INFO \<Rightarrow> u32 \<Rightarrow> PVRSRV_QUEUE_INFO" where
  "UPDATE_QUEUE_WOFF q n =
     q\<lparr>ui32WriteOffset := (ui32WriteOffset q + n) AND (ui32QueueSize q - 1)\<rparr>"

definition UPDATE_QUEUE_ROFF :: "PVRSRV_QUEUE_INFO \<Rightarrow> u32 \<Rightarrow> PVRSRV_QUEUE_INFO" where
  "UPDATE_QUEUE_ROFF q n =
     q\<lparr>ui32ReadOffset := (ui32ReadOffset q + n) AND (ui32QueueSize q - 1)\<rparr>"

definition SYNCOPS_STALE :: "u32 \<Rightarrow> u32 \<Rightarrow> bool" where
  "SYNCOPS_STALE complete pending \<longleftrightarrow> complete \<ge> pending"

function np2_loop :: "u32 \<Rightarrow> u32 \<Rightarrow> u32" where
  "np2_loop temp result =
     (if temp \<noteq> 0 then np2_loop (drop_bit 1 temp) (push_bit 1 result) else result)"
  by pat_completeness auto
termination
  by (relation "measure (\<lambda>(t, _). unat t)")
     (auto simp: drop_bit_eq_div unat_div word_less_nat_alt unat_gt_0 [symmetric])

definition NearestPower2 :: "u32 \<Rightarrow> u32" where
  "NearestPower2 v = (if v = 0 then 0 else np2_loop (v - 1) 1)"

subsection \<open>Creating and destroying queues\<close>

definition PVRSRVCreateCommandQueueKM ::
  "u32 \<Rightarrow> u32 \<Rightarrow> kmem \<Rightarrow> 'w SYS_DATA \<Rightarrow> PVRSRV_ERROR \<times> ptr option \<times> 'w SYS_DATA \<times> kmem" where
  "PVRSRVCreateCommandQueueKM sz pid km s =
     (if \<not> sys_up s then (PVRSRV_ERROR_GENERIC, None, s, km)
      else case OSAllocMem km of (e1, p, km) \<Rightarrow>
        if e1 \<noteq> PVRSRV_OK then (PVRSRV_ERROR_GENERIC, None, s, km)
        else case OSAllocMem km of (e2, buf, km) \<Rightarrow>
          if e2 \<noteq> PVRSRV_OK then (PVRSRV_ERROR_GENERIC, None, s, km)
          else (PVRSRV_OK, Some p,
                s\<lparr>psQueueList := (p, \<lparr>pvLinQueueKM = buf, pvLinQueueUM = buf, ui32ReadOffset = 0,
                    ui32WriteOffset = 0, ui32QueueSize = NearestPower2 sz, q_ProcessID = pid,
                    lin = Map.empty\<rparr>) # psQueueList s\<rparr>, km))"

fun poll_empty :: "u32 list \<Rightarrow> PVRSRV_QUEUE_INFO \<Rightarrow> bool \<times> PVRSRV_QUEUE_INFO" where
  "poll_empty [] q = (True, q)"
| "poll_empty (r # rs) q =
     (let q = q\<lparr>ui32ReadOffset := r\<rparr>
      in if ui32ReadOffset q = ui32WriteOffset q then (False, q) else poll_empty rs q)"

fun remove_queue :: "ptr \<Rightarrow> (ptr \<times> PVRSRV_QUEUE_INFO) list \<Rightarrow> (ptr \<times> PVRSRV_QUEUE_INFO) list option" where
  "remove_queue p [] = None"
| "remove_queue p ((a, q) # qs) =
     (if a = p then Some qs else map_option (Cons (a, q)) (remove_queue p qs))"

definition put_queue :: "ptr \<Rightarrow> PVRSRV_QUEUE_INFO \<Rightarrow> 'w SYS_DATA \<Rightarrow> 'w SYS_DATA" where
  "put_queue p q s =
     s\<lparr>psQueueList := map (\<lambda>(a, r). (a, if a = p then q else r)) (psQueueList s)\<rparr>"

definition PVRSRVDestroyCommandQueueKM ::
  "u32 list \<Rightarrow> ptr \<Rightarrow> PVRSRV_QUEUE_INFO \<Rightarrow> 'w SYS_DATA \<Rightarrow> PVRSRV_ERROR \<times> 'w SYS_DATA" where
  "PVRSRVDestroyCommandQueueKM polls p q s =
     (if \<not> sys_up s then (PVRSRV_ERROR_GENERIC, s)
      else case poll_empty polls q of (bTimeout, q) \<Rightarrow>
        let s = put_queue p q s
        in if bTimeout then (PVRSRV_ERROR_CANNOT_FLUSH_QUEUE, s)
           else case remove_queue p (psQueueList s) of
             None \<Rightarrow> (PVRSRV_ERROR_INVALID_PARAMS, s)
           | Some qs \<Rightarrow> (PVRSRV_OK, s\<lparr>psQueueList := qs\<rparr>))"

subsection \<open>Inserting and submitting commands\<close>

fun poll_space :: "u32 list \<Rightarrow> u32 \<Rightarrow> PVRSRV_QUEUE_INFO \<Rightarrow> bool \<times> PVRSRV_QUEUE_INFO" where
  "poll_space [] n q = (True, q)"
| "poll_space (r # rs) n q =
     (let q = q\<lparr>ui32ReadOffset := r\<rparr>
      in if GET_SPACE_IN_CMDQ q > n then (False, q) else poll_space rs n q)"

definition align4 :: "u32 \<Rightarrow> u32" where
  "align4 n = (n + 3) AND 0xFFFFFFFC"

definition PVRSRVGetQueueSpaceKM ::
  "u32 list \<Rightarrow> PVRSRV_QUEUE_INFO \<Rightarrow> u32 \<Rightarrow> PVRSRV_ERROR \<times> ptr option \<times> PVRSRV_QUEUE_INFO" where
  "PVRSRVGetQueueSpaceKM polls q ui32ParamSize =
     (let n = align4 ui32ParamSize
      in if n > PVRSRV_MAX_CMD_SIZE then (PVRSRV_ERROR_CMD_TOO_BIG, None, q)
         else case poll_space polls n q of (bTimeout, q) \<Rightarrow>
           if bTimeout then (PVRSRV_ERROR_CANNOT_GET_QUEUE_SPACE, Some NULL, q)
           else (PVRSRV_OK, Some (ui32WriteOffset q + pvLinQueueUM q), q))"

definition PVRSRVGetWriteOpsPending ::
  "ptr \<Rightarrow> bool \<Rightarrow> (ptr \<Rightarrow> PVRSRV_SYNC_DATA option) \<Rightarrow> (u32 \<times> (ptr \<Rightarrow> PVRSRV_SYNC_DATA option)) option" where
  "PVRSRVGetWriteOpsPending i bIsReadOp sy = do {
     d \<leftarrow> sy i;
     Some (ui32WriteOpsPending d,
           if bIsReadOp then sy
           else sy(i \<mapsto> d\<lparr>ui32WriteOpsPending := ui32WriteOpsPending d + 1\<rparr>)) }"

definition PVRSRVGetReadOpsPending ::
  "ptr \<Rightarrow> bool \<Rightarrow> (ptr \<Rightarrow> PVRSRV_SYNC_DATA option) \<Rightarrow> (u32 \<times> (ptr \<Rightarrow> PVRSRV_SYNC_DATA option)) option" where
  "PVRSRVGetReadOpsPending i bIsReadOp sy = do {
     d \<leftarrow> sy i;
     Some (ui32ReadOpsPending d,
           if bIsReadOp then sy(i \<mapsto> d\<lparr>ui32ReadOpsPending := ui32ReadOpsPending d + 1\<rparr>)
           else sy) }"

fun fill_syncs ::
  "bool \<Rightarrow> ptr list \<Rightarrow> (ptr \<Rightarrow> PVRSRV_SYNC_DATA option) \<Rightarrow>
   (PVRSRV_SYNC_OBJECT list \<times> (ptr \<Rightarrow> PVRSRV_SYNC_DATA option)) option" where
  "fill_syncs bIsReadOp [] sy = Some ([], sy)"
| "fill_syncs bIsReadOp (i # is) sy = do {
     (w, sy) \<leftarrow> PVRSRVGetWriteOpsPending i bIsReadOp sy;
     (r, sy) \<leftarrow> PVRSRVGetReadOpsPending i bIsReadOp sy;
     (os, sy) \<leftarrow> fill_syncs bIsReadOp is sy;
     Some (\<lparr>psKernelSyncInfoKM = i, so_WriteOpsPending = w, so_ReadOpsPending = r\<rparr> # os, sy) }"

text \<open>Writing a command of \<open>n\<close> bytes at offset \<open>w\<close> destroys the commands it overlaps.\<close>

definition overlaps :: "u32 \<Rightarrow> u32 \<Rightarrow> u32 \<Rightarrow> u32 \<Rightarrow> bool" where
  "overlaps o1 n1 o2 n2 \<longleftrightarrow> unat o1 < unat o2 + unat n2 \<and> unat o2 < unat o1 + unat n1"

definition write_cmd :: "u32 \<Rightarrow> PVRSRV_COMMAND \<Rightarrow> PVRSRV_QUEUE_INFO \<Rightarrow> PVRSRV_QUEUE_INFO" where
  "write_cmd w c q =
     q\<lparr>lin := (\<lambda>off. case lin q off of None \<Rightarrow> None
                 | Some c' \<Rightarrow> if overlaps off (ui32CmdSize c') w (ui32CmdSize c) then None else Some c')
              (w \<mapsto> c)\<rparr>"

definition command_size :: "u32 \<Rightarrow> u32 \<Rightarrow> u32 \<Rightarrow> u32" where
  "command_size nd ns data = sizeof_COMMAND + (nd + ns) * sizeof_SYNC_OBJECT + align4 data"

definition PVRSRVInsertCommandKM ::
  "u32 list \<Rightarrow> u32 \<Rightarrow> PVRSRV_QUEUE_INFO \<Rightarrow> u32 \<Rightarrow> 16 word \<Rightarrow> ptr list \<Rightarrow> ptr list \<Rightarrow> u32 \<Rightarrow>
   (ptr \<Rightarrow> PVRSRV_SYNC_DATA option) \<Rightarrow>
   (PVRSRV_ERROR \<times> ptr option \<times> PVRSRV_QUEUE_INFO \<times> (ptr \<Rightarrow> PVRSRV_SYNC_DATA option)) option" where
  "PVRSRVInsertCommandKM polls pid q devIndex ctype apsDstSync apsSrcSync dataSize sy =
     (let nd = of_nat (length apsDstSync); ns = of_nat (length apsSrcSync);
          sz = command_size nd ns dataSize
      in case PVRSRVGetQueueSpaceKM polls q sz of (e, space, q) \<Rightarrow>
        if e \<noteq> PVRSRV_OK then Some (e, None, q, sy)
        else do {
          (dst, sy) \<leftarrow> fill_syncs False apsDstSync sy;
          (src, sy) \<leftarrow> fill_syncs True apsSrcSync sy;
          let p = ui32WriteOffset q + pvLinQueueUM q;
          let c = \<lparr>ui32CmdSize = sz, ui32DevIndex = devIndex, CommandType = ucast ctype,
                   ui32DstSyncCount = nd, ui32SrcSyncCount = ns,
                   psDstSync = p + sizeof_COMMAND,
                   psSrcSync = p + sizeof_COMMAND + nd * sizeof_SYNC_OBJECT,
                   ui32DataSize = align4 dataSize, ui32ProcessID = pid,
                   pvData = p + sizeof_COMMAND + nd * sizeof_SYNC_OBJECT + ns * sizeof_SYNC_OBJECT,
                   dst_array = dst, src_array = src\<rparr>;
          Some (PVRSRV_OK, Some p, write_cmd (ui32WriteOffset q) c q, sy) })"

text \<open>The command passed in is the one at the write offset of the queue.\<close>

definition PVRSRVSubmitCommandKM :: "PVRSRV_QUEUE_INFO \<Rightarrow> (PVRSRV_ERROR \<times> PVRSRV_QUEUE_INFO) option" where
  "PVRSRVSubmitCommandKM q = do {
     c \<leftarrow> lin q (ui32WriteOffset q);
     let p = pvLinQueueKM q + ui32WriteOffset q + sizeof_COMMAND;
     let c = (if ui32DstSyncCount c > 0 then c\<lparr>psDstSync := p\<rparr> else c);
     let c = (if ui32SrcSyncCount c > 0
              then c\<lparr>psSrcSync := p + ui32DstSyncCount c * sizeof_SYNC_OBJECT\<rparr> else c);
     let c = c\<lparr>pvData := p + ui32DstSyncCount c * sizeof_SYNC_OBJECT
                          + ui32SrcSyncCount c * sizeof_SYNC_OBJECT\<rparr>;
     let q = q\<lparr>lin := (lin q)(ui32WriteOffset q \<mapsto> c)\<rparr>;
     Some (PVRSRV_OK, UPDATE_QUEUE_WOFF q (ui32CmdSize c)) }"

subsection \<open>Completing commands\<close>

fun bump_writes :: "PVRSRV_SYNC_OBJECT list \<Rightarrow> (ptr \<Rightarrow> PVRSRV_SYNC_DATA option) \<Rightarrow> (ptr \<Rightarrow> PVRSRV_SYNC_DATA option) option" where
  "bump_writes [] sy = Some sy"
| "bump_writes (ob # obs) sy = do {
     d \<leftarrow> sy (psKernelSyncInfoKM ob);
     bump_writes obs (sy(psKernelSyncInfoKM ob \<mapsto> d\<lparr>ui32WriteOpsComplete := ui32WriteOpsComplete d + 1\<rparr>)) }"

fun bump_reads :: "PVRSRV_SYNC_OBJECT list \<Rightarrow> (ptr \<Rightarrow> PVRSRV_SYNC_DATA option) \<Rightarrow> (ptr \<Rightarrow> PVRSRV_SYNC_DATA option) option" where
  "bump_reads [] sy = Some sy"
| "bump_reads (ob # obs) sy = do {
     d \<leftarrow> sy (psKernelSyncInfoKM ob);
     bump_reads obs (sy(psKernelSyncInfoKM ob \<mapsto> d\<lparr>ui32ReadOpsComplete := ui32ReadOpsComplete d + 1\<rparr>)) }"

fun run_complete :: "'w drv \<Rightarrow> bool \<Rightarrow> PVRSRV_DEVICE_NODE list \<Rightarrow> 'w \<Rightarrow> 'w" where
  "run_complete drv always [] w = w"
| "run_complete drv always (n # ns) w =
     run_complete drv always ns
       (if (always \<or> bReProcessDeviceCommandComplete n) \<and> pfnDeviceCommandComplete n \<noteq> NULL
        then complete_fn drv (pfnDeviceCommandComplete n) (dn_addr n) w else w)"

definition PVRSRVCommandCompleteCallbacks :: "'w drv \<Rightarrow> 'w SYS_DATA \<Rightarrow> 'w SYS_DATA" where
  "PVRSRVCommandCompleteCallbacks drv s =
     (if \<not> sys_up s then s
      else s\<lparr>q_world := run_complete drv True (psDeviceNodeList s) (q_world s)\<rparr>)"

definition PVRSRVCommandCompleteKM :: "'w drv \<Rightarrow> ptr \<Rightarrow> bool \<Rightarrow> 'w SYS_DATA \<Rightarrow> 'w SYS_DATA option" where
  "PVRSRVCommandCompleteKM drv hCmdCookie bScheduleMISR s =
     (if \<not> sys_up s then Some s
      else do {
        d \<leftarrow> cc_data s hCmdCookie;
        sy \<leftarrow> bump_writes (cc_dst d) (syncs s);
        sy \<leftarrow> bump_reads (cc_src d) sy;
        let s = s\<lparr>syncs := sy, cc_data := (cc_data s)(hCmdCookie \<mapsto> d\<lparr>bInUse := False\<rparr>)\<rparr>;
        let s = PVRSRVCommandCompleteCallbacks drv s;
        Some (if bScheduleMISR then s\<lparr>misr_count := misr_count s + 1\<rparr> else s) })"

text \<open>Running a command function: the completions it calls act on the queues' own state.\<close>

primrec run_act :: "'w drv \<Rightarrow> 'w cmd_act \<Rightarrow> 'w SYS_DATA \<Rightarrow> (bool \<times> 'w SYS_DATA) option" where
  "run_act drv (Return ok w) s = Some (ok, s\<lparr>q_world := w\<rparr>)"
| "run_act drv (CmdComplete hCmdCookie bScheduleMISR w k) s =
     (case PVRSRVCommandCompleteKM drv hCmdCookie bScheduleMISR (s\<lparr>q_world := w\<rparr>) of
        None \<Rightarrow> None
      | Some s \<Rightarrow> run_act drv (k (q_world s)) s)"
| "run_act drv Fault s = None"

subsection \<open>Dispatching commands\<close>

text \<open>The test of one sync object, the same in the loops over destinations and sources.\<close>

definition sync_blocked ::
  "bool \<Rightarrow> (ptr \<Rightarrow> PVRSRV_SYNC_DATA option) \<Rightarrow> PVRSRV_SYNC_OBJECT \<Rightarrow> bool option" where
  "sync_blocked bFlush sy ob = do {
     d \<leftarrow> sy (psKernelSyncInfoKM ob);
     Some ((ui32WriteOpsComplete d \<noteq> so_WriteOpsPending ob \<or> ui32ReadOpsComplete d \<noteq> so_ReadOpsPending ob) \<and>
           (\<not> bFlush \<or> \<not> SYNCOPS_STALE (ui32WriteOpsComplete d) (so_WriteOpsPending ob) \<or>
            \<not> SYNCOPS_STALE (ui32ReadOpsComplete d) (so_ReadOpsPending ob))) }"

fun any_blocked ::
  "bool \<Rightarrow> (ptr \<Rightarrow> PVRSRV_SYNC_DATA option) \<Rightarrow> PVRSRV_SYNC_OBJECT list \<Rightarrow> bool option" where
  "any_blocked bFlush sy [] = Some False"
| "any_blocked bFlush sy (ob # obs) = do {
     b \<leftarrow> sync_blocked bFlush sy ob;
     if b then Some True else any_blocked bFlush sy obs }"

definition cc_of :: "'w SYS_DATA \<Rightarrow> u32 \<Rightarrow> u32 \<Rightarrow> ptr option" where
  "cc_of s dev ctype = do {
     arr \<leftarrow> cc_arrays s (ppsCmdCompleteData s dev);
     if unat ctype < length arr then Some (arr ! unat ctype) else None }"

definition proc_of :: "'w SYS_DATA \<Rightarrow> u32 \<Rightarrow> u32 \<Rightarrow> ptr option" where
  "proc_of s dev ctype = do {
     arr \<leftarrow> proc_arrays s (ppfnCmdProcList s dev);
     if unat ctype < length arr then Some (arr ! unat ctype) else None }"

definition PVRSRVProcessCommand ::
  "'w drv \<Rightarrow> 'w SYS_DATA \<Rightarrow> PVRSRV_COMMAND \<Rightarrow> bool \<Rightarrow> (PVRSRV_ERROR \<times> 'w SYS_DATA) option" where
  "PVRSRVProcessCommand drv s c bFlush = do {
     b \<leftarrow> any_blocked bFlush (syncs s) (dst_array c);
     if b then Some (PVRSRV_ERROR_FAILED_DEPENDENCIES, s)
     else do {
       b \<leftarrow> any_blocked bFlush (syncs s) (src_array c);
       if b then Some (PVRSRV_ERROR_FAILED_DEPENDENCIES, s)
       else if ui32DevIndex c \<ge> SYS_DEVICE_COUNT then Some (PVRSRV_ERROR_INVALID_PARAMS, s)
       else do {
         a \<leftarrow> cc_of s (ui32DevIndex c) (CommandType c);
         d \<leftarrow> cc_data s a;
         if bInUse d then Some (PVRSRV_ERROR_FAILED_DEPENDENCIES, s)
         else if ui32DstSyncCount c > cc_max_dst d \<or> ui32SrcSyncCount c > cc_max_src d then None
         else do {
           let d = d\<lparr>bInUse := True, cc_DstSyncCount := ui32DstSyncCount c, cc_dst := dst_array c,
                     cc_SrcSyncCount := ui32SrcSyncCount c, cc_src := src_array c\<rparr>;
           let s = s\<lparr>cc_data := (cc_data s)(a \<mapsto> d)\<rparr>;
           f \<leftarrow> proc_of s (ui32DevIndex c) (CommandType c);
           (ok, s) \<leftarrow> run_act drv (cmd_fn drv f a (ui32DataSize c) (pvData c) (q_world s)) s;
           if \<not> ok
           then do {
             d \<leftarrow> cc_data s a;
             Some (PVRSRV_ERROR_CMD_NOT_PROCESSED,
                   s\<lparr>cc_data := (cc_data s)(a \<mapsto> d\<lparr>bInUse := False\<rparr>)\<rparr>) }
           else Some (PVRSRV_OK, s) } } } }"

fun set_dc_state :: "'w drv \<Rightarrow> u32 \<Rightarrow> PVRSRV_DEVICE_NODE list \<Rightarrow> 'w \<Rightarrow> 'w" where
  "set_dc_state drv st [] w = w"
| "set_dc_state drv st (n # ns) w =
     set_dc_state drv st ns
       (if is_display n \<and> pfnSetDCState n \<noteq> NULL \<and> hExtDevice n \<noteq> NULL
        then dcstate_fn drv (pfnSetDCState n) (hExtDevice n) st w else w)"

definition PVRSRVSetDCState :: "'w drv \<Rightarrow> u32 \<Rightarrow> 'w SYS_DATA \<Rightarrow> 'w SYS_DATA" where
  "PVRSRVSetDCState drv st s =
     (if \<not> sys_up s then s
      else s\<lparr>q_world := set_dc_state drv st (psDeviceNodeList s) (q_world s)\<rparr>)"

partial_function (option) process_queue ::
  "'w drv \<Rightarrow> bool \<Rightarrow> PVRSRV_QUEUE_INFO \<Rightarrow> 'w SYS_DATA \<Rightarrow> (PVRSRV_QUEUE_INFO \<times> 'w SYS_DATA) option" where
  [code]: "process_queue drv bFlush q s =
     (if ui32ReadOffset q \<noteq> ui32WriteOffset q then do {
        c \<leftarrow> lin q (ui32ReadOffset q);
        (e, s) \<leftarrow> PVRSRVProcessCommand drv s c bFlush;
        if e = PVRSRV_OK then do {
          let q = UPDATE_QUEUE_ROFF q (ui32CmdSize c);
          if bFlush then process_queue drv bFlush q s else Some (q, s) }
        else Some (q, s) }
      else Some (q, s))"

fun process_queue_list ::
  "'w drv \<Rightarrow> bool \<Rightarrow> (ptr \<times> PVRSRV_QUEUE_INFO) list \<Rightarrow> 'w SYS_DATA \<Rightarrow>
   ((ptr \<times> PVRSRV_QUEUE_INFO) list \<times> 'w SYS_DATA) option" where
  "process_queue_list drv bFlush [] s = Some ([], s)"
| "process_queue_list drv bFlush ((p, q) # qs) s = do {
     (q, s) \<leftarrow> process_queue drv bFlush q s;
     (qs, s) \<leftarrow> process_queue_list drv bFlush qs s;
     Some ((p, q) # qs, s) }"

definition PVRSRVProcessQueues ::
  "'w drv \<Rightarrow> bool \<Rightarrow> 'w SYS_DATA \<Rightarrow> (PVRSRV_ERROR \<times> 'w SYS_DATA) option" where
  "PVRSRVProcessQueues drv bFlush s =
     (if \<not> sys_up s then Some (PVRSRV_ERROR_GENERIC, s)
      else do {
        let s = (if bFlush then PVRSRVSetDCState drv DC_STATE_FLUSH_COMMANDS s else s);
        (qs, s) \<leftarrow> process_queue_list drv bFlush (psQueueList s) s;
        let s = s\<lparr>psQueueList := qs\<rparr>;
        let s = (if bFlush then PVRSRVSetDCState drv DC_STATE_NO_FLUSH_COMMANDS s else s);
        Some (PVRSRV_OK, s\<lparr>q_world := run_complete drv False (psDeviceNodeList s) (q_world s)\<rparr>) })"

subsection \<open>Registering command functions\<close>

fun alloc_complete_data ::
  "ptr \<Rightarrow> nat \<Rightarrow> (u32 \<times> u32) list \<Rightarrow> kmem \<Rightarrow> 'w SYS_DATA \<Rightarrow> (PVRSRV_ERROR \<times> 'w SYS_DATA \<times> kmem) option" where
  "alloc_complete_data arr i [] km s = Some (PVRSRV_OK, s, km)"
| "alloc_complete_data arr i ((nd, ns) # ms) km s = do {
     entries \<leftarrow> cc_arrays s arr;
     (case OSAllocMem km of (e, a, km) \<Rightarrow>
        let s = s\<lparr>cc_arrays := (cc_arrays s)(arr \<mapsto> entries[i := a])\<rparr>
        in if e \<noteq> PVRSRV_OK then Some (e, s, km)
           else alloc_complete_data arr (i + 1) ms km
                  (s\<lparr>cc_data := (cc_data s)(a \<mapsto>
                       \<lparr>bInUse = False, cc_DstSyncCount = 0, cc_SrcSyncCount = 0, cc_dst = [], cc_src = [],
                        cc_max_dst = nd, cc_max_src = ns,
                        ui32AllocSize = sizeof_COMPLETE_DATA + (nd + ns) * sizeof_SYNC_OBJECT\<rparr>)\<rparr>)) }"

fun free_complete_data :: "ptr list \<Rightarrow> 'w SYS_DATA \<Rightarrow> 'w SYS_DATA option" where
  "free_complete_data [] s = Some s"
| "free_complete_data (a # as) s =
     (if a \<noteq> NULL then do { _ \<leftarrow> cc_data s a;
        free_complete_data as (s\<lparr>cc_data := (cc_data s)(a := None)\<rparr>) }
      else free_complete_data as s)"

text \<open>The releases shared by the error path of the registration and by the removal, for \<open>n\<close> commands.\<close>

definition free_cmd_lists :: "u32 \<Rightarrow> nat \<Rightarrow> 'w SYS_DATA \<Rightarrow> 'w SYS_DATA option" where
  "free_cmd_lists dev n s = do {
     s \<leftarrow> (if ppsCmdCompleteData s dev \<noteq> NULL then do {
             entries \<leftarrow> cc_arrays s (ppsCmdCompleteData s dev);
             s \<leftarrow> (if n \<le> length entries then free_complete_data (take n entries) s else None);
             Some (s\<lparr>cc_arrays := (cc_arrays s)(ppsCmdCompleteData s dev := None)\<rparr>) }
           else Some s);
     if ppfnCmdProcList s dev \<noteq> NULL then do {
       _ \<leftarrow> proc_arrays s (ppfnCmdProcList s dev);
       Some (s\<lparr>proc_arrays := (proc_arrays s)(ppfnCmdProcList s dev := None)\<rparr>) }
     else Some s }"

definition PVRSRVRegisterCmdProcListKM ::
  "u32 \<Rightarrow> ptr list \<Rightarrow> (u32 \<times> u32) list \<Rightarrow> kmem \<Rightarrow> 'w SYS_DATA \<Rightarrow> (PVRSRV_ERROR \<times> 'w SYS_DATA \<times> kmem) option" where
  "PVRSRVRegisterCmdProcListKM dev procs maxSyncs km s =
     (if dev \<ge> SYS_DEVICE_COUNT then Some (PVRSRV_ERROR_INVALID_PARAMS, s, km)
      else if \<not> sys_up s then Some (PVRSRV_ERROR_GENERIC, s, km)
      else case OSAllocMem km of (e, p, km) \<Rightarrow>
        let s = s\<lparr>ppfnCmdProcList := (ppfnCmdProcList s)(dev := p)\<rparr>
        in if e \<noteq> PVRSRV_OK then Some (e, s, km)
        else let s = s\<lparr>proc_arrays := (proc_arrays s)(p \<mapsto> procs)\<rparr>
        in case OSAllocMem km of (e, arr, km) \<Rightarrow>
          let s = s\<lparr>ppsCmdCompleteData := (ppsCmdCompleteData s)(dev := arr)\<rparr>
          in if e \<noteq> PVRSRV_OK
             then do { s \<leftarrow> free_cmd_lists dev (length procs) s; Some (e, s, km) }
             else do {
               let s = s\<lparr>cc_arrays := (cc_arrays s)(arr \<mapsto> replicate (length procs) NULL)\<rparr>;
               (e, s, km) \<leftarrow> alloc_complete_data arr 0 maxSyncs km s;
               if e \<noteq> PVRSRV_OK
               then do { s \<leftarrow> free_cmd_lists dev (length procs) s; Some (e, s, km) }
               else Some (PVRSRV_OK, s, km) })"

definition PVRSRVRemoveCmdProcListKM ::
  "u32 \<Rightarrow> u32 \<Rightarrow> 'w SYS_DATA \<Rightarrow> (PVRSRV_ERROR \<times> 'w SYS_DATA) option" where
  "PVRSRVRemoveCmdProcListKM dev n s =
     (if dev \<ge> SYS_DEVICE_COUNT then Some (PVRSRV_ERROR_INVALID_PARAMS, s)
      else if \<not> sys_up s then Some (PVRSRV_ERROR_GENERIC, s)
      else if ppsCmdCompleteData s dev = NULL then Some (PVRSRV_ERROR_INVALID_PARAMS, s)
      else do { s \<leftarrow> free_cmd_lists dev (unat n) s; Some (PVRSRV_OK, s) })"

end
