(* ===== verification/Pvr_Queue_Ring.thy ===== *)
theory Pvr_Queue_Ring
  imports Pvr_Queue
begin

text \<open>
  The command queue as a first-in first-out list. \<open>qrep q k cs\<close> says that the ring of size
  \<open>2 ^ k\<close> holds the commands \<open>cs\<close> between its read and its write offset. The lemmas compute
  the free space, and show that reserving space, writing a command and advancing an offset are
  operations on that list which leave the waiting commands intact.
\<close>

subsection \<open>Arithmetic of the ring\<close>

lemma pow2_less: "k < 32 \<Longrightarrow> (2 :: nat) ^ k < 2 ^ 32"
  by (rule power_strict_increasing) simp_all

lemma unat_pow2:
  assumes "k < 32"
  shows "unat ((2 :: u32) ^ k) = 2 ^ k"
proof -
  have "(2 :: u32) ^ k = of_nat (2 ^ k)" by simp
  then show ?thesis using pow2_less [OF assms] by (simp only: unat_of_nat) simp
qed

lemma unat_mask: "k < 32 \<Longrightarrow> unat ((2 :: u32) ^ k - 1) = 2 ^ k - 1"
  using unat_pow2 [of k] by (simp add: unat_sub word_le_nat_alt)

lemma unat_and_mask:
  assumes "k < 32"
  shows "unat ((x :: u32) AND (2 ^ k - 1)) = unat x mod 2 ^ k"
proof -
  have "x AND (2 ^ k - 1) = x mod 2 ^ k"
    by (simp add: take_bit_eq_mask [symmetric] mask_eq_exp_minus_1 [symmetric] take_bit_eq_mod)
  then show ?thesis by (simp add: unat_mod unat_pow2 [OF assms])
qed

lemma ring_mod: "(a :: nat) < 2 * m \<Longrightarrow> a mod m = (if a < m then a else a - m)"
  by (simp add: mod_if)

definition sz :: "PVRSRV_COMMAND \<Rightarrow> nat" where
  "sz c = unat (ui32CmdSize c)"

definition total :: "PVRSRV_COMMAND list \<Rightarrow> nat" where
  "total cs = sum_list (map sz cs)"

lemma total_simps [simp]:
  "total [] = 0" "total (c # cs) = sz c + total cs" "total (cs @ ds) = total cs + total ds"
  by (simp_all add: total_def)

lemma unat_add_ring:
  assumes "k < 32"
  shows "unat ((x + y :: u32) AND (2 ^ k - 1)) = (unat x + unat y) mod 2 ^ k"
proof -
  have "(2 :: nat) ^ k dvd 2 ^ 32" using assms by (intro le_imp_power_dvd) simp
  then show ?thesis
    by (simp add: unat_and_mask [OF assms] unat_word_ariths mod_mod_cancel)
qed

subsection \<open>The commands in the ring\<close>

fun ring :: "(u32 \<Rightarrow> PVRSRV_COMMAND option) \<Rightarrow> nat \<Rightarrow> nat \<Rightarrow> PVRSRV_COMMAND list \<Rightarrow> nat \<Rightarrow> bool" where
  "ring m k off [] w \<longleftrightarrow> w = off"
| "ring m k off (c # cs) w \<longleftrightarrow> m (of_nat off) = Some c \<and> ring m k ((off + sz c) mod 2 ^ k) cs w"

definition qrep :: "PVRSRV_QUEUE_INFO \<Rightarrow> nat \<Rightarrow> PVRSRV_COMMAND list \<Rightarrow> bool" where
  "qrep q k cs \<longleftrightarrow>
     k < 32 \<and> ui32QueueSize q = 2 ^ k \<and> unat (ui32ReadOffset q) < 2 ^ k \<and>
     ring (lin q) k (unat (ui32ReadOffset q)) cs (unat (ui32WriteOffset q)) \<and>
     total cs < 2 ^ k \<and> (\<forall>c \<in> set cs. 0 < sz c)"

lemma qrepD:
  assumes "qrep q k cs"
  shows "k < 32" "ui32QueueSize q = 2 ^ k" "unat (ui32ReadOffset q) < 2 ^ k"
    "ring (lin q) k (unat (ui32ReadOffset q)) cs (unat (ui32WriteOffset q))"
    "total cs < 2 ^ k" "\<And>c. c \<in> set cs \<Longrightarrow> 0 < sz c"
  using assms by (auto simp: qrep_def)

lemma ring_append:
  "off < 2 ^ k \<Longrightarrow> ring m k off (cs @ ds) w \<longleftrightarrow>
     ring m k off cs ((off + total cs) mod 2 ^ k) \<and> ring m k ((off + total cs) mod 2 ^ k) ds w"
proof (induction cs arbitrary: off)
  case (Cons c cs)
  have "((off + sz c) mod 2 ^ k + total cs) mod 2 ^ k = (off + (sz c + total cs)) mod 2 ^ k"
    by (simp add: mod_simps add.assoc)
  with Cons.IH [of "(off + sz c) mod 2 ^ k"] show ?case by auto
qed simp

lemma ring_end: "off < 2 ^ k \<Longrightarrow> ring m k off cs w \<Longrightarrow> w = (off + total cs) mod 2 ^ k"
  using ring_append [of off k m cs "[]" w] by simp

lemma qrep_woff:
  assumes "qrep q k cs"
  shows "unat (ui32WriteOffset q) = (unat (ui32ReadOffset q) + total cs) mod 2 ^ k"
  using ring_end qrepD [OF assms] by blast

lemma qrep_empty_iff:
  assumes "qrep q k cs"
  shows "ui32ReadOffset q = ui32WriteOffset q \<longleftrightarrow> cs = []"
proof -
  let ?r = "unat (ui32ReadOffset q)"
  have "(?r + total cs) mod 2 ^ k = (if ?r + total cs < 2 ^ k then ?r + total cs else ?r + total cs - 2 ^ k)"
    using qrepD(3,5) [OF assms] by (intro ring_mod) simp
  then have "?r = (?r + total cs) mod 2 ^ k \<longleftrightarrow> total cs = 0"
    using qrepD(3,5) [OF assms] by auto
  moreover have "total cs = 0 \<longleftrightarrow> cs = []"
    using qrepD(6) [OF assms] by (cases cs) auto
  ultimately show ?thesis
    using qrep_woff [OF assms] by (simp add: word_unat_eq_iff)
qed

lemma GET_SPACE_qrep:
  assumes "qrep q k cs"
  shows "unat (GET_SPACE_IN_CMDQ q) = 2 ^ k - 1 - total cs"
proof -
  define R W T where "R = unat (ui32ReadOffset q)" and "W = unat (ui32WriteOffset q)" and "T = total cs"
  note d = qrepD [OF assms]
  have b: "R < 2 ^ k" "T < 2 ^ k" using d(3,5) by (simp_all add: R_def T_def)
  have W: "W = (if R + T < 2 ^ k then R + T else R + T - 2 ^ k)"
    using qrep_woff [OF assms] ring_mod [of "R + T" "2 ^ k"] b by (simp add: R_def W_def T_def)
  then have "W < 2 ^ k" using b by (auto split: if_splits)
  have dv: "(2 :: nat) ^ k dvd 2 ^ 32" using d(1) by (intro le_imp_power_dvd) simp
  then obtain M where M: "(2 :: nat) ^ 32 = 2 ^ k * M" by (auto simp: dvd_def)
  then have "1 \<le> M" by (cases M) auto
  have "unat (GET_SPACE_IN_CMDQ q) =
      unat ((ui32ReadOffset q - ui32WriteOffset q) + (2 ^ k - 1)) mod 2 ^ k"
    by (simp add: GET_SPACE_IN_CMDQ_def d(2) unat_and_mask [OF d(1)])
  also have "\<dots> = (unat (ui32ReadOffset q - ui32WriteOffset q) + (2 ^ k - 1)) mod 2 ^ k"
    using mod_mod_cancel [OF dv] unat_mask [OF d(1)] by (simp add: unat_word_ariths)
  also have "unat (ui32ReadOffset q - ui32WriteOffset q) + (2 ^ k - 1) =
      (if R + T < 2 ^ k then (if T = 0 then 0 else 2 ^ k * M) else 2 ^ k) + (2 ^ k - 1 - T)"
  proof -
    define N where "N = 2 ^ k * M"
    have "unat (ui32ReadOffset q - ui32WriteOffset q) = (if W \<le> R then R - W else R + N - W)"
      using unat_sub_if' [of "ui32ReadOffset q" "ui32WriteOffset q"] M by (simp add: R_def W_def N_def)
    moreover have "2 ^ k \<le> N" using \<open>1 \<le> M\<close> by (simp add: N_def)
    ultimately show ?thesis unfolding N_def [symmetric] using W b by (auto split: if_splits)
  qed
  also have "\<dots> mod 2 ^ k = 2 ^ k - 1 - T"
  proof -
    define x where "x = 2 ^ k - 1 - T"
    have "x < 2 ^ k" by (simp add: x_def)
    then show ?thesis unfolding x_def [symmetric] by simp
  qed
  finally show ?thesis by (simp add: T_def)
qed

subsection \<open>Advancing the offsets\<close>

lemma qrep_drain:
  assumes "qrep q k cs" and "unat r = (unat (ui32ReadOffset q) + total (take n cs)) mod 2 ^ k"
  shows "qrep (q\<lparr>ui32ReadOffset := r\<rparr>) k (drop n cs)"
proof -
  note d = qrepD [OF assms(1)]
  have "ring (lin q) k (unat (ui32ReadOffset q)) (take n cs @ drop n cs) (unat (ui32WriteOffset q))"
    using d(4) by simp
  then have "ring (lin q) k (unat r) (drop n cs) (unat (ui32WriteOffset q))"
    unfolding ring_append [OF d(3)] assms(2) by blast
  moreover have "total (take n cs) + total (drop n cs) = total cs"
    by (metis append_take_drop_id total_simps(3))
  moreover have "unat r < 2 ^ k" using assms(2) by simp
  ultimately show ?thesis
    using d(1,2,5,6) by (auto simp: qrep_def dest: in_set_dropD)
qed

lemma UPDATE_QUEUE_ROFF_qrep:
  assumes "qrep q k (c # cs)"
  shows "qrep (UPDATE_QUEUE_ROFF q (ui32CmdSize c)) k cs"
proof -
  have "unat ((ui32ReadOffset q + ui32CmdSize c) AND (2 ^ k - 1)) =
      (unat (ui32ReadOffset q) + total (take 1 (c # cs))) mod 2 ^ k"
    using unat_add_ring qrepD(1) [OF assms] by (simp add: sz_def)
  from qrep_drain [OF assms this] show ?thesis
    by (simp add: UPDATE_QUEUE_ROFF_def qrepD(2) [OF assms])
qed

lemma qrep_head:
  assumes "qrep q k (c # cs)"
  shows "lin q (ui32ReadOffset q) = Some c"
  using qrepD(4) [OF assms] by simp

text \<open>A read offset that a concurrent reader may have reached: some commands were consumed.\<close>

definition drained :: "PVRSRV_QUEUE_INFO \<Rightarrow> nat \<Rightarrow> PVRSRV_COMMAND list \<Rightarrow> u32 \<Rightarrow> bool" where
  "drained q k cs r \<longleftrightarrow>
     (\<exists>n. unat r = (unat (ui32ReadOffset q) + total (take n cs)) mod 2 ^ k)"

text \<open>The queue \<open>q'\<close> is \<open>q\<close> after the reader has consumed exactly the first \<open>n\<close> commands.\<close>

definition consumed :: "PVRSRV_QUEUE_INFO \<Rightarrow> nat \<Rightarrow> PVRSRV_COMMAND list \<Rightarrow> nat \<Rightarrow> PVRSRV_QUEUE_INFO \<Rightarrow> bool" where
  "consumed q k cs n q' \<longleftrightarrow>
     n \<le> length cs \<and> q' = q\<lparr>ui32ReadOffset := ui32ReadOffset q'\<rparr> \<and>
     unat (ui32ReadOffset q') = (unat (ui32ReadOffset q) + total (take n cs)) mod 2 ^ k"

lemma consumed_qrep: "qrep q k cs \<Longrightarrow> consumed q k cs n q' \<Longrightarrow> qrep q' k (drop n cs)"
  using qrep_drain [of q k cs "ui32ReadOffset q'" n] unfolding consumed_def by metis

lemma consumed_self: "qrep q k cs \<Longrightarrow> consumed q k cs 0 q"
  using qrepD(3) [of q k cs] by (simp add: consumed_def)

lemma consumed_drained:
  assumes "drained q k cs r"
  obtains n where "consumed q k cs n (q\<lparr>ui32ReadOffset := r\<rparr>)"
proof -
  obtain n where "unat r = (unat (ui32ReadOffset q) + total (take n cs)) mod 2 ^ k"
    using assms by (auto simp: drained_def)
  moreover have "take n cs = take (min n (length cs)) cs" by (cases "n \<le> length cs") auto
  ultimately have "consumed q k cs (min n (length cs)) (q\<lparr>ui32ReadOffset := r\<rparr>)"
    by (simp add: consumed_def)
  then show thesis by (rule that)
qed

lemma poll_space_spec:
  assumes "qrep q k cs" and "\<And>r. r \<in> set polls \<Longrightarrow> drained q k cs r"
    and "poll_space polls m q = (t, q')"
  shows "\<exists>n. consumed q k cs n q' \<and> ui32ReadOffset q' \<in> insert (ui32ReadOffset q) (set polls) \<and>
           (\<not> t \<longrightarrow> GET_SPACE_IN_CMDQ q' > m)"
proof -
  have "poll_space rs m q0 = (t, q') \<Longrightarrow> set rs \<subseteq> set polls \<Longrightarrow>
      \<exists>r n. q0 = q\<lparr>ui32ReadOffset := r\<rparr> \<and> consumed q k cs n q0 \<and> r \<in> insert (ui32ReadOffset q) (set polls) \<Longrightarrow>
      ?thesis" for rs q0
  proof (induction rs arbitrary: q0)
    case Nil
    then show ?case by auto
  next
    case (Cons r rs)
    then obtain r0 where q0: "q0\<lparr>ui32ReadOffset := r\<rparr> = q\<lparr>ui32ReadOffset := r\<rparr>" by auto
    have "drained q k cs r" using assms(2) Cons.prems(2) by auto
    from consumed_drained [OF this] q0 obtain n where n: "consumed q k cs n (q0\<lparr>ui32ReadOffset := r\<rparr>)" by metis
    have r: "r \<in> set polls" using Cons.prems(2) by simp
    show ?case
    proof (cases "GET_SPACE_IN_CMDQ (q0\<lparr>ui32ReadOffset := r\<rparr>) > m")
      case True
      then have "q' = q0\<lparr>ui32ReadOffset := r\<rparr>" "\<not> t" using Cons.prems(1) by (auto simp: Let_def)
      with n True r show ?thesis by auto
    next
      case False
      then have "poll_space rs m (q0\<lparr>ui32ReadOffset := r\<rparr>) = (t, q')"
        using Cons.prems(1) by (simp add: Let_def)
      from Cons.IH [OF this] Cons.prems(2) n r q0 show ?thesis by auto
    qed
  qed
  moreover have "\<exists>r n. q = q\<lparr>ui32ReadOffset := r\<rparr> \<and> consumed q k cs n q \<and> r \<in> insert (ui32ReadOffset q) (set polls)"
    using consumed_self [OF assms(1)] by (intro exI [of _ "ui32ReadOffset q"] exI [of _ 0]) simp
  ultimately show ?thesis using assms(3) by blast
qed

subsection \<open>Writing a command\<close>

lemma ring_write:
  assumes "ring m k ((R + t) mod 2 ^ k) cs w" and "R < 2 ^ k" and "t + total cs \<le> T"
    and "W = (R + T) mod 2 ^ k" and "T + n < 2 ^ k" and "k < 32" and "\<And>c. c \<in> set cs \<Longrightarrow> 0 < sz c"
    and m': "\<And>off c. m off = Some c \<Longrightarrow> 0 < sz c \<Longrightarrow> \<not> (unat off < W + n \<and> W < unat off + sz c) \<Longrightarrow> m' off = Some c"
  shows "ring m' k ((R + t) mod 2 ^ k) cs w"
  using assms(1,3,7)
proof (induction cs arbitrary: t)
  case (Cons c cs)
  let ?o = "(R + t) mod 2 ^ k"
  have st: "(?o + sz c) mod 2 ^ k = (R + (t + sz c)) mod 2 ^ k" by (simp add: mod_simps add.assoc)
  have "0 < sz c" using Cons.prems(3) by simp
  have o: "?o = (if R + t < 2 ^ k then R + t else R + t - 2 ^ k)"
    using assms(2,5) Cons.prems(2) by (intro ring_mod) simp
  have w: "W = (if R + T < 2 ^ k then R + T else R + T - 2 ^ k)"
    unfolding assms(4) using assms(2,5) by (intro ring_mod) simp
  have "?o < 2 ^ 32" using pow2_less [OF assms(6)] by (meson less_trans mod_less_divisor zero_less_numeral zero_less_power)
  then have u: "unat (of_nat ?o :: u32) = ?o" by (simp add: unat_of_nat)
  have "\<not> (?o < W + n \<and> W < ?o + sz c)"
    using o w Cons.prems(2) assms(2,5) \<open>0 < sz c\<close> by (auto split: if_splits)
  then have "m' (of_nat ?o) = Some c" using m' [of "of_nat ?o" c] Cons.prems(1) u \<open>0 < sz c\<close> by simp
  moreover have "ring m' k ((R + (t + sz c)) mod 2 ^ k) cs w"
    using Cons.IH [of "t + sz c"] Cons.prems st by (simp add: add.assoc)
  ultimately show ?case using st by simp
qed simp

lemma write_cmd_qrep:
  assumes q: "qrep q k cs" and sp: "total cs + sz c < 2 ^ k" and c: "0 < sz c"
    and c': "ui32CmdSize c' = ui32CmdSize c"
    and q1: "q1 = write_cmd (ui32WriteOffset q) c q"
  shows "qrep (UPDATE_QUEUE_WOFF (q1\<lparr>lin := (lin q1)(ui32WriteOffset q \<mapsto> c')\<rparr>) (ui32CmdSize c')) k (cs @ [c'])"
    (is "qrep (UPDATE_QUEUE_WOFF ?q _) _ _")
proof -
  note d = qrepD [OF q]
  let ?R = "unat (ui32ReadOffset q)" and ?W = "unat (ui32WriteOffset q)"
  have W: "?W = (?R + total cs) mod 2 ^ k" using qrep_woff [OF q] .
  have keep: "lin ?q off = Some x"
    if "lin q off = Some x" "0 < sz x" "\<not> (unat off < ?W + sz c \<and> ?W < unat off + sz x)" for off x
  proof -
    have "off \<noteq> ui32WriteOffset q" using that(2,3) c by auto
    with that show ?thesis by (simp add: q1 write_cmd_def overlaps_def sz_def)
  qed
  have "ring (lin q) k ((?R + 0) mod 2 ^ k) cs ?W" using d(3,4) by simp
  then have "ring (lin ?q) k ((?R + 0) mod 2 ^ k) cs ?W"
    by (rule ring_write [where T = "total cs" and n = "sz c" and W = ?W])
       (use d(1,3,6) sp W keep in auto)
  moreover have "lin ?q (of_nat ?W) = Some c'" by simp
  moreover have "unat ((ui32WriteOffset q + ui32CmdSize c') AND (2 ^ k - 1)) = (?W + sz c') mod 2 ^ k"
    using unat_add_ring [OF d(1)] by (simp add: sz_def)
  ultimately have "ring (lin ?q) k ?R (cs @ [c']) (unat ((ui32WriteOffset q + ui32CmdSize c') AND (2 ^ k - 1)))"
    unfolding ring_append [OF d(3)] using d(3) W by simp
  then show ?thesis
    using d(1,2,3,6) sp c c' by (auto simp: qrep_def UPDATE_QUEUE_WOFF_def q1 write_cmd_def sz_def)
qed

end
