(* ===== verification/Pvr_Queue_Run.thy ===== *)
theory Pvr_Queue_Run
  imports Pvr_Queue_Ring
begin

text \<open>
  What running a command function does to the queues' state. The completions it calls count up
  the sync data of the records they complete and free those records; the layout of the state stays
  as it is, and so do the sync objects a record carries. A run ends with a result when the function
  completes only commands that exist and keeps to the memory of its driver.
\<close>

subsection \<open>What a run keeps\<close>

definition limits :: "'w SYS_DATA \<Rightarrow> ptr \<Rightarrow> (u32 \<times> u32) option" where
  "limits s a = map_option (\<lambda>d. (cc_max_dst d, cc_max_src d)) (cc_data s a)"

definition layout where
  "layout s = (sys_up s, psQueueList s, psDeviceNodeList s, ppfnCmdProcList s, ppsCmdCompleteData s,
     proc_arrays s, cc_arrays s, dom (syncs s), limits s)"

definition held :: "'w SYS_DATA \<Rightarrow> ptr \<Rightarrow> (PVRSRV_SYNC_OBJECT list \<times> PVRSRV_SYNC_OBJECT list) option" where
  "held s a = map_option (\<lambda>d. (cc_dst d, cc_src d)) (cc_data s a)"

definition records_ok :: "'w SYS_DATA \<Rightarrow> bool" where
  "records_ok s \<longleftrightarrow> (\<forall>a ds ss. held s a = Some (ds, ss) \<longrightarrow> psKernelSyncInfoKM ` (set ds \<union> set ss) \<subseteq> dom (syncs s))"

lemma layout_dom:
  assumes "layout s' = layout s"
  shows "dom (cc_data s') = dom (cc_data s)" "dom (syncs s') = dom (syncs s)" "sys_up s' = sys_up s"
    "psQueueList s' = psQueueList s" "psDeviceNodeList s' = psDeviceNodeList s"
proof -
  have e: "limits s' a = limits s a" for a using assms by (simp add: layout_def)
  have "(cc_data s' a = None) = (cc_data s a = None)" for a
    using e [of a] by (cases "cc_data s a"; cases "cc_data s' a") (auto simp: limits_def)
  then show "dom (cc_data s') = dom (cc_data s)" by (auto simp: dom_def)
qed (use assms in \<open>auto simp: layout_def\<close>)

lemma layout_of:
  assumes "layout s' = layout s"
  shows "cc_of s' = cc_of s" "proc_of s' = proc_of s"
  using assms by (auto simp: layout_def cc_of_def proc_of_def fun_eq_iff)

lemma layout_max:
  assumes "layout s' = layout s" and "cc_data s a = Some d"
  shows "\<exists>d'. cc_data s' a = Some d' \<and> cc_max_dst d' = cc_max_dst d \<and> cc_max_src d' = cc_max_src d"
proof -
  have "limits s' a = limits s a" using assms(1) by (simp add: layout_def)
  with assms(2) show ?thesis by (auto simp: limits_def)
qed

lemma records_ok_mono:
  "layout s' = layout s \<Longrightarrow> held s' = held s \<Longrightarrow> records_ok s \<Longrightarrow> records_ok s'"
  using layout_dom(2) [of s' s] by (simp add: records_ok_def)

subsection \<open>Completion\<close>

text \<open>The sync data after \<open>w\<close> writes and \<open>r\<close> reads have completed.\<close>

definition counted_up :: "nat \<Rightarrow> nat \<Rightarrow> PVRSRV_SYNC_DATA \<Rightarrow> PVRSRV_SYNC_DATA" where
  "counted_up w r d = d\<lparr>ui32WriteOpsComplete := ui32WriteOpsComplete d + of_nat w,
                        ui32ReadOpsComplete := ui32ReadOpsComplete d + of_nat r\<rparr>"

definition times_of :: "ptr \<Rightarrow> PVRSRV_SYNC_OBJECT list \<Rightarrow> nat" where
  "times_of i obs = length (filter (\<lambda>ob. psKernelSyncInfoKM ob = i) obs)"

lemma counted_up_simps [simp]:
  "counted_up 0 0 d = d" "counted_up w r (counted_up w' r' d) = counted_up (w + w') (r + r') d"
  by (simp_all add: counted_up_def)

lemma times_of_simps [simp]:
  "times_of i [] = 0"
  "times_of i (ob # obs) = (if psKernelSyncInfoKM ob = i then Suc (times_of i obs) else times_of i obs)"
  by (simp_all add: times_of_def)

lemma bump_writes_counts:
  "bump_writes obs sy = Some sy' \<Longrightarrow> sy' i = map_option (counted_up (times_of i obs) 0) (sy i)"
proof (induction obs arbitrary: sy)
  case Nil
  then show ?case by (cases "sy i") auto
next
  case (Cons ob obs)
  obtain d where d: "sy (psKernelSyncInfoKM ob) = Some d"
    "bump_writes obs (sy(psKernelSyncInfoKM ob \<mapsto> counted_up 1 0 d)) = Some sy'"
    using Cons.prems by (auto simp: bind_eq_Some_conv counted_up_def)
  from Cons.IH [OF d(2)] d(1) show ?case by auto
qed

lemma bump_reads_counts:
  "bump_reads obs sy = Some sy' \<Longrightarrow> sy' i = map_option (counted_up 0 (times_of i obs)) (sy i)"
proof (induction obs arbitrary: sy)
  case Nil
  then show ?case by (cases "sy i") auto
next
  case (Cons ob obs)
  obtain d where d: "sy (psKernelSyncInfoKM ob) = Some d"
    "bump_reads obs (sy(psKernelSyncInfoKM ob \<mapsto> counted_up 0 1 d)) = Some sy'"
    using Cons.prems by (auto simp: bind_eq_Some_conv counted_up_def)
  from Cons.IH [OF d(2)] d(1) show ?case by auto
qed

lemma bump_total:
  "psKernelSyncInfoKM ` set obs \<subseteq> dom sy \<Longrightarrow> \<exists>sy'. bump_writes obs sy = Some sy'"
  "psKernelSyncInfoKM ` set obs \<subseteq> dom sy \<Longrightarrow> \<exists>sy'. bump_reads obs sy = Some sy'"
proof (induction obs arbitrary: sy)
  case (Cons ob obs)
  {
    case 1
    then obtain d where d: "sy (psKernelSyncInfoKM ob) = Some d" by auto
    have "psKernelSyncInfoKM ` set obs \<subseteq>
        dom (sy(psKernelSyncInfoKM ob \<mapsto> d\<lparr>ui32WriteOpsComplete := ui32WriteOpsComplete d + 1\<rparr>))"
      using 1 by auto
    from Cons.IH(1) [OF this] d show ?case by (simp del: fun_upd_apply)
  next
    case 2
    then obtain d where d: "sy (psKernelSyncInfoKM ob) = Some d" by auto
    have "psKernelSyncInfoKM ` set obs \<subseteq>
        dom (sy(psKernelSyncInfoKM ob \<mapsto> d\<lparr>ui32ReadOpsComplete := ui32ReadOpsComplete d + 1\<rparr>))"
      using 2 by auto
    from Cons.IH(2) [OF this] d show ?case by (simp del: fun_upd_apply)
  }
qed simp_all

text \<open>A completion in full: the counts, the free record, the calls of the devices.\<close>

lemma PVRSRVCommandCompleteKM_cases:
  assumes "PVRSRVCommandCompleteKM drv c b s = Some s'" and "sys_up s"
  obtains d where "cc_data s c = Some d"
    "\<And>i. syncs s' i = map_option (counted_up (times_of i (cc_dst d)) (times_of i (cc_src d))) (syncs s i)"
    "s' = s\<lparr>syncs := syncs s', cc_data := (cc_data s)(c \<mapsto> d\<lparr>bInUse := False\<rparr>),
            q_world := run_complete drv True (psDeviceNodeList s) (q_world s),
            misr_count := misr_count s + (if b then 1 else 0)\<rparr>"
proof -
  obtain d sy1 sy2 where d: "cc_data s c = Some d" "bump_writes (cc_dst d) (syncs s) = Some sy1"
    "bump_reads (cc_src d) sy1 = Some sy2"
    "s' = s\<lparr>syncs := sy2, cc_data := (cc_data s)(c \<mapsto> d\<lparr>bInUse := False\<rparr>),
            q_world := run_complete drv True (psDeviceNodeList s) (q_world s),
            misr_count := misr_count s + (if b then 1 else 0)\<rparr>"
    using assms by (auto simp: PVRSRVCommandCompleteKM_def PVRSRVCommandCompleteCallbacks_def
        bind_eq_Some_conv Let_def)
  have "syncs s' i = map_option (counted_up (times_of i (cc_dst d)) (times_of i (cc_src d))) (syncs s i)" for i
    using bump_reads_counts [OF d(3), of i] bump_writes_counts [OF d(2), of i] d(4)
    by (cases "syncs s i") auto
  with d show thesis by (intro that [of d]) auto
qed

lemma PVRSRVCommandCompleteKM_record:
  assumes "PVRSRVCommandCompleteKM drv c b s = Some s'" and "sys_up s"
  shows "\<exists>d. cc_data s c = Some d \<and> cc_data s' = (cc_data s)(c \<mapsto> d\<lparr>bInUse := False\<rparr>)"
proof (rule PVRSRVCommandCompleteKM_cases [OF assms])
  fix d
  assume d: "cc_data s c = Some d"
    and s': "s' = s\<lparr>syncs := syncs s', cc_data := (cc_data s)(c \<mapsto> d\<lparr>bInUse := False\<rparr>),
            q_world := run_complete drv True (psDeviceNodeList s) (q_world s),
            misr_count := misr_count s + (if b then 1 else 0)\<rparr>"
  show ?thesis using d arg_cong [OF s', of cc_data] by simp
qed

lemma PVRSRVCommandCompleteKM_frame:
  assumes "PVRSRVCommandCompleteKM drv c b s = Some s'"
  shows "layout s' = layout s" "held s' = held s"
proof -
  have "layout s' = layout s \<and> held s' = held s"
  proof (cases "sys_up s")
    case True
    from PVRSRVCommandCompleteKM_cases [OF assms True] obtain d where d: "cc_data s c = Some d"
      "\<And>i. syncs s' i = map_option (counted_up (times_of i (cc_dst d)) (times_of i (cc_src d))) (syncs s i)"
      "s' = s\<lparr>syncs := syncs s', cc_data := (cc_data s)(c \<mapsto> d\<lparr>bInUse := False\<rparr>),
            q_world := run_complete drv True (psDeviceNodeList s) (q_world s),
            misr_count := misr_count s + (if b then 1 else 0)\<rparr>" by blast
    have sy: "dom (syncs s') = dom (syncs s)" using d(2) by (auto simp: dom_def)
    have "cc_data s' = (cc_data s)(c \<mapsto> d\<lparr>bInUse := False\<rparr>)" using arg_cong [OF d(3), of cc_data] by simp
    then have "limits s' = limits s" "held s' = held s"
      using d(1) by (auto simp: fun_eq_iff held_def limits_def)
    moreover have "sys_up s' = sys_up s" "psQueueList s' = psQueueList s" "psDeviceNodeList s' = psDeviceNodeList s"
      "ppfnCmdProcList s' = ppfnCmdProcList s" "ppsCmdCompleteData s' = ppsCmdCompleteData s"
      "proc_arrays s' = proc_arrays s" "cc_arrays s' = cc_arrays s"
      by (subst d(3); simp)+
    ultimately show ?thesis using sy by (simp add: layout_def)
  qed (use assms in \<open>simp add: PVRSRVCommandCompleteKM_def\<close>)
  then show "layout s' = layout s" "held s' = held s" by blast+
qed

lemma run_complete_inv:
  "(\<And>f n w. J w \<Longrightarrow> J (complete_fn drv f n w)) \<Longrightarrow> J w \<Longrightarrow> J (run_complete drv al ns w)"
  by (induction ns arbitrary: w) auto

lemma PVRSRVCommandCompleteKM_total:
  assumes "c \<in> dom (cc_data s)" and "records_ok s" and J: "\<And>f n w. J w \<Longrightarrow> J (complete_fn drv f n w)" "J (q_world s)"
  shows "\<exists>s'. PVRSRVCommandCompleteKM drv c b s = Some s' \<and> J (q_world s')"
proof (cases "sys_up s")
  case True
  obtain d where d: "cc_data s c = Some d" using assms(1) by auto
  then have "held s c = Some (cc_dst d, cc_src d)" by (simp add: held_def)
  then have sub: "psKernelSyncInfoKM ` (set (cc_dst d) \<union> set (cc_src d)) \<subseteq> dom (syncs s)"
    using assms(2) unfolding records_ok_def by blast
  then obtain sy1 where sy1: "bump_writes (cc_dst d) (syncs s) = Some sy1" using bump_total(1) by blast
  have "dom sy1 = dom (syncs s)" using bump_writes_counts [OF sy1] by (auto simp: dom_def)
  with sub obtain sy2 where "bump_reads (cc_src d) sy1 = Some sy2"
    using bump_total(2) [of "cc_src d" sy1] by blast
  with True d sy1 run_complete_inv [OF J] show ?thesis
    by (auto simp: PVRSRVCommandCompleteKM_def PVRSRVCommandCompleteCallbacks_def Let_def)
qed (use assms in \<open>simp add: PVRSRVCommandCompleteKM_def\<close>)

subsection \<open>Running a command function\<close>

lemma of_updates [simp]:
  "cc_of (s\<lparr>cc_data := x\<rparr>) = cc_of s" "proc_of (s\<lparr>cc_data := x\<rparr>) = proc_of s"
  by (simp_all add: cc_of_def proc_of_def fun_eq_iff)

lemma layout_world [simp]: "layout (s\<lparr>q_world := w\<rparr>) = layout s" "held (s\<lparr>q_world := w\<rparr>) = held s"
  by (simp_all add: layout_def held_def limits_def fun_eq_iff)

lemma run_act_frame:
  "run_act drv act s = Some (ok, s') \<Longrightarrow> layout s' = layout s \<and> held s' = held s"
proof (induction act arbitrary: s)
  case (CmdComplete c b w k)
  then obtain s1 where "PVRSRVCommandCompleteKM drv c b (s\<lparr>q_world := w\<rparr>) = Some s1"
    "run_act drv (k (q_world s1)) s1 = Some (ok, s')"
    by (auto split: option.splits)
  with CmdComplete.IH [OF rangeI] PVRSRVCommandCompleteKM_frame show ?case by fastforce
qed auto

text \<open>The cookies that a run completes, in order.\<close>

primrec act_cookies :: "'w drv \<Rightarrow> 'w cmd_act \<Rightarrow> 'w SYS_DATA \<Rightarrow> ptr list" where
  "act_cookies drv (Return ok w) s = []"
| "act_cookies drv (CmdComplete c b w k) s =
     (case PVRSRVCommandCompleteKM drv c b (s\<lparr>q_world := w\<rparr>) of
        None \<Rightarrow> []
      | Some s \<Rightarrow> c # act_cookies drv (k (q_world s)) s)"
| "act_cookies drv Fault s = []"

lemma run_act_record:
  "run_act drv act s = Some (ok, s') \<Longrightarrow> sys_up s \<Longrightarrow> cc_data s a = Some d \<Longrightarrow>
   cc_data s' a = Some (d\<lparr>bInUse := bInUse d \<and> a \<notin> set (act_cookies drv act s)\<rparr>)"
proof (induction act arbitrary: s d)
  case (CmdComplete c b w k)
  then obtain s1 where s1: "PVRSRVCommandCompleteKM drv c b (s\<lparr>q_world := w\<rparr>) = Some s1"
    "run_act drv (k (q_world s1)) s1 = Some (ok, s')"
    by (auto split: option.splits)
  have "sys_up (s\<lparr>q_world := w\<rparr>)" using CmdComplete.prems(2) by simp
  from PVRSRVCommandCompleteKM_record [OF s1(1) this] obtain d1 where d1: "cc_data s c = Some d1"
    "cc_data s1 = (cc_data s)(c \<mapsto> d1\<lparr>bInUse := False\<rparr>)" by auto
  have up: "sys_up s1" using layout_dom(3) [OF PVRSRVCommandCompleteKM_frame(1) [OF s1(1)]] CmdComplete.prems(2) by simp
  show ?case
  proof (cases "a = c")
    case True
    then have "cc_data s1 a = Some (d\<lparr>bInUse := False\<rparr>)" using d1 CmdComplete.prems(3) by simp
    from CmdComplete.IH [OF rangeI s1(2) up this] True s1(1) show ?thesis by simp
  next
    case False
    then have "cc_data s1 a = Some d" using d1 CmdComplete.prems(3) by simp
    from CmdComplete.IH [OF rangeI s1(2) up this] False s1(1) show ?thesis by simp
  qed
qed auto

text \<open>
  The contract of a command function: in a state of its driver that satisfies \<open>J\<close> it completes
  only the cookies \<open>C\<close>, leaves a state with \<open>J\<close> at each completion and at its end, and does
  not access memory that is not there.
\<close>

primrec act_ok :: "('w \<Rightarrow> bool) \<Rightarrow> ptr set \<Rightarrow> 'w cmd_act \<Rightarrow> bool" where
  "act_ok J C (Return ok w) \<longleftrightarrow> J w"
| "act_ok J C (CmdComplete c b w k) \<longleftrightarrow> c \<in> C \<and> J w \<and> (\<forall>w'. J w' \<longrightarrow> act_ok J C (k w'))"
| "act_ok J C Fault \<longleftrightarrow> False"

lemma run_act_total:
  assumes "\<And>f n w. J w \<Longrightarrow> J (complete_fn drv f n w)"
  shows "act_ok J (dom (cc_data s)) act \<Longrightarrow> records_ok s \<Longrightarrow>
    \<exists>ok s'. run_act drv act s = Some (ok, s') \<and> J (q_world s')"
proof (induction act arbitrary: s)
  case (CmdComplete c b w k)
  have "records_ok (s\<lparr>q_world := w\<rparr>)" using CmdComplete.prems(2) by (rule records_ok_mono [rotated 2]) simp_all
  then obtain s1 where s1: "PVRSRVCommandCompleteKM drv c b (s\<lparr>q_world := w\<rparr>) = Some s1" "J (q_world s1)"
    using PVRSRVCommandCompleteKM_total [where J = J and s = "s\<lparr>q_world := w\<rparr>" and c = c and drv = drv, OF _ _ assms]
      CmdComplete.prems(1) by auto
  note fr = PVRSRVCommandCompleteKM_frame [OF s1(1)]
  have "records_ok s1" using records_ok_mono [of s1 s] fr CmdComplete.prems(2) by simp
  moreover have "act_ok J (dom (cc_data s1)) (k (q_world s1))"
    using CmdComplete.prems(1) s1(2) layout_dom(1) [of s1 s] fr(1) by simp
  ultimately obtain ok s' where "run_act drv (k (q_world s1)) s1 = Some (ok, s')" "J (q_world s')"
    using CmdComplete.IH [OF rangeI] by blast
  with s1 show ?case by auto
qed auto

end
