(* ===== verification/Pvr_Queue_Props.thy ===== *)
theory Pvr_Queue_Props
  imports Pvr_Queue_Run
begin

text \<open>
  The properties of the command queues' buffers: the size of a new queue, the ring as a first-in
  first-out list under insertion and submission, the order that sync objects impose on commands, and
  two cases the code does not guard against.
\<close>

subsection \<open>Sizes\<close>

lemma np2_loop_bits:
  "unat t < 2 ^ n \<Longrightarrow> n = 0 \<or> 2 ^ (n - 1) \<le> unat t \<Longrightarrow> np2_loop t r = r * 2 ^ n"
proof (induction n arbitrary: t r)
  case 0
  then have "t = 0" by (simp add: unat_eq_zero)
  then show ?case by simp
next
  case (Suc n)
  then have le: "2 ^ n \<le> unat t" by simp
  then have t: "t \<noteq> 0" by (metis unat_0 le_zero_eq power_not_zero zero_neq_numeral)
  have u: "unat (drop_bit 1 t) = unat t div 2" by (simp add: drop_bit_eq_div unat_div)
  have "n = 0 \<or> 2 ^ (n - 1) \<le> unat t div 2"
  proof (cases n)
    case (Suc m)
    then have "2 * 2 ^ m \<le> unat t" using le by simp
    then show ?thesis using Suc by simp
  qed simp
  moreover have "unat t div 2 < 2 ^ n" using Suc.prems(1) by (simp add: less_mult_imp_div_less)
  ultimately have "np2_loop (drop_bit 1 t) (push_bit 1 r) = push_bit 1 r * 2 ^ n"
    using Suc.IH u by simp
  then show ?case using t by (subst np2_loop.simps) (simp add: push_bit_eq_mult)
qed

lemma bit_length_exists: "\<exists>n. (x :: nat) < 2 ^ n \<and> (n = 0 \<or> 2 ^ (n - 1) \<le> x)"
proof (cases "x = 0")
  case False
  let ?n = "LEAST n. x < 2 ^ n"
  have ex: "x < 2 ^ x" by simp
  then have 1: "x < 2 ^ ?n" by (rule LeastI)
  have "?n = 0 \<or> \<not> x < 2 ^ (?n - 1)" using not_less_Least [of "?n - 1" "\<lambda>n. x < 2 ^ n"] by (cases ?n) auto
  with 1 show ?thesis by (auto simp: not_less)
qed (auto intro: exI [of _ 0])

lemma NearestPower2_bits:
  assumes "v \<noteq> 0"
  obtains n where "unat v - 1 < 2 ^ n" "n = 0 \<or> 2 ^ (n - 1) \<le> unat v - 1" "NearestPower2 v = 2 ^ n"
proof -
  have u: "unat (v - 1) = unat v - 1" using assms by (simp add: unat_minus_one)
  obtain n where n: "unat (v - 1) < 2 ^ n" "n = 0 \<or> 2 ^ (n - 1) \<le> unat (v - 1)"
    using bit_length_exists by blast
  from np2_loop_bits [OF this, of 1] assms have "NearestPower2 v = 2 ^ n"
    by (simp add: NearestPower2_def)
  with n u that show thesis by simp
qed

text \<open>C34. For a request of at most 2^31 bytes the size of a new queue is the least power of two
  that is not smaller than the request.\<close>

theorem NearestPower2_correct:
  assumes "v \<noteq> 0" and "unat v \<le> 2 ^ 31"
  shows "\<exists>k < 32. NearestPower2 v = 2 ^ k \<and> unat v \<le> 2 ^ k \<and> (\<forall>j. unat v \<le> 2 ^ j \<longrightarrow> k \<le> j)"
proof -
  obtain n where n: "unat v - 1 < 2 ^ n" "n = 0 \<or> 2 ^ (n - 1) \<le> unat v - 1" "NearestPower2 v = 2 ^ n"
    using NearestPower2_bits [OF assms(1)] .
  have v: "0 < unat v" using assms(1) by (simp add: unat_gt_0)
  have least: "n \<le> j" if "unat v \<le> 2 ^ j" for j
  proof (rule ccontr)
    assume "\<not> n \<le> j"
    then have "j \<le> n - 1" "n \<noteq> 0" by auto
    then have "(2 :: nat) ^ j \<le> 2 ^ (n - 1)" by (intro power_increasing) auto
    also have "\<dots> \<le> unat v - 1" using n(2) \<open>n \<noteq> 0\<close> by simp
    finally show False using that v by simp
  qed
  have "n \<le> 31" using least [OF assms(2)] .
  with n v least show ?thesis by (intro exI [of _ n]) auto
qed

theorem NearestPower2_correct_witness:
  "\<exists>k < 32. NearestPower2 1000 = 2 ^ k \<and> unat (1000 :: u32) \<le> 2 ^ k"
proof -
  have "unat (1000 :: u32) \<le> 2 ^ 31" by simp
  from NearestPower2_correct [OF _ this] show ?thesis by auto
qed

text \<open>C39. A queue created for a size of 0 or above 2^31 has the size 0: its buffer is only the
  slack of \<open>PVRSRV_MAX_CMD_SIZE\<close> bytes, yet the space macro reports 2^32 - 1 free bytes.\<close>

theorem PVRSRVCreateCommandQueueKM_size_overflow:
  assumes "v = 0 \<or> unat v > 2 ^ 31" and "sys_up s" and "p \<noteq> NULL" and "buf \<noteq> NULL"
  shows "\<exists>q s'. PVRSRVCreateCommandQueueKM v pid (p # buf # km) s = (PVRSRV_OK, Some p, s', km) \<and>
           psQueueList s' = (p, q) # psQueueList s \<and> ui32QueueSize q = 0 \<and>
           GET_SPACE_IN_CMDQ q = 0xFFFFFFFF"
proof -
  have "NearestPower2 v = 0"
  proof (cases "v = 0")
    case False
    obtain n where n: "unat v - 1 < 2 ^ n" "NearestPower2 v = 2 ^ n"
      using NearestPower2_bits [OF False] by metis
    have "\<not> n \<le> 31"
    proof
      assume "n \<le> 31"
      then have "(2 :: nat) ^ n \<le> 2 ^ 31" by (intro power_increasing) auto
      with n(1) assms(1) False show False by auto
    qed
    then have "n = 32 + (n - 32)" by simp
    then obtain m where "n = 32 + m" by blast
    moreover have "(2 :: u32) ^ 32 = 0" by simp
    ultimately have "(2 :: u32) ^ n = 0" by (simp only: power_add) simp
    with n(2) show ?thesis by simp
  qed (simp add: NearestPower2_def)
  with assms(2-4) show ?thesis
    by (simp add: PVRSRVCreateCommandQueueKM_def GET_SPACE_IN_CMDQ_def)
qed

theorem PVRSRVCreateCommandQueueKM_size_overflow_witness:
  "\<exists>q s'. PVRSRVCreateCommandQueueKM 0 1 [0x1000, 0x2000]
      \<lparr>sys_up = True, psQueueList = [], syncs = Map.empty, psDeviceNodeList = [], ppfnCmdProcList = (\<lambda>_. 0),
       ppsCmdCompleteData = (\<lambda>_. 0), proc_arrays = Map.empty, cc_arrays = Map.empty, cc_data = Map.empty,
       misr_count = 0, q_world = ()\<rparr> = (PVRSRV_OK, Some 0x1000, s', []) \<and>
     psQueueList s' = [(0x1000, q)] \<and> GET_SPACE_IN_CMDQ q = 0xFFFFFFFF"
  using PVRSRVCreateCommandQueueKM_size_overflow [where v = 0 and pid = 1 and p = "0x1000" and buf = "0x2000" and km = "[]"
      and s = "\<lparr>sys_up = True, psQueueList = [], syncs = Map.empty, psDeviceNodeList = [], ppfnCmdProcList = (\<lambda>_. 0),
       ppsCmdCompleteData = (\<lambda>_. 0), proc_arrays = Map.empty, cc_arrays = Map.empty, cc_data = Map.empty,
       misr_count = 0, q_world = ()\<rparr>"]
  by auto

subsection \<open>Insertion and submission\<close>

lemma align4_bounds:
  assumes "unat n + 3 < 2 ^ 32"
  shows "unat n \<le> unat (align4 n)" and "unat (align4 n) \<le> unat n + 3"
proof -
  let ?x = "n + 3"
  have x: "unat ?x = unat n + 3" using assms by (simp add: unat_word_ariths)
  have "(0xFFFFFFFC :: u32) = NOT (mask 2)" by (simp add: mask_eq_exp_minus_1)
  moreover have "?x AND NOT (mask 2) = push_bit 2 (drop_bit 2 ?x)"
    by (rule bit_eqI) (auto simp: bit_simps not_less le_Suc_ex dest: le_Suc_ex)
  ultimately have "align4 n = push_bit 2 (drop_bit 2 ?x)" unfolding align4_def by (simp only:)
  then have s: "align4 n = ?x - take_bit 2 ?x" using bits_ident [of 2 ?x] by (simp add: algebra_simps)
  have t: "unat (take_bit 2 ?x) = unat ?x mod 4"
    by (simp only: unsigned_take_bit_eq) (simp add: take_bit_eq_mod)
  then have "take_bit 2 ?x \<le> ?x" by (simp only: word_le_nat_alt mod_less_eq_dividend)
  then have "unat (align4 n) = unat ?x - unat ?x mod 4"
    unfolding s t [symmetric] by (rule unat_sub)
  moreover have "unat ?x mod 4 \<le> 3" using mod_less_divisor [of 4 "unat ?x"] by linarith
  ultimately show "unat n \<le> unat (align4 n)" "unat (align4 n) \<le> unat n + 3" using x by auto
qed

lemma command_size_unat:
  assumes "40 + 12 * (ld + ls) + unat data + 3 < 2 ^ 32"
  shows "unat (command_size (of_nat ld) (of_nat ls) data) = 40 + 12 * (ld + ls) + unat (align4 data)"
proof -
  have b: "unat (align4 data) \<le> unat data + 3" using align4_bounds(2) assms by simp
  have "unat ((of_nat ld + of_nat ls) * sizeof_SYNC_OBJECT :: u32) = 12 * (ld + ls)"
  proof -
    have "(of_nat ld + of_nat ls) * sizeof_SYNC_OBJECT = (of_nat (12 * (ld + ls)) :: u32)"
      by (simp add: sizeof_SYNC_OBJECT_def algebra_simps)
    then show ?thesis using assms by (simp only: unat_of_nat) simp
  qed
  with b assms show ?thesis
    unfolding command_size_def by (simp add: unat_word_ariths sizeof_COMMAND_def)
qed

lemma fill_syncs_total:
  "set is \<subseteq> dom sy \<Longrightarrow>
   \<exists>obs sy'. fill_syncs b is sy = Some (obs, sy') \<and> map psKernelSyncInfoKM obs = is \<and> dom sy' = dom sy"
proof (induction "is" arbitrary: sy)
  case (Cons i "is")
  obtain d where d: "sy i = Some d" using Cons.prems by auto
  obtain w sy1 where 1: "PVRSRVGetWriteOpsPending i b sy = Some (w, sy1)" "dom sy1 = dom sy"
    using d by (cases b) (auto simp: PVRSRVGetWriteOpsPending_def)
  then obtain d1 where d1: "sy1 i = Some d1" using d by (metis domD domI)
  obtain r sy2 where 2: "PVRSRVGetReadOpsPending i b sy1 = Some (r, sy2)" "dom sy2 = dom sy1"
    using d1 by (cases b) (auto simp: PVRSRVGetReadOpsPending_def)
  have "set is \<subseteq> dom sy2" using Cons.prems 1(2) 2(2) by simp
  from Cons.IH [OF this] 1 2 show ?case by auto
qed simp

text \<open>What the command that was inserted holds.\<close>

definition holds_request :: "u32 \<Rightarrow> u32 \<Rightarrow> 16 word \<Rightarrow> ptr list \<Rightarrow> ptr list \<Rightarrow> u32 \<Rightarrow> PVRSRV_COMMAND \<Rightarrow> bool" where
  "holds_request pid dev ctype dst src data c \<longleftrightarrow>
     ui32ProcessID c = pid \<and> ui32DevIndex c = dev \<and> CommandType c = ucast ctype \<and>
     map psKernelSyncInfoKM (dst_array c) = dst \<and> map psKernelSyncInfoKM (src_array c) = src \<and>
     unat data \<le> unat (ui32DataSize c) \<and>
     sz c = 40 + 12 * (length dst + length src) + unat (ui32DataSize c)"

lemma roff_onlyD:
  assumes "q' = q\<lparr>ui32ReadOffset := ui32ReadOffset q'\<rparr>"
  shows "ui32WriteOffset q' = ui32WriteOffset q" "pvLinQueueUM q' = pvLinQueueUM q"
    "pvLinQueueKM q' = pvLinQueueKM q"
  using arg_cong [OF assms, of ui32WriteOffset] arg_cong [OF assms, of pvLinQueueUM]
    arg_cong [OF assms, of pvLinQueueKM] by simp_all

lemma PVRSRVGetQueueSpaceKM_spec:
  assumes q: "qrep q k cs" and polls: "\<forall>r \<in> set polls. drained q k cs r"
    and n: "unat n + 3 < 2 ^ 32"
  obtains (ok) q' m where "PVRSRVGetQueueSpaceKM polls q n = (PVRSRV_OK, Some (ui32WriteOffset q + pvLinQueueUM q), q')"
      "consumed q k cs m q'" "ui32ReadOffset q' \<in> insert (ui32ReadOffset q) (set polls)"
      "total (drop m cs) + unat n < 2 ^ k" "unat n \<le> 1024"
  | (fail) e sp q' m where "PVRSRVGetQueueSpaceKM polls q n = (e, sp, q')"
      "e = PVRSRV_ERROR_CMD_TOO_BIG \<and> unat (align4 n) > 1024 \<or> e = PVRSRV_ERROR_CANNOT_GET_QUEUE_SPACE"
      "consumed q k cs m q'" "ui32ReadOffset q' \<in> insert (ui32ReadOffset q) (set polls)"
proof (cases "align4 n > PVRSRV_MAX_CMD_SIZE")
  case True
  then have "PVRSRVGetQueueSpaceKM polls q n = (PVRSRV_ERROR_CMD_TOO_BIG, None, q)"
    by (simp add: PVRSRVGetQueueSpaceKM_def Let_def)
  moreover have "unat (align4 n) > 1024"
    using True by (simp add: PVRSRV_MAX_CMD_SIZE_def word_less_nat_alt)
  ultimately show thesis using consumed_self [OF q] by (intro fail [where m = 0]) auto
next
  case False
  obtain t q' where ps: "poll_space polls (align4 n) q = (t, q')" by fastforce
  obtain m where m: "consumed q k cs m q'" "ui32ReadOffset q' \<in> insert (ui32ReadOffset q) (set polls)"
    "\<not> t \<longrightarrow> GET_SPACE_IN_CMDQ q' > align4 n"
    using poll_space_spec [OF q _ ps] polls by blast
  show thesis
  proof (cases t)
    case True
    with False ps m(1,2) show thesis
      by (intro fail [where m = m and sp = "Some NULL" and q' = q']) (auto simp: PVRSRVGetQueueSpaceKM_def Let_def)
  next
    case t: False
    have "unat (align4 n) < 2 ^ k - 1 - total (drop m cs)"
      using m(3) t GET_SPACE_qrep [OF consumed_qrep [OF q m(1)]] by (simp add: word_less_nat_alt)
    then have "total (drop m cs) + unat n < 2 ^ k" using align4_bounds(1) [OF n] by linarith
    moreover have "unat n \<le> 1024"
      using False align4_bounds(1) [OF n] by (simp add: PVRSRV_MAX_CMD_SIZE_def word_less_nat_alt not_less)
    moreover have "q' = q\<lparr>ui32ReadOffset := ui32ReadOffset q'\<rparr>" using m(1) unfolding consumed_def by blast
    note roff_onlyD(1,2) [OF this]
    ultimately show thesis
      using False ps t m by (intro ok [of q' m]) (auto simp: PVRSRVGetQueueSpaceKM_def Let_def)
  qed
qed

lemma PVRSRVSubmitCommandKM_spec:
  assumes "lin q (ui32WriteOffset q) = Some c"
  shows "\<exists>d e f. PVRSRVSubmitCommandKM q = Some (PVRSRV_OK,
           UPDATE_QUEUE_WOFF (q\<lparr>lin := (lin q)(ui32WriteOffset q \<mapsto> c\<lparr>psDstSync := d, psSrcSync := e, pvData := f\<rparr>)\<rparr>)
             (ui32CmdSize c))"
proof -
  let ?p = "pvLinQueueKM q + ui32WriteOffset q + sizeof_COMMAND"
  let ?d = "if ui32DstSyncCount c > 0 then ?p else psDstSync c"
  let ?e = "if ui32SrcSyncCount c > 0 then ?p + ui32DstSyncCount c * sizeof_SYNC_OBJECT else psSrcSync c"
  show ?thesis
    by (intro exI [of _ ?d] exI [of _ ?e]
          exI [of _ "?p + ui32DstSyncCount c * sizeof_SYNC_OBJECT + ui32SrcSyncCount c * sizeof_SYNC_OBJECT"])
       (cases c; simp add: PVRSRVSubmitCommandKM_def Let_def assms)
qed

lemma holds_request_ptrs [simp]:
  "holds_request pid dev ctype dst src data (c\<lparr>psDstSync := d, psSrcSync := e, pvData := f\<rparr>) =
   holds_request pid dev ctype dst src data c"
  by (simp add: holds_request_def sz_def)

lemma submit_written:
  assumes q: "qrep q k cs" and room: "total cs + sz c < 2 ^ k" "sz c > 0"
    and hr: "holds_request pid dev ctype dst src data c"
  shows "\<exists>q2 c'. PVRSRVSubmitCommandKM (write_cmd (ui32WriteOffset q) c q) = Some (PVRSRV_OK, q2) \<and>
           qrep q2 k (cs @ [c']) \<and> holds_request pid dev ctype dst src data c' \<and> sz c' = sz c \<and>
           dst_array c' = dst_array c \<and> src_array c' = src_array c"
proof -
  let ?q1 = "write_cmd (ui32WriteOffset q) c q"
  have w1: "ui32WriteOffset ?q1 = ui32WriteOffset q" "lin ?q1 (ui32WriteOffset q) = Some c"
    by (simp_all add: write_cmd_def)
  obtain d e f where sub: "PVRSRVSubmitCommandKM ?q1 = Some (PVRSRV_OK,
       UPDATE_QUEUE_WOFF (?q1\<lparr>lin := (lin ?q1)(ui32WriteOffset q \<mapsto> c\<lparr>psDstSync := d, psSrcSync := e, pvData := f\<rparr>)\<rparr>)
         (ui32CmdSize c))"
    using PVRSRVSubmitCommandKM_spec [of ?q1 c] unfolding w1(1) using w1(2) by blast
  define c' where "c' = c\<lparr>psDstSync := d, psSrcSync := e, pvData := f\<rparr>"
  have c': "ui32CmdSize c' = ui32CmdSize c" "holds_request pid dev ctype dst src data c'"
    "PVRSRVSubmitCommandKM ?q1 = Some (PVRSRV_OK,
       UPDATE_QUEUE_WOFF (?q1\<lparr>lin := (lin ?q1)(ui32WriteOffset q \<mapsto> c')\<rparr>) (ui32CmdSize c'))"
    using sub hr by (simp_all add: c'_def)
  then have "sz c' = sz c \<and> dst_array c' = dst_array c \<and> src_array c' = src_array c"
    by (simp add: sz_def c'_def)
  moreover have "qrep (UPDATE_QUEUE_WOFF (?q1\<lparr>lin := (lin ?q1)(ui32WriteOffset q \<mapsto> c')\<rparr>) (ui32CmdSize c')) k
      (cs @ [c'])"
    using write_cmd_qrep [OF q _ _ c'(1) refl] room by simp
  ultimately show ?thesis using c'(2,3) by blast
qed

text \<open>C5. Inserting a command always returns. What the queue has lost then is exactly the first
  \<open>n\<close> waiting commands, those behind which the reader has moved its offset meanwhile: the read
  offset is the one before the call or one that the reader was seen at, and it stands \<open>n\<close> commands
  further on. When the call reports success, submitting appends one command to the others, none of
  which is damaged: a command with exactly the request's process, device, type, sync objects with the
  counts recorded for them in order, and room for its data, whose bytes lie inside the allocated
  buffer. When it fails, nothing but the read offset has changed.\<close>

theorem PVRSRVInsertCommandKM_fifo:
  assumes "qrep q k cs" and "\<forall>r \<in> set polls. drained q k cs r"
    and "pvLinQueueUM q = pvLinQueueKM q" and "set dst \<subseteq> dom sy" and "set src \<subseteq> dom sy"
    and "40 + 12 * (length dst + length src) + unat data + 6 < 2 ^ 32"
  shows "\<exists>e p q1 sy' n. PVRSRVInsertCommandKM polls pid q dev ctype dst src data sy = Some (e, p, q1, sy') \<and>
     n \<le> length cs \<and> ui32ReadOffset q1 \<in> insert (ui32ReadOffset q) (set polls) \<and>
     unat (ui32ReadOffset q1) = (unat (ui32ReadOffset q) + total (take n cs)) mod 2 ^ k \<and>
     (if e = PVRSRV_OK
      then (\<exists>q2 c sy1. PVRSRVSubmitCommandKM q1 = Some (PVRSRV_OK, q2) \<and> qrep q2 k (drop n cs @ [c]) \<and>
              holds_request pid dev ctype dst src data c \<and>
              fill_syncs False dst sy = Some (dst_array c, sy1) \<and> fill_syncs True src sy1 = Some (src_array c, sy') \<and>
              unat (ui32WriteOffset q) + sz c \<le> 2 ^ k + unat PVRSRV_MAX_CMD_SIZE)
      else qrep q1 k (drop n cs) \<and> q1 = q\<lparr>ui32ReadOffset := ui32ReadOffset q1\<rparr> \<and> sy' = sy)"
proof -
  let ?n = "command_size (of_nat (length dst)) (of_nat (length src)) data"
  have sz: "unat ?n = 40 + 12 * (length dst + length src) + unat (align4 data)"
    using assms(6) by (intro command_size_unat) simp
  have al: "unat data \<le> unat (align4 data)" "unat (align4 data) \<le> unat data + 3"
    using align4_bounds [of data] assms(6) by simp_all
  have n3: "unat ?n + 3 < 2 ^ 32" using sz al(2) assms(6) by linarith
  from assms(1,2) n3 show ?thesis
  proof (cases rule: PVRSRVGetQueueSpaceKM_spec)
    case (ok q' m)
    obtain ds sy1 where ds: "fill_syncs False dst sy = Some (ds, sy1)" "map psKernelSyncInfoKM ds = dst" "dom sy1 = dom sy"
      using fill_syncs_total [OF assms(4), of False] by blast
    obtain ss sy2 where ss: "fill_syncs True src sy1 = Some (ss, sy2)" "map psKernelSyncInfoKM ss = src"
      using fill_syncs_total [of src sy1 True] assms(5) ds(3) by auto
    have co: "m \<le> length cs" "q' = q\<lparr>ui32ReadOffset := ui32ReadOffset q'\<rparr>"
      "unat (ui32ReadOffset q') = (unat (ui32ReadOffset q) + total (take m cs)) mod 2 ^ k"
      using ok(2) unfolding consumed_def by blast+
    note q' = roff_onlyD [OF co(2)]
    let ?p = "ui32WriteOffset q + pvLinQueueUM q"
    define c where "c = \<lparr>ui32CmdSize = ?n, ui32DevIndex = dev, CommandType = ucast ctype,
       ui32DstSyncCount = of_nat (length dst), ui32SrcSyncCount = of_nat (length src),
       psDstSync = ?p + sizeof_COMMAND,
       psSrcSync = ?p + sizeof_COMMAND + of_nat (length dst) * sizeof_SYNC_OBJECT,
       ui32DataSize = align4 data, ui32ProcessID = pid,
       pvData = ?p + sizeof_COMMAND + of_nat (length dst) * sizeof_SYNC_OBJECT + of_nat (length src) * sizeof_SYNC_OBJECT,
       dst_array = ds, src_array = ss\<rparr>"
    let ?q1 = "write_cmd (ui32WriteOffset q') c q'"
    have ins: "PVRSRVInsertCommandKM polls pid q dev ctype dst src data sy = Some (PVRSRV_OK, Some ?p, ?q1, sy2)"
      using ok(1) ds(1) ss(1) q' by (simp add: PVRSRVInsertCommandKM_def Let_def c_def)
    have ro: "ui32ReadOffset ?q1 = ui32ReadOffset q'" by (simp add: write_cmd_def)
    have szc: "sz c = unat ?n" "dst_array c = ds" "src_array c = ss" by (simp_all add: sz_def c_def)
    have hr: "holds_request pid dev ctype dst src data c"
      using ds(2) ss(2) al(1) sz by (simp add: holds_request_def c_def sz_def)
    obtain q2 c' where c': "PVRSRVSubmitCommandKM ?q1 = Some (PVRSRV_OK, q2)" "qrep q2 k (drop m cs @ [c'])"
      "holds_request pid dev ctype dst src data c'" "sz c' = sz c" "dst_array c' = ds" "src_array c' = ss"
      using submit_written [OF consumed_qrep [OF assms(1) ok(2)] _ _ hr] ok(4) szc sz by auto
    have "unat (ui32WriteOffset q) < 2 ^ k" using qrep_woff [OF assms(1)] by simp
    then have "unat (ui32WriteOffset q) + sz c' \<le> 2 ^ k + unat PVRSRV_MAX_CMD_SIZE"
      using ok(5) szc c'(4) by (simp add: PVRSRV_MAX_CMD_SIZE_def)
    then show ?thesis using ins c'(1,2,3) ds(1) ss(1) c'(5,6) co(1,3) ro ok(3) by auto
  next
    case (fail e sp q' m)
    then have ins: "PVRSRVInsertCommandKM polls pid q dev ctype dst src data sy = Some (e, None, q', sy)" "e \<noteq> PVRSRV_OK"
      by (auto simp: PVRSRVInsertCommandKM_def Let_def)
    have co: "m \<le> length cs" "q' = q\<lparr>ui32ReadOffset := ui32ReadOffset q'\<rparr>"
      "unat (ui32ReadOffset q') = (unat (ui32ReadOffset q) + total (take m cs)) mod 2 ^ k"
      using fail(3) unfolding consumed_def by blast+
    show ?thesis
      by (intro exI [of _ e] exI [of _ None] exI [of _ q'] exI [of _ sy] exI [of _ m])
         (use ins co fail(4) consumed_qrep [OF assms(1) fail(3)] in simp)
  qed
qed

definition q_demo :: PVRSRV_QUEUE_INFO where
  "q_demo = \<lparr>pvLinQueueKM = 0x80000, pvLinQueueUM = 0x80000, ui32ReadOffset = 4064, ui32WriteOffset = 4064,
             ui32QueueSize = 4096, q_ProcessID = 1, lin = Map.empty\<rparr>"

definition cmd_demo :: PVRSRV_COMMAND where
  "cmd_demo = \<lparr>ui32CmdSize = 40, ui32DevIndex = 2, CommandType = 0, ui32DstSyncCount = 0, ui32SrcSyncCount = 0,
     psDstSync = 0x81008, psSrcSync = 0x81008, ui32DataSize = 0, ui32ProcessID = 1, pvData = 0x81008,
     dst_array = [], src_array = []\<rparr>"

definition q_demo_one :: PVRSRV_QUEUE_INFO where
  "q_demo_one = q_demo\<lparr>ui32WriteOffset := 8, lin := [4064 \<mapsto> cmd_demo]\<rparr>"

lemma q_demo_one_qrep: "qrep q_demo_one 12 [cmd_demo]" "drained q_demo_one 12 [cmd_demo] 4064"
proof -
  show "qrep q_demo_one 12 [cmd_demo]"
    by (simp add: qrep_def q_demo_one_def q_demo_def cmd_demo_def sz_def)
  show "drained q_demo_one 12 [cmd_demo] 4064"
    unfolding drained_def by (rule exI [of _ 0]) (simp add: q_demo_one_def q_demo_def)
qed

definition sync_demo :: "ptr \<Rightarrow> PVRSRV_SYNC_DATA option" where
  "sync_demo = [0x100 \<mapsto> \<lparr>ui32WriteOpsPending = 3, ui32WriteOpsComplete = 3, ui32ReadOpsPending = 5, ui32ReadOpsComplete = 5\<rparr>]"

text \<open>The reader is seen at its old place: the waiting command is still there behind the insertion.\<close>

theorem PVRSRVInsertCommandKM_fifo_witness:
  "\<exists>p q1 sy' q2 c. PVRSRVInsertCommandKM [4064] 1 q_demo_one 2 0 [0x100] [] 16 sync_demo = Some (PVRSRV_OK, p, q1, sy') \<and>
     PVRSRVSubmitCommandKM q1 = Some (PVRSRV_OK, q2) \<and> qrep q2 12 [cmd_demo, c] \<and>
     holds_request 1 2 0 [0x100] [] 16 c"
proof -
  have "\<forall>r \<in> set [4064]. drained q_demo_one 12 [cmd_demo] r" "pvLinQueueUM q_demo_one = pvLinQueueKM q_demo_one"
    "set [0x100] \<subseteq> dom sync_demo" "set [] \<subseteq> dom sync_demo"
    "40 + 12 * (length [0x100 :: ptr] + length ([] :: ptr list)) + unat (16 :: u32) + 6 < 2 ^ 32"
    using q_demo_one_qrep(2) by (auto simp: q_demo_one_def q_demo_def sync_demo_def)
  from PVRSRVInsertCommandKM_fifo [OF q_demo_one_qrep(1) this, of 1 2 0] obtain e p q1 sy' n where
    ins: "PVRSRVInsertCommandKM [4064] 1 q_demo_one 2 0 [0x100] [] 16 sync_demo = Some (e, p, q1, sy')"
    and n: "n \<le> length [cmd_demo]" "ui32ReadOffset q1 \<in> insert (ui32ReadOffset q_demo_one) (set [4064])"
      "unat (ui32ReadOffset q1) = (unat (ui32ReadOffset q_demo_one) + total (take n [cmd_demo])) mod 2 ^ 12"
    and ok: "e = PVRSRV_OK \<Longrightarrow> \<exists>q2 c. PVRSRVSubmitCommandKM q1 = Some (PVRSRV_OK, q2) \<and>
      qrep q2 12 (drop n [cmd_demo] @ [c]) \<and> holds_request 1 2 0 [0x100] [] 16 c"
    by (auto split: if_splits; blast)
  have "\<exists>p q1 sy'. PVRSRVInsertCommandKM [4064] 1 q_demo_one 2 0 [0x100] [] 16 sync_demo = Some (PVRSRV_OK, p, q1, sy')"
    by (simp add: PVRSRVInsertCommandKM_def PVRSRVGetQueueSpaceKM_def command_size_def sizeof_COMMAND_def
        sizeof_SYNC_OBJECT_def align4_def PVRSRV_MAX_CMD_SIZE_def GET_SPACE_IN_CMDQ_def q_demo_one_def q_demo_def
        sync_demo_def PVRSRVGetWriteOpsPending_def PVRSRVGetReadOpsPending_def Let_def)
  then have e: "e = PVRSRV_OK" using ins by auto
  have "n = 0"
  proof (rule ccontr)
    assume "n \<noteq> 0"
    then have "n = 1" using n(1) by simp
    then show False using n(2,3) by (simp add: q_demo_one_def q_demo_def cmd_demo_def sz_def)
  qed
  with ok [OF e] ins e show ?thesis by auto
qed

subsection \<open>Sync objects\<close>

text \<open>C24. Two commands that write the same sync object are ordered by their insertion: while the
  first is ready but not complete the second is blocked, and the completion of the first is exactly
  what releases the second.\<close>

theorem writers_in_order:
  assumes "fill_syncs False [i] sy = Some ([a], sy1)" and "fill_syncs False [i] sy1 = Some ([b], sy2)"
    and "sync_blocked False now a = Some False"
  shows "sync_blocked False now b = Some True \<and>
         (\<exists>now'. bump_writes [a] now = Some now' \<and> sync_blocked False now' b = Some False)"
proof -
  obtain d where "sy i = Some d" using assms(1) by (auto simp: PVRSRVGetWriteOpsPending_def bind_eq_Some_conv)
  then have ab: "psKernelSyncInfoKM a = i" "psKernelSyncInfoKM b = i"
    "so_WriteOpsPending b = so_WriteOpsPending a + 1" "so_ReadOpsPending b = so_ReadOpsPending a"
    using assms(1,2) by (auto simp: PVRSRVGetWriteOpsPending_def PVRSRVGetReadOpsPending_def)
  with assms(3) show ?thesis by (auto simp: sync_blocked_def bind_eq_Some_conv)
qed

theorem writers_in_order_witness:
  "\<exists>a b sy1 sy2. fill_syncs False [0x100] sync_demo = Some ([a], sy1) \<and> fill_syncs False [0x100] sy1 = Some ([b], sy2) \<and>
     sync_blocked False sync_demo b = Some True"
proof -
  obtain a sy1 b sy2 where ab: "fill_syncs False [0x100] sync_demo = Some ([a], sy1)" "fill_syncs False [0x100] sy1 = Some ([b], sy2)"
    "a = \<lparr>psKernelSyncInfoKM = 0x100, so_WriteOpsPending = 3, so_ReadOpsPending = 5\<rparr>"
    by (auto simp: sync_demo_def PVRSRVGetWriteOpsPending_def PVRSRVGetReadOpsPending_def)
  have "sync_blocked False sync_demo a = Some False" by (simp add: ab(3) sync_blocked_def sync_demo_def)
  from writers_in_order [OF ab(1,2) this] ab(1,2) show ?thesis by blast
qed

subsection \<open>Command lists\<close>

lemma free_complete_data_frame:
  "free_complete_data as t = Some t' \<Longrightarrow>
   sys_up t' = sys_up t \<and> ppsCmdCompleteData t' = ppsCmdCompleteData t \<and> cc_arrays t' = cc_arrays t"
proof (induction as arbitrary: t)
  case (Cons a as)
  show ?case
  proof (cases "a = NULL")
    case False
    then have "free_complete_data as (t\<lparr>cc_data := (cc_data t)(a := None)\<rparr>) = Some t'"
      using Cons.prems by (auto simp: bind_eq_Some_conv)
    from Cons.IH [OF this] show ?thesis by simp
  qed (use Cons in simp)
qed simp

text \<open>Removing the command functions of a device frees its arrays but keeps the pointers to them,
  so that removing them a second time goes through freed memory.\<close>

theorem PVRSRVRemoveCmdProcListKM_twice:
  assumes "PVRSRVRemoveCmdProcListKM dev n s = Some (PVRSRV_OK, s')"
  shows "PVRSRVRemoveCmdProcListKM dev m s' = None"
proof -
  have pre: "\<not> dev \<ge> SYS_DEVICE_COUNT" "sys_up s" "ppsCmdCompleteData s dev \<noteq> NULL" "free_cmd_lists dev (unat n) s = Some s'"
    using assms by (auto simp: PVRSRVRemoveCmdProcListKM_def bind_eq_Some_conv split: if_splits)
  have "sys_up s' \<and> ppsCmdCompleteData s' dev = ppsCmdCompleteData s dev \<and> cc_arrays s' (ppsCmdCompleteData s dev) = None"
  proof -
    obtain entries t where t: "free_complete_data (take (unat n) entries) s = Some t"
      "(if ppfnCmdProcList t dev \<noteq> NULL then do {
          _ \<leftarrow> proc_arrays t (ppfnCmdProcList t dev);
          Some (t\<lparr>cc_arrays := (cc_arrays t)(ppsCmdCompleteData t dev := None),
                  proc_arrays := (proc_arrays t)(ppfnCmdProcList t dev := None)\<rparr>) }
        else Some (t\<lparr>cc_arrays := (cc_arrays t)(ppsCmdCompleteData t dev := None)\<rparr>)) = Some s'"
      using pre(3,4) by (auto simp: free_cmd_lists_def bind_eq_Some_conv split: if_split_asm)
    note fr = free_complete_data_frame [OF t(1)]
    show ?thesis
    proof (cases "ppfnCmdProcList t dev = NULL")
      case True
      with t(2) have "s' = t\<lparr>cc_arrays := (cc_arrays t)(ppsCmdCompleteData t dev := None)\<rparr>" by simp
      then show ?thesis using fr pre(2) by simp
    next
      case False
      with t(2) have "s' = t\<lparr>cc_arrays := (cc_arrays t)(ppsCmdCompleteData t dev := None),
          proc_arrays := (proc_arrays t)(ppfnCmdProcList t dev := None)\<rparr>"
        by (simp add: bind_eq_Some_conv)
      then show ?thesis using fr pre(2) by simp
    qed
  qed
  with pre show ?thesis by (simp add: PVRSRVRemoveCmdProcListKM_def free_cmd_lists_def)
qed

definition sys_demo :: "nat SYS_DATA" where
  "sys_demo = \<lparr>sys_up = True, psQueueList = [], syncs = sync_demo, psDeviceNodeList = [],
     ppfnCmdProcList = (\<lambda>_. 0)(2 := 0x3000), ppsCmdCompleteData = (\<lambda>_. 0)(2 := 0x4000),
     proc_arrays = [0x3000 \<mapsto> [0x9000]], cc_arrays = [0x4000 \<mapsto> [0x5000]],
     cc_data = [0x5000 \<mapsto> \<lparr>bInUse = False, cc_DstSyncCount = 0, cc_SrcSyncCount = 0, cc_dst = [], cc_src = [],
                            cc_max_dst = 1, cc_max_src = 4, ui32AllocSize = 84\<rparr>],
     misr_count = 0, q_world = 0\<rparr>"

theorem PVRSRVRemoveCmdProcListKM_twice_witness:
  "\<exists>s'. PVRSRVRemoveCmdProcListKM 2 1 sys_demo = Some (PVRSRV_OK, s') \<and> PVRSRVRemoveCmdProcListKM 2 1 s' = None"
proof -
  have "\<exists>s'. PVRSRVRemoveCmdProcListKM 2 1 sys_demo = Some (PVRSRV_OK, s')"
    by (simp add: PVRSRVRemoveCmdProcListKM_def free_cmd_lists_def sys_demo_def SYS_DEVICE_COUNT_def)
  then obtain s' where "PVRSRVRemoveCmdProcListKM 2 1 sys_demo = Some (PVRSRV_OK, s')" by blast
  with PVRSRVRemoveCmdProcListKM_twice [OF this, of 1] show ?thesis by blast
qed

end
