(* ===== verification/Pvr_Flip.thy ===== *)
theory Pvr_Flip
  imports Pvr_Queue
begin

text \<open>
  The flip command of the frame buffer driver, \<^verbatim>\<open>ProcessFlip\<close> of
  \<^verbatim>\<open>src/pvr/omaplfb_displayclass.c\<close>: the one command function of this repository. It pans the
  display to the buffer of the command and completes the command before it returns. The driver's
  memory is the record \<open>lfb\<close>: the flip commands by the address of their data, the devices, the
  buffers and the swap chains; the function \<^verbatim>\<open>fb_pan_display\<close> of the kernel's frame buffer layer,
  called with the device's \<^verbatim>\<open>fb_info\<close> and the line to show, is a parameter acting on the rest of the
  system.
\<close>

record DISPLAYCLASS_FLIP_COMMAND =
  fc_hExtDevice :: ptr
  hExtSwapChain :: ptr
  hExtBuffer :: ptr
  hPrivateTag :: ptr
  ui32ClipRectCount :: u32
  psClipRect :: ptr
  ui32SwapInterval :: u32

record OMAPLFB_BUFFER =
  sCPUVAddr :: ptr
  lb_BufferSize :: u32

record OMAPLFB_SWAPCHAIN =
  ui32BufferCount :: u32
  psBuffer :: ptr
  bBlanked :: bool

record OMAPLFB_DEVINFO =
  sFBInfo_sCPUVAddr :: ptr
  ui32ByteStride :: u32
  psLINFBInfo :: ptr
  yoffset :: u32

record 'w lfb =
  lfb_flips :: "ptr \<Rightarrow> DISPLAYCLASS_FLIP_COMMAND option"
  lfb_devices :: "ptr \<Rightarrow> OMAPLFB_DEVINFO option"
  lfb_buffers :: "ptr \<Rightarrow> OMAPLFB_BUFFER option"
  lfb_chains :: "ptr \<Rightarrow> OMAPLFB_SWAPCHAIN option"
  lfb_rest :: 'w

definition sizeof_FLIP_COMMAND :: u32 where "sizeof_FLIP_COMMAND = 28"
definition DC_FLIP_COMMAND :: u32 where "DC_FLIP_COMMAND = 0"

text \<open>
  \<open>pfnPVRSRVCmdComplete\<close> in the services' jump table is \<open>PVRSRVCommandCompleteKM\<close>
  (\<^verbatim>\<open>deviceclass.c\<close>), hence the node \<open>CmdComplete\<close>. A stride of 0 is a division by zero.
\<close>

definition ProcessFlip ::
  "(ptr \<Rightarrow> u32 \<Rightarrow> 'w \<Rightarrow> 'w) \<Rightarrow> ptr \<Rightarrow> u32 \<Rightarrow> ptr \<Rightarrow> 'w lfb \<Rightarrow> 'w lfb cmd_act" where
  "ProcessFlip fb_pan_display hCmdCookie dataSize pvFlip w =
     (if hCmdCookie = NULL \<or> pvFlip = NULL then Return False w
      else if sizeof_FLIP_COMMAND \<noteq> dataSize then Return False w
      else case lfb_flips w pvFlip of None \<Rightarrow> Fault | Some psFlipCmd \<Rightarrow>
      (case lfb_devices w (fc_hExtDevice psFlipCmd) of None \<Rightarrow> Fault | Some psDevInfo \<Rightarrow>
      (case lfb_buffers w (hExtBuffer psFlipCmd) of None \<Rightarrow> Fault | Some psBuf \<Rightarrow>
       if ui32ByteStride psDevInfo = 0 then Fault
       else let y = (sCPUVAddr psBuf - sFBInfo_sCPUVAddr psDevInfo) div ui32ByteStride psDevInfo;
                w = w\<lparr>lfb_devices := (lfb_devices w)(fc_hExtDevice psFlipCmd \<mapsto> psDevInfo\<lparr>yoffset := y\<rparr>)\<rparr>;
                w = w\<lparr>lfb_rest := fb_pan_display (psLINFBInfo psDevInfo) y (lfb_rest w)\<rparr>
            in case lfb_chains w (hExtSwapChain psFlipCmd) of None \<Rightarrow> Fault
               | Some _ \<Rightarrow> CmdComplete hCmdCookie True w (Return True))))"

end
