(* ===== verification/Pvr_Queue_Dispatch.thy ===== *)
theory Pvr_Queue_Dispatch
  imports Pvr_Queue_Props Pvr_Flip
begin

text \<open>
  The properties of dispatching commands. Processing a queue is the in-order dispatch of its waiting
  commands, with command functions that may complete commands while they run; a dispatched command
  had its sync objects up to date; and the flip command of the frame buffer driver is complete when
  its dispatch returns.
\<close>

subsection \<open>The reference\<close>

text \<open>The reference: commands are tried in order; without flushing at most one is dispatched.\<close>

fun dispatch :: "'w drv \<Rightarrow> bool \<Rightarrow> PVRSRV_COMMAND list \<Rightarrow> 'w SYS_DATA \<Rightarrow> (nat \<times> 'w SYS_DATA) option" where
  "dispatch drv fl [] s = Some (0, s)"
| "dispatch drv fl (c # cs) s = do {
     (e, s) \<leftarrow> PVRSRVProcessCommand drv s c fl;
     if e \<noteq> PVRSRV_OK then Some (0, s)
     else if \<not> fl then Some (1, s)
     else do { (n, s) \<leftarrow> dispatch drv fl cs s; Some (n + 1, s) } }"

text \<open>The contract with the driver: its functions keep \<open>J\<close>, the records name existing sync data.\<close>

definition sys_ok :: "'w drv \<Rightarrow> ('w \<Rightarrow> bool) \<Rightarrow> 'w SYS_DATA \<Rightarrow> bool" where
  "sys_ok drv J s \<longleftrightarrow> records_ok s \<and> J (q_world s) \<and> (\<forall>f n w. J w \<longrightarrow> J (complete_fn drv f n w))"

text \<open>The memory that dispatching a command reads and writes is there, and the command's function
  completes existing commands only.\<close>

definition dispatchable :: "'w drv \<Rightarrow> ('w \<Rightarrow> bool) \<Rightarrow> 'w SYS_DATA \<Rightarrow> PVRSRV_COMMAND \<Rightarrow> bool" where
  "dispatchable drv J s c \<longleftrightarrow>
     psKernelSyncInfoKM ` (set (dst_array c) \<union> set (src_array c)) \<subseteq> dom (syncs s) \<and>
     (\<exists>a f d. cc_of s (ui32DevIndex c) (CommandType c) = Some a \<and> proc_of s (ui32DevIndex c) (CommandType c) = Some f \<and>
        cc_data s a = Some d \<and> ui32DstSyncCount c \<le> cc_max_dst d \<and> ui32SrcSyncCount c \<le> cc_max_src d \<and>
        (\<forall>w. J w \<longrightarrow> act_ok J (dom (cc_data s)) (cmd_fn drv f a (ui32DataSize c) (pvData c) w)))"

lemma dispatchable_layout:
  assumes "layout s' = layout s" and "dispatchable drv J s c"
  shows "dispatchable drv J s' c"
proof -
  note l = layout_dom(1,2) [OF assms(1)] layout_of [OF assms(1)]
  obtain a f d where afd: "cc_of s (ui32DevIndex c) (CommandType c) = Some a"
    "proc_of s (ui32DevIndex c) (CommandType c) = Some f" "cc_data s a = Some d"
    "ui32DstSyncCount c \<le> cc_max_dst d" "ui32SrcSyncCount c \<le> cc_max_src d"
    "\<forall>w. J w \<longrightarrow> act_ok J (dom (cc_data s)) (cmd_fn drv f a (ui32DataSize c) (pvData c) w)"
    and sub: "psKernelSyncInfoKM ` (set (dst_array c) \<union> set (src_array c)) \<subseteq> dom (syncs s)"
    using assms(2) unfolding dispatchable_def by blast
  obtain d' where "cc_data s' a = Some d'" "cc_max_dst d' = cc_max_dst d" "cc_max_src d' = cc_max_src d"
    using layout_max [OF assms(1) afd(3)] by blast
  with afd sub l show ?thesis unfolding dispatchable_def by metis
qed

lemma layout_record:
  assumes "cc_data s a = Some d" and "cc_max_dst d' = cc_max_dst d" and "cc_max_src d' = cc_max_src d"
  shows "layout (s\<lparr>cc_data := (cc_data s)(a \<mapsto> d')\<rparr>) = layout s"
  using assms by (auto simp: layout_def limits_def fun_eq_iff)

lemma held_record:
  assumes "records_ok s" and "psKernelSyncInfoKM ` (set (cc_dst d') \<union> set (cc_src d')) \<subseteq> dom (syncs s)"
  shows "records_ok (s\<lparr>cc_data := (cc_data s)(a \<mapsto> d')\<rparr>)"
  using assms by (auto simp: records_ok_def held_def split: if_splits)

lemma any_blocked_total:
  "psKernelSyncInfoKM ` set obs \<subseteq> dom sy \<Longrightarrow> \<exists>b. any_blocked fl sy obs = Some b"
proof (induction obs)
  case (Cons ob obs)
  then obtain d where "sy (psKernelSyncInfoKM ob) = Some d" by auto
  then have "\<exists>b. sync_blocked fl sy ob = Some b" unfolding sync_blocked_def by auto
  with Cons show ?case by auto
qed auto

text \<open>The record of a command that is about to run.\<close>

definition taken :: "PVRSRV_COMMAND \<Rightarrow> COMMAND_COMPLETE_DATA \<Rightarrow> COMMAND_COMPLETE_DATA" where
  "taken c d = d\<lparr>bInUse := True, cc_DstSyncCount := ui32DstSyncCount c, cc_dst := dst_array c,
                 cc_SrcSyncCount := ui32SrcSyncCount c, cc_src := src_array c\<rparr>"

lemma taken_simps [simp]:
  "bInUse (taken c d)" "cc_dst (taken c d) = dst_array c" "cc_src (taken c d) = src_array c"
  "cc_max_dst (taken c d) = cc_max_dst d" "cc_max_src (taken c d) = cc_max_src d"
  by (simp_all add: taken_def)

lemma PVRSRVProcessCommand_total:
  assumes ok: "sys_ok drv J s" and c: "dispatchable drv J s c"
  shows "\<exists>e s'. PVRSRVProcessCommand drv s c fl = Some (e, s') \<and> sys_ok drv J s' \<and> layout s' = layout s"
proof -
  obtain a f d where afd: "cc_of s (ui32DevIndex c) (CommandType c) = Some a"
    "proc_of s (ui32DevIndex c) (CommandType c) = Some f" "cc_data s a = Some d"
    "\<not> cc_max_dst d < ui32DstSyncCount c" "\<not> cc_max_src d < ui32SrcSyncCount c"
    "\<forall>w. J w \<longrightarrow> act_ok J (dom (cc_data s)) (cmd_fn drv f a (ui32DataSize c) (pvData c) w)"
    and sub: "psKernelSyncInfoKM ` (set (dst_array c) \<union> set (src_array c)) \<subseteq> dom (syncs s)"
    using c unfolding dispatchable_def not_less by blast
  obtain b1 b2 where b: "any_blocked fl (syncs s) (dst_array c) = Some b1" "any_blocked fl (syncs s) (src_array c) = Some b2"
    using sub any_blocked_total [of "dst_array c" "syncs s" fl] any_blocked_total [of "src_array c" "syncs s" fl]
    by (auto simp: image_Un)
  let ?s1 = "s\<lparr>cc_data := (cc_data s)(a \<mapsto> taken c d)\<rparr>"
  note l1 = layout_record [OF afd(3), of "taken c d", simplified]
  have r1: "records_ok ?s1" using ok sub by (intro held_record) (auto simp: sys_ok_def)
  have J: "\<And>f n w. J w \<Longrightarrow> J (complete_fn drv f n w)" "J (q_world s)" using ok by (auto simp: sys_ok_def)
  have "act_ok J (dom (cc_data ?s1)) (cmd_fn drv f a (ui32DataSize c) (pvData c) (q_world s))"
    using layout_dom(1) [OF l1] afd(6) J(2) by simp
  from run_act_total [OF J(1) this r1] obtain r s2 where
    s2: "run_act drv (cmd_fn drv f a (ui32DataSize c) (pvData c) (q_world s)) ?s1 = Some (r, s2)" "J (q_world s2)"
    by blast
  have l2: "layout s2 = layout ?s1" "held s2 = held ?s1" using run_act_frame [OF s2(1)] by blast+
  have r2: "records_ok s2" using records_ok_mono [OF l2 r1] .
  obtain d2 where d2: "cc_data s2 a = Some d2" using layout_max [OF l2(1), of a "taken c d"] by auto
  let ?s3 = "s2\<lparr>cc_data := (cc_data s2)(a \<mapsto> d2\<lparr>bInUse := False\<rparr>)\<rparr>"
  have l3: "layout ?s3 = layout s2" "held ?s3 = held s2"
    using layout_record [OF d2, of "d2\<lparr>bInUse := False\<rparr>"] d2 by (auto simp: held_def fun_eq_iff)
  have fin: "sys_ok drv J s2 \<and> layout s2 = layout s" "sys_ok drv J ?s3 \<and> layout ?s3 = layout s"
    using records_ok_mono [OF l3 r2] r2 J(1) s2(2) l1 l2(1) l3(1) by (auto simp: sys_ok_def)
  show ?thesis
    using afd(1-5) b s2(1) fin d2 ok by (cases r) (auto simp: PVRSRVProcessCommand_def Let_def taken_def)
qed

lemma dispatch_total:
  "sys_ok drv J s \<Longrightarrow> \<forall>c \<in> set cs. dispatchable drv J s c \<Longrightarrow>
   \<exists>n s'. dispatch drv fl cs s = Some (n, s') \<and> n \<le> length cs"
proof (induction cs arbitrary: s)
  case (Cons c cs)
  then obtain e s1 where s1: "PVRSRVProcessCommand drv s c fl = Some (e, s1)" "sys_ok drv J s1" "layout s1 = layout s"
    using PVRSRVProcessCommand_total [of drv J s c fl] by auto
  have "\<forall>c \<in> set cs. dispatchable drv J s1 c" using Cons.prems(2) dispatchable_layout [OF s1(3)] by auto
  with Cons.IH [OF s1(2)] have "\<exists>n s'. dispatch drv fl cs s1 = Some (n, s') \<and> n \<le> length cs" by simp
  with s1 show ?case by auto
qed simp

lemma process_queue_dispatch:
  assumes "qrep q k cs" and "dispatch drv fl cs s = Some (n, s')"
  shows "\<exists>q'. process_queue drv fl q s = Some (q', s') \<and> qrep q' k (drop n cs)"
  using assms
proof (induction cs arbitrary: q s n)
  case Nil
  then show ?case by (subst process_queue.simps) (simp add: qrep_empty_iff)
next
  case (Cons c cs)
  have ne: "ui32ReadOffset q \<noteq> ui32WriteOffset q" using qrep_empty_iff [OF Cons.prems(1)] by simp
  have hd: "lin q (ui32ReadOffset q) = Some c" using qrep_head [OF Cons.prems(1)] .
  note tl = UPDATE_QUEUE_ROFF_qrep [OF Cons.prems(1)]
  obtain e s1 where s1: "PVRSRVProcessCommand drv s c fl = Some (e, s1)"
    using Cons.prems(2) by (cases "PVRSRVProcessCommand drv s c fl") auto
  show ?case
  proof (cases "e = PVRSRV_OK \<and> fl")
    case True
    then obtain m where m: "dispatch drv fl cs s1 = Some (m, s')" "n = m + 1"
      using Cons.prems(2) s1 by (auto simp: bind_eq_Some_conv)
    from Cons.IH [OF tl m(1)] True ne hd s1 m(2) show ?thesis
      by (subst process_queue.simps) (simp add: Let_def)
  next
    case False
    with Cons.prems ne hd s1 tl show ?thesis
      by (subst process_queue.simps) (auto simp: Let_def split: if_splits)
  qed
qed

subsection \<open>Processing a queue\<close>

text \<open>C8. Processing a queue always ends, whatever commands the command functions complete while they
  run, as long as these commands exist. It treats the waiting commands in the order of their
  submission, exactly as the reference does on the list of commands: until one cannot be dispatched,
  and at most one when not flushing; the dispatched commands and no others leave the queue.\<close>

theorem process_queue_fifo:
  assumes "qrep q k cs" and "sys_ok drv J s" and "\<forall>c \<in> set cs. dispatchable drv J s c"
  shows "\<exists>n s' q'. dispatch drv fl cs s = Some (n, s') \<and> n \<le> length cs \<and>
           process_queue drv fl q s = Some (q', s') \<and> qrep q' k (drop n cs)"
  using dispatch_total [OF assms(2,3), of fl] process_queue_dispatch [OF assms(1)] by metis

text \<open>Two flips of one swap chain: the second waits for the read of the first.\<close>

definition flip_demo :: "ptr \<Rightarrow> u32 \<Rightarrow> PVRSRV_COMMAND" where
  "flip_demo p rd = \<lparr>ui32CmdSize = 80, ui32DevIndex = 2, CommandType = 0, ui32DstSyncCount = 0, ui32SrcSyncCount = 1,
     psDstSync = p - 40, psSrcSync = p - 12, ui32DataSize = 28, ui32ProcessID = 1, pvData = p,
     dst_array = [], src_array = [\<lparr>psKernelSyncInfoKM = 0x100, so_WriteOpsPending = 3, so_ReadOpsPending = rd\<rparr>]\<rparr>"

definition q_flips :: PVRSRV_QUEUE_INFO where
  "q_flips = q_demo\<lparr>ui32WriteOffset := 128, lin := [4064 \<mapsto> flip_demo 0x81014 5, 48 \<mapsto> flip_demo 0x80064 6]\<rparr>"

definition lfb_demo :: "u32 \<Rightarrow> nat \<Rightarrow> nat lfb" where
  "lfb_demo y n = \<lparr>
     lfb_flips = [0x81014 \<mapsto> \<lparr>fc_hExtDevice = 0x700, hExtSwapChain = 0x710, hExtBuffer = 0x720, hPrivateTag = 0,
                             ui32ClipRectCount = 0, psClipRect = 0, ui32SwapInterval = 1\<rparr>,
                  0x80064 \<mapsto> \<lparr>fc_hExtDevice = 0x700, hExtSwapChain = 0x710, hExtBuffer = 0x730, hPrivateTag = 0,
                             ui32ClipRectCount = 0, psClipRect = 0, ui32SwapInterval = 1\<rparr>],
     lfb_devices = [0x700 \<mapsto> \<lparr>sFBInfo_sCPUVAddr = 0x100000, ui32ByteStride = 1600, psLINFBInfo = 0x740, yoffset = y\<rparr>],
     lfb_buffers = [0x720 \<mapsto> \<lparr>sCPUVAddr = 0x100000, lb_BufferSize = 768000\<rparr>,
                    0x730 \<mapsto> \<lparr>sCPUVAddr = 0x1BB800, lb_BufferSize = 768000\<rparr>],
     lfb_chains = [0x710 \<mapsto> \<lparr>ui32BufferCount = 2, psBuffer = 0x720, bBlanked = False\<rparr>],
     lfb_rest = n\<rparr>"

definition sys_flip :: "nat lfb SYS_DATA" where
  "sys_flip = \<lparr>sys_up = True, psQueueList = [], syncs = sync_demo, psDeviceNodeList = [],
     ppfnCmdProcList = (\<lambda>_. 0)(2 := 0x3000), ppsCmdCompleteData = (\<lambda>_. 0)(2 := 0x4000),
     proc_arrays = [0x3000 \<mapsto> [0x9000]], cc_arrays = [0x4000 \<mapsto> [0x5000]],
     cc_data = [0x5000 \<mapsto> \<lparr>bInUse = False, cc_DstSyncCount = 0, cc_SrcSyncCount = 0, cc_dst = [], cc_src = [],
                            cc_max_dst = 0, cc_max_src = 2, ui32AllocSize = 48\<rparr>],
     misr_count = 0, q_world = lfb_demo 0 0\<rparr>"

definition drv_flip :: "nat lfb drv" where
  "drv_flip = \<lparr>cmd_fn = (\<lambda>f. ProcessFlip (\<lambda>fbi y. Suc)), complete_fn = (\<lambda>f a w. w), dcstate_fn = (\<lambda>f a st w. w)\<rparr>"

definition lfb_live :: "nat lfb \<Rightarrow> bool" where
  "lfb_live w \<longleftrightarrow> (\<exists>y n. w = lfb_demo y n)"

lemma lfb_live_demo: "lfb_live (lfb_demo y n)"
  unfolding lfb_live_def by blast

lemma flip_demo_act:
  "ProcessFlip (\<lambda>fbi y. Suc) 0x5000 28 0x81014 (lfb_demo y n) =
     CmdComplete 0x5000 True (lfb_demo 0 (Suc n)) (Return True)"
  "ProcessFlip (\<lambda>fbi y. Suc) 0x5000 28 0x80064 (lfb_demo y n) =
     CmdComplete 0x5000 True (lfb_demo 480 (Suc n)) (Return True)"
  by (simp_all add: ProcessFlip_def sizeof_FLIP_COMMAND_def Let_def lfb_demo_def)

lemma flip_demo_ok:
  "sys_ok drv_flip lfb_live sys_flip"
  "p = 0x81014 \<or> p = 0x80064 \<Longrightarrow> dispatchable drv_flip lfb_live sys_flip (flip_demo p rd)"
proof -
  show "sys_ok drv_flip lfb_live sys_flip"
    by (simp add: sys_ok_def records_ok_def held_def sys_flip_def drv_flip_def lfb_live_demo split: if_splits)
  assume p: "p = 0x81014 \<or> p = 0x80064"
  have "act_ok lfb_live {0x5000} (cmd_fn drv_flip 0x9000 0x5000 28 p w)" if w: "lfb_live w" for w
  proof -
    obtain y n where w: "w = lfb_demo y n" using w unfolding lfb_live_def by blast
    from p show ?thesis
    proof
      assume "p = 0x81014"
      then show ?thesis by (simp only: w drv_flip_def drv.select_convs flip_demo_act) (simp add: lfb_live_demo)
    next
      assume "p = 0x80064"
      then show ?thesis by (simp only: w drv_flip_def drv.select_convs flip_demo_act) (simp add: lfb_live_demo)
    qed
  qed
  then show "dispatchable drv_flip lfb_live sys_flip (flip_demo p rd)"
    by (simp add: dispatchable_def flip_demo_def sys_flip_def cc_of_def proc_of_def sync_demo_def)
qed

definition sys_flipped :: "PVRSRV_COMMAND \<Rightarrow> u32 \<Rightarrow> u32 \<Rightarrow> nat \<Rightarrow> nat lfb SYS_DATA" where
  "sys_flipped c rd y n = sys_flip\<lparr>
     syncs := [0x100 \<mapsto> \<lparr>ui32WriteOpsPending = 3, ui32WriteOpsComplete = 3, ui32ReadOpsPending = 5, ui32ReadOpsComplete = rd\<rparr>],
     cc_data := [0x5000 \<mapsto> \<lparr>bInUse = False, cc_DstSyncCount = ui32DstSyncCount c, cc_SrcSyncCount = ui32SrcSyncCount c,
                             cc_dst = dst_array c, cc_src = src_array c,
                             cc_max_dst = 0, cc_max_src = 2, ui32AllocSize = 48\<rparr>],
     misr_count := n, q_world := lfb_demo y n\<rparr>"

lemma flip_runs:
  "PVRSRVProcessCommand drv_flip sys_flip (flip_demo 0x81014 5) True =
     Some (PVRSRV_OK, sys_flipped (flip_demo 0x81014 5) 6 0 (Suc 0))"
  "PVRSRVProcessCommand drv_flip (sys_flipped c 6 y (Suc 0)) (flip_demo 0x80064 6) True =
     Some (PVRSRV_OK, sys_flipped (flip_demo 0x80064 6) 7 480 (Suc (Suc 0)))"
  by (simp_all add: PVRSRVProcessCommand_def flip_demo_def sys_flipped_def sys_flip_def cc_of_def proc_of_def
       SYS_DEVICE_COUNT_def drv_flip_def flip_demo_act sync_demo_def sync_blocked_def PVRSRVCommandCompleteKM_def
       PVRSRVCommandCompleteCallbacks_def Let_def)

text \<open>Both flips leave in one flush: the first completes in its dispatch, so that the second finds the
  record free and its sync object up to date.\<close>

theorem process_queue_fifo_witness:
  "\<exists>s' q'. process_queue drv_flip True q_flips sys_flip = Some (q', s') \<and> qrep q' 12 [] \<and>
     lfb_rest (q_world s') = 2 \<and> misr_count s' = 2"
proof -
  let ?c1 = "flip_demo 0x81014 5" and ?c2 = "flip_demo 0x80064 6"
  have q: "qrep q_flips 12 [?c1, ?c2]"
    by (simp add: qrep_def q_flips_def q_demo_def flip_demo_def sz_def)
  have "\<forall>c \<in> set [?c1, ?c2]. dispatchable drv_flip lfb_live sys_flip c" using flip_demo_ok(2) by simp
  from process_queue_fifo [OF q flip_demo_ok(1) this, of True] obtain n s' q' where
    d: "dispatch drv_flip True [?c1, ?c2] sys_flip = Some (n, s')"
    "process_queue drv_flip True q_flips sys_flip = Some (q', s')" "qrep q' 12 (drop n [?c1, ?c2])"
    by blast
  have "dispatch drv_flip True [?c1, ?c2] sys_flip = Some (2, sys_flipped ?c2 7 480 (Suc (Suc 0)))"
    by (simp add: flip_runs)
  then have "n = 2 \<and> lfb_rest (q_world s') = 2 \<and> misr_count s' = 2"
    using d(1) by (auto simp: sys_flipped_def lfb_demo_def)
  with d show ?thesis by auto
qed

subsection \<open>Sync objects\<close>

lemma any_blocked_False:
  "any_blocked fl sy obs = Some False \<Longrightarrow> ob \<in> set obs \<Longrightarrow> sync_blocked fl sy ob = Some False"
  by (induction obs) (auto simp: bind_eq_Some_conv split: if_splits)

text \<open>A dispatch that reports success: the checks it has passed, and the run of the command function.\<close>

lemma PVRSRVProcessCommand_OK:
  assumes "PVRSRVProcessCommand drv s c fl = Some (PVRSRV_OK, s')"
  obtains a d f where
    "any_blocked fl (syncs s) (dst_array c) = Some False" "any_blocked fl (syncs s) (src_array c) = Some False"
    "cc_of s (ui32DevIndex c) (CommandType c) = Some a" "cc_data s a = Some d" "\<not> bInUse d"
    "proc_of s (ui32DevIndex c) (CommandType c) = Some f"
    "run_act drv (cmd_fn drv f a (ui32DataSize c) (pvData c) (q_world s))
       (s\<lparr>cc_data := (cc_data s)(a \<mapsto> taken c d)\<rparr>) = Some (True, s')"
proof -
  have nb: "any_blocked fl (syncs s) (dst_array c) = Some False" "any_blocked fl (syncs s) (src_array c) = Some False"
    using assms by (auto simp: PVRSRVProcessCommand_def bind_eq_Some_conv split: if_splits)
  obtain a d where ad: "cc_of s (ui32DevIndex c) (CommandType c) = Some a" "cc_data s a = Some d" "\<not> bInUse d"
    "\<not> ui32DevIndex c \<ge> SYS_DEVICE_COUNT" "\<not> (ui32DstSyncCount c > cc_max_dst d \<or> ui32SrcSyncCount c > cc_max_src d)"
    using assms nb by (auto simp: PVRSRVProcessCommand_def bind_eq_Some_conv Let_def split: if_splits)
  obtain f r s1 where "proc_of s (ui32DevIndex c) (CommandType c) = Some f"
    "run_act drv (cmd_fn drv f a (ui32DataSize c) (pvData c) (q_world s))
       (s\<lparr>cc_data := (cc_data s)(a \<mapsto> taken c d)\<rparr>) = Some (r, s1)"
    "r \<and> s1 = s'"
    using assms nb ad by (auto simp: PVRSRVProcessCommand_def bind_eq_Some_conv Let_def taken_def split: if_splits)
  with nb ad show thesis by (intro that [of a d f]) auto
qed

text \<open>C25. A command is dispatched only when every sync object it names is at the counts recorded at
  its insertion (exactly, or, in a flush, at these counts or beyond them) and the completion
  record of its type is free. Its function then runs in the state in which that record is taken and
  carries the command's sync objects, so that a completion from inside the function finds them there;
  afterwards the record still carries them, and it is in use unless the function has
  completed the command itself.\<close>

theorem PVRSRVProcessCommand_dependencies:
  assumes "PVRSRVProcessCommand drv s c bFlush = Some (PVRSRV_OK, s')" and "sys_up s"
  shows "(\<forall>ob \<in> set (dst_array c) \<union> set (src_array c). \<exists>d. syncs s (psKernelSyncInfoKM ob) = Some d \<and>
            (ui32WriteOpsComplete d = so_WriteOpsPending ob \<and> ui32ReadOpsComplete d = so_ReadOpsPending ob \<or>
             bFlush \<and> ui32WriteOpsComplete d \<ge> so_WriteOpsPending ob \<and> ui32ReadOpsComplete d \<ge> so_ReadOpsPending ob)) \<and>
         (\<exists>a d f s1 d1. cc_of s (ui32DevIndex c) (CommandType c) = Some a \<and> cc_data s a = Some d \<and> \<not> bInUse d \<and>
            proc_of s (ui32DevIndex c) (CommandType c) = Some f \<and>
            s1 = s\<lparr>cc_data := (cc_data s)(a \<mapsto> d1)\<rparr> \<and> bInUse d1 \<and>
            cc_dst d1 = dst_array c \<and> cc_src d1 = src_array c \<and>
            run_act drv (cmd_fn drv f a (ui32DataSize c) (pvData c) (q_world s)) s1 = Some (True, s') \<and>
            cc_data s' a = Some (d1\<lparr>bInUse := a \<notin> set (act_cookies drv
              (cmd_fn drv f a (ui32DataSize c) (pvData c) (q_world s)) s1)\<rparr>))"
proof -
  from PVRSRVProcessCommand_OK [OF assms(1)] obtain a d f where
    nb: "any_blocked bFlush (syncs s) (dst_array c) = Some False" "any_blocked bFlush (syncs s) (src_array c) = Some False"
    and ad: "cc_of s (ui32DevIndex c) (CommandType c) = Some a" "cc_data s a = Some d" "\<not> bInUse d"
    "proc_of s (ui32DevIndex c) (CommandType c) = Some f"
    and run: "run_act drv (cmd_fn drv f a (ui32DataSize c) (pvData c) (q_world s))
       (s\<lparr>cc_data := (cc_data s)(a \<mapsto> taken c d)\<rparr>) = Some (True, s')" .
  have "\<exists>d. syncs s (psKernelSyncInfoKM ob) = Some d \<and>
      (ui32WriteOpsComplete d = so_WriteOpsPending ob \<and> ui32ReadOpsComplete d = so_ReadOpsPending ob \<or>
       bFlush \<and> ui32WriteOpsComplete d \<ge> so_WriteOpsPending ob \<and> ui32ReadOpsComplete d \<ge> so_ReadOpsPending ob)"
    if "ob \<in> set (dst_array c) \<union> set (src_array c)" for ob
    using that any_blocked_False [OF nb(1), of ob] any_blocked_False [OF nb(2), of ob]
    by (auto simp: sync_blocked_def SYNCOPS_STALE_def bind_eq_Some_conv)
  moreover have "cc_data s' a = Some ((taken c d)\<lparr>bInUse := a \<notin> set (act_cookies drv
      (cmd_fn drv f a (ui32DataSize c) (pvData c) (q_world s)) (s\<lparr>cc_data := (cc_data s)(a \<mapsto> taken c d)\<rparr>))\<rparr>)"
    using run_act_record [OF run, of a "taken c d"] assms(2) by simp
  ultimately show ?thesis using ad run
    by (intro conjI exI [of _ a] exI [of _ d] exI [of _ f] exI [of _ "taken c d"]
          exI [of _ "s\<lparr>cc_data := (cc_data s)(a \<mapsto> taken c d)\<rparr>"]) auto
qed

theorem PVRSRVProcessCommand_dependencies_witness:
  "\<exists>s' d'. PVRSRVProcessCommand drv_flip sys_flip (flip_demo 0x81014 5) True = Some (PVRSRV_OK, s') \<and>
     cc_data s' 0x5000 = Some d' \<and> cc_src d' = src_array (flip_demo 0x81014 5)"
proof -
  have "sys_up sys_flip" by (simp add: sys_flip_def)
  note th = PVRSRVProcessCommand_dependencies [OF flip_runs(1) this]
  have "cc_of sys_flip (ui32DevIndex (flip_demo 0x81014 5)) (CommandType (flip_demo 0x81014 5)) = Some 0x5000"
    by (simp add: cc_of_def flip_demo_def sys_flip_def)
  with th flip_runs(1) show ?thesis by fastforce
qed

subsection \<open>The flip command\<close>

lemma ProcessFlip_run:
  assumes "run_act drv (ProcessFlip pan a n p (q_world s)) s = Some (True, s')"
  obtains fc dev buf y w where "n = 28" "lfb_flips (q_world s) p = Some fc"
    "lfb_devices (q_world s) (fc_hExtDevice fc) = Some dev" "lfb_buffers (q_world s) (hExtBuffer fc) = Some buf"
    "y = (sCPUVAddr buf - sFBInfo_sCPUVAddr dev) div ui32ByteStride dev"
    "w = (q_world s)\<lparr>lfb_devices := (lfb_devices (q_world s))(fc_hExtDevice fc \<mapsto> dev\<lparr>yoffset := y\<rparr>),
                     lfb_rest := pan (psLINFBInfo dev) y (lfb_rest (q_world s))\<rparr>"
    "PVRSRVCommandCompleteKM drv a True (s\<lparr>q_world := w\<rparr>) = Some s'"
proof -
  obtain fc dev buf where f: "n = 28" "lfb_flips (q_world s) p = Some fc"
    "lfb_devices (q_world s) (fc_hExtDevice fc) = Some dev" "lfb_buffers (q_world s) (hExtBuffer fc) = Some buf"
    using assms by (auto simp: ProcessFlip_def sizeof_FLIP_COMMAND_def split: if_splits option.splits)
  define y where "y = (sCPUVAddr buf - sFBInfo_sCPUVAddr dev) div ui32ByteStride dev"
  define w where "w = (q_world s)\<lparr>lfb_devices := (lfb_devices (q_world s))(fc_hExtDevice fc \<mapsto> dev\<lparr>yoffset := y\<rparr>),
                     lfb_rest := pan (psLINFBInfo dev) y (lfb_rest (q_world s))\<rparr>"
  obtain s1 where s1: "PVRSRVCommandCompleteKM drv a True (s\<lparr>q_world := w\<rparr>) = Some s1" "s' = s1\<lparr>q_world := q_world s1\<rparr>"
    using assms f by (auto simp: ProcessFlip_def sizeof_FLIP_COMMAND_def Let_def y_def w_def split: if_splits option.splits)
  then show thesis by (intro that [OF f y_def w_def]) simp_all
qed

text \<open>C38. A flip command that is dispatched is complete when the dispatch returns: the display has been
  panned to the line at which the command's buffer starts, each sync object the command writes or
  reads counts one operation more as complete per mention, its completion record is free again for the next flip, all
  other records are as they were, and the MISR has been scheduled once.\<close>

theorem PVRSRVProcessCommand_flip:
  assumes "PVRSRVProcessCommand drv s c bFlush = Some (PVRSRV_OK, s')" and "sys_up s"
    and "proc_of s (ui32DevIndex c) (CommandType c) = Some f" and "cmd_fn drv f = ProcessFlip pan"
  shows "\<exists>a d fc dev buf y w. cc_of s (ui32DevIndex c) (CommandType c) = Some a \<and> cc_data s a = Some d \<and>
     lfb_flips (q_world s) (pvData c) = Some fc \<and> lfb_devices (q_world s) (fc_hExtDevice fc) = Some dev \<and>
     lfb_buffers (q_world s) (hExtBuffer fc) = Some buf \<and>
     y = (sCPUVAddr buf - sFBInfo_sCPUVAddr dev) div ui32ByteStride dev \<and>
     w = (q_world s)\<lparr>lfb_devices := (lfb_devices (q_world s))(fc_hExtDevice fc \<mapsto> dev\<lparr>yoffset := y\<rparr>),
                     lfb_rest := pan (psLINFBInfo dev) y (lfb_rest (q_world s))\<rparr> \<and>
     q_world s' = run_complete drv True (psDeviceNodeList s) w \<and>
     (\<forall>i. syncs s' i = map_option (counted_up (times_of i (dst_array c)) (times_of i (src_array c))) (syncs s i)) \<and>
     cc_data s' = (cc_data s)(a \<mapsto> (taken c d)\<lparr>bInUse := False\<rparr>) \<and>
     misr_count s' = misr_count s + 1"
proof -
  from PVRSRVProcessCommand_OK [OF assms(1)] obtain a d g where
    ad: "cc_of s (ui32DevIndex c) (CommandType c) = Some a" "cc_data s a = Some d"
    "proc_of s (ui32DevIndex c) (CommandType c) = Some g"
    and run: "run_act drv (cmd_fn drv g a (ui32DataSize c) (pvData c) (q_world s))
       (s\<lparr>cc_data := (cc_data s)(a \<mapsto> taken c d)\<rparr>) = Some (True, s')" .
  let ?s1 = "s\<lparr>cc_data := (cc_data s)(a \<mapsto> taken c d)\<rparr>"
  have "run_act drv (ProcessFlip pan a (ui32DataSize c) (pvData c) (q_world ?s1)) ?s1 = Some (True, s')"
    using run ad(3) assms(3,4) by simp
  from ProcessFlip_run [OF this] obtain fc dev buf y w where
    f: "lfb_flips (q_world s) (pvData c) = Some fc" "lfb_devices (q_world s) (fc_hExtDevice fc) = Some dev"
      "lfb_buffers (q_world s) (hExtBuffer fc) = Some buf"
      "y = (sCPUVAddr buf - sFBInfo_sCPUVAddr dev) div ui32ByteStride dev"
      "w = (q_world s)\<lparr>lfb_devices := (lfb_devices (q_world s))(fc_hExtDevice fc \<mapsto> dev\<lparr>yoffset := y\<rparr>),
                     lfb_rest := pan (psLINFBInfo dev) y (lfb_rest (q_world s))\<rparr>"
    and cc: "PVRSRVCommandCompleteKM drv a True (?s1\<lparr>q_world := w\<rparr>) = Some s'"
    by simp metis
  have "sys_up (?s1\<lparr>q_world := w\<rparr>)" using assms(2) by simp
  from PVRSRVCommandCompleteKM_cases [OF cc this] obtain d1 where d1: "cc_data (?s1\<lparr>q_world := w\<rparr>) a = Some d1"
    "\<And>i. syncs s' i = map_option (counted_up (times_of i (cc_dst d1)) (times_of i (cc_src d1))) (syncs (?s1\<lparr>q_world := w\<rparr>) i)"
    and s': "s' = ?s1\<lparr>q_world := w, syncs := syncs s', cc_data := (cc_data (?s1\<lparr>q_world := w\<rparr>))(a \<mapsto> d1\<lparr>bInUse := False\<rparr>),
            q_world := run_complete drv True (psDeviceNodeList (?s1\<lparr>q_world := w\<rparr>)) (q_world (?s1\<lparr>q_world := w\<rparr>)),
            misr_count := misr_count (?s1\<lparr>q_world := w\<rparr>) + (if True then 1 else 0)\<rparr>" by blast
  have d: "d1 = taken c d" using d1(1) by simp
  have "q_world s' = run_complete drv True (psDeviceNodeList s) w"
    "cc_data s' = (cc_data s)(a \<mapsto> (taken c d)\<lparr>bInUse := False\<rparr>)" "misr_count s' = misr_count s + 1"
    using arg_cong [OF s', of q_world] arg_cong [OF s', of cc_data] arg_cong [OF s', of misr_count] d by simp_all
  moreover have "\<forall>i. syncs s' i = map_option (counted_up (times_of i (dst_array c)) (times_of i (src_array c))) (syncs s i)"
    using d1(2) d by simp
  ultimately show ?thesis using ad(1,2) f by blast
qed

theorem PVRSRVProcessCommand_flip_witness:
  "\<exists>s' d. PVRSRVProcessCommand drv_flip sys_flip (flip_demo 0x81014 5) True = Some (PVRSRV_OK, s') \<and>
     misr_count s' = 1 \<and> cc_data s' 0x5000 = Some d \<and> \<not> bInUse d \<and>
     map_option ui32ReadOpsComplete (syncs s' 0x100) = Some 6"
proof -
  let ?c = "flip_demo 0x81014 5"
  have "sys_up sys_flip" "proc_of sys_flip (ui32DevIndex ?c) (CommandType ?c) = Some 0x9000"
    "cmd_fn drv_flip 0x9000 = ProcessFlip (\<lambda>fbi y. Suc)"
    by (simp_all add: sys_flip_def proc_of_def flip_demo_def drv_flip_def)
  note th = PVRSRVProcessCommand_flip [OF flip_runs(1) this]
  have "cc_of sys_flip (ui32DevIndex ?c) (CommandType ?c) = Some 0x5000"
    by (simp add: cc_of_def flip_demo_def sys_flip_def)
  moreover have "times_of 0x100 (dst_array ?c) = 0" "times_of 0x100 (src_array ?c) = 1" "misr_count sys_flip = 0"
    "map_option ui32ReadOpsComplete (map_option (counted_up 0 1) (syncs sys_flip 0x100)) = Some 6"
    by (simp_all add: flip_demo_def sys_flip_def sync_demo_def counted_up_def)
  moreover obtain a d where "cc_of sys_flip (ui32DevIndex ?c) (CommandType ?c) = Some a"
    "\<forall>i. syncs (sys_flipped ?c 6 0 (Suc 0)) i = map_option (counted_up (times_of i (dst_array ?c)) (times_of i (src_array ?c))) (syncs sys_flip i)"
    "cc_data (sys_flipped ?c 6 0 (Suc 0)) = (cc_data sys_flip)(a \<mapsto> (taken ?c d)\<lparr>bInUse := False\<rparr>)"
    "misr_count (sys_flipped ?c 6 0 (Suc 0)) = misr_count sys_flip + 1"
    using th by blast
  ultimately show ?thesis
    by (intro exI [of _ "sys_flipped ?c 6 0 (Suc 0)"] exI [of _ "(taken ?c d)\<lparr>bInUse := False\<rparr>"])
       (simp add: flip_runs)
qed

end
