(* ===== verification/Pvr_Power.thy ===== *)
theory Pvr_Power
  imports Pvr_Prelude
begin

text \<open>
  Power transitions: the state machine of \<^verbatim>\<open>src/pvr/power.c\<close> over the registered power
  devices, with the platform's part of a transition from \<^verbatim>\<open>src/pvr/sysconfig.c\<close>. The power
  functions of the devices and the kernel's clock and interrupt calls are the parameter \<open>fns\<close>;
  they act on the state \<open>pw\<close> of the hardware and may fail.
\<close>

subsection \<open>Data\<close>

datatype PVR_POWER_STATE =
    PVRSRV_POWER_Unspecified | PVRSRV_POWER_STATE_D0 | PVRSRV_POWER_STATE_D1
  | PVRSRV_POWER_STATE_D2 | PVRSRV_POWER_STATE_D3 | PVRSRV_POWER_STATE_D4

primrec power_value :: "PVR_POWER_STATE \<Rightarrow> int" where
  "power_value PVRSRV_POWER_Unspecified = - 1"
| "power_value PVRSRV_POWER_STATE_D0 = 0"
| "power_value PVRSRV_POWER_STATE_D1 = 1"
| "power_value PVRSRV_POWER_STATE_D2 = 2"
| "power_value PVRSRV_POWER_STATE_D3 = 3"
| "power_value PVRSRV_POWER_STATE_D4 = 4"

datatype PVRSRV_INIT_SERVER_STATE =
    PVRSRV_INIT_SERVER_Unspecified | PVRSRV_INIT_SERVER_RUNNING | PVRSRV_INIT_SERVER_RAN
  | PVRSRV_INIT_SERVER_SUCCESSFUL | PVRSRV_INIT_SERVER_NUM

record PVRSRV_POWER_DEV =
  pfnPrePower :: ptr
  pfnPostPower :: ptr
  pfnPreClockSpeedChange :: ptr
  pfnPostClockSpeedChange :: ptr
  hDevCookie :: ptr
  pd_DeviceIndex :: u32
  eDefaultPowerState :: PVR_POWER_STATE
  pd_CurrentPowerState :: PVR_POWER_STATE

text \<open>The power devices are a list, the one registered last first; \<open>sys_flags\<close> is
  \<open>gsSysSpecificData.ui32SysSpecificData\<close>.\<close>

record 'w power =
  pw_sys_up :: bool
  psPowerDeviceList :: "PVRSRV_POWER_DEV list"
  eCurrentPowerState :: PVR_POWER_STATE
  eFailedPowerState :: PVR_POWER_STATE
  gbInitServerRunning :: bool
  gbInitServerRan :: bool
  gbInitSuccessful :: bool
  sys_flags :: u32
  gui32SGXDeviceID :: u32
  pw :: 'w

record 'w power_fns =
  dev_power :: "ptr \<Rightarrow> ptr \<Rightarrow> PVR_POWER_STATE \<Rightarrow> PVR_POWER_STATE \<Rightarrow> 'w \<Rightarrow> PVRSRV_ERROR \<times> 'w"
  dev_clock :: "ptr \<Rightarrow> ptr \<Rightarrow> bool \<Rightarrow> PVR_POWER_STATE \<Rightarrow> 'w \<Rightarrow> PVRSRV_ERROR \<times> 'w"
  uninstall_LISR :: "'w \<Rightarrow> PVRSRV_ERROR \<times> 'w"
  install_LISR :: "'w \<Rightarrow> PVRSRV_ERROR \<times> 'w"
  enable_sysclocks :: "'w \<Rightarrow> PVRSRV_ERROR \<times> 'w"
  disable_sysclocks :: "'w \<Rightarrow> 'w"
  enable_sgxclocks :: "'w \<Rightarrow> PVRSRV_ERROR \<times> 'w"
  disable_sgxclocks :: "'w \<Rightarrow> 'w"
  command_complete :: "'w \<Rightarrow> 'w"

definition SYS_SPECIFIC_DATA_ENABLE_SYSCLOCKS :: u32 where "SYS_SPECIFIC_DATA_ENABLE_SYSCLOCKS = 0x001"
definition SYS_SPECIFIC_DATA_ENABLE_LISR :: u32 where "SYS_SPECIFIC_DATA_ENABLE_LISR = 0x002"
definition SYS_SPECIFIC_DATA_PM_UNINSTALL_LISR :: u32 where "SYS_SPECIFIC_DATA_PM_UNINSTALL_LISR = 0x200"
definition SYS_SPECIFIC_DATA_PM_DISABLE_SYSCLOCKS :: u32 where "SYS_SPECIFIC_DATA_PM_DISABLE_SYSCLOCKS = 0x400"

lemmas SYS_SPECIFIC_DATA_defs =
  SYS_SPECIFIC_DATA_ENABLE_SYSCLOCKS_def SYS_SPECIFIC_DATA_ENABLE_LISR_def
  SYS_SPECIFIC_DATA_PM_UNINSTALL_LISR_def SYS_SPECIFIC_DATA_PM_DISABLE_SYSCLOCKS_def

definition SYS_SPECIFIC_DATA_SET :: "u32 \<Rightarrow> 'w power \<Rightarrow> 'w power" where
  "SYS_SPECIFIC_DATA_SET flag s = s\<lparr>sys_flags := sys_flags s OR flag\<rparr>"

definition SYS_SPECIFIC_DATA_CLEAR :: "u32 \<Rightarrow> 'w power \<Rightarrow> 'w power" where
  "SYS_SPECIFIC_DATA_CLEAR flag s = s\<lparr>sys_flags := sys_flags s AND NOT flag\<rparr>"

definition SYS_SPECIFIC_DATA_TEST :: "u32 \<Rightarrow> 'w power \<Rightarrow> bool" where
  "SYS_SPECIFIC_DATA_TEST flag s \<longleftrightarrow> sys_flags s AND flag \<noteq> 0"

text \<open>Running a fallible call on the hardware state.\<close>

definition hw :: "('w \<Rightarrow> PVRSRV_ERROR \<times> 'w) \<Rightarrow> 'w power \<Rightarrow> PVRSRV_ERROR \<times> 'w power" where
  "hw f s = (case f (pw s) of (e, w) \<Rightarrow> (e, s\<lparr>pw := w\<rparr>))"

subsection \<open>The init server flags\<close>

definition PVRSRVSetInitServerState ::
  "PVRSRV_INIT_SERVER_STATE \<Rightarrow> bool \<Rightarrow> 'w power \<Rightarrow> PVRSRV_ERROR \<times> 'w power" where
  "PVRSRVSetInitServerState st b s =
     (if st = PVRSRV_INIT_SERVER_RUNNING then (PVRSRV_OK, s\<lparr>gbInitServerRunning := b\<rparr>)
      else if st = PVRSRV_INIT_SERVER_RAN then (PVRSRV_OK, s\<lparr>gbInitServerRan := b\<rparr>)
      else if st = PVRSRV_INIT_SERVER_SUCCESSFUL then (PVRSRV_OK, s\<lparr>gbInitSuccessful := b\<rparr>)
      else (PVRSRV_ERROR_GENERIC, s))"

definition PVRSRVGetInitServerState :: "PVRSRV_INIT_SERVER_STATE \<Rightarrow> 'w power \<Rightarrow> bool" where
  "PVRSRVGetInitServerState st s =
     (if st = PVRSRV_INIT_SERVER_RUNNING then gbInitServerRunning s
      else if st = PVRSRV_INIT_SERVER_RAN then gbInitServerRan s
      else if st = PVRSRV_INIT_SERVER_SUCCESSFUL then gbInitSuccessful s
      else False)"

subsection \<open>The platform's part\<close>

definition SysSystemPrePowerState :: "'w power_fns \<Rightarrow> PVR_POWER_STATE \<Rightarrow> 'w power \<Rightarrow> PVRSRV_ERROR \<times> 'w power" where
  "SysSystemPrePowerState fns new s =
     (if new = PVRSRV_POWER_STATE_D3 then
        (let (e, s) =
           (if SYS_SPECIFIC_DATA_TEST SYS_SPECIFIC_DATA_ENABLE_LISR s then
              (let (e, s) = hw (uninstall_LISR fns) s
               in if e \<noteq> PVRSRV_OK then (e, s)
                  else (e, SYS_SPECIFIC_DATA_CLEAR SYS_SPECIFIC_DATA_ENABLE_LISR
                             (SYS_SPECIFIC_DATA_SET SYS_SPECIFIC_DATA_PM_UNINSTALL_LISR s)))
            else (PVRSRV_OK, s))
         in if e \<noteq> PVRSRV_OK then (e, s)
            else (e, if SYS_SPECIFIC_DATA_TEST SYS_SPECIFIC_DATA_ENABLE_SYSCLOCKS s
                     then SYS_SPECIFIC_DATA_CLEAR SYS_SPECIFIC_DATA_ENABLE_SYSCLOCKS
                            (SYS_SPECIFIC_DATA_SET SYS_SPECIFIC_DATA_PM_DISABLE_SYSCLOCKS
                              (s\<lparr>pw := disable_sysclocks fns (pw s)\<rparr>))
                     else s))
      else (PVRSRV_OK, s))"

definition SysSystemPostPowerState :: "'w power_fns \<Rightarrow> PVR_POWER_STATE \<Rightarrow> 'w power \<Rightarrow> PVRSRV_ERROR \<times> 'w power" where
  "SysSystemPostPowerState fns new s =
     (if new = PVRSRV_POWER_STATE_D0 then
        (let (e, s) =
           (if SYS_SPECIFIC_DATA_TEST SYS_SPECIFIC_DATA_PM_DISABLE_SYSCLOCKS s then
              (let (e, s) = hw (enable_sysclocks fns) s
               in if e \<noteq> PVRSRV_OK then (e, s)
                  else (e, SYS_SPECIFIC_DATA_CLEAR SYS_SPECIFIC_DATA_PM_DISABLE_SYSCLOCKS
                             (SYS_SPECIFIC_DATA_SET SYS_SPECIFIC_DATA_ENABLE_SYSCLOCKS s)))
            else (PVRSRV_OK, s))
         in if e \<noteq> PVRSRV_OK then (e, s)
            else if SYS_SPECIFIC_DATA_TEST SYS_SPECIFIC_DATA_PM_UNINSTALL_LISR s then
              (let (e, s) = hw (install_LISR fns) s
               in if e \<noteq> PVRSRV_OK then (e, s)
                  else (e, SYS_SPECIFIC_DATA_CLEAR SYS_SPECIFIC_DATA_PM_UNINSTALL_LISR
                             (SYS_SPECIFIC_DATA_SET SYS_SPECIFIC_DATA_ENABLE_LISR s)))
            else (e, s))
      else (PVRSRV_OK, s))"

definition SysDevicePrePowerState ::
  "'w power_fns \<Rightarrow> u32 \<Rightarrow> PVR_POWER_STATE \<Rightarrow> PVR_POWER_STATE \<Rightarrow> 'w power \<Rightarrow> PVRSRV_ERROR \<times> 'w power" where
  "SysDevicePrePowerState fns idx new cur s =
     (if idx \<noteq> gui32SGXDeviceID s then (PVRSRV_OK, s)
      else if new = PVRSRV_POWER_STATE_D3 then (PVRSRV_OK, s\<lparr>pw := disable_sgxclocks fns (pw s)\<rparr>)
      else (PVRSRV_OK, s))"

definition SysDevicePostPowerState ::
  "'w power_fns \<Rightarrow> u32 \<Rightarrow> PVR_POWER_STATE \<Rightarrow> PVR_POWER_STATE \<Rightarrow> 'w power \<Rightarrow> PVRSRV_ERROR \<times> 'w power" where
  "SysDevicePostPowerState fns idx new cur s =
     (if idx \<noteq> gui32SGXDeviceID s then (PVRSRV_OK, s)
      else if cur = PVRSRV_POWER_STATE_D3 then hw (enable_sgxclocks fns) s
      else (PVRSRV_OK, s))"

subsection \<open>Device transitions\<close>

definition IsSystemStatePowered :: "PVR_POWER_STATE \<Rightarrow> bool" where
  "IsSystemStatePowered st \<longleftrightarrow> power_value st < power_value PVRSRV_POWER_STATE_D2"

definition device_target :: "PVR_POWER_STATE \<Rightarrow> PVRSRV_POWER_DEV \<Rightarrow> PVR_POWER_STATE" where
  "device_target new d = (if new = PVRSRV_POWER_Unspecified then eDefaultPowerState d else new)"

fun pre_devices ::
  "'w power_fns \<Rightarrow> bool \<Rightarrow> u32 \<Rightarrow> PVR_POWER_STATE \<Rightarrow> PVRSRV_POWER_DEV list \<Rightarrow> 'w power \<Rightarrow> PVRSRV_ERROR \<times> 'w power" where
  "pre_devices fns bAll idx new [] s = (PVRSRV_OK, s)"
| "pre_devices fns bAll idx new (d # ds) s =
     (if (bAll \<or> idx = pd_DeviceIndex d) \<and> pd_CurrentPowerState d \<noteq> device_target new d then
        (let (e, s) = (if pfnPrePower d \<noteq> NULL
                       then hw (dev_power fns (pfnPrePower d) (hDevCookie d) (device_target new d) (pd_CurrentPowerState d)) s
                       else (PVRSRV_OK, s))
         in if e \<noteq> PVRSRV_OK then (e, s)
            else let (e, s) = SysDevicePrePowerState fns (pd_DeviceIndex d) (device_target new d) (pd_CurrentPowerState d) s
                 in if e \<noteq> PVRSRV_OK then (e, s) else pre_devices fns bAll idx new ds s)
      else pre_devices fns bAll idx new ds s)"

definition PVRSRVDevicePrePowerStateKM ::
  "'w power_fns \<Rightarrow> bool \<Rightarrow> u32 \<Rightarrow> PVR_POWER_STATE \<Rightarrow> 'w power \<Rightarrow> PVRSRV_ERROR \<times> 'w power" where
  "PVRSRVDevicePrePowerStateKM fns bAll idx new s =
     (if \<not> pw_sys_up s then (PVRSRV_ERROR_GENERIC, s)
      else pre_devices fns bAll idx new (psPowerDeviceList s) s)"

fun post_devices ::
  "'w power_fns \<Rightarrow> bool \<Rightarrow> u32 \<Rightarrow> PVR_POWER_STATE \<Rightarrow> PVRSRV_POWER_DEV list \<Rightarrow> 'w power \<Rightarrow>
   PVRSRV_ERROR \<times> PVRSRV_POWER_DEV list \<times> 'w power" where
  "post_devices fns bAll idx new [] s = (PVRSRV_OK, [], s)"
| "post_devices fns bAll idx new (d # ds) s =
     (if (bAll \<or> idx = pd_DeviceIndex d) \<and> pd_CurrentPowerState d \<noteq> device_target new d then
        (let (e, s) = SysDevicePostPowerState fns (pd_DeviceIndex d) (device_target new d) (pd_CurrentPowerState d) s
         in if e \<noteq> PVRSRV_OK then (e, d # ds, s)
            else let (e, s) = (if pfnPostPower d \<noteq> NULL
                               then hw (dev_power fns (pfnPostPower d) (hDevCookie d) (device_target new d) (pd_CurrentPowerState d)) s
                               else (PVRSRV_OK, s))
                 in if e \<noteq> PVRSRV_OK then (e, d # ds, s)
                    else let (e, ds, s) = post_devices fns bAll idx new ds s
                         in (e, d\<lparr>pd_CurrentPowerState := device_target new d\<rparr> # ds, s))
      else let (e, ds, s) = post_devices fns bAll idx new ds s in (e, d # ds, s))"

definition PVRSRVDevicePostPowerStateKM ::
  "'w power_fns \<Rightarrow> bool \<Rightarrow> u32 \<Rightarrow> PVR_POWER_STATE \<Rightarrow> 'w power \<Rightarrow> PVRSRV_ERROR \<times> 'w power" where
  "PVRSRVDevicePostPowerStateKM fns bAll idx new s =
     (if \<not> pw_sys_up s then (PVRSRV_ERROR_GENERIC, s)
      else let (e, ds, s) = post_devices fns bAll idx new (psPowerDeviceList s) s
           in (e, s\<lparr>psPowerDeviceList := ds\<rparr>))"

definition PVRSRVSetDevicePowerStateKM ::
  "'w power_fns \<Rightarrow> u32 \<Rightarrow> PVR_POWER_STATE \<Rightarrow> 'w power \<Rightarrow> PVRSRV_ERROR \<times> 'w power" where
  "PVRSRVSetDevicePowerStateKM fns idx new s =
     (if \<not> pw_sys_up s then (PVRSRV_ERROR_GENERIC, s)
      else let (e, s) = PVRSRVDevicePrePowerStateKM fns False idx new s
           in if e \<noteq> PVRSRV_OK then (e, s) else PVRSRVDevicePostPowerStateKM fns False idx new s)"

subsection \<open>System transitions\<close>

definition system_device_state :: "PVR_POWER_STATE \<Rightarrow> PVR_POWER_STATE" where
  "system_device_state new =
     (if IsSystemStatePowered new then PVRSRV_POWER_Unspecified else PVRSRV_POWER_STATE_D3)"

definition PVRSRVSystemPrePowerStateKM ::
  "'w power_fns \<Rightarrow> PVR_POWER_STATE \<Rightarrow> 'w power \<Rightarrow> PVRSRV_ERROR \<times> 'w power" where
  "PVRSRVSystemPrePowerStateKM fns new s =
     (if \<not> pw_sys_up s then (PVRSRV_ERROR_GENERIC, s)
      else
        let (e, s) = (if IsSystemStatePowered new \<noteq> IsSystemStatePowered (eCurrentPowerState s)
                      then PVRSRVDevicePrePowerStateKM fns True 0 (system_device_state new) s
                      else (PVRSRV_OK, s))
        in if e \<noteq> PVRSRV_OK then (e, s\<lparr>eFailedPowerState := new\<rparr>)
           else let (e, s) = (if new \<noteq> eCurrentPowerState s then SysSystemPrePowerState fns new s
                              else (PVRSRV_OK, s))
                in if e \<noteq> PVRSRV_OK then (e, s\<lparr>eFailedPowerState := new\<rparr>) else (e, s))"

definition PVRSRVSystemPostPowerStateKM ::
  "'w power_fns \<Rightarrow> PVR_POWER_STATE \<Rightarrow> 'w power \<Rightarrow> PVRSRV_ERROR \<times> 'w power" where
  "PVRSRVSystemPostPowerStateKM fns new s =
     (let (e, s) =
        (if \<not> pw_sys_up s then (PVRSRV_ERROR_GENERIC, s)
         else
           let (e, s) = (if new \<noteq> eCurrentPowerState s then SysSystemPostPowerState fns new s
                         else (PVRSRV_OK, s))
           in if e \<noteq> PVRSRV_OK then (e, s)
              else let (e, s) = (if IsSystemStatePowered new \<noteq> IsSystemStatePowered (eCurrentPowerState s)
                                 then PVRSRVDevicePostPowerStateKM fns True 0 (system_device_state new) s
                                 else (PVRSRV_OK, s))
                   in if e \<noteq> PVRSRV_OK then (e, s) else (e, s\<lparr>eCurrentPowerState := new\<rparr>))
      in (e, if IsSystemStatePowered new \<and> PVRSRVGetInitServerState PVRSRV_INIT_SERVER_SUCCESSFUL s \<and> pw_sys_up s
             then s\<lparr>pw := command_complete fns (pw s)\<rparr> else s))"

definition PVRSRVSetPowerStateKM ::
  "'w power_fns \<Rightarrow> PVR_POWER_STATE \<Rightarrow> 'w power \<Rightarrow> PVRSRV_ERROR \<times> 'w power" where
  "PVRSRVSetPowerStateKM fns new s =
     (if \<not> pw_sys_up s then (PVRSRV_ERROR_GENERIC, s)
      else let (e, s) = PVRSRVSystemPrePowerStateKM fns new s
           in if e \<noteq> PVRSRV_OK then (e, s\<lparr>eFailedPowerState := new\<rparr>)
              else let (e, s) = PVRSRVSystemPostPowerStateKM fns new s
                   in if e \<noteq> PVRSRV_OK then (e, s\<lparr>eFailedPowerState := new\<rparr>)
                      else (PVRSRV_OK, s\<lparr>eFailedPowerState := PVRSRV_POWER_Unspecified\<rparr>))"

subsection \<open>Power devices\<close>

fun remove_device :: "u32 \<Rightarrow> PVRSRV_POWER_DEV list \<Rightarrow> PVRSRV_POWER_DEV list" where
  "remove_device idx [] = []"
| "remove_device idx (d # ds) = (if pd_DeviceIndex d = idx then ds else d # remove_device idx ds)"

definition PVRSRVRemovePowerDevice :: "u32 \<Rightarrow> 'w power \<Rightarrow> PVRSRV_ERROR \<times> 'w power" where
  "PVRSRVRemovePowerDevice idx s =
     (if \<not> pw_sys_up s then (PVRSRV_ERROR_GENERIC, s)
      else (PVRSRV_OK, s\<lparr>psPowerDeviceList := remove_device idx (psPowerDeviceList s)\<rparr>))"

definition PVRSRVRegisterPowerDevice ::
  "u32 \<Rightarrow> ptr \<Rightarrow> ptr \<Rightarrow> ptr \<Rightarrow> ptr \<Rightarrow> ptr \<Rightarrow> PVR_POWER_STATE \<Rightarrow> PVR_POWER_STATE \<Rightarrow> kmem \<Rightarrow> 'w power \<Rightarrow>
   PVRSRV_ERROR \<times> 'w power \<times> kmem" where
  "PVRSRVRegisterPowerDevice idx pre post preclk postclk cookie cur def km s =
     (if pre = NULL \<and> post = NULL then (case PVRSRVRemovePowerDevice idx s of (e, s) \<Rightarrow> (e, s, km))
      else if \<not> pw_sys_up s then (PVRSRV_ERROR_GENERIC, s, km)
      else case OSAllocMem km of (e, p, km) \<Rightarrow>
        if e \<noteq> PVRSRV_OK then (e, s, km)
        else (PVRSRV_OK,
              s\<lparr>psPowerDeviceList :=
                  \<lparr>pfnPrePower = pre, pfnPostPower = post, pfnPreClockSpeedChange = preclk,
                   pfnPostClockSpeedChange = postclk, hDevCookie = cookie, pd_DeviceIndex = idx,
                   eDefaultPowerState = def, pd_CurrentPowerState = cur\<rparr> # psPowerDeviceList s\<rparr>, km))"

fun device_powered :: "u32 \<Rightarrow> PVRSRV_POWER_DEV list \<Rightarrow> bool" where
  "device_powered idx [] = False"
| "device_powered idx (d # ds) =
     (if pd_DeviceIndex d = idx then pd_CurrentPowerState d = PVRSRV_POWER_STATE_D0 else device_powered idx ds)"

definition PVRSRVIsDevicePowered :: "u32 \<Rightarrow> 'w power \<Rightarrow> bool" where
  "PVRSRVIsDevicePowered idx s = (if \<not> pw_sys_up s then False else device_powered idx (psPowerDeviceList s))"

subsection \<open>Clock speed changes\<close>

fun pre_clock :: "'w power_fns \<Rightarrow> u32 \<Rightarrow> bool \<Rightarrow> PVRSRV_POWER_DEV list \<Rightarrow> 'w power \<Rightarrow> PVRSRV_ERROR \<times> 'w power" where
  "pre_clock fns idx idle [] s = (PVRSRV_OK, s)"
| "pre_clock fns idx idle (d # ds) s =
     (if idx = pd_DeviceIndex d \<and> pfnPreClockSpeedChange d \<noteq> NULL then
        (let (e, s) = hw (dev_clock fns (pfnPreClockSpeedChange d) (hDevCookie d) idle (pd_CurrentPowerState d)) s
         in if e \<noteq> PVRSRV_OK then (e, s) else pre_clock fns idx idle ds s)
      else pre_clock fns idx idle ds s)"

definition PVRSRVDevicePreClockSpeedChange ::
  "'w power_fns \<Rightarrow> u32 \<Rightarrow> bool \<Rightarrow> 'w power \<Rightarrow> PVRSRV_ERROR \<times> 'w power" where
  "PVRSRVDevicePreClockSpeedChange fns idx idle s =
     (if \<not> pw_sys_up s then (PVRSRV_ERROR_GENERIC, s)
      else pre_clock fns idx idle (psPowerDeviceList s) s)"

fun post_clock :: "'w power_fns \<Rightarrow> u32 \<Rightarrow> bool \<Rightarrow> PVRSRV_POWER_DEV list \<Rightarrow> 'w power \<Rightarrow> 'w power" where
  "post_clock fns idx idle [] s = s"
| "post_clock fns idx idle (d # ds) s =
     (if idx = pd_DeviceIndex d \<and> pfnPostClockSpeedChange d \<noteq> NULL
      then post_clock fns idx idle ds
             (snd (hw (dev_clock fns (pfnPostClockSpeedChange d) (hDevCookie d) idle (pd_CurrentPowerState d)) s))
      else post_clock fns idx idle ds s)"

definition PVRSRVDevicePostClockSpeedChange :: "'w power_fns \<Rightarrow> u32 \<Rightarrow> bool \<Rightarrow> 'w power \<Rightarrow> 'w power" where
  "PVRSRVDevicePostClockSpeedChange fns idx idle s =
     (if \<not> pw_sys_up s then s else post_clock fns idx idle (psPowerDeviceList s) s)"

end
