(* ===== verification/Pvr_Power_Props.thy ===== *)
theory Pvr_Power_Props
  imports Pvr_Power
begin

text \<open>
  The properties of the power transitions: what a system transition leaves behind when it succeeds
  and when it fails, the round trip of a suspend and a resume, and the registration of devices.
\<close>

subsection \<open>Device transitions\<close>

definition to_target :: "bool \<Rightarrow> u32 \<Rightarrow> PVR_POWER_STATE \<Rightarrow> PVRSRV_POWER_DEV \<Rightarrow> PVRSRV_POWER_DEV" where
  "to_target bAll idx new d =
     (if bAll \<or> idx = pd_DeviceIndex d then d\<lparr>pd_CurrentPowerState := device_target new d\<rparr> else d)"

definition hw_step :: "'w power \<Rightarrow> 'w power \<Rightarrow> bool" where
  "hw_step s s' \<longleftrightarrow> (\<exists>w. s' = s\<lparr>pw := w\<rparr>)"

lemma hw_step_refl [simp]: "hw_step s s"
  by (auto simp: hw_step_def intro: exI [of _ "pw s"])

lemma hw_step_pw [simp]: "hw_step s (s\<lparr>pw := w\<rparr>)"
  by (auto simp: hw_step_def)

lemma hw_step_trans: "hw_step s t \<Longrightarrow> hw_step t u \<Longrightarrow> hw_step s u"
  by (auto simp: hw_step_def)

lemma hw_stepD:
  assumes "hw_step s s'"
  shows "psPowerDeviceList s' = psPowerDeviceList s" "eCurrentPowerState s' = eCurrentPowerState s"
    "pw_sys_up s' = pw_sys_up s" "sys_flags s' = sys_flags s" "gbInitSuccessful s' = gbInitSuccessful s"
    "gui32SGXDeviceID s' = gui32SGXDeviceID s" "eFailedPowerState s' = eFailedPowerState s"
  using assms by (auto simp: hw_step_def)

lemma hw_frame: "hw f s = (e, s') \<Longrightarrow> hw_step s s'"
  by (auto simp: hw_def split: prod.splits)

lemma SysDevicePre_frame: "SysDevicePrePowerState fns idx new cur s = (e, s') \<Longrightarrow> hw_step s s' \<and> e = PVRSRV_OK"
  by (auto simp: SysDevicePrePowerState_def split: if_splits)

lemma SysDevicePost_frame: "SysDevicePostPowerState fns idx new cur s = (e, s') \<Longrightarrow> hw_step s s'"
  by (auto simp: SysDevicePostPowerState_def split: if_splits dest: hw_frame)

lemma pre_devices_frame: "pre_devices fns bAll idx new ds s = (e, s') \<Longrightarrow> hw_step s s'"
proof (induction ds arbitrary: s)
  case (Cons d ds)
  show ?case
  proof (cases "(bAll \<or> idx = pd_DeviceIndex d) \<and> pd_CurrentPowerState d \<noteq> device_target new d")
    case True
    obtain e1 s1 where 1: "(if pfnPrePower d \<noteq> NULL
        then hw (dev_power fns (pfnPrePower d) (hDevCookie d) (device_target new d) (pd_CurrentPowerState d)) s
        else (PVRSRV_OK, s)) = (e1, s1)" by fastforce
    then have s1: "hw_step s s1" by (auto dest: hw_frame split: if_splits)
    obtain e2 s2 where s2: "SysDevicePrePowerState fns (pd_DeviceIndex d) (device_target new d) (pd_CurrentPowerState d) s1 = (e2, s2)"
      by fastforce
    with s1 have h2: "hw_step s s2" using SysDevicePre_frame hw_step_trans by blast
    have "s' = s1 \<or> s' = s2 \<or> pre_devices fns bAll idx new ds s2 = (e, s')"
      using Cons.prems True 1 s2 by (auto split: if_splits)
    then show ?thesis using s1 h2 Cons.IH hw_step_trans by blast
  qed (use Cons in auto)
qed simp

lemma post_devices_spec:
  "post_devices fns bAll idx new ds s = (e, ds', s') \<Longrightarrow>
   hw_step s s' \<and> (\<exists>n. ds' = map (to_target bAll idx new) (take n ds) @ drop n ds) \<and>
   (e = PVRSRV_OK \<longrightarrow> ds' = map (to_target bAll idx new) ds)"
proof (induction ds arbitrary: s e ds' s')
  case (Cons d ds)
  have more: "\<exists>n. x # map (to_target bAll idx new) (take m ds) @ drop m ds =
      map (to_target bAll idx new) (take n (d # ds)) @ drop n (d # ds)" if "x = to_target bAll idx new d" for x m
    using that by (intro exI [of _ "Suc m"]) simp
  have none: "\<exists>n. d # ds = map (to_target bAll idx new) (take n (d # ds)) @ drop n (d # ds)"
    by (intro exI [of _ 0]) simp
  show ?case
  proof (cases "(bAll \<or> idx = pd_DeviceIndex d) \<and> pd_CurrentPowerState d \<noteq> device_target new d")
    case True
    then have tt: "to_target bAll idx new d = d\<lparr>pd_CurrentPowerState := device_target new d\<rparr>"
      by (auto simp: to_target_def)
    obtain e1 s1 where 1: "SysDevicePostPowerState fns (pd_DeviceIndex d) (device_target new d) (pd_CurrentPowerState d) s = (e1, s1)"
      by fastforce
    obtain e2 s2 where 2: "(if pfnPostPower d \<noteq> NULL
        then hw (dev_power fns (pfnPostPower d) (hDevCookie d) (device_target new d) (pd_CurrentPowerState d)) s1
        else (PVRSRV_OK, s1)) = (e2, s2)" by fastforce
    obtain e3 ds3 s3 where 3: "post_devices fns bAll idx new ds s2 = (e3, ds3, s3)" by (metis prod_cases3)
    have h1: "hw_step s s1" using SysDevicePost_frame [OF 1] .
    have h2: "hw_step s s2" using 2 hw_step_trans [OF h1] by (auto dest: hw_frame split: if_splits)
    have h3: "hw_step s s3" using Cons.IH [OF 3] hw_step_trans [OF h2] by blast
    consider "e1 \<noteq> PVRSRV_OK" "e = e1" "ds' = d # ds" "s' = s1"
      | "e2 \<noteq> PVRSRV_OK" "e = e2" "ds' = d # ds" "s' = s2"
      | "e = e3" "ds' = to_target bAll idx new d # ds3" "s' = s3"
      using Cons.prems True 1 2 3 tt by (auto split: if_splits)
    then show ?thesis
    proof cases
      case 3
      with Cons.IH [OF \<open>post_devices fns bAll idx new ds s2 = _\<close>] h3 more [OF refl] show ?thesis by auto
    qed (use h1 h2 none in auto)
  next
    case False
    then have tt: "to_target bAll idx new d = d" by (cases d) (auto simp: to_target_def)
    obtain e3 ds3 s3 where 3: "post_devices fns bAll idx new ds s = (e3, ds3, s3)" by (metis prod_cases3)
    with False Cons.prems have "e = e3" "ds' = to_target bAll idx new d # ds3" "s' = s3" using tt by auto
    with Cons.IH [OF 3] more [OF refl] show ?thesis by auto
  qed
qed (simp add: exI [of _ 0])

subsection \<open>System transitions\<close>

lemma SysSystemPre_frame:
  "SysSystemPrePowerState fns new s = (e, s') \<Longrightarrow> \<exists>w f. s' = s\<lparr>pw := w, sys_flags := f\<rparr>"
  by (cases s) (auto simp: SysSystemPrePowerState_def SYS_SPECIFIC_DATA_SET_def SYS_SPECIFIC_DATA_CLEAR_def hw_def Let_def
      split: if_splits prod.splits)

lemma SysSystemPost_frame:
  "SysSystemPostPowerState fns new s = (e, s') \<Longrightarrow> \<exists>w f. s' = s\<lparr>pw := w, sys_flags := f\<rparr>"
  by (cases s) (auto simp: SysSystemPostPowerState_def SYS_SPECIFIC_DATA_SET_def SYS_SPECIFIC_DATA_CLEAR_def hw_def Let_def
      split: if_splits prod.splits)

lemma PVRSRVSystemPrePowerStateKM_frame:
  assumes "pw_sys_up s" and "PVRSRVSystemPrePowerStateKM fns new s = (e, s')"
  shows "pw_sys_up s' \<and> psPowerDeviceList s' = psPowerDeviceList s \<and> eCurrentPowerState s' = eCurrentPowerState s"
proof -
  obtain e1 s1 where 1: "(if IsSystemStatePowered new \<noteq> IsSystemStatePowered (eCurrentPowerState s)
      then PVRSRVDevicePrePowerStateKM fns True 0 (system_device_state new) s else (PVRSRV_OK, s)) = (e1, s1)"
    by fastforce
  have h: "hw_step s s1"
    using 1 assms(1) by (auto simp: PVRSRVDevicePrePowerStateKM_def dest: pre_devices_frame split: if_splits)
  obtain e2 s2 where 2: "(if new \<noteq> eCurrentPowerState s1 then SysSystemPrePowerState fns new s1 else (PVRSRV_OK, s1)) = (e2, s2)"
    by fastforce
  have "\<exists>w f. s2 = s1\<lparr>pw := w, sys_flags := f\<rparr>"
    using 2 SysSystemPre_frame [of fns new s1 e2 s2] by (cases s1) (auto split: if_splits)
  moreover have "s' = s1 \<or> s' = s1\<lparr>eFailedPowerState := new\<rparr> \<or> s' = s2 \<or> s' = s2\<lparr>eFailedPowerState := new\<rparr>"
    using assms 1 2 by (auto simp: PVRSRVSystemPrePowerStateKM_def Let_def split: if_splits prod.splits)
  ultimately show ?thesis using hw_stepD [OF h] assms(1) by auto
qed

definition power_switches :: "PVR_POWER_STATE \<Rightarrow> 'w power \<Rightarrow> bool" where
  "power_switches new s \<longleftrightarrow> IsSystemStatePowered new \<noteq> IsSystemStatePowered (eCurrentPowerState s)"

definition system_target :: "PVR_POWER_STATE \<Rightarrow> 'w power \<Rightarrow> PVRSRV_POWER_DEV \<Rightarrow> PVRSRV_POWER_DEV" where
  "system_target new s =
     (if power_switches new s then to_target True 0 (system_device_state new) else id)"

lemma PVRSRVSystemPostPowerStateKM_spec:
  assumes up: "pw_sys_up s" and st: "PVRSRVSystemPostPowerStateKM fns new s = (e, s')"
  shows "(\<exists>n. psPowerDeviceList s' =
            map (system_target new s) (take n (psPowerDeviceList s)) @ drop n (psPowerDeviceList s)) \<and>
         (e = PVRSRV_OK \<longrightarrow> psPowerDeviceList s' = map (system_target new s) (psPowerDeviceList s)) \<and>
         eCurrentPowerState s' = (if e = PVRSRV_OK then new else eCurrentPowerState s)"
proof -
  obtain e1 s1 where 1: "(if new \<noteq> eCurrentPowerState s then SysSystemPostPowerState fns new s else (PVRSRV_OK, s)) = (e1, s1)"
    by fastforce
  have s1: "\<exists>w f. s1 = s\<lparr>pw := w, sys_flags := f\<rparr>"
    using 1 SysSystemPost_frame [of fns new s e1 s1] by (cases s) (auto split: if_splits)
  then have f1: "pw_sys_up s1" "psPowerDeviceList s1 = psPowerDeviceList s" "eCurrentPowerState s1 = eCurrentPowerState s"
    using up by auto
  obtain e2 s2 where 2: "(if power_switches new s then PVRSRVDevicePostPowerStateKM fns True 0 (system_device_state new) s1
      else (PVRSRV_OK, s1)) = (e2, s2)" by fastforce
  have s2: "(\<exists>n. psPowerDeviceList s2 =
            map (system_target new s) (take n (psPowerDeviceList s)) @ drop n (psPowerDeviceList s)) \<and>
         (e2 = PVRSRV_OK \<longrightarrow> psPowerDeviceList s2 = map (system_target new s) (psPowerDeviceList s)) \<and>
         eCurrentPowerState s2 = eCurrentPowerState s"
  proof (cases "power_switches new s")
    case True
    obtain e3 ds3 s3 where 3: "post_devices fns True 0 (system_device_state new) (psPowerDeviceList s1) s1 = (e3, ds3, s3)"
      by (metis prod_cases3)
    with 2 True f1(1) have "e2 = e3" "s2 = s3\<lparr>psPowerDeviceList := ds3\<rparr>"
      by (auto simp: PVRSRVDevicePostPowerStateKM_def)
    with post_devices_spec [OF 3] f1 True show ?thesis
      by (auto simp: system_target_def dest: hw_stepD)
  next
    case False
    with 2 f1 show ?thesis by (auto simp: system_target_def intro: exI [of _ 0])
  qed
  have none: "\<exists>n. psPowerDeviceList s = map (system_target new s) (take n (psPowerDeviceList s)) @ drop n (psPowerDeviceList s)"
    by (intro exI [of _ 0]) simp
  define s3 where "s3 = (if e1 \<noteq> PVRSRV_OK then s1 else if e2 \<noteq> PVRSRV_OK then s2 else s2\<lparr>eCurrentPowerState := new\<rparr>)"
  have "\<exists>w. s' = s3\<lparr>pw := w\<rparr>" and e: "e = (if e1 \<noteq> PVRSRV_OK then e1 else e2)"
    using st up 1 2 f1(3) s3_def by (cases s3; auto simp: PVRSRVSystemPostPowerStateKM_def power_switches_def Let_def split: if_splits)+
  then have "psPowerDeviceList s' = psPowerDeviceList s3" "eCurrentPowerState s' = eCurrentPowerState s3" by auto
  with e s2 none f1 show ?thesis by (auto simp: s3_def)
qed

lemma PVRSRVSetPowerStateKM_spec:
  assumes "pw_sys_up s" and "PVRSRVSetPowerStateKM fns new s = (e, s')"
  shows "if e = PVRSRV_OK
         then eCurrentPowerState s' = new \<and> eFailedPowerState s' = PVRSRV_POWER_Unspecified \<and>
              psPowerDeviceList s' = map (system_target new s) (psPowerDeviceList s)
         else eCurrentPowerState s' = eCurrentPowerState s \<and> eFailedPowerState s' = new \<and>
              (\<exists>n. psPowerDeviceList s' =
                 map (system_target new s) (take n (psPowerDeviceList s)) @ drop n (psPowerDeviceList s))"
proof -
  obtain e1 s1 where 1: "PVRSRVSystemPrePowerStateKM fns new s = (e1, s1)" by fastforce
  note f1 = PVRSRVSystemPrePowerStateKM_frame [OF assms(1) 1]
  obtain e2 s2 where 2: "PVRSRVSystemPostPowerStateKM fns new s1 = (e2, s2)" by fastforce
  have "system_target new s1 = system_target new s"
    using f1 by (simp add: system_target_def power_switches_def fun_eq_iff)
  then have sp: "(\<exists>n. psPowerDeviceList s2 =
            map (system_target new s) (take n (psPowerDeviceList s)) @ drop n (psPowerDeviceList s))"
    "e2 = PVRSRV_OK \<longrightarrow> psPowerDeviceList s2 = map (system_target new s) (psPowerDeviceList s)"
    "eCurrentPowerState s2 = (if e2 = PVRSRV_OK then new else eCurrentPowerState s)"
    using PVRSRVSystemPostPowerStateKM_spec [OF _ 2] f1 by auto
  have none: "\<exists>n. psPowerDeviceList s = map (system_target new s) (take n (psPowerDeviceList s)) @ drop n (psPowerDeviceList s)"
    by (intro exI [of _ 0]) simp
  consider "e1 \<noteq> PVRSRV_OK" "e = e1" "s' = s1\<lparr>eFailedPowerState := new\<rparr>"
    | "e2 \<noteq> PVRSRV_OK" "e = e2" "s' = s2\<lparr>eFailedPowerState := new\<rparr>"
    | "e2 = PVRSRV_OK" "e = PVRSRV_OK" "s' = s2\<lparr>eFailedPowerState := PVRSRV_POWER_Unspecified\<rparr>"
    using assms 1 2 by (auto simp: PVRSRVSetPowerStateKM_def split: if_splits)
  then show ?thesis
    by cases (use f1 sp none in auto)
qed

subsection \<open>A concrete system\<close>

definition fns_demo :: "nat power_fns" where
  "fns_demo = \<lparr>dev_power = (\<lambda>f c n p w. (PVRSRV_OK, w + 1)), dev_clock = (\<lambda>f c i p w. (PVRSRV_OK, w)),
     uninstall_LISR = (\<lambda>w. (PVRSRV_OK, w)), install_LISR = (\<lambda>w. (PVRSRV_OK, w)),
     enable_sysclocks = (\<lambda>w. (PVRSRV_OK, w)), disable_sysclocks = id,
     enable_sgxclocks = (\<lambda>w. (PVRSRV_OK, w)), disable_sgxclocks = id, command_complete = id\<rparr>"

definition power_demo :: "nat power" where
  "power_demo = \<lparr>pw_sys_up = True,
     psPowerDeviceList = [\<lparr>pfnPrePower = 0x9000, pfnPostPower = 0x9100, pfnPreClockSpeedChange = NULL,
       pfnPostClockSpeedChange = NULL, hDevCookie = 0x70, pd_DeviceIndex = 0,
       eDefaultPowerState = PVRSRV_POWER_STATE_D3, pd_CurrentPowerState = PVRSRV_POWER_STATE_D0\<rparr>],
     eCurrentPowerState = PVRSRV_POWER_STATE_D0, eFailedPowerState = PVRSRV_POWER_Unspecified,
     gbInitServerRunning = False, gbInitServerRan = True, gbInitSuccessful = True,
     sys_flags = 0x003, gui32SGXDeviceID = 0, pw = 0\<rparr>"

text \<open>C16. A system power transition that succeeds leaves the system in the new state with no failed
  state recorded, and, when it powers the system up or down, every device in the target of that
  transition. One that fails keeps the system state, records the state that failed, and has moved at
  most a first part of the devices.\<close>

theorem PVRSRVSetPowerStateKM_correct:
  assumes "pw_sys_up s" and "PVRSRVSetPowerStateKM fns new s = (e, s')"
  shows "if e = PVRSRV_OK
         then eCurrentPowerState s' = new \<and> eFailedPowerState s' = PVRSRV_POWER_Unspecified \<and>
              psPowerDeviceList s' = map (system_target new s) (psPowerDeviceList s)
         else eCurrentPowerState s' = eCurrentPowerState s \<and> eFailedPowerState s' = new \<and>
              (\<exists>n. psPowerDeviceList s' =
                 map (system_target new s) (take n (psPowerDeviceList s)) @ drop n (psPowerDeviceList s))"
  by (rule PVRSRVSetPowerStateKM_spec [OF assms])

theorem PVRSRVSetPowerStateKM_correct_witness:
  "\<exists>s'. PVRSRVSetPowerStateKM fns_demo PVRSRV_POWER_STATE_D3 power_demo = (PVRSRV_OK, s') \<and>
     eCurrentPowerState s' = PVRSRV_POWER_STATE_D3 \<and> length (psPowerDeviceList s') = 1"
proof -
  have "fst (PVRSRVSetPowerStateKM fns_demo PVRSRV_POWER_STATE_D3 power_demo) = PVRSRV_OK"
    by code_simp
  then obtain s' where s': "PVRSRVSetPowerStateKM fns_demo PVRSRV_POWER_STATE_D3 power_demo = (PVRSRV_OK, s')"
    by (metis prod.collapse)
  have "pw_sys_up power_demo" "length (psPowerDeviceList power_demo) = 1" by (simp_all add: power_demo_def)
  with PVRSRVSetPowerStateKM_correct [OF this(1) s'] s' show ?thesis by simp
qed

subsection \<open>Suspend and resume\<close>

text \<open>Every call that may fail succeeds.\<close>

definition all_ok :: "'w power_fns \<Rightarrow> bool" where
  "all_ok fns \<longleftrightarrow>
     (\<forall>f c n o' w. fst (dev_power fns f c n o' w) = PVRSRV_OK) \<and>
     (\<forall>w. fst (uninstall_LISR fns w) = PVRSRV_OK \<and> fst (install_LISR fns w) = PVRSRV_OK \<and>
          fst (enable_sysclocks fns w) = PVRSRV_OK \<and> fst (enable_sgxclocks fns w) = PVRSRV_OK)"

lemma hw_ok: "(\<And>w. fst (f w) = PVRSRV_OK) \<Longrightarrow> hw f s = (e, s') \<Longrightarrow> e = PVRSRV_OK"
  by (metis fst_conv hw_def case_prod_beta)

lemma all_okD:
  assumes "all_ok fns"
  shows "hw (dev_power fns f c n p) s = (e, s') \<Longrightarrow> e = PVRSRV_OK"
    "hw (uninstall_LISR fns) s = (e, s') \<Longrightarrow> e = PVRSRV_OK"
    "hw (install_LISR fns) s = (e, s') \<Longrightarrow> e = PVRSRV_OK"
    "hw (enable_sysclocks fns) s = (e, s') \<Longrightarrow> e = PVRSRV_OK"
    "hw (enable_sgxclocks fns) s = (e, s') \<Longrightarrow> e = PVRSRV_OK"
  using assms by (auto simp: all_ok_def intro: hw_ok [rotated])

lemma SysDevicePost_ok:
  "all_ok fns \<Longrightarrow> SysDevicePostPowerState fns idx new cur s = (e, s') \<Longrightarrow> e = PVRSRV_OK"
  by (auto simp: SysDevicePostPowerState_def split: if_splits dest: all_okD(5))

lemma pre_devices_ok:
  assumes ok: "all_ok fns"
  shows "fst (pre_devices fns bAll idx new ds s) = PVRSRV_OK"
  by (induction ds arbitrary: s)
     (auto split: prod.splits dest: all_okD(1) [OF ok] SysDevicePre_frame)

lemma post_devices_ok:
  assumes ok: "all_ok fns"
  shows "fst (post_devices fns bAll idx new ds s) = PVRSRV_OK"
proof (induction ds arbitrary: s)
  case (Cons d ds)
  then show ?case
    by (auto split: prod.splits dest: all_okD(1) [OF ok] SysDevicePost_ok [OF ok]) (metis fst_conv)+
qed simp

definition suspend_flags :: "u32 \<Rightarrow> u32" where
  "suspend_flags f =
     (let f = (if bit f 1 then unset_bit 1 (set_bit 9 f) else f)
      in if bit f 0 then unset_bit 0 (set_bit 10 f) else f)"

definition resume_flags :: "u32 \<Rightarrow> u32" where
  "resume_flags f =
     (let f = (if bit f 10 then unset_bit 10 (set_bit 0 f) else f)
      in if bit f 9 then unset_bit 9 (set_bit 1 f) else f)"

lemma resume_suspend_flags:
  assumes "bit f 0" "bit f 1" "\<not> bit f 9" "\<not> bit f 10"
  shows "resume_flags (suspend_flags f) = f"
proof (rule bit_word_eqI)
  fix n assume "n < LENGTH(32)"
  consider "n = 0" | "n = 1" | "n = 9" | "n = 10" | "n \<noteq> 0 \<and> n \<noteq> 1 \<and> n \<noteq> 9 \<and> n \<noteq> 10" by blast
  then show "bit (resume_flags (suspend_flags f)) n = bit f n"
    using assms by cases (simp_all add: suspend_flags_def resume_flags_def bit_simps)
qed

lemma flag_bits:
  "SYS_SPECIFIC_DATA_ENABLE_SYSCLOCKS = 2 ^ 0" "SYS_SPECIFIC_DATA_ENABLE_LISR = 2 ^ 1"
  "SYS_SPECIFIC_DATA_PM_UNINSTALL_LISR = 2 ^ 9" "SYS_SPECIFIC_DATA_PM_DISABLE_SYSCLOCKS = 2 ^ 10"
  by (simp_all add: SYS_SPECIFIC_DATA_defs)

lemma flag_ops:
  "SYS_SPECIFIC_DATA_TEST (2 ^ n) s \<longleftrightarrow> bit (sys_flags s) n"
  "SYS_SPECIFIC_DATA_SET (2 ^ n) s = s\<lparr>sys_flags := set_bit n (sys_flags s)\<rparr>"
  "SYS_SPECIFIC_DATA_CLEAR (2 ^ n) s = s\<lparr>sys_flags := unset_bit n (sys_flags s)\<rparr>"
  by (simp_all add: SYS_SPECIFIC_DATA_TEST_def SYS_SPECIFIC_DATA_SET_def SYS_SPECIFIC_DATA_CLEAR_def
      and_exp_eq_0_iff_not_bit set_bit_eq_or unset_bit_eq_and_not push_bit_of_1)

lemma SysSystemPre_flags:
  assumes "all_ok fns" and "SysSystemPrePowerState fns new s = (e, s')"
  shows "e = PVRSRV_OK \<and> sys_flags s' = (if new = PVRSRV_POWER_STATE_D3 then suspend_flags (sys_flags s) else sys_flags s)"
proof -
  obtain e1 s1 where 1: "hw (uninstall_LISR fns) s = (e1, s1)" by fastforce
  then have e1: "e1 = PVRSRV_OK" "sys_flags s1 = sys_flags s"
    using all_okD(2) [OF assms(1)] hw_stepD(4) [OF hw_frame] by metis+
  show ?thesis
    using assms(2) 1 e1
    unfolding SysSystemPrePowerState_def flag_bits flag_ops
    by (auto simp: suspend_flags_def Let_def split: if_splits)
qed

lemma SysSystemPost_flags:
  assumes "all_ok fns" and "SysSystemPostPowerState fns new s = (e, s')"
  shows "e = PVRSRV_OK \<and> sys_flags s' = (if new = PVRSRV_POWER_STATE_D0 then resume_flags (sys_flags s) else sys_flags s)"
proof -
  have ok: "hw (enable_sysclocks fns) t = (e, t') \<Longrightarrow> e = PVRSRV_OK \<and> sys_flags t' = sys_flags t"
    "hw (install_LISR fns) t = (e, t') \<Longrightarrow> e = PVRSRV_OK \<and> sys_flags t' = sys_flags t" for t t' e
    using all_okD(3,4) [OF assms(1)] hw_stepD(4) [OF hw_frame] by metis+
  show ?thesis
    using assms(2)
    unfolding SysSystemPostPowerState_def flag_bits flag_ops
    by (auto simp: resume_flags_def Let_def split: if_splits prod.splits dest!: ok)
qed

lemma PVRSRVSetPowerStateKM_flags:
  assumes ok: "all_ok fns" and up: "pw_sys_up s" and st: "PVRSRVSetPowerStateKM fns new s = (e, s')"
    and ne: "new \<noteq> eCurrentPowerState s"
  shows "e = PVRSRV_OK \<and> pw_sys_up s' \<and> sys_flags s' =
    (if new = PVRSRV_POWER_STATE_D3 then suspend_flags (sys_flags s)
     else if new = PVRSRV_POWER_STATE_D0 then resume_flags (sys_flags s) else sys_flags s)"
proof -
  obtain e1 s1 where 1: "(if IsSystemStatePowered new \<noteq> IsSystemStatePowered (eCurrentPowerState s)
      then PVRSRVDevicePrePowerStateKM fns True 0 (system_device_state new) s else (PVRSRV_OK, s)) = (e1, s1)"
    by fastforce
  have e1: "e1 = PVRSRV_OK" "hw_step s s1"
    using 1 up pre_devices_ok [OF ok, of True 0 "system_device_state new" "psPowerDeviceList s" s]
    by (auto simp: PVRSRVDevicePrePowerStateKM_def dest: pre_devices_frame split: if_splits)
  note h1 = hw_stepD [OF e1(2)]
  obtain e2 s2 where 2: "SysSystemPrePowerState fns new s1 = (e2, s2)" by fastforce
  have f2: "e2 = PVRSRV_OK" "sys_flags s2 = (if new = PVRSRV_POWER_STATE_D3 then suspend_flags (sys_flags s) else sys_flags s)"
    using SysSystemPre_flags [OF ok 2] h1(4) by auto
  have c2: "eCurrentPowerState s2 = eCurrentPowerState s" "pw_sys_up s2" "psPowerDeviceList s2 = psPowerDeviceList s"
    using SysSystemPre_frame [OF 2] h1 up by auto
  have pre: "PVRSRVSystemPrePowerStateKM fns new s = (PVRSRV_OK, s2)"
    using 1 e1(1) 2 f2(1) ne up h1(2) by (simp add: PVRSRVSystemPrePowerStateKM_def)
  obtain e3 s3 where 3: "SysSystemPostPowerState fns new s2 = (e3, s3)" by fastforce
  have f3: "e3 = PVRSRV_OK" "sys_flags s3 = (if new = PVRSRV_POWER_STATE_D0 then resume_flags (sys_flags s2) else sys_flags s2)"
    using SysSystemPost_flags [OF ok 3] by auto
  have c3: "eCurrentPowerState s3 = eCurrentPowerState s" "pw_sys_up s3"
    using SysSystemPost_frame [OF 3] c2 by auto
  obtain e4 s4 where 4: "(if IsSystemStatePowered new \<noteq> IsSystemStatePowered (eCurrentPowerState s3)
      then PVRSRVDevicePostPowerStateKM fns True 0 (system_device_state new) s3 else (PVRSRV_OK, s3)) = (e4, s4)"
    by fastforce
  obtain e5 ds5 s5 where 5: "post_devices fns True 0 (system_device_state new) (psPowerDeviceList s3) s3 = (e5, ds5, s5)"
    by (metis prod_cases3)
  have e5: "e5 = PVRSRV_OK" "hw_step s3 s5"
    using post_devices_ok [OF ok, of True 0 "system_device_state new" "psPowerDeviceList s3" s3] post_devices_spec [OF 5] 5
    by auto
  have e4: "e4 = PVRSRV_OK" "sys_flags s4 = sys_flags s3" "pw_sys_up s4"
    using 4 5 e5(1) hw_stepD [OF e5(2)] c3(2) by (auto simp: PVRSRVDevicePostPowerStateKM_def split: if_splits)
  have post: "\<exists>w. PVRSRVSystemPostPowerStateKM fns new s2 = (PVRSRV_OK, s4\<lparr>eCurrentPowerState := new, pw := w\<rparr>)"
    using 3 f3(1) 4 e4 ne c2(1,2) by (cases s4) (simp add: PVRSRVSystemPostPowerStateKM_def)
  then have "e = PVRSRV_OK" "pw_sys_up s'" "sys_flags s' = sys_flags s4"
    using st up pre e4(3) by (auto simp: PVRSRVSetPowerStateKM_def)
  with e4(2) f3(2) f2(2) show ?thesis by auto
qed

text \<open>C26. When every call into the devices and the kernel succeeds, a suspend to D3 followed by a
  resume to D0 succeeds; in between every device is in D3, and at the end every device is in its
  default state and the platform's record of its clocks and interrupt handler is as it was.\<close>

theorem suspend_resume_roundtrip:
  assumes "all_ok fns" and "pw_sys_up s" and "eCurrentPowerState s = PVRSRV_POWER_STATE_D0"
    and "SYS_SPECIFIC_DATA_TEST SYS_SPECIFIC_DATA_ENABLE_LISR s"
    and "SYS_SPECIFIC_DATA_TEST SYS_SPECIFIC_DATA_ENABLE_SYSCLOCKS s"
    and "\<not> SYS_SPECIFIC_DATA_TEST SYS_SPECIFIC_DATA_PM_UNINSTALL_LISR s"
    and "\<not> SYS_SPECIFIC_DATA_TEST SYS_SPECIFIC_DATA_PM_DISABLE_SYSCLOCKS s"
  shows "\<exists>s1 s2. PVRSRVSetPowerStateKM fns PVRSRV_POWER_STATE_D3 s = (PVRSRV_OK, s1) \<and>
           (\<forall>d \<in> set (psPowerDeviceList s1). pd_CurrentPowerState d = PVRSRV_POWER_STATE_D3) \<and>
           PVRSRVSetPowerStateKM fns PVRSRV_POWER_STATE_D0 s1 = (PVRSRV_OK, s2) \<and>
           psPowerDeviceList s2 =
             map (\<lambda>d. d\<lparr>pd_CurrentPowerState := eDefaultPowerState d\<rparr>) (psPowerDeviceList s) \<and>
           sys_flags s2 = sys_flags s"
proof -
  obtain e1 s1 where 1: "PVRSRVSetPowerStateKM fns PVRSRV_POWER_STATE_D3 s = (e1, s1)" by fastforce
  have f1: "e1 = PVRSRV_OK" "pw_sys_up s1" "sys_flags s1 = suspend_flags (sys_flags s)"
    using PVRSRVSetPowerStateKM_flags [OF assms(1,2) 1] assms(3) by auto
  have t: "IsSystemStatePowered PVRSRV_POWER_STATE_D0" "\<not> IsSystemStatePowered PVRSRV_POWER_STATE_D3"
    by (simp_all add: IsSystemStatePowered_def)
  have d1: "eCurrentPowerState s1 = PVRSRV_POWER_STATE_D3"
    "psPowerDeviceList s1 = map (\<lambda>d. d\<lparr>pd_CurrentPowerState := PVRSRV_POWER_STATE_D3\<rparr>) (psPowerDeviceList s)"
    using PVRSRVSetPowerStateKM_spec [OF assms(2) 1] f1(1) assms(3) t
    by (auto simp: system_target_def power_switches_def to_target_def device_target_def system_device_state_def fun_eq_iff)
  obtain e2 s2 where 2: "PVRSRVSetPowerStateKM fns PVRSRV_POWER_STATE_D0 s1 = (e2, s2)" by fastforce
  have f2: "e2 = PVRSRV_OK" "sys_flags s2 = resume_flags (sys_flags s1)"
    using PVRSRVSetPowerStateKM_flags [OF assms(1) f1(2) 2] d1(1) by auto
  have d2: "psPowerDeviceList s2 = map (\<lambda>d. d\<lparr>pd_CurrentPowerState := eDefaultPowerState d\<rparr>) (psPowerDeviceList s)"
    using PVRSRVSetPowerStateKM_spec [OF f1(2) 2] f2(1) d1 t
    by (auto simp: system_target_def power_switches_def to_target_def device_target_def system_device_state_def fun_eq_iff)
  have "sys_flags s2 = sys_flags s"
    using f1(3) f2(2) resume_suspend_flags [of "sys_flags s"] assms(4-7) unfolding flag_bits flag_ops by simp
  with 1 2 f1 f2 d1 d2 show ?thesis by auto
qed

theorem suspend_resume_roundtrip_witness:
  "\<exists>s1 s2. PVRSRVSetPowerStateKM fns_demo PVRSRV_POWER_STATE_D3 power_demo = (PVRSRV_OK, s1) \<and>
     PVRSRVSetPowerStateKM fns_demo PVRSRV_POWER_STATE_D0 s1 = (PVRSRV_OK, s2) \<and> sys_flags s2 = 0x003"
proof -
  have "all_ok fns_demo" "pw_sys_up power_demo" "eCurrentPowerState power_demo = PVRSRV_POWER_STATE_D0"
    "SYS_SPECIFIC_DATA_TEST SYS_SPECIFIC_DATA_ENABLE_LISR power_demo"
    "SYS_SPECIFIC_DATA_TEST SYS_SPECIFIC_DATA_ENABLE_SYSCLOCKS power_demo"
    "\<not> SYS_SPECIFIC_DATA_TEST SYS_SPECIFIC_DATA_PM_UNINSTALL_LISR power_demo"
    "\<not> SYS_SPECIFIC_DATA_TEST SYS_SPECIFIC_DATA_PM_DISABLE_SYSCLOCKS power_demo"
    by (simp_all add: all_ok_def fns_demo_def power_demo_def SYS_SPECIFIC_DATA_TEST_def SYS_SPECIFIC_DATA_defs)
  from suspend_resume_roundtrip [OF this] have "\<exists>s1 s2. PVRSRVSetPowerStateKM fns_demo PVRSRV_POWER_STATE_D3 power_demo = (PVRSRV_OK, s1) \<and>
     PVRSRVSetPowerStateKM fns_demo PVRSRV_POWER_STATE_D0 s1 = (PVRSRV_OK, s2) \<and> sys_flags s2 = sys_flags power_demo"
    by blast
  then show ?thesis by (simp add: power_demo_def)
qed

subsection \<open>Registration\<close>

text \<open>A sequence of registrations, as the drivers of several devices make them; one without power
  functions removes the device of its index.\<close>

record power_reg =
  rg_index :: u32
  rg_pre :: ptr
  rg_post :: ptr
  rg_preclk :: ptr
  rg_postclk :: ptr
  rg_cookie :: ptr
  rg_cur :: PVR_POWER_STATE
  rg_dflt :: PVR_POWER_STATE

fun register_all :: "power_reg list \<Rightarrow> kmem \<Rightarrow> 'w power \<Rightarrow> ('w power \<times> kmem) option" where
  "register_all [] km s = Some (s, km)"
| "register_all (r # rs) km s =
     (case PVRSRVRegisterPowerDevice (rg_index r) (rg_pre r) (rg_post r) (rg_preclk r) (rg_postclk r)
         (rg_cookie r) (rg_cur r) (rg_dflt r) km s of
        (e, s, km) \<Rightarrow> if e = PVRSRV_OK then register_all rs km s else None)"

lemma remove_device_append:
  "remove_device j (xs @ ys) =
     (if j \<in> pd_DeviceIndex ` set xs then remove_device j xs @ ys else xs @ remove_device j ys)"
  by (induction xs) auto

lemma remove_device_subset: "set (remove_device j xs) \<subseteq> set xs"
  by (induction xs) auto

lemma device_powered_append:
  "device_powered i (xs @ ys) = (if i \<in> pd_DeviceIndex ` set xs then device_powered i xs else device_powered i ys)"
  by (induction xs) auto

text \<open>The states \<open>s\<close> and \<open>t\<close> differ in the device \<open>d\<close> only, the first of its index in \<open>s\<close>.\<close>

definition with_device :: "PVRSRV_POWER_DEV \<Rightarrow> 'w power \<Rightarrow> 'w power \<Rightarrow> bool" where
  "with_device d t s \<longleftrightarrow> (\<exists>xs ys. psPowerDeviceList t = xs @ ys \<and> pd_DeviceIndex d \<notin> pd_DeviceIndex ` set xs \<and>
     s = t\<lparr>psPowerDeviceList := xs @ d # ys\<rparr>)"

lemma with_device_remove:
  assumes "with_device d t s" and "j \<noteq> pd_DeviceIndex d" and "pw_sys_up t"
  shows "\<exists>s' t'. PVRSRVRemovePowerDevice j s = (PVRSRV_OK, s') \<and> PVRSRVRemovePowerDevice j t = (PVRSRV_OK, t') \<and>
           with_device d t' s' \<and> pw_sys_up t'"
proof -
  obtain xs ys where w: "psPowerDeviceList t = xs @ ys" "pd_DeviceIndex d \<notin> pd_DeviceIndex ` set xs"
    "s = t\<lparr>psPowerDeviceList := xs @ d # ys\<rparr>" using assms(1) unfolding with_device_def by blast
  let ?t = "t\<lparr>psPowerDeviceList := remove_device j (xs @ ys)\<rparr>" and ?s = "s\<lparr>psPowerDeviceList := remove_device j (xs @ d # ys)\<rparr>"
  have "with_device d ?t ?s"
  proof (cases "j \<in> pd_DeviceIndex ` set xs")
    case True
    have "pd_DeviceIndex d \<notin> pd_DeviceIndex ` set (remove_device j xs)"
      using w(2) remove_device_subset [of j xs] by auto
    with True show ?thesis unfolding with_device_def
      by (intro exI [of _ "remove_device j xs"] exI [of _ ys]) (simp add: remove_device_append w(3))
  next
    case False
    with w assms(2) show ?thesis unfolding with_device_def
      by (intro exI [of _ xs] exI [of _ "remove_device j ys"]) (simp add: remove_device_append w(3))
  qed
  moreover have "pw_sys_up s" using w(3) assms(3) by simp
  ultimately show ?thesis using assms(3) w(1,3) by (simp add: PVRSRVRemovePowerDevice_def)
qed

lemma with_device_register:
  assumes "with_device d t s" and "rg_index r \<noteq> pd_DeviceIndex d" and "pw_sys_up t"
    and "PVRSRVRegisterPowerDevice (rg_index r) (rg_pre r) (rg_post r) (rg_preclk r) (rg_postclk r)
         (rg_cookie r) (rg_cur r) (rg_dflt r) km s = (PVRSRV_OK, s', km')"
  shows "\<exists>t'. PVRSRVRegisterPowerDevice (rg_index r) (rg_pre r) (rg_post r) (rg_preclk r) (rg_postclk r)
         (rg_cookie r) (rg_cur r) (rg_dflt r) km t = (PVRSRV_OK, t', km') \<and> with_device d t' s' \<and> pw_sys_up t'"
proof (cases "rg_pre r = NULL \<and> rg_post r = NULL")
  case True
  with assms(4) with_device_remove [OF assms(1-3)] show ?thesis
    by (auto simp: PVRSRVRegisterPowerDevice_def)
next
  case False
  let ?d = "\<lparr>pfnPrePower = rg_pre r, pfnPostPower = rg_post r, pfnPreClockSpeedChange = rg_preclk r,
       pfnPostClockSpeedChange = rg_postclk r, hDevCookie = rg_cookie r, pd_DeviceIndex = rg_index r,
       eDefaultPowerState = rg_dflt r, pd_CurrentPowerState = rg_cur r\<rparr>"
  obtain xs ys where w: "psPowerDeviceList t = xs @ ys" "pd_DeviceIndex d \<notin> pd_DeviceIndex ` set xs"
    "s = t\<lparr>psPowerDeviceList := xs @ d # ys\<rparr>" using assms(1) unfolding with_device_def by blast
  let ?t' = "t\<lparr>psPowerDeviceList := ?d # psPowerDeviceList t\<rparr>"
  have s': "s' = s\<lparr>psPowerDeviceList := ?d # psPowerDeviceList s\<rparr>"
    "PVRSRVRegisterPowerDevice (rg_index r) (rg_pre r) (rg_post r) (rg_preclk r) (rg_postclk r)
         (rg_cookie r) (rg_cur r) (rg_dflt r) km t = (PVRSRV_OK, ?t', km')"
    using False assms(3,4) w(3) by (auto simp: PVRSRVRegisterPowerDevice_def split: if_splits prod.splits)
  have "with_device d ?t' s'" unfolding with_device_def
    by (intro exI [of _ "?d # xs"] exI [of _ ys]) (use w assms(2) s'(1) in auto)
  with s'(2) assms(3) show ?thesis by simp
qed

lemma with_device_register_all:
  "with_device d t s \<Longrightarrow> pw_sys_up t \<Longrightarrow> \<forall>r \<in> set rs. rg_index r \<noteq> pd_DeviceIndex d \<Longrightarrow>
   register_all rs km s = Some (s', km') \<Longrightarrow>
   \<exists>t'. register_all rs km t = Some (t', km') \<and> with_device d t' s' \<and> pw_sys_up t'"
proof (induction rs arbitrary: km s t)
  case (Cons r rs)
  obtain s1 km1 where s1: "PVRSRVRegisterPowerDevice (rg_index r) (rg_pre r) (rg_post r) (rg_preclk r) (rg_postclk r)
         (rg_cookie r) (rg_cur r) (rg_dflt r) km s = (PVRSRV_OK, s1, km1)" "register_all rs km1 s1 = Some (s', km')"
    using Cons.prems(4) by (auto split: prod.splits if_splits)
  have "rg_index r \<noteq> pd_DeviceIndex d" using Cons.prems(3) by simp
  from with_device_register [OF Cons.prems(1) this Cons.prems(2) s1(1)] obtain t1 where
    t1: "PVRSRVRegisterPowerDevice (rg_index r) (rg_pre r) (rg_post r) (rg_preclk r) (rg_postclk r)
         (rg_cookie r) (rg_cur r) (rg_dflt r) km t = (PVRSRV_OK, t1, km1)" "with_device d t1 s1" "pw_sys_up t1" by blast
  have "\<forall>r \<in> set rs. rg_index r \<noteq> pd_DeviceIndex d" using Cons.prems(3) by simp
  from Cons.IH [OF t1(2,3) this s1(2)] t1(1) show ?case by simp
qed auto

text \<open>C35. Whatever other devices are registered or removed after a device, removing the device by
  registering its index without power functions takes exactly that device out of the list, wherever
  it stands there by then: the state is the one that the same registrations reach without the
  device. Until the removal the power query for the index answers for the registered state, and the
  answers for all other indices are the same before and after the removal.\<close>

theorem PVRSRVRegisterPowerDevice_roundtrip:
  assumes "pw_sys_up s" and "pre \<noteq> NULL \<or> post \<noteq> NULL" and "OSAllocMem km = (PVRSRV_OK, p, km')"
    and "\<forall>r \<in> set later. rg_index r \<noteq> idx"
  shows "\<exists>s1. PVRSRVRegisterPowerDevice idx pre post preclk postclk cookie cur dflt km s = (PVRSRV_OK, s1, km') \<and>
     (\<forall>s2 km2. register_all later km' s1 = Some (s2, km2) \<longrightarrow>
        PVRSRVIsDevicePowered idx s2 = (cur = PVRSRV_POWER_STATE_D0) \<and>
        (\<exists>s3. PVRSRVRegisterPowerDevice idx NULL NULL preclk postclk cookie cur dflt km2 s2 = (PVRSRV_OK, s3, km2) \<and>
              register_all later km' s = Some (s3, km2) \<and>
              (\<forall>i. i \<noteq> idx \<longrightarrow> PVRSRVIsDevicePowered i s3 = PVRSRVIsDevicePowered i s2)))"
proof -
  let ?d = "\<lparr>pfnPrePower = pre, pfnPostPower = post, pfnPreClockSpeedChange = preclk,
       pfnPostClockSpeedChange = postclk, hDevCookie = cookie, pd_DeviceIndex = idx,
       eDefaultPowerState = dflt, pd_CurrentPowerState = cur\<rparr>"
  let ?s1 = "s\<lparr>psPowerDeviceList := ?d # psPowerDeviceList s\<rparr>"
  have reg: "PVRSRVRegisterPowerDevice idx pre post preclk postclk cookie cur dflt km s = (PVRSRV_OK, ?s1, km')"
    using assms(1-3) by (auto simp: PVRSRVRegisterPowerDevice_def)
  have w: "with_device ?d s ?s1" unfolding with_device_def
    by (intro exI [of _ "[]"] exI [of _ "psPowerDeviceList s"]) simp
  have "PVRSRVIsDevicePowered idx s2 = (cur = PVRSRV_POWER_STATE_D0) \<and>
        (\<exists>s3. PVRSRVRegisterPowerDevice idx NULL NULL preclk postclk cookie cur dflt km2 s2 = (PVRSRV_OK, s3, km2) \<and>
              register_all later km' s = Some (s3, km2) \<and>
              (\<forall>i. i \<noteq> idx \<longrightarrow> PVRSRVIsDevicePowered i s3 = PVRSRVIsDevicePowered i s2))"
    if run: "register_all later km' ?s1 = Some (s2, km2)" for s2 km2
  proof -
    have "\<forall>r \<in> set later. rg_index r \<noteq> pd_DeviceIndex ?d" using assms(4) by simp
    from with_device_register_all [OF w assms(1) this run] obtain t where
      t: "register_all later km' s = Some (t, km2)" "with_device ?d t s2" "pw_sys_up t" by blast
    obtain xs ys where l: "psPowerDeviceList t = xs @ ys" "idx \<notin> pd_DeviceIndex ` set xs"
      "s2 = t\<lparr>psPowerDeviceList := xs @ ?d # ys\<rparr>" using t(2) unfolding with_device_def by auto
    have up: "pw_sys_up s2" using l(3) t(3) by simp
    have "t\<lparr>psPowerDeviceList := xs @ ys\<rparr> = t" using l(1) by (cases t) simp
    then have "PVRSRVRegisterPowerDevice idx NULL NULL preclk postclk cookie cur dflt km2 s2 = (PVRSRV_OK, t, km2)"
      using l(2,3) up by (simp add: PVRSRVRegisterPowerDevice_def PVRSRVRemovePowerDevice_def remove_device_append)
    moreover have "PVRSRVIsDevicePowered i t = PVRSRVIsDevicePowered i s2" if "i \<noteq> idx" for i
      using that l(1,3) t(3) by (simp add: PVRSRVIsDevicePowered_def device_powered_append)
    moreover have "PVRSRVIsDevicePowered idx s2 = (cur = PVRSRV_POWER_STATE_D0)"
      using l(2,3) t(3) by (simp add: PVRSRVIsDevicePowered_def device_powered_append)
    ultimately show ?thesis using t(1) by blast
  qed
  with reg show ?thesis by blast
qed

definition later_demo :: "power_reg list" where
  "later_demo = [\<lparr>rg_index = 5, rg_pre = 0x9100, rg_post = NULL, rg_preclk = NULL, rg_postclk = NULL, rg_cookie = 0x80,
     rg_cur = PVRSRV_POWER_STATE_D0, rg_dflt = PVRSRV_POWER_STATE_D0\<rparr>]"

text \<open>A device registered later stands in front of the one that is removed, and stays.\<close>

theorem PVRSRVRegisterPowerDevice_roundtrip_witness:
  "\<exists>s1 s2 s3. PVRSRVRegisterPowerDevice 3 0x9000 NULL NULL NULL 0x70 PVRSRV_POWER_STATE_D0 PVRSRV_POWER_STATE_D0
         [0x1000, 0x1020] power_demo = (PVRSRV_OK, s1, [0x1020]) \<and>
     register_all later_demo [0x1020] s1 = Some (s2, []) \<and> PVRSRVIsDevicePowered 3 s2 \<and>
     PVRSRVRegisterPowerDevice 3 NULL NULL NULL NULL 0x70 PVRSRV_POWER_STATE_D0 PVRSRV_POWER_STATE_D0 [] s2 =
       (PVRSRV_OK, s3, []) \<and> register_all later_demo [0x1020] power_demo = Some (s3, []) \<and> PVRSRVIsDevicePowered 5 s3"
proof -
  have "pw_sys_up power_demo" "(0x9000 :: ptr) \<noteq> NULL \<or> (NULL :: ptr) \<noteq> NULL"
    "OSAllocMem [0x1000, 0x1020] = (PVRSRV_OK, 0x1000, [0x1020])" "\<forall>r \<in> set later_demo. rg_index r \<noteq> 3"
    by (simp_all add: power_demo_def later_demo_def)
  from PVRSRVRegisterPowerDevice_roundtrip [OF this, of NULL NULL "0x70" PVRSRV_POWER_STATE_D0 PVRSRV_POWER_STATE_D0]
  obtain s1 where s1: "PVRSRVRegisterPowerDevice 3 0x9000 NULL NULL NULL 0x70 PVRSRV_POWER_STATE_D0 PVRSRV_POWER_STATE_D0
      [0x1000, 0x1020] power_demo = (PVRSRV_OK, s1, [0x1020])"
    and all: "\<And>s2 km2. register_all later_demo [0x1020] s1 = Some (s2, km2) \<Longrightarrow>
      PVRSRVIsDevicePowered 3 s2 = (PVRSRV_POWER_STATE_D0 = PVRSRV_POWER_STATE_D0) \<and>
      (\<exists>s3. PVRSRVRegisterPowerDevice 3 NULL NULL NULL NULL 0x70 PVRSRV_POWER_STATE_D0 PVRSRV_POWER_STATE_D0 km2 s2 =
        (PVRSRV_OK, s3, km2) \<and> register_all later_demo [0x1020] power_demo = Some (s3, km2) \<and>
        (\<forall>i. i \<noteq> 3 \<longrightarrow> PVRSRVIsDevicePowered i s3 = PVRSRVIsDevicePowered i s2))"
    by blast
  have "pw_sys_up s1" using s1 by (auto simp: PVRSRVRegisterPowerDevice_def power_demo_def split: if_splits)
  then obtain s2 where s2: "register_all later_demo [0x1020] s1 = Some (s2, [])" "PVRSRVIsDevicePowered 5 s2"
    by (auto simp: later_demo_def PVRSRVRegisterPowerDevice_def PVRSRVIsDevicePowered_def)
  from all [OF s2(1)] s1 s2 show ?thesis by auto
qed

end
