(* ===== verification/Pvr_Mmu.thy ===== *)
theory Pvr_Mmu
  imports Pvr_Ra
begin

text \<open>
  The device MMU of \<^verbatim>\<open>src/pvr/mmu.c\<close> with the register constants of \<^verbatim>\<open>src/pvr/sgxmmu.h\<close> and
  the address conversions of \<^verbatim>\<open>src/pvr/sysconfig.c\<close>. Page directories and page tables are frames of
  1024 words in a physical memory \<open>mem\<close> that the CPU and the device share: the CPU reaches a frame
  through a kernel virtual address and \<^verbatim>\<open>VMallocToPhys\<close>, the device through the addresses in the page
  directory entries. As in the arena model, \<open>None\<close> is an access to memory that is not there, a
  kernel \<^verbatim>\<open>BUG()\<close>, or a loop that does not end.
\<close>

subsection \<open>Constants\<close>

definition SGX_MMU_PAGE_SIZE :: u32 where [pvr_defs]: "SGX_MMU_PAGE_SIZE = 0x1000"

definition SGX_MMU_PT_SIZE :: nat where [pvr_defs]: "SGX_MMU_PT_SIZE = 1024"

definition SGX_MMU_PD_MASK :: u32 where [pvr_defs]: "SGX_MMU_PD_MASK = 0xFFC00000"

definition SGX_MMU_PT_MASK :: u32 where [pvr_defs]: "SGX_MMU_PT_MASK = 0x003FF000"

definition SGX_MMU_PDE_ADDR_MASK :: u32 where [pvr_defs]: "SGX_MMU_PDE_ADDR_MASK = 0xFFFFF000"

definition SGX_MMU_PDE_VALID :: u32 where [pvr_defs]: "SGX_MMU_PDE_VALID = 1"

definition SGX_MMU_PTE_ADDR_MASK :: u32 where [pvr_defs]: "SGX_MMU_PTE_ADDR_MASK = 0xFFFFF000"

definition SGX_MMU_PTE_VALID :: u32 where [pvr_defs]: "SGX_MMU_PTE_VALID = 1"

definition SGX_MMU_PTE_WRITEONLY :: u32 where [pvr_defs]: "SGX_MMU_PTE_WRITEONLY = 2"

definition SGX_MMU_PTE_READONLY :: u32 where [pvr_defs]: "SGX_MMU_PTE_READONLY = 4"

definition SGX_MMU_PTE_CACHECONSISTENT :: u32 where [pvr_defs]: "SGX_MMU_PTE_CACHECONSISTENT = 8"

definition SGX_MMU_PTE_EDMPROTECT :: u32 where [pvr_defs]: "SGX_MMU_PTE_EDMPROTECT = 16"

definition SGX_BIF_INVALIDATE_PTCACHE :: u32 where "SGX_BIF_INVALIDATE_PTCACHE = 1"

definition SGX_BIF_INVALIDATE_PDCACHE :: u32 where "SGX_BIF_INVALIDATE_PDCACHE = 2"

definition PVRSRV_MEM_READ :: u32 where [pvr_defs]: "PVRSRV_MEM_READ = 1"

definition PVRSRV_MEM_WRITE :: u32 where [pvr_defs]: "PVRSRV_MEM_WRITE = 2"

definition PVRSRV_MEM_CACHE_CONSISTENT :: u32 where [pvr_defs]: "PVRSRV_MEM_CACHE_CONSISTENT = 4"

definition PVRSRV_MEM_DUMMY :: u32 where [pvr_defs]: "PVRSRV_MEM_DUMMY = 0x20"

definition PVRSRV_MEM_EDM_PROTECT :: u32 where [pvr_defs]: "PVRSRV_MEM_EDM_PROTECT = 0x40"

definition PVRSRV_MEM_USER_SUPPLIED_DEVVADDR :: u32 where
  [pvr_defs]: "PVRSRV_MEM_USER_SUPPLIED_DEVVADDR = 0x100"

definition DEVICE_MEMORY_HEAP_PERCONTEXT :: u32 where [pvr_defs]: "DEVICE_MEMORY_HEAP_PERCONTEXT = 0"

definition DEVICE_MEMORY_HEAP_KERNEL :: u32 where [pvr_defs]: "DEVICE_MEMORY_HEAP_KERNEL = 1"

definition DEVICE_MEMORY_HEAP_SHARED :: u32 where [pvr_defs]: "DEVICE_MEMORY_HEAP_SHARED = 2"

definition DEVICE_MEMORY_HEAP_SHARED_EXPORTED :: u32 where
  [pvr_defs]: "DEVICE_MEMORY_HEAP_SHARED_EXPORTED = 3"

subsection \<open>Data\<close>

record MMU_PT_INFO =
  hPTPageOSMemHandle :: ptr
  PTPageCpuVAddr :: ptr
  ui32ValidPTECount :: u32

text \<open>The pointers to the one device node and the one device info are left out of the context.\<close>

record MMU_CONTEXT =
  pvPDCpuVAddr :: ptr
  sPDDevPAddr :: u32
  hPDOSMemHandle :: ptr
  apsPTInfoList :: "ptr list"
  mmu_psNext :: ptr

record DEV_ARENA_DESCRIPTOR =
  BaseDevVAddr :: u32
  da_ui32Size :: u32
  DevMemHeapType :: u32

record MMU_HEAP =
  psMMUContext :: ptr
  ui32PTBaseIndex :: u32
  ui32PTPageCount :: u32
  ui32PTEntryCount :: u32
  psVMArena :: "RA_ARENA option"
  psDevArena :: DEV_ARENA_DESCRIPTOR

text \<open>The fields of \<^verbatim>\<open>struct PVRSRV_SGXDEV_INFO\<close> for the page directory used while the device is reset.\<close>

record bif_reset =
  hBIFResetPDOSMemHandle :: ptr
  sBIFResetPDDevPAddr :: u32
  sBIFResetPTDevPAddr :: u32
  sBIFResetPageDevPAddr :: u32
  pui32BIFResetPD :: ptr
  pui32BIFResetPT :: ptr

text \<open>
  The parts of the kernel that the MMU code calls: the physical address of a kernel virtual address,
  that of an offset into a memory area, and the import function of the local memory arena.
\<close>

record mmu_os =
  VMallocToPhys :: "ptr \<Rightarrow> u32"
  LinuxMemAreaToCpuPAddr :: "ptr \<Rightarrow> u32 \<Rightarrow> u32"
  local_import :: import_env

text \<open>
  The state: the allocated structures, the physical frames in use, the list of contexts, the cache
  control word of the device and the arena of local device memory (absent on a system whose device
  uses system memory). \<open>page_ans\<close> and \<open>map_ans\<close> are the answers of the kernel's page
  allocator (address and memory area, area NULL for a failure) and of \<^verbatim>\<open>ioremap\<close>, \<open>mmu_km\<close> those
  of its allocator of small objects, and \<open>areas\<close> the memory areas given out, with their number of
  pages; \<open>raw_frame\<close> is what a frame holds when it is handed out.
\<close>

record mmu_state =
  pt_infos :: "ptr \<rightharpoonup> MMU_PT_INFO"
  mmu_ctxs :: "ptr \<rightharpoonup> MMU_CONTEXT"
  mem :: "u32 \<rightharpoonup> u32 list"
  areas :: "ptr \<rightharpoonup> ptr \<times> nat"
  pvMMUContextList :: ptr
  ui32CacheControl :: u32
  local_arena :: "RA_ARENA option"
  bif :: bif_reset
  raw_frame :: "u32 \<Rightarrow> u32 list"
  mmu_km :: kmem
  page_ans :: "(ptr \<times> ptr) list"
  map_ans :: "ptr list"

subsection \<open>Address conversions of the platform\<close>

definition SysCpuPAddrToDevPAddr :: "u32 \<Rightarrow> u32" where [pvr_defs]: "SysCpuPAddrToDevPAddr a = a"

definition SysSysPAddrToCpuPAddr :: "u32 \<Rightarrow> u32" where [pvr_defs]: "SysSysPAddrToCpuPAddr a = a"

definition SysCpuPAddrToSysPAddr :: "u32 \<Rightarrow> u32" where [pvr_defs]: "SysCpuPAddrToSysPAddr a = a"

definition SysSysPAddrToDevPAddr :: "u32 \<Rightarrow> u32" where [pvr_defs]: "SysSysPAddrToDevPAddr a = a"

definition SysDevPAddrToSysPAddr :: "u32 \<Rightarrow> u32" where [pvr_defs]: "SysDevPAddrToSysPAddr a = a"

definition OSMapLinToCPUPhys :: "mmu_os \<Rightarrow> ptr \<Rightarrow> u32" where
  [pvr_defs]: "OSMapLinToCPUPhys os pvLinAddr = VMallocToPhys os pvLinAddr"

definition OSMemHandleToCpuPAddr :: "mmu_os \<Rightarrow> ptr \<Rightarrow> u32 \<Rightarrow> u32" where
  [pvr_defs]: "OSMemHandleToCpuPAddr os h off = LinuxMemAreaToCpuPAddr os h off"

definition pd_index :: "u32 \<Rightarrow> u32" where
  "pd_index va = drop_bit 22 va"

definition pt_index :: "u32 \<Rightarrow> u32" where
  "pt_index va = drop_bit 12 (va AND SGX_MMU_PT_MASK)"

subsection \<open>Memory\<close>

definition frames_of :: "mmu_os \<Rightarrow> ptr \<Rightarrow> nat \<Rightarrow> u32 list" where
  "frames_of os v n = map (\<lambda>i. VMallocToPhys os (v + of_nat i * SGX_MMU_PAGE_SIZE)) [0..<n]"

definition map_frames :: "u32 list \<Rightarrow> mmu_state \<Rightarrow> mmu_state" where
  "map_frames fs s = s\<lparr>mem := (\<lambda>f. if f \<in> set fs then Some (raw_frame s f) else mem s f)\<rparr>"

definition unmap_frames :: "u32 list \<Rightarrow> mmu_state \<Rightarrow> mmu_state" where
  "unmap_frames fs s = s\<lparr>mem := (\<lambda>f. if f \<in> set fs then None else mem s f)\<rparr>"

text \<open>\<open>OSAllocPages\<close> and \<open>OSFreePages\<close> for kernel-only pages: success, address, memory area.\<close>

definition OSAllocPages :: "mmu_os \<Rightarrow> nat \<Rightarrow> mmu_state \<Rightarrow> bool \<times> ptr \<times> ptr \<times> mmu_state" where
  "OSAllocPages os n s =
     (case page_ans s of
        [] \<Rightarrow> (False, NULL, NULL, s)
      | (v, h) # r \<Rightarrow>
          if h = NULL then (False, NULL, NULL, s\<lparr>page_ans := r\<rparr>)
          else (True, v, h, map_frames (frames_of os v n)
                  (s\<lparr>page_ans := r, areas := (areas s)(h \<mapsto> (v, n))\<rparr>)))"

definition OSFreePages :: "mmu_os \<Rightarrow> ptr \<Rightarrow> mmu_state \<Rightarrow> mmu_state option" where
  "OSFreePages os h s = do {
     (v, n) \<leftarrow> areas s h;
     Some (unmap_frames (frames_of os v n) (s\<lparr>areas := (areas s)(h := None)\<rparr>))
   }"

definition OSMapPhysToLin :: "mmu_os \<Rightarrow> nat \<Rightarrow> mmu_state \<Rightarrow> ptr \<times> mmu_state" where
  "OSMapPhysToLin os n s =
     (case map_ans s of
        [] \<Rightarrow> (NULL, s)
      | v # r \<Rightarrow> if v = NULL then (NULL, s\<lparr>map_ans := r\<rparr>)
                 else (v, map_frames (frames_of os v n) (s\<lparr>map_ans := r\<rparr>)))"

definition OSUnMapPhysToLin :: "mmu_os \<Rightarrow> ptr \<Rightarrow> nat \<Rightarrow> mmu_state \<Rightarrow> mmu_state" where
  "OSUnMapPhysToLin os v n s = unmap_frames (frames_of os v n) s"

definition get_frame :: "mmu_os \<Rightarrow> ptr \<Rightarrow> mmu_state \<Rightarrow> u32 list option" where
  "get_frame os v s = (if v = NULL then None else mem s (VMallocToPhys os v))"

definition put_frame :: "mmu_os \<Rightarrow> ptr \<Rightarrow> u32 list \<Rightarrow> mmu_state \<Rightarrow> mmu_state option" where
  "put_frame os v fr s = do {
     _ \<leftarrow> get_frame os v s;
     Some (s\<lparr>mem := (mem s)(VMallocToPhys os v \<mapsto> fr)\<rparr>)
   }"

definition read_word :: "mmu_os \<Rightarrow> ptr \<Rightarrow> nat \<Rightarrow> mmu_state \<Rightarrow> u32 option" where
  "read_word os v i s = do {
     fr \<leftarrow> get_frame os v s;
     (if i < length fr then Some (fr ! i) else None)
   }"

definition write_word :: "mmu_os \<Rightarrow> ptr \<Rightarrow> nat \<Rightarrow> u32 \<Rightarrow> mmu_state \<Rightarrow> mmu_state option" where
  "write_word os v i x s = do {
     fr \<leftarrow> get_frame os v s;
     (if i < length fr then put_frame os v (fr[i := x]) s else None)
   }"

definition pt_slot :: "mmu_state \<Rightarrow> ptr \<Rightarrow> nat \<Rightarrow> ptr option" where
  "pt_slot s c i = do {
     ctx \<leftarrow> mmu_ctxs s c;
     (if i < length (apsPTInfoList ctx) then Some (apsPTInfoList ctx ! i) else None)
   }"

definition set_pt_slot :: "ptr \<Rightarrow> nat \<Rightarrow> ptr \<Rightarrow> mmu_state \<Rightarrow> mmu_state option" where
  "set_pt_slot c i p s = do {
     ctx \<leftarrow> mmu_ctxs s c;
     (if i < length (apsPTInfoList ctx)
      then Some (s\<lparr>mmu_ctxs := (mmu_ctxs s)(c \<mapsto> ctx\<lparr>apsPTInfoList := (apsPTInfoList ctx)[i := p]\<rparr>)\<rparr>)
      else None)
   }"

definition upd_pt_info :: "ptr \<Rightarrow> (MMU_PT_INFO \<Rightarrow> MMU_PT_INFO) \<Rightarrow> mmu_state \<Rightarrow> mmu_state option" where
  "upd_pt_info p f s = do {
     pi \<leftarrow> pt_infos s p;
     Some (s\<lparr>pt_infos := (pt_infos s)(p \<mapsto> f pi)\<rparr>)
   }"

definition free_pt_info :: "ptr \<Rightarrow> mmu_state \<Rightarrow> mmu_state option" where
  "free_pt_info p s = do {
     _ \<leftarrow> pt_infos s p;
     Some (s\<lparr>pt_infos := (pt_infos s)(p := None)\<rparr>)
   }"

subsection \<open>Cache invalidation requests\<close>

definition MMU_InvalidateDirectoryCache :: "mmu_state \<Rightarrow> mmu_state" where
  "MMU_InvalidateDirectoryCache s =
     s\<lparr>ui32CacheControl := ui32CacheControl s OR SGX_BIF_INVALIDATE_PDCACHE\<rparr>"

definition MMU_InvalidatePageTableCache :: "mmu_state \<Rightarrow> mmu_state" where
  "MMU_InvalidatePageTableCache s =
     s\<lparr>ui32CacheControl := ui32CacheControl s OR SGX_BIF_INVALIDATE_PTCACHE\<rparr>"

subsection \<open>Page tables\<close>

definition AllocPageTables :: "MMU_HEAP \<Rightarrow> MMU_HEAP" where
  "AllocPageTables pMMUHeap =
     (let n = drop_bit 12 (da_ui32Size (psDevArena pMMUHeap))
      in pMMUHeap\<lparr>ui32PTEntryCount := n,
           ui32PTBaseIndex := drop_bit 12 (BaseDevVAddr (psDevArena pMMUHeap) AND
                                            (SGX_MMU_PD_MASK OR SGX_MMU_PT_MASK)),
           ui32PTPageCount := drop_bit 10 (n + of_nat SGX_MMU_PT_SIZE - 1)\<rparr>)"

partial_function (option) set_pde_all ::
  "mmu_os \<Rightarrow> nat \<Rightarrow> u32 \<Rightarrow> ptr \<Rightarrow> mmu_state \<Rightarrow> mmu_state option" where
  "set_pde_all os i x c s =
     (if c = NULL then Some s
      else do {
        ctx \<leftarrow> mmu_ctxs s c;
        s \<leftarrow> write_word os (pvPDCpuVAddr ctx) i x s;
        set_pde_all os i x (mmu_psNext ctx) s
      })"

text \<open>
  The switch over the heap type that freeing and allocating a page table share: a page directory
  entry is written in every context for a shared heap and in the heap's own context otherwise. The
  result \<open>False\<close> is the default case, an invalid heap type.
\<close>

definition set_pde :: "mmu_os \<Rightarrow> MMU_HEAP \<Rightarrow> nat \<Rightarrow> u32 \<Rightarrow> mmu_state \<Rightarrow> (bool \<times> mmu_state) option" where
  "set_pde os pMMUHeap i x s =
     (let t = DevMemHeapType (psDevArena pMMUHeap)
      in if t = DEVICE_MEMORY_HEAP_SHARED \<or> t = DEVICE_MEMORY_HEAP_SHARED_EXPORTED then do {
           s \<leftarrow> set_pde_all os i x (pvMMUContextList s) s;
           Some (True, s)
         }
         else if t = DEVICE_MEMORY_HEAP_PERCONTEXT \<or> t = DEVICE_MEMORY_HEAP_KERNEL then do {
           ctx \<leftarrow> mmu_ctxs s (psMMUContext pMMUHeap);
           s \<leftarrow> write_word os (pvPDCpuVAddr ctx) i x s;
           Some (True, s)
         }
         else Some (False, s))"

definition clear_ptes :: "mmu_os \<Rightarrow> ptr \<Rightarrow> nat \<Rightarrow> mmu_state \<Rightarrow> mmu_state option" where
  "clear_ptes os v n s = do {
     fr \<leftarrow> get_frame os v s;
     (if n \<le> length fr then put_frame os v (replicate n 0 @ drop n fr) s else None)
   }"

definition free_pt_page :: "mmu_os \<Rightarrow> MMU_PT_INFO \<Rightarrow> mmu_state \<Rightarrow> mmu_state option" where
  "free_pt_page os pi s =
     (case local_arena s of
        None \<Rightarrow> OSFreePages os (hPTPageOSMemHandle pi) s
      | Some a \<Rightarrow>
          let sSysPAddr = SysCpuPAddrToSysPAddr (OSMapLinToCPUPhys os (PTPageCpuVAddr pi));
              s = OSUnMapPhysToLin os (PTPageCpuVAddr pi) 1 s
          in do {
               (a, km) \<leftarrow> RA_Free a sSysPAddr False (mmu_km s);
               Some (s\<lparr>local_arena := Some a, mmu_km := km\<rparr>)
             })"

definition DeferredFreePageTable ::
  "mmu_os \<Rightarrow> MMU_HEAP \<Rightarrow> u32 \<Rightarrow> mmu_state \<Rightarrow> (MMU_HEAP \<times> mmu_state) option" where
  "DeferredFreePageTable os pMMUHeap ui32PTIndex s = do {
     let i = unat (pd_index (BaseDevVAddr (psDevArena pMMUHeap)) + ui32PTIndex);
     p \<leftarrow> pt_slot s (psMMUContext pMMUHeap) i;
     (ok, s) \<leftarrow> set_pde os pMMUHeap i 0 s;
     (if \<not> ok then Some (pMMUHeap, s)
      else if p = NULL
      then Some (pMMUHeap\<lparr>ui32PTEntryCount := ui32PTEntryCount pMMUHeap - 1024\<rparr>, s)
      else do {
        pi \<leftarrow> pt_infos s p;
        (n, s) \<leftarrow>
          (if PTPageCpuVAddr pi \<noteq> NULL then do {
             let n = min (unat (ui32PTEntryCount pMMUHeap)) 1024;
             s \<leftarrow> clear_ptes os (PTPageCpuVAddr pi) n s;
             s \<leftarrow> free_pt_page os pi s;
             Some (n, s)
           }
           else Some (1024, s));
        s \<leftarrow> free_pt_info p s;
        s \<leftarrow> set_pt_slot (psMMUContext pMMUHeap) i NULL s;
        Some (pMMUHeap\<lparr>ui32PTEntryCount := ui32PTEntryCount pMMUHeap - of_nat n\<rparr>, s)
      })
   }"

fun free_pts :: "mmu_os \<Rightarrow> nat \<Rightarrow> u32 \<Rightarrow> MMU_HEAP \<Rightarrow> mmu_state \<Rightarrow> (MMU_HEAP \<times> mmu_state) option" where
  "free_pts os 0 i pMMUHeap s = Some (pMMUHeap, s)"
| "free_pts os (Suc n) i pMMUHeap s = do {
     (pMMUHeap, s) \<leftarrow> DeferredFreePageTable os pMMUHeap i s;
     free_pts os n (i + 1) pMMUHeap s
   }"

definition DeferredFreePageTables ::
  "mmu_os \<Rightarrow> MMU_HEAP \<Rightarrow> mmu_state \<Rightarrow> (MMU_HEAP \<times> mmu_state) option" where
  "DeferredFreePageTables os pMMUHeap s = do {
     (pMMUHeap, s) \<leftarrow> free_pts os (unat (ui32PTPageCount pMMUHeap)) 0 pMMUHeap s;
     Some (pMMUHeap, MMU_InvalidateDirectoryCache s)
   }"

text \<open>The page of a page table: \<open>None\<close> inside for a failure, else its device address.\<close>

definition alloc_pt_page :: "mmu_os \<Rightarrow> ptr \<Rightarrow> mmu_state \<Rightarrow> (u32 option \<times> mmu_state) option" where
  "alloc_pt_page os p s =
     (case local_arena s of
        None \<Rightarrow>
          (case OSAllocPages os 1 s of (ok, v, h, s) \<Rightarrow>
             if \<not> ok then Some (None, s)
             else do {
               s \<leftarrow> upd_pt_info p (\<lambda>pi. pi\<lparr>PTPageCpuVAddr := v, hPTPageOSMemHandle := h\<rparr>) s;
               let sCpuPAddr = (if v \<noteq> NULL then OSMapLinToCPUPhys os v else OSMemHandleToCpuPAddr os h 0);
               Some (Some (SysCpuPAddrToDevPAddr sCpuPAddr), s)
             })
      | Some a \<Rightarrow> do {
          (r, a, km) \<leftarrow> RA_Alloc (local_import os) a SGX_MMU_PAGE_SIZE 0 SGX_MMU_PAGE_SIZE (mmu_km s);
          let s = s\<lparr>local_arena := Some a, mmu_km := km\<rparr>;
          (case r of
             None \<Rightarrow> Some (None, s)
           | Some (_, sSysPAddr) \<Rightarrow>
               (let sCpuPAddr = SysSysPAddrToCpuPAddr sSysPAddr
                in case OSMapPhysToLin os 1 s of (v, s) \<Rightarrow> do {
                     s \<leftarrow> upd_pt_info p (\<lambda>pi. pi\<lparr>PTPageCpuVAddr := v, hPTPageOSMemHandle := 0\<rparr>) s;
                     (if v = NULL then Some (None, s)
                      else Some (Some (SysCpuPAddrToDevPAddr sCpuPAddr), s))
                   }))
        })"

definition alloc_pt_info :: "ptr \<Rightarrow> nat \<Rightarrow> mmu_state \<Rightarrow> (ptr \<times> mmu_state) option" where
  "alloc_pt_info c i s =
     (case OSAllocMem (mmu_km s) of (e, p, km) \<Rightarrow>
        let s = s\<lparr>mmu_km := km\<rparr>
        in if e \<noteq> PVRSRV_OK then Some (NULL, s)
           else do {
             s \<leftarrow> set_pt_slot c i p (s\<lparr>pt_infos := (pt_infos s)(p \<mapsto>
                    \<lparr>hPTPageOSMemHandle = 0, PTPageCpuVAddr = NULL, ui32ValidPTECount = 0\<rparr>)\<rparr>);
             Some (p, s)
           })"

text \<open>One round of the loop of \<^verbatim>\<open>_DeferredAllocPagetables\<close>.\<close>

definition alloc_pt :: "mmu_os \<Rightarrow> MMU_HEAP \<Rightarrow> nat \<Rightarrow> mmu_state \<Rightarrow> (bool \<times> mmu_state) option" where
  "alloc_pt os pMMUHeap i s = do {
     p \<leftarrow> pt_slot s (psMMUContext pMMUHeap) i;
     (p, s) \<leftarrow> (if p = NULL then alloc_pt_info (psMMUContext pMMUHeap) i s else Some (p, s));
     (if p = NULL then Some (False, s)
      else do {
        pi \<leftarrow> pt_infos s p;
        (if hPTPageOSMemHandle pi = NULL \<and> PTPageCpuVAddr pi = NULL then do {
           (r, s) \<leftarrow> alloc_pt_page os p s;
           (case r of
              None \<Rightarrow> Some (False, s)
            | Some sDevPAddr \<Rightarrow> do {
                pi \<leftarrow> pt_infos s p;
                s \<leftarrow> put_frame os (PTPageCpuVAddr pi) (replicate SGX_MMU_PT_SIZE 0) s;
                (ok, s) \<leftarrow> set_pde os pMMUHeap i (sDevPAddr OR SGX_MMU_PDE_VALID) s;
                (if ok then Some (True, MMU_InvalidateDirectoryCache s) else Some (False, s))
              })
         }
         else Some (True, s))
      })
   }"

fun alloc_pts :: "mmu_os \<Rightarrow> MMU_HEAP \<Rightarrow> nat \<Rightarrow> nat \<Rightarrow> mmu_state \<Rightarrow> (bool \<times> mmu_state) option" where
  "alloc_pts os pMMUHeap i 0 s = Some (True, s)"
| "alloc_pts os pMMUHeap i (Suc n) s = do {
     (ok, s) \<leftarrow> alloc_pt os pMMUHeap i s;
     (if ok then alloc_pts os pMMUHeap (Suc i) n s else Some (False, s))
   }"

definition pt_count :: "u32 \<Rightarrow> u32 \<Rightarrow> u32" where
  "pt_count uiAddr ui32Size =
     (let high = (if 0xFFFFFFFF - uiAddr < ui32Size + push_bit 22 1 - 1 then 0xFFFFFFFF
                  else uiAddr + ui32Size + push_bit 22 1 - 1)
      in pd_index high - pd_index uiAddr)"

definition DeferredAllocPagetables ::
  "mmu_os \<Rightarrow> MMU_HEAP \<Rightarrow> u32 \<Rightarrow> u32 \<Rightarrow> mmu_state \<Rightarrow> (bool \<times> mmu_state) option" where
  "DeferredAllocPagetables os pMMUHeap DevVAddr ui32Size s =
     alloc_pts os pMMUHeap (unat (pd_index DevVAddr)) (unat (pt_count DevVAddr ui32Size)) s"

subsection \<open>Contexts\<close>

definition alloc_pd_page :: "mmu_os \<Rightarrow> mmu_state \<Rightarrow> ((ptr \<times> ptr \<times> u32) option \<times> mmu_state) option" where
  "alloc_pd_page os s =
     (case local_arena s of
        None \<Rightarrow>
          (case OSAllocPages os 1 s of (ok, v, h, s) \<Rightarrow>
             if \<not> ok then Some (None, s)
             else
               let sCpuPAddr = (if v \<noteq> NULL then OSMapLinToCPUPhys os v else OSMemHandleToCpuPAddr os h 0)
               in if v \<noteq> NULL then Some (Some (v, h, SysCpuPAddrToDevPAddr sCpuPAddr), s)
                  else do {
                    s \<leftarrow> OSFreePages os h s;
                    Some (None, s)
                  })
      | Some a \<Rightarrow> do {
          (r, a, km) \<leftarrow> RA_Alloc (local_import os) a SGX_MMU_PAGE_SIZE 0 SGX_MMU_PAGE_SIZE (mmu_km s);
          let s = s\<lparr>local_arena := Some a, mmu_km := km\<rparr>;
          (case r of
             None \<Rightarrow> Some (None, s)
           | Some (_, sSysPAddr) \<Rightarrow>
               (case OSMapPhysToLin os 1 s of (v, s) \<Rightarrow>
                  if v = NULL then do {
                    (a, km) \<leftarrow> RA_Free a sSysPAddr False (mmu_km s);
                    Some (None, s\<lparr>local_arena := Some a, mmu_km := km\<rparr>)
                  }
                  else Some (Some (v, 0, SysSysPAddrToDevPAddr sSysPAddr), s)))
        })"

definition MMU_Initialise :: "mmu_os \<Rightarrow> mmu_state \<Rightarrow> (PVRSRV_ERROR \<times> ptr \<times> u32 \<times> mmu_state) option" where
  "MMU_Initialise os s =
     (case OSAllocMem (mmu_km s) of (e, c, km) \<Rightarrow>
        let s = s\<lparr>mmu_km := km\<rparr>
        in if e \<noteq> PVRSRV_OK then Some (PVRSRV_ERROR_GENERIC, NULL, 0, s)
           else do {
             (r, s) \<leftarrow> alloc_pd_page os s;
             (case r of
                None \<Rightarrow> Some (PVRSRV_ERROR_GENERIC, NULL, 0, s)
              | Some (v, h, pa) \<Rightarrow> do {
                  s \<leftarrow> put_frame os v (replicate 1024 0) s;
                  Some (PVRSRV_OK, c, pa,
                    s\<lparr>mmu_ctxs := (mmu_ctxs s)(c \<mapsto> \<lparr>pvPDCpuVAddr = v, sPDDevPAddr = pa,
                         hPDOSMemHandle = h, apsPTInfoList = replicate 1024 NULL,
                         mmu_psNext = pvMMUContextList s\<rparr>),
                      pvMMUContextList := c\<rparr>)
                })
           })"

text \<open>
  The loop that takes a context out of the list: \<open>q\<close> is the context whose \<^verbatim>\<open>psNext\<close> field the C
  pointer \<^verbatim>\<open>ppsMMUContext\<close> addresses, NULL for the head of the list.
\<close>

partial_function (option) unlink_ctx :: "ptr \<Rightarrow> ptr \<Rightarrow> mmu_state \<Rightarrow> mmu_state option" where
  "unlink_ctx c q s = do {
     cur \<leftarrow> (if q = NULL then Some (pvMMUContextList s) else map_option mmu_psNext (mmu_ctxs s q));
     (if cur = NULL then Some s
      else if cur = c then do {
        ctx \<leftarrow> mmu_ctxs s c;
        (if q = NULL then Some (s\<lparr>pvMMUContextList := mmu_psNext ctx\<rparr>)
         else do {
           qc \<leftarrow> mmu_ctxs s q;
           Some (s\<lparr>mmu_ctxs := (mmu_ctxs s)(q \<mapsto> qc\<lparr>mmu_psNext := mmu_psNext ctx\<rparr>)\<rparr>)
         })
      }
      else unlink_ctx c cur s)
   }"

definition MMU_Finalise :: "mmu_os \<Rightarrow> ptr \<Rightarrow> mmu_state \<Rightarrow> mmu_state option" where
  "MMU_Finalise os c s = do {
     ctx \<leftarrow> mmu_ctxs s c;
     s \<leftarrow> clear_ptes os (pvPDCpuVAddr ctx) 1024 s;
     s \<leftarrow> (case local_arena s of
             None \<Rightarrow> OSFreePages os (hPDOSMemHandle ctx) s
           | Some a \<Rightarrow>
               let sSysPAddr = SysCpuPAddrToSysPAddr (OSMapLinToCPUPhys os (pvPDCpuVAddr ctx));
                   s = OSUnMapPhysToLin os (pvPDCpuVAddr ctx) 1 s
               in do {
                    (a, km) \<leftarrow> RA_Free a sSysPAddr False (mmu_km s);
                    Some (s\<lparr>local_arena := Some a, mmu_km := km\<rparr>)
                  });
     s \<leftarrow> unlink_ctx c NULL s;
     Some (s\<lparr>mmu_ctxs := (mmu_ctxs s)(c := None)\<rparr>)
   }"

fun copy_pdes :: "mmu_os \<Rightarrow> ptr \<Rightarrow> ptr \<Rightarrow> nat \<Rightarrow> nat \<Rightarrow> bool \<Rightarrow> mmu_state \<Rightarrow> (bool \<times> mmu_state) option" where
  "copy_pdes os dst src i 0 b s = Some (b, s)"
| "copy_pdes os dst src i (Suc n) b s = do {
     x \<leftarrow> read_word os src i s;
     s \<leftarrow> write_word os dst i x s;
     copy_pdes os dst src (Suc i) n (b \<or> x \<noteq> 0) s
   }"

definition MMU_InsertHeap :: "mmu_os \<Rightarrow> ptr \<Rightarrow> MMU_HEAP \<Rightarrow> mmu_state \<Rightarrow> mmu_state option" where
  "MMU_InsertHeap os c psMMUHeap s = do {
     ctx \<leftarrow> mmu_ctxs s c;
     kctx \<leftarrow> mmu_ctxs s (psMMUContext psMMUHeap);
     (b, s) \<leftarrow> copy_pdes os (pvPDCpuVAddr ctx) (pvPDCpuVAddr kctx)
                 (unat (pd_index (BaseDevVAddr (psDevArena psMMUHeap))))
                 (unat (ui32PTPageCount psMMUHeap)) False s;
     Some (if b then MMU_InvalidateDirectoryCache s else s)
   }"

subsection \<open>Unmapping\<close>

fun unmap_free_loop ::
  "mmu_os \<Rightarrow> u32 \<Rightarrow> nat \<Rightarrow> MMU_HEAP \<Rightarrow> bool \<Rightarrow> mmu_state \<Rightarrow> (MMU_HEAP \<times> bool \<times> mmu_state) option" where
  "unmap_free_loop os va 0 psMMUHeap b s = Some (psMMUHeap, b, s)"
| "unmap_free_loop os va (Suc n) psMMUHeap b s = do {
     p \<leftarrow> pt_slot s (psMMUContext psMMUHeap) (unat (pd_index va));
     (if p = NULL then unmap_free_loop os (va + SGX_MMU_PAGE_SIZE) n psMMUHeap b s
      else do {
        pi \<leftarrow> pt_infos s p;
        (if PTPageCpuVAddr pi = NULL then unmap_free_loop os va n psMMUHeap b s
         else do {
           x \<leftarrow> read_word os (PTPageCpuVAddr pi) (unat (pt_index va)) s;
           s \<leftarrow> (if x AND SGX_MMU_PTE_VALID \<noteq> 0
                 then upd_pt_info p (\<lambda>pi. pi\<lparr>ui32ValidPTECount := ui32ValidPTECount pi - 1\<rparr>) s
                 else Some s);
           s \<leftarrow> write_word os (PTPageCpuVAddr pi) (unat (pt_index va)) 0 s;
           pi \<leftarrow> pt_infos s p;
           (if ui32ValidPTECount pi = 0 then do {
              (psMMUHeap, s) \<leftarrow> DeferredFreePageTable os psMMUHeap
                                  (pd_index va - drop_bit 10 (ui32PTBaseIndex psMMUHeap)) s;
              unmap_free_loop os (va + SGX_MMU_PAGE_SIZE) n psMMUHeap True s
            }
            else unmap_free_loop os (va + SGX_MMU_PAGE_SIZE) n psMMUHeap b s)
         })
      })
   }"

definition MMU_UnmapPagesAndFreePTs ::
  "mmu_os \<Rightarrow> MMU_HEAP \<Rightarrow> u32 \<Rightarrow> u32 \<Rightarrow> mmu_state \<Rightarrow> (MMU_HEAP \<times> mmu_state) option" where
  "MMU_UnmapPagesAndFreePTs os psMMUHeap sDevVAddr ui32PageCount s = do {
     (psMMUHeap, b, s) \<leftarrow> unmap_free_loop os sDevVAddr (unat ui32PageCount) psMMUHeap False s;
     Some (psMMUHeap, if b then MMU_InvalidateDirectoryCache s else MMU_InvalidatePageTableCache s)
   }"

definition MMU_FreePageTables ::
  "mmu_os \<Rightarrow> MMU_HEAP \<Rightarrow> u32 \<Rightarrow> u32 \<Rightarrow> mmu_state \<Rightarrow> (MMU_HEAP \<times> mmu_state) option" where
  "MMU_FreePageTables os pMMUHeap ui32Start ui32End s =
     MMU_UnmapPagesAndFreePTs os pMMUHeap ui32Start ((ui32End - ui32Start) div SGX_MMU_PAGE_SIZE) s"

fun unmap_loop :: "mmu_os \<Rightarrow> MMU_HEAP \<Rightarrow> u32 \<Rightarrow> nat \<Rightarrow> mmu_state \<Rightarrow> mmu_state option" where
  "unmap_loop os psMMUHeap va 0 s = Some s"
| "unmap_loop os psMMUHeap va (Suc n) s = do {
     p \<leftarrow> pt_slot s (psMMUContext psMMUHeap) (unat (pd_index va));
     (if p = NULL then unmap_loop os psMMUHeap (va + SGX_MMU_PAGE_SIZE) n s
      else do {
        pi \<leftarrow> pt_infos s p;
        x \<leftarrow> read_word os (PTPageCpuVAddr pi) (unat (pt_index va)) s;
        s \<leftarrow> (if x AND SGX_MMU_PTE_VALID \<noteq> 0
              then upd_pt_info p (\<lambda>pi. pi\<lparr>ui32ValidPTECount := ui32ValidPTECount pi - 1\<rparr>) s
              else Some s);
        s \<leftarrow> write_word os (PTPageCpuVAddr pi) (unat (pt_index va)) 0 s;
        unmap_loop os psMMUHeap (va + SGX_MMU_PAGE_SIZE) n s
      })
   }"

definition MMU_UnmapPages :: "mmu_os \<Rightarrow> MMU_HEAP \<Rightarrow> u32 \<Rightarrow> u32 \<Rightarrow> mmu_state \<Rightarrow> mmu_state option" where
  "MMU_UnmapPages os psMMUHeap sDevVAddr ui32PageCount s = do {
     s \<leftarrow> unmap_loop os psMMUHeap sDevVAddr (unat ui32PageCount) s;
     Some (MMU_InvalidatePageTableCache s)
   }"

subsection \<open>Heaps\<close>

text \<open>The address of the function \<open>MMU_FreePageTables\<close>, any address but NULL.\<close>

definition fn_MMU_FreePageTables :: ptr where [pvr_defs]: "fn_MMU_FreePageTables = 4"

definition MMU_Create ::
  "mmu_os \<Rightarrow> ptr \<Rightarrow> DEV_ARENA_DESCRIPTOR \<Rightarrow> (ptr \<Rightarrow> BT) \<Rightarrow> (ptr \<rightharpoonup> u32) \<Rightarrow> mmu_state
   \<Rightarrow> (MMU_HEAP option \<times> mmu_state) option" where
  "MMU_Create os c d raw flags s =
     (case OSAllocMem (mmu_km s) of (e, pMMUHeap, km) \<Rightarrow>
        let s = s\<lparr>mmu_km := km\<rparr>
        in if e \<noteq> PVRSRV_OK then Some (None, s)
           else
             let heap = AllocPageTables \<lparr>psMMUContext = c, ui32PTBaseIndex = 0, ui32PTPageCount = 0,
                          ui32PTEntryCount = 0, psVMArena = None, psDevArena = d\<rparr>
             in do {
                  (r, km) \<leftarrow> RA_Create (BaseDevVAddr d) (da_ui32Size d) NULL
                               SGX_MMU_PAGE_SIZE NULL fn_MMU_FreePageTables pMMUHeap raw flags (mmu_km s);
                  let s = s\<lparr>mmu_km := km\<rparr>;
                  (case r of
                     None \<Rightarrow> do {
                       (_, s) \<leftarrow> DeferredFreePageTables os heap s;
                       Some (None, s)
                     }
                   | Some a \<Rightarrow> Some (Some (heap\<lparr>psVMArena := Some a\<rparr>), s))
                })"

definition MMU_Delete :: "mmu_os \<Rightarrow> MMU_HEAP \<Rightarrow> mmu_state \<Rightarrow> mmu_state option" where
  "MMU_Delete os pMMUHeap s = do {
     _ \<leftarrow> (case psVMArena pMMUHeap of None \<Rightarrow> Some None | Some a \<Rightarrow> map_option Some (RA_Delete a));
     (_, s) \<leftarrow> DeferredFreePageTables os pMMUHeap s;
     Some s
   }"

text \<open>
  The virtual address arena has no import function, so the import environment is never asked. The
  result holds the success flag, the device address, the heap and the state.
\<close>

definition no_imports :: import_env where "no_imports = (\<lambda>_ _ _ _. None)"

definition MMU_Alloc ::
  "mmu_os \<Rightarrow> MMU_HEAP \<Rightarrow> u32 \<Rightarrow> u32 \<Rightarrow> u32 \<Rightarrow> u32 \<Rightarrow> mmu_state \<Rightarrow> (bool \<times> u32 \<times> MMU_HEAP \<times> mmu_state) option" where
  "MMU_Alloc os pMMUHeap uBytes uFlags uDevVAddrAlignment uiAddr s = do {
     let supplied = uFlags AND PVRSRV_MEM_USER_SUPPLIED_DEVVADDR \<noteq> 0;
     (b, uiAddr, pMMUHeap, s) \<leftarrow>
       (if supplied then Some (True, uiAddr, pMMUHeap, s)
        else do {
          a \<leftarrow> psVMArena pMMUHeap;
          (r, a, km) \<leftarrow> RA_Alloc no_imports a uBytes 0 uDevVAddrAlignment (mmu_km s);
          let pMMUHeap = pMMUHeap\<lparr>psVMArena := Some a\<rparr>;
          let s = s\<lparr>mmu_km := km\<rparr>;
          (case r of None \<Rightarrow> Some (False, uiAddr, pMMUHeap, s)
                   | Some (_, base) \<Rightarrow> Some (True, base, pMMUHeap, s))
        });
     (if \<not> b then Some (False, uiAddr, pMMUHeap, s)
      else do {
        (b, s) \<leftarrow> DeferredAllocPagetables os pMMUHeap uiAddr uBytes s;
        (if \<not> b \<and> \<not> supplied then do {
           a \<leftarrow> psVMArena pMMUHeap;
           (a, km) \<leftarrow> RA_Free a uiAddr False (mmu_km s);
           Some (b, uiAddr, pMMUHeap\<lparr>psVMArena := Some a\<rparr>, s\<lparr>mmu_km := km\<rparr>)
         }
         else Some (b, uiAddr, pMMUHeap, s))
      })
   }"

text \<open>
  The arena calls its owner back while it frees a block: the backing store function is
  \<open>MMU_FreePageTables\<close>, the import function is NULL.
\<close>

fun run_ra_calls :: "mmu_os \<Rightarrow> ra_call list \<Rightarrow> MMU_HEAP \<Rightarrow> mmu_state \<Rightarrow> (MMU_HEAP \<times> mmu_state) option" where
  "run_ra_calls os [] pMMUHeap s = Some (pMMUHeap, s)"
| "run_ra_calls os (BackingStoreFree _ a b # cs) pMMUHeap s = do {
     (pMMUHeap, s) \<leftarrow> MMU_FreePageTables os pMMUHeap a b s;
     run_ra_calls os cs pMMUHeap s
   }"
| "run_ra_calls os (ImportFree _ _ _ # cs) pMMUHeap s = None"

definition MMU_Free ::
  "mmu_os \<Rightarrow> MMU_HEAP \<Rightarrow> u32 \<Rightarrow> u32 \<Rightarrow> mmu_state \<Rightarrow> (MMU_HEAP \<times> mmu_state) option" where
  "MMU_Free os pMMUHeap DevVAddr ui32Size s =
     (let d = psDevArena pMMUHeap
      in if DevVAddr \<ge> BaseDevVAddr d \<and> DevVAddr + ui32Size \<le> BaseDevVAddr d + da_ui32Size d then do {
           a \<leftarrow> psVMArena pMMUHeap;
           (a', km) \<leftarrow> RA_Free a DevVAddr True (mmu_km s);
           run_ra_calls os (drop (length (ra_calls a)) (ra_calls a'))
             (pMMUHeap\<lparr>psVMArena := Some a'\<rparr>) (s\<lparr>mmu_km := km\<rparr>)
         }
         else None)"

definition MMU_Enable :: "MMU_HEAP \<Rightarrow> MMU_HEAP" where "MMU_Enable pMMUHeap = pMMUHeap"

definition MMU_Disable :: "MMU_HEAP \<Rightarrow> MMU_HEAP" where "MMU_Disable pMMUHeap = pMMUHeap"

subsection \<open>Mapping\<close>

definition mmu_flags :: "u32 \<Rightarrow> u32" where
  "mmu_flags ui32MemFlags =
     (let rw = PVRSRV_MEM_READ OR PVRSRV_MEM_WRITE;
          f0 = (if rw AND ui32MemFlags = rw then 0
                else if PVRSRV_MEM_READ AND ui32MemFlags \<noteq> 0 then SGX_MMU_PTE_READONLY
                else if PVRSRV_MEM_WRITE AND ui32MemFlags \<noteq> 0 then SGX_MMU_PTE_WRITEONLY
                else 0);
          f1 = (if PVRSRV_MEM_CACHE_CONSISTENT AND ui32MemFlags \<noteq> 0
                then f0 OR SGX_MMU_PTE_CACHECONSISTENT else f0)
      in if PVRSRV_MEM_EDM_PROTECT AND ui32MemFlags \<noteq> 0 then f1 OR SGX_MMU_PTE_EDMPROTECT else f1)"

definition make_pte :: "u32 \<Rightarrow> u32 \<Rightarrow> u32" where
  "make_pte DevPAddr ui32MemFlags =
     (DevPAddr AND SGX_MMU_PTE_ADDR_MASK) OR SGX_MMU_PTE_VALID OR mmu_flags ui32MemFlags"

definition MMU_MapPage ::
  "mmu_os \<Rightarrow> MMU_HEAP \<Rightarrow> u32 \<Rightarrow> u32 \<Rightarrow> u32 \<Rightarrow> mmu_state \<Rightarrow> mmu_state option" where
  "MMU_MapPage os pMMUHeap DevVAddr DevPAddr ui32MemFlags s = do {
     p \<leftarrow> pt_slot s (psMMUContext pMMUHeap) (unat (pd_index DevVAddr));
     pi \<leftarrow> pt_infos s p;
     _ \<leftarrow> read_word os (PTPageCpuVAddr pi) (unat (pt_index DevVAddr)) s;
     s \<leftarrow> upd_pt_info p (\<lambda>pi. pi\<lparr>ui32ValidPTECount := ui32ValidPTECount pi + 1\<rparr>) s;
     write_word os (PTPageCpuVAddr pi) (unat (pt_index DevVAddr)) (make_pte DevPAddr ui32MemFlags) s
   }"

partial_function (option) map_scatter_loop ::
  "mmu_os \<Rightarrow> MMU_HEAP \<Rightarrow> u32 \<Rightarrow> u32 list \<Rightarrow> nat \<Rightarrow> u32 \<Rightarrow> u32 \<Rightarrow> u32 \<Rightarrow> mmu_state \<Rightarrow> mmu_state option" where
  "map_scatter_loop os pMMUHeap DevVAddr psSysAddr i uDone uBytes ui32MemFlags s =
     (if uDone < uBytes then do {
        sSysAddr \<leftarrow> (if i < length psSysAddr then Some (psSysAddr ! i) else None);
        s \<leftarrow> MMU_MapPage os pMMUHeap DevVAddr (SysSysPAddrToDevPAddr sSysAddr) ui32MemFlags s;
        map_scatter_loop os pMMUHeap (DevVAddr + SGX_MMU_PAGE_SIZE) psSysAddr (Suc i)
          (uDone + SGX_MMU_PAGE_SIZE) uBytes ui32MemFlags s
      }
      else Some s)"

definition MMU_MapScatter ::
  "mmu_os \<Rightarrow> MMU_HEAP \<Rightarrow> u32 \<Rightarrow> u32 list \<Rightarrow> u32 \<Rightarrow> u32 \<Rightarrow> mmu_state \<Rightarrow> mmu_state option" where
  "MMU_MapScatter os pMMUHeap DevVAddr psSysAddr uBytes ui32MemFlags s =
     map_scatter_loop os pMMUHeap DevVAddr psSysAddr 0 0 uBytes ui32MemFlags s"

partial_function (option) map_pages_loop ::
  "mmu_os \<Rightarrow> MMU_HEAP \<Rightarrow> u32 \<Rightarrow> u32 \<Rightarrow> u32 \<Rightarrow> u32 \<Rightarrow> u32 \<Rightarrow> u32 \<Rightarrow> mmu_state \<Rightarrow> mmu_state option" where
  "map_pages_loop os pMMUHeap DevVAddr DevPAddr ui32PAdvance uDone uBytes ui32MemFlags s =
     (if uDone < uBytes then do {
        s \<leftarrow> MMU_MapPage os pMMUHeap DevVAddr DevPAddr ui32MemFlags s;
        map_pages_loop os pMMUHeap (DevVAddr + SGX_MMU_PAGE_SIZE) (DevPAddr + ui32PAdvance)
          ui32PAdvance (uDone + SGX_MMU_PAGE_SIZE) uBytes ui32MemFlags s
      }
      else Some s)"

definition MMU_MapPages ::
  "mmu_os \<Rightarrow> MMU_HEAP \<Rightarrow> u32 \<Rightarrow> u32 \<Rightarrow> u32 \<Rightarrow> u32 \<Rightarrow> mmu_state \<Rightarrow> mmu_state option" where
  "MMU_MapPages os pMMUHeap DevVAddr SysPAddr uBytes ui32MemFlags s =
     map_pages_loop os pMMUHeap DevVAddr (SysSysPAddrToDevPAddr SysPAddr)
       (if ui32MemFlags AND PVRSRV_MEM_DUMMY \<noteq> 0 then 0 else SGX_MMU_PAGE_SIZE) 0 uBytes ui32MemFlags s"

partial_function (option) map_shadow_loop ::
  "mmu_os \<Rightarrow> MMU_HEAP \<Rightarrow> u32 \<Rightarrow> ptr \<Rightarrow> ptr \<Rightarrow> u32 \<Rightarrow> u32 \<Rightarrow> u32 \<Rightarrow> u32 \<Rightarrow> u32 \<Rightarrow> mmu_state
   \<Rightarrow> mmu_state option" where
  "map_shadow_loop os pMMUHeap MapDevVAddr CpuVAddr hOSMemHandle uOffset ui32PAdvance i uByteSize ui32MemFlags s =
     (if i < uByteSize then do {
        let CpuPAddr = (if CpuVAddr \<noteq> NULL then OSMapLinToCPUPhys os (CpuVAddr + uOffset)
                        else OSMemHandleToCpuPAddr os hOSMemHandle uOffset);
        s \<leftarrow> MMU_MapPage os pMMUHeap MapDevVAddr (SysCpuPAddrToDevPAddr CpuPAddr) ui32MemFlags s;
        map_shadow_loop os pMMUHeap (MapDevVAddr + SGX_MMU_PAGE_SIZE) CpuVAddr hOSMemHandle
          (uOffset + ui32PAdvance) ui32PAdvance (i + SGX_MMU_PAGE_SIZE) uByteSize ui32MemFlags s
      }
      else Some s)"

definition MMU_MapShadow ::
  "mmu_os \<Rightarrow> MMU_HEAP \<Rightarrow> u32 \<Rightarrow> u32 \<Rightarrow> ptr \<Rightarrow> ptr \<Rightarrow> u32 \<Rightarrow> mmu_state \<Rightarrow> (u32 \<times> mmu_state) option" where
  "MMU_MapShadow os pMMUHeap MapBaseDevVAddr uByteSize CpuVAddr hOSMemHandle ui32MemFlags s = do {
     s \<leftarrow> map_shadow_loop os pMMUHeap MapBaseDevVAddr CpuVAddr hOSMemHandle 0
           (if ui32MemFlags AND PVRSRV_MEM_DUMMY \<noteq> 0 then 0 else SGX_MMU_PAGE_SIZE) 0 uByteSize ui32MemFlags s;
     Some (MapBaseDevVAddr, s)
   }"

subsection \<open>Queries\<close>

definition MMU_GetPhysPageAddr :: "mmu_os \<Rightarrow> MMU_HEAP \<Rightarrow> u32 \<Rightarrow> mmu_state \<Rightarrow> u32 option" where
  "MMU_GetPhysPageAddr os pMMUHeap sDevVPageAddr s = do {
     p \<leftarrow> pt_slot s (psMMUContext pMMUHeap) (unat (pd_index sDevVPageAddr));
     (if p = NULL then Some 0
      else do {
        pi \<leftarrow> pt_infos s p;
        x \<leftarrow> read_word os (PTPageCpuVAddr pi) (unat (pt_index sDevVPageAddr)) s;
        Some (x AND SGX_MMU_PTE_ADDR_MASK)
      })
   }"

definition MMU_GetPDDevPAddr :: "MMU_CONTEXT \<Rightarrow> u32" where
  "MMU_GetPDDevPAddr pMMUContext = sPDDevPAddr pMMUContext"

definition mmu_get_page_dir :: "MMU_CONTEXT \<Rightarrow> u32" where
  "mmu_get_page_dir ctx = sPDDevPAddr ctx"

text \<open>The heap is the one that \<^verbatim>\<open>BM_GetMMUHeap\<close> reads out of the handle; the result holds both output addresses.\<close>

definition SGXGetPhysPageAddrKM ::
  "mmu_os \<Rightarrow> MMU_HEAP \<Rightarrow> u32 \<Rightarrow> mmu_state \<Rightarrow> (PVRSRV_ERROR \<times> u32 \<times> u32) option" where
  "SGXGetPhysPageAddrKM os pMMUHeap sDevVAddr s = do {
     DevPAddr \<leftarrow> MMU_GetPhysPageAddr os pMMUHeap sDevVAddr s;
     Some (if DevPAddr \<noteq> 0 then PVRSRV_OK else PVRSRV_ERROR_INVALID_PARAMS, DevPAddr, DevPAddr)
   }"

subsection \<open>The page directory for resets\<close>

definition MMU_BIFResetPDAlloc :: "mmu_os \<Rightarrow> mmu_state \<Rightarrow> (PVRSRV_ERROR \<times> mmu_state) option" where
  "MMU_BIFResetPDAlloc os s = do {
     (e, v, h, sMemBlockCpuPAddr, s) \<leftarrow>
       (case local_arena s of
          None \<Rightarrow>
            (case OSAllocPages os 3 s of (ok, v, h, s) \<Rightarrow>
               if \<not> ok then Some (PVRSRV_ERROR_OUT_OF_MEMORY, v, h, 0, s)
               else Some (PVRSRV_OK, v, h, OSMapLinToCPUPhys os v, s))
        | Some a \<Rightarrow> do {
            (r, a, km) \<leftarrow> RA_Alloc (local_import os) a (3 * SGX_MMU_PAGE_SIZE) 0 SGX_MMU_PAGE_SIZE (mmu_km s);
            let s = s\<lparr>local_arena := Some a, mmu_km := km\<rparr>;
            (case r of
               None \<Rightarrow> Some (PVRSRV_ERROR_OUT_OF_MEMORY, NULL, NULL, 0, s)
             | Some (_, sMemBlockSysPAddr) \<Rightarrow>
                 (case OSMapPhysToLin os 3 s of (v, s) \<Rightarrow>
                    if v = NULL then Some (PVRSRV_ERROR_BAD_MAPPING, v, 0, 0, s)
                    else Some (PVRSRV_OK, v, 0, SysSysPAddrToCpuPAddr sMemBlockSysPAddr, s)))
          });
     (if e \<noteq> PVRSRV_OK then Some (e, s)
      else do {
        let pd = SysCpuPAddrToDevPAddr sMemBlockCpuPAddr;
        let s = s\<lparr>bif := \<lparr>hBIFResetPDOSMemHandle = h, sBIFResetPDDevPAddr = pd,
                   sBIFResetPTDevPAddr = pd + SGX_MMU_PAGE_SIZE,
                   sBIFResetPageDevPAddr = pd + SGX_MMU_PAGE_SIZE + SGX_MMU_PAGE_SIZE,
                   pui32BIFResetPD = v, pui32BIFResetPT = v + SGX_MMU_PAGE_SIZE\<rparr>\<rparr>;
        s \<leftarrow> put_frame os v (replicate 1024 0) s;
        s \<leftarrow> put_frame os (v + SGX_MMU_PAGE_SIZE) (replicate 1024 0) s;
        s \<leftarrow> put_frame os (v + 2 * SGX_MMU_PAGE_SIZE) (replicate 1024 0xDBDBDBDB) s;
        Some (PVRSRV_OK, s)
      })
   }"

definition MMU_BIFResetPDFree :: "mmu_os \<Rightarrow> mmu_state \<Rightarrow> mmu_state option" where
  "MMU_BIFResetPDFree os s =
     (case local_arena s of
        None \<Rightarrow> OSFreePages os (hBIFResetPDOSMemHandle (bif s)) s
      | Some a \<Rightarrow>
          let s = OSUnMapPhysToLin os (pui32BIFResetPD (bif s)) 3 s
          in do {
               (a, km) \<leftarrow> RA_Free a (SysDevPAddrToSysPAddr (sBIFResetPDDevPAddr (bif s))) False (mmu_km s);
               Some (s\<lparr>local_arena := Some a, mmu_km := km\<rparr>)
             })"

declare set_pde_all.simps [code] unlink_ctx.simps [code] map_scatter_loop.simps [code]
  map_pages_loop.simps [code] map_shadow_loop.simps [code]

end
