(* ===== verification/Pvr_Mmu_Rep.thy ===== *)
theory Pvr_Mmu_Rep
  imports Pvr_Mmu
begin

text \<open>
  The tables that a state of the MMU holds, one page directory per context and one page table per
  allocated slot, the structural invariant that keeps them apart, the walk of the device through
  them, and the effect of the elementary memory operations on the tables.
\<close>

subsection \<open>Indices\<close>

lemma pd_index_unat: "unat (pd_index va) = unat va div 2 ^ 22"
  by (simp add: pd_index_def drop_bit_eq_div unat_div)

lemma pt_mask: "SGX_MMU_PT_MASK = push_bit 12 (mask 10)"
  by (simp add: SGX_MMU_PT_MASK_def mask_numeral)

lemma pt_index_take: "pt_index va = take_bit 10 (drop_bit 12 va)"
  by (rule bit_word_eqI) (auto simp: pt_index_def pt_mask bit_simps dest: bit_imp_le_length)

lemma pt_index_unat: "unat (pt_index va) = unat va div 2 ^ 12 mod 1024"
  by (simp add: pt_index_take take_bit_eq_mod drop_bit_eq_div unat_div unat_mod)

lemma index_less [simp]: "unat (pd_index va) < 1024" "unat (pt_index va) < 1024"
proof -
  have "unat va < 2 ^ LENGTH(32)" by (rule unsigned_less)
  then show "unat (pd_index va) < 1024" by (simp add: pd_index_unat less_mult_imp_div_less)
qed (simp add: pt_index_unat)

lemma addr_mask: "(0xFFFFF000 :: u32) = NOT (mask 12)" by (simp add: mask_numeral)

lemma pde_addr:
  assumes "take_bit 12 f = 0"
  shows "(f OR SGX_MMU_PDE_VALID) AND SGX_MMU_PDE_ADDR_MASK = (f :: u32)"
    and "(f OR SGX_MMU_PDE_VALID) AND SGX_MMU_PDE_VALID = 1"
proof -
  have "\<not> bit f n" if "n < 12" for n
    using arg_cong [OF assms, of "\<lambda>x. bit x n"] that by (simp add: bit_take_bit_iff)
  then have "bit ((f OR SGX_MMU_PDE_VALID) AND SGX_MMU_PDE_ADDR_MASK) n = bit f n" for n
    by (auto simp: SGX_MMU_PDE_VALID_def SGX_MMU_PDE_ADDR_MASK_def addr_mask bit_simps not_less
        dest: bit_imp_le_length)
  then show "(f OR SGX_MMU_PDE_VALID) AND SGX_MMU_PDE_ADDR_MASK = f" by (rule bit_word_eqI)
  show "(f OR SGX_MMU_PDE_VALID) AND SGX_MMU_PDE_VALID = 1"
    by (rule bit_word_eqI) (auto simp: SGX_MMU_PDE_VALID_def bit_simps)
qed

subsection \<open>Tables\<close>

datatype tbl = PDof ptr | PTof ptr nat

text \<open>The memory area and the kernel address of a table, and what it holds.\<close>

fun table :: "mmu_state \<Rightarrow> tbl \<Rightarrow> (ptr \<times> ptr) option" where
  "table s (PDof c) = map_option (\<lambda>ctx. (hPDOSMemHandle ctx, pvPDCpuVAddr ctx)) (mmu_ctxs s c)"
| "table s (PTof c i) = do {
     p \<leftarrow> pt_slot s c i;
     pi \<leftarrow> (if p = NULL then None else pt_infos s p);
     (if PTPageCpuVAddr pi = NULL then None else Some (hPTPageOSMemHandle pi, PTPageCpuVAddr pi))
   }"

definition frame :: "mmu_os \<Rightarrow> mmu_state \<Rightarrow> tbl \<Rightarrow> u32 list option" where
  "frame os s k = do { (h, v) \<leftarrow> table s k; mem s (VMallocToPhys os v) }"

text \<open>The walk of the device: the page table entry it finds for a device virtual address.\<close>

definition hw_pte :: "mmu_os \<Rightarrow> mmu_state \<Rightarrow> ptr \<Rightarrow> u32 \<Rightarrow> u32 option" where
  "hw_pte os s c va = do {
     ctx \<leftarrow> mmu_ctxs s c;
     pd \<leftarrow> mem s (sPDDevPAddr ctx);
     let pde = pd ! unat (pd_index va);
     (if pde AND SGX_MMU_PDE_VALID = 0 then None
      else do {
        pt \<leftarrow> mem s (pde AND SGX_MMU_PDE_ADDR_MASK);
        Some (pt ! unat (pt_index va))
      })
   }"

definition pte_valid :: "u32 \<Rightarrow> bool" where
  "pte_valid x \<longleftrightarrow> x AND SGX_MMU_PTE_VALID \<noteq> 0"

definition valid_count :: "u32 list \<Rightarrow> nat" where
  "valid_count fr = length (filter pte_valid fr)"

fun ctx_list :: "mmu_state \<Rightarrow> ptr \<Rightarrow> ptr list \<Rightarrow> bool" where
  "ctx_list s p [] \<longleftrightarrow> p = NULL"
| "ctx_list s p (c # cs) \<longleftrightarrow> p = c \<and> c \<noteq> NULL \<and> (\<exists>ctx. mmu_ctxs s c = Some ctx \<and> ctx_list s (mmu_psNext ctx) cs)"

definition ctxs_ok :: "mmu_os \<Rightarrow> mmu_state \<Rightarrow> bool" where
  "ctxs_ok os s \<longleftrightarrow>
     (\<exists>cs. ctx_list s (pvMMUContextList s) cs \<and> distinct cs \<and> set cs = dom (mmu_ctxs s)) \<and>
     (\<forall>c ctx. mmu_ctxs s c = Some ctx \<longrightarrow>
        length (apsPTInfoList ctx) = 1024 \<and> sPDDevPAddr ctx = VMallocToPhys os (pvPDCpuVAddr ctx))"

definition tables_ok :: "mmu_os \<Rightarrow> mmu_state \<Rightarrow> bool" where
  "tables_ok os s \<longleftrightarrow>
     (\<forall>k h v. table s k = Some (h, v) \<longrightarrow> v \<noteq> NULL \<and> h \<noteq> NULL \<and> areas s h = Some (v, 1) \<and>
        take_bit 12 (VMallocToPhys os v) = 0 \<and>
        (\<exists>fr. mem s (VMallocToPhys os v) = Some fr \<and> length fr = 1024)) \<and>
     (\<forall>k k' h v h' v'. table s k = Some (h, v) \<and> table s k' = Some (h', v') \<and> k \<noteq> k' \<longrightarrow>
        VMallocToPhys os v \<noteq> VMallocToPhys os v' \<and> h \<noteq> h')"

definition slots_ok :: "mmu_state \<Rightarrow> bool" where
  "slots_ok s \<longleftrightarrow>
     (\<forall>c i p. pt_slot s c i = Some p \<and> p \<noteq> NULL \<longrightarrow>
        (\<exists>pi. pt_infos s p = Some pi \<and>
           (PTPageCpuVAddr pi = NULL \<longrightarrow> hPTPageOSMemHandle pi = NULL \<and> ui32ValidPTECount pi = 0))) \<and>
     (\<forall>c i c' i' p. pt_slot s c i = Some p \<and> pt_slot s c' i' = Some p \<and> p \<noteq> NULL \<longrightarrow> c = c' \<and> i = i')"

definition mmu_struct :: "mmu_os \<Rightarrow> mmu_state \<Rightarrow> bool" where
  "mmu_struct os s \<longleftrightarrow> local_arena s = None \<and> ctxs_ok os s \<and> tables_ok os s \<and> slots_ok s"

definition counts_ok :: "mmu_os \<Rightarrow> mmu_state \<Rightarrow> bool" where
  "counts_ok os s \<longleftrightarrow>
     (\<forall>c i p pi fr. pt_slot s c i = Some p \<and> p \<noteq> NULL \<and> pt_infos s p = Some pi \<and>
        frame os s (PTof c i) = Some fr \<longrightarrow> unat (ui32ValidPTECount pi) = valid_count fr)"

definition mmu_inv :: "mmu_os \<Rightarrow> mmu_state \<Rightarrow> bool" where
  "mmu_inv os s \<longleftrightarrow> mmu_struct os s \<and> counts_ok os s"

subsection \<open>Reading the invariant\<close>

lemma table_frame:
  assumes "mmu_struct os s" "table s k = Some (h, v)"
  obtains fr where "frame os s k = Some fr" "length fr = 1024" "mem s (VMallocToPhys os v) = Some fr" "v \<noteq> NULL"
    "h \<noteq> NULL" "areas s h = Some (v, 1)" "take_bit 12 (VMallocToPhys os v) = 0"
  using assms that unfolding mmu_struct_def tables_ok_def frame_def by fastforce

lemma frame_table:
  assumes "frame os s k = Some fr"
  obtains h v where "table s k = Some (h, v)" "mem s (VMallocToPhys os v) = Some fr"
  using assms by (auto simp: frame_def split: bind_splits)

lemma frame_None:
  assumes "mmu_struct os s"
  shows "frame os s k = None \<longleftrightarrow> table s k = None"
proof (cases "table s k")
  case (Some x)
  obtain h v where "x = (h, v)" by (cases x)
  with table_frame [OF assms, of k h v] Some show ?thesis by auto
qed (simp add: frame_def)

lemma frame_length:
  assumes "mmu_struct os s" "frame os s k = Some fr"
  shows "length fr = 1024"
proof -
  obtain h v where "table s k = Some (h, v)" "mem s (VMallocToPhys os v) = Some fr" by (rule frame_table [OF assms(2)])
  with table_frame [OF assms(1), of k h v] show ?thesis by auto
qed

lemma table_apart:
  assumes "mmu_struct os s" "table s k = Some (h, v)" "table s k' = Some (h', v')" "k \<noteq> k'"
  shows "VMallocToPhys os v \<noteq> VMallocToPhys os v'" "h \<noteq> h'"
  using assms unfolding mmu_struct_def tables_ok_def by blast+

lemma ctx_len: "mmu_struct os s \<Longrightarrow> mmu_ctxs s c = Some ctx \<Longrightarrow> length (apsPTInfoList ctx) = 1024"
  unfolding mmu_struct_def ctxs_ok_def by blast

lemma pt_slot_Some:
  assumes "mmu_struct os s" "mmu_ctxs s c = Some ctx" "i < 1024"
  shows "pt_slot s c i = Some (apsPTInfoList ctx ! i)"
  using assms ctx_len [OF assms(1,2)] by (simp add: pt_slot_def)

lemma pt_slotD:
  assumes "mmu_struct os s" "pt_slot s c i = Some p"
  shows "c \<in> dom (mmu_ctxs s)" "i < 1024"
  using assms ctx_len [OF assms(1)] by (auto simp: pt_slot_def split: bind_splits if_splits)

lemma slot_info:
  assumes "mmu_struct os s" "pt_slot s c i = Some p" "p \<noteq> NULL"
  obtains pi where "pt_infos s p = Some pi"
    "PTPageCpuVAddr pi = NULL \<Longrightarrow> hPTPageOSMemHandle pi = NULL \<and> ui32ValidPTECount pi = 0 \<and> table s (PTof c i) = None"
    "PTPageCpuVAddr pi \<noteq> NULL \<Longrightarrow> table s (PTof c i) = Some (hPTPageOSMemHandle pi, PTPageCpuVAddr pi)"
proof -
  obtain pi where "pt_infos s p = Some pi"
    "PTPageCpuVAddr pi = NULL \<longrightarrow> hPTPageOSMemHandle pi = NULL \<and> ui32ValidPTECount pi = 0"
    using assms unfolding mmu_struct_def slots_ok_def by blast
  then show thesis using that assms by auto
qed

lemma table_slot:
  assumes "table s (PTof c i) = Some (h, v)"
  obtains p pi where "pt_slot s c i = Some p" "p \<noteq> NULL" "pt_infos s p = Some pi" "v \<noteq> NULL"
    "hPTPageOSMemHandle pi = h" "PTPageCpuVAddr pi = v"
  using assms by (auto split: bind_splits if_splits)

lemma slot_inj:
  assumes "mmu_struct os s" "pt_slot s c i = Some p" "pt_slot s c' i' = Some p" "p \<noteq> NULL"
  shows "c = c'" "i = i'"
  using assms unfolding mmu_struct_def slots_ok_def by blast+

lemma hw_pte_pd:
  assumes inv: "mmu_struct os s" and pd: "frame os s (PDof c) = Some pd"
  shows "hw_pte os s c va =
     (let pde = pd ! unat (pd_index va)
      in if pde AND SGX_MMU_PDE_VALID = 0 then None
         else map_option (\<lambda>pt. pt ! unat (pt_index va)) (mem s (pde AND SGX_MMU_PDE_ADDR_MASK)))"
proof -
  obtain ctx where c: "mmu_ctxs s c = Some ctx" "mem s (VMallocToPhys os (pvPDCpuVAddr ctx)) = Some pd"
    using pd by (auto simp: frame_def split: bind_splits)
  moreover have "sPDDevPAddr ctx = VMallocToPhys os (pvPDCpuVAddr ctx)"
    using inv c(1) by (auto simp: mmu_struct_def ctxs_ok_def)
  ultimately show ?thesis
    by (cases "mem s (pd ! unat (pd_index va) AND SGX_MMU_PDE_ADDR_MASK)") (simp_all add: hw_pte_def Let_def)
qed

subsection \<open>Writing a table\<close>

lemma pt_slot_cong: "mmu_ctxs s' = mmu_ctxs s \<Longrightarrow> pt_slot s' = pt_slot s"
  by (intro ext) (simp add: pt_slot_def)

lemma table_cong:
  assumes "mmu_ctxs s' = mmu_ctxs s" "pt_infos s' = pt_infos s"
  shows "table s' = table s"
proof
  fix k
  show "table s' k = table s k" using pt_slot_cong [OF assms(1)] by (cases k) (simp_all only: table.simps assms)
qed

lemma table_mem [simp]: "table (s\<lparr>mem := m\<rparr>) = table s" "pt_slot (s\<lparr>mem := m\<rparr>) = pt_slot s"
  by (rule table_cong pt_slot_cong; simp)+

lemma ctx_list_cong:
  assumes "mmu_ctxs s' = mmu_ctxs s"
  shows "ctx_list s' p cs = ctx_list s p cs"
  using assms by (induction cs arbitrary: p) simp_all

lemma ctxs_ok_cong:
  "mmu_ctxs s' = mmu_ctxs s \<Longrightarrow> pvMMUContextList s' = pvMMUContextList s \<Longrightarrow> ctxs_ok os s' = ctxs_ok os s"
  using ctx_list_cong [of s' s] by (simp add: ctxs_ok_def)

lemma put_frame_spec:
  assumes inv: "mmu_struct os s" and k: "table s k = Some (h, v)" and fr: "length fr = 1024"
  defines "s' \<equiv> s\<lparr>mem := (mem s)(VMallocToPhys os v \<mapsto> fr)\<rparr>"
  shows "put_frame os v fr s = Some s'" "mmu_struct os s'" "frame os s' = (frame os s)(k \<mapsto> fr)"
proof -
  obtain fr0 where "mem s (VMallocToPhys os v) = Some fr0" "v \<noteq> NULL" by (rule table_frame [OF inv k])
  then show "put_frame os v fr s = Some s'" by (simp add: put_frame_def get_frame_def s'_def)
  show "frame os s' = (frame os s)(k \<mapsto> fr)"
  proof
    fix k'
    show "frame os s' k' = ((frame os s)(k \<mapsto> fr)) k'"
    proof (cases "k' = k")
      case True
      then show ?thesis using k by (simp add: frame_def s'_def)
    next
      case False
      then show ?thesis using table_apart(1) [OF inv k, of k'] by (auto simp: frame_def s'_def split: bind_splits)
    qed
  qed
  have "slots_ok s' = slots_ok s" by (simp add: slots_ok_def s'_def)
  moreover have "tables_ok os s'" using inv fr by (auto simp: mmu_struct_def tables_ok_def s'_def)
  moreover have "ctxs_ok os s'" using inv ctxs_ok_cong [of s' s] by (simp add: mmu_struct_def s'_def)
  ultimately show "mmu_struct os s'" using inv by (simp add: mmu_struct_def) (simp add: s'_def)
qed

lemma get_frame_spec:
  assumes "mmu_struct os s" "table s k = Some (h, v)" "frame os s k = Some fr"
  shows "get_frame os v s = Some fr"
  using assms table_frame [OF assms(1,2)] by (metis get_frame_def option.inject)

lemma read_word_spec:
  assumes "mmu_struct os s" "table s k = Some (h, v)" "frame os s k = Some fr" "i < 1024"
  shows "read_word os v i s = Some (fr ! i)"
  using assms get_frame_spec [OF assms(1-3)] frame_length [OF assms(1,3)] by (simp add: read_word_def)

lemma write_word_spec:
  fixes x :: u32
  assumes inv: "mmu_struct os s" and k: "table s k = Some (h, v)" "frame os s k = Some fr" and i: "i < 1024"
  defines "s' \<equiv> s\<lparr>mem := (mem s)(VMallocToPhys os v \<mapsto> fr[i := x])\<rparr>"
  shows "write_word os v i x s = Some s'" "mmu_struct os s'" "frame os s' = (frame os s)(k \<mapsto> fr[i := x])"
  using put_frame_spec [OF inv k(1), of "fr[i := x]"] get_frame_spec [OF inv k] frame_length [OF inv k(2)] i
  unfolding s'_def by (simp_all add: write_word_def)

lemma clear_ptes_spec:
  assumes inv: "mmu_struct os s" and k: "table s k = Some (h, v)" "frame os s k = Some fr" and n: "n \<le> 1024"
  defines "s' \<equiv> s\<lparr>mem := (mem s)(VMallocToPhys os v \<mapsto> replicate n 0 @ drop n fr)\<rparr>"
  shows "clear_ptes os v n s = Some s'" "mmu_struct os s'" "frame os s' = (frame os s)(k \<mapsto> replicate n 0 @ drop n fr)"
  using put_frame_spec [OF inv k(1), of "replicate n 0 @ drop n fr"] get_frame_spec [OF inv k]
    frame_length [OF inv k(2)] n unfolding s'_def by (simp_all add: clear_ptes_def)

subsection \<open>Updating a count\<close>

definition set_info :: "ptr \<Rightarrow> MMU_PT_INFO \<Rightarrow> mmu_state \<Rightarrow> mmu_state" where
  "set_info p pi s = s\<lparr>pt_infos := (pt_infos s)(p \<mapsto> pi)\<rparr>"

lemma pt_slot_set_info [simp]: "pt_slot (set_info p pi s) = pt_slot s"
  by (intro ext) (simp add: pt_slot_def set_info_def)

lemma table_set_info:
  assumes "pt_infos s p = Some pi" "PTPageCpuVAddr pi' = PTPageCpuVAddr pi"
    "hPTPageOSMemHandle pi' = hPTPageOSMemHandle pi"
  shows "table (set_info p pi' s) = table s"
proof
  fix k
  show "table (set_info p pi' s) k = table s k"
    using assms by (cases k) (auto simp: set_info_def pt_slot_def split: bind_splits)
qed

lemma set_count_spec:
  fixes n :: u32
  assumes inv: "mmu_struct os s" and p: "pt_infos s p = Some pi" and v: "PTPageCpuVAddr pi \<noteq> NULL"
  defines "s' \<equiv> set_info p (pi\<lparr>ui32ValidPTECount := n\<rparr>) s"
  shows "mmu_struct os s'" "frame os s' = frame os s" "table s' = table s"
proof -
  show t: "table s' = table s" unfolding s'_def by (rule table_set_info [OF p]) simp_all
  then show "frame os s' = frame os s" by (intro ext) (simp add: frame_def s'_def set_info_def)
  have "slots_ok s'" using inv p v by (auto simp: mmu_struct_def slots_ok_def s'_def) (auto simp: set_info_def)
  moreover have "tables_ok os s'" using inv t by (simp add: mmu_struct_def tables_ok_def) (simp add: s'_def set_info_def)
  moreover have "ctxs_ok os s'" using inv ctxs_ok_cong [of s' s] by (simp add: mmu_struct_def s'_def set_info_def)
  ultimately show "mmu_struct os s'" using inv by (simp add: mmu_struct_def s'_def set_info_def)
qed

subsection \<open>Counting valid entries\<close>

lemma valid_count_le: "valid_count fr \<le> length fr"
  by (simp add: valid_count_def)

lemma valid_count_update:
  "j < length fr \<Longrightarrow> valid_count (fr[j := x]) + (if pte_valid (fr ! j) then 1 else 0) =
   valid_count fr + (if pte_valid x then 1 else 0)"
proof (induction fr arbitrary: j)
  case (Cons y fr)
  then show ?case by (cases j) (auto simp: valid_count_def)
qed simp

lemma pte_valid_0 [simp]: "\<not> pte_valid 0" by (simp add: pte_valid_def)

lemma valid_count_0: "valid_count fr = 0 \<Longrightarrow> j < length fr \<Longrightarrow> \<not> pte_valid (fr ! j)"
  by (auto simp: valid_count_def filter_empty_conv)

lemma valid_count_pos: "j < length fr \<Longrightarrow> pte_valid (fr ! j) \<Longrightarrow> valid_count fr > 0"
  using valid_count_0 by blast

lemma valid_count_zeros [simp]: "valid_count (replicate n 0) = 0"
  by (simp add: valid_count_def)

lemma make_pte_valid [simp]: "pte_valid (make_pte pa f)"
proof -
  have "bit (make_pte pa f AND SGX_MMU_PTE_VALID) 0" by (simp add: make_pte_def SGX_MMU_PTE_VALID_def bit_simps)
  then show ?thesis unfolding pte_valid_def by (metis bit_0_eq bot_apply bot_bool_def)
qed

end
