(* ===== verification/Pvr_Mmu_Inv.thy ===== *)
theory Pvr_Mmu_Inv
  imports Pvr_Mmu_Rep
begin

text \<open>
  The relation between the page directories and the page tables of a heap, and what one step of the
  MMU code does to it: mapping or unmapping a page, freeing a page table and allocating one. The
  page tables of a heap are seen as a partial function from directory slots to frames; every step is
  an update of that function that leaves the other heaps alone.
\<close>

subsection \<open>Heaps and their page directory entries\<close>

definition shared_heap :: "MMU_HEAP \<Rightarrow> bool" where
  "shared_heap h \<longleftrightarrow> DevMemHeapType (psDevArena h) = DEVICE_MEMORY_HEAP_SHARED \<or>
     DevMemHeapType (psDevArena h) = DEVICE_MEMORY_HEAP_SHARED_EXPORTED"

definition heap_type_ok :: "MMU_HEAP \<Rightarrow> bool" where
  "heap_type_ok h \<longleftrightarrow> shared_heap h \<or> DevMemHeapType (psDevArena h) = DEVICE_MEMORY_HEAP_PERCONTEXT \<or>
     DevMemHeapType (psDevArena h) = DEVICE_MEMORY_HEAP_KERNEL"

text \<open>The contexts whose page directories show the heap.\<close>

definition sharers :: "MMU_HEAP \<Rightarrow> mmu_state \<Rightarrow> ptr set" where
  "sharers h s = (if shared_heap h then dom (mmu_ctxs s) else {psMMUContext h})"

text \<open>The slots of the page directory that the addresses of a heap fall into.\<close>

definition heap_slots :: "MMU_HEAP \<Rightarrow> nat set" where
  "heap_slots h = (let d = psDevArena h
     in {unat (BaseDevVAddr d) div 2 ^ 22 .. (unat (BaseDevVAddr d) + unat (da_ui32Size d) - 1) div 2 ^ 22})"

definition pde_of :: "mmu_os \<Rightarrow> mmu_state \<Rightarrow> MMU_HEAP \<Rightarrow> nat \<Rightarrow> u32" where
  "pde_of os s h i = (case table s (PTof (psMMUContext h) i) of
      None \<Rightarrow> 0 | Some (_, v) \<Rightarrow> VMallocToPhys os v OR SGX_MMU_PDE_VALID)"

definition heap_ok :: "mmu_os \<Rightarrow> MMU_HEAP \<Rightarrow> mmu_state \<Rightarrow> bool" where
  "heap_ok os h s \<longleftrightarrow> psMMUContext h \<in> dom (mmu_ctxs s) \<and> heap_type_ok h \<and>
     (\<forall>i \<in> heap_slots h. \<forall>c \<in> sharers h s. \<exists>pd. frame os s (PDof c) = Some pd \<and> pd ! i = pde_of os s h i)"

text \<open>The page tables of a heap.\<close>

definition pts :: "mmu_os \<Rightarrow> MMU_HEAP \<Rightarrow> mmu_state \<Rightarrow> nat \<rightharpoonup> u32 list" where
  "pts os h s i = frame os s (PTof (psMMUContext h) i)"

text \<open>The device finds in every sharing context what the page tables of the heap hold.\<close>

lemma hw_pte_pts:
  assumes inv: "mmu_struct os s" and h: "heap_ok os h s" and c: "c \<in> sharers h s"
    and va: "unat (pd_index va) \<in> heap_slots h"
  shows "hw_pte os s c va = map_option (\<lambda>fr. fr ! unat (pt_index va)) (pts os h s (unat (pd_index va)))"
proof -
  let ?i = "unat (pd_index va)"
  obtain pd where pd: "frame os s (PDof c) = Some pd" "pd ! ?i = pde_of os s h ?i"
    using h c va by (auto simp: heap_ok_def)
  show ?thesis
  proof (cases "table s (PTof (psMMUContext h) ?i)")
    case None
    then show ?thesis using pd inv by (simp add: hw_pte_pd pde_of_def pts_def frame_def)
  next
    case (Some x)
    obtain a v where x: "x = (a, v)" by (cases x)
    obtain fr where fr: "frame os s (PTof (psMMUContext h) ?i) = Some fr" "mem s (VMallocToPhys os v) = Some fr"
      "take_bit 12 (VMallocToPhys os v) = 0" using table_frame [OF inv] Some x by metis
    have e: "pd ! ?i = VMallocToPhys os v OR SGX_MMU_PDE_VALID" using pd(2) Some x by (simp add: pde_of_def)
    show ?thesis using pde_addr [OF fr(3)] fr(1,2) by (simp add: hw_pte_pd [OF inv pd(1)] e pts_def)
  qed
qed

subsection \<open>What a step on a heap leaves alone\<close>

definition heap_frame :: "mmu_os \<Rightarrow> MMU_HEAP \<Rightarrow> mmu_state \<Rightarrow> mmu_state \<Rightarrow> bool" where
  "heap_frame os h s s' \<longleftrightarrow> dom (mmu_ctxs s') = dom (mmu_ctxs s) \<and>
     (\<forall>c i. c \<noteq> psMMUContext h \<or> i \<notin> heap_slots h \<longrightarrow>
        table s' (PTof c i) = table s (PTof c i) \<and> frame os s' (PTof c i) = frame os s (PTof c i)) \<and>
     (\<forall>c pd. frame os s (PDof c) = Some pd \<longrightarrow> (\<exists>pd'. frame os s' (PDof c) = Some pd' \<and>
        (\<forall>i. c \<notin> sharers h s \<or> i \<notin> heap_slots h \<longrightarrow> pd' ! i = pd ! i)))"

lemma heap_frame_refl: "heap_frame os h s s" by (simp add: heap_frame_def)

lemma heap_frame_trans:
  assumes "heap_frame os h s t" "heap_frame os h t u"
  shows "heap_frame os h s u"
proof -
  have "sharers h t = sharers h s" using assms(1) by (simp add: heap_frame_def sharers_def)
  then have "\<exists>pd'. frame os u (PDof c) = Some pd' \<and> (\<forall>i. c \<notin> sharers h s \<or> i \<notin> heap_slots h \<longrightarrow> pd' ! i = pd ! i)"
    if pd: "frame os s (PDof c) = Some pd" for c pd
  proof -
    obtain pd1 where 1: "frame os t (PDof c) = Some pd1" "\<forall>i. c \<notin> sharers h s \<or> i \<notin> heap_slots h \<longrightarrow> pd1 ! i = pd ! i"
      using assms(1) pd unfolding heap_frame_def by blast
    obtain pd2 where "frame os u (PDof c) = Some pd2" "\<forall>i. c \<notin> sharers h s \<or> i \<notin> heap_slots h \<longrightarrow> pd2 ! i = pd1 ! i"
      using assms(2) 1(1) \<open>sharers h t = sharers h s\<close> unfolding heap_frame_def by metis
    with 1 show ?thesis by metis
  qed
  moreover have "\<forall>c i. c \<noteq> psMMUContext h \<or> i \<notin> heap_slots h \<longrightarrow>
      table u (PTof c i) = table s (PTof c i) \<and> frame os u (PTof c i) = frame os s (PTof c i)"
    using assms unfolding heap_frame_def by metis
  ultimately show ?thesis using assms unfolding heap_frame_def by simp
qed

text \<open>Two heaps that no context shows in the same slot.\<close>

definition apart :: "MMU_HEAP \<Rightarrow> MMU_HEAP \<Rightarrow> bool" where
  "apart h h' \<longleftrightarrow> heap_slots h \<inter> heap_slots h' = {} \<or>
     \<not> shared_heap h \<and> \<not> shared_heap h' \<and> psMMUContext h \<noteq> psMMUContext h'"

lemma heap_frame_apart:
  assumes fr: "heap_frame os h s s'" and ap: "apart h h'" and ok: "heap_ok os h' s"
  shows "heap_ok os h' s'" and "\<And>i. i \<in> heap_slots h' \<Longrightarrow> pts os h' s' i = pts os h' s i"
proof -
  have t: "table s' (PTof (psMMUContext h') i) = table s (PTof (psMMUContext h') i)"
    "frame os s' (PTof (psMMUContext h') i) = frame os s (PTof (psMMUContext h') i)" if "i \<in> heap_slots h'" for i
  proof -
    have "psMMUContext h' \<noteq> psMMUContext h \<or> i \<notin> heap_slots h" using that ap unfolding apart_def by auto
    then show "table s' (PTof (psMMUContext h') i) = table s (PTof (psMMUContext h') i)"
      "frame os s' (PTof (psMMUContext h') i) = frame os s (PTof (psMMUContext h') i)"
      using fr unfolding heap_frame_def by blast+
  qed
  then show "pts os h' s' i = pts os h' s i" if "i \<in> heap_slots h'" for i using that by (simp add: pts_def)
  have d: "sharers h' s' = sharers h' s" using fr by (simp add: heap_frame_def sharers_def)
  have "\<exists>pd. frame os s' (PDof c) = Some pd \<and> pd ! i = pde_of os s' h' i" if i: "i \<in> heap_slots h'" "c \<in> sharers h' s" for i c
  proof -
    obtain pd where pd: "frame os s (PDof c) = Some pd" "pd ! i = pde_of os s h' i"
      using ok i unfolding heap_ok_def by blast
    have "c \<notin> sharers h s \<or> i \<notin> heap_slots h"
      using ap i unfolding apart_def sharers_def by (auto split: if_splits)
    then obtain pd' where "frame os s' (PDof c) = Some pd'" "pd' ! i = pd ! i"
      using fr pd(1) unfolding heap_frame_def by meson
    then show ?thesis using pd(2) t(1) [OF i(1)] by (simp add: pde_of_def)
  qed
  then show "heap_ok os h' s'" using ok fr d unfolding heap_ok_def heap_frame_def by simp
qed

subsection \<open>Page directory entries\<close>

definition upd_pds :: "ptr set \<Rightarrow> nat \<Rightarrow> u32 \<Rightarrow> (tbl \<Rightarrow> u32 list option) \<Rightarrow> tbl \<Rightarrow> u32 list option" where
  "upd_pds C i x F k =
     (case k of PDof c \<Rightarrow> if c \<in> C then map_option (\<lambda>fr. fr[i := x]) (F k) else F k | PTof _ _ \<Rightarrow> F k)"

lemma write_pde:
  assumes inv: "mmu_struct os s" and c: "mmu_ctxs s c = Some ctx" and i: "i < 1024"
  shows "\<exists>m. write_word os (pvPDCpuVAddr ctx) i x s = Some (s\<lparr>mem := m\<rparr>) \<and> mmu_struct os (s\<lparr>mem := m\<rparr>) \<and>
           frame os (s\<lparr>mem := m\<rparr>) = upd_pds {c} i x (frame os s) \<and> dom m = dom (mem s)"
proof -
  have t: "table s (PDof c) = Some (hPDOSMemHandle ctx, pvPDCpuVAddr ctx)" using c by simp
  obtain fr where fr: "frame os s (PDof c) = Some fr" "mem s (VMallocToPhys os (pvPDCpuVAddr ctx)) = Some fr"
    by (rule table_frame [OF inv t])
  then have "dom ((mem s)(VMallocToPhys os (pvPDCpuVAddr ctx) \<mapsto> fr[i := x])) = dom (mem s)" by auto
  moreover
  have "(frame os s)(PDof c \<mapsto> fr[i := x]) = upd_pds {c} i x (frame os s)"
    using fr by (auto simp: upd_pds_def fun_eq_iff split: tbl.splits)
  ultimately show ?thesis using write_word_spec [OF inv t fr(1) i, of x] by metis
qed

lemma upd_pds_union: "upd_pds A i x (upd_pds B i x F) = upd_pds (A \<union> B) i x F"
  by (auto simp: upd_pds_def fun_eq_iff option.map_comp comp_def split: tbl.splits)

lemma set_pde_all_spec:
  assumes "mmu_struct os s" "ctx_list s p cs" "i < 1024"
  shows "\<exists>m. set_pde_all os i x p s = Some (s\<lparr>mem := m\<rparr>) \<and> mmu_struct os (s\<lparr>mem := m\<rparr>) \<and>
           frame os (s\<lparr>mem := m\<rparr>) = upd_pds (set cs) i x (frame os s) \<and> dom m = dom (mem s)"
  using assms(1,2)
proof (induction cs arbitrary: p s)
  case Nil
  have "frame os s = upd_pds {} i x (frame os s)" by (auto simp: upd_pds_def fun_eq_iff split: tbl.splits)
  moreover have "set_pde_all os i x p s = Some s" using Nil by (subst set_pde_all.simps) simp
  ultimately show ?case using Nil.prems(1) by (intro exI [of _ "mem s"]) simp
next
  case (Cons c cs)
  obtain ctx where c: "p = c" "c \<noteq> NULL" "mmu_ctxs s c = Some ctx" "ctx_list s (mmu_psNext ctx) cs" using Cons.prems(2) by auto
  obtain m where m: "write_word os (pvPDCpuVAddr ctx) i x s = Some (s\<lparr>mem := m\<rparr>)" "mmu_struct os (s\<lparr>mem := m\<rparr>)"
    "frame os (s\<lparr>mem := m\<rparr>) = upd_pds {c} i x (frame os s)" "dom m = dom (mem s)"
    using write_pde [OF Cons.prems(1) c(3) assms(3)] by blast
  have "ctx_list (s\<lparr>mem := m\<rparr>) (mmu_psNext ctx) cs" using c(4) ctx_list_cong [of "s\<lparr>mem := m\<rparr>" s] by simp
  from Cons.IH [OF m(2) this] obtain m' where m': "set_pde_all os i x (mmu_psNext ctx) (s\<lparr>mem := m\<rparr>) = Some (s\<lparr>mem := m'\<rparr>)"
    "mmu_struct os (s\<lparr>mem := m'\<rparr>)" "frame os (s\<lparr>mem := m'\<rparr>) = upd_pds (set cs) i x (frame os (s\<lparr>mem := m\<rparr>))"
    "dom m' = dom m" by auto
  have "set_pde_all os i x p s = Some (s\<lparr>mem := m'\<rparr>)"
    using c m(1) m'(1) by (subst set_pde_all.simps) simp
  moreover have "frame os (s\<lparr>mem := m'\<rparr>) = upd_pds (set (c # cs)) i x (frame os s)"
    using m'(3) m(3) upd_pds_union [of "set cs" i x "{c}"] by (simp add: insert_commute Un_commute)
  ultimately show ?case using m'(2,4) m(4) by blast
qed

lemma set_pde_spec:
  assumes inv: "mmu_struct os s" and t: "heap_type_ok h" and c: "psMMUContext h \<in> dom (mmu_ctxs s)" and i: "i < 1024"
  shows "\<exists>m. set_pde os h i x s = Some (True, s\<lparr>mem := m\<rparr>) \<and> mmu_struct os (s\<lparr>mem := m\<rparr>) \<and>
           frame os (s\<lparr>mem := m\<rparr>) = upd_pds (sharers h s) i x (frame os s) \<and> dom m = dom (mem s)"
proof (cases "shared_heap h")
  case True
  obtain cs where cs: "ctx_list s (pvMMUContextList s) cs" "set cs = dom (mmu_ctxs s)"
    using inv by (auto simp: mmu_struct_def ctxs_ok_def)
  from set_pde_all_spec [OF inv cs(1) i, of x] cs(2) True show ?thesis
    by (auto simp: set_pde_def shared_heap_def sharers_def Let_def)
next
  case False
  obtain ctx where ctx: "mmu_ctxs s (psMMUContext h) = Some ctx" using c by auto
  from write_pde [OF inv ctx i, of x] False t show ?thesis
    by (auto simp: set_pde_def heap_type_ok_def shared_heap_def sharers_def Let_def ctx)
qed

subsection \<open>Writing an entry of a page table\<close>

lemma counts_ok_cong:
  assumes "counts_ok os s" "pt_slot s' = pt_slot s" "pt_infos s' = pt_infos s"
    "\<And>c i. frame os s' (PTof c i) = frame os s (PTof c i)"
  shows "counts_ok os s'"
  using assms unfolding counts_ok_def by metis

text \<open>
  The count and one entry of a page table change together, so that the count stays the number of
  valid entries.
\<close>

lemma pt_update:
  fixes n :: u32
  assumes inv: "mmu_inv os s" and h: "heap_ok os h s"
    and p: "pt_slot s (psMMUContext h) i = Some p" "pt_infos s p = Some pi"
    and fr: "pts os h s i = Some fr" and j: "j < 1024" and i: "i \<in> heap_slots h"
    and n: "unat n = valid_count (fr[j := x])"
  defines "s1 \<equiv> set_info p (pi\<lparr>ui32ValidPTECount := n\<rparr>) s"
  shows "p \<noteq> NULL" "read_word os (PTPageCpuVAddr pi) j s = Some (fr ! j)"
    and "\<exists>s'. write_word os (PTPageCpuVAddr pi) j x s1 = Some s' \<and> pt_infos s' p = Some (pi\<lparr>ui32ValidPTECount := n\<rparr>) \<and>
           pt_slot s' = pt_slot s \<and> mmu_inv os s' \<and> heap_ok os h s' \<and> heap_frame os h s s' \<and>
           pts os h s' = (pts os h s)(i \<mapsto> fr[j := x])"
proof -
  let ?k = "PTof (psMMUContext h) i"
  have st: "mmu_struct os s" "counts_ok os s" using inv by (simp_all add: mmu_inv_def)
  obtain a v where t: "table s ?k = Some (a, v)" using fr unfolding pts_def by (rule frame_table)
  then have pi: "p \<noteq> NULL" "PTPageCpuVAddr pi = v" "v \<noteq> NULL" using p by (auto split: if_splits)
  then show "p \<noteq> NULL" by simp
  show "read_word os (PTPageCpuVAddr pi) j s = Some (fr ! j)"
    using read_word_spec [OF st(1) t _ j] fr pi(2) by (simp add: pts_def)
  note c1 = set_count_spec [OF st(1) p(2), of n, folded s1_def, unfolded pi(2), OF pi(3)]
  define s' where "s' = s1\<lparr>mem := (mem s1)(VMallocToPhys os v \<mapsto> fr[j := x])\<rparr>"
  have t1: "table s1 ?k = Some (a, v)" "frame os s1 ?k = Some fr" using t fr c1 by (simp_all add: pts_def)
  note w = write_word_spec [OF c1(1) t1 j, of x, folded s'_def]
  have ps: "pt_slot s' = pt_slot s" "table s' = table s" by (simp_all add: s'_def s1_def c1(3) [unfolded s1_def])
  have pis: "pt_infos s' = (pt_infos s)(p \<mapsto> pi\<lparr>ui32ValidPTECount := n\<rparr>)" by (simp add: s'_def s1_def set_info_def)
  have f: "frame os s' = (frame os s)(?k \<mapsto> fr[j := x])" using w(3) c1(2) by simp
  have "unat (ui32ValidPTECount pi') = valid_count fr'"
    if q: "pt_slot s c k = Some q" "q \<noteq> NULL" "pt_infos s' q = Some pi'" "frame os s' (PTof c k) = Some fr'" for c k q pi' fr'
  proof (cases "q = p")
    case True
    then have "c = psMMUContext h" "k = i" using slot_inj [OF st(1) p(1), of c k] q(1) pi(1) by auto
    then show ?thesis using q True pis f n by auto
  next
    case False
    then have "PTof c k \<noteq> ?k" using q(1) p(1) by auto
    then show ?thesis using st(2) q False pis f unfolding counts_ok_def by auto
  qed
  then have "counts_ok os s'" unfolding counts_ok_def ps by blast
  then have 1: "mmu_inv os s'" using w(2) by (simp add: mmu_inv_def)
  have "mmu_ctxs s' = mmu_ctxs s" by (simp add: s'_def s1_def set_info_def)
  then have 2: "heap_ok os h s'" "heap_frame os h s s'"
    using h f i ps by (auto simp: heap_ok_def heap_frame_def sharers_def pde_of_def)
  have "pts os h s' = (pts os h s)(i \<mapsto> fr[j := x])" using f by (auto simp: pts_def fun_eq_iff)
  then show "\<exists>s'. write_word os (PTPageCpuVAddr pi) j x s1 = Some s' \<and> pt_infos s' p = Some (pi\<lparr>ui32ValidPTECount := n\<rparr>) \<and>
           pt_slot s' = pt_slot s \<and> mmu_inv os s' \<and> heap_ok os h s' \<and> heap_frame os h s s' \<and>
           pts os h s' = (pts os h s)(i \<mapsto> fr[j := x])"
    using w(1) pis ps(1) 1 2 pi(2) by auto
qed

lemma pts_slot:
  assumes "mmu_inv os s" "pts os h s i = Some fr"
  obtains p pi where "pt_slot s (psMMUContext h) i = Some p" "p \<noteq> NULL" "pt_infos s p = Some pi"
    "PTPageCpuVAddr pi \<noteq> NULL" "unat (ui32ValidPTECount pi) = valid_count fr" "length fr = 1024"
proof -
  obtain a v where "table s (PTof (psMMUContext h) i) = Some (a, v)" using assms(2) unfolding pts_def by (rule frame_table)
  then obtain p pi where "pt_slot s (psMMUContext h) i = Some p" "p \<noteq> NULL" "pt_infos s p = Some pi"
    "PTPageCpuVAddr pi \<noteq> NULL" by (rule table_slot) blast
  then show thesis
    using that assms frame_length [of os s] unfolding mmu_inv_def counts_ok_def pts_def by blast
qed

lemma MMU_MapPage_spec:
  assumes inv: "mmu_inv os s" and h: "heap_ok os h s" and fr: "pts os h s (unat (pd_index va)) = Some fr"
    and i: "unat (pd_index va) \<in> heap_slots h" and nv: "\<not> pte_valid (fr ! unat (pt_index va))"
  shows "\<exists>s'. MMU_MapPage os h va pa f s = Some s' \<and> mmu_inv os s' \<and> heap_ok os h s' \<and> heap_frame os h s s' \<and>
     pts os h s' = (pts os h s)(unat (pd_index va) \<mapsto> fr[unat (pt_index va) := make_pte pa f])"
proof -
  let ?j = "unat (pt_index va)"
  obtain p pi where p: "pt_slot s (psMMUContext h) (unat (pd_index va)) = Some p" "pt_infos s p = Some pi"
    "unat (ui32ValidPTECount pi) = valid_count fr" "length fr = 1024" by (rule pts_slot [OF inv fr])
  have "valid_count (fr[?j := make_pte pa f]) = valid_count fr + 1"
    using valid_count_update [of ?j fr "make_pte pa f"] nv p(4) by simp
  moreover have "valid_count fr + 1 < 2 ^ 32" using valid_count_le [of fr] p(4) by simp
  ultimately have n: "unat (ui32ValidPTECount pi + 1) = valid_count (fr[?j := make_pte pa f])"
    using p(3) by (simp add: unat_word_ariths)
  note u = pt_update [OF inv h p(1,2) fr index_less(2) i n]
  obtain s' where "write_word os (PTPageCpuVAddr pi) ?j (make_pte pa f)
      (set_info p (pi\<lparr>ui32ValidPTECount := ui32ValidPTECount pi + 1\<rparr>) s) = Some s'"
    "mmu_inv os s'" "heap_ok os h s'" "heap_frame os h s s'"
    "pts os h s' = (pts os h s)(unat (pd_index va) \<mapsto> fr[?j := make_pte pa f])" using u(3) by blast
  then show ?thesis using u(2) p(1,2) by (auto simp: MMU_MapPage_def upd_pt_info_def set_info_def)
qed

text \<open>The common part of the two unmapping loops.\<close>

definition unmap_entry :: "mmu_os \<Rightarrow> ptr \<Rightarrow> MMU_PT_INFO \<Rightarrow> nat \<Rightarrow> mmu_state \<Rightarrow> mmu_state option" where
  "unmap_entry os p pi j s = do {
     x \<leftarrow> read_word os (PTPageCpuVAddr pi) j s;
     s \<leftarrow> (if x AND SGX_MMU_PTE_VALID \<noteq> 0
           then upd_pt_info p (\<lambda>pi. pi\<lparr>ui32ValidPTECount := ui32ValidPTECount pi - 1\<rparr>) s
           else Some s);
     write_word os (PTPageCpuVAddr pi) j 0 s
   }"

lemma unmap_entry_spec:
  assumes inv: "mmu_inv os s" and h: "heap_ok os h s" and fr: "pts os h s i = Some fr"
    and p: "pt_slot s (psMMUContext h) i = Some p" "pt_infos s p = Some pi"
    and i: "i \<in> heap_slots h" and j: "j < 1024"
  shows "\<exists>s' pi'. unmap_entry os p pi j s = Some s' \<and> mmu_inv os s' \<and> heap_ok os h s' \<and> heap_frame os h s s' \<and>
     pts os h s' = (pts os h s)(i \<mapsto> fr[j := 0]) \<and> pt_slot s' = pt_slot s \<and> pt_infos s' p = Some pi' \<and>
     unat (ui32ValidPTECount pi') = valid_count (fr[j := 0])"
proof -
  obtain p' pi' where "pt_slot s (psMMUContext h) i = Some p'" "pt_infos s p' = Some pi'"
    "unat (ui32ValidPTECount pi') = valid_count fr" "length fr = 1024" by (rule pts_slot [OF inv fr])
  then have l: "unat (ui32ValidPTECount pi) = valid_count fr" "length fr = 1024" using p by auto
  note vc = valid_count_update [of j fr 0]
  let ?v = "pte_valid (fr ! j)"
  let ?n = "if ?v then ui32ValidPTECount pi - 1 else ui32ValidPTECount pi"
  have "unat (ui32ValidPTECount pi - 1) = unat (ui32ValidPTECount pi) - 1" if ?v
  proof -
    have "valid_count fr > 0" using valid_count_pos that j l(2) by simp
    then have "ui32ValidPTECount pi \<noteq> 0" using l(1) by auto
    then show ?thesis by (simp add: unat_minus_one)
  qed
  then have n: "unat ?n = valid_count (fr[j := 0])" using vc l j by (auto split: if_splits)
  note u = pt_update [OF inv h p fr j i n]
  have "(if fr ! j AND SGX_MMU_PTE_VALID \<noteq> 0
        then upd_pt_info p (\<lambda>pi. pi\<lparr>ui32ValidPTECount := ui32ValidPTECount pi - 1\<rparr>) s else Some s) =
      Some (set_info p (pi\<lparr>ui32ValidPTECount := ?n\<rparr>) s)"
    using p(2) by (auto simp: pte_valid_def upd_pt_info_def set_info_def fun_upd_idem)
  then have e: "unmap_entry os p pi j s = write_word os (PTPageCpuVAddr pi) j 0 (set_info p (pi\<lparr>ui32ValidPTECount := ?n\<rparr>) s)"
    using u(2) by (simp add: unmap_entry_def)
  from u(3) n show ?thesis unfolding e by fastforce
qed

end
