(* ===== verification/Pvr_Mmu_Tables.thy ===== *)
theory Pvr_Mmu_Tables
  imports Pvr_Mmu_Inv
begin

text \<open>
  Freeing and allocating page tables. Both replace what one slot of one context holds; the common
  lemma \<open>retable\<close> says when such a replacement keeps the structure.
\<close>

subsection \<open>Replacing what a slot holds\<close>

lemma ctx_list_next:
  assumes "\<And>c. map_option mmu_psNext (mmu_ctxs s' c) = map_option mmu_psNext (mmu_ctxs s c)"
  shows "ctx_list s' p cs = ctx_list s p cs"
proof (induction cs arbitrary: p)
  case (Cons c cs)
  then show ?case using assms [of c] by (cases "mmu_ctxs s c"; cases "mmu_ctxs s' c") auto
qed simp

lemma ctxs_ok_slot:
  assumes "ctxs_ok os s" "mmu_ctxs s c = Some ctx" "pvMMUContextList s' = pvMMUContextList s"
    "mmu_ctxs s' = (mmu_ctxs s)(c \<mapsto> ctx\<lparr>apsPTInfoList := (apsPTInfoList ctx)[i := p]\<rparr>)"
  shows "ctxs_ok os s'"
proof -
  have "ctx_list s' = ctx_list s" using ctx_list_next [of s' s] assms(2,4) by (auto simp: fun_eq_iff)
  moreover have "dom (mmu_ctxs s') = dom (mmu_ctxs s)" using assms(2,4) by auto
  ultimately show ?thesis using assms by (auto simp: ctxs_ok_def)
qed

lemma retable:
  assumes inv: "mmu_struct os s" and c: "mmu_ctxs s c = Some ctx" and i: "i < 1024"
    and s': "local_arena s' = None" "pvMMUContextList s' = pvMMUContextList s"
      "mmu_ctxs s' = (mmu_ctxs s)(c \<mapsto> ctx\<lparr>apsPTInfoList := (apsPTInfoList ctx)[i := p]\<rparr>)"
    and infos: "\<And>c' i' q. (c', i') \<noteq> (c, i) \<Longrightarrow> pt_slot s c' i' = Some q \<Longrightarrow> q \<noteq> NULL \<Longrightarrow>
        pt_infos s' q = pt_infos s q \<and> q \<noteq> p"
    and mems: "\<And>k h v. k \<noteq> PTof c i \<Longrightarrow> table s k = Some (h, v) \<Longrightarrow>
        mem s' (VMallocToPhys os v) = mem s (VMallocToPhys os v) \<and> areas s' h = areas s h"
    and slot: "p = NULL \<and> new = None \<or> p \<noteq> NULL \<and> pt_infos s' p = Some pi \<and>
        (PTPageCpuVAddr pi = NULL \<and> hPTPageOSMemHandle pi = NULL \<and> ui32ValidPTECount pi = 0 \<and> new = None \<or>
         PTPageCpuVAddr pi \<noteq> NULL \<and> new = Some (hPTPageOSMemHandle pi, PTPageCpuVAddr pi))"
    and new: "\<And>h v. new = Some (h, v) \<Longrightarrow> h \<noteq> NULL \<and> v \<noteq> NULL \<and> areas s' h = Some (v, 1) \<and>
        take_bit 12 (VMallocToPhys os v) = 0 \<and> (\<exists>fr. mem s' (VMallocToPhys os v) = Some fr \<and> length fr = 1024) \<and>
        (\<forall>k h2 v2. k \<noteq> PTof c i \<and> table s k = Some (h2, v2) \<longrightarrow> VMallocToPhys os v2 \<noteq> VMallocToPhys os v \<and> h2 \<noteq> h)"
  shows "mmu_struct os s'" "table s' = (table s)(PTof c i := new)"
    "pt_slot s' = (\<lambda>c' i'. if c' = c \<and> i' = i then Some p else pt_slot s c' i')"
    "frame os s' = (frame os s)(PTof c i := (case new of None \<Rightarrow> None | Some (h, v) \<Rightarrow> mem s' (VMallocToPhys os v)))"
proof -
  have len: "length (apsPTInfoList ctx) = 1024" by (rule ctx_len [OF inv c])
  show ps: "pt_slot s' = (\<lambda>c' i'. if c' = c \<and> i' = i then Some p else pt_slot s c' i')"
    using c i len by (auto simp: fun_eq_iff pt_slot_def s'(3))
  show t: "table s' = (table s)(PTof c i := new)"
  proof
    fix k
    consider (pd) c' where "k = PDof c'" | (pt) "k = PTof c i"
      | (other) c' i' where "k = PTof c' i'" "(c', i') \<noteq> (c, i)" by (cases k) auto
    then show "table s' k = ((table s)(PTof c i := new)) k"
    proof cases
      case pd
      then show ?thesis using c by (simp add: s'(3))
    next
      case pt
      then show ?thesis using slot by (auto simp: ps)
    next
      case other
      then show ?thesis using infos [OF other(2)] by (auto simp: ps split: bind_splits)
    qed
  qed
  show "frame os s' = (frame os s)(PTof c i := (case new of None \<Rightarrow> None | Some (h, v) \<Rightarrow> mem s' (VMallocToPhys os v)))"
  proof
    fix k
    show "frame os s' k = ((frame os s)(PTof c i := (case new of None \<Rightarrow> None | Some (h, v) \<Rightarrow> mem s' (VMallocToPhys os v)))) k"
      using mems [of k] by (cases "k = PTof c i"; cases "table s k") (auto simp: frame_def t split: option.splits)
  qed
  have "tables_ok os s'"
    unfolding tables_ok_def
  proof (intro conjI allI impI)
    fix k h v assume k: "table s' k = Some (h, v)"
    have "v \<noteq> NULL \<and> h \<noteq> NULL \<and> areas s' h = Some (v, 1) \<and> take_bit 12 (VMallocToPhys os v) = 0 \<and>
      (\<exists>fr. mem s' (VMallocToPhys os v) = Some fr \<and> length fr = 1024)"
    proof (cases "k = PTof c i")
      case True
      then show ?thesis using k new [of h v] by (simp add: t)
    next
      case False
      then have k': "table s k = Some (h, v)" using k by (simp add: t)
      obtain fr where "length fr = 1024" "mem s (VMallocToPhys os v) = Some fr" "v \<noteq> NULL" "h \<noteq> NULL"
        "areas s h = Some (v, 1)" "take_bit 12 (VMallocToPhys os v) = 0" by (rule table_frame [OF inv k'])
      then show ?thesis using mems [OF False k'] by simp
    qed
    then show "v \<noteq> NULL" "h \<noteq> NULL" "areas s' h = Some (v, 1)" "take_bit 12 (VMallocToPhys os v) = 0"
      "\<exists>fr. mem s' (VMallocToPhys os v) = Some fr \<and> length fr = 1024" by blast+
  next
    fix k k' h v h' v' assume a: "table s' k = Some (h, v) \<and> table s' k' = Some (h', v') \<and> k \<noteq> k'"
    consider "k = PTof c i" "table s k' = Some (h', v')" "new = Some (h, v)" "k' \<noteq> PTof c i"
      | "k' = PTof c i" "table s k = Some (h, v)" "new = Some (h', v')" "k \<noteq> PTof c i"
      | "table s k = Some (h, v)" "table s k' = Some (h', v')" "k \<noteq> k'"
      using a by (auto simp: t split: if_splits)
    then have "VMallocToPhys os v \<noteq> VMallocToPhys os v' \<and> h \<noteq> h'"
    proof cases
      case 1
      then show ?thesis using new [OF 1(3)] by metis
    next
      case 2
      then show ?thesis using new [OF 2(3)] by metis
    next
      case 3
      then show ?thesis using table_apart [OF inv 3] by blast
    qed
    then show "VMallocToPhys os v \<noteq> VMallocToPhys os v'" "h \<noteq> h'" by blast+
  qed
  moreover have "slots_ok s'"
    unfolding slots_ok_def
  proof (intro conjI allI impI)
    fix c' i' q assume q: "pt_slot s' c' i' = Some q \<and> q \<noteq> NULL"
    show "\<exists>pi. pt_infos s' q = Some pi \<and> (PTPageCpuVAddr pi = NULL \<longrightarrow> hPTPageOSMemHandle pi = NULL \<and> ui32ValidPTECount pi = 0)"
    proof (cases "(c', i') = (c, i)")
      case True
      then show ?thesis using q slot by (auto simp: ps)
    next
      case False
      then have "pt_slot s c' i' = Some q" "pt_infos s' q = pt_infos s q" using q infos [OF False] by (auto simp: ps)
      then show ?thesis using inv q unfolding mmu_struct_def slots_ok_def by metis
    qed
  next
    fix c1 i1 c2 i2 q assume q: "pt_slot s' c1 i1 = Some q \<and> pt_slot s' c2 i2 = Some q \<and> q \<noteq> NULL"
    then show "c1 = c2" "i1 = i2"
      using infos [of c1 i1 q] infos [of c2 i2 q] slot_inj [OF inv, of c1 i1 q c2 i2] by (auto simp: ps split: if_splits)
  qed
  moreover have "ctxs_ok os s'" using inv ctxs_ok_slot [OF _ c s'(2,3)] by (simp add: mmu_struct_def)
  ultimately show "mmu_struct os s'" using s'(1) by (simp add: mmu_struct_def)
qed

text \<open>When the directory entries of the heap follow, the heap's own relation holds again.\<close>

lemma heap_ok_repde:
  assumes inv: "mmu_struct os s" and h: "heap_ok os h s" and i: "i \<in> heap_slots h" "i < 1024"
    and d: "dom (mmu_ctxs s') = dom (mmu_ctxs s)"
    and t: "\<And>k. k \<noteq> PTof (psMMUContext h) i \<Longrightarrow> table s' k = table s k"
    and f: "\<And>k. k \<noteq> PTof (psMMUContext h) i \<Longrightarrow> frame os s' k = upd_pds (sharers h s) i (pde_of os s' h i) (frame os s) k"
  shows "heap_ok os h s'" "heap_frame os h s s'"
    "pts os h s' = (pts os h s)(i := frame os s' (PTof (psMMUContext h) i))"
proof -
  have sh: "sharers h s' = sharers h s" using d by (simp add: sharers_def)
  have "\<exists>pd. frame os s' (PDof c) = Some pd \<and> pd ! j = pde_of os s' h j"
    if j: "j \<in> heap_slots h" "c \<in> sharers h s" for j c
  proof -
    obtain pd where pd: "frame os s (PDof c) = Some pd" "pd ! j = pde_of os s h j" using h j unfolding heap_ok_def by blast
    have "length pd = 1024" by (rule frame_length [OF inv pd(1)])
    moreover have "pde_of os s' h j = pde_of os s h j" if "j \<noteq> i" using t [of "PTof (psMMUContext h) j"] that by (simp add: pde_of_def)
    ultimately show ?thesis using f [of "PDof c"] pd j i by (cases "j = i") (simp_all add: upd_pds_def)
  qed
  then show "heap_ok os h s'" using h d unfolding heap_ok_def sh by simp
  show "heap_frame os h s s'"
    unfolding heap_frame_def
  proof (intro conjI allI impI)
    show "dom (mmu_ctxs s') = dom (mmu_ctxs s)" by (rule d)
    fix c j assume "c \<noteq> psMMUContext h \<or> j \<notin> heap_slots h"
    then have ne: "PTof c j \<noteq> PTof (psMMUContext h) i" using i by auto
    show "table s' (PTof c j) = table s (PTof c j)" "frame os s' (PTof c j) = frame os s (PTof c j)"
      using t [OF ne] f [OF ne] by (simp_all add: upd_pds_def)
  next
    fix c pd assume pd: "frame os s (PDof c) = Some pd"
    then show "\<exists>pd'. frame os s' (PDof c) = Some pd' \<and> (\<forall>j. c \<notin> sharers h s \<or> j \<notin> heap_slots h \<longrightarrow> pd' ! j = pd ! j)"
      using f [of "PDof c"] i by (auto simp: upd_pds_def intro!: nth_list_update_neq)
  qed
  show "pts os h s' = (pts os h s)(i := frame os s' (PTof (psMMUContext h) i))"
    using f by (auto simp: pts_def fun_eq_iff upd_pds_def)
qed

lemma counts_ok_other:
  assumes c: "counts_ok os s"
    and o: "\<And>c' i' q. pt_slot s' c' i' = Some q \<Longrightarrow> q \<noteq> NULL \<Longrightarrow> (c', i') \<noteq> (c, i) \<Longrightarrow>
       pt_slot s c' i' = Some q \<and> pt_infos s' q = pt_infos s q \<and> frame os s' (PTof c' i') = frame os s (PTof c' i')"
    and n: "\<And>p pi fr. pt_slot s' c i = Some p \<Longrightarrow> p \<noteq> NULL \<Longrightarrow> pt_infos s' p = Some pi \<Longrightarrow>
       frame os s' (PTof c i) = Some fr \<Longrightarrow> unat (ui32ValidPTECount pi) = valid_count fr"
  shows "counts_ok os s'"
  unfolding counts_ok_def
proof (intro allI impI)
  fix c' i' q pi fr
  assume a: "pt_slot s' c' i' = Some q \<and> q \<noteq> NULL \<and> pt_infos s' q = Some pi \<and> frame os s' (PTof c' i') = Some fr"
  show "unat (ui32ValidPTECount pi) = valid_count fr"
  proof (cases "(c', i') = (c, i)")
    case True
    then show ?thesis using a n by blast
  next
    case False
    then show ?thesis using a o [of c' i' q] c unfolding counts_ok_def by metis
  qed
qed

subsection \<open>Freeing a page table\<close>

lemma frames_of_1 [simp]: "frames_of os v (Suc 0) = [VMallocToPhys os v]" by (simp add: frames_of_def)

definition drop_pt :: "mmu_os \<Rightarrow> ptr \<Rightarrow> nat \<Rightarrow> ptr \<Rightarrow> MMU_PT_INFO \<Rightarrow> nat \<Rightarrow> mmu_state \<Rightarrow> mmu_state option" where
  "drop_pt os c i p pi n s = do {
     s \<leftarrow> (if PTPageCpuVAddr pi \<noteq> NULL
           then do { s \<leftarrow> clear_ptes os (PTPageCpuVAddr pi) n s; free_pt_page os pi s } else Some s);
     s \<leftarrow> free_pt_info p s;
     set_pt_slot c i NULL s
   }"

lemma DeferredFreePageTable_drop:
  assumes "i = unat (pd_index (BaseDevVAddr (psDevArena h)) + idx)" "pt_slot s (psMMUContext h) i = Some p" "p \<noteq> NULL"
    "set_pde os h i 0 s = Some (True, s1)" "pt_infos s1 p = Some pi" "n = min (unat (ui32PTEntryCount h)) 1024"
    "drop_pt os (psMMUContext h) i p pi n s1 = Some s'"
  shows "DeferredFreePageTable os h idx s =
     Some (h\<lparr>ui32PTEntryCount := ui32PTEntryCount h - of_nat (if PTPageCpuVAddr pi \<noteq> NULL then n else 1024)\<rparr>, s')"
  using assms by (cases "PTPageCpuVAddr pi = NULL")
    (auto simp: DeferredFreePageTable_def drop_pt_def Let_def bind_eq_Some_conv)

lemma drop_table:
  assumes inv: "mmu_struct os s" and p: "pt_slot s c i = Some p" "p \<noteq> NULL" "pt_infos s p = Some pi"
    and n: "n \<le> 1024"
  shows "\<exists>s'. drop_pt os c i p pi n s = Some s' \<and> mmu_struct os s' \<and> dom (mmu_ctxs s') = dom (mmu_ctxs s) \<and>
      table s' = (table s)(PTof c i := None) \<and> frame os s' = (frame os s)(PTof c i := None) \<and>
      pt_slot s' = (\<lambda>c' i'. if c' = c \<and> i' = i then Some NULL else pt_slot s c' i') \<and> pt_infos s' = (pt_infos s)(p := None)"
proof -
  obtain ctx where c: "mmu_ctxs s c = Some ctx" "i < 1024" using pt_slotD [OF inv p(1)] by auto
  have la: "local_arena s = None" using inv by (simp add: mmu_struct_def)
  let ?v = "PTPageCpuVAddr pi" and ?h = "hPTPageOSMemHandle pi"
  define m where "m = (if ?v = NULL then mem s else (mem s)(VMallocToPhys os ?v := None))"
  define ar where "ar = (if ?v = NULL then areas s else (areas s)(?h := None))"
  define s' where "s' = s\<lparr>mem := m, areas := ar, pt_infos := (pt_infos s)(p := None),
      mmu_ctxs := (mmu_ctxs s)(c \<mapsto> ctx\<lparr>apsPTInfoList := (apsPTInfoList ctx)[i := NULL]\<rparr>)\<rparr>"
  have t: "?v \<noteq> NULL \<Longrightarrow> table s (PTof c i) = Some (?h, ?v)" using p by simp
  have run: "(if ?v \<noteq> NULL then do { s \<leftarrow> clear_ptes os ?v n s; free_pt_page os pi s } else Some s) = Some (s\<lparr>mem := m, areas := ar\<rparr>)"
  proof (cases "?v = NULL")
    case False
    obtain fr where fr: "frame os s (PTof c i) = Some fr" "areas s ?h = Some (?v, 1)" by (rule table_frame [OF inv t [OF False]])
    show ?thesis using clear_ptes_spec(1) [OF inv t [OF False] fr(1) n] False fr(2) la
      by (auto simp: free_pt_page_def OSFreePages_def unmap_frames_def m_def ar_def fun_eq_iff)
  qed (simp add: m_def ar_def)
  have "set_pt_slot c i NULL (s\<lparr>mem := m, areas := ar, pt_infos := (pt_infos s)(p := None)\<rparr>) = Some s'"
    using c ctx_len [OF inv c(1)] by (simp add: set_pt_slot_def s'_def)
  then have r: "drop_pt os c i p pi n s = Some s'"
    unfolding drop_pt_def run using p(3) by (simp add: free_pt_info_def)
  have "((pt_infos s)(p := None)) q = pt_infos s q" if "(c', i') \<noteq> (c, i)" "pt_slot s c' i' = Some q" "q \<noteq> NULL" for c' i' q
    using that slot_inj [OF inv p(1), of c' i'] p(2) by (cases "q = p") auto
  then have infos: "(c', i') \<noteq> (c, i) \<Longrightarrow> pt_slot s c' i' = Some q \<Longrightarrow> q \<noteq> NULL \<Longrightarrow> pt_infos s' q = pt_infos s q \<and> q \<noteq> NULL" for c' i' q
    by (simp add: s'_def)
  have mems: "mem s' (VMallocToPhys os v) = mem s (VMallocToPhys os v) \<and> areas s' h = areas s h"
    if "k \<noteq> PTof c i" "table s k = Some (h, v)" for k h v
    using table_apart [OF inv that(2), of "PTof c i"] t that(1) by (auto simp: s'_def m_def ar_def)
  have "mmu_struct os s'" "table s' = (table s)(PTof c i := None)" "frame os s' = (frame os s)(PTof c i := None)"
    "pt_slot s' = (\<lambda>c' i'. if c' = c \<and> i' = i then Some NULL else pt_slot s c' i')"
    using retable [of os s c ctx i s' NULL None, OF inv c _ _ _ infos mems] la by (simp_all add: s'_def)
  moreover have "dom (mmu_ctxs s') = dom (mmu_ctxs s)" "pt_infos s' = (pt_infos s)(p := None)" using c by (auto simp: s'_def)
  ultimately show ?thesis using r by blast
qed

lemma DeferredFreePageTable_spec:
  assumes inv: "mmu_inv os s" and h: "heap_ok os h s"
    and i: "i = unat (pd_index (BaseDevVAddr (psDevArena h)) + idx)" "i \<in> heap_slots h" "i < 1024"
  shows "\<exists>n s'. DeferredFreePageTable os h idx s = Some (h\<lparr>ui32PTEntryCount := n\<rparr>, s') \<and> mmu_inv os s' \<and>
     heap_ok os h s' \<and> heap_frame os h s s' \<and> pts os h s' = (pts os h s)(i := None) \<and>
     pt_slot s' = (\<lambda>c' i'. if c' = psMMUContext h \<and> i' = i then Some NULL else pt_slot s c' i')"
proof -
  let ?c = "psMMUContext h"
  have st: "mmu_struct os s" "counts_ok os s" using inv by (simp_all add: mmu_inv_def)
  have c: "?c \<in> dom (mmu_ctxs s)" "heap_type_ok h" using h by (simp_all add: heap_ok_def)
  obtain ctx where ctx: "mmu_ctxs s ?c = Some ctx" using c by auto
  define p where "p = apsPTInfoList ctx ! i"
  have p: "pt_slot s ?c i = Some p" using pt_slot_Some [OF st(1) ctx i(3)] by (simp add: p_def)
  obtain m where m: "set_pde os h i 0 s = Some (True, s\<lparr>mem := m\<rparr>)" "mmu_struct os (s\<lparr>mem := m\<rparr>)"
    "frame os (s\<lparr>mem := m\<rparr>) = upd_pds (sharers h s) i 0 (frame os s)"
    using set_pde_spec [OF st(1) c(2,1) i(3)] by blast
  let ?s1 = "s\<lparr>mem := m\<rparr>"
  show ?thesis
  proof (cases "p = NULL")
    case True
    have e: "DeferredFreePageTable os h idx s = Some (h\<lparr>ui32PTEntryCount := ui32PTEntryCount h - 1024\<rparr>, ?s1)"
      using p m(1) True i(1) by (simp add: DeferredFreePageTable_def Let_def)
    have n: "table s (PTof ?c i) = None" using p True by simp
    have "mmu_inv os ?s1" using m(2) counts_ok_cong [OF st(2), of ?s1] m(3) by (simp add: mmu_inv_def upd_pds_def)
    moreover have "heap_ok os h ?s1" "heap_frame os h s ?s1" "pts os h ?s1 = (pts os h s)(i := frame os ?s1 (PTof ?c i))"
      using heap_ok_repde [OF st(1) h i(2,3), of ?s1] m(3) n by (simp_all add: pde_of_def)
    moreover have "frame os ?s1 (PTof ?c i) = None" using n m(2) by (simp add: frame_None)
    moreover have "pt_slot ?s1 = (\<lambda>c' i'. if c' = ?c \<and> i' = i then Some NULL else pt_slot s c' i')"
      using p True by (auto simp: fun_eq_iff)
    ultimately show ?thesis by (intro exI) (rule conjI [OF e], simp)
  next
    case False
    obtain pi where pi: "pt_infos s p = Some pi" using slot_info [OF st(1) p False] by blast
    define n where "n = min (unat (ui32PTEntryCount h)) 1024"
    have pm: "pt_slot ?s1 ?c i = Some p" "pt_infos ?s1 p = Some pi" "n \<le> 1024" using p pi by (simp_all add: n_def)
    obtain s' where s': "drop_pt os ?c i p pi n ?s1 = Some s'" "mmu_struct os s'" "dom (mmu_ctxs s') = dom (mmu_ctxs ?s1)"
      "table s' = (table ?s1)(PTof ?c i := None)" "frame os s' = (frame os ?s1)(PTof ?c i := None)"
      "pt_slot s' = (\<lambda>c' i'. if c' = ?c \<and> i' = i then Some NULL else pt_slot ?s1 c' i')"
      "pt_infos s' = (pt_infos ?s1)(p := None)"
      using drop_table [OF m(2) pm(1) False pm(2,3)] by blast
    note e = DeferredFreePageTable_drop [OF i(1) p False m(1) pm(2) n_def s'(1)]
    have "counts_ok os s'"
    proof (rule counts_ok_other [OF st(2), of s' ?c i])
      fix c' i' q assume q: "pt_slot s' c' i' = Some q" "q \<noteq> NULL" "(c', i') \<noteq> (?c, i)"
      then have "pt_slot s c' i' = Some q" by (auto simp: s'(6) split: if_splits)
      moreover have "q \<noteq> p" using slot_inj [OF st(1) p, of c' i'] calculation q(3) False by auto
      ultimately show "pt_slot s c' i' = Some q \<and> pt_infos s' q = pt_infos s q \<and> frame os s' (PTof c' i') = frame os s (PTof c' i')"
        using q(3) by (auto simp: s'(5,7) m(3) upd_pds_def)
    qed (simp add: s'(6))
    then have "mmu_inv os s'" using s'(2) by (simp add: mmu_inv_def)
    moreover have "heap_ok os h s'" "heap_frame os h s s'" "pts os h s' = (pts os h s)(i := frame os s' (PTof ?c i))"
      using heap_ok_repde [OF st(1) h i(2,3), of s'] s'(3-5) m(3) by (simp_all add: pde_of_def)
    moreover have "frame os s' (PTof ?c i) = None" by (simp add: s'(5))
    moreover have "pt_slot s' = (\<lambda>c' i'. if c' = ?c \<and> i' = i then Some NULL else pt_slot s c' i')"
      unfolding s'(6) table_mem ..
    ultimately show ?thesis by (intro exI) (rule conjI [OF e], simp)
  qed
qed

subsection \<open>The parts of the state that the relations read\<close>

definition core :: "mmu_state \<Rightarrow> (ptr \<rightharpoonup> MMU_PT_INFO) \<times> (ptr \<rightharpoonup> MMU_CONTEXT) \<times> (u32 \<rightharpoonup> u32 list) \<times> (ptr \<rightharpoonup> ptr \<times> nat) \<times> ptr \<times> RA_ARENA option" where
  "core s = (pt_infos s, mmu_ctxs s, mem s, areas s, pvMMUContextList s, local_arena s)"

lemma core_cong:
  assumes "core s' = core s"
  shows "table s' = table s" "frame os s' = frame os s" "pts os h s' = pts os h s" "pt_slot s' = pt_slot s"
    "mmu_struct os s' = mmu_struct os s" "mmu_inv os s' = mmu_inv os s" "heap_ok os h s' = heap_ok os h s"
    "heap_frame os h t s' = heap_frame os h t s" "hw_pte os s' = hw_pte os s" "pt_infos s' = pt_infos s"
    "mmu_ctxs s' = mmu_ctxs s"
proof -
  note c = assms [unfolded core_def prod.inject]
  show t: "table s' = table s" using c by (intro table_cong) simp_all
  show f: "frame os s' = frame os s" using t c by (intro ext) (simp add: frame_def)
  then show "pts os h s' = pts os h s" by (intro ext) (simp add: pts_def)
  show ps: "pt_slot s' = pt_slot s" using c by (intro pt_slot_cong) simp
  show st: "mmu_struct os s' = mmu_struct os s"
    using c t ps ctxs_ok_cong [of s' s os] by (simp add: mmu_struct_def tables_ok_def slots_ok_def)
  show "mmu_inv os s' = mmu_inv os s" using st ps f c by (simp add: mmu_inv_def counts_ok_def)
  show "heap_ok os h s' = heap_ok os h s" using c f t by (simp add: heap_ok_def sharers_def pde_of_def)
  show "heap_frame os h t s' = heap_frame os h t s" using c f t by (simp add: heap_frame_def)
  show "hw_pte os s' = hw_pte os s" using c by (intro ext) (simp only: hw_pte_def)
qed (use assms in \<open>simp_all add: core_def\<close>)

lemma core_simps [simp]:
  "core (s\<lparr>mmu_km := km\<rparr>) = core s" "core (s\<lparr>page_ans := pa\<rparr>) = core s" "core (s\<lparr>ui32CacheControl := cc\<rparr>) = core s"
  "core (MMU_InvalidateDirectoryCache s) = core s" "core (MMU_InvalidatePageTableCache s) = core s"
  by (simp_all add: core_def MMU_InvalidateDirectoryCache_def MMU_InvalidatePageTableCache_def)

subsection \<open>Allocating a page table\<close>

text \<open>
  What the kernel promises of the memory it hands out: objects and pages that are not in use, pages
  on page boundaries.
\<close>

definition infos_fresh :: "mmu_state \<Rightarrow> bool" where
  "infos_fresh s \<longleftrightarrow> (\<forall>p \<in> set (mmu_km s). p \<noteq> NULL \<longrightarrow> pt_infos s p = None) \<and>
     distinct (filter (\<lambda>p. p \<noteq> NULL) (mmu_km s))"

definition granted_pages :: "mmu_state \<Rightarrow> (ptr \<times> ptr) list" where
  "granted_pages s = filter (\<lambda>(v, h). h \<noteq> NULL) (page_ans s)"

definition pages_fresh :: "mmu_os \<Rightarrow> mmu_state \<Rightarrow> bool" where
  "pages_fresh os s \<longleftrightarrow>
     (\<forall>(v, h) \<in> set (granted_pages s). v \<noteq> NULL \<and> take_bit 12 (VMallocToPhys os v) = 0 \<and>
        mem s (VMallocToPhys os v) = None \<and> areas s h = None) \<and>
     distinct (map (\<lambda>(v, h). VMallocToPhys os v) (granted_pages s)) \<and> distinct (map snd (granted_pages s))"

definition mmu_fresh :: "mmu_os \<Rightarrow> mmu_state \<Rightarrow> bool" where
  "mmu_fresh os s \<longleftrightarrow> infos_fresh s \<and> pages_fresh os s"

lemma fresh_cong:
  "mmu_km s' = mmu_km s \<Longrightarrow> pt_infos s' = pt_infos s \<Longrightarrow> infos_fresh s' = infos_fresh s"
  "page_ans s' = page_ans s \<Longrightarrow> mem s' = mem s \<Longrightarrow> areas s' = areas s \<Longrightarrow> pages_fresh os s' = pages_fresh os s"
  by (simp_all add: infos_fresh_def pages_fresh_def granted_pages_def)

lemma OSAllocMem_infos:
  assumes "infos_fresh s" "OSAllocMem (mmu_km s) = (e, p, km)"
  shows "infos_fresh (s\<lparr>mmu_km := km\<rparr>)"
    and "e = PVRSRV_OK \<Longrightarrow> p \<noteq> NULL \<and> pt_infos s p = None \<and> infos_fresh (s\<lparr>mmu_km := km, pt_infos := (pt_infos s)(p \<mapsto> pi)\<rparr>)"
proof -
  show "infos_fresh (s\<lparr>mmu_km := km\<rparr>)"
    using assms by (cases "mmu_km s") (auto simp: infos_fresh_def split: if_splits)
  show "p \<noteq> NULL \<and> pt_infos s p = None \<and> infos_fresh (s\<lparr>mmu_km := km, pt_infos := (pt_infos s)(p \<mapsto> pi)\<rparr>)" if "e = PVRSRV_OK"
    using assms that by (cases "mmu_km s") (auto simp: infos_fresh_def split: if_splits)
qed

lemma alloc_pt_info_spec:
  assumes inv: "mmu_inv os s" and h: "heap_ok os h s" and fr: "mmu_fresh os s" and i: "i < 1024"
    and n: "pt_slot s (psMMUContext h) i = Some NULL"
  shows "\<exists>p s'. alloc_pt_info (psMMUContext h) i s = Some (p, s') \<and> mmu_inv os s' \<and> heap_ok os h s' \<and>
     heap_frame os h s s' \<and> pts os h s' = pts os h s \<and> mmu_fresh os s' \<and>
     (p \<noteq> NULL \<longrightarrow> pt_slot s' (psMMUContext h) i = Some p)"
proof -
  let ?c = "psMMUContext h"
  let ?z = "\<lparr>hPTPageOSMemHandle = 0, PTPageCpuVAddr = NULL, ui32ValidPTECount = 0\<rparr>"
  have st: "mmu_struct os s" "counts_ok os s" using inv by (simp_all add: mmu_inv_def)
  obtain ctx where c: "mmu_ctxs s ?c = Some ctx" using h by (auto simp: heap_ok_def)
  obtain e p km where a: "OSAllocMem (mmu_km s) = (e, p, km)" by (cases "OSAllocMem (mmu_km s)")
  note f = OSAllocMem_infos(1) [OF _ a] OSAllocMem_infos(2) [OF _ a, of ?z]
  show ?thesis
  proof (cases "e = PVRSRV_OK")
    case False
    note cc = core_cong [of "s\<lparr>mmu_km := km\<rparr>" s, simplified]
    have "mmu_fresh os (s\<lparr>mmu_km := km\<rparr>)"
      using f(1) fr fresh_cong(2) [of "s\<lparr>mmu_km := km\<rparr>" s] by (simp add: mmu_fresh_def)
    then show ?thesis using a False inv h cc heap_frame_refl by (auto simp: alloc_pt_info_def Let_def)
  next
    case True
    have p: "p \<noteq> NULL" "pt_infos s p = None" "infos_fresh (s\<lparr>mmu_km := km, pt_infos := (pt_infos s)(p \<mapsto> ?z)\<rparr>)"
      using f(2) fr True by (auto simp: mmu_fresh_def)
    define s' where "s' = s\<lparr>mmu_km := km, pt_infos := (pt_infos s)(p \<mapsto> ?z),
        mmu_ctxs := (mmu_ctxs s)(?c \<mapsto> ctx\<lparr>apsPTInfoList := (apsPTInfoList ctx)[i := p]\<rparr>)\<rparr>"
    have run: "alloc_pt_info ?c i s = Some (p, s')"
      using a True c i ctx_len [OF st(1) c] by (simp add: alloc_pt_info_def Let_def set_pt_slot_def s'_def)
    have "q \<noteq> p" if "pt_slot s c' i' = Some q" "q \<noteq> NULL" for c' i' q using slot_info [OF st(1) that] p(2) by force
    then have infos: "(c', i') \<noteq> (?c, i) \<Longrightarrow> pt_slot s c' i' = Some q \<Longrightarrow> q \<noteq> NULL \<Longrightarrow> pt_infos s' q = pt_infos s q \<and> q \<noteq> p" for c' i' q
      by (simp add: s'_def)
    have r: "mmu_struct os s'" "table s' = (table s)(PTof ?c i := None)" "frame os s' = (frame os s)(PTof ?c i := None)"
      "pt_slot s' = (\<lambda>c' i'. if c' = ?c \<and> i' = i then Some p else pt_slot s c' i')"
      using retable [of os s ?c ctx i s' p None ?z, OF st(1) c i _ _ _ infos] p st(1)
      by (simp_all add: s'_def mmu_struct_def)
    have t: "table s (PTof ?c i) = None" "frame os s (PTof ?c i) = None" using n by (simp_all add: frame_def)
    then have tf: "table s' = table s" "frame os s' = frame os s" using r(2,3) by (auto simp: fun_eq_iff)
    have "counts_ok os s'"
      by (rule counts_ok_other [OF st(2), of s' ?c i]) (use infos tf t r(4) in \<open>auto split: if_splits\<close>)
    then have "mmu_inv os s'" using r(1) by (simp add: mmu_inv_def)
    moreover have "dom (mmu_ctxs s') = dom (mmu_ctxs s)" using c by (auto simp: s'_def)
    then have "heap_ok os h s'" "heap_frame os h s s'"
      using h tf by (simp_all add: heap_ok_def heap_frame_def sharers_def pde_of_def del: table.simps)
    moreover have "pts os h s' = pts os h s" using tf by (intro ext) (simp add: pts_def)
    moreover have "mmu_fresh os s'"
      using p(3) fr fresh_cong(1) [of s' "s\<lparr>mmu_km := km, pt_infos := (pt_infos s)(p \<mapsto> ?z)\<rparr>"]
        fresh_cong(2) [of s' s] by (simp add: mmu_fresh_def s'_def)
    ultimately show ?thesis using run r(4) by auto
  qed
qed

end
