(* ===== verification/Pvr_Mmu_Alloc.thy ===== *)
theory Pvr_Mmu_Alloc
  imports Pvr_Mmu_Tables
begin

text \<open>
  Allocating page tables for a range of device addresses, and the loops that map, unmap and free
  ranges of pages.
\<close>

subsection \<open>A page for a page table\<close>

definition new_pt :: "mmu_os \<Rightarrow> MMU_HEAP \<Rightarrow> nat \<Rightarrow> ptr \<Rightarrow> mmu_state \<Rightarrow> (bool \<times> mmu_state) option" where
  "new_pt os h i p s = do {
     (r, s) \<leftarrow> alloc_pt_page os p s;
     (case r of
        None \<Rightarrow> Some (False, s)
      | Some pa \<Rightarrow> do {
          pi \<leftarrow> pt_infos s p;
          s \<leftarrow> put_frame os (PTPageCpuVAddr pi) (replicate SGX_MMU_PT_SIZE 0) s;
          (ok, s) \<leftarrow> set_pde os h i (pa OR SGX_MMU_PDE_VALID) s;
          (if ok then Some (True, MMU_InvalidateDirectoryCache s) else Some (False, s))
        })
   }"

lemma OSAllocPages_fresh:
  assumes "mmu_fresh os s" "OSAllocPages os 1 s = (ok, v, h, s')"
  shows "\<not> ok \<Longrightarrow> core s' = core s \<and> mmu_fresh os s'"
    and "ok \<Longrightarrow> v \<noteq> NULL \<and> h \<noteq> NULL \<and> take_bit 12 (VMallocToPhys os v) = 0 \<and> mem s (VMallocToPhys os v) = None \<and> areas s h = None \<and>
       mmu_km s' = mmu_km s \<and> (\<exists>r. page_ans s = (v, h) # r \<and>
       s' = s\<lparr>page_ans := r, areas := (areas s)(h \<mapsto> (v, 1)), mem := (mem s)(VMallocToPhys os v \<mapsto> raw_frame s (VMallocToPhys os v))\<rparr>)"
proof -
  show "core s' = core s \<and> mmu_fresh os s'" if "\<not> ok"
  proof (cases "page_ans s")
    case Nil
    then show ?thesis using assms by (auto simp: OSAllocPages_def)
  next
    case (Cons a r)
    then have "s' = s\<lparr>page_ans := r\<rparr>" "granted_pages s' = granted_pages s"
      using assms(2) that by (auto simp: OSAllocPages_def granted_pages_def split: prod.splits if_splits)
    moreover have "infos_fresh s' = infos_fresh s" using calculation by (intro fresh_cong) simp_all
    ultimately show ?thesis using assms(1) by (auto simp: mmu_fresh_def pages_fresh_def core_def)
  qed
next
  assume ok: ok
  then obtain r where r: "page_ans s = (v, h) # r" "h \<noteq> NULL"
    "s' = map_frames (frames_of os v 1) (s\<lparr>page_ans := r, areas := (areas s)(h \<mapsto> (v, 1))\<rparr>)"
    using assms(2) by (auto simp: OSAllocPages_def split: list.splits prod.splits if_splits)
  have "(v, h) \<in> set (granted_pages s)" using r by (simp add: granted_pages_def)
  then have "v \<noteq> NULL \<and> take_bit 12 (VMallocToPhys os v) = 0 \<and> mem s (VMallocToPhys os v) = None \<and> areas s h = None"
    using assms(1) unfolding mmu_fresh_def pages_fresh_def by blast
  then show "v \<noteq> NULL \<and> h \<noteq> NULL \<and> take_bit 12 (VMallocToPhys os v) = 0 \<and> mem s (VMallocToPhys os v) = None \<and> areas s h = None \<and>
       mmu_km s' = mmu_km s \<and> (\<exists>r. page_ans s = (v, h) # r \<and>
       s' = s\<lparr>page_ans := r, areas := (areas s)(h \<mapsto> (v, 1)), mem := (mem s)(VMallocToPhys os v \<mapsto> raw_frame s (VMallocToPhys os v))\<rparr>)"
    using r by (auto simp: map_frames_def fun_eq_iff)
qed

lemma pages_fresh_step:
  assumes "pages_fresh os s" "page_ans s = (v, h) # r" "h \<noteq> NULL" "page_ans s' = r"
    "\<And>f. f \<noteq> VMallocToPhys os v \<Longrightarrow> mem s f = None \<Longrightarrow> mem s' f = None" "areas s' = (areas s)(h \<mapsto> x)"
  shows "pages_fresh os s'"
proof -
  have g: "granted_pages s = (v, h) # granted_pages s'" using assms(2-4) by (simp add: granted_pages_def)
  have "v' \<noteq> NULL \<and> take_bit 12 (VMallocToPhys os v') = 0 \<and> mem s' (VMallocToPhys os v') = None \<and> areas s' h' = None"
    if m: "(v', h') \<in> set (granted_pages s')" for v' h'
  proof -
    have "VMallocToPhys os v' \<noteq> VMallocToPhys os v" "h' \<noteq> h"
      using assms(1) m unfolding pages_fresh_def g by (auto simp: image_iff)
    moreover have "v' \<noteq> NULL \<and> take_bit 12 (VMallocToPhys os v') = 0 \<and> mem s (VMallocToPhys os v') = None \<and> areas s h' = None"
      using assms(1) m unfolding pages_fresh_def g by auto
    ultimately show ?thesis using assms(5,6) by simp
  qed
  then show ?thesis using assms(1) unfolding pages_fresh_def g by auto
qed

lemma install_page:
  fixes r :: "(ptr \<times> ptr) list"
  assumes inv: "mmu_struct os s" and p: "pt_slot s c i = Some p" "p \<noteq> NULL" "pt_infos s p = Some pi"
    and f: "v \<noteq> NULL" "a \<noteq> NULL" "take_bit 12 (VMallocToPhys os v) = 0" "mem s (VMallocToPhys os v) = None" "areas s a = None"
  defines "s3 \<equiv> s\<lparr>page_ans := r, areas := (areas s)(a \<mapsto> (v, 1)),
      pt_infos := (pt_infos s)(p \<mapsto> pi\<lparr>PTPageCpuVAddr := v, hPTPageOSMemHandle := a\<rparr>),
      mem := (mem s)(VMallocToPhys os v \<mapsto> replicate 1024 0)\<rparr>"
  shows "mmu_struct os s3" "table s3 = (table s)(PTof c i \<mapsto> (a, v))" "pt_slot s3 = pt_slot s"
    "frame os s3 = (frame os s)(PTof c i \<mapsto> replicate 1024 0)"
proof -
  let ?f = "VMallocToPhys os v" and ?pi = "pi\<lparr>PTPageCpuVAddr := v, hPTPageOSMemHandle := a\<rparr>"
  obtain ctx where c: "mmu_ctxs s c = Some ctx" "i < 1024" using pt_slotD [OF inv p(1)] by auto
  have pc: "apsPTInfoList ctx ! i = p" using p(1) pt_slot_Some [OF inv c] by simp
  have infos: "pt_infos s3 q = pt_infos s q \<and> q \<noteq> p" if "(c', i') \<noteq> (c, i)" "pt_slot s c' i' = Some q" "q \<noteq> NULL" for c' i' q
    using that slot_inj [OF inv p(1), of c' i'] by (cases "q = p") (auto simp: s3_def)
  have ap: "VMallocToPhys os v2 \<noteq> ?f \<and> h2 \<noteq> a" if "table s k = Some (h2, v2)" for k h2 v2
    using table_frame [OF inv that] f(4,5) by (metis option.distinct(1))
  then have mems: "mem s3 (VMallocToPhys os v2) = mem s (VMallocToPhys os v2) \<and> areas s3 h2 = areas s h2"
    if "k \<noteq> PTof c i" "table s k = Some (h2, v2)" for k h2 v2 using ap [OF that(2)] by (simp add: s3_def)
  have "(apsPTInfoList ctx)[i := p] = apsPTInfoList ctx" using pc by auto
  then have cx: "mmu_ctxs s3 = (mmu_ctxs s)(c \<mapsto> ctx\<lparr>apsPTInfoList := (apsPTInfoList ctx)[i := p]\<rparr>)"
    using c by (simp add: s3_def fun_upd_idem)
  have s3: "local_arena s3 = None" "pvMMUContextList s3 = pvMMUContextList s" "pt_infos s3 p = Some ?pi"
    "areas s3 a = Some (v, 1)" "mem s3 ?f = Some (replicate 1024 0)" using inv by (simp_all add: s3_def mmu_struct_def)
  have slot: "p = NULL \<and> Some (a, v) = None \<or> p \<noteq> NULL \<and> pt_infos s3 p = Some ?pi \<and>
      (PTPageCpuVAddr ?pi = NULL \<and> hPTPageOSMemHandle ?pi = NULL \<and> ui32ValidPTECount ?pi = 0 \<and> Some (a, v) = None \<or>
       PTPageCpuVAddr ?pi \<noteq> NULL \<and> Some (a, v) = Some (hPTPageOSMemHandle ?pi, PTPageCpuVAddr ?pi))"
    using p(2) s3(3) f(1) by simp
  have new: "h' \<noteq> NULL \<and> v' \<noteq> NULL \<and> areas s3 h' = Some (v', 1) \<and> take_bit 12 (VMallocToPhys os v') = 0 \<and>
      (\<exists>fr. mem s3 (VMallocToPhys os v') = Some fr \<and> length fr = 1024) \<and>
      (\<forall>k h2 v2. k \<noteq> PTof c i \<and> table s k = Some (h2, v2) \<longrightarrow> VMallocToPhys os v2 \<noteq> VMallocToPhys os v' \<and> h2 \<noteq> h')"
    if "Some (a, v) = Some (h', v')" for h' v'
    using that f(1-3) s3(4,5) ap by auto
  note rt = retable [OF inv c s3(1,2) cx infos mems slot new]
  show "mmu_struct os s3" "table s3 = (table s)(PTof c i \<mapsto> (a, v))"
    "frame os s3 = (frame os s)(PTof c i \<mapsto> replicate 1024 0)" using rt s3(5) by simp_all
  show "pt_slot s3 = pt_slot s" using rt(3) p(1) by (auto simp: fun_eq_iff)
qed

lemma new_pt_spec:
  assumes inv: "mmu_inv os s" and h: "heap_ok os h s" and fr: "mmu_fresh os s" and i: "i \<in> heap_slots h" "i < 1024"
    and p: "pt_slot s (psMMUContext h) i = Some p" "p \<noteq> NULL" "pt_infos s p = Some pi" "PTPageCpuVAddr pi = NULL"
  shows "\<exists>ok s'. new_pt os h i p s = Some (ok, s') \<and> mmu_inv os s' \<and> heap_ok os h s' \<and> heap_frame os h s s' \<and> mmu_fresh os s' \<and>
     pts os h s' = (if ok then (pts os h s)(i \<mapsto> replicate 1024 0) else pts os h s)"
proof -
  let ?c = "psMMUContext h"
  have st: "mmu_struct os s" "counts_ok os s" and la: "local_arena s = None" using inv by (simp_all add: mmu_inv_def mmu_struct_def)
  have ht: "heap_type_ok h" using h by (simp add: heap_ok_def)
  have z: "ui32ValidPTECount pi = 0" using slot_info [OF st(1) p(1,2)] p(3,4) by auto
  obtain ok v a s1 where al: "OSAllocPages os 1 s = (ok, v, a, s1)" by (cases "OSAllocPages os 1 s")
  show ?thesis
  proof (cases ok)
    case False
    note f = OSAllocPages_fresh(1) [OF fr al False]
    have "new_pt os h i p s = Some (False, s1)" using al la False by (simp add: new_pt_def alloc_pt_page_def)
    then show ?thesis using f core_cong [of s1 s] inv h heap_frame_refl by auto
  next
    case True
    let ?f = "VMallocToPhys os v"
    obtain r where f: "v \<noteq> NULL" "a \<noteq> NULL" "take_bit 12 ?f = 0" "mem s ?f = None" "areas s a = None"
      "page_ans s = (v, a) # r" "s1 = s\<lparr>page_ans := r, areas := (areas s)(a \<mapsto> (v, 1)), mem := (mem s)(?f \<mapsto> raw_frame s ?f)\<rparr>"
      using OSAllocPages_fresh(2) [OF fr al True] by blast
    let ?pi = "pi\<lparr>PTPageCpuVAddr := v, hPTPageOSMemHandle := a\<rparr>"
    define s3 where "s3 = s\<lparr>page_ans := r, areas := (areas s)(a \<mapsto> (v, 1)), pt_infos := (pt_infos s)(p \<mapsto> ?pi),
        mem := (mem s)(?f \<mapsto> replicate 1024 0)\<rparr>"
    have run1: "new_pt os h i p s = do {
        (ok, s) \<leftarrow> set_pde os h i (?f OR SGX_MMU_PDE_VALID) s3;
        (if ok then Some (True, MMU_InvalidateDirectoryCache s) else Some (False, s)) }"
      using al la True f p(3) by (simp add: new_pt_def alloc_pt_page_def upd_pt_info_def put_frame_def get_frame_def
          s3_def pvr_defs Let_def)
    have r3: "mmu_struct os s3" "table s3 = (table s)(PTof ?c i \<mapsto> (a, v))" "pt_slot s3 = pt_slot s"
      "frame os s3 = (frame os s)(PTof ?c i \<mapsto> replicate 1024 0)"
      using install_page [OF st(1) p(1-3) f(1-5), of r, folded s3_def] by blast+
    have infos: "pt_infos s3 q = pt_infos s q" if "(c', i') \<noteq> (?c, i)" "pt_slot s c' i' = Some q" "q \<noteq> NULL" for c' i' q
      using that slot_inj [OF st(1) p(1), of c' i'] by (cases "q = p") (auto simp: s3_def)
    have d3: "dom (mmu_ctxs s3) = dom (mmu_ctxs s)" "sharers h s3 = sharers h s" by (simp_all add: s3_def sharers_def)
    obtain m where m: "set_pde os h i (?f OR SGX_MMU_PDE_VALID) s3 = Some (True, s3\<lparr>mem := m\<rparr>)" "mmu_struct os (s3\<lparr>mem := m\<rparr>)"
      "frame os (s3\<lparr>mem := m\<rparr>) = upd_pds (sharers h s) i (?f OR SGX_MMU_PDE_VALID) (frame os s3)" "dom m = dom (mem s3)"
      using set_pde_spec [OF r3(1) ht _ i(2), of "?f OR SGX_MMU_PDE_VALID"] d3 h by (auto simp: heap_ok_def)
    let ?s4 = "s3\<lparr>mem := m\<rparr>"
    have run: "new_pt os h i p s = Some (True, MMU_InvalidateDirectoryCache ?s4)" using run1 m(1) by simp
    have "counts_ok os ?s4"
      by (rule counts_ok_other [OF st(2), of ?s4 ?c i])
        (use infos r3(3,4) m(3) p z in \<open>auto simp: upd_pds_def s3_def split: if_splits\<close>)
    then have "mmu_inv os ?s4" using m(2) by (simp add: mmu_inv_def)
    moreover have pd: "pde_of os ?s4 h i = ?f OR SGX_MMU_PDE_VALID" using r3(2) by (simp add: pde_of_def del: table.simps)
    have "heap_ok os h ?s4" "heap_frame os h s ?s4" "pts os h ?s4 = (pts os h s)(i := frame os ?s4 (PTof ?c i))"
      using heap_ok_repde [OF st(1) h i, of ?s4] r3(2,4) m(3) d3(1) pd
      by (simp_all add: upd_pds_def del: table.simps split: tbl.splits)
    moreover have "frame os ?s4 (PTof ?c i) = Some (replicate 1024 0)" by (simp add: m(3) r3(4) upd_pds_def)
    moreover have "pages_fresh os ?s4"
    proof (rule pages_fresh_step [OF _ f(6,2)])
      show "mem ?s4 g = None" if "g \<noteq> ?f" "mem s g = None" for g
        using that m(4) domIff [of g m] domIff [of g "mem s3"] by (simp add: s3_def)
    qed (use fr in \<open>simp_all add: mmu_fresh_def s3_def\<close>)
    moreover have "infos_fresh ?s4" using fr p(3) by (auto simp: mmu_fresh_def infos_fresh_def s3_def)
    ultimately show ?thesis
      using run core_cong [of "MMU_InvalidateDirectoryCache ?s4" ?s4]
        fresh_cong [of "MMU_InvalidateDirectoryCache ?s4" ?s4]
      by (auto simp: mmu_fresh_def MMU_InvalidateDirectoryCache_def)
  qed
qed

subsection \<open>Page tables for a range\<close>

text \<open>
  The page tables after an allocation: those there were, and empty new ones.
\<close>

definition grown_pts :: "(nat \<rightharpoonup> u32 list) \<Rightarrow> (nat \<rightharpoonup> u32 list) \<Rightarrow> bool" where
  "grown_pts P P' \<longleftrightarrow> (\<forall>i. P' i = P i \<or> P i = None \<and> P' i = Some (replicate 1024 0))"

lemma grown_pts_refl [simp]: "grown_pts P P" by (simp add: grown_pts_def)

lemma grown_pts_trans: "grown_pts P Q \<Longrightarrow> grown_pts Q R \<Longrightarrow> grown_pts P R"
  unfolding grown_pts_def by metis

lemma grown_upd: "P i = None \<Longrightarrow> grown_pts P (P(i \<mapsto> replicate 1024 0))"
  by (simp add: grown_pts_def)

lemma grown_Some: "grown_pts P P' \<Longrightarrow> P i = Some fr \<Longrightarrow> P' i = Some fr"
  by (metis grown_pts_def option.distinct(1))

lemma alloc_pt_spec:
  assumes inv: "mmu_inv os s" and h: "heap_ok os h s" and fr: "mmu_fresh os s" and i: "i \<in> heap_slots h" "i < 1024"
  shows "\<exists>ok s'. alloc_pt os h i s = Some (ok, s') \<and> mmu_inv os s' \<and> heap_ok os h s' \<and> heap_frame os h s s' \<and> mmu_fresh os s' \<and>
     grown_pts (pts os h s) (pts os h s') \<and> (ok \<longrightarrow> pts os h s' i \<noteq> None)"
proof -
  let ?c = "psMMUContext h"
  have st: "mmu_struct os s" using inv by (simp add: mmu_inv_def)
  obtain ctx where c: "mmu_ctxs s ?c = Some ctx" using h by (auto simp: heap_ok_def)
  obtain p0 where p0: "pt_slot s ?c i = Some p0" using pt_slot_Some [OF st c i(2)] by blast
  define a where "a = (if p0 = NULL then alloc_pt_info ?c i s else Some (p0, s))"
  obtain p s1 where s1: "a = Some (p, s1)" "mmu_inv os s1" "heap_ok os h s1" "heap_frame os h s s1"
    "pts os h s1 = pts os h s" "mmu_fresh os s1" "p \<noteq> NULL \<longrightarrow> pt_slot s1 ?c i = Some p"
    using alloc_pt_info_spec [OF inv h fr i(2)] p0 inv h fr heap_frame_refl unfolding a_def
    by (cases "p0 = NULL") auto
  have run: "alloc_pt os h i s = (if p = NULL then Some (False, s1) else do {
      pi \<leftarrow> pt_infos s1 p;
      (if hPTPageOSMemHandle pi = NULL \<and> PTPageCpuVAddr pi = NULL then new_pt os h i p s1 else Some (True, s1)) })"
    using p0 s1(1) unfolding new_pt_def by (simp add: alloc_pt_def a_def)
  show ?thesis
  proof (cases "p = NULL")
    case True
    then show ?thesis using run s1 by auto
  next
    case False
    have st1: "mmu_struct os s1" and sl: "pt_slot s1 ?c i = Some p" using s1 False by (simp_all add: mmu_inv_def)
    obtain pi where pi: "pt_infos s1 p = Some pi"
      "PTPageCpuVAddr pi = NULL \<Longrightarrow> hPTPageOSMemHandle pi = NULL \<and> ui32ValidPTECount pi = 0 \<and> table s1 (PTof ?c i) = None"
      "PTPageCpuVAddr pi \<noteq> NULL \<Longrightarrow> table s1 (PTof ?c i) = Some (hPTPageOSMemHandle pi, PTPageCpuVAddr pi)"
      by (rule slot_info [OF st1 sl False]) (rule that)
    show ?thesis
    proof (cases "PTPageCpuVAddr pi = NULL")
      case True
      have n: "pts os h s1 i = None" using pi(2) True st1 by (simp add: pts_def frame_None)
      obtain ok s' where s': "new_pt os h i p s1 = Some (ok, s')" "mmu_inv os s'" "heap_ok os h s'" "heap_frame os h s1 s'"
        "mmu_fresh os s'" "pts os h s' = (if ok then (pts os h s1)(i \<mapsto> replicate 1024 0) else pts os h s1)"
        using new_pt_spec [OF s1(2,3,6) i sl False pi(1) True] by blast
      then show ?thesis
        using run False pi True heap_frame_trans [OF s1(4)] grown_upd [of "pts os h s1" i] n s1(5) by (auto split: if_splits)
    next
      case v: False
      then have "pts os h s1 i \<noteq> None" using pi(3) st1 by (simp add: pts_def frame_None del: table.simps)
      then show ?thesis using run False pi(1) v s1 by auto
    qed
  qed
qed

lemma alloc_pts_spec:
  assumes "mmu_inv os s" "heap_ok os h s" "mmu_fresh os s" "{i..<i + n} \<subseteq> heap_slots h" "i + n \<le> 1024"
  shows "\<exists>ok s'. alloc_pts os h i n s = Some (ok, s') \<and> mmu_inv os s' \<and> heap_ok os h s' \<and> heap_frame os h s s' \<and> mmu_fresh os s' \<and>
     grown_pts (pts os h s) (pts os h s') \<and> (ok \<longrightarrow> (\<forall>j \<in> {i..<i + n}. pts os h s' j \<noteq> None))"
  using assms
proof (induction n arbitrary: i s)
  case 0
  then show ?case by (auto simp: heap_frame_refl)
next
  case (Suc n)
  have i: "i \<in> heap_slots h" "i < 1024" using Suc.prems(4,5) by auto
  obtain ok s1 where s1: "alloc_pt os h i s = Some (ok, s1)" "mmu_inv os s1" "heap_ok os h s1" "heap_frame os h s s1"
    "mmu_fresh os s1" "grown_pts (pts os h s) (pts os h s1)" "ok \<longrightarrow> pts os h s1 i \<noteq> None"
    using alloc_pt_spec [OF Suc.prems(1-3) i] by blast
  show ?case
  proof (cases ok)
    case False
    then show ?thesis using s1 by auto
  next
    case True
    have "{Suc i..<Suc i + n} \<subseteq> heap_slots h" "Suc i + n \<le> 1024" using Suc.prems(4,5) by auto
    from Suc.IH [OF s1(2,3,5) this] obtain ok' s2 where s2: "alloc_pts os h (Suc i) n s1 = Some (ok', s2)" "mmu_inv os s2"
      "heap_ok os h s2" "heap_frame os h s1 s2" "mmu_fresh os s2" "grown_pts (pts os h s1) (pts os h s2)"
      "ok' \<longrightarrow> (\<forall>j \<in> {Suc i..<Suc i + n}. pts os h s2 j \<noteq> None)" by blast
    have "pts os h s2 i \<noteq> None" using s1(7) True grown_Some [OF s2(6)] by auto
    moreover have "{i..<i + Suc n} = insert i {Suc i..<Suc i + n}" by auto
    ultimately show ?thesis
      using s1 s2 True heap_frame_trans [OF s1(4) s2(4)] grown_pts_trans [OF s1(6) s2(6)] by auto
  qed
qed

end
