(* ===== verification/Pvr_Mmu_Range.thy ===== *)
theory Pvr_Mmu_Range
  imports Pvr_Mmu_Alloc
begin

text \<open>
  Ranges of pages. A device address is seen as a page number, the page tables of a heap as a
  translation from page numbers to valid entries, and the three mapping functions as one loop over
  the list of physical addresses they map.
\<close>

subsection \<open>Page numbers\<close>

definition pn :: "u32 \<Rightarrow> nat" where "pn va = unat va div 4096"

lemma index_pn: "unat (pd_index va) = pn va div 1024" "unat (pt_index va) = pn va mod 1024"
  by (simp_all add: pn_def pd_index_unat pt_index_unat div_mult2_eq [symmetric])

lemma unat_plus_page: "unat va + 4096 < 2 ^ 32 \<Longrightarrow> unat (va + SGX_MMU_PAGE_SIZE) = unat va + 4096"
  by (simp add: SGX_MMU_PAGE_SIZE_def unat_word_ariths)

lemma pn_next:
  assumes "pn va + 1 < 2 ^ 20"
  shows "pn (va + SGX_MMU_PAGE_SIZE) = pn va + 1"
proof -
  have "unat va div 4096 + 1 < 1048576" using assms by (simp add: pn_def)
  then have "unat va + 4096 < 2 ^ 32" by simp
  then show ?thesis by (simp add: pn_def unat_plus_page)
qed

definition xlate :: "(nat \<rightharpoonup> u32 list) \<Rightarrow> nat \<rightharpoonup> u32" where
  "xlate P n = (case P (n div 1024) of None \<Rightarrow> None
     | Some fr \<Rightarrow> if pte_valid (fr ! (n mod 1024)) then Some (fr ! (n mod 1024)) else None)"

text \<open>The valid entry that the device finds for an address.\<close>

definition translate :: "mmu_os \<Rightarrow> mmu_state \<Rightarrow> ptr \<Rightarrow> u32 \<rightharpoonup> u32" where
  "translate os s c va = (case hw_pte os s c va of None \<Rightarrow> None | Some x \<Rightarrow> if pte_valid x then Some x else None)"

lemma translate_xlate:
  assumes "mmu_inv os s" "heap_ok os h s" "c \<in> sharers h s" "pn va div 1024 \<in> heap_slots h"
  shows "translate os s c va = xlate (pts os h s) (pn va)"
  using hw_pte_pts [of os s h c va] assms
  by (auto simp: translate_def xlate_def index_pn mmu_inv_def split: option.splits)

lemma xlate_upd:
  assumes "P (n div 1024) = Some fr" "length fr = 1024"
  shows "xlate (P(n div 1024 \<mapsto> fr[n mod 1024 := x])) =
     (xlate P)(n := if pte_valid x then Some x else None)"
proof
  fix m
  show "xlate (P(n div 1024 \<mapsto> fr[n mod 1024 := x])) m = ((xlate P)(n := if pte_valid x then Some x else None)) m"
  proof (cases "m = n")
    case True
    then show ?thesis using assms by (simp add: xlate_def)
  next
    case False
    then have "m div 1024 = n div 1024 \<Longrightarrow> m mod 1024 \<noteq> n mod 1024" by (metis div_mod_decomp)
    then show ?thesis using False assms by (auto simp: xlate_def)
  qed
qed

lemma xlate_drop:
  assumes "\<And>fr. P i = Some fr \<Longrightarrow> valid_count fr = 0 \<and> length fr = 1024"
  shows "xlate (P(i := None)) = xlate P"
proof
  fix n
  show "xlate (P(i := None)) n = xlate P n"
    using assms valid_count_0 [of _ "n mod 1024"] by (auto simp: xlate_def split: option.splits)
qed

lemma xlate_grown: "grown_pts P P' \<Longrightarrow> xlate P' = xlate P"
proof
  fix n assume "grown_pts P P'"
  then have "P' (n div 1024) = P (n div 1024) \<or> P (n div 1024) = None \<and> P' (n div 1024) = Some (replicate 1024 0)"
    by (simp add: grown_pts_def)
  then show "xlate P' n = xlate P n" by (auto simp: xlate_def)
qed

subsection \<open>Mapping\<close>

fun map_seq :: "mmu_os \<Rightarrow> MMU_HEAP \<Rightarrow> u32 \<Rightarrow> u32 list \<Rightarrow> u32 \<Rightarrow> mmu_state \<Rightarrow> mmu_state option" where
  "map_seq os h va [] f s = Some s"
| "map_seq os h va (pa # pas) f s = do {
     s \<leftarrow> MMU_MapPage os h va pa f s;
     map_seq os h (va + SGX_MMU_PAGE_SIZE) pas f s
   }"

text \<open>The number of pages that the counter of a mapping loop has still to go through.\<close>

definition pages_left :: "u32 \<Rightarrow> u32 \<Rightarrow> nat" where
  "pages_left uDone uBytes = (unat uBytes - unat uDone + 4095) div 4096"

lemma ceil_page_step:
  assumes "0 < (d :: nat)"
  shows "(d + 4095) div 4096 = Suc ((d - 4096 + 4095) div 4096)"
proof (cases "d \<le> 4096")
  case True
  with assms have "(d + 4095) div 4096 = 1" by (intro div_nat_eqI) simp_all
  then show ?thesis using True by simp
next
  case False
  then obtain e where "d = e + 4096" by (metis add.commute le_Suc_ex nat_le_linear)
  then show ?thesis by simp
qed

lemma pages_left_step:
  assumes "unat uBytes \<le> 2 ^ 32 - 4096"
  shows "\<not> uDone < uBytes \<Longrightarrow> pages_left uDone uBytes = 0"
    and "uDone < uBytes \<Longrightarrow> pages_left uDone uBytes = Suc (pages_left (uDone + SGX_MMU_PAGE_SIZE) uBytes)"
proof -
  show "\<not> uDone < uBytes \<Longrightarrow> pages_left uDone uBytes = 0"
    by (simp add: pages_left_def word_less_nat_alt)
  assume "uDone < uBytes"
  then have l: "unat uDone < unat uBytes" by (simp add: word_less_nat_alt)
  then have "unat (uDone + SGX_MMU_PAGE_SIZE) = unat uDone + 4096" using assms by (intro unat_plus_page) simp
  then have "pages_left (uDone + SGX_MMU_PAGE_SIZE) uBytes = (unat uBytes - (unat uDone + 4096) + 4095) div 4096"
    by (simp add: pages_left_def)
  moreover have "(unat uBytes - unat uDone + 4095) div 4096 = Suc ((unat uBytes - (unat uDone + 4096) + 4095) div 4096)"
    using ceil_page_step [of "unat uBytes - unat uDone"] l by simp
  ultimately show "pages_left uDone uBytes = Suc (pages_left (uDone + SGX_MMU_PAGE_SIZE) uBytes)"
    unfolding pages_left_def by presburger
qed

lemma map_upt_Suc': "map f [0..<Suc n] = f 0 # map (\<lambda>i. f (Suc i)) [0..<n]"
  by (simp add: map_upt_Suc del: upt_Suc)

lemma map_pages_loop_seq:
  assumes "unat uBytes \<le> 2 ^ 32 - 4096"
  shows "map_pages_loop os h va pa adv uDone uBytes f s =
     map_seq os h va (map (\<lambda>i. pa + of_nat i * adv) [0..<pages_left uDone uBytes]) f s"
proof (induction "pages_left uDone uBytes" arbitrary: va pa uDone s)
  case 0
  then show ?case using pages_left_step(2) [OF assms, of uDone] by (subst map_pages_loop.simps) auto
next
  case (Suc n)
  have l: "uDone < uBytes" using Suc.hyps(2) pages_left_step(1) [OF assms, of uDone] by force
  then have n: "pages_left (uDone + SGX_MMU_PAGE_SIZE) uBytes = n" using Suc.hyps(2) pages_left_step(2) [OF assms] by simp
  have e: "map (\<lambda>i. pa + of_nat i * adv) [0..<Suc n] = pa # map (\<lambda>i. pa + adv + of_nat i * adv) [0..<n]"
    unfolding map_upt_Suc' by (simp add: algebra_simps)
  have ih: "map_pages_loop os h va' pa' adv (uDone + SGX_MMU_PAGE_SIZE) uBytes f =
      map_seq os h va' (map (\<lambda>i. pa' + of_nat i * adv) [0..<n]) f" for va' pa'
    by (rule ext) (simp only: Suc.hyps(1) [OF n [symmetric]] n)
  show ?case
    unfolding Suc.hyps(2) [symmetric] e
    by (subst map_pages_loop.simps) (simp only: l if_True map_seq.simps ih)
qed

lemma map_scatter_loop_seq:
  assumes "unat uBytes \<le> 2 ^ 32 - 4096" "i + pages_left uDone uBytes \<le> length pas"
  shows "map_scatter_loop os h va pas i uDone uBytes f s =
     map_seq os h va (take (pages_left uDone uBytes) (drop i pas)) f s"
  using assms(2)
proof (induction "pages_left uDone uBytes" arbitrary: va i uDone s)
  case 0
  then show ?case using pages_left_step(2) [OF assms(1), of uDone] by (subst map_scatter_loop.simps) auto
next
  case (Suc n)
  have l: "uDone < uBytes" using Suc.hyps(2) pages_left_step(1) [OF assms(1), of uDone] by force
  then have n: "pages_left (uDone + SGX_MMU_PAGE_SIZE) uBytes = n" using Suc.hyps(2) pages_left_step(2) [OF assms(1)] by simp
  have i: "i < length pas" "Suc i + pages_left (uDone + SGX_MMU_PAGE_SIZE) uBytes \<le> length pas"
    using Suc.prems Suc.hyps(2) n by simp_all
  then have e: "take (Suc n) (drop i pas) = pas ! i # take n (drop (Suc i) pas)" by (simp add: Cons_nth_drop_Suc [symmetric])
  have ih: "map_scatter_loop os h va' pas (Suc i) (uDone + SGX_MMU_PAGE_SIZE) uBytes f =
      map_seq os h va' (take n (drop (Suc i) pas)) f" for va'
    by (rule ext) (simp only: Suc.hyps(1) [OF n [symmetric] i(2)] n)
  show ?case
    unfolding Suc.hyps(2) [symmetric] e
    by (subst map_scatter_loop.simps) (simp add: l i ih SysSysPAddrToDevPAddr_def)
qed

definition shadow_paddr :: "mmu_os \<Rightarrow> ptr \<Rightarrow> ptr \<Rightarrow> u32 \<Rightarrow> u32" where
  "shadow_paddr os CpuVAddr hOSMemHandle off =
     (if CpuVAddr \<noteq> NULL then VMallocToPhys os (CpuVAddr + off) else LinuxMemAreaToCpuPAddr os hOSMemHandle off)"

lemma map_shadow_loop_seq:
  assumes "unat uBytes \<le> 2 ^ 32 - 4096"
  shows "map_shadow_loop os h va cv ha off adv uDone uBytes f s =
     map_seq os h va (map (\<lambda>i. shadow_paddr os cv ha (off + of_nat i * adv)) [0..<pages_left uDone uBytes]) f s"
proof (induction "pages_left uDone uBytes" arbitrary: va off uDone s)
  case 0
  then show ?case using pages_left_step(2) [OF assms, of uDone] by (subst map_shadow_loop.simps) auto
next
  case (Suc n)
  have l: "uDone < uBytes" using Suc.hyps(2) pages_left_step(1) [OF assms, of uDone] by force
  then have n: "pages_left (uDone + SGX_MMU_PAGE_SIZE) uBytes = n" using Suc.hyps(2) pages_left_step(2) [OF assms] by simp
  have e: "map (\<lambda>i. shadow_paddr os cv ha (off + of_nat i * adv)) [0..<Suc n] =
      shadow_paddr os cv ha off # map (\<lambda>i. shadow_paddr os cv ha (off + adv + of_nat i * adv)) [0..<n]"
    unfolding map_upt_Suc' by (simp add: algebra_simps)
  have p: "SysCpuPAddrToDevPAddr (if cv \<noteq> NULL then OSMapLinToCPUPhys os (cv + off) else OSMemHandleToCpuPAddr os ha off) =
      shadow_paddr os cv ha off"
    by (simp add: shadow_paddr_def SysCpuPAddrToDevPAddr_def OSMapLinToCPUPhys_def OSMemHandleToCpuPAddr_def)
  have ih: "map_shadow_loop os h va' cv ha off' adv (uDone + SGX_MMU_PAGE_SIZE) uBytes f =
      map_seq os h va' (map (\<lambda>i. shadow_paddr os cv ha (off' + of_nat i * adv)) [0..<n]) f" for va' off'
    by (rule ext) (simp only: Suc.hyps(1) [OF n [symmetric]] n)
  show ?case
    unfolding Suc.hyps(2) [symmetric] e
    by (subst map_shadow_loop.simps) (simp only: l if_True map_seq.simps Let_def p ih)
qed

text \<open>Pages of a heap that are covered by page tables.\<close>

definition covered :: "mmu_os \<Rightarrow> MMU_HEAP \<Rightarrow> mmu_state \<Rightarrow> nat set \<Rightarrow> bool" where
  "covered os h s N \<longleftrightarrow> (\<forall>n \<in> N. n div 1024 \<in> heap_slots h \<and> pts os h s (n div 1024) \<noteq> None)"

lemma map_seq_spec:
  assumes "mmu_inv os s" "heap_ok os h s" "covered os h s {pn va..<pn va + length pas}"
    "\<forall>n \<in> {pn va..<pn va + length pas}. xlate (pts os h s) n = None" "pn va + length pas \<le> 2 ^ 20"
  shows "\<exists>s'. map_seq os h va pas f s = Some s' \<and> mmu_inv os s' \<and> heap_ok os h s' \<and> heap_frame os h s s' \<and>
     dom (pts os h s') = dom (pts os h s) \<and>
     xlate (pts os h s') = (\<lambda>n. if n \<in> {pn va..<pn va + length pas} then Some (make_pte (pas ! (n - pn va)) f)
                                else xlate (pts os h s) n)"
  using assms
proof (induction pas arbitrary: va s)
  case Nil
  then show ?case by (simp add: heap_frame_refl)
next
  case (Cons pa pas)
  let ?n = "pn va"
  have n: "?n div 1024 \<in> heap_slots h" using Cons.prems(3) by (simp add: covered_def)
  have "pts os h s (?n div 1024) \<noteq> None" using Cons.prems(3) by (simp add: covered_def)
  then obtain fr where fr: "pts os h s (?n div 1024) = Some fr" by blast
  have len: "length fr = 1024" using frame_length [of os s] Cons.prems(1) fr by (auto simp: mmu_inv_def pts_def)
  have nv: "\<not> pte_valid (fr ! (?n mod 1024))"
    using bspec [OF Cons.prems(4), of ?n] fr by (simp add: xlate_def split: if_splits)
  obtain s1 where s1: "MMU_MapPage os h va pa f s = Some s1" "mmu_inv os s1" "heap_ok os h s1" "heap_frame os h s s1"
    "pts os h s1 = (pts os h s)(?n div 1024 \<mapsto> fr[?n mod 1024 := make_pte pa f])"
    using MMU_MapPage_spec [OF Cons.prems(1,2), of va fr pa f] fr n nv by (auto simp: index_pn)
  have x1: "xlate (pts os h s1) = (xlate (pts os h s))(?n \<mapsto> make_pte pa f)"
    using xlate_upd [of "pts os h s" ?n, OF fr len] s1(5) by simp
  have d1: "dom (pts os h s1) = dom (pts os h s)" using fr by (auto simp: s1(5))
  show ?case
  proof (cases "pas = []")
    case True
    then show ?thesis using s1 x1 d1 by (auto simp: fun_eq_iff)
  next
    case False
    then have nx: "pn (va + SGX_MMU_PAGE_SIZE) = ?n + 1" using Cons.prems(5) by (intro pn_next) (cases pas, auto)
    have "covered os h s1 {?n + 1..<?n + 1 + length pas}"
      using Cons.prems(3) d1 by (auto simp: covered_def domIff) 
    moreover have "\<forall>n \<in> {?n + 1..<?n + 1 + length pas}. xlate (pts os h s1) n = None" using Cons.prems(4) x1 by auto
    ultimately obtain s2 where s2: "map_seq os h (va + SGX_MMU_PAGE_SIZE) pas f s1 = Some s2" "mmu_inv os s2" "heap_ok os h s2"
      "heap_frame os h s1 s2" "dom (pts os h s2) = dom (pts os h s1)"
      "xlate (pts os h s2) = (\<lambda>n. if n \<in> {?n + 1..<?n + 1 + length pas} then Some (make_pte (pas ! (n - (?n + 1))) f)
                                else xlate (pts os h s1) n)"
      using Cons.IH [OF s1(2,3), of "va + SGX_MMU_PAGE_SIZE"] Cons.prems(5) unfolding nx by auto
    have "xlate (pts os h s2) = (\<lambda>n. if n \<in> {?n..<?n + length (pa # pas)} then Some (make_pte ((pa # pas) ! (n - ?n)) f)
                                else xlate (pts os h s) n)"
      unfolding s2(6) x1 by (auto simp: fun_eq_iff nth_Cons')
    then show ?thesis using s1 s2 d1 heap_frame_trans [OF s1(4) s2(4)] by auto
  qed
qed

subsection \<open>Unmapping\<close>

text \<open>Pages of a heap in slots that hold a page table or nothing at all.\<close>

definition filled :: "mmu_os \<Rightarrow> MMU_HEAP \<Rightarrow> mmu_state \<Rightarrow> nat set \<Rightarrow> bool" where
  "filled os h s N \<longleftrightarrow> (\<forall>n \<in> N. n div 1024 \<in> heap_slots h \<and>
     (pts os h s (n div 1024) = None \<longrightarrow> pt_slot s (psMMUContext h) (n div 1024) = Some NULL))"

lemma filled_subset: "filled os h s N \<Longrightarrow> M \<subseteq> N \<Longrightarrow> filled os h s M"
  by (auto simp: filled_def)

lemma covered_filled: "covered os h s N \<Longrightarrow> filled os h s N"
  by (auto simp: filled_def covered_def)

text \<open>A page in such a slot: either there is no page table, or one entry is cleared.\<close>

lemma unmap_page:
  assumes inv: "mmu_inv os s" and h: "heap_ok os h s" and fl: "filled os h s N" and n: "pn va \<in> N"
  obtains (none) "pt_slot s (psMMUContext h) (unat (pd_index va)) = Some NULL" "xlate (pts os h s) (pn va) = None"
  | (some) p pi fr s' pi' where "pt_slot s (psMMUContext h) (unat (pd_index va)) = Some p" "p \<noteq> NULL" "pt_infos s p = Some pi"
      "PTPageCpuVAddr pi \<noteq> NULL" "unmap_entry os p pi (unat (pt_index va)) s = Some s'" "mmu_inv os s'" "heap_ok os h s'"
      "heap_frame os h s s'" "pt_slot s' = pt_slot s" "pt_infos s' p = Some pi'"
      "pts os h s' = (pts os h s)(unat (pd_index va) \<mapsto> fr[unat (pt_index va) := 0])" "length fr = 1024"
      "unat (ui32ValidPTECount pi') = valid_count (fr[unat (pt_index va) := 0])"
      "xlate (pts os h s') = (xlate (pts os h s))(pn va := None)" "filled os h s' N"
      "pts os h s (unat (pd_index va)) = Some fr"
proof (cases "pts os h s (pn va div 1024)")
  case None
  then have "pt_slot s (psMMUContext h) (unat (pd_index va)) = Some NULL" using fl n by (auto simp: filled_def index_pn)
  then show thesis using none None by (simp add: xlate_def)
next
  case (Some fr)
  let ?i = "unat (pd_index va)" and ?j = "unat (pt_index va)"
  have fr: "pts os h s ?i = Some fr" and i: "?i \<in> heap_slots h" using Some fl n by (auto simp: filled_def index_pn)
  obtain p pi where p: "pt_slot s (psMMUContext h) ?i = Some p" "p \<noteq> NULL" "pt_infos s p = Some pi"
    "PTPageCpuVAddr pi \<noteq> NULL" "length fr = 1024" by (rule pts_slot [OF inv fr])
  obtain s' pi' where s': "unmap_entry os p pi ?j s = Some s'" "mmu_inv os s'" "heap_ok os h s'" "heap_frame os h s s'"
    "pts os h s' = (pts os h s)(?i \<mapsto> fr[?j := 0])" "pt_slot s' = pt_slot s" "pt_infos s' p = Some pi'"
    "unat (ui32ValidPTECount pi') = valid_count (fr[?j := 0])"
    using unmap_entry_spec [OF inv h fr p(1,3) i index_less(2)] by blast
  have "xlate (pts os h s') = (xlate (pts os h s))(pn va := None)"
    using xlate_upd [of "pts os h s" "pn va" fr 0] Some p(5) by (simp add: s'(5) index_pn)
  moreover have "filled os h s' N" using fl by (simp add: filled_def s'(5,6))
  ultimately show thesis using some [OF p(1-4) s'(1-4,6,7,5) p(5) s'(8)] fr by blast
qed

lemma unmap_loop_spec:
  assumes "mmu_inv os s" "heap_ok os h s" "filled os h s {pn va..<pn va + n}" "pn va + n \<le> 2 ^ 20"
  shows "\<exists>s'. unmap_loop os h va n s = Some s' \<and> mmu_inv os s' \<and> heap_ok os h s' \<and> heap_frame os h s s' \<and>
     xlate (pts os h s') = (\<lambda>m. if m \<in> {pn va..<pn va + n} then None else xlate (pts os h s) m)"
  using assms
proof (induction n arbitrary: va s)
  case 0
  then show ?case by (simp add: heap_frame_refl)
next
  case (Suc n)
  have more: "\<exists>s'. unmap_loop os h (va + SGX_MMU_PAGE_SIZE) n s1 = Some s' \<and> mmu_inv os s' \<and> heap_ok os h s' \<and> heap_frame os h s1 s' \<and>
      xlate (pts os h s') = (\<lambda>m. if m \<in> {pn va + 1..<pn va + Suc n} then None else xlate (pts os h s1) m)"
    if s1: "mmu_inv os s1" "heap_ok os h s1" "filled os h s1 {pn va..<pn va + Suc n}" for s1
  proof (cases n)
    case 0
    then show ?thesis using s1 by (simp add: heap_frame_refl)
  next
    case (Suc k)
    then have "pn (va + SGX_MMU_PAGE_SIZE) = pn va + 1" using Suc.prems(4) by (intro pn_next) simp
    moreover have "filled os h s1 {pn va + 1..<pn va + 1 + n}" by (rule filled_subset [OF s1(3)]) auto
    ultimately show ?thesis using Suc.IH [of s1 "va + SGX_MMU_PAGE_SIZE"] s1 Suc.prems(4) by simp
  qed
  have x: "(\<lambda>m. if m \<in> {pn va + 1..<pn va + Suc n} then None else ((xlate P)(pn va := None)) m) =
      (\<lambda>m. if m \<in> {pn va..<pn va + Suc n} then None else xlate P m)" for P by (auto simp: fun_eq_iff)
  have "pn va \<in> {pn va..<pn va + Suc n}" by simp
  with Suc.prems(1-3) show ?case
  proof (cases rule: unmap_page)
    case none
    have e: "(xlate (pts os h s))(pn va := None) = xlate (pts os h s)" using none(2) by auto
    show ?thesis using none(1) more [OF Suc.prems(1-3)] unfolding x [of "pts os h s", unfolded e] by simp
  next
    case (some p pi fr s1 pi')
    obtain s2 where "unmap_loop os h (va + SGX_MMU_PAGE_SIZE) n s1 = Some s2" "mmu_inv os s2" "heap_ok os h s2" "heap_frame os h s1 s2"
      "xlate (pts os h s2) = (\<lambda>m. if m \<in> {pn va + 1..<pn va + Suc n} then None else xlate (pts os h s1) m)"
      using more [OF some(6,7,15)] by blast
    moreover have "unmap_loop os h va (Suc n) s = (unmap_entry os p pi (unat (pt_index va)) s) \<bind> unmap_loop os h (va + SGX_MMU_PAGE_SIZE) n"
      using some(1-3) by (simp add: unmap_entry_def)
    ultimately show ?thesis using some(5,8,14) x heap_frame_trans by auto
  qed
qed

subsection \<open>Unmapping with release of empty page tables\<close>

lemma heap_upd [simp]:
  "heap_slots (h\<lparr>ui32PTEntryCount := n\<rparr>) = heap_slots h" "heap_slots (h\<lparr>psVMArena := a\<rparr>) = heap_slots h"
  "sharers (h\<lparr>ui32PTEntryCount := n\<rparr>) s = sharers h s" "sharers (h\<lparr>psVMArena := a\<rparr>) s = sharers h s"
  "pts os (h\<lparr>ui32PTEntryCount := n\<rparr>) s = pts os h s" "pts os (h\<lparr>psVMArena := a\<rparr>) s = pts os h s"
  "heap_ok os (h\<lparr>ui32PTEntryCount := n\<rparr>) s = heap_ok os h s" "heap_ok os (h\<lparr>psVMArena := a\<rparr>) s = heap_ok os h s"
  "heap_frame os (h\<lparr>ui32PTEntryCount := n\<rparr>) s s' = heap_frame os h s s'" "heap_frame os (h\<lparr>psVMArena := a\<rparr>) s s' = heap_frame os h s s'"
  "filled os (h\<lparr>ui32PTEntryCount := n\<rparr>) s N = filled os h s N" "filled os (h\<lparr>psVMArena := a\<rparr>) s N = filled os h s N"
  "covered os (h\<lparr>psVMArena := a\<rparr>) s N = covered os h s N"
  by (simp_all add: heap_slots_def sharers_def shared_heap_def pts_def heap_ok_def heap_type_ok_def pde_of_def
      heap_frame_def filled_def covered_def fun_eq_iff del: table.simps)

text \<open>The index arithmetic of the heap: the slot of the first page table is that of the base address.\<close>

definition heap_geom :: "MMU_HEAP \<Rightarrow> bool" where
  "heap_geom h \<longleftrightarrow> drop_bit 10 (ui32PTBaseIndex h) = pd_index (BaseDevVAddr (psDevArena h))"

lemma heap_geom_upd [simp]:
  "heap_geom (h\<lparr>ui32PTEntryCount := n\<rparr>) = heap_geom h" "heap_geom (h\<lparr>psVMArena := a\<rparr>) = heap_geom h"
  by (simp_all add: heap_geom_def)

lemma AllocPageTables_geom: "heap_geom (AllocPageTables h)"
proof -
  have m: "SGX_MMU_PD_MASK OR SGX_MMU_PT_MASK = NOT (mask 12)"
    by (simp add: SGX_MMU_PD_MASK_def SGX_MMU_PT_MASK_def mask_numeral)
  show ?thesis
    by (simp add: heap_geom_def AllocPageTables_def Let_def pd_index_def m, rule bit_word_eqI)
      (auto simp: bit_simps dest: bit_imp_le_length)
qed

lemma unmap_free_loop_spec:
  assumes "mmu_inv os s" "heap_ok os h s" "heap_geom h" "filled os h s {pn va..<pn va + n}" "pn va + n \<le> 2 ^ 20"
  shows "\<exists>k b' s'. unmap_free_loop os va n h b s = Some (h\<lparr>ui32PTEntryCount := k\<rparr>, b', s') \<and> mmu_inv os s' \<and> heap_ok os h s' \<and>
     heap_frame os h s s' \<and> dom (pts os h s') \<subseteq> dom (pts os h s) \<and>
     xlate (pts os h s') = (\<lambda>m. if m \<in> {pn va..<pn va + n} then None else xlate (pts os h s) m)"
  using assms
proof (induction n arbitrary: va s h b)
  case 0
  have "h\<lparr>ui32PTEntryCount := ui32PTEntryCount h\<rparr> = h" by simp
  then show ?case using 0 heap_frame_refl by (auto simp: fun_eq_iff intro!: exI [of _ "ui32PTEntryCount h"])
next
  case (Suc n)
  have more: "\<exists>k b' s'. unmap_free_loop os (va + SGX_MMU_PAGE_SIZE) n (h\<lparr>ui32PTEntryCount := k0\<rparr>) b1 s1 = Some (h\<lparr>ui32PTEntryCount := k\<rparr>, b', s') \<and>
      mmu_inv os s' \<and> heap_ok os h s' \<and> heap_frame os h s1 s' \<and> dom (pts os h s') \<subseteq> dom (pts os h s1) \<and>
      xlate (pts os h s') = (\<lambda>m. if m \<in> {pn va + 1..<pn va + Suc n} then None else xlate (pts os h s1) m)"
    if s1: "mmu_inv os s1" "heap_ok os h s1" "filled os h s1 {pn va..<pn va + Suc n}" for s1 b1 k0
  proof (cases n)
    case 0
    then show ?thesis using s1 by (auto simp: heap_frame_refl fun_eq_iff)
  next
    case (Suc k)
    then have "pn (va + SGX_MMU_PAGE_SIZE) = pn va + 1" using Suc.prems(5) by (intro pn_next) simp
    moreover have "filled os h s1 {pn va + 1..<pn va + 1 + n}" by (rule filled_subset [OF s1(3)]) auto
    ultimately show ?thesis
      using Suc.IH [of s1 "h\<lparr>ui32PTEntryCount := k0\<rparr>" "va + SGX_MMU_PAGE_SIZE" b1] s1 Suc.prems(3,5)
      by (simp cong: if_cong)
  qed
  have same: "h\<lparr>ui32PTEntryCount := ui32PTEntryCount h\<rparr> = h" by simp
  have x: "(\<lambda>m. if m \<in> {pn va + 1..<pn va + Suc n} then None else ((xlate P)(pn va := None)) m) =
      (\<lambda>m. if m \<in> {pn va..<pn va + Suc n} then None else xlate P m)" for P by (auto simp: fun_eq_iff)
  have "pn va \<in> {pn va..<pn va + Suc n}" by simp
  with Suc.prems(1,2,4) show ?case
  proof (cases rule: unmap_page)
    case none
    have e: "(xlate (pts os h s))(pn va := None) = xlate (pts os h s)" using none(2) by auto
    show ?thesis using none(1) more [OF Suc.prems(1,2,4), of "ui32PTEntryCount h" b] unfolding x [of "pts os h s", unfolded e] same by simp
  next
    case (some p pi fr s1 pi')
    let ?i = "unat (pd_index va)"
    have run: "unmap_free_loop os va (Suc n) h b s =
      (if ui32ValidPTECount pi' = 0 then do {
         (h', s) \<leftarrow> DeferredFreePageTable os h (pd_index va - drop_bit 10 (ui32PTBaseIndex h)) s1;
         unmap_free_loop os (va + SGX_MMU_PAGE_SIZE) n h' True s }
       else unmap_free_loop os (va + SGX_MMU_PAGE_SIZE) n h b s1)"
      using some(1-5,10) by (auto simp: unmap_entry_def bind_eq_Some_conv)
    have d1: "dom (pts os h s1) \<subseteq> dom (pts os h s)" using some(11,16) by auto
    show ?thesis
    proof (cases "ui32ValidPTECount pi' = 0")
      case False
      obtain k b' s' where s': "unmap_free_loop os (va + SGX_MMU_PAGE_SIZE) n h b s1 = Some (h\<lparr>ui32PTEntryCount := k\<rparr>, b', s')"
        "mmu_inv os s'" "heap_ok os h s'" "heap_frame os h s1 s'" "dom (pts os h s') \<subseteq> dom (pts os h s1)"
        "xlate (pts os h s') = (\<lambda>m. if m \<in> {pn va + 1..<pn va + Suc n} then None else xlate (pts os h s1) m)"
        using more [OF some(6,7,15), of "ui32PTEntryCount h" b] unfolding same by blast
      then show ?thesis unfolding run using False d1 s'(6) [unfolded some(14) x] heap_frame_trans [OF some(8) s'(4)] by auto
    next
      case True
      have i: "?i = unat (pd_index (BaseDevVAddr (psDevArena h)) + (pd_index va - drop_bit 10 (ui32PTBaseIndex h)))" "?i \<in> heap_slots h"
        using Suc.prems(3,4) by (simp_all add: heap_geom_def filled_def index_pn)
      obtain k s2 where s2: "DeferredFreePageTable os h (pd_index va - drop_bit 10 (ui32PTBaseIndex h)) s1 = Some (h\<lparr>ui32PTEntryCount := k\<rparr>, s2)"
        "mmu_inv os s2" "heap_ok os h s2" "heap_frame os h s1 s2" "pts os h s2 = (pts os h s1)(?i := None)"
        "pt_slot s2 = (\<lambda>c' i'. if c' = psMMUContext h \<and> i' = ?i then Some NULL else pt_slot s1 c' i')"
        using DeferredFreePageTable_spec [OF some(6,7) i index_less(1)] by blast
      have x2: "xlate (pts os h s2) = (xlate (pts os h s))(pn va := None)"
        unfolding s2(5) some(14) [symmetric] by (rule xlate_drop) (use True some(11-13) in auto)
      have f2: "filled os h s2 {pn va..<pn va + Suc n}"
        using some(15) s2(5,6) by (auto simp: filled_def)
      obtain k' b' s' where s': "unmap_free_loop os (va + SGX_MMU_PAGE_SIZE) n (h\<lparr>ui32PTEntryCount := k\<rparr>) True s2 = Some (h\<lparr>ui32PTEntryCount := k'\<rparr>, b', s')"
        "mmu_inv os s'" "heap_ok os h s'" "heap_frame os h s2 s'" "dom (pts os h s') \<subseteq> dom (pts os h s2)"
        "xlate (pts os h s') = (\<lambda>m. if m \<in> {pn va + 1..<pn va + Suc n} then None else ((xlate (pts os h s))(pn va := None)) m)"
        using more [OF s2(2,3) f2, of k True] unfolding x2 by blast
      have "dom (pts os h s2) \<subseteq> dom (pts os h s1)" by (auto simp: s2(5))
      then have "dom (pts os h s') \<subseteq> dom (pts os h s)" using s'(5) d1 by (meson subset_trans)
      then show ?thesis
        unfolding run using True s2(1) s'(1-3) s'(6) [unfolded x] heap_frame_trans [OF heap_frame_trans [OF some(8) s2(4)] s'(4)]
        by (auto intro!: exI [of _ k'])
    qed
  qed
qed

end
