(* ===== verification/Pvr_Mmu_Sys.thy ===== *)
theory Pvr_Mmu_Sys
  imports Pvr_Mmu_Range
begin

text \<open>
  The heaps of a device together. A heap is reached by its pointer; the page directory slots of two
  heaps are apart unless they are private to different contexts. What one operation on one heap
  keeps of all the others is proved once here, as is which slots \<open>pt_count\<close> covers.
\<close>

subsection \<open>The system of heaps\<close>

type_synonym mmu_heaps = "ptr \<rightharpoonup> MMU_HEAP"

definition mmu_system :: "mmu_os \<Rightarrow> mmu_heaps \<Rightarrow> mmu_state \<Rightarrow> bool" where
  "mmu_system os H s \<longleftrightarrow> mmu_inv os s \<and>
     (\<forall>p h. H p = Some h \<longrightarrow> heap_ok os h s \<and> heap_geom h) \<and>
     (\<forall>p q h h'. p \<noteq> q \<longrightarrow> H p = Some h \<longrightarrow> H q = Some h' \<longrightarrow> apart h h')"

text \<open>An address in a page directory slot of a heap.\<close>

definition va_of :: "MMU_HEAP \<Rightarrow> u32 \<Rightarrow> bool" where
  "va_of h va \<longleftrightarrow> pn va div 1024 \<in> heap_slots h"

text \<open>A non-empty range of bytes inside a heap, and the pages it touches.\<close>

definition in_heap :: "MMU_HEAP \<Rightarrow> u32 \<Rightarrow> u32 \<Rightarrow> bool" where
  "in_heap h va n \<longleftrightarrow> (let d = psDevArena h in n \<noteq> 0 \<and> unat (BaseDevVAddr d) \<le> unat va \<and>
     unat va + unat n \<le> unat (BaseDevVAddr d) + unat (da_ui32Size d) \<and>
     unat (BaseDevVAddr d) + unat (da_ui32Size d) \<le> 2 ^ 32)"

definition page_range :: "u32 \<Rightarrow> nat \<Rightarrow> nat set" where
  "page_range va k = {pn va..<pn va + k}"

text \<open>The heap fields that the operations change do not matter to the other heaps.\<close>

definition same_heap :: "MMU_HEAP \<Rightarrow> MMU_HEAP \<Rightarrow> bool" where
  "same_heap h h' \<longleftrightarrow> (\<exists>n a. h' = h\<lparr>ui32PTEntryCount := n, psVMArena := a\<rparr>)"

lemma same_heap_refl [simp]: "same_heap h h"
proof -
  have "h = h\<lparr>ui32PTEntryCount := ui32PTEntryCount h, psVMArena := psVMArena h\<rparr>" by simp
  then show ?thesis unfolding same_heap_def by blast
qed

lemma same_heap_upd [simp]: "same_heap h (h\<lparr>ui32PTEntryCount := n\<rparr>)" "same_heap h (h\<lparr>psVMArena := a\<rparr>)"
proof -
  have "h\<lparr>ui32PTEntryCount := n\<rparr> = h\<lparr>ui32PTEntryCount := n, psVMArena := psVMArena h\<rparr>"
    "h\<lparr>psVMArena := a\<rparr> = h\<lparr>ui32PTEntryCount := ui32PTEntryCount h, psVMArena := a\<rparr>" by simp_all
  then show "same_heap h (h\<lparr>ui32PTEntryCount := n\<rparr>)" "same_heap h (h\<lparr>psVMArena := a\<rparr>)" unfolding same_heap_def by blast+
qed

lemma same_heap_trans: "same_heap h h' \<Longrightarrow> same_heap h' h'' \<Longrightarrow> same_heap h h''"
  unfolding same_heap_def by force

lemma same_heapD:
  assumes "same_heap h h'"
  shows "heap_slots h' = heap_slots h" "sharers h' s = sharers h s" "pts os h' s = pts os h s" "heap_ok os h' s = heap_ok os h s"
    "heap_frame os h' s s' = heap_frame os h s s'" "heap_geom h' = heap_geom h" "psMMUContext h' = psMMUContext h"
    "shared_heap h' = shared_heap h" "psDevArena h' = psDevArena h" "filled os h' s N = filled os h s N"
    "covered os h' s N = covered os h s N"
  using assms by (auto simp: same_heap_def shared_heap_def covered_def)

lemma apart_sym: "apart h h' = apart h' h" by (auto simp: apart_def)

lemma same_heap_apart: "same_heap h h' \<Longrightarrow> apart h' g = apart h g"
  by (simp add: apart_def same_heapD)

lemma mmu_systemD:
  assumes "mmu_system os H s"
  shows "mmu_inv os s" "H p = Some h \<Longrightarrow> heap_ok os h s" "H p = Some h \<Longrightarrow> heap_geom h"
    "H p = Some h \<Longrightarrow> H q = Some h' \<Longrightarrow> p \<noteq> q \<Longrightarrow> apart h h'"
  using assms unfolding mmu_system_def by blast+

lemma mmu_system_step:
  assumes sys: "mmu_system os H s" and h: "H p = Some h" and sh: "same_heap h h'"
    and s': "mmu_inv os s'" "heap_ok os h s'" "heap_frame os h s s'"
  shows "mmu_system os (H(p \<mapsto> h')) s'" "\<And>g. sharers g s' = sharers g s"
    and "\<And>q g c va. H q = Some g \<Longrightarrow> q \<noteq> p \<Longrightarrow> c \<in> sharers g s \<Longrightarrow> va_of g va \<Longrightarrow> translate os s' c va = translate os s c va"
proof -
  show shr: "sharers g s' = sharers g s" for g using s'(3) by (simp add: sharers_def heap_frame_def)
  have ok: "heap_ok os g s'" "heap_geom g" "apart h g" if "H q = Some g" "q \<noteq> p" for q g
    using heap_frame_apart(1) [OF s'(3), of g] mmu_systemD [OF sys] that h by blast+
  have h'ok: "heap_ok os h' s'" "heap_geom h'" using s'(2) sh mmu_systemD(3) [OF sys h] by (simp_all add: same_heapD)
  have "apart a b" if ab: "q \<noteq> r" "(H(p \<mapsto> h')) q = Some a" "(H(p \<mapsto> h')) r = Some b" for q r a b
  proof -
    have p1: "apart h' g" if "H r' = Some g" "r' \<noteq> p" for r' g using ok(3) [OF that] same_heap_apart [OF sh] by simp
    show ?thesis
    proof (cases "q = p \<or> r = p")
      case True
      then show ?thesis using p1 [of r b] p1 [of q a] ab apart_sym [of a b] by (auto split: if_splits)
    next
      case False
      then show ?thesis using mmu_systemD(4) [OF sys _ _ ab(1)] ab(2,3) by simp
    qed
  qed
  then show "mmu_system os (H(p \<mapsto> h')) s'"
    using s'(1) ok h'ok unfolding mmu_system_def by (simp split: if_splits)
  show "translate os s' c va = translate os s c va"
    if "H q = Some g" "q \<noteq> p" "c \<in> sharers g s" "va_of g va" for q g c va
  proof -
    have "pts os g s' i = pts os g s i" if "i \<in> heap_slots g" for i
      using heap_frame_apart(2) [OF s'(3) ok(3) _ that] \<open>H q = Some g\<close> \<open>q \<noteq> p\<close> mmu_systemD(2) [OF sys] by blast
    then have "xlate (pts os g s') (pn va) = xlate (pts os g s) (pn va)" using that(4) by (simp add: xlate_def va_of_def)
    moreover have "translate os s' c va = xlate (pts os g s') (pn va)"
      by (rule translate_xlate) (use s'(1) ok(1) that shr in \<open>auto simp: va_of_def\<close>)
    moreover have "translate os s c va = xlate (pts os g s) (pn va)"
      by (rule translate_xlate) (use mmu_systemD [OF sys] that in \<open>auto simp: va_of_def\<close>)
    ultimately show ?thesis by simp
  qed
qed

text \<open>The same, with the translations of the heap itself as a function of the page number.\<close>

lemma mmu_system_update:
  assumes sys: "mmu_system os H s" and h: "H p = Some h" and sh: "same_heap h h'"
    and s': "mmu_inv os s'" "heap_ok os h s'" "heap_frame os h s s'"
    and x: "\<And>n. xlate (pts os h s') n = (if n \<in> N then f n else xlate (pts os h s) n)"
  shows "mmu_system os (H(p \<mapsto> h')) s' \<and> dom (mmu_ctxs s') = dom (mmu_ctxs s) \<and>
     (\<forall>q g c va. H q = Some g \<longrightarrow> c \<in> sharers g s \<longrightarrow> va_of g va \<longrightarrow>
        translate os s' c va = (if q = p \<and> pn va \<in> N then f (pn va) else translate os s c va))"
proof (intro conjI allI impI)
  note st = mmu_system_step [OF sys h sh s']
  show "mmu_system os (H(p \<mapsto> h')) s'" by (rule st(1))
  show "dom (mmu_ctxs s') = dom (mmu_ctxs s)" using s'(3) by (simp add: heap_frame_def)
  fix q g c va assume g: "H q = Some g" "c \<in> sharers g s" "va_of g va"
  show "translate os s' c va = (if q = p \<and> pn va \<in> N then f (pn va) else translate os s c va)"
  proof (cases "q = p")
    case True
    then have "g = h" using g h by simp
    then have "translate os s c va = xlate (pts os h s) (pn va)" "translate os s' c va = xlate (pts os h s') (pn va)"
      using translate_xlate [of os s h c va] translate_xlate [of os s' h c va] mmu_systemD [OF sys] g h s' st(2) by (auto simp: va_of_def)
    then show ?thesis using x True by simp
  next
    case False
    then show ?thesis using st(3) g by simp
  qed
qed

subsection \<open>Ranges\<close>

lemma pages_left_0: "pages_left 0 n = (unat n + 4095) div 4096" by (simp add: pages_left_def)

lemma pages_end:
  assumes "0 < unat n"
  shows "pn va + (unat n + 4095) div 4096 \<le> (unat va + unat n - 1) div 4096 + 1"
proof -
  obtain m where m: "unat n = Suc m" using assms by (metis Suc_pred)
  have "(unat n + 4095) div 4096 = m div 4096 + 1" by (simp add: m)
  moreover have "unat va div 4096 + m div 4096 \<le> (unat va + m) div 4096" using div_add1_eq [of "unat va" m 4096] by simp
  ultimately show ?thesis by (simp add: pn_def m)
qed

lemma in_heap_slots:
  assumes "in_heap h va n" "unat va div 4096 \<le> m" "m \<le> (unat va + unat n - 1) div 4096"
  shows "m div 1024 \<in> heap_slots h" "m < 2 ^ 20"
proof -
  let ?b = "unat (BaseDevVAddr (psDevArena h))" and ?e = "unat (BaseDevVAddr (psDevArena h)) + unat (da_ui32Size (psDevArena h))"
  have r: "?b \<le> unat va" "unat va + unat n \<le> ?e" "?e \<le> 2 ^ 32" "0 < unat n"
    using assms(1) by (auto simp: in_heap_def Let_def unat_gt_0)
  have "?b div 4096 \<le> m" using r(1) assms(2) div_le_mono le_trans by blast
  moreover have "(unat va + unat n - 1) div 4096 \<le> (?e - 1) div 4096" using r(2) by (intro div_le_mono) simp
  ultimately have m: "?b div 4096 \<le> m" "m \<le> (?e - 1) div 4096" using assms(3) by simp_all
  have "?b div 4096 div 1024 \<le> m div 1024" "m div 1024 \<le> (?e - 1) div 4096 div 1024" using m by (auto intro: div_le_mono)
  then show "m div 1024 \<in> heap_slots h" by (simp add: heap_slots_def Let_def div_mult2_eq [symmetric])
  have "(?e - 1) div 4096 < 2 ^ 20" using r(3,4) by simp
  then show "m < 2 ^ 20" using m by simp
qed

lemma page_range_heap:
  assumes "in_heap h va n" "m \<in> page_range va (pages_left 0 n)"
  shows "m div 1024 \<in> heap_slots h"
proof -
  have "0 < unat n" using assms(1) by (simp add: in_heap_def Let_def unat_gt_0)
  then show ?thesis
    using in_heap_slots(1) [OF assms(1), of m] assms(2) pages_end [of n va] by (simp add: page_range_def pages_left_0 pn_def)
qed

lemma page_range_end:
  assumes "in_heap h va n"
  shows "pn va + pages_left 0 n \<le> 2 ^ 20"
proof -
  have n: "0 < unat n" using assms by (simp add: in_heap_def Let_def unat_gt_0)
  have "unat va div 4096 \<le> (unat va + unat n - 1) div 4096" using n by (intro div_le_mono) simp
  then have "(unat va + unat n - 1) div 4096 < 2 ^ 20" by (rule in_heap_slots(2) [OF assms]) simp
  then show ?thesis using pages_end [OF n, of va] by (simp add: pages_left_0)
qed

text \<open>
  \<open>pt_count\<close> is the number of page directory slots that a range touches, unless the range reaches
  into the last 4 MB of the address space.
\<close>

lemma pd_index_diff:
  assumes "unat a \<le> unat b"
  shows "unat (pd_index b - pd_index a) = unat b div 2 ^ 22 - unat a div 2 ^ 22"
proof -
  have "pd_index a \<le> pd_index b" using assms by (simp add: word_le_nat_alt pd_index_unat div_le_mono)
  then show ?thesis by (simp add: unat_sub pd_index_unat)
qed

lemma unat_max: "unat (a :: u32) \<le> 0xFFFFFFFF"
  using unsigned_less [of a, where ?'a = nat] by simp

lemma unat_top: "unat (0xFFFFFFFF - a) = 2 ^ 32 - 1 - unat (a :: u32)"
proof -
  have "a \<le> 0xFFFFFFFF" using unat_max [of a] by (simp add: word_le_nat_alt)
  then show ?thesis by (simp add: unat_sub)
qed

lemma pt_count_slots:
  assumes "unat a + unat n \<le> 2 ^ 32 - 2 ^ 22" "n \<noteq> 0"
  shows "unat (pt_count a n) = (unat a + unat n - 1) div 2 ^ 22 + 1 - unat a div 2 ^ 22"
proof -
  have n: "0 < unat n" using assms(2) by (simp add: unat_gt_0)
  have u: "unat (n + push_bit 22 1 - 1) = unat n + 2 ^ 22 - 1"
    using assms n by (simp add: unat_word_ariths unat_sub_if')
  have v: "unat (a + n + push_bit 22 1 - 1) = unat a + unat n + 2 ^ 22 - 1"
    using assms n by (simp add: unat_word_ariths unat_sub_if')
  have w: "unat (0xFFFFFFFF - a) = 2 ^ 32 - 1 - unat a" by (rule unat_top)
  have "\<not> 0xFFFFFFFF - a < n + push_bit 22 1 - 1" using assms u w by (simp add: word_less_nat_alt)
  then have "unat (pt_count a n) = unat (pd_index (a + n + push_bit 22 1 - 1) - pd_index a)" by (simp add: pt_count_def)
  also have "\<dots> = (unat a + unat n + 2 ^ 22 - 1) div 2 ^ 22 - unat a div 2 ^ 22"
    using pd_index_diff [of a "a + n + push_bit 22 1 - 1"] n unfolding v by simp
  also have "unat a + unat n + 2 ^ 22 - 1 = (unat a + unat n - 1) + 2 ^ 22" using n by simp
  also have "(unat a + unat n - 1 + 2 ^ 22) div 2 ^ 22 = (unat a + unat n - 1) div 2 ^ 22 + 1" by (rule div_add_self2) simp
  finally show ?thesis .
qed

lemma pt_count_top:
  assumes "2 ^ 32 - 2 ^ 22 < unat a + unat n" "unat a + unat n \<le> 2 ^ 32" "n \<noteq> 0" "unat n \<le> 2 ^ 32 - 2 ^ 22"
  shows "unat (pd_index a) + unat (pt_count a n) = 1023"
proof -
  have n: "0 < unat n" using assms(3) by (simp add: unat_gt_0)
  then have u: "unat (n + push_bit 22 1 - 1) = unat n + 2 ^ 22 - 1"
    using assms(4) by (simp add: unat_word_ariths unat_sub_if')
  have "0xFFFFFFFF - a < n + push_bit 22 1 - 1" using assms n u unat_top [of a] by (simp add: word_less_nat_alt)
  then have c: "pt_count a n = pd_index 0xFFFFFFFF - pd_index a" by (simp add: pt_count_def)
  have m: "unat a \<le> unat (0xFFFFFFFF :: u32)" using unat_max [of a] by simp
  have "unat a div 2 ^ 22 \<le> unat (0xFFFFFFFF :: u32) div 2 ^ 22" using m by (rule div_le_mono)
  then show ?thesis by (simp add: c pd_index_diff [OF m] pd_index_unat)
qed

subsection \<open>Operations on a heap of the system\<close>

lemma pn_of_nat: "m < 2 ^ 20 \<Longrightarrow> pn (of_nat (m * 4096)) = m"
  by (simp add: pn_def unat_of_nat del: of_nat_mult)

lemma context_sharer: "mmu_system os H s \<Longrightarrow> H p = Some h \<Longrightarrow> psMMUContext h \<in> sharers h s"
  using mmu_systemD(2) [of os H s p h] by (auto simp: sharers_def heap_ok_def)

lemma untranslated:
  assumes "mmu_system os H s" "H p = Some h" "\<forall>va'. pn va' \<in> N \<longrightarrow> translate os s (psMMUContext h) va' = None"
    and m: "m \<in> N" "m div 1024 \<in> heap_slots h" "m < 2 ^ 20"
  shows "xlate (pts os h s) m = None"
  using translate_xlate [OF mmu_systemD(1,2) [OF assms(1)] context_sharer [OF assms(1,2)], of p "of_nat (m * 4096)"] assms
  by (simp add: pn_of_nat del: of_nat_mult)

lemma map_seq_system:
  assumes sys: "mmu_system os H s" and h: "H p = Some h" and n: "in_heap h va n" and l: "length pas = pages_left 0 n"
    and cov: "covered os h s (page_range va (pages_left 0 n))"
    and un: "\<forall>va'. pn va' \<in> page_range va (pages_left 0 n) \<longrightarrow> translate os s (psMMUContext h) va' = None"
  shows "\<exists>s'. map_seq os h va pas f s = Some s' \<and> mmu_system os H s' \<and> dom (mmu_ctxs s') = dom (mmu_ctxs s) \<and>
     (\<forall>q g c va'. H q = Some g \<longrightarrow> c \<in> sharers g s \<longrightarrow> va_of g va' \<longrightarrow> translate os s' c va' =
        (if q = p \<and> pn va' \<in> page_range va (pages_left 0 n) then Some (make_pte (pas ! (pn va' - pn va)) f)
         else translate os s c va'))"
proof -
  let ?N = "page_range va (pages_left 0 n)"
  have "xlate (pts os h s) m = None" if "m \<in> ?N" for m
    using untranslated [OF sys h un that page_range_heap [OF n that]] page_range_end [OF n] that by (simp add: page_range_def)
  then obtain s' where s': "map_seq os h va pas f s = Some s'" "mmu_inv os s'" "heap_ok os h s'" "heap_frame os h s s'"
    "xlate (pts os h s') = (\<lambda>m. if m \<in> ?N then Some (make_pte (pas ! (m - pn va)) f) else xlate (pts os h s) m)"
    using map_seq_spec [OF mmu_systemD(1,2) [OF sys], of p h va pas f] h cov page_range_end [OF n] unfolding l page_range_def by blast
  have "H(p \<mapsto> h) = H" using h by (rule fun_upd_idem)
  then show ?thesis
    using mmu_system_update [OF sys h same_heap_refl s'(2-4), of ?N "\<lambda>m. Some (make_pte (pas ! (m - pn va)) f)"] s'(1,5) by auto
qed

lemma DeferredAllocPagetables_system:
  assumes sys: "mmu_system os H s" and h: "H p = Some h" and n: "in_heap h va n" and fr: "mmu_fresh os s"
    and top: "unat va + unat n \<le> 2 ^ 32 - 2 ^ 22"
  shows "\<exists>ok s'. DeferredAllocPagetables os h va n s = Some (ok, s') \<and> mmu_system os H s' \<and> mmu_fresh os s' \<and>
     dom (mmu_ctxs s') = dom (mmu_ctxs s) \<and> (ok \<longrightarrow> covered os h s' (page_range va (pages_left 0 n))) \<and>
     (\<forall>q g c va'. H q = Some g \<longrightarrow> c \<in> sharers g s \<longrightarrow> va_of g va' \<longrightarrow> translate os s' c va' = translate os s c va')"
proof -
  let ?i = "unat va div 2 ^ 22" and ?k = "unat (pt_count va n)"
  have n0: "n \<noteq> 0" "0 < unat n" using n by (simp_all add: in_heap_def Let_def unat_gt_0)
  have le: "?i \<le> (unat va + unat n - 1) div 2 ^ 22" using n0 by (intro div_le_mono) simp
  then have k: "?i + ?k = (unat va + unat n - 1) div 2 ^ 22 + 1" using pt_count_slots [OF top n0(1)] by simp
  have sl: "j \<in> heap_slots h" if "j \<in> {?i..<?i + ?k}" for j
  proof -
    let ?e = "unat (BaseDevVAddr (psDevArena h)) + unat (da_ui32Size (psDevArena h))"
    have "unat (BaseDevVAddr (psDevArena h)) div 2 ^ 22 \<le> ?i" "(unat va + unat n - 1) div 2 ^ 22 \<le> (?e - 1) div 2 ^ 22"
      using n by (auto simp: in_heap_def Let_def intro!: div_le_mono)
    then show ?thesis using that k by (simp add: heap_slots_def Let_def)
  qed
  have "(unat va + unat n - 1) div 2 ^ 22 < 1023" using top n0 by simp
  then have e: "?i + ?k \<le> 1024" using k by simp
  obtain ok s' where s': "alloc_pts os h ?i ?k s = Some (ok, s')" "mmu_inv os s'" "heap_ok os h s'" "heap_frame os h s s'"
    "mmu_fresh os s'" "grown_pts (pts os h s) (pts os h s')" "ok \<longrightarrow> (\<forall>j \<in> {?i..<?i + ?k}. pts os h s' j \<noteq> None)"
    using alloc_pts_spec [OF mmu_systemD(1,2) [OF sys] fr, of p h ?i ?k] h sl e by blast
  have run: "DeferredAllocPagetables os h va n s = Some (ok, s')" using s'(1) by (simp add: DeferredAllocPagetables_def pd_index_unat)
  have "covered os h s' (page_range va (pages_left 0 n))" if ok
    unfolding covered_def
  proof (intro ballI conjI)
    fix m assume m: "m \<in> page_range va (pages_left 0 n)"
    show "m div 1024 \<in> heap_slots h" by (rule page_range_heap [OF n m])
    have "unat va div 4096 \<le> m" "m \<le> (unat va + unat n - 1) div 4096"
      using m pages_end [OF n0(2), of va] by (auto simp: page_range_def pages_left_0 pn_def)
    then have "unat va div 4096 div 1024 \<le> m div 1024" "m div 1024 \<le> (unat va + unat n - 1) div 4096 div 1024"
      by (auto intro: div_le_mono)
    then have "m div 1024 \<in> {?i..<?i + ?k}" unfolding k by (simp add: div_mult2_eq [symmetric])
    then show "pts os h s' (m div 1024) \<noteq> None" using s'(7) that by blast
  qed
  moreover have "H(p \<mapsto> h) = H" using h by (rule fun_upd_idem)
  ultimately show ?thesis
    using mmu_system_update [OF sys h same_heap_refl s'(2-4), of "{}"] xlate_grown [OF s'(6)] s'(5) run by auto
qed

end
