(* ===== verification/Pvr_Ra_Backing.thy ===== *)
theory Pvr_Ra_Backing
  imports Pvr_Ra_Thms
begin

text \<open>
  The calls an arena makes to its owner when a block is freed. An arena that has only its initial
  resource, as the virtual address arenas of the MMU do, holds no span markers and never releases
  an import; a block that lies on quantum boundaries is reported to the backing store function as it is.
\<close>

subsection \<open>Span markers\<close>

definition spans :: "RA_ARENA \<Rightarrow> ptr set" where
  "spans a = {p. \<exists>b. bts a p = Some b \<and> bt_typ b = btt_span}"

lemma spans_stat [simp]: "spans (stat f a) = spans a" by (simp add: spans_def)

lemma spans_upd [simp]:
  "spans (a\<lparr>pHeadSegment := p\<rparr>) = spans a" "spans (a\<lparr>pTailSegment := p\<rparr>) = spans a" "spans (a\<lparr>aHeadFree := l\<rparr>) = spans a"
  "spans (a\<lparr>pSegmentHash := h\<rparr>) = spans a" "spans (a\<lparr>ra_calls := cs\<rparr>) = spans a"
  by (simp_all add: spans_def)

lemma upd_bt_Some: "upd_bt p f a = Some a' \<longleftrightarrow> (\<exists>b. bts a p = Some b \<and> a' = a\<lparr>bts := (bts a)(p \<mapsto> f b)\<rparr>)"
  by (auto simp: upd_bt_def split: option.splits)

lemma upd_bt_spans:
  assumes "upd_bt p f a = Some a'" "\<And>b. bt_typ (f b) = bt_typ b"
  shows "spans a' = spans a"
  using assms by (auto simp: upd_bt_Some spans_def split: if_splits)

lemma upd_bt_free_spans:
  assumes "upd_bt p f a = Some a'" "\<And>b. bt_typ (f b) \<noteq> btt_span"
  shows "spans a' = spans a - {p}"
  using assms by (auto simp: upd_bt_Some spans_def split: if_splits)

lemma free_bt_spans: "free_bt p a = Some a' \<Longrightarrow> spans a' \<subseteq> spans a"
  by (auto simp: free_bt_def spans_def split: option.splits if_splits)

lemma FreeListInsert_spans:
  assumes "FreeListInsert a p = Some a'"
  shows "spans a' = spans a - {p}"
proof -
  obtain bt :: BT and a1 a2 q l where b: "upd_bt p (\<lambda>x. x\<lparr>bt_typ := btt_free, pNextFree := q, pPrevFree := NULL\<rparr>) a = Some a1"
    "(if q \<noteq> NULL then upd_bt q (\<lambda>b. b\<lparr>pPrevFree := p\<rparr>) a1 else Some a1) = Some a2" "a' = a2\<lparr>aHeadFree := l\<rparr>"
    using assms unfolding FreeListInsert_def Let_def bind_eq_Some_conv option.inject by blast
  have "spans a1 = spans a - {p}" using b(1) by (rule upd_bt_free_spans) simp
  moreover have "spans a2 = spans a1" using b(2) by (auto split: if_splits dest!: upd_bt_spans)
  ultimately show ?thesis using b(3) by simp
qed

lemma FreeListRemove_spans:
  assumes "FreeListRemove a p = Some a'"
  shows "spans a' = spans a"
proof -
  obtain bt bt1 :: BT and a1 i where b: "(if pNextFree bt \<noteq> NULL then upd_bt (pNextFree bt) (\<lambda>b. b\<lparr>pPrevFree := pPrevFree bt\<rparr>) a else Some a) = Some a1"
    "(if pPrevFree bt1 = NULL then Some (a1\<lparr>aHeadFree := (aHeadFree a1)[i := pNextFree bt1]\<rparr>)
      else upd_bt (pPrevFree bt1) (\<lambda>b. b\<lparr>pNextFree := pNextFree bt1\<rparr>) a1) = Some a'"
    using assms unfolding FreeListRemove_def Let_def bind_eq_Some_conv by blast
  have "spans a1 = spans a" using b(1) by (auto split: if_splits dest!: upd_bt_spans)
  moreover have "spans a' = spans a1" using b(2) by (auto split: if_splits dest!: upd_bt_spans)
  ultimately show ?thesis by simp
qed

lemma SegmentListRemove_spans:
  assumes "SegmentListRemove a p = Some a'"
  shows "spans a' = spans a"
proof -
  obtain bt bt2 :: BT and a1 where b: "(if pPrevSegment bt = NULL then Some (a\<lparr>pHeadSegment := pNextSegment bt\<rparr>)
            else upd_bt (pPrevSegment bt) (\<lambda>b. b\<lparr>pNextSegment := pNextSegment bt\<rparr>) a) = Some a1"
    "(if pNextSegment bt2 = NULL then Some (a1\<lparr>pTailSegment := pPrevSegment bt2\<rparr>)
      else upd_bt (pNextSegment bt2) (\<lambda>b. b\<lparr>pPrevSegment := pPrevSegment bt2\<rparr>) a1) = Some a'"
    using assms unfolding SegmentListRemove_def bind_eq_Some_conv by blast
  have "spans a1 = spans a" using b(1) by (auto split: if_splits dest!: upd_bt_spans)
  moreover have "spans a' = spans a1" using b(2) by (auto split: if_splits dest!: upd_bt_spans)
  ultimately show ?thesis by simp
qed

lemma SegmentSplit_spans:
  assumes "SegmentSplit a p n km = Some (q, a', km')"
  shows "spans a' \<subseteq> spans a"
proof (cases "OSAllocMem km" rule: prod_cases3)
  case (fields e r km1)
  show ?thesis
  proof (cases "e = PVRSRV_OK")
    case False
    then show ?thesis using assms fields by (simp add: SegmentSplit_def)
  next
    case True
    then obtain bt bt4 :: BT and a1 a2 a3 a4 a5 where b: "upd_bt r (\<lambda>b. b\<lparr>pPrevSegment := p\<rparr>) (new_bt r a) = Some a1"
      "upd_bt r (\<lambda>b. b\<lparr>pNextSegment := pNextSegment bt\<rparr>) a1 = Some a2"
      "(if pNextSegment bt = NULL then Some (a2\<lparr>pTailSegment := r\<rparr>)
        else upd_bt (pNextSegment bt) (\<lambda>b. b\<lparr>pPrevSegment := r\<rparr>) a2) = Some a3"
      "upd_bt p (\<lambda>b. b\<lparr>pNextSegment := r\<rparr>) a3 = Some a4"
      "upd_bt r (\<lambda>b. b\<lparr>bt_typ := btt_free, bt_uSize := bt_uSize bt4 - n, bt_base := bt_base bt4 + n, psMapping := psMapping bt4\<rparr>) a4 = Some a5"
      "upd_bt p (\<lambda>b. b\<lparr>bt_uSize := n\<rparr>) a5 = Some a'"
      using assms unfolding SegmentSplit_def fields by (simp add: bind_eq_Some_conv) blast
    have "spans (new_bt r a) \<subseteq> insert r (spans a)" by (auto simp: new_bt_def spans_def split: if_splits)
    moreover have "spans a1 = spans (new_bt r a)" "spans a2 = spans a1" "spans a4 = spans a3" "spans a' = spans a5"
      using upd_bt_spans [OF b(1)] upd_bt_spans [OF b(2)] upd_bt_spans [OF b(4)] upd_bt_spans [OF b(6)] by simp_all
    moreover have "spans a3 = spans a2" using b(3) by (auto split: if_splits dest!: upd_bt_spans)
    moreover have "spans a5 = spans a4 - {r}" using b(5) by (rule upd_bt_free_spans) simp
    ultimately show ?thesis by auto
  qed
qed

lemmas bt_spans = free_bt_spans FreeListInsert_spans FreeListRemove_spans SegmentListRemove_spans SegmentSplit_spans

lemma merge_prev_spans:
  assumes "merge_prev a p = Some a'"
  shows "spans a' \<subseteq> spans a"
proof -
  have "spans a5 \<subseteq> spans a" if "FreeListRemove a n = Some a1" "SegmentListRemove a1 n = Some a2" "upd_bt p (\<lambda>b. b\<lparr>bt_base := x\<rparr>) a2 = Some a3"
      "upd_bt p (\<lambda>b. b\<lparr>bt_uSize := bt_uSize b + y\<rparr>) a3 = Some a4" "free_bt n a4 = Some a5" for n a1 a2 a3 a4 a5 x y
    using bt_spans(3) [OF that(1)] bt_spans(4) [OF that(2)] upd_bt_spans [OF that(3)] upd_bt_spans [OF that(4)] free_bt_spans [OF that(5)]
    by simp
  then show ?thesis using assms by (fastforce simp: merge_prev_def Let_def bind_eq_Some_conv split: if_splits)
qed

lemma merge_next_spans:
  assumes "merge_next a p = Some a'"
  shows "spans a' \<subseteq> spans a"
proof -
  have "spans a4 \<subseteq> spans a" if "FreeListRemove a n = Some a1" "SegmentListRemove a1 n = Some a2"
      "upd_bt p (\<lambda>b. b\<lparr>bt_uSize := bt_uSize b + y\<rparr>) a2 = Some a3" "free_bt n a3 = Some a4" for n a1 a2 a3 a4 y
    using bt_spans(3) [OF that(1)] bt_spans(4) [OF that(2)] upd_bt_spans [OF that(3)] free_bt_spans [OF that(4)]
    by simp
  then show ?thesis using assms by (fastforce simp: merge_next_def Let_def bind_eq_Some_conv split: if_splits)
qed

text \<open>Without span markers freeing never ends in the release of an import.\<close>

lemma settle_no_spans:
  assumes "settle_bt a p = Some a'" "spans a = {}"
  shows "FreeListInsert a p = Some a'" "spans a' = {}" "ra_calls a' = ra_calls a"
proof -
  have no: "bt_typ b \<noteq> btt_span" if "bts a q = Some b" for q b using that assms(2) by (auto simp: spans_def)
  then show f: "FreeListInsert a p = Some a'"
    using assms(1) by (auto simp: settle_bt_def bind_eq_Some_conv split: if_splits)
  show "spans a' = {}" using FreeListInsert_spans [OF f] assms(2) by simp
  show "ra_calls a' = ra_calls a"
    using f by (auto simp: FreeListInsert_def upd_bt_Some Let_def bind_eq_Some_conv split: if_splits)
qed

lemma FreeBT_no_spans:
  assumes "FreeBT a p bf = Some a'" "spans a = {}"
  shows "spans a' = {}"
proof (cases "p = NULL")
  case False
  then obtain a0 a1 a2 a3 and b :: BT where a: "merge_prev a0 p = Some a1" "merge_next a1 p = Some a2"
    "free_backing a2 p (bt_base b) (bt_uSize b) bf = Some a3" "settle_bt a3 p = Some a'" "spans a0 = {}"
    using assms(1) by (clarsimp simp: FreeBT_def Let_def bind_eq_Some_conv) (rule that, assumption+, simp add: assms(2))
  have "spans a2 = {}" using merge_prev_spans [OF a(1)] merge_next_spans [OF a(2)] a(5) by simp
  moreover have "spans a3 = spans a2" using a(3) by (auto simp: free_backing_def Let_def bind_eq_Some_conv split: if_splits)
  ultimately show ?thesis using settle_no_spans(2) [OF a(4)] by simp
qed (use assms in \<open>simp add: FreeBT_def\<close>)

subsection \<open>Allocation\<close>

text \<open>Every operation takes its answers from the front of the allocator's list.\<close>

definition km_tail :: "kmem \<Rightarrow> kmem \<Rightarrow> bool" where
  "km_tail km km' \<longleftrightarrow> (\<exists>n. km' = drop n km)"

lemma km_tail_refl [simp]: "km_tail km km" unfolding km_tail_def by (metis drop0)

lemma km_tail_trans: "km_tail km km' \<Longrightarrow> km_tail km' km'' \<Longrightarrow> km_tail km km''"
  unfolding km_tail_def by (metis drop_drop)

lemma OSAllocMem_tail: "OSAllocMem km = (e, p, km') \<Longrightarrow> km_tail km km'"
  by (cases km) (auto simp: km_tail_def intro: exI [of _ "Suc 0"] split: if_splits)

lemma SegmentSplit_tail:
  assumes "SegmentSplit a p n km = Some (q, a', km')"
  shows "km_tail km km'"
proof (cases "OSAllocMem km" rule: prod_cases3)
  case (fields e r km1)
  have "km' = km1" using assms unfolding SegmentSplit_def fields by (cases "e = PVRSRV_OK") (auto simp: bind_eq_Some_conv)
  then show ?thesis using OSAllocMem_tail [OF fields] by simp
qed

lemma split_insert_sound:
  assumes "SegmentSplit a p n km = Some (r, b1, km1)" "FreeListInsert b1 t = Some b2"
  shows "spans b2 \<subseteq> spans a" "km_tail km km1"
  using SegmentSplit_spans [OF assms(1)] SegmentSplit_tail [OF assms(1)] FreeListInsert_spans [OF assms(2)] by auto

lemma split_front_sound:
  assumes "split_front a p st km = Some (q, a', km')"
  shows "spans a' \<subseteq> spans a" "km_tail km km'"
  using assms
  by (auto simp: split_front_def bind_eq_Some_conv split: if_splits dest: split_insert_sound(2) split_insert_sound(1) [THEN subsetD])

lemma split_back_sound:
  assumes "split_back a p n km = Some (q, a', km')"
  shows "spans a' \<subseteq> spans a" "km_tail km km'"
  using assms
  by (auto simp: split_back_def bind_eq_Some_conv split: if_splits dest: split_insert_sound(2) split_insert_sound(1) [THEN subsetD])

lemma mark_live_sound:
  assumes "mark_live a p km = Some (r, a', km')" "spans a = {}"
  shows "spans a' = {} \<and> km_tail km km'"
proof -
  obtain a1 and b1 :: BT where a1: "upd_bt p (\<lambda>b. b\<lparr>bt_typ := btt_live\<rparr>) a = Some a1" "bts a1 p = Some b1"
    using assms(1) by (auto simp: mark_live_def bind_eq_Some_conv)
  obtain ok h km1 where i: "HASH_Insert (pSegmentHash a1) (bt_base b1) p km = (ok, h, km1)" by (cases rule: prod_cases3)
  have t: "km_tail km km1" using HASH_Insert_drop [OF i] by (auto simp: km_tail_def)
  have "spans a1 = spans a - {p}" using a1(1) by (rule upd_bt_free_spans) simp
  then have s1: "spans (a1\<lparr>pSegmentHash := h\<rparr>) = {}" using assms(2) by simp
  show ?thesis
  proof (cases ok)
    case True
    then show ?thesis using assms(1) a1 i t s1 by (auto simp: mark_live_def)
  next
    case False
    then obtain a2 where "FreeBT (a1\<lparr>pSegmentHash := h\<rparr>) p False = Some a2" "a' = a2" "km' = km1"
      using assms(1) a1 i by (auto simp: mark_live_def bind_eq_Some_conv)
    then show ?thesis using FreeBT_no_spans [OF _ s1] t by blast
  qed
qed

lemma AttemptAllocAligned_sound:
  assumes run: "AttemptAllocAligned a s f al km = Some (r, a', km')" and no: "spans a = {}"
  shows "spans a' = {} \<and> km_tail km km'"
proof -
  have "spans a' = {} \<and> km_tail km km'" if c: "alloc_from_bt a p st s km = Some (r, a', km')" for p st
  proof -
    obtain a1 and b1 :: BT where a1: "FreeListRemove a p = Some a1" "bts a1 p = Some b1"
      using c by (auto simp: alloc_from_bt_def bind_eq_Some_conv)
    define a2 where "a2 = stat (\<lambda>s. s\<lparr>uLiveSegmentCount := uLiveSegmentCount s + 1,
        uFreeSegmentCount := uFreeSegmentCount s - 1, uFreeResourceCount := uFreeResourceCount s - bt_uSize b1\<rparr>) a1"
    have s2: "spans a2 = {}" using FreeListRemove_spans [OF a1(1)] no by (simp add: a2_def)
    obtain q3 a3 km3 where a3: "split_front a2 p st km = Some (q3, a3, km3)"
      using c a1 by (auto simp: alloc_from_bt_def a2_def bind_eq_Some_conv)
    then have s3: "spans a3 = {}" "km_tail km km3" using split_front_sound [OF a3] s2 by auto
    have "q3 = NULL \<and> a' = a3 \<and> km' = km3 \<or> (\<exists>q4 a4 km4. split_back a3 q3 s km3 = Some (q4, a4, km4) \<and>
        (if q4 = NULL then a' = a4 \<and> km' = km4 else mark_live a4 q4 km4 = Some (r, a', km')))"
      using c a1 a3 by (auto simp: alloc_from_bt_def a2_def bind_eq_Some_conv split: if_splits)
    then show ?thesis
    proof (elim disjE exE conjE)
      fix q4 a4 km4 assume b: "split_back a3 q3 s km3 = Some (q4, a4, km4)"
        and m: "if q4 = NULL then a' = a4 \<and> km' = km4 else mark_live a4 q4 km4 = Some (r, a', km')"
      have s4: "spans a4 = {}" "km_tail km km4" using split_back_sound [OF b] s3 km_tail_trans by auto
      then show ?thesis using m mark_live_sound km_tail_trans by (metis (mono_tags))
    qed (use s3 in simp)
  qed
  then show ?thesis using run no by (auto simp: AttemptAllocAligned_def bind_eq_Some_conv split: option.splits)
qed

subsection \<open>Arenas without imports\<close>

definition plain_arena :: "RA_ARENA \<Rightarrow> bool" where
  "plain_arena a \<longleftrightarrow> arena_inv a \<and> spans a = {} \<and> pImportAlloc a = RequestAllocFail \<and> uQuantum a \<noteq> 0"

lemma RA_Alloc_plain:
  assumes a: "plain_arena a" and t: "table_roomy (pSegmentHash a)" and fr: "fresh a km" and rq: "request_ok a s al"
  shows "\<exists>r a' km'. RA_Alloc imp a s f al km = Some (r, a', km') \<and> plain_arena a' \<and> alloc_result a s f al r a' \<and>
     cfg a' = cfg a \<and> total a' \<subseteq> total a \<and> km_tail km km'"
proof -
  have inv: "arena_inv a" "spans a = {}" "pImportAlloc a = RequestAllocFail" "uQuantum a \<noteq> 0" using a by (simp_all add: plain_arena_def)
  obtain r a' km' where r: "AttemptAllocAligned a s f al km = Some (r, a', km')" "arena_inv a'" "alloc_result a s f al r a'"
    "cfg a' = cfg a" "total a' \<subseteq> total a" using attempt_result [OF inv(1) t fr rq, of f] by blast
  note sound = AttemptAllocAligned_sound [OF r(1) inv(2)]
  have c: "uQuantum a' \<noteq> 0" "pImportAlloc a' = RequestAllocFail" using r(4) inv(3,4) by (simp_all add: cfg_def)
  define a'' where "a'' = (if r \<noteq> None then stat (\<lambda>s. s\<lparr>uCumulativeAllocs := uCumulativeAllocs s + 1\<rparr>) a' else a')"
  have "RA_Alloc imp a s f al km = Some (r, a'', km')"
    using r(1) c by (cases r) (simp_all add: RA_Alloc_def a''_def call_import_def Let_def)
  moreover have "plain_arena a''" using r(2) sound c by (simp add: plain_arena_def a''_def)
  moreover have "alloc_result a s f al r a''" "cfg a'' = cfg a" "total a'' \<subseteq> total a"
    using r(3-5) by (auto simp: a''_def alloc_result_def cfg_def)
  ultimately show ?thesis using sound by blast
qed

text \<open>A block on quantum boundaries inside the tag that it was merged into is reported as it is.\<close>

lemma quantum_start:
  assumes "unat (q :: u32) dvd unat b"
  shows "b div q * q = b"
proof (rule word_unat_eq_iff [THEN iffD2])
  have "unat (b div q * q) = (unat b div unat q mod 2 ^ 32 * unat q) mod 2 ^ 32" by (simp add: unat_word_ariths unat_div)
  also have "\<dots> = (unat b div unat q * unat q) mod 2 ^ 32" by (rule mod_mult_left_eq)
  also have "\<dots> = unat b" using assms unsigned_less [of b, where ?'a = nat] by (simp add: dvd_div_mult_self)
  finally show "unat (b div q * q) = unat b" .
qed

lemma quantum_end:
  assumes "unat (q :: u32) dvd unat e" "q \<noteq> 0" "unat e + unat q \<le> 2 ^ 32"
  shows "(e + q - 1) div q * q = e"
proof (rule word_unat_eq_iff [THEN iffD2])
  have q: "0 < unat q" using assms(2) by (simp add: unat_gt_0)
  have "e + q - 1 = e + (q - 1)" by simp
  moreover have "unat (e + (q - 1)) = unat e + (unat q - 1)"
    using assms(2,3) q by (subst unat_word_ariths) (simp add: unat_minus_one)
  ultimately have u: "unat (e + q - 1) = unat e + (unat q - 1)" by metis
  obtain k where k: "unat e = unat q * k" using assms(1) by (elim dvdE)
  have "(unat e + (unat q - 1)) div unat q = k" using q by (intro div_nat_eqI) (simp_all add: k)
  then have "unat ((e + q - 1) div q * q) = (k mod 2 ^ 32 * unat q) mod 2 ^ 32"
    by (simp add: unat_word_ariths unat_div u)
  also have "\<dots> = (k * unat q) mod 2 ^ 32" by (rule mod_mult_left_eq)
  also have "k * unat q = unat e" by (simp add: k)
  finally show "unat ((e + q - 1) div q * q) = unat e" using unsigned_less [of e, where ?'a = nat] by simp
qed

lemma free_backing_exact:
  assumes b: "bts a p = Some b" and fn: "pBackingStoreFree a \<noteq> NULL" and q: "uQuantum a \<noteq> 0"
    and al: "unat (uQuantum a) dvd unat base" "unat (uQuantum a) dvd unat n" and n: "n \<noteq> 0"
    and e: "unat base + unat n + unat (uQuantum a) \<le> 2 ^ 32"
    and in': "bt_base b \<le> base" "base + n \<le> bt_base b + bt_uSize b"
  shows "free_backing a p base n True = Some (a\<lparr>ra_calls := ra_calls a @ [BackingStoreFree (pImportHandle a) base (base + n)]\<rparr>)"
proof -
  have q0: "0 < unat (uQuantum a)" using q by (simp add: unat_gt_0)
  have u: "unat (base + n) = unat base + unat n" using e q0 by (subst unat_word_ariths) simp
  have "(base + n + uQuantum a - 1) div uQuantum a * uQuantum a = base + n"
    by (rule quantum_end) (use al e q u in auto)
  moreover have "base < base + n" using n u by (simp add: word_less_nat_alt unat_gt_0)
  ultimately show ?thesis
    using b fn q quantum_start [OF al(1)] in' by (simp add: free_backing_def Let_def not_less [THEN iffD2])
qed

lemma FreeBT_calls:
  assumes rep: "ra_rep a segs fl {}" and p: "live a p = Some x" and no: "spans a = {}" and fn: "pBackingStoreFree a \<noteq> NULL"
    and q: "uQuantum a \<noteq> 0" and al: "unat (uQuantum a) dvd unat (it_base x)" "unat (uQuantum a) dvd unat (it_size x)"
    and e: "unat (it_base x) + unat (it_size x) + unat (uQuantum a) \<le> 2 ^ 32" and run: "FreeBT a p True = Some a'"
  shows "ra_calls a' = ra_calls a @ [BackingStoreFree (pImportHandle a) (it_base x) (it_base x + it_size x)]"
proof -
  have p0: "p \<noteq> NULL" by (rule ra_rep_live(5) [OF rep p])
  obtain b where b: "bts a p = Some b" using ra_rep_alloc [OF rep] ra_rep_live(1) [OF rep p] by blast
  have bx: "bt_base b = it_base x" "bt_uSize b = it_size x" using item_at_sel [OF b] ra_rep_live(3) [OF rep p] by simp_all
  define a0 where "a0 = stat (\<lambda>s. s\<lparr>uLiveSegmentCount := uLiveSegmentCount s - 1,
      uFreeSegmentCount := uFreeSegmentCount s + 1, uFreeResourceCount := uFreeResourceCount s + bt_uSize b\<rparr>) a"
  have rep0: "ra_rep a0 segs fl {}" "live a0 p = Some x" using rep p by (simp_all add: a0_def)
  obtain a1 s1 f1 where a1: "merge_prev a0 p = Some a1" "ra_rep a1 s1 f1 {}" "grown p a0 a1"
    using merge_prev_spec [OF rep0] by blast
  obtain x1 where x1: "live a1 p = Some x1" using a1(3) by (auto simp: grown_def)
  obtain a2 s2 f2 where a2: "merge_next a1 p = Some a2" "ra_rep a2 s2 f2 {}" "grown p a1 a2"
    using merge_next_spec [OF a1(2) x1] by blast
  have "grown p a0 a2" by (rule grown_trans [OF a1(3) a2(3)])
  then have g: "grown p a a2" by (simp add: grown_def a0_def)
  have cf: "pImportHandle a2 = pImportHandle a" "uQuantum a2 = uQuantum a" "pBackingStoreFree a2 = pBackingStoreFree a"
    "ra_calls a2 = ra_calls a" using g by (auto simp: grown_def cfg_def)
  obtain y where y: "live a2 p = Some y" "bytes x \<subseteq> bytes y" using g p by (auto simp: grown_def)
  obtain b2 where b2: "bts a2 p = Some b2" using ra_rep_alloc [OF a2(2)] ra_rep_live(1) [OF a2(2) y(1)] by blast
  have by': "bt_base b2 = it_base y" "bt_uSize b2 = it_size y" using item_at_sel [OF b2] ra_rep_live(3) [OF a2(2) y(1)] by simp_all
  have ns: "\<not> is_span x" "\<not> is_span y" using ra_rep_live(4) [OF rep p] ra_rep_live(4) [OF a2(2) y(1)] by simp_all
  have ok: "ok_item x" "ok_item y" using ra_rep_ok [OF rep] ra_rep_ok [OF a2(2)] ra_rep_live [OF rep p] ra_rep_live [OF a2(2) y(1)] by auto
  have sz: "it_size x \<noteq> 0" "unat (it_base y) + unat (it_size y) < 2 ^ 32" using ok ns by (simp_all add: ok_item_def)
  have "{unat (it_base x)..<unat (it_base x) + unat (it_size x)} \<subseteq> {unat (it_base y)..<unat (it_base y) + unat (it_size y)}"
    using y(2) ns by (simp add: bytes_def lo_def hi_def)
  then have r: "unat (it_base y) \<le> unat (it_base x)" "unat (it_base x) + unat (it_size x) \<le> unat (it_base y) + unat (it_size y)"
    using sz(1) by (auto simp: unat_eq_zero)
  then have "unat (it_base x + it_size x) = unat (it_base x) + unat (it_size x)" "unat (it_base y + it_size y) = unat (it_base y) + unat (it_size y)"
    using sz(2) by (simp_all add: unat_word_ariths)
  with r have "bt_base b2 \<le> it_base x" "it_base x + it_size x \<le> bt_base b2 + bt_uSize b2" by (simp_all add: word_le_nat_alt by')
  then have fb: "free_backing a2 p (bt_base b) (bt_uSize b) True =
      Some (a2\<lparr>ra_calls := ra_calls a2 @ [BackingStoreFree (pImportHandle a) (it_base x) (it_base x + it_size x)]\<rparr>)"
    using free_backing_exact [OF b2, of "it_base x" "it_size x"] fn q al e sz(1) by (simp add: cf bx)
  have "spans a2 = {}" using merge_prev_spans [OF a1(1)] merge_next_spans [OF a2(1)] no by (simp add: a0_def)
  then show ?thesis
    using settle_no_spans(3) [of "a2\<lparr>ra_calls := ra_calls a2 @ [BackingStoreFree (pImportHandle a) (it_base x) (it_base x + it_size x)]\<rparr>" p a']
      run p0 b a1(1) a2(1) fb by (simp add: FreeBT_def a0_def cf)
qed

lemma RA_Free_plain:
  assumes a: "plain_arena a" and x: "live a p = Some x" and fn: "pBackingStoreFree a \<noteq> NULL"
    and al: "unat (uQuantum a) dvd unat (it_base x)" "unat (uQuantum a) dvd unat (it_size x)"
    and e: "unat (it_base x) + unat (it_size x) + unat (uQuantum a) \<le> 2 ^ 32"
  shows "\<exists>a' km'. RA_Free a (it_base x) True km = Some (a', km') \<and> plain_arena a' \<and> live a' = (live a)(p := None) \<and>
     cfg a' = cfg a \<and> total a' \<subseteq> total a \<and> dom (bts a') \<subseteq> dom (bts a) \<and>
     ra_calls a' = ra_calls a @ [BackingStoreFree (pImportHandle a) (it_base x) (it_base x + it_size x)]"
proof -
  have inv: "arena_inv a" "spans a = {}" "pImportAlloc a = RequestAllocFail" "uQuantum a \<noteq> 0" using a by (simp_all add: plain_arena_def)
  obtain a' km' where r: "RA_Free a (it_base x) True km = Some (a', km')" "arena_inv a'" "live a' = (live a)(p := None)"
    "shrinks a a'" "cfg a' = cfg a" "dom (bts a') \<subseteq> dom (bts a)" using RA_Free_spec [OF inv(1) x, of True km] inv(4) by blast
  obtain q h km1 where rem: "HASH_Remove (pSegmentHash a) (it_base x) km = (q, h, km1)" by (cases rule: prod_cases3)
  have q: "q = p" by (rule hash_free(1) [OF inv(1) x rem])
  define a1 where "a1 = stat (\<lambda>s. s\<lparr>uCumulativeFrees := uCumulativeFrees s + 1\<rparr>) (a\<lparr>pSegmentHash := h\<rparr>)"
  obtain segs fl where rep: "ra_rep a segs fl {}" using inv(1) by (auto simp: arena_inv_def ra_ok_def)
  have p0: "p \<noteq> NULL" by (rule ra_rep_live(5) [OF rep x])
  have v: "bts (a\<lparr>pSegmentHash := h\<rparr>) = bts a" by simp
  have a1: "live a1 p = Some x" "ra_rep a1 segs fl {}" "spans a1 = {}" "cfg a1 = cfg a" "ra_calls a1 = ra_calls a"
    using views_cong [OF v] ra_rep_cong [of "a\<lparr>pSegmentHash := h\<rparr>" a] rep x inv(2) by (simp_all add: a1_def cfg_def)
  have run: "FreeBT a1 p True = Some a'"
    using r(1) rem q p0 by (auto simp: RA_Free_def Let_def a1_def bind_eq_Some_conv)
  have c1: "pBackingStoreFree a1 = pBackingStoreFree a" "uQuantum a1 = uQuantum a" "pImportHandle a1 = pImportHandle a"
    using a1(4) by (simp_all add: cfg_def)
  have "ra_calls a' = ra_calls a @ [BackingStoreFree (pImportHandle a) (it_base x) (it_base x + it_size x)]"
    using FreeBT_calls [OF a1(2,1,3) _ _ _ _ _ run] fn inv(4) al e by (simp add: c1 a1(5))
  moreover have "spans a' = {}" by (rule FreeBT_no_spans [OF run a1(3)])
  moreover have "pImportAlloc a' = RequestAllocFail" "uQuantum a' \<noteq> 0" using r(5) inv(3,4) by (simp_all add: cfg_def)
  moreover have "total a' \<subseteq> total a" using r(4) by (auto simp: shrinks_def)
  ultimately show ?thesis using r by (auto simp: plain_arena_def)
qed

lemma RA_Free_keeps_plain:
  assumes a: "plain_arena a" and x: "live a p = Some x"
  shows "\<exists>a' km'. RA_Free a (it_base x) bf km = Some (a', km') \<and> plain_arena a' \<and> live a' = (live a)(p := None) \<and>
     cfg a' = cfg a \<and> total a' \<subseteq> total a"
proof -
  have inv: "arena_inv a" "spans a = {}" "pImportAlloc a = RequestAllocFail" "uQuantum a \<noteq> 0" using a by (simp_all add: plain_arena_def)
  obtain a' km' where r: "RA_Free a (it_base x) bf km = Some (a', km')" "arena_inv a'" "live a' = (live a)(p := None)"
    "shrinks a a'" "cfg a' = cfg a" using RA_Free_spec [OF inv(1) x, of bf km] inv(4) by blast
  have "spans a' = {}"
    using r(1) inv(2) by (auto simp: RA_Free_def Let_def bind_eq_Some_conv split: prod.splits if_splits dest!: FreeBT_no_spans)
  moreover have "pImportAlloc a' = RequestAllocFail" "uQuantum a' \<noteq> 0" using r(5) inv(3,4) by (simp_all add: cfg_def)
  moreover have "total a' \<subseteq> total a" using r(4) by (auto simp: shrinks_def)
  ultimately show ?thesis using r by (auto simp: plain_arena_def)
qed

lemma upd_bt_cfg: "upd_bt p f a = Some a' \<Longrightarrow> cfg a' = cfg a"
  by (auto simp: upd_bt_Some cfg_def)

lemma FreeListInsert_cfg: "FreeListInsert a p = Some a' \<Longrightarrow> cfg a' = cfg a"
  by (auto simp: FreeListInsert_def upd_bt_Some cfg_def Let_def bind_eq_Some_conv split: if_splits)

lemma InsertResource_first:
  assumes "InsertResource a base n km = Some (p, a', km')" "pHeadSegment a = NULL" "spans a = {}"
  shows "spans a' = {}" "cfg a' = cfg a"
proof -
  obtain q a1 km1 where b: "BuildBT a base n km = (q, a1, km1)" by (cases rule: prod_cases3)
  have a1: "spans a1 = {}" "cfg a1 = cfg a" "pHeadSegment a1 = NULL"
    using b assms(2,3) by (auto simp: BuildBT_def spans_def cfg_def split: prod.splits if_splits)
  have "spans a' = {} \<and> cfg a' = cfg a"
  proof (cases "q = NULL")
    case True
    then show ?thesis using assms(1) b a1 by (simp add: InsertResource_def)
  next
    case False
    then obtain a2 a3 where a2: "upd_bt q (\<lambda>b. b\<lparr>pPrevSegment := NULL, pNextSegment := NULL\<rparr>) (a1\<lparr>pHeadSegment := q, pTailSegment := q\<rparr>) = Some a2"
      "FreeListInsert a2 q = Some a3" "spans a' = spans a3" "cfg a' = cfg a3"
      using assms(1) b a1(3) by (auto simp: InsertResource_def SegmentListInsert_def bind_eq_Some_conv cfg_def)
    have "spans a2 = {}" "cfg a2 = cfg a" using upd_bt_spans [OF a2(1)] upd_bt_cfg [OF a2(1)] a1 by (simp_all add: cfg_def)
    then show ?thesis using FreeListInsert_spans [OF a2(2)] FreeListInsert_cfg [OF a2(2)] a2(3,4) by simp
  qed
  then show "spans a' = {}" "cfg a' = cfg a" by simp_all
qed

lemma RA_Create_plain:
  fixes size' quantum :: u32
  defines "n \<equiv> (size' + quantum - 1) div quantum * quantum"
  assumes q: "quantum \<noteq> 0" "size' > 0" "n \<noteq> 0" "unat base + unat n < 2 ^ 32" and km: "distinct (filter (\<lambda>q. q \<noteq> NULL) km)"
  shows "\<exists>r km'. RA_Create base size' NULL quantum NULL bsf hdl raw flags km = Some (r, km') \<and>
     (\<forall>a. r = Some a \<longrightarrow> plain_arena a \<and> live a = Map.empty \<and> total a = block base n \<and> uQuantum a = quantum \<and>
        pBackingStoreFree a = bsf \<and> pImportHandle a = hdl)"
proof -
  obtain r km' where r: "RA_Create base size' NULL quantum NULL bsf hdl raw flags km = Some (r, km')"
    "\<And>a. r = Some a \<Longrightarrow> arena_inv a \<and> live a = Map.empty \<and> total a = block base n \<and> uQuantum a = quantum"
    using RA_Create_spec [of size' quantum base km NULL flags NULL bsf hdl raw] q km unfolding n_def by auto
  have "spans a = {} \<and> pImportAlloc a = RequestAllocFail \<and> pBackingStoreFree a = bsf \<and> pImportHandle a = hdl" if ra: "r = Some a" for a
  proof -
    obtain h a0 and p :: ptr and a1 km1 km2 where a0: "InsertResource a0 base n km1 = Some (p, a1, km2)" "upd_bt p (\<lambda>b. b\<lparr>psMapping := NULL\<rparr>) a1 = Some a"
      and c: "a0 = \<lparr>uQuantum = quantum, pImportAlloc = RequestAllocFail, pBackingStoreFree = bsf, pImportHandle = hdl,
                    aHeadFree = replicate FREE_TABLE_LIMIT NULL, pHeadSegment = NULL, pTailSegment = NULL, pSegmentHash = h,
                    sStatistics = zero_statistics, bts = Map.empty, raw_bt = raw, mapping_flags = flags, ra_calls = []\<rparr>"
      using r(1) q ra by (auto simp: RA_Create_def bind_eq_Some_conv n_def split: prod.splits option.splits if_splits)
    have "spans a0 = {}" "pHeadSegment a0 = NULL" by (simp_all add: c spans_def)
    then have "spans a1 = {}" "cfg a1 = cfg a0" using InsertResource_first [OF a0(1)] by simp_all
    then show ?thesis using upd_bt_spans [OF a0(2)] upd_bt_cfg [OF a0(2)] by (simp add: c cfg_def)
  qed
  then show ?thesis using r q(1) by (auto simp: plain_arena_def)
qed

end
