(* ===== verification/Pvr_Ra_Paged.thy ===== *)
theory Pvr_Ra_Paged
  imports Pvr_Ra_Backing Pvr_Ra_Props
begin

text \<open>
  Arenas of pages. When the resource of an arena and the requests made of it consist of whole pages,
  every boundary tag starts on a page boundary and covers whole pages, also after splits and merges.
  Divisibility is that of 32 bit words, so no argument about overflow is needed.
\<close>

definition unpaged :: "RA_ARENA \<Rightarrow> ptr set" where
  "unpaged a = {p. \<exists>b. bts a p = Some b \<and> \<not> (4096 dvd bt_base b \<and> 4096 dvd bt_uSize b)}"

lemma unpaged_stat [simp]: "unpaged (stat f a) = unpaged a" by (simp add: unpaged_def)

lemma unpaged_upd [simp]:
  "unpaged (a\<lparr>pHeadSegment := p\<rparr>) = unpaged a" "unpaged (a\<lparr>pTailSegment := p\<rparr>) = unpaged a" "unpaged (a\<lparr>aHeadFree := l\<rparr>) = unpaged a"
  "unpaged (a\<lparr>pSegmentHash := h\<rparr>) = unpaged a" "unpaged (a\<lparr>ra_calls := cs\<rparr>) = unpaged a"
  by (simp_all add: unpaged_def)

lemma unpaged_tag: "unpaged a = {} \<Longrightarrow> bts a p = Some b \<Longrightarrow> 4096 dvd bt_base b \<and> 4096 dvd bt_uSize b"
  by (auto simp: unpaged_def)

lemma upd_bt_same_paged:
  assumes "upd_bt p f a = Some a'" "\<And>b. bt_base (f b) = bt_base b \<and> bt_uSize (f b) = bt_uSize b"
  shows "unpaged a' = unpaged a"
  using assms by (auto simp: upd_bt_Some unpaged_def split: if_splits)

lemma upd_bt_paged:
  assumes "upd_bt p f a = Some a'" "\<And>b. bts a p = Some b \<Longrightarrow> 4096 dvd bt_base (f b) \<and> 4096 dvd bt_uSize (f b)"
  shows "unpaged a' = unpaged a - {p}"
  using assms by (auto simp: upd_bt_Some unpaged_def split: if_splits)

lemma free_bt_paged: "free_bt p a = Some a' \<Longrightarrow> unpaged a' \<subseteq> unpaged a"
  by (auto simp: free_bt_def unpaged_def split: option.splits if_splits)

lemma FreeListInsert_paged:
  assumes "FreeListInsert a p = Some a'"
  shows "unpaged a' = unpaged a"
proof -
  obtain bt :: BT and a1 a2 q l where b: "upd_bt p (\<lambda>x. x\<lparr>bt_typ := btt_free, pNextFree := q, pPrevFree := NULL\<rparr>) a = Some a1"
    "(if q \<noteq> NULL then upd_bt q (\<lambda>b. b\<lparr>pPrevFree := p\<rparr>) a1 else Some a1) = Some a2" "a' = a2\<lparr>aHeadFree := l\<rparr>"
    using assms unfolding FreeListInsert_def Let_def bind_eq_Some_conv option.inject by blast
  have "unpaged a1 = unpaged a" using b(1) by (rule upd_bt_same_paged) simp
  moreover have "unpaged a2 = unpaged a1" using b(2) by (auto split: if_splits dest!: upd_bt_same_paged)
  ultimately show ?thesis using b(3) by simp
qed

lemma FreeListRemove_paged:
  assumes "FreeListRemove a p = Some a'"
  shows "unpaged a' = unpaged a"
proof -
  obtain bt bt1 :: BT and a1 i where b: "(if pNextFree bt \<noteq> NULL then upd_bt (pNextFree bt) (\<lambda>b. b\<lparr>pPrevFree := pPrevFree bt\<rparr>) a else Some a) = Some a1"
    "(if pPrevFree bt1 = NULL then Some (a1\<lparr>aHeadFree := (aHeadFree a1)[i := pNextFree bt1]\<rparr>)
      else upd_bt (pPrevFree bt1) (\<lambda>b. b\<lparr>pNextFree := pNextFree bt1\<rparr>) a1) = Some a'"
    using assms unfolding FreeListRemove_def Let_def bind_eq_Some_conv by blast
  have "unpaged a1 = unpaged a" using b(1) by (auto split: if_splits dest!: upd_bt_same_paged)
  moreover have "unpaged a' = unpaged a1" using b(2) by (auto split: if_splits dest!: upd_bt_same_paged)
  ultimately show ?thesis by simp
qed

lemma SegmentListRemove_paged:
  assumes "SegmentListRemove a p = Some a'"
  shows "unpaged a' = unpaged a"
proof -
  obtain bt bt2 :: BT and a1 where b: "(if pPrevSegment bt = NULL then Some (a\<lparr>pHeadSegment := pNextSegment bt\<rparr>)
            else upd_bt (pPrevSegment bt) (\<lambda>b. b\<lparr>pNextSegment := pNextSegment bt\<rparr>) a) = Some a1"
    "(if pNextSegment bt2 = NULL then Some (a1\<lparr>pTailSegment := pPrevSegment bt2\<rparr>)
      else upd_bt (pNextSegment bt2) (\<lambda>b. b\<lparr>pPrevSegment := pPrevSegment bt2\<rparr>) a1) = Some a'"
    using assms unfolding SegmentListRemove_def bind_eq_Some_conv by blast
  have "unpaged a1 = unpaged a" using b(1) by (auto split: if_splits dest!: upd_bt_same_paged)
  moreover have "unpaged a' = unpaged a1" using b(2) by (auto split: if_splits dest!: upd_bt_same_paged)
  ultimately show ?thesis by simp
qed

lemma upd_bt_dom: "upd_bt p f a = Some a' \<Longrightarrow> dom (bts a') = dom (bts a)"
  by (auto simp: upd_bt_Some split: if_splits)

lemma FreeListInsert_dom:
  assumes "FreeListInsert a p = Some a'"
  shows "dom (bts a') = dom (bts a)"
proof -
  obtain a1 a2 and q :: ptr and f g l where b: "upd_bt p f a = Some a1"
    "(if q \<noteq> NULL then upd_bt q g a1 else Some a1) = Some a2" "a' = a2\<lparr>aHeadFree := l\<rparr>"
    using assms unfolding FreeListInsert_def Let_def bind_eq_Some_conv option.inject by blast
  then show ?thesis using upd_bt_dom [OF b(1)] upd_bt_dom [of q g a1 a2] by (simp split: if_splits)
qed

lemma FreeListRemove_dom:
  assumes "FreeListRemove a p = Some a'"
  shows "dom (bts a') = dom (bts a)"
proof -
  obtain a1 and q r :: ptr and f g l where b: "(if q \<noteq> NULL then upd_bt q f a else Some a) = Some a1"
    "(if r = NULL then Some (a1\<lparr>aHeadFree := l\<rparr>) else upd_bt r g a1) = Some a'"
    using assms unfolding FreeListRemove_def Let_def bind_eq_Some_conv by blast
  have "dom (bts a1) = dom (bts a)" using b(1) upd_bt_dom [of q f a a1] by (cases "q = NULL") simp_all
  moreover have "dom (bts a') = dom (bts a1)" using b(2) upd_bt_dom [of r g a1 a'] by (cases "r = NULL") auto
  ultimately show ?thesis by simp
qed

lemma SegmentSplit_paged:
  assumes run: "SegmentSplit a p n km = Some (q, a', km')" and u: "unpaged a = {}" and n: "4096 dvd n" and fr: "fresh a km"
    and b0: "bts a p = Some b0"
  shows "unpaged a' = {} \<and> fresh a' km'"
  using fr
proof (cases rule: fresh_cases)
  case (fail km1)
  then show ?thesis using run u by (simp add: SegmentSplit_def)
next
  case (ok r km1)
  obtain bt bt4 :: BT and a1 a2 a3 a4 a5 where b: "upd_bt r (\<lambda>b. b\<lparr>pPrevSegment := p\<rparr>) (new_bt r a) = Some a1"
    "upd_bt r (\<lambda>b. b\<lparr>pNextSegment := pNextSegment bt\<rparr>) a1 = Some a2"
    "(if pNextSegment bt = NULL then Some (a2\<lparr>pTailSegment := r\<rparr>)
      else upd_bt (pNextSegment bt) (\<lambda>b. b\<lparr>pPrevSegment := r\<rparr>) a2) = Some a3"
    "upd_bt p (\<lambda>b. b\<lparr>pNextSegment := r\<rparr>) a3 = Some a4" "bts a4 p = Some bt4"
    "upd_bt r (\<lambda>b. b\<lparr>bt_typ := btt_free, bt_uSize := bt_uSize bt4 - n, bt_base := bt_base bt4 + n, psMapping := psMapping bt4\<rparr>) a4 = Some a5"
    "upd_bt p (\<lambda>b. b\<lparr>bt_uSize := n\<rparr>) a5 = Some a'" and km: "km' = km1"
    using run ok unfolding SegmentSplit_def by (simp add: bind_eq_Some_conv) blast
  have pr: "p \<noteq> r" using b0 ok(4) by auto
  have "unpaged (new_bt r a) \<subseteq> {r}" using u by (auto simp: new_bt_def unpaged_def split: if_splits)
  moreover have "unpaged a1 = unpaged (new_bt r a)" "unpaged a2 = unpaged a1" "unpaged a4 = unpaged a3"
    using upd_bt_same_paged [OF b(1)] upd_bt_same_paged [OF b(2)] upd_bt_same_paged [OF b(4)] by simp_all
  moreover have "unpaged a3 = unpaged a2" using b(3) by (auto split: if_splits dest!: upd_bt_same_paged)
  ultimately have u4: "unpaged a4 \<subseteq> {r}" by simp
  then have "4096 dvd bt_base bt4 \<and> 4096 dvd bt_uSize bt4" using b(5) pr by (auto simp: unpaged_def)
  then have "unpaged a5 = unpaged a4 - {r}" using n by (intro upd_bt_paged [OF b(6)]) simp
  then have u5: "unpaged a5 = {}" using u4 by auto
  then have "unpaged a' = unpaged a5 - {p}" using n by (intro upd_bt_paged [OF b(7)]) (simp add: unpaged_tag)
  moreover have "dom (bts a3) = dom (bts a2)" using b(3) upd_bt_dom [of "pNextSegment bt" _ a2 a3] by (cases "pNextSegment bt = NULL") auto
  then have "dom (bts a') = insert r (dom (bts a))"
    using upd_bt_dom [OF b(1)] upd_bt_dom [OF b(2)] upd_bt_dom [OF b(4)] upd_bt_dom [OF b(6)] upd_bt_dom [OF b(7)]
    by (simp add: new_bt_def)
  ultimately show ?thesis using u5 ok(5) [of a'] km by simp
qed

lemma split_insert_paged:
  assumes "SegmentSplit a p n km = Some (r, b1, km1)" "FreeListInsert b1 t = Some b2" "unpaged a = {}" "4096 dvd n" "fresh a km" "bts a p = Some b0"
  shows "unpaged b2 = {} \<and> fresh b2 km1"
  using SegmentSplit_paged [OF assms(1,3-6)] FreeListInsert_paged [OF assms(2)] FreeListInsert_dom [OF assms(2)] fresh_dom [of b1 km1 b2] by simp

lemma split_front_paged:
  assumes "split_front a p st km = Some (q, a', km')" "unpaged a = {}" "4096 dvd st" "fresh a km"
  shows "unpaged a' = {} \<and> fresh a' km'"
proof -
  obtain b where b: "bts a p = Some b" using assms(1) by (auto simp: split_front_def bind_eq_Some_conv)
  have "4096 dvd st - bt_base b" using assms(3) unpaged_tag [OF assms(2) b] by simp
  then show ?thesis
    using assms b split_insert_paged [of a p "st - bt_base b" km]
    by (auto simp: split_front_def bind_eq_Some_conv split: if_splits)
qed

lemma split_back_paged:
  assumes "split_back a p n km = Some (q, a', km')" "unpaged a = {}" "4096 dvd n" "fresh a km"
  shows "unpaged a' = {}"
  using assms split_insert_paged [of a p n km]
  by (auto simp: split_back_def bind_eq_Some_conv split: if_splits)

lemma merge_prev_paged:
  assumes "merge_prev a p = Some a'" "unpaged a = {}"
  shows "unpaged a' = {}"
proof -
  have "unpaged a5 = {}" if "FreeListRemove a n = Some a1" "SegmentListRemove a1 n = Some a2" "bts a2 n = Some nb"
      "upd_bt p (\<lambda>b. b\<lparr>bt_base := bt_base nb\<rparr>) a2 = Some a3" "upd_bt p (\<lambda>b. b\<lparr>bt_uSize := bt_uSize b + bt_uSize nb\<rparr>) a3 = Some a4"
      "free_bt n a4 = Some a5" for n a1 a2 a3 a4 a5 nb
  proof -
    have u2: "unpaged a2 = {}" using FreeListRemove_paged [OF that(1)] SegmentListRemove_paged [OF that(2)] assms(2) by simp
    note nb = unpaged_tag [OF u2 that(3)]
    have u3: "unpaged a3 = {}" using upd_bt_paged [OF that(4)] u2 nb by (simp add: unpaged_tag)
    have "unpaged a4 = {}" using upd_bt_paged [OF that(5)] u3 nb by (simp add: unpaged_tag)
    then show ?thesis using free_bt_paged [OF that(6)] by simp
  qed
  then show ?thesis using assms by (fastforce simp: merge_prev_def Let_def bind_eq_Some_conv split: if_splits)
qed

lemma merge_next_paged:
  assumes "merge_next a p = Some a'" "unpaged a = {}"
  shows "unpaged a' = {}"
proof -
  have "unpaged a4 = {}" if "FreeListRemove a n = Some a1" "SegmentListRemove a1 n = Some a2" "bts a2 n = Some nb"
      "upd_bt p (\<lambda>b. b\<lparr>bt_uSize := bt_uSize b + bt_uSize nb\<rparr>) a2 = Some a3" "free_bt n a3 = Some a4" for n a1 a2 a3 a4 nb
  proof -
    have u2: "unpaged a2 = {}" using FreeListRemove_paged [OF that(1)] SegmentListRemove_paged [OF that(2)] assms(2) by simp
    have "unpaged a3 = {}" using upd_bt_paged [OF that(4)] u2 unpaged_tag [OF u2 that(3)] by (simp add: unpaged_tag)
    then show ?thesis using free_bt_paged [OF that(5)] by simp
  qed
  then show ?thesis using assms by (fastforce simp: merge_next_def Let_def bind_eq_Some_conv split: if_splits)
qed

lemma settle_bt_paged:
  assumes "settle_bt a p = Some a'"
  shows "unpaged a' \<subseteq> unpaged a"
proof -
  have "unpaged a7 \<subseteq> unpaged a" if "SegmentListRemove a n = Some a1" "SegmentListRemove a1 q = Some a2" "SegmentListRemove a2 p = Some a3"
      "free_bt n (stat f (a3\<lparr>ra_calls := cs\<rparr>)) = Some a5" "free_bt q a5 = Some a6" "free_bt p a6 = Some a7" for n q a1 a2 a3 a5 a6 a7 cs f
    using SegmentListRemove_paged [OF that(1)] SegmentListRemove_paged [OF that(2)] SegmentListRemove_paged [OF that(3)]
      free_bt_paged [OF that(4)] free_bt_paged [OF that(5)] free_bt_paged [OF that(6)] by simp
  then show ?thesis
    using assms FreeListInsert_paged [of a p a'] unfolding settle_bt_def Let_def bind_eq_Some_conv
    by (fastforce split: if_splits simp: bind_eq_Some_conv)
qed

lemma FreeBT_paged:
  assumes "FreeBT a p bf = Some a'" "unpaged a = {}"
  shows "unpaged a' = {}"
proof (cases "p = NULL")
  case False
  then obtain a0 a1 a2 a3 and b :: BT where a: "merge_prev a0 p = Some a1" "merge_next a1 p = Some a2"
    "free_backing a2 p (bt_base b) (bt_uSize b) bf = Some a3" "settle_bt a3 p = Some a'" "unpaged a0 = {}"
    using assms(1) by (clarsimp simp: FreeBT_def Let_def bind_eq_Some_conv) (rule that, assumption+, simp add: assms(2))
  have "unpaged a2 = {}" using merge_prev_paged [OF a(1)] merge_next_paged [OF a(2)] a(5) by simp
  moreover have "unpaged a3 = unpaged a2" using a(3) by (auto simp: free_backing_def Let_def bind_eq_Some_conv split: if_splits)
  ultimately show ?thesis using settle_bt_paged [OF a(4)] by simp
qed (use assms in \<open>simp add: FreeBT_def\<close>)

lemma RA_Free_paged:
  assumes "RA_Free a base bf km = Some (a', km')" "unpaged a = {}"
  shows "unpaged a' = {}"
  using assms by (auto simp: RA_Free_def Let_def bind_eq_Some_conv split: prod.splits if_splits dest!: FreeBT_paged)

lemma mark_live_paged:
  assumes "mark_live a p km = Some (r, a', km')" "unpaged a = {}"
  shows "unpaged a' = {}"
proof -
  obtain a1 and b1 :: BT where a1: "upd_bt p (\<lambda>b. b\<lparr>bt_typ := btt_live\<rparr>) a = Some a1" "bts a1 p = Some b1"
    using assms(1) by (auto simp: mark_live_def bind_eq_Some_conv)
  have "unpaged a1 = {}" using upd_bt_same_paged [OF a1(1)] assms(2) by simp
  then show ?thesis using assms(1) a1 by (auto simp: mark_live_def bind_eq_Some_conv split: prod.splits if_splits dest!: FreeBT_paged)
qed

lemma alloc_from_bt_paged:
  assumes "alloc_from_bt a p st n km = Some (r, a', km')" "unpaged a = {}" "4096 dvd st" "4096 dvd n" "fresh a km"
  shows "unpaged a' = {}"
proof -
  obtain a1 where a1: "FreeListRemove a p = Some a1" using assms(1) by (auto simp: alloc_from_bt_def bind_eq_Some_conv)
  have u1: "unpaged a1 = {}" using FreeListRemove_paged [OF a1] assms(2) by simp
  have f1: "fresh a1 km" by (rule fresh_dom [OF assms(5)]) (simp add: FreeListRemove_dom [OF a1])
  have rest: "unpaged a' = {}" if "split_front (stat f a1) p st km = Some (q3, a3, km3)" "split_back a3 q3 n km3 = Some (q4, a4, km4)"
      "q4 = NULL \<and> a' = a4 \<or> mark_live a4 q4 km4 = Some (r, a', km')" for f q3 a3 km3 q4 a4 km4
  proof -
    have "unpaged a3 = {} \<and> fresh a3 km3" using split_front_paged [OF that(1)] u1 f1 assms(3) by simp
    then have "unpaged a4 = {}" using split_back_paged [OF that(2)] assms(4) by simp
    then show ?thesis using that(3) mark_live_paged by blast
  qed
  obtain b1 where b1: "bts a1 p = Some b1" using assms(1) a1 by (auto simp: alloc_from_bt_def bind_eq_Some_conv)
  define a2 where "a2 = stat (\<lambda>s. s\<lparr>uLiveSegmentCount := uLiveSegmentCount s + 1,
        uFreeSegmentCount := uFreeSegmentCount s - 1, uFreeResourceCount := uFreeResourceCount s - bt_uSize b1\<rparr>) a1"
  obtain q3 a3 km3 where a3: "split_front a2 p st km = Some (q3, a3, km3)"
    using assms(1) a1 b1 by (auto simp: alloc_from_bt_def a2_def bind_eq_Some_conv)
  have u3: "unpaged a3 = {}" using split_front_paged [OF a3] u1 f1 assms(3) by (simp add: a2_def)
  show ?thesis
  proof (cases "q3 = NULL")
    case True
    then show ?thesis using assms(1) a1 b1 a3 u3 by (simp add: alloc_from_bt_def a2_def)
  next
    case False
    then obtain q4 a4 km4 where a4: "split_back a3 q3 n km3 = Some (q4, a4, km4)"
      "(if q4 = NULL then Some (None, a4, km4) else mark_live a4 q4 km4) = Some (r, a', km')"
      using assms(1) a1 b1 a3 by (auto simp: alloc_from_bt_def a2_def bind_eq_Some_conv)
    then have "q4 = NULL \<and> a' = a4 \<or> mark_live a4 q4 km4 = Some (r, a', km')" by (auto split: if_splits)
    then show ?thesis using rest [OF a3 [unfolded a2_def] a4(1)] by blast
  qed
qed

lemma align_up_paged: "4096 dvd base \<Longrightarrow> al \<le> 1 \<or> 4096 dvd al \<Longrightarrow> 4096 dvd align_up base al"
  by (auto simp: align_up_def not_less [symmetric])

lemma AttemptAllocAligned_paged:
  assumes run: "AttemptAllocAligned a n f al km = Some (r, a', km')" and inv: "arena_inv a" and u: "unpaged a = {}"
    and n: "4096 dvd n" and al: "al \<le> 1 \<or> 4096 dvd al" and fr: "fresh a km"
  shows "unpaged a' = {}"
proof -
  obtain segs fl where rep: "ra_rep a segs fl {}" using inv by (auto simp: arena_inv_def ra_ok_def)
  have mp: "maps_ok a" using inv by (simp add: arena_inv_def)
  obtain c where c: "scan_classes a n f al (skip_empty a (unat (pvr_log2 n))) = Some c"
    "(case c of None \<Rightarrow> Some (None, a, km) | Some (p, st) \<Rightarrow> alloc_from_bt a p st n km) = Some (r, a', km')"
    using run by (auto simp: AttemptAllocAligned_def bind_eq_Some_conv)
  show ?thesis
  proof (cases c)
    case None
    then show ?thesis using c(2) u by simp
  next
    case (Some d)
    obtain p st where d: "d = (p, st)" by (cases d)
    have a: "alloc_from_bt a p st n km = Some (r, a', km')" using c(2) Some d by simp
    then obtain b where b: "bts a p = Some b" by (auto simp: alloc_from_bt_def FreeListRemove_def bind_eq_Some_conv)
    have "st = align_up (it_base (item_at a p)) al"
      using c(1) Some d unfolding scan_classes_spec [OF rep mp] by (auto simp: candidate_def)
    then have "4096 dvd st" using align_up_paged [OF _ al] unpaged_tag [OF u b] item_at_sel [OF b] by simp
    then show ?thesis using alloc_from_bt_paged [OF a u _ n fr] by simp
  qed
qed

lemma RA_Alloc_paged:
  assumes run: "RA_Alloc imp a n f al km = Some (r, a', km')" and a: "plain_arena a" and u: "unpaged a = {}"
    and n: "4096 dvd n" and al: "al \<le> 1 \<or> 4096 dvd al" and fr: "fresh a km" and t: "table_roomy (pSegmentHash a)" and rq: "request_ok a n al"
  shows "unpaged a' = {}"
proof -
  have inv: "arena_inv a" "pImportAlloc a = RequestAllocFail" "uQuantum a \<noteq> 0" "spans a = {}" using a by (simp_all add: plain_arena_def)
  obtain r1 a1 km1 where a1: "AttemptAllocAligned a n f al km = Some (r1, a1, km1)" using run by (auto simp: RA_Alloc_def bind_eq_Some_conv)
  have u1: "unpaged a1 = {}" by (rule AttemptAllocAligned_paged [OF a1 inv(1) u n al fr])
  show ?thesis
  proof (cases r1)
    case None
    have "cfg a1 = cfg a" using attempt_result [OF inv(1) t fr rq, of f] a1 by auto
    then have "pImportAlloc a1 = RequestAllocFail" using inv(2) by (simp add: cfg_def)
    then show ?thesis using run a1 u1 None by (auto simp: RA_Alloc_def Let_def call_import_def split: if_splits)
  next
    case (Some c)
    then show ?thesis using run a1 u1 by (auto simp: RA_Alloc_def)
  qed
qed

text \<open>The blocks handed out lie on page boundaries.\<close>

lemma blocks_paged:
  assumes "ra_ok a" "unpaged a = {}" "(va, n, m) \<in> blocks a"
  shows "4096 dvd va" "4096 dvd n"
proof -
  obtain q x where x: "live a q = Some x" "it_base x = va" "it_size x = n" using assms(3) by (rule blocks_member)
  obtain segs fl where rep: "ra_rep a segs fl {}" using assms(1) by (auto simp: ra_ok_def)
  obtain b where b: "bts a q = Some b" using ra_rep_alloc [OF rep] ra_rep_live(1) [OF rep x(1)] by blast
  have "bt_base b = va" "bt_uSize b = n" using item_at_sel [OF b] ra_rep_live(3) [OF rep x(1)] x by simp_all
  then show "4096 dvd va" "4096 dvd n" using unpaged_tag [OF assms(2) b] by simp_all
qed

lemma dvd_word_nat: "4096 dvd (x :: u32) \<longleftrightarrow> 4096 dvd unat x"
proof
  assume "4096 dvd x"
  then obtain k where "x = 4096 * k" by (elim dvdE)
  then have "unat x = 4096 * unat k mod 2 ^ 32" by (simp add: unat_word_ariths)
  also have "\<dots> = 4096 * (unat k mod 2 ^ 20)" using mult_mod_right [of 4096 "unat k" "2 ^ 20"] by simp
  finally show "4096 dvd unat x" by simp
next
  assume "4096 dvd unat x"
  then obtain k where "unat x = 4096 * k" by (elim dvdE)
  then have "x = 4096 * of_nat k" by (metis of_nat_mult of_nat_numeral of_nat_unat ucast_id)
  then show "4096 dvd x" by simp
qed

lemma InsertResource_first_paged:
  assumes "InsertResource a base n km = Some (p, a', km')" "pHeadSegment a = NULL" "unpaged a = {}" "4096 dvd base" "4096 dvd n"
  shows "unpaged a' = {}"
proof -
  obtain q a1 km1 where b: "BuildBT a base n km = (q, a1, km1)" by (cases rule: prod_cases3)
  have a1: "unpaged a1 = {}" "pHeadSegment a1 = NULL"
    using b assms(2-) by (auto simp: BuildBT_def unpaged_def split: prod.splits if_splits)
  show ?thesis
  proof (cases "q = NULL")
    case True
    then show ?thesis using assms(1) b a1 by (simp add: InsertResource_def)
  next
    case False
    then obtain a2 a3 where a2: "upd_bt q (\<lambda>b. b\<lparr>pPrevSegment := NULL, pNextSegment := NULL\<rparr>) (a1\<lparr>pHeadSegment := q, pTailSegment := q\<rparr>) = Some a2"
      "FreeListInsert a2 q = Some a3" "unpaged a' = unpaged a3"
      using assms(1) b a1(2) by (auto simp: InsertResource_def SegmentListInsert_def bind_eq_Some_conv)
    have "unpaged a2 = {}" using upd_bt_same_paged [OF a2(1)] a1 by simp
    then show ?thesis using FreeListInsert_paged [OF a2(2)] a2(3) by simp
  qed
qed

lemma RA_Create_paged:
  assumes run: "RA_Create base n NULL quantum NULL bsf hdl raw flags km = Some (Some a, km')" and n: "n > 0"
    and q: "4096 dvd quantum" "4096 dvd base"
  shows "unpaged a = {}"
proof -
  let ?n = "(n + quantum - 1) div quantum * quantum"
  obtain h a0 and p :: ptr and a1 km1 km2 where a0: "InsertResource a0 base ?n km1 = Some (p, a1, km2)" "upd_bt p (\<lambda>b. b\<lparr>psMapping := NULL\<rparr>) a1 = Some a"
    and c: "bts a0 = Map.empty" "pHeadSegment a0 = NULL"
    using run n by (auto simp: RA_Create_def bind_eq_Some_conv split: prod.splits option.splits if_splits)
  have "4096 dvd ?n" using q(1) by simp
  then have "unpaged a1 = {}" using InsertResource_first_paged [OF a0(1) c(2)] q(2) c(1) by (simp add: unpaged_def)
  then show ?thesis using upd_bt_same_paged [OF a0(2)] by simp
qed

end
