(* ===== verification/Pvr_Mmu_Heap.thy ===== *)
theory Pvr_Mmu_Heap
  imports Pvr_Mmu_Sys Pvr_Ra_Paged
begin

text \<open>
  Device virtual memory of a heap: \<open>MMU_Create\<close>, \<open>MMU_Alloc\<close> and \<open>MMU_Free\<close>, where the resource
  arena of the heap, the page tables and the arena's callback into the MMU meet.
\<close>

subsection \<open>The arena of a heap\<close>

definition arena_of :: "MMU_HEAP \<Rightarrow> RA_ARENA \<Rightarrow> bool" where
  "arena_of h a \<longleftrightarrow> psVMArena h = Some a \<and> plain_arena a \<and> uQuantum a = SGX_MMU_PAGE_SIZE \<and>
     pBackingStoreFree a = fn_MMU_FreePageTables \<and>
     total a \<subseteq> {unat (BaseDevVAddr (psDevArena h))..<unat (BaseDevVAddr (psDevArena h)) + unat (da_ui32Size (psDevArena h))}"

text \<open>The heap ends below the last page directory slot.\<close>

definition low_heap :: "MMU_HEAP \<Rightarrow> bool" where
  "low_heap h \<longleftrightarrow> unat (BaseDevVAddr (psDevArena h)) + unat (da_ui32Size (psDevArena h)) \<le> 2 ^ 32 - 2 ^ 22"

lemma low_heap_same: "same_heap h h' \<Longrightarrow> low_heap h' = low_heap h" by (simp add: low_heap_def same_heapD)

lemma arena_of_upd:
  assumes "arena_of h a" "plain_arena a'" "cfg a' = cfg a" "total a' \<subseteq> total a"
  shows "arena_of (h\<lparr>psVMArena := Some a'\<rparr>) a'"
  using assms by (auto simp: arena_of_def cfg_def)

lemma blocks_in_heap:
  assumes a: "arena_of h a" and l: "low_heap h" and b: "(va, n, m) \<in> blocks a"
  shows "in_heap h va n" "unat va + unat n \<le> 2 ^ 32 - 2 ^ 22"
proof -
  have ok: "ra_ok a" using a by (simp add: arena_of_def plain_arena_def arena_inv_def)
  obtain q x where x: "live a q = Some x" "bytes x = block va n" using b by (rule blocks_member)
  have s: "block va n \<subseteq> total a" "block va n \<noteq> {}" using ra_ok_live(4,5) [OF ok x(1)] x(2) by auto
  let ?b = "unat (BaseDevVAddr (psDevArena h))" and ?e = "unat (BaseDevVAddr (psDevArena h)) + unat (da_ui32Size (psDevArena h))"
  have "total a \<subseteq> {?b..<?e}" using a by (simp add: arena_of_def)
  with s have "{unat va..<unat va + unat n} \<subseteq> {?b..<?e}" "unat n \<noteq> 0" unfolding block_def by (blast, simp)
  then have "?b \<le> unat va" "unat va + unat n \<le> ?e" "n \<noteq> 0" by auto
  then show "in_heap h va n" "unat va + unat n \<le> 2 ^ 32 - 2 ^ 22" using l by (simp_all add: in_heap_def Let_def low_heap_def)
qed

subsection \<open>Freeing\<close>

lemma unat_range:
  assumes "unat (va :: u32) + unat n < 2 ^ 32"
  shows "unat (va + n) = unat va + unat n"
  using assms by (subst unat_word_ariths) simp

lemma MMU_Free_spec:
  assumes sys: "mmu_system os H s" and h: "H p = Some h" and a: "arena_of h a" and l: "low_heap h"
    and b: "(va, n, m) \<in> blocks a" and al: "4096 dvd unat va" "4096 dvd unat n"
    and fl: "filled os h s (page_range va (unat n div 4096))"
  shows "\<exists>h' a' s'. MMU_Free os h va n s = Some (h', s') \<and> same_heap h h' \<and> arena_of h' a' \<and> blocks a' = blocks a - {(va, n, m)} \<and>
     (unpaged a = {} \<longrightarrow> unpaged a' = {}) \<and> mmu_system os (H(p \<mapsto> h')) s' \<and> dom (mmu_ctxs s') = dom (mmu_ctxs s) \<and>
     (\<forall>q g c va'. H q = Some g \<longrightarrow> c \<in> sharers g s \<longrightarrow> va_of g va' \<longrightarrow>
        translate os s' c va' = (if q = p \<and> pn va' \<in> page_range va (unat n div 4096) then None else translate os s c va'))"
proof -
  have pl: "plain_arena a" "uQuantum a = SGX_MMU_PAGE_SIZE" "pBackingStoreFree a \<noteq> NULL" "psVMArena h = Some a" "ra_ok a"
    using a by (auto simp: arena_of_def fn_MMU_FreePageTables_def plain_arena_def arena_inv_def)
  have ih: "in_heap h va n" "unat va + unat n \<le> 2 ^ 32 - 2 ^ 22" using blocks_in_heap [OF a l b] .
  then have r: "unat (BaseDevVAddr (psDevArena h)) \<le> unat va"
    "unat va + unat n \<le> unat (BaseDevVAddr (psDevArena h)) + unat (da_ui32Size (psDevArena h))" "n \<noteq> 0"
    by (simp_all add: in_heap_def Let_def)
  have u: "unat (va + n) = unat va + unat n" using ih(2) by (intro unat_range) simp
  have g: "va \<ge> BaseDevVAddr (psDevArena h) \<and> va + n \<le> BaseDevVAddr (psDevArena h) + da_ui32Size (psDevArena h)"
    using r u l unat_range [of "BaseDevVAddr (psDevArena h)" "da_ui32Size (psDevArena h)"]
    by (simp add: word_le_nat_alt low_heap_def)
  obtain q x where x: "live a q = Some x" "it_base x = va" "it_size x = n" "it_map x = m" using b by (rule blocks_member)
  obtain a' km' where a': "RA_Free a va True (mmu_km s) = Some (a', km')" "plain_arena a'" "live a' = (live a)(q := None)"
    "cfg a' = cfg a" "total a' \<subseteq> total a" "ra_calls a' = ra_calls a @ [BackingStoreFree (pImportHandle a) va (va + n)]"
    using RA_Free_plain [OF pl(1) x(1) pl(3), of "mmu_km s"] al ih(2) by (auto simp: pl(2) x SGX_MMU_PAGE_SIZE_def)
  define h1 where "h1 = h\<lparr>psVMArena := Some a'\<rparr>"
  define s1 where "s1 = s\<lparr>mmu_km := km'\<rparr>"
  have c1: "core s1 = core s" by (simp add: s1_def)
  have sh1: "same_heap h h1" by (simp add: h1_def)
  have run: "MMU_Free os h va n s = MMU_UnmapPagesAndFreePTs os h1 va (n div SGX_MMU_PAGE_SIZE) s1"
    using g pl(4) a'(1,6) by (auto simp: MMU_Free_def h1_def s1_def MMU_FreePageTables_def split: bind_splits)
  let ?k = "unat n div 4096"
  have k: "unat (n div SGX_MMU_PAGE_SIZE) = ?k" by (simp add: unat_div SGX_MMU_PAGE_SIZE_def)
  have "(unat n + 4095) div 4096 = ?k" using al(2) by (elim dvdE) simp
  then have pe: "pn va + ?k \<le> 2 ^ 20" using page_range_end [OF ih(1)] by (simp add: pages_left_0)
  have hyp: "mmu_inv os s1" "heap_ok os h1 s1" "heap_geom h1" "filled os h1 s1 {pn va..<pn va + ?k}"
    using mmu_systemD [OF sys] h fl core_cong [OF c1] same_heapD [OF sh1]
    by (auto simp: filled_def page_range_def)
  obtain j b' s2 where s2: "unmap_free_loop os va ?k h1 False s1 = Some (h1\<lparr>ui32PTEntryCount := j\<rparr>, b', s2)" "mmu_inv os s2"
    "heap_ok os h1 s2" "heap_frame os h1 s1 s2"
    "xlate (pts os h1 s2) = (\<lambda>m. if m \<in> {pn va..<pn va + ?k} then None else xlate (pts os h1 s1) m)"
    using unmap_free_loop_spec [OF hyp pe] by blast
  define s3 where "s3 = (if b' then MMU_InvalidateDirectoryCache s2 else MMU_InvalidatePageTableCache s2)"
  have c3: "core s3 = core s2" by (simp add: s3_def)
  define h2 where "h2 = h1\<lparr>ui32PTEntryCount := j\<rparr>"
  have sh2: "same_heap h h2" by (rule same_heap_trans [OF sh1]) (simp add: h2_def)
  have fin: "MMU_Free os h va n s = Some (h2, s3)" using run s2(1) k by (simp add: MMU_UnmapPagesAndFreePTs_def s3_def h2_def)
  have f1: "heap_frame os h s s1" using core_cong(8) [OF c1, of os h s] heap_frame_refl by simp
  have "heap_frame os h s1 s3" using s2(4) core_cong(8) [OF c3, of os h s1] same_heapD(5) [OF sh1] by simp
  note f3 = heap_frame_trans [OF f1 this]
  have o3: "mmu_inv os s3" "heap_ok os h s3" using s2(2,3) core_cong(6,7) [OF c3] same_heapD(4) [OF sh1] by simp_all
  have x3: "xlate (pts os h s3) m = (if m \<in> page_range va ?k then None else xlate (pts os h s) m)" for m
    using s2(5) core_cong(3) [OF c1] core_cong(3) [OF c3] same_heapD(3) [OF sh1] by (simp add: page_range_def)
  have ar: "arena_of h2 a'" using arena_of_upd [OF a a'(2,4,5)] by (simp add: h2_def h1_def arena_of_def)
  have bl: "blocks a' = blocks a - {(va, n, m)}" using blocks_remove [OF pl(5) x(1) a'(3)] by (simp add: x)
  show ?thesis
    using mmu_system_update [OF sys h sh2 o3 f3 x3] fin sh2 ar bl RA_Free_paged [OF a'(1)] by blast
qed

subsection \<open>Allocating\<close>

definition same_translations :: "mmu_os \<Rightarrow> mmu_heaps \<Rightarrow> mmu_state \<Rightarrow> mmu_state \<Rightarrow> bool" where
  "same_translations os H s s' \<longleftrightarrow> (\<forall>q g c va. H q = Some g \<longrightarrow> c \<in> sharers g s \<longrightarrow> va_of g va \<longrightarrow>
     translate os s' c va = translate os s c va)"

lemma map_upd_all:
  assumes "H p = Some h" "P h' = P h"
  shows "(\<forall>q g. (H(p \<mapsto> h')) q = Some g \<longrightarrow> P g) = (\<forall>q g. H q = Some g \<longrightarrow> P g)"
  using assms by (metis fun_upd_apply option.inject)

lemma same_translations_upd:
  assumes "H p = Some h" "same_heap h h'"
  shows "same_translations os (H(p \<mapsto> h')) s s' = same_translations os H s s'"
proof -
  let ?P = "\<lambda>g. \<forall>c va. c \<in> sharers g s \<longrightarrow> va_of g va \<longrightarrow> translate os s' c va = translate os s c va"
  have "?P h' = ?P h" using same_heapD(1,2) [OF assms(2)] by (simp add: va_of_def)
  then have "(\<forall>q g. (H(p \<mapsto> h')) q = Some g \<longrightarrow> ?P g) = (\<forall>q g. H q = Some g \<longrightarrow> ?P g)" by (rule map_upd_all [where H = H and p = p and P = ?P, OF assms(1)])
  then show ?thesis by (simp only: same_translations_def all_simps)
qed

lemma same_translations_trans:
  assumes "same_translations os H s t" "dom (mmu_ctxs t) = dom (mmu_ctxs s)" "same_translations os H t u"
  shows "same_translations os H s u"
  using assms by (simp add: same_translations_def sharers_def)

lemma core_translations: "core s' = core s \<Longrightarrow> same_translations os H s s'"
  using core_cong(9) [of s' s os] by (simp add: same_translations_def translate_def)

lemma core_system: "core s' = core s \<Longrightarrow> mmu_system os H s' = mmu_system os H s"
  using core_cong(6,7) [of s' s] by (simp add: mmu_system_def)

lemma same_heap_system:
  assumes "mmu_system os H s" "H p = Some h" "same_heap h h'"
  shows "mmu_system os (H(p \<mapsto> h')) s"
  by (rule mmu_system_step(1) [OF assms]) (use mmu_systemD [OF assms(1)] assms(2) heap_frame_refl in auto)

lemma mmu_fresh_tail:
  assumes "mmu_fresh os s" "km_tail (mmu_km s) km'"
  shows "mmu_fresh os (s\<lparr>mmu_km := km'\<rparr>)"
proof -
  obtain n where n: "km' = drop n (mmu_km s)" using assms(2) by (auto simp: km_tail_def)
  have "filter (\<lambda>p. p \<noteq> NULL) (mmu_km s) = filter (\<lambda>p. p \<noteq> NULL) (take n (mmu_km s)) @ filter (\<lambda>p. p \<noteq> NULL) km'"
    unfolding n by (metis append_take_drop_id filter_append)
  then show ?thesis
    using assms(1) n in_set_dropD [of _ n "mmu_km s"]
    by (auto simp: mmu_fresh_def infos_fresh_def pages_fresh_def granted_pages_def)
qed

lemma MMU_Alloc_spec:
  assumes sys: "mmu_system os H s" and h: "H p = Some h" and a: "arena_of h a" and l: "low_heap h"
    and fl: "uFlags AND PVRSRV_MEM_USER_SUPPLIED_DEVVADDR = 0"
    and t: "table_roomy (pSegmentHash a)" and fr: "fresh a (mmu_km s)" "mmu_fresh os s" and rq: "request_ok a n al"
  shows "\<exists>ok va h' a' s'. MMU_Alloc os h n uFlags al va0 s = Some (ok, va, h', s') \<and> same_heap h h' \<and> arena_of h' a' \<and>
     mmu_system os (H(p \<mapsto> h')) s' \<and> same_translations os H s s' \<and> dom (mmu_ctxs s') = dom (mmu_ctxs s) \<and>
     (unpaged a = {} \<and> 4096 dvd n \<and> (al \<le> 1 \<or> 4096 dvd al) \<longrightarrow> unpaged a' = {}) \<and>
     (if ok then aligned al (unat va) \<and> in_heap h va n \<and> covered os h' s' (page_range va (pages_left 0 n)) \<and>
         (\<exists>m. blocks a' = insert (va, n, m) (blocks a)) \<and> (\<forall>b k m'. (b, k, m') \<in> blocks a \<longrightarrow> block va n \<inter> block b k = {})
      else blocks a' = blocks a)"
proof -
  have pl: "plain_arena a" "psVMArena h = Some a" using a by (simp_all add: arena_of_def)
  obtain r a1 km1 where r: "RA_Alloc no_imports a n 0 al (mmu_km s) = Some (r, a1, km1)" "plain_arena a1" "alloc_result a n 0 al r a1"
    "cfg a1 = cfg a" "total a1 \<subseteq> total a" "km_tail (mmu_km s) km1" using RA_Alloc_plain [OF pl(1) t fr(1) rq] by blast
  have pg: "unpaged a = {} \<and> 4096 dvd n \<and> (al \<le> 1 \<or> 4096 dvd al) \<longrightarrow> unpaged a1 = {}"
    using RA_Alloc_paged [OF r(1) pl(1) _ _ _ fr(1) t rq] by blast
  define h1 where "h1 = h\<lparr>psVMArena := Some a1\<rparr>"
  define s1 where "s1 = s\<lparr>mmu_km := km1\<rparr>"
  have sh1: "same_heap h h1" by (simp add: h1_def)
  have ar1: "arena_of h1 a1" unfolding h1_def by (rule arena_of_upd [OF a r(2,4,5)])
  have sys1: "mmu_system os (H(p \<mapsto> h1)) s1" using same_heap_system [OF sys h sh1] core_system [of s1 s] by (simp add: s1_def)
  have tr1: "same_translations os H s s1" by (rule core_translations) (simp add: s1_def)
  show ?thesis
  proof (cases r)
    case None
    then have "MMU_Alloc os h n uFlags al va0 s = Some (False, va0, h1, s1)"
      using fl pl(2) r(1) by (simp add: MMU_Alloc_def h1_def s1_def Let_def)
    moreover have "blocks a1 = blocks a" using r(3) None by (simp add: alloc_result_def blocks_def)
    moreover have "dom (mmu_ctxs s1) = dom (mmu_ctxs s)" by (simp add: s1_def)
    ultimately show ?thesis using sh1 ar1 sys1 tr1 pg by (intro exI [of _ False] exI [of _ va0] exI [of _ h1] exI [of _ a1] exI [of _ s1]) simp
  next
    case (Some c)
    obtain m va where c: "c = (m, va)" by (cases c)
    obtain q where q: "live a q = None" "live a1 = (live a)(q \<mapsto> (btt_live, va, n, m))" "aligned al (unat va)"
      using r(3) Some c by (auto simp: alloc_result_def)
    have b1: "blocks a1 = insert (va, n, m) (blocks a)" using blocks_insert [OF q(2,1)] by (simp add: it_defs)
    have ok1: "ra_ok a1" using r(2) by (simp add: plain_arena_def arena_inv_def)
    have new: "(b, k, m') \<noteq> (va, n, m)" if bk: "(b, k, m') \<in> blocks a" for b k m'
    proof
      assume e: "(b, k, m') = (va, n, m)"
      obtain q' y where y: "live a q' = Some y" "bytes y = block va n" using bk e by (metis blocks_member)
      then have "q' \<noteq> q" "live a1 q' = Some y" using q by auto
      moreover have "bytes (btt_live, va, n, m) = block va n" by (simp add: bytes_def lo_def hi_def is_span_def it_defs block_def)
      ultimately show False using ra_ok_live(3,4) [OF ok1, of q' y] y(2) q(2) by (metis Int_absorb empty_iff fun_upd_same)
    qed
    have dis: "block va n \<inter> block b k = {}" if "(b, k, m') \<in> blocks a" for b k m'
      using blocks_disjoint [OF ok1, of va n m b k m'] new [OF that] that b1 by auto
    have ih: "in_heap h1 va n" "unat va + unat n \<le> 2 ^ 32 - 2 ^ 22"
      using blocks_in_heap [OF ar1, of va n m] low_heap_same [OF sh1] l b1 by auto
    have h1p: "(H(p \<mapsto> h1)) p = Some h1" by simp
    have f1: "mmu_fresh os s1" unfolding s1_def by (rule mmu_fresh_tail [OF fr(2) r(6)])
    obtain ok s2 where s2: "DeferredAllocPagetables os h1 va n s1 = Some (ok, s2)" "mmu_system os (H(p \<mapsto> h1)) s2"
      "dom (mmu_ctxs s2) = dom (mmu_ctxs s1)" "ok \<Longrightarrow> covered os h1 s2 (page_range va (pages_left 0 n))"
      "same_translations os (H(p \<mapsto> h1)) s1 s2"
      using DeferredAllocPagetables_system [OF sys1 h1p ih(1) f1 ih(2)] unfolding same_translations_def by blast
    have tr2: "same_translations os H s s2"
      using same_translations_trans [OF tr1] s2(5) same_translations_upd [where H = H and p = p, OF h sh1] by (simp add: s1_def)
    have ih': "in_heap h va n" using ih(1) same_heapD(9) [OF sh1] by (simp add: in_heap_def)
    show ?thesis
    proof (cases ok)
      case True
      then have "MMU_Alloc os h n uFlags al va0 s = Some (True, va, h1, s2)"
        using fl pl(2) r(1) Some c s2(1) by (simp add: MMU_Alloc_def h1_def s1_def Let_def)
      moreover have "dom (mmu_ctxs s2) = dom (mmu_ctxs s)" using s2(3) by (simp add: s1_def)
      moreover have "\<exists>m. blocks a1 = insert (va, n, m) (blocks a)" using b1 by blast
      ultimately show ?thesis using sh1 ar1 s2(2,4) True tr2 q(3) ih' dis pg
        by (intro exI [of _ True] exI [of _ va] exI [of _ h1] exI [of _ a1] exI [of _ s2]) simp
    next
      case False
      have lv: "live a1 q = Some (btt_live, va, n, m)" by (simp add: q(2))
      obtain a2 km2 where a2: "RA_Free a1 va False (mmu_km s2) = Some (a2, km2)" "plain_arena a2" "live a2 = (live a1)(q := None)"
        "cfg a2 = cfg a1" "total a2 \<subseteq> total a1" using RA_Free_keeps_plain [OF r(2) lv, of False "mmu_km s2"] by (auto simp: it_defs)
      define h2 where "h2 = h1\<lparr>psVMArena := Some a2\<rparr>"
      define s3 where "s3 = s2\<lparr>mmu_km := km2\<rparr>"
      have run: "MMU_Alloc os h n uFlags al va0 s = Some (False, va, h2, s3)"
        using fl pl(2) r(1) Some c s2(1) a2(1) False by (simp add: MMU_Alloc_def h1_def h2_def s1_def s3_def Let_def)
      have sh2: "same_heap h h2" by (rule same_heap_trans [OF sh1]) (simp add: h2_def)
      have "(H(p \<mapsto> h1))(p \<mapsto> h2) = H(p \<mapsto> h2)" by simp
      moreover have "same_heap h1 h2" by (simp add: h2_def)
      ultimately have sys3: "mmu_system os (H(p \<mapsto> h2)) s3"
        using same_heap_system [OF s2(2) h1p] core_system [of s3 s2] by (metis core_simps(1) s3_def)
      have "same_translations os H s2 s3" by (rule core_translations) (simp add: s3_def)
      then have tr3: "same_translations os H s s3" using same_translations_trans [OF tr2] s2(3) by (simp add: s1_def)
      have "blocks a2 = blocks a1 - {(va, n, m)}" using blocks_remove [OF ok1 lv a2(3)] by (simp add: it_defs)
      then have "blocks a2 = blocks a" using b1 new [of va n m] by auto
      moreover have "arena_of h2 a2" unfolding h2_def by (rule arena_of_upd [OF ar1 a2(2,4,5)])
      moreover have "dom (mmu_ctxs s3) = dom (mmu_ctxs s)" using s2(3) by (simp add: s1_def s3_def)
      moreover have "unpaged a = {} \<and> 4096 dvd n \<and> (al \<le> 1 \<or> 4096 dvd al) \<longrightarrow> unpaged a2 = {}" using pg RA_Free_paged [OF a2(1)] by blast
      ultimately show ?thesis using run sh2 sys3 tr3
        by (intro exI [of _ False] exI [of _ va] exI [of _ h2] exI [of _ a2] exI [of _ s3]) simp
    qed
  qed
qed

end
