(* ===== verification/Pvr_Mmu_Ctx.thy ===== *)
theory Pvr_Mmu_Ctx
  imports Pvr_Mmu_Heap
begin

text \<open>
  MMU contexts: \<open>MMU_Initialise\<close> makes a context with an empty page directory, \<open>MMU_InsertHeap\<close>
  shows a shared heap in it.
\<close>

subsection \<open>A new context\<close>

lemma new_ctx:
  fixes v a c :: ptr
  assumes inv: "mmu_inv os s" and c: "mmu_ctxs s c = None" "c \<noteq> NULL"
    and f: "v \<noteq> NULL" "a \<noteq> NULL" "take_bit 12 (VMallocToPhys os v) = 0" "mem s (VMallocToPhys os v) = None" "areas s a = None"
  defines "ctx \<equiv> \<lparr>pvPDCpuVAddr = v, sPDDevPAddr = VMallocToPhys os v, hPDOSMemHandle = a,
      apsPTInfoList = replicate 1024 NULL, mmu_psNext = pvMMUContextList s\<rparr>"
  assumes s': "core s' = (pt_infos s, (mmu_ctxs s)(c \<mapsto> ctx), (mem s)(VMallocToPhys os v \<mapsto> replicate 1024 0),
      (areas s)(a \<mapsto> (v, 1)), c, local_arena s)"
  shows "mmu_inv os s'" "table s' = (table s)(PDof c \<mapsto> (a, v))" "frame os s' = (frame os s)(PDof c \<mapsto> replicate 1024 0)"
proof -
  have st: "mmu_struct os s" "counts_ok os s" using inv by (simp_all add: mmu_inv_def)
  have e: "pt_infos s' = pt_infos s" "mmu_ctxs s' = (mmu_ctxs s)(c \<mapsto> ctx)" "mem s' = (mem s)(VMallocToPhys os v \<mapsto> replicate 1024 0)"
    "areas s' = (areas s)(a \<mapsto> (v, 1))" "pvMMUContextList s' = c" "local_arena s' = None"
    using s' st(1) by (simp_all add: core_def mmu_struct_def)
  have slot: "pt_slot s' c' i = (if c' = c then if i < 1024 then Some NULL else None else pt_slot s c' i)" for c' i
    by (simp add: pt_slot_def e(2) ctx_def)
  have old: "pt_slot s c i = None" for i using c(1) by (simp add: pt_slot_def)
  show t: "table s' = (table s)(PDof c \<mapsto> (a, v))"
  proof
    fix k
    show "table s' k = ((table s)(PDof c \<mapsto> (a, v))) k"
      by (cases k) (auto simp: slot old e ctx_def cong: if_cong)
  qed
  have ap: "VMallocToPhys os v' \<noteq> VMallocToPhys os v \<and> a' \<noteq> a" if "table s k = Some (a', v')" for k a' v'
    using table_frame [OF st(1) that] f(4,5) by (metis option.distinct(1))
  show fr: "frame os s' = (frame os s)(PDof c \<mapsto> replicate 1024 0)"
  proof
    fix k
    show "frame os s' k = ((frame os s)(PDof c \<mapsto> replicate 1024 0)) k"
      using ap [of k] by (auto simp: frame_def t e(3) split: bind_splits)
  qed
  have "tables_ok os s'"
    unfolding tables_ok_def
  proof (intro conjI allI impI; (elim conjE)?)
    fix k h' v' assume k: "table s' k = Some (h', v')"
    show "v' \<noteq> NULL" "h' \<noteq> NULL" "areas s' h' = Some (v', 1)" "take_bit 12 (VMallocToPhys os v') = 0"
      "\<exists>fr. mem s' (VMallocToPhys os v') = Some fr \<and> length fr = 1024"
      using k f table_frame [OF st(1), of k h' v'] ap [of k h' v'] by (auto simp: t e split: if_splits)
  next
    fix k k' h1 v1 h2 v2 assume k: "table s' k = Some (h1, v1)" "table s' k' = Some (h2, v2)" "k \<noteq> k'"
    show "VMallocToPhys os v1 \<noteq> VMallocToPhys os v2" "h1 \<noteq> h2"
      using k ap [of k h1 v1] ap [of k' h2 v2] table_apart [OF st(1), of k h1 v1 k' h2 v2] by (auto simp: t split: if_splits)
  qed
  moreover have "slots_ok s'" using st(1) by (auto simp: slots_ok_def mmu_struct_def slot e(1) split: if_splits)
  moreover have "ctxs_ok os s'"
  proof -
    obtain cs where cs: "ctx_list s (pvMMUContextList s) cs" "distinct cs" "set cs = dom (mmu_ctxs s)"
      using st(1) by (auto simp: mmu_struct_def ctxs_ok_def)
    have nc: "c \<notin> set cs" using cs(3) c(1) by auto
    have "ctx_list s' p ds = ctx_list s p ds" if "c \<notin> set ds" for p ds
      using that by (induction ds arbitrary: p) (auto simp: e(2))
    then have "ctx_list s' c (c # cs)" using cs(1) nc c(2) by (simp add: e(2) ctx_def)
    moreover have "distinct (c # cs)" "set (c # cs) = dom (mmu_ctxs s')" using cs(2,3) nc by (auto simp: e(2))
    moreover have "\<forall>c ctx. mmu_ctxs s' c = Some ctx \<longrightarrow>
        length (apsPTInfoList ctx) = 1024 \<and> sPDDevPAddr ctx = VMallocToPhys os (pvPDCpuVAddr ctx)"
      using st(1) by (auto simp: mmu_struct_def ctxs_ok_def e(2) ctx_def)
    ultimately show ?thesis unfolding ctxs_ok_def e(5) by blast
  qed
  moreover have "counts_ok os s'"
    using st(2) by (auto simp: counts_ok_def slot fr e(1) split: if_splits)
  ultimately show "mmu_inv os s'" using e(6) by (simp add: mmu_inv_def mmu_struct_def)
qed

text \<open>The kernel hands out objects that are not contexts in use.\<close>

definition ctxs_fresh :: "mmu_state \<Rightarrow> bool" where
  "ctxs_fresh s \<longleftrightarrow> (\<forall>p \<in> set (mmu_km s). p \<noteq> NULL \<longrightarrow> mmu_ctxs s p = None)"

lemma MMU_Initialise_spec:
  assumes inv: "mmu_inv os s" and fr: "ctxs_fresh s" "mmu_fresh os s"
  shows "\<exists>e c pa s'. MMU_Initialise os s = Some (e, c, pa, s') \<and> mmu_inv os s' \<and>
     (if e = PVRSRV_OK
      then mmu_ctxs s c = None \<and> c \<noteq> NULL \<and> dom (mmu_ctxs s') = insert c (dom (mmu_ctxs s)) \<and>
         (\<forall>k. k \<noteq> PDof c \<longrightarrow> table s' k = table s k) \<and> frame os s' = (frame os s)(PDof c \<mapsto> replicate 1024 0)
      else core s' = core s)"
proof -
  obtain e c km where o: "OSAllocMem (mmu_km s) = (e, c, km)" by (cases rule: prod_cases3)
  have la: "local_arena s = None" using inv by (simp add: mmu_inv_def mmu_struct_def)
  show ?thesis
  proof (cases "e = PVRSRV_OK")
    case False
    then have "MMU_Initialise os s = Some (PVRSRV_ERROR_GENERIC, NULL, 0, s\<lparr>mmu_km := km\<rparr>)" using o by (simp add: MMU_Initialise_def)
    then show ?thesis using inv core_cong(6) [of "s\<lparr>mmu_km := km\<rparr>" s os] by auto
  next
    case True
    then have c: "c \<noteq> NULL" "mmu_ctxs s c = None" using o fr(1) by (cases "mmu_km s"; auto simp: ctxs_fresh_def split: if_splits)+
    define s1 where "s1 = s\<lparr>mmu_km := km\<rparr>"
    obtain ok v a s2 where p: "OSAllocPages os 1 s1 = (ok, v, a, s2)" by (cases rule: prod_cases4)
    have f1: "mmu_fresh os s1" unfolding s1_def by (rule mmu_fresh_tail [OF fr(2) OSAllocMem_tail [OF o]])
    have q1: "(\<not> ok \<longrightarrow> core s2 = core s1) \<and> (ok \<longrightarrow> v \<noteq> NULL \<and> a \<noteq> NULL \<and> take_bit 12 (VMallocToPhys os v) = 0 \<and>
        mem s1 (VMallocToPhys os v) = None \<and> areas s1 a = None \<and>
        core s2 = (pt_infos s1, mmu_ctxs s1, (mem s1)(VMallocToPhys os v \<mapsto> raw_frame s1 (VMallocToPhys os v)), (areas s1)(a \<mapsto> (v, 1)),
           pvMMUContextList s1, local_arena s1))"
      using OSAllocPages_fresh [OF f1 p] by (auto simp: core_def)
    have e1: "pt_infos s1 = pt_infos s" "mmu_ctxs s1 = mmu_ctxs s" "mem s1 = mem s" "raw_frame s1 = raw_frame s" "areas s1 = areas s"
      "pvMMUContextList s1 = pvMMUContextList s" "local_arena s1 = local_arena s" by (simp_all add: s1_def)
    note q = q1 [unfolded e1]
    show ?thesis
    proof (cases ok)
      case False
      then have "MMU_Initialise os s = Some (PVRSRV_ERROR_GENERIC, NULL, 0, s2)" using o True p la
        by (simp add: MMU_Initialise_def alloc_pd_page_def s1_def)
      moreover have "core s2 = core s" using q False by (simp add: s1_def)
      ultimately show ?thesis using inv core_cong(6) [of s2 s os] by auto
    next
      case ok: True
      note q = q [THEN conjunct2, rule_format, OF ok]
      define s' where "s' = s2\<lparr>mem := (mem s2)(VMallocToPhys os v \<mapsto> replicate 1024 0),
         mmu_ctxs := (mmu_ctxs s2)(c \<mapsto> \<lparr>pvPDCpuVAddr = v, sPDDevPAddr = VMallocToPhys os v, hPDOSMemHandle = a,
           apsPTInfoList = replicate 1024 NULL, mmu_psNext = pvMMUContextList s2\<rparr>), pvMMUContextList := c\<rparr>"
      have run: "MMU_Initialise os s = Some (PVRSRV_OK, c, VMallocToPhys os v, s')"
        using o True p la ok q by (simp add: MMU_Initialise_def alloc_pd_page_def s1_def [symmetric] put_frame_def get_frame_def core_def
            OSMapLinToCPUPhys_def SysCpuPAddrToDevPAddr_def s'_def e1)
      have "core s' = (pt_infos s, (mmu_ctxs s)(c \<mapsto> \<lparr>pvPDCpuVAddr = v, sPDDevPAddr = VMallocToPhys os v, hPDOSMemHandle = a,
           apsPTInfoList = replicate 1024 NULL, mmu_psNext = pvMMUContextList s\<rparr>),
          (mem s)(VMallocToPhys os v \<mapsto> replicate 1024 0), (areas s)(a \<mapsto> (v, 1)), c, local_arena s)"
        using q by (auto simp: core_def s'_def)
      note n = new_ctx [OF inv c(2,1) _ _ _ _ _ this]
      have "dom (mmu_ctxs s') = insert c (dom (mmu_ctxs s))" using q by (auto simp: s'_def core_def)
      then show ?thesis using run n q c by auto
    qed
  qed
qed

subsection \<open>Showing a heap in a context\<close>

lemma copy_pdes_spec:
  assumes "mmu_struct os s" "table s (PDof c) = Some (ha, va)" "frame os s (PDof c) = Some fd"
    "table s (PDof k) = Some (hk, vk)" "frame os s (PDof k) = Some fs" "c \<noteq> k" "i + n \<le> 1024"
  shows "\<exists>b' m. copy_pdes os va vk i n b s = Some (b', s\<lparr>mem := m\<rparr>) \<and> mmu_struct os (s\<lparr>mem := m\<rparr>) \<and>
     (\<exists>fd'. frame os (s\<lparr>mem := m\<rparr>) = (frame os s)(PDof c \<mapsto> fd') \<and> length fd' = 1024 \<and>
        (\<forall>j < 1024. fd' ! j = (if j \<in> {i..<i + n} then fs ! j else fd ! j)))"
  using assms
proof (induction n arbitrary: i b s fd)
  case 0
  have "s\<lparr>mem := mem s\<rparr> = s" by simp
  moreover have "(frame os s)(PDof c \<mapsto> fd) = frame os s" using 0 by (intro fun_upd_idem) simp
  ultimately have "copy_pdes os va vk i 0 b s = Some (b, s\<lparr>mem := mem s\<rparr>)" "mmu_struct os (s\<lparr>mem := mem s\<rparr>)"
    "frame os (s\<lparr>mem := mem s\<rparr>) = (frame os s)(PDof c \<mapsto> fd)" using 0 by simp_all
  moreover have "\<forall>j < 1024. fd ! j = (if j \<in> {i..<i + 0} then fs ! j else fd ! j)" by simp
  ultimately show ?case using frame_length [OF 0(1,3)] by blast
next
  case (Suc n)
  have r: "read_word os vk i s = Some (fs ! i)" by (rule read_word_spec [OF Suc.prems(1,4,5)]) (use Suc.prems in simp)
  have lt: "i < 1024" using Suc.prems(7) by simp
  define s1 where "s1 = s\<lparr>mem := (mem s)(VMallocToPhys os va \<mapsto> fd[i := fs ! i])\<rparr>"
  note w = write_word_spec [OF Suc.prems(1-3) lt, of "fs ! i", folded s1_def]
  have t1: "table s1 = table s" by (simp add: s1_def)
  have p1: "mmu_struct os s1" "table s1 (PDof c) = Some (ha, va)" "frame os s1 (PDof c) = Some (fd[i := fs ! i])"
    "table s1 (PDof k) = Some (hk, vk)" "frame os s1 (PDof k) = Some fs" "Suc i + n \<le> 1024"
    using w(2,3) Suc.prems by (simp_all add: t1 del: table.simps)
  obtain b' m fd' where m: "copy_pdes os va vk (Suc i) n (b \<or> fs ! i \<noteq> 0) s1 = Some (b', s1\<lparr>mem := m\<rparr>)" "mmu_struct os (s1\<lparr>mem := m\<rparr>)"
    "frame os (s1\<lparr>mem := m\<rparr>) = (frame os s1)(PDof c \<mapsto> fd')" "length fd' = 1024"
    "\<And>j. j < 1024 \<Longrightarrow> fd' ! j = (if j \<in> {Suc i..<Suc i + n} then fs ! j else fd[i := fs ! i] ! j)"
    using Suc.IH [OF p1(1-5) Suc.prems(6) p1(6)] by blast
  have e: "s1\<lparr>mem := m\<rparr> = s\<lparr>mem := m\<rparr>" by (simp add: s1_def)
  have "copy_pdes os va vk i (Suc n) b s = Some (b', s\<lparr>mem := m\<rparr>)" using r w(1) m(1) by (simp add: e)
  moreover have "frame os (s\<lparr>mem := m\<rparr>) = (frame os s)(PDof c \<mapsto> fd')" using m(3) w(3) by (simp add: e)
  moreover have "fd' ! j = (if j \<in> {i..<i + Suc n} then fs ! j else fd ! j)" if "j < 1024" for j
    using m(5) [OF that] frame_length [OF Suc.prems(1,3)] that by (cases "j = i") (auto simp: nth_list_update)
  ultimately show ?case using m(2,4) by (metis e)
qed

text \<open>A heap that is shown in all its contexts but one.\<close>

definition heap_ok_but :: "mmu_os \<Rightarrow> ptr \<Rightarrow> MMU_HEAP \<Rightarrow> mmu_state \<Rightarrow> bool" where
  "heap_ok_but os c h s \<longleftrightarrow> psMMUContext h \<in> dom (mmu_ctxs s) - {c} \<and> heap_type_ok h \<and>
     (\<forall>i \<in> heap_slots h. \<forall>c' \<in> sharers h s - {c}. \<exists>pd. frame os s (PDof c') = Some pd \<and> pd ! i = pde_of os s h i)"

text \<open>The slots that \<open>MMU_InsertHeap\<close> copies are those of the heap.\<close>

definition whole_slots :: "MMU_HEAP \<Rightarrow> bool" where
  "whole_slots h \<longleftrightarrow> (let b = unat (pd_index (BaseDevVAddr (psDevArena h))); n = unat (ui32PTPageCount h)
     in heap_slots h = {b..<b + n} \<and> b + n \<le> 1024)"

lemma MMU_InsertHeap_spec:
  assumes inv: "mmu_inv os s" and h: "heap_ok_but os c h s" and c: "c \<in> dom (mmu_ctxs s)" and w: "whole_slots h"
  shows "\<exists>s'. MMU_InsertHeap os c h s = Some s' \<and> mmu_inv os s' \<and> heap_ok os h s' \<and> mmu_ctxs s' = mmu_ctxs s \<and> table s' = table s \<and>
     (\<forall>k. k \<noteq> PDof c \<longrightarrow> frame os s' k = frame os s k) \<and>
     (\<forall>fd. frame os s (PDof c) = Some fd \<longrightarrow> (\<exists>fd'. frame os s' (PDof c) = Some fd' \<and>
        (\<forall>j < 1024. j \<notin> heap_slots h \<longrightarrow> fd' ! j = fd ! j)))"
proof -
  have st: "mmu_struct os s" "counts_ok os s" using inv by (simp_all add: mmu_inv_def)
  let ?k = "psMMUContext h"
  let ?i = "unat (pd_index (BaseDevVAddr (psDevArena h)))" and ?n = "unat (ui32PTPageCount h)"
  have sl: "heap_slots h = {?i..<?i + ?n}" "?i + ?n \<le> 1024" using w by (simp_all add: whole_slots_def Let_def)
  have k: "?k \<in> dom (mmu_ctxs s)" "?k \<noteq> c" "heap_type_ok h" using h by (auto simp: heap_ok_but_def)
  obtain ctx kctx where x: "mmu_ctxs s c = Some ctx" "mmu_ctxs s ?k = Some kctx" using c k(1) by auto
  have t: "table s (PDof c) = Some (hPDOSMemHandle ctx, pvPDCpuVAddr ctx)" "table s (PDof ?k) = Some (hPDOSMemHandle kctx, pvPDCpuVAddr kctx)"
    using x by simp_all
  obtain fd where fd: "frame os s (PDof c) = Some fd" by (rule table_frame [OF st(1) t(1)])
  obtain fs where fs: "frame os s (PDof ?k) = Some fs" by (rule table_frame [OF st(1) t(2)])
  obtain b m fd' where m: "copy_pdes os (pvPDCpuVAddr ctx) (pvPDCpuVAddr kctx) ?i ?n False s = Some (b, s\<lparr>mem := m\<rparr>)"
    "mmu_struct os (s\<lparr>mem := m\<rparr>)" "frame os (s\<lparr>mem := m\<rparr>) = (frame os s)(PDof c \<mapsto> fd')"
    "\<And>j. j < 1024 \<Longrightarrow> fd' ! j = (if j \<in> {?i..<?i + ?n} then fs ! j else fd ! j)"
    using copy_pdes_spec [OF st(1) t(1) fd t(2) fs k(2) [symmetric] sl(2)] by blast
  define s' where "s' = (if b then MMU_InvalidateDirectoryCache (s\<lparr>mem := m\<rparr>) else s\<lparr>mem := m\<rparr>)"
  have co: "core s' = core (s\<lparr>mem := m\<rparr>)" by (simp add: s'_def)
  have run: "MMU_InsertHeap os c h s = Some s'" using x m(1) by (simp add: MMU_InsertHeap_def s'_def)
  have f: "frame os s' = (frame os s)(PDof c \<mapsto> fd')" "table s' = table s" "mmu_ctxs s' = mmu_ctxs s" "pt_infos s' = pt_infos s" "pt_slot s' = pt_slot s"
    using core_cong(1,2,4,10,11) [OF co] m(3) by simp_all
  have inv': "mmu_inv os s'"
    using core_cong(5) [OF co, of os] m(2) counts_ok_cong [OF st(2) f(5,4)] f(1) by (simp add: mmu_inv_def)
  have "\<exists>pd. frame os s' (PDof c') = Some pd \<and> pd ! i = pde_of os s' h i" if i: "i \<in> heap_slots h" and c': "c' \<in> sharers h s'" for i c'
  proof (cases "c' = c")
    case True
    have "?k \<in> sharers h s" using k(1) by (simp add: sharers_def)
    then have "\<exists>pd. frame os s (PDof ?k) = Some pd \<and> pd ! i = pde_of os s h i"
      using h i k(2) unfolding heap_ok_but_def by blast
    then have "fs ! i = pde_of os s h i" using fs by simp
    moreover have "fd' ! i = fs ! i" using m(4) [of i] i sl by simp
    ultimately show ?thesis using True f(1,2) by (simp add: pde_of_def del: table.simps)
  next
    case False
    then have "c' \<in> sharers h s - {c}" using c' f(3) by (auto simp: sharers_def split: if_splits)
    then show ?thesis using h i False f(1,2) by (simp add: heap_ok_but_def pde_of_def del: table.simps)
  qed
  then have "heap_ok os h s'" using k f(3) by (simp add: heap_ok_def)
  then show ?thesis using run inv' f(1-3) fd m(4) sl by auto
qed

text \<open>
  The loop of \<^verbatim>\<open>BM_CreateContext\<close> over the heaps of the kernel context: the shared ones are shown in
  the new context.
\<close>

fun insert_shared_heaps :: "mmu_os \<Rightarrow> ptr \<Rightarrow> MMU_HEAP list \<Rightarrow> mmu_state \<Rightarrow> mmu_state option" where
  "insert_shared_heaps os c [] s = Some s"
| "insert_shared_heaps os c (h # hs) s = do {
     let t = DevMemHeapType (psDevArena h);
     s \<leftarrow> (if t = DEVICE_MEMORY_HEAP_SHARED \<or> t = DEVICE_MEMORY_HEAP_SHARED_EXPORTED
           then MMU_InsertHeap os c h s else Some s);
     insert_shared_heaps os c hs s
   }"

lemma heap_ok_but_frame:
  assumes "heap_ok_but os c g s" "mmu_ctxs s' = mmu_ctxs s" "table s' = table s" "\<forall>k. k \<noteq> PDof c \<longrightarrow> frame os s' k = frame os s k"
  shows "heap_ok_but os c g s'"
proof -
  have "pde_of os s' g i = pde_of os s g i" for i using assms(3) by (simp add: pde_of_def del: table.simps)
  moreover have "sharers g s' = sharers g s" using assms(2) by (simp add: sharers_def)
  ultimately show ?thesis using assms by (simp add: heap_ok_but_def)
qed

lemma heap_ok_insert:
  assumes inv: "mmu_struct os s" and g: "heap_ok os g s" and e: "mmu_ctxs s' = mmu_ctxs s" "table s' = table s"
    and f: "\<forall>k. k \<noteq> PDof c \<longrightarrow> frame os s' k = frame os s k"
    and n: "\<forall>fd. frame os s (PDof c) = Some fd \<longrightarrow> (\<exists>fd'. frame os s' (PDof c) = Some fd' \<and> (\<forall>j < 1024. j \<notin> S \<longrightarrow> fd' ! j = fd ! j))"
    and S: "heap_slots g \<inter> S = {}" "heap_slots g \<subseteq> {..<1024}"
  shows "heap_ok os g s'"
proof -
  have p: "pde_of os s' g i = pde_of os s g i" for i using e(2) by (simp add: pde_of_def del: table.simps)
  have sh: "sharers g s' = sharers g s" using e(1) by (simp add: sharers_def)
  have "\<exists>pd. frame os s' (PDof c') = Some pd \<and> pd ! i = pde_of os s' g i" if i: "i \<in> heap_slots g" and c': "c' \<in> sharers g s" for i c'
  proof -
    obtain pd where pd: "frame os s (PDof c') = Some pd" "pd ! i = pde_of os s g i" using g i c' by (auto simp: heap_ok_def)
    have "i < 1024" "i \<notin> S" using i S by auto
    then show ?thesis using pd n f p by (cases "c' = c") auto
  qed
  then show ?thesis using g e(1) sh by (simp add: heap_ok_def)
qed

lemma insert_shared_heaps_spec:
  assumes "mmu_inv os s" "c \<in> dom (mmu_ctxs s)" "\<forall>h \<in> set hs. heap_ok_but os c h s \<and> whole_slots h"
    "distinct hs" "\<forall>h \<in> set hs. \<forall>g \<in> set hs \<union> set ds. h \<noteq> g \<longrightarrow> shared_heap h \<longrightarrow> heap_slots h \<inter> heap_slots g = {}"
    "\<forall>g \<in> set ds. heap_ok os g s \<and> heap_slots g \<subseteq> {..<1024}" "set ds \<inter> set hs = {}"
  shows "\<exists>s'. insert_shared_heaps os c hs s = Some s' \<and> mmu_inv os s' \<and> mmu_ctxs s' = mmu_ctxs s \<and> table s' = table s \<and>
     (\<forall>h \<in> set ds \<union> set hs. heap_ok os h s') \<and> (\<forall>k. k \<noteq> PDof c \<longrightarrow> frame os s' k = frame os s k)"
  using assms
proof (induction hs arbitrary: s ds)
  case Nil
  then show ?case by simp
next
  case (Cons h hs)
  have sl: "heap_slots h \<subseteq> {..<1024}" using Cons.prems(3) by (auto simp: whole_slots_def Let_def)
  obtain s1 where s1: "(if shared_heap h then MMU_InsertHeap os c h s else Some s) = Some s1" "mmu_inv os s1" "heap_ok os h s1"
    "mmu_ctxs s1 = mmu_ctxs s" "table s1 = table s" "\<forall>k. k \<noteq> PDof c \<longrightarrow> frame os s1 k = frame os s k"
    "\<forall>g \<in> set ds. heap_ok os g s1"
  proof (cases "shared_heap h")
    case True
    obtain s1 where s1: "MMU_InsertHeap os c h s = Some s1" "mmu_inv os s1" "heap_ok os h s1"
      "mmu_ctxs s1 = mmu_ctxs s" "table s1 = table s" "\<forall>k. k \<noteq> PDof c \<longrightarrow> frame os s1 k = frame os s k"
      "\<forall>fd. frame os s (PDof c) = Some fd \<longrightarrow> (\<exists>fd'. frame os s1 (PDof c) = Some fd' \<and>
         (\<forall>j < 1024. j \<notin> heap_slots h \<longrightarrow> fd' ! j = fd ! j))"
      using MMU_InsertHeap_spec [OF Cons.prems(1) _ Cons.prems(2), of h] Cons.prems(3) by (auto simp del: table.simps)
    have "heap_ok os g s1" if g: "g \<in> set ds" for g
    proof (rule heap_ok_insert [OF _ _ s1(4-7)])
      show "mmu_struct os s" using Cons.prems(1) by (simp add: mmu_inv_def)
      show "heap_ok os g s" "heap_slots g \<subseteq> {..<1024}" using Cons.prems(6) g by simp_all
      show "heap_slots g \<inter> heap_slots h = {}" using Cons.prems(5,7) g True by (metis Int_commute IntI UnI2 empty_iff list.set_intros(1))
    qed
    then show thesis using that s1(1-6) True by simp
  next
    case False
    have "heap_ok os h s" using Cons.prems(3) False by (auto simp: heap_ok_but_def heap_ok_def sharers_def)
    then show thesis using that [of s] False Cons.prems(1,6) by simp
  qed
  have "\<forall>g \<in> set hs. heap_ok_but os c g s1 \<and> whole_slots g" using Cons.prems(3) heap_ok_but_frame [OF _ s1(4-6)] by simp
  moreover have "\<forall>g \<in> set (h # ds). heap_ok os g s1 \<and> heap_slots g \<subseteq> {..<1024}" using s1(3,7) Cons.prems(6) sl by simp
  moreover have "\<forall>h' \<in> set hs. \<forall>g \<in> set hs \<union> set (h # ds). h' \<noteq> g \<longrightarrow> shared_heap h' \<longrightarrow> heap_slots h' \<inter> heap_slots g = {}"
    using Cons.prems(5) by auto
  moreover have "set (h # ds) \<inter> set hs = {}" using Cons.prems(4,7) by auto
  ultimately obtain s2 where s2: "insert_shared_heaps os c hs s1 = Some s2" "mmu_inv os s2" "mmu_ctxs s2 = mmu_ctxs s1" "table s2 = table s1"
    "\<forall>h \<in> set (h # ds) \<union> set hs. heap_ok os h s2" "\<forall>k. k \<noteq> PDof c \<longrightarrow> frame os s2 k = frame os s1 k"
    using Cons.IH [OF s1(2), of "h # ds"] Cons.prems(2,4) s1(4) by (auto simp del: table.simps)
  have "insert_shared_heaps os c (h # hs) s = Some s2" using s1(1) s2(1) by (auto simp: shared_heap_def Let_def)
  then show ?case using s2(2-6) s1(4-6) by auto
qed

end
