(* ===== verification/Pvr_Sgx_Heaps.thy ===== *)
theory Pvr_Sgx_Heaps
  imports Pvr_Mmu_Ctx
begin

text \<open>
  The heaps of the SGX device: the table that \<^verbatim>\<open>SGXRegisterDevice\<close> of \<^verbatim>\<open>src/pvr/sgxinit.c\<close> fills from the
  constants of \<^verbatim>\<open>src/pvr/sgxconfig.h\<close>, and that it satisfies what the MMU relies on.
\<close>

subsection \<open>Constants\<close>

definition PVRSRV_MEM_RAM_BACKED_ALLOCATION :: u32 where "PVRSRV_MEM_RAM_BACKED_ALLOCATION = 0x200"

definition PVRSRV_HAP_WRITECOMBINE :: u32 where "PVRSRV_HAP_WRITECOMBINE = 0x4000"

definition PVRSRV_HAP_SINGLE_PROCESS :: u32 where "PVRSRV_HAP_SINGLE_PROCESS = 0x10000"

definition PVRSRV_HAP_MULTI_PROCESS :: u32 where "PVRSRV_HAP_MULTI_PROCESS = 0x20000"

definition PVRSRV_DEVICE_TYPE_SGX :: u32 where "PVRSRV_DEVICE_TYPE_SGX = 7"

definition SGX_FEATURE_ADDRESS_SPACE_SIZE :: u32 where "SGX_FEATURE_ADDRESS_SPACE_SIZE = 28"

definition HEAP_ID :: "u32 \<Rightarrow> u32 \<Rightarrow> u32" where
  "HEAP_ID dev dev_heap_idx = push_bit 24 dev OR (dev_heap_idx AND (push_bit 24 1 - 1))"

definition HEAP_IDX :: "u32 \<Rightarrow> u32" where
  "HEAP_IDX heap_id = heap_id AND (push_bit 24 1 - 1)"

definition HEAP_DEV :: "u32 \<Rightarrow> u32" where
  "HEAP_DEV heap_id = drop_bit 24 heap_id"

definition SGX_GENERAL_HEAP_ID :: u32 where "SGX_GENERAL_HEAP_ID = 0"

definition SGX_TADATA_HEAP_ID :: u32 where "SGX_TADATA_HEAP_ID = 1"

definition SGX_KERNEL_CODE_HEAP_ID :: u32 where "SGX_KERNEL_CODE_HEAP_ID = 2"

definition SGX_KERNEL_DATA_HEAP_ID :: u32 where "SGX_KERNEL_DATA_HEAP_ID = 3"

definition SGX_PIXELSHADER_HEAP_ID :: u32 where "SGX_PIXELSHADER_HEAP_ID = 4"

definition SGX_VERTEXSHADER_HEAP_ID :: u32 where "SGX_VERTEXSHADER_HEAP_ID = 5"

definition SGX_PDSPIXEL_CODEDATA_HEAP_ID :: u32 where "SGX_PDSPIXEL_CODEDATA_HEAP_ID = 6"

definition SGX_PDSVERTEX_CODEDATA_HEAP_ID :: u32 where "SGX_PDSVERTEX_CODEDATA_HEAP_ID = 7"

definition SGX_SYNCINFO_HEAP_ID :: u32 where "SGX_SYNCINFO_HEAP_ID = 8"

definition SGX_3DPARAMETERS_HEAP_ID :: u32 where "SGX_3DPARAMETERS_HEAP_ID = 9"

definition SGX_MAX_HEAP_ID :: u32 where "SGX_MAX_HEAP_ID = 10"

subsection \<open>The table\<close>

record DEVICE_MEMORY_HEAP_INFO =
  hi_ui32HeapID :: u32
  pszName :: string
  pszBSName :: string
  sDevVAddrBase :: u32
  ui32HeapSize :: u32
  hi_ui32Attribs :: u32
  hi_DevMemHeapType :: u32
  hDevMemHeap :: ptr
  psLocalDevMemArena :: ptr
  ui32DataPageSize :: u32

text \<open>The part of \<^verbatim>\<open>struct DEVICE_MEMORY_INFO\<close> that registration fills in.\<close>

record DEVICE_MEMORY_INFO =
  ui32AddressSpaceSizeLog2 :: u32
  dmi_ui32Flags :: u32
  ui32HeapCount :: u32
  ui32SyncHeapID :: u32
  ui32MappingHeapID :: u32
  psDeviceMemoryHeap :: "DEVICE_MEMORY_HEAP_INFO list"

definition SGX_GENERAL_HEAP_BASE :: u32 where "SGX_GENERAL_HEAP_BASE = 0x01800000"

definition SGX_GENERAL_HEAP_SIZE :: u32 where "SGX_GENERAL_HEAP_SIZE = 0x06C00000 - 0x00001000"

definition heap_GENERAL :: DEVICE_MEMORY_HEAP_INFO where
  "heap_GENERAL = \<lparr>hi_ui32HeapID = HEAP_ID PVRSRV_DEVICE_TYPE_SGX SGX_GENERAL_HEAP_ID, pszName = ''General'',
     pszBSName = ''General BS'', sDevVAddrBase = SGX_GENERAL_HEAP_BASE, ui32HeapSize = SGX_GENERAL_HEAP_SIZE,
     hi_ui32Attribs = PVRSRV_HAP_WRITECOMBINE OR PVRSRV_MEM_RAM_BACKED_ALLOCATION OR PVRSRV_HAP_SINGLE_PROCESS,
     hi_DevMemHeapType = DEVICE_MEMORY_HEAP_PERCONTEXT, hDevMemHeap = NULL, psLocalDevMemArena = NULL,
     ui32DataPageSize = SGX_MMU_PAGE_SIZE\<rparr>"

definition SGX_TADATA_HEAP_BASE :: u32 where "SGX_TADATA_HEAP_BASE = 0x0C400000"

definition SGX_TADATA_HEAP_SIZE :: u32 where "SGX_TADATA_HEAP_SIZE = 0x01000000 - 0x00001000"

definition heap_TADATA :: DEVICE_MEMORY_HEAP_INFO where
  "heap_TADATA = \<lparr>hi_ui32HeapID = HEAP_ID PVRSRV_DEVICE_TYPE_SGX SGX_TADATA_HEAP_ID, pszName = ''TA Data'',
     pszBSName = ''TA Data BS'', sDevVAddrBase = SGX_TADATA_HEAP_BASE, ui32HeapSize = SGX_TADATA_HEAP_SIZE,
     hi_ui32Attribs = PVRSRV_HAP_WRITECOMBINE OR PVRSRV_MEM_RAM_BACKED_ALLOCATION OR PVRSRV_HAP_MULTI_PROCESS,
     hi_DevMemHeapType = DEVICE_MEMORY_HEAP_PERCONTEXT, hDevMemHeap = NULL, psLocalDevMemArena = NULL,
     ui32DataPageSize = SGX_MMU_PAGE_SIZE\<rparr>"

definition SGX_KERNEL_CODE_HEAP_BASE :: u32 where "SGX_KERNEL_CODE_HEAP_BASE = 0x0EC00000"

definition SGX_KERNEL_CODE_HEAP_SIZE :: u32 where "SGX_KERNEL_CODE_HEAP_SIZE = 0x00080000 - 0x00001000"

definition heap_KERNEL_CODE :: DEVICE_MEMORY_HEAP_INFO where
  "heap_KERNEL_CODE = \<lparr>hi_ui32HeapID = HEAP_ID PVRSRV_DEVICE_TYPE_SGX SGX_KERNEL_CODE_HEAP_ID, pszName = ''Kernel Code'',
     pszBSName = ''Kernel Code BS'', sDevVAddrBase = SGX_KERNEL_CODE_HEAP_BASE, ui32HeapSize = SGX_KERNEL_CODE_HEAP_SIZE,
     hi_ui32Attribs = PVRSRV_HAP_WRITECOMBINE OR PVRSRV_MEM_RAM_BACKED_ALLOCATION OR PVRSRV_HAP_MULTI_PROCESS,
     hi_DevMemHeapType = DEVICE_MEMORY_HEAP_SHARED_EXPORTED, hDevMemHeap = NULL, psLocalDevMemArena = NULL,
     ui32DataPageSize = SGX_MMU_PAGE_SIZE\<rparr>"

definition SGX_KERNEL_DATA_HEAP_BASE :: u32 where "SGX_KERNEL_DATA_HEAP_BASE = 0x0F000000"

definition SGX_KERNEL_DATA_HEAP_SIZE :: u32 where "SGX_KERNEL_DATA_HEAP_SIZE = 0x00400000 - 0x00001000"

definition heap_KERNEL_DATA :: DEVICE_MEMORY_HEAP_INFO where
  "heap_KERNEL_DATA = \<lparr>hi_ui32HeapID = HEAP_ID PVRSRV_DEVICE_TYPE_SGX SGX_KERNEL_DATA_HEAP_ID, pszName = ''KernelData'',
     pszBSName = ''KernelData BS'', sDevVAddrBase = SGX_KERNEL_DATA_HEAP_BASE, ui32HeapSize = SGX_KERNEL_DATA_HEAP_SIZE,
     hi_ui32Attribs = PVRSRV_HAP_WRITECOMBINE OR PVRSRV_MEM_RAM_BACKED_ALLOCATION OR PVRSRV_HAP_MULTI_PROCESS,
     hi_DevMemHeapType = DEVICE_MEMORY_HEAP_SHARED_EXPORTED, hDevMemHeap = NULL, psLocalDevMemArena = NULL,
     ui32DataPageSize = SGX_MMU_PAGE_SIZE\<rparr>"

definition SGX_PIXELSHADER_HEAP_BASE :: u32 where "SGX_PIXELSHADER_HEAP_BASE = 0x0F400000"

definition SGX_PIXELSHADER_HEAP_SIZE :: u32 where "SGX_PIXELSHADER_HEAP_SIZE = 0x00500000 - 0x00001000"

definition heap_PIXELSHADER :: DEVICE_MEMORY_HEAP_INFO where
  "heap_PIXELSHADER = \<lparr>hi_ui32HeapID = HEAP_ID PVRSRV_DEVICE_TYPE_SGX SGX_PIXELSHADER_HEAP_ID, pszName = ''PixelShaderUSSE'',
     pszBSName = ''PixelShaderUSSE BS'', sDevVAddrBase = SGX_PIXELSHADER_HEAP_BASE, ui32HeapSize = SGX_PIXELSHADER_HEAP_SIZE,
     hi_ui32Attribs = PVRSRV_HAP_WRITECOMBINE OR PVRSRV_MEM_RAM_BACKED_ALLOCATION OR PVRSRV_HAP_SINGLE_PROCESS,
     hi_DevMemHeapType = DEVICE_MEMORY_HEAP_PERCONTEXT, hDevMemHeap = NULL, psLocalDevMemArena = NULL,
     ui32DataPageSize = SGX_MMU_PAGE_SIZE\<rparr>"

definition SGX_VERTEXSHADER_HEAP_BASE :: u32 where "SGX_VERTEXSHADER_HEAP_BASE = 0x0FC00000"

definition SGX_VERTEXSHADER_HEAP_SIZE :: u32 where "SGX_VERTEXSHADER_HEAP_SIZE = 0x00200000 - 0x00001000"

definition heap_VERTEXSHADER :: DEVICE_MEMORY_HEAP_INFO where
  "heap_VERTEXSHADER = \<lparr>hi_ui32HeapID = HEAP_ID PVRSRV_DEVICE_TYPE_SGX SGX_VERTEXSHADER_HEAP_ID, pszName = ''VertexShaderUSSE'',
     pszBSName = ''VertexShaderUSSE BS'', sDevVAddrBase = SGX_VERTEXSHADER_HEAP_BASE, ui32HeapSize = SGX_VERTEXSHADER_HEAP_SIZE,
     hi_ui32Attribs = PVRSRV_HAP_WRITECOMBINE OR PVRSRV_MEM_RAM_BACKED_ALLOCATION OR PVRSRV_HAP_SINGLE_PROCESS,
     hi_DevMemHeapType = DEVICE_MEMORY_HEAP_PERCONTEXT, hDevMemHeap = NULL, psLocalDevMemArena = NULL,
     ui32DataPageSize = SGX_MMU_PAGE_SIZE\<rparr>"

definition SGX_PDSPIXEL_CODEDATA_HEAP_BASE :: u32 where "SGX_PDSPIXEL_CODEDATA_HEAP_BASE = 0x0D800000"

definition SGX_PDSPIXEL_CODEDATA_HEAP_SIZE :: u32 where "SGX_PDSPIXEL_CODEDATA_HEAP_SIZE = 0x00800000 - 0x00001000"

definition heap_PDSPIXEL_CODEDATA :: DEVICE_MEMORY_HEAP_INFO where
  "heap_PDSPIXEL_CODEDATA = \<lparr>hi_ui32HeapID = HEAP_ID PVRSRV_DEVICE_TYPE_SGX SGX_PDSPIXEL_CODEDATA_HEAP_ID, pszName = ''PDSPixelCodeData'',
     pszBSName = ''PDSPixelCodeData BS'', sDevVAddrBase = SGX_PDSPIXEL_CODEDATA_HEAP_BASE, ui32HeapSize = SGX_PDSPIXEL_CODEDATA_HEAP_SIZE,
     hi_ui32Attribs = PVRSRV_HAP_WRITECOMBINE OR PVRSRV_MEM_RAM_BACKED_ALLOCATION OR PVRSRV_HAP_SINGLE_PROCESS,
     hi_DevMemHeapType = DEVICE_MEMORY_HEAP_PERCONTEXT, hDevMemHeap = NULL, psLocalDevMemArena = NULL,
     ui32DataPageSize = SGX_MMU_PAGE_SIZE\<rparr>"

definition SGX_PDSVERTEX_CODEDATA_HEAP_BASE :: u32 where "SGX_PDSVERTEX_CODEDATA_HEAP_BASE = 0x0E000000"

definition SGX_PDSVERTEX_CODEDATA_HEAP_SIZE :: u32 where "SGX_PDSVERTEX_CODEDATA_HEAP_SIZE = 0x00800000 - 0x00001000"

definition heap_PDSVERTEX_CODEDATA :: DEVICE_MEMORY_HEAP_INFO where
  "heap_PDSVERTEX_CODEDATA = \<lparr>hi_ui32HeapID = HEAP_ID PVRSRV_DEVICE_TYPE_SGX SGX_PDSVERTEX_CODEDATA_HEAP_ID, pszName = ''PDSVertexCodeData'',
     pszBSName = ''PDSVertexCodeData BS'', sDevVAddrBase = SGX_PDSVERTEX_CODEDATA_HEAP_BASE, ui32HeapSize = SGX_PDSVERTEX_CODEDATA_HEAP_SIZE,
     hi_ui32Attribs = PVRSRV_HAP_WRITECOMBINE OR PVRSRV_MEM_RAM_BACKED_ALLOCATION OR PVRSRV_HAP_SINGLE_PROCESS,
     hi_DevMemHeapType = DEVICE_MEMORY_HEAP_PERCONTEXT, hDevMemHeap = NULL, psLocalDevMemArena = NULL,
     ui32DataPageSize = SGX_MMU_PAGE_SIZE\<rparr>"

definition SGX_SYNCINFO_HEAP_BASE :: u32 where "SGX_SYNCINFO_HEAP_BASE = 0x0D400000"

definition SGX_SYNCINFO_HEAP_SIZE :: u32 where "SGX_SYNCINFO_HEAP_SIZE = 0x00400000 - 0x00001000"

definition heap_SYNCINFO :: DEVICE_MEMORY_HEAP_INFO where
  "heap_SYNCINFO = \<lparr>hi_ui32HeapID = HEAP_ID PVRSRV_DEVICE_TYPE_SGX SGX_SYNCINFO_HEAP_ID, pszName = ''CacheCoherent'',
     pszBSName = ''CacheCoherent BS'', sDevVAddrBase = SGX_SYNCINFO_HEAP_BASE, ui32HeapSize = SGX_SYNCINFO_HEAP_SIZE,
     hi_ui32Attribs = PVRSRV_HAP_WRITECOMBINE OR PVRSRV_MEM_RAM_BACKED_ALLOCATION OR PVRSRV_HAP_MULTI_PROCESS,
     hi_DevMemHeapType = DEVICE_MEMORY_HEAP_SHARED_EXPORTED, hDevMemHeap = NULL, psLocalDevMemArena = NULL,
     ui32DataPageSize = SGX_MMU_PAGE_SIZE\<rparr>"

definition SGX_3DPARAMETERS_HEAP_BASE :: u32 where "SGX_3DPARAMETERS_HEAP_BASE = 0x08400000"

definition SGX_3DPARAMETERS_HEAP_SIZE :: u32 where "SGX_3DPARAMETERS_HEAP_SIZE = 0x04000000 - 0x00001000"

definition heap_3DPARAMETERS :: DEVICE_MEMORY_HEAP_INFO where
  "heap_3DPARAMETERS = \<lparr>hi_ui32HeapID = HEAP_ID PVRSRV_DEVICE_TYPE_SGX SGX_3DPARAMETERS_HEAP_ID, pszName = ''3DParameters'',
     pszBSName = ''3DParameters BS'', sDevVAddrBase = SGX_3DPARAMETERS_HEAP_BASE, ui32HeapSize = SGX_3DPARAMETERS_HEAP_SIZE,
     hi_ui32Attribs = PVRSRV_HAP_WRITECOMBINE OR PVRSRV_MEM_RAM_BACKED_ALLOCATION OR PVRSRV_HAP_SINGLE_PROCESS,
     hi_DevMemHeapType = DEVICE_MEMORY_HEAP_PERCONTEXT, hDevMemHeap = NULL, psLocalDevMemArena = NULL,
     ui32DataPageSize = SGX_MMU_PAGE_SIZE\<rparr>"

text \<open>
  The device memory part of \<open>SGXRegisterDevice\<close>; the function pointers it stores in the device node are
  the functions of the MMU model. On a failed allocation the table stays empty.
\<close>

definition SGXRegisterDevice :: "kmem \<Rightarrow> PVRSRV_ERROR \<times> DEVICE_MEMORY_INFO \<times> kmem" where
  "SGXRegisterDevice km =
     (case OSAllocMem km of (e, _, km) \<Rightarrow>
        let info = \<lparr>ui32AddressSpaceSizeLog2 = SGX_FEATURE_ADDRESS_SPACE_SIZE, dmi_ui32Flags = 0,
               ui32HeapCount = SGX_MAX_HEAP_ID, ui32SyncHeapID = SGX_SYNCINFO_HEAP_ID,
               ui32MappingHeapID = SGX_GENERAL_HEAP_ID, psDeviceMemoryHeap = []\<rparr>
        in if e \<noteq> PVRSRV_OK then (PVRSRV_ERROR_OUT_OF_MEMORY, info, km)
           else (PVRSRV_OK, info\<lparr>psDeviceMemoryHeap :=
             [heap_GENERAL,
              heap_TADATA,
              heap_KERNEL_CODE,
              heap_KERNEL_DATA,
              heap_PIXELSHADER,
              heap_VERTEXSHADER,
              heap_PDSPIXEL_CODEDATA,
              heap_PDSVERTEX_CODEDATA,
              heap_SYNCINFO,
              heap_3DPARAMETERS]\<rparr>, km))"

text \<open>The arena descriptor that \<^verbatim>\<open>BM_CreateHeap\<close> derives from a table entry.\<close>

definition arena_descriptor :: "DEVICE_MEMORY_HEAP_INFO \<Rightarrow> DEV_ARENA_DESCRIPTOR" where
  "arena_descriptor i = \<lparr>BaseDevVAddr = sDevVAddrBase i, da_ui32Size = ui32HeapSize i, DevMemHeapType = hi_DevMemHeapType i\<rparr>"

subsection \<open>The heaps that the MMU makes of it\<close>

text \<open>The heap that \<open>MMU_Create\<close> fills in before it makes the arena.\<close>

definition new_heap :: "ptr \<Rightarrow> DEV_ARENA_DESCRIPTOR \<Rightarrow> MMU_HEAP" where
  "new_heap c d = AllocPageTables \<lparr>psMMUContext = c, ui32PTBaseIndex = 0, ui32PTPageCount = 0,
     ui32PTEntryCount = 0, psVMArena = None, psDevArena = d\<rparr>"

lemma new_heap_sel [simp]: "psDevArena (new_heap c d) = d" "psMMUContext (new_heap c d) = c"
  by (simp_all add: new_heap_def AllocPageTables_def Let_def)

text \<open>A heap that starts on a slot boundary and consists of whole pages owns the slots that its page count covers.\<close>

lemma ceil_slots: "0 < m \<Longrightarrow> (m + 1023) div 1024 = (4096 * m - 1) div 2 ^ 22 + (1 :: nat)"
proof -
  assume "0 < m"
  then obtain k where m: "m = Suc k" by (cases m) auto
  have "(4096 * m - 1) div 4096 = k" by (simp add: m)
  then have "(4096 * m - 1) div 2 ^ 22 = k div 1024" using div_mult2_eq [of "4096 * m - 1" 4096 1024] by simp
  moreover have "(m + 1023) div 1024 = k div 1024 + 1" by (simp add: m)
  ultimately show ?thesis by simp
qed

lemma new_heap_whole:
  assumes b: "2 ^ 22 dvd unat (BaseDevVAddr d)" and n: "4096 dvd unat (da_ui32Size d)" "da_ui32Size d \<noteq> 0"
    and e: "unat (BaseDevVAddr d) + unat (da_ui32Size d) \<le> 2 ^ 32"
  shows "whole_slots (new_heap c d)"
proof -
  obtain k where k: "unat (BaseDevVAddr d) = 2 ^ 22 * k" using b by (elim dvdE)
  obtain m where m: "unat (da_ui32Size d) = 4096 * m" using n(1) by (elim dvdE)
  have m0: "0 < m" using n(2) m by (cases m) (auto simp: unat_eq_zero)
  have "4096 * m \<le> 2 ^ 32" using e m by simp
  then have m1: "m \<le> 2 ^ 20" by simp
  have "unat (drop_bit 12 (da_ui32Size d)) = m" by (simp add: drop_bit_eq_div unat_div m)
  then have "unat (drop_bit 12 (da_ui32Size d) + 1024 - 1) = m + 1023"
    using m1 by (simp add: unat_word_ariths unat_sub_if')
  then have c: "unat (ui32PTPageCount (new_heap c d)) = (m + 1023) div 1024"
    by (simp add: new_heap_def AllocPageTables_def Let_def SGX_MMU_PT_SIZE_def drop_bit_eq_div unat_div)
  have b': "unat (pd_index (BaseDevVAddr d)) = k" by (simp add: pd_index_unat k)
  have hi: "(unat (BaseDevVAddr d) + unat (da_ui32Size d) - 1) div 2 ^ 22 = k + (4096 * m - 1) div 2 ^ 22"
  proof -
    have "unat (BaseDevVAddr d) + unat (da_ui32Size d) - 1 = (4096 * m - 1) + k * 2 ^ 22" using m0 by (simp add: k m)
    then show ?thesis using div_mult_self1 [of "2 ^ 22 :: nat" "4096 * m - 1" k] by simp
  qed
  have "heap_slots (new_heap c d) = {k..<k + (m + 1023) div 1024}"
    unfolding heap_slots_def Let_def new_heap_sel hi ceil_slots [OF m0] by (auto simp: k)
  moreover have "k + (m + 1023) div 1024 \<le> 1024"
  proof -
    have "2 ^ 22 * (k + (4096 * m - 1) div 2 ^ 22) \<le> 2 ^ 22 * k + (4096 * m - 1)" by (simp add: distrib_left)
    also have "\<dots> < 2 ^ 32" using e k m m0 by simp
    finally have "k + (4096 * m - 1) div 2 ^ 22 < 1024" by simp
    then show ?thesis using ceil_slots [OF m0] by simp
  qed
  ultimately show ?thesis by (simp add: whole_slots_def Let_def b' c)
qed

definition sgx_heaps :: "DEVICE_MEMORY_HEAP_INFO list" where
  "sgx_heaps = psDeviceMemoryHeap (fst (snd (SGXRegisterDevice [16])))"

lemmas sgx_table = SGXRegisterDevice_def HEAP_ID_def PVRSRV_DEVICE_TYPE_SGX_def
  heap_GENERAL_def SGX_GENERAL_HEAP_ID_def SGX_GENERAL_HEAP_BASE_def SGX_GENERAL_HEAP_SIZE_def
  heap_TADATA_def SGX_TADATA_HEAP_ID_def SGX_TADATA_HEAP_BASE_def SGX_TADATA_HEAP_SIZE_def
  heap_KERNEL_CODE_def SGX_KERNEL_CODE_HEAP_ID_def SGX_KERNEL_CODE_HEAP_BASE_def SGX_KERNEL_CODE_HEAP_SIZE_def
  heap_KERNEL_DATA_def SGX_KERNEL_DATA_HEAP_ID_def SGX_KERNEL_DATA_HEAP_BASE_def SGX_KERNEL_DATA_HEAP_SIZE_def
  heap_PIXELSHADER_def SGX_PIXELSHADER_HEAP_ID_def SGX_PIXELSHADER_HEAP_BASE_def SGX_PIXELSHADER_HEAP_SIZE_def
  heap_VERTEXSHADER_def SGX_VERTEXSHADER_HEAP_ID_def SGX_VERTEXSHADER_HEAP_BASE_def SGX_VERTEXSHADER_HEAP_SIZE_def
  heap_PDSPIXEL_CODEDATA_def SGX_PDSPIXEL_CODEDATA_HEAP_ID_def SGX_PDSPIXEL_CODEDATA_HEAP_BASE_def SGX_PDSPIXEL_CODEDATA_HEAP_SIZE_def
  heap_PDSVERTEX_CODEDATA_def SGX_PDSVERTEX_CODEDATA_HEAP_ID_def SGX_PDSVERTEX_CODEDATA_HEAP_BASE_def SGX_PDSVERTEX_CODEDATA_HEAP_SIZE_def
  heap_SYNCINFO_def SGX_SYNCINFO_HEAP_ID_def SGX_SYNCINFO_HEAP_BASE_def SGX_SYNCINFO_HEAP_SIZE_def
  heap_3DPARAMETERS_def SGX_3DPARAMETERS_HEAP_ID_def SGX_3DPARAMETERS_HEAP_BASE_def SGX_3DPARAMETERS_HEAP_SIZE_def

lemma sgx_heaps_eq: "sgx_heaps = [heap_GENERAL, heap_TADATA, heap_KERNEL_CODE, heap_KERNEL_DATA, heap_PIXELSHADER, heap_VERTEXSHADER, heap_PDSPIXEL_CODEDATA, heap_PDSVERTEX_CODEDATA, heap_SYNCINFO, heap_3DPARAMETERS]"
  by (simp add: sgx_heaps_def SGXRegisterDevice_def)

lemma SGXRegisterDevice_ok: "SGXRegisterDevice km = (PVRSRV_OK, info, km') \<Longrightarrow> psDeviceMemoryHeap info = sgx_heaps"
  by (auto simp: SGXRegisterDevice_def sgx_heaps_def Let_def split: prod.splits if_splits)

text \<open>First and last page directory slot of a table entry.\<close>

definition slot_bounds :: "DEVICE_MEMORY_HEAP_INFO \<Rightarrow> nat \<times> nat" where
  "slot_bounds i = (unat (sDevVAddrBase i) div 2 ^ 22, (unat (sDevVAddrBase i) + unat (ui32HeapSize i) - 1) div 2 ^ 22)"

lemma heap_slots_bounds: "heap_slots (new_heap c (arena_descriptor i)) = {fst (slot_bounds i)..snd (slot_bounds i)}"
  by (simp add: heap_slots_def Let_def slot_bounds_def arena_descriptor_def)

lemma sgx_bounds:
  "map slot_bounds sgx_heaps = [(6, 32), (49, 52), (59, 59), (60, 60), (61, 62), (63, 63), (54, 55), (56, 57), (53, 53), (33, 48)]"
  by (simp add: sgx_heaps_eq slot_bounds_def sgx_table)

lemma sgx_entries:
  assumes "i \<in> set sgx_heaps"
  shows "2 ^ 22 dvd unat (sDevVAddrBase i)" "4096 dvd unat (ui32HeapSize i)" "ui32HeapSize i \<noteq> 0"
    "unat (sDevVAddrBase i) + unat (ui32HeapSize i) \<le> 2 ^ 28" "ui32DataPageSize i = SGX_MMU_PAGE_SIZE"
    "HEAP_DEV (hi_ui32HeapID i) = PVRSRV_DEVICE_TYPE_SGX"
  using assms by (auto simp: sgx_heaps_eq sgx_table HEAP_DEV_def)

end
