(* ===== verification/Pvr_Area.thy ===== *)
theory Pvr_Area
  imports Pvr_Sgx_Heaps
begin

text \<open>
  The kernel memory areas behind the buffers of the device (\<^verbatim>\<open>src/pvr/osfunc.c\<close>,
  \<^verbatim>\<open>src/pvr/osfunc.h\<close>, \<^verbatim>\<open>src/pvr/mmap.c\<close>), with the flags that say how they are mapped
  (\<^verbatim>\<open>src/pvr/services.h\<close>, \<^verbatim>\<open>src/pvr/device.h\<close>).
\<close>

subsection \<open>Constants\<close>

definition PVRSRV_MEM_INTERLEAVED :: u32 where [pvr_defs]: "PVRSRV_MEM_INTERLEAVED = 0x10"

definition PVRSRV_MEM_ZERO :: u32 where [pvr_defs]: "PVRSRV_MEM_ZERO = 0x80"

definition PVRSRV_HAP_CACHED :: u32 where [pvr_defs]: "PVRSRV_HAP_CACHED = 0x1000"

definition PVRSRV_HAP_UNCACHED :: u32 where [pvr_defs]: "PVRSRV_HAP_UNCACHED = 0x2000"

definition PVRSRV_HAP_CACHETYPE_MASK :: u32 where
  [pvr_defs]: "PVRSRV_HAP_CACHETYPE_MASK = PVRSRV_HAP_CACHED OR PVRSRV_HAP_UNCACHED OR PVRSRV_HAP_WRITECOMBINE"

definition PVRSRV_HAP_KERNEL_ONLY :: u32 where [pvr_defs]: "PVRSRV_HAP_KERNEL_ONLY = 0x8000"

definition PVRSRV_HAP_FROM_EXISTING_PROCESS :: u32 where [pvr_defs]: "PVRSRV_HAP_FROM_EXISTING_PROCESS = 0x40000"

definition PVRSRV_HAP_NO_CPU_VIRTUAL :: u32 where [pvr_defs]: "PVRSRV_HAP_NO_CPU_VIRTUAL = 0x80000"

definition PVRSRV_HAP_MAPTYPE_MASK :: u32 where
  [pvr_defs]: "PVRSRV_HAP_MAPTYPE_MASK = PVRSRV_HAP_KERNEL_ONLY OR PVRSRV_HAP_SINGLE_PROCESS OR PVRSRV_HAP_MULTI_PROCESS OR
     PVRSRV_HAP_FROM_EXISTING_PROCESS OR PVRSRV_HAP_NO_CPU_VIRTUAL"

definition PVRSRV_BACKINGSTORE_SYSMEM_NONCONTIG :: u32 where [pvr_defs]: "PVRSRV_BACKINGSTORE_SYSMEM_NONCONTIG = 0x2000000"

definition PVRSRV_BACKINGSTORE_LOCALMEM_CONTIG :: u32 where [pvr_defs]: "PVRSRV_BACKINGSTORE_LOCALMEM_CONTIG = 0x4000000"

definition HOST_PAGESIZE :: u32 where [pvr_defs]: "HOST_PAGESIZE = 0x1000"

definition HOST_PAGEALIGN :: "u32 \<Rightarrow> u32" where
  "HOST_PAGEALIGN addr = (addr + HOST_PAGESIZE - 1) AND NOT (HOST_PAGESIZE - 1)"

subsection \<open>Kernel memory areas\<close>

text \<open>
  A memory area (\<^verbatim>\<open>struct LinuxMemArea\<close>) is known by its handle; what matters here is whether it is
  registered for user mappings and whether a process still maps it. \<open>area_ans\<close> are the answers of the
  functions that make an area: its kernel address and its handle, NULL for a failure.
\<close>

record LinuxMemArea =
  bMMapRegistered :: bool
  still_mapped :: bool

record os_mem =
  lx_areas :: "ptr \<rightharpoonup> LinuxMemArea"
  area_ans :: "(ptr \<times> ptr) list"

definition NewLinuxMemArea :: "os_mem \<Rightarrow> ptr \<times> ptr \<times> os_mem" where
  "NewLinuxMemArea m =
     (case area_ans m of
        [] \<Rightarrow> (NULL, NULL, m)
      | (v, h) # r \<Rightarrow>
          if h = NULL then (NULL, NULL, m\<lparr>area_ans := r\<rparr>)
          else (v, h, m\<lparr>area_ans := r, lx_areas := (lx_areas m)(h \<mapsto> \<lparr>bMMapRegistered = False, still_mapped = False\<rparr>)\<rparr>))"

definition LinuxMemAreaDeepFree :: "ptr \<Rightarrow> os_mem \<Rightarrow> os_mem option" where
  "LinuxMemAreaDeepFree h m = do {
     _ \<leftarrow> lx_areas m h;
     Some (m\<lparr>lx_areas := (lx_areas m)(h := None)\<rparr>)
   }"

definition PVRMMapRegisterArea :: "ptr \<Rightarrow> os_mem \<Rightarrow> (PVRSRV_ERROR \<times> os_mem) option" where
  "PVRMMapRegisterArea h m = do {
     a \<leftarrow> lx_areas m h;
     Some (if bMMapRegistered a then (PVRSRV_ERROR_INVALID_PARAMS, m)
           else (PVRSRV_OK, m\<lparr>lx_areas := (lx_areas m)(h \<mapsto> a\<lparr>bMMapRegistered := True\<rparr>)\<rparr>))
   }"

definition PVRMMapRemoveRegisteredArea :: "ptr \<Rightarrow> os_mem \<Rightarrow> (PVRSRV_ERROR \<times> os_mem) option" where
  "PVRMMapRemoveRegisteredArea h m = do {
     a \<leftarrow> lx_areas m h;
     (if \<not> bMMapRegistered a then None
      else if still_mapped a then Some (PVRSRV_ERROR_GENERIC, m)
      else Some (PVRSRV_OK, m\<lparr>lx_areas := (lx_areas m)(h \<mapsto> a\<lparr>bMMapRegistered := False\<rparr>)\<rparr>))
   }"

text \<open>The switch over the mapping type that the functions below share: registered or not, \<open>None\<close> for the default case.\<close>

definition maptype_register :: "u32 \<Rightarrow> bool option" where
  "maptype_register f =
     (let t = f AND PVRSRV_HAP_MAPTYPE_MASK
      in if t = PVRSRV_HAP_KERNEL_ONLY then Some False
         else if t = PVRSRV_HAP_SINGLE_PROCESS \<or> t = PVRSRV_HAP_MULTI_PROCESS then Some True
         else None)"

text \<open>
  A new area, registered when the mapping type asks for it: the error given for a failure, the kernel
  address and the handle.
\<close>

definition new_area :: "PVRSRV_ERROR \<Rightarrow> PVRSRV_ERROR \<Rightarrow> u32 \<Rightarrow> os_mem \<Rightarrow> (PVRSRV_ERROR \<times> ptr \<times> ptr \<times> os_mem) option" where
  "new_area eFail eFlags ui32Flags m =
     (case maptype_register ui32Flags of
        None \<Rightarrow> Some (eFlags, NULL, NULL, m)
      | Some reg \<Rightarrow> (case NewLinuxMemArea m of (v, h, m) \<Rightarrow>
          if h = NULL then Some (eFail, NULL, NULL, m)
          else do {
            (_, m) \<leftarrow> (if reg then PVRMMapRegisterArea h m else Some (PVRSRV_OK, m));
            Some (PVRSRV_OK, v, h, m)
          }))"

definition RegisterExternalMem :: "u32 \<Rightarrow> os_mem \<Rightarrow> (PVRSRV_ERROR \<times> ptr \<times> os_mem) option" where
  "RegisterExternalMem ui32MappingFlags m = do {
     (e, _, h, m) \<leftarrow> new_area PVRSRV_ERROR_GENERIC PVRSRV_ERROR_GENERIC ui32MappingFlags m;
     Some (e, h, m)
   }"

definition OSRegisterMem :: "u32 \<Rightarrow> os_mem \<Rightarrow> (PVRSRV_ERROR \<times> ptr \<times> os_mem) option" where
  "OSRegisterMem ui32MappingFlags m = RegisterExternalMem ui32MappingFlags m"

definition OSRegisterDiscontigMem :: "u32 \<Rightarrow> os_mem \<Rightarrow> (PVRSRV_ERROR \<times> ptr \<times> os_mem) option" where
  "OSRegisterDiscontigMem ui32MappingFlags m = RegisterExternalMem ui32MappingFlags m"

definition OSUnRegisterMem :: "u32 \<Rightarrow> ptr \<Rightarrow> os_mem \<Rightarrow> (PVRSRV_ERROR \<times> os_mem) option" where
  "OSUnRegisterMem ui32MappingFlags h m =
     (case maptype_register ui32MappingFlags of
        None \<Rightarrow> Some (PVRSRV_ERROR_INVALID_PARAMS, m)
      | Some reg \<Rightarrow> do {
          (e, m) \<leftarrow> (if reg then PVRMMapRemoveRegisteredArea h m else Some (PVRSRV_OK, m));
          (if e \<noteq> PVRSRV_OK then None
           else do {
             m \<leftarrow> LinuxMemAreaDeepFree h m;
             Some (PVRSRV_OK, m)
           })
        })"

definition OSUnRegisterDiscontigMem :: "u32 \<Rightarrow> ptr \<Rightarrow> os_mem \<Rightarrow> (PVRSRV_ERROR \<times> os_mem) option" where
  "OSUnRegisterDiscontigMem ui32Flags h m = OSUnRegisterMem ui32Flags h m"

definition OSReservePhys :: "u32 \<Rightarrow> os_mem \<Rightarrow> (PVRSRV_ERROR \<times> ptr \<times> ptr \<times> os_mem) option" where
  "OSReservePhys ui32MappingFlags m = new_area PVRSRV_ERROR_GENERIC PVRSRV_ERROR_GENERIC ui32MappingFlags m"

definition OSUnReservePhys :: "u32 \<Rightarrow> ptr \<Rightarrow> os_mem \<Rightarrow> (PVRSRV_ERROR \<times> os_mem) option" where
  "OSUnReservePhys ui32MappingFlags h m =
     (case maptype_register ui32MappingFlags of
        None \<Rightarrow> Some (PVRSRV_ERROR_INVALID_PARAMS, m)
      | Some reg \<Rightarrow> do {
          (e, m) \<leftarrow> (if reg then PVRMMapRemoveRegisteredArea h m else Some (PVRSRV_OK, m));
          (if e \<noteq> PVRSRV_OK then Some (PVRSRV_ERROR_GENERIC, m)
           else do {
             m \<leftarrow> LinuxMemAreaDeepFree h m;
             Some (PVRSRV_OK, m)
           })
        })"

definition OSReserveDiscontigPhys :: "u32 \<Rightarrow> os_mem \<Rightarrow> (PVRSRV_ERROR \<times> ptr \<times> ptr \<times> os_mem) option" where
  "OSReserveDiscontigPhys ui32Flags m = do {
     (e, h, m) \<leftarrow> OSRegisterDiscontigMem ui32Flags m;
     Some (e, NULL, h, m)
   }"

definition OSUnReserveDiscontigPhys :: "u32 \<Rightarrow> ptr \<Rightarrow> os_mem \<Rightarrow> (PVRSRV_ERROR \<times> os_mem) option" where
  "OSUnReserveDiscontigPhys ui32Flags h m = do {
     (_, m) \<leftarrow> OSUnRegisterDiscontigMem ui32Flags h m;
     Some (PVRSRV_OK, m)
   }"

text \<open>\<open>OSAllocPages\<close> and \<open>OSFreePages\<close> for the memory of buffers.\<close>

definition OSAllocPages_buf :: "u32 \<Rightarrow> os_mem \<Rightarrow> (PVRSRV_ERROR \<times> ptr \<times> ptr \<times> os_mem) option" where
  "OSAllocPages_buf ui32AllocFlags m = new_area PVRSRV_ERROR_OUT_OF_MEMORY PVRSRV_ERROR_INVALID_PARAMS ui32AllocFlags m"

definition OSFreePages_buf :: "u32 \<Rightarrow> ptr \<Rightarrow> os_mem \<Rightarrow> (PVRSRV_ERROR \<times> os_mem) option" where
  "OSFreePages_buf ui32AllocFlags h m =
     (case maptype_register ui32AllocFlags of
        None \<Rightarrow> Some (PVRSRV_ERROR_INVALID_PARAMS, m)
      | Some reg \<Rightarrow> do {
          (e, m) \<leftarrow> (if reg then PVRMMapRemoveRegisteredArea h m else Some (PVRSRV_OK, m));
          (if e \<noteq> PVRSRV_OK then Some (PVRSRV_ERROR_GENERIC, m)
           else do {
             m \<leftarrow> LinuxMemAreaDeepFree h m;
             Some (PVRSRV_OK, m)
           })
        })"

definition OSGetSubMemHandle :: "u32 \<Rightarrow> os_mem \<Rightarrow> (PVRSRV_ERROR \<times> ptr \<times> os_mem) option" where
  "OSGetSubMemHandle ui32Flags m =
     (case NewLinuxMemArea m of (_, h, m) \<Rightarrow>
        if h = NULL then Some (PVRSRV_ERROR_OUT_OF_MEMORY, NULL, m)
        else if ui32Flags AND PVRSRV_HAP_KERNEL_ONLY \<noteq> 0 then Some (PVRSRV_OK, h, m)
        else do {
          (e, m) \<leftarrow> PVRMMapRegisterArea h m;
          (if e = PVRSRV_OK then Some (PVRSRV_OK, h, m)
           else do {
             m \<leftarrow> LinuxMemAreaDeepFree h m;
             Some (e, NULL, m)
           })
        })"

definition OSReleaseSubMemHandle :: "ptr \<Rightarrow> u32 \<Rightarrow> os_mem \<Rightarrow> (PVRSRV_ERROR \<times> os_mem) option" where
  "OSReleaseSubMemHandle h ui32Flags m = do {
     (e, m) \<leftarrow> (if ui32Flags AND PVRSRV_HAP_KERNEL_ONLY = 0 then PVRMMapRemoveRegisteredArea h m else Some (PVRSRV_OK, m));
     (if e \<noteq> PVRSRV_OK then Some (e, m)
      else do {
        m \<leftarrow> LinuxMemAreaDeepFree h m;
        Some (PVRSRV_OK, m)
      })
   }"

end
