(* ===== verification/Pvr_Bm.thy ===== *)
theory Pvr_Bm
  imports Pvr_Area
begin

text \<open>
  The buffer manager of \<^verbatim>\<open>src/pvr/buffer_manager.c\<close>: device memory buffers, the mappings behind them,
  heaps and contexts, on top of the resource arenas, the hash tables, the device MMU and the memory
  areas of the kernel. As in the other models \<open>None\<close> is an access to memory that is not there, a kernel
  \<^verbatim>\<open>BUG()\<close>, or a loop that does not end. \<^verbatim>\<open>SysAcquireData\<close> succeeds once the module is initialised and is
  left out.
\<close>

subsection \<open>Data\<close>

text \<open>\<open>hm_none\<close> stands for every value of the field that the enumeration does not list.\<close>

datatype mem_origin = hm_none | hm_wrapped | hm_wrapped_scatter | hm_wrapped_virtaddr | hm_wrapped_scatter_virtaddr
  | hm_env | hm_contiguous

text \<open>\<open>m_pArena\<close> is the heap whose import arena the C pointer addresses, or NULL; \<open>m_psSysAddr\<close> the array of pages.\<close>

record BM_MAPPING =
  eCpuMemoryOrigin :: mem_origin
  m_pBMHeap :: ptr
  m_pArena :: ptr
  m_CpuVAddr :: ptr
  m_CpuPAddr :: u32
  m_DevVAddr :: u32
  m_psSysAddr :: "u32 list"
  m_uSize :: u32
  m_hOSMemHandle :: ptr
  m_ui32Flags :: u32

record BM_BUF =
  b_CpuVAddr :: ptr
  b_hOSMemHandle :: ptr
  b_CpuPAddr :: u32
  b_DevVAddr :: u32
  b_pMapping :: ptr
  b_ui32RefCount :: u32

record BM_HEAP =
  h_ui32Attribs :: u32
  h_pBMContext :: ptr
  pImportArena :: "RA_ARENA option"
  h_sDevArena :: DEV_ARENA_DESCRIPTOR
  h_ui32HeapID :: u32
  h_ui32DataPageSize :: u32
  pMMUHeap :: ptr
  h_psNext :: ptr

record BM_CONTEXT =
  c_psMMUContext :: ptr
  psBMHeap :: ptr
  psBMSharedHeap :: ptr
  pBufferHash :: "HASH_TABLE option"
  hResItem :: ptr
  c_ui32RefCount :: u32
  c_psNext :: ptr

text \<open>What has been cleared: a range of kernel addresses or of physical ones.\<close>

datatype zero_range = ZeroVirt ptr u32 | ZeroPhys u32 u32

text \<open>
  The state holds the objects by address, the list heads of the device's memory info, the arena of
  local device memory, the memory areas of the kernel and the answers of its allocator: \<open>bm_km\<close> for
  the objects of the buffer manager, \<open>ra_km\<close> for the import arenas and \<open>local_km\<close> for the local one.
  \<open>zero_ans\<close> says which calls of \<^verbatim>\<open>OSMapPhysToLin\<close> succeed; \<open>raw_mapping\<close> is what the memory of a new
  mapping holds.
\<close>

record bm_state =
  bm_mmu :: mmu_state
  bm_mmuheaps :: mmu_heaps
  bm_heaps :: "ptr \<rightharpoonup> BM_HEAP"
  bm_mappings :: "ptr \<rightharpoonup> BM_MAPPING"
  bm_bufs :: "ptr \<rightharpoonup> BM_BUF"
  bm_ctxs :: "ptr \<rightharpoonup> BM_CONTEXT"
  pBMKernelContext :: ptr
  pBMContext_list :: ptr
  bm_local :: "RA_ARENA option"
  bm_os :: os_mem
  zeroed :: "zero_range list"
  bm_km :: kmem
  ra_km :: kmem
  local_km :: kmem
  zero_ans :: "bool list"
  raw_mapping :: "ptr \<Rightarrow> BM_MAPPING"

definition zero_mapping :: BM_MAPPING where
  "zero_mapping = \<lparr>eCpuMemoryOrigin = hm_none, m_pBMHeap = NULL, m_pArena = NULL, m_CpuVAddr = NULL, m_CpuPAddr = 0,
     m_DevVAddr = 0, m_psSysAddr = [], m_uSize = 0, m_hOSMemHandle = NULL, m_ui32Flags = 0\<rparr>"

definition zero_buf :: BM_BUF where
  "zero_buf = \<lparr>b_CpuVAddr = NULL, b_hOSMemHandle = NULL, b_CpuPAddr = 0, b_DevVAddr = 0, b_pMapping = NULL, b_ui32RefCount = 0\<rparr>"

definition put_mapping :: "ptr \<Rightarrow> BM_MAPPING \<Rightarrow> bm_state \<Rightarrow> bm_state" where
  "put_mapping mp m S = S\<lparr>bm_mappings := (bm_mappings S)(mp \<mapsto> m)\<rparr>"

definition free_mapping :: "ptr \<Rightarrow> bm_state \<Rightarrow> bm_state option" where
  "free_mapping mp S = do {
     _ \<leftarrow> bm_mappings S mp;
     Some (S\<lparr>bm_mappings := (bm_mappings S)(mp := None)\<rparr>)
   }"

definition free_buf :: "ptr \<Rightarrow> bm_state \<Rightarrow> bm_state option" where
  "free_buf bp S = do {
     _ \<leftarrow> bm_bufs S bp;
     Some (S\<lparr>bm_bufs := (bm_bufs S)(bp := None)\<rparr>)
   }"

text \<open>A call that works on the memory areas, its error code dropped as the callers do.\<close>

definition on_areas :: "(os_mem \<Rightarrow> (PVRSRV_ERROR \<times> os_mem) option) \<Rightarrow> bm_state \<Rightarrow> bm_state option" where
  "on_areas f S = do {
     (_, om) \<leftarrow> f (bm_os S);
     Some (S\<lparr>bm_os := om\<rparr>)
   }"

subsection \<open>Device memory\<close>

text \<open>The switch over the origin of the memory: success, the address written through \<^verbatim>\<open>pDevVAddr\<close>, the state.\<close>

definition map_origin :: "mmu_os \<Rightarrow> MMU_HEAP \<Rightarrow> BM_MAPPING \<Rightarrow> u32 \<Rightarrow> mmu_state \<Rightarrow> (bool \<times> u32 \<times> mmu_state) option" where
  "map_origin os heap m uFlags s =
     (if eCpuMemoryOrigin m \<in> {hm_wrapped, hm_wrapped_virtaddr, hm_contiguous} then do {
        s \<leftarrow> MMU_MapPages os heap (m_DevVAddr m) (SysCpuPAddrToSysPAddr (m_CpuPAddr m)) (m_uSize m) uFlags s;
        Some (True, m_DevVAddr m, s)
      }
      else if eCpuMemoryOrigin m = hm_env then do {
        (dv, s) \<leftarrow> MMU_MapShadow os heap (m_DevVAddr m) (m_uSize m) (m_CpuVAddr m) (m_hOSMemHandle m) uFlags s;
        Some (True, dv, s)
      }
      else if eCpuMemoryOrigin m \<in> {hm_wrapped_scatter, hm_wrapped_scatter_virtaddr} then do {
        s \<leftarrow> MMU_MapScatter os heap (m_DevVAddr m) (m_psSysAddr m) (m_uSize m) uFlags s;
        Some (True, m_DevVAddr m, s)
      }
      else Some (False, 0, s))"

text \<open>The result: success, the mapping, the MMU heap, the address written through \<^verbatim>\<open>pDevVAddr\<close> and the MMU state.\<close>

definition DevMemoryAlloc ::
  "mmu_os \<Rightarrow> MMU_HEAP \<Rightarrow> BM_MAPPING \<Rightarrow> u32 \<Rightarrow> u32 \<Rightarrow> mmu_state
   \<Rightarrow> (bool \<times> BM_MAPPING \<times> MMU_HEAP \<times> u32 \<times> mmu_state) option" where
  "DevMemoryAlloc os heap pMapping uFlags dev_vaddr_alignment s = do {
     let m = (if uFlags AND PVRSRV_MEM_INTERLEAVED \<noteq> 0 then pMapping\<lparr>m_uSize := m_uSize pMapping * 2\<rparr> else pMapping);
     (ok, va, heap, s) \<leftarrow> MMU_Alloc os heap (m_uSize m) 0 dev_vaddr_alignment (m_DevVAddr m) s;
     let m = m\<lparr>m_DevVAddr := va\<rparr>;
     (if \<not> ok then Some (False, m, heap, 0, s)
      else do {
        (ok, dv, s) \<leftarrow> map_origin os heap m uFlags s;
        Some (ok, m, heap, dv, s)
      })
   }"

definition DevMemoryFree :: "mmu_os \<Rightarrow> MMU_HEAP \<Rightarrow> BM_MAPPING \<Rightarrow> mmu_state \<Rightarrow> (MMU_HEAP \<times> mmu_state) option" where
  "DevMemoryFree os heap pMapping s = MMU_Free os heap (m_DevVAddr pMapping) (m_uSize pMapping) s"

text \<open>The same on the objects of the state.\<close>

definition dev_alloc :: "mmu_os \<Rightarrow> ptr \<Rightarrow> u32 \<Rightarrow> u32 \<Rightarrow> bm_state \<Rightarrow> (bool \<times> u32 \<times> bm_state) option" where
  "dev_alloc os mp uFlags dev_vaddr_alignment S = do {
     m \<leftarrow> bm_mappings S mp;
     bh \<leftarrow> bm_heaps S (m_pBMHeap m);
     mh \<leftarrow> bm_mmuheaps S (pMMUHeap bh);
     (ok, m, mh, dv, t) \<leftarrow> DevMemoryAlloc os mh m uFlags dev_vaddr_alignment (bm_mmu S);
     Some (ok, dv, put_mapping mp m (S\<lparr>bm_mmu := t, bm_mmuheaps := (bm_mmuheaps S)(pMMUHeap bh \<mapsto> mh)\<rparr>))
   }"

definition dev_free :: "mmu_os \<Rightarrow> ptr \<Rightarrow> bm_state \<Rightarrow> bm_state option" where
  "dev_free os mp S = do {
     m \<leftarrow> bm_mappings S mp;
     bh \<leftarrow> bm_heaps S (m_pBMHeap m);
     mh \<leftarrow> bm_mmuheaps S (pMMUHeap bh);
     (mh, t) \<leftarrow> DevMemoryFree os mh m (bm_mmu S);
     Some (S\<lparr>bm_mmu := t, bm_mmuheaps := (bm_mmuheaps S)(pMMUHeap bh \<mapsto> mh)\<rparr>)
   }"

subsection \<open>Clearing a buffer\<close>

definition zero_block :: "u32 \<Rightarrow> u32 \<Rightarrow> u32" where
  "zero_block CpuPAddr ui32BytesRemaining =
     (if CpuPAddr AND (HOST_PAGESIZE - 1) \<noteq> 0
      then min ui32BytesRemaining (HOST_PAGEALIGN CpuPAddr - CpuPAddr)
      else min ui32BytesRemaining HOST_PAGESIZE)"

lemma zero_block_bounds:
  assumes "0 < r"
  shows "0 < zero_block a r" "zero_block a r \<le> r"
proof -
  have "HOST_PAGEALIGN a \<noteq> a" if "a AND (HOST_PAGESIZE - 1) \<noteq> 0"
  proof
    assume e: "HOST_PAGEALIGN a = a"
    have "HOST_PAGEALIGN a AND (HOST_PAGESIZE - 1) = 0" by (simp add: HOST_PAGEALIGN_def and.assoc)
    then show False using that e by simp
  qed
  then show "0 < zero_block a r" using assms
    by (auto simp: zero_block_def min_def HOST_PAGESIZE_def word_gt_0)
  show "zero_block a r \<le> r" by (simp add: zero_block_def)
qed

text \<open>The loop over the pages of an area: success, what was cleared, the answers left.\<close>

function zero_loop :: "mmu_os \<Rightarrow> ptr \<Rightarrow> u32 \<Rightarrow> u32 \<Rightarrow> bool list \<Rightarrow> bool \<times> zero_range list \<times> bool list" where
  "zero_loop os h ui32BytesRemaining ui32CurrentOffset ans =
     (if ui32BytesRemaining > 0 then
        let a = OSMemHandleToCpuPAddr os h ui32CurrentOffset;
            n = zero_block a ui32BytesRemaining
        in case ans of
             [] \<Rightarrow> (False, [], [])
           | False # r \<Rightarrow> (False, [], r)
           | True # r \<Rightarrow> (case zero_loop os h (ui32BytesRemaining - n) (ui32CurrentOffset + n) r of
               (ok, zs, r') \<Rightarrow> (ok, ZeroPhys a n # zs, r'))
      else (True, [], ans))"
  by pat_completeness auto
termination
  by (relation "measure (\<lambda>(os, h, r, off, ans). length ans)") auto

declare zero_loop.simps [simp del]

definition ZeroBuf :: "mmu_os \<Rightarrow> BM_BUF \<Rightarrow> BM_MAPPING \<Rightarrow> u32 \<Rightarrow> bm_state \<Rightarrow> bool \<times> bm_state" where
  "ZeroBuf os pBuf pMapping ui32Bytes S =
     (if b_CpuVAddr pBuf \<noteq> NULL then (True, S\<lparr>zeroed := zeroed S @ [ZeroVirt (b_CpuVAddr pBuf) ui32Bytes]\<rparr>)
      else if eCpuMemoryOrigin pMapping \<in> {hm_contiguous, hm_wrapped} then
        (case zero_ans S of
           [] \<Rightarrow> (False, S)
         | ok # r \<Rightarrow> if \<not> ok then (False, S\<lparr>zero_ans := r\<rparr>)
                     else (True, S\<lparr>zero_ans := r, zeroed := zeroed S @ [ZeroPhys (b_CpuPAddr pBuf) ui32Bytes]\<rparr>))
      else (case zero_loop os (b_hOSMemHandle pBuf) ui32Bytes 0 (zero_ans S) of
              (ok, zs, r) \<Rightarrow> (ok, S\<lparr>zero_ans := r, zeroed := zeroed S @ zs\<rparr>)))"

subsection \<open>Importing memory into the arena of a heap\<close>

text \<open>
  The memory behind a new mapping: \<open>imp_mapping\<close> and \<open>imp_dev\<close> are the two failure labels
  (\<^verbatim>\<open>fail_mapping_alloc\<close>, \<^verbatim>\<open>fail_dev_mem_alloc\<close>) that the code jumps to.
\<close>

datatype import_result = imp_ok | imp_mapping | imp_dev

definition import_psize :: "BM_HEAP \<Rightarrow> BM_MAPPING \<Rightarrow> u32" where
  "import_psize bh m = (if m_ui32Flags m AND PVRSRV_MEM_DUMMY \<noteq> 0 then h_ui32DataPageSize bh else m_uSize m)"

definition import_backing ::
  "mmu_os \<Rightarrow> BM_HEAP \<Rightarrow> BM_MAPPING \<Rightarrow> bm_state \<Rightarrow> (import_result \<times> BM_MAPPING \<times> bm_state) option" where
  "import_backing os bh m S =
     (if h_ui32Attribs bh AND PVRSRV_BACKINGSTORE_SYSMEM_NONCONTIG \<noteq> 0 then do {
        (e, v, h, om) \<leftarrow> OSAllocPages_buf (h_ui32Attribs bh) (bm_os S);
        Some (if e \<noteq> PVRSRV_OK then (imp_mapping, m, S\<lparr>bm_os := om\<rparr>)
              else (imp_ok, m\<lparr>m_CpuVAddr := v, m_hOSMemHandle := h, eCpuMemoryOrigin := hm_env\<rparr>, S\<lparr>bm_os := om\<rparr>))
      }
      else if h_ui32Attribs bh AND PVRSRV_BACKINGSTORE_LOCALMEM_CONTIG \<noteq> 0 then do {
        a \<leftarrow> bm_local S;
        (r, a, km) \<leftarrow> RA_Alloc (local_import os) a (import_psize bh m) 0 (h_ui32DataPageSize bh) (local_km S);
        let S = S\<lparr>bm_local := Some a, local_km := km\<rparr>;
        (case r of
           None \<Rightarrow> Some (imp_mapping, m, S)
         | Some (_, sSysPAddr) \<Rightarrow> do {
             let m = m\<lparr>m_CpuPAddr := SysSysPAddrToCpuPAddr sSysPAddr\<rparr>;
             (e, v, h, om) \<leftarrow> OSReservePhys (h_ui32Attribs bh) (bm_os S);
             Some (if e \<noteq> PVRSRV_OK then (imp_dev, m, S\<lparr>bm_os := om\<rparr>)
                   else (imp_ok, m\<lparr>m_CpuVAddr := v, m_hOSMemHandle := h, eCpuMemoryOrigin := hm_contiguous\<rparr>,
                         S\<lparr>bm_os := om\<rparr>))
           })
      }
      else Some (imp_mapping, m, S))"

definition free_local :: "u32 \<Rightarrow> bm_state \<Rightarrow> bm_state option" where
  "free_local sSysPAddr S = do {
     a \<leftarrow> bm_local S;
     (a, km) \<leftarrow> RA_Free a sSysPAddr False (local_km S);
     Some (S\<lparr>bm_local := Some a, local_km := km\<rparr>)
   }"

text \<open>The statements after the label \<^verbatim>\<open>fail_dev_mem_alloc\<close>, before the mapping is freed.\<close>

definition import_undo :: "BM_HEAP \<Rightarrow> BM_MAPPING \<Rightarrow> bm_state \<Rightarrow> bm_state option" where
  "import_undo bh m S =
     (if m_CpuVAddr m \<noteq> NULL \<or> m_hOSMemHandle m \<noteq> NULL
      then if h_ui32Attribs bh AND PVRSRV_BACKINGSTORE_SYSMEM_NONCONTIG \<noteq> 0
           then on_areas (OSFreePages_buf (h_ui32Attribs bh) (m_hOSMemHandle m)) S
           else do {
             S \<leftarrow> (if m_CpuVAddr m \<noteq> NULL then on_areas (OSUnReservePhys (h_ui32Attribs bh) (m_hOSMemHandle m)) S else Some S);
             free_local (SysCpuPAddrToSysPAddr (m_CpuPAddr m)) S
           }
      else Some S)"

definition BM_ImportMemory ::
  "mmu_os \<Rightarrow> ptr \<Rightarrow> u32 \<Rightarrow> u32 \<Rightarrow> bm_state \<Rightarrow> ((u32 \<times> ptr \<times> u32) option \<times> bm_state) option" where
  "BM_ImportMemory os hp uRequestSize uFlags S = do {
     bh \<leftarrow> bm_heaps S hp;
     let uSize = HOST_PAGEALIGN uRequestSize;
     (case OSAllocMem (bm_km S) of (e, mp, km) \<Rightarrow>
        let S = S\<lparr>bm_km := km\<rparr>
        in if e \<noteq> PVRSRV_OK then Some (None, S)
           else do {
             let m = (raw_mapping S mp)\<lparr>m_hOSMemHandle := NULL, m_CpuVAddr := NULL, m_DevVAddr := 0, m_CpuPAddr := 0,
                        m_uSize := uSize, m_pBMHeap := hp, m_ui32Flags := uFlags\<rparr>;
             (r, m, S) \<leftarrow> import_backing os bh m S;
             let S = put_mapping mp m S;
             (ok, dv, S) \<leftarrow> (if r = imp_ok then dev_alloc os mp uFlags 0 S else Some (False, 0, S));
             m \<leftarrow> bm_mappings S mp;
             (if ok then Some (Some (uSize, mp, dv), put_mapping mp (m\<lparr>m_DevVAddr := dv\<rparr>) S)
              else do {
                S \<leftarrow> (if r \<noteq> imp_mapping then import_undo bh m S else Some S);
                S \<leftarrow> free_mapping mp S;
                Some (None, S)
              })
           })
   }"

text \<open>The size that is halved again for an interleaved mapping is not used after that.\<close>

definition BM_FreeMemory :: "mmu_os \<Rightarrow> ptr \<Rightarrow> ptr \<Rightarrow> bm_state \<Rightarrow> bm_state option" where
  "BM_FreeMemory os hp mp S =
     (if mp = NULL then Some S
      else do {
        bh \<leftarrow> bm_heaps S hp;
        S \<leftarrow> dev_free os mp S;
        m \<leftarrow> bm_mappings S mp;
        S \<leftarrow> (if h_ui32Attribs bh AND PVRSRV_BACKINGSTORE_SYSMEM_NONCONTIG \<noteq> 0
              then on_areas (OSFreePages_buf (h_ui32Attribs bh) (m_hOSMemHandle m)) S
              else if h_ui32Attribs bh AND PVRSRV_BACKINGSTORE_LOCALMEM_CONTIG \<noteq> 0 then do {
                S \<leftarrow> on_areas (OSUnReservePhys (h_ui32Attribs bh) (m_hOSMemHandle m)) S;
                free_local (SysCpuPAddrToSysPAddr (m_CpuPAddr m)) S
              }
              else Some S);
        free_mapping mp S
      })"

text \<open>
  The calls that the import arena makes: its import function is \<open>BM_ImportMemory\<close>, which runs when no
  free segment fits, its release function \<open>BM_FreeMemory\<close>, and it has no backing store function.
  The flags of a mapping that the arena compares are those of the mapping objects.
\<close>

definition import_flags :: "bm_state \<Rightarrow> ptr \<rightharpoonup> u32" where
  "import_flags S m = map_option m_ui32Flags (bm_mappings S m)"

fun run_import_calls :: "mmu_os \<Rightarrow> ra_call list \<Rightarrow> bm_state \<Rightarrow> bm_state option" where
  "run_import_calls os [] S = Some S"
| "run_import_calls os (ImportFree hp _ mp # cs) S = do {
     S \<leftarrow> BM_FreeMemory os hp mp S;
     run_import_calls os cs S
   }"
| "run_import_calls os (BackingStoreFree _ _ _ # cs) S = None"

definition put_arena :: "ptr \<Rightarrow> RA_ARENA \<Rightarrow> kmem \<Rightarrow> bm_state \<Rightarrow> bm_state option" where
  "put_arena hp a km S = do {
     bh \<leftarrow> bm_heaps S hp;
     Some (S\<lparr>bm_heaps := (bm_heaps S)(hp \<mapsto> bh\<lparr>pImportArena := Some a\<rparr>), ra_km := km\<rparr>)
   }"

definition import_size :: "u32 \<Rightarrow> u32 \<Rightarrow> u32 \<Rightarrow> u32" where
  "import_size q uRequestSize uAlignment =
     (let s1 = (if uAlignment > q then uRequestSize + (uAlignment - 1) else uRequestSize)
      in (s1 + q - 1) div q * q)"

definition import_alloc ::
  "mmu_os \<Rightarrow> ptr \<Rightarrow> u32 \<Rightarrow> u32 \<Rightarrow> u32 \<Rightarrow> bm_state \<Rightarrow> ((ptr \<times> u32) option \<times> bm_state) option" where
  "import_alloc os hp size' uFlags uAlignment S = do {
     bh \<leftarrow> bm_heaps S hp;
     a \<leftarrow> pImportArena bh;
     (r1, a1, _) \<leftarrow> AttemptAllocAligned (a\<lparr>mapping_flags := import_flags S\<rparr>) size' uFlags uAlignment (ra_km S);
     (ans, S) \<leftarrow> (if r1 \<noteq> None then Some (None, S)
                 else BM_ImportMemory os hp (import_size (uQuantum a1) size' uAlignment) uFlags S);
     (r, a2, km) \<leftarrow> RA_Alloc (\<lambda>_ _ _ _. ans) (a\<lparr>mapping_flags := import_flags S\<rparr>) size' uFlags uAlignment (ra_km S);
     S \<leftarrow> put_arena hp a2 km S;
     S \<leftarrow> run_import_calls os (drop (length (ra_calls a)) (ra_calls a2)) S;
     Some (r, S)
   }"

definition import_free :: "mmu_os \<Rightarrow> ptr \<Rightarrow> u32 \<Rightarrow> bm_state \<Rightarrow> bm_state option" where
  "import_free os hp base S = do {
     bh \<leftarrow> bm_heaps S hp;
     a \<leftarrow> pImportArena bh;
     (a2, km) \<leftarrow> RA_Free a base False (ra_km S);
     S \<leftarrow> put_arena hp a2 km S;
     run_import_calls os (drop (length (ra_calls a)) (ra_calls a2)) S
   }"

subsection \<open>Buffers\<close>

text \<open>
  \<open>AllocMemory\<close> in its two branches. The buffer object is filled in here and stored by the caller;
  the result holds it for a success.
\<close>

definition alloc_ram_backed ::
  "mmu_os \<Rightarrow> ptr \<Rightarrow> u32 \<Rightarrow> u32 \<Rightarrow> u32 \<Rightarrow> bm_state \<Rightarrow> (BM_BUF option \<times> bm_state) option" where
  "alloc_ram_backed os hp size' uFlags uDevVAddrAlignment S =
     (if uFlags AND PVRSRV_MEM_USER_SUPPLIED_DEVVADDR \<noteq> 0 then Some (None, S)
      else do {
        bh \<leftarrow> bm_heaps S hp;
        (if h_ui32Attribs bh AND (PVRSRV_BACKINGSTORE_SYSMEM_NONCONTIG OR PVRSRV_BACKINGSTORE_LOCALMEM_CONTIG) = 0
         then Some (None, S)
         else do {
           (r, S) \<leftarrow> import_alloc os hp size' uFlags uDevVAddrAlignment S;
           (case r of
              None \<Rightarrow> Some (None, S)
            | Some (mp, va) \<Rightarrow> do {
                m \<leftarrow> bm_mappings S mp;
                let uOffset = va - m_DevVAddr m;
                (e, h, om) \<leftarrow> (if size' = m_uSize m then Some (PVRSRV_OK, m_hOSMemHandle m, bm_os S)
                              else OSGetSubMemHandle (h_ui32Attribs bh) (bm_os S));
                let S = S\<lparr>bm_os := om\<rparr>;
                (if e \<noteq> PVRSRV_OK then Some (None, S)
                 else do {
                   let b = zero_buf\<lparr>b_DevVAddr := va, b_hOSMemHandle := h,
                             b_CpuVAddr := (if m_CpuVAddr m \<noteq> NULL then m_CpuVAddr m + uOffset else NULL),
                             b_CpuPAddr := m_CpuPAddr m + uOffset, b_pMapping := mp\<rparr>;
                   let (ok, S) = (if uFlags AND PVRSRV_MEM_ZERO \<noteq> 0 then ZeroBuf os b m size' S else (True, S));
                   (if \<not> ok then Some (None, S)
                    else Some (Some b, put_mapping mp (m\<lparr>m_pArena := hp, m_pBMHeap := hp\<rparr>) S))
                 })
              })
         })
      })"

definition alloc_address_only ::
  "mmu_os \<Rightarrow> ptr \<Rightarrow> u32 option \<Rightarrow> u32 \<Rightarrow> u32 \<Rightarrow> u32 \<Rightarrow> bm_state \<Rightarrow> (BM_BUF option \<times> bm_state) option" where
  "alloc_address_only os hp psDevVAddr size' uFlags uDevVAddrAlignment S = do {
     bh \<leftarrow> bm_heaps S hp;
     mh \<leftarrow> bm_mmuheaps S (pMMUHeap bh);
     let supplied = uFlags AND PVRSRV_MEM_USER_SUPPLIED_DEVVADDR \<noteq> 0;
     (if supplied \<and> psDevVAddr = None then Some (None, S)
      else do {
        (_, va, mh, t) \<leftarrow>
          (if supplied then MMU_Alloc os mh size' PVRSRV_MEM_USER_SUPPLIED_DEVVADDR uDevVAddrAlignment (the psDevVAddr) (bm_mmu S)
           else MMU_Alloc os mh size' 0 uDevVAddrAlignment 0 (bm_mmu S));
        let S = S\<lparr>bm_mmu := t, bm_mmuheaps := (bm_mmuheaps S)(pMMUHeap bh \<mapsto> mh)\<rparr>;
        (case OSAllocMem (bm_km S) of (e, mp, km) \<Rightarrow>
           let S = S\<lparr>bm_km := km\<rparr>
           in if e \<noteq> PVRSRV_OK then Some (None, S)
              else Some (Some (zero_buf\<lparr>b_DevVAddr := va, b_pMapping := mp\<rparr>),
                     put_mapping mp ((raw_mapping S mp)\<lparr>m_CpuVAddr := NULL, m_CpuPAddr := 0, m_DevVAddr := va, m_psSysAddr := [],
                       m_uSize := size', m_hOSMemHandle := NULL, m_pArena := NULL, m_pBMHeap := hp\<rparr>) S))
      })
   }"

definition AllocMemory ::
  "mmu_os \<Rightarrow> ptr \<Rightarrow> u32 option \<Rightarrow> u32 \<Rightarrow> u32 \<Rightarrow> u32 \<Rightarrow> bm_state \<Rightarrow> (BM_BUF option \<times> bm_state) option" where
  "AllocMemory os hp psDevVAddr size' uFlags uDevVAddrAlignment S =
     (if uFlags AND PVRSRV_MEM_RAM_BACKED_ALLOCATION \<noteq> 0
      then alloc_ram_backed os hp size' uFlags uDevVAddrAlignment S
      else alloc_address_only os hp psDevVAddr size' uFlags uDevVAddrAlignment S)"

text \<open>
  \<open>WrapMemory\<close>: first the memory area for the pages that are wrapped. The pages are \<open>psAddr\<close>, only
  the first one counts when they are contiguous.
\<close>

definition wrap_area ::
  "bool \<Rightarrow> u32 list \<Rightarrow> ptr \<Rightarrow> u32 \<Rightarrow> BM_MAPPING \<Rightarrow> os_mem \<Rightarrow> (PVRSRV_ERROR \<times> BM_MAPPING \<times> os_mem) option" where
  "wrap_area bPhysContig psAddr pvCPUVAddr uFlags m om = do {
     a0 \<leftarrow> (case psAddr of [] \<Rightarrow> None | a # _ \<Rightarrow> Some a);
     (if pvCPUVAddr \<noteq> NULL then
        let m = m\<lparr>m_CpuVAddr := pvCPUVAddr\<rparr>
        in if bPhysContig then do {
             (e, h, om) \<leftarrow> OSRegisterMem uFlags om;
             Some (e, m\<lparr>eCpuMemoryOrigin := hm_wrapped_virtaddr, m_CpuPAddr := SysSysPAddrToCpuPAddr a0, m_hOSMemHandle := h\<rparr>, om)
           }
           else do {
             (e, h, om) \<leftarrow> OSRegisterDiscontigMem uFlags om;
             Some (e, m\<lparr>eCpuMemoryOrigin := hm_wrapped_scatter_virtaddr, m_psSysAddr := psAddr, m_hOSMemHandle := h\<rparr>, om)
           }
      else if bPhysContig then do {
        (e, v, h, om) \<leftarrow> OSReservePhys uFlags om;
        Some (e, m\<lparr>eCpuMemoryOrigin := hm_wrapped, m_CpuPAddr := SysSysPAddrToCpuPAddr a0, m_CpuVAddr := v, m_hOSMemHandle := h\<rparr>, om)
      }
      else do {
        (e, v, h, om) \<leftarrow> OSReserveDiscontigPhys uFlags om;
        Some (e, m\<lparr>eCpuMemoryOrigin := hm_wrapped_scatter, m_psSysAddr := psAddr, m_CpuVAddr := v, m_hOSMemHandle := h\<rparr>, om)
      })
   }"

text \<open>The switch over the origin that the failure exit of \<open>WrapMemory\<close> and \<open>FreeBuf\<close> share.\<close>

definition release_origin :: "BM_MAPPING \<Rightarrow> u32 \<Rightarrow> bm_state \<Rightarrow> bm_state option" where
  "release_origin m uFlags S =
     (case eCpuMemoryOrigin m of
        hm_wrapped \<Rightarrow> on_areas (OSUnReservePhys uFlags (m_hOSMemHandle m)) S
      | hm_wrapped_virtaddr \<Rightarrow> on_areas (OSUnRegisterMem uFlags (m_hOSMemHandle m)) S
      | hm_wrapped_scatter \<Rightarrow> on_areas (OSUnReserveDiscontigPhys uFlags (m_hOSMemHandle m)) S
      | hm_wrapped_scatter_virtaddr \<Rightarrow> on_areas (OSUnRegisterDiscontigMem uFlags (m_hOSMemHandle m)) S
      | _ \<Rightarrow> Some S)"

text \<open>The statements after \<^verbatim>\<open>fail_cleanup\<close>; \<open>h\<close> is the handle in the buffer, NULL so far or after a failure.\<close>

definition wrap_cleanup :: "ptr \<Rightarrow> u32 \<Rightarrow> ptr \<Rightarrow> u32 \<Rightarrow> bm_state \<Rightarrow> bm_state option" where
  "wrap_cleanup mp ui32BaseOffset h uFlags S = do {
     m \<leftarrow> bm_mappings S mp;
     S \<leftarrow> (if ui32BaseOffset \<noteq> 0 \<and> h \<noteq> NULL then on_areas (OSReleaseSubMemHandle h uFlags) S else Some S);
     S \<leftarrow> (if m_CpuVAddr m \<noteq> NULL \<or> m_hOSMemHandle m \<noteq> NULL then release_origin m uFlags S else Some S);
     free_mapping mp S
   }"

text \<open>The part of \<open>WrapMemory\<close> after the device mapping is made.\<close>

definition wrap_tail :: "mmu_os \<Rightarrow> ptr \<Rightarrow> u32 \<Rightarrow> u32 \<Rightarrow> u32 \<Rightarrow> BM_MAPPING \<Rightarrow> bm_state \<Rightarrow> (BM_BUF option \<times> bm_state) option" where
  "wrap_tail os mp n ui32BaseOffset uFlags m S = do {
     (e, h, om) \<leftarrow> (if ui32BaseOffset = 0 then Some (PVRSRV_OK, m_hOSMemHandle m, bm_os S) else OSGetSubMemHandle uFlags (bm_os S));
     let S = S\<lparr>bm_os := om\<rparr>;
     (if e \<noteq> PVRSRV_OK then do {
        S \<leftarrow> wrap_cleanup mp ui32BaseOffset h uFlags S;
        Some (None, S)
      }
      else do {
        let b = zero_buf\<lparr>b_CpuPAddr := m_CpuPAddr m + ui32BaseOffset, b_hOSMemHandle := h,
                  b_CpuVAddr := (if m_CpuVAddr m \<noteq> NULL then m_CpuVAddr m + ui32BaseOffset else NULL),
                  b_DevVAddr := m_DevVAddr m + ui32BaseOffset, b_pMapping := mp\<rparr>;
        let (ok, S) = (if uFlags AND PVRSRV_MEM_ZERO \<noteq> 0 then ZeroBuf os b m n S else (True, S));
        Some (if ok then Some b else None, S)
      })
   }"

definition WrapMemory ::
  "mmu_os \<Rightarrow> ptr \<Rightarrow> u32 \<Rightarrow> u32 \<Rightarrow> bool \<Rightarrow> u32 list \<Rightarrow> ptr \<Rightarrow> u32 \<Rightarrow> bm_state \<Rightarrow> (BM_BUF option \<times> bm_state) option" where
  "WrapMemory os hp size' ui32BaseOffset bPhysContig psAddr pvCPUVAddr uFlags S = do {
     let uSize = HOST_PAGEALIGN (size' + ui32BaseOffset);
     (case OSAllocMem (bm_km S) of (e, mp, km) \<Rightarrow>
        let S = S\<lparr>bm_km := km\<rparr>
        in if e \<noteq> PVRSRV_OK then Some (None, S)
           else do {
             (e, m, om) \<leftarrow> wrap_area bPhysContig psAddr pvCPUVAddr uFlags (zero_mapping\<lparr>m_uSize := uSize, m_pBMHeap := hp\<rparr>) (bm_os S);
             let S = put_mapping mp m (S\<lparr>bm_os := om\<rparr>);
             (if e \<noteq> PVRSRV_OK then do {
                S \<leftarrow> wrap_cleanup mp ui32BaseOffset NULL uFlags S;
                Some (None, S)
              }
              else do {
                (ok, _, S) \<leftarrow> dev_alloc os mp (uFlags OR PVRSRV_MEM_READ OR PVRSRV_MEM_WRITE) HOST_PAGESIZE S;
                (if \<not> ok then do {
                   S \<leftarrow> wrap_cleanup mp ui32BaseOffset NULL uFlags S;
                   Some (None, S)
                 }
                 else do {
                   m \<leftarrow> bm_mappings S mp;
                   wrap_tail os mp uSize ui32BaseOffset uFlags m S
                 })
              })
           })
   }"

definition FreeBuf :: "mmu_os \<Rightarrow> ptr \<Rightarrow> u32 \<Rightarrow> bm_state \<Rightarrow> bm_state option" where
  "FreeBuf os bp ui32Flags S = do {
     b \<leftarrow> bm_bufs S bp;
     m \<leftarrow> bm_mappings S (b_pMapping b);
     S \<leftarrow>
       (if ui32Flags AND PVRSRV_MEM_USER_SUPPLIED_DEVVADDR \<noteq> 0
        then if ui32Flags AND PVRSRV_MEM_RAM_BACKED_ALLOCATION \<noteq> 0 then Some S else free_mapping (b_pMapping b) S
        else do {
          S \<leftarrow> (if b_hOSMemHandle b \<noteq> m_hOSMemHandle m
                then on_areas (OSReleaseSubMemHandle (b_hOSMemHandle b) ui32Flags) S else Some S);
          (if ui32Flags AND PVRSRV_MEM_RAM_BACKED_ALLOCATION \<noteq> 0
           then import_free os (m_pArena m) (b_DevVAddr b) S
           else do {
             S \<leftarrow> release_origin m ui32Flags S;
             S \<leftarrow> dev_free os (b_pMapping b) S;
             free_mapping (b_pMapping b) S
           })
        });
     free_buf bp S
   }"

subsection \<open>Contexts\<close>

text \<open>
  The heaps of a context, following \<^verbatim>\<open>psNext\<close>. Deleting a heap and its MMU heap ends early, with an
  error, at a heap whose backing store type is not supported.
\<close>

definition backed :: "BM_HEAP \<Rightarrow> bool" where
  "backed bh \<longleftrightarrow> h_ui32Attribs bh AND (PVRSRV_BACKINGSTORE_SYSMEM_NONCONTIG OR PVRSRV_BACKINGSTORE_LOCALMEM_CONTIG) \<noteq> 0"

definition delete_heap :: "mmu_os \<Rightarrow> BM_HEAP \<Rightarrow> bm_state \<Rightarrow> bm_state option" where
  "delete_heap os bh S = do {
     _ \<leftarrow> (case pImportArena bh of None \<Rightarrow> Some None | Some a \<Rightarrow> map_option Some (RA_Delete a));
     mh \<leftarrow> bm_mmuheaps S (pMMUHeap bh);
     t \<leftarrow> MMU_Delete os mh (bm_mmu S);
     Some (S\<lparr>bm_mmu := t, bm_mmuheaps := (bm_mmuheaps S)(pMMUHeap bh := None)\<rparr>)
   }"

partial_function (option) destroy_heaps :: "mmu_os \<Rightarrow> ptr \<Rightarrow> bm_state \<Rightarrow> (bool \<times> bm_state) option" where
  "destroy_heaps os hp S =
     (if hp = NULL then Some (True, S)
      else do {
        bh \<leftarrow> bm_heaps S hp;
        (if \<not> backed bh then Some (False, S)
         else do {
           S \<leftarrow> delete_heap os bh S;
           destroy_heaps os (h_psNext bh) (S\<lparr>bm_heaps := (bm_heaps S)(hp := None)\<rparr>)
         })
      })"

text \<open>The loop that takes a context out of the device's list, \<open>q\<close> as in \<open>unlink_ctx\<close> of the MMU.\<close>

partial_function (option) unlink_bm_ctx :: "ptr \<Rightarrow> ptr \<Rightarrow> bm_state \<Rightarrow> bm_state option" where
  "unlink_bm_ctx c q S = do {
     cur \<leftarrow> (if q = NULL then Some (pBMContext_list S) else map_option c_psNext (bm_ctxs S q));
     (if cur = NULL then Some S
      else if cur = c then do {
        ctx \<leftarrow> bm_ctxs S c;
        (if q = NULL then Some (S\<lparr>pBMContext_list := c_psNext ctx\<rparr>)
         else do {
           qc \<leftarrow> bm_ctxs S q;
           Some (S\<lparr>bm_ctxs := (bm_ctxs S)(q \<mapsto> qc\<lparr>c_psNext := c_psNext ctx\<rparr>)\<rparr>)
         })
      }
      else unlink_bm_ctx c cur S)
   }"

definition BM_DestroyContextCallBack :: "mmu_os \<Rightarrow> ptr \<Rightarrow> bm_state \<Rightarrow> (PVRSRV_ERROR \<times> bm_state) option" where
  "BM_DestroyContextCallBack os c S = do {
     ctx \<leftarrow> bm_ctxs S c;
     (ok, S) \<leftarrow> destroy_heaps os (psBMHeap ctx) S;
     (if \<not> ok then Some (PVRSRV_ERROR_GENERIC, S)
      else do {
        S \<leftarrow> (if c_psMMUContext ctx \<noteq> NULL
              then map_option (\<lambda>t. S\<lparr>bm_mmu := t\<rparr>) (MMU_Finalise os (c_psMMUContext ctx) (bm_mmu S)) else Some S);
        S \<leftarrow> (if c = pBMKernelContext S then Some (S\<lparr>pBMKernelContext := NULL\<rparr>) else unlink_bm_ctx c NULL S);
        Some (PVRSRV_OK, S\<lparr>bm_ctxs := (bm_ctxs S)(c := None)\<rparr>)
      })
   }"

text \<open>
  \<open>BM_DestroyContext\<close> tests the arenas and hands the context to the resource manager, whose item was
  registered with the function above as its free function.
\<close>

partial_function (option) test_delete_heaps :: "ptr \<Rightarrow> bm_state \<Rightarrow> unit option" where
  "test_delete_heaps hp S =
     (if hp = NULL then Some ()
      else do {
        bh \<leftarrow> bm_heaps S hp;
        ok \<leftarrow> (case pImportArena bh of None \<Rightarrow> Some True | Some a \<Rightarrow> if backed bh then RA_TestDelete a else Some True);
        (if ok then test_delete_heaps (h_psNext bh) S else None)
      })"

definition BM_DestroyContext :: "mmu_os \<Rightarrow> ptr \<Rightarrow> bm_state \<Rightarrow> bm_state option" where
  "BM_DestroyContext os c S = do {
     ctx \<leftarrow> bm_ctxs S c;
     _ \<leftarrow> test_delete_heaps (psBMHeap ctx) S;
     (if hResItem ctx = NULL then Some S
      else do {
        (_, S) \<leftarrow> BM_DestroyContextCallBack os c S;
        Some S
      })
   }"

definition pvr_get_ctx :: "ptr \<Rightarrow> bm_state \<Rightarrow> bm_state option" where
  "pvr_get_ctx c S = do {
     ctx \<leftarrow> bm_ctxs S c;
     Some (S\<lparr>bm_ctxs := (bm_ctxs S)(c \<mapsto> ctx\<lparr>c_ui32RefCount := c_ui32RefCount ctx + 1\<rparr>)\<rparr>)
   }"

definition pvr_put_ctx :: "mmu_os \<Rightarrow> ptr \<Rightarrow> bm_state \<Rightarrow> (bool \<times> bm_state) option" where
  "pvr_put_ctx os c S = do {
     ctx \<leftarrow> bm_ctxs S c;
     (if c_ui32RefCount ctx = 0 then None
      else do {
        let S = S\<lparr>bm_ctxs := (bm_ctxs S)(c \<mapsto> ctx\<lparr>c_ui32RefCount := c_ui32RefCount ctx - 1\<rparr>)\<rparr>;
        (if c_ui32RefCount ctx - 1 = 0 then do {
           S \<leftarrow> BM_DestroyContext os c S;
           Some (True, S)
         }
         else Some (False, S))
      })
   }"

text \<open>
  \<open>BM_CreateContext\<close>: \<open>find_res\<close> is whether \<open>ResManFindResourceByPtr\<close> finds an item in the process's
  resource context, \<open>hRes\<close> what \<open>ResManRegisterRes\<close> answers. The result is the context (NULL for a
  failure), the physical address of its page directory and whether it was created.
\<close>

partial_function (option) find_bm_ctx :: "(ptr \<Rightarrow> bool) \<Rightarrow> ptr \<Rightarrow> bm_state \<Rightarrow> ptr option" where
  "find_bm_ctx find_res c S =
     (if c = NULL then Some NULL
      else do {
        ctx \<leftarrow> bm_ctxs S c;
        (if find_res (hResItem ctx) then Some c else find_bm_ctx find_res (c_psNext ctx) S)
      })"

partial_function (option) insert_heaps :: "mmu_os \<Rightarrow> ptr \<Rightarrow> ptr \<Rightarrow> bm_state \<Rightarrow> bm_state option" where
  "insert_heaps os mc hp S =
     (if hp = NULL then Some S
      else do {
        bh \<leftarrow> bm_heaps S hp;
        let t = DevMemHeapType (h_sDevArena bh);
        S \<leftarrow> (if t = DEVICE_MEMORY_HEAP_SHARED \<or> t = DEVICE_MEMORY_HEAP_SHARED_EXPORTED then do {
                mh \<leftarrow> bm_mmuheaps S (pMMUHeap bh);
                u \<leftarrow> MMU_InsertHeap os mc mh (bm_mmu S);
                Some (S\<lparr>bm_mmu := u\<rparr>)
              }
              else Some S);
        insert_heaps os mc (h_psNext bh) S
      })"

text \<open>The part of \<open>BM_CreateContext\<close> between the allocation and the registration: whether to go on.\<close>

definition fill_context :: "mmu_os \<Rightarrow> bool \<Rightarrow> ptr \<Rightarrow> bm_state \<Rightarrow> (bool \<times> u32 \<times> bm_state) option" where
  "fill_context os bKernelContext c S =
     (case HASH_Create 32 (bm_km S) of (ht, km) \<Rightarrow>
        let ctx = \<lparr>c_psMMUContext = NULL, psBMHeap = NULL, psBMSharedHeap = NULL, pBufferHash = ht, hResItem = NULL,
                   c_ui32RefCount = 0, c_psNext = NULL\<rparr>;
            S = S\<lparr>bm_km := km, bm_ctxs := (bm_ctxs S)(c \<mapsto> ctx)\<rparr>
        in if ht = None then Some (False, 0, S)
           else do {
             (e, mc, pa, t) \<leftarrow> MMU_Initialise os (bm_mmu S);
             let S = S\<lparr>bm_mmu := t\<rparr>;
             (if e \<noteq> PVRSRV_OK then Some (False, 0, S)
              else do {
                let ctx = ctx\<lparr>c_psMMUContext := mc\<rparr>;
                (if bKernelContext
                 then Some (True, pa, S\<lparr>pBMKernelContext := c, bm_ctxs := (bm_ctxs S)(c \<mapsto> ctx\<lparr>c_ui32RefCount := 1\<rparr>)\<rparr>)
                 else if pBMKernelContext S = NULL then Some (False, pa, S\<lparr>bm_ctxs := (bm_ctxs S)(c \<mapsto> ctx)\<rparr>)
                 else do {
                   k \<leftarrow> bm_ctxs S (pBMKernelContext S);
                   S \<leftarrow> insert_heaps os mc (psBMHeap k) S;
                   Some (True, pa, S\<lparr>bm_ctxs := (bm_ctxs S)(c \<mapsto> ctx\<lparr>psBMSharedHeap := psBMHeap k,
                           c_psNext := pBMContext_list S, c_ui32RefCount := 1\<rparr>), pBMContext_list := c\<rparr>)
                 })
              })
           })"

definition BM_CreateContext ::
  "mmu_os \<Rightarrow> bool \<Rightarrow> (ptr \<Rightarrow> bool) \<Rightarrow> ptr \<Rightarrow> bm_state \<Rightarrow> (ptr \<times> u32 \<times> bool \<times> bm_state) option" where
  "BM_CreateContext os bKernelContext find_res hRes S = do {
     old \<leftarrow> (if bKernelContext then Some NULL else find_bm_ctx find_res (pBMContext_list S) S);
     (if old \<noteq> NULL then do {
        ctx \<leftarrow> bm_ctxs S old;
        Some (old, 0, False, S\<lparr>bm_ctxs := (bm_ctxs S)(old \<mapsto> ctx\<lparr>c_ui32RefCount := c_ui32RefCount ctx + 1\<rparr>)\<rparr>)
      }
      else (case OSAllocMem (bm_km S) of (e, c, km) \<Rightarrow>
        let S = S\<lparr>bm_km := km\<rparr>
        in if e \<noteq> PVRSRV_OK then Some (NULL, 0, False, S)
           else do {
             (ok, pa, S) \<leftarrow> fill_context os bKernelContext c S;
             (if ok \<and> hRes \<noteq> NULL then do {
                ctx \<leftarrow> bm_ctxs S c;
                Some (c, pa, True, S\<lparr>bm_ctxs := (bm_ctxs S)(c \<mapsto> ctx\<lparr>hResItem := hRes\<rparr>)\<rparr>)
              }
              else do {
                (_, S) \<leftarrow> BM_DestroyContextCallBack os c S;
                Some (NULL, pa, False, S)
              })
           }))
   }"

subsection \<open>Heaps\<close>

text \<open>The address of the function \<open>BM_ImportMemory\<close>, any address but NULL.\<close>

definition fn_BM_ImportMemory :: ptr where [pvr_defs]: "fn_BM_ImportMemory = 8"

partial_function (option) find_heap :: "u32 \<Rightarrow> ptr \<Rightarrow> bm_state \<Rightarrow> ptr option" where
  "find_heap ui32HeapID hp S =
     (if hp = NULL then Some NULL
      else do {
        bh \<leftarrow> bm_heaps S hp;
        (if h_ui32HeapID bh = ui32HeapID then Some hp else find_heap ui32HeapID (h_psNext bh) S)
      })"

text \<open>
  The failure exit of \<open>BM_CreateHeap\<close>: it also finalises the MMU context, which the buffer manager's
  context keeps.
\<close>

definition heap_error_exit :: "mmu_os \<Rightarrow> ptr \<Rightarrow> ptr \<Rightarrow> bm_state \<Rightarrow> (ptr \<times> bm_state) option" where
  "heap_error_exit os c mp S = do {
     ctx \<leftarrow> bm_ctxs S c;
     mh \<leftarrow> bm_mmuheaps S mp;
     t \<leftarrow> MMU_Delete os mh (bm_mmu S);
     t \<leftarrow> MMU_Finalise os (c_psMMUContext ctx) t;
     Some (NULL, S\<lparr>bm_mmu := t, bm_mmuheaps := (bm_mmuheaps S)(mp := None)\<rparr>)
   }"

definition BM_CreateHeap ::
  "mmu_os \<Rightarrow> ptr \<Rightarrow> DEVICE_MEMORY_HEAP_INFO \<Rightarrow> (ptr \<Rightarrow> BT) \<Rightarrow> bm_state \<Rightarrow> (ptr \<times> bm_state) option" where
  "BM_CreateHeap os c info raw S = do {
     ctx \<leftarrow> bm_ctxs S c;
     old \<leftarrow> (if c_ui32RefCount ctx > 0 then find_heap (hi_ui32HeapID info) (psBMHeap ctx) S else Some NULL);
     (if old \<noteq> NULL then Some (old, S)
      else (case OSAllocMem (bm_km S) of (e, hp, km) \<Rightarrow>
        let S = S\<lparr>bm_km := km\<rparr>
        in if e \<noteq> PVRSRV_OK then Some (NULL, S)
           else (case OSAllocMem (mmu_km (bm_mmu S)) of (_, mp, _) \<Rightarrow> do {
             (r, t) \<leftarrow> MMU_Create os (c_psMMUContext ctx) (arena_descriptor info) raw Map.empty (bm_mmu S);
             let S = S\<lparr>bm_mmu := t\<rparr>;
             (case r of
                None \<Rightarrow> Some (NULL, S)
              | Some mh \<Rightarrow> do {
                  let S = S\<lparr>bm_mmuheaps := (bm_mmuheaps S)(mp \<mapsto> mh)\<rparr>;
                  (ra, km) \<leftarrow> RA_Create 0 0 NULL (ui32DataPageSize info) fn_BM_ImportMemory NULL hp raw Map.empty (ra_km S);
                  let S = S\<lparr>ra_km := km\<rparr>;
                  (if ra = None then heap_error_exit os c mp S
                   else if hi_ui32Attribs info AND PVRSRV_BACKINGSTORE_LOCALMEM_CONTIG \<noteq> 0 \<and> psLocalDevMemArena info = NULL
                   then heap_error_exit os c mp S
                   else Some (hp, S\<lparr>
                     bm_heaps := (bm_heaps S)(hp \<mapsto> \<lparr>h_ui32Attribs = hi_ui32Attribs info, h_pBMContext = c, pImportArena = ra,
                        h_sDevArena = arena_descriptor info, h_ui32HeapID = hi_ui32HeapID info,
                        h_ui32DataPageSize = ui32DataPageSize info, pMMUHeap = mp, h_psNext = psBMHeap ctx\<rparr>),
                     bm_ctxs := (bm_ctxs S)(c \<mapsto> ctx\<lparr>psBMHeap := hp\<rparr>)\<rparr>))
                })
           })))
   }"

text \<open>\<open>q\<close> is the heap before the one looked at, NULL at the head of the list.\<close>

partial_function (option) unlink_heap :: "ptr \<Rightarrow> ptr \<Rightarrow> ptr \<Rightarrow> bm_state \<Rightarrow> bm_state option" where
  "unlink_heap c hp q S = do {
     ctx \<leftarrow> bm_ctxs S c;
     cur \<leftarrow> (if q = NULL then Some (psBMHeap ctx) else map_option h_psNext (bm_heaps S q));
     (if cur = NULL then Some S
      else if cur = hp then do {
        bh \<leftarrow> bm_heaps S hp;
        S \<leftarrow> (if q = NULL then Some (S\<lparr>bm_ctxs := (bm_ctxs S)(c \<mapsto> ctx\<lparr>psBMHeap := h_psNext bh\<rparr>)\<rparr>)
              else do {
                qh \<leftarrow> bm_heaps S q;
                Some (S\<lparr>bm_heaps := (bm_heaps S)(q \<mapsto> qh\<lparr>h_psNext := h_psNext bh\<rparr>)\<rparr>)
              });
        Some (S\<lparr>bm_heaps := (bm_heaps S)(hp := None)\<rparr>)
      }
      else unlink_heap c hp cur S)
   }"

definition BM_DestroyHeap :: "mmu_os \<Rightarrow> ptr \<Rightarrow> bm_state \<Rightarrow> bm_state option" where
  "BM_DestroyHeap os hp S = do {
     bh \<leftarrow> bm_heaps S hp;
     (if \<not> backed bh then Some S
      else do {
        S \<leftarrow> delete_heap os bh S;
        unlink_heap (h_pBMContext bh) hp NULL S
      })
   }"

definition BM_Reinitialise :: "bm_state \<Rightarrow> bool \<times> bm_state" where
  "BM_Reinitialise S = (True, S)"

subsection \<open>The operations on buffers\<close>

text \<open>
  \<open>pui32Flags\<close> is an in-out parameter, \<open>None\<close> for a NULL pointer. The results hold the success flag, the
  buffer handle and the flags written back.
\<close>

definition BM_Alloc ::
  "mmu_os \<Rightarrow> ptr \<Rightarrow> u32 option \<Rightarrow> u32 \<Rightarrow> u32 option \<Rightarrow> u32 \<Rightarrow> bm_state \<Rightarrow> (bool \<times> ptr \<times> u32 \<times> bm_state) option" where
  "BM_Alloc os hp psDevVAddr size' pui32Flags uDevVAddrAlignment S =
     (case pui32Flags of
        None \<Rightarrow> Some (False, NULL, 0, S)
      | Some uFlags \<Rightarrow> do {
          bh \<leftarrow> bm_heaps S hp;
          let al = (if uDevVAddrAlignment = 0 then 1 else uDevVAddrAlignment);
          (case OSAllocMem (bm_km S) of (e, bp, km) \<Rightarrow>
             let S = S\<lparr>bm_km := km\<rparr>
             in if e \<noteq> PVRSRV_OK then Some (False, NULL, uFlags, S)
                else do {
                  (r, S) \<leftarrow> AllocMemory os hp psDevVAddr size' uFlags al S;
                  (case r of
                     None \<Rightarrow> Some (False, NULL, uFlags, S)
                   | Some b \<Rightarrow> do {
                       S \<leftarrow> pvr_get_ctx (h_pBMContext bh) (S\<lparr>bm_bufs := (bm_bufs S)(bp \<mapsto> b\<lparr>b_ui32RefCount := 1\<rparr>)\<rparr>);
                       Some (True, bp, uFlags OR h_ui32Attribs bh, S)
                     })
                })
        })"

definition wrapped_contig :: "BM_MAPPING \<Rightarrow> bool" where
  "wrapped_contig m \<longleftrightarrow> eCpuMemoryOrigin m \<in> {hm_wrapped, hm_wrapped_virtaddr}"

text \<open>The buffer that was wrapped before at the same address, NULL if there is none that fits.\<close>

definition find_wrapped :: "BM_CONTEXT \<Rightarrow> u32 \<Rightarrow> u32 \<Rightarrow> bm_state \<Rightarrow> ptr option" where
  "find_wrapped ctx addr ui32MappingSize S = do {
     ht \<leftarrow> pBufferHash ctx;
     let bp = HASH_Retrieve ht addr;
     (if bp = NULL then Some NULL
      else do {
        b \<leftarrow> bm_bufs S bp;
        m \<leftarrow> bm_mappings S (b_pMapping b);
        Some (if m_uSize m = ui32MappingSize \<and> wrapped_contig m then bp else NULL)
      })
   }"

definition put_hash :: "ptr \<Rightarrow> HASH_TABLE \<Rightarrow> kmem \<Rightarrow> bm_state \<Rightarrow> bm_state option" where
  "put_hash c ht km S = do {
     ctx \<leftarrow> bm_ctxs S c;
     Some (S\<lparr>bm_ctxs := (bm_ctxs S)(c \<mapsto> ctx\<lparr>pBufferHash := Some ht\<rparr>), bm_km := km\<rparr>)
   }"

definition BM_Wrap ::
  "mmu_os \<Rightarrow> ptr \<Rightarrow> u32 \<Rightarrow> u32 \<Rightarrow> bool \<Rightarrow> u32 list \<Rightarrow> ptr \<Rightarrow> u32 option \<Rightarrow> bm_state \<Rightarrow> (bool \<times> ptr \<times> u32 \<times> bm_state) option" where
  "BM_Wrap os hp ui32Size ui32Offset bPhysContig psSysAddr pvCPUVAddr pui32Flags S = do {
     bh \<leftarrow> bm_heaps S hp;
     let c = h_pBMContext bh;
     ctx \<leftarrow> bm_ctxs S c;
     let uFlags = (h_ui32Attribs bh AND (PVRSRV_HAP_CACHETYPE_MASK OR PVRSRV_HAP_MAPTYPE_MASK)) OR
                  (case pui32Flags of None \<Rightarrow> 0 | Some f \<Rightarrow> f);
     a0 \<leftarrow> (case psSysAddr of [] \<Rightarrow> None | a # _ \<Rightarrow> Some a);
     let addr = a0 + ui32Offset;
     old \<leftarrow> find_wrapped ctx addr (HOST_PAGEALIGN (ui32Size + ui32Offset)) S;
     (if old \<noteq> NULL then do {
        b \<leftarrow> bm_bufs S old;
        Some (True, old, uFlags, S\<lparr>bm_bufs := (bm_bufs S)(old \<mapsto> b\<lparr>b_ui32RefCount := b_ui32RefCount b + 1\<rparr>)\<rparr>)
      }
      else (case OSAllocMem (bm_km S) of (e, bp, km) \<Rightarrow>
        let S = S\<lparr>bm_km := km\<rparr>
        in if e \<noteq> PVRSRV_OK then Some (False, NULL, uFlags, S)
           else do {
             (r, S) \<leftarrow> WrapMemory os hp ui32Size ui32Offset bPhysContig psSysAddr pvCPUVAddr uFlags S;
             (case r of
                None \<Rightarrow> Some (False, NULL, uFlags, S)
              | Some b \<Rightarrow> do {
                  let S = S\<lparr>bm_bufs := (bm_bufs S)(bp \<mapsto> b)\<rparr>;
                  m \<leftarrow> bm_mappings S (b_pMapping b);
                  ht \<leftarrow> pBufferHash ctx;
                  (let (ok, ht', km) = (if wrapped_contig m then HASH_Insert ht addr bp (bm_km S) else (True, ht, bm_km S))
                   in do {
                     S \<leftarrow> put_hash c ht' km S;
                     (if \<not> ok then do {
                        S \<leftarrow> FreeBuf os bp uFlags S;
                        Some (False, NULL, uFlags, S)
                      }
                      else do {
                        S \<leftarrow> pvr_get_ctx c (S\<lparr>bm_bufs := (bm_bufs S)(bp \<mapsto> b\<lparr>b_ui32RefCount := 1\<rparr>)\<rparr>);
                        Some (True, bp, (uFlags AND NOT PVRSRV_HAP_MAPTYPE_MASK) OR PVRSRV_HAP_MULTI_PROCESS, S)
                      })
                   })
                })
           }))
   }"

definition BM_Free :: "mmu_os \<Rightarrow> ptr \<Rightarrow> u32 \<Rightarrow> bm_state \<Rightarrow> bm_state option" where
  "BM_Free os bp ui32Flags S =
     (if bp = NULL then Some S
      else do {
        b \<leftarrow> bm_bufs S bp;
        let b = b\<lparr>b_ui32RefCount := b_ui32RefCount b - 1\<rparr>;
        let S = S\<lparr>bm_bufs := (bm_bufs S)(bp \<mapsto> b)\<rparr>;
        (if b_ui32RefCount b \<noteq> 0 then Some S
         else do {
           m \<leftarrow> bm_mappings S (b_pMapping b);
           bh \<leftarrow> bm_heaps S (m_pBMHeap m);
           let c = h_pBMContext bh;
           S \<leftarrow> (if wrapped_contig m then do {
                   ctx \<leftarrow> bm_ctxs S c;
                   ht \<leftarrow> pBufferHash ctx;
                   (case HASH_Remove ht (SysCpuPAddrToSysPAddr (b_CpuPAddr b)) (bm_km S) of (_, ht, km) \<Rightarrow> put_hash c ht km S)
                 }
                 else Some S);
           S \<leftarrow> FreeBuf os bp ui32Flags S;
           (_, S) \<leftarrow> pvr_put_ctx os c S;
           Some S
         })
      })"

subsection \<open>Queries\<close>

definition BM_HandleToCpuVaddr :: "ptr \<Rightarrow> bm_state \<Rightarrow> ptr option" where
  "BM_HandleToCpuVaddr bp S = (if bp = NULL then Some NULL else map_option b_CpuVAddr (bm_bufs S bp))"

definition BM_HandleToDevVaddr :: "ptr \<Rightarrow> bm_state \<Rightarrow> u32 option" where
  "BM_HandleToDevVaddr bp S = (if bp = NULL then Some 0 else map_option b_DevVAddr (bm_bufs S bp))"

definition BM_HandleToSysPaddr :: "ptr \<Rightarrow> bm_state \<Rightarrow> u32 option" where
  "BM_HandleToSysPaddr bp S =
     (if bp = NULL then Some 0 else map_option (\<lambda>b. SysCpuPAddrToSysPAddr (b_CpuPAddr b)) (bm_bufs S bp))"

definition BM_HandleToOSMemHandle :: "ptr \<Rightarrow> bm_state \<Rightarrow> ptr option" where
  "BM_HandleToOSMemHandle bp S = (if bp = NULL then Some NULL else map_option b_hOSMemHandle (bm_bufs S bp))"

text \<open>The memory info is given by the handle of its buffer, \<open>None\<close> for a NULL pointer.\<close>

definition BM_GetPhysPageAddr :: "mmu_os \<Rightarrow> ptr option \<Rightarrow> u32 \<Rightarrow> bm_state \<Rightarrow> (PVRSRV_ERROR \<times> u32) option" where
  "BM_GetPhysPageAddr os psMemInfo sDevVPageAddr S =
     (case psMemInfo of
        None \<Rightarrow> Some (PVRSRV_ERROR_INVALID_PARAMS, 0)
      | Some bp \<Rightarrow> do {
          b \<leftarrow> bm_bufs S bp;
          m \<leftarrow> bm_mappings S (b_pMapping b);
          bh \<leftarrow> bm_heaps S (m_pBMHeap m);
          mh \<leftarrow> bm_mmuheaps S (pMMUHeap bh);
          a \<leftarrow> MMU_GetPhysPageAddr os mh sDevVPageAddr (bm_mmu S);
          Some (PVRSRV_OK, a)
        })"

text \<open>The heap info: handle, base address, size and attributes.\<close>

definition BM_GetHeapInfo :: "ptr \<Rightarrow> bm_state \<Rightarrow> (PVRSRV_ERROR \<times> ptr \<times> u32 \<times> u32 \<times> u32) option" where
  "BM_GetHeapInfo hp S = do {
     bh \<leftarrow> bm_heaps S hp;
     Some (PVRSRV_OK, hp, BaseDevVAddr (h_sDevArena bh), da_ui32Size (h_sDevArena bh), h_ui32Attribs bh)
   }"

definition BM_GetMMUContext :: "ptr \<Rightarrow> bm_state \<Rightarrow> ptr option" where
  "BM_GetMMUContext hp S = do {
     bh \<leftarrow> bm_heaps S hp;
     ctx \<leftarrow> bm_ctxs S (h_pBMContext bh);
     Some (c_psMMUContext ctx)
   }"

definition BM_GetMMUContextFromMemContext :: "ptr \<Rightarrow> bm_state \<Rightarrow> ptr option" where
  "BM_GetMMUContextFromMemContext c S = map_option c_psMMUContext (bm_ctxs S c)"

definition BM_GetMMUHeap :: "ptr \<Rightarrow> bm_state \<Rightarrow> ptr option" where
  "BM_GetMMUHeap hp S = map_option pMMUHeap (bm_heaps S hp)"

definition BM_GetMappingHandle :: "ptr \<Rightarrow> bm_state \<Rightarrow> ptr option" where
  "BM_GetMappingHandle bp S = do {
     b \<leftarrow> bm_bufs S bp;
     m \<leftarrow> bm_mappings S (b_pMapping b);
     Some (m_hOSMemHandle m)
   }"

partial_function (option) bm_find_context :: "ptr \<Rightarrow> u32 \<Rightarrow> bm_state \<Rightarrow> ptr option" where
  "bm_find_context c page_dir S =
     (if c = NULL then Some NULL
      else do {
        ctx \<leftarrow> bm_ctxs S c;
        mctx \<leftarrow> mmu_ctxs (bm_mmu S) (c_psMMUContext ctx);
        (if mmu_get_page_dir mctx = page_dir then Some c else bm_find_context (c_psNext ctx) page_dir S)
      })"

declare destroy_heaps.simps [code] unlink_bm_ctx.simps [code] test_delete_heaps.simps [code] find_bm_ctx.simps [code]
  insert_heaps.simps [code] find_heap.simps [code] unlink_heap.simps [code] bm_find_context.simps [code] zero_loop.simps [code]

end
