(* ===== verification/Pvr_Devmem.thy ===== *)
theory Pvr_Devmem
  imports Pvr_Bm
begin

text \<open>
  Device memory: the mappings that \<open>DevMemoryAlloc\<close> makes and \<open>DevMemoryFree\<close> removes, over all heaps
  of a device. The specification is an address space per heap that assigns a page table entry to each
  page of each live mapping and nothing to any other page; the theorem at the end is that the page
  tables that the device walks implement it, in every context, after any sequence of operations.
\<close>

subsection \<open>The specification\<close>

text \<open>The physical address behind page \<open>i\<close> of a mapping, and the entry that maps it.\<close>

definition page_addr :: "mmu_os \<Rightarrow> BM_MAPPING \<Rightarrow> u32 \<Rightarrow> nat \<Rightarrow> u32" where
  "page_addr os m f i =
     (let adv = (if f AND PVRSRV_MEM_DUMMY \<noteq> 0 then 0 else 4096)
      in case eCpuMemoryOrigin m of
           hm_env \<Rightarrow> shadow_paddr os (m_CpuVAddr m) (m_hOSMemHandle m) (of_nat i * adv)
         | hm_wrapped_scatter \<Rightarrow> m_psSysAddr m ! i
         | hm_wrapped_scatter_virtaddr \<Rightarrow> m_psSysAddr m ! i
         | _ \<Rightarrow> m_CpuPAddr m + of_nat i * adv)"

definition mapping_pages :: "BM_MAPPING \<Rightarrow> nat set" where
  "mapping_pages m = page_range (m_DevVAddr m) (unat (m_uSize m) div 4096)"

type_synonym live_mapping = "ptr \<times> BM_MAPPING \<times> u32"

text \<open>The address space of heap \<open>q\<close> when the mappings \<open>ms\<close>, each with its heap and its flags, are live.\<close>

definition aspace :: "mmu_os \<Rightarrow> live_mapping list \<Rightarrow> ptr \<Rightarrow> nat \<rightharpoonup> u32" where
  "aspace os ms q n =
     (case find (\<lambda>(p, m, f). p = q \<and> n \<in> mapping_pages m) ms of
        None \<Rightarrow> None
      | Some (p, m, f) \<Rightarrow> Some (make_pte (page_addr os m f (n - pn (m_DevVAddr m))) f))"

record devmem =
  dm_heaps :: mmu_heaps
  dm_mmu :: mmu_state
  dm_maps :: "live_mapping list"

subsection \<open>Steps\<close>

text \<open>
  What a request relies on: the kernel allocator hands out fresh memory, the size is a number of whole
  pages that fits the address space, and a list of pages is long enough.
\<close>

definition map_size :: "BM_MAPPING \<Rightarrow> u32 \<Rightarrow> u32" where
  "map_size m f = (if f AND PVRSRV_MEM_INTERLEAVED \<noteq> 0 then m_uSize m * 2 else m_uSize m)"

definition alloc_hyps :: "mmu_os \<Rightarrow> MMU_HEAP \<Rightarrow> BM_MAPPING \<Rightarrow> u32 \<Rightarrow> u32 \<Rightarrow> mmu_state \<Rightarrow> bool" where
  "alloc_hyps os h m f al s \<longleftrightarrow> eCpuMemoryOrigin m \<noteq> hm_none \<and> 4096 dvd map_size m f \<and> (al \<le> 1 \<or> 4096 dvd al) \<and>
     (eCpuMemoryOrigin m \<in> {hm_wrapped_scatter, hm_wrapped_scatter_virtaddr} \<longrightarrow>
        unat (map_size m f) div 4096 \<le> length (m_psSysAddr m)) \<and> mmu_fresh os s \<and>
     (case psVMArena h of None \<Rightarrow> False
      | Some a \<Rightarrow> table_roomy (pSegmentHash a) \<and> fresh a (mmu_km s) \<and> request_ok a (map_size m f) al)"

inductive dm_step :: "mmu_os \<Rightarrow> devmem \<Rightarrow> devmem \<Rightarrow> bool" for os where
  alloc: "dm_heaps d p = Some h \<Longrightarrow> alloc_hyps os h m f al (dm_mmu d) \<Longrightarrow>
     DevMemoryAlloc os h m f al (dm_mmu d) = Some (ok, m', h', dv, s') \<Longrightarrow>
     dm_step os d \<lparr>dm_heaps = (dm_heaps d)(p \<mapsto> h'), dm_mmu = s', dm_maps = (if ok then (p, m', f) # dm_maps d else dm_maps d)\<rparr>"
| free: "(p, m, f) \<in> set (dm_maps d) \<Longrightarrow> dm_heaps d p = Some h \<Longrightarrow> DevMemoryFree os h m (dm_mmu d) = Some (h', s') \<Longrightarrow>
     dm_step os d \<lparr>dm_heaps = (dm_heaps d)(p \<mapsto> h'), dm_mmu = s', dm_maps = removeAll (p, m, f) (dm_maps d)\<rparr>"
| kernel: "dm_step os d (d\<lparr>dm_mmu := (dm_mmu d)\<lparr>mmu_km := km, page_ans := ans\<rparr>\<rparr>)"

inductive_cases dm_stepE: "dm_step os d d'"

subsection \<open>The invariant\<close>

definition heap_maps :: "live_mapping list \<Rightarrow> ptr \<Rightarrow> (u32 \<times> u32) set" where
  "heap_maps ms p = {(m_DevVAddr m, m_uSize m) | m f. (p, m, f) \<in> set ms}"

definition arena_ok :: "MMU_HEAP \<Rightarrow> (u32 \<times> u32) set \<Rightarrow> bool" where
  "arena_ok h B \<longleftrightarrow> low_heap h \<and> (\<exists>a. arena_of h a \<and> unpaged a = {} \<and> (\<lambda>(va, n, m). (va, n)) ` blocks a = B)"

definition implements :: "mmu_os \<Rightarrow> devmem \<Rightarrow> bool" where
  "implements os d \<longleftrightarrow> (\<forall>q g c va. dm_heaps d q = Some g \<longrightarrow> c \<in> sharers g (dm_mmu d) \<longrightarrow> va_of g va \<longrightarrow>
     translate os (dm_mmu d) c va = aspace os (dm_maps d) q (pn va))"

definition dm_ok :: "mmu_os \<Rightarrow> devmem \<Rightarrow> bool" where
  "dm_ok os d \<longleftrightarrow> mmu_system os (dm_heaps d) (dm_mmu d) \<and>
     (\<forall>p h. dm_heaps d p = Some h \<longrightarrow> arena_ok h (heap_maps (dm_maps d) p)) \<and>
     distinct (map (\<lambda>(p, m, f). (p, m_DevVAddr m)) (dm_maps d)) \<and> implements os d"

text \<open>A device whose heaps have just been created.\<close>

definition dm_init :: "mmu_os \<Rightarrow> devmem \<Rightarrow> bool" where
  "dm_init os d \<longleftrightarrow> mmu_system os (dm_heaps d) (dm_mmu d) \<and> dm_maps d = [] \<and>
     (\<forall>p h. dm_heaps d p = Some h \<longrightarrow> arena_ok h {}) \<and>
     (\<forall>q g c va. dm_heaps d q = Some g \<longrightarrow> c \<in> sharers g (dm_mmu d) \<longrightarrow> va_of g va \<longrightarrow> translate os (dm_mmu d) c va = None)"

lemma dm_okD:
  assumes "dm_ok os d"
  shows "mmu_system os (dm_heaps d) (dm_mmu d)" "dm_heaps d p = Some h \<Longrightarrow> arena_ok h (heap_maps (dm_maps d) p)"
    "distinct (map (\<lambda>(p, m, f). (p, m_DevVAddr m)) (dm_maps d))" "implements os d"
  using assms by (simp_all add: dm_ok_def)

lemma arena_okE:
  assumes "arena_ok h B"
  obtains a where "low_heap h" "arena_of h a" "unpaged a = {}" "(\<lambda>(va, n, m). (va, n)) ` blocks a = B" "ra_ok a"
  using assms by (auto simp: arena_ok_def arena_of_def plain_arena_def arena_inv_def)

lemma init_ok:
  assumes "dm_init os d"
  shows "dm_ok os d"
proof -
  have "heap_maps [] p = {}" for p by (simp add: heap_maps_def)
  moreover have "aspace os [] q n = None" for q n by (simp add: aspace_def)
  ultimately show ?thesis using assms by (auto simp: dm_init_def dm_ok_def implements_def)
qed

text \<open>A page of a live mapping has the entry of that mapping, since the mappings of a heap are apart.\<close>

lemma page_block:
  assumes "4096 dvd va" "4096 dvd n" "k \<in> page_range va (unat n div 4096)"
  shows "k * 4096 \<in> block va n"
  using assms by (auto simp: page_range_def block_def pn_def dvd_word_nat elim!: dvdE)

lemma maps_apart:
  assumes ok: "dm_ok os d" and h: "dm_heaps d p = Some h"
    and m: "(p, m, f) \<in> set (dm_maps d)" "(p, m', f') \<in> set (dm_maps d)" "k \<in> mapping_pages m" "k \<in> mapping_pages m'"
  shows "m' = m \<and> f' = f"
proof -
  obtain a where a: "unpaged a = {}" "(\<lambda>(va, n, m). (va, n)) ` blocks a = heap_maps (dm_maps d) p" "ra_ok a"
    using dm_okD(2) [OF ok h] by (rule arena_okE)
  have "(m_DevVAddr m, m_uSize m) \<in> heap_maps (dm_maps d) p" "(m_DevVAddr m', m_uSize m') \<in> heap_maps (dm_maps d) p"
    using m(1,2) by (auto simp: heap_maps_def)
  then obtain x x' where x: "(m_DevVAddr m, m_uSize m, x) \<in> blocks a" "(m_DevVAddr m', m_uSize m', x') \<in> blocks a"
    unfolding a(2) [symmetric] by auto
  have "k * 4096 \<in> block (m_DevVAddr m) (m_uSize m)" "k * 4096 \<in> block (m_DevVAddr m') (m_uSize m')"
    using page_block [OF blocks_paged [OF a(3,1) x(1)]] page_block [OF blocks_paged [OF a(3,1) x(2)]] m(3,4)
    unfolding mapping_pages_def by blast+
  then have "(m_DevVAddr m, m_uSize m, x) = (m_DevVAddr m', m_uSize m', x')" using blocks_disjoint [OF a(3) x] by blast
  then have "(p, m_DevVAddr m) = (p, m_DevVAddr m')" by simp
  then have "(p, m, f) = (p, m', f')"
    using m(1,2) dm_okD(3) [OF ok] by (auto simp: distinct_map inj_on_def)
  then show ?thesis by simp
qed

lemma aspace_in:
  assumes "(p, m, f) \<in> set ms" "k \<in> mapping_pages m"
    and u: "\<And>m' f'. (p, m', f') \<in> set ms \<Longrightarrow> k \<in> mapping_pages m' \<Longrightarrow> m' = m \<and> f' = f"
  shows "aspace os ms p k = Some (make_pte (page_addr os m f (k - pn (m_DevVAddr m))) f)"
proof -
  let ?P = "\<lambda>(q, m, f). q = p \<and> k \<in> mapping_pages m"
  obtain x where x: "find ?P ms = Some x"
    using assms(1,2) by (cases "find ?P ms") (auto simp: find_None_iff)
  then obtain i where i: "i < length ms" "?P (ms ! i)" "x = ms ! i" by (auto simp: find_Some_iff)
  then have y: "?P x" "x \<in> set ms" by simp_all
  obtain q m' f' where e: "x = (q, m', f')" by (cases x)
  then have "m' = m \<and> f' = f" using u y by auto
  then show ?thesis using x e by (simp add: aspace_def)
qed

lemma aspace_out:
  assumes "\<And>m f. (q, m, f) \<in> set ms \<Longrightarrow> k \<notin> mapping_pages m"
  shows "aspace os ms q k = None"
proof -
  have "find (\<lambda>(p, m, f). p = q \<and> k \<in> mapping_pages m) ms = None" using assms by (auto simp: find_None_iff)
  then show ?thesis by (simp add: aspace_def)
qed

lemma aspace_Cons:
  "aspace os ((p, m, f) # ms) q k = (if p = q \<and> k \<in> mapping_pages m
     then Some (make_pte (page_addr os m f (k - pn (m_DevVAddr m))) f) else aspace os ms q k)"
  by (simp add: aspace_def)

subsection \<open>Mapping\<close>

lemma page_addr_fun:
  "eCpuMemoryOrigin m = hm_env \<Longrightarrow> page_addr os m f =
     (\<lambda>i. shadow_paddr os (m_CpuVAddr m) (m_hOSMemHandle m) (of_nat i * (if f AND PVRSRV_MEM_DUMMY \<noteq> 0 then 0 else 4096)))"
  "eCpuMemoryOrigin m \<in> {hm_wrapped_scatter, hm_wrapped_scatter_virtaddr} \<Longrightarrow> page_addr os m f = (\<lambda>i. m_psSysAddr m ! i)"
  "eCpuMemoryOrigin m \<in> {hm_wrapped, hm_wrapped_virtaddr, hm_contiguous} \<Longrightarrow> page_addr os m f =
     (\<lambda>i. m_CpuPAddr m + of_nat i * (if f AND PVRSRV_MEM_DUMMY \<noteq> 0 then 0 else 4096))"
  by (auto simp: fun_eq_iff page_addr_def Let_def)

lemma take_nth: "k \<le> length xs \<Longrightarrow> take k xs = map (\<lambda>i. xs ! i) [0..<k]"
  by (rule nth_equalityI) simp_all

text \<open>After the address range is there, the three ways of mapping are one sequence of pages.\<close>

lemma dev_map_seq:
  assumes n: "4096 dvd m_uSize m" "unat (m_uSize m) \<le> 2 ^ 32 - 4096" and o: "eCpuMemoryOrigin m \<noteq> hm_none"
    and l: "eCpuMemoryOrigin m \<in> {hm_wrapped_scatter, hm_wrapped_scatter_virtaddr} \<Longrightarrow> unat (m_uSize m) div 4096 \<le> length (m_psSysAddr m)"
  shows "map_origin os h m f s =
     do { s \<leftarrow> map_seq os h (m_DevVAddr m) (map (page_addr os m f) [0..<unat (m_uSize m) div 4096]) f s; Some (True, m_DevVAddr m, s) }"
proof -
  let ?k = "unat (m_uSize m) div 4096"
  have k: "pages_left 0 (m_uSize m) = ?k" using n(1) by (auto simp: pages_left_0 dvd_word_nat elim!: dvdE)
  have sc: "MMU_MapScatter os h (m_DevVAddr m) (m_psSysAddr m) (m_uSize m) f s = map_seq os h (m_DevVAddr m) (map (\<lambda>i. m_psSysAddr m ! i) [0..<?k]) f s"
    if "?k \<le> length (m_psSysAddr m)"
    using map_scatter_loop_seq [OF n(2), of 0 0 "m_psSysAddr m" os h "m_DevVAddr m" f s] that by (simp add: MMU_MapScatter_def k take_nth)
  consider "eCpuMemoryOrigin m \<in> {hm_wrapped, hm_wrapped_virtaddr, hm_contiguous}" | "eCpuMemoryOrigin m = hm_env"
    | "eCpuMemoryOrigin m \<in> {hm_wrapped_scatter, hm_wrapped_scatter_virtaddr}" using o by (cases "eCpuMemoryOrigin m") auto
  then show ?thesis
  proof cases
    case 1
    then show ?thesis
      by (simp only: map_origin_def if_True MMU_MapPages_def map_pages_loop_seq [OF n(2)] k page_addr_fun(3) SysCpuPAddrToSysPAddr_def
          SysSysPAddrToDevPAddr_def SGX_MMU_PAGE_SIZE_def)
  next
    case 2
    then show ?thesis
      by (simp add: map_origin_def MMU_MapShadow_def map_shadow_loop_seq [OF n(2)] k page_addr_fun(1) SGX_MMU_PAGE_SIZE_def del: if_split)
  next
    case 3
    then have "eCpuMemoryOrigin m \<notin> {hm_wrapped, hm_wrapped_virtaddr, hm_contiguous}" "eCpuMemoryOrigin m \<noteq> hm_env" by auto
    then show ?thesis using sc [OF l [OF 3]] page_addr_fun(2) [OF 3] 3 by (simp only: map_origin_def if_True if_False simp_thms)
  qed
qed

subsection \<open>Allocation\<close>

lemma blocks_inj:
  assumes "ra_ok a"
  shows "inj_on (\<lambda>(va, n, m). (va, n)) (blocks a)"
proof (rule inj_onI)
  fix x y assume x: "x \<in> blocks a" "y \<in> blocks a" "(case x of (va, n, m) \<Rightarrow> (va, n)) = (case y of (va, n, m) \<Rightarrow> (va, n))"
  obtain va n m m' where e: "x = (va, n, m)" "y = (va, n, m')" using x(3) by (cases x, cases y) simp
  obtain q z where "live a q = Some z" "bytes z = block va n" using x(1) unfolding e by (rule blocks_member)
  then have "block va n \<noteq> {}" using ra_ok_live(4) [OF assms] by blast
  then show "x = y" using blocks_disjoint [OF assms x(1,2) [unfolded e]] e by blast
qed

lemma heap_maps_Cons: "heap_maps ((p, m, f) # ms) q = (if q = p then insert (m_DevVAddr m, m_uSize m) (heap_maps ms q) else heap_maps ms q)"
  by (auto simp: heap_maps_def)

lemma implements_same:
  assumes "implements os d" "same_translations os (dm_heaps d) (dm_mmu d) s'" "dom (mmu_ctxs s') = dom (mmu_ctxs (dm_mmu d))"
    and "dm_heaps d p = Some h" "same_heap h h'"
  shows "implements os \<lparr>dm_heaps = (dm_heaps d)(p \<mapsto> h'), dm_mmu = s', dm_maps = dm_maps d\<rparr>"
  unfolding implements_def
proof (intro allI impI)
  fix q g c va
  assume g: "dm_heaps \<lparr>dm_heaps = (dm_heaps d)(p \<mapsto> h'), dm_mmu = s', dm_maps = dm_maps d\<rparr> q = Some g"
    "c \<in> sharers g (dm_mmu \<lparr>dm_heaps = (dm_heaps d)(p \<mapsto> h'), dm_mmu = s', dm_maps = dm_maps d\<rparr>)" "va_of g va"
  obtain g0 where g0: "dm_heaps d q = Some g0" "same_heap g0 g" using g(1) assms(4,5) by (cases "q = p") auto
  have "sharers g s' = sharers g0 (dm_mmu d)" using same_heapD(2) [OF g0(2)] assms(3) by (simp add: sharers_def)
  moreover have "va_of g va = va_of g0 va" using same_heapD(1) [OF g0(2)] by (simp add: va_of_def)
  ultimately show "translate os (dm_mmu \<lparr>dm_heaps = (dm_heaps d)(p \<mapsto> h'), dm_mmu = s', dm_maps = dm_maps d\<rparr>) c va =
      aspace os (dm_maps \<lparr>dm_heaps = (dm_heaps d)(p \<mapsto> h'), dm_mmu = s', dm_maps = dm_maps d\<rparr>) q (pn va)"
    using g g0(1) assms(1,2) by (simp add: implements_def same_translations_def)
qed

lemma arena_ok_upd:
  assumes "low_heap h" "same_heap h h'" "arena_of h' a'" "unpaged a' = {}" "(\<lambda>(va, n, m). (va, n)) ` blocks a' = B"
  shows "arena_ok h' B"
  using assms low_heap_same [OF assms(2)] by (auto simp: arena_ok_def)

lemma DevMemoryAlloc_keeps:
  assumes ok: "dm_ok os d" and h: "dm_heaps d p = Some h" and hy: "alloc_hyps os h m f al (dm_mmu d)"
  shows "\<exists>r m' h' dv s'. DevMemoryAlloc os h m f al (dm_mmu d) = Some (r, m', h', dv, s') \<and>
     dm_ok os \<lparr>dm_heaps = (dm_heaps d)(p \<mapsto> h'), dm_mmu = s', dm_maps = (if r then (p, m', f) # dm_maps d else dm_maps d)\<rparr> \<and>
     same_heap h h' \<and> dom (mmu_ctxs s') = dom (mmu_ctxs (dm_mmu d)) \<and>
     (r \<longrightarrow> dv = m_DevVAddr m' \<and> m' = m\<lparr>m_uSize := map_size m f, m_DevVAddr := dv\<rparr>)"
proof -
  let ?H = "dm_heaps d" and ?s = "dm_mmu d" and ?n = "map_size m f"
  note D = dm_okD [OF ok]
  obtain a where a: "low_heap h" "arena_of h a" "unpaged a = {}" "(\<lambda>(va, n, m). (va, n)) ` blocks a = heap_maps (dm_maps d) p" "ra_ok a"
    using D(2) [OF h] by (rule arena_okE)
  have va: "psVMArena h = Some a" using a(2) by (simp add: arena_of_def)
  have hy': "eCpuMemoryOrigin m \<noteq> hm_none" "4096 dvd ?n" "al \<le> 1 \<or> 4096 dvd al" "mmu_fresh os ?s"
    "table_roomy (pSegmentHash a)" "fresh a (mmu_km ?s)" "request_ok a ?n al"
    "eCpuMemoryOrigin m \<in> {hm_wrapped_scatter, hm_wrapped_scatter_virtaddr} \<Longrightarrow> unat ?n div 4096 \<le> length (m_psSysAddr m)"
    using hy va by (auto simp: alloc_hyps_def)
  define m1 where "m1 = m\<lparr>m_uSize := ?n\<rparr>"
  have m1: "(if f AND PVRSRV_MEM_INTERLEAVED \<noteq> 0 then m\<lparr>m_uSize := m_uSize m * 2\<rparr> else m) = m1" by (simp add: m1_def map_size_def)
  obtain r va h1 a1 s1 where r: "MMU_Alloc os h ?n 0 al (m_DevVAddr m) ?s = Some (r, va, h1, s1)" "same_heap h h1" "arena_of h1 a1"
    "mmu_system os (?H(p \<mapsto> h1)) s1" "same_translations os ?H ?s s1" "dom (mmu_ctxs s1) = dom (mmu_ctxs ?s)" "unpaged a1 = {}"
    "if r then aligned al (unat va) \<and> in_heap h va ?n \<and> covered os h1 s1 (page_range va (pages_left 0 ?n)) \<and>
         (\<exists>m. blocks a1 = insert (va, ?n, m) (blocks a)) \<and> (\<forall>b k m'. (b, k, m') \<in> blocks a \<longrightarrow> block va ?n \<inter> block b k = {})
      else blocks a1 = blocks a"
    using MMU_Alloc_spec [OF D(1) h a(2,1) _ hy'(5,6,4,7), of 0 "m_DevVAddr m"] a(3) hy'(2,3) by auto
  define m2 where "m2 = m1\<lparr>m_DevVAddr := va\<rparr>"
  note same = implements_same [OF D(4) r(5,6) h r(2)]
  have others: "arena_ok g B" if "(?H(p \<mapsto> h1)) q = Some g" "q \<noteq> p" "B = heap_maps (dm_maps d) q" for q g B
    using that D(2) [of q g] by simp
  show ?thesis
  proof (cases r)
    case False
    then have run: "DevMemoryAlloc os h m f al ?s = Some (False, m2, h1, 0, s1)"
      using r(1) by (simp add: DevMemoryAlloc_def m1 m2_def) (simp add: m1_def)
    have "arena_ok h1 (heap_maps (dm_maps d) p)" by (rule arena_ok_upd [OF a(1) r(2,3,7)]) (use r(8) False a(4) in simp)
    then have "dm_ok os \<lparr>dm_heaps = ?H(p \<mapsto> h1), dm_mmu = s1, dm_maps = dm_maps d\<rparr>"
      using r(4) same D(3) others by (auto simp: dm_ok_def split: if_splits)
    then show ?thesis using run r(2,6) by auto
  next
    case True
    have ih: "in_heap h1 va ?n" using r(8) True same_heapD(9) [OF r(2)] by (simp add: in_heap_def)
    have n0: "?n \<noteq> 0" using ih by (simp add: in_heap_def Let_def)
    have nb: "unat ?n \<le> 2 ^ 32 - 4096"
      using ih low_heap_same [OF r(2)] a(1) by (simp add: in_heap_def Let_def low_heap_def)
    have k: "pages_left 0 ?n = unat ?n div 4096" using hy'(2) by (auto simp: pages_left_0 dvd_word_nat elim!: dvdE)
    let ?pas = "map (page_addr os m2 f) [0..<unat ?n div 4096]"
    have run: "DevMemoryAlloc os h m f al ?s = do { s \<leftarrow> map_seq os h1 va ?pas f s1; Some (True, m2, h1, va, s) }"
    proof -
      have "m_uSize m2 = ?n" "eCpuMemoryOrigin m2 = eCpuMemoryOrigin m" "m_psSysAddr m2 = m_psSysAddr m" "m_DevVAddr m2 = va"
        by (simp_all add: m2_def m1_def)
      then have "map_origin os h1 m2 f s1 = do { s \<leftarrow> map_seq os h1 va ?pas f s1; Some (True, va, s) }"
        using dev_map_seq [of m2 os h1 f s1] hy'(1,2,8) nb by simp
      moreover have "MMU_Alloc os h (m_uSize m1) 0 al (m_DevVAddr m1) ?s = Some (True, va, h1, s1)" using r(1) True by (simp add: m1_def)
      ultimately show ?thesis unfolding DevMemoryAlloc_def m1 Let_def by (simp add: m2_def [symmetric])
    qed
    obtain x where b1: "blocks a1 = insert (va, ?n, x) (blocks a)" using r(8) True by auto
    have dis: "block va ?n \<inter> block b k = {}" if "(b, k, m') \<in> blocks a" for b k m' using r(8) True that by auto
    have ok1: "ra_ok a1" using r(3) by (simp add: arena_of_def plain_arena_def arena_inv_def)
    have al1: "4096 dvd va" using blocks_paged(1) [OF ok1 r(7), of va ?n x] b1 by simp
    have ne: "block va ?n \<noteq> {}" using n0 by (simp add: block_def unat_gt_0 [symmetric] word_neq_0_conv)
    have old: "\<exists>x. (m_DevVAddr m0, m_uSize m0, x) \<in> blocks a" if "(p, m0, f0) \<in> set (dm_maps d)" for m0 f0
    proof -
      have "(m_DevVAddr m0, m_uSize m0) \<in> heap_maps (dm_maps d) p" using that by (auto simp: heap_maps_def)
      then show ?thesis unfolding a(4) [symmetric] by auto
    qed
    have new: "k \<notin> mapping_pages m0" if mm: "(p, m0, f0) \<in> set (dm_maps d)" and kk: "k \<in> page_range va (unat ?n div 4096)" for m0 f0 k
    proof
      assume k: "k \<in> mapping_pages m0"
      obtain y where y: "(m_DevVAddr m0, m_uSize m0, y) \<in> blocks a" using old [OF mm] by blast
      have "k * 4096 \<in> block (m_DevVAddr m0) (m_uSize m0)"
        using page_block [OF blocks_paged [OF a(5,3) y]] k by (simp add: mapping_pages_def)
      then show False using page_block [OF al1 hy'(2) kk] dis [OF y] by blast
    qed
    have h1p: "(?H(p \<mapsto> h1)) p = Some h1" by simp
    have un: "translate os s1 (psMMUContext h1) va' = None" if "pn va' \<in> page_range va (pages_left 0 ?n)" for va'
    proof -
      have c: "psMMUContext h1 \<in> sharers h ?s" using context_sharer [OF D(1) h] same_heapD(7) [OF r(2)] by simp
      have v: "va_of h va'" using page_range_heap [OF ih that] same_heapD(1) [OF r(2)] by (simp add: va_of_def)
      have "translate os s1 (psMMUContext h1) va' = aspace os (dm_maps d) p (pn va')"
        using r(5) D(4) h c v by (simp add: same_translations_def implements_def)
      also have "\<dots> = None" by (rule aspace_out) (use new that k in auto)
      finally show ?thesis .
    qed
    have len: "length ?pas = pages_left 0 ?n" by (simp add: k)
    have cov: "covered os h1 s1 (page_range va (pages_left 0 ?n))" using r(8) True by simp
    obtain s2 where s2: "map_seq os h1 va ?pas f s1 = Some s2" "mmu_system os (?H(p \<mapsto> h1)) s2" "dom (mmu_ctxs s2) = dom (mmu_ctxs s1)"
      "\<And>q g c va'. (?H(p \<mapsto> h1)) q = Some g \<Longrightarrow> c \<in> sharers g s1 \<Longrightarrow> va_of g va' \<Longrightarrow> translate os s2 c va' =
        (if q = p \<and> pn va' \<in> page_range va (unat ?n div 4096) then Some (make_pte (?pas ! (pn va' - pn va)) f) else translate os s1 c va')"
      using map_seq_system [OF r(4) h1p ih len cov, of f] un unfolding k by blast
    let ?d = "\<lparr>dm_heaps = ?H(p \<mapsto> h1), dm_mmu = s2, dm_maps = (p, m2, f) # dm_maps d\<rparr>"
    have m2: "m_DevVAddr m2 = va" "m_uSize m2 = ?n" by (simp_all add: m2_def m1_def)
    have "arena_ok h1 (heap_maps (dm_maps ?d) p)"
      by (rule arena_ok_upd [OF a(1) r(2,3,7)]) (simp add: b1 a(4) heap_maps_Cons m2)
    then have ar: "arena_ok g (heap_maps (dm_maps ?d) q)" if "dm_heaps ?d q = Some g" for q g
      using that others [of q g] by (cases "q = p") (auto simp: heap_maps_Cons)
    have "m_DevVAddr m0 \<noteq> va" if m0: "(p, m0, f0) \<in> set (dm_maps d)" for m0 f0
    proof
      assume e: "m_DevVAddr m0 = va"
      obtain y where y: "(m_DevVAddr m0, m_uSize m0, y) \<in> blocks a" using old [OF m0] by blast
      obtain q z where "live a q = Some z" "bytes z = block (m_DevVAddr m0) (m_uSize m0)" using y by (rule blocks_member)
      then have "block (m_DevVAddr m0) (m_uSize m0) \<noteq> {}" using ra_ok_live(4) [OF a(5)] by blast
      then show False using dis [OF y] ne e by (auto simp: block_def)
    qed
    then have di: "distinct (map (\<lambda>(p, m, f). (p, m_DevVAddr m)) (dm_maps ?d))" using D(3) by (auto simp: m2)
    have "implements os ?d"
      unfolding implements_def
    proof (intro allI impI)
      fix q g c va' assume g: "dm_heaps ?d q = Some g" "c \<in> sharers g (dm_mmu ?d)" "va_of g va'"
      have c1: "c \<in> sharers g s1" using g(2) s2(3) by (simp add: sharers_def split: if_splits)
      have "translate os s1 c va' = aspace os (dm_maps d) q (pn va')" using same g c1 by (simp add: implements_def)
      moreover have "?pas ! (pn va' - pn va) = page_addr os m2 f (pn va' - pn va)" if "pn va' \<in> page_range va (unat ?n div 4096)"
        using that by (auto simp: page_range_def)
      ultimately show "translate os (dm_mmu ?d) c va' = aspace os (dm_maps ?d) q (pn va')"
        using s2(4) [of q g c va'] g c1 by (auto simp: aspace_Cons mapping_pages_def m2 split: if_splits)
    qed
    then have "dm_ok os ?d" using s2(2) ar di by (simp add: dm_ok_def)
    then show ?thesis using run s2(1,3) r(2,6) True m2 by (auto simp: m2_def m1_def)
  qed
qed

subsection \<open>Freeing\<close>

lemma heap_maps_remove:
  assumes "distinct (map (\<lambda>(p, m, f). (p, m_DevVAddr m)) ms)" "(p, m, f) \<in> set ms"
  shows "heap_maps (removeAll (p, m, f) ms) q = (if q = p then heap_maps ms q - {(m_DevVAddr m, m_uSize m)} else heap_maps ms q)"
proof -
  have u: "(p, m', f') = (p, m, f)" if "(p, m', f') \<in> set ms" "m_DevVAddr m' = m_DevVAddr m" for m' f'
  proof -
    have "inj_on (\<lambda>(p, m, f). (p, m_DevVAddr m)) (set ms)" using assms(1) by (simp add: distinct_map)
    then show ?thesis by (rule inj_onD) (use assms(2) that in simp_all)
  qed
  show ?thesis
  proof (rule set_eqI, clarify, rule iffI)
    fix va n assume "(va, n) \<in> heap_maps (removeAll (p, m, f) ms) q"
    then obtain m' f' where m': "(q, m', f') \<in> set ms" "(q, m', f') \<noteq> (p, m, f)" "va = m_DevVAddr m'" "n = m_uSize m'"
      by (auto simp: heap_maps_def)
    then have "\<not> (q = p \<and> m_DevVAddr m' = m_DevVAddr m)" using u by auto
    then show "(va, n) \<in> (if q = p then heap_maps ms q - {(m_DevVAddr m, m_uSize m)} else heap_maps ms q)"
      using m' by (auto simp: heap_maps_def)
  next
    fix va n assume v: "(va, n) \<in> (if q = p then heap_maps ms q - {(m_DevVAddr m, m_uSize m)} else heap_maps ms q)"
    then obtain m' f' where m': "(q, m', f') \<in> set ms" "va = m_DevVAddr m'" "n = m_uSize m'" by (auto simp: heap_maps_def split: if_splits)
    then have "(q, m', f') \<noteq> (p, m, f)" using v by auto
    then show "(va, n) \<in> heap_maps (removeAll (p, m, f) ms) q" using m' by (auto simp: heap_maps_def)
  qed
qed

lemma live_filled:
  assumes ok: "dm_ok os d" and h: "dm_heaps d p = Some h" and m: "(p, m, f) \<in> set (dm_maps d)"
    and ih: "in_heap h (m_DevVAddr m) (m_uSize m)" and al: "4096 dvd m_uSize m"
  shows "filled os h (dm_mmu d) (mapping_pages m)"
  unfolding filled_def
proof (intro ballI)
  fix k assume k: "k \<in> mapping_pages m"
  have e: "pages_left 0 (m_uSize m) = unat (m_uSize m) div 4096" using al by (auto simp: pages_left_0 dvd_word_nat elim!: dvdE)
  then have k': "k \<in> page_range (m_DevVAddr m) (pages_left 0 (m_uSize m))" using k by (simp add: mapping_pages_def)
  have s: "k div 1024 \<in> heap_slots h" by (rule page_range_heap [OF ih k'])
  have l: "k < 2 ^ 20" using page_range_end [OF ih] k' by (simp add: page_range_def)
  let ?va = "of_nat (k * 4096) :: u32"
  note D = dm_okD [OF ok]
  have v: "pn ?va = k" "va_of h ?va" using pn_of_nat [OF l] s by (simp_all add: va_of_def del: of_nat_mult)
  have c: "psMMUContext h \<in> sharers h (dm_mmu d)" by (rule context_sharer [OF D(1) h])
  have "translate os (dm_mmu d) (psMMUContext h) ?va = aspace os (dm_maps d) p k"
    using D(4) h c v by (simp add: implements_def del: of_nat_mult)
  also have "\<dots> \<noteq> None" using aspace_in [OF m k] maps_apart [OF ok h m _ k] by auto
  finally have "xlate (pts os h (dm_mmu d)) k \<noteq> None"
    using translate_xlate [OF mmu_systemD(1,2) [OF D(1)] c, of p ?va] h v by (simp add: va_of_def del: of_nat_mult)
  then have "pts os h (dm_mmu d) (k div 1024) \<noteq> None" by (auto simp: xlate_def split: option.splits)
  then show "k div 1024 \<in> heap_slots h \<and> (pts os h (dm_mmu d) (k div 1024) = None \<longrightarrow>
      pt_slot (dm_mmu d) (psMMUContext h) (k div 1024) = Some NULL)" using s by auto
qed

lemma DevMemoryFree_keeps:
  assumes ok: "dm_ok os d" and m: "(p, m, f) \<in> set (dm_maps d)" and h: "dm_heaps d p = Some h"
  shows "\<exists>h' s'. DevMemoryFree os h m (dm_mmu d) = Some (h', s') \<and>
     dm_ok os \<lparr>dm_heaps = (dm_heaps d)(p \<mapsto> h'), dm_mmu = s', dm_maps = removeAll (p, m, f) (dm_maps d)\<rparr> \<and>
     same_heap h h' \<and> dom (mmu_ctxs s') = dom (mmu_ctxs (dm_mmu d))"
proof -
  let ?H = "dm_heaps d" and ?s = "dm_mmu d" and ?va = "m_DevVAddr m" and ?n = "m_uSize m"
  note D = dm_okD [OF ok]
  obtain a where a: "low_heap h" "arena_of h a" "unpaged a = {}" "(\<lambda>(va, n, m). (va, n)) ` blocks a = heap_maps (dm_maps d) p" "ra_ok a"
    using D(2) [OF h] by (rule arena_okE)
  have "(?va, ?n) \<in> heap_maps (dm_maps d) p" using m by (auto simp: heap_maps_def)
  then obtain x where x: "(?va, ?n, x) \<in> blocks a" unfolding a(4) [symmetric] by auto
  have al: "4096 dvd ?va" "4096 dvd ?n" using blocks_paged [OF a(5,3) x] .
  have ih: "in_heap h ?va ?n" by (rule blocks_in_heap(1) [OF a(2,1) x])
  note fl = live_filled [OF ok h m ih al(2), unfolded mapping_pages_def]
  obtain h' a' s' where f: "MMU_Free os h ?va ?n ?s = Some (h', s')" "same_heap h h'" "arena_of h' a'"
    "blocks a' = blocks a - {(?va, ?n, x)}" "unpaged a' = {}" "mmu_system os (?H(p \<mapsto> h')) s'" "dom (mmu_ctxs s') = dom (mmu_ctxs ?s)"
    "\<And>q g c va'. ?H q = Some g \<Longrightarrow> c \<in> sharers g ?s \<Longrightarrow> va_of g va' \<Longrightarrow>
      translate os s' c va' = (if q = p \<and> pn va' \<in> page_range ?va (unat ?n div 4096) then None else translate os ?s c va')"
    using MMU_Free_spec [OF D(1) h a(2,1) x al [unfolded dvd_word_nat] fl] a(3) by blast
  let ?ms = "removeAll (p, m, f) (dm_maps d)"
  let ?d = "\<lparr>dm_heaps = ?H(p \<mapsto> h'), dm_mmu = s', dm_maps = ?ms\<rparr>"
  have "(\<lambda>(va, n, m). (va, n)) ` blocks a' = heap_maps ?ms p"
    using inj_on_image_set_diff [OF blocks_inj [OF a(5)], of "blocks a" "{(?va, ?n, x)}"] x
    by (simp add: f(4) a(4) heap_maps_remove [OF D(3) m])
  then have "arena_ok h' (heap_maps ?ms p)" by (rule arena_ok_upd [OF a(1) f(2,3,5)])
  then have ar: "arena_ok g (heap_maps ?ms q)" if "(?H(p \<mapsto> h')) q = Some g" for q g
    using that D(2) [of q g] by (cases "q = p") (auto simp: heap_maps_remove [OF D(3) m])
  have di: "distinct (map (\<lambda>(p, m, f). (p, m_DevVAddr m)) ?ms)"
    using D(3) by (auto simp: distinct_map inj_on_def distinct_removeAll)
  have "implements os ?d"
    unfolding implements_def
  proof (intro allI impI)
    fix q g c va' assume g: "dm_heaps ?d q = Some g" "c \<in> sharers g (dm_mmu ?d)" "va_of g va'"
    obtain g0 where g0: "?H q = Some g0" "same_heap g0 g" using g(1) h f(2) by (cases "q = p") auto
    have c0: "c \<in> sharers g0 ?s" using g(2) f(7) same_heapD(2) [OF g0(2)] by (simp add: sharers_def split: if_splits)
    have v0: "va_of g0 va'" using g(3) same_heapD(1) [OF g0(2)] by (simp add: va_of_def)
    have t: "translate os s' c va' = (if q = p \<and> pn va' \<in> mapping_pages m then None else aspace os (dm_maps d) q (pn va'))"
      using f(8) [OF g0(1) c0 v0] D(4) g0(1) c0 v0 by (simp add: implements_def mapping_pages_def)
    have "aspace os ?ms q (pn va') = (if q = p \<and> pn va' \<in> mapping_pages m then None else aspace os (dm_maps d) q (pn va'))"
    proof (cases "\<exists>m' f'. (q, m', f') \<in> set ?ms \<and> pn va' \<in> mapping_pages m'")
      case True
      then obtain m' f' where m': "(q, m', f') \<in> set ?ms" "pn va' \<in> mapping_pages m'" by blast
      have md: "(q, m', f') \<in> set (dm_maps d)" using m'(1) by auto
      have u: "m'' = m' \<and> f'' = f'" if "(q, m'', f'') \<in> set (dm_maps d)" "pn va' \<in> mapping_pages m''" for m'' f''
        by (rule maps_apart [OF ok g0(1) md that(1) m'(2) that(2)])
      have "\<not> (q = p \<and> pn va' \<in> mapping_pages m)" using u m m'(1) by auto
      moreover have "aspace os ?ms q (pn va') = aspace os (dm_maps d) q (pn va')"
        using aspace_in [OF m', of os] aspace_in [OF md m'(2), of os] u by auto
      ultimately show ?thesis by (simp only: if_False)
    next
      case False
      then have "aspace os ?ms q (pn va') = None" by (intro aspace_out) blast
      moreover have "aspace os (dm_maps d) q (pn va') = None" if "\<not> (q = p \<and> pn va' \<in> mapping_pages m)"
        by (rule aspace_out) (use False that in auto)
      ultimately show ?thesis by simp
    qed
    then show "translate os (dm_mmu ?d) c va' = aspace os (dm_maps ?d) q (pn va')" using t by simp
  qed
  then have "dm_ok os ?d" using f(6) ar di by (simp add: dm_ok_def)
  then show ?thesis using f(1,2,7) by (auto simp: DevMemoryFree_def)
qed

subsection \<open>The invariant of all runs\<close>

lemma kernel_keeps:
  assumes "dm_ok os d"
  shows "dm_ok os (d\<lparr>dm_mmu := (dm_mmu d)\<lparr>mmu_km := km, page_ans := ans\<rparr>\<rparr>)"
proof -
  let ?t = "(dm_mmu d)\<lparr>mmu_km := km, page_ans := ans\<rparr>"
  have c: "core ?t = core (dm_mmu d)" by simp
  then have "same_translations os (dm_heaps d) (dm_mmu d) ?t" by (rule core_translations)
  moreover have "sharers g ?t = sharers g (dm_mmu d)" for g by (simp add: sharers_def)
  ultimately show ?thesis
    using assms core_system [OF c, of os "dm_heaps d"] by (simp add: dm_ok_def implements_def same_translations_def)
qed

lemma dm_step_keeps: "dm_ok os d \<Longrightarrow> dm_step os d d' \<Longrightarrow> dm_ok os d'"
proof (erule dm_stepE, goal_cases)
  case (1 p h m f al ok m' h' dv s')
  then show ?case using DevMemoryAlloc_keeps [OF 1(1,3,4)] by auto
next
  case (2 p m f h h' s')
  then show ?case using DevMemoryFree_keeps [OF 2(1,3,4)] by auto
next
  case (3 km ans)
  then show ?case using kernel_keeps by simp
qed

interpretation dm: invariant_system "dm_init os" "dm_step os" "dm_ok os" for os
  by unfold_locales (auto intro: init_ok dm_step_keeps)

end
