(* ===== verification/Pvr_Mmu_Props.thy ===== *)
theory Pvr_Mmu_Props
  imports Pvr_Sgx_Heaps
begin

text \<open>
  What the users of the device MMU rely on, in terms of the translations that the device finds by
  walking the page tables of a context.
\<close>

subsection \<open>A concrete device\<close>

text \<open>
  Two contexts made by \<open>MMU_Initialise\<close>, the general heap of the first one, and the shared kernel
  code heap shown in both. Kernel addresses are physical ones shifted by a constant.
\<close>

definition demo_os :: mmu_os where
  "demo_os = \<lparr>VMallocToPhys = (\<lambda>v. v - 0xC0000000), LinuxMemAreaToCpuPAddr = (\<lambda>h off. 0x80000000 + off), local_import = no_imports\<rparr>"

definition demo_start :: mmu_state where
  "demo_start = \<lparr>pt_infos = Map.empty, mmu_ctxs = Map.empty, mem = Map.empty, areas = Map.empty, pvMMUContextList = NULL,
     ui32CacheControl = 0, local_arena = None,
     bif = \<lparr>hBIFResetPDOSMemHandle = 0, sBIFResetPDDevPAddr = 0, sBIFResetPTDevPAddr = 0, sBIFResetPageDevPAddr = 0,
       pui32BIFResetPD = 0, pui32BIFResetPT = 0\<rparr>,
     raw_frame = (\<lambda>_. replicate 1024 0xDEADBEEF),
     mmu_km = [16, 17, 18, 19, 20, 21, 22, 23, 24, 25, 26, 27, 28, 29, 30, 31],
     page_ans = [(0xC0010000, 1), (0xC0011000, 2), (0xC0012000, 3), (0xC0013000, 4), (0xC0014000, 5), (0xC0015000, 6)],
     map_ans = []\<rparr>"

definition demo_ctx :: "(PVRSRV_ERROR \<times> ptr \<times> u32 \<times> mmu_state) option" where
  "demo_ctx = MMU_Initialise demo_os demo_start"

definition demo1 :: mmu_state where "demo1 = (case demo_ctx of Some (_, _, _, s) \<Rightarrow> s)"

definition demo_heap :: MMU_HEAP where
  "demo_heap = new_heap 16 (arena_descriptor heap_GENERAL)"

definition demo_heaps :: mmu_heaps where "demo_heaps = [0x40 \<mapsto> demo_heap]"

definition demo_pts :: "(bool \<times> mmu_state) option" where
  "demo_pts = DeferredAllocPagetables demo_os demo_heap 0x01800000 0x3000 demo1"

definition demo2 :: mmu_state where "demo2 = (case demo_pts of Some (_, s) \<Rightarrow> s)"

lemma demo_os_sel [simp]: "VMallocToPhys demo_os v = v - 0xC0000000" by (simp add: demo_os_def)

lemma demo_start_ok: "mmu_inv demo_os demo_start" "ctxs_fresh demo_start" "mmu_fresh demo_os demo_start" "dom (mmu_ctxs demo_start) = {}"
proof -
  have t: "table demo_start k = None" for k by (cases k) (simp_all add: demo_start_def pt_slot_def)
  have s: "pt_slot demo_start c i = None" for c i by (simp add: demo_start_def pt_slot_def)
  have "ctx_list demo_start (pvMMUContextList demo_start) []" by (simp add: demo_start_def)
  moreover have "distinct ([] :: ptr list)" "set [] = dom (mmu_ctxs demo_start)" by (simp_all add: demo_start_def)
  ultimately have "\<exists>cs. ctx_list demo_start (pvMMUContextList demo_start) cs \<and> distinct cs \<and> set cs = dom (mmu_ctxs demo_start)" by blast
  moreover have "mmu_ctxs demo_start c = None" for c by (simp add: demo_start_def)
  ultimately show "mmu_inv demo_os demo_start"
    by (simp add: mmu_inv_def mmu_struct_def ctxs_ok_def tables_ok_def slots_ok_def counts_ok_def s t del: table.simps)
      (simp add: demo_start_def)
  show "ctxs_fresh demo_start" by (simp add: ctxs_fresh_def demo_start_def)
  show "mmu_fresh demo_os demo_start"
    by (simp add: mmu_fresh_def infos_fresh_def pages_fresh_def granted_pages_def demo_start_def)
  show "dom (mmu_ctxs demo_start) = {}" by (simp add: demo_start_def)
qed

lemma demo_ctx_eq: "demo_ctx = Some (PVRSRV_OK, 16, 0x10000, demo1)"
proof -
  have "case demo_ctx of Some (e, c, pa, s) \<Rightarrow> e = PVRSRV_OK \<and> c = 16 \<and> pa = 0x10000 | _ \<Rightarrow> False" by code_simp
  then obtain s where s: "demo_ctx = Some (PVRSRV_OK, 16, 0x10000, s)" by (auto split: option.splits)
  show ?thesis unfolding demo1_def s by simp
qed

lemma demo_heap_sel: "psMMUContext demo_heap = 16" "\<not> shared_heap demo_heap" "heap_type_ok demo_heap" "heap_slots demo_heap = {6..32}"
  "heap_geom demo_heap" "low_heap demo_heap"
proof -
  show "heap_slots demo_heap = {6..32}" unfolding demo_heap_def heap_slots_bounds by (simp add: slot_bounds_def sgx_table)
  show "heap_geom demo_heap" unfolding demo_heap_def new_heap_def by (rule AllocPageTables_geom)
qed (simp_all add: demo_heap_def shared_heap_def heap_type_ok_def low_heap_def arena_descriptor_def
      sgx_table DEVICE_MEMORY_HEAP_PERCONTEXT_def DEVICE_MEMORY_HEAP_SHARED_def DEVICE_MEMORY_HEAP_SHARED_EXPORTED_def)

lemma demo1_ok: "mmu_system demo_os demo_heaps demo1" "mmu_ctxs demo1 16 \<noteq> None" "pts demo_os demo_heap demo1 i = None"
proof -
  have i: "mmu_inv demo_os demo1" "dom (mmu_ctxs demo1) = {16}" "frame demo_os demo1 (PDof 16) = Some (replicate 1024 0)"
    "\<And>k. k \<noteq> PDof 16 \<Longrightarrow> table demo1 k = table demo_start k"
    using MMU_Initialise_spec [OF demo_start_ok(1-3)] unfolding demo_ctx_def [symmetric] demo_ctx_eq
    by (auto simp: demo_start_ok(4) simp del: table.simps)
  have "table demo1 (PTof 16 j) = None" for j using i(4) [of "PTof 16 j"] by (simp add: demo_start_def pt_slot_def)
  note t = this
  then have "pde_of demo_os demo1 demo_heap j = 0" for j by (simp add: pde_of_def demo_heap_sel del: table.simps)
  then have "heap_ok demo_os demo_heap demo1" using i(2,3) by (auto simp: heap_ok_def demo_heap_sel sharers_def)
  then show "mmu_system demo_os demo_heaps demo1" using i(1) demo_heap_sel(5) by (auto simp: mmu_system_def demo_heaps_def split: if_splits)
  show "mmu_ctxs demo1 16 \<noteq> None" using i(2) by auto
  show "pts demo_os demo_heap demo1 i = None" using t by (simp add: pts_def frame_def demo_heap_sel del: table.simps)
qed

lemma demo_heaps_sel: "demo_heaps 0x40 = Some demo_heap" by (simp add: demo_heaps_def)

lemma demo_range: "in_heap demo_heap 0x01800000 0x3000" "page_range 0x01800000 (pages_left 0 0x3000) = {0x1800..<0x1803}"
  by (simp_all add: in_heap_def Let_def demo_heap_def arena_descriptor_def sgx_table page_range_def pages_left_def pn_def)

lemma demo_pts_eq: "demo_pts = Some (True, demo2)"
proof -
  have "case demo_pts of Some (ok, s) \<Rightarrow> ok | _ \<Rightarrow> False" by code_simp
  then obtain s where s: "demo_pts = Some (True, s)" by (auto split: option.splits)
  show ?thesis unfolding demo2_def s by simp
qed

lemma demo1_fields:
  "pt_infos demo1 p = None" "mem demo1 f = (if f = 0x10000 then Some (replicate 1024 0) else None)"
  "areas demo1 h = (if h = 1 then Some (0xC0010000, 1) else None)"
  "mmu_km demo1 = [17, 18, 19, 20, 21, 22, 23, 24, 25, 26, 27, 28, 29, 30, 31]"
  "page_ans demo1 = [(0xC0011000, 2), (0xC0012000, 3), (0xC0013000, 4), (0xC0014000, 5), (0xC0015000, 6)]"
  by (simp_all add: demo1_def demo_ctx_def MMU_Initialise_def alloc_pd_page_def OSAllocPages_def demo_start_def map_frames_def
      frames_of_def put_frame_def get_frame_def OSMapLinToCPUPhys_def SysCpuPAddrToDevPAddr_def)

lemma demo1_fresh: "mmu_fresh demo_os demo1"
  by (simp add: mmu_fresh_def infos_fresh_def pages_fresh_def granted_pages_def demo1_fields)

lemma demo2_ok: "mmu_system demo_os demo_heaps demo2" "covered demo_os demo_heap demo2 (page_range 0x01800000 (pages_left 0 0x3000))"
  "\<forall>va. pn va \<in> page_range 0x01800000 (pages_left 0 0x3000) \<longrightarrow> translate demo_os demo2 (psMMUContext demo_heap) va = None"
proof -
  have t: "unat (0x01800000 :: u32) + unat (0x3000 :: u32) \<le> 2 ^ 32 - 2 ^ 22" by simp
  note d = DeferredAllocPagetables_system [OF demo1_ok(1) demo_heaps_sel demo_range(1) demo1_fresh t, folded demo_pts_def, unfolded demo_pts_eq]
  show "mmu_system demo_os demo_heaps demo2" "covered demo_os demo_heap demo2 (page_range 0x01800000 (pages_left 0 0x3000))" using d by auto
  show "\<forall>va. pn va \<in> page_range 0x01800000 (pages_left 0 0x3000) \<longrightarrow> translate demo_os demo2 (psMMUContext demo_heap) va = None"
  proof (intro allI impI)
    fix va :: u32 assume m: "pn va \<in> page_range 0x01800000 (pages_left 0 0x3000)"
    have sh: "psMMUContext demo_heap \<in> sharers demo_heap demo1" by (rule context_sharer [OF demo1_ok(1) demo_heaps_sel])
    have v: "va_of demo_heap va" unfolding va_of_def by (rule page_range_heap [OF demo_range(1) m])
    have "translate demo_os demo2 (psMMUContext demo_heap) va = translate demo_os demo1 (psMMUContext demo_heap) va"
      using d sh v demo_heaps_sel by auto
    also have "\<dots> = xlate (pts demo_os demo_heap demo1) (pn va)"
      by (rule translate_xlate) (use mmu_systemD [OF demo1_ok(1)] demo_heaps_sel sh v in \<open>auto simp: va_of_def\<close>)
    finally show "translate demo_os demo2 (psMMUContext demo_heap) va = None" by (simp add: xlate_def demo1_ok(3))
  qed
qed

subsection \<open>Mapping\<close>

text \<open>
  The entry of a page table that lets the device access the physical page at \<open>pa\<close> with the rights
  that the memory flags \<open>f\<close> ask for, bit by bit as the hardware reads it: bit 0 valid, bit 1 write
  only, bit 2 read only, bit 3 cache consistent, bit 4 protected from the EDM, and from bit 12 on the
  address of the page. In the flags, bit 0 asks for reading, bit 1 for writing, bit 2 for cache
  consistency and bit 6 for the protection.
\<close>

definition pte_grants :: "u32 \<Rightarrow> u32 \<Rightarrow> u32 \<Rightarrow> bool" where
  "pte_grants pa f x \<longleftrightarrow>
     bit x 0 \<and>
     bit x 1 = (bit f 1 \<and> \<not> bit f 0) \<and>
     bit x 2 = (bit f 0 \<and> \<not> bit f 1) \<and>
     bit x 3 = bit f 2 \<and>
     bit x 4 = bit f 6 \<and>
     (\<forall>i \<in> {5..<12}. \<not> bit x i) \<and>
     (\<forall>i \<in> {12..<32}. bit x i = bit pa i)"

lemma mmu_flag_bits:
  "1 AND (f :: u32) \<noteq> 0 \<longleftrightarrow> bit f 0" "2 AND f \<noteq> 0 \<longleftrightarrow> bit f 1" "4 AND f \<noteq> 0 \<longleftrightarrow> bit f 2"
  "64 AND f \<noteq> 0 \<longleftrightarrow> bit f 6" "3 AND f = 3 \<longleftrightarrow> bit f 0 \<and> bit f 1"
proof -
  have z: "2 ^ n AND f \<noteq> 0 \<longleftrightarrow> bit f n" for n
    using and_exp_eq_0_iff_not_bit [of f n] by (simp only: and.commute [of "2 ^ n" f]) simp
  have e: "(2 :: u32) ^ 0 = 1" "(2 :: u32) ^ 1 = 2" "(2 :: u32) ^ 2 = 4" "(2 :: u32) ^ 6 = 64" by simp_all
  show "1 AND f \<noteq> 0 \<longleftrightarrow> bit f 0" "2 AND f \<noteq> 0 \<longleftrightarrow> bit f 1" "4 AND f \<noteq> 0 \<longleftrightarrow> bit f 2" "64 AND f \<noteq> 0 \<longleftrightarrow> bit f 6"
    using z [of 0] z [of 1] z [of 2] z [of 6] unfolding e .
  have b: "bit (3 :: u32) n \<longleftrightarrow> n = 0 \<or> n = 1" for n
  proof -
    have "(3 :: u32) = mask 2" by (simp add: mask_eq_exp_minus_1)
    then show ?thesis by (simp only: bit_mask_iff) auto
  qed
  show "3 AND f = 3 \<longleftrightarrow> bit f 0 \<and> bit f 1"
  proof
    assume l: "3 AND f = 3"
    have "bit f i" if "bit (3 :: u32) i" for i using l that by (metis bit_and_iff)
    then show "bit f 0 \<and> bit f 1" unfolding b by blast
  next
    assume "bit f 0 \<and> bit f 1"
    then show "3 AND f = 3" by (intro bit_word_eqI) (unfold bit_and_iff b, blast)
  qed
qed

lemma pte_const_bits:
  "bit (1 :: u32) i \<longleftrightarrow> i = 0" "bit (2 :: u32) i \<longleftrightarrow> i = 1" "bit (4 :: u32) i \<longleftrightarrow> i = 2" "bit (8 :: u32) i \<longleftrightarrow> i = 3"
  "bit (16 :: u32) i \<longleftrightarrow> i = 4" "bit (0xFFFFF000 :: u32) i \<longleftrightarrow> 12 \<le> i \<and> i < 32"
proof -
  have z: "bit ((2 :: u32) ^ n) i \<longleftrightarrow> i = n" if "n < 32" for n using that by (auto simp: bit_exp_iff)
  show "bit (1 :: u32) i \<longleftrightarrow> i = 0" using z [of 0] by simp
  show "bit (2 :: u32) i \<longleftrightarrow> i = 1" "bit (4 :: u32) i \<longleftrightarrow> i = 2" "bit (8 :: u32) i \<longleftrightarrow> i = 3" "bit (16 :: u32) i \<longleftrightarrow> i = 4"
    using z [of 1] z [of 2] z [of 3] z [of 4] by simp_all
  have m: "(0xFFFFF000 :: u32) = NOT (mask 12)" by (simp add: mask_eq_exp_minus_1)
  show "bit (0xFFFFF000 :: u32) i \<longleftrightarrow> 12 \<le> i \<and> i < 32"
    unfolding m bit_not_iff bit_mask_iff by auto
qed

lemma make_pte_grants: "pte_grants pa f (make_pte pa f)"
proof -
  have fl: "mmu_flags f = (if bit f 0 \<and> bit f 1 then 0 else if bit f 0 then 4 else if bit f 1 then 2 else 0)
      OR (if bit f 2 then 8 else 0) OR (if bit f 6 then 16 else 0)"
  proof -
    have "(1 :: u32) OR 2 = 3" by simp
    then show ?thesis by (simp only: mmu_flags_def pvr_defs Let_def mmu_flag_bits) simp
  qed
  have b: "bit (make_pte pa f) i \<longleftrightarrow> (12 \<le> i \<and> i < 32 \<and> bit pa i) \<or> i = 0 \<or> bit (mmu_flags f) i" for i
    unfolding make_pte_def pvr_defs bit_and_iff bit_or_iff pte_const_bits by blast
  have m: "bit (mmu_flags f) i \<longleftrightarrow> i = 2 \<and> bit f 0 \<and> \<not> bit f 1 \<or> i = 1 \<and> bit f 1 \<and> \<not> bit f 0 \<or>
      i = 3 \<and> bit f 2 \<or> i = 4 \<and> bit f 6" for i
    unfolding fl bit_or_iff if_distrib [of "\<lambda>x. bit x i"] pte_const_bits by auto
  show ?thesis by (simp add: pte_grants_def b m)
qed

text \<open>
  C11. A buffer of contiguous physical memory that \<open>MMU_MapPages\<close> maps into a range of a heap whose
  page tables are there and which is not mapped yet: the call returns, the device then finds under
  every page of the range, in every context that shares the heap, an entry with the right physical
  page (the first page over and over for dummy mappings) and exactly the rights that the flags ask
  for, and every other address of every heap translates as before.
\<close>

lemma MMU_MapPages_translates:
  assumes "mmu_system os H s" "H p = Some h" "in_heap h va n" "unat n \<le> 2 ^ 32 - 4096"
    and "covered os h s (page_range va (pages_left 0 n))"
    and "\<forall>va'. pn va' \<in> page_range va (pages_left 0 n) \<longrightarrow> translate os s (psMMUContext h) va' = None"
  shows "\<exists>s'. MMU_MapPages os h va pa n f s = Some s' \<and> mmu_system os H s' \<and>
     (\<forall>q g c va'. H q = Some g \<longrightarrow> c \<in> sharers g s \<longrightarrow> va_of g va' \<longrightarrow>
        (if q = p \<and> pn va' \<in> page_range va (pages_left 0 n)
         then \<exists>x. translate os s' c va' = Some x \<and>
                  pte_grants (pa + of_nat (pn va' - pn va) * (if f AND PVRSRV_MEM_DUMMY \<noteq> 0 then 0 else 4096)) f x
         else translate os s' c va' = translate os s c va'))"
proof -
  let ?adv = "if f AND PVRSRV_MEM_DUMMY \<noteq> 0 then 0 else 4096 :: u32"
  let ?pas = "map (\<lambda>i. pa + of_nat i * ?adv) [0..<pages_left 0 n]"
  have e: "MMU_MapPages os h va pa n f s = map_seq os h va ?pas f s"
    unfolding MMU_MapPages_def map_pages_loop_seq [OF assms(4)] by (simp add: SysSysPAddrToDevPAddr_def SGX_MMU_PAGE_SIZE_def)
  have "?pas ! (m - pn va) = pa + of_nat (m - pn va) * ?adv" if "m \<in> page_range va (pages_left 0 n)" for m
    using that by (auto simp: page_range_def)
  then have "\<exists>s'. map_seq os h va ?pas f s = Some s' \<and> mmu_system os H s' \<and>
     (\<forall>q g c va'. H q = Some g \<longrightarrow> c \<in> sharers g s \<longrightarrow> va_of g va' \<longrightarrow> translate os s' c va' =
        (if q = p \<and> pn va' \<in> page_range va (pages_left 0 n) then Some (make_pte (pa + of_nat (pn va' - pn va) * ?adv) f)
         else translate os s c va'))"
    using map_seq_system [OF assms(1-3) _ assms(5,6), of ?pas f] by (auto cong: if_cong conj_cong)
  then obtain s' where s': "map_seq os h va ?pas f s = Some s'" "mmu_system os H s'"
    "\<And>q g c va'. H q = Some g \<Longrightarrow> c \<in> sharers g s \<Longrightarrow> va_of g va' \<Longrightarrow> translate os s' c va' =
        (if q = p \<and> pn va' \<in> page_range va (pages_left 0 n) then Some (make_pte (pa + of_nat (pn va' - pn va) * ?adv) f)
         else translate os s c va')"
    by blast
  show ?thesis unfolding e
    by (intro exI [of _ s'] conjI s'(1,2) allI impI) (simp add: s'(3) make_pte_grants)
qed

text \<open>A read-only mapping: bit 2 of the entries is set, bit 1 is not.\<close>

theorem MMU_MapPages_translates_witness:
  "\<exists>s' x y. MMU_MapPages demo_os demo_heap 0x01800000 0x70000000 0x3000 1 demo2 = Some s' \<and>
     translate demo_os s' 16 0x01800123 = Some x \<and> pte_grants 0x70000000 1 x \<and> bit x 2 \<and> \<not> bit x 1 \<and>
     translate demo_os s' 16 0x01802FFF = Some y \<and> pte_grants 0x70002000 1 y"
proof -
  have n: "unat (0x3000 :: u32) \<le> 2 ^ 32 - 4096" by simp
  have c: "16 \<in> sharers demo_heap demo2" using context_sharer [OF demo2_ok(1) demo_heaps_sel] by (simp add: demo_heap_sel)
  have v: "va_of demo_heap 0x01800123" "va_of demo_heap 0x01802FFF" by (simp_all add: va_of_def pn_def demo_heap_sel)
  have r: "pn 0x01800123 = 0x1800" "pn 0x01802FFF = 0x1802" "pn 0x01800000 = 0x1800" by (simp_all add: pn_def)
  obtain s' where s': "MMU_MapPages demo_os demo_heap 0x01800000 0x70000000 0x3000 1 demo2 = Some s'"
    "\<forall>q g c va'. demo_heaps q = Some g \<longrightarrow> c \<in> sharers g demo2 \<longrightarrow> va_of g va' \<longrightarrow>
      (if q = 0x40 \<and> pn va' \<in> page_range 0x01800000 (pages_left 0 0x3000)
       then \<exists>x. translate demo_os s' c va' = Some x \<and> pte_grants
         (0x70000000 + of_nat (pn va' - pn 0x01800000) * (if 1 AND PVRSRV_MEM_DUMMY \<noteq> 0 then 0 else 4096)) 1 x
       else translate demo_os s' c va' = translate demo_os demo2 c va')"
    using MMU_MapPages_translates [OF demo2_ok(1) demo_heaps_sel demo_range(1) n demo2_ok(2,3), where pa = "0x70000000" and f = 1] by blast
  have d: "(1 :: u32) AND PVRSRV_MEM_DUMMY = 0" by (simp add: PVRSRV_MEM_DUMMY_def)
  have x: "\<exists>x. translate demo_os s' 16 0x01800123 = Some x \<and> pte_grants 0x70000000 1 x"
    using s'(2) [rule_format, OF demo_heaps_sel c v(1)] d by (simp add: r demo_range(2))
  have y: "\<exists>x. translate demo_os s' 16 0x01802FFF = Some x \<and> pte_grants 0x70002000 1 x"
    using s'(2) [rule_format, OF demo_heaps_sel c v(2)] d by (simp add: r demo_range(2))
  have "bit (1 :: u32) 0" "\<not> bit (1 :: u32) 1" by simp_all
  then have "bit x 2 \<and> \<not> bit x 1" if "pte_grants 0x70000000 1 x" for x using that unfolding pte_grants_def by blast
  with x y s'(1) show ?thesis by blast
qed

text \<open>
  C27. The three ways of mapping agree: mapping contiguous physical memory with \<open>MMU_MapPages\<close>, and
  mapping a kernel buffer page by page with \<open>MMU_MapShadow\<close>, do the same as \<open>MMU_MapScatter\<close> on the
  explicit list of the physical pages.
\<close>

lemma MMU_Map_scatter:
  assumes "unat n \<le> 2 ^ 32 - 4096" "f AND PVRSRV_MEM_DUMMY = 0"
  shows "MMU_MapPages os h va pa n f s = MMU_MapScatter os h va (map (\<lambda>i. pa + of_nat i * 4096) [0..<(unat n + 4095) div 4096]) n f s \<and>
     MMU_MapShadow os h va n cv mh f s = map_option (\<lambda>s'. (va, s')) (MMU_MapScatter os h va
       (map (\<lambda>i. if cv \<noteq> NULL then OSMapLinToCPUPhys os (cv + of_nat i * 4096) else OSMemHandleToCpuPAddr os mh (of_nat i * 4096))
          [0..<(unat n + 4095) div 4096]) n f s)"
proof
  have sc: "MMU_MapScatter os h va pas n f s = map_seq os h va pas f s" if "length pas = pages_left 0 n" for pas
    unfolding MMU_MapScatter_def using map_scatter_loop_seq [OF assms(1), of 0 0 pas] that by simp
  show "MMU_MapPages os h va pa n f s = MMU_MapScatter os h va (map (\<lambda>i. pa + of_nat i * 4096) [0..<(unat n + 4095) div 4096]) n f s"
    unfolding MMU_MapPages_def map_pages_loop_seq [OF assms(1)]
    by (subst sc) (simp_all add: pages_left_0 assms(2) SysSysPAddrToDevPAddr_def SGX_MMU_PAGE_SIZE_def)
  have sh: "(\<lambda>i. if cv \<noteq> NULL then OSMapLinToCPUPhys os (cv + of_nat i * 4096) else OSMemHandleToCpuPAddr os mh (of_nat i * 4096)) =
      (\<lambda>i. shadow_paddr os cv mh (0 + of_nat i * 4096))"
    by (simp add: fun_eq_iff shadow_paddr_def OSMapLinToCPUPhys_def OSMemHandleToCpuPAddr_def)
  show "MMU_MapShadow os h va n cv mh f s = map_option (\<lambda>s'. (va, s')) (MMU_MapScatter os h va
       (map (\<lambda>i. if cv \<noteq> NULL then OSMapLinToCPUPhys os (cv + of_nat i * 4096) else OSMemHandleToCpuPAddr os mh (of_nat i * 4096))
          [0..<(unat n + 4095) div 4096]) n f s)"
    unfolding MMU_MapShadow_def map_shadow_loop_seq [OF assms(1)] sh
    by (subst sc) (simp_all add: pages_left_0 assms(2) SGX_MMU_PAGE_SIZE_def map_option_case split: bind_splits option.splits)
qed

theorem MMU_Map_scatter_witness:
  "MMU_MapPages demo_os demo_heap 0x01800000 0x70000000 0x2001 3 demo2 =
     MMU_MapScatter demo_os demo_heap 0x01800000 [0x70000000, 0x70001000, 0x70002000] 0x2001 3 demo2 \<and>
   MMU_MapShadow demo_os demo_heap 0x01800000 0x2001 0xC8000000 9 3 demo2 = map_option (\<lambda>s'. (0x01800000, s'))
     (MMU_MapScatter demo_os demo_heap 0x01800000 [0x08000000, 0x08001000, 0x08002000] 0x2001 3 demo2)"
  using MMU_Map_scatter [where n = "0x2001" and f = 3 and os = demo_os and h = demo_heap and va = "0x01800000" and pa = "0x70000000" and s = demo2 and cv = "0xC8000000" and mh = 9]
  by (simp add: upt_rec PVRSRV_MEM_DUMMY_def OSMapLinToCPUPhys_def)

end
