(* ===== verification/Pvr_Devmem_Props.thy ===== *)
theory Pvr_Devmem_Props
  imports Pvr_Devmem Pvr_Mmu_Props
begin

text \<open>
  What the users of device memory rely on: after any sequence of allocations and frees the device sees
  the pages of the live mappings and nothing else.
\<close>

subsection \<open>New heaps\<close>

lemma MMU_Create_ok:
  assumes run: "MMU_Create os c d raw flags s = Some (Some h, s')" and km: "distinct (filter (\<lambda>q. q \<noteq> NULL) (mmu_km s))"
    and b: "4096 dvd BaseDevVAddr d" "4096 dvd da_ui32Size d" "da_ui32Size d \<noteq> 0"
      "unat (BaseDevVAddr d) + unat (da_ui32Size d) \<le> 2 ^ 32 - 2 ^ 22"
  shows "same_heap (new_heap c d) h" "arena_ok h {}" "core s' = core s"
proof -
  let ?n = "(da_ui32Size d + SGX_MMU_PAGE_SIZE - 1) div SGX_MMU_PAGE_SIZE * SGX_MMU_PAGE_SIZE"
  have n: "?n = da_ui32Size d" by (rule quantum_end) (use b in \<open>simp_all add: SGX_MMU_PAGE_SIZE_def dvd_word_nat\<close>)
  obtain p km1 a km2 where r: "OSAllocMem (mmu_km s) = (PVRSRV_OK, p, km1)"
    "RA_Create (BaseDevVAddr d) (da_ui32Size d) NULL SGX_MMU_PAGE_SIZE NULL fn_MMU_FreePageTables p raw flags km1 = Some (Some a, km2)"
    "h = (new_heap c d)\<lparr>psVMArena := Some a\<rparr>" "s' = s\<lparr>mmu_km := km2\<rparr>"
    using run by (auto simp: MMU_Create_def new_heap_def Let_def bind_eq_Some_conv split: prod.splits if_splits option.splits)
  have km': "distinct (filter (\<lambda>q. q \<noteq> NULL) km1)" using km r(1) by (cases "mmu_km s") (auto split: if_splits)
  have g: "0 < da_ui32Size d" using b(3) by (simp add: word_gt_0)
  have p: "plain_arena a" "live a = Map.empty" "total a = block (BaseDevVAddr d) (da_ui32Size d)" "uQuantum a = SGX_MMU_PAGE_SIZE"
    "pBackingStoreFree a = fn_MMU_FreePageTables"
    using RA_Create_plain [OF _ g _ _ km', of SGX_MMU_PAGE_SIZE "BaseDevVAddr d" fn_MMU_FreePageTables p raw flags] b(3,4) r(2)
    unfolding n by (auto simp: SGX_MMU_PAGE_SIZE_def)
  have u: "unpaged a = {}" by (rule RA_Create_paged [OF r(2) g]) (use b in \<open>simp_all add: SGX_MMU_PAGE_SIZE_def\<close>)
  show "same_heap (new_heap c d) h" by (simp add: r(3))
  show "core s' = core s" by (simp add: r(4))
  have "arena_of h a" using p by (simp add: arena_of_def r(3) block_def)
  moreover have "low_heap h" using b(4) by (simp add: low_heap_def r(3))
  moreover have "blocks a = {}" by (simp add: blocks_def p(2))
  ultimately show "arena_ok h {}" using u by (auto simp: arena_ok_def)
qed

subsection \<open>A concrete device\<close>

definition dd_create :: "(MMU_HEAP option \<times> mmu_state) option" where
  "dd_create = MMU_Create demo_os 16 (arena_descriptor heap_GENERAL) (\<lambda>_. zero_bt) Map.empty demo1"

definition dd_heap :: MMU_HEAP where "dd_heap = the (fst (the dd_create))"

definition dd0 :: devmem where
  "dd0 = \<lparr>dm_heaps = [17 \<mapsto> dd_heap], dm_mmu = snd (the dd_create), dm_maps = []\<rparr>"

text \<open>A wrapped buffer of three contiguous pages.\<close>

definition dd_map :: BM_MAPPING where
  "dd_map = zero_mapping\<lparr>eCpuMemoryOrigin := hm_wrapped, m_CpuPAddr := 0x70000000, m_uSize := 0x3000\<rparr>"

definition dd_alloc :: "(bool \<times> BM_MAPPING \<times> MMU_HEAP \<times> u32 \<times> mmu_state) option" where
  "dd_alloc = DevMemoryAlloc demo_os dd_heap dd_map 3 0x1000 (dm_mmu dd0)"

lemma dd_create_eq: "dd_create = Some (Some dd_heap, dm_mmu dd0)" "mmu_km (dm_mmu dd0) = [22, 23, 24, 25, 26, 27, 28, 29, 30, 31]"
proof -
  have c: "case dd_create of Some (Some h, s) \<Rightarrow> mmu_km s = [22, 23, 24, 25, 26, 27, 28, 29, 30, 31] | _ \<Rightarrow> False" by code_simp
  then obtain h s where s: "dd_create = Some (Some h, s)" "mmu_km s = [22, 23, 24, 25, 26, 27, 28, 29, 30, 31]"
    by (auto split: option.splits)
  show "dd_create = Some (Some dd_heap, dm_mmu dd0)" "mmu_km (dm_mmu dd0) = [22, 23, 24, 25, 26, 27, 28, 29, 30, 31]"
    unfolding dd_heap_def dd0_def s(1) by (simp_all add: s(2))
qed
lemma dd_heap_ok: "same_heap demo_heap dd_heap" "arena_ok dd_heap {}" "core (dm_mmu dd0) = core demo1"
proof -
  have d: "distinct (filter (\<lambda>q. q \<noteq> NULL) (mmu_km demo1))" by (simp add: demo1_fields(4))
  have b: "4096 dvd BaseDevVAddr (arena_descriptor heap_GENERAL)" "4096 dvd da_ui32Size (arena_descriptor heap_GENERAL)"
    "da_ui32Size (arena_descriptor heap_GENERAL) \<noteq> 0"
    "unat (BaseDevVAddr (arena_descriptor heap_GENERAL)) + unat (da_ui32Size (arena_descriptor heap_GENERAL)) \<le> 2 ^ 32 - 2 ^ 22"
    by (simp_all add: arena_descriptor_def sgx_table dvd_word_nat)
  note c = MMU_Create_ok [OF dd_create_eq(1) [unfolded dd_create_def] d b, folded demo_heap_def]
  show "same_heap demo_heap dd_heap" "arena_ok dd_heap {}" "core (dm_mmu dd0) = core demo1" using c by simp_all
qed

lemma dd0_sel: "dm_heaps dd0 q = (if q = 17 then Some dd_heap else None)" "dm_maps dd0 = []"
  by (simp_all add: dd0_def)

lemma dd0_init: "dm_init demo_os dd0"
proof -
  have h: "heap_ok demo_os demo_heap demo1" "heap_geom demo_heap" "mmu_inv demo_os demo1"
    using mmu_systemD [OF demo1_ok(1)] demo_heaps_sel by blast+
  have "mmu_system demo_os (dm_heaps dd0) demo1"
    using h same_heapD(4,6) [OF dd_heap_ok(1)] by (simp add: mmu_system_def dd0_sel)
  then have sys: "mmu_system demo_os (dm_heaps dd0) (dm_mmu dd0)" using core_system [OF dd_heap_ok(3)] by simp
  have "translate demo_os (dm_mmu dd0) c va = None" if "c \<in> sharers dd_heap (dm_mmu dd0)" "va_of dd_heap va" for c va
  proof -
    have "translate demo_os (dm_mmu dd0) c va = xlate (pts demo_os dd_heap (dm_mmu dd0)) (pn va)"
      by (rule translate_xlate) (use mmu_systemD [OF sys] that in \<open>auto simp: va_of_def dd0_sel\<close>)
    also have "pts demo_os dd_heap (dm_mmu dd0) = pts demo_os demo_heap demo1"
      using same_heapD(3) [OF dd_heap_ok(1)] core_cong(3) [OF dd_heap_ok(3)] by simp
    finally show ?thesis by (simp add: xlate_def demo1_ok(3))
  qed
  then show ?thesis using sys dd_heap_ok(2) by (auto simp: dm_init_def dd0_sel split: if_splits)
qed

text \<open>A mapping of three contiguous pages can be made in it.\<close>

lemma dd_hyps:
  assumes sz: "map_size m f = 0x3000" and o: "eCpuMemoryOrigin m = hm_wrapped"
  shows "alloc_hyps demo_os dd_heap m f 0x1000 (dm_mmu dd0)"
proof -
  obtain a where a: "low_heap dd_heap" "arena_of dd_heap a" using dd_heap_ok(2) by (rule arena_okE)
  have "case psVMArena dd_heap of None \<Rightarrow> False | Some a \<Rightarrow> uSize (pSegmentHash a) < 0x20000000 \<and> list_all (\<lambda>q. Option.is_none (bts a q)) (mmu_km (dm_mmu dd0))"
    by code_simp
  moreover have v: "psVMArena dd_heap = Some a" using a(2) by (simp add: arena_of_def)
  ultimately have t: "table_roomy (pSegmentHash a)" "\<forall>q \<in> set (mmu_km (dm_mmu dd0)). bts a q = None"
    by (simp_all add: table_roomy_def list_all_iff Option.is_none_def word_less_nat_alt)
  have f: "fresh a (mmu_km (dm_mmu dd0))" using t(2) by (simp add: fresh_def dd_create_eq(2))
  have "total a \<subseteq> {0x01800000..<0x01800000 + unat (da_ui32Size (arena_descriptor heap_GENERAL))}"
    using a(2) same_heapD(9) [OF dd_heap_ok(1)] by (simp add: arena_of_def demo_heap_def arena_descriptor_def sgx_table)
  then have r: "request_ok a 0x3000 0x1000" by (auto simp: request_ok_def arena_descriptor_def sgx_table)
  have p: "page_ans (dm_mmu dd0) = page_ans demo1" by code_simp
  have "mmu_fresh demo_os (dm_mmu dd0)"
    using dd_heap_ok(3) by (simp add: core_def mmu_fresh_def infos_fresh_def pages_fresh_def granted_pages_def demo1_fields p dd_create_eq(2))
  then show ?thesis using t(1) f r v by (simp add: alloc_hyps_def sz o dvd_word_nat)
qed

lemma dd_alloc_hyps: "alloc_hyps demo_os dd_heap dd_map 3 0x1000 (dm_mmu dd0)"
  by (rule dd_hyps) (simp_all add: map_size_def dd_map_def PVRSRV_MEM_INTERLEAVED_def)

lemma DevMemoryAlloc_ok:
  assumes "DevMemoryAlloc os h m f al s = Some (r, m', h', dv, s')" "eCpuMemoryOrigin m \<noteq> hm_none"
    and "MMU_Alloc os h (map_size m f) 0 al (m_DevVAddr m) s = Some (True, va, h1, s1)"
  shows "r \<and> m_DevVAddr m' = va"
proof -
  have e: "m_uSize (if f AND PVRSRV_MEM_INTERLEAVED \<noteq> 0 then m\<lparr>m_uSize := m_uSize m * 2\<rparr> else m) = map_size m f"
    "m_DevVAddr (if f AND PVRSRV_MEM_INTERLEAVED \<noteq> 0 then m\<lparr>m_uSize := m_uSize m * 2\<rparr> else m) = m_DevVAddr m"
    "eCpuMemoryOrigin (if f AND PVRSRV_MEM_INTERLEAVED \<noteq> 0 then m\<lparr>m_uSize := m_uSize m * 2\<rparr> else m) = eCpuMemoryOrigin m"
    by (simp_all add: map_size_def)
  have o: "r0" if "map_origin os k n f t = Some (r0, x)" "eCpuMemoryOrigin n \<noteq> hm_none" for k n t r0 x
    using that by (cases "eCpuMemoryOrigin n") (auto simp: map_origin_def bind_eq_Some_conv)
  show ?thesis
    using assms by (auto simp: DevMemoryAlloc_def Let_def e bind_eq_Some_conv simp del: if_image_distrib split del: if_split dest!: o)
qed

lemma dd_mmu_alloc:
  obtains h1 s1 where "MMU_Alloc demo_os dd_heap 0x3000 0 0x1000 0 (dm_mmu dd0) = Some (True, 0x01800000, h1, s1)"
proof -
  have "case dd_create of Some (Some h, s) \<Rightarrow> (case MMU_Alloc demo_os h 0x3000 0 0x1000 0 s of
      Some (r, va, _) \<Rightarrow> r \<and> va = 0x01800000 | None \<Rightarrow> False) | _ \<Rightarrow> False" by code_simp
  then obtain h1 s1 where a: "MMU_Alloc demo_os dd_heap 0x3000 0 0x1000 0 (dm_mmu dd0) = Some (True, 0x01800000, h1, s1)"
    by (auto simp: dd_create_eq(1) split: option.splits)
  show ?thesis by (rule that [OF a])
qed

lemma dd_alloc_eq:
  obtains h' s' where "dd_alloc = Some (True, dd_map\<lparr>m_DevVAddr := 0x01800000\<rparr>, h', 0x01800000, s')" "same_heap dd_heap h'"
proof -
  obtain h1 s1 where a: "MMU_Alloc demo_os dd_heap 0x3000 0 0x1000 0 (dm_mmu dd0) = Some (True, 0x01800000, h1, s1)" by (rule dd_mmu_alloc)
  have "dm_ok demo_os dd0" by (rule init_ok [OF dd0_init])
  from DevMemoryAlloc_keeps [OF this _ dd_alloc_hyps, of 17, folded dd_alloc_def]
  obtain r m h dv s where k: "dd_alloc = Some (r, m, h, dv, s)" "same_heap dd_heap h"
    "r \<longrightarrow> dv = m_DevVAddr m \<and> m = dd_map\<lparr>m_uSize := map_size dd_map 3, m_DevVAddr := dv\<rparr>" by (auto simp: dd0_sel)
  have z: "map_size dd_map 3 = 0x3000" "m_DevVAddr dd_map = 0" "m_uSize dd_map = 0x3000" "eCpuMemoryOrigin dd_map \<noteq> hm_none"
    by (simp_all add: map_size_def dd_map_def zero_mapping_def PVRSRV_MEM_INTERLEAVED_def)
  have r: "r" "m_DevVAddr m = 0x01800000" using DevMemoryAlloc_ok [OF k(1) [unfolded dd_alloc_def] z(4), unfolded z(1,2), OF a] by blast+
  have u: "dd_map\<lparr>m_uSize := 0x3000\<rparr> = dd_map" by (simp add: dd_map_def)
  have d: "dv = 0x01800000" "m = dd_map\<lparr>m_DevVAddr := dv\<rparr>" using k(3) r unfolding z(1) u by blast+
  have "dd_alloc = Some (True, dd_map\<lparr>m_DevVAddr := 0x01800000\<rparr>, h, 0x01800000, s)" unfolding k(1) d(2) d(1) using r(1) by blast
  then show ?thesis by (rule that) (rule k(2))
qed

definition dd1 :: devmem where
  "dd1 = (case dd_alloc of Some (_, m, h, _, s) \<Rightarrow> \<lparr>dm_heaps = (dm_heaps dd0)(17 \<mapsto> h), dm_mmu = s, dm_maps = [(17, m, 3)]\<rparr>)"

lemma dd1_reachable:
  "reachable_from (dm_init demo_os) (dm_step demo_os) dd0" "reachable_from (dm_init demo_os) (dm_step demo_os) dd1"
proof -
  show r0: "reachable_from (dm_init demo_os) (dm_step demo_os) dd0" by (rule reachable_from.start [of "dm_init demo_os", OF dd0_init])
  obtain h s where s: "dd_alloc = Some (True, dd_map\<lparr>m_DevVAddr := 0x01800000\<rparr>, h, 0x01800000, s)" "same_heap dd_heap h" by (rule dd_alloc_eq)
  have "dm_step demo_os dd0 \<lparr>dm_heaps = (dm_heaps dd0)(17 \<mapsto> h), dm_mmu = s,
      dm_maps = (if True then (17, dd_map\<lparr>m_DevVAddr := 0x01800000\<rparr>, 3) # dm_maps dd0 else dm_maps dd0)\<rparr>"
    by (rule dm_step.alloc [OF _ dd_alloc_hyps]) (use s(1) in \<open>simp_all add: dd0_sel(1) dd_alloc_def\<close>)
  then have "dm_step demo_os dd0 dd1" by (simp add: dd1_def s(1) dd0_sel(2))
  then show "reachable_from (dm_init demo_os) (dm_step demo_os) dd1" by (rule reachable_from.next_step [OF r0])
qed

lemma dd1_sel:
  obtains h where "dm_heaps dd1 17 = Some h" "same_heap dd_heap h" "dm_maps dd1 = [(17, dd_map\<lparr>m_DevVAddr := 0x01800000\<rparr>, 3)]"
proof -
  obtain h s where s: "dd_alloc = Some (True, dd_map\<lparr>m_DevVAddr := 0x01800000\<rparr>, h, 0x01800000, s)" "same_heap dd_heap h" by (rule dd_alloc_eq)
  have e: "dd1 = \<lparr>dm_heaps = (dm_heaps dd0)(17 \<mapsto> h), dm_mmu = s, dm_maps = [(17, dd_map\<lparr>m_DevVAddr := 0x01800000\<rparr>, 3)]\<rparr>"
    unfolding dd1_def s(1) by simp
  have d: "dm_heaps dd1 17 = Some h" "dm_maps dd1 = [(17, dd_map\<lparr>m_DevVAddr := 0x01800000\<rparr>, 3)]" unfolding e by simp_all
  show ?thesis by (rule that [OF d(1) s(2) d(2)])
qed

lemma devmem_agree:
  assumes "dm_ok os d" "dm_heaps d q = Some g" "c \<in> sharers g (dm_mmu d)" "va_of g va"
  shows "translate os (dm_mmu d) c va = aspace os (dm_maps d) q (pn va)"
  using dm_okD(4) [OF assms(1)] assms(2-4) by (simp add: implements_def)

text \<open>
  C6. Device memory refines its specification: start from freshly created heaps and let any number of
  mappings, of all the kinds of memory that \<open>DevMemoryAlloc\<close> knows, be made in any heaps and freed in
  any order, with failures of the kernel's allocators in between. Then in every context that sees a
  heap the device finds, under every address of the heap, the page of the live mapping that holds
  the address with the access rights it was made with, and a fault where there is no live mapping.
\<close>

theorem DevMemory_refines_aspace:
  assumes "reachable_from (dm_init os) (dm_step os) d"
    and "dm_heaps d q = Some g" "c \<in> sharers g (dm_mmu d)" "va_of g va"
  shows "translate os (dm_mmu d) c va = aspace os (dm_maps d) q (pn va)"
  by (rule devmem_agree [OF dm.reachable_inv [OF assms(1)] assms(2-4)])

theorem DevMemory_refines_aspace_witness:
  "translate demo_os (dm_mmu dd1) 16 0x01802FFF = Some 0x70002001 \<and> translate demo_os (dm_mmu dd1) 16 0x01803000 = None"
proof -
  obtain h where h: "dm_heaps dd1 17 = Some h" "same_heap dd_heap h" "dm_maps dd1 = [(17, dd_map\<lparr>m_DevVAddr := 0x01800000\<rparr>, 3)]"
    by (rule dd1_sel)
  have c: "16 \<in> sharers h (dm_mmu dd1)"
    using same_heapD(2) [OF h(2)] same_heapD(2) [OF dd_heap_ok(1)] by (simp add: sharers_def demo_heap_sel)
  have v: "va_of h 0x01802FFF" "va_of h 0x01803000"
    using same_heapD(1) [OF h(2)] same_heapD(1) [OF dd_heap_ok(1)] by (simp_all add: va_of_def pn_def demo_heap_sel)
  note r = DevMemory_refines_aspace [OF dd1_reachable(2) h(1) c]
  have "make_pte 0x70002000 3 = 0x70002001" "(3 :: u32) AND PVRSRV_MEM_DUMMY = 0"
    by (simp_all add: make_pte_def mmu_flags_def pvr_defs)
  then show ?thesis using r [OF v(1)] r [OF v(2)]
    by (simp add: h(3) aspace_def mapping_pages_def page_range_def pn_def page_addr_def dd_map_def)
qed

lemma alloc_free_restores:
  assumes ok: "dm_ok os d" and h: "dm_heaps d p = Some h" and hy: "alloc_hyps os h m f al (dm_mmu d)"
    and a: "DevMemoryAlloc os h m f al (dm_mmu d) = Some (True, m', h', dv, s')"
  shows "\<exists>h'' s''. DevMemoryFree os h' m' s' = Some (h'', s'') \<and>
     (\<forall>q g c va. dm_heaps d q = Some g \<longrightarrow> c \<in> sharers g (dm_mmu d) \<longrightarrow> va_of g va \<longrightarrow>
        translate os s'' c va = translate os (dm_mmu d) c va)"
proof -
  have al: "dm_ok os \<lparr>dm_heaps = (dm_heaps d)(p \<mapsto> h'), dm_mmu = s', dm_maps = (p, m', f) # dm_maps d\<rparr>"
    "same_heap h h'" "dom (mmu_ctxs s') = dom (mmu_ctxs (dm_mmu d))"
    using DevMemoryAlloc_keeps [OF ok h hy] a by auto
  let ?d1 = "\<lparr>dm_heaps = (dm_heaps d)(p \<mapsto> h'), dm_mmu = s', dm_maps = (p, m', f) # dm_maps d\<rparr>"
  have mem: "(p, m', f) \<in> set (dm_maps ?d1)" "dm_heaps ?d1 p = Some h'" by simp_all
  have "(p, m', f) \<notin> set (dm_maps d)" using dm_okD(3) [OF al(1)] by force
  then have rm: "removeAll (p, m', f) (dm_maps ?d1) = dm_maps d" by simp
  obtain h'' s'' where b: "DevMemoryFree os h' m' s' = Some (h'', s'')"
    "dm_ok os \<lparr>dm_heaps = (dm_heaps d)(p \<mapsto> h''), dm_mmu = s'', dm_maps = dm_maps d\<rparr>"
    "same_heap h' h''" "dom (mmu_ctxs s'') = dom (mmu_ctxs s')"
    using DevMemoryFree_keeps [OF al(1) mem] unfolding rm by (auto simp del: removeAll.simps)
  have "translate os s'' c va = translate os (dm_mmu d) c va"
    if g: "dm_heaps d q = Some g" "c \<in> sharers g (dm_mmu d)" "va_of g va" for q g c va
  proof -
    obtain g' where g': "((dm_heaps d)(p \<mapsto> h'')) q = Some g'" "same_heap g g'"
      using g(1) h same_heap_trans [OF al(2) b(3)] by (cases "q = p") auto
    have "c \<in> sharers g' s''" "va_of g' va"
      using g(2,3) al(3) b(4) same_heapD(1,2) [OF g'(2)] by (simp_all add: va_of_def sharers_def split: if_splits)
    then show ?thesis using devmem_agree [OF b(2), of q g' c va] devmem_agree [OF ok g] g'(1) by simp
  qed
  then show ?thesis using b(1) by blast
qed

text \<open>
  C10. \<open>DevMemoryAlloc\<close> and \<open>DevMemoryFree\<close> are inverse, and never get stuck: in every reachable state
  \<open>DevMemoryAlloc\<close> returns for an admissible mapping of any heap, and when it succeeds \<open>DevMemoryFree\<close>
  of the new mapping returns too and leaves the device with the translations that it had before, under
  every address of every heap and in every context.
\<close>

theorem DevMemoryAlloc_Free_roundtrip:
  assumes r: "reachable_from (dm_init os) (dm_step os) d" and h: "dm_heaps d p = Some h" and hy: "alloc_hyps os h m f al (dm_mmu d)"
  shows "\<exists>ok m' h' dv s'. DevMemoryAlloc os h m f al (dm_mmu d) = Some (ok, m', h', dv, s') \<and>
     (ok \<longrightarrow> (\<exists>h'' s''. DevMemoryFree os h' m' s' = Some (h'', s'') \<and>
        (\<forall>q g c va. dm_heaps d q = Some g \<longrightarrow> c \<in> sharers g (dm_mmu d) \<longrightarrow> va_of g va \<longrightarrow>
           translate os s'' c va = translate os (dm_mmu d) c va)))"
proof -
  note ok = dm.reachable_inv [OF r]
  obtain r m' h' dv s' where a: "DevMemoryAlloc os h m f al (dm_mmu d) = Some (r, m', h', dv, s')"
    using DevMemoryAlloc_keeps [OF ok h hy] by blast
  then show ?thesis using alloc_free_restores [OF ok h hy, of m' h' dv s'] by (cases r) auto
qed

theorem DevMemoryAlloc_Free_roundtrip_witness:
  "\<exists>h' s' h'' s''. DevMemoryAlloc demo_os dd_heap dd_map 3 0x1000 (dm_mmu dd0) =
       Some (True, dd_map\<lparr>m_DevVAddr := 0x01800000\<rparr>, h', 0x01800000, s') \<and>
     DevMemoryFree demo_os h' (dd_map\<lparr>m_DevVAddr := 0x01800000\<rparr>) s' = Some (h'', s'') \<and>
     translate demo_os s'' 16 0x01802FFF = translate demo_os (dm_mmu dd0) 16 0x01802FFF"
proof -
  obtain h s where s: "dd_alloc = Some (True, dd_map\<lparr>m_DevVAddr := 0x01800000\<rparr>, h, 0x01800000, s)" by (rule dd_alloc_eq)
  have h0: "dm_heaps dd0 17 = Some dd_heap" by (simp add: dd0_sel)
  have c: "16 \<in> sharers dd_heap (dm_mmu dd0)"
    using same_heapD(2) [OF dd_heap_ok(1)] by (simp add: sharers_def demo_heap_sel)
  have v: "va_of dd_heap 0x01802FFF" using same_heapD(1) [OF dd_heap_ok(1)] by (simp add: va_of_def pn_def demo_heap_sel)
  note r = DevMemoryAlloc_Free_roundtrip [OF dd1_reachable(1) h0 dd_alloc_hyps, folded dd_alloc_def, unfolded s]
  show ?thesis using r h0 c v unfolding dd_alloc_def [symmetric] s by auto
qed

end
