(* ===== verification/Pvr_Bm_Props.thy ===== *)
theory Pvr_Bm_Props
  imports Pvr_Devmem_Props
begin

text \<open>
  What the users of the buffer manager rely on: the heaps of the device do not overlap, clearing a buffer
  clears its bytes and nothing else, and wrapping a buffer twice shares it. Two failure paths of the code
  are recorded as they are.
\<close>

subsection \<open>The heaps of the device\<close>

text \<open>The addresses of a heap, as numbers.\<close>

definition heap_range :: "DEVICE_MEMORY_HEAP_INFO \<Rightarrow> nat set" where
  "heap_range i = {unat (sDevVAddrBase i)..<unat (sDevVAddrBase i) + unat (ui32HeapSize i)}"

lemma heap_range_slots: "x \<in> heap_range i \<Longrightarrow> x div 2 ^ 22 \<in> heap_slots (new_heap c (arena_descriptor i))"
  unfolding heap_slots_bounds heap_range_def slot_bounds_def by (auto intro!: div_le_mono)

text \<open>
  C29. The heap table that \<open>SGXRegisterDevice\<close> fills in is well formed: there are as many entries as the
  heap count says, and entry \<open>k\<close> has heap number \<open>k\<close> of the SGX device. Every heap is a range of whole
  4 KB pages, starts at the first address of a page directory slot, and ends inside the device's
  address space, which has 28 bits; no address is in two heaps. The MMU heap that is made of an entry
  has a page table for every address of it and shares no page directory slot with the heap of any
  other entry.
\<close>

lemma SGXRegisterDevice_heaps:
  assumes "SGXRegisterDevice km = (PVRSRV_OK, info, km')" "k < length (psDeviceMemoryHeap info)"
  shows "let i = psDeviceMemoryHeap info ! k; h = new_heap c (arena_descriptor i)
     in length (psDeviceMemoryHeap info) = unat (ui32HeapCount info) \<and>
        HEAP_IDX (hi_ui32HeapID i) = of_nat k \<and> HEAP_DEV (hi_ui32HeapID i) = PVRSRV_DEVICE_TYPE_SGX \<and>
        whole_slots h \<and> low_heap h \<and>
        ui32DataPageSize i = 4096 \<and> 4096 dvd unat (ui32HeapSize i) \<and> ui32HeapSize i \<noteq> 0 \<and>
        2 ^ 22 dvd unat (sDevVAddrBase i) \<and>
        ui32AddressSpaceSizeLog2 info = 28 \<and> heap_range i \<subseteq> {0..<2 ^ 28} \<and>
        (\<forall>j < length (psDeviceMemoryHeap info). j \<noteq> k \<longrightarrow>
           heap_range i \<inter> heap_range (psDeviceMemoryHeap info ! j) = {} \<and>
           heap_slots h \<inter> heap_slots (new_heap c' (arena_descriptor (psDeviceMemoryHeap info ! j))) = {})"
proof -
  have t: "psDeviceMemoryHeap info = sgx_heaps" by (rule SGXRegisterDevice_ok [OF assms(1)])
  have l: "length sgx_heaps = 10" by (simp add: sgx_heaps_eq)
  have n: "unat (ui32HeapCount info) = 10"
    using assms(1) by (auto simp: SGXRegisterDevice_def Let_def SGX_MAX_HEAP_ID_def split: prod.splits if_splits)
  let ?i = "sgx_heaps ! k"
  have m: "?i \<in> set sgx_heaps" using assms(2) t by simp
  have "list_all (\<lambda>k. HEAP_IDX (hi_ui32HeapID (sgx_heaps ! k)) = of_nat k) [0..<10]"
    by (simp add: sgx_heaps_eq sgx_table HEAP_IDX_def upt_rec)
  then have x: "HEAP_IDX (hi_ui32HeapID ?i) = of_nat k" using assms(2) t l by (auto simp: list_all_iff)
  note e = sgx_entries [OF m]
  have w: "whole_slots (new_heap c (arena_descriptor ?i))"
    by (rule new_heap_whole) (use e(1-4) in \<open>simp_all add: arena_descriptor_def\<close>)
  have lo: "low_heap (new_heap c (arena_descriptor ?i))" using e(4) by (simp add: low_heap_def arena_descriptor_def)
  let ?B = "[(6, 32), (49, 52), (59, 59), (60, 60), (61, 62), (63, 63), (54, 55), (56, 57), (53, 53), (33, 48)] :: (nat \<times> nat) list"
  have b: "slot_bounds (sgx_heaps ! j) = ?B ! j" if "j < 10" for j using that l by (simp add: sgx_bounds [symmetric])
  have "list_all (\<lambda>(j, k). j \<noteq> k \<longrightarrow> snd (?B ! k) < fst (?B ! j) \<or> snd (?B ! j) < fst (?B ! k)) (List.product [0..<10] [0..<10])"
    by code_simp
  then have "snd (?B ! k) < fst (?B ! j) \<or> snd (?B ! j) < fst (?B ! k)" if "j < 10" "j \<noteq> k" for j
    using that assms(2) t l unfolding list_all_iff by (auto simp del: nth_Cons_numeral)
  then have "heap_slots (new_heap c (arena_descriptor ?i)) \<inter> heap_slots (new_heap c' (arena_descriptor (sgx_heaps ! j))) = {}"
    if "j < 10" "j \<noteq> k" for j
    using that assms(2) t l unfolding heap_slots_bounds by (fastforce simp: b)
  moreover have "heap_range ?i \<inter> heap_range (sgx_heaps ! j) = {}" if "j < 10" "j \<noteq> k" for j
    using calculation [OF that] heap_range_slots by fastforce
  moreover have "ui32AddressSpaceSizeLog2 info = 28"
    using assms(1) by (auto simp: SGXRegisterDevice_def Let_def SGX_FEATURE_ADDRESS_SPACE_SIZE_def split: prod.splits if_splits)
  moreover have "heap_range ?i \<subseteq> {0..<2 ^ 28}" using e(4) by (auto simp: heap_range_def)
  ultimately show ?thesis using x e w lo by (simp add: t l n SGX_MMU_PAGE_SIZE_def)
qed

theorem SGXRegisterDevice_heaps_witness:
  "heap_range (psDeviceMemoryHeap (fst (snd (SGXRegisterDevice [16]))) ! 2) \<subseteq> {0..<2 ^ 28} \<and>
   heap_range (psDeviceMemoryHeap (fst (snd (SGXRegisterDevice [16]))) ! 2) \<inter>
     heap_range (psDeviceMemoryHeap (fst (snd (SGXRegisterDevice [16]))) ! 3) = {} \<and>
   heap_slots (new_heap 16 (arena_descriptor (psDeviceMemoryHeap (fst (snd (SGXRegisterDevice [16]))) ! 2))) \<inter>
     heap_slots (new_heap 16 (arena_descriptor (psDeviceMemoryHeap (fst (snd (SGXRegisterDevice [16]))) ! 3))) = {}"
proof -
  obtain info km where r: "SGXRegisterDevice [16] = (PVRSRV_OK, info, km)" by (simp add: SGXRegisterDevice_def)
  have l: "length (psDeviceMemoryHeap info) = 10" using SGXRegisterDevice_ok [OF r] by (simp add: sgx_heaps_eq)
  show ?thesis using SGXRegisterDevice_heaps [OF r, of 2 16 16] l by (simp add: Let_def r)
qed

subsection \<open>Clearing\<close>

text \<open>The physical addresses of the bytes of a cleared range.\<close>

fun zero_addrs :: "zero_range \<Rightarrow> u32 list" where
  "zero_addrs (ZeroPhys a n) = map (\<lambda>i. a + of_nat i) [0..<unat n]"
| "zero_addrs (ZeroVirt v n) = []"

text \<open>Within one physical page the bytes of an area follow each other.\<close>

definition page_linear :: "mmu_os \<Rightarrow> ptr \<Rightarrow> bool" where
  "page_linear os h \<longleftrightarrow> (\<forall>off k. unat (OSMemHandleToCpuPAddr os h off) mod 4096 + k < 4096 \<longrightarrow>
     OSMemHandleToCpuPAddr os h (off + of_nat k) = OSMemHandleToCpuPAddr os h off + of_nat k)"

lemma page_offset: "unat (a AND 0xFFF :: u32) = unat a mod 4096"
proof -
  have "a AND 0xFFF = take_bit 12 a" by (simp add: take_bit_eq_mask mask_numeral)
  then show ?thesis by (simp add: unat_mod take_bit_eq_mod)
qed

lemma mod_pred:
  assumes "m mod 4096 \<noteq> 0"
  shows "(m + 4095) mod 4096 = m mod 4096 - (1 :: nat)"
proof -
  obtain k where k: "m mod 4096 = Suc k" using assms by (cases "m mod 4096") auto
  have "m mod 4096 < 4096" by simp
  then have l: "k < 4096" by (simp add: k)
  have "(m + 4095) mod 4096 = (m mod 4096 + 4095) mod 4096" by (rule mod_add_left_eq [symmetric])
  also have "\<dots> = (k + 4096) mod 4096" by (simp add: k)
  also have "\<dots> = k" using l by simp
  finally show ?thesis by (simp add: k)
qed

lemma page_rest:
  assumes "unat a mod 4096 \<noteq> 0"
  shows "unat (HOST_PAGEALIGN a - a) = 4096 - unat a mod 4096"
proof -
  let ?x = "a + 0xFFF"
  have "?x - (?x AND 0xFFF) = ?x AND NOT (?x AND 0xFFF)" by (rule disjunctive_diff_eq_and_not) (simp add: bit_eq_iff bit_simps)
  also have "\<dots> = ?x AND NOT 0xFFF" by (simp add: bit.conj_disj_distrib)
  finally have h: "HOST_PAGEALIGN a - a = 0xFFF - (?x AND 0xFFF)" by (simp add: HOST_PAGEALIGN_def HOST_PAGESIZE_def algebra_simps)
  have "unat ?x mod 4096 = (unat a + 4095) mod 4096" by (simp add: unat_word_ariths mod_mod_cancel)
  also have "\<dots> = unat a mod 4096 - 1" by (rule mod_pred [OF assms])
  finally show ?thesis unfolding h using assms by (simp add: unat_sub_if' page_offset word_le_nat_alt)
qed

lemma zero_block_page:
  assumes "0 < r"
  shows "unat a mod 4096 + unat (zero_block a r) \<le> 4096"
proof (cases "unat a mod 4096 = 0")
  case True
  then have "a AND 0xFFF = 0" using page_offset [of a] by (simp add: unat_eq_zero)
  then have "zero_block a r \<le> 0x1000" by (simp add: zero_block_def HOST_PAGESIZE_def)
  then show ?thesis using True by (simp add: word_le_nat_alt)
next
  case False
  then have "a AND 0xFFF \<noteq> 0" using page_offset [of a] by auto
  then have "zero_block a r \<le> HOST_PAGEALIGN a - a" by (simp add: zero_block_def HOST_PAGESIZE_def)
  then have "unat (zero_block a r) \<le> 4096 - unat a mod 4096" using page_rest [OF False] by (simp add: word_le_nat_alt)
  then show ?thesis by simp
qed

lemma zero_loop_clears:
  "page_linear os h \<Longrightarrow> unat r \<le> length ans \<Longrightarrow> False \<notin> set ans \<Longrightarrow> \<exists>zs ans'. zero_loop os h r off ans = (True, zs, ans') \<and>
    concat (map zero_addrs zs) = map (\<lambda>i. OSMemHandleToCpuPAddr os h (off + of_nat i)) [0..<unat r] \<and>
    (\<forall>z \<in> set zs. case z of ZeroPhys a n \<Rightarrow> unat a mod 4096 + unat n \<le> 4096 | _ \<Rightarrow> False)"
proof (induction os h r off ans rule: zero_loop.induct)
  case (1 os h r off ans)
  show ?case
  proof (cases "0 < r")
    case False
    then have "r = 0" by (simp add: word_gt_0)
    then show ?thesis by (simp add: zero_loop.simps)
  next
    case True
    let ?a = "OSMemHandleToCpuPAddr os h off"
    let ?n = "zero_block ?a r"
    note b = zero_block_bounds [OF True, of ?a]
    obtain ans1 where a1: "ans = True # ans1"
      using True 1(3,4) by (cases ans) (auto simp: word_gt_0 unat_eq_zero)
    have le: "unat ?n \<le> unat r" "0 < unat ?n" using b by (simp_all add: word_le_nat_alt word_less_nat_alt)
    have rn: "unat (r - ?n) = unat r - unat ?n" using b(2) by (rule unat_sub)
    have lc: "unat (r - ?n) \<le> length ans1" "False \<notin> set ans1" using 1(3,4) a1 rn le by simp_all
    obtain zs ans' where zs: "zero_loop os h (r - ?n) (off + ?n) ans1 = (True, zs, ans')"
      "concat (map zero_addrs zs) = map (\<lambda>i. OSMemHandleToCpuPAddr os h (off + ?n + of_nat i)) [0..<unat r - unat ?n]"
      "\<forall>z \<in> set zs. case z of ZeroPhys a n \<Rightarrow> unat a mod 4096 + unat n \<le> 4096 | _ \<Rightarrow> False"
      using "1.IH" [OF True refl refl a1] 1(2) lc unfolding rn by blast
    have pg: "unat ?a mod 4096 + unat ?n \<le> 4096" by (rule zero_block_page [OF True])
    have hd: "zero_addrs (ZeroPhys ?a ?n) = map (\<lambda>i. OSMemHandleToCpuPAddr os h (off + of_nat i)) [0..<unat ?n]"
      using 1(2) pg by (auto simp: page_linear_def)
    have tl: "map (\<lambda>i. OSMemHandleToCpuPAddr os h (off + ?n + of_nat i)) [0..<unat r - unat ?n] =
        map (\<lambda>i. OSMemHandleToCpuPAddr os h (off + of_nat i)) [unat ?n..<unat r]"
      by (rule nth_equalityI) (simp_all add: add.assoc)
    have run: "zero_loop os h r off ans = (True, ZeroPhys ?a ?n # zs, ans')"
      by (subst zero_loop.simps) (simp add: True a1 zs(1) Let_def)
    have "[0..<unat ?n] @ [unat ?n..<unat r] = [0..<unat r]" using upt_add_eq_append [of 0 "unat ?n" "unat r - unat ?n"] le(1) by simp
    then have "concat (map zero_addrs (ZeroPhys ?a ?n # zs)) = map (\<lambda>i. OSMemHandleToCpuPAddr os h (off + of_nat i)) [0..<unat r]"
      unfolding list.map concat.simps hd zs(2) tl map_append [symmetric] by simp
    then show ?thesis using run zs(3) pg by auto
  qed
qed

text \<open>
  C28. \<open>ZeroBuf\<close> on scattered memory clears exactly the buffer: when the kernel can map the pages, it
  succeeds, and the physical addresses it clears, in order, are the ones behind the offsets from 0 up to
  the size, each once; no block that it maps crosses a page. The memory area only has to be contiguous
  within each physical page.
\<close>

theorem ZeroBuf_clears:
  assumes "b_CpuVAddr b = NULL" "eCpuMemoryOrigin m \<notin> {hm_contiguous, hm_wrapped}" "page_linear os (b_hOSMemHandle b)"
    and "unat n \<le> length (zero_ans S)" "False \<notin> set (zero_ans S)"
  shows "\<exists>zs ans'. ZeroBuf os b m n S = (True, S\<lparr>zero_ans := ans', zeroed := zeroed S @ zs\<rparr>) \<and>
     concat (map zero_addrs zs) = map (\<lambda>i. OSMemHandleToCpuPAddr os (b_hOSMemHandle b) (of_nat i)) [0..<unat n] \<and>
     (\<forall>z \<in> set zs. case z of ZeroPhys a k \<Rightarrow> unat a mod 4096 + unat k \<le> 4096 | _ \<Rightarrow> False)"
proof -
  obtain zs ans' where z: "zero_loop os (b_hOSMemHandle b) n 0 (zero_ans S) = (True, zs, ans')"
    "concat (map zero_addrs zs) = map (\<lambda>i. OSMemHandleToCpuPAddr os (b_hOSMemHandle b) (0 + of_nat i)) [0..<unat n]"
    "\<forall>z \<in> set zs. case z of ZeroPhys a k \<Rightarrow> unat a mod 4096 + unat k \<le> 4096 | _ \<Rightarrow> False"
    using zero_loop_clears [OF assms(3-5), of 0] by blast
  have "ZeroBuf os b m n S = (True, S\<lparr>zero_ans := ans', zeroed := zeroed S @ zs\<rparr>)" using assms(1,2) z(1) by (simp add: ZeroBuf_def)
  then show ?thesis using z(2,3) by auto
qed

subsection \<open>A buffer manager\<close>

definition bm0 :: bm_state where
  "bm0 = \<lparr>bm_mmu = dm_mmu dd0, bm_mmuheaps = dm_heaps dd0, bm_heaps = Map.empty, bm_mappings = Map.empty, bm_bufs = Map.empty,
     bm_ctxs = Map.empty, pBMKernelContext = NULL, pBMContext_list = NULL, bm_local = None,
     bm_os = \<lparr>lx_areas = Map.empty, area_ans = [(0, 0x500), (0, 0x501)]\<rparr>, zeroed = [], bm_km = [0x100, 0x101, 0x102, 0x103, 0x104, 0x105],
     ra_km = [0x200, 0x201, 0x202, 0x203], local_km = [], zero_ans = replicate 5 True, raw_mapping = (\<lambda>_. zero_mapping)\<rparr>"

theorem ZeroBuf_clears_witness:
  "\<exists>zs ans'. ZeroBuf demo_os (zero_buf\<lparr>b_hOSMemHandle := 0x500\<rparr>) (zero_mapping\<lparr>eCpuMemoryOrigin := hm_env\<rparr>) 3 bm0 =
       (True, bm0\<lparr>zero_ans := ans', zeroed := zeroed bm0 @ zs\<rparr>) \<and>
     concat (map zero_addrs zs) = [0x80000000, 0x80000001, 0x80000002]"
proof -
  have l: "page_linear demo_os 0x500" by (simp add: page_linear_def OSMemHandleToCpuPAddr_def demo_os_def)
  have a: "[0..<3] = [0, 1, 2 :: nat]" by (simp add: upt_rec)
  have b: "unat (3 :: u32) \<le> length (zero_ans bm0)" "False \<notin> set (zero_ans bm0)" by (simp_all add: bm0_def)
  note z = ZeroBuf_clears [where b = "zero_buf\<lparr>b_hOSMemHandle := 0x500\<rparr>" and m = "zero_mapping\<lparr>eCpuMemoryOrigin := hm_env\<rparr>"
      and os = demo_os, OF _ _ _ b]
  have "map (\<lambda>i. OSMemHandleToCpuPAddr demo_os 0x500 (of_nat i)) [0..<unat (3 :: u32)] = [0x80000000, 0x80000001, 0x80000002]"
    by (simp add: a OSMemHandleToCpuPAddr_def demo_os_def)
  then show ?thesis using z l by (auto simp: zero_buf_def)
qed

end
