(* ===== verification/Pvr_Bm_Wrap.thy ===== *)
theory Pvr_Bm_Wrap
  imports Pvr_Bm_Props Pvr_Hash_Props
begin

text \<open>
  Wrapping memory: the calls of \<open>WrapMemory\<close> and \<open>FreeBuf\<close> on the memory areas of the kernel and on device
  memory, composed.
\<close>

subsection \<open>Memory areas of buffers\<close>

text \<open>The kernel hands out new handles; an area that was made for a mapping type is released by it.\<close>

definition areas_fresh :: "os_mem \<Rightarrow> bool" where
  "areas_fresh om \<longleftrightarrow> distinct (filter (\<lambda>h. h \<noteq> NULL) (map snd (area_ans om))) \<and>
     (\<forall>h \<in> snd ` set (area_ans om). h \<noteq> NULL \<longrightarrow> lx_areas om h = None)"

definition area_for :: "bool \<Rightarrow> ptr \<Rightarrow> os_mem \<Rightarrow> bool" where
  "area_for reg h om \<longleftrightarrow> lx_areas om h = Some \<lparr>bMMapRegistered = reg, still_mapped = False\<rparr>"

definition free_area :: "ptr \<Rightarrow> os_mem \<Rightarrow> os_mem" where
  "free_area h om = om\<lparr>lx_areas := (lx_areas om)(h := None)\<rparr>"

text \<open>A new area with handle \<open>h\<close>, registered or not.\<close>

definition area_made :: "bool \<Rightarrow> ptr \<Rightarrow> os_mem \<Rightarrow> os_mem \<Rightarrow> bool" where
  "area_made reg h om om' \<longleftrightarrow> h \<noteq> NULL \<and> lx_areas om h = None \<and> areas_fresh om' \<and>
     lx_areas om' = (lx_areas om)(h \<mapsto> \<lparr>bMMapRegistered = reg, still_mapped = False\<rparr>)"

lemma NewLinuxMemArea_ok:
  assumes "NewLinuxMemArea om = (v, h, om')" "h \<noteq> NULL" "areas_fresh om"
  shows "area_made False h om om'"
proof -
  obtain w r where r: "area_ans om = (w, h) # r" "om' = om\<lparr>area_ans := r, lx_areas := (lx_areas om)(h \<mapsto> \<lparr>bMMapRegistered = False, still_mapped = False\<rparr>)\<rparr>"
    using assms(1,2) by (auto simp: NewLinuxMemArea_def split: list.splits if_splits prod.splits)
  then show ?thesis using assms(2,3) by (auto simp: areas_fresh_def area_made_def image_iff)
qed

lemma PVRMMapRegisterArea_made:
  "area_made False h om om' \<Longrightarrow> \<exists>om''. PVRMMapRegisterArea h om' = Some (PVRSRV_OK, om'') \<and> area_made True h om om''"
  by (auto simp: PVRMMapRegisterArea_def area_made_def areas_fresh_def)

lemma new_area_ok:
  assumes "new_area ef eg f om = Some (PVRSRV_OK, v, h, om')" "areas_fresh om" "ef \<noteq> PVRSRV_OK" "eg \<noteq> PVRSRV_OK"
  shows "\<exists>reg. maptype_register f = Some reg \<and> area_made reg h om om'"
proof -
  have "maptype_register f \<noteq> None"
  proof
    assume "maptype_register f = None"
    then show False using assms(1,4) by (simp add: new_area_def)
  qed
  then obtain reg where r: "maptype_register f = Some reg" by blast
  obtain v0 h0 om0 where n: "NewLinuxMemArea om = (v0, h0, om0)" by (cases "NewLinuxMemArea om")
  have h0: "h0 \<noteq> NULL" using assms(1,3) r n by (auto simp: new_area_def)
  note m = NewLinuxMemArea_ok [OF n h0 assms(2)]
  have run: "(do { (_, m) \<leftarrow> (if reg then PVRMMapRegisterArea h0 om0 else Some (PVRSRV_OK, om0)); Some (PVRSRV_OK, v0, h0, m) }) =
      Some (PVRSRV_OK, v, h, om')" using assms(1) r n h0 by (simp add: new_area_def)
  show ?thesis
  proof (cases reg)
    case True
    obtain om2 where o: "PVRMMapRegisterArea h0 om0 = Some (PVRSRV_OK, om2)" "area_made True h0 om om2"
      using PVRMMapRegisterArea_made [OF m] by blast
    have "h0 = h \<and> om2 = om'" using run by (simp add: True o(1))
    then have "area_made reg h om om'" using o(2) True by simp
    then show ?thesis using r by blast
  next
    case False
    then have "area_made reg h om om'" using run m by simp
    then show ?thesis using r by blast
  qed
qed

lemma OSGetSubMemHandle_cases:
  assumes "OSGetSubMemHandle f om = Some (e, h, om')" "areas_fresh om"
  shows "if e = PVRSRV_OK then area_made (f AND PVRSRV_HAP_KERNEL_ONLY = 0) h om om' else h = NULL \<and> lx_areas om' = lx_areas om"
proof -
  obtain v0 h0 om0 where n: "NewLinuxMemArea om = (v0, h0, om0)" by (cases "NewLinuxMemArea om")
  show ?thesis
  proof (cases "h0 = NULL")
    case True
    then have "lx_areas om0 = lx_areas om" using n by (auto simp: NewLinuxMemArea_def split: list.splits if_splits prod.splits)
    then show ?thesis using assms(1) n True by (auto simp: OSGetSubMemHandle_def)
  next
    case False
    note m = NewLinuxMemArea_ok [OF n False assms(2)]
    show ?thesis using assms(1) n False m PVRMMapRegisterArea_made [OF m] by (auto simp: OSGetSubMemHandle_def split: if_splits)
  qed
qed

text \<open>Releasing an area.\<close>

lemma release_area:
  assumes "area_for reg h om" "maptype_register f = Some reg"
  shows "OSUnReservePhys f h om = Some (PVRSRV_OK, free_area h om)" "OSUnRegisterMem f h om = Some (PVRSRV_OK, free_area h om)"
    "OSUnReserveDiscontigPhys f h om = Some (PVRSRV_OK, free_area h om)" "OSUnRegisterDiscontigMem f h om = Some (PVRSRV_OK, free_area h om)"
  using assms by (auto simp: OSUnReservePhys_def OSUnRegisterMem_def OSUnReserveDiscontigPhys_def OSUnRegisterDiscontigMem_def
      area_for_def free_area_def PVRMMapRemoveRegisteredArea_def LinuxMemAreaDeepFree_def)

lemma release_sub:
  assumes "area_for (f AND PVRSRV_HAP_KERNEL_ONLY = 0) h om"
  shows "OSReleaseSubMemHandle h f om = Some (PVRSRV_OK, free_area h om)"
  using assms by (auto simp: OSReleaseSubMemHandle_def area_for_def free_area_def PVRMMapRemoveRegisteredArea_def LinuxMemAreaDeepFree_def)

abbreviation wrapped_origin :: "BM_MAPPING \<Rightarrow> bool" where
  "wrapped_origin m \<equiv> eCpuMemoryOrigin m \<in> {hm_wrapped, hm_wrapped_virtaddr, hm_wrapped_scatter, hm_wrapped_scatter_virtaddr}"

lemma release_origin_area:
  assumes "wrapped_origin m" "area_for reg (m_hOSMemHandle m) (bm_os S)" "maptype_register f = Some reg"
  shows "release_origin m f S = Some (S\<lparr>bm_os := free_area (m_hOSMemHandle m) (bm_os S)\<rparr>)"
  using assms release_area [OF assms(2,3)] by (auto simp: release_origin_def on_areas_def)

lemma wrap_area_ok:
  assumes "wrap_area contig as cv f m0 om = Some (PVRSRV_OK, m, om')" "areas_fresh om"
  shows "\<exists>reg. maptype_register f = Some reg \<and> area_made reg (m_hOSMemHandle m) om om'" "wrapped_origin m"
    "m_pBMHeap m = m_pBMHeap m0" "m_uSize m = m_uSize m0"
proof -
  have e: "PVRSRV_ERROR_GENERIC \<noteq> PVRSRV_OK" by simp
  show "\<exists>reg. maptype_register f = Some reg \<and> area_made reg (m_hOSMemHandle m) om om'" "wrapped_origin m"
    "m_pBMHeap m = m_pBMHeap m0" "m_uSize m = m_uSize m0"
    using assms new_area_ok [OF _ assms(2) e e]
    by (fastforce simp: wrap_area_def Let_def bind_eq_Some_conv OSRegisterMem_def OSRegisterDiscontigMem_def OSReservePhys_def
        OSReserveDiscontigPhys_def RegisterExternalMem_def split: list.splits if_splits)+
qed

subsection \<open>Wrapping\<close>

definition wrap_flags :: "u32 \<Rightarrow> u32" where
  "wrap_flags uFlags = (uFlags OR PVRSRV_MEM_READ OR PVRSRV_MEM_WRITE)"

text \<open>A request to wrap memory whose area can be made, and which the device can map.\<close>

definition wrap_request ::
  "mmu_os \<Rightarrow> devmem \<Rightarrow> bm_state \<Rightarrow> ptr \<Rightarrow> u32 \<Rightarrow> u32 \<Rightarrow> bool \<Rightarrow> u32 list \<Rightarrow> ptr \<Rightarrow> u32
   \<Rightarrow> BM_HEAP \<times> MMU_HEAP \<times> ptr \<times> kmem \<times> BM_MAPPING \<times> os_mem \<Rightarrow> bool" where
  "wrap_request os d S hp size' off contig pages cv uFlags = (\<lambda>(bh, h, mp, km, m, om).
     bm_mmu S = dm_mmu d \<and> bm_mmuheaps S = dm_heaps d \<and> bm_heaps S hp = Some bh \<and> dm_heaps d (pMMUHeap bh) = Some h \<and>
     OSAllocMem (bm_km S) = (PVRSRV_OK, mp, km) \<and> bm_mappings S mp = None \<and> areas_fresh (bm_os S) \<and>
     wrap_area contig pages cv uFlags (zero_mapping\<lparr>m_uSize := HOST_PAGEALIGN (size' + off), m_pBMHeap := hp\<rparr>) (bm_os S) =
       Some (PVRSRV_OK, m, om) \<and>
     alloc_hyps os h m (wrap_flags uFlags) HOST_PAGESIZE (dm_mmu d))"

lemma wrap_requestD:
  assumes "wrap_request os d S hp size' off contig pages cv uFlags (bh, h, mp, km, m, om)"
  shows "bm_mmu S = dm_mmu d" "bm_mmuheaps S = dm_heaps d" "bm_heaps S hp = Some bh" "dm_heaps d (pMMUHeap bh) = Some h"
    "OSAllocMem (bm_km S) = (PVRSRV_OK, mp, km)" "bm_mappings S mp = None" "areas_fresh (bm_os S)"
    "wrap_area contig pages cv uFlags (zero_mapping\<lparr>m_uSize := HOST_PAGEALIGN (size' + off), m_pBMHeap := hp\<rparr>) (bm_os S) =
       Some (PVRSRV_OK, m, om)"
    "alloc_hyps os h m (wrap_flags uFlags) HOST_PAGESIZE (dm_mmu d)"
  using assms by (simp_all add: wrap_request_def)

text \<open>The state after the device mapping is made.\<close>

lemma WrapMemory_mapped:
  assumes r: "wrap_request os d S hp size' off contig pages cv uFlags (bh, h, mp, km, m, om)"
    and a: "DevMemoryAlloc os h m (wrap_flags uFlags) HOST_PAGESIZE (dm_mmu d) = Some (True, m', h', dv, t)"
  shows "WrapMemory os hp size' off contig pages cv uFlags S = wrap_tail os mp (HOST_PAGEALIGN (size' + off)) off uFlags m'
     (S\<lparr>bm_km := km, bm_os := om, bm_mmu := t, bm_mmuheaps := (dm_heaps d)(pMMUHeap bh \<mapsto> h'), bm_mappings := (bm_mappings S)(mp \<mapsto> m')\<rparr>)"
proof -
  note D = wrap_requestD [OF r]
  have hp: "m_pBMHeap m = hp" using wrap_area_ok(3) [OF D(8,7)] by simp
  show ?thesis
    unfolding WrapMemory_def D(5) Let_def prod.case
    using a D(1-4,8) hp by (simp add: dev_alloc_def put_mapping_def wrap_flags_def Let_def)
qed

lemma wrap_area_contig:
  "wrap_area True as cv f m0 om = Some (e, m, om') \<Longrightarrow> eCpuMemoryOrigin m \<in> {hm_wrapped, hm_wrapped_virtaddr}"
  by (auto simp: wrap_area_def Let_def bind_eq_Some_conv split: list.splits if_splits)

lemma DevMemoryAlloc_frame:
  "DevMemoryAlloc os h m f al s = Some (r, m', x) \<Longrightarrow> m_hOSMemHandle m' = m_hOSMemHandle m \<and> m_pBMHeap m' = m_pBMHeap m \<and>
     eCpuMemoryOrigin m' = eCpuMemoryOrigin m \<and> m_CpuVAddr m' = m_CpuVAddr m"
  by (auto simp: DevMemoryAlloc_def Let_def bind_eq_Some_conv split: if_splits)

lemma zero_upd:
  "\<exists>ans zs. S\<lparr>zeroed := x\<rparr> = S\<lparr>zero_ans := ans, zeroed := zs\<rparr>" "\<exists>ans zs. S\<lparr>zero_ans := y\<rparr> = S\<lparr>zero_ans := ans, zeroed := zs\<rparr>"
  "\<exists>ans zs. S = S\<lparr>zero_ans := ans, zeroed := zs\<rparr>"
  for S :: bm_state
proof -
  show "\<exists>ans zs. S\<lparr>zeroed := x\<rparr> = S\<lparr>zero_ans := ans, zeroed := zs\<rparr>" by (rule exI [of _ "zero_ans S"], rule exI [of _ x]) simp
  show "\<exists>ans zs. S\<lparr>zero_ans := y\<rparr> = S\<lparr>zero_ans := ans, zeroed := zs\<rparr>" by (rule exI [of _ y], rule exI [of _ "zeroed S"]) simp
  show "\<exists>ans zs. S = S\<lparr>zero_ans := ans, zeroed := zs\<rparr>" by (rule exI [of _ "zero_ans S"], rule exI [of _ "zeroed S"]) simp
qed

lemma ZeroBuf_frame: "ZeroBuf os b m n S = (r, S') \<Longrightarrow> \<exists>ans zs. S' = S\<lparr>zero_ans := ans, zeroed := zs\<rparr>"
  by (auto simp: ZeroBuf_def split: if_splits list.splits prod.splits intro: zero_upd)

lemma wrap_tail_ok:
  assumes "wrap_tail os mp n off f m S = Some (Some b, S')"
  shows "\<exists>h om ans zs. (if off = 0 then Some (PVRSRV_OK, m_hOSMemHandle m, bm_os S) else OSGetSubMemHandle f (bm_os S)) = Some (PVRSRV_OK, h, om) \<and>
     b_hOSMemHandle b = h \<and> b_pMapping b = mp \<and> S' = S\<lparr>bm_os := om, zero_ans := ans, zeroed := zs\<rparr>"
proof -
  let ?g = "if off = 0 then Some (PVRSRV_OK, m_hOSMemHandle m, bm_os S) else OSGetSubMemHandle f (bm_os S)"
  obtain e h om where g: "?g = Some (e, h, om)" using assms by (auto simp: wrap_tail_def bind_eq_Some_conv split: if_splits)
  have ok: "e = PVRSRV_OK"
    using assms unfolding wrap_tail_def g by (cases e) (auto simp: Let_def bind_eq_Some_conv)
  define b' where "b' = zero_buf\<lparr>b_CpuPAddr := m_CpuPAddr m + off, b_hOSMemHandle := h,
     b_CpuVAddr := (if m_CpuVAddr m \<noteq> NULL then m_CpuVAddr m + off else NULL), b_DevVAddr := m_DevVAddr m + off, b_pMapping := mp\<rparr>"
  obtain r T where z: "(if f AND PVRSRV_MEM_ZERO \<noteq> 0 then ZeroBuf os b' m n (S\<lparr>bm_os := om\<rparr>) else (True, S\<lparr>bm_os := om\<rparr>)) = (r, T)"
    by (cases "if f AND PVRSRV_MEM_ZERO \<noteq> 0 then ZeroBuf os b' m n (S\<lparr>bm_os := om\<rparr>) else (True, S\<lparr>bm_os := om\<rparr>)")
  have "wrap_tail os mp n off f m S = Some (if r then Some b' else None, T)"
    unfolding wrap_tail_def g ok Option.bind.simps prod.case Let_def b'_def [symmetric] z by simp
  then have b: "b = b'" "S' = T" using assms by (auto split: if_splits)
  have "\<exists>ans zs. T = S\<lparr>bm_os := om, zero_ans := ans, zeroed := zs\<rparr>"
  proof (cases "f AND PVRSRV_MEM_ZERO = 0")
    case True
    then have t: "T = S\<lparr>bm_os := om\<rparr>" using z by simp
    have "T = S\<lparr>bm_os := om, zero_ans := zero_ans S, zeroed := zeroed S\<rparr>" unfolding t by simp
    then show ?thesis by blast
  next
    case False
    then show ?thesis using ZeroBuf_frame [of os b' m n "S\<lparr>bm_os := om\<rparr>" r T] z by simp
  qed
  then show ?thesis using g ok b by (auto simp: b'_def)
qed

text \<open>The device mapping behind a request, and the area it comes with.\<close>

lemma wrap_request_alloc:
  assumes r: "wrap_request os d S hp size' off contig pages cv uFlags (bh, h, mp, km, m, om)" and ok: "dm_ok os d"
  obtains x m' h' dv t reg where
    "DevMemoryAlloc os h m (wrap_flags uFlags) HOST_PAGESIZE (dm_mmu d) = Some (x, m', h', dv, t)"
    "m_hOSMemHandle m' = m_hOSMemHandle m" "m_pBMHeap m' = hp" "wrapped_origin m'" "m_CpuVAddr m' = m_CpuVAddr m"
    "maptype_register uFlags = Some reg" "area_made reg (m_hOSMemHandle m) (bm_os S) om"
proof -
  note D = wrap_requestD [OF r]
  obtain x m' h' dv t where a: "DevMemoryAlloc os h m (wrap_flags uFlags) HOST_PAGESIZE (dm_mmu d) = Some (x, m', h', dv, t)"
    using DevMemoryAlloc_keeps [OF ok D(4,9)] by blast
  obtain reg where reg: "maptype_register uFlags = Some reg" "area_made reg (m_hOSMemHandle m) (bm_os S) om"
    using wrap_area_ok(1) [OF D(8,7)] by blast
  note m' = DevMemoryAlloc_frame [OF a]
  show ?thesis
    by (rule that [OF a _ _ _ _ reg]) (use wrap_area_ok(2,3) [OF D(8,7)] m' in simp_all)
qed

lemma WrapMemory_unmapped:
  assumes r: "wrap_request os d S hp size' off contig pages cv uFlags (bh, h, mp, km, m, om)"
    and a: "DevMemoryAlloc os h m (wrap_flags uFlags) HOST_PAGESIZE (dm_mmu d) = Some (False, m', h', dv, t)"
  shows "WrapMemory os hp size' off contig pages cv uFlags S \<noteq> Some (Some b, S')"
proof -
  note D = wrap_requestD [OF r]
  have hp: "m_pBMHeap m = hp" using wrap_area_ok(3) [OF D(8,7)] by simp
  show ?thesis
    unfolding WrapMemory_def D(5) Let_def prod.case
    using a D(1-4,8) hp by (auto simp: dev_alloc_def put_mapping_def wrap_flags_def Let_def bind_eq_Some_conv)
qed

lemma WrapMemory_ok:
  assumes r: "wrap_request os d S hp size' off contig pages cv uFlags (bh, h, mp, km, m, om)" and ok: "dm_ok os d"
    and w: "WrapMemory os hp size' off contig pages cv uFlags S = Some (Some b, S1)"
  obtains m' h' dv t reg k om2 ans zs where
    "DevMemoryAlloc os h m (wrap_flags uFlags) HOST_PAGESIZE (dm_mmu d) = Some (True, m', h', dv, t)"
    "m_hOSMemHandle m' = m_hOSMemHandle m" "m_pBMHeap m' = hp" "wrapped_origin m'"
    "maptype_register uFlags = Some reg" "area_made reg (m_hOSMemHandle m) (bm_os S) om"
    "(if off = 0 then Some (PVRSRV_OK, m_hOSMemHandle m', om) else OSGetSubMemHandle uFlags om) = Some (PVRSRV_OK, k, om2)"
    "b_hOSMemHandle b = k" "b_pMapping b = mp" "S1 = S\<lparr>bm_km := km, bm_mmu := t, bm_mmuheaps := (dm_heaps d)(pMMUHeap bh \<mapsto> h'),
       bm_mappings := (bm_mappings S)(mp \<mapsto> m'), bm_os := om2, zero_ans := ans, zeroed := zs\<rparr>"
proof -
  obtain x m' h' dv t reg where a: "DevMemoryAlloc os h m (wrap_flags uFlags) HOST_PAGESIZE (dm_mmu d) = Some (x, m', h', dv, t)"
    "m_hOSMemHandle m' = m_hOSMemHandle m" "m_pBMHeap m' = hp" "wrapped_origin m'" "m_CpuVAddr m' = m_CpuVAddr m"
    "maptype_register uFlags = Some reg" "area_made reg (m_hOSMemHandle m) (bm_os S) om"
    by (rule wrap_request_alloc [OF r ok])
  have x: "x" using WrapMemory_unmapped [OF r, of m' h' dv t b S1] a(1) w by (cases x) auto
  then have a1: "DevMemoryAlloc os h m (wrap_flags uFlags) HOST_PAGESIZE (dm_mmu d) = Some (True, m', h', dv, t)" using a(1) by simp
  let ?T = "S\<lparr>bm_km := km, bm_os := om, bm_mmu := t, bm_mmuheaps := (dm_heaps d)(pMMUHeap bh \<mapsto> h'), bm_mappings := (bm_mappings S)(mp \<mapsto> m')\<rparr>"
  obtain k om2 ans zs where k: "(if off = 0 then Some (PVRSRV_OK, m_hOSMemHandle m', bm_os ?T) else OSGetSubMemHandle uFlags (bm_os ?T)) = Some (PVRSRV_OK, k, om2)"
    "b_hOSMemHandle b = k" "b_pMapping b = mp" "S1 = ?T\<lparr>bm_os := om2, zero_ans := ans, zeroed := zs\<rparr>"
    using wrap_tail_ok w unfolding WrapMemory_mapped [OF r a1] by blast
  have o: "bm_os ?T = om" by simp
  show ?thesis by (rule that [OF a1 a(2-4,6,7) k(1) [unfolded o] k(2,3)]) (simp add: k(4))
qed

lemma KERNEL_ONLY_maptype: "f AND PVRSRV_HAP_KERNEL_ONLY = (f AND PVRSRV_HAP_MAPTYPE_MASK) AND PVRSRV_HAP_KERNEL_ONLY"
  by (simp add: and.assoc pvr_defs)

lemma FreeBuf_wrapped:
  assumes f: "f AND PVRSRV_MEM_USER_SUPPLIED_DEVVADDR = 0" "f AND PVRSRV_MEM_RAM_BACKED_ALLOCATION = 0" "maptype_register f = Some reg"
    and b: "bm_bufs S bp = Some b" "bm_mappings S (b_pMapping b) = Some m" "wrapped_origin m"
    and a: "area_for reg (m_hOSMemHandle m) (bm_os S)"
    and sub: "b_hOSMemHandle b \<noteq> m_hOSMemHandle m \<Longrightarrow> area_for (f AND PVRSRV_HAP_KERNEL_ONLY = 0) (b_hOSMemHandle b) (bm_os S)"
    and h: "bm_heaps S (m_pBMHeap m) = Some bh" "bm_mmuheaps S (pMMUHeap bh) = Some mh" "DevMemoryFree os mh m (bm_mmu S) = Some (mh', t)"
  shows "FreeBuf os bp f S = Some (S\<lparr>bm_os := free_area (m_hOSMemHandle m) (if b_hOSMemHandle b \<noteq> m_hOSMemHandle m then free_area (b_hOSMemHandle b) (bm_os S) else bm_os S),
     bm_mmu := t, bm_mmuheaps := (bm_mmuheaps S)(pMMUHeap bh \<mapsto> mh'),
     bm_mappings := (bm_mappings S)(b_pMapping b := None), bm_bufs := (bm_bufs S)(bp := None)\<rparr>)"
proof -
  define om where "om = (if b_hOSMemHandle b \<noteq> m_hOSMemHandle m then free_area (b_hOSMemHandle b) (bm_os S) else bm_os S)"
  have s1: "(if b_hOSMemHandle b \<noteq> m_hOSMemHandle m then on_areas (OSReleaseSubMemHandle (b_hOSMemHandle b) f) S else Some S) = Some (S\<lparr>bm_os := om\<rparr>)"
    using release_sub [OF sub] by (auto simp: on_areas_def om_def)
  have "area_for reg (m_hOSMemHandle m) (bm_os (S\<lparr>bm_os := om\<rparr>))" using a by (auto simp: om_def free_area_def area_for_def)
  note s2 = release_origin_area [OF b(3) this f(3)]
  show ?thesis
    unfolding FreeBuf_def b(1,2) Option.bind.simps f(1,2) simp_thms if_False s1 s2 om_def [symmetric]
    using b(1,2) h by (simp add: dev_free_def free_mapping_def free_buf_def)
qed

text \<open>
  C7. \<open>FreeBuf\<close> undoes \<open>WrapMemory\<close>: when memory that the device can map (contiguous or scattered, with or
  without a kernel address) is wrapped at some offset and the buffer is then freed with the same
  mapping type, the free returns, the mapping and the buffer objects and the memory areas of the kernel
  are as before, and the device sees what it saw before, under every address and in every context.
\<close>

theorem WrapMemory_FreeBuf_roundtrip:
  assumes d: "reachable_from (dm_init os) (dm_step os) d"
    and r: "wrap_request os d S hp size' off contig pages cv uFlags (bh, h, mp, km, m, om)"
    and f: "f AND PVRSRV_MEM_USER_SUPPLIED_DEVVADDR = 0" "f AND PVRSRV_MEM_RAM_BACKED_ALLOCATION = 0"
      "f AND PVRSRV_HAP_MAPTYPE_MASK = uFlags AND PVRSRV_HAP_MAPTYPE_MASK"
    and w: "WrapMemory os hp size' off contig pages cv uFlags S = Some (Some b, S1)" and bp: "bm_bufs S bp = None"
  shows "\<exists>S2. FreeBuf os bp f (S1\<lparr>bm_bufs := (bm_bufs S1)(bp \<mapsto> b)\<rparr>) = Some S2 \<and>
     bm_mappings S2 = bm_mappings S \<and> bm_bufs S2 = bm_bufs S \<and> lx_areas (bm_os S2) = lx_areas (bm_os S) \<and>
     (\<forall>q g c va. dm_heaps d q = Some g \<longrightarrow> c \<in> sharers g (dm_mmu d) \<longrightarrow> va_of g va \<longrightarrow>
        translate os (bm_mmu S2) c va = translate os (bm_mmu S) c va)"
proof -
  note ok = dm.reachable_inv [OF d]
  note D = wrap_requestD [OF r]
  obtain m' h' dv t reg k om2 ans zs where a1: "DevMemoryAlloc os h m (wrap_flags uFlags) HOST_PAGESIZE (dm_mmu d) = Some (True, m', h', dv, t)"
    and a: "m_hOSMemHandle m' = m_hOSMemHandle m" "m_pBMHeap m' = hp" "wrapped_origin m'"
    "maptype_register uFlags = Some reg" "area_made reg (m_hOSMemHandle m) (bm_os S) om"
    and k: "(if off = 0 then Some (PVRSRV_OK, m_hOSMemHandle m', om) else OSGetSubMemHandle uFlags om) = Some (PVRSRV_OK, k, om2)"
    "b_hOSMemHandle b = k" "b_pMapping b = mp" "S1 = S\<lparr>bm_km := km, bm_mmu := t, bm_mmuheaps := (dm_heaps d)(pMMUHeap bh \<mapsto> h'),
       bm_mappings := (bm_mappings S)(mp \<mapsto> m'), bm_os := om2, zero_ans := ans, zeroed := zs\<rparr>"
    by (rule WrapMemory_ok [OF r ok w])
  have km: "if k = m_hOSMemHandle m then om2 = om else area_made (uFlags AND PVRSRV_HAP_KERNEL_ONLY = 0) k om om2"
    using k(1) OSGetSubMemHandle_cases [of uFlags om PVRSRV_OK k om2] a(1,5) by (auto simp: area_made_def split: if_splits)
  have ko: "f AND PVRSRV_HAP_KERNEL_ONLY = uFlags AND PVRSRV_HAP_KERNEL_ONLY"
    using KERNEL_ONLY_maptype [of f] KERNEL_ONLY_maptype [of uFlags] f(3) by simp
  have fr: "maptype_register f = Some reg" using a(4) f(3) by (simp add: maptype_register_def)
  obtain h'' s'' where fm: "DevMemoryFree os h' m' t = Some (h'', s'')"
    "\<forall>q g c va. dm_heaps d q = Some g \<longrightarrow> c \<in> sharers g (dm_mmu d) \<longrightarrow> va_of g va \<longrightarrow> translate os s'' c va = translate os (dm_mmu d) c va"
    using alloc_free_restores [OF ok D(4,9) a1] by blast
  let ?S = "S1\<lparr>bm_bufs := (bm_bufs S1)(bp \<mapsto> b)\<rparr>"
  have ar: "area_for reg (m_hOSMemHandle m') (bm_os ?S)" using a(1,5) km by (auto simp: k(4) area_for_def area_made_def split: if_splits)
  have sub: "area_for (f AND PVRSRV_HAP_KERNEL_ONLY = 0) (b_hOSMemHandle b) (bm_os ?S)" if "b_hOSMemHandle b \<noteq> m_hOSMemHandle m'"
    using that km a(1) by (simp add: k(2,4) ko area_for_def area_made_def)
  note fb = FreeBuf_wrapped [OF f(1,2) fr _ _ a(3) ar sub, where bh = bh and mh = h' and os = os and mh' = h'' and t = s'' and bp = bp]
  show ?thesis
    using fb fm D(1,2,3,6) a(1,2,5) bp km by (auto simp: k(2-4) free_area_def area_made_def fun_eq_iff split: if_splits)
qed

lemma BM_Wrap_new:
  assumes w: "BM_Wrap os hp size' off contig (a # pages) cv pf S = Some (True, bp', fl', S1)"
    and bh: "bm_heaps S hp = Some bh" and ctx: "bm_ctxs S (h_pBMContext bh) = Some ctx" "pBufferHash ctx = Some ht"
    and old: "find_wrapped ctx (a + off) (HOST_PAGEALIGN (size' + off)) S = Some NULL"
    and km: "OSAllocMem (bm_km S) = (PVRSRV_OK, bp, km0)"
    and fl: "uFlags = (h_ui32Attribs bh AND (PVRSRV_HAP_CACHETYPE_MASK OR PVRSRV_HAP_MAPTYPE_MASK)) OR (case pf of None \<Rightarrow> 0 | Some f \<Rightarrow> f)"
  obtains b T m ctx' ht' km' where "WrapMemory os hp size' off contig (a # pages) cv uFlags (S\<lparr>bm_km := km0\<rparr>) = Some (Some b, T)"
    "bm_mappings T (b_pMapping b) = Some m" "bm_ctxs T (h_pBMContext bh) = Some ctx'"
    "(if wrapped_contig m then HASH_Insert ht (a + off) bp (bm_km T) else (True, ht, bm_km T)) = (True, ht', km')"
    "S1 = T\<lparr>bm_bufs := (bm_bufs T)(bp \<mapsto> b\<lparr>b_ui32RefCount := 1\<rparr>), bm_km := km',
       bm_ctxs := (bm_ctxs T)(h_pBMContext bh \<mapsto> ctx'\<lparr>pBufferHash := Some ht', c_ui32RefCount := c_ui32RefCount ctx' + 1\<rparr>)\<rparr>"
proof -
  have "BM_Wrap os hp size' off contig (a # pages) cv pf S = do {
      (r, S) \<leftarrow> WrapMemory os hp size' off contig (a # pages) cv uFlags (S\<lparr>bm_km := km0\<rparr>);
      (case r of
         None \<Rightarrow> Some (False, NULL, uFlags, S)
       | Some b \<Rightarrow> do {
           let S = S\<lparr>bm_bufs := (bm_bufs S)(bp \<mapsto> b)\<rparr>;
           m \<leftarrow> bm_mappings S (b_pMapping b);
           (let (ok, ht', km) = (if wrapped_contig m then HASH_Insert ht (a + off) bp (bm_km S) else (True, ht, bm_km S))
            in do {
              S \<leftarrow> put_hash (h_pBMContext bh) ht' km S;
              (if \<not> ok then do {
                 S \<leftarrow> FreeBuf os bp uFlags S;
                 Some (False, NULL, uFlags, S)
               }
               else do {
                 S \<leftarrow> pvr_get_ctx (h_pBMContext bh) (S\<lparr>bm_bufs := (bm_bufs S)(bp \<mapsto> b\<lparr>b_ui32RefCount := 1\<rparr>)\<rparr>);
                 Some (True, bp, (uFlags AND NOT PVRSRV_HAP_MAPTYPE_MASK) OR PVRSRV_HAP_MULTI_PROCESS, S)
               })
            })
         })
    }" (is "_ = ?R")
    unfolding BM_Wrap_def fl by (simp add: bh ctx old km Let_def cong: option.case_cong)
  then have run: "?R = Some (True, bp', fl', S1)" using w by simp
  then obtain b T where b: "WrapMemory os hp size' off contig (a # pages) cv uFlags (S\<lparr>bm_km := km0\<rparr>) = Some (Some b, T)"
    by (auto simp: bind_eq_Some_conv split: option.splits)
  obtain m where m: "bm_mappings T (b_pMapping b) = Some m" using run by (auto simp: b Let_def bind_eq_Some_conv)
  obtain ok ht' km' where h: "(if wrapped_contig m then HASH_Insert ht (a + off) bp (bm_km T) else (True, ht, bm_km T)) = (ok, ht', km')"
    by (cases "if wrapped_contig m then HASH_Insert ht (a + off) bp (bm_km T) else (True, ht, bm_km T)")
  let ?T = "T\<lparr>bm_bufs := (bm_bufs T)(bp \<mapsto> b)\<rparr>"
  have kT: "bm_km ?T = bm_km T" by simp
  have h2: "(if wrapped_contig m then HASH_Insert ht (a + off) bp (bm_km ?T) else (True, ht, bm_km ?T)) = (ok, ht', km')"
    unfolding kT by (rule h)
  obtain ctx' where c: "bm_ctxs T (h_pBMContext bh) = Some ctx'"
    using run by (cases "bm_ctxs T (h_pBMContext bh)") (simp_all add: b m h2 Let_def put_hash_def)
  have ok: "ok" using run by (cases ok) (auto simp: b m h2 c Let_def put_hash_def bind_eq_Some_conv)
  then have ok': "ok = True" by simp
  show ?thesis
    by (rule that [OF b m c h [unfolded ok']]) (use run in \<open>auto simp: b m h2 c ok' Let_def put_hash_def pvr_get_ctx_def\<close>)
qed

text \<open>
  C12. Wrapping the same contiguous memory again shares the buffer: after a successful \<open>BM_Wrap\<close> of memory
  that was not wrapped before, a second \<open>BM_Wrap\<close> with the same address and size finds the buffer through
  the hash table of the context, returns it and counts the new reference, and changes nothing else; a
  \<open>BM_Free\<close> of it then takes that reference back.
\<close>

theorem BM_Wrap_twice_shares:
  assumes d: "reachable_from (dm_init os) (dm_step os) d"
    and fl: "uFlags = (h_ui32Attribs bh AND (PVRSRV_HAP_CACHETYPE_MASK OR PVRSRV_HAP_MAPTYPE_MASK)) OR (case pf of None \<Rightarrow> 0 | Some f \<Rightarrow> f)"
      "uFlags AND PVRSRV_MEM_INTERLEAVED = 0"
    and km: "OSAllocMem (bm_km S) = (PVRSRV_OK, bp, km0)" "bp \<noteq> NULL"
    and r: "wrap_request os d (S\<lparr>bm_km := km0\<rparr>) hp size' off True (a # pages) cv uFlags (bh, h, mp, km1, m, om)"
    and ctx: "bm_ctxs S (h_pBMContext bh) = Some ctx" "pBufferHash ctx = Some ht"
    and ht: "hash_inv ht" "table_roomy ht" "table_key ht [a + off]" "\<not> stores_key (entries ht) [a + off]"
    and w: "BM_Wrap os hp size' off True (a # pages) cv pf S = Some (True, bp, fl', S1)"
  shows "\<exists>b fl2. bm_bufs S1 bp = Some b \<and> b_ui32RefCount b = 1 \<and>
     BM_Wrap os hp size' off True (a # pages) cv pf S1 =
       Some (True, bp, fl2, S1\<lparr>bm_bufs := (bm_bufs S1)(bp \<mapsto> b\<lparr>b_ui32RefCount := 2\<rparr>)\<rparr>) \<and>
     BM_Free os bp f (S1\<lparr>bm_bufs := (bm_bufs S1)(bp \<mapsto> b\<lparr>b_ui32RefCount := 2\<rparr>)\<rparr>) = Some S1"
proof -
  note ok = dm.reachable_inv [OF d]
  note D = wrap_requestD [OF r]
  have bh: "bm_heaps S hp = Some bh" using D(3) by simp
  have "HASH_Retrieve ht (a + off) = NULL"
    using HASH_Retrieve_Extended_spec(2) [OF ht(1,3,4)] by (simp add: HASH_Retrieve_def)
  then have old: "find_wrapped ctx (a + off) (HOST_PAGEALIGN (size' + off)) S = Some NULL" by (simp add: find_wrapped_def ctx(2))
  obtain b T m0 ctx' ht' km' where n: "WrapMemory os hp size' off True (a # pages) cv uFlags (S\<lparr>bm_km := km0\<rparr>) = Some (Some b, T)"
    "bm_mappings T (b_pMapping b) = Some m0" "bm_ctxs T (h_pBMContext bh) = Some ctx'"
    "(if wrapped_contig m0 then HASH_Insert ht (a + off) bp (bm_km T) else (True, ht, bm_km T)) = (True, ht', km')"
    "S1 = T\<lparr>bm_bufs := (bm_bufs T)(bp \<mapsto> b\<lparr>b_ui32RefCount := 1\<rparr>), bm_km := km',
       bm_ctxs := (bm_ctxs T)(h_pBMContext bh \<mapsto> ctx'\<lparr>pBufferHash := Some ht', c_ui32RefCount := c_ui32RefCount ctx' + 1\<rparr>)\<rparr>"
    by (rule BM_Wrap_new [OF w bh ctx old km(1) fl(1)])
  obtain m' h' dv t where a1: "DevMemoryAlloc os h m (wrap_flags uFlags) HOST_PAGESIZE (dm_mmu d) = Some (True, m', h', dv, t)"
    and T: "b_pMapping b = mp" "bm_mappings T mp = Some m'" "bm_heaps T = bm_heaps S"
    by (rule WrapMemory_ok [OF r ok n(1)]) auto
  have m0: "m0 = m'" using n(2) T by simp
  have sz: "m_uSize m' = HOST_PAGEALIGN (size' + off)"
  proof -
    have "m' = m\<lparr>m_uSize := map_size m (wrap_flags uFlags), m_DevVAddr := dv\<rparr>" using DevMemoryAlloc_keeps [OF ok D(4,9)] a1 by auto
    moreover have "wrap_flags uFlags AND PVRSRV_MEM_INTERLEAVED = 0"
      using fl(2) by (simp add: wrap_flags_def pvr_defs bit.conj_disj_distrib2)
    ultimately show ?thesis using wrap_area_ok(4) [OF D(8,7)] by (simp add: map_size_def)
  qed
  have wc: "wrapped_contig m'"
    using wrap_area_contig [OF D(8)] DevMemoryAlloc_frame [OF a1] by (simp add: wrapped_contig_def)
  have "HASH_Insert_Extended ht [a + off] bp (bm_km T) = (True, ht', km')" using n(4) wc m0 by (simp add: HASH_Insert_def)
  then have "HASH_Retrieve ht' (a + off) = bp" using ht.retrieve_after_insert [OF ht] by (simp add: HASH_Retrieve_def)
  then have fw: "find_wrapped (ctx'\<lparr>pBufferHash := Some ht', c_ui32RefCount := c_ui32RefCount ctx' + 1\<rparr>) (a + off) (HOST_PAGEALIGN (size' + off)) S1 = Some bp"
    using km(2) T(1,2) sz wc by (simp add: find_wrapped_def n(5))
  let ?b = "b\<lparr>b_ui32RefCount := 1\<rparr>"
  have b1: "bm_bufs S1 bp = Some ?b" by (simp add: n(5))
  have "bm_heaps S1 hp = Some bh" "bm_ctxs S1 (h_pBMContext bh) = Some (ctx'\<lparr>pBufferHash := Some ht', c_ui32RefCount := c_ui32RefCount ctx' + 1\<rparr>)"
    using bh T(3) by (simp_all add: n(5))
  then have again: "\<exists>fl2. BM_Wrap os hp size' off True (a # pages) cv pf S1 = Some (True, bp, fl2, S1\<lparr>bm_bufs := (bm_bufs S1)(bp \<mapsto> ?b\<lparr>b_ui32RefCount := 2\<rparr>)\<rparr>)"
    using fw km(2) b1 by (simp add: BM_Wrap_def Let_def)
  have "BM_Free os bp f (S1\<lparr>bm_bufs := (bm_bufs S1)(bp \<mapsto> ?b\<lparr>b_ui32RefCount := 2\<rparr>)\<rparr>) = Some S1"
    using km(2) b1 by (simp add: BM_Free_def fun_upd_idem)
  then show ?thesis using b1 again by (intro exI [of _ ?b]) auto
qed

text \<open>What a new mapping adds to what the device sees.\<close>

lemma DevMemoryAlloc_visible:
  assumes ok: "dm_ok os d" and h: "dm_heaps d p = Some h" and hy: "alloc_hyps os h m f al (dm_mmu d)"
    and a: "DevMemoryAlloc os h m f al (dm_mmu d) = Some (True, m', h', dv, t)"
    and va: "c \<in> sharers h (dm_mmu d)" "va_of h va" "pn va \<in> mapping_pages m'"
  shows "translate os (dm_mmu d) c va = None \<and>
     translate os t c va = Some (make_pte (page_addr os m' f (pn va - pn (m_DevVAddr m'))) f)"
proof -
  let ?d = "\<lparr>dm_heaps = (dm_heaps d)(p \<mapsto> h'), dm_mmu = t, dm_maps = (p, m', f) # dm_maps d\<rparr>"
  have k: "dm_ok os ?d" "same_heap h h'" "dom (mmu_ctxs t) = dom (mmu_ctxs (dm_mmu d))"
    using DevMemoryAlloc_keeps [OF ok h hy] a by auto
  have "c \<in> sharers h' t" "va_of h' va"
    using va(1,2) k(3) same_heapD(1,2) [OF k(2)] by (simp_all add: va_of_def sharers_def split: if_splits)
  then have new: "translate os t c va = aspace os ((p, m', f) # dm_maps d) p (pn va)"
    using devmem_agree [OF k(1), of p h' c va] by simp
  have "pn va \<notin> mapping_pages m0" if m0: "(p, m0, f0) \<in> set (dm_maps d)" for m0 f0
  proof
    assume v: "pn va \<in> mapping_pages m0"
    have "m0 = m' \<and> f0 = f" by (rule maps_apart [OF k(1), of p h' m' f m0 f0 "pn va"]) (use m0 v va(3) in simp_all)
    then show False using dm_okD(3) [OF k(1)] m0 by force
  qed
  then have "aspace os (dm_maps d) p (pn va) = None" by (rule aspace_out)
  then show ?thesis using new devmem_agree [OF ok h va(1,2)] va(3) by (simp add: aspace_Cons)
qed

text \<open>
  C37. A failure path of \<open>WrapMemory\<close> leaves the device mapping behind: when the handle for the part of
  the area after the offset cannot be made, the call fails, the kernel's memory areas and the mapping
  object are released, but every page of the mapping stays visible to the device in every context,
  where nothing was mapped before.
\<close>

theorem WrapMemory_leaves_device_mapping:
  assumes d: "reachable_from (dm_init os) (dm_step os) d"
    and r: "wrap_request os d S hp size' off contig pages cv uFlags (bh, h, mp, km, m, om)"
    and a: "DevMemoryAlloc os h m (wrap_flags uFlags) HOST_PAGESIZE (dm_mmu d) = Some (True, m', h', dv, t)"
    and e: "off \<noteq> 0" "OSGetSubMemHandle uFlags om = Some (e, k, om2)" "e \<noteq> PVRSRV_OK"
  shows "\<exists>S1. WrapMemory os hp size' off contig pages cv uFlags S = Some (None, S1) \<and>
     bm_mappings S1 = bm_mappings S \<and> bm_bufs S1 = bm_bufs S \<and> lx_areas (bm_os S1) = lx_areas (bm_os S) \<and>
     (\<forall>c va. c \<in> sharers h (dm_mmu d) \<longrightarrow> va_of h va \<longrightarrow> pn va \<in> mapping_pages m' \<longrightarrow>
        translate os (bm_mmu S) c va = None \<and>
        translate os (bm_mmu S1) c va = Some (make_pte (page_addr os m' (wrap_flags uFlags) (pn va - pn (m_DevVAddr m'))) (wrap_flags uFlags)))"
proof -
  note ok = dm.reachable_inv [OF d]
  note D = wrap_requestD [OF r]
  obtain reg where reg: "maptype_register uFlags = Some reg" "area_made reg (m_hOSMemHandle m) (bm_os S) om"
    using wrap_area_ok(1) [OF D(8,7)] by blast
  note fr = DevMemoryAlloc_frame [OF a]
  have w: "wrapped_origin m'" using wrap_area_ok(2) [OF D(8,7)] fr by simp
  let ?T = "S\<lparr>bm_km := km, bm_os := om, bm_mmu := t, bm_mmuheaps := (dm_heaps d)(pMMUHeap bh \<mapsto> h'), bm_mappings := (bm_mappings S)(mp \<mapsto> m')\<rparr>"
  have k: "k = NULL" "lx_areas om2 = lx_areas om"
    using OSGetSubMemHandle_cases [OF e(2)] e(3) reg(2) by (simp_all add: area_made_def)
  let ?U = "?T\<lparr>bm_os := om2\<rparr>"
  have ar: "area_for reg (m_hOSMemHandle m') (bm_os ?U)" using reg(2) fr k(2) by (simp add: area_for_def area_made_def)
  have nn: "m_hOSMemHandle m' \<noteq> NULL" using reg(2) fr by (simp add: area_made_def)
  let ?V = "?U\<lparr>bm_os := free_area (m_hOSMemHandle m') (bm_os ?U), bm_mappings := (bm_mappings ?U)(mp := None)\<rparr>"
  have "wrap_cleanup mp off k uFlags ?U = Some ?V"
    using release_origin_area [OF w ar reg(1)] nn by (simp add: wrap_cleanup_def k(1) free_mapping_def)
  then have "wrap_tail os mp (HOST_PAGEALIGN (size' + off)) off uFlags m' ?T = Some (None, ?V)"
    using e by (simp add: wrap_tail_def)
  then have run: "WrapMemory os hp size' off contig pages cv uFlags S = Some (None, ?V)" unfolding WrapMemory_mapped [OF r a] .
  have "(lx_areas om2)(m_hOSMemHandle m' := None) = lx_areas (bm_os S)" using k(2) fr reg(2) by (auto simp: area_made_def fun_eq_iff)
  then show ?thesis using run D(1,6) DevMemoryAlloc_visible [OF ok D(4,9) a] by (auto simp: free_area_def fun_eq_iff)
qed

subsection \<open>A concrete request\<close>

definition bw_heap :: BM_HEAP where
  "bw_heap = \<lparr>h_ui32Attribs = 0x02008000, h_pBMContext = 0x310, pImportArena = None, h_sDevArena = arena_descriptor heap_GENERAL,
     h_ui32HeapID = 0, h_ui32DataPageSize = 0x1000, pMMUHeap = 17, h_psNext = NULL\<rparr>"

definition bw_start :: "(ptr \<times> ptr) list \<Rightarrow> bm_state" where
  "bw_start ans = bm0\<lparr>bm_heaps := [0x300 \<mapsto> bw_heap], bm_os := \<lparr>lx_areas = Map.empty, area_ans = ans\<rparr>\<rparr>"

definition bw_map :: BM_MAPPING where
  "bw_map = zero_mapping\<lparr>eCpuMemoryOrigin := hm_wrapped, m_pBMHeap := 0x300, m_CpuPAddr := 0x70000000, m_uSize := 0x3000, m_hOSMemHandle := 0x500\<rparr>"

definition bw_os :: "(ptr \<times> ptr) list \<Rightarrow> os_mem" where
  "bw_os r = \<lparr>lx_areas = [0x500 \<mapsto> \<lparr>bMMapRegistered = False, still_mapped = False\<rparr>], area_ans = r\<rparr>"

lemma bw_flags: "wrap_flags 0x8000 = 0x8003" "map_size bw_map (wrap_flags 0x8000) = 0x3000" "m_DevVAddr bw_map = 0"
  "eCpuMemoryOrigin bw_map = hm_wrapped" "HOST_PAGESIZE = 0x1000"
  by (simp_all add: wrap_flags_def map_size_def bw_map_def zero_mapping_def pvr_defs)

lemma bw_request:
  assumes "HOST_PAGEALIGN (n + off) = 0x3000" "areas_fresh (bm_os (bw_start ((0, 0x500) # r)))"
  shows "wrap_request demo_os dd0 (bw_start ((0, 0x500) # r)) 0x300 n off True [0x70000000] NULL 0x8000
     (bw_heap, dd_heap, 0x100, [0x101, 0x102, 0x103, 0x104, 0x105], bw_map, bw_os r)"
proof -
  have "maptype_register 0x8000 = Some False" by (simp add: maptype_register_def pvr_defs)
  then have w: "wrap_area True [0x70000000] NULL 0x8000 (zero_mapping\<lparr>m_uSize := 0x3000, m_pBMHeap := 0x300\<rparr>) (bm_os (bw_start ((0, 0x500) # r))) =
      Some (PVRSRV_OK, bw_map, bw_os r)"
    by (simp add: wrap_area_def OSReservePhys_def new_area_def NewLinuxMemArea_def bw_start_def bw_map_def bw_os_def zero_mapping_def
        SysSysPAddrToCpuPAddr_def)
  have "alloc_hyps demo_os dd_heap bw_map (wrap_flags 0x8000) HOST_PAGESIZE (dm_mmu dd0)"
    unfolding bw_flags(5) by (rule dd_hyps [OF bw_flags(2,4)])
  then show ?thesis
    using w assms by (simp add: wrap_request_def bw_heap_def dd0_sel) (simp add: bw_start_def bm0_def bw_heap_def dd0_sel)
qed

lemma bw_alloc:
  obtains m' h' dv t where
    "DevMemoryAlloc demo_os dd_heap bw_map (wrap_flags 0x8000) HOST_PAGESIZE (dm_mmu dd0) = Some (True, m', h', dv, t)"
    "m_DevVAddr m' = 0x01800000" "m_uSize m' = 0x3000" "m_CpuPAddr m' = 0x70000000" "eCpuMemoryOrigin m' = hm_wrapped"
proof -
  have ok: "dm_ok demo_os dd0" by (rule init_ok [OF dd0_init])
  have h: "dm_heaps dd0 17 = Some dd_heap" by (simp add: dd0_sel)
  have hy: "alloc_hyps demo_os dd_heap bw_map (wrap_flags 0x8000) HOST_PAGESIZE (dm_mmu dd0)"
    unfolding bw_flags(5) by (rule dd_hyps [OF bw_flags(2,4)])
  obtain x m' h' dv t where a: "DevMemoryAlloc demo_os dd_heap bw_map (wrap_flags 0x8000) HOST_PAGESIZE (dm_mmu dd0) = Some (x, m', h', dv, t)"
    "x \<longrightarrow> dv = m_DevVAddr m' \<and> m' = bw_map\<lparr>m_uSize := map_size bw_map (wrap_flags 0x8000), m_DevVAddr := dv\<rparr>"
    using DevMemoryAlloc_keeps [OF ok h hy] by blast
  obtain h1 s1 where m: "MMU_Alloc demo_os dd_heap 0x3000 0 0x1000 0 (dm_mmu dd0) = Some (True, 0x01800000, h1, s1)" by (rule dd_mmu_alloc)
  have x: "x" "m_DevVAddr m' = 0x01800000"
    using DevMemoryAlloc_ok [OF a(1), of "0x01800000" h1 s1] m unfolding bw_flags(2-5) by blast+
  have m': "m' = bw_map\<lparr>m_uSize := 0x3000, m_DevVAddr := dv\<rparr>" using a(2) x(1) unfolding bw_flags(2) by blast
  have f: "m_uSize m' = 0x3000" "m_CpuPAddr m' = 0x70000000" "eCpuMemoryOrigin m' = hm_wrapped"
    unfolding m' by (simp_all add: bw_map_def)
  have "x = True" using x(1) by simp
  from a(1) [unfolded this] x(2) f show ?thesis by (rule that)
qed

theorem WrapMemory_FreeBuf_roundtrip_witness:
  "\<exists>b S1 S2. WrapMemory demo_os 0x300 0x3000 0 True [0x70000000] NULL 0x8000 (bw_start [(0, 0x500)]) = Some (Some b, S1) \<and>
     b_DevVAddr b = 0x01800000 \<and> FreeBuf demo_os 0x110 0x8000 (S1\<lparr>bm_bufs := (bm_bufs S1)(0x110 \<mapsto> b)\<rparr>) = Some S2 \<and>
     bm_mappings S2 = Map.empty \<and> lx_areas (bm_os S2) = Map.empty"
proof -
  have "HOST_PAGEALIGN (0x3000 + 0) = 0x3000" "areas_fresh (bm_os (bw_start [(0, 0x500)]))"
    by (simp_all add: HOST_PAGEALIGN_def HOST_PAGESIZE_def areas_fresh_def bw_start_def)
  note r = bw_request [OF this]
  obtain m' h' dv t where a: "DevMemoryAlloc demo_os dd_heap bw_map (wrap_flags 0x8000) HOST_PAGESIZE (dm_mmu dd0) = Some (True, m', h', dv, t)"
    "m_DevVAddr m' = 0x01800000" by (rule bw_alloc)
  obtain b S1 where w: "WrapMemory demo_os 0x300 0x3000 0 True [0x70000000] NULL 0x8000 (bw_start [(0, 0x500)]) = Some (Some b, S1)" "b_DevVAddr b = 0x01800000"
    unfolding WrapMemory_mapped [OF r a(1)] by (auto simp: wrap_tail_def a(2) PVRSRV_MEM_ZERO_def)
  have f: "(0x8000 :: u32) AND PVRSRV_MEM_USER_SUPPLIED_DEVVADDR = 0" "(0x8000 :: u32) AND PVRSRV_MEM_RAM_BACKED_ALLOCATION = 0"
    by (simp_all add: pvr_defs PVRSRV_MEM_RAM_BACKED_ALLOCATION_def)
  have s: "bm_bufs (bw_start [(0, 0x500)]) 0x110 = None" "bm_mappings (bw_start [(0, 0x500)]) = Map.empty"
    "lx_areas (bm_os (bw_start [(0, 0x500)])) = Map.empty" by (simp_all add: bw_start_def bm0_def)
  show ?thesis using WrapMemory_FreeBuf_roundtrip [OF dd1_reachable(1) r f refl w(1) s(1)] w s(2,3) by auto
qed

theorem WrapMemory_leaves_device_mapping_witness:
  "\<exists>S1. WrapMemory demo_os 0x300 0x2800 0x800 True [0x70000000] NULL 0x8000 (bw_start [(0, 0x500)]) = Some (None, S1) \<and>
     bm_mappings S1 = Map.empty \<and> translate demo_os (bm_mmu S1) 16 0x01801000 = Some 0x70001001"
proof -
  have "HOST_PAGEALIGN (0x2800 + 0x800) = 0x3000" "areas_fresh (bm_os (bw_start [(0, 0x500)]))"
    by (simp_all add: HOST_PAGEALIGN_def HOST_PAGESIZE_def areas_fresh_def bw_start_def)
  note r = bw_request [OF this]
  obtain m' h' dv t where a: "DevMemoryAlloc demo_os dd_heap bw_map (wrap_flags 0x8000) HOST_PAGESIZE (dm_mmu dd0) = Some (True, m', h', dv, t)"
    "m_DevVAddr m' = 0x01800000" "m_uSize m' = 0x3000" "m_CpuPAddr m' = 0x70000000" "eCpuMemoryOrigin m' = hm_wrapped" by (rule bw_alloc)
  have e: "OSGetSubMemHandle 0x8000 (bw_os []) = Some (PVRSRV_ERROR_OUT_OF_MEMORY, NULL, bw_os [])"
    by (simp add: OSGetSubMemHandle_def NewLinuxMemArea_def bw_os_def)
  have c: "16 \<in> sharers dd_heap (dm_mmu dd0)" "va_of dd_heap 0x01801000"
    using same_heapD(1,2) [OF dd_heap_ok(1)] by (simp_all add: sharers_def va_of_def pn_def demo_heap_sel)
  have v: "pn 0x01801000 \<in> mapping_pages m'" "pn 0x01801000 - pn (m_DevVAddr m') = 1" by (simp_all add: mapping_pages_def page_range_def pn_def a(2,3))
  have p: "make_pte (page_addr demo_os m' (wrap_flags 0x8000) 1) (wrap_flags 0x8000) = 0x70001001"
    by (simp add: page_addr_def Let_def a(4,5) bw_flags(1) make_pte_def mmu_flags_def pvr_defs)
  have s: "bm_mappings (bw_start [(0, 0x500)]) = Map.empty" by (simp add: bw_start_def bm0_def)
  show ?thesis
    using WrapMemory_leaves_device_mapping [OF dd1_reachable(1) r a(1) _ e] c v p s by auto
qed
definition bw_ctx :: BM_CONTEXT where
  "bw_ctx = \<lparr>c_psMMUContext = 16, psBMHeap = 0x300, psBMSharedHeap = NULL, pBufferHash = Some hash_demo, hResItem = 0x320,
     c_ui32RefCount = 1, c_psNext = NULL\<rparr>"

definition bw_wrap :: bm_state where
  "bw_wrap = (bw_start [(0, 0x500)])\<lparr>bm_km := [0x120, 0x100, 0x101, 0x102, 0x103, 0x104, 0x105], bm_ctxs := [0x310 \<mapsto> bw_ctx]\<rparr>"

lemma bw_wrap_request:
  "wrap_request demo_os dd0 (bw_wrap\<lparr>bm_km := [0x100, 0x101, 0x102, 0x103, 0x104, 0x105]\<rparr>) 0x300 0x3000 0 True [0x70000000] NULL 0x8000
     (bw_heap, dd_heap, 0x100, [0x101, 0x102, 0x103, 0x104, 0x105], bw_map, bw_os [])"
proof -
  have "HOST_PAGEALIGN (0x3000 + 0) = 0x3000" "areas_fresh (bm_os (bw_start [(0, 0x500)]))"
    by (simp_all add: HOST_PAGEALIGN_def HOST_PAGESIZE_def areas_fresh_def bw_start_def)
  note D = wrap_requestD [OF bw_request [OF this]]
  show ?thesis using D by (simp add: wrap_request_def bw_wrap_def)
qed

lemma hash_demo_insert:
  assumes "p \<noteq> NULL"
  shows "\<exists>ht km'. HASH_Insert hash_demo k v (p # km) = (True, ht, km')"
proof -
  obtain r ht km' where i: "HASH_Insert_Extended hash_demo [k] v (p # km) = (r, ht, km')" by (metis prod_cases3)
  then have "r = True"
    using HASH_Insert_Extended_success [OF hash_demo_inv(1), of "[k]" "p # km" p km v] hash_demo_inv(3) assms
    by (simp add: table_key_def)
  then show ?thesis using i by (simp add: HASH_Insert_def)
qed

lemma bw_wraps:
  obtains fl S1 where "BM_Wrap demo_os 0x300 0x3000 0 True [0x70000000] NULL None bw_wrap = Some (True, 0x120, fl, S1)"
proof -
  obtain m' h' dv t where a: "DevMemoryAlloc demo_os dd_heap bw_map (wrap_flags 0x8000) HOST_PAGESIZE (dm_mmu dd0) = Some (True, m', h', dv, t)"
    "eCpuMemoryOrigin m' = hm_wrapped" by (rule bw_alloc)
  have f: "h_ui32Attribs bw_heap AND (PVRSRV_HAP_CACHETYPE_MASK OR PVRSRV_HAP_MAPTYPE_MASK) = 0x8000"
    by (simp add: bw_heap_def pvr_defs PVRSRV_HAP_WRITECOMBINE_def PVRSRV_HAP_SINGLE_PROCESS_def PVRSRV_HAP_MULTI_PROCESS_def)
  have s: "bm_heaps bw_wrap 0x300 = Some bw_heap" "h_pBMContext bw_heap = 0x310" "bm_ctxs bw_wrap 0x310 = Some bw_ctx" "pBufferHash bw_ctx = Some hash_demo"
    "bm_km bw_wrap = [0x120, 0x100, 0x101, 0x102, 0x103, 0x104, 0x105]"
    by (simp_all add: bw_wrap_def bw_start_def bw_heap_def bw_ctx_def)
  have nk: "HASH_Retrieve_Extended hash_demo [0x70000000] = 0"
    by (rule HASH_Retrieve_Extended_spec(2) [OF hash_demo_inv(1)]) (simp_all add: table_key_def hash_demo_inv stores_key_def)
  then have fw: "find_wrapped bw_ctx (0x70000000 + 0) (HOST_PAGEALIGN (0x3000 + 0)) bw_wrap = Some NULL"
    by (simp add: find_wrapped_def s(4) HASH_Retrieve_def)
  let ?S = "bw_wrap\<lparr>bm_km := [0x100, 0x101, 0x102, 0x103, 0x104, 0x105]\<rparr>"
  let ?T = "?S\<lparr>bm_km := [0x101, 0x102, 0x103, 0x104, 0x105], bm_os := bw_os [], bm_mmu := t, bm_mmuheaps := (dm_heaps dd0)(pMMUHeap bw_heap \<mapsto> h'),
      bm_mappings := (bm_mappings ?S)(0x100 \<mapsto> m')\<rparr>"
  obtain b where w: "WrapMemory demo_os 0x300 0x3000 0 True [0x70000000] NULL 0x8000 ?S = Some (Some b, ?T\<lparr>bm_os := bw_os []\<rparr>)" "b_pMapping b = 0x100"
    unfolding WrapMemory_mapped [OF bw_wrap_request a(1)] by (simp add: wrap_tail_def PVRSRV_MEM_ZERO_def)
  obtain ht km' where h: "HASH_Insert hash_demo 0x70000000 0x120 [0x101, 0x102, 0x103, 0x104, 0x105] = (True, ht, km')"
    using hash_demo_insert [of "0x101" "0x70000000" "0x120" "[0x102, 0x103, 0x104, 0x105]"] by auto
  have "wrapped_contig m'" by (simp add: wrapped_contig_def a(2))
  then have "\<exists>fl S1. BM_Wrap demo_os 0x300 0x3000 0 True [0x70000000] NULL None bw_wrap = Some (True, 0x120, fl, S1)"
    unfolding BM_Wrap_def using s fw
    by (simp add: f w h Let_def put_hash_def pvr_get_ctx_def cong: option.case_cong)
  then show ?thesis using that by blast
qed

theorem BM_Wrap_twice_shares_witness:
  "\<exists>fl S1 b fl2. BM_Wrap demo_os 0x300 0x3000 0 True [0x70000000] NULL None bw_wrap = Some (True, 0x120, fl, S1) \<and>
     BM_Wrap demo_os 0x300 0x3000 0 True [0x70000000] NULL None S1 = Some (True, 0x120, fl2, S1\<lparr>bm_bufs := (bm_bufs S1)(0x120 \<mapsto> b\<lparr>b_ui32RefCount := 2\<rparr>)\<rparr>)"
proof -
  obtain fl S1 where w: "BM_Wrap demo_os 0x300 0x3000 0 True [0x70000000] NULL None bw_wrap = Some (True, 0x120, fl, S1)" by (rule bw_wraps)
  have f: "0x8000 = (h_ui32Attribs bw_heap AND (PVRSRV_HAP_CACHETYPE_MASK OR PVRSRV_HAP_MAPTYPE_MASK)) OR (case None of None \<Rightarrow> 0 | Some f \<Rightarrow> f)"
    "0x8000 AND PVRSRV_MEM_INTERLEAVED = 0"
    by (simp_all add: bw_heap_def pvr_defs PVRSRV_HAP_WRITECOMBINE_def PVRSRV_HAP_SINGLE_PROCESS_def PVRSRV_HAP_MULTI_PROCESS_def)
  have km: "OSAllocMem (bm_km bw_wrap) = (PVRSRV_OK, 0x120, [0x100, 0x101, 0x102, 0x103, 0x104, 0x105])" "(0x120 :: ptr) \<noteq> NULL"
    by (simp_all add: bw_wrap_def)
  have c: "bm_ctxs bw_wrap (h_pBMContext bw_heap) = Some bw_ctx" "pBufferHash bw_ctx = Some hash_demo"
    by (simp_all add: bw_wrap_def bw_heap_def bw_ctx_def)
  have ht: "table_roomy hash_demo" "table_key hash_demo [0x70000000 + 0]" "\<not> stores_key (entries hash_demo) [0x70000000 + 0]"
    using hash_demo_inv by (simp_all add: table_roomy_def table_key_def stores_key_def)
  show ?thesis using BM_Wrap_twice_shares [OF dd1_reachable(1) f km bw_wrap_request c hash_demo_inv(1) ht w] w by blast
qed

end
