(* ===== verification/Spec2Isabelle.thy ===== *)
theory Spec2Isabelle
  imports Pvr_Hash_Props Pvr_Ra_Props Pvr_Handle_Props Pvr_Resman_Props Pvr_Queue_Props Pvr_Queue_Dispatch Pvr_Power_Props Pvr_Bm_Wrap
begin

text \<open>
  Verification of the kernel services of the PowerVR SGX driver (\<^verbatim>\<open>src/pvr\<close>).

  \<^bold>\<open>The program.\<close> The module exports the SGX graphics core to user processes through an ioctl
  bridge. Behind the bridge a process owns a handle base, which maps the small integers it passes in
  to kernel objects, and a resource manager context, which records what has to be freed when it goes
  away. Device memory comes from resource arenas, which find their blocks again through hash tables;
  handle bases use hash tables too. Display commands wait in ring buffers until the sync objects they
  depend on have caught up. Power management moves the system and its registered devices between
  power states. The device has an MMU of its own: a context is a page directory with page tables, and
  the address space is split into heaps, an arena each. The buffer manager puts buffers there: it
  reserves or wraps memory, maps it into a heap and finds wrapped memory again by its address. The
  bridge, the SGX register code and the Linux glue call these services.

  \<^bold>\<open>The configuration.\<close> The release build on the 32-bit target: no assertions and debug prints
  (\<^verbatim>\<open>PVR_ASSERT\<close>, \<^verbatim>\<open>PVR_DPF\<close>), no \<^verbatim>\<open>PDUMP\<close>, statistics of the arenas included.
  Machine integers are 32-bit words, so additions and shifts wrap as in C. Pointers are addresses.

  \<^bold>\<open>Code outside the model\<close> is a parameter. The kernel's allocator is the list \<open>km\<close> of its
  answers, failures included (\<open>Pvr_Prelude\<close>). Callbacks into other parts of the driver are
  functions passed to the operations that call them: the import and free functions of an arena, the
  free functions registered with the resource manager (\<open>fns\<close>), the command functions of the
  display drivers (\<open>drv\<close>; such a function may complete commands while it runs, so it is a tree of
  the completions it calls), the power functions of the devices and the kernel's clock and interrupt
  calls (\<open>power_fns\<close>). Which physical page lies behind a kernel address or a memory
  handle is the record \<open>mmu_os\<close>; what the page allocator answers is part of the state. What a theorem needs of them is a hypothesis of that theorem
  (\<open>quiet_fns\<close>: free functions leave the resource manager's own lists alone; \<open>all_ok\<close>: no call
  fails), and its witness instantiates them.

  \<^bold>\<open>Theories.\<close>

  \<^item> \<open>Pvr_Prelude\<close>: machine types, error codes, the allocator, the interface
    \<open>invariant_system\<close> (an invariant of the operations holds in every reachable state), lemmas on
    words and lists.

  \<^item> \<open>Pvr_Hash\<close>, \<open>Pvr_Hash_Props\<close>: \<^verbatim>\<open>hash.c\<close>. Chains are lists, a key is the list of
    its words. The interface \<open>bucket_table\<close> is what the clients use; it is interpreted on the code's
    insert, remove and retrieve, across the resizes they make.

  \<^item> \<open>Pvr_Dll\<close>, \<open>Pvr_Ra\<close> and the theories \<open>Pvr_Ra_Rep\<close> to \<open>Pvr_Ra_Props\<close>:
    \<^verbatim>\<open>ra.c\<close>. Boundary tags live at addresses in a heap, linked into the segment chain and into
    the size-class free lists by their pointers. The invariant says that the chain tiles the spans of
    the arena, that the free lists hold exactly the free tags of their class, and that the hash table
    holds exactly the live ones. \<^verbatim>\<open>RA_Create\<close>, \<^verbatim>\<open>RA_Alloc\<close> and \<^verbatim>\<open>RA_Free\<close>
    keep it, return, and grant and give back blocks that are aligned, large enough and disjoint.

  \<^item> \<open>Pvr_Handle\<close> and the theories \<open>Pvr_Handle_Rep\<close> to \<open>Pvr_Handle_Props\<close>:
    \<^verbatim>\<open>handle.c\<close>. A base is its array of handle structures, whose child lists are doubly linked by
    index. The invariant says that the structures in use form a forest, that the others form the free
    list, and that the hash table mirrors the data. Allocating a handle makes it look up to its data,
    releasing one releases its subtree and nothing else, tearing a base down frees everything. These
    theorems are about bases without purging, outside batches; batches and purging are modelled.

  \<^item> \<open>Pvr_Pprev\<close>, \<open>Pvr_Resman\<close>, \<open>Pvr_Resman_Rep\<close>, \<open>Pvr_Resman_Thms\<close>,
    \<open>Pvr_Resman_Props\<close>: \<^verbatim>\<open>resman.c\<close>. Contexts and items are nodes with a next pointer and a
    back pointer to the pointer that reaches them; an access through a stale address, a double free and
    a lock that would block are \<open>None\<close>. \<open>rm_abs\<close> relates the heap to a list of contexts with
    their item lists, and every operation is shown to be the corresponding operation on that list. The
    driver's own debug check of the lists holds in every reachable state.

  \<^item> \<open>Pvr_Queue\<close>, \<open>Pvr_Queue_Ring\<close>, \<open>Pvr_Queue_Props\<close>: \<^verbatim>\<open>queue.c\<close> and
    \<^verbatim>\<open>PVRSRVSetDCState\<close>. Writing a command into the ring destroys what it overlaps; \<open>qrep\<close>
    relates the ring to the list of waiting commands. Insertion appends to that list, and sync objects
    order the commands that share them. \<open>Pvr_Queue_Run\<close>: what a command function can change by the
    completions it calls. \<open>Pvr_Flip\<close>: \<^verbatim>\<open>ProcessFlip\<close> of
    \<^verbatim>\<open>omaplfb_displayclass.c\<close>, the command function of the frame buffer driver.
    \<open>Pvr_Queue_Dispatch\<close>: processing a queue equals in-order dispatch of the waiting commands, a
    dispatched command had its sync objects up to date, and a flip is complete when its dispatch returns.

  \<^item> \<open>Pvr_Power\<close>, \<open>Pvr_Power_Props\<close>: \<^verbatim>\<open>power.c\<close> and the platform's power functions of
    \<^verbatim>\<open>sysconfig.c\<close>. The outcome of a system transition in success and failure, suspend and
    resume as a round trip, registration of devices.

  \<^item> \<open>Pvr_Mmu\<close>, \<open>Pvr_Mmu_Rep\<close> and the theories \<open>Pvr_Mmu_Range\<close> to \<open>Pvr_Mmu_Props\<close>:
    \<^verbatim>\<open>mmu.c\<close> with the address conversions of \<^verbatim>\<open>sysconfig.c\<close>. Page tables and
    directories are frames of words that are freed when their last entry goes. \<open>translate\<close> is what the
    device finds when it walks them. The invariant (\<open>Pvr_Mmu_Inv\<close>, \<open>Pvr_Mmu_Sys\<close>) says that
    directories and tables agree, that counts of valid entries are right and that contexts share the
    tables of shared heaps; mapping and unmapping change \<open>translate\<close> on the range and nowhere else.

  \<^item> \<open>Pvr_Sgx_Heaps\<close>: \<^verbatim>\<open>SGXRegisterDevice\<close> of \<^verbatim>\<open>sgxinit.c\<close>, the ten heaps with their
    addresses. \<open>Pvr_Area\<close>: the memory areas of \<^verbatim>\<open>osfunc.c\<close> and their registration in
    \<^verbatim>\<open>mmap.c\<close>.

  \<^item> \<open>Pvr_Bm\<close>, \<open>Pvr_Devmem\<close>, \<open>Pvr_Devmem_Props\<close>, \<open>Pvr_Bm_Props\<close>,
    \<open>Pvr_Bm_Wrap\<close>: \<^verbatim>\<open>buffer_manager.c\<close>. \<open>aspace\<close> is the specification of device memory: the
    live mappings, and the page under an address is the one of the mapping that holds it. Every
    sequence of \<^verbatim>\<open>DevMemoryAlloc\<close> and \<^verbatim>\<open>DevMemoryFree\<close> refines it; wrapping and
    freeing a buffer is a round trip on top of that, and wrapping memory twice shares its buffer.

  \<^bold>\<open>Loops.\<close> Loops over lists recurse on them. Loops over pointers that the code does not bound are
  \<open>partial_function (option)\<close>, where not ending is \<open>None\<close>, and the theorems show that they
  return. The recursive release of handles runs on fuel of twice the array length plus two, which is
  proved enough for every base that satisfies the invariant. The loops that poll with a timeout take
  the values they see as a list, one per turn.

  \<^bold>\<open>Bounds.\<close> The byte size of a bucket table is a 32-bit product: \<open>bucket_array\<close> has what room
  that leaves, and a write behind its end is \<open>undefined\<close>. The invariant \<open>hash_inv\<close> therefore
  says that a table has fewer than 2^30 buckets; arena and handle theorems assume fewer than 2^29
  before an insert (\<open>table_roomy\<close>) and that a handle array keeps its byte size below 2^32
  (\<open>handles_small\<close>); the code computes both sizes without a check. Arena requests are those whose
  addresses do not wrap (\<open>request_hyps\<close>). The queue theorem assumes that the size of the
  command does not exceed 32 bits.

  \<^bold>\<open>What the code gets wrong.\<close> Some theorems state behaviour the code does not mean to have: the
  shared memory records a disconnect leaves behind, the loop of
  \<^verbatim>\<open>RA_TestDelete\<close>, the restart of \<^verbatim>\<open>RA_GetNextLiveSegment\<close>, the queue of size 0, and the
  stale command lists, and the device mapping that a failed \<^verbatim>\<open>WrapMemory\<close> leaves behind.

  \<^bold>\<open>Not modelled.\<close> The bridge (\<^verbatim>\<open>bridged_*.c\<close>) and the services that only wrap buffer
  manager calls for it (\<^verbatim>\<open>devicemem.c\<close>, \<^verbatim>\<open>mem.c\<close>), swap chains (\<^verbatim>\<open>deviceclass.c\<close> and the rest of \<^verbatim>\<open>omaplfb_displayclass.c\<close>),
  per-process data, parameter buffers (\<^verbatim>\<open>pb.c\<close>), the other SGX code, and the Linux glue, of which
  the making of a memory area (\<^verbatim>\<open>mm.c\<close>) is an answer of the environment. Of the modelled files:
  the output to proc files, the PDUMP and hardware-recovery dumps, \<^verbatim>\<open>SGXGetMMUPDAddrKM\<close> and
  \<^verbatim>\<open>HASH_Delete\<close>. The registration of a context with the resource manager is an answer of the
  environment in \<open>Pvr_Bm\<close>. Interleavings of threads are modelled only where the code waits for
  another one, in the polls of the queues; the locks of the resource manager are counted, so that
  their balance is part of the theorems.
\<close>

end
